(* ===== verification/Store_Prelude.thy ===== *)
theory Store_Prelude
  imports
    Main
    "HOL-Library.Char_ord"
    "HOL-Library.List_Lexorder"
    "HOL-Library.Product_Lexorder"
    "HOL-Library.Sublist"
begin

text \<open>
  Shared ground of the development: byte strings with the decimal conversions of the Rust
  standard library, 64-bit signed arithmetic, an ordered map with the laws of a
  \<open>BTreeMap\<close>, and the interfaces (locales) that several components rely on.

  A Rust \<open>&str\<close> whose bytes matter is a HOL \<open>string\<close> with one \<open>char\<close> per UTF-8 byte, so
  \<open>length\<close> is \<open>str::len\<close> and the lexicographic order of \<open>List_Lexorder\<close> is the bytewise
  order of \<open>Ord for str\<close>.
\<close>

named_theorems model_simps \<open>unfolding rules of the model's small helper definitions\<close>

subsection \<open>Results\<close>

text \<open>A fallible operation returns \<open>Inl\<close> of its error or \<open>Inr\<close> of its value.\<close>

definition is_ok :: "'e + 'a \<Rightarrow> bool" where
  [model_simps]: "is_ok r = (case r of Inl _ \<Rightarrow> False | Inr _ \<Rightarrow> True)"

lemma is_ok_simps [simp]: "is_ok (Inr x)" "\<not> is_ok (Inl e)"
  by (simp_all add: is_ok_def)

lemma is_ok_iff: "is_ok r \<longleftrightarrow> (\<exists>x. r = Inr x)"
  by (cases r) auto

lemma result_pair_Inr:
  "(case r of Inl e \<Rightarrow> Inl e | Inr (a, b) \<Rightarrow> h a b) = Inr z
    \<longleftrightarrow> (\<exists>a b. r = Inr (a, b) \<and> h a b = Inr z)"
  by (cases r) auto

lemma result_option_Inr:
  "(case r of None \<Rightarrow> Inl e | Some a \<Rightarrow> h a) = Inr z \<longleftrightarrow> (\<exists>a. r = Some a \<and> h a = Inr z)"
  by (cases r) auto

subsection \<open>Lists\<close>

text \<open>\<open>Result::and_then\<close>, which is also what the operator \<open>?\<close> does.\<close>

definition and_then :: "'e + 'a \<Rightarrow> ('a \<Rightarrow> 'e + 'b) \<Rightarrow> 'e + 'b" where
  "and_then r f = (case r of Inl e \<Rightarrow> Inl e | Inr x \<Rightarrow> f x)"

lemma and_then_simps [simp]: "and_then (Inl e) f = Inl e" "and_then (Inr x) f = f x"
  by (simp_all add: and_then_def)

lemma and_then_Inr: "and_then r f = Inr y \<longleftrightarrow> (\<exists>x. r = Inr x \<and> f x = Inr y)"
  by (cases r) simp_all

lemma and_then_InrE:
  assumes "and_then r f = Inr y"
  obtains x where "r = Inr x" "f x = Inr y"
  using assms by (auto simp: and_then_Inr)

lemma and_then_cong [fundef_cong]:
  "r = s \<Longrightarrow> (\<And>x. s = Inr x \<Longrightarrow> f x = g x) \<Longrightarrow> and_then r f = and_then s g"
  by (cases s) simp_all

lemma not_isl: "\<not> isl r \<longleftrightarrow> (\<exists>x. r = Inr x)"
  by (cases r) simp_all

lemma set_map_filter_iff: "y \<in> set (List.map_filter f xs) \<longleftrightarrow> (\<exists>x \<in> set xs. f x = Some y)"
  by (induction xs) (auto simp: List.map_filter_simps split: option.splits)

lemma Max_cofinal:
  fixes A B :: "'a::linorder set"
  assumes "finite B" "A \<subseteq> B" and above: "\<And>b. b \<in> B \<Longrightarrow> \<exists>a \<in> A. b \<le> a"
  shows "(A = {} \<longleftrightarrow> B = {}) \<and> Max A = Max B"
proof (cases "B = {}")
  case True
  with \<open>A \<subseteq> B\<close> have "A = {}" by blast
  with True show ?thesis by simp
next
  case False
  with above have "A \<noteq> {}" by blast
  obtain q where "q \<in> A" "Max B \<le> q" using above False \<open>finite B\<close> by (meson Max_in)
  moreover have "finite A" using assms by (meson finite_subset)
  ultimately have "Max B \<le> Max A" by (meson Max_ge order_trans)
  moreover have "Max A \<le> Max B" using assms \<open>A \<noteq> {}\<close> by (intro Max_mono)
  ultimately show ?thesis using \<open>A \<noteq> {}\<close> False by simp
qed

subsection \<open>Signed 64-bit integers\<close>

definition i64_max :: int where "i64_max = 9223372036854775807"
definition i64_min :: int where "i64_min = - 9223372036854775808"

definition in_i64 :: "int \<Rightarrow> bool" where
  "in_i64 x \<longleftrightarrow> i64_min \<le> x \<and> x \<le> i64_max"

text \<open>\<open>checked_add\<close>, and the wrapping addition of a release build.\<close>

definition checked_add_i64 :: "int \<Rightarrow> int \<Rightarrow> int option" where
  "checked_add_i64 a b = (if in_i64 (a + b) then Some (a + b) else None)"

definition wrap_i64 :: "int \<Rightarrow> int" where
  "wrap_i64 x = (x + 9223372036854775808) mod 18446744073709551616 - 9223372036854775808"

lemma wrap_i64_in_range [simp]: "in_i64 (wrap_i64 x)"
  by (simp add: in_i64_def wrap_i64_def i64_min_def i64_max_def)

lemma wrap_i64_id [simp]: "in_i64 x \<Longrightarrow> wrap_i64 x = x"
  by (simp add: in_i64_def wrap_i64_def i64_min_def i64_max_def)

lemma checked_add_i64_Some:
  "checked_add_i64 a b = Some c \<longleftrightarrow> c = a + b \<and> in_i64 (a + b)"
  by (auto simp: checked_add_i64_def)

lemma checked_add_i64_None:
  "checked_add_i64 a b = None \<longleftrightarrow> \<not> in_i64 (a + b)"
  by (auto simp: checked_add_i64_def)

subsection \<open>Decimal conversions\<close>

definition is_digit :: "char \<Rightarrow> bool" where
  "is_digit c \<longleftrightarrow> 48 \<le> (of_char c :: nat) \<and> (of_char c :: nat) \<le> 57"

definition digit_char :: "nat \<Rightarrow> char" where
  "digit_char d = char_of (48 + d)"

definition digit_val :: "char \<Rightarrow> nat" where
  "digit_val c = of_char c - 48"

lemma digit_char_is_digit [simp]: "d < 10 \<Longrightarrow> is_digit (digit_char d)"
  by (simp add: is_digit_def digit_char_def)

lemma digit_val_char [simp]: "d < 10 \<Longrightarrow> digit_val (digit_char d) = d"
  by (simp add: digit_val_def digit_char_def)

text \<open>\<open>to_string\<close> of an unsigned integer.\<close>

fun show_nat :: "nat \<Rightarrow> string" where
  "show_nat n = (if n < 10 then [digit_char n] else show_nat (n div 10) @ [digit_char (n mod 10)])"

declare show_nat.simps [simp del]

lemma show_nat_less_10: "n < 10 \<Longrightarrow> show_nat n = [digit_char n]"
  by (simp add: show_nat.simps [of n])

lemma show_nat_ge_10:
  "\<not> n < 10 \<Longrightarrow> show_nat n = show_nat (n div 10) @ [digit_char (n mod 10)]"
  by (simp add: show_nat.simps [of n])

lemma show_nat_induct [case_names small large]:
  assumes "\<And>n. n < 10 \<Longrightarrow> P n"
    and "\<And>n. \<not> n < 10 \<Longrightarrow> P (n div 10) \<Longrightarrow> P n"
  shows "P (n::nat)"
  by (induction n rule: show_nat.induct) (use assms in blast)

lemma show_nat_nonempty [simp]: "show_nat n \<noteq> []"
  by (cases "n < 10") (simp_all add: show_nat_less_10 show_nat_ge_10)

lemma show_nat_digits: "list_all is_digit (show_nat n)"
  by (induction n rule: show_nat_induct) (simp_all add: show_nat_less_10 show_nat_ge_10)

lemma show_nat_hd_digit: "is_digit (hd (show_nat n))"
  using show_nat_digits [of n] by (cases "show_nat n") auto

text \<open>The digit loop of \<open>from_str\<close>, without its overflow check (applied below).\<close>

fun digits_value :: "nat \<Rightarrow> string \<Rightarrow> nat option" where
  "digits_value acc [] = Some acc"
| "digits_value acc (c # cs) =
     (if is_digit c then digits_value (acc * 10 + digit_val c) cs else None)"

lemma digits_value_append:
  "digits_value acc (s @ t) =
     (case digits_value acc s of None \<Rightarrow> None | Some a \<Rightarrow> digits_value a t)"
  by (induction s arbitrary: acc) auto

lemma digits_value_show_nat: "digits_value 0 (show_nat n) = Some n"
proof (induction n rule: show_nat_induct)
  case (small n)
  then show ?case by (simp add: show_nat_less_10)
next
  case (large n)
  then show ?case by (simp add: show_nat_ge_10 digits_value_append)
qed

lemma show_nat_inject [simp]: "show_nat m = show_nat n \<longleftrightarrow> m = n"
  by (metis digits_value_show_nat option.inject)

text \<open>\<open>to_string\<close> and \<open>parse::<i64>\<close>.\<close>

definition show_int :: "int \<Rightarrow> string" where
  "show_int i = (if i < 0 then CHR ''-'' # show_nat (nat (- i)) else show_nat (nat i))"

definition parse_unsigned :: "string \<Rightarrow> nat option" where
  "parse_unsigned s = (if s = [] then None else digits_value 0 s)"

definition parse_i64 :: "string \<Rightarrow> int option" where
  "parse_i64 s =
     (let (neg, body) =
        (case s of [] \<Rightarrow> (False, [])
         | c # cs \<Rightarrow> if c = CHR ''-'' then (True, cs)
                     else if c = CHR ''+'' then (False, cs) else (False, s))
      in case parse_unsigned body of None \<Rightarrow> None
         | Some n \<Rightarrow> (let v = (if neg then - int n else int n)
                      in if in_i64 v then Some v else None))"

lemma minus_not_digit [simp]: "\<not> is_digit (CHR ''-'')"
  by (simp add: is_digit_def)

lemma plus_not_digit [simp]: "\<not> is_digit (CHR ''+'')"
  by (simp add: is_digit_def)

lemma colon_not_digit [simp]: "\<not> is_digit (CHR '':'')"
  by (simp add: is_digit_def)

lemma parse_unsigned_show_nat [simp]: "parse_unsigned (show_nat n) = Some n"
  by (simp add: parse_unsigned_def digits_value_show_nat)

lemma parse_i64_show_int: "in_i64 i \<Longrightarrow> parse_i64 (show_int i) = Some i"
proof (cases "i < 0")
  case True
  assume "in_i64 i"
  with True show ?thesis by (simp add: show_int_def parse_i64_def)
next
  case False
  assume "in_i64 i"
  obtain c cs where s: "show_nat (nat i) = c # cs"
    by (cases "show_nat (nat i)") auto
  then have "is_digit c" using show_nat_hd_digit [of "nat i"] by simp
  then have "c \<noteq> CHR ''-''" "c \<noteq> CHR ''+''" by auto
  moreover have "parse_unsigned (c # cs) = Some (nat i)"
    using parse_unsigned_show_nat [of "nat i"] s by simp
  ultimately show ?thesis
    using False s \<open>in_i64 i\<close> by (simp add: show_int_def parse_i64_def)
qed

lemma show_int_inject [simp]: "show_int i = show_int j \<longleftrightarrow> i = j"
proof
  assume eq: "show_int i = show_int j"
  have no_minus: "show_nat n \<noteq> CHR ''-'' # t" for n t
    using show_nat_hd_digit [of n] by auto
  from eq show "i = j"
    using no_minus no_minus [symmetric] by (auto simp: show_int_def split: if_splits)
qed simp

subsection \<open>String primitives of the standard library\<close>

text \<open>\<open>strip_prefix\<close>, \<open>starts_with\<close> and \<open>contains\<close> on byte strings.\<close>

fun strip_prefix :: "string \<Rightarrow> string \<Rightarrow> string option" where
  "strip_prefix [] s = Some s"
| "strip_prefix (p # ps) [] = None"
| "strip_prefix (p # ps) (c # cs) = (if p = c then strip_prefix ps cs else None)"

definition starts_with :: "string \<Rightarrow> string \<Rightarrow> bool" where
  "starts_with s p \<longleftrightarrow> strip_prefix p s \<noteq> None"

lemma strip_prefix_Some: "strip_prefix p s = Some r \<longleftrightarrow> s = p @ r"
  by (induction p s rule: strip_prefix.induct) auto

lemma strip_prefix_append [simp]: "strip_prefix p (p @ r) = Some r"
  by (simp add: strip_prefix_Some)

lemma starts_with_iff: "starts_with s p \<longleftrightarrow> (\<exists>r. s = p @ r)"
  by (auto simp: starts_with_def strip_prefix_Some)

fun contains_str :: "string \<Rightarrow> string \<Rightarrow> bool" where
  "contains_str [] p = (p = [])"
| "contains_str (c # cs) p = (starts_with (c # cs) p \<or> contains_str cs p)"

text \<open>\<open>to_ascii_lowercase\<close> maps the bytes \<open>A\<close> to \<open>Z\<close> and keeps every other byte.\<close>

definition ascii_lower_char :: "char \<Rightarrow> char" where
  "ascii_lower_char c =
     (let n = (of_char c :: nat) in if 65 \<le> n \<and> n \<le> 90 then char_of (n + 32) else c)"

definition to_ascii_lowercase :: "string \<Rightarrow> string" where
  "to_ascii_lowercase s = map ascii_lower_char s"

definition is_ascii :: "string \<Rightarrow> bool" where
  "is_ascii s \<longleftrightarrow> list_all (\<lambda>c. (of_char c :: nat) < 128) s"

lemma is_ascii_append [simp]: "is_ascii (s @ t) \<longleftrightarrow> is_ascii s \<and> is_ascii t"
  by (simp add: is_ascii_def)

lemma is_ascii_Nil [simp]: "is_ascii []"
  by (simp add: is_ascii_def)

lemma is_ascii_Cons [simp]: "is_ascii (c # s) \<longleftrightarrow> (of_char c :: nat) < 128 \<and> is_ascii s"
  by (simp add: is_ascii_def)

lemma show_nat_ascii [simp]: "is_ascii (show_nat n)"
proof -
  have "is_digit c \<Longrightarrow> (of_char c :: nat) < 128" for c
    by (simp add: is_digit_def)
  then show ?thesis
    using show_nat_digits [of n] unfolding is_ascii_def list_all_iff by blast
qed

lemma show_int_ascii [simp]: "is_ascii (show_int i)"
  by (simp add: show_int_def)

text \<open>Lowercase hexadecimal of a digest, two digits per byte (\<open>format!("{byte:02x}")\<close>).\<close>

definition hex_digit :: "nat \<Rightarrow> char" where
  "hex_digit d = (if d < 10 then char_of (48 + d) else char_of (87 + d))"

definition hex_byte :: "char \<Rightarrow> string" where
  "hex_byte c = [hex_digit (of_char c div 16), hex_digit (of_char c mod 16)]"

definition to_hex :: "string \<Rightarrow> string" where
  "to_hex bs = concat (map hex_byte bs)"

lemma to_hex_Nil [simp]: "to_hex [] = []"
  by (simp add: to_hex_def)

lemma to_hex_Cons [simp]: "to_hex (b # bs) = hex_byte b @ to_hex bs"
  by (simp add: to_hex_def)

lemma length_hex_byte [simp]: "length (hex_byte c) = 2"
  by (simp add: hex_byte_def)

lemma length_to_hex [simp]: "length (to_hex bs) = 2 * length bs"
  by (induction bs) simp_all

lemma hex_digit_inject:
  assumes "a < 16" "b < 16" "hex_digit a = hex_digit b"
  shows "a = b"
proof -
  have v: "(of_char (hex_digit d) :: nat) = (if d < 10 then 48 + d else 87 + d)" if "d < 16" for d
    using that by (simp add: hex_digit_def)
  from assms have "(of_char (hex_digit a) :: nat) = of_char (hex_digit b)" by simp
  with v [OF assms(1)] v [OF assms(2)]
  have "(if a < 10 then 48 + a else 87 + a) = (if b < 10 then 48 + b else 87 + b)"
    by simp
  then show ?thesis by (auto split: if_splits)
qed

lemma hex_byte_inject [simp]: "hex_byte a = hex_byte b \<longleftrightarrow> a = b"
proof
  assume eq: "hex_byte a = hex_byte b"
  have lt: "(of_char c :: nat) < 256" for c
    by (metis of_char_mod_256 mod_less_divisor zero_less_numeral)
  have "(of_char a :: nat) div 16 = of_char b div 16"
    using eq lt [of a] lt [of b]
    by (intro hex_digit_inject) (auto simp: hex_byte_def less_mult_imp_div_less)
  moreover have "(of_char a :: nat) mod 16 = of_char b mod 16"
    using eq by (intro hex_digit_inject) (auto simp: hex_byte_def)
  ultimately have "(of_char a :: nat) = of_char b"
    by (metis div_mult_mod_eq)
  then show "a = b" by simp
qed simp

lemma to_hex_inject [simp]: "to_hex xs = to_hex ys \<longleftrightarrow> xs = ys"
proof
  show "to_hex xs = to_hex ys \<Longrightarrow> xs = ys"
  proof (induction xs arbitrary: ys)
    case Nil
    then show ?case by (cases ys) (auto simp: hex_byte_def)
  next
    case (Cons x xs)
    then obtain y ys' where ys: "ys = y # ys'"
      by (cases ys) (auto simp: hex_byte_def)
    with Cons.prems have "hex_byte x = hex_byte y" "to_hex xs = to_hex ys'"
      by (auto simp: append_eq_append_conv)
    with Cons.IH ys show ?case by simp
  qed
qed simp

subsection \<open>Interface: ordered maps\<close>

text \<open>
  What the code relies on when it uses a \<open>BTreeMap\<close>: a lookup after an insert, keys listed
  once and in increasing order. The client facts are about collecting a list of pairs, where
  a later pair replaces an earlier one with the same key.
\<close>

locale ordered_map =
  fixes emp :: "'m"
    and ins :: "'k::linorder \<Rightarrow> 'v \<Rightarrow> 'm \<Rightarrow> 'm"
    and look :: "'m \<Rightarrow> 'k \<Rightarrow> 'v option"
    and entries :: "'m \<Rightarrow> ('k \<times> 'v) list"
    and wf :: "'m \<Rightarrow> bool"
  assumes look_emp: "look emp k = None"
    and look_ins: "wf m \<Longrightarrow> look (ins k v m) = (look m)(k \<mapsto> v)"
    and wf_emp: "wf emp"
    and wf_ins: "wf m \<Longrightarrow> wf (ins k v m)"
    and entries_map_of: "wf m \<Longrightarrow> map_of (entries m) = look m"
    and entries_sorted: "wf m \<Longrightarrow> sorted_wrt (<) (map fst (entries m))"
begin

lemma wf_fold_ins: "wf m \<Longrightarrow> wf (fold (\<lambda>(k, v). ins k v) kvs m)"
  by (induction kvs arbitrary: m) (auto intro: wf_ins)

lemma look_fold_ins:
  "wf m \<Longrightarrow> look (fold (\<lambda>(k, v). ins k v) kvs m) = look m ++ map_of (rev kvs)"
proof (induction kvs arbitrary: m)
  case (Cons kv kvs)
  then show ?case
    by (cases kv) (auto simp: wf_ins look_ins fun_eq_iff map_add_def split: option.split)
qed simp

lemma look_collect: "look (fold (\<lambda>(k, v). ins k v) kvs emp) = map_of (rev kvs)"
  using look_fold_ins [OF wf_emp, of kvs] by (simp add: look_emp fun_eq_iff map_add_def
      split: option.split)

lemma distinct_keys: "wf m \<Longrightarrow> distinct (map fst (entries m))"
  using entries_sorted by (simp add: strict_sorted_iff)

lemma in_entries_iff: "wf m \<Longrightarrow> (k, v) \<in> set (entries m) \<longleftrightarrow> look m k = Some v"
  using distinct_keys entries_map_of by (metis map_of_eq_Some_iff)

lemma keys_eq_dom: "wf m \<Longrightarrow> set (map fst (entries m)) = dom (look m)"
  by (metis dom_map_of_conv_image_fst entries_map_of list.set_map)

end

text \<open>The model's \<open>BTreeMap\<close>: an association list in strictly increasing key order.\<close>

fun bt_insert :: "'k::linorder \<Rightarrow> 'v \<Rightarrow> ('k \<times> 'v) list \<Rightarrow> ('k \<times> 'v) list" where
  "bt_insert k v [] = [(k, v)]"
| "bt_insert k v ((k', v') # m) =
     (if k < k' then (k, v) # (k', v') # m
      else if k = k' then (k, v) # m
      else (k', v') # bt_insert k v m)"

definition bt_wf :: "('k::linorder \<times> 'v) list \<Rightarrow> bool" where
  "bt_wf m \<longleftrightarrow> sorted_wrt (<) (map fst m)"

definition bt_collect :: "('k::linorder \<times> 'v) list \<Rightarrow> ('k \<times> 'v) list" where
  "bt_collect kvs = fold (\<lambda>(k, v). bt_insert k v) kvs []"

lemma keys_bt_insert: "fst ` set (bt_insert k v m) = insert k (fst ` set m)"
  by (induction k v m rule: bt_insert.induct) auto

lemma bt_wf_insert: "bt_wf m \<Longrightarrow> bt_wf (bt_insert k v m)"
proof (induction k v m rule: bt_insert.induct)
  case (2 k v k' v' m)
  then show ?case
    using keys_bt_insert [of k v m] by (auto simp: bt_wf_def)
qed (simp add: bt_wf_def)

lemma map_of_bt_insert: "bt_wf m \<Longrightarrow> map_of (bt_insert k v m) = (map_of m)(k \<mapsto> v)"
proof (induction k v m rule: bt_insert.induct)
  case (2 k v k' v' m)
  then show ?case by (auto simp: bt_wf_def fun_eq_iff)
qed simp

interpretation bt: ordered_map "[]" bt_insert map_of "\<lambda>m. m" bt_wf
  by unfold_locales (auto simp: map_of_bt_insert bt_wf_insert, auto simp: bt_wf_def)

lemma bt_wf_collect [simp]: "bt_wf (bt_collect kvs)"
  unfolding bt_collect_def by (rule bt.wf_fold_ins [OF bt.wf_emp])

lemma map_of_bt_collect: "map_of (bt_collect kvs) = map_of (rev kvs)"
  unfolding bt_collect_def by (rule bt.look_collect)

lemma keys_bt_collect: "fst ` set (bt_collect kvs) = fst ` set kvs"
  using bt.keys_eq_dom [of "bt_collect kvs"]
  by (simp add: map_of_bt_collect dom_map_of_conv_image_fst)

lemma length_bt_collect: "length (bt_collect kvs) = card (fst ` set kvs)"
proof -
  have "distinct (map fst (bt_collect kvs))"
    by (rule bt.distinct_keys) simp
  then have "length (bt_collect kvs) = card (fst ` set (bt_collect kvs))"
    by (metis distinct_card length_map list.set_map)
  then show ?thesis by (simp add: keys_bt_collect)
qed

subsection \<open>Interface: self-delimiting encodings\<close>

text \<open>
  An encoding whose codes can be read off the front of any input. The client fact: a
  concatenation of codes determines the list of encoded values.
\<close>

locale prefix_code =
  fixes enc :: "'a \<Rightarrow> 'c list"
  assumes unframe: "enc x @ s = enc y @ t \<Longrightarrow> x = y \<and> s = t"
    and nonempty: "enc x \<noteq> []"
begin

lemma concat_inject: "concat (map enc xs) = concat (map enc ys) \<longleftrightarrow> xs = ys"
proof
  show "concat (map enc xs) = concat (map enc ys) \<Longrightarrow> xs = ys"
  proof (induction xs arbitrary: ys)
    case Nil
    then show ?case using nonempty by (cases ys) auto
  next
    case (Cons x xs)
    then obtain y ys' where ys: "ys = y # ys'"
      using nonempty by (cases ys) auto
    with Cons.prems have "x = y \<and> concat (map enc xs) = concat (map enc ys')"
      by (intro unframe) simp
    with Cons.IH ys show ?case by simp
  qed
qed simp

end

subsection \<open>Interface: state machines with an invariant\<close>

inductive reachable :: "('s \<Rightarrow> bool) \<Rightarrow> ('s \<Rightarrow> 's \<Rightarrow> bool) \<Rightarrow> 's \<Rightarrow> bool"
  for init step where
  reach_init: "init s \<Longrightarrow> reachable init step s"
| reach_step: "reachable init step s \<Longrightarrow> step s t \<Longrightarrow> reachable init step t"

locale invariant_system =
  fixes init :: "'s \<Rightarrow> bool"
    and step :: "'s \<Rightarrow> 's \<Rightarrow> bool"
    and inv :: "'s \<Rightarrow> bool"
  assumes inv_init: "init s \<Longrightarrow> inv s"
    and inv_step: "inv s \<Longrightarrow> step s t \<Longrightarrow> inv t"
begin

lemma reachable_inv: "reachable init step s \<Longrightarrow> inv s"
  by (induction rule: reachable.induct) (auto intro: inv_init inv_step)

lemma inv_steps: "step\<^sup>*\<^sup>* s t \<Longrightarrow> inv s \<Longrightarrow> inv t"
  by (induction rule: rtranclp_induct) (auto intro: inv_step)

lemma reachable_steps: "step\<^sup>*\<^sup>* s t \<Longrightarrow> reachable init step s \<Longrightarrow> reachable init step t"
  by (induction rule: rtranclp_induct) (auto intro: reach_step)

end

end
