(* ===== verification/Thread_Keys.thy ===== *)
theory Thread_Keys
  imports Store_Prelude
begin

text \<open>
  Canonical keys and evidence fingerprints (\<open>common/src/thread_group_key.rs\<close>): the
  serialization of optional fields, the key of a source thread, of a reconciler group and of
  a split group, the fingerprint of a piece of evidence, and the historical owner scope.

  Two functions of the file belong to crates outside the repository and are arguments of the
  model: \<open>nfc\<close>, the Unicode NFC normalization of \<open>unicode-normalization\<close>, and \<open>sha\<close>, the
  digest bytes of SHA-256. What a theorem needs of them is a hypothesis of that theorem.
\<close>

datatype identity_scope = Known string | Unknown

record source_identity =
  si_user_id :: int
  si_source :: string
  si_identity_scope :: identity_scope
  si_native_id :: string

subsection \<open>Serialization\<close>

definition canonical_field :: "(string \<Rightarrow> string) \<Rightarrow> string option \<Rightarrow> string" where
  "canonical_field nfc field =
     (case field of
        Some value \<Rightarrow> (let normalized = nfc value
                       in show_nat (length normalized) @ CHR '':'' # normalized)
      | None \<Rightarrow> ''-:'')"

definition canonical_serialize_v2 :: "(string \<Rightarrow> string) \<Rightarrow> string option list \<Rightarrow> string" where
  "canonical_serialize_v2 nfc flds = fold (\<lambda>field output. output @ canonical_field nfc field) flds []"

definition sha256_hex :: "(string \<Rightarrow> string) \<Rightarrow> string \<Rightarrow> string" where
  "sha256_hex sha bytes = to_hex (sha bytes)"

definition hash_fields ::
  "(string \<Rightarrow> string) \<Rightarrow> (string \<Rightarrow> string) \<Rightarrow> string option list \<Rightarrow> string" where
  "hash_fields nfc sha flds = sha256_hex sha (canonical_serialize_v2 nfc flds)"

subsection \<open>Owner scopes\<close>

definition legacy_owner_scope :: "int \<Rightarrow> string" where
  "legacy_owner_scope user_id = ''user:'' @ show_int user_id"

definition parse_legacy_owner_scope :: "string \<Rightarrow> int option" where
  "parse_legacy_owner_scope owner_scope =
     (case strip_prefix ''user:'' owner_scope of
        None \<Rightarrow> None
      | Some rest \<Rightarrow>
          (case parse_i64 rest of
             None \<Rightarrow> None
           | Some user_id \<Rightarrow>
               if legacy_owner_scope user_id = owner_scope then Some user_id else None))"

subsection \<open>Keys\<close>

definition source_thread_fields :: "source_identity \<Rightarrow> string \<Rightarrow> string option list" where
  "source_thread_fields identity scope =
     [Some ''thread-source'', Some (legacy_owner_scope (si_user_id identity)),
      Some (si_source identity), Some scope, Some (si_native_id identity)]"

definition source_thread_canonical_key ::
  "(string \<Rightarrow> string) \<Rightarrow> (string \<Rightarrow> string) \<Rightarrow> source_identity \<Rightarrow> string option" where
  "source_thread_canonical_key nfc sha identity =
     (case si_identity_scope identity of
        Unknown \<Rightarrow> None
      | Known scope \<Rightarrow> Some (hash_fields nfc sha (source_thread_fields identity scope)))"

definition reconciler_group_canonical_key ::
  "(string \<Rightarrow> string) \<Rightarrow> (string \<Rightarrow> string) \<Rightarrow> string \<Rightarrow> string" where
  "reconciler_group_canonical_key nfc sha root_thread_canonical_key =
     hash_fields nfc sha [Some ''thread-group-root'', Some root_thread_canonical_key]"

text \<open>\<open>sort_unstable\<close> on strings is bytewise; \<open>dedup\<close> drops adjacent repetitions.\<close>

definition split_group_fields :: "string \<Rightarrow> string list \<Rightarrow> string option list" where
  "split_group_fields source_group_canonical_key members =
     (let sorted_members = remdups_adj (sort members)
      in Some ''thread-group-split'' # Some source_group_canonical_key # map Some sorted_members)"

definition split_group_canonical_key ::
  "(string \<Rightarrow> string) \<Rightarrow> (string \<Rightarrow> string) \<Rightarrow> string \<Rightarrow> string list \<Rightarrow> string" where
  "split_group_canonical_key nfc sha source_group_canonical_key members =
     hash_fields nfc sha (split_group_fields source_group_canonical_key members)"

subsection \<open>Evidence fingerprints\<close>

definition append_identity_fields ::
  "string option list \<Rightarrow> source_identity \<Rightarrow> string \<Rightarrow> string option list" where
  "append_identity_fields flds identity owner_scope = flds @
     [Some (si_source identity),
      Some (case si_identity_scope identity of Known _ \<Rightarrow> ''known'' | Unknown \<Rightarrow> ''unknown''),
      (case si_identity_scope identity of Known value \<Rightarrow> Some value | Unknown \<Rightarrow> None),
      Some owner_scope,
      Some (si_native_id identity)]"

text \<open>The attributes of one piece of evidence, in the order of the function's parameters.\<close>

record evidence =
  ev_fingerprint_version :: string
  ev_origin :: string
  ev_adapter_version :: string
  ev_subject :: source_identity
  ev_candidate_parent :: "source_identity option"
  ev_relation_kind :: string
  ev_evidence_kind :: string
  ev_polarity :: string
  ev_source_confidence :: string
  ev_source_record_locator :: string

definition evidence_fields :: "evidence \<Rightarrow> string option list" where
  "evidence_fields e =
     (let flds = [Some (ev_fingerprint_version e), Some (ev_origin e), Some (ev_adapter_version e)];
          flds = append_identity_fields flds (ev_subject e)
                     (legacy_owner_scope (si_user_id (ev_subject e)));
          flds = flds @
            [Some (if ev_candidate_parent e \<noteq> None then ''present'' else ''absent'')];
          flds = (case ev_candidate_parent e of
              Some parent \<Rightarrow>
                append_identity_fields flds parent (legacy_owner_scope (si_user_id parent))
            | None \<Rightarrow> flds)
      in flds @
         [Some (ev_relation_kind e), Some (ev_evidence_kind e), Some (ev_polarity e),
          Some (ev_source_confidence e), Some (ev_source_record_locator e)])"

definition evidence_fingerprint ::
  "(string \<Rightarrow> string) \<Rightarrow> (string \<Rightarrow> string) \<Rightarrow> evidence \<Rightarrow> string" where
  "evidence_fingerprint nfc sha e = hash_fields nfc sha (evidence_fields e)"

subsection \<open>Framing\<close>

lemma canonical_serialize_concat:
  "canonical_serialize_v2 nfc flds = concat (map (canonical_field nfc) flds)"
proof -
  have "fold (\<lambda>field output. output @ canonical_field nfc field) flds acc =
      acc @ concat (map (canonical_field nfc) flds)" for acc
    by (induction flds arbitrary: acc) simp_all
  then show ?thesis by (simp add: canonical_serialize_v2_def)
qed

text \<open>A run of digits ends at the first byte that is not one.\<close>

lemma digits_colon_split:
  assumes "list_all is_digit ds" "list_all is_digit es"
    and "ds @ CHR '':'' # s = es @ CHR '':'' # t"
  shows "ds = es \<and> s = t"
  using assms
proof (induction ds arbitrary: es)
  case Nil
  then show ?case by (cases es) auto
next
  case (Cons d ds)
  then show ?case by (cases es) auto
qed

lemma canonical_field_unframe:
  assumes eq: "canonical_field (\<lambda>v. v) x @ s = canonical_field (\<lambda>v. v) y @ t"
  shows "x = y \<and> s = t"
proof -
  have minus: "show_nat n @ u \<noteq> CHR ''-'' # v" for n u v
    using show_nat_hd_digit [of n] by (cases "show_nat n") auto
  show ?thesis
  proof (cases x)
    case None
    with eq minus [symmetric] show ?thesis
      by (cases y) (auto simp: canonical_field_def)
  next
    case (Some a)
    with eq minus obtain b where y: "y = Some b"
      by (cases y) (auto simp: canonical_field_def)
    with eq Some have "show_nat (length a) @ CHR '':'' # a @ s
        = show_nat (length b) @ CHR '':'' # b @ t"
      by (simp add: canonical_field_def Let_def)
    then have "show_nat (length a) = show_nat (length b) \<and> a @ s = b @ t"
      by (rule digits_colon_split [OF show_nat_digits show_nat_digits])
    then show ?thesis using Some y by auto
  qed
qed

interpretation field_code: prefix_code "canonical_field (\<lambda>v. v)"
  by unfold_locales
    (use canonical_field_unframe in blast, auto simp: canonical_field_def Let_def split: option.split)

lemma canonical_field_nfc: "canonical_field nfc field = canonical_field (\<lambda>v. v) (map_option nfc field)"
  by (cases field) (simp_all add: canonical_field_def)

lemma canonical_serialize_eq:
  "canonical_serialize_v2 nfc fs = canonical_serialize_v2 nfc gs
     \<longleftrightarrow> map (map_option nfc) fs = map (map_option nfc) gs"
proof -
  have "concat (map (canonical_field nfc) fs) =
      concat (map (canonical_field (\<lambda>v. v)) (map (map_option nfc) fs))" for fs
    by (simp add: comp_def canonical_field_nfc [of nfc, symmetric])
  then show ?thesis
    unfolding canonical_serialize_concat by (simp only: field_code.concat_inject)
qed

text \<open>
  The serialization is injective up to normalization: two field lists serialize to the
  same bytes exactly when they have the same length and agree field by field, absent flds
  included, after NFC.
\<close>

theorem canonical_serialize_v2_inject:
  "canonical_serialize_v2 nfc fs = canonical_serialize_v2 nfc gs
     \<longleftrightarrow> map (map_option nfc) fs = map (map_option nfc) gs"
  by (rule canonical_serialize_eq)

subsection \<open>Owner scopes round trip\<close>

lemma legacy_owner_scope_inject [simp]:
  "legacy_owner_scope a = legacy_owner_scope b \<longleftrightarrow> a = b"
  by (simp add: legacy_owner_scope_def)

lemma legacy_owner_scope_ascii [simp]: "is_ascii (legacy_owner_scope u)"
  by (simp add: legacy_owner_scope_def)

lemma parse_i64_in_range: "parse_i64 s = Some u \<Longrightarrow> in_i64 u"
  by (auto simp: parse_i64_def Let_def split: prod.splits option.splits if_splits)

text \<open>
  The parser of historical owner scopes accepts exactly the canonical spelling of a
  64-bit user id: it inverts \<open>legacy_owner_scope\<close> and rejects every other string, among
  them signs, leading zeros and out-of-range numbers.
\<close>

theorem parse_legacy_owner_scope_iff:
  "parse_legacy_owner_scope s = Some u \<longleftrightarrow> in_i64 u \<and> s = legacy_owner_scope u"
proof
  assume "parse_legacy_owner_scope s = Some u"
  then show "in_i64 u \<and> s = legacy_owner_scope u"
    by (auto simp: parse_legacy_owner_scope_def dest: parse_i64_in_range
        split: option.splits if_splits)
next
  assume "in_i64 u \<and> s = legacy_owner_scope u"
  moreover have "strip_prefix ''user:'' (legacy_owner_scope u) = Some (show_int u)"
    unfolding legacy_owner_scope_def by (rule strip_prefix_append)
  ultimately show "parse_legacy_owner_scope s = Some u"
    by (simp add: parse_legacy_owner_scope_def parse_i64_show_int)
qed

subsection \<open>What a key determines\<close>

text \<open>
  Equal hashes of two field lists, when SHA-256 does not collide on these two serializations,
  are equal field lists up to NFC.
\<close>

lemma hash_fields_eqD:
  assumes "hash_fields nfc sha fs = hash_fields nfc sha gs"
    and "sha (canonical_serialize_v2 nfc fs) = sha (canonical_serialize_v2 nfc gs)
      \<Longrightarrow> canonical_serialize_v2 nfc fs = canonical_serialize_v2 nfc gs"
  shows "map (map_option nfc) fs = map (map_option nfc) gs"
  using assms by (simp add: hash_fields_def sha256_hex_def canonical_serialize_eq)

text \<open>
  The canonical key of a source thread identifies its owner and its native session: two
  identities with the same key have the same user id, and the same source, scope and native
  id up to NFC, provided SHA-256 does not collide on the two serializations and NFC leaves
  ASCII text unchanged.
\<close>

theorem source_thread_canonical_key_determines_identity:
  assumes nfc_ascii: "\<And>s. is_ascii s \<Longrightarrow> nfc s = s"
    and scopes: "si_identity_scope a = Known v" "si_identity_scope b = Known w"
    and no_collision:
      "sha (canonical_serialize_v2 nfc (source_thread_fields a v))
         = sha (canonical_serialize_v2 nfc (source_thread_fields b w))
       \<Longrightarrow> canonical_serialize_v2 nfc (source_thread_fields a v)
         = canonical_serialize_v2 nfc (source_thread_fields b w)"
    and same_key: "source_thread_canonical_key nfc sha a = source_thread_canonical_key nfc sha b"
  shows "si_user_id a = si_user_id b \<and> nfc (si_source a) = nfc (si_source b)
    \<and> nfc v = nfc w \<and> nfc (si_native_id a) = nfc (si_native_id b)"
proof -
  have "map (map_option nfc) (source_thread_fields a v)
      = map (map_option nfc) (source_thread_fields b w)"
    using same_key scopes no_collision
    by (intro hash_fields_eqD [where sha = sha]) (simp_all add: source_thread_canonical_key_def)
  then show ?thesis by (simp add: source_thread_fields_def nfc_ascii)
qed

theorem source_thread_canonical_key_determines_identity_witness:
  "source_thread_canonical_key (\<lambda>s. s) (\<lambda>s. s)
     \<lparr>si_user_id = 7, si_source = ''codex'', si_identity_scope = Known ''s'', si_native_id = ''n''\<rparr>
   \<noteq> source_thread_canonical_key (\<lambda>s. s) (\<lambda>s. s)
     \<lparr>si_user_id = 8, si_source = ''codex'', si_identity_scope = Known ''s'', si_native_id = ''n''\<rparr>"
  using source_thread_canonical_key_determines_identity [of "\<lambda>s. s"
      "\<lparr>si_user_id = 7, si_source = ''codex'', si_identity_scope = Known ''s'', si_native_id = ''n''\<rparr>"
      "''s''"
      "\<lparr>si_user_id = 8, si_source = ''codex'', si_identity_scope = Known ''s'', si_native_id = ''n''\<rparr>"
      "''s''" "\<lambda>s. s"]
  by auto

subsection \<open>Split groups\<close>

lemma distinct_remdups_adj_sorted: "sorted xs \<Longrightarrow> distinct (remdups_adj xs)"
proof (induction xs rule: remdups_adj.induct)
  case (3 x y xs)
  then have "x \<noteq> y \<Longrightarrow> x \<notin> set (y # xs)"
    by (auto dest: order.antisym)
  with 3 show ?case by auto
qed simp_all

lemma remdups_adj_sort_eq_iff:
  "remdups_adj (sort xs) = remdups_adj (sort ys) \<longleftrightarrow> set xs = set ys"
proof
  assume "remdups_adj (sort xs) = remdups_adj (sort ys)"
  then show "set xs = set ys" by (metis remdups_adj_set set_sort)
next
  assume "set xs = set ys"
  then show "remdups_adj (sort xs) = remdups_adj (sort ys)"
    by (intro sorted_distinct_set_unique) (simp_all add: distinct_remdups_adj_sorted)
qed

text \<open>
  The key of a split group does not depend on the order of the members or on
  repetitions, and it determines the set of members: two splits of one source group have the
  same key exactly when they have the same members, for keys that NFC leaves alone (the stored
  keys are hexadecimal) and a hash that does not collide on the two serializations.
\<close>

theorem split_group_canonical_key_eq_iff:
  assumes nfc_keys: "\<And>k. k \<in> set ms \<union> set ns \<Longrightarrow> nfc k = k"
    and no_collision:
      "sha (canonical_serialize_v2 nfc (split_group_fields g ms))
         = sha (canonical_serialize_v2 nfc (split_group_fields g ns))
       \<Longrightarrow> canonical_serialize_v2 nfc (split_group_fields g ms)
         = canonical_serialize_v2 nfc (split_group_fields g ns)"
  shows "split_group_canonical_key nfc sha g ms = split_group_canonical_key nfc sha g ns
    \<longleftrightarrow> set ms = set ns"
proof
  assume "set ms = set ns"
  then have "split_group_fields g ms = split_group_fields g ns"
    by (simp add: split_group_fields_def remdups_adj_sort_eq_iff)
  then show "split_group_canonical_key nfc sha g ms = split_group_canonical_key nfc sha g ns"
    by (simp add: split_group_canonical_key_def)
next
  assume "split_group_canonical_key nfc sha g ms = split_group_canonical_key nfc sha g ns"
  then have "map (map_option nfc) (split_group_fields g ms)
      = map (map_option nfc) (split_group_fields g ns)"
    unfolding split_group_canonical_key_def by (rule hash_fields_eqD) (rule no_collision)
  then have "map Some (map nfc (remdups_adj (sort ms))) = map Some (map nfc (remdups_adj (sort ns)))"
    by (simp add: split_group_fields_def comp_def)
  then have "map nfc (remdups_adj (sort ms)) = map nfc (remdups_adj (sort ns))"
    by (simp only: inj_map_eq_map inj_Some)
  moreover have "map nfc (remdups_adj (sort ms)) = remdups_adj (sort ms)"
    "map nfc (remdups_adj (sort ns)) = remdups_adj (sort ns)"
    using nfc_keys by (auto intro!: map_idI)
  ultimately show "set ms = set ns" by (simp add: remdups_adj_sort_eq_iff)
qed

theorem split_group_canonical_key_eq_iff_witness:
  "split_group_canonical_key (\<lambda>s. s) (\<lambda>s. s) ''g'' [''b'', ''a'', ''b'']
     = split_group_canonical_key (\<lambda>s. s) (\<lambda>s. s) ''g'' [''a'', ''b'']
   \<and> split_group_canonical_key (\<lambda>s. s) (\<lambda>s. s) ''g'' [''a'']
     \<noteq> split_group_canonical_key (\<lambda>s. s) (\<lambda>s. s) ''g'' [''a'', ''b'']"
  using split_group_canonical_key_eq_iff
      [of "[''b'', ''a'', ''b'']" "[''a'', ''b'']" "\<lambda>s. s" "\<lambda>s. s" "''g''"]
    split_group_canonical_key_eq_iff [of "[''a'']" "[''a'', ''b'']" "\<lambda>s. s" "\<lambda>s. s" "''g''"]
  by auto

subsection \<open>Evidence\<close>

text \<open>Two identities agree up to NFC, field by field.\<close>

fun scope_equiv :: "(string \<Rightarrow> string) \<Rightarrow> identity_scope \<Rightarrow> identity_scope \<Rightarrow> bool" where
  "scope_equiv nfc (Known v) (Known w) = (nfc v = nfc w)"
| "scope_equiv nfc Unknown Unknown = True"
| "scope_equiv nfc _ _ = False"

definition identity_equiv ::
  "(string \<Rightarrow> string) \<Rightarrow> source_identity \<Rightarrow> source_identity \<Rightarrow> bool" where
  "identity_equiv nfc a b \<longleftrightarrow> si_user_id a = si_user_id b \<and> nfc (si_source a) = nfc (si_source b)
     \<and> scope_equiv nfc (si_identity_scope a) (si_identity_scope b)
     \<and> nfc (si_native_id a) = nfc (si_native_id b)"

lemma identity_fields_inject:
  assumes nfc_ascii: "\<And>s. is_ascii s \<Longrightarrow> nfc s = s"
  shows "map (map_option nfc) (append_identity_fields [] a (legacy_owner_scope (si_user_id a)))
      = map (map_option nfc) (append_identity_fields [] b (legacy_owner_scope (si_user_id b)))
    \<longleftrightarrow> identity_equiv nfc a b"
  by (cases "si_identity_scope a"; cases "si_identity_scope b")
    (auto simp: append_identity_fields_def identity_equiv_def nfc_ascii)

lemma evidence_fields_split:
  "evidence_fields e =
     [Some (ev_fingerprint_version e), Some (ev_origin e), Some (ev_adapter_version e)]
     @ append_identity_fields [] (ev_subject e) (legacy_owner_scope (si_user_id (ev_subject e)))
     @ (case ev_candidate_parent e of None \<Rightarrow> [Some ''absent'']
        | Some p \<Rightarrow> Some ''present''
            # append_identity_fields [] p (legacy_owner_scope (si_user_id p)))
     @ [Some (ev_relation_kind e), Some (ev_evidence_kind e), Some (ev_polarity e),
        Some (ev_source_confidence e), Some (ev_source_record_locator e)]"
  by (cases "ev_candidate_parent e")
    (simp_all add: evidence_fields_def append_identity_fields_def Let_def)

lemma length_identity_fields [simp]: "length (append_identity_fields [] a u) = 5"
  by (simp add: append_identity_fields_def)

definition evidence_equiv :: "(string \<Rightarrow> string) \<Rightarrow> evidence \<Rightarrow> evidence \<Rightarrow> bool" where
  "evidence_equiv nfc e f \<longleftrightarrow>
     nfc (ev_fingerprint_version e) = nfc (ev_fingerprint_version f)
     \<and> nfc (ev_origin e) = nfc (ev_origin f)
     \<and> nfc (ev_adapter_version e) = nfc (ev_adapter_version f)
     \<and> identity_equiv nfc (ev_subject e) (ev_subject f)
     \<and> rel_option (identity_equiv nfc) (ev_candidate_parent e) (ev_candidate_parent f)
     \<and> nfc (ev_relation_kind e) = nfc (ev_relation_kind f)
     \<and> nfc (ev_evidence_kind e) = nfc (ev_evidence_kind f)
     \<and> nfc (ev_polarity e) = nfc (ev_polarity f)
     \<and> nfc (ev_source_confidence e) = nfc (ev_source_confidence f)
     \<and> nfc (ev_source_record_locator e) = nfc (ev_source_record_locator f)"

lemma evidence_fields_inject:
  assumes nfc_ascii: "\<And>s. is_ascii s \<Longrightarrow> nfc s = s"
  shows "map (map_option nfc) (evidence_fields e) = map (map_option nfc) (evidence_fields f)
    \<longleftrightarrow> evidence_equiv nfc e f"
proof -
  have inject: "map (map_option nfc) (append_identity_fields [] a (legacy_owner_scope (si_user_id a)))
      = map (map_option nfc) (append_identity_fields [] b (legacy_owner_scope (si_user_id b)))
    \<longleftrightarrow> identity_equiv nfc a b" for a b
    by (rule identity_fields_inject) (rule nfc_ascii)
  show ?thesis
    by (cases "ev_candidate_parent e"; cases "ev_candidate_parent f")
      (auto simp: evidence_fields_split evidence_equiv_def inject nfc_ascii)
qed

text \<open>
  C36. The evidence fingerprint deduplicates exactly the repeated evidence: two pieces of
  evidence have the same fingerprint if and only if all their attributes agree up to NFC,
  where an absent candidate parent never equals a present one and an unknown identity scope
  never equals a known one.
\<close>

theorem evidence_fingerprint_eq_iff:
  assumes nfc_ascii: "\<And>s. is_ascii s \<Longrightarrow> nfc s = s"
    and no_collision:
      "sha (canonical_serialize_v2 nfc (evidence_fields e))
         = sha (canonical_serialize_v2 nfc (evidence_fields f))
       \<Longrightarrow> canonical_serialize_v2 nfc (evidence_fields e)
         = canonical_serialize_v2 nfc (evidence_fields f)"
  shows "evidence_fingerprint nfc sha e = evidence_fingerprint nfc sha f
    \<longleftrightarrow> evidence_equiv nfc e f"
proof -
  have "evidence_fingerprint nfc sha e = evidence_fingerprint nfc sha f
    \<longleftrightarrow> canonical_serialize_v2 nfc (evidence_fields e)
        = canonical_serialize_v2 nfc (evidence_fields f)"
    using no_collision by (auto simp: evidence_fingerprint_def hash_fields_def sha256_hex_def)
  also have "\<dots> \<longleftrightarrow> evidence_equiv nfc e f"
    by (simp add: canonical_serialize_eq evidence_fields_inject nfc_ascii)
  finally show ?thesis .
qed

text \<open>A concrete piece of evidence, for the witness.\<close>

definition sample_identity :: source_identity where
  "sample_identity = \<lparr>si_user_id = 7, si_source = ''codex'', si_identity_scope = Unknown,
     si_native_id = ''native-1''\<rparr>"

definition sample_evidence :: "source_identity option \<Rightarrow> evidence" where
  "sample_evidence parent = \<lparr>ev_fingerprint_version = ''v1'', ev_origin = ''adapter'',
     ev_adapter_version = ''adapter@1'', ev_subject = sample_identity,
     ev_candidate_parent = parent, ev_relation_kind = ''delegated'',
     ev_evidence_kind = ''source_event'', ev_polarity = ''supports'',
     ev_source_confidence = ''exact'', ev_source_record_locator = ''record''\<rparr>"

theorem evidence_fingerprint_eq_iff_witness:
  "evidence_fingerprint (\<lambda>s. s) (\<lambda>s. s) (sample_evidence None)
     \<noteq> evidence_fingerprint (\<lambda>s. s) (\<lambda>s. s) (sample_evidence (Some sample_identity))"
  using evidence_fingerprint_eq_iff [of "\<lambda>s. s" "\<lambda>s. s" "sample_evidence None"
      "sample_evidence (Some sample_identity)"]
  by (simp add: evidence_equiv_def sample_evidence_def)

end
