(* ===== verification/Group_Domain.thy ===== *)
theory Group_Domain
  imports Thread_Keys "HOL-Library.Multiset"
begin

text \<open>
  The pure rules of thread grouping (\<open>app/src/app/thread_group/domain.rs\<close>): choosing the canonical parent of a thread
  among candidates, refusing a relation that would close a cycle, and splitting a group.
\<close>

subsection \<open>Data\<close>

datatype group_status = GroupActive | GroupRedirected | GroupSplit
datatype membership_role = RoleRoot | RoleMember
datatype membership_state = MemberActive | MemberDeleted | MemberRedirected
datatype membership_provenance = ByReconciler | ByOperator

record membership =
  thread_canonical_key :: string
  role :: membership_role
  member_state :: membership_state
  provenance :: membership_provenance
  deleted_at :: "int option"

record thread_group =
  group_canonical_key :: string
  status :: group_status
  memberships :: "membership list"

record split_outcome =
  split_source :: thread_group
  successors :: "thread_group list"

datatype group_error =
  SourceNotActive | TooFewPartitions | EmptyPartition | DuplicateMember string | MembershipMismatch

datatype relation_type = Delegated | Fork | Continuation

text \<open>\<open>#[derive(PartialOrd, Ord)]\<close> on an enum orders the constructors as declared.\<close>

fun relation_rank :: "relation_type \<Rightarrow> nat" where
  "relation_rank Delegated = 0"
| "relation_rank Fork = 1"
| "relation_rank Continuation = 2"

lemma relation_rank_inject [simp]: "relation_rank a = relation_rank b \<longleftrightarrow> a = b"
  by (cases a; cases b) simp_all

instantiation relation_type :: linorder
begin

definition less_eq_relation_type :: "relation_type \<Rightarrow> relation_type \<Rightarrow> bool" where
  "less_eq_relation_type a b \<longleftrightarrow> relation_rank a \<le> relation_rank b"

definition less_relation_type :: "relation_type \<Rightarrow> relation_type \<Rightarrow> bool" where
  "less_relation_type a b \<longleftrightarrow> relation_rank a < relation_rank b"

instance
  by standard (auto simp: less_eq_relation_type_def less_relation_type_def)

end

datatype source_confidence = Exact | Strong | Heuristic | Unsupported

datatype candidate_evidence = SourceEvidence source_confidence | OperatorConfirmation

record candidate =
  parent_key :: string
  relation_type :: relation_type
  cand_evidence :: candidate_evidence

datatype candidate_selection =
  Selected candidate | Conflict "candidate list" | NoSelection

subsection \<open>Operations\<close>

fun evidence_rank :: "candidate_evidence \<Rightarrow> nat option" where
  "evidence_rank (SourceEvidence Exact) = Some 3"
| "evidence_rank OperatorConfirmation = Some 2"
| "evidence_rank (SourceEvidence Strong) = Some 1"
| "evidence_rank (SourceEvidence Heuristic) = None"
| "evidence_rank (SourceEvidence Unsupported) = None"

definition candidate_rank :: "candidate \<Rightarrow> nat option" where
  "candidate_rank c = evidence_rank (cand_evidence c)"

definition candidate_key :: "candidate \<Rightarrow> string \<times> relation_type" where
  "candidate_key c = (parent_key c, relation_type c)"

definition best_by_parent_step ::
  "candidate \<Rightarrow> ((string \<times> relation_type) \<times> candidate) list
   \<Rightarrow> ((string \<times> relation_type) \<times> candidate) list" where
  "best_by_parent_step c best =
     (case candidate_rank c of
        None \<Rightarrow> best
      | Some rank \<Rightarrow>
          (case map_of best (candidate_key c) of
             Some existing \<Rightarrow>
               if (case candidate_rank existing of None \<Rightarrow> False | Some current \<Rightarrow> rank \<le> current)
               then best else bt_insert (candidate_key c) c best
           | None \<Rightarrow> bt_insert (candidate_key c) c best))"

definition select_parent_candidate :: "candidate list \<Rightarrow> candidate_selection" where
  "select_parent_candidate candidates =
     (let best = fold best_by_parent_step candidates [];
          ranks = List.map_filter (candidate_rank \<circ> snd) best
      in if ranks = [] then NoSelection
         else let highest = Max (set ranks);
                  winners = filter (\<lambda>c. candidate_rank c = Some highest) (map snd best)
              in case winners of [c] \<Rightarrow> Selected c | _ \<Rightarrow> Conflict winners)"

text \<open>The depth-first search keeps its stack with the top (the end of the \<open>Vec\<close>) first.\<close>

definition add_child ::
  "string \<times> string \<Rightarrow> (string \<times> string list) list \<Rightarrow> (string \<times> string list) list" where
  "add_child edge m =
     (case edge of (parent, child) \<Rightarrow>
        bt_insert parent ((case map_of m parent of None \<Rightarrow> [] | Some cs \<Rightarrow> cs) @ [child]) m)"

definition children_by_parent :: "(string \<times> string) list \<Rightarrow> (string \<times> string list) list" where
  "children_by_parent active_edges = fold add_child active_edges []"

function search_parent ::
  "(string \<times> string list) list \<Rightarrow> string \<Rightarrow> string list \<Rightarrow> string set \<Rightarrow> bool" where
  "search_parent m parent [] visited = False"
| "search_parent m parent (current # pending) visited =
     (if current \<in> visited then search_parent m parent pending visited
      else if current = parent then True
      else search_parent m parent
        ((case map_of m current of None \<Rightarrow> [] | Some cs \<Rightarrow> rev cs) @ pending)
        (insert current visited))"
  by pat_completeness auto
termination
proof (relation "measures [\<lambda>(m, parent, pending, visited).
      card ((set pending \<union> (\<Union>cs \<in> snd ` set m. set cs)) - visited),
    \<lambda>(m, parent, pending, visited). length pending]", goal_cases)
  case (2 m parent current pending visited)
  then have "(set pending \<union> (\<Union>cs \<in> snd ` set m. set cs)) - visited
      \<subseteq> (set (current # pending) \<union> (\<Union>cs \<in> snd ` set m. set cs)) - visited"
    by auto
  then have "card ((set pending \<union> (\<Union>cs \<in> snd ` set m. set cs)) - visited)
      \<le> card ((set (current # pending) \<union> (\<Union>cs \<in> snd ` set m. set cs)) - visited)"
    by (intro card_mono) auto
  then show ?case by auto
next
  case (3 m parent current pending visited)
  let ?new = "(case map_of m current of None \<Rightarrow> [] | Some cs \<Rightarrow> rev cs) @ pending"
  have "set ?new \<subseteq> set pending \<union> (\<Union>cs \<in> snd ` set m. set cs)"
    by (cases "map_of m current") (auto dest!: map_of_SomeD intro: rev_image_eqI)
  then have "(set ?new \<union> (\<Union>cs \<in> snd ` set m. set cs)) - insert current visited
      \<subset> (set (current # pending) \<union> (\<Union>cs \<in> snd ` set m. set cs)) - visited"
    using 3 by auto
  then have "card ((set ?new \<union> (\<Union>cs \<in> snd ` set m. set cs)) - insert current visited)
      < card ((set (current # pending) \<union> (\<Union>cs \<in> snd ` set m. set cs)) - visited)"
    by (intro psubset_card_mono) auto
  then show ?case by simp
qed simp

definition would_create_cycle :: "(string \<times> string) list \<Rightarrow> string \<Rightarrow> string \<Rightarrow> bool" where
  "would_create_cycle active_edges parent child =
     (if parent = child then True
      else search_parent (children_by_parent active_edges) parent [child] {})"

definition successor_membership :: "membership \<Rightarrow> membership" where
  "successor_membership m = \<lparr>thread_canonical_key = thread_canonical_key m, role = role m,
     member_state = member_state m, provenance = ByOperator, deleted_at = deleted_at m\<rparr>"

fun take_partition ::
  "(string \<times> membership) list \<Rightarrow> string set \<Rightarrow> string list
   \<Rightarrow> group_error + (string set \<times> membership list)" where
  "take_partition by_key assigned [] = Inr (assigned, [])"
| "take_partition by_key assigned (key # ks) =
     (if key \<in> assigned then Inl (DuplicateMember key)
      else case map_of by_key key of
        None \<Rightarrow> Inl MembershipMismatch
      | Some member \<Rightarrow>
          (case take_partition by_key (insert key assigned) ks of
             Inl e \<Rightarrow> Inl e
           | Inr (assigned', ms) \<Rightarrow> Inr (assigned', successor_membership member # ms)))"

fun take_partitions ::
  "(string \<Rightarrow> string) \<Rightarrow> (string \<Rightarrow> string) \<Rightarrow> string \<Rightarrow> (string \<times> membership) list \<Rightarrow> string set
   \<Rightarrow> string list list \<Rightarrow> group_error + (string set \<times> thread_group list)" where
  "take_partitions nfc sha source_key by_key assigned [] = Inr (assigned, [])"
| "take_partitions nfc sha source_key by_key assigned (part # ps) =
     (if part = [] then Inl EmptyPartition
      else case take_partition by_key assigned part of
        Inl e \<Rightarrow> Inl e
      | Inr (assigned', ms) \<Rightarrow>
          (case take_partitions nfc sha source_key by_key assigned' ps of
             Inl e \<Rightarrow> Inl e
           | Inr (assigned'', gs) \<Rightarrow>
               Inr (assigned'',
                 \<lparr>group_canonical_key =
                    split_group_canonical_key nfc sha source_key (map thread_canonical_key ms),
                  status = GroupActive, memberships = ms\<rparr> # gs)))"

definition members_by_key :: "thread_group \<Rightarrow> (string \<times> membership) list" where
  "members_by_key g = bt_collect (map (\<lambda>m. (thread_canonical_key m, m)) (memberships g))"

definition split_group ::
  "(string \<Rightarrow> string) \<Rightarrow> (string \<Rightarrow> string) \<Rightarrow> thread_group \<Rightarrow> string list list
   \<Rightarrow> group_error + split_outcome" where
  "split_group nfc sha g partitions =
     (if status g \<noteq> GroupActive then Inl SourceNotActive
      else if length partitions < 2 then Inl TooFewPartitions
      else let by_key = members_by_key g in
        case take_partitions nfc sha (group_canonical_key g) by_key {} partitions of
          Inl e \<Rightarrow> Inl e
        | Inr (assigned, gs) \<Rightarrow>
            if card assigned \<noteq> length by_key then Inl MembershipMismatch
            else Inr \<lparr>split_source = g\<lparr>status := GroupSplit,
                        memberships := map (\<lambda>m. m\<lparr>member_state := MemberRedirected\<rparr>) (memberships g)\<rparr>,
                      successors = gs\<rparr>)"


subsection \<open>Choosing a parent\<close>

text \<open>Rank and key determine a candidate: the rank fixes the evidence.\<close>

lemma evidence_rank_inject:
  "evidence_rank a = Some r \<Longrightarrow> evidence_rank b = Some r \<Longrightarrow> a = b"
  by (cases a rule: evidence_rank.cases; cases b rule: evidence_rank.cases) auto

lemma candidate_eqI:
  assumes "candidate_key c = candidate_key d" "candidate_rank c = Some r" "candidate_rank d = Some r"
  shows "c = d"
  using assms evidence_rank_inject [of "cand_evidence c" r "cand_evidence d"]
  by (cases c; cases d) (auto simp: candidate_key_def candidate_rank_def)

text \<open>
  What the loop over the candidates maintains: the map holds, per key, a candidate of the
  greatest rank seen, and holds every key that was seen with a rank.
\<close>

definition best_of :: "candidate list \<Rightarrow> ((string \<times> relation_type) \<times> candidate) list \<Rightarrow> bool" where
  "best_of cs best \<longleftrightarrow> bt_wf best
     \<and> (\<forall>k c. map_of best k = Some c \<longrightarrow>
          c \<in> set cs \<and> candidate_key c = k \<and> candidate_rank c \<noteq> None)
     \<and> (\<forall>d \<in> set cs. \<forall>r. candidate_rank d = Some r \<longrightarrow>
          (\<exists>c q. map_of best (candidate_key d) = Some c \<and> candidate_rank c = Some q \<and> r \<le> q))"

lemma best_ofD:
  "best_of cs best \<Longrightarrow> map_of best k = Some c
    \<Longrightarrow> c \<in> set cs \<and> candidate_key c = k \<and> candidate_rank c \<noteq> None"
  unfolding best_of_def by blast

lemma best_of_step:
  assumes inv: "best_of cs best"
  shows "best_of (cs @ [c]) (best_by_parent_step c best)"
proof (cases "candidate_rank c")
  case None
  with inv show ?thesis by (auto simp: best_of_def best_by_parent_step_def)
next
  case (Some r)
  have wf: "bt_wf best" using inv by (simp add: best_of_def)
  let ?keep = "\<exists>e q. map_of best (candidate_key c) = Some e \<and> candidate_rank e = Some q \<and> r \<le> q"
  show ?thesis
  proof (cases ?keep)
    case True
    then have "best_by_parent_step c best = best"
      using Some by (auto simp: best_by_parent_step_def)
    with True inv Some show ?thesis by (auto simp: best_of_def)
  next
    case False
    then have step: "best_by_parent_step c best = bt_insert (candidate_key c) c best"
      using Some by (auto simp: best_by_parent_step_def split: option.split)
    have dom: "\<exists>e q. map_of best (candidate_key d) = Some e \<and> candidate_rank e = Some q \<and> s \<le> q"
      if "d \<in> set cs" "candidate_rank d = Some s" for d s
      using inv that unfolding best_of_def by blast
    have "\<exists>e q. ((map_of best)(candidate_key c \<mapsto> c)) (candidate_key d) = Some e
        \<and> candidate_rank e = Some q \<and> s \<le> q"
      if d: "d \<in> set (cs @ [c])" "candidate_rank d = Some s" for d s
    proof (cases "candidate_key d = candidate_key c")
      case True
      have "s \<le> r"
      proof (cases "d = c")
        case False
        with d obtain e q where "map_of best (candidate_key d) = Some e"
          "candidate_rank e = Some q" "s \<le> q" using dom [of d s] by auto
        with \<open>\<not> ?keep\<close> True show ?thesis by force
      qed (use d Some in simp)
      with True Some show ?thesis by simp
    next
      case False
      with d have "d \<in> set cs" by auto
      with False d dom show ?thesis by simp
    qed
    with inv Some step wf show ?thesis
      by (auto simp: best_of_def map_of_bt_insert bt_wf_insert)
  qed
qed

lemma best_of_fold: "best_of cs best \<Longrightarrow> best_of (cs @ ds) (fold best_by_parent_step ds best)"
proof (induction ds arbitrary: cs best)
  case (Cons d ds)
  from Cons.IH [OF best_of_step [OF Cons.prems]] show ?case by simp
qed simp

lemma best_of_candidates: "best_of cs (fold best_by_parent_step cs [])"
  using best_of_fold [of "[]" "[]" cs] by (simp add: best_of_def bt_wf_def)

text \<open>The candidates of the highest rank: the specification of the selection.\<close>

definition ranks_of :: "candidate list \<Rightarrow> nat set" where
  "ranks_of cs = {r. \<exists>c \<in> set cs. candidate_rank c = Some r}"

definition top_candidates :: "candidate list \<Rightarrow> candidate set" where
  "top_candidates cs = {c \<in> set cs. ranks_of cs \<noteq> {} \<and> candidate_rank c = Some (Max (ranks_of cs))}"

lemma finite_ranks_of [simp]: "finite (ranks_of cs)"
proof -
  have "ranks_of cs \<subseteq> the ` candidate_rank ` set cs"
    unfolding ranks_of_def by force
  then show ?thesis by (rule finite_subset) simp
qed

lemma top_candidates_empty_iff: "top_candidates cs = {} \<longleftrightarrow> ranks_of cs = {}"
proof
  assume top: "top_candidates cs = {}"
  show "ranks_of cs = {}"
  proof (rule ccontr)
    assume ne: "ranks_of cs \<noteq> {}"
    then have "Max (ranks_of cs) \<in> ranks_of cs" by simp
    with ne have "top_candidates cs \<noteq> {}" by (auto simp: ranks_of_def top_candidates_def)
    with top show False by simp
  qed
qed (simp add: top_candidates_def)

definition candidate_winners :: "candidate list \<Rightarrow> candidate list" where
  "candidate_winners cs =
     filter (\<lambda>c. candidate_rank c = Some (Max (ranks_of cs)))
       (map snd (fold best_by_parent_step cs []))"

lemma best_ranks_Max:
  assumes "best_of cs best"
  shows "(set (List.map_filter (candidate_rank \<circ> snd) best) = {} \<longleftrightarrow> ranks_of cs = {})
    \<and> Max (set (List.map_filter (candidate_rank \<circ> snd) best)) = Max (ranks_of cs)"
proof -
  have wf: "bt_wf best" using assms by (simp add: best_of_def)
  have mem: "(k, c) \<in> set best \<longleftrightarrow> map_of best k = Some c" for k c
    using bt.in_entries_iff [OF wf] .
  let ?S = "set (List.map_filter (candidate_rank \<circ> snd) best)"
  have S: "?S = {r. \<exists>k c. map_of best k = Some c \<and> candidate_rank c = Some r}"
    unfolding mem [symmetric] by (force simp: set_map_filter_iff)
  have sub: "?S \<subseteq> ranks_of cs"
    using assms by (auto simp: S best_of_def ranks_of_def)
  have above: "\<exists>q \<in> ?S. r \<le> q" if "r \<in> ranks_of cs" for r
    using that assms unfolding S best_of_def ranks_of_def by blast
  show ?thesis by (rule Max_cofinal [OF finite_ranks_of sub above])
qed

lemma select_parent_candidate_winners:
  "select_parent_candidate cs =
     (if ranks_of cs = {} then NoSelection
      else case candidate_winners cs of [c] \<Rightarrow> Selected c | _ \<Rightarrow> Conflict (candidate_winners cs))"
  using best_ranks_Max [OF best_of_candidates [of cs]]
  by (simp add: select_parent_candidate_def candidate_winners_def Let_def split: list.split)

lemma set_candidate_winners:
  "ranks_of cs \<noteq> {} \<Longrightarrow> set (candidate_winners cs) = top_candidates cs"
proof -
  assume ne: "ranks_of cs \<noteq> {}"
  let ?best = "fold best_by_parent_step cs []"
  have inv: "best_of cs ?best" by (rule best_of_candidates)
  then have mem: "(k, c) \<in> set ?best \<longleftrightarrow> map_of ?best k = Some c" for k c
    by (intro bt.in_entries_iff) (simp add: best_of_def)
  show ?thesis
  proof (intro set_eqI iffI)
    fix c
    assume "c \<in> set (candidate_winners cs)"
    then obtain k where "map_of ?best k = Some c" "candidate_rank c = Some (Max (ranks_of cs))"
      using mem by (force simp: candidate_winners_def)
    with best_ofD [OF inv] ne show "c \<in> top_candidates cs"
      by (simp add: top_candidates_def)
  next
    fix c
    assume c: "c \<in> top_candidates cs"
    then obtain e q where e: "map_of ?best (candidate_key c) = Some e" "candidate_rank e = Some q"
      "Max (ranks_of cs) \<le> q"
      using inv unfolding best_of_def top_candidates_def by blast
    with best_ofD [OF inv] have "e \<in> set cs" "candidate_key e = candidate_key c" by auto
    with e have "q \<in> ranks_of cs" by (auto simp: ranks_of_def)
    with e have "q = Max (ranks_of cs)" by (simp add: order.antisym)
    with e c \<open>candidate_key e = candidate_key c\<close> have "e = c"
      by (intro candidate_eqI) (auto simp: top_candidates_def)
    with e have "(candidate_key c, c) \<in> set ?best" using mem by simp
    then have "c \<in> set (map snd ?best)" by (simp add: rev_image_eqI)
    with e \<open>e = c\<close> \<open>q = Max (ranks_of cs)\<close> show "c \<in> set (candidate_winners cs)"
      by (simp add: candidate_winners_def)
  qed
qed

lemma candidate_winners_sorted: "sorted_wrt (<) (map candidate_key (candidate_winners cs))"
proof -
  let ?best = "fold best_by_parent_step cs []"
  have inv: "best_of cs ?best" by (rule best_of_candidates)
  then have wf: "bt_wf ?best" by (simp add: best_of_def)
  have "map candidate_key (map snd ?best) = map fst ?best"
    using inv bt.in_entries_iff [OF wf] by (auto simp: best_of_def)
  then have "sorted_wrt (<) (map candidate_key (map snd ?best))"
    using wf by (simp only: bt_wf_def)
  then show ?thesis
    unfolding candidate_winners_def by (simp add: sorted_wrt_map sorted_wrt_filter)
qed

lemma select_parent_candidate_top:
  "(select_parent_candidate cs = NoSelection \<longleftrightarrow> top_candidates cs = {})
   \<and> (select_parent_candidate cs = Selected c \<longleftrightarrow> top_candidates cs = {c})
   \<and> (select_parent_candidate cs = Conflict ws \<longleftrightarrow>
        1 < card (top_candidates cs) \<and> set ws = top_candidates cs
        \<and> sorted_wrt (<) (map candidate_key ws))"
proof (cases "ranks_of cs = {}")
  case True
  then show ?thesis
    using top_candidates_empty_iff [of cs] by (auto simp: select_parent_candidate_winners)
next
  case False
  let ?w = "candidate_winners cs"
  have set_w: "set ?w = top_candidates cs" by (rule set_candidate_winners [OF False])
  have sorted_w: "sorted_wrt (<) (map candidate_key ?w)" by (rule candidate_winners_sorted)
  then have "distinct ?w" by (metis distinct_map strict_sorted_iff)
  then have card_w: "card (top_candidates cs) = length ?w" using set_w by (metis distinct_card)
  have uniq: "ws = ?w" if "set ws = top_candidates cs" "sorted_wrt (<) (map candidate_key ws)"
  proof -
    have "map candidate_key ws = map candidate_key ?w"
      using that sorted_w set_w by (metis list.set_map strict_sorted_equal)
    moreover have "inj_on candidate_key (set ws \<union> set ?w)"
      using that(1) set_w by (auto intro!: inj_onI candidate_eqI simp: top_candidates_def)
    ultimately show ?thesis by (meson map_inj_on)
  qed
  have ne: "top_candidates cs \<noteq> {}" using False top_candidates_empty_iff by blast
  show ?thesis
  proof (cases ?w rule: remdups_adj.cases)
    case 1
    with set_w ne show ?thesis by simp
  next
    case (2 x)
    with set_w card_w False ne show ?thesis
      by (auto simp: select_parent_candidate_winners)
  next
    case (3 x y xs)
    with card_w have "1 < card (top_candidates cs)" by simp
    moreover from this have "top_candidates cs \<noteq> {c}" by auto
    ultimately show ?thesis
      using 3 set_w sorted_w uniq False ne by (auto simp: select_parent_candidate_winners)
  qed
qed

text \<open>
  C38. The parent selection returns no parent exactly when no candidate carries promotable
  evidence; it selects a candidate exactly when it is the only one of the highest rank; and it
  reports a conflict exactly when several candidates share the highest rank, listing each of
  them once in the order of parent key and relation type.
\<close>

theorem select_parent_candidate_correct:
  "(select_parent_candidate cs = NoSelection \<longleftrightarrow> top_candidates cs = {})
   \<and> (select_parent_candidate cs = Selected c \<longleftrightarrow> top_candidates cs = {c})
   \<and> (select_parent_candidate cs = Conflict ws \<longleftrightarrow>
        1 < card (top_candidates cs) \<and> set ws = top_candidates cs
        \<and> sorted_wrt (<) (map candidate_key ws))"
  by (rule select_parent_candidate_top)

text \<open>
  The selection does not depend on the order or the repetition of the candidates, so
  replaying or reordering the same evidence cannot change the canonical parent.
\<close>

theorem select_parent_candidate_order_independent:
  assumes "set cs = set ds"
  shows "select_parent_candidate cs = select_parent_candidate ds"
proof -
  have "top_candidates cs = top_candidates ds"
    using assms by (simp add: top_candidates_def ranks_of_def)
  then show ?thesis
    using select_parent_candidate_top [of cs] select_parent_candidate_top [of ds]
    by (cases "select_parent_candidate ds") metis+
qed

text \<open>The witness: the same two pieces of evidence in both orders.\<close>

theorem select_parent_candidate_order_independent_witness:
  "select_parent_candidate
     [\<lparr>parent_key = ''a'', relation_type = Fork, cand_evidence = SourceEvidence Exact\<rparr>,
      \<lparr>parent_key = ''b'', relation_type = Fork, cand_evidence = OperatorConfirmation\<rparr>]
   = select_parent_candidate
     [\<lparr>parent_key = ''b'', relation_type = Fork, cand_evidence = OperatorConfirmation\<rparr>,
      \<lparr>parent_key = ''a'', relation_type = Fork, cand_evidence = SourceEvidence Exact\<rparr>]"
  by (rule select_parent_candidate_order_independent) auto

subsection \<open>Cycles\<close>

definition child_edges :: "(string \<times> string list) list \<Rightarrow> (string \<times> string) set" where
  "child_edges m = {(a, b). \<exists>cs. map_of m a = Some cs \<and> b \<in> set cs}"

text \<open>A path that leaves a set closed up to the pending nodes passes through one of them.\<close>

lemma reach_through_pending:
  assumes "(v, p) \<in> E\<^sup>*" "v \<in> visited" "p \<notin> visited"
    and "\<And>x y. x \<in> visited \<Longrightarrow> (x, y) \<in> E \<Longrightarrow> y \<in> visited \<union> pending"
  shows "p \<in> E\<^sup>* `` pending"
  using assms
proof (induction rule: converse_rtrancl_induct)
  case (step y z)
  then show ?case by blast
qed simp

lemma search_parent_correct:
  assumes "p \<notin> visited"
    and "\<And>x y. x \<in> visited \<Longrightarrow> (x, y) \<in> child_edges m \<Longrightarrow> y \<in> visited \<union> set pending"
  shows "search_parent m p pending visited \<longleftrightarrow> p \<in> (child_edges m)\<^sup>* `` set pending"
  using assms
proof (induction m p pending visited rule: search_parent.induct)
  case (2 m p current pending visited)
  let ?E = "child_edges m"
  consider "current \<in> visited" | "current \<notin> visited" "current = p"
    | "current \<notin> visited" "current \<noteq> p" by blast
  then show ?case
  proof cases
    case 1
    have closed: "y \<in> visited \<union> set pending" if "x \<in> visited" "(x, y) \<in> ?E" for x y
      using "2.prems"(2) [OF that] 1 by auto
    have "search_parent m p pending visited \<longleftrightarrow> p \<in> ?E\<^sup>* `` set pending"
      by (rule "2.IH"(1) [OF 1 "2.prems"(1)]) (rule closed)
    moreover have "p \<in> ?E\<^sup>* `` set pending" if "(current, p) \<in> ?E\<^sup>*"
      by (rule reach_through_pending [OF that 1 "2.prems"(1)]) (rule closed)
    ultimately show ?thesis using 1 by auto
  next
    case 2
    then show ?thesis by auto
  next
    case 3
    let ?cs = "case map_of m current of None \<Rightarrow> [] | Some cs \<Rightarrow> rev cs"
    have succ: "(current, y) \<in> ?E \<longleftrightarrow> y \<in> set ?cs" for y
      by (cases "map_of m current") (auto simp: child_edges_def)
    have "search_parent m p (?cs @ pending) (insert current visited)
        \<longleftrightarrow> p \<in> ?E\<^sup>* `` set (?cs @ pending)"
      using 3 "2.prems" succ by (intro "2.IH"(2)) auto
    moreover have "(current, p) \<in> ?E\<^sup>* \<longleftrightarrow> p \<in> ?E\<^sup>* `` set ?cs"
      using 3 succ by (metis Image_iff converse_rtranclE converse_rtrancl_into_rtrancl)
    ultimately show ?thesis using 3 by (auto simp del: set_append simp: set_append [of ?cs pending])
  qed
qed simp

lemma map_of_children_by_parent:
  "bt_wf (children_by_parent es) \<and> map_of (children_by_parent es) a =
     (let cs = map snd (filter (\<lambda>e. fst e = a) es) in if cs = [] then None else Some cs)"
proof (induction es arbitrary: a rule: rev_induct)
  case Nil
  then show ?case by (simp add: children_by_parent_def bt_wf_def)
next
  case (snoc e es)
  obtain p c where e: "e = (p, c)" by (cases e)
  have step: "children_by_parent (es @ [(p, c)]) = add_child (p, c) (children_by_parent es)"
    by (simp add: children_by_parent_def)
  from snoc have wf: "bt_wf (children_by_parent es)" by blast
  show ?case
    using snoc [of a] snoc [of p] unfolding e step
    by (auto simp: add_child_def map_of_bt_insert [OF wf] bt_wf_insert [OF wf] Let_def)
qed

lemma child_edges_children_by_parent [simp]: "child_edges (children_by_parent es) = set es"
proof -
  have "(a, b) \<in> child_edges (children_by_parent es) \<longleftrightarrow> (a, b) \<in> set es" for a b
    using map_of_children_by_parent [of es a]
    by (cases "filter (\<lambda>e. fst e = a) es = []")
      (force simp: child_edges_def filter_empty_conv)+
  then show ?thesis by auto
qed

lemma would_create_cycle_reach:
  "would_create_cycle es parent child \<longleftrightarrow> (child, parent) \<in> (set es)\<^sup>*"
  using search_parent_correct [of parent "{}" "children_by_parent es" "[child]"]
  by (auto simp: would_create_cycle_def)

text \<open>
  The cycle check is exact: it answers yes precisely when the proposed parent is the
  child or a descendant of the child in the active relations. The depth-first search always
  terminates, on cyclic relations too.
\<close>

theorem would_create_cycle_iff:
  "would_create_cycle es parent child \<longleftrightarrow> (child, parent) \<in> (set es)\<^sup>*"
  by (rule would_create_cycle_reach)

text \<open>
  C32. Guarding every adoption with the check keeps the relation graph acyclic: adding the
  edge to an acyclic graph gives an acyclic graph if and only if the check refuses nothing.
\<close>

theorem would_create_cycle_preserves_acyclic:
  assumes "acyclic (set es)"
  shows "acyclic (set ((parent, child) # es)) \<longleftrightarrow> \<not> would_create_cycle es parent child"
  using assms by (simp add: would_create_cycle_reach acyclic_insert)

theorem would_create_cycle_preserves_acyclic_witness:
  "acyclic (set [(''a'', ''b'')]) \<and> \<not> acyclic (set [(''b'', ''a''), (''a'', ''b'')])
     \<and> would_create_cycle [(''a'', ''b'')] ''b'' ''a''"
proof -
  have "acyclic (set [(''a'', ''b'')])"
    by (simp add: acyclic_insert) (simp add: acyclic_def)
  moreover have "would_create_cycle [(''a'', ''b'')] ''b'' ''a''"
    by (auto simp: would_create_cycle_reach)
  ultimately show ?thesis
    using would_create_cycle_preserves_acyclic [of "[(''a'', ''b'')]" "''b''" "''a''"] by simp
qed

subsection \<open>Splits\<close>

definition member_keys :: "thread_group \<Rightarrow> string set" where
  "member_keys g = thread_canonical_key ` set (memberships g)"

lemma members_by_key_lookup:
  "map_of (members_by_key g) k = Some m
    \<Longrightarrow> m \<in> set (memberships g) \<and> thread_canonical_key m = k"
  unfolding members_by_key_def map_of_bt_collect by (auto dest!: map_of_SomeD)

lemma members_by_key_dom: "map_of (members_by_key g) k \<noteq> None \<longleftrightarrow> k \<in> member_keys g"
proof -
  have "dom (map_of (members_by_key g)) = member_keys g"
    by (auto simp: members_by_key_def map_of_bt_collect dom_map_of_conv_image_fst member_keys_def
        image_image)
  then show ?thesis by (simp only: domIff [symmetric])
qed

lemma length_members_by_key: "length (members_by_key g) = card (member_keys g)"
  by (simp add: members_by_key_def length_bt_collect member_keys_def image_image)

lemma members_by_key_distinct:
  assumes "distinct (map thread_canonical_key (memberships g))" "m \<in> set (memberships g)"
  shows "map_of (members_by_key g) (thread_canonical_key m) = Some m"
proof -
  have "thread_canonical_key m \<in> member_keys g"
    using assms(2) by (simp add: member_keys_def)
  then have "map_of (members_by_key g) (thread_canonical_key m) \<noteq> None"
    by (simp only: members_by_key_dom)
  then obtain n where n: "map_of (members_by_key g) (thread_canonical_key m) = Some n" by auto
  with members_by_key_lookup [OF n] assms have "n = m"
    by (metis (no_types) inj_onD distinct_map)
  with n show ?thesis by simp
qed

lemma successor_membership_key [simp]:
  "thread_canonical_key (successor_membership m) = thread_canonical_key m"
  by (simp add: successor_membership_def)

lemma take_partition_Inr:
  "take_partition by_key assigned ks = Inr (assigned', ms) \<longleftrightarrow>
     distinct ks \<and> set ks \<inter> assigned = {} \<and> (set ks \<subseteq> dom (map_of by_key))
     \<and> assigned' = assigned \<union> set ks
     \<and> ms = map (\<lambda>k. successor_membership (the (map_of by_key k))) ks"
proof (induction ks arbitrary: assigned ms)
  case (Cons k ks)
  show ?case
    by (auto simp: result_pair_Inr result_option_Inr Cons.IH)
qed auto

text \<open>The successor of one partition, and the result of a successful split.\<close>

definition successor_group ::
  "(string \<Rightarrow> string) \<Rightarrow> (string \<Rightarrow> string) \<Rightarrow> thread_group \<Rightarrow> string list \<Rightarrow> thread_group" where
  "successor_group nfc sha g ks =
     \<lparr>group_canonical_key = split_group_canonical_key nfc sha (group_canonical_key g) ks,
      status = GroupActive,
      memberships = map (\<lambda>k. successor_membership (the (map_of (members_by_key g) k))) ks\<rparr>"

definition split_result ::
  "(string \<Rightarrow> string) \<Rightarrow> (string \<Rightarrow> string) \<Rightarrow> thread_group \<Rightarrow> string list list \<Rightarrow> split_outcome" where
  "split_result nfc sha g parts =
     \<lparr>split_source = g\<lparr>status := GroupSplit,
        memberships := map (\<lambda>m. m\<lparr>member_state := MemberRedirected\<rparr>) (memberships g)\<rparr>,
      successors = map (successor_group nfc sha g) parts\<rparr>"

lemma successor_group_keys:
  assumes "set ks \<subseteq> dom (map_of (members_by_key g))"
  shows "map (\<lambda>k. thread_canonical_key (the (map_of (members_by_key g) k))) ks = ks"
  using assms by (induction ks) (auto dest: members_by_key_lookup)

lemma take_partitions_Inr:
  "take_partitions nfc sha (group_canonical_key g) (members_by_key g) assigned parts
       = Inr (assigned', gs) \<longleftrightarrow>
     [] \<notin> set parts \<and> distinct (concat parts) \<and> set (concat parts) \<inter> assigned = {}
     \<and> set (concat parts) \<subseteq> dom (map_of (members_by_key g))
     \<and> assigned' = assigned \<union> set (concat parts) \<and> gs = map (successor_group nfc sha g) parts"
proof (induction parts arbitrary: assigned gs)
  case (Cons ks parts)
  let ?ms = "map (\<lambda>k. successor_membership (the (map_of (members_by_key g) k))) ks"
  have group: "\<lparr>group_canonical_key = split_group_canonical_key nfc sha (group_canonical_key g)
        (map thread_canonical_key ?ms), status = GroupActive, memberships = ?ms\<rparr>
      = successor_group nfc sha g ks" if "set ks \<subseteq> dom (map_of (members_by_key g))"
    using successor_group_keys [OF that] by (simp add: successor_group_def comp_def)
  show ?case
    by (auto simp: result_pair_Inr take_partition_Inr Cons.IH comp_def
        group [unfolded map_map comp_def successor_membership_key])
qed auto

lemma split_group_success:
  "split_group nfc sha g parts = Inr out \<longleftrightarrow>
     status g = GroupActive \<and> 2 \<le> length parts \<and> [] \<notin> set parts
     \<and> distinct (concat parts) \<and> set (concat parts) = member_keys g
     \<and> out = split_result nfc sha g parts"
proof (cases "status g = GroupActive \<and> 2 \<le> length parts")
  case False
  then show ?thesis by (auto simp: split_group_def)
next
  case True
  have dom: "dom (map_of (members_by_key g)) = member_keys g"
    using members_by_key_dom [of g] by (auto simp: domIff)
  have card: "card A = card (member_keys g) \<longleftrightarrow> A = member_keys g" if "A \<subseteq> member_keys g" for A
    using that card_subset_eq [OF _ that] by (auto simp: member_keys_def)
  show ?thesis
  proof (cases "take_partitions nfc sha (group_canonical_key g) (members_by_key g) {} parts")
    case (Inl e)
    have "\<not> ([] \<notin> set parts \<and> distinct (concat parts) \<and> set (concat parts) \<subseteq> member_keys g)"
      using Inl take_partitions_Inr [of nfc sha g "{}" parts] by (auto simp: dom)
    with Inl True show ?thesis by (auto simp: split_group_def Let_def)
  next
    case (Inr r)
    then obtain a gs where
      r: "take_partitions nfc sha (group_canonical_key g) (members_by_key g) {} parts = Inr (a, gs)"
      by (cases r) auto
    then have "[] \<notin> set parts" "distinct (concat parts)" "set (concat parts) \<subseteq> member_keys g"
      "a = set (concat parts)" "gs = map (successor_group nfc sha g) parts"
      by (simp_all add: take_partitions_Inr dom)
    then show ?thesis
      using True r card [of "set (concat parts)"]
      by (auto simp: split_group_def Let_def length_members_by_key split_result_def)
  qed
qed

text \<open>
  A split succeeds exactly when the group is active, there are at least two partitions,
  none is empty, and together they list every member key of the group once and nothing else;
  the result is then the source marked split with redirected members and one active successor
  per partition.
\<close>

theorem split_group_Inr_iff:
  "split_group nfc sha g parts = Inr out \<longleftrightarrow>
     status g = GroupActive \<and> 2 \<le> length parts \<and> [] \<notin> set parts
     \<and> distinct (concat parts) \<and> set (concat parts) = member_keys g
     \<and> out = split_result nfc sha g parts"
  by (rule split_group_success)

text \<open>What a successor keeps of a membership: everything but its provenance.\<close>

definition member_core ::
  "membership \<Rightarrow> string \<times> membership_role \<times> membership_state \<times> int option" where
  "member_core m = (thread_canonical_key m, role m, member_state m, deleted_at m)"

text \<open>
  A split neither loses nor invents members: over all successors, the memberships are
  those of the source, with their role, state and deletion time, and provenance operator.
\<close>

theorem split_group_conserves_members:
  assumes distinct_keys: "distinct (map thread_canonical_key (memberships g))"
    and split: "split_group nfc sha g parts = Inr out"
  shows "mset (map member_core (concat (map memberships (successors out))))
      = mset (map member_core (memberships g))
    \<and> provenance ` set (concat (map memberships (successors out))) \<subseteq> {ByOperator}"
proof -
  have parts: "distinct (concat parts)" "set (concat parts) = member_keys g"
    and out: "successors out = map (successor_group nfc sha g) parts"
    using split by (simp_all add: split_group_success split_result_def)
  let ?member = "\<lambda>k. the (map_of (members_by_key g) k)"
  have flat: "concat (map memberships (successors out))
      = map (\<lambda>k. successor_membership (?member k)) (concat parts)"
    by (simp add: out successor_group_def comp_def map_concat)
  have "mset (concat parts) = mset (map thread_canonical_key (memberships g))"
    using parts distinct_keys
    by (subst set_eq_iff_mset_eq_distinct [symmetric]) (simp_all add: member_keys_def)
  then have "mset (map (\<lambda>k. member_core (?member k)) (concat parts))
      = mset (map (\<lambda>m. member_core (?member (thread_canonical_key m))) (memberships g))"
    by (metis (no_types, lifting) map_map mset_map comp_def map_cong)
  also have "\<dots> = mset (map member_core (memberships g))"
    using members_by_key_distinct [OF distinct_keys] by (intro arg_cong [where f = mset] map_cong) auto
  finally show ?thesis
    by (auto simp: flat comp_def member_core_def successor_membership_def)
qed

text \<open>For the witness: a group of two members split in two.\<close>

definition sample_member :: "string \<Rightarrow> membership" where
  "sample_member k = \<lparr>thread_canonical_key = k, role = RoleMember, member_state = MemberActive,
     provenance = ByReconciler, deleted_at = None\<rparr>"

definition sample_group :: thread_group where
  "sample_group = \<lparr>group_canonical_key = ''g'', status = GroupActive,
     memberships = [sample_member ''a'', sample_member ''b'']\<rparr>"

theorem split_group_conserves_members_witness:
  "\<exists>out. split_group (\<lambda>s. s) (\<lambda>s. s) sample_group [[''b''], [''a'']] = Inr out
     \<and> provenance ` set (concat (map memberships (successors out))) \<subseteq> {ByOperator}"
proof -
  have "split_group (\<lambda>s. s) (\<lambda>s. s) sample_group [[''b''], [''a'']]
      = Inr (split_result (\<lambda>s. s) (\<lambda>s. s) sample_group [[''b''], [''a'']])"
    by (auto simp: split_group_success member_keys_def sample_group_def sample_member_def)
  moreover have "distinct (map thread_canonical_key (memberships sample_group))"
    by (simp add: sample_group_def sample_member_def)
  ultimately show ?thesis using split_group_conserves_members by blast
qed

end
