(* ===== verification/External_Ids.thy ===== *)
theory External_Ids
  imports Store_Prelude
begin

text \<open>
  External identifiers (\<open>common/src/external_id.rs\<close>) and the length and path helpers of the
  importer (\<open>agent-chat-import/src/common/\<close>: \<open>labels.rs\<close>, \<open>ids.rs\<close>, \<open>path.rs\<close> and the
  truncation of \<open>canonical.rs\<close>). Strings are their UTF-8 bytes. The SHA-256 digest comes from
  the crate \<open>sha2\<close> and is the argument \<open>sha\<close>; its one documented fact used here is that a
  digest has 32 bytes.
\<close>

subsection \<open>Owner-scoped identifiers\<close>

definition replace_hyphens :: "string \<Rightarrow> string" where
  "replace_hyphens s = map (\<lambda>c. if c = CHR ''-'' then CHR ''_'' else c) s"

definition namespace_for_external_id :: "string \<Rightarrow> string \<Rightarrow> string option" where
  "namespace_for_external_id source external_id =
     (if starts_with external_id (source @ '':'') then Some source
      else let normalized = replace_hyphens source
           in if starts_with external_id (normalized @ '':'') then Some normalized else None)"

record external_id_error =
  max_bytes :: nat
  minimum_hashed_bytes :: nat

definition scoped_prefix :: "string \<Rightarrow> int \<Rightarrow> string" where
  "scoped_prefix namespace owner_id = namespace @ '':'' @ show_int owner_id @ '':''"

definition owner_scoped ::
  "(string \<Rightarrow> string) \<Rightarrow> string \<Rightarrow> int \<Rightarrow> string \<Rightarrow> nat \<Rightarrow> external_id_error + string" where
  "owner_scoped sha namespace owner_id external_id limit =
     (let suffix = (case strip_prefix (namespace @ '':'') external_id of
                      Some rest \<Rightarrow> rest | None \<Rightarrow> external_id);
          scoped = scoped_prefix namespace owner_id @ suffix
      in if length scoped \<le> limit then Inr scoped
         else let minimum = length (scoped_prefix namespace owner_id @ ''~'') + 64
              in if limit < minimum
                 then Inl \<lparr>max_bytes = limit, minimum_hashed_bytes = minimum\<rparr>
                 else Inr (scoped_prefix namespace owner_id @ ''~'' @ to_hex (sha scoped)))"

lemma show_int_no_colon: "CHR '':'' \<notin> set (show_int i)"
proof -
  have "CHR '':'' \<notin> set (show_nat n)" for n
    using show_nat_digits [of n] by (auto simp: list_all_iff)
  then show ?thesis by (auto simp: show_int_def)
qed

lemma split_at_colon:
  assumes "CHR '':'' \<notin> set a" "CHR '':'' \<notin> set b"
    and "a @ CHR '':'' # s = b @ CHR '':'' # t"
  shows "a = b \<and> s = t"
  using assms by (induction a arbitrary: b) (case_tac b; auto)+

lemma scoped_prefix_inject:
  "scoped_prefix ns a @ s = scoped_prefix ns b @ t \<Longrightarrow> a = b \<and> s = t"
  using split_at_colon [OF show_int_no_colon show_int_no_colon, of a s b t]
  by (simp add: scoped_prefix_def)

lemma owner_scoped_has_prefix:
  "owner_scoped sha ns o_id x limit = Inr r \<Longrightarrow> \<exists>s. r = scoped_prefix ns o_id @ s"
  by (auto simp: owner_scoped_def Let_def split: if_splits)

text \<open>
  Identifiers of different owners never coincide: within one namespace, whatever the
  external ids and limits, and whether or not the hashed form is used, equal scoped
  identifiers have the same owner.
\<close>

theorem owner_scoped_separates_owners:
  assumes "owner_scoped sha ns a x limit = Inr r" and "owner_scoped sha ns b y limit' = Inr r"
  shows "a = b"
  using owner_scoped_has_prefix [OF assms(1)] owner_scoped_has_prefix [OF assms(2)]
  by (metis scoped_prefix_inject)

theorem owner_scoped_separates_owners_witness:
  "owner_scoped (\<lambda>s. s) ''codex'' 7 ''codex:e'' 512 = Inr ''codex:7:e''
     \<and> owner_scoped (\<lambda>s. s) ''codex'' 71 ''e'' 512 \<noteq> Inr ''codex:7:e''"
proof -
  have *: "owner_scoped (\<lambda>s. s) ''codex'' 7 ''codex:e'' 512 = Inr ''codex:7:e''"
    by code_simp
  then show ?thesis
    using owner_scoped_separates_owners [of "\<lambda>s. s" "''codex''" 7 "''codex:e''" 512
        "''codex:7:e''" 71 "''e''" 512] by auto
qed

text \<open>
  A scoped identifier never exceeds its limit; it is refused exactly when neither the
  plain nor the hashed form fits, with the two sizes reported in the error; and it preserves
  the namespace-local suffix verbatim whenever the plain form fits, with or without the
  namespace prefix on the input.
\<close>

theorem owner_scoped_bounds:
  assumes digest: "\<And>s. length (sha s) = 32"
  shows "(case owner_scoped sha ns o_id x limit of
       Inr r \<Rightarrow> length r \<le> limit
     | Inl e \<Rightarrow> max_bytes e = limit \<and> limit < minimum_hashed_bytes e
         \<and> minimum_hashed_bytes e = length (scoped_prefix ns o_id) + 65)
     \<and> (length (scoped_prefix ns o_id @ s) \<le> limit \<longrightarrow>
          owner_scoped sha ns o_id (ns @ '':'' @ s) limit = Inr (scoped_prefix ns o_id @ s))"
proof -
  have "strip_prefix (ns @ '':'') (ns @ '':'' @ s) = Some s"
    using strip_prefix_append [of "ns @ '':''" s] by simp
  then show ?thesis by (auto simp: owner_scoped_def Let_def digest)
qed

theorem owner_scoped_bounds_witness:
  "owner_scoped (\<lambda>_. replicate 32 (CHR ''x'')) ''codex'' 7 (''codex:'' @ ''e'') 512
     = Inr (scoped_prefix ''codex'' 7 @ ''e'')"
proof -
  have "length (scoped_prefix ''codex'' 7 @ ''e'') \<le> 512"
    by (simp add: scoped_prefix_def show_int_def show_nat_less_10)
  then show ?thesis
    using owner_scoped_bounds [where sha = "\<lambda>_. replicate 32 (CHR ''x'')" and ns = "''codex''"
        and o_id = 7 and limit = 512 and s = "''e''"] by simp
qed

subsection \<open>Truncation at character boundaries\<close>

text \<open>\<open>str::is_char_boundary\<close>: not in front of a UTF-8 continuation byte.\<close>

definition is_continuation :: "char \<Rightarrow> bool" where
  "is_continuation c \<longleftrightarrow> 128 \<le> (of_char c :: nat) \<and> (of_char c :: nat) < 192"

definition is_char_boundary :: "string \<Rightarrow> nat \<Rightarrow> bool" where
  "is_char_boundary s i =
     (if i = 0 then True
      else if length s \<le> i then i = length s
      else \<not> is_continuation (s ! i))"

fun walk_back :: "string \<Rightarrow> nat \<Rightarrow> nat" where
  "walk_back s 0 = 0"
| "walk_back s (Suc n) = (if is_char_boundary s (Suc n) then Suc n else walk_back s n)"

definition safe_truncate_at_char_boundary :: "string \<Rightarrow> nat \<Rightarrow> string" where
  "safe_truncate_at_char_boundary s limit =
     (if length s \<le> limit then s else take (walk_back s limit) s)"

function walk_forward :: "string \<Rightarrow> nat \<Rightarrow> nat" where
  "walk_forward s start =
     (if start < length s \<and> \<not> is_char_boundary s start then walk_forward s (start + 1) else start)"
  by pat_completeness auto
termination by (relation "measure (\<lambda>(s, start). length s - start)") auto

declare walk_forward.simps [simp del]

definition keep_tail_bytes :: "string \<Rightarrow> nat \<Rightarrow> string" where
  "keep_tail_bytes s budget =
     (if budget = 0 \<or> s = [] then []
      else if length s \<le> budget then s
      else drop (walk_forward s (length s - budget)) s)"

definition keep_head_bytes :: "string \<Rightarrow> nat \<Rightarrow> string" where
  "keep_head_bytes s budget =
     (if budget = 0 \<or> s = [] then [] else safe_truncate_at_char_boundary s budget)"

definition max_label_bytes :: nat where "max_label_bytes = 512"

text \<open>The ellipsis U+2026 is the three bytes E2 80 A6.\<close>

definition head_clipped_marker :: string where
  "head_clipped_marker = [CHR 0xE2, CHR 0x80, CHR 0xA6, CHR ''/'']"

definition tail_clipped_marker :: string where
  "tail_clipped_marker = [CHR 0xE2, CHR 0x80, CHR 0xA6]"

datatype truncate_mode = KeepTail | KeepHead

definition truncate_label :: "string \<Rightarrow> string \<Rightarrow> truncate_mode \<Rightarrow> string" where
  "truncate_label pre label_value mode =
     (if length pre + length label_value \<le> max_label_bytes then pre @ label_value
      else let marker = (case mode of KeepTail \<Rightarrow> head_clipped_marker | KeepHead \<Rightarrow> tail_clipped_marker);
               overhead = length pre + length marker
           in if max_label_bytes \<le> overhead then []
              else let value_budget = max_label_bytes - overhead
                   in case mode of
                        KeepTail \<Rightarrow> pre @ marker @ keep_tail_bytes label_value value_budget
                      | KeepHead \<Rightarrow> pre @ keep_head_bytes label_value value_budget @ marker)"

definition truncate_label_keep_tail :: "string \<Rightarrow> string \<Rightarrow> string" where
  "truncate_label_keep_tail pre label_value = truncate_label pre label_value KeepTail"

definition truncate_label_keep_head :: "string \<Rightarrow> string \<Rightarrow> string" where
  "truncate_label_keep_head pre label_value = truncate_label pre label_value KeepHead"

lemma walk_back_correct:
  "walk_back s n \<le> n \<and> is_char_boundary s (walk_back s n)
    \<and> (\<forall>k. walk_back s n < k \<and> k \<le> n \<longrightarrow> \<not> is_char_boundary s k)"
proof (induction n)
  case 0
  then show ?case by (auto simp: is_char_boundary_def)
next
  case (Suc n)
  then show ?case by (auto simp: le_Suc_eq)
qed

lemma walk_forward_correct:
  "start \<le> length s \<Longrightarrow> start \<le> walk_forward s start \<and> walk_forward s start \<le> length s
    \<and> is_char_boundary s (walk_forward s start)
    \<and> (\<forall>k. start \<le> k \<and> k < walk_forward s start \<longrightarrow> \<not> is_char_boundary s k)"
proof (induction s start rule: walk_forward.induct)
  case (1 s start)
  show ?case
  proof (cases "start < length s \<and> \<not> is_char_boundary s start")
    case True
    with 1 have "Suc start \<le> walk_forward s (Suc start) \<and> walk_forward s (Suc start) \<le> length s
      \<and> is_char_boundary s (walk_forward s (Suc start))
      \<and> (\<forall>k. Suc start \<le> k \<and> k < walk_forward s (Suc start) \<longrightarrow> \<not> is_char_boundary s k)"
      by simp
    with True show ?thesis
      by (simp add: walk_forward.simps [of s start]) (metis Suc_leI Suc_leD le_neq_implies_less)
  next
    case False
    with "1.prems" show ?thesis
      by (auto simp: walk_forward.simps [of s start] is_char_boundary_def)
  qed
qed

text \<open>
  The truncation keeps the longest prefix that fits the byte budget and ends at a
  character boundary, so it never cuts a multi-byte character and never gives up more than
  it has to.
\<close>

theorem safe_truncate_longest_prefix:
  "\<exists>n \<le> length s. safe_truncate_at_char_boundary s limit = take n s
     \<and> n \<le> limit \<and> is_char_boundary s n
     \<and> {k. n < k \<and> k \<le> limit \<and> k \<le> length s \<and> is_char_boundary s k} = {}"
proof (cases "length s \<le> limit")
  case True
  then show ?thesis
    by (intro exI [of _ "length s"]) (auto simp: safe_truncate_at_char_boundary_def is_char_boundary_def)
next
  case False
  with walk_back_correct [of s limit] show ?thesis
    by (intro exI [of _ "walk_back s limit"]) (auto simp: safe_truncate_at_char_boundary_def)
qed

lemma length_safe_truncate: "length (safe_truncate_at_char_boundary s n) \<le> n"
  using walk_back_correct [of s n] by (auto simp: safe_truncate_at_char_boundary_def)

lemma length_keep_head: "length (keep_head_bytes s n) \<le> n"
  using length_safe_truncate [of s n] by (auto simp: keep_head_bytes_def)

lemma length_keep_tail: "length (keep_tail_bytes s n) \<le> n"
  using walk_forward_correct [of "length s - n" s] by (auto simp: keep_tail_bytes_def)

lemma keep_tail_suffix: "suffix (keep_tail_bytes s n) s"
  by (auto simp: keep_tail_bytes_def suffix_drop)

lemma keep_head_prefix: "Sublist.prefix (keep_head_bytes s n) s"
  by (auto simp: keep_head_bytes_def safe_truncate_at_char_boundary_def take_is_prefix)

text \<open>
  A label always fits its 512-byte column. A label that already fits is unchanged; a
  longer one is empty (to be dropped) when the prefix and the marker leave no room, and
  otherwise still starts with the full prefix and the marked value.
\<close>

theorem truncate_label_fits:
  "length (truncate_label pre v mode) \<le> 512
   \<and> (if length pre + length v \<le> 512 then truncate_label pre v mode = pre @ v
      else if (case mode of KeepTail \<Rightarrow> 508 | KeepHead \<Rightarrow> 509) \<le> length pre
        then truncate_label pre v mode = []
      else case mode of
          KeepTail \<Rightarrow> \<exists>r. truncate_label pre v mode = pre @ head_clipped_marker @ r \<and> suffix r v
        | KeepHead \<Rightarrow> \<exists>r. truncate_label pre v mode = pre @ r @ tail_clipped_marker \<and> Sublist.prefix r v)"
  using length_keep_tail [of v "512 - (length pre + 4)"] keep_tail_suffix [of v]
    length_keep_head [of v "512 - (length pre + 3)"] keep_head_prefix [of v]
  by (cases mode) (auto simp: truncate_label_def max_label_bytes_def Let_def
      head_clipped_marker_def tail_clipped_marker_def)

subsection \<open>Identifier hashes\<close>

definition hash_hex_prefix :: "(string \<Rightarrow> string) \<Rightarrow> string \<Rightarrow> nat \<Rightarrow> string" where
  "hash_hex_prefix digest input n = take n (to_hex (take ((n + 1) div 2) (digest input)))"

definition sha256_hex_prefix :: "(string \<Rightarrow> string) \<Rightarrow> string \<Rightarrow> nat \<Rightarrow> string" where
  "sha256_hex_prefix sha input n = hash_hex_prefix sha input n"

definition truncate_id_for_external :: "(string \<Rightarrow> string) \<Rightarrow> string \<Rightarrow> nat \<Rightarrow> string" where
  "truncate_id_for_external sha v max_byte =
     (if length v \<le> max_byte then v else sha256_hex_prefix sha v 32)"

lemma hash_hex_prefix_eq:
  assumes "n \<le> 2 * length (digest input)"
  shows "hash_hex_prefix digest input n = take n (to_hex (digest input))
    \<and> length (hash_hex_prefix digest input n) = n"
proof -
  have hex: "to_hex (take k bs) = take (2 * k) (to_hex bs)" for k bs
  proof (induction bs arbitrary: k)
    case (Cons b bs)
    then show ?case by (cases k) (simp_all add: hex_byte_def)
  qed simp
  have "n \<le> 2 * ((n + 1) div 2)" by simp
  then have "take n (to_hex (take ((n + 1) div 2) bs)) = take n (to_hex bs)" for bs
    by (simp only: hex take_take min_absorb1)
  then show ?thesis using assms by (simp add: hash_hex_prefix_def)
qed

subsection \<open>Path bases\<close>

definition trim_end_slashes :: "string \<Rightarrow> string" where
  "trim_end_slashes s = rev (dropWhile (\<lambda>c. c = CHR ''/'') (rev s))"

definition trim_start_slashes :: "string \<Rightarrow> string" where
  "trim_start_slashes s = dropWhile (\<lambda>c. c = CHR ''/'') s"

definition path_matches :: "string \<Rightarrow> string \<Rightarrow> bool" where
  "path_matches v p =
     (if v = p then True
      else starts_with v p \<and> length p < length v \<and> v ! length p = CHR ''/'')"

definition best_path_step :: "string \<Rightarrow> string \<Rightarrow> string option \<Rightarrow> string option" where
  "best_path_step v raw best =
     (let p = trim_end_slashes raw
      in if p = [] then best
         else if path_matches v p \<and> (case best of None \<Rightarrow> True | Some b \<Rightarrow> length b < length p)
              then Some p else best)"

definition apply_path_prefix :: "string \<Rightarrow> string list \<Rightarrow> string" where
  "apply_path_prefix v bases =
     (case fold (best_path_step v) bases None of
        Some p \<Rightarrow> (let rest = trim_start_slashes (drop (length p) v)
                  in if rest = [] then v else rest)
      | None \<Rightarrow> v)"

text \<open>The trimmed, non-empty bases that match on a component boundary.\<close>

definition matching_bases :: "string \<Rightarrow> string list \<Rightarrow> string set" where
  "matching_bases v bases = {p \<in> trim_end_slashes ` set bases. p \<noteq> [] \<and> path_matches v p}"

definition longest_base :: "string \<Rightarrow> string list \<Rightarrow> string option \<Rightarrow> bool" where
  "longest_base v bases best \<longleftrightarrow>
     (case best of None \<Rightarrow> matching_bases v bases = {}
      | Some p \<Rightarrow> p \<in> matching_bases v bases \<and> (\<forall>q \<in> matching_bases v bases. length q \<le> length p))"

lemma matching_bases_snoc:
  "matching_bases v (bases @ [raw]) = matching_bases v bases \<union>
     (let p = trim_end_slashes raw in if p \<noteq> [] \<and> path_matches v p then {p} else {})"
  by (auto simp: matching_bases_def Let_def)

lemma longest_base_fold: "longest_base v bases (fold (best_path_step v) bases None)"
proof (induction bases rule: rev_induct)
  case Nil
  then show ?case by (simp add: longest_base_def matching_bases_def)
next
  case (snoc raw bases)
  then show ?case
    by (auto simp: longest_base_def matching_bases_snoc best_path_step_def Let_def
        split: option.splits if_splits)
qed

lemma trim_start_suffix: "suffix (trim_start_slashes s) s"
  by (simp add: trim_start_slashes_def suffix_dropWhile)

text \<open>
  Relativizing a path strips the longest matching base on a component boundary,
  independently of the order in which the bases are given; the result is a suffix of the
  path and is never empty unless the path was.
\<close>

theorem apply_path_prefix_longest:
  "(matching_bases v bases = {} \<and> apply_path_prefix v bases = v
    \<or> (\<exists>p. p \<in> matching_bases v bases \<and> length p = Max (length ` matching_bases v bases)
        \<and> apply_path_prefix v bases =
            (if trim_start_slashes (drop (length p) v) = [] then v
             else trim_start_slashes (drop (length p) v))))
   \<and> suffix (apply_path_prefix v bases) v
   \<and> (apply_path_prefix v bases = [] \<longleftrightarrow> v = [])"
proof -
  let ?best = "fold (best_path_step v) bases None"
  have longest: "longest_base v bases ?best" by (rule longest_base_fold)
  show ?thesis
  proof (cases ?best)
    case None
    with longest show ?thesis by (simp add: longest_base_def apply_path_prefix_def)
  next
    case (Some p)
    with longest have p: "p \<in> matching_bases v bases"
      and max: "\<And>q. q \<in> matching_bases v bases \<Longrightarrow> length q \<le> length p"
      by (auto simp: longest_base_def)
    have "finite (matching_bases v bases)" by (simp add: matching_bases_def)
    then have "Max (length ` matching_bases v bases) = length p"
      using p max by (intro Max_eqI) auto
    moreover have "suffix (trim_start_slashes (drop (length p) v)) v"
      by (meson suffix_drop suffix_order.trans trim_start_suffix)
    moreover have eq: "apply_path_prefix v bases = (if trim_start_slashes (drop (length p) v) = []
        then v else trim_start_slashes (drop (length p) v))"
      by (simp add: apply_path_prefix_def Some Let_def)
    moreover have "apply_path_prefix v bases = [] \<longleftrightarrow> v = []"
      by (auto simp: eq trim_start_slashes_def)
    ultimately show ?thesis using p by auto
  qed
qed

end
