(* ===== verification/Migration_Task.thy ===== *)
theory Migration_Task
  imports Store_Prelude
begin

text \<open>
  The fenced state of data migration tasks (\<open>grpc-admin/src/db_migrate/state.rs\<close>). The table
  \<open>memories_data_migration_task_state\<close> is a map from its primary key to rows; each SQL
  statement is a function on it, with the affected row count of an \<open>UPDATE\<close>. A function that
  takes a transaction returns the transaction's view of the table beside its result; \<open>claim\<close>
  begins and commits one, and drops (rolls back) it on an error. Faults of the database
  connection are not modelled. The JSON writer of \<open>serde_json\<close> is the argument \<open>to_json\<close>.
\<close>

subsection \<open>Rows, leases and errors\<close>

datatype task_state_kind = Pending | Running | Completed | Failed

fun parse_task_state :: "string \<Rightarrow> task_state_kind option" where
  "parse_task_state v =
     (if v = ''pending'' then Some Pending
      else if v = ''running'' then Some Running
      else if v = ''completed'' then Some Completed
      else if v = ''failed'' then Some Failed
      else None)"

record task_row =
  row_identity :: string
  row_digest :: string
  row_state :: string
  row_execution_id :: "string option"
  row_holder_id :: "string option"
  row_token :: int
  row_heartbeat_at :: "int option"
  row_lease_expires_at :: "int option"
  row_attempts :: int
  row_checkpoint :: "string option"
  row_failure :: "string option"
  row_started_at :: "int option"
  row_updated_at :: int
  row_completed_at :: "int option"

record task_lease =
  lease_task :: string
  lease_digest :: string
  lease_execution_id :: string
  lease_holder_id :: string
  lease_token :: int

record 'p checkpoint_envelope =
  envelope_format :: string
  envelope_task :: string
  envelope_digest :: string
  envelope_payload :: 'p

datatype task_error =
    NonPositiveLease | DigestMismatch | UnknownState string | AlreadyCompleted | ActiveExecutor
  | TokenOverflow | ExpiryOverflow | ClaimLost | CheckpointIdentity | CheckpointSerialization
  | CheckpointLost | HeartbeatLost | CompletionLost | FailureLost

type_synonym task_table = "string \<Rightarrow> task_row option"

definition row_kind :: "task_row \<Rightarrow> task_error + task_state_kind" where
  "row_kind r = (case parse_task_state (row_state r) of
                   Some k \<Rightarrow> Inr k | None \<Rightarrow> Inl (UnknownState (row_state r)))"

definition is_active_lease :: "task_row \<Rightarrow> int \<Rightarrow> task_error + bool" where
  "is_active_lease r now =
     (case row_kind r of
        Inl e \<Rightarrow> Inl e
      | Inr k \<Rightarrow> Inr (k = Running \<and>
          (case row_lease_expires_at r of Some expiry \<Rightarrow> now < expiry | None \<Rightarrow> False)))"

subsection \<open>The SQL statements\<close>

definition insert_if_absent :: "string \<Rightarrow> string \<Rightarrow> int \<Rightarrow> task_table \<Rightarrow> task_table" where
  "insert_if_absent task digest now db =
     (case db task of
        Some _ \<Rightarrow> db
      | None \<Rightarrow> db(task \<mapsto> \<lparr>row_identity = task, row_digest = digest, row_state = ''pending'',
           row_execution_id = None, row_holder_id = None, row_token = 0, row_heartbeat_at = None,
           row_lease_expires_at = None, row_attempts = 0, row_checkpoint = None,
           row_failure = None, row_started_at = None, row_updated_at = now,
           row_completed_at = None\<rparr>))"

definition load :: "task_table \<Rightarrow> string \<Rightarrow> task_row option" where
  "load db task = db task"

text \<open>\<open>UPDATE ... WHERE task_identity = .. AND ..\<close>: at most one row has the key.\<close>

definition update_where ::
  "string \<Rightarrow> (task_row \<Rightarrow> bool) \<Rightarrow> (task_row \<Rightarrow> task_row) \<Rightarrow> task_table \<Rightarrow> task_table \<times> nat" where
  "update_where task p f db =
     (case db task of
        Some r \<Rightarrow> if p r then (db(task \<mapsto> f r), 1) else (db, 0)
      | None \<Rightarrow> (db, 0))"

definition claim_sql ::
  "string \<Rightarrow> string \<Rightarrow> int \<Rightarrow> int \<Rightarrow> int \<Rightarrow> string \<Rightarrow> string \<Rightarrow> int \<Rightarrow> task_table \<Rightarrow> task_table \<times> nat" where
  "claim_sql execution holder new_token now expires task digest expected_token =
     update_where task (\<lambda>r. row_digest r = digest \<and> row_token r = expected_token)
       (\<lambda>r. r\<lparr>row_state := ''running'', row_execution_id := Some execution,
             row_holder_id := Some holder, row_token := new_token, row_heartbeat_at := Some now,
             row_lease_expires_at := Some expires, row_attempts := row_attempts r + 1,
             row_failure := None, row_started_at := Some now, row_updated_at := now\<rparr>)"

text \<open>The guard shared by the four fenced statements.\<close>

definition leased :: "task_lease \<Rightarrow> task_row \<Rightarrow> bool" where
  "leased l r \<longleftrightarrow> row_digest r = lease_digest l \<and> row_state r = ''running'' \<and> row_token r = lease_token l"

definition update_checkpoint_sql ::
  "string \<Rightarrow> int \<Rightarrow> int \<Rightarrow> task_lease \<Rightarrow> task_table \<Rightarrow> task_table \<times> nat" where
  "update_checkpoint_sql json now expires l =
     update_where (lease_task l) (leased l)
       (\<lambda>r. r\<lparr>row_checkpoint := Some json, row_heartbeat_at := Some now,
             row_lease_expires_at := Some expires, row_updated_at := now\<rparr>)"

definition renew_lease_sql :: "int \<Rightarrow> int \<Rightarrow> task_lease \<Rightarrow> task_table \<Rightarrow> task_table \<times> nat" where
  "renew_lease_sql now expires l =
     update_where (lease_task l) (leased l)
       (\<lambda>r. r\<lparr>row_heartbeat_at := Some now, row_lease_expires_at := Some expires,
             row_updated_at := now\<rparr>)"

definition complete_sql :: "int \<Rightarrow> task_lease \<Rightarrow> task_table \<Rightarrow> task_table \<times> nat" where
  "complete_sql now l =
     update_where (lease_task l) (leased l)
       (\<lambda>r. r\<lparr>row_state := ''completed'', row_heartbeat_at := None, row_lease_expires_at := None,
             row_completed_at := Some now, row_updated_at := now\<rparr>)"

definition fail_sql :: "string \<Rightarrow> int \<Rightarrow> task_lease \<Rightarrow> task_table \<Rightarrow> task_table \<times> nat" where
  "fail_sql classification now l =
     update_where (lease_task l) (leased l)
       (\<lambda>r. r\<lparr>row_state := ''failed'', row_heartbeat_at := None, row_lease_expires_at := None,
             row_failure := Some classification, row_updated_at := now\<rparr>)"

lemmas fenced_sql_defs = update_checkpoint_sql_def renew_lease_sql_def complete_sql_def fail_sql_def

subsection \<open>Operations\<close>

definition claim_tx ::
  "task_table \<Rightarrow> string \<Rightarrow> string \<Rightarrow> string \<Rightarrow> string \<Rightarrow> int \<Rightarrow> int
    \<Rightarrow> task_table \<times> (task_error + task_lease)" where
  "claim_tx db task digest execution holder now duration =
     (if duration \<le> 0 then (db, Inl NonPositiveLease)
      else let tx = insert_if_absent task digest now db
      in case tx task of
        None \<Rightarrow> (tx, Inl ClaimLost)
      | Some current \<Rightarrow>
          if row_digest current \<noteq> digest then (tx, Inl DigestMismatch)
          else (case row_kind current of
            Inl e \<Rightarrow> (tx, Inl e)
          | Inr kind \<Rightarrow>
            if kind = Completed then (tx, Inl AlreadyCompleted)
            else (case is_active_lease current now of
              Inl e \<Rightarrow> (tx, Inl e)
            | Inr active \<Rightarrow>
              if active then (tx, Inl ActiveExecutor)
              else (case checked_add_i64 (row_token current) 1 of
                None \<Rightarrow> (tx, Inl TokenOverflow)
              | Some new_token \<Rightarrow>
                (case checked_add_i64 now duration of
                  None \<Rightarrow> (tx, Inl ExpiryOverflow)
                | Some expires \<Rightarrow>
                  (let (tx', changed) = claim_sql execution holder new_token now expires task digest
                        (row_token current) tx
                   in if changed \<noteq> 1 then (tx', Inl ClaimLost)
                      else (tx', Inr \<lparr>lease_task = task, lease_digest = digest,
                              lease_execution_id = execution, lease_holder_id = holder,
                              lease_token = new_token\<rparr>)))))))"

definition claim ::
  "task_table \<Rightarrow> string \<Rightarrow> string \<Rightarrow> string \<Rightarrow> string \<Rightarrow> int \<Rightarrow> int
    \<Rightarrow> task_table \<times> (task_error + task_lease)" where
  "claim db task digest execution holder now duration =
     (if duration \<le> 0 then (db, Inl NonPositiveLease)
      else case claim_tx db task digest execution holder now duration of
        (_, Inl e) \<Rightarrow> (db, Inl e)
      | (tx, Inr l) \<Rightarrow> (tx, Inr l))"

definition fenced_result ::
  "task_error \<Rightarrow> task_table \<times> nat \<Rightarrow> task_table \<times> (task_error + unit)" where
  "fenced_result e r = (case r of (tx, changed) \<Rightarrow> if changed \<noteq> 1 then (tx, Inl e) else (tx, Inr ()))"

definition save_checkpoint_tx ::
  "('p checkpoint_envelope \<Rightarrow> string option) \<Rightarrow> task_table \<Rightarrow> task_lease \<Rightarrow> 'p checkpoint_envelope
    \<Rightarrow> int \<Rightarrow> int \<Rightarrow> task_table \<times> (task_error + unit)" where
  "save_checkpoint_tx to_json db l checkpoint now duration =
     (if envelope_task checkpoint \<noteq> lease_task l \<or> envelope_digest checkpoint \<noteq> lease_digest l
      then (db, Inl CheckpointIdentity)
      else case to_json checkpoint of
        None \<Rightarrow> (db, Inl CheckpointSerialization)
      | Some json \<Rightarrow>
        (case checked_add_i64 now duration of
          None \<Rightarrow> (db, Inl ExpiryOverflow)
        | Some expires \<Rightarrow>
            fenced_result CheckpointLost (update_checkpoint_sql json now expires l db)))"

definition renew_lease_tx ::
  "task_table \<Rightarrow> task_lease \<Rightarrow> int \<Rightarrow> int \<Rightarrow> task_table \<times> (task_error + unit)" where
  "renew_lease_tx db l now duration =
     (case checked_add_i64 now duration of
        None \<Rightarrow> (db, Inl ExpiryOverflow)
      | Some expires \<Rightarrow> fenced_result HeartbeatLost (renew_lease_sql now expires l db))"

definition renew_lease ::
  "task_table \<Rightarrow> task_lease \<Rightarrow> int \<Rightarrow> int \<Rightarrow> task_table \<times> (task_error + unit)" where
  "renew_lease db l now duration =
     (case checked_add_i64 now duration of
        None \<Rightarrow> (db, Inl ExpiryOverflow)
      | Some expires \<Rightarrow> fenced_result HeartbeatLost (renew_lease_sql now expires l db))"

definition complete_tx :: "task_table \<Rightarrow> task_lease \<Rightarrow> int \<Rightarrow> task_table \<times> (task_error + unit)" where
  "complete_tx db l now = fenced_result CompletionLost (complete_sql now l db)"

definition complete :: "task_table \<Rightarrow> task_lease \<Rightarrow> int \<Rightarrow> task_table \<times> (task_error + unit)" where
  "complete db l now = fenced_result CompletionLost (complete_sql now l db)"

definition fail_tx ::
  "task_table \<Rightarrow> task_lease \<Rightarrow> string \<Rightarrow> int \<Rightarrow> task_table \<times> (task_error + unit)" where
  "fail_tx db l classification now = fenced_result FailureLost (fail_sql classification now l db)"

definition fail ::
  "task_table \<Rightarrow> task_lease \<Rightarrow> string \<Rightarrow> int \<Rightarrow> task_table \<times> (task_error + unit)" where
  "fail db l classification now = fenced_result FailureLost (fail_sql classification now l db)"

lemmas fenced_op_defs = save_checkpoint_tx_def renew_lease_tx_def renew_lease_def complete_tx_def
  complete_def fail_tx_def fail_def

subsection \<open>What a claim does\<close>

text \<open>The row the claim sees: the stored one, or the fresh pending one.\<close>

definition seen_row :: "task_table \<Rightarrow> string \<Rightarrow> string \<Rightarrow> int \<Rightarrow> task_row" where
  "seen_row db task digest now = the (insert_if_absent task digest now db task)"

definition claimable :: "task_table \<Rightarrow> string \<Rightarrow> string \<Rightarrow> int \<Rightarrow> int \<Rightarrow> bool" where
  "claimable db task digest now duration \<longleftrightarrow>
     0 < duration \<and> in_i64 (now + duration)
     \<and> (case db task of
          None \<Rightarrow> True
        | Some r \<Rightarrow> row_digest r = digest \<and> row_state r \<in> {''pending'', ''running'', ''failed''}
            \<and> in_i64 (row_token r + 1)
            \<and> (row_state r = ''running'' \<longrightarrow>
                 (case row_lease_expires_at r of Some expiry \<Rightarrow> expiry \<le> now | None \<Rightarrow> True)))"

definition claimed_row :: "task_row \<Rightarrow> string \<Rightarrow> string \<Rightarrow> int \<Rightarrow> int \<Rightarrow> task_row" where
  "claimed_row r execution holder now duration =
     r\<lparr>row_state := ''running'', row_execution_id := Some execution, row_holder_id := Some holder,
       row_token := row_token r + 1, row_heartbeat_at := Some now,
       row_lease_expires_at := Some (now + duration), row_attempts := row_attempts r + 1,
       row_failure := None, row_started_at := Some now, row_updated_at := now\<rparr>"

lemma insert_if_absent_lookup:
  "insert_if_absent task digest now db task = Some (seen_row db task digest now)"
  by (auto simp: seen_row_def insert_if_absent_def split: option.split)

lemma seen_row_present: "db task = Some r \<Longrightarrow> seen_row db task digest now = r"
  by (simp add: seen_row_def insert_if_absent_def)

lemma seen_row_absent:
  "db task = None \<Longrightarrow> row_token (seen_row db task digest now) = 0
    \<and> row_attempts (seen_row db task digest now) = 0
    \<and> row_digest (seen_row db task digest now) = digest
    \<and> row_state (seen_row db task digest now) = ''pending''
    \<and> row_identity (seen_row db task digest now) = task"
  by (simp add: seen_row_def insert_if_absent_def)

lemma insert_then_update: "(insert_if_absent task digest now db)(task \<mapsto> r) = db(task \<mapsto> r)"
  by (auto simp: insert_if_absent_def split: option.split)

lemma row_kind_cases:
  "row_kind r = (if row_state r = ''pending'' then Inr Pending
     else if row_state r = ''running'' then Inr Running
     else if row_state r = ''completed'' then Inr Completed
     else if row_state r = ''failed'' then Inr Failed
     else Inl (UnknownState (row_state r)))"
  by (simp add: row_kind_def)

definition row_claimable :: "task_row \<Rightarrow> string \<Rightarrow> int \<Rightarrow> bool" where
  "row_claimable r digest now \<longleftrightarrow>
     row_digest r = digest \<and> row_state r \<in> {''pending'', ''running'', ''failed''}
     \<and> in_i64 (row_token r + 1)
     \<and> (row_state r = ''running'' \<longrightarrow>
          (case row_lease_expires_at r of Some expiry \<Rightarrow> expiry \<le> now | None \<Rightarrow> True))"

lemma claimable_seen:
  "claimable db task digest now duration \<longleftrightarrow>
     0 < duration \<and> in_i64 (now + duration) \<and> row_claimable (seen_row db task digest now) digest now"
proof (cases "db task")
  case None
  have "in_i64 1" by (simp add: in_i64_def i64_max_def i64_min_def)
  with None seen_row_absent [of db task digest now] show ?thesis
    by (simp add: claimable_def row_claimable_def)
next
  case (Some r)
  then show ?thesis by (simp add: claimable_def row_claimable_def seen_row_present)
qed

lemma claim_sql_eq:
  "insert_if_absent task digest now db task = Some r \<Longrightarrow> row_digest r = digest \<Longrightarrow>
   claim_sql execution holder (row_token r + 1) now (now + duration) task digest (row_token r)
     (insert_if_absent task digest now db)
   = (db(task \<mapsto> claimed_row r execution holder now duration), 1)"
  by (simp add: claim_sql_def update_where_def insert_then_update claimed_row_def)

lemma claim_tx_accepts:
  assumes "claimable db task digest now duration"
  shows "claim_tx db task digest execution holder now duration =
    (db(task \<mapsto> claimed_row (seen_row db task digest now) execution holder now duration),
     Inr \<lparr>lease_task = task, lease_digest = digest, lease_execution_id = execution,
          lease_holder_id = holder, lease_token = row_token (seen_row db task digest now) + 1\<rparr>)"
proof -
  let ?r = "seen_row db task digest now"
  from assms have dur: "0 < duration" "in_i64 (now + duration)" and "row_claimable ?r digest now"
    by (auto simp: claimable_seen)
  then have r: "row_digest ?r = digest" "in_i64 (row_token ?r + 1)"
    "\<exists>k. row_kind ?r = Inr k \<and> k \<noteq> Completed" "is_active_lease ?r now = Inr False"
    by (auto simp: row_claimable_def row_kind_cases is_active_lease_def split: option.splits)
  with dur claim_sql_eq [OF insert_if_absent_lookup, where digest = digest and now = now] show ?thesis
    by (auto simp: claim_tx_def insert_if_absent_lookup checked_add_i64_def)
qed

lemma claim_tx_refuses:
  assumes "\<not> claimable db task digest now duration"
  shows "\<exists>e tx. claim_tx db task digest execution holder now duration = (tx, Inl e)"
proof -
  let ?r = "seen_row db task digest now"
  from assms consider "duration \<le> 0" | "0 < duration" "\<not> in_i64 (now + duration)"
    | "0 < duration" "in_i64 (now + duration)" "\<not> row_claimable ?r digest now"
    by (cases "duration \<le> 0"; cases "in_i64 (now + duration)") (auto simp: claimable_seen)
  then show ?thesis
  proof cases
    case 1
    then show ?thesis by (simp add: claim_tx_def)
  next
    case 2
    then show ?thesis
      by (auto simp: claim_tx_def insert_if_absent_lookup checked_add_i64_def Let_def
          split: sum.split)
  next
    case 3
    then show ?thesis
      by (auto simp: claim_tx_def insert_if_absent_lookup checked_add_i64_def Let_def
          row_claimable_def row_kind_cases is_active_lease_def split: option.splits)
  qed
qed

text \<open>
  A claim succeeds exactly when the lease duration is positive, neither counter overflows,
  and the task is new or has the same definition digest, is not completed and has no lease
  that is still running; it then stores the row with the next fencing token and returns the
  lease with that token. Every other claim is an error that leaves the table as it was, the
  freshly inserted pending row included.
\<close>

theorem claim_correct:
  "(if claimable db task digest now duration
    then claim db task digest execution holder now duration =
           (db(task \<mapsto> claimed_row (seen_row db task digest now) execution holder now duration),
            Inr \<lparr>lease_task = task, lease_digest = digest, lease_execution_id = execution,
                 lease_holder_id = holder,
                 lease_token = (case db task of None \<Rightarrow> 1 | Some r \<Rightarrow> row_token r + 1)\<rparr>)
    else \<exists>e. claim db task digest execution holder now duration = (db, Inl e))"
proof (cases "claimable db task digest now duration")
  case True
  then have "0 < duration" by (simp add: claimable_def)
  with claim_tx_accepts [OF True] show ?thesis
    using True seen_row_absent [of db task digest now]
    by (auto simp: claim_def seen_row_present split: option.split)
next
  case False
  with claim_tx_refuses [OF False, of execution holder] show ?thesis
    by (auto simp: claim_def)
qed

subsection \<open>Fenced writes\<close>

text \<open>The four writes an executor makes with its lease.\<close>

datatype 'p fenced_request =
    SaveCheckpoint "'p checkpoint_envelope" int int
  | RenewLease int int
  | CompleteTask int
  | FailTask string int

fun apply_request ::
  "('p checkpoint_envelope \<Rightarrow> string option) \<Rightarrow> task_table \<Rightarrow> task_lease \<Rightarrow> 'p fenced_request
    \<Rightarrow> task_table \<times> (task_error + unit)" where
  "apply_request to_json db l (SaveCheckpoint c now d) = save_checkpoint_tx to_json db l c now d"
| "apply_request to_json db l (RenewLease now d) = renew_lease db l now d"
| "apply_request to_json db l (CompleteTask now) = complete db l now"
| "apply_request to_json db l (FailTask classification now) = fail db l classification now"

definition holds_lease :: "task_table \<Rightarrow> task_lease \<Rightarrow> bool" where
  "holds_lease db l = (case db (lease_task l) of Some r \<Rightarrow> leased l r | None \<Rightarrow> False)"

text \<open>The columns a fenced write never changes, and the states it may leave.\<close>

definition same_fence :: "task_row \<Rightarrow> task_row \<Rightarrow> bool" where
  "same_fence r r' \<longleftrightarrow> row_identity r' = row_identity r \<and> row_digest r' = row_digest r
     \<and> row_token r' = row_token r \<and> row_attempts r' = row_attempts r
     \<and> row_execution_id r' = row_execution_id r \<and> row_holder_id r' = row_holder_id r
     \<and> row_started_at r' = row_started_at r
     \<and> row_state r' \<in> {''running'', ''completed'', ''failed''}"

lemma fenced_result_update:
  "fenced_result e (update_where (lease_task l) (leased l) f db) =
     (if holds_lease db l
      then (db(lease_task l \<mapsto> f (the (db (lease_task l)))), Inr ())
      else (db, Inl e))"
  by (simp add: fenced_result_def update_where_def holds_lease_def split: option.split)

lemma apply_request_unheld:
  "\<not> holds_lease db l \<Longrightarrow> \<exists>e. apply_request to_json db l req = (db, Inl e)"
  by (cases req) (auto simp: fenced_op_defs fenced_sql_defs fenced_result_update split: option.split)

lemma apply_request_effect:
  assumes "apply_request to_json db l req = (db', res)"
  shows "db' = db \<or> (\<exists>r r'. holds_lease db l \<and> res = Inr () \<and> db (lease_task l) = Some r
    \<and> db' = db(lease_task l \<mapsto> r') \<and> same_fence r r')"
proof (cases "holds_lease db l")
  case True
  then obtain r where r: "db (lease_task l) = Some r" "row_state r = ''running''"
    by (auto simp: holds_lease_def leased_def split: option.splits)
  moreover have "db(k \<mapsto> x) = db(k \<mapsto> y) \<longleftrightarrow> x = y" for k and x y :: task_row
    by (metis map_upd_eqD1)
  ultimately show ?thesis using assms True
    by (cases req) (auto simp: fenced_op_defs fenced_sql_defs fenced_result_update same_fence_def
        split: option.splits if_splits)
next
  case False
  with apply_request_unheld [OF False, of to_json req] assms show ?thesis by auto
qed

subsection \<open>The interface of a fenced store\<close>

text \<open>
  A store whose writes carry a fencing token: it accepts only the current token of the task,
  and the current token never decreases. Then an overtaken token is rejected for good.
\<close>

locale fenced_store =
  fixes step :: "'s \<Rightarrow> 's \<Rightarrow> bool"
    and current :: "'s \<Rightarrow> 'k \<Rightarrow> int"
    and accepts :: "'s \<Rightarrow> 'l \<Rightarrow> bool"
    and task_of :: "'l \<Rightarrow> 'k"
    and fence :: "'l \<Rightarrow> int"
  assumes accepts_current: "accepts s l \<Longrightarrow> current s (task_of l) = fence l"
    and current_grows: "step s t \<Longrightarrow> current s k \<le> current t k"
begin

lemma current_grows_steps: "step\<^sup>*\<^sup>* s t \<Longrightarrow> current s k \<le> current t k"
  by (induction rule: rtranclp_induct) (auto intro: order_trans current_grows)

lemma overtaken_rejected:
  "step\<^sup>*\<^sup>* s t \<Longrightarrow> fence l < current s (task_of l) \<Longrightarrow> \<not> accepts t l"
  using current_grows_steps [of s t "task_of l"] accepts_current [of t l] by auto

end

subsection \<open>Executors on one table\<close>

text \<open>
  The table with every lease handed out so far: any process may claim any task at any time
  with any clock reading, and a process that holds a lease may send any fenced write with it.
\<close>

record task_system =
  sys_table :: task_table
  sys_issued :: "task_lease list"

inductive task_step ::
  "('p checkpoint_envelope \<Rightarrow> string option) \<Rightarrow> task_system \<Rightarrow> task_system \<Rightarrow> bool"
  for to_json where
  step_claim: "claim (sys_table s) task digest execution holder now duration = (db, Inr l)
     \<Longrightarrow> task_step to_json s \<lparr>sys_table = db, sys_issued = l # sys_issued s\<rparr>"
| step_refused: "claim (sys_table s) task digest execution holder now duration = (db, Inl e)
     \<Longrightarrow> task_step to_json s (s\<lparr>sys_table := db\<rparr>)"
| step_request: "l \<in> set (sys_issued s) \<Longrightarrow> apply_request to_json (sys_table s) l req = (db, res)
     \<Longrightarrow> task_step to_json s (s\<lparr>sys_table := db\<rparr>)"

definition task_init :: "task_system \<Rightarrow> bool" where
  "task_init s \<longleftrightarrow> sys_table s = (\<lambda>_. None) \<and> sys_issued s = []"

definition current_token :: "task_system \<Rightarrow> string \<Rightarrow> int" where
  "current_token s k = (case sys_table s k of None \<Rightarrow> 0 | Some r \<Rightarrow> row_token r)"

definition row_ok :: "string \<Rightarrow> task_row \<Rightarrow> task_lease list \<Rightarrow> bool" where
  "row_ok k r ls \<longleftrightarrow> row_identity r = k
     \<and> row_state r \<in> {''running'', ''completed'', ''failed''}
     \<and> row_attempts r = row_token r
     \<and> row_token r = int (length (filter (\<lambda>l. lease_task l = k) ls))
     \<and> (\<exists>l \<in> set ls. lease_task l = k \<and> lease_digest l = row_digest r \<and> lease_token l = row_token r
          \<and> row_execution_id r = Some (lease_execution_id l)
          \<and> row_holder_id r = Some (lease_holder_id l))"

definition lease_key :: "task_lease \<Rightarrow> string \<times> int" where
  "lease_key l = (lease_task l, lease_token l)"

definition task_inv :: "task_system \<Rightarrow> bool" where
  "task_inv s \<longleftrightarrow>
     (\<forall>k r. sys_table s k = Some r \<longrightarrow> row_ok k r (sys_issued s))
     \<and> (\<forall>l \<in> set (sys_issued s). \<exists>r. sys_table s (lease_task l) = Some r
          \<and> row_digest r = lease_digest l \<and> 1 \<le> lease_token l \<and> lease_token l \<le> row_token r)
     \<and> distinct (map lease_key (sys_issued s))"

lemma claim_effect:
  assumes "claim db task digest execution holder now duration = (db', res)"
  shows "(db' = db \<and> (\<exists>e. res = Inl e))
    \<or> (\<exists>l. res = Inr l \<and> lease_task l = task \<and> lease_digest l = digest
        \<and> lease_execution_id l = execution \<and> lease_holder_id l = holder
        \<and> lease_token l = row_token (seen_row db task digest now) + 1
        \<and> db' = db(task \<mapsto> claimed_row (seen_row db task digest now) execution holder now duration)
        \<and> row_claimable (seen_row db task digest now) digest now)"
proof (cases "claimable db task digest now duration")
  case True
  then have "0 < duration" "row_claimable (seen_row db task digest now) digest now"
    by (auto simp: claimable_seen)
  with claim_tx_accepts [OF True, of execution holder] assms show ?thesis
    by (auto simp: claim_def)
next
  case False
  with claim_tx_refuses [OF False, of execution holder] assms show ?thesis
    by (auto simp: claim_def split: if_splits)
qed

lemma current_grows_step:
  assumes "task_step to_json s t"
  shows "current_token s k \<le> current_token t k"
  using assms
proof cases
  case (step_claim task digest execution holder now duration db l)
  from claim_effect [OF step_claim(2)] step_claim(1) show ?thesis
    using seen_row_absent [of "sys_table s" task digest now]
      seen_row_present [of "sys_table s" task _ digest now]
    by (cases "sys_table s task") (auto simp: current_token_def claimed_row_def split: option.splits)
next
  case (step_refused task digest execution holder now duration db e)
  from claim_effect [OF step_refused(2)] step_refused(1) show ?thesis
    by (auto simp: current_token_def)
next
  case (step_request l req db res)
  from apply_request_effect [OF step_request(3)] step_request(1) show ?thesis
    by (auto simp: current_token_def same_fence_def split: option.splits if_splits)
qed

interpretation fenced: fenced_store "task_step to_json" current_token
  "\<lambda>s. holds_lease (sys_table s)" lease_task lease_token
proof unfold_locales
  show "holds_lease (sys_table s) l \<Longrightarrow> current_token s (lease_task l) = lease_token l" for s l
    by (auto simp: holds_lease_def leased_def current_token_def split: option.splits)
qed (rule current_grows_step)

lemma holds_lease_requestI:
  "snd (apply_request to_json db l req) = Inr () \<Longrightarrow> holds_lease db l"
  by (cases "holds_lease db l") (auto dest: apply_request_unheld [of db l to_json req])

text \<open>
  Once a task has a newer fencing token than a lease, every write with that lease is
  refused and changes nothing, now and after any further activity of any executors.
\<close>

theorem overtaken_lease_rejected:
  assumes "(task_step to_json)\<^sup>*\<^sup>* s t" and "lease_token l < current_token s (lease_task l)"
  shows "\<exists>e. apply_request to_json (sys_table t) l req = (sys_table t, Inl e)"
  using fenced.overtaken_rejected [OF assms] by (rule apply_request_unheld)

lemma row_ok_claimed:
  assumes l: "lease_task l = k" "lease_digest l = row_digest r" "lease_token l = row_token r + 1"
    and count: "row_token r = int (length (filter (\<lambda>l. lease_task l = k) ls))"
    and row: "row_identity r = k" "row_attempts r = row_token r"
  shows "row_ok k (claimed_row r (lease_execution_id l) (lease_holder_id l) now d) (l # ls)"
  using assms by (simp add: row_ok_def claimed_row_def)

lemma row_ok_fence: "row_ok k r ls \<Longrightarrow> same_fence r r' \<Longrightarrow> row_ok k r' ls"
  by (auto simp: row_ok_def same_fence_def)

lemma row_ok_other: "row_ok k r ls \<Longrightarrow> lease_task l \<noteq> k \<Longrightarrow> row_ok k r (l # ls)"
  by (auto simp: row_ok_def)

lemma task_inv_claim:
  assumes inv: "task_inv s"
    and task: "lease_task l = task" and digest: "lease_digest l = digest"
    and new: "lease_token l = row_token (seen_row (sys_table s) task digest now) + 1"
    and ok: "row_claimable (seen_row (sys_table s) task digest now) digest now"
  shows "task_inv \<lparr>sys_table = (sys_table s)(task \<mapsto>
      claimed_row (seen_row (sys_table s) task digest now) (lease_execution_id l)
        (lease_holder_id l) now d), sys_issued = l # sys_issued s\<rparr>"
proof -
  let ?r = "seen_row (sys_table s) task digest now"
  let ?c = "claimed_row ?r (lease_execution_id l) (lease_holder_id l) now d"
  from inv have rows: "\<And>k r. sys_table s k = Some r \<Longrightarrow> row_ok k r (sys_issued s)"
    and leases: "\<And>l. l \<in> set (sys_issued s) \<Longrightarrow> \<exists>r. sys_table s (lease_task l) = Some r
      \<and> row_digest r = lease_digest l \<and> 1 \<le> lease_token l \<and> lease_token l \<le> row_token r"
    and keys: "distinct (map lease_key (sys_issued s))"
    by (auto simp: task_inv_def)
  from ok have rd: "row_digest ?r = digest" by (simp add: row_claimable_def)
  have old: "lease_token l' \<le> row_token ?r" if "l' \<in> set (sys_issued s)" "lease_task l' = task" for l'
    using leases [OF that(1)] that(2) by (auto simp: seen_row_present)
  have seen: "row_token ?r = int (length (filter (\<lambda>l. lease_task l = task) (sys_issued s)))
    \<and> row_identity ?r = task \<and> row_attempts ?r = row_token ?r"
  proof (cases "sys_table s task")
    case None
    with leases have "filter (\<lambda>l. lease_task l = task) (sys_issued s) = []"
      by (fastforce simp: filter_empty_conv)
    with seen_row_absent [of "sys_table s" task digest now] None show ?thesis by simp
  next
    case (Some r)
    with rows [OF Some] show ?thesis by (simp add: seen_row_present row_ok_def)
  qed
  then have "row_ok task ?c (l # sys_issued s)"
    using task digest new rd by (intro row_ok_claimed) auto
  moreover have "lease_key l \<notin> lease_key ` set (sys_issued s)"
    using old new task by (auto simp: lease_key_def) fastforce
  moreover have "row_digest ?c = digest" "row_token ?c = lease_token l" "1 \<le> lease_token l"
    using rd new seen by (auto simp: claimed_row_def)
  moreover have "\<exists>r. ((sys_table s)(task \<mapsto> ?c)) (lease_task l') = Some r
      \<and> row_digest r = lease_digest l' \<and> 1 \<le> lease_token l' \<and> lease_token l' \<le> row_token r"
    if "l' \<in> set (sys_issued s)" for l'
    using leases [OF that] old [OF that] rd new
    by (auto simp: claimed_row_def seen_row_present)
  ultimately show ?thesis
    using rows row_ok_other task digest keys by (auto simp: task_inv_def)
qed

lemma task_inv_request:
  assumes "task_inv s" "sys_table s k = Some r" "same_fence r r'"
  shows "task_inv (s\<lparr>sys_table := (sys_table s)(k \<mapsto> r')\<rparr>)"
  using assms row_ok_fence [of k r "sys_issued s" r']
  by (auto simp: task_inv_def same_fence_def split: if_splits)

lemma task_inv_step:
  assumes "task_inv s" "task_step to_json s t"
  shows "task_inv t"
  using assms(2)
proof cases
  case (step_claim task digest execution holder now duration db l)
  with claim_effect [OF step_claim(2)] task_inv_claim [OF assms(1), of l task digest now duration]
  show ?thesis by auto
next
  case (step_refused task digest execution holder now duration db e)
  with claim_effect [OF step_refused(2)] assms(1) show ?thesis by auto
next
  case (step_request l req db res)
  with apply_request_effect [OF step_request(3)] task_inv_request [OF assms(1)] assms(1)
  show ?thesis by auto
qed

interpretation task_sys: invariant_system task_init "task_step to_json" task_inv
proof unfold_locales
  show "task_init s \<Longrightarrow> task_inv s" for s
    by (simp add: task_init_def task_inv_def)
qed (rule task_inv_step)


lemma held_leases_equal:
  assumes inv: "task_inv s" and l: "l \<in> set (sys_issued s)" and l': "l' \<in> set (sys_issued s)"
    and same: "lease_task l = lease_task l'"
    and holds: "holds_lease (sys_table s) l" "holds_lease (sys_table s) l'"
  shows "l = l'"
proof -
  from holds same have "lease_key l = lease_key l'"
    by (auto simp: holds_lease_def leased_def lease_key_def split: option.splits)
  with inv l l' show ?thesis
    by (auto simp: task_inv_def distinct_map dest: inj_onD)
qed

text \<open>
  C1. Mutual exclusion: whatever the interleaving of claims, renewals, completions and
  failures by any number of executors, and whatever their clocks, at most one of the leases
  handed out for a task is accepted at any time.
\<close>

theorem one_lease_accepted:
  assumes "reachable task_init (task_step to_json) s"
    and "l \<in> set (sys_issued s)" "l' \<in> set (sys_issued s)" "lease_task l = lease_task l'"
    and "snd (apply_request to_json (sys_table s) l req) = Inr ()"
    and "snd (apply_request to_json (sys_table s) l' req') = Inr ()"
  shows "l = l'"
  using held_leases_equal [OF task_sys.reachable_inv [OF assms(1)] assms(2-4)]
    holds_lease_requestI [OF assms(5)] holds_lease_requestI [OF assms(6)] by blast

text \<open>
  The bookkeeping columns tell the truth in every reachable state: the attempt count and
  the fencing token of a row both equal the number of leases ever handed out for the task, and
  the row names the execution and holder of the last of them.
\<close>

theorem attempts_count_leases:
  assumes "reachable task_init (task_step to_json) s" and "sys_table s k = Some r"
  shows "row_attempts r = int (length (filter (\<lambda>l. lease_task l = k) (sys_issued s)))
    \<and> row_token r = row_attempts r
    \<and> (\<exists>l \<in> set (sys_issued s). lease_task l = k \<and> lease_token l = row_token r
        \<and> row_execution_id r = Some (lease_execution_id l)
        \<and> row_holder_id r = Some (lease_holder_id l))"
  using task_sys.reachable_inv [OF assms(1)] assms(2) by (fastforce simp: task_inv_def row_ok_def)

lemma completed_step:
  assumes "task_step to_json s t" "sys_table s k = Some r" "row_state r = ''completed''"
  shows "sys_table t k = Some r"
  using assms(1)
proof cases
  case (step_claim task digest execution holder now duration db l)
  with claim_effect [OF step_claim(2)] assms show ?thesis
    by (auto simp: row_claimable_def seen_row_present)
next
  case (step_refused task digest execution holder now duration db e)
  with claim_effect [OF step_refused(2)] assms show ?thesis by auto
next
  case (step_request l req db res)
  with apply_request_effect [OF step_request(3)] assms show ?thesis
    by (auto simp: holds_lease_def leased_def)
qed

text \<open>
  Completion is final: no later activity of any executor, with any lease, clock reading or
  definition digest, changes the row of a completed task.
\<close>

theorem completed_is_final:
  assumes "(task_step to_json)\<^sup>*\<^sup>* s t" and "sys_table s k = Some r" and "row_state r = ''completed''"
  shows "sys_table t k = Some r"
  using assms(1,2) by (induction rule: rtranclp_induct) (auto intro: completed_step assms(3))

subsection \<open>A concrete run\<close>

text \<open>
  One executor claims a task at time 0 for 10 ms and stalls; a second one claims it at time
  20, after the lease ran out, and completes it.
\<close>

definition demo_claim :: "task_system \<Rightarrow> int \<Rightarrow> task_system" where
  "demo_claim s now =
     (case claim (sys_table s) ''t'' ''d'' ''e'' ''h'' now 10 of
        (db, Inr l) \<Rightarrow> \<lparr>sys_table = db, sys_issued = l # sys_issued s\<rparr>
      | (db, Inl e) \<Rightarrow> s\<lparr>sys_table := db\<rparr>)"

definition demo_lease :: "int \<Rightarrow> task_lease" where
  "demo_lease token = \<lparr>lease_task = ''t'', lease_digest = ''d'', lease_execution_id = ''e'',
     lease_holder_id = ''h'', lease_token = token\<rparr>"

definition demo_start :: task_system where
  "demo_start = \<lparr>sys_table = (\<lambda>_. None), sys_issued = []\<rparr>"

definition demo_taken :: task_system where
  "demo_taken = demo_claim (demo_claim demo_start 0) 20"

definition demo_done :: task_system where
  "demo_done = demo_taken\<lparr>sys_table := fst (complete (sys_table demo_taken) (demo_lease 2) 25)\<rparr>"

lemma demo_claim_step: "task_step to_json s (demo_claim s now)"
  by (auto simp: demo_claim_def intro: task_step.intros split: prod.split sum.split)

lemma demo_taken_reachable: "reachable task_init (task_step to_json) demo_taken"
  unfolding demo_taken_def
  by (rule reach_step [OF reach_step [OF reach_init]])
    (auto simp: task_init_def demo_start_def intro: demo_claim_step)

lemma demo_taken_issued: "sys_issued demo_taken = [demo_lease 2, demo_lease 1]"
  by code_simp

lemma demo_done_step: "task_step (to_json :: 'p checkpoint_envelope \<Rightarrow> string option) demo_taken demo_done"
proof -
  have *: "apply_request to_json (sys_table demo_taken) (demo_lease 2) (CompleteTask 25)
    = (sys_table demo_done, snd (complete (sys_table demo_taken) (demo_lease 2) 25))"
    by (simp add: demo_done_def)
  from * have "task_step to_json demo_taken (demo_taken\<lparr>sys_table := sys_table demo_done\<rparr>)"
    by (rule task_step.step_request [rotated]) (simp add: demo_taken_issued)
  then show ?thesis by (simp add: demo_done_def)
qed

theorem overtaken_lease_rejected_witness:
  "\<exists>e. apply_request (\<lambda>_ :: unit checkpoint_envelope. None) (sys_table demo_done) (demo_lease 1)
     (RenewLease 26 10) = (sys_table demo_done, Inl e)"
proof (rule overtaken_lease_rejected [of "\<lambda>_ :: unit checkpoint_envelope. None" demo_taken])
  show "(task_step (\<lambda>_ :: unit checkpoint_envelope. None))\<^sup>*\<^sup>* demo_taken demo_done"
    by (rule r_into_rtranclp) (rule demo_done_step)
  show "lease_token (demo_lease 1) < current_token demo_taken (lease_task (demo_lease 1))"
    by code_simp
qed

theorem one_lease_accepted_witness:
  "snd (apply_request (\<lambda>_ :: unit checkpoint_envelope. None) (sys_table demo_taken) (demo_lease 2)
      (RenewLease 26 10)) = Inr ()
   \<and> snd (apply_request (\<lambda>_ :: unit checkpoint_envelope. None) (sys_table demo_taken) (demo_lease 1)
      (RenewLease 26 10)) \<noteq> Inr ()"
proof -
  let ?j = "\<lambda>_ :: unit checkpoint_envelope. None"
  have ok: "snd (apply_request ?j (sys_table demo_taken) (demo_lease 2) (RenewLease 26 10)) = Inr ()"
    by code_simp
  moreover have "demo_lease 2 \<noteq> demo_lease 1" "lease_task (demo_lease 2) = lease_task (demo_lease 1)"
    by (simp_all add: demo_lease_def)
  ultimately show ?thesis
    using one_lease_accepted [OF demo_taken_reachable, of "demo_lease 2" "demo_lease 1" ?j
        "RenewLease 26 10" "RenewLease 26 10"]
    by (auto simp: demo_taken_issued)
qed

theorem attempts_count_leases_witness:
  "map_option row_attempts (sys_table demo_taken ''t'') = Some 2"
proof -
  have "sys_table demo_taken ''t'' \<noteq> None" by code_simp
  then obtain r where r: "sys_table demo_taken ''t'' = Some r" by auto
  from attempts_count_leases [OF demo_taken_reachable [of "\<lambda>_ :: unit checkpoint_envelope. None"] r]
  show ?thesis by (simp add: r demo_taken_issued demo_lease_def)
qed

theorem completed_is_final_witness:
  "map_option row_state (sys_table (demo_claim demo_done 90) ''t'') = Some ''completed''"
proof -
  have "map_option row_state (sys_table demo_done ''t'') = Some ''completed''" by code_simp
  then obtain r where r: "sys_table demo_done ''t'' = Some r" "row_state r = ''completed''" by auto
  have "(task_step (\<lambda>_ :: unit checkpoint_envelope. None))\<^sup>*\<^sup>* demo_done (demo_claim demo_done 90)"
    by (rule r_into_rtranclp) (rule demo_claim_step)
  from completed_is_final [OF this r] r show ?thesis by simp
qed

end
