(* ===== verification/Index_Maintenance.thy ===== *)
theory Index_Maintenance
  imports Complex_Main Store_Prelude "HOL-Library.AList"
begin

text \<open>
  The coordinator of search-index maintenance tasks
  (\<open>infra/src/infra/search_index_maintenance.rs\<close>): the state behind its mutex, the admission
  of tasks (\<open>start\<close>), the terminal bookkeeping of the spawned future, the internal checks and
  the status report. Every function is one critical section of the mutex, so a sequence of
  calls is an interleaving of the program. The repository executor is not modelled: what it
  returns is an argument of type \<open>execution\<close>. Hash maps are association lists, clock readings
  are arguments, a \<open>Duration\<close> is its number of nanoseconds.

  Floating point: a finite non-negative \<open>f64\<close> is a rational, \<open>fl\<close> rounds a rational to a
  double, and \<open>pow_f64\<close> is \<open>f64::powi\<close> (\<open>None\<close> is infinity), whose rounding Rust leaves
  unspecified.
\<close>

subsection \<open>Targets, actions, records\<close>

datatype maintenance_target =
  MemoryFts | MemoryVector | MemoryTable | ThreadFts | ThreadVector | ThreadTable

fun physical_table :: "maintenance_target \<Rightarrow> maintenance_target" where
  "physical_table MemoryFts = MemoryTable"
| "physical_table MemoryVector = MemoryTable"
| "physical_table MemoryTable = MemoryTable"
| "physical_table ThreadFts = ThreadTable"
| "physical_table ThreadVector = ThreadTable"
| "physical_table ThreadTable = ThreadTable"

fun is_component :: "maintenance_target \<Rightarrow> bool" where
  "is_component t = (t \<in> {MemoryFts, MemoryVector, ThreadFts, ThreadVector})"

datatype maintenance_action = Check | Build | Optimize

datatype optimize_action = OptIndex | OptCompact | OptPrune

definition normalize_optimize_actions :: "optimize_action list \<Rightarrow> optimize_action list" where
  "normalize_optimize_actions actions =
     (let compact = OptCompact \<in> set actions;
          index = compact \<or> OptIndex \<in> set actions;
          prune = OptPrune \<in> set actions
      in (if compact then [OptCompact] else []) @ (if index then [OptIndex] else [])
         @ (if prune then [OptPrune] else []))"

datatype task_status = Running | Succeeded | Failed | Skipped | SkippedDisabled | Deferred

datatype observation_status = Observed | Unavailable

record index_observation =
  obs_target :: maintenance_target
  obs_at :: int
  obs_status :: observation_status
  obs_present :: "bool option"
  obs_unindexed :: "nat option"
  obs_error :: string

record maintenance_warning =
  warn_category :: string
  warn_at :: int
  warn_summary :: string

record sub_action_result =
  sub_action :: optimize_action
  sub_status :: task_status
  sub_error :: string

record task_completion =
  done_status :: task_status
  done_error :: string
  done_observations :: "index_observation list"
  done_warnings :: "maintenance_warning list"
  done_sub_actions :: "sub_action_result list"

record maintenance_task =
  task_id :: string
  requested_target :: maintenance_target
  task_table :: maintenance_target
  task_action :: maintenance_action
  task_state :: task_status
  started_at :: int
  finished_at :: "int option"
  task_error :: string
  task_observations :: "index_observation list"
  task_warnings :: "maintenance_warning list"
  task_sub_actions :: "sub_action_result list"

datatype skip_reason =
    CandidateNone | SkipRunning | CheckRunning | ReconcileRunning | Backoff | NonRetryable
  | SkipDeferred | SkipDisabled | ObservationUnavailable

definition unavailable_observation :: "int \<Rightarrow> maintenance_target \<Rightarrow> string \<Rightarrow> index_observation" where
  "unavailable_observation now target summary =
     \<lparr>obs_target = target, obs_at = now, obs_status = Unavailable, obs_present = None,
      obs_unindexed = None, obs_error = summary\<rparr>"

definition check_timeout_completion :: "int \<Rightarrow> maintenance_target \<Rightarrow> task_completion" where
  "check_timeout_completion now target =
     (let targets = (case target of
            MemoryTable \<Rightarrow> [MemoryFts, MemoryVector]
          | ThreadTable \<Rightarrow> [ThreadFts, ThreadVector]
          | component \<Rightarrow> [component]);
          summary = ''check deadline exceeded''
      in \<lparr>done_status = Succeeded, done_error = [],
          done_observations = map (\<lambda>t. unavailable_observation now t summary) targets,
          done_warnings = [\<lparr>warn_category = ''CHECK_TIMEOUT'', warn_at = now, warn_summary = summary\<rparr>],
          done_sub_actions = []\<rparr>)"

definition is_retryable_error :: "string \<Rightarrow> bool" where
  "is_retryable_error err =
     (let e = to_ascii_lowercase err
      in contains_str e ''conflict'' \<or> contains_str e ''temporar''
         \<or> contains_str e ''unavailable'' \<or> contains_str e ''timeout'')"

subsection \<open>Configuration and coordinator state\<close>

type_synonym duration = nat

definition as_millis :: "duration \<Rightarrow> nat" where "as_millis d = d div 1000000"
definition as_secs :: "duration \<Rightarrow> nat" where "as_secs d = d div 1000000000"

record table_maintenance_config =
  index_update_interval :: duration
  compaction_interval :: duration
  prune_interval :: duration
  prune_older_than :: duration
  index_update_unindexed_rows :: nat

record coordinator_config =
  history_limit :: nat
  check_deadline :: duration
  backoff_initial :: duration
  backoff_multiplier :: rat
  backoff_max :: duration
  table_config :: "(table_maintenance_config \<times> table_maintenance_config) option"
  coordinator_started_at :: int

record candidate_state =
  last_index_at :: "int option"
  last_compact_at :: "int option"
  last_prune_at :: "int option"
  retry_after :: "int option"
  non_retryable :: bool

definition default_candidate :: candidate_state where
  "default_candidate = \<lparr>last_index_at = None, last_compact_at = None, last_prune_at = None,
     retry_after = None, non_retryable = False\<rparr>"

text \<open>
  The fields of \<open>CoordinatorState\<close>, with the free permit of the DDL semaphore (capacity one)
  and the task counter of the coordinator.
\<close>

record coordinator =
  running :: "(string \<times> maintenance_task) list"
  history :: "maintenance_task list"
  last_results :: "(maintenance_target \<times> maintenance_task) list"
  reconcile_running :: bool
  reconcile_cursor :: nat
  internal_checks :: "maintenance_target set"
  candidates :: "(maintenance_target \<times> candidate_state) list"
  permit_free :: bool
  task_counter :: nat

definition new_coordinator :: coordinator where
  "new_coordinator = \<lparr>running = [], history = [], last_results = [], reconcile_running = False,
     reconcile_cursor = 0, internal_checks = {}, candidates = [], permit_free = True,
     task_counter = 1\<rparr>"

definition default_policy :: "int \<Rightarrow> nat \<Rightarrow> coordinator_config" where
  "default_policy now limit = \<lparr>history_limit = limit, check_deadline = 30000000000,
     backoff_initial = 1000000000, backoff_multiplier = 2, backoff_max = 60000000000,
     table_config = None, coordinator_started_at = now\<rparr>"

definition table_maintenance_config_of ::
  "coordinator_config \<Rightarrow> maintenance_target \<Rightarrow> table_maintenance_config option" where
  "table_maintenance_config_of cfg target =
     (case table_config cfg of
        None \<Rightarrow> None
      | Some (memory, thread) \<Rightarrow>
          (case target of MemoryTable \<Rightarrow> Some memory | ThreadTable \<Rightarrow> Some thread | _ \<Rightarrow> None))"

definition prune_older_than_secs_for :: "coordinator_config \<Rightarrow> maintenance_target \<Rightarrow> nat" where
  "prune_older_than_secs_for cfg target =
     (case table_maintenance_config_of cfg target of
        Some c \<Rightarrow> as_secs (prune_older_than c) | None \<Rightarrow> 0)"

subsection \<open>Candidates\<close>

definition candidate_skip_reason ::
  "coordinator \<Rightarrow> int \<Rightarrow> maintenance_target \<Rightarrow> skip_reason option" where
  "candidate_skip_reason s now target =
     (case map_of (candidates s) target of
        None \<Rightarrow> None
      | Some c \<Rightarrow>
          if non_retryable c then Some NonRetryable
          else if (case retry_after c of Some t \<Rightarrow> now < t | None \<Rightarrow> False) then Some Backoff
          else None)"

text \<open>
  \<open>now >= last + interval\<close> in wrapping \<open>i64\<close> arithmetic, the interval clamped to \<open>i64::MAX\<close>.
\<close>

definition due :: "int \<Rightarrow> int \<Rightarrow> duration \<Rightarrow> int option \<Rightarrow> bool" where
  "due started now interval previous =
     (interval \<noteq> 0 \<and>
      wrap_i64 ((case previous of Some l \<Rightarrow> l | None \<Rightarrow> started) + min (int (as_millis interval)) i64_max)
        \<le> now)"

definition due_optimize_actions ::
  "coordinator_config \<Rightarrow> coordinator \<Rightarrow> int \<Rightarrow> maintenance_target \<Rightarrow> optimize_action list" where
  "due_optimize_actions cfg s now target =
     (case table_maintenance_config_of cfg target of
        None \<Rightarrow> []
      | Some c \<Rightarrow>
          let candidate = (case map_of (candidates s) target of Some x \<Rightarrow> x | None \<Rightarrow> default_candidate);
              is_due = due (coordinator_started_at cfg) now;
              compact_due = is_due (compaction_interval c) (last_compact_at candidate);
              index_due = is_due (index_update_interval c) (last_index_at candidate);
              prune_due = is_due (prune_interval c) (last_prune_at candidate)
          in (if compact_due then [OptCompact] else [])
             @ (if compact_due \<or> index_due then [OptIndex] else [])
             @ (if prune_due then [OptPrune] else []))"

definition table_index_row_threshold_due ::
  "coordinator_config \<Rightarrow> maintenance_target \<Rightarrow> task_completion \<Rightarrow> bool" where
  "table_index_row_threshold_due cfg target completion =
     (case table_maintenance_config_of cfg target of
        None \<Rightarrow> False
      | Some c \<Rightarrow> 0 < index_update_unindexed_rows c
          \<and> list_ex (\<lambda>ob. obs_status ob = Observed \<and> obs_present ob = Some True
               \<and> (case obs_unindexed ob of
                     Some rows \<Rightarrow> index_update_unindexed_rows c \<le> rows | None \<Rightarrow> False))
             (done_observations completion))"

subsection \<open>Admission\<close>

datatype start_error = AlreadyRunning "maintenance_task list" | InvalidRequest string

text \<open>What the spawned future captures.\<close>

record dispatch =
  disp_task_id :: string
  disp_target :: maintenance_target
  disp_action :: maintenance_action
  disp_force :: bool
  disp_actions :: "optimize_action list"
  disp_prune_secs :: nat

definition validate_start ::
  "maintenance_target \<Rightarrow> maintenance_action \<Rightarrow> optimize_action list \<Rightarrow> string option" where
  "validate_start target action actions =
     (if action = Build \<and> \<not> is_component target
      then Some ''build requires a component target''
      else if action = Optimize \<and> is_component target
      then Some ''optimize requires a table target''
      else if action = Optimize \<and> actions = []
      then Some ''optimize requires actions''
      else None)"

definition blocks :: "maintenance_target \<Rightarrow> maintenance_action \<Rightarrow> maintenance_task \<Rightarrow> bool" where
  "blocks physical action task \<longleftrightarrow>
     task_table task = physical
     \<and> (case action of
          Check \<Rightarrow> task_action task = Check
        | Build \<Rightarrow> task_action task \<noteq> Check
        | Optimize \<Rightarrow> task_action task \<noteq> Check)"

definition task_name :: "nat \<Rightarrow> string" where
  "task_name n = ''sim-'' @ show_nat n"

definition new_task ::
  "string \<Rightarrow> maintenance_target \<Rightarrow> maintenance_action \<Rightarrow> int \<Rightarrow> maintenance_task" where
  "new_task tid target action now =
     \<lparr>task_id = tid, requested_target = target, task_table = physical_table target,
      task_action = action, task_state = Running, started_at = now, finished_at = None,
      task_error = [], task_observations = [], task_warnings = [], task_sub_actions = []\<rparr>"

definition start_task ::
  "coordinator_config \<Rightarrow> coordinator \<Rightarrow> int \<Rightarrow> maintenance_target \<Rightarrow> maintenance_action \<Rightarrow> bool
    \<Rightarrow> optimize_action list \<Rightarrow> coordinator \<times> (start_error + maintenance_task \<times> dispatch)" where
  "start_task cfg s now target action force actions =
     (case validate_start target action actions of
        Some reason \<Rightarrow> (s, Inl (InvalidRequest reason))
      | None \<Rightarrow>
          let blocked = filter (blocks (physical_table target) action) (map snd (running s))
          in if blocked \<noteq> [] then (s, Inl (AlreadyRunning blocked))
             else if action \<noteq> Check \<and> \<not> permit_free s
             then (s, Inl (AlreadyRunning (filter (\<lambda>t. task_action t \<noteq> Check) (map snd (running s)))))
             else
               let tid = task_name (task_counter s);
                   task = new_task tid target action now
               in (s\<lparr>running := AList.update tid task (running s),
                     permit_free := (if action = Check then permit_free s else False),
                     task_counter := (task_counter s + 1) mod 18446744073709551616\<rparr>,
                   Inr (task, \<lparr>disp_task_id = tid, disp_target = target, disp_action = action,
                              disp_force = force,
                              disp_actions = (if action = Optimize
                                              then normalize_optimize_actions actions else actions),
                              disp_prune_secs = prune_older_than_secs_for cfg target\<rparr>)))"

subsection \<open>Back-off\<close>

text \<open>\<open>Duration::as_secs_f64\<close>, and \<open>Duration::mul_f64\<close>, which panics (\<open>None\<close>) on overflow.\<close>

definition as_secs_f64 :: "(rat \<Rightarrow> rat) \<Rightarrow> duration \<Rightarrow> rat" where
  "as_secs_f64 fl d =
     fl (fl (of_nat (d div 1000000000)) + fl (of_nat (d mod 1000000000) / 1000000000))"

definition round_half_even :: "rat \<Rightarrow> int" where
  "round_half_even x =
     (let f = \<lfloor>x\<rfloor>; r = x - of_int f
      in if r < 1 / 2 then f else if 1 / 2 < r then f + 1 else if even f then f else f + 1)"

definition mul_f64 :: "(rat \<Rightarrow> rat) \<Rightarrow> duration \<Rightarrow> rat \<Rightarrow> duration option" where
  "mul_f64 fl d x =
     (let nanos = round_half_even (fl (x * as_secs_f64 fl d) * 1000000000)
      in if nanos < 18446744073709551616 * 1000000000 then Some (nat nanos) else None)"

definition backoff_delay ::
  "(rat \<Rightarrow> rat) \<Rightarrow> (rat \<Rightarrow> nat \<Rightarrow> rat option) \<Rightarrow> coordinator_config \<Rightarrow> nat \<Rightarrow> duration option" where
  "backoff_delay fl pow_f64 cfg failures =
     (case pow_f64 (backoff_multiplier cfg) failures of
        None \<Rightarrow> None
      | Some factor \<Rightarrow> map_option (\<lambda>d. min d (backoff_max cfg)) (mul_f64 fl (backoff_initial cfg) factor))"

subsection \<open>Completion\<close>

text \<open>What the executor's future did: a value, an error, a panic, or the check deadline.\<close>

datatype execution = Returned task_completion | Errored string | Panicked | DeadlineExceeded

definition failed_completion :: "string \<Rightarrow> task_completion" where
  "failed_completion err = \<lparr>done_status = Failed, done_error = err, done_observations = [],
     done_warnings = [], done_sub_actions = []\<rparr>"

definition completion_of :: "int \<Rightarrow> maintenance_target \<Rightarrow> execution \<Rightarrow> task_completion" where
  "completion_of now target e =
     (case e of
        Returned c \<Rightarrow> c
      | Errored err \<Rightarrow> failed_completion err
      | Panicked \<Rightarrow> failed_completion ''TASK_PANIC''
      | DeadlineExceeded \<Rightarrow> check_timeout_completion now target)"

definition is_retryable_failure :: "maintenance_task \<Rightarrow> bool" where
  "is_retryable_failure t \<longleftrightarrow> task_state t = Failed \<and> is_retryable_error (task_error t)"

definition consecutive_failures :: "maintenance_target \<Rightarrow> maintenance_task list \<Rightarrow> nat" where
  "consecutive_failures target hist =
     length (takeWhile (\<lambda>previous. requested_target previous = target \<and> is_retryable_failure previous)
       (rev hist))"

definition record_sub_action :: "int \<Rightarrow> sub_action_result \<Rightarrow> candidate_state \<Rightarrow> candidate_state" where
  "record_sub_action done_at r c =
     (if sub_status r = Succeeded
      then (case sub_action r of
              OptIndex \<Rightarrow> c\<lparr>last_index_at := Some done_at\<rparr>
            | OptCompact \<Rightarrow> c\<lparr>last_compact_at := Some done_at\<rparr>
            | OptPrune \<Rightarrow> c\<lparr>last_prune_at := Some done_at\<rparr>)
      else c)"

definition record_success :: "maintenance_task \<Rightarrow> candidate_state \<Rightarrow> candidate_state" where
  "record_success t c =
     (let c' = c\<lparr>retry_after := None, non_retryable := False\<rparr>;
          done_at = (case finished_at t of Some x \<Rightarrow> x | None \<Rightarrow> 0)
      in case task_action t of
           Build \<Rightarrow> c'\<lparr>last_index_at := Some done_at\<rparr>
         | Optimize \<Rightarrow> fold (record_sub_action done_at) (task_sub_actions t) c'
         | Check \<Rightarrow> c')"

text \<open>The new candidate state, or \<open>None\<close> when computing the back-off panics.\<close>

definition settle_candidate ::
  "(rat \<Rightarrow> rat) \<Rightarrow> (rat \<Rightarrow> nat \<Rightarrow> rat option) \<Rightarrow> coordinator_config \<Rightarrow> maintenance_task list \<Rightarrow> int
    \<Rightarrow> maintenance_task \<Rightarrow> candidate_state \<Rightarrow> candidate_state option" where
  "settle_candidate fl pow_f64 cfg hist now t c =
     (if task_state t = Succeeded then Some (record_success t c)
      else if task_state t = Failed then
        (if is_retryable_error (task_error t)
         then map_option (\<lambda>delay. c\<lparr>retry_after := Some (wrap_i64 (now + wrap_i64 (int (as_millis delay))))\<rparr>)
                (backoff_delay fl pow_f64 cfg (consecutive_failures (requested_target t) hist))
         else Some (c\<lparr>non_retryable := True\<rparr>))
      else Some c)"

definition finished_task :: "int \<Rightarrow> task_completion \<Rightarrow> maintenance_task \<Rightarrow> maintenance_task" where
  "finished_task now c t = t\<lparr>task_state := done_status c, task_error := done_error c,
     task_observations := done_observations c, task_warnings := done_warnings c,
     task_sub_actions := done_sub_actions c, finished_at := Some now\<rparr>"

definition trim_history :: "nat \<Rightarrow> maintenance_task list \<Rightarrow> maintenance_task list" where
  "trim_history limit h = drop (length h - limit) h"

text \<open>
  The end of the spawned future, under the mutex. The flag says that it panicked there; its
  permit is then dropped only after the mutex, by \<open>release_permit\<close>.
\<close>

definition release_permit :: "dispatch \<Rightarrow> coordinator \<Rightarrow> coordinator" where
  "release_permit d s = (if disp_action d = Check then s else s\<lparr>permit_free := True\<rparr>)"

definition finish_task ::
  "(rat \<Rightarrow> rat) \<Rightarrow> (rat \<Rightarrow> nat \<Rightarrow> rat option) \<Rightarrow> coordinator_config \<Rightarrow> coordinator \<Rightarrow> dispatch
    \<Rightarrow> int \<Rightarrow> int \<Rightarrow> execution \<Rightarrow> coordinator \<times> bool" where
  "finish_task fl pow_f64 cfg s d now_done now_retry e =
     (case map_of (running s) (disp_task_id d) of
        None \<Rightarrow> (release_permit d s, False)
      | Some running_task \<Rightarrow>
          let task = finished_task now_done (completion_of now_done (disp_target d) e) running_task;
              target = requested_target task;
              candidate = (case map_of (candidates s) target of Some c \<Rightarrow> c | None \<Rightarrow> default_candidate);
              removed = s\<lparr>running := AList.delete (disp_task_id d) (running s)\<rparr>
          in case settle_candidate fl pow_f64 cfg (history s) now_retry task candidate of
               None \<Rightarrow> (removed\<lparr>candidates := AList.update target candidate (candidates s)\<rparr>, True)
             | Some candidate' \<Rightarrow>
                 (release_permit d (removed\<lparr>candidates := AList.update target candidate' (candidates s),
                    last_results := AList.update target task (last_results s),
                    history := trim_history (history_limit cfg) (history s @ [task])\<rparr>), False))"

subsection \<open>Internal checks and the status report\<close>

text \<open>
  \<open>reconcile_check\<close> takes the table's check slot in one critical section, runs the executor
  outside the mutex and gives the slot back in another.
\<close>

definition reconcile_check_begin :: "coordinator \<Rightarrow> maintenance_target \<Rightarrow> skip_reason + coordinator" where
  "reconcile_check_begin s target =
     (let physical = physical_table target;
          public_check_running =
            list_ex (\<lambda>t. task_table t = physical \<and> task_action t = Check) (map snd (running s))
      in if public_check_running \<or> physical \<in> internal_checks s then Inl CheckRunning
         else Inr (s\<lparr>internal_checks := insert physical (internal_checks s)\<rparr>))"

definition reconcile_check_end :: "coordinator \<Rightarrow> maintenance_target \<Rightarrow> coordinator" where
  "reconcile_check_end s target =
     s\<lparr>internal_checks := internal_checks s - {physical_table target}\<rparr>"

text \<open>
  What the executor's check answered within the time left; a panic unwinds the whole round.
\<close>

datatype check_answer = Checked task_completion | CheckFailed string | CheckTimedOut

definition reconcile_check_result ::
  "int \<Rightarrow> maintenance_target \<Rightarrow> check_answer \<Rightarrow> skip_reason + task_completion" where
  "reconcile_check_result now target a =
     (case a of
        Checked c \<Rightarrow> Inr c
      | CheckFailed _ \<Rightarrow> Inl ObservationUnavailable
      | CheckTimedOut \<Rightarrow> Inr (check_timeout_completion now target))"

record coordinator_status =
  status_running :: "maintenance_task list"
  status_results :: "maintenance_task list"

fun target_index :: "maintenance_target \<Rightarrow> nat" where
  "target_index MemoryFts = 0"
| "target_index MemoryVector = 1"
| "target_index MemoryTable = 2"
| "target_index ThreadFts = 3"
| "target_index ThreadVector = 4"
| "target_index ThreadTable = 5"

definition status_order :: "maintenance_task list \<Rightarrow> maintenance_task list" where
  "status_order = sort_key (\<lambda>t. (target_index (requested_target t), task_id t))"

definition status_of ::
  "coordinator \<Rightarrow> string option \<Rightarrow> maintenance_target option \<Rightarrow> coordinator_status option" where
  "status_of s tid target =
     (case tid of
        Some i \<Rightarrow>
          (case (case map_of (running s) i of
                   Some t \<Rightarrow> Some t | None \<Rightarrow> find (\<lambda>t. task_id t = i) (history s)) of
             None \<Rightarrow> None
           | Some t \<Rightarrow> Some \<lparr>status_running = (if task_state t = Running then [t] else []),
                            status_results = [t]\<rparr>)
      | None \<Rightarrow>
          let physical = map_option physical_table target;
              keep = (\<lambda>t. case physical of None \<Rightarrow> True | Some p \<Rightarrow> task_table t = p)
          in Some \<lparr>status_running = status_order (filter keep (map snd (running s))),
                   status_results = status_order (filter keep (map snd (last_results s)))\<rparr>)"

end
