(* ===== verification/Maintenance_Safety.thy ===== *)
theory Maintenance_Safety
  imports Index_Maintenance
begin

text \<open>
  Safety of the maintenance coordinator: every interleaving of its critical sections by any
  number of callers and spawned futures, as a step relation, with the invariant that rules
  out overlapping index changes. The panic of the back-off computation is one of the steps.
\<close>

subsection \<open>The system\<close>

text \<open>
  The coordinator, the spawned futures that have not ended, the futures that panicked and
  still hold their permit, and the tables with an internal check in flight.
\<close>

record maint_system =
  coord :: coordinator
  spawned :: "dispatch list"
  unwinding :: "dispatch list"
  in_flight :: "maintenance_target list"

definition maint_init :: "maint_system \<Rightarrow> bool" where
  "maint_init s \<longleftrightarrow> s = \<lparr>coord = new_coordinator, spawned = [], unwinding = [], in_flight = []\<rparr>"

inductive maint_step ::
  "(rat \<Rightarrow> rat) \<Rightarrow> (rat \<Rightarrow> nat \<Rightarrow> rat option) \<Rightarrow> coordinator_config \<Rightarrow> maint_system \<Rightarrow> maint_system \<Rightarrow> bool"
  for fl pow_f64 cfg where
  start_accepted:
    "start_task cfg (coord s) now target action force actions = (c, Inr (t, d))
     \<Longrightarrow> task_counter (coord s) + 1 < 18446744073709551616
     \<Longrightarrow> maint_step fl pow_f64 cfg s (s\<lparr>coord := c, spawned := spawned s @ [d]\<rparr>)"
| start_refused:
    "start_task cfg (coord s) now target action force actions = (c, Inl e)
     \<Longrightarrow> maint_step fl pow_f64 cfg s (s\<lparr>coord := c\<rparr>)"
| future_ends:
    "d \<in> set (spawned s)
     \<Longrightarrow> finish_task fl pow_f64 cfg (coord s) d now_done now_retry e = (c, panicked)
     \<Longrightarrow> maint_step fl pow_f64 cfg s (s\<lparr>coord := c,
           spawned := filter (\<lambda>d'. disp_task_id d' \<noteq> disp_task_id d) (spawned s),
           unwinding := (if panicked then d # unwinding s else unwinding s)\<rparr>)"
| future_unwound:
    "unwinding s = us @ d # vs
     \<Longrightarrow> maint_step fl pow_f64 cfg s (s\<lparr>coord := release_permit d (coord s), unwinding := us @ vs\<rparr>)"
| check_begins:
    "reconcile_check_begin (coord s) target = Inr c
     \<Longrightarrow> maint_step fl pow_f64 cfg s (s\<lparr>coord := c, in_flight := physical_table target # in_flight s\<rparr>)"
| check_ends:
    "physical_table target \<in> set (in_flight s)
     \<Longrightarrow> maint_step fl pow_f64 cfg s (s\<lparr>coord := reconcile_check_end (coord s) target,
           in_flight := removeAll (physical_table target) (in_flight s)\<rparr>)"
| round_bookkeeping:
    "maint_step fl pow_f64 cfg s (s\<lparr>coord := (coord s)\<lparr>reconcile_running := b, reconcile_cursor := n\<rparr>\<rparr>)"

definition is_ddl :: "dispatch \<Rightarrow> bool" where
  "is_ddl d \<longleftrightarrow> disp_action d \<noteq> Check"

definition task_matches :: "string \<times> maintenance_task \<Rightarrow> dispatch \<Rightarrow> bool" where
  "task_matches p d \<longleftrightarrow> fst p = disp_task_id d \<and> task_id (snd p) = disp_task_id d
     \<and> task_action (snd p) = disp_action d \<and> requested_target (snd p) = disp_target d
     \<and> task_table (snd p) = physical_table (disp_target d) \<and> task_state (snd p) = Running"

definition all_ids :: "maint_system \<Rightarrow> string list" where
  "all_ids s = map disp_task_id (spawned s) @ map task_id (history (coord s))"

definition maint_inv :: "coordinator_config \<Rightarrow> maint_system \<Rightarrow> bool" where
  "maint_inv cfg s \<longleftrightarrow>
     list_all2 task_matches (running (coord s)) (spawned s)
     \<and> distinct (all_ids s) \<and> set (all_ids s) \<subseteq> task_name ` {..<task_counter (coord s)}
     \<and> length (filter is_ddl (spawned s @ unwinding s)) = (if permit_free (coord s) then 0 else 1)
     \<and> distinct (map (physical_table \<circ> disp_target) (filter (Not \<circ> is_ddl) (spawned s)))
     \<and> internal_checks (coord s) = set (in_flight s) \<and> distinct (in_flight s)
     \<and> length (history (coord s)) \<le> history_limit cfg"

subsection \<open>What each critical section does\<close>

lemma start_task_accepted:
  assumes "start_task cfg s now target action force actions = (c, Inr (t, d))"
  shows "validate_start target action actions = None
    \<and> filter (blocks (physical_table target) action) (map snd (running s)) = []
    \<and> (action \<noteq> Check \<longrightarrow> permit_free s)
    \<and> t = new_task (task_name (task_counter s)) target action now
    \<and> disp_task_id d = task_name (task_counter s) \<and> disp_target d = target
    \<and> disp_action d = action
    \<and> c = s\<lparr>running := AList.update (task_name (task_counter s)) t (running s),
           permit_free := (if action = Check then permit_free s else False),
           task_counter := (task_counter s + 1) mod 18446744073709551616\<rparr>"
  using assms by (auto simp: start_task_def Let_def split: option.splits if_splits)

lemma start_task_refused:
  "start_task cfg s now target action force actions = (c, Inl e) \<Longrightarrow> c = s"
  by (auto simp: start_task_def Let_def split: option.splits if_splits)

lemma release_permit_simps [simp]:
  "running (release_permit d s) = running s"
  "history (release_permit d s) = history s"
  "internal_checks (release_permit d s) = internal_checks s"
  "task_counter (release_permit d s) = task_counter s"
  "candidates (release_permit d s) = candidates s"
  "last_results (release_permit d s) = last_results s"
  "reconcile_running (release_permit d s) = reconcile_running s"
  "reconcile_cursor (release_permit d s) = reconcile_cursor s"
  "permit_free (release_permit d s) = (is_ddl d \<or> permit_free s)"
  by (simp_all add: release_permit_def is_ddl_def)

lemma finish_task_effect:
  assumes "finish_task fl pow_f64 cfg s d now_done now_retry e = (c, panicked)"
    and "map_of (running s) (disp_task_id d) = Some t" and "task_id t = disp_task_id d"
  shows "running c = AList.delete (disp_task_id d) (running s)
    \<and> internal_checks c = internal_checks s \<and> task_counter c = task_counter s
    \<and> (if panicked then history c = history s \<and> permit_free c = permit_free s
       else permit_free c = (is_ddl d \<or> permit_free s)
         \<and> (\<exists>t'. task_id t' = disp_task_id d
              \<and> history c = trim_history (history_limit cfg) (history s @ [t'])))"
proof -
  let ?t = "finished_task now_done (completion_of now_done (disp_target d) e) t"
  have "task_id ?t = disp_task_id d" using assms(3) by (simp add: finished_task_def)
  then show ?thesis using assms(1,2)
    by (simp add: finish_task_def Let_def split: option.splits) (auto intro!: exI [of _ ?t])
qed

lemma length_trim_history: "length (trim_history n h) = min n (length h)"
  by (simp add: trim_history_def)

lemma trim_history_suffix: "suffix (trim_history n h) h"
  by (simp add: trim_history_def suffix_drop)

subsection \<open>Preservation\<close>

lemma distinct_suffix:
  assumes "distinct (xs @ ys @ [k])" "suffix zs (ys @ [k]) \<or> zs = ys"
  shows "distinct (xs @ zs)" "set zs \<subseteq> insert k (set ys)"
proof -
  show "distinct (xs @ zs)"
  proof (cases "zs = ys")
    case False
    with assms(2) obtain us where "ys @ [k] = us @ zs" by (auto simp: suffix_def)
    with assms(1) show ?thesis by auto
  qed (use assms(1) in auto)
  show "set zs \<subseteq> insert k (set ys)"
    using assms(2) set_mono_suffix by fastforce
qed

lemma list_all2_filter:
  "list_all2 P xs ys \<Longrightarrow> (\<And>x y. P x y \<Longrightarrow> f x = g y) \<Longrightarrow> list_all2 P (filter f xs) (filter g ys)"
  by (induction rule: list_all2_induct) auto

lemma matches_keys: "list_all2 task_matches run ds \<Longrightarrow> map fst run = map disp_task_id ds"
  by (induction rule: list_all2_induct) (auto simp: task_matches_def)

lemma matches_lookup:
  assumes "list_all2 task_matches run ds" "distinct (map disp_task_id ds)" "d \<in> set ds"
  shows "\<exists>t. map_of run (disp_task_id d) = Some t \<and> task_matches (disp_task_id d, t) d"
proof -
  from assms(1,3) obtain p where p: "p \<in> set run" "task_matches p d"
    by (metis in_set_conv_nth list_all2_conv_all_nth)
  moreover have "distinct (map fst run)" using assms(1,2) matches_keys by metis
  ultimately have "map_of run (fst p) = Some (snd p)" by simp
  with p show ?thesis by (cases p) (auto simp: task_matches_def)
qed

lemma update_fresh: "k \<notin> fst ` set al \<Longrightarrow> AList.update k v al = al @ [(k, v)]"
  by (induction al) auto

lemma matches_blocked_empty:
  "list_all2 task_matches run ds \<Longrightarrow>
   filter (blocks table action) (map snd run) = [] \<longleftrightarrow>
   filter (\<lambda>d. physical_table (disp_target d) = table \<and> (action = Check \<longleftrightarrow> \<not> is_ddl d)) ds = []"
  by (induction rule: list_all2_induct)
    (auto simp: blocks_def task_matches_def is_ddl_def split: maintenance_action.splits)

lemma maint_inv_start:
  assumes inv: "maint_inv cfg s"
    and start: "start_task cfg (coord s) now target action force actions = (c, Inr (t, d))"
    and room: "task_counter (coord s) + 1 < 18446744073709551616"
  shows "maint_inv cfg (s\<lparr>coord := c, spawned := spawned s @ [d]\<rparr>)"
proof -
  let ?n = "task_counter (coord s)"
  note acc = start_task_accepted [OF start]
  from inv have run: "list_all2 task_matches (running (coord s)) (spawned s)"
    and ids: "distinct (all_ids s)" "set (all_ids s) \<subseteq> task_name ` {..<?n}"
    by (auto simp: maint_inv_def)
  have fresh: "task_name ?n \<notin> set (all_ids s)"
    using ids(2) by (auto simp: task_name_def)
  then have "task_name ?n \<notin> fst ` set (running (coord s))"
    using matches_keys [OF run] by (auto simp: all_ids_def simp flip: set_map)
  then have "running c = running (coord s) @ [(task_name ?n, t)]"
    using acc by (simp add: update_fresh)
  then have run': "list_all2 task_matches (running c) (spawned s @ [d])"
    using run acc by (auto simp: task_matches_def new_task_def intro!: list_all2_appendI)
  have free: "is_ddl d \<Longrightarrow> permit_free (coord s)" "is_ddl d \<longleftrightarrow> action \<noteq> Check"
    using acc by (auto simp: is_ddl_def)
  have none: "filter (\<lambda>d'. physical_table (disp_target d') = physical_table target
      \<and> (action = Check \<longleftrightarrow> \<not> is_ddl d')) (spawned s) = []"
    using acc matches_blocked_empty [OF run] by simp
  have checks: "distinct (map (physical_table \<circ> disp_target) (filter (Not \<circ> is_ddl) (spawned s @ [d])))"
    using inv none acc by (auto simp: maint_inv_def filter_empty_conv is_ddl_def)
  have counter: "task_counter c = Suc ?n" "history c = history (coord s)"
    "internal_checks c = internal_checks (coord s)"
    "permit_free c = (\<not> is_ddl d \<and> permit_free (coord s))"
    using acc room by (auto simp: is_ddl_def)
  have all: "all_ids (s\<lparr>coord := c, spawned := spawned s @ [d]\<rparr>)
      = map disp_task_id (spawned s) @ task_name ?n # map task_id (history (coord s))"
    using acc counter(2) by (simp add: all_ids_def)
  have ids': "distinct (all_ids (s\<lparr>coord := c, spawned := spawned s @ [d]\<rparr>))"
    "set (all_ids (s\<lparr>coord := c, spawned := spawned s @ [d]\<rparr>)) \<subseteq> task_name ` {..<Suc ?n}"
  proof -
    show "distinct (all_ids (s\<lparr>coord := c, spawned := spawned s @ [d]\<rparr>))"
      unfolding all using ids(1) fresh unfolding all_ids_def by simp
    have "set (all_ids (s\<lparr>coord := c, spawned := spawned s @ [d]\<rparr>)) = insert (task_name ?n) (set (all_ids s))"
      unfolding all unfolding all_ids_def by simp
    with ids(2) show "set (all_ids (s\<lparr>coord := c, spawned := spawned s @ [d]\<rparr>)) \<subseteq> task_name ` {..<Suc ?n}"
      by (simp add: lessThan_Suc) blast
  qed
  show ?thesis
    unfolding maint_inv_def
    using inv run' ids' checks counter free by (auto simp: maint_inv_def)
qed

lemma count_ddl_remove:
  "distinct (map disp_task_id ds) \<Longrightarrow> d \<in> set ds \<Longrightarrow>
   length (filter is_ddl ds) =
     length (filter is_ddl (filter (\<lambda>d'. disp_task_id d' \<noteq> disp_task_id d) ds))
       + (if is_ddl d then 1 else 0)"
proof (induction ds)
  case (Cons x ds)
  show ?case
  proof (cases "x = d")
    case True
    with Cons.prems have "disp_task_id d \<notin> disp_task_id ` set ds" by simp
    then have "filter (\<lambda>d'. disp_task_id d' \<noteq> disp_task_id d) ds = ds"
      by (metis (mono_tags, lifting) filter_id_conv imageI)
    with True show ?thesis by simp
  next
    case False
    with Cons show ?thesis by force
  qed
qed simp

lemma distinct_map_filter_and:
  "distinct (map f (filter p xs)) \<Longrightarrow> distinct (map f (filter (\<lambda>x. q x \<and> p x) xs))"
  by (induction xs) (auto split: if_splits)

lemma maint_inv_finish:
  assumes inv: "maint_inv cfg s" and d: "d \<in> set (spawned s)"
    and fin: "finish_task fl pow_f64 cfg (coord s) d now_done now_retry e = (c, panicked)"
  shows "maint_inv cfg (s\<lparr>coord := c,
      spawned := filter (\<lambda>d'. disp_task_id d' \<noteq> disp_task_id d) (spawned s),
      unwinding := (if panicked then d # unwinding s else unwinding s)\<rparr>)"
proof -
  let ?ds = "filter (\<lambda>d'. disp_task_id d' \<noteq> disp_task_id d) (spawned s)"
  from inv have run: "list_all2 task_matches (running (coord s)) (spawned s)"
    and ids: "distinct (all_ids s)" "set (all_ids s) \<subseteq> task_name ` {..<task_counter (coord s)}"
    by (auto simp: maint_inv_def)
  then have dist: "distinct (map disp_task_id (spawned s))" by (simp add: all_ids_def)
  from matches_lookup [OF run dist d] obtain t where
    t: "map_of (running (coord s)) (disp_task_id d) = Some t" "task_id t = disp_task_id d"
    by (auto simp: task_matches_def)
  note eff = finish_task_effect [OF fin t]
  have run': "list_all2 task_matches (running c) ?ds"
    using eff run by (auto simp: AList.delete_eq task_matches_def intro!: list_all2_filter)
  have old: "length (history (coord s)) \<le> history_limit cfg"
    using inv by (simp add: maint_inv_def)
  have hist: "(suffix (map task_id (history c)) (map task_id (history (coord s)) @ [disp_task_id d])
      \<or> map task_id (history c) = map task_id (history (coord s)))
      \<and> length (history c) \<le> history_limit cfg"
  proof (cases panicked)
    case True
    with eff old show ?thesis by simp
  next
    case False
    with eff obtain t' where t': "task_id t' = disp_task_id d"
      "history c = trim_history (history_limit cfg) (history (coord s) @ [t'])" by auto
    from map_mono_suffix [OF trim_history_suffix, of task_id "history_limit cfg"
        "history (coord s) @ [t']"] t'
    show ?thesis by (simp add: length_trim_history)
  qed
  have "distinct (map disp_task_id ?ds @ map task_id (history (coord s)) @ [disp_task_id d])"
    using ids(1) d dist by (auto simp: all_ids_def distinct_map_filter)
  from distinct_suffix [OF this conjunct1 [OF hist]]
  have ids': "distinct (map disp_task_id ?ds @ map task_id (history c))"
    "set (map task_id (history c)) \<subseteq> insert (disp_task_id d) (set (map task_id (history (coord s))))"
    by simp_all
  then have sub: "set (map disp_task_id ?ds @ map task_id (history c)) \<subseteq> set (all_ids s)"
    using d by (auto simp: all_ids_def)
  from eff have cnt: "task_counter c = task_counter (coord s)" by simp
  have ids'': "set (map disp_task_id ?ds @ map task_id (history c)) \<subseteq> task_name ` {..<task_counter c}"
    by (rule subset_trans [OF sub]) (simp only: cnt ids(2))
  have ddl: "length (filter is_ddl (?ds @ (if panicked then d # unwinding s else unwinding s)))
      = (if permit_free c then 0 else 1)"
  proof -
    have "permit_free c = (\<not> panicked \<and> is_ddl d \<or> permit_free (coord s))"
      using eff by (cases panicked) simp_all
    moreover have "length (filter is_ddl (spawned s)) + length (filter is_ddl (unwinding s))
        = (if permit_free (coord s) then 0 else 1)"
      using inv by (simp add: maint_inv_def)
    ultimately show ?thesis
      using count_ddl_remove [OF dist d]
      by (cases panicked; cases "is_ddl d"; cases "permit_free (coord s)") simp_all
  qed
  have "distinct (map (physical_table \<circ> disp_target) (filter (Not \<circ> is_ddl) ?ds))"
  proof -
    from inv have "distinct (map (physical_table \<circ> disp_target) (filter (Not \<circ> is_ddl) (spawned s)))"
      by (simp add: maint_inv_def)
    from distinct_map_filter_and [OF this, of "\<lambda>d'. disp_task_id d' \<noteq> disp_task_id d"]
    show ?thesis by (simp add: comp_def)
  qed
  then show ?thesis
    unfolding maint_inv_def using inv run' ids' ids'' ddl hist eff
    by (simp add: maint_inv_def all_ids_def)
qed

lemma maint_inv_unwound:
  assumes "maint_inv cfg s" "unwinding s = us @ d # vs"
  shows "maint_inv cfg (s\<lparr>coord := release_permit d (coord s), unwinding := us @ vs\<rparr>)"
  using assms
  by (cases "is_ddl d"; cases "permit_free (coord s)") (simp_all add: maint_inv_def all_ids_def)

lemma maint_inv_check_begin:
  assumes "maint_inv cfg s" and "reconcile_check_begin (coord s) target = Inr c"
  shows "maint_inv cfg (s\<lparr>coord := c, in_flight := physical_table target # in_flight s\<rparr>)"
proof -
  from assms(2) have "c = (coord s)\<lparr>internal_checks := insert (physical_table target) (internal_checks (coord s))\<rparr>"
    and "physical_table target \<notin> internal_checks (coord s)"
    by (simp_all add: reconcile_check_begin_def Let_def split: if_splits)
  with assms(1) show ?thesis by (simp add: maint_inv_def all_ids_def)
qed

lemma maint_inv_check_end:
  assumes "maint_inv cfg s"
  shows "maint_inv cfg (s\<lparr>coord := reconcile_check_end (coord s) target,
          in_flight := removeAll (physical_table target) (in_flight s)\<rparr>)"
  using assms
  by (simp add: maint_inv_def all_ids_def reconcile_check_end_def distinct_removeAll)

lemma maint_inv_step:
  assumes "maint_inv cfg s" "maint_step fl pow_f64 cfg s t"
  shows "maint_inv cfg t"
  using assms(2)
proof cases
  case (start_accepted now target action force actions c t' d)
  with maint_inv_start [OF assms(1)] show ?thesis by blast
next
  case (start_refused now target action force actions c e)
  with start_task_refused assms(1) show ?thesis by fastforce
next
  case (future_ends d now_done now_retry e c panicked)
  with maint_inv_finish [OF assms(1)] show ?thesis by blast
next
  case (future_unwound us d vs)
  with maint_inv_unwound [OF assms(1)] show ?thesis by blast
next
  case (check_begins target c)
  with maint_inv_check_begin [OF assms(1)] show ?thesis by blast
next
  case (check_ends target)
  with maint_inv_check_end [OF assms(1)] show ?thesis by blast
next
  case (round_bookkeeping b n)
  with assms(1) show ?thesis by (simp add: maint_inv_def all_ids_def)
qed

interpretation maint: invariant_system maint_init "maint_step fl pow_f64 cfg" "maint_inv cfg"
proof unfold_locales
  show "maint_init s \<Longrightarrow> maint_inv cfg s" for s
    by (simp add: maint_init_def maint_inv_def new_coordinator_def all_ids_def)
qed (rule maint_inv_step)

subsection \<open>Safety\<close>

lemma matches_filter:
  "list_all2 task_matches run ds \<Longrightarrow>
   list_all2 task_matches (filter (\<lambda>p. task_action (snd p) \<noteq> Check) run) (filter is_ddl ds)
   \<and> list_all2 task_matches (filter (\<lambda>p. task_action (snd p) = Check) run) (filter (Not \<circ> is_ddl) ds)"
  by (auto intro!: list_all2_filter simp: task_matches_def is_ddl_def)

lemma matches_tables:
  "list_all2 task_matches run ds \<Longrightarrow>
   map (\<lambda>p. task_table (snd p)) run = map (physical_table \<circ> disp_target) ds"
  by (induction rule: list_all2_induct) (auto simp: task_matches_def)

lemma absent_iff: "list_all (\<lambda>p. f p = x \<longrightarrow> \<not> Q p) xs \<longleftrightarrow> x \<notin> set (map f (filter Q xs))"
  by (induction xs) auto

text \<open>Where a check may begin: the two kinds of checks do not see each other the same way.\<close>

lemma check_begin_iff:
  "(\<exists>c. reconcile_check_begin s target = Inr c) \<longleftrightarrow>
     physical_table target \<notin> internal_checks s
     \<and> list_all (\<lambda>p. task_table (snd p) = physical_table target \<longrightarrow> task_action (snd p) \<noteq> Check) (running s)"
  by (auto simp: reconcile_check_begin_def Let_def list_all_iff list_ex_iff)

lemma public_check_iff:
  "(\<exists>c t d. start_task cfg s now target Check force actions = (c, Inr (t, d))) \<longleftrightarrow>
     list_all (\<lambda>p. task_table (snd p) = physical_table target \<longrightarrow> task_action (snd p) \<noteq> Check) (running s)"
proof -
  have "filter (blocks (physical_table target) Check) (map snd (running s)) = [] \<longleftrightarrow>
     list_all (\<lambda>p. task_table (snd p) = physical_table target \<longrightarrow> task_action (snd p) \<noteq> Check) (running s)"
    by (auto simp: blocks_def list_all_iff filter_empty_conv)
  then show ?thesis by (simp add: start_task_def validate_start_def Let_def)
qed

text \<open>
  C25. Which index tasks can overlap, in every reachable state. At most one build or optimize
  task is running in the whole process, none while the permit is free, and at most one public
  check per physical table; every running record still has its future. The tables the
  coordinator holds for internal checks are exactly those of the internal checks that began and
  have not given their slot back, each once. An internal check is refused if and only if one of
  either kind is there for its table; a public check is refused if and only if a public one is,
  so that it can run beside an internal check of the same table.
\<close>

theorem no_overlapping_changes:
  assumes "reachable maint_init (maint_step fl pow_f64 cfg) s"
  shows "length (filter (\<lambda>p. task_action (snd p) \<noteq> Check) (running (coord s)))
        \<le> (if permit_free (coord s) then 0 else 1)
    \<and> distinct (map (\<lambda>p. task_table (snd p))
        (filter (\<lambda>p. task_action (snd p) = Check) (running (coord s))))
    \<and> map fst (running (coord s)) = map disp_task_id (spawned s)
    \<and> list_all (\<lambda>p. task_state (snd p) = Running) (running (coord s))
    \<and> internal_checks (coord s) = set (in_flight s) \<and> distinct (in_flight s)
    \<and> ((\<exists>c. reconcile_check_begin (coord s) target = Inr c) \<longleftrightarrow>
         physical_table target \<notin> set (in_flight s)
         \<and> physical_table target \<notin> set (map (\<lambda>p. task_table (snd p))
             (filter (\<lambda>p. task_action (snd p) = Check) (running (coord s)))))
    \<and> ((\<exists>c t d. start_task cfg (coord s) now target Check force actions = (c, Inr (t, d))) \<longleftrightarrow>
         physical_table target \<notin> set (map (\<lambda>p. task_table (snd p))
             (filter (\<lambda>p. task_action (snd p) = Check) (running (coord s)))))"
proof -
  have inv: "maint_inv cfg s" by (rule maint.reachable_inv [OF assms])
  then have run: "list_all2 task_matches (running (coord s)) (spawned s)"
    and held: "internal_checks (coord s) = set (in_flight s)"
    by (simp_all add: maint_inv_def)
  note parts = matches_filter [OF run]
  have "list_all (\<lambda>p. task_state (snd p) = Running) (running (coord s))"
    using run by (induction rule: list_all2_induct) (auto simp: task_matches_def)
  moreover have "list_all (\<lambda>p. task_table (snd p) = physical_table target \<longrightarrow> task_action (snd p) \<noteq> Check)
      (running (coord s)) \<longleftrightarrow> physical_table target \<notin> set (map (\<lambda>p. task_table (snd p))
        (filter (\<lambda>p. task_action (snd p) = Check) (running (coord s))))"
    by (rule absent_iff [where f = "\<lambda>p. task_table (snd p)" and Q = "\<lambda>p. task_action (snd p) = Check"])
  ultimately show ?thesis
    using inv list_all2_lengthD [OF conjunct1 [OF parts]] matches_tables [OF conjunct2 [OF parts]]
      matches_keys [OF run]
    unfolding check_begin_iff public_check_iff held by (simp add: maint_inv_def split: if_splits)
qed

lemma find_by_id:
  "distinct (map f xs) \<Longrightarrow> x \<in> set xs \<Longrightarrow> find (\<lambda>y. f y = f x) xs = Some x"
  by (induction xs) (auto simp: image_iff)

text \<open>
  Every task that is running or still in the history can be looked up by its id, and the
  lookup returns exactly that task; the history never exceeds its configured limit.
\<close>

theorem status_finds_task:
  assumes "reachable maint_init (maint_step fl pow_f64 cfg) s"
    and "t \<in> snd ` set (running (coord s)) \<union> set (history (coord s))"
  shows "status_of (coord s) (Some (task_id t)) target =
      Some \<lparr>status_running = (if task_state t = Running then [t] else []), status_results = [t]\<rparr>
    \<and> length (history (coord s)) \<le> history_limit cfg"
proof -
  have inv: "maint_inv cfg s" by (rule maint.reachable_inv [OF assms(1)])
  then have run: "list_all2 task_matches (running (coord s)) (spawned s)"
    and ids: "distinct (all_ids s)" and limit: "length (history (coord s)) \<le> history_limit cfg"
    by (auto simp: maint_inv_def)
  have keys: "map fst (running (coord s)) = map disp_task_id (spawned s)"
    by (rule matches_keys [OF run])
  have own: "fst p = task_id (snd p)" if "p \<in> set (running (coord s))" for p
    using run that by (induction rule: list_all2_induct) (auto simp: task_matches_def)
  have dist: "distinct (map fst (running (coord s)))" "distinct (map task_id (history (coord s)))"
    "fst ` set (running (coord s)) \<inter> task_id ` set (history (coord s)) = {}"
    using ids keys by (auto simp: all_ids_def simp flip: set_map)
  consider (run) "(task_id t, t) \<in> set (running (coord s))"
    | (hist) "t \<in> set (history (coord s))" "task_id t \<notin> fst ` set (running (coord s))"
  proof -
    from assms(2) consider i where "(i, t) \<in> set (running (coord s))" | "t \<in> set (history (coord s))"
      by auto
    then show thesis
    proof cases
      case 1
      with own [OF 1] run show thesis by simp
    next
      case 2
      with dist(3) hist show thesis by blast
    qed
  qed
  then show ?thesis
  proof cases
    case run
    then have "map_of (running (coord s)) (task_id t) = Some t" using dist(1) by simp
    with limit show ?thesis by (simp add: status_of_def)
  next
    case hist
    then have "map_of (running (coord s)) (task_id t) = None" by (simp add: map_of_eq_None_iff)
    moreover have "find (\<lambda>t'. task_id t' = task_id t) (history (coord s)) = Some t"
      using find_by_id [OF dist(2) hist(1)] .
    ultimately show ?thesis using limit by (simp add: status_of_def)
  qed
qed

text \<open>
  A well-formed build or optimize request is refused only while another build or optimize
  task is running: the permit is never lost (when no panicking future is still unwinding).
\<close>

theorem change_admitted_iff_idle:
  assumes "reachable maint_init (maint_step fl pow_f64 cfg) s" and "unwinding s = []"
    and "action \<noteq> Check" and "validate_start target action actions = None"
  shows "(\<exists>c t d. start_task cfg (coord s) now target action force actions = (c, Inr (t, d)))
    \<longleftrightarrow> filter (\<lambda>p. task_action (snd p) \<noteq> Check) (running (coord s)) = []"
proof -
  have inv: "maint_inv cfg s" by (rule maint.reachable_inv [OF assms(1)])
  then have run: "list_all2 task_matches (running (coord s)) (spawned s)"
    by (simp add: maint_inv_def)
  have len: "length (filter (\<lambda>p. task_action (snd p) \<noteq> Check) (running (coord s)))
      = length (filter is_ddl (spawned s))"
    by (rule list_all2_lengthD [OF conjunct1 [OF matches_filter [OF run]]])
  then have free: "permit_free (coord s) \<longleftrightarrow>
      filter (\<lambda>p. task_action (snd p) \<noteq> Check) (running (coord s)) = []"
    using inv assms(2) by (auto simp: maint_inv_def split: if_splits)
  show ?thesis
  proof (cases "permit_free (coord s)")
    case True
    with free have "filter (blocks (physical_table target) action) (map snd (running (coord s))) = []"
      using assms(3) by (cases action) (auto simp: filter_empty_conv blocks_def)
    with True free assms(3,4) show ?thesis by (simp add: start_task_def Let_def)
  next
    case False
    then show ?thesis
      using free assms(3) start_task_accepted by fastforce
  qed
qed

subsection \<open>A concrete run\<close>

text \<open>A build of the memory FTS index, then a check of the same table beside it.\<close>

definition demo_run :: "coordinator \<Rightarrow> maintenance_target \<Rightarrow> maintenance_action \<Rightarrow> coordinator \<times> dispatch" where
  "demo_run c target action =
     (case start_task (default_policy 0 256) c 1000 target action False [] of
        (c', Inr (t, d)) \<Rightarrow> (c', d) | (c', Inl e) \<Rightarrow> (c', undefined))"

definition demo_build :: "coordinator \<times> dispatch" where
  "demo_build = demo_run new_coordinator MemoryFts Build"

definition demo_check :: "coordinator \<times> dispatch" where
  "demo_check = demo_run (fst demo_build) MemoryTable Check"

definition demo_busy :: maint_system where
  "demo_busy = \<lparr>coord = fst demo_check, spawned = [snd demo_build, snd demo_check],
     unwinding = [], in_flight = []\<rparr>"

lemma demo_names: "task_name (Suc 0) = ''sim-1''" "task_name 2 = ''sim-2''"
proof -
  have "char_of (49 :: nat) = CHR ''1''" "char_of (50 :: nat) = CHR ''2''" by code_simp+
  then show "task_name (Suc 0) = ''sim-1''" "task_name 2 = ''sim-2''"
    by (simp_all add: task_name_def show_nat_less_10 digit_char_def)
qed

lemma demo_build_start:
  "start_task (default_policy 0 256) new_coordinator 1000 MemoryFts Build False [] =
    (fst demo_build, Inr (new_task ''sim-1'' MemoryFts Build 1000, snd demo_build))"
  by (simp add: demo_build_def demo_run_def start_task_def validate_start_def new_coordinator_def
      Let_def demo_names)

lemma demo_build_coordinator:
  "fst demo_build = new_coordinator\<lparr>running := [(''sim-1'', new_task ''sim-1'' MemoryFts Build 1000)],
     permit_free := False, task_counter := 2\<rparr>"
  by (simp add: demo_build_def demo_run_def start_task_def validate_start_def new_coordinator_def
      Let_def demo_names)

lemma demo_check_start:
  "start_task (default_policy 0 256) (fst demo_build) 1000 MemoryTable Check False [] =
    (fst demo_check, Inr (new_task ''sim-2'' MemoryTable Check 1000, snd demo_check))"
  by (simp add: demo_check_def demo_build_coordinator demo_run_def start_task_def validate_start_def
      new_coordinator_def Let_def demo_names blocks_def new_task_def)

lemma demo_busy_running:
  "running (coord demo_busy) =
     [(''sim-1'', new_task ''sim-1'' MemoryFts Build 1000), (''sim-2'', new_task ''sim-2'' MemoryTable Check 1000)]"
  by (simp add: demo_busy_def demo_check_def demo_build_coordinator demo_run_def start_task_def
      validate_start_def new_coordinator_def Let_def demo_names blocks_def new_task_def)

lemma demo_busy_reachable: "reachable maint_init (maint_step fl pow_f64 (default_policy 0 256)) demo_busy"
proof -
  let ?s0 = "\<lparr>coord = new_coordinator, spawned = [], unwinding = [], in_flight = []\<rparr>"
  let ?s1 = "\<lparr>coord = fst demo_build, spawned = [snd demo_build], unwinding = [], in_flight = []\<rparr>"
  let ?step = "maint_step fl pow_f64 (default_policy 0 256)"
  have "reachable maint_init ?step ?s0" by (rule reach_init) (simp add: maint_init_def)
  moreover have "?step ?s0 ?s1"
    using maint_step.start_accepted [of _ ?s0, simplified, OF demo_build_start] by (simp add: new_coordinator_def)
  ultimately have "reachable maint_init ?step ?s1" by (rule reach_step)
  moreover have "task_counter (fst demo_build) = 2" by (simp add: demo_build_coordinator)
  then have "?step ?s1 demo_busy"
    using maint_step.start_accepted [of _ ?s1, simplified, OF demo_check_start] by (simp add: demo_busy_def)
  ultimately show ?thesis by (rule reach_step)
qed

text \<open>A run in which a public check is accepted while the round checks the same table.\<close>

definition demo_round :: coordinator where
  "demo_round = new_coordinator\<lparr>internal_checks := {MemoryTable}\<rparr>"

lemma demo_round_reachable:
  "reachable maint_init (maint_step fl pow_f64 (default_policy 0 256))
     \<lparr>coord = demo_round, spawned = [], unwinding = [], in_flight = [MemoryTable]\<rparr>"
proof -
  let ?s0 = "\<lparr>coord = new_coordinator, spawned = [], unwinding = [], in_flight = []\<rparr>"
  let ?step = "maint_step fl pow_f64 (default_policy 0 256)"
  have "reachable maint_init ?step ?s0" by (rule reach_init) (simp add: maint_init_def)
  moreover have "reconcile_check_begin (coord ?s0) MemoryFts = Inr demo_round"
    by (simp add: reconcile_check_begin_def demo_round_def new_coordinator_def)
  then have "?step ?s0 (?s0\<lparr>coord := demo_round, in_flight := physical_table MemoryFts # in_flight ?s0\<rparr>)"
    by (rule maint_step.check_begins)
  ultimately show ?thesis by (auto intro: reach_step)
qed

theorem no_overlapping_changes_witness:
  "length (filter (\<lambda>p. task_action (snd p) \<noteq> Check) (running (coord demo_busy))) = 1
   \<and> \<not> permit_free (coord demo_busy) \<and> (\<nexists>c. reconcile_check_begin (coord demo_busy) MemoryVector = Inr c)
   \<and> (\<nexists>c. reconcile_check_begin demo_round MemoryVector = Inr c)
   \<and> (\<exists>c t d. start_task (default_policy 0 256) demo_round 5 MemoryVector Check False [] = (c, Inr (t, d)))"
proof -
  have busy: "length (filter (\<lambda>p. task_action (snd p) \<noteq> Check) (running (coord demo_busy))) = 1"
    "MemoryTable \<in> set (map (\<lambda>p. task_table (snd p))
        (filter (\<lambda>p. task_action (snd p) = Check) (running (coord demo_busy))))"
    by (simp_all add: demo_busy_running new_task_def)
  note first = no_overlapping_changes [OF demo_busy_reachable [of "\<lambda>x. x" "\<lambda>x n. Some (x ^ n)"],
    where target = MemoryVector and now = 5 and force = False and actions = "[]"]
  note second = no_overlapping_changes [OF demo_round_reachable [of "\<lambda>x. x" "\<lambda>x n. Some (x ^ n)"],
    where target = MemoryVector and now = 5 and force = False and actions = "[]", simplified]
  have quiet: "running demo_round = []" by (simp add: demo_round_def new_coordinator_def)
  have "\<not> permit_free (coord demo_busy)" using first busy(1) by (auto split: if_splits)
  moreover have "\<nexists>c. reconcile_check_begin (coord demo_busy) MemoryVector = Inr c" using first busy(2) by simp
  ultimately show ?thesis using second quiet busy(1) by simp
qed

theorem status_finds_task_witness:
  "status_of (coord demo_busy) (Some ''sim-2'') None =
     Some \<lparr>status_running = [new_task ''sim-2'' MemoryTable Check 1000],
           status_results = [new_task ''sim-2'' MemoryTable Check 1000]\<rparr>"
proof -
  have "new_task ''sim-2'' MemoryTable Check 1000 \<in>
      snd ` set (running (coord demo_busy)) \<union> set (history (coord demo_busy))"
    by (simp add: demo_busy_running)
  from status_finds_task [OF demo_busy_reachable [of "\<lambda>x. x" "\<lambda>x n. Some (x ^ n)"] this]
  show ?thesis by (simp add: new_task_def)
qed

theorem change_admitted_iff_idle_witness:
  "\<nexists>c t d. start_task (default_policy 0 256) (coord demo_busy) 2000 ThreadTable Optimize False [OptPrune]
     = (c, Inr (t, d))"
proof -
  have "validate_start ThreadTable Optimize [OptPrune] = None" by (simp add: validate_start_def)
  moreover have "unwinding demo_busy = []" by (simp add: demo_busy_def)
  ultimately show ?thesis
    using change_admitted_iff_idle [OF demo_busy_reachable [of "\<lambda>x. x" "\<lambda>x n. Some (x ^ n)"],
        of Optimize ThreadTable "[OptPrune]" 2000 False]
    by (simp add: demo_busy_running new_task_def)
qed

end
