(* ===== verification/Maintenance_Backoff.thy ===== *)
theory Maintenance_Backoff
  imports Index_Maintenance
begin

text \<open>
  Retry decisions of the maintenance coordinator: what the end of a task does to its target's
  candidate state, how long the back-off is, when its computation panics, and when a table's
  optimize actions are due.
\<close>

subsection \<open>Requested actions\<close>

text \<open>
  The normalized action list runs compaction before index maintenance before pruning,
  without repetition, holds exactly the requested actions plus the index maintenance that a
  compaction requires, and normalizing again changes nothing.
\<close>

theorem normalize_optimize_actions_correct:
  "set (normalize_optimize_actions as) = set as \<union> (if OptCompact \<in> set as then {OptIndex} else {})
   \<and> subseq (normalize_optimize_actions as) [OptCompact, OptIndex, OptPrune]
   \<and> normalize_optimize_actions (normalize_optimize_actions as) = normalize_optimize_actions as"
proof -
  have "set (normalize_optimize_actions as) = set as \<union> (if OptCompact \<in> set as then {OptIndex} else {})"
    by (rule set_eqI, case_tac x) (auto simp: normalize_optimize_actions_def Let_def)
  moreover have "subseq (normalize_optimize_actions as) [OptCompact, OptIndex, OptPrune]"
    by (simp add: normalize_optimize_actions_def Let_def)
  moreover have "normalize_optimize_actions (normalize_optimize_actions as) = normalize_optimize_actions as"
    by (simp add: normalize_optimize_actions_def Let_def)
  ultimately show ?thesis by blast
qed

subsection \<open>Due actions\<close>

text \<open>
  An interval action is due when the interval is configured and has passed since the last
  success (or since the start). When the deadline would pass the 64-bit range the wrapped sum
  is negative, so an action with such an interval, meant to be never due, is always due.
\<close>

theorem due_iff:
  assumes "in_i64 started" and "case previous of None \<Rightarrow> True | Some p \<Rightarrow> in_i64 p" and "0 \<le> now"
  shows "due started now interval previous \<longleftrightarrow>
    interval \<noteq> 0 \<and>
    (let deadline = (case previous of Some p \<Rightarrow> p | None \<Rightarrow> started) + min (int (as_millis interval)) i64_max
     in deadline \<le> now \<or> i64_max < deadline)"
proof -
  define base where "base = (case previous of Some p \<Rightarrow> p | None \<Rightarrow> started)"
  define ms where "ms = min (int (as_millis interval)) i64_max"
  have "in_i64 base" using assms(1,2) by (auto simp: base_def split: option.splits)
  moreover have "0 \<le> ms" "ms \<le> i64_max" by (auto simp: ms_def i64_max_def)
  moreover have "wrap_i64 x = x - 18446744073709551616"
    if "i64_max < x" "x \<le> 2 * i64_max" for x
  proof -
    have "(x + 9223372036854775808) mod 18446744073709551616
        = (x + 9223372036854775808 - 18446744073709551616) mod 18446744073709551616"
      by (simp only: minus_mod_self2)
    also have "\<dots> = x + 9223372036854775808 - 18446744073709551616"
      using that by (intro mod_pos_pos_trivial) (auto simp: i64_max_def)
    finally show ?thesis by (simp add: wrap_i64_def)
  qed
  ultimately have "wrap_i64 (base + ms) \<le> now \<longleftrightarrow> base + ms \<le> now \<or> i64_max < base + ms"
    using assms(3) by (cases "i64_max < base + ms") (auto simp: in_i64_def i64_max_def i64_min_def)
  then show ?thesis by (simp add: due_def base_def ms_def Let_def)
qed

theorem due_iff_witness:
  "due 1700000000000 1700000000001 (18446744073709551615 * 1000000000) None
   \<and> \<not> due 1700000000000 1700000000001 1000000000 None"
proof -
  have "in_i64 1700000000000" by (simp add: in_i64_def i64_max_def i64_min_def)
  then show ?thesis
    using due_iff [of 1700000000000 None 1700000000001 "18446744073709551615 * 1000000000"]
      due_iff [of 1700000000000 None 1700000000001 1000000000]
    by (simp add: as_millis_def i64_max_def Let_def)
qed

subsection \<open>The length of the back-off\<close>

lemma round_half_even_of_int [simp]: "round_half_even (of_int n) = n"
  by (simp add: round_half_even_def Let_def)

lemma round_half_even_of_nat: "round_half_even (of_nat n) = int n"
  using round_half_even_of_int [of "int n"] by simp

lemma as_secs_f64_exact: "as_secs_f64 (\<lambda>x. x) d * 1000000000 = of_nat d"
proof -
  have "(of_nat (d div 1000000000) :: rat) * 1000000000 + of_nat (d mod 1000000000)
      = of_nat (d div 1000000000 * 1000000000 + d mod 1000000000)"
    by (simp only: of_nat_add of_nat_mult of_nat_numeral)
  then show ?thesis by (simp add: as_secs_f64_def ring_distribs)
qed

lemma backoff_delay_exact:
  "backoff_delay (\<lambda>x. x) (\<lambda>x n. Some (x ^ n)) (cfg\<lparr>backoff_multiplier := of_nat k\<rparr>) n =
     (if backoff_initial cfg * k ^ n < 18446744073709551616 * 1000000000
      then Some (min (backoff_initial cfg * k ^ n) (backoff_max cfg)) else None)"
proof -
  define p where "p = backoff_initial cfg * k ^ n"
  have "(of_nat k :: rat) ^ n * as_secs_f64 (\<lambda>x. x) (backoff_initial cfg) * 1000000000 = of_nat p"
    using as_secs_f64_exact [of "backoff_initial cfg"] by (simp add: p_def mult.assoc mult.commute)
  then have "mul_f64 (\<lambda>x. x) (backoff_initial cfg) (of_nat k ^ n) =
      (if p < 18446744073709551616 * 1000000000 then Some p else None)"
    by (simp add: mul_f64_def Let_def round_half_even_of_nat)
  then show ?thesis by (simp add: backoff_delay_def p_def)
qed

text \<open>
  With exact arithmetic and a whole multiplier \<open>k\<close>, the back-off after \<open>n\<close> earlier
  consecutive failures is the initial one times \<open>k ^ n\<close>, capped at the maximum; but when the
  uncapped product exceeds the range of \<open>Duration\<close> there is no back-off at all, because the
  multiplication panics before the cap is applied.
\<close>

theorem backoff_delay_exponential:
  "backoff_delay (\<lambda>x. x) (\<lambda>x n. Some (x ^ n)) (cfg\<lparr>backoff_multiplier := of_nat k\<rparr>) n =
     (if backoff_initial cfg * k ^ n < 18446744073709551616 * 1000000000
      then Some (min (backoff_initial cfg * k ^ n) (backoff_max cfg)) else None)"
  by (rule backoff_delay_exact)

subsection \<open>The end of a task\<close>

lemma release_permit_candidates [simp]: "candidates (release_permit d s) = candidates s"
  by (simp add: release_permit_def)

lemma settled_candidate:
  assumes "finish_task fl pow_f64 cfg s d now_done now_retry e = (c, False)"
    and "map_of (running s) (disp_task_id d) = Some t"
  shows "\<exists>x. settle_candidate fl pow_f64 cfg (history s) now_retry
        (finished_task now_done (completion_of now_done (disp_target d) e) t)
        (case map_of (candidates s) (requested_target t) of Some c \<Rightarrow> c | None \<Rightarrow> default_candidate) = Some x
      \<and> map_of (candidates c) = (map_of (candidates s))(requested_target t \<mapsto> x)"
  using assms
  by (simp add: finish_task_def Let_def finished_task_def AList.update_conv' split: option.splits)
    (auto simp: AList.update_conv')

lemma fold_record_sub_action:
  "retry_after (fold (record_sub_action n) rs c) = retry_after c
   \<and> non_retryable (fold (record_sub_action n) rs c) = non_retryable c"
  by (induction rs arbitrary: c) (auto simp: record_sub_action_def split: optimize_action.splits)

lemma record_success_open:
  "retry_after (record_success t c) = None \<and> \<not> non_retryable (record_success t c)"
  by (auto simp: record_success_def Let_def fold_record_sub_action split: maintenance_action.splits)

text \<open>
  How the end of a task decides about the next attempt on its target: a success reopens
  it; a failure that is not retryable closes it until some later success; a retryable failure
  closes it until the back-off, computed from the consecutive failures in the history, has
  run out (unless it is already closed for good); any other outcome changes nothing. No other
  target is affected.
\<close>

theorem finish_decides_retry:
  assumes fin: "finish_task fl pow_f64 cfg s d now_done now_retry e = (c, False)"
    and t: "map_of (running s) (disp_task_id d) = Some t"
    and outcome: "outcome = completion_of now_done (disp_target d) e"
  shows "candidate_skip_reason c now target =
     (if target \<noteq> requested_target t then candidate_skip_reason s now target
      else case done_status outcome of
        Succeeded \<Rightarrow> None
      | Failed \<Rightarrow>
          if \<not> is_retryable_error (done_error outcome)
             \<or> candidate_skip_reason s now target = Some NonRetryable then Some NonRetryable
          else if now < wrap_i64 (now_retry + wrap_i64 (int (as_millis
                  (the (backoff_delay fl pow_f64 cfg (consecutive_failures target (history s)))))))
          then Some Backoff else None
      | _ \<Rightarrow> candidate_skip_reason s now target)"
proof (cases "target = requested_target t")
  case False
  with settled_candidate [OF fin t] show ?thesis by (auto simp: candidate_skip_reason_def)
next
  case True
  define old where "old = (case map_of (candidates s) (requested_target t) of Some c \<Rightarrow> c | None \<Rightarrow> default_candidate)"
  have old_reason: "candidate_skip_reason s now target = (if non_retryable old then Some NonRetryable
      else if (case retry_after old of Some t \<Rightarrow> now < t | None \<Rightarrow> False) then Some Backoff else None)"
    by (simp add: candidate_skip_reason_def old_def True default_candidate_def split: option.split)
  from settled_candidate [OF fin t] obtain x where
    x: "settle_candidate fl pow_f64 cfg (history s) now_retry (finished_task now_done outcome t) old = Some x"
    "map_of (candidates c) target = Some x"
    by (auto simp: old_def outcome True)
  then have new_reason: "candidate_skip_reason c now target = (if non_retryable x then Some NonRetryable
      else if (case retry_after x of Some t \<Rightarrow> now < t | None \<Rightarrow> False) then Some Backoff else None)"
    by (simp add: candidate_skip_reason_def)
  from x(1) show ?thesis
    unfolding new_reason old_reason using True record_success_open
    by (cases "done_status outcome")
      (auto simp: settle_candidate_def finished_task_def split: if_splits)
qed

text \<open>Doubles: \<open>fl\<close> is exact on zero and the powers of two, and so is \<open>powi\<close> until it overflows.\<close>

lemma mul_f64_overflow:
  assumes fl: "\<And>k. fl (2 ^ k) = 2 ^ k" "fl 0 = 0" and n: "64 \<le> n"
  shows "mul_f64 fl 1000000000 (2 ^ n) = None"
proof -
  have "fl 1 = 1" using fl(1) [of 0] by simp
  then have "as_secs_f64 fl 1000000000 = 1" using fl by (simp add: as_secs_f64_def)
  moreover have "(2 :: rat) ^ n * 1000000000 = of_nat (2 ^ n * 1000000000)" by simp
  moreover have "(2 :: int) ^ 64 \<le> 2 ^ n" using n by (intro power_increasing) auto
  ultimately show ?thesis
    by (simp only: mul_f64_def Let_def mult_1_right fl(1) round_half_even_of_nat) auto
qed

text \<open>
  C40. With the default policy (one second, doubling), a retryable failure after 64 earlier
  consecutive ones panics while it is being recorded: the task leaves the running table but
  appears neither in the history nor in the last results, its permit is not yet given back,
  and the target gets no new back-off, so it is retried at once in the next round.
\<close>

theorem backoff_panic_loses_task:
  assumes fl: "\<And>k. fl (2 ^ k) = 2 ^ k" "fl 0 = 0"
    and pow: "\<And>n. pow_f64 2 n \<in> {Some (2 ^ n), None}"
    and t: "map_of (running s) (disp_task_id d) = Some t" and err: "is_retryable_error err"
    and many: "64 \<le> consecutive_failures (requested_target t) (history s)"
  shows "\<exists>c. finish_task fl pow_f64 (default_policy started limit) s d now_done now_retry (Errored err) = (c, True)
      \<and> running c = AList.delete (disp_task_id d) (running s)
      \<and> history c = history s \<and> last_results c = last_results s \<and> permit_free c = permit_free s
      \<and> candidate_skip_reason c now = candidate_skip_reason s now"
proof -
  have "backoff_delay fl pow_f64 (default_policy started limit)
      (consecutive_failures (requested_target t) (history s)) = None"
    using pow [of "consecutive_failures (requested_target t) (history s)"]
      mul_f64_overflow [OF fl many]
    by (auto simp: backoff_delay_def default_policy_def)
  moreover have "candidate_skip_reason (s\<lparr>running := r, candidates := AList.update x
      (case map_of (candidates s) x of Some c \<Rightarrow> c | None \<Rightarrow> default_candidate) (candidates s)\<rparr>) now
      = candidate_skip_reason s now" for r x
    by (auto simp: candidate_skip_reason_def fun_eq_iff AList.update_conv' default_candidate_def
        split: option.split)
  ultimately show ?thesis using t err
    by (simp add: finish_task_def Let_def finished_task_def completion_of_def failed_completion_def
        settle_candidate_def)
qed

subsection \<open>Concrete runs\<close>

text \<open>A running build of the memory FTS index after \<open>n\<close> failures with a commit conflict.\<close>

definition demo_failed :: maintenance_task where
  "demo_failed = finished_task 0 (failed_completion ''Commit conflict'') (new_task ''sim-0'' MemoryFts Build 0)"

definition demo_failing :: "nat \<Rightarrow> coordinator" where
  "demo_failing n = new_coordinator\<lparr>running := [(''sim-99'', new_task ''sim-99'' MemoryFts Build 1000)],
     history := replicate n demo_failed, permit_free := False\<rparr>"

definition demo_dispatch :: dispatch where
  "demo_dispatch = \<lparr>disp_task_id = ''sim-99'', disp_target = MemoryFts, disp_action = Build,
     disp_force = False, disp_actions = [], disp_prune_secs = 0\<rparr>"

lemma demo_lookup:
  "map_of (running (demo_failing n)) (disp_task_id demo_dispatch) = Some (new_task ''sim-99'' MemoryFts Build 1000)"
  by (simp add: demo_failing_def demo_dispatch_def)

lemma demo_conflict: "is_retryable_error ''Commit conflict''"
  by code_simp

lemma demo_consecutive: "consecutive_failures MemoryFts (history (demo_failing n)) = n"
proof -
  have "requested_target demo_failed = MemoryFts \<and> is_retryable_failure demo_failed"
    by code_simp
  then show ?thesis
    by (simp add: consecutive_failures_def demo_failing_def takeWhile_replicate)
qed

theorem finish_decides_retry_witness:
  "let c = fst (finish_task (\<lambda>x. x) (\<lambda>x n. Some (x ^ n)) (default_policy 0 256) (demo_failing 2)
             demo_dispatch 5000 5000 (Errored ''Commit conflict''))
   in candidate_skip_reason c 8999 MemoryFts = Some Backoff
      \<and> candidate_skip_reason c 9000 MemoryFts = None"
proof -
  let ?f = "finish_task (\<lambda>x. x) (\<lambda>x n. Some (x ^ n)) (default_policy 0 256) (demo_failing 2)
             demo_dispatch 5000 5000 (Errored ''Commit conflict'')"
  have "backoff_delay (\<lambda>x. x) (\<lambda>x n. Some (x ^ n)) (default_policy 0 256) 2 = Some 4000000000"
    using backoff_delay_exact [where cfg = "default_policy 0 256" and k = 2 and n = 2] by (simp add: default_policy_def)
  note delay = this
  have "snd ?f = False"
    using delay demo_conflict demo_lookup [of 2]
    by (simp add: finish_task_def Let_def settle_candidate_def finished_task_def completion_of_def
        failed_completion_def demo_consecutive new_task_def)
  then have "?f = (fst ?f, False)" by (simp only: prod_eq_iff fst_conv snd_conv)
  note reason = finish_decides_retry [OF this demo_lookup refl, where target = MemoryFts]
  have "completion_of 5000 (disp_target demo_dispatch) (Errored ''Commit conflict'')
      = failed_completion ''Commit conflict''"
    by (simp add: completion_of_def)
  moreover have "candidate_skip_reason (demo_failing 2) x MemoryFts = None" for x
    by (simp add: candidate_skip_reason_def demo_failing_def new_coordinator_def)
  moreover have "as_millis 4000000000 = 4000" by (simp add: as_millis_def)
  moreover have "wrap_i64 (5000 + wrap_i64 4000) = 9000" by code_simp
  ultimately show ?thesis
    using reason [of 8999] reason [of 9000] demo_conflict
    by (simp add: demo_consecutive failed_completion_def new_task_def delay)
qed

theorem backoff_panic_loses_task_witness:
  "\<exists>c. finish_task (\<lambda>x. x) (\<lambda>x n. Some (x ^ n)) (default_policy 0 256) (demo_failing 64)
         demo_dispatch 5000 5000 (Errored ''Commit conflict'') = (c, True)
     \<and> running c = [] \<and> history c = replicate 64 demo_failed"
proof -
  have "requested_target (new_task ''sim-99'' MemoryFts Build 1000) = MemoryFts"
    by (simp add: new_task_def)
  then have "\<exists>c. finish_task (\<lambda>x. x) (\<lambda>x n. Some (x ^ n)) (default_policy 0 256) (demo_failing 64)
         demo_dispatch 5000 5000 (Errored ''Commit conflict'') = (c, True)
     \<and> running c = AList.delete (disp_task_id demo_dispatch) (running (demo_failing 64))
     \<and> history c = history (demo_failing 64) \<and> last_results c = last_results (demo_failing 64)
     \<and> permit_free c = permit_free (demo_failing 64)
     \<and> candidate_skip_reason c 0 = candidate_skip_reason (demo_failing 64) 0"
    by (intro backoff_panic_loses_task [OF _ _ _ demo_lookup demo_conflict]) (simp_all add: demo_consecutive)
  then show ?thesis by (auto simp: demo_failing_def demo_dispatch_def)
qed

end
