(* ===== verification/Reconcile_Round.thy ===== *)
theory Reconcile_Round
  imports Index_Maintenance
begin

text \<open>
  One round of \<open>MaintenanceCoordinator::reconcile_once\<close>
  (\<open>infra/src/infra/search_index_maintenance.rs\<close>). Between two critical sections of the round
  other callers and futures may run, and the executor answers the checks and the eligibility
  questions; all of that is a \<open>world\<close>, indexed by the position in the round, over which the
  theorems quantify.
\<close>

record world =
  w_env :: "nat \<Rightarrow> coordinator \<Rightarrow> coordinator"
  w_now :: "nat \<Rightarrow> int"
  w_deadline_over :: "nat \<Rightarrow> bool"
  w_check :: "nat \<Rightarrow> maintenance_target \<Rightarrow> check_answer"
  w_force_build :: "nat \<Rightarrow> maintenance_target \<Rightarrow> bool option"
  w_eligibility :: "nat \<Rightarrow> maintenance_target \<Rightarrow> task_status option option"

definition reconcile_targets :: "maintenance_target list" where
  "reconcile_targets = [MemoryFts, MemoryVector, MemoryTable, ThreadFts, ThreadVector, ThreadTable]"

text \<open>
  How the visit of one target ends: skip and go on, skip and end the round, a started task
  (which ends the round), or an error of \<open>start\<close> that the round passes on.
\<close>

datatype visit = Continue skip_reason | Stop skip_reason | Started maintenance_task | Fault start_error

definition start_reconcile_candidate ::
  "coordinator_config \<Rightarrow> world \<Rightarrow> nat \<Rightarrow> coordinator \<Rightarrow> maintenance_target \<Rightarrow> maintenance_action
    \<Rightarrow> bool \<Rightarrow> optimize_action list \<Rightarrow> coordinator \<times> visit" where
  "start_reconcile_candidate cfg w n s target action force actions =
     (case start_task cfg (w_env w n s) (w_now w n) target action force actions of
        (s', Inr (task, _)) \<Rightarrow> (s', Started task)
      | (s', Inl (AlreadyRunning _)) \<Rightarrow> (s', Stop SkipRunning)
      | (s', Inl e) \<Rightarrow> (s', Fault e))"

text \<open>\<open>reconcile_check\<close>: two critical sections around the executor's check.\<close>

definition reconcile_check ::
  "world \<Rightarrow> nat \<Rightarrow> coordinator \<Rightarrow> maintenance_target \<Rightarrow> coordinator \<times> (skip_reason + task_completion)" where
  "reconcile_check w n s target =
     (let s1 = w_env w n s
      in case reconcile_check_begin s1 target of
           Inl r \<Rightarrow> (s1, Inl r)
         | Inr s2 \<Rightarrow> (reconcile_check_end (w_env w (n + 1) s2) target,
                     reconcile_check_result (w_now w (n + 1)) target (w_check w n target)))"

definition visit_table ::
  "coordinator_config \<Rightarrow> world \<Rightarrow> nat \<Rightarrow> coordinator \<Rightarrow> maintenance_target \<Rightarrow> coordinator \<times> visit" where
  "visit_table cfg w n s target =
     (let s1 = w_env w n s;
          actions = due_optimize_actions cfg s1 (w_now w n) target;
          s2 = w_env w (n + 1) s1;
          start_with = (\<lambda>st as. let as' = normalize_optimize_actions as
                         in if as' \<noteq> []
                            then start_reconcile_candidate cfg w (n + 4) st target Optimize False as'
                            else (st, Continue CandidateNone))
      in case candidate_skip_reason s2 (w_now w (n + 1)) target of
           Some reason \<Rightarrow> (s2, Continue reason)
         | None \<Rightarrow>
             if w_deadline_over w n then
               (if actions = [] then (s2, Stop ObservationUnavailable) else start_with s2 actions)
             else
               (case reconcile_check w (n + 2) s2 target of
                  (s3, Inl reason) \<Rightarrow> (s3, Continue reason)
                | (s3, Inr completion) \<Rightarrow>
                    if table_index_row_threshold_due cfg target completion
                    then start_with s3 (actions @ [OptIndex])
                    else if actions = []
                            \<and> list_ex (\<lambda>ob. obs_status ob = Unavailable) (done_observations completion)
                    then (s3, Continue ObservationUnavailable)
                    else start_with s3 actions))"

definition index_missing :: "task_completion \<Rightarrow> bool" where
  "index_missing completion =
     (case done_observations completion of
        [] \<Rightarrow> False
      | ob # _ \<Rightarrow> obs_status ob = Observed \<and> obs_present ob = Some False)"

definition visit_component ::
  "coordinator_config \<Rightarrow> world \<Rightarrow> nat \<Rightarrow> coordinator \<Rightarrow> maintenance_target \<Rightarrow> coordinator \<times> visit" where
  "visit_component cfg w n s target =
     (let s1 = w_env w n s
      in case candidate_skip_reason s1 (w_now w n) target of
           Some reason \<Rightarrow> (s1, Continue reason)
         | None \<Rightarrow>
             if w_deadline_over w n then (s1, Stop ObservationUnavailable)
             else
               (case reconcile_check w (n + 2) s1 target of
                  (s2, Inl reason) \<Rightarrow> (s2, Continue reason)
                | (s2, Inr completion) \<Rightarrow>
                    (case w_force_build w n target of
                       None \<Rightarrow> (s2, Continue ObservationUnavailable)
                     | Some force_build \<Rightarrow>
                         if index_missing completion \<or> force_build then
                           (case w_eligibility w n target of
                              None \<Rightarrow> (s2, Continue ObservationUnavailable)
                            | Some (Some Deferred) \<Rightarrow> (s2, Continue SkipDeferred)
                            | Some (Some SkippedDisabled) \<Rightarrow> (s2, Continue SkipDisabled)
                            | Some _ \<Rightarrow>
                                start_reconcile_candidate cfg w (n + 4) s2 target Build force_build [])
                         else (s2, Continue CandidateNone))))"

definition visit_target ::
  "coordinator_config \<Rightarrow> world \<Rightarrow> nat \<Rightarrow> coordinator \<Rightarrow> maintenance_target \<Rightarrow> coordinator \<times> visit" where
  "visit_target cfg w n s target =
     (if is_component target then visit_component cfg w n s target else visit_table cfg w n s target)"

type_synonym round_result =
  "start_error + maintenance_task option \<times> (maintenance_target \<times> skip_reason) list"

fun scan_targets ::
  "coordinator_config \<Rightarrow> world \<Rightarrow> nat \<Rightarrow> coordinator \<Rightarrow> maintenance_target list
    \<Rightarrow> (maintenance_target \<times> skip_reason) list \<Rightarrow> coordinator \<times> round_result" where
  "scan_targets cfg w n s [] skipped = (s, Inr (None, skipped))"
| "scan_targets cfg w n s (target # targets) skipped =
     (case visit_target cfg w n s target of
        (s', Continue r) \<Rightarrow> scan_targets cfg w (n + 8) s' targets (skipped @ [(target, r)])
      | (s', Stop r) \<Rightarrow> (s', Inr (None, skipped @ [(target, r)]))
      | (s', Started task) \<Rightarrow> (s', Inr (Some task, skipped))
      | (s', Fault e) \<Rightarrow> (s', Inl e))"

definition position_of :: "maintenance_target \<Rightarrow> nat" where
  "position_of target = length (takeWhile (\<lambda>t. t \<noteq> target) reconcile_targets)"

definition next_cursor :: "nat \<Rightarrow> round_result \<Rightarrow> nat" where
  "next_cursor start result =
     (case result of
        Inr (Some task, _) \<Rightarrow> (position_of (requested_target task) + 1) mod length reconcile_targets
      | _ \<Rightarrow> (start + 1) mod length reconcile_targets)"

text \<open>
  The round's two critical sections of its own: it takes the round slot, and it moves the
  cursor and gives the slot back.
\<close>

definition reconcile_begin :: "coordinator \<Rightarrow> coordinator option" where
  "reconcile_begin s = (if reconcile_running s then None else Some (s\<lparr>reconcile_running := True\<rparr>))"

definition reconcile_finish :: "nat \<Rightarrow> round_result \<Rightarrow> coordinator \<Rightarrow> coordinator" where
  "reconcile_finish start result s =
     s\<lparr>reconcile_cursor := next_cursor start result, reconcile_running := False\<rparr>"

definition reconcile_once ::
  "coordinator_config \<Rightarrow> world \<Rightarrow> coordinator \<Rightarrow> coordinator \<times> round_result" where
  "reconcile_once cfg w s =
     (let s0 = w_env w 0 s
      in case reconcile_begin s0 of
           None \<Rightarrow> (s0, Inr (None, [(MemoryFts, ReconcileRunning)]))
         | Some s1 \<Rightarrow>
             let start = reconcile_cursor s0 mod length reconcile_targets;
                 (s2, result) = scan_targets cfg w 8 s1 (rotate start reconcile_targets) []
             in (reconcile_finish start result (w_env w 1 s2), result))"

subsection \<open>Visits\<close>

text \<open>Everything a visit can end with, and the reasons that end a round.\<close>

definition visit_ok :: "maintenance_target \<Rightarrow> visit \<Rightarrow> bool" where
  "visit_ok target v =
     (case v of
        Continue r \<Rightarrow> True
      | Stop r \<Rightarrow> r = SkipRunning \<or> r = ObservationUnavailable
      | Started task \<Rightarrow> requested_target task = target
          \<and> task_action task = (if is_component target then Build else Optimize)
      | Fault e \<Rightarrow> False)"

lemma visit_ok_simps [simp]:
  "visit_ok target (Continue r)"
  "visit_ok target (Stop r) \<longleftrightarrow> r = SkipRunning \<or> r = ObservationUnavailable"
  "visit_ok target (Started task) \<longleftrightarrow> requested_target task = target
     \<and> task_action task = (if is_component target then Build else Optimize)"
  "\<not> visit_ok target (Fault e)"
  by (simp_all add: visit_ok_def)

lemma start_candidate_ok:
  assumes "validate_start target action actions = None"
    and "action = (if is_component target then Build else Optimize)"
  shows "visit_ok target (snd (start_reconcile_candidate cfg w n s target action force actions))"
  using assms by (auto simp: start_reconcile_candidate_def start_task_def Let_def new_task_def)

lemma start_build_ok:
  "is_component target \<Longrightarrow>
   visit_ok target (snd (start_reconcile_candidate cfg w n s target Build force []))"
  by (rule start_candidate_ok) (auto simp: validate_start_def)

lemma start_optimize_ok:
  "\<not> is_component target \<Longrightarrow> as \<noteq> [] \<Longrightarrow>
   visit_ok target (snd (start_reconcile_candidate cfg w n s target Optimize force as))"
  by (rule start_candidate_ok) (auto simp: validate_start_def)

lemma visit_component_ok:
  "is_component target \<Longrightarrow> visit_ok target (snd (visit_component cfg w n s target))"
  unfolding visit_component_def Let_def
  by (simp add: start_build_ok del: is_component.simps
      split: option.split prod.split sum.split task_status.split)

lemma visit_table_ok:
  "\<not> is_component target \<Longrightarrow> visit_ok target (snd (visit_table cfg w n s target))"
  unfolding visit_table_def Let_def
  by (simp add: start_optimize_ok del: is_component.simps split: option.split prod.split sum.split)

lemma visit_target_ok: "visit_ok target (snd (visit_target cfg w n s target))"
  by (simp add: visit_target_def visit_component_ok visit_table_ok del: is_component.simps)

subsection \<open>Rounds\<close>

definition started_target :: "maintenance_task option \<Rightarrow> maintenance_target list" where
  "started_target st = (case st of Some task \<Rightarrow> [requested_target task] | None \<Rightarrow> [])"

text \<open>The targets a round examined, in order: the skipped ones and the started one.\<close>

definition visited :: "round_result \<Rightarrow> maintenance_target list" where
  "visited r = (case r of Inr (st, skipped) \<Rightarrow> map fst skipped @ started_target st | Inl _ \<Rightarrow> [])"

definition started_well :: "maintenance_task option \<Rightarrow> bool" where
  "started_well st = (case st of None \<Rightarrow> True
     | Some task \<Rightarrow> task_action task = (if is_component (requested_target task) then Build else Optimize))"

definition ended_early :: "(maintenance_target \<times> skip_reason) list \<Rightarrow> bool" where
  "ended_early skipped \<longleftrightarrow> skipped \<noteq> [] \<and> snd (last skipped) \<in> {SkipRunning, ObservationUnavailable}"

lemma scan_targets_result:
  "\<exists>st new k. snd (scan_targets cfg w n s targets skipped) = Inr (st, skipped @ new)
     \<and> k \<le> length targets \<and> (targets = [] \<or> 1 \<le> k) \<and> map fst new @ started_target st = take k targets
     \<and> started_well st \<and> (st \<noteq> None \<or> k = length targets \<or> ended_early new)"
proof (induction targets arbitrary: n s skipped)
  case Nil
  then show ?case by (simp add: started_target_def started_well_def)
next
  case (Cons target targets)
  obtain s' v where v: "visit_target cfg w n s target = (s', v)" by fastforce
  then have ok: "visit_ok target v" using visit_target_ok [of target cfg w n s] by simp
  show ?case
  proof (cases v)
    case (Continue r)
    from Cons.IH [of "n + 8" s' "skipped @ [(target, r)]"] obtain st new k where
      IH: "snd (scan_targets cfg w (n + 8) s' targets (skipped @ [(target, r)])) = Inr (st, (skipped @ [(target, r)]) @ new)"
      "k \<le> length targets" "targets = [] \<or> 1 \<le> k" "map fst new @ started_target st = take k targets"
      "started_well st" "st \<noteq> None \<or> k = length targets \<or> ended_early new" by blast
    then have "ended_early new \<Longrightarrow> ended_early ((target, r) # new)" by (auto simp: ended_early_def)
    with v Continue IH show ?thesis
      by (intro exI [of _ st] exI [of _ "(target, r) # new"] exI [of _ "Suc k"]) auto
  next
    case (Stop r)
    with v ok show ?thesis
      by (intro exI [of _ None] exI [of _ "[(target, r)]"] exI [of _ 1])
        (auto simp: started_target_def started_well_def ended_early_def)
  next
    case (Started task)
    with v ok show ?thesis
      by (intro exI [of _ "Some task"] exI [of _ "[]"] exI [of _ 1])
        (auto simp: started_target_def started_well_def simp del: is_component.simps)
  next
    case (Fault e)
    with ok show ?thesis by simp
  qed
qed

lemma length_reconcile_targets [simp]: "length reconcile_targets = 6"
  by (simp add: reconcile_targets_def)

lemma reconcile_round:
  assumes "\<not> reconcile_running (w_env w 0 s)"
  obtains st skipped k where
    "snd (reconcile_once cfg w s) = Inr (st, skipped)" "1 \<le> k" "k \<le> 6"
    "map fst skipped @ started_target st
      = take k (rotate (reconcile_cursor (w_env w 0 s) mod 6) reconcile_targets)"
    "started_well st" "st \<noteq> None \<or> k = 6 \<or> ended_early skipped"
    "reconcile_cursor (fst (reconcile_once cfg w s)) =
       next_cursor (reconcile_cursor (w_env w 0 s) mod 6) (Inr (st, skipped))"
    "\<not> reconcile_running (fst (reconcile_once cfg w s))"
proof -
  let ?start = "reconcile_cursor (w_env w 0 s) mod 6"
  let ?ts = "rotate ?start reconcile_targets"
  obtain s1 r where scan: "scan_targets cfg w 8 ((w_env w 0 s)\<lparr>reconcile_running := True\<rparr>) ?ts [] = (s1, r)"
    by fastforce
  from scan_targets_result [of cfg w 8 "(w_env w 0 s)\<lparr>reconcile_running := True\<rparr>" ?ts "[]"] scan
  obtain st new k where res: "r = Inr (st, new)" "k \<le> 6" "?ts = [] \<or> 1 \<le> k"
    "map fst new @ started_target st = take k ?ts" "started_well st"
    "st \<noteq> None \<or> k = 6 \<or> ended_early new" by auto
  have "?ts \<noteq> []" by (simp add: reconcile_targets_def)
  with res have "1 \<le> k" by simp
  from that [OF _ this res(2,4-6)] assms scan res(1) show thesis
    by (simp add: reconcile_once_def reconcile_begin_def reconcile_finish_def Let_def)
qed

text \<open>
  One round, whatever the executor answers and whatever other tasks do meanwhile: it never
  fails, it examines a non-empty initial segment of the six targets in round-robin order from
  the cursor, each once, it starts at most one task, which is a build for a component and an
  optimization for a table, and when it ends without a task before all six targets, the
  last one was blocked or could not be observed in time.
\<close>

theorem reconcile_round_order:
  assumes "\<not> reconcile_running (w_env w 0 s)"
  shows "\<exists>st skipped k. snd (reconcile_once cfg w s) = Inr (st, skipped)
    \<and> 1 \<le> k \<and> k \<le> 6
    \<and> map fst skipped @ started_target st
        = take k (rotate (reconcile_cursor (w_env w 0 s) mod 6) reconcile_targets)
    \<and> started_well st \<and> (st \<noteq> None \<or> k = 6 \<or> ended_early skipped)"
  by (rule reconcile_round [of w s cfg, OF assms]) blast

subsection \<open>No target starves\<close>

text \<open>What the world does before a round may not touch the round's own two fields.\<close>

definition keeps_round_fields :: "world \<Rightarrow> bool" where
  "keeps_round_fields w \<longleftrightarrow> (\<forall>s. reconcile_cursor (w_env w 0 s) = reconcile_cursor s
     \<and> reconcile_running (w_env w 0 s) = reconcile_running s)"

fun rounds :: "coordinator_config \<Rightarrow> (nat \<Rightarrow> world) \<Rightarrow> coordinator \<Rightarrow> nat \<Rightarrow> coordinator" where
  "rounds cfg ws s 0 = s"
| "rounds cfg ws s (Suc i) = fst (reconcile_once cfg (ws i) (rounds cfg ws s i))"

definition distance :: "nat \<Rightarrow> nat \<Rightarrow> nat" where
  "distance cursor p = (p + 6 - cursor mod 6) mod 6"

lemma position_nth: "p < 6 \<Longrightarrow> position_of (reconcile_targets ! p) = p"
  by (auto simp: position_of_def reconcile_targets_def less_Suc_eq numeral_eq_Suc)

lemma targets_eq_iff: "p < 6 \<Longrightarrow> q < 6 \<Longrightarrow> reconcile_targets ! p = reconcile_targets ! q \<longleftrightarrow> p = q"
  using position_nth by metis

lemma distance_eq: "p < 6 \<Longrightarrow> c < 6 \<Longrightarrow> distance c p = (if c \<le> p then p - c else p + 6 - c)"
  by (auto simp: distance_def mod_if)

lemma sum_mod_6: "c < 6 \<Longrightarrow> j \<le> 6 \<Longrightarrow> (c + j) mod 6 = (if c + j < 6 then c + j else c + j - 6)" for c j :: nat
  by (auto simp: mod_if)

lemma in_segment_iff:
  assumes "p < 6" "k \<le> 6" "c < 6"
  shows "reconcile_targets ! p \<in> set (take k (rotate c reconcile_targets)) \<longleftrightarrow> distance c p < k"
proof
  assume "reconcile_targets ! p \<in> set (take k (rotate c reconcile_targets))"
  then obtain j where "j < k" "j < 6" "take k (rotate c reconcile_targets) ! j = reconcile_targets ! p"
    using assms(2) by (auto simp: in_set_conv_nth)
  then have "reconcile_targets ! ((c + j) mod 6) = reconcile_targets ! p"
    by (simp add: nth_rotate)
  with assms(1) have "(c + j) mod 6 = p" by (simp add: targets_eq_iff)
  with \<open>j < k\<close> \<open>j < 6\<close> assms(3) show "distance c p < k"
    by (auto simp: distance_eq sum_mod_6 split: if_splits)
next
  assume d: "distance c p < k"
  have "(c + distance c p) mod 6 = p"
    using assms(1,3) by (auto simp: distance_eq sum_mod_6)
  moreover have "distance c p < 6" by (simp add: distance_def)
  ultimately have "take k (rotate c reconcile_targets) ! distance c p = reconcile_targets ! p"
    using d by (simp add: nth_rotate)
  moreover have "distance c p < length (take k (rotate c reconcile_targets))"
    using d assms(2) by simp
  ultimately show "reconcile_targets ! p \<in> set (take k (rotate c reconcile_targets))"
    by (metis nth_mem)
qed

lemma cursor_advances:
  assumes seg: "map fst skipped @ started_target st = take k (rotate c reconcile_targets)"
    and k: "1 \<le> k" "k \<le> 6" and c: "c < 6"
  shows "next_cursor c (Inr (st, skipped)) \<in> {(c + k) mod 6, (c + 1) mod 6}"
proof (cases st)
  case None
  then show ?thesis by (simp add: next_cursor_def)
next
  case (Some task)
  with seg have "last (take k (rotate c reconcile_targets)) = requested_target task"
    by (metis append_is_Nil_conv last_appendR last_ConsL list.distinct(1) option.simps(5) started_target_def)
  moreover have "take k (rotate c reconcile_targets) \<noteq> []"
    using k by (auto simp: reconcile_targets_def)
  ultimately have "requested_target task = reconcile_targets ! ((c + (k - 1)) mod 6)"
    using k by (simp add: last_conv_nth nth_rotate)
  then have "position_of (requested_target task) = (c + (k - 1)) mod 6"
    by (simp add: position_nth)
  then have "next_cursor c (Inr (st, skipped)) = ((c + (k - 1)) mod 6 + 1) mod 6"
    by (simp add: next_cursor_def Some)
  also have "\<dots> = (c + k) mod 6" using k by (simp add: mod_Suc_eq)
  finally show ?thesis by simp
qed

lemma distance_decreases:
  assumes "p < 6" "c < 6" "1 \<le> k" "k \<le> 6" "k \<le> distance c p"
    and "c' \<in> {(c + k) mod 6, (c + 1) mod 6}"
  shows "distance c' p < distance c p"
proof -
  have "c' = (c + k) mod 6 \<or> c' = (c + 1) mod 6" using assms(6) by simp
  moreover have "c' < 6" using assms(6) by auto
  ultimately show ?thesis using assms(1-5)
    by (auto simp: distance_eq sum_mod_6 mod_Suc split: if_splits)
qed

lemma distance_mod [simp]: "distance (c mod 6) p = distance c p"
  by (simp add: distance_def)

lemma round_visits_or_nears:
  assumes idle: "\<not> reconcile_running s" and keeps: "keeps_round_fields w" and p: "p < 6"
  shows "\<not> reconcile_running (fst (reconcile_once cfg w s))
    \<and> (reconcile_targets ! p \<in> set (visited (snd (reconcile_once cfg w s)))
       \<or> distance (reconcile_cursor (fst (reconcile_once cfg w s))) p < distance (reconcile_cursor s) p)"
proof -
  let ?c = "reconcile_cursor s mod 6"
  from keeps have fields: "reconcile_cursor (w_env w 0 s) = reconcile_cursor s"
    "\<not> reconcile_running (w_env w 0 s)"
    using idle by (auto simp: keeps_round_fields_def)
  from reconcile_round [of w s cfg, OF fields(2)] obtain st skipped k where
    r: "snd (reconcile_once cfg w s) = Inr (st, skipped)" "1 \<le> k" "k \<le> 6"
    "map fst skipped @ started_target st = take k (rotate ?c reconcile_targets)"
    "reconcile_cursor (fst (reconcile_once cfg w s)) = next_cursor ?c (Inr (st, skipped))"
    "\<not> reconcile_running (fst (reconcile_once cfg w s))"
    by (metis fields(1))
  have c: "?c < 6" by simp
  show ?thesis
  proof (cases "distance ?c p < k")
    case True
    then have "reconcile_targets ! p \<in> set (take k (rotate ?c reconcile_targets))"
      using in_segment_iff [OF p r(3) c] by simp
    with r(1,4,6) show ?thesis by (simp add: visited_def del: set_append)
  next
    case False
    then have "distance (next_cursor ?c (Inr (st, skipped))) p < distance ?c p"
      using distance_decreases [OF p c r(2,3)] cursor_advances [OF r(4,2,3) c] by simp
    with r(5,6) show ?thesis by simp
  qed
qed

text \<open>
  C26. No target starves: in any six consecutive rounds, each of the six targets is examined at
  least once, whatever is started, skipped or blocked in them, and whatever other tasks do.
\<close>

theorem every_target_examined_in_six_rounds:
  assumes "\<not> reconcile_running s" and "\<And>i. keeps_round_fields (ws i)"
  shows "\<exists>i < 6. target \<in> set (visited (snd (reconcile_once cfg (ws i) (rounds cfg ws s i))))"
proof (rule ccontr)
  assume unseen: "\<not> ?thesis"
  have "target \<in> set reconcile_targets" by (cases target) (simp_all add: reconcile_targets_def)
  then obtain p where p: "p < 6" "reconcile_targets ! p = target" by (auto simp: in_set_conv_nth)
  have "i \<le> 6 \<Longrightarrow> \<not> reconcile_running (rounds cfg ws s i)
      \<and> distance (reconcile_cursor (rounds cfg ws s i)) p + i \<le> 5" for i
  proof (induction i)
    case 0
    have "distance x p \<le> 5" for x using mod_less_divisor [of 6 "p + 6 - x mod 6"]
      by (simp add: distance_def)
    with assms(1) show ?case by simp
  next
    case (Suc i)
    with round_visits_or_nears [of "rounds cfg ws s i" "ws i" p cfg] assms(2) p unseen
    show ?case by fastforce
  qed
  from this [of 6] show False by simp
qed

subsection \<open>A concrete round\<close>

text \<open>A quiet world in which every index is missing and may be built.\<close>

definition demo_world :: world where
  "demo_world = \<lparr>w_env = (\<lambda>_ s. s), w_now = (\<lambda>n. 1000 + int n), w_deadline_over = (\<lambda>_. False),
     w_check = (\<lambda>_ t. Checked \<lparr>done_status = Succeeded, done_error = [],
        done_observations = [\<lparr>obs_target = t, obs_at = 1000, obs_status = Observed,
          obs_present = Some False, obs_unindexed = None, obs_error = []\<rparr>],
        done_warnings = [], done_sub_actions = []\<rparr>),
     w_force_build = (\<lambda>_ _. Some False), w_eligibility = (\<lambda>_ _. Some None)\<rparr>"

theorem reconcile_round_order_witness:
  "\<exists>st skipped k. snd (reconcile_once (default_policy 0 256) demo_world new_coordinator) = Inr (st, skipped)
     \<and> 1 \<le> k \<and> map fst skipped @ started_target st = take k (rotate 0 reconcile_targets)"
proof -
  have idle: "\<not> reconcile_running (w_env demo_world 0 new_coordinator)"
    and start: "reconcile_cursor (w_env demo_world 0 new_coordinator) mod 6 = 0"
    by (simp_all add: demo_world_def new_coordinator_def)
  from reconcile_round_order [OF idle, of "default_policy 0 256"] show ?thesis
    unfolding start by blast
qed

theorem every_target_examined_in_six_rounds_witness:
  "\<exists>i < 6. ThreadTable \<in> set (visited (snd (reconcile_once (default_policy 0 256) demo_world
     (rounds (default_policy 0 256) (\<lambda>_. demo_world) new_coordinator i))))"
  by (rule every_target_examined_in_six_rounds)
    (simp_all add: new_coordinator_def demo_world_def keeps_round_fields_def)

end
