(* ===== verification/Highlights.thy ===== *)
theory Highlights
  imports Store_Prelude
begin

text \<open>
  Highlight ranges of search hits (\<open>infra/src/infra/memory_vector/highlight.rs\<close>): the
  tokenizers, the token filters, the byte to UTF-16 map, the computation of the ranges and
  their merging. A text is the list of its Unicode scalar values; byte offsets are sums of
  UTF-8 lengths. The Unicode tables of the standard library, the Snowball stemmer and the
  Lindera tokenizer are the arguments in the record \<open>text_library\<close>. Casts to and sums of
  \<open>u32\<close> wrap.
\<close>

subsection \<open>Texts\<close>

type_synonym uchar = nat
type_synonym utext = "uchar list"

definition len_utf8 :: "uchar \<Rightarrow> nat" where
  "len_utf8 c = (if c < 128 then 1 else if c < 2048 then 2 else if c < 65536 then 3 else 4)"

definition len_utf16 :: "uchar \<Rightarrow> nat" where
  "len_utf16 c = (if c < 65536 then 1 else 2)"

definition byte_len :: "utext \<Rightarrow> nat" where
  "byte_len t = sum_list (map len_utf8 t)"

definition utf16_len :: "utext \<Rightarrow> nat" where
  "utf16_len t = sum_list (map len_utf16 t)"

definition u32 :: "nat \<Rightarrow> nat" where
  "u32 n = n mod 4294967296"

fun char_indices_from :: "nat \<Rightarrow> utext \<Rightarrow> (nat \<times> uchar) list" where
  "char_indices_from n [] = []"
| "char_indices_from n (c # cs) = (n, c) # char_indices_from (n + len_utf8 c) cs"

definition char_indices :: "utext \<Rightarrow> (nat \<times> uchar) list" where
  "char_indices t = char_indices_from 0 t"

text \<open>The slice \<open>&t[a..b]\<close> between two character boundaries.\<close>

definition byte_slice :: "utext \<Rightarrow> nat \<Rightarrow> nat \<Rightarrow> utext" where
  "byte_slice t a b = map snd (filter (\<lambda>(i, c). a \<le> i \<and> i < b) (char_indices t))"

subsection \<open>Configuration\<close>

datatype fts_tokenizer_kind =
  Simple | Whitespace | RawField | Ngram | LinderaIpadic | LinderaUnidic | LinderaKoDic

record fts_config =
  fts_tokenizer :: fts_tokenizer_kind
  ngram_min :: nat
  ngram_max :: nat
  ngram_prefix_only :: bool
  fts_lower_case :: bool
  fts_stem :: bool
  fts_remove_stop_words :: bool
  fts_ascii_folding :: bool
  fts_max_token_length :: "nat option"

record token_span =
  tok_start :: nat
  tok_end :: nat
  tok_text :: utext

record text_library =
  lib_is_whitespace :: "uchar \<Rightarrow> bool"
  lib_is_alphanumeric :: "uchar \<Rightarrow> bool"
  lib_to_lowercase :: "utext \<Rightarrow> utext"
  lib_english_stem :: "utext \<Rightarrow> utext"
  lib_lindera :: "fts_tokenizer_kind \<Rightarrow> utext \<Rightarrow> token_span list"

record highlight_range =
  hl_byte_start :: nat
  hl_byte_length :: nat
  hl_utf16_start :: nat
  hl_utf16_length :: nat

subsection \<open>Tokenizers\<close>

definition token_at :: "utext \<Rightarrow> nat \<Rightarrow> nat \<Rightarrow> token_span" where
  "token_at t a b = \<lparr>tok_start = a, tok_end = b, tok_text = byte_slice t a b\<rparr>"

fun split_tokens_loop ::
  "utext \<Rightarrow> (uchar \<Rightarrow> bool) \<Rightarrow> (nat \<times> uchar) list \<Rightarrow> nat option \<Rightarrow> token_span list \<Rightarrow> token_span list" where
  "split_tokens_loop t p [] start out =
     (case start of Some s \<Rightarrow> out @ [token_at t s (byte_len t)] | None \<Rightarrow> out)"
| "split_tokens_loop t p ((idx, ch) # rest) start out =
     (if p ch then split_tokens_loop t p rest (case start of None \<Rightarrow> Some idx | Some s \<Rightarrow> Some s) out
      else (case start of
              Some s \<Rightarrow> split_tokens_loop t p rest None (out @ [token_at t s idx])
            | None \<Rightarrow> split_tokens_loop t p rest None out))"

definition split_tokens_by :: "utext \<Rightarrow> (uchar \<Rightarrow> bool) \<Rightarrow> token_span list" where
  "split_tokens_by t p = split_tokens_loop t p (char_indices t) None []"

definition whitespace_tokens :: "text_library \<Rightarrow> utext \<Rightarrow> token_span list" where
  "whitespace_tokens lib t = split_tokens_by t (\<lambda>c. \<not> lib_is_whitespace lib c)"

definition simple_tokens :: "text_library \<Rightarrow> utext \<Rightarrow> token_span list" where
  "simple_tokens lib t = split_tokens_by t (lib_is_alphanumeric lib)"

definition raw_token :: "utext \<Rightarrow> token_span list" where
  "raw_token t = [token_at t 0 (byte_len t)]"

text \<open>\<open>slice::windows\<close> for a positive size.\<close>

definition windows :: "nat \<Rightarrow> 'a list \<Rightarrow> 'a list list" where
  "windows n xs = map (\<lambda>i. take n (drop i xs)) [0 ..< Suc (length xs) - n]"

definition ngram_tokens :: "utext \<Rightarrow> nat \<Rightarrow> nat \<Rightarrow> bool \<Rightarrow> token_span list" where
  "ngram_tokens t min_n max_n prefix_only =
     (if min_n = 0 \<or> max_n < min_n then []
      else let chars = char_indices t
      in if chars = [] then []
         else concat (map (\<lambda>n.
                map (\<lambda>window. token_at t (fst (hd window)) (fst (last window) + len_utf8 (snd (last window))))
                  (takeWhile (\<lambda>window. \<not> (prefix_only \<and> fst (hd window) \<noteq> 0)) (windows n chars)))
              [min_n ..< Suc max_n]))"

definition tokenize_for_match :: "text_library \<Rightarrow> fts_config \<Rightarrow> utext \<Rightarrow> token_span list" where
  "tokenize_for_match lib fts t =
     (case fts_tokenizer fts of
        Whitespace \<Rightarrow> whitespace_tokens lib t
      | Simple \<Rightarrow> simple_tokens lib t
      | RawField \<Rightarrow> raw_token t
      | Ngram \<Rightarrow> ngram_tokens t (ngram_min fts) (ngram_max fts) (ngram_prefix_only fts)
      | kind \<Rightarrow> lib_lindera lib kind t)"

subsection \<open>Token filters\<close>

definition english_stop_words :: "string list" where
  "english_stop_words =
     [''a'', ''an'', ''and'', ''are'', ''as'', ''at'', ''be'', ''but'', ''by'', ''for'', ''if'', ''in'',
      ''into'', ''is'', ''it'', ''no'', ''not'', ''of'', ''on'', ''or'', ''such'', ''that'', ''the'',
      ''their'', ''then'', ''there'', ''these'', ''they'', ''this'', ''to'', ''was'', ''will'', ''with'']"

definition is_english_stop_word :: "utext \<Rightarrow> bool" where
  "is_english_stop_word t \<longleftrightarrow> t \<in> set (map (map of_char) english_stop_words)"

definition fold_char :: "uchar \<Rightarrow> uchar" where
  "fold_char c =
     (if 0xC0 \<le> c \<and> c \<le> 0xC5 then 65
      else if 0xE0 \<le> c \<and> c \<le> 0xE5 then 97
      else if c = 0xC7 then 67
      else if c = 0xE7 then 99
      else if 0xC8 \<le> c \<and> c \<le> 0xCB then 69
      else if 0xE8 \<le> c \<and> c \<le> 0xEB then 101
      else if 0xCC \<le> c \<and> c \<le> 0xCF then 73
      else if 0xEC \<le> c \<and> c \<le> 0xEF then 105
      else if c = 0xD1 then 78
      else if c = 0xF1 then 110
      else if 0xD2 \<le> c \<and> c \<le> 0xD6 \<or> c = 0xD8 then 79
      else if 0xF2 \<le> c \<and> c \<le> 0xF6 \<or> c = 0xF8 then 111
      else if 0xD9 \<le> c \<and> c \<le> 0xDC then 85
      else if 0xF9 \<le> c \<and> c \<le> 0xFC then 117
      else if c = 0xDD \<or> c = 0x178 then 89
      else if c = 0xFD \<or> c = 0xFF then 121
      else c)"

definition ascii_fold :: "utext \<Rightarrow> utext" where
  "ascii_fold t = map fold_char t"

definition normalize_for_match :: "text_library \<Rightarrow> fts_config \<Rightarrow> utext \<Rightarrow> utext option" where
  "normalize_for_match lib fts t =
     (if (case fts_max_token_length fts of Some limit \<Rightarrow> limit \<le> byte_len t | None \<Rightarrow> False) then None
      else
        let lowered = (if fts_lower_case fts then lib_to_lowercase lib t else t);
            stemmed = (if fts_stem fts then lib_english_stem lib lowered else lowered)
        in if fts_remove_stop_words fts \<and> is_english_stop_word stemmed then None
           else let folded = (if fts_ascii_folding fts then ascii_fold stemmed else stemmed)
                in if folded = [] then None else Some folded)"

subsection \<open>Ranges\<close>

fun utf16_prefix_from :: "nat \<Rightarrow> utext \<Rightarrow> nat list" where
  "utf16_prefix_from acc [] = [acc]"
| "utf16_prefix_from acc (c # cs) =
     replicate (len_utf8 c) acc @ utf16_prefix_from (u32 (acc + len_utf16 c)) cs"

definition build_utf16_prefix_map :: "utext \<Rightarrow> nat list" where
  "build_utf16_prefix_map t = utf16_prefix_from 0 t"

definition range_end :: "highlight_range \<Rightarrow> nat" where
  "range_end r = u32 (hl_byte_start r + hl_byte_length r)"

text \<open>\<open>a - b\<close> in \<open>u32\<close>.\<close>

definition u32_sub :: "nat \<Rightarrow> nat \<Rightarrow> nat" where
  "u32_sub a b = nat ((int a - int b) mod 4294967296)"

definition merge_step :: "highlight_range \<Rightarrow> highlight_range list \<Rightarrow> highlight_range list" where
  "merge_step r merged =
     (if merged \<noteq> [] \<and> hl_byte_start r \<le> range_end (last merged)
      then if range_end (last merged) < range_end r
           then butlast merged @ [(last merged)\<lparr>hl_byte_length := u32_sub (range_end r) (hl_byte_start (last merged))\<rparr>]
           else merged
      else merged @ [r])"

definition recompute_utf16 :: "nat list \<Rightarrow> highlight_range \<Rightarrow> highlight_range" where
  "recompute_utf16 pm r =
     (let bs = hl_byte_start r; be = bs + hl_byte_length r
      in r\<lparr>hl_utf16_start := pm ! bs, hl_utf16_length := u32_sub (pm ! be) (pm ! bs)\<rparr>)"

definition merge_ranges :: "highlight_range list \<Rightarrow> nat list \<Rightarrow> highlight_range list" where
  "merge_ranges ranges pm =
     (if length ranges \<le> 1 then ranges
      else map (recompute_utf16 pm)
             (fold merge_step (sort_key (\<lambda>r. (hl_byte_start r, hl_byte_length r)) ranges) []))"

definition highlight_token ::
  "text_library \<Rightarrow> fts_config \<Rightarrow> utext \<Rightarrow> utext set \<Rightarrow> nat list \<Rightarrow> token_span \<Rightarrow> highlight_range option" where
  "highlight_token lib fts t query_set pm tok =
     (if tok_end tok \<le> tok_start tok \<or> byte_len t < tok_end tok then None
      else case normalize_for_match lib fts (tok_text tok) of
        None \<Rightarrow> None
      | Some normalized \<Rightarrow>
          if normalized \<notin> query_set then None
          else Some \<lparr>hl_byte_start = u32 (tok_start tok),
                 hl_byte_length = u32 (tok_end tok - tok_start tok),
                 hl_utf16_start = pm ! tok_start tok,
                 hl_utf16_length = u32_sub (pm ! tok_end tok) (pm ! tok_start tok)\<rparr>)"

definition query_terms :: "text_library \<Rightarrow> fts_config \<Rightarrow> utext \<Rightarrow> utext set" where
  "query_terms lib fts query =
     set (List.map_filter (\<lambda>tok. normalize_for_match lib fts (tok_text tok)) (tokenize_for_match lib fts query))"

definition compute_highlights ::
  "text_library \<Rightarrow> fts_config \<Rightarrow> utext \<Rightarrow> utext \<Rightarrow> highlight_range list" where
  "compute_highlights lib fts t query =
     (if t = [] \<or> query = [] then []
      else let query_set = query_terms lib fts query
      in if query_set = {} then []
         else let toks = tokenize_for_match lib fts t
         in if toks = [] then []
            else let pm = build_utf16_prefix_map t
                 in merge_ranges (List.map_filter (highlight_token lib fts t query_set pm) toks) pm)"

record highlight_field =
  field_source :: int
  field_ranges :: "highlight_range list"

definition compute_highlight_field ::
  "text_library \<Rightarrow> utext option \<Rightarrow> (utext \<times> fts_config) option \<Rightarrow> int \<Rightarrow> highlight_field list" where
  "compute_highlight_field lib t query_and_cfg source =
     (case query_and_cfg of
        None \<Rightarrow> []
      | Some (query, fts) \<Rightarrow>
          (case t of
             None \<Rightarrow> []
           | Some content \<Rightarrow>
               if content = [] then []
               else let ranges = compute_highlights lib fts content query
                    in if ranges = [] then [] else [\<lparr>field_source = source, field_ranges = ranges\<rparr>]))"

subsection \<open>Offsets\<close>

lemma len_utf8_pos [simp]: "0 < len_utf8 c"
  by (simp add: len_utf8_def)

lemma byte_len_simps [simp]:
  "byte_len [] = 0" "byte_len (c # t) = len_utf8 c + byte_len t"
  "byte_len (s @ t) = byte_len s + byte_len t"
  by (simp_all add: byte_len_def)

lemma utf16_len_simps [simp]:
  "utf16_len [] = 0" "utf16_len (c # t) = len_utf16 c + utf16_len t"
  "utf16_len (s @ t) = utf16_len s + utf16_len t"
  by (simp_all add: utf16_len_def)

lemma byte_len_0 [simp]: "byte_len t = 0 \<longleftrightarrow> t = []"
  by (cases t) auto

lemma utf16_le_bytes: "utf16_len t \<le> byte_len t"
proof (induction t)
  case (Cons c t)
  have "len_utf16 c \<le> len_utf8 c" by (simp add: len_utf16_def len_utf8_def)
  with Cons show ?case by simp
qed simp

lemma u32_id [simp]: "n < 4294967296 \<Longrightarrow> u32 n = n"
  by (simp add: u32_def)

lemma u32_sub_id [simp]: "b \<le> a \<Longrightarrow> a < 4294967296 \<Longrightarrow> u32_sub a b = a - b"
  by (simp add: u32_sub_def)

lemma char_indices_from_append:
  "char_indices_from n (s @ t) = char_indices_from n s @ char_indices_from (n + byte_len s) t"
  by (induction s arbitrary: n) (simp_all add: ac_simps)

lemma char_indices_from_bounds:
  "(i, c) \<in> set (char_indices_from n t) \<Longrightarrow> n \<le> i \<and> i < n + byte_len t"
proof (induction t arbitrary: n)
  case (Cons a t)
  then show ?case by (auto dest!: Cons.IH)
qed simp

lemma char_indices_from_chars: "map snd (char_indices_from n t) = t"
  by (induction t arbitrary: n) simp_all

lemma byte_slice_split: "byte_slice (p @ m @ q) (byte_len p) (byte_len p + byte_len m) = m"
proof -
  let ?f = "filter (\<lambda>(i, c). byte_len p \<le> i \<and> i < byte_len p + byte_len m)"
  have "?f (char_indices_from 0 p) = []"
    using char_indices_from_bounds [of _ _ 0 p] by (fastforce simp: filter_empty_conv)
  moreover have "?f (char_indices_from (byte_len p) m) = char_indices_from (byte_len p) m"
    using char_indices_from_bounds [of _ _ "byte_len p" m] by (fastforce simp: filter_id_conv)
  moreover have "?f (char_indices_from (byte_len p + byte_len m) q) = []"
    using char_indices_from_bounds [of _ _ "byte_len p + byte_len m" q]
    by (fastforce simp: filter_empty_conv)
  ultimately show ?thesis
    by (simp add: byte_slice_def char_indices_def char_indices_from_append char_indices_from_chars)
qed

text \<open>The token that covers \<open>m\<close> in \<open>p @ m @ q\<close>.\<close>

definition span_of :: "utext \<Rightarrow> utext \<Rightarrow> token_span" where
  "span_of p m = \<lparr>tok_start = byte_len p, tok_end = byte_len p + byte_len m, tok_text = m\<rparr>"

definition span_ok :: "utext \<Rightarrow> token_span \<Rightarrow> bool" where
  "span_ok t tok \<longleftrightarrow> (\<exists>p m q. t = p @ m @ q \<and> m \<noteq> [] \<and> tok = span_of p m)"

lemma span_okI: "t = p @ m @ q \<Longrightarrow> m \<noteq> [] \<Longrightarrow> span_ok t (span_of p m)"
  unfolding span_ok_def by blast

lemma token_at_split:
  "t = p @ m @ q \<Longrightarrow> token_at t (byte_len p) (byte_len p + byte_len m) = span_of p m"
  by (simp add: token_at_def span_of_def byte_slice_split)

subsection \<open>The UTF-16 map\<close>

lemma utf16_prefix_from_nth:
  "acc + utf16_len p < 4294967296 \<Longrightarrow> utf16_prefix_from acc (p @ q) ! byte_len p = acc + utf16_len p"
proof (induction p arbitrary: acc)
  case Nil
  then show ?case by (cases q) (simp_all add: nth_append)
next
  case (Cons c p)
  then have "u32 (acc + len_utf16 c) = acc + len_utf16 c" by simp
  with Cons.IH [of "acc + len_utf16 c"] Cons.prems show ?case
    by (simp add: nth_append ac_simps)
qed

lemma utf16_prefix_map_nth:
  assumes "t = p @ q" "byte_len t < 4294967296"
  shows "build_utf16_prefix_map t ! byte_len p = utf16_len p"
  using assms utf16_prefix_from_nth [of 0 p q] utf16_le_bytes [of p]
  by (simp add: build_utf16_prefix_map_def)

lemma length_utf16_prefix_from: "length (utf16_prefix_from acc t) = byte_len t + 1"
  by (induction t arbitrary: acc) simp_all

text \<open>
  The offset map has one entry per byte position including the end, and at every character
  boundary it holds the number of UTF-16 code units before it, for every text below 4 GiB.
\<close>

theorem utf16_prefix_map_correct:
  assumes "byte_len (p @ q) < 4294967296"
  shows "length (build_utf16_prefix_map (p @ q)) = byte_len (p @ q) + 1
    \<and> build_utf16_prefix_map (p @ q) ! byte_len p = utf16_len p"
  using utf16_prefix_map_nth [OF refl assms] length_utf16_prefix_from [of 0 "p @ q"]
  by (simp add: build_utf16_prefix_map_def)

theorem utf16_prefix_map_correct_witness:
  "build_utf16_prefix_map ([0x1F600] @ [97]) ! byte_len [0x1F600] = 2"
proof -
  have "byte_len ([0x1F600] @ [97]) < 4294967296" by (simp add: len_utf8_def)
  from utf16_prefix_map_correct [OF this] show ?thesis by (simp add: len_utf16_def)
qed

subsection \<open>Tokens\<close>

definition separated_tokens :: "token_span list \<Rightarrow> bool" where
  "separated_tokens = sorted_wrt (\<lambda>a b. tok_end a < tok_start b)"

lemma split_tokens_loop_out:
  "split_tokens_loop t p cs start out = out @ split_tokens_loop t p cs start []"
proof (induction cs arbitrary: start out)
  case Nil
  then show ?case by (simp split: option.split)
next
  case (Cons ic cs)
  obtain i c where ic: "ic = (i, c)" by fastforce
  show ?case
  proof (cases start)
    case None
    then show ?thesis using Cons.IH [of None out] Cons.IH [of "Some i" out] by (simp add: ic)
  next
    case (Some a)
    then show ?thesis
      using Cons.IH [of "Some a" out] Cons.IH [of None "out @ [token_at t a i]"]
        Cons.IH [of None "[token_at t a i]"]
      by (simp add: ic)
  qed
qed

definition tokens_of :: "utext \<Rightarrow> (uchar \<Rightarrow> bool) \<Rightarrow> utext \<Rightarrow> nat \<Rightarrow> token_span list \<Rightarrow> bool" where
  "tokens_of t p chars from toks \<longleftrightarrow>
     list_all (\<lambda>tok. span_ok t tok \<and> list_all p (tok_text tok) \<and> from \<le> tok_start tok) toks
     \<and> concat (map tok_text toks) = filter p chars
     \<and> separated_tokens toks"

text \<open>
  The text split into what is settled, the token being collected, and what is still to be read.
\<close>

lemma split_tokens_loop_spec:
  "t = settled @ cur @ rest \<Longrightarrow> list_all p cur \<Longrightarrow>
   tokens_of t p (cur @ rest) (byte_len settled)
     (split_tokens_loop t p (char_indices_from (byte_len settled + byte_len cur) rest)
       (if cur = [] then None else Some (byte_len settled)) [])"
proof (induction rest arbitrary: settled cur)
  case Nil
  show ?case
  proof (cases "cur = []")
    case False
    from Nil have "token_at t (byte_len settled) (byte_len t) = span_of settled cur"
      using token_at_split [of t settled cur "[]"] by simp
    moreover have "span_ok t (span_of settled cur)"
      using Nil False by (intro span_okI [of _ _ _ "[]"]) simp_all
    ultimately show ?thesis using False Nil
      by (simp add: tokens_of_def separated_tokens_def span_of_def list_all_iff)
  qed (simp add: tokens_of_def separated_tokens_def)
next
  case (Cons c rest)
  show ?case
  proof (cases "p c")
    case True
    with Cons.IH [of settled "cur @ [c]"] Cons.prems show ?thesis
      by (cases "cur = []") (simp_all add: ac_simps)
  next
    case False
    let ?settled = "settled @ cur @ [c]"
    let ?new = "split_tokens_loop t p (char_indices_from (byte_len ?settled) rest) None []"
    from Cons.IH [of ?settled "[]"] Cons.prems
    have new: "tokens_of t p rest (byte_len ?settled) ?new" by simp
    show ?thesis
    proof (cases "cur = []")
      case True
      with new False show ?thesis by (auto simp: tokens_of_def list_all_iff ac_simps)
    next
      case cur: False
      have "token_at t (byte_len settled) (byte_len settled + byte_len cur) = span_of settled cur"
        using Cons.prems by (intro token_at_split) simp
      moreover have "span_ok t (span_of settled cur)"
        using Cons.prems cur by (intro span_okI) simp_all
      moreover have "byte_len settled + byte_len cur < tok_start tok"
        if "tok \<in> set ?new" for tok
      proof -
        from new that have "byte_len ?settled \<le> tok_start tok"
          unfolding tokens_of_def list_all_iff by blast
        then show ?thesis using len_utf8_pos [of c] by (simp del: len_utf8_pos)
      qed
      ultimately have "tokens_of t p (cur @ c # rest) (byte_len settled) (span_of settled cur # ?new)"
        using new False Cons.prems
        by (auto simp: tokens_of_def separated_tokens_def span_of_def list_all_iff)
      moreover have "split_tokens_loop t p cs None [x] = x # split_tokens_loop t p cs None []" for x cs
        using split_tokens_loop_out [of t p cs None "[x]"] by simp
      ultimately show ?thesis
        using \<open>token_at t _ _ = _\<close> False cur by (simp add: add.assoc)
    qed
  qed
qed

text \<open>
  The whitespace and simple tokenizers return exactly the maximal runs of token characters:
  every token is a non-empty piece of the text with its byte offsets, holds only token
  characters, is separated from the next by at least one other character, and together the
  tokens hold all token characters of the text in order.
\<close>

theorem split_tokens_maximal_runs:
  "list_all (\<lambda>tok. span_ok t tok \<and> list_all p (tok_text tok)) (split_tokens_by t p)
   \<and> concat (map tok_text (split_tokens_by t p)) = filter p t
   \<and> separated_tokens (split_tokens_by t p)"
  using split_tokens_loop_spec [of t "[]" "[]" t p]
  by (simp add: split_tokens_by_def char_indices_def tokens_of_def list_all_iff)

lemma char_indices_from_nth:
  "i < length t \<Longrightarrow> char_indices_from n t ! i = (n + byte_len (take i t), t ! i)"
proof (induction t arbitrary: n i)
  case (Cons c t)
  then show ?case by (cases i) simp_all
qed simp

lemma length_char_indices_from [simp]: "length (char_indices_from n t) = length t"
  by (induction t arbitrary: n) simp_all

text \<open>A window of positive size and the token made of it.\<close>

definition window_token :: "utext \<Rightarrow> (nat \<times> uchar) list \<Rightarrow> token_span" where
  "window_token t w = token_at t (fst (hd w)) (fst (last w) + len_utf8 (snd (last w)))"

lemma window_token_eq:
  assumes "0 < n" "i + n \<le> length t"
  shows "fst (hd (take n (drop i (char_indices t)))) = byte_len (take i t)"
    and "window_token t (take n (drop i (char_indices t))) = span_of (take i t) (take n (drop i t))"
proof -
  let ?w = "take n (drop i (char_indices t))"
  have len: "length ?w = n" using assms by (simp add: char_indices_def)
  have w: "?w ! j = (byte_len (take (i + j) t), t ! (i + j))" if "j < n" for j
    using that assms by (simp add: char_indices_def char_indices_from_nth)
  have hd: "hd ?w = (byte_len (take i t), t ! i)"
    using w [of 0] len assms(1) by (metis add.right_neutral hd_conv_nth list.size(3) less_irrefl)
  then show "fst (hd ?w) = byte_len (take i t)" by simp
  have "last ?w = (byte_len (take (i + (n - 1)) t), t ! (i + (n - 1)))"
    using w [of "n - 1"] len assms(1)
    by (metis diff_less last_conv_nth less_irrefl less_numeral_extra(1) list.size(3))
  moreover have "take (i + n) t = take (i + (n - 1)) t @ [t ! (i + (n - 1))]"
    using assms take_Suc_conv_app_nth [of "i + (n - 1)" t] by simp
  ultimately have "fst (last ?w) + len_utf8 (snd (last ?w)) = byte_len (take (i + n) t)"
    by simp
  moreover have "take (i + n) t = take i t @ take n (drop i t)"
    by (simp add: take_add)
  moreover have "t = take i t @ take n (drop i t) @ drop n (drop i t)"
    by (simp only: append_take_drop_id)
  ultimately show "window_token t ?w = span_of (take i t) (take n (drop i t))"
    using token_at_split [of t "take i t" "take n (drop i t)" "drop n (drop i t)"] hd
    by (simp add: window_token_def)
qed

lemma byte_len_take_0: "byte_len (take i t) = 0 \<longleftrightarrow> i = 0 \<or> t = []"
  by auto

lemma takeWhile_map_upt_prefix:
  assumes "\<And>i. 0 < i \<Longrightarrow> i < m \<Longrightarrow> \<not> p (f i)" "0 < m \<Longrightarrow> p (f 0)"
  shows "takeWhile p (map f [0 ..< m]) = (if m = 0 then [] else [f 0])"
proof (cases m)
  case (Suc k)
  have "takeWhile p (map f [Suc 0 ..< m]) = []"
  proof (cases "Suc 0 < m")
    case True
    then have "[Suc 0 ..< m] = Suc 0 # [Suc (Suc 0) ..< m]" by (simp add: upt_conv_Cons)
    then show ?thesis using assms(1) [of "Suc 0"] True by simp
  qed simp
  then show ?thesis using assms(2) Suc by (simp add: upt_conv_Cons del: upt_Suc)
qed simp

lemma set_window_tokens:
  assumes "0 < n"
  shows "window_token t ` set (takeWhile (\<lambda>w. \<not> (po \<and> fst (hd w) \<noteq> 0)) (windows n (char_indices t)))
    = {span_of (take i t) (take n (drop i t)) | i. i + n \<le> length t \<and> (\<not> po \<or> i = 0)}"
proof -
  let ?f = "\<lambda>i. take n (drop i (char_indices t))" and ?m = "Suc (length t) - n"
  have win: "windows n (char_indices t) = map ?f [0 ..< ?m]"
    by (simp add: windows_def char_indices_def)
  have start: "fst (hd (?f i)) = byte_len (take i t)" if "i < ?m" for i
    using window_token_eq(1) [OF assms, of i t] that by simp
  have tok: "window_token t (?f i) = span_of (take i t) (take n (drop i t))" if "i < ?m" for i
    using window_token_eq(2) [OF assms, of i t] that by simp
  show ?thesis
  proof (cases po)
    case False
    then have "window_token t ` set (takeWhile (\<lambda>w. \<not> (po \<and> fst (hd w) \<noteq> 0)) (windows n (char_indices t)))
        = (\<lambda>i. window_token t (?f i)) ` {0 ..< ?m}"
      by (simp add: win image_image takeWhile_eq_all_conv [THEN iffD2])
    also have "\<dots> = (\<lambda>i. span_of (take i t) (take n (drop i t))) ` {0 ..< ?m}"
      by (intro image_cong) (simp_all add: tok)
    finally show ?thesis using False by (auto simp: less_diff_conv)
  next
    case True
    have "takeWhile (\<lambda>w. \<not> (po \<and> fst (hd w) \<noteq> 0)) (windows n (char_indices t))
        = (if ?m = 0 then [] else [?f 0])"
      unfolding win
    proof (rule takeWhile_map_upt_prefix)
      fix i assume i: "0 < i" "i < ?m"
      then have "byte_len (take i t) \<noteq> 0" using assms by (auto simp: byte_len_take_0)
      with start [OF i(2)] True show "\<not> \<not> (po \<and> fst (hd (?f i)) \<noteq> 0)" by simp
    qed (use start [of 0] in simp)
    with True tok [of 0] show ?thesis by auto
  qed
qed

lemma set_ngram_tokens:
  "set (ngram_tokens t min_n max_n prefix_only) =
     {span_of p m | p m q. t = p @ m @ q \<and> 0 < min_n \<and> min_n \<le> length m \<and> length m \<le> max_n
        \<and> (\<not> prefix_only \<or> p = [])}"
proof (cases "min_n = 0 \<or> max_n < min_n \<or> t = []")
  case True
  then show ?thesis by (auto simp: ngram_tokens_def char_indices_def)
next
  case False
  have "char_indices t \<noteq> []" using False by (cases t) (simp_all add: char_indices_def)
  then have "set (ngram_tokens t min_n max_n prefix_only) = (\<Union>n \<in> {min_n .. max_n}.
      window_token t ` set (takeWhile (\<lambda>w. \<not> (prefix_only \<and> fst (hd w) \<noteq> 0)) (windows n (char_indices t))))"
    using False by (simp add: ngram_tokens_def Let_def window_token_def image_image
        atLeastLessThanSuc_atLeastAtMost del: upt_Suc)
  also have "\<dots> = (\<Union>n \<in> {min_n .. max_n}.
      {span_of (take i t) (take n (drop i t)) | i. i + n \<le> length t \<and> (\<not> prefix_only \<or> i = 0)})"
    using False by (intro SUP_cong refl set_window_tokens) simp
  also have "\<dots> = {span_of p m | p m q. t = p @ m @ q \<and> 0 < min_n \<and> min_n \<le> length m
      \<and> length m \<le> max_n \<and> (\<not> prefix_only \<or> p = [])}" (is "?A = ?B")
  proof
    show "?A \<subseteq> ?B"
    proof
      fix x assume "x \<in> ?A"
      then obtain n where "n \<in> {min_n .. max_n}" "x \<in> {span_of (take i t) (take n (drop i t)) | i.
        i + n \<le> length t \<and> (\<not> prefix_only \<or> i = 0)}" by (rule UN_E)
      then obtain i where "min_n \<le> n" "n \<le> max_n" "i + n \<le> length t" "\<not> prefix_only \<or> i = 0"
        "x = span_of (take i t) (take n (drop i t))" unfolding atLeastAtMost_iff by blast
      moreover from this have "t = take i t @ take n (drop i t) @ drop n (drop i t)"
        "length (take n (drop i t)) = n" by (simp_all only: append_take_drop_id) simp
      ultimately show "x \<in> ?B" using False by fastforce
    qed
    show "?B \<subseteq> ?A"
    proof
      fix x assume "x \<in> ?B"
      then obtain p m q where "t = p @ m @ q" "min_n \<le> length m" "length m \<le> max_n"
        "\<not> prefix_only \<or> p = []" "x = span_of p m" by auto
      then show "x \<in> ?A"
        by (intro UN_I [of "length m"]) (auto intro!: exI [of _ "length p"])
    qed
  qed
  finally show ?thesis .
qed

text \<open>
  The n-gram tokenizer returns exactly the substrings whose length in characters lies
  between the two bounds (only those at the start of the text in prefix mode), with their byte
  offsets, whatever mixture of one- to four-byte characters the text holds.
\<close>

theorem ngram_tokens_exact:
  "set (ngram_tokens t min_n max_n prefix_only) =
     (if prefix_only
      then {span_of [] m | m q. t = m @ q \<and> 0 < min_n \<and> min_n \<le> length m \<and> length m \<le> max_n}
      else {span_of p m | p m q. t = p @ m @ q \<and> 0 < min_n \<and> min_n \<le> length m \<and> length m \<le> max_n})"
  by (auto simp: set_ngram_tokens)

subsection \<open>Merging\<close>

definition hl_end :: "highlight_range \<Rightarrow> nat" where
  "hl_end r = hl_byte_start r + hl_byte_length r"

definition hl_cover :: "highlight_range \<Rightarrow> nat set" where
  "hl_cover r = {hl_byte_start r ..< hl_end r}"

definition hl_ok :: "highlight_range \<Rightarrow> bool" where
  "hl_ok r \<longleftrightarrow> 0 < hl_byte_length r \<and> hl_end r < 4294967296"

definition separated :: "highlight_range list \<Rightarrow> bool" where
  "separated = sorted_wrt (\<lambda>a b. hl_end a < hl_byte_start b)"

lemma range_end_ok: "hl_ok r \<Longrightarrow> range_end r = hl_end r"
  by (simp add: hl_ok_def range_end_def hl_end_def)

text \<open>What the fold keeps of the ranges merged so far, when the next range starts at \<open>from\<close>.\<close>

definition merged_ok :: "nat \<Rightarrow> highlight_range list \<Rightarrow> highlight_range list \<Rightarrow> bool" where
  "merged_ok from merged seen \<longleftrightarrow>
     separated merged \<and> list_all hl_ok merged
     \<and> (merged = [] \<or> hl_byte_start (last merged) \<le> from)
     \<and> (\<Union>r \<in> set merged. hl_cover r) = (\<Union>r \<in> set seen. hl_cover r)
     \<and> hl_byte_start ` set merged \<subseteq> hl_byte_start ` set seen
     \<and> hl_end ` set merged \<subseteq> hl_end ` set seen"

lemma merge_step_extend:
  assumes ok: "merged_ok from (ms @ [l]) seen" "hl_ok r" "from \<le> hl_byte_start r"
    and touch: "hl_byte_start r \<le> hl_end l" "hl_end l < hl_end r"
  shows "merged_ok (hl_byte_start r)
    (ms @ [l\<lparr>hl_byte_length := hl_end r - hl_byte_start l\<rparr>]) (seen @ [r])"
proof -
  let ?l = "l\<lparr>hl_byte_length := hl_end r - hl_byte_start l\<rparr>"
  have ends: "hl_end ?l = hl_end r" "hl_byte_start ?l = hl_byte_start l"
    using ok touch by (auto simp: hl_end_def merged_ok_def)
  moreover have "hl_cover ?l = hl_cover l \<union> hl_cover r"
    using ok touch ends by (auto simp: hl_cover_def merged_ok_def hl_end_def)
  moreover have "hl_ok ?l" using ok touch ends by (auto simp: hl_ok_def merged_ok_def hl_end_def)
  ultimately show ?thesis using ok
    by (auto simp: merged_ok_def separated_def sorted_wrt_append)
qed

lemma merge_step_ok:
  assumes ok: "merged_ok from merged seen" "hl_ok r" "from \<le> hl_byte_start r"
  shows "merged_ok (hl_byte_start r) (merge_step r merged) (seen @ [r])"
proof (cases merged rule: rev_cases)
  case Nil
  with ok show ?thesis by (simp add: merge_step_def merged_ok_def separated_def)
next
  case (snoc ms l)
  have l: "hl_ok l" using ok snoc by (simp add: merged_ok_def)
  note ends = range_end_ok [OF l] range_end_ok [OF ok(2)]
  have sub: "u32_sub (hl_end r) (hl_byte_start l) = hl_end r - hl_byte_start l"
    if "hl_byte_start r \<le> hl_end l"
    using ok snoc by (intro u32_sub_id) (auto simp: merged_ok_def hl_ok_def hl_end_def)
  consider "hl_byte_start r \<le> hl_end l" "hl_end l < hl_end r" | "hl_byte_start r \<le> hl_end l" "hl_end r \<le> hl_end l"
    | "hl_end l < hl_byte_start r" by linarith
  then show ?thesis
  proof cases
    case 1
    with merge_step_extend [of "from" ms l seen r] ok snoc sub ends show ?thesis
      by (simp add: merge_step_def)
  next
    case 2
    then have "hl_cover r \<subseteq> hl_cover l" using ok snoc by (auto simp: hl_cover_def merged_ok_def)
    with 2 ok snoc ends show ?thesis by (auto simp: merge_step_def merged_ok_def)
  next
    case 3
    moreover have "hl_end a < hl_byte_start r" if "a \<in> set ms" for a
      using ok snoc that 3 by (fastforce simp: merged_ok_def separated_def sorted_wrt_append hl_end_def)
    ultimately show ?thesis using ok snoc ends
      by (auto simp: merge_step_def merged_ok_def separated_def sorted_wrt_append)
  qed
qed

lemma merge_fold_ok:
  "sorted (map hl_byte_start rs) \<Longrightarrow> list_all hl_ok rs \<Longrightarrow> merged_ok from merged seen \<Longrightarrow>
   (\<forall>r \<in> set rs. from \<le> hl_byte_start r) \<Longrightarrow>
   \<exists>from'. merged_ok from' (fold merge_step rs merged) (seen @ rs)"
proof (induction rs arbitrary: "from" merged seen)
  case (Cons r rs)
  have "merged_ok (hl_byte_start r) (merge_step r merged) (seen @ [r])"
    using Cons.prems by (intro merge_step_ok) auto
  with Cons.IH [of "hl_byte_start r" "merge_step r merged" "seen @ [r]"] Cons.prems show ?case by simp
qed auto

lemma sorted_starts:
  "sorted (map hl_byte_start (sort_key (\<lambda>r. (hl_byte_start r, hl_byte_length r)) rs))"
proof -
  have "sorted (map (\<lambda>r. (hl_byte_start r, hl_byte_length r)) (sort_key (\<lambda>r. (hl_byte_start r, hl_byte_length r)) rs))"
    by simp
  then have "sorted_wrt (\<lambda>a b. (hl_byte_start a, hl_byte_length a) \<le> (hl_byte_start b, hl_byte_length b))
      (sort_key (\<lambda>r. (hl_byte_start r, hl_byte_length r)) rs)"
    by (simp only: sorted_map)
  then have "sorted_wrt (\<lambda>a b. hl_byte_start a \<le> hl_byte_start b)
      (sort_key (\<lambda>r. (hl_byte_start r, hl_byte_length r)) rs)"
    by (rule sorted_wrt_mono_rel [rotated]) (auto simp: less_eq_prod_def)
  then show ?thesis by (simp only: sorted_map)
qed

text \<open>The ranges before their UTF-16 fields are recomputed.\<close>

definition merged_spans :: "highlight_range list \<Rightarrow> highlight_range list" where
  "merged_spans rs = fold merge_step (sort_key (\<lambda>r. (hl_byte_start r, hl_byte_length r)) rs) []"

lemma merged_spans_ok:
  assumes "list_all hl_ok rs"
  shows "\<exists>from. merged_ok from (merged_spans rs) rs"
proof -
  have "merged_ok 0 [] []" by (simp add: merged_ok_def separated_def)
  from merge_fold_ok [OF sorted_starts _ this, of rs] assms
  show ?thesis by (auto simp: merged_spans_def list_all_iff merged_ok_def)
qed

lemma merge_ranges_fields:
  "hl_byte_start (recompute_utf16 pm r) = hl_byte_start r"
  "hl_byte_length (recompute_utf16 pm r) = hl_byte_length r"
  "hl_end (recompute_utf16 pm r) = hl_end r"
  "hl_cover (recompute_utf16 pm r) = hl_cover r"
  by (simp_all add: recompute_utf16_def Let_def hl_end_def hl_cover_def)

lemma merge_ranges_spec:
  assumes "list_all hl_ok rs"
  shows "separated (merge_ranges rs pm)
    \<and> (\<Union>r \<in> set (merge_ranges rs pm). hl_cover r) = (\<Union>r \<in> set rs. hl_cover r)
    \<and> list_all hl_ok (merge_ranges rs pm)
    \<and> hl_byte_start ` set (merge_ranges rs pm) \<subseteq> hl_byte_start ` set rs
    \<and> hl_end ` set (merge_ranges rs pm) \<subseteq> hl_end ` set rs"
proof (cases "length rs \<le> 1")
  case True
  then have "separated rs" by (cases rs) (auto simp: separated_def)
  with True assms show ?thesis by (simp add: merge_ranges_def)
next
  case False
  from merged_spans_ok [OF assms] False show ?thesis
    by (auto simp: merge_ranges_def merged_ok_def separated_def sorted_wrt_map merge_ranges_fields
        merged_spans_def [symmetric] list_all_iff hl_ok_def image_image)
qed

text \<open>
  Merging keeps exactly the covered byte positions, and its result is in order with a gap
  of at least one byte between neighbours, however the input ranges overlap or touch.
\<close>

theorem merge_ranges_correct:
  assumes "list_all hl_ok rs"
  shows "separated (merge_ranges rs pm)
    \<and> (\<Union>r \<in> set (merge_ranges rs pm). hl_cover r) = (\<Union>r \<in> set rs. hl_cover r)"
  using merge_ranges_spec [OF assms, of pm] by (elim conjE) (intro conjI)

theorem merge_ranges_correct_witness:
  "(\<Union>r \<in> set (merge_ranges [\<lparr>hl_byte_start = 3, hl_byte_length = 2, hl_utf16_start = 3, hl_utf16_length = 2\<rparr>,
      \<lparr>hl_byte_start = 0, hl_byte_length = 3, hl_utf16_start = 0, hl_utf16_length = 3\<rparr>] [0, 1, 2, 3, 4, 5]). hl_cover r)
   = {0 ..< 5}"
proof -
  let ?rs = "[\<lparr>hl_byte_start = 3, hl_byte_length = 2, hl_utf16_start = 3, hl_utf16_length = 2\<rparr>,
      \<lparr>hl_byte_start = 0, hl_byte_length = 3, hl_utf16_start = 0, hl_utf16_length = 3\<rparr>]"
  have "list_all hl_ok ?rs" by (simp add: hl_ok_def hl_end_def)
  from merge_ranges_correct [OF this, of "[0, 1, 2, 3, 4, 5]"] show ?thesis
    by (auto simp: hl_cover_def hl_end_def)
qed

subsection \<open>The highlights of a hit\<close>

definition range_of :: "utext \<Rightarrow> utext \<Rightarrow> highlight_range" where
  "range_of p m = \<lparr>hl_byte_start = byte_len p, hl_byte_length = byte_len m,
     hl_utf16_start = utf16_len p, hl_utf16_length = utf16_len m\<rparr>"

definition matching_tokens :: "text_library \<Rightarrow> fts_config \<Rightarrow> utext \<Rightarrow> utext \<Rightarrow> token_span set" where
  "matching_tokens lib fts t query =
     {tok \<in> set (tokenize_for_match lib fts t).
        normalize_for_match lib fts (tok_text tok) \<in> Some ` query_terms lib fts query}"

lemma tokenize_spans:
  assumes "t \<noteq> []" "\<And>kind tok. tok \<in> set (lib_lindera lib kind t) \<Longrightarrow> span_ok t tok"
    and "tok \<in> set (tokenize_for_match lib fts t)"
  shows "span_ok t tok"
proof -
  have split: "span_ok t tok" if "tok \<in> set (split_tokens_by t p)" for p
    using split_tokens_loop_spec [of t "[]" "[]" t p] that
    by (simp add: split_tokens_by_def char_indices_def tokens_of_def list_all_iff)
  have ngram: "span_ok t tok" if "tok \<in> set (ngram_tokens t a b c)" for a b c
  proof -
    from that obtain p m q where "t = p @ m @ q" "m \<noteq> []" "tok = span_of p m"
      unfolding set_ngram_tokens by fastforce
    then show ?thesis by (simp add: span_okI)
  qed
  have raw: "span_ok t tok" if "tok \<in> set (raw_token t)"
    using that token_at_split [of t "[]" t "[]"] assms(1) span_okI [of t "[]" t "[]"]
    by (simp add: raw_token_def)
  show ?thesis
    using assms(3) split ngram raw assms(2)
    by (cases "fts_tokenizer fts")
      (auto simp: tokenize_for_match_def whitespace_tokens_def simple_tokens_def)
qed

lemma highlight_token_span:
  assumes "t = p @ m @ q" "m \<noteq> []" "byte_len t < 4294967296"
  shows "highlight_token lib fts t qs (build_utf16_prefix_map t) (span_of p m) =
    (case normalize_for_match lib fts m of None \<Rightarrow> None
     | Some n \<Rightarrow> if n \<in> qs then Some (range_of p m) else None)"
proof -
  have "build_utf16_prefix_map t ! byte_len p = utf16_len p"
    by (rule utf16_prefix_map_nth [of t p "m @ q"]) (use assms in simp_all)
  moreover have "build_utf16_prefix_map t ! (byte_len p + byte_len m) = utf16_len p + utf16_len m"
    using utf16_prefix_map_nth [of t "p @ m" q] assms by simp
  moreover have "utf16_len p + utf16_len m < 4294967296"
    using utf16_le_bytes [of "p @ m"] assms by simp
  moreover have "0 < byte_len m" using assms(2) by (simp add: neq0_conv [symmetric] del: neq0_conv)
  ultimately show ?thesis using assms
    by (auto simp: highlight_token_def span_of_def range_of_def split: option.split)
qed

lemma hl_ok_range_of: "m \<noteq> [] \<Longrightarrow> byte_len (p @ m @ q) < 4294967296 \<Longrightarrow> hl_ok (range_of p m)"
  by (cases m) (auto simp: hl_ok_def hl_end_def range_of_def)

lemma prefix_between:
  assumes "p @ x = p' @ y" "byte_len p < byte_len p'"
  shows "\<exists>m. m \<noteq> [] \<and> p' = p @ m"
  using assms by (auto simp: append_eq_append_conv2)

lemma recomputed_range:
  assumes t: "t = p @ x" "t = p' @ y" "byte_len t < 4294967296"
    and r: "hl_byte_start r = byte_len p" "hl_end r = byte_len p'" "hl_ok r"
  shows "\<exists>m q. t = p @ m @ q \<and> m \<noteq> [] \<and> recompute_utf16 (build_utf16_prefix_map t) r = range_of p m"
proof -
  have "byte_len p < byte_len p'" using r by (auto simp: hl_ok_def hl_end_def)
  with t obtain m where m: "m \<noteq> []" "p' = p @ m" using prefix_between by metis
  have "byte_len p' < 4294967296" using t(2,3) by simp
  then have "utf16_len p + utf16_len m < 4294967296"
    using utf16_le_bytes [of p'] m(2) by simp
  then have "recompute_utf16 (build_utf16_prefix_map t) r = range_of p m"
    using utf16_prefix_map_nth [OF t(1,3)] utf16_prefix_map_nth [OF t(2,3)] r m
    by (simp add: recompute_utf16_def Let_def range_of_def hl_end_def)
  with m t(2) show ?thesis by auto
qed

text \<open>The highlighted tokens are the matching ones, as ranges of the text.\<close>

lemma highlighted_tokens:
  fixes query
  defines "found lib fts t \<equiv>
    List.map_filter (highlight_token lib fts t (query_terms lib fts query) (build_utf16_prefix_map t)) (tokenize_for_match lib fts t)"
  assumes size: "byte_len t < 4294967296" and ne: "t \<noteq> []"
    and lindera: "\<And>kind tok. tok \<in> set (lib_lindera lib kind t) \<Longrightarrow> span_ok t tok"
  shows "r \<in> set (found lib fts t) \<Longrightarrow> \<exists>p m q. t = p @ m @ q \<and> m \<noteq> [] \<and> r = range_of p m
      \<and> span_of p m \<in> matching_tokens lib fts t query"
    and "tok \<in> matching_tokens lib fts t query \<Longrightarrow>
      \<exists>r \<in> set (found lib fts t). hl_cover r = {tok_start tok ..< tok_end tok}"
proof -
  let ?toks = "tokenize_for_match lib fts t"
  have spans: "span_ok t tok" if "tok \<in> set ?toks" for tok
    using tokenize_spans [OF ne lindera that] .
  show "\<exists>p m q. t = p @ m @ q \<and> m \<noteq> [] \<and> r = range_of p m \<and> span_of p m \<in> matching_tokens lib fts t query"
    if "r \<in> set (found lib fts t)"
  proof -
    from that obtain tok where tok: "tok \<in> set ?toks"
      "highlight_token lib fts t (query_terms lib fts query) (build_utf16_prefix_map t) tok = Some r"
      by (auto simp: found_def set_map_filter_iff)
    from spans [OF tok(1)] obtain p m q where pmq: "t = p @ m @ q" "m \<noteq> []" "tok = span_of p m"
      by (auto simp: span_ok_def)
    with tok highlight_token_span [OF pmq(1,2) size]
    show ?thesis by (intro exI [of _ p] exI [of _ m] exI [of _ q])
        (auto simp: matching_tokens_def span_of_def split: option.splits if_splits)
  qed
  show "\<exists>r \<in> set (found lib fts t). hl_cover r = {tok_start tok ..< tok_end tok}"
    if "tok \<in> matching_tokens lib fts t query"
  proof -
    from that have tok: "tok \<in> set ?toks" by (simp add: matching_tokens_def)
    from spans [OF tok] obtain p m q where pmq: "t = p @ m @ q" "m \<noteq> []" "tok = span_of p m"
      by (auto simp: span_ok_def)
    with that highlight_token_span [OF pmq(1,2) size, of lib fts "query_terms lib fts query"]
    have "highlight_token lib fts t (query_terms lib fts query) (build_utf16_prefix_map t) tok = Some (range_of p m)"
      by (auto simp: matching_tokens_def span_of_def)
    with tok have "range_of p m \<in> set (found lib fts t)" by (auto simp: found_def set_map_filter_iff)
    then show ?thesis using pmq(3)
      by (intro bexI [of _ "range_of p m"]) (simp_all add: hl_cover_def hl_end_def range_of_def span_of_def)
  qed
qed

text \<open>Merging ranges of a text gives ranges of the text.\<close>

lemma merged_pieces:
  assumes size: "byte_len t < 4294967296" and ok: "list_all hl_ok rs"
    and piece: "\<And>r. r \<in> set rs \<Longrightarrow> \<exists>p m q. t = p @ m @ q \<and> m \<noteq> [] \<and> r = range_of p m"
    and h: "h \<in> set (merge_ranges rs (build_utf16_prefix_map t))"
  shows "\<exists>p m q. t = p @ m @ q \<and> m \<noteq> [] \<and> h = range_of p m"
proof (cases "length rs \<le> 1")
  case True
  with h have "h \<in> set rs" by (simp add: merge_ranges_def)
  from piece [OF this] show ?thesis by blast
next
  case False
  with h obtain r where r: "r \<in> set (merged_spans rs)" "h = recompute_utf16 (build_utf16_prefix_map t) r"
    by (auto simp: merge_ranges_def merged_spans_def)
  from merged_spans_ok [OF ok] r(1) have
    "hl_byte_start r \<in> hl_byte_start ` set rs" "hl_end r \<in> hl_end ` set rs" "hl_ok r"
    by (auto simp: merged_ok_def list_all_iff)
  then obtain a b where ab: "a \<in> set rs" "b \<in> set rs" "hl_byte_start r = hl_byte_start a"
    "hl_end r = hl_end b" "hl_ok r" by auto
  from piece [OF ab(1)] obtain p x where "t = p @ x" "hl_byte_start a = byte_len p"
    by (auto simp: range_of_def)
  moreover from piece [OF ab(2)] obtain p' m' y where "t = (p' @ m') @ y" "hl_end b = byte_len (p' @ m')"
    by (auto simp: range_of_def hl_end_def)
  ultimately obtain m q where "t = p @ m @ q" "m \<noteq> []" "recompute_utf16 (build_utf16_prefix_map t) r = range_of p m"
    using recomputed_range [OF _ _ size _ _ ab(5)] ab(3,4) by metis
  with r(2) show ?thesis by blast
qed

text \<open>
  C34. The highlights of a non-empty text for a non-empty query: the highlighted byte positions
  are exactly those covered by tokens whose normalized form is one of the query's terms; the
  ranges are in order, do not touch, and each is a non-empty piece of the text between
  character boundaries whose byte and UTF-16 offsets describe the same piece. (The Lindera
  tokenizer must return pieces of the text.)
\<close>

theorem compute_highlights_correct:
  assumes size: "byte_len t < 4294967296" and ne: "t \<noteq> []" "query \<noteq> []"
    and lindera: "\<And>kind tok. tok \<in> set (lib_lindera lib kind t) \<Longrightarrow> span_ok t tok"
  shows "separated (compute_highlights lib fts t query)
    \<and> (\<Union>h \<in> set (compute_highlights lib fts t query). hl_cover h)
        = (\<Union>tok \<in> matching_tokens lib fts t query. {tok_start tok ..< tok_end tok})
    \<and> (\<forall>h \<in> set (compute_highlights lib fts t query).
         \<exists>p m q. t = p @ m @ q \<and> m \<noteq> [] \<and> h = range_of p m)"
proof -
  let ?pm = "build_utf16_prefix_map t" and ?toks = "tokenize_for_match lib fts t"
  define rs where "rs = List.map_filter (highlight_token lib fts t (query_terms lib fts query) ?pm) ?toks"
  have found: "r \<in> set rs \<Longrightarrow> \<exists>p m q. t = p @ m @ q \<and> m \<noteq> [] \<and> r = range_of p m
      \<and> span_of p m \<in> matching_tokens lib fts t query"
    "tok \<in> matching_tokens lib fts t query \<Longrightarrow>
      \<exists>r \<in> set rs. hl_cover r = {tok_start tok ..< tok_end tok}" for r tok
    using highlighted_tokens [OF size ne(1) lindera] by (simp_all add: rs_def)
  have ok: "list_all hl_ok rs"
    using found(1) hl_ok_range_of size by (fastforce simp: list_all_iff)
  have pieces: "\<exists>p m q. t = p @ m @ q \<and> m \<noteq> [] \<and> h = range_of p m" if "h \<in> set (merge_ranges rs ?pm)" for h
    by (rule merged_pieces [OF size ok _ that]) (use found(1) in blast)
  have cover: "(\<Union>r \<in> set rs. hl_cover r)
      = (\<Union>tok \<in> matching_tokens lib fts t query. {tok_start tok ..< tok_end tok})"
  proof
    show "(\<Union>r \<in> set rs. hl_cover r)
      \<subseteq> (\<Union>tok \<in> matching_tokens lib fts t query. {tok_start tok ..< tok_end tok})"
    proof
      fix x assume "x \<in> (\<Union>r \<in> set rs. hl_cover r)"
      then obtain r where r: "r \<in> set rs" "x \<in> hl_cover r" by blast
      from found(1) [OF r(1)] obtain p m where "r = range_of p m"
        "span_of p m \<in> matching_tokens lib fts t query" by blast
      with r(2) show "x \<in> (\<Union>tok \<in> matching_tokens lib fts t query. {tok_start tok ..< tok_end tok})"
        by (intro UN_I [of "span_of p m"]) (simp_all add: hl_cover_def hl_end_def range_of_def span_of_def)
    qed
  qed (use found(2) in blast)
  have "compute_highlights lib fts t query =
      (if query_terms lib fts query = {} \<or> ?toks = [] then [] else merge_ranges rs ?pm)"
    using ne by (simp add: compute_highlights_def Let_def rs_def)
  moreover have "matching_tokens lib fts t query = {}" if "query_terms lib fts query = {} \<or> ?toks = []"
    using that by (auto simp: matching_tokens_def)
  moreover note merge_ranges_spec [OF ok, of ?pm]
  ultimately show ?thesis
    using cover pieces by (cases "query_terms lib fts query = {} \<or> ?toks = []") (auto simp: separated_def)
qed

text \<open>An emoji followed by two words, searched for the first word.\<close>

definition demo_library :: text_library where
  "demo_library = \<lparr>lib_is_whitespace = (\<lambda>c. c = 32), lib_is_alphanumeric = (\<lambda>c. 97 \<le> c \<and> c \<le> 122),
     lib_to_lowercase = (\<lambda>t. t), lib_english_stem = (\<lambda>t. t), lib_lindera = (\<lambda>_ _. [])\<rparr>"

definition demo_fts :: fts_config where
  "demo_fts = \<lparr>fts_tokenizer = Simple, ngram_min = 2, ngram_max = 3, ngram_prefix_only = False,
     fts_lower_case = True, fts_stem = False, fts_remove_stop_words = False, fts_ascii_folding = True,
     fts_max_token_length = Some 40\<rparr>"

lemma replicate_4: "replicate 4 x = [x, x, x, x]"
  by (simp add: numeral_eq_Suc)

theorem compute_highlights_correct_witness:
  "separated (compute_highlights demo_library demo_fts [0x1F600, 100, 101, 32, 102] [100, 101])
   \<and> compute_highlights demo_library demo_fts [0x1F600, 100, 101, 32, 102] [100, 101] = [range_of [0x1F600] [100, 101]]"
proof -
  have "byte_len [0x1F600, 100, 101, 32, 102] < 4294967296" by (simp add: len_utf8_def)
  moreover have "tok \<in> set (lib_lindera demo_library kind t) \<Longrightarrow> span_ok t tok" for kind t tok
    by (simp add: demo_library_def)
  ultimately have "separated (compute_highlights demo_library demo_fts [0x1F600, 100, 101, 32, 102] [100, 101])"
    using compute_highlights_correct [of "[0x1F600, 100, 101, 32, 102]" "[100, 101]" demo_library demo_fts]
    by simp
  moreover have "compute_highlights demo_library demo_fts [0x1F600, 100, 101, 32, 102] [100, 101]
      = [range_of [0x1F600] [100, 101]]"
    by (simp add: compute_highlights_def query_terms_def tokenize_for_match_def simple_tokens_def
        split_tokens_by_def char_indices_def demo_library_def demo_fts_def Let_def token_at_def
        byte_slice_def len_utf8_def normalize_for_match_def ascii_fold_def fold_char_def
        List.map_filter_def highlight_token_def build_utf16_prefix_map_def len_utf16_def
        merge_ranges_def range_of_def replicate_4)
  ultimately show ?thesis by simp
qed

end
