(* ===== verification/Search_Filter.thy ===== *)
theory Search_Filter
  imports Store_Prelude
begin

text \<open>
  The filter builder of vector searches (\<open>infra/src/infra/memory_vector/safe_filter.rs\<close>): the
  DataFusion expressions it builds, the filter of a search request, and their rendering as
  SQL. Constructors, operators and scalars of DataFusion that the code does not name are the
  \<open>Other\<close> cases. DataFusion's \<open>col\<close> parses the name it is given (a plain lower-case name stays as
  it is, an unquoted one is lower-cased): what it makes of a name that is not a constant of the
  code is the parameter \<open>col_name\<close>. The meaning of an expression on a row is SQL's on rows without nulls.
\<close>

subsection \<open>Expressions\<close>

datatype scalar_value = Int64 "int option" | Int32 "int option" | Utf8 "string option" | OtherScalar
datatype operator = OpEq | OpAnd | OpOr | OpGt | OpLt | OpGtEq | OpLtEq | OtherOp

datatype expr =
    Column string
  | Literal scalar_value
  | BinaryExpr expr operator expr
  | InList expr "expr list" bool
  | OtherExpr

datatype filter_error =
    EmptyKinds | EmptyI64List | EmptyStrList | UnsupportedOperator | UnsupportedScalar | UnsupportedExpr

definition filter_memory_id :: "int \<Rightarrow> expr" where
  "filter_memory_id i = BinaryExpr (Column ''memory_id'') OpEq (Literal (Int64 (Some i)))"

definition filter_user_id :: "int \<Rightarrow> expr" where
  "filter_user_id i = BinaryExpr (Column ''user_id'') OpEq (Literal (Int64 (Some i)))"

definition filter_role :: "int \<Rightarrow> expr" where
  "filter_role r = BinaryExpr (Column ''role'') OpEq (Literal (Int32 (Some r)))"

definition filter_content_type :: "int \<Rightarrow> expr" where
  "filter_content_type c = BinaryExpr (Column ''content_type'') OpEq (Literal (Int32 (Some c)))"

definition memory_kinds_any :: "int list \<Rightarrow> filter_error + expr" where
  "memory_kinds_any kinds =
     (if kinds = [] then Inl EmptyKinds
      else Inr (InList (Column ''memory_kind'') (map (\<lambda>k. Literal (Int32 (Some k))) kinds) False))"

definition created_after :: "int \<Rightarrow> expr" where
  "created_after ts = BinaryExpr (Column ''created_at'') OpGt (Literal (Int64 (Some ts)))"

definition created_before :: "int \<Rightarrow> expr" where
  "created_before ts = BinaryExpr (Column ''created_at'') OpLt (Literal (Int64 (Some ts)))"

definition updated_after :: "int \<Rightarrow> expr" where
  "updated_after ts = BinaryExpr (Column ''updated_at'') OpGt (Literal (Int64 (Some ts)))"

definition updated_before :: "int \<Rightarrow> expr" where
  "updated_before ts = BinaryExpr (Column ''updated_at'') OpLt (Literal (Int64 (Some ts)))"

definition in_i64_list :: "(string \<Rightarrow> string) \<Rightarrow> string \<Rightarrow> int list \<Rightarrow> filter_error + expr" where
  "in_i64_list col_name column values =
     (if values = [] then Inl EmptyI64List
      else Inr (InList (Column (col_name column)) (map (\<lambda>v. Literal (Int64 (Some v))) values) False))"

definition in_str_list :: "(string \<Rightarrow> string) \<Rightarrow> string \<Rightarrow> string list \<Rightarrow> filter_error + expr" where
  "in_str_list col_name column values =
     (if values = [] then Inl EmptyStrList
      else Inr (InList (Column (col_name column)) (map (\<lambda>v. Literal (Utf8 (Some v))) values) False))"

definition filter_and :: "expr \<Rightarrow> expr \<Rightarrow> expr" where
  "filter_and a b = BinaryExpr a OpAnd b"

definition filter_or :: "expr \<Rightarrow> expr \<Rightarrow> expr" where
  "filter_or a b = BinaryExpr a OpOr b"

subsection \<open>The filter of a request\<close>

text \<open>The messages of the request; \<open>from_proto_filter\<close> does not read the last two fields.\<close>

record thread_search_filter =
  tf_user_id :: "int option"
  tf_labels :: "string list"
  tf_label_match_mode :: "int option"
  tf_channel :: "string option"
  tf_memory_kinds :: "int list"
  tf_thread_created_after :: "int option"
  tf_thread_created_before :: "int option"
  tf_thread_updated_after :: "int option"
  tf_thread_updated_before :: "int option"
  tf_first_message_after :: "int option"
  tf_first_message_before :: "int option"
  tf_last_message_after :: "int option"
  tf_last_message_before :: "int option"
  tf_thread_group_id :: "int option"
  tf_thread_id :: "int option"

record memory_search_filter =
  sf_user_id :: "int option"
  sf_roles :: "int list"
  sf_content_types :: "int list"
  sf_memory_kinds :: "int list"
  sf_created_after :: "int option"
  sf_created_before :: "int option"
  sf_updated_after :: "int option"
  sf_updated_before :: "int option"
  sf_thread_filter :: "thread_search_filter option"
  sf_external_id_prefix :: "string option"

definition combine_and :: "expr \<Rightarrow> expr option \<Rightarrow> expr option" where
  "combine_and f result = Some (case result of Some existing \<Rightarrow> filter_and existing f | None \<Rightarrow> f)"

definition combine_opt :: "expr option \<Rightarrow> expr option \<Rightarrow> expr option" where
  "combine_opt f result = (case f of Some e \<Rightarrow> combine_and e result | None \<Rightarrow> result)"

text \<open>\<open>Iterator::reduce\<close>.\<close>

definition reduce_or :: "expr list \<Rightarrow> expr option" where
  "reduce_or es = (case es of [] \<Rightarrow> None | e # rest \<Rightarrow> Some (fold (\<lambda>b a. filter_or a b) rest e))"

definition from_proto_filter :: "memory_search_filter \<Rightarrow> expr option" where
  "from_proto_filter f =
     (let r0 = None;
          r1 = combine_opt (map_option filter_user_id (sf_user_id f)) r0;
          r2 = combine_opt (reduce_or (map filter_role (sf_roles f))) r1;
          r3 = combine_opt (reduce_or (map filter_content_type (sf_content_types f))) r2;
          r4 = combine_opt (case memory_kinds_any (sf_memory_kinds f) of Inr e \<Rightarrow> Some e | Inl _ \<Rightarrow> None) r3;
          r5 = combine_opt (map_option created_after (sf_created_after f)) r4;
          r6 = combine_opt (map_option created_before (sf_created_before f)) r5;
          r7 = combine_opt (map_option updated_after (sf_updated_after f)) r6
      in combine_opt (map_option updated_before (sf_updated_before f)) r7)"

subsection \<open>Rendering\<close>

definition operator_text :: "operator \<Rightarrow> string option" where
  "operator_text op =
     (case op of
        OpEq \<Rightarrow> Some ''='' | OpAnd \<Rightarrow> Some ''AND'' | OpOr \<Rightarrow> Some ''OR'' | OpGt \<Rightarrow> Some ''>''
      | OpLt \<Rightarrow> Some ''<'' | OpGtEq \<Rightarrow> Some ''>='' | OpLtEq \<Rightarrow> Some ''<='' | OtherOp \<Rightarrow> None)"

definition quote_char :: char where "quote_char = CHR 0x27"

definition double_quotes :: "string \<Rightarrow> string" where
  "double_quotes s = concat (map (\<lambda>c. if c = quote_char then [quote_char, quote_char] else [c]) s)"

definition scalar_text :: "scalar_value \<Rightarrow> filter_error + string" where
  "scalar_text v =
     (case v of
        Int64 (Some i) \<Rightarrow> Inr (show_int i)
      | Int32 (Some i) \<Rightarrow> Inr (show_int i)
      | Utf8 (Some s) \<Rightarrow> Inr (quote_char # double_quotes s @ [quote_char])
      | _ \<Rightarrow> Inl UnsupportedScalar)"

fun join_with :: "string \<Rightarrow> string list \<Rightarrow> string" where
  "join_with sep [] = []"
| "join_with sep [s] = s"
| "join_with sep (s # t # ss) = s @ sep @ join_with sep (t # ss)"

text \<open>\<open>collect::<Result<Vec<_>>>\<close>: the first error, or all values.\<close>

fun collect_results :: "('e + 'a) list \<Rightarrow> 'e + 'a list" where
  "collect_results [] = Inr []"
| "collect_results (Inl e # rs) = Inl e"
| "collect_results (Inr a # rs) =
     (case collect_results rs of Inl e \<Rightarrow> Inl e | Inr as \<Rightarrow> Inr (a # as))"

fun expr_to_safe_string :: "expr \<Rightarrow> filter_error + string" where
  "expr_to_safe_string (BinaryExpr l op r) =
     (case expr_to_safe_string l of
        Inl e \<Rightarrow> Inl e
      | Inr ls \<Rightarrow>
          (case expr_to_safe_string r of
             Inl e \<Rightarrow> Inl e
           | Inr rs \<Rightarrow>
               (case operator_text op of
                  None \<Rightarrow> Inl UnsupportedOperator
                | Some o_text \<Rightarrow> Inr (''('' @ ls @ '' '' @ o_text @ '' '' @ rs @ '')''))))"
| "expr_to_safe_string (Column name) = Inr name"
| "expr_to_safe_string (Literal v) = scalar_text v"
| "expr_to_safe_string (InList e vals negated) =
     (case expr_to_safe_string e of
        Inl err \<Rightarrow> Inl err
      | Inr c \<Rightarrow>
          (case collect_results (map expr_to_safe_string vals) of
             Inl err \<Rightarrow> Inl err
           | Inr texts \<Rightarrow> Inr (''('' @ c @ '' '' @ (if negated then ''NOT '' else []) @ ''IN (''
                              @ join_with '', '' texts @ ''))'')))"
| "expr_to_safe_string OtherExpr = Inl UnsupportedExpr"

definition to_sql :: "expr \<Rightarrow> filter_error + string" where
  "to_sql e = expr_to_safe_string e"

subsection \<open>Meaning\<close>

type_synonym sql_row = "string \<Rightarrow> scalar_value"

fun value_of :: "sql_row \<Rightarrow> expr \<Rightarrow> scalar_value" where
  "value_of row (Column c) = row c"
| "value_of row (Literal v) = v"
| "value_of row _ = OtherScalar"

definition compare_values :: "(int \<Rightarrow> int \<Rightarrow> bool) \<Rightarrow> scalar_value \<Rightarrow> scalar_value \<Rightarrow> bool" where
  "compare_values p a b =
     (case (a, b) of
        (Int64 (Some x), Int64 (Some y)) \<Rightarrow> p x y
      | (Int32 (Some x), Int32 (Some y)) \<Rightarrow> p x y
      | _ \<Rightarrow> False)"

fun holds :: "sql_row \<Rightarrow> expr \<Rightarrow> bool" where
  "holds row (BinaryExpr a OpAnd b) = (holds row a \<and> holds row b)"
| "holds row (BinaryExpr a OpOr b) = (holds row a \<or> holds row b)"
| "holds row (BinaryExpr a OpEq b) = (value_of row a = value_of row b)"
| "holds row (BinaryExpr a OpGt b) = compare_values (>) (value_of row a) (value_of row b)"
| "holds row (BinaryExpr a OpLt b) = compare_values (<) (value_of row a) (value_of row b)"
| "holds row (BinaryExpr a OpGtEq b) = compare_values (\<ge>) (value_of row a) (value_of row b)"
| "holds row (BinaryExpr a OpLtEq b) = compare_values (\<le>) (value_of row a) (value_of row b)"
| "holds row (InList e es negated) = ((value_of row e \<in> value_of row ` set es) \<noteq> negated)"
| "holds row _ = False"

text \<open>A stored vector record, as far as the filter reads it, and the columns it has.\<close>

record stored_memory =
  m_user_id :: int
  m_role :: int
  m_content_type :: int
  m_kind :: int
  m_created_at :: int
  m_updated_at :: int

definition row_of :: "stored_memory \<Rightarrow> sql_row" where
  "row_of m c =
     (if c = ''user_id'' then Int64 (Some (m_user_id m))
      else if c = ''role'' then Int32 (Some (m_role m))
      else if c = ''content_type'' then Int32 (Some (m_content_type m))
      else if c = ''memory_kind'' then Int32 (Some (m_kind m))
      else if c = ''created_at'' then Int64 (Some (m_created_at m))
      else if c = ''updated_at'' then Int64 (Some (m_updated_at m))
      else OtherScalar)"

text \<open>
  What a request asks of the record itself: every given field constrains, a list is a choice.
  The conditions on the threads of a memory and on its external id are not among them: the
  callers resolve those to lists of ids.
\<close>

definition wanted :: "memory_search_filter \<Rightarrow> stored_memory \<Rightarrow> bool" where
  "wanted f m \<longleftrightarrow>
     (sf_user_id f \<in> {None, Some (m_user_id m)})
     \<and> (sf_roles f = [] \<or> m_role m \<in> set (sf_roles f))
     \<and> (sf_content_types f = [] \<or> m_content_type m \<in> set (sf_content_types f))
     \<and> (sf_memory_kinds f = [] \<or> m_kind m \<in> set (sf_memory_kinds f))
     \<and> (case sf_created_after f of None \<Rightarrow> True | Some t \<Rightarrow> t < m_created_at m)
     \<and> (case sf_created_before f of None \<Rightarrow> True | Some t \<Rightarrow> m_created_at m < t)
     \<and> (case sf_updated_after f of None \<Rightarrow> True | Some t \<Rightarrow> t < m_updated_at m)
     \<and> (case sf_updated_before f of None \<Rightarrow> True | Some t \<Rightarrow> m_updated_at m < t)"

definition holds_opt :: "sql_row \<Rightarrow> expr option \<Rightarrow> bool" where
  "holds_opt row e = (case e of None \<Rightarrow> True | Some e \<Rightarrow> holds row e)"

lemma holds_combine_opt: "holds_opt row (combine_opt f r) \<longleftrightarrow> holds_opt row f \<and> holds_opt row r"
  by (auto simp: holds_opt_def combine_opt_def combine_and_def filter_and_def split: option.splits)

lemma holds_fold_or: "holds row (fold (\<lambda>b a. filter_or a b) es e) \<longleftrightarrow> holds row e \<or> (\<exists>x \<in> set es. holds row x)"
  by (induction es arbitrary: e) (auto simp: filter_or_def)

lemma holds_reduce_or: "holds_opt row (reduce_or es) \<longleftrightarrow> es = [] \<or> (\<exists>e \<in> set es. holds row e)"
  by (auto simp: holds_opt_def reduce_or_def holds_fold_or split: list.split)

lemma holds_parts:
  "holds_opt (row_of m) (map_option filter_user_id u) \<longleftrightarrow> u \<in> {None, Some (m_user_id m)}"
  "holds_opt (row_of m) (reduce_or (map filter_role rs)) \<longleftrightarrow> rs = [] \<or> m_role m \<in> set rs"
  "holds_opt (row_of m) (reduce_or (map filter_content_type cs)) \<longleftrightarrow> cs = [] \<or> m_content_type m \<in> set cs"
  "holds_opt (row_of m) (case memory_kinds_any ks of Inr e \<Rightarrow> Some e | Inl _ \<Rightarrow> None)
     \<longleftrightarrow> ks = [] \<or> m_kind m \<in> set ks"
  by (auto simp: holds_opt_def holds_reduce_or [unfolded holds_opt_def] filter_user_id_def
      filter_role_def filter_content_type_def memory_kinds_any_def row_of_def image_image split: option.splits)

lemma holds_times:
  "holds_opt (row_of m) (map_option created_after t) \<longleftrightarrow> (case t of None \<Rightarrow> True | Some t \<Rightarrow> t < m_created_at m)"
  "holds_opt (row_of m) (map_option created_before t) \<longleftrightarrow> (case t of None \<Rightarrow> True | Some t \<Rightarrow> m_created_at m < t)"
  "holds_opt (row_of m) (map_option updated_after t) \<longleftrightarrow> (case t of None \<Rightarrow> True | Some t \<Rightarrow> t < m_updated_at m)"
  "holds_opt (row_of m) (map_option updated_before t) \<longleftrightarrow> (case t of None \<Rightarrow> True | Some t \<Rightarrow> m_updated_at m < t)"
  by (simp_all add: holds_opt_def created_after_def created_before_def updated_after_def
      updated_before_def row_of_def compare_values_def split: option.split)

lemma from_proto_filter_holds: "holds_opt (row_of m) (from_proto_filter f) \<longleftrightarrow> wanted f m"
  unfolding from_proto_filter_def Let_def holds_combine_opt holds_parts holds_times wanted_def
  by (simp add: holds_opt_def conj_ac)

text \<open>
  C33. The filter built from a request accepts exactly the records that satisfy every condition
  the request puts on the record itself, and there is no filter exactly when there is no such
  condition. The thread filter and the prefix of the external id have no part in it, so that a
  caller that sets one of them has to narrow the search itself.
\<close>

theorem from_proto_filter_correct:
  "(case from_proto_filter f of None \<Rightarrow> True | Some e \<Rightarrow> holds (row_of m) e) = wanted f m
   \<and> (from_proto_filter f = None) = (sf_user_id f = None \<and> sf_roles f = [] \<and> sf_content_types f = []
        \<and> sf_memory_kinds f = [] \<and> sf_created_after f = None \<and> sf_created_before f = None
        \<and> sf_updated_after f = None \<and> sf_updated_before f = None)
   \<and> from_proto_filter (f\<lparr>sf_thread_filter := threads, sf_external_id_prefix := prefixed\<rparr>) = from_proto_filter f"
proof -
  have none: "combine_opt e r = None \<longleftrightarrow> e = None \<and> r = None" for e r
    by (auto simp: combine_opt_def combine_and_def split: option.split)
  have "reduce_or es = None \<longleftrightarrow> es = []" for es by (simp add: reduce_or_def split: list.split)
  then show ?thesis
    using from_proto_filter_holds [of m f]
    by (auto simp: from_proto_filter_def Let_def none holds_opt_def memory_kinds_any_def)
qed

subsection \<open>Rendered filters\<close>

text \<open>Expressions that \<open>expr_to_safe_string\<close> supports.\<close>

fun renderable :: "expr \<Rightarrow> bool" where
  "renderable (Column c) = True"
| "renderable (Literal v) = (v \<in> range (Int64 \<circ> Some) \<union> range (Int32 \<circ> Some) \<union> range (Utf8 \<circ> Some))"
| "renderable (BinaryExpr a op b) = (op \<noteq> OtherOp \<and> renderable a \<and> renderable b)"
| "renderable (InList e es negated) = (renderable e \<and> list_all renderable es)"
| "renderable OtherExpr = False"

lemma collect_results_Inr: "list_all is_ok rs \<Longrightarrow> \<exists>as. collect_results rs = Inr as"
  by (induction rs rule: collect_results.induct) (auto simp: is_ok_def)

lemma renderable_text: "renderable e \<Longrightarrow> \<exists>s. expr_to_safe_string e = Inr s"
proof (induction e)
  case (Literal v)
  then show ?case by (auto simp: scalar_text_def)
next
  case (BinaryExpr a op b)
  then show ?case by (cases op) (auto simp: operator_text_def)
next
  case (InList e es negated)
  then have "list_all is_ok (map expr_to_safe_string es)"
    by (fastforce simp: list_all_iff is_ok_def)
  from collect_results_Inr [OF this] InList show ?case by auto
qed simp_all

definition renderable_opt :: "expr option \<Rightarrow> bool" where
  "renderable_opt e = (case e of None \<Rightarrow> True | Some e \<Rightarrow> renderable e)"

lemma renderable_combine: "renderable_opt (combine_opt f r) \<longleftrightarrow> renderable_opt f \<and> renderable_opt r"
  by (auto simp: renderable_opt_def combine_opt_def combine_and_def filter_and_def split: option.splits)

lemma renderable_fold_or:
  "renderable (fold (\<lambda>b a. filter_or a b) es e) \<longleftrightarrow> renderable e \<and> list_all renderable es"
  by (induction es arbitrary: e) (auto simp: filter_or_def)

lemma renderable_reduce: "list_all renderable es \<Longrightarrow> renderable_opt (reduce_or es)"
  by (auto simp: renderable_opt_def reduce_or_def renderable_fold_or split: list.split)

lemma renderable_builders:
  "renderable (filter_user_id i)" "renderable (filter_role i)" "renderable (filter_content_type i)"
  "renderable (created_after i)" "renderable (created_before i)" "renderable (updated_after i)"
  "renderable (updated_before i)"
  by (auto simp: filter_user_id_def filter_role_def filter_content_type_def created_after_def
      created_before_def updated_after_def updated_before_def)

text \<open>
  The filter of every request can be rendered: no part of it is unsupported.
\<close>

theorem from_proto_filter_renders:
  "case from_proto_filter f of None \<Rightarrow> True | Some e \<Rightarrow> \<exists>s. to_sql e = Inr s"
proof -
  have opt: "renderable_opt (map_option g x)" if "\<And>i. renderable (g i)" for g :: "int \<Rightarrow> expr" and x
    using that by (simp add: renderable_opt_def split: option.split)
  have kinds: "renderable_opt (case memory_kinds_any ks of Inr e \<Rightarrow> Some e | Inl _ \<Rightarrow> None)" for ks
    by (auto simp: renderable_opt_def memory_kinds_any_def list_all_iff)
  have none: "renderable_opt None" by (simp add: renderable_opt_def)
  have "list_all renderable (map g xs)" if "\<And>i. renderable (g i)" for g :: "int \<Rightarrow> expr" and xs
    using that by (simp add: list_all_iff)
  then have "renderable_opt (from_proto_filter f)"
    unfolding from_proto_filter_def Let_def renderable_combine
    by (simp add: opt kinds none renderable_builders renderable_reduce)
  then show ?thesis
    by (auto simp: renderable_opt_def to_sql_def renderable_text split: option.splits)
qed

text \<open>
  SQL's reading of string literals: a quote opens one, two quotes in it stand for one, a
  single one closes it; then of a list of literals separated by a comma and a blank.
\<close>

fun read_body :: "string \<Rightarrow> (string \<times> string) option" where
  "read_body [] = None"
| "read_body [c] = (if c = quote_char then Some ([], []) else None)"
| "read_body (c # d # cs) =
     (if c = quote_char
      then if d = quote_char then map_option (apfst (Cons quote_char)) (read_body cs)
           else Some ([], d # cs)
      else map_option (apfst (Cons c)) (read_body (d # cs)))"

fun read_literals :: "nat \<Rightarrow> string \<Rightarrow> (string list \<times> string) option" where
  "read_literals 0 s = None"
| "read_literals (Suc n) s =
     (case strip_prefix [quote_char] s of
        None \<Rightarrow> None
      | Some body \<Rightarrow>
          (case read_body body of
             None \<Rightarrow> None
           | Some (v, rest) \<Rightarrow>
               (case strip_prefix '', '' rest of
                  None \<Rightarrow> Some ([v], rest)
                | Some rest' \<Rightarrow> map_option (apfst (Cons v)) (read_literals n rest'))))"

lemma double_quotes_simps [simp]:
  "double_quotes [] = []"
  "double_quotes (c # s) = (if c = quote_char then [quote_char, quote_char] else [c]) @ double_quotes s"
  by (simp_all add: double_quotes_def)

lemma read_body_step: "c \<noteq> quote_char \<Longrightarrow> cs \<noteq> [] \<Longrightarrow> read_body (c # cs) = map_option (apfst (Cons c)) (read_body cs)"
  by (cases cs) auto

lemma read_body_quoted:
  assumes "rest = [] \<or> hd rest \<noteq> quote_char"
  shows "read_body (double_quotes s @ quote_char # rest) = Some (s, rest)"
proof (induction s)
  case Nil
  then show ?case using assms by (cases rest) auto
next
  case (Cons c s)
  then show ?case by (simp add: read_body_step)
qed

lemma strip_prefix_self [simp]: "strip_prefix p (p @ r) = Some r"
  by (simp add: strip_prefix_append)

lemma read_literals_rendered:
  assumes "vs \<noteq> []" "hd rest \<noteq> quote_char" "strip_prefix '', '' rest = None" "rest \<noteq> []"
  shows "read_literals (length vs)
      (join_with '', '' (map (\<lambda>s. quote_char # double_quotes s @ [quote_char]) vs) @ rest) = Some (vs, rest)"
  using assms(1)
proof (induction vs rule: induct_list012)
  case (2 v)
  then show ?case using assms read_body_quoted [of rest v] by simp
next
  case (3 v w vs)
  let ?tail = "join_with '', '' (map (\<lambda>s. quote_char # double_quotes s @ [quote_char]) (w # vs)) @ rest"
  have "read_body (double_quotes v @ quote_char # '', '' @ ?tail) = Some (v, '', '' @ ?tail)"
    by (rule read_body_quoted) (simp add: quote_char_def)
  moreover have "strip_prefix '', '' ('', '' @ ?tail) = Some ?tail"
    by (rule strip_prefix_self)
  ultimately show ?case using 3 by simp
qed simp

text \<open>
  C39. Injection safety of the string list: for any values, whatever quotes or SQL they
  contain, the rendered filter is the name of the column as DataFusion reads it, \<open>IN\<close>, and a list which SQL's literal rules read
  back as exactly the values, followed by the closing parentheses; the only refused list is
  the empty one.
\<close>

theorem in_str_list_literals_read_back:
  "case in_str_list col_name column vs of
     Inl _ \<Rightarrow> vs = []
   | Inr e \<Rightarrow> \<exists>body. to_sql e = Inr (''('' @ col_name column @ '' IN ('' @ body @ ''))'')
       \<and> read_literals (length vs) (body @ ''))'') = Some (vs, ''))'')"
proof (cases "vs = []")
  case False
  have "collect_results (map expr_to_safe_string (map (\<lambda>v. Literal (Utf8 (Some v))) vs))
      = Inr (map (\<lambda>s. quote_char # double_quotes s @ [quote_char]) vs)" for vs
    by (induction vs) (simp_all add: scalar_text_def)
  moreover have "hd ''))'' \<noteq> quote_char" by (simp add: quote_char_def)
  from read_literals_rendered [OF False this]
  have "read_literals (length vs)
      (join_with '', '' (map (\<lambda>s. quote_char # double_quotes s @ [quote_char]) vs) @ ''))'') = Some (vs, ''))'')"
    by simp
  ultimately show ?thesis using False
    by (auto simp: in_str_list_def to_sql_def comp_def)
qed (simp add: in_str_list_def)

end
