(* ===== verification/Embedding_Space.thy ===== *)
theory Embedding_Space
  imports Store_Prelude
begin

text \<open>
  Embedding spaces (\<open>infra/src/infra/embedding_space.rs\<close> and its modules \<open>record.rs\<close>,
  \<open>startup.rs\<close>, \<open>bootstrap.rs\<close> and \<open>token.rs\<close>): the records each vector table keeps in its
  manifest config, the startup decision over all tables, its application, and the check of
  embedding results against their dispatch token. A manifest config is a map from keys to
  strings; faults of the storage backend are not modelled. JSON (\<open>serde_json\<close>) and SHA-256
  (\<open>sha2\<close>) are the arguments in the record \<open>space_library\<close>.
\<close>

subsection \<open>Spaces and records\<close>

record space_components =
  model_id :: string
  tokenizer_model_id :: string
  model_revision :: string
  space_dimension :: nat
  space_distance :: string

record space_library =
  lib_json_strings :: "string list \<Rightarrow> string"
  lib_sha256 :: "string \<Rightarrow> string"
  lib_components_json :: "space_components \<Rightarrow> string"
  lib_parse_components :: "string \<Rightarrow> space_components option"
  lib_markers_json :: "(string \<times> (string \<times> string) option) list \<Rightarrow> string"

definition space_id_derivation :: string where
  "space_id_derivation = ''memories-embedding-space/v1''"

definition space_id :: "space_library \<Rightarrow> space_components \<Rightarrow> string" where
  "space_id lib c = to_hex (lib_sha256 lib (lib_json_strings lib
     [space_id_derivation, model_id c, tokenizer_model_id c, model_revision c,
      show_nat (space_dimension c), space_distance c]))"

record space_record =
  rec_space_id :: string
  rec_components :: "space_components option"
  rec_legacy_accept :: bool

definition new_space_record :: "space_library \<Rightarrow> space_components \<Rightarrow> bool \<Rightarrow> space_record" where
  "new_space_record lib c legacy =
     \<lparr>rec_space_id = space_id lib c, rec_components = Some c, rec_legacy_accept = legacy\<rparr>"

datatype marker_state = Switching | Pending | Committing | Restoring | Discarding

fun marker_state_text :: "marker_state \<Rightarrow> string" where
  "marker_state_text Switching = ''switching''"
| "marker_state_text Pending = ''pending''"
| "marker_state_text Committing = ''committing''"
| "marker_state_text Restoring = ''restoring''"
| "marker_state_text Discarding = ''discarding''"

definition parse_marker_state :: "string \<Rightarrow> marker_state option" where
  "parse_marker_state v =
     (if v = ''switching'' then Some Switching
      else if v = ''pending'' then Some Pending
      else if v = ''committing'' then Some Committing
      else if v = ''restoring'' then Some Restoring
      else if v = ''discarding'' then Some Discarding
      else None)"

record migration_marker =
  marker_state :: marker_state
  marker_attempt :: string

record table_record =
  tr_space :: "space_record option"
  tr_marker :: "migration_marker option"
  tr_rebuild_chunking :: "string option"

type_synonym manifest = "string \<Rightarrow> string option"

definition key_space_id :: string where "key_space_id = ''memories.embedding.space_id''"
definition key_space_components :: string where "key_space_components = ''memories.embedding.space''"
definition key_legacy_accept :: string where "key_legacy_accept = ''memories.embedding.legacy_accept''"
definition key_marker :: string where "key_marker = ''memories.embedding.migration_marker''"
definition key_marker_attempt :: string where "key_marker_attempt = ''memories.embedding.migration_attempt''"
definition key_rebuild_chunking :: string where "key_rebuild_chunking = ''memories.embedding.rebuild_chunking''"

lemmas key_defs = key_space_id_def key_space_components_def key_legacy_accept_def key_marker_def
  key_marker_attempt_def key_rebuild_chunking_def

definition non_empty :: "string option \<Rightarrow> string option" where
  "non_empty v = (case v of Some s \<Rightarrow> if s = [] then None else Some s | None \<Rightarrow> None)"

definition text_of :: "string option \<Rightarrow> string" where
  "text_of v = (case v of Some s \<Rightarrow> s | None \<Rightarrow> [])"

text \<open>\<open>TableRecord::from_config\<close>; the error is the unknown marker text.\<close>

definition table_record_from_config :: "space_library \<Rightarrow> manifest \<Rightarrow> string + table_record" where
  "table_record_from_config lib config =
     (let space = map_option (\<lambda>i. \<lparr>rec_space_id = i,
              rec_components = (case config key_space_components of
                                  Some c \<Rightarrow> lib_parse_components lib c | None \<Rightarrow> None),
              rec_legacy_accept = (config key_legacy_accept = Some ''true'')\<rparr>)
            (non_empty (config key_space_id));
          chunking = non_empty (config key_rebuild_chunking)
      in case non_empty (config key_marker) of
           None \<Rightarrow> Inr \<lparr>tr_space = space, tr_marker = None, tr_rebuild_chunking = chunking\<rparr>
         | Some raw \<Rightarrow>
             (case parse_marker_state raw of
                None \<Rightarrow> Inl raw
              | Some st \<Rightarrow> Inr \<lparr>tr_space = space,
                    tr_marker = Some \<lparr>marker_state = st, marker_attempt = text_of (config key_marker_attempt)\<rparr>,
                    tr_rebuild_chunking = chunking\<rparr>))"

definition space_entries :: "space_library \<Rightarrow> space_record \<Rightarrow> (string \<times> string) list" where
  "space_entries lib s =
     [(key_space_id, rec_space_id s),
      (key_space_components, text_of (map_option (lib_components_json lib) (rec_components s))),
      (key_legacy_accept, if rec_legacy_accept s then ''true'' else ''false'')]"

definition marker_entries :: "migration_marker option \<Rightarrow> (string \<times> string) list" where
  "marker_entries m =
     [(key_marker, text_of (map_option (marker_state_text \<circ> marker_state) m)),
      (key_marker_attempt, text_of (map_option marker_attempt m))]"

text \<open>The upsert of the manifest config.\<close>

definition write_entries :: "(string \<times> string) list \<Rightarrow> manifest \<Rightarrow> manifest" where
  "write_entries es config = fold (\<lambda>(k, v) m. m(k \<mapsto> v)) es config"

definition write_space_record :: "space_library \<Rightarrow> space_record \<Rightarrow> manifest \<Rightarrow> manifest" where
  "write_space_record lib s config = write_entries (space_entries lib s) config"

definition write_marker :: "migration_marker option \<Rightarrow> manifest \<Rightarrow> manifest" where
  "write_marker m config = write_entries (marker_entries m) config"

definition write_rebuild_chunking :: "string option \<Rightarrow> manifest \<Rightarrow> manifest" where
  "write_rebuild_chunking c config = write_entries [(key_rebuild_chunking, text_of c)] config"

subsection \<open>The startup decision\<close>

record row_models =
  model_names :: "string list"
  has_unlabeled :: bool

record table_observation =
  obs_table :: string
  obs_record :: table_record
  obs_empty :: bool
  obs_models :: "row_models option"

record record_write =
  write_table :: string
  write_space :: space_record

datatype startup_error =
    CancelIncomplete string string
  | FinalizeIncomplete string
  | SwitchIncomplete string
  | RebuildInconsistent string
  | RebuildConfigChanged string
  | SpaceMismatch string string string string string
  | SpaceUnknown string string

datatype startup_decision =
    Start "record_write list"
  | StartRebuilding string
  | FailStart startup_error

definition needs_rdb_target_check :: "table_observation list \<Rightarrow> bool" where
  "needs_rdb_target_check tables \<longleftrightarrow>
     tables \<noteq> [] \<and> list_all (\<lambda>t. obs_empty t \<and> tr_marker (obs_record t) = None) tables"

definition pin_rebuild_chunking ::
  "table_observation list \<Rightarrow> string \<Rightarrow> string \<Rightarrow> startup_error + string list" where
  "pin_rebuild_chunking tables attempt current =
     (if list_ex (\<lambda>p. p \<noteq> current) (List.map_filter (\<lambda>t. tr_rebuild_chunking (obs_record t)) tables)
      then Inl (RebuildConfigChanged attempt)
      else Inr (map obs_table (filter (\<lambda>t. tr_rebuild_chunking (obs_record t) = None) tables)))"

definition recorded_id :: "table_observation \<Rightarrow> string option" where
  "recorded_id t = map_option rec_space_id (tr_space (obs_record t))"

definition mismatch ::
  "space_library \<Rightarrow> table_observation \<Rightarrow> space_components \<Rightarrow> string \<Rightarrow> startup_error option" where
  "mismatch lib t current current_id =
     (case tr_space (obs_record t) of
        None \<Rightarrow> None
      | Some r \<Rightarrow>
          if rec_space_id r = current_id then None
          else Some (SpaceMismatch (obs_table t) current_id (lib_components_json lib current)
                 (rec_space_id r) (text_of (map_option (lib_components_json lib) (rec_components r)))))"

definition describe_markers :: "space_library \<Rightarrow> table_observation list \<Rightarrow> string" where
  "describe_markers lib tables = lib_markers_json lib
     (map (\<lambda>t. (obs_table t, map_option (\<lambda>m. (marker_state_text (marker_state m), marker_attempt m))
        (tr_marker (obs_record t)))) tables)"

definition markers_of :: "table_observation list \<Rightarrow> migration_marker list" where
  "markers_of tables = List.map_filter (\<lambda>t. tr_marker (obs_record t)) tables"

definition first_with :: "marker_state list \<Rightarrow> migration_marker list \<Rightarrow> migration_marker option" where
  "first_with states ms = find (\<lambda>m. marker_state m \<in> set states) ms"

definition first_mismatch ::
  "space_library \<Rightarrow> space_components \<Rightarrow> string \<Rightarrow> table_observation list \<Rightarrow> startup_error option" where
  "first_mismatch lib current current_id tables =
     (case List.map_filter (\<lambda>t. mismatch lib t current current_id) tables of
        [] \<Rightarrow> None | e # _ \<Rightarrow> Some e)"

text \<open>Rules 6 to 8, one table after the other.\<close>

fun decide_tables ::
  "space_library \<Rightarrow> space_components \<Rightarrow> string \<Rightarrow> table_observation list \<Rightarrow> record_write list
    \<Rightarrow> startup_decision" where
  "decide_tables lib current current_id [] writes = Start writes"
| "decide_tables lib current current_id (t # ts) writes =
     (if tr_space (obs_record t) \<noteq> None then
        (case mismatch lib t current current_id of
           Some e \<Rightarrow> FailStart e
         | None \<Rightarrow> decide_tables lib current current_id ts writes)
      else if obs_empty t then
        decide_tables lib current current_id ts
          (writes @ [\<lparr>write_table = obs_table t, write_space = new_space_record lib current False\<rparr>])
      else
        let models = (case obs_models t of Some m \<Rightarrow> m | None \<Rightarrow> \<lparr>model_names = [], has_unlabeled = False\<rparr>)
        in if has_unlabeled models \<or> length (model_names models) \<noteq> 1
           then FailStart (SpaceUnknown (obs_table t) (lib_json_strings lib (model_names models)))
           else decide_tables lib current current_id ts
                  (writes @ [\<lparr>write_table = obs_table t, write_space = new_space_record lib current True\<rparr>]))"

definition differs :: "string \<Rightarrow> table_observation \<Rightarrow> bool" where
  "differs current_id t = (case recorded_id t of Some i \<Rightarrow> i \<noteq> current_id | None \<Rightarrow> False)"

text \<open>The decision, rules in the order of the code; \<open>None\<close> is a failing \<open>expect\<close> of rule 5.\<close>

definition decide ::
  "space_library \<Rightarrow> table_observation list \<Rightarrow> space_components \<Rightarrow> bool \<Rightarrow> startup_decision option" where
  "decide lib tables current rdb_has_targets =
     (if tables = [] then Some (Start [])
      else let current_id = space_id lib current; ms = markers_of tables
      in case first_with [Restoring, Discarding] ms of
        Some m \<Rightarrow> Some (FailStart (CancelIncomplete (marker_attempt m)
                    (if marker_state m = Restoring then ''restore'' else ''abandon'')))
      | None \<Rightarrow>
      (case first_with [Committing] ms of
        Some m \<Rightarrow> Some (FailStart (FinalizeIncomplete (marker_attempt m)))
      | None \<Rightarrow>
      (case first_with [Switching] ms of
        Some m \<Rightarrow> Some (FailStart (SwitchIncomplete (marker_attempt m)))
      | None \<Rightarrow>
          if ms \<noteq> [] then
            (if length ms \<noteq> length tables \<or> card (marker_attempt ` set ms) \<noteq> 1
             then Some (FailStart (RebuildInconsistent (describe_markers lib tables)))
             else case first_mismatch lib current current_id tables of
                    Some e \<Rightarrow> Some (FailStart e)
                  | None \<Rightarrow> Some (StartRebuilding (marker_attempt (hd ms))))
          else if list_all obs_empty tables \<and> \<not> rdb_has_targets then
            Some (Start (map (\<lambda>t. \<lparr>write_table = obs_table t, write_space = new_space_record lib current False\<rparr>)
              (filter (\<lambda>t. recorded_id t \<noteq> Some current_id) tables)))
          else if 1 < card (set (List.map_filter recorded_id tables)) then
            (case find (differs current_id) tables of
               None \<Rightarrow> None
             | Some culprit \<Rightarrow> map_option FailStart (mismatch lib culprit current current_id))
          else Some (decide_tables lib current current_id tables []))))"

subsection \<open>Applying the decision\<close>

text \<open>A vector table: its label, its manifest config, the model label of each row.\<close>

record vector_table =
  vt_label :: string
  vt_config :: manifest
  vt_row_models :: "string option list"

record space_state =
  st_current :: space_components
  st_rebuilding :: "string option"
  st_tables :: "(string \<times> table_record) list"

datatype run_error = UnknownMarker string | Startup startup_error | ExpectFailed

definition accepts_legacy_writes :: "space_state \<Rightarrow> bool" where
  "accepts_legacy_writes st \<longleftrightarrow>
     st_rebuilding st = None \<and> st_tables st \<noteq> []
     \<and> list_all (\<lambda>(_, r). case tr_space r of Some s \<Rightarrow> rec_legacy_accept s | None \<Rightarrow> False) (st_tables st)"

definition scan_row_models :: "string option list \<Rightarrow> row_models" where
  "scan_row_models rows = fold (\<lambda>v m.
     case v of
       Some n \<Rightarrow> if n = [] then m\<lparr>has_unlabeled := True\<rparr>
                 else if n \<in> set (model_names m) then m
                 else m\<lparr>model_names := insort n (model_names m)\<rparr>
     | None \<Rightarrow> m\<lparr>has_unlabeled := True\<rparr>) rows \<lparr>model_names = [], has_unlabeled = False\<rparr>"

definition observe_table :: "space_library \<Rightarrow> vector_table \<Rightarrow> run_error + table_observation" where
  "observe_table lib t =
     (case table_record_from_config lib (vt_config t) of
        Inl raw \<Rightarrow> Inl (UnknownMarker raw)
      | Inr r \<Rightarrow>
          let is_empty = (vt_row_models t = [])
          in Inr \<lparr>obs_table = vt_label t, obs_record = r, obs_empty = is_empty,
               obs_models = (if tr_space r = None \<and> \<not> is_empty
                             then Some (scan_row_models (vt_row_models t)) else None)\<rparr>)"

fun observe :: "space_library \<Rightarrow> vector_table list \<Rightarrow> run_error + table_observation list" where
  "observe lib [] = Inr []"
| "observe lib (t # ts) =
     (case observe_table lib t of
        Inl e \<Rightarrow> Inl e
      | Inr ob \<Rightarrow> (case observe lib ts of Inl e \<Rightarrow> Inl e | Inr obs \<Rightarrow> Inr (ob # obs)))"

text \<open>\<open>iter().find(..)\<close> and change of the element found.\<close>

fun modify_first :: "('a \<Rightarrow> bool) \<Rightarrow> ('a \<Rightarrow> 'a) \<Rightarrow> 'a list \<Rightarrow> 'a list" where
  "modify_first p f [] = []"
| "modify_first p f (x # xs) = (if p x then f x # xs else x # modify_first p f xs)"

definition pin_table :: "string \<Rightarrow> string \<Rightarrow> vector_table list \<times> space_state \<Rightarrow> vector_table list \<times> space_state" where
  "pin_table chunking label ts =
     (modify_first (\<lambda>t. vt_label t = label)
        (\<lambda>t. t\<lparr>vt_config := write_rebuild_chunking (Some chunking) (vt_config t)\<rparr>) (fst ts),
      (snd ts)\<lparr>st_tables := modify_first (\<lambda>(l, _). l = label)
        (\<lambda>(l, r). (l, r\<lparr>tr_rebuild_chunking := Some chunking\<rparr>)) (st_tables (snd ts))\<rparr>)"

definition apply_write ::
  "space_library \<Rightarrow> record_write \<Rightarrow> vector_table list \<times> space_state \<Rightarrow> vector_table list \<times> space_state" where
  "apply_write lib w ts =
     (modify_first (\<lambda>t. vt_label t = write_table w)
        (\<lambda>t. t\<lparr>vt_config := write_space_record lib (write_space w) (vt_config t)\<rparr>) (fst ts),
      (snd ts)\<lparr>st_tables := modify_first (\<lambda>(l, _). l = write_table w)
        (\<lambda>(l, r). (l, r\<lparr>tr_space := Some (write_space w)\<rparr>)) (st_tables (snd ts))\<rparr>)"

definition records :: "table_observation list \<Rightarrow> (string \<times> table_record) list" where
  "records obs = map (\<lambda>ob. (obs_table ob, obs_record ob)) obs"

definition run_startup ::
  "space_library \<Rightarrow> vector_table list \<Rightarrow> space_components \<Rightarrow> string \<Rightarrow> bool
    \<Rightarrow> run_error + vector_table list \<times> space_state" where
  "run_startup lib tables current chunking rdb_has_targets =
     (case observe lib tables of
        Inl e \<Rightarrow> Inl e
      | Inr obs \<Rightarrow>
          let rdb = (if needs_rdb_target_check obs then rdb_has_targets else False)
          in case decide lib obs current rdb of
               None \<Rightarrow> Inl ExpectFailed
             | Some (FailStart e) \<Rightarrow> Inl (Startup e)
             | Some (StartRebuilding attempt) \<Rightarrow>
                 (case pin_rebuild_chunking obs attempt chunking of
                    Inl e \<Rightarrow> Inl (Startup e)
                  | Inr unpinned \<Rightarrow>
                      Inr (fold (pin_table chunking) unpinned
                        (tables, \<lparr>st_current = current, st_rebuilding = Some attempt, st_tables = records obs\<rparr>)))
             | Some (Start writes) \<Rightarrow>
                 Inr (fold (apply_write lib) writes
                   (tables, \<lparr>st_current = current, st_rebuilding = None, st_tables = records obs\<rparr>)))"

subsection \<open>Round trips of the records\<close>

text \<open>
  What the code relies on: a component JSON reads back, the empty string is not one, and a
  digest is not empty.
\<close>

definition library_ok :: "space_library \<Rightarrow> bool" where
  "library_ok lib \<longleftrightarrow> (\<forall>c. lib_parse_components lib (lib_components_json lib c) = Some c)
     \<and> lib_parse_components lib [] = None \<and> (\<forall>s. lib_sha256 lib s \<noteq> [])"

lemma write_entries_simps [simp]:
  "write_entries [] m = m" "write_entries ((k, v) # es) m = write_entries es (m(k \<mapsto> v))"
  by (simp_all add: write_entries_def)

lemma marker_state_round_trip [simp]: "parse_marker_state (marker_state_text st) = Some st"
  by (cases st) (simp_all add: parse_marker_state_def)

lemma marker_state_text_nonempty [simp]: "marker_state_text st \<noteq> []"
  by (cases st) simp_all

lemma from_config_after_space:
  assumes "library_ok lib" "rec_space_id s \<noteq> []"
  shows "table_record_from_config lib (write_space_record lib s config) =
    map_sum id (\<lambda>r. r\<lparr>tr_space := Some s\<rparr>) (table_record_from_config lib config)"
proof -
  have "(case Some (text_of (map_option (lib_components_json lib) c)) of
          Some x \<Rightarrow> lib_parse_components lib x | None \<Rightarrow> None) = c" for c
    using assms(1) by (cases c) (auto simp: library_ok_def text_of_def)
  then show ?thesis using assms(2)
    by (cases s) (auto simp: write_space_record_def space_entries_def table_record_from_config_def
        Let_def key_defs non_empty_def split: option.split)
qed

lemma from_config_after_marker:
  "table_record_from_config lib (write_marker m config) =
    (case table_record_from_config lib (write_marker None config) of
       Inl e \<Rightarrow> Inl e | Inr r \<Rightarrow> Inr (r\<lparr>tr_marker := m\<rparr>))"
  by (cases m) (auto simp: write_marker_def marker_entries_def table_record_from_config_def Let_def
      key_defs non_empty_def text_of_def)

lemma from_config_after_chunking:
  "c \<noteq> [] \<Longrightarrow> table_record_from_config lib (write_rebuild_chunking (Some c) config) =
    map_sum id (\<lambda>r. r\<lparr>tr_rebuild_chunking := Some c\<rparr>) (table_record_from_config lib config)"
  by (auto simp: write_rebuild_chunking_def table_record_from_config_def Let_def
      key_defs non_empty_def text_of_def split: option.split)

text \<open>
  A table's records round-trip through its manifest config: writing a space, a marker and
  the pinned chunking settings in this order over any earlier contents reads back as exactly
  these three.
\<close>

theorem table_record_round_trip:
  assumes "library_ok lib" "rec_space_id s \<noteq> []" "c \<noteq> []"
  shows "table_record_from_config lib
      (write_rebuild_chunking (Some c) (write_marker m (write_space_record lib s config)))
    = Inr \<lparr>tr_space = Some s, tr_marker = m, tr_rebuild_chunking = Some c\<rparr>"
proof -
  have comps: "(case Some (text_of (map_option (lib_components_json lib) c)) of
          Some x \<Rightarrow> lib_parse_components lib x | None \<Rightarrow> None) = c" for c
    using assms(1) by (cases c) (auto simp: library_ok_def text_of_def)
  show ?thesis using assms(2,3) comps [of "rec_components s"]
    by (cases s; cases m)
      (simp_all add: write_rebuild_chunking_def write_marker_def marker_entries_def
        write_space_record_def space_entries_def table_record_from_config_def Let_def key_defs
        non_empty_def text_of_def)
qed

subsection \<open>Safety of the decision\<close>

lemma find_none_iff: "first_with states ms = None \<longleftrightarrow> (\<forall>m \<in> set ms. marker_state m \<notin> set states)"
  by (auto simp: first_with_def find_None_iff)

lemma pending_only:
  assumes "first_with [Restoring, Discarding] ms = None" "first_with [Committing] ms = None"
    "first_with [Switching] ms = None" "m \<in> set ms"
  shows "marker_state m = Pending"
  using assms by (cases "marker_state m") (auto simp: find_none_iff)

lemma markers_of_Nil: "markers_of tables = [] \<longleftrightarrow> list_all (\<lambda>t. tr_marker (obs_record t) = None) tables"
  by (induction tables) (auto simp: markers_of_def List.map_filter_simps split: option.splits)

lemma length_markers_of:
  "length (markers_of tables) \<le> length tables \<and>
   (length (markers_of tables) = length tables \<longrightarrow>
     list_all (\<lambda>t. tr_marker (obs_record t) \<noteq> None) tables)"
  by (induction tables) (auto simp: markers_of_def List.map_filter_simps split: option.splits)

lemma in_markers_of: "t \<in> set tables \<Longrightarrow> tr_marker (obs_record t) = Some m \<Longrightarrow> m \<in> set (markers_of tables)"
  by (auto simp: markers_of_def set_map_filter_iff)

lemma mismatch_None: "mismatch lib t current cid = None \<longleftrightarrow> recorded_id t \<in> {None, Some cid}"
  by (auto simp: mismatch_def recorded_id_def split: option.splits)

lemma first_mismatch_None:
  "first_mismatch lib current cid tables = None \<longleftrightarrow> (\<forall>t \<in> set tables. recorded_id t \<in> {None, Some cid})"
proof -
  have "first_mismatch lib current cid tables = None
      \<longleftrightarrow> List.map_filter (\<lambda>t. mismatch lib t current cid) tables = []"
    by (simp add: first_mismatch_def split: list.split)
  also have "\<dots> \<longleftrightarrow> (\<forall>t \<in> set tables. mismatch lib t current cid = None)"
    by (induction tables) (auto simp: List.map_filter_simps split: option.splits)
  finally show ?thesis by (simp only: mismatch_None)
qed

text \<open>Exactly what rules 6 to 8 write.\<close>

definition write_for :: "space_library \<Rightarrow> space_components \<Rightarrow> table_observation \<Rightarrow> record_write list" where
  "write_for lib current t =
     (if recorded_id t = None
      then [\<lparr>write_table = obs_table t, write_space = new_space_record lib current (\<not> obs_empty t)\<rparr>] else [])"

lemma decide_tables_Start:
  "decide_tables lib current cid tables ws = Start ws' \<Longrightarrow>
   ws' = ws @ concat (map (write_for lib current) tables)
   \<and> (\<forall>t \<in> set tables. recorded_id t \<in> {None, Some cid})"
proof (induction tables arbitrary: ws)
  case (Cons t ts)
  show ?case
  proof (cases "tr_space (obs_record t)")
    case None
    then have "recorded_id t = None" by (simp add: recorded_id_def)
    moreover from Cons.prems None have "decide_tables lib current cid ts
        (ws @ [\<lparr>write_table = obs_table t, write_space = new_space_record lib current (\<not> obs_empty t)\<rparr>])
        = Start ws'"
      by (auto simp: Let_def split: if_splits)
    from Cons.IH [OF this] have "ws' = ws @ [\<lparr>write_table = obs_table t,
          write_space = new_space_record lib current (\<not> obs_empty t)\<rparr>]
        @ concat (map (write_for lib current) ts) \<and> (\<forall>t \<in> set ts. recorded_id t \<in> {None, Some cid})"
      by simp
    ultimately show ?thesis by (auto simp: write_for_def [of lib current t])
  next
    case (Some r)
    then have "recorded_id t \<noteq> None" by (simp add: recorded_id_def)
    with Cons Some mismatch_None [of lib t current cid] show ?thesis
      by (auto simp: write_for_def split: option.splits)
  qed
qed simp

lemma decide_tables_not_rebuilding: "decide_tables lib current cid tables ws \<noteq> StartRebuilding a"
  by (induction tables arbitrary: ws) (auto simp: Let_def split: option.split)

lemma decide_Start:
  assumes "decide lib tables current rdb = Some (Start ws)"
  shows "list_all (\<lambda>t. tr_marker (obs_record t) = None) tables
    \<and> (list_all obs_empty tables \<and> \<not> rdb
        \<and> ws = map (\<lambda>t. \<lparr>write_table = obs_table t, write_space = new_space_record lib current False\<rparr>)
             (filter (\<lambda>t. recorded_id t \<noteq> Some (space_id lib current)) tables)
      \<or> ws = concat (map (write_for lib current) tables)
        \<and> (\<forall>t \<in> set tables. recorded_id t \<in> {None, Some (space_id lib current)}))"
proof (cases "tables = []")
  case True
  with assms show ?thesis by (simp add: decide_def)
next
  case False
  with assms markers_of_Nil [of tables] decide_tables_Start [of lib current "space_id lib current" tables "[]" ws]
  show ?thesis by (auto simp: decide_def Let_def split: option.splits if_splits)
qed

lemma decide_Rebuilding:
  assumes "decide lib tables current rdb = Some (StartRebuilding a)"
  shows "\<forall>t \<in> set tables. tr_marker (obs_record t) = Some \<lparr>marker_state = Pending, marker_attempt = a\<rparr>
    \<and> recorded_id t \<in> {None, Some (space_id lib current)}"
proof
  fix t assume t: "t \<in> set tables"
  let ?ms = "markers_of tables"
  from assms have d: "first_with [Restoring, Discarding] ?ms = None" "first_with [Committing] ?ms = None"
    "first_with [Switching] ?ms = None" "?ms \<noteq> []" "length ?ms = length tables"
    "card (marker_attempt ` set ?ms) = 1" "first_mismatch lib current (space_id lib current) tables = None"
    "a = marker_attempt (hd ?ms)"
    using decide_tables_not_rebuilding
    by (auto simp: decide_def Let_def split: option.splits if_splits)
  from d(5) length_markers_of [of tables] t obtain m where m: "tr_marker (obs_record t) = Some m"
    by (auto simp: list_all_iff)
  then have "m \<in> set ?ms" using in_markers_of t by blast
  moreover from this have "marker_state m = Pending" using pending_only d(1-3) by blast
  moreover have "marker_attempt m = a"
  proof -
    from d(6) obtain b where "marker_attempt ` set ?ms = {b}" by (auto simp: card_1_singleton_iff)
    with \<open>m \<in> set ?ms\<close> d(4,8) show ?thesis
      by (metis hd_in_set imageI singletonD)
  qed
  moreover have "recorded_id t \<in> {None, Some (space_id lib current)}"
    using d(7) t first_mismatch_None [of lib current "space_id lib current" tables] by simp
  ultimately show "tr_marker (obs_record t) = Some \<lparr>marker_state = Pending, marker_attempt = a\<rparr>
    \<and> recorded_id t \<in> {None, Some (space_id lib current)}"
    using m by (simp add: migration_marker.equality)
qed

lemma decide_total: "decide lib tables current rdb \<noteq> None"
proof -
  let ?cid = "space_id lib current"
  have "find (differs ?cid) tables \<noteq> None" if "1 < card (set (List.map_filter recorded_id tables))"
  proof
    assume "find (differs ?cid) tables = None"
    then have "set (List.map_filter recorded_id tables) \<subseteq> {?cid}"
      by (fastforce simp: find_None_iff set_map_filter_iff differs_def)
    then have "card (set (List.map_filter recorded_id tables)) \<le> card {?cid}"
      by (intro card_mono) auto
    with that show False by simp
  qed
  moreover have "mismatch lib t current ?cid \<noteq> None" if "find (differs ?cid) tables = Some t" for t
    using that mismatch_None [of lib t current ?cid]
    by (auto simp: find_Some_iff differs_def split: option.splits)
  ultimately show ?thesis by (auto simp: decide_def Let_def split: option.split)
qed

lemma decide_Start_covers:
  assumes dec: "decide lib tables current rdb = Some (Start ws)"
  shows "\<forall>t \<in> set tables. tr_marker (obs_record t) = None
     \<and> (recorded_id t = Some (space_id lib current)
        \<or> (recorded_id t = None \<or> obs_empty t)
          \<and> (\<exists>w \<in> set ws. write_table w = obs_table t \<and> rec_space_id (write_space w) = space_id lib current))"
proof
  fix t assume t: "t \<in> set tables"
  note start = decide_Start [OF dec]
  have "\<exists>w \<in> set ws. write_table w = obs_table t \<and> rec_space_id (write_space w) = space_id lib current"
    if "recorded_id t \<noteq> Some (space_id lib current)"
  proof (cases "recorded_id t = None \<and> ws = concat (map (write_for lib current) tables)")
    case True
    then have "\<lparr>write_table = obs_table t, write_space = new_space_record lib current (\<not> obs_empty t)\<rparr> \<in> set ws"
      using t by (auto simp: write_for_def)
    then show ?thesis by (rule bexI [rotated]) (simp add: new_space_record_def)
  next
    case False
    with start t that have "\<lparr>write_table = obs_table t, write_space = new_space_record lib current False\<rparr> \<in> set ws"
      by auto
    then show ?thesis by (rule bexI [rotated]) (simp add: new_space_record_def)
  qed
  with start t show "tr_marker (obs_record t) = None
     \<and> (recorded_id t = Some (space_id lib current)
        \<or> (recorded_id t = None \<or> obs_empty t)
          \<and> (\<exists>w \<in> set ws. write_table w = obs_table t \<and> rec_space_id (write_space w) = space_id lib current))"
    unfolding list_all_iff by blast
qed

text \<open>
  C29. The startup decision always exists (no \<open>expect\<close> fails) and never mixes spaces: when the
  process starts, no table is marked for migration and after the writes every table records
  the current space, where only unrecorded or empty tables are written; when it starts
  rebuilding, every table carries a pending marker of the one attempt and none records another
  space.
\<close>

theorem decide_never_mixes_spaces:
  "case decide lib tables current rdb of
     None \<Rightarrow> False
   | Some (FailStart e) \<Rightarrow> True
   | Some (Start ws) \<Rightarrow> \<forall>t \<in> set tables. tr_marker (obs_record t) = None
       \<and> (recorded_id t = Some (space_id lib current)
          \<or> (recorded_id t = None \<or> obs_empty t)
            \<and> (\<exists>w \<in> set ws. write_table w = obs_table t \<and> rec_space_id (write_space w) = space_id lib current))
   | Some (StartRebuilding a) \<Rightarrow> \<forall>t \<in> set tables.
       tr_marker (obs_record t) = Some \<lparr>marker_state = Pending, marker_attempt = a\<rparr>
       \<and> recorded_id t \<in> {None, Some (space_id lib current)}"
proof -
  show ?thesis
    using decide_Start_covers [of lib tables current rdb] decide_total [of lib tables current rdb] decide_Rebuilding [of lib tables current rdb]
    by (simp split: option.split startup_decision.split)
qed

subsection \<open>Restarting\<close>

lemma modify_first_map:
  "distinct (map f xs) \<Longrightarrow> modify_first (\<lambda>x. f x = l) g xs = map (\<lambda>x. if f x = l then g x else x) xs"
proof (induction xs)
  case (Cons x xs)
  have "map (\<lambda>y. if f y = l then g y else y) xs = xs" if "f x = l"
    using Cons.prems that by (intro map_idI) (auto simp: image_iff)
  with Cons show ?case by auto
qed simp

text \<open>The two changes of a table as the next start observes them.\<close>

definition observed_write :: "record_write \<Rightarrow> table_observation \<Rightarrow> table_observation" where
  "observed_write w ob = ob\<lparr>obs_record := (obs_record ob)\<lparr>tr_space := Some (write_space w)\<rparr>, obs_models := None\<rparr>"

definition observed_pin :: "string \<Rightarrow> table_observation \<Rightarrow> table_observation" where
  "observed_pin c ob = ob\<lparr>obs_record := (obs_record ob)\<lparr>tr_rebuild_chunking := Some c\<rparr>\<rparr>"

lemma observe_modify_first:
  assumes "observe lib ts = Inr obs"
    and "\<And>t ob. observe_table lib t = Inr ob \<Longrightarrow> observe_table lib (g t) = Inr (g' ob)"
    and "\<And>ob. h (obs_table ob, obs_record ob) = (obs_table (g' ob), obs_record (g' ob))"
  shows "observe lib (modify_first (\<lambda>t. vt_label t = l) g ts)
      = Inr (modify_first (\<lambda>ob. obs_table ob = l) g' obs)
    \<and> modify_first (\<lambda>(l', _). l' = l) h (records obs)
      = records (modify_first (\<lambda>ob. obs_table ob = l) g' obs)"
  using assms(1)
proof (induction ts arbitrary: obs)
  case Nil
  then show ?case by (simp add: records_def)
next
  case (Cons t ts)
  then obtain ob obs' where ob: "observe_table lib t = Inr ob" "observe lib ts = Inr obs'" "obs = ob # obs'"
    by (auto split: sum.splits)
  then have "obs_table ob = vt_label t"
    by (auto simp: observe_table_def Let_def split: sum.splits)
  with Cons.IH [OF ob(2)] ob assms(2) [OF ob(1)] assms(3) [of ob] show ?case
    by (auto simp: records_def)
qed

lemma observe_after_write:
  assumes "library_ok lib" "rec_space_id (write_space w) \<noteq> []" "observe_table lib t = Inr ob"
  shows "observe_table lib (t\<lparr>vt_config := write_space_record lib (write_space w) (vt_config t)\<rparr>)
    = Inr (observed_write w ob)"
  using assms(3) from_config_after_space [OF assms(1,2)]
  by (auto simp: observe_table_def observed_write_def Let_def split: sum.splits)

lemma observe_after_pin:
  assumes "c \<noteq> []" "observe_table lib t = Inr ob"
  shows "observe_table lib (t\<lparr>vt_config := write_rebuild_chunking (Some c) (vt_config t)\<rparr>)
    = Inr (observed_pin c ob)"
  using assms(2) from_config_after_chunking [OF assms(1)]
  by (auto simp: observe_table_def observed_pin_def Let_def split: sum.splits if_splits)

text \<open>A table whose record is settled: no marker, the current space.\<close>

definition settled :: "string \<Rightarrow> table_observation \<Rightarrow> bool" where
  "settled cid ob \<longleftrightarrow> tr_marker (obs_record ob) = None \<and> recorded_id ob = Some cid"

lemma decide_settled:
  assumes "\<forall>ob \<in> set obs. settled (space_id lib current) ob"
  shows "decide lib obs current rdb = Some (Start [])"
proof (cases "obs = []")
  case True
  then show ?thesis by (simp add: decide_def)
next
  case False
  let ?cid = "space_id lib current"
  have ms: "markers_of obs = []"
    using assms by (auto simp: markers_of_Nil list_all_iff settled_def)
  have filter: "filter (\<lambda>t. recorded_id t \<noteq> Some ?cid) obs = []"
    using assms by (auto simp: filter_empty_conv settled_def)
  have "set (List.map_filter recorded_id obs) \<subseteq> {?cid}"
    using assms by (auto simp: set_map_filter_iff settled_def)
  then have "card (set (List.map_filter recorded_id obs)) \<le> card {?cid}"
    by (intro card_mono) auto
  moreover have "decide_tables lib current ?cid obs ws = Start ws" for ws
    using assms
  proof (induction obs arbitrary: ws)
    case (Cons ob obs)
    then have "recorded_id ob = Some ?cid" by (simp add: settled_def)
    then have "tr_space (obs_record ob) \<noteq> None" "mismatch lib ob current ?cid = None"
      by (auto simp: recorded_id_def mismatch_None)
    with Cons show ?case by simp
  qed simp
  ultimately show ?thesis
    using False ms filter by (simp add: decide_def Let_def first_with_def)
qed

definition agrees :: "space_library \<Rightarrow> table_observation list \<Rightarrow> vector_table list \<times> space_state \<Rightarrow> bool" where
  "agrees lib obs ts \<longleftrightarrow> observe lib (fst ts) = Inr obs \<and> st_tables (snd ts) = records obs"

lemma apply_write_agrees:
  assumes "agrees lib obs ts" "library_ok lib" "rec_space_id (write_space w) \<noteq> []"
  shows "agrees lib (modify_first (\<lambda>ob. obs_table ob = write_table w) (observed_write w) obs) (apply_write lib w ts)"
  using observe_modify_first [of lib "fst ts" obs
      "\<lambda>t. t\<lparr>vt_config := write_space_record lib (write_space w) (vt_config t)\<rparr>" "observed_write w"
      "\<lambda>(l, r). (l, r\<lparr>tr_space := Some (write_space w)\<rparr>)" "write_table w"]
    observe_after_write [OF assms(2,3)] assms(1)
  by (simp add: agrees_def apply_write_def observed_write_def)

lemma pin_table_agrees:
  assumes "agrees lib obs ts" "c \<noteq> []"
  shows "agrees lib (modify_first (\<lambda>ob. obs_table ob = l) (observed_pin c) obs) (pin_table c l ts)"
  using observe_modify_first [of lib "fst ts" obs
      "\<lambda>t. t\<lparr>vt_config := write_rebuild_chunking (Some c) (vt_config t)\<rparr>" "observed_pin c"
      "\<lambda>(l, r). (l, r\<lparr>tr_rebuild_chunking := Some c\<rparr>)" l]
    observe_after_pin [OF assms(2)] assms(1)
  by (simp add: agrees_def pin_table_def observed_pin_def)

lemma labels_preserved:
  "(\<And>ob. obs_table (g ob) = obs_table ob) \<Longrightarrow> distinct (map obs_table obs) \<Longrightarrow>
   map obs_table (modify_first (\<lambda>ob. obs_table ob = l) g obs) = map obs_table obs"
  by (simp add: modify_first_map)

lemma fold_apply_write:
  assumes "agrees lib obs ts" "library_ok lib" "distinct (map obs_table obs)"
    and "\<forall>w \<in> set ws. rec_space_id (write_space w) = cid" "cid \<noteq> []"
    and "\<forall>ob \<in> set obs. tr_marker (obs_record ob) = None
           \<and> (recorded_id ob = Some cid \<or> obs_table ob \<in> write_table ` set ws)"
  shows "\<exists>obs'. agrees lib obs' (fold (apply_write lib) ws ts) \<and> (\<forall>ob \<in> set obs'. settled cid ob)"
  using assms(1,3,4,6)
proof (induction ws arbitrary: obs ts)
  case Nil
  then show ?case by (auto simp: settled_def)
next
  case (Cons w ws)
  let ?obs = "map (\<lambda>ob. if obs_table ob = write_table w then observed_write w ob else ob) obs"
  have "agrees lib ?obs (apply_write lib w ts)"
    using apply_write_agrees [OF Cons.prems(1) assms(2), of w] Cons.prems(2,3) assms(5)
    by (simp add: modify_first_map)
  moreover have "map obs_table ?obs = map obs_table obs" by (simp add: observed_write_def)
  then have "distinct (map obs_table ?obs)" using Cons.prems(2) by (simp only:)
  moreover have "recorded_id (observed_write w ob) = Some cid" for ob
    using Cons.prems(3) by (simp add: recorded_id_def observed_write_def)
  then have "\<forall>ob \<in> set ?obs. tr_marker (obs_record ob) = None
           \<and> (recorded_id ob = Some cid \<or> obs_table ob \<in> write_table ` set ws)"
    using Cons.prems(4) by (auto simp: observed_write_def)
  ultimately show ?case using Cons.IH [of ?obs "apply_write lib w ts"] Cons.prems(3) by simp
qed

lemma fold_state_fields:
  "st_current (snd (fold (apply_write lib) ws ts)) = st_current (snd ts)
   \<and> st_rebuilding (snd (fold (apply_write lib) ws ts)) = st_rebuilding (snd ts)"
  "st_current (snd (fold (pin_table c) ls ts)) = st_current (snd ts)
   \<and> st_rebuilding (snd (fold (pin_table c) ls ts)) = st_rebuilding (snd ts)"
  by (induction ws arbitrary: ts, simp_all add: apply_write_def)
    (induction ls arbitrary: ts, simp_all add: pin_table_def)

definition pending_for :: "string \<Rightarrow> string \<Rightarrow> table_observation \<Rightarrow> bool" where
  "pending_for a cid ob \<longleftrightarrow>
     tr_marker (obs_record ob) = Some \<lparr>marker_state = Pending, marker_attempt = a\<rparr>
     \<and> recorded_id ob \<in> {None, Some cid}"

lemma decide_pending:
  assumes "obs \<noteq> []" "\<forall>ob \<in> set obs. pending_for a (space_id lib current) ob"
  shows "decide lib obs current rdb = Some (StartRebuilding a)"
proof -
  let ?m = "\<lparr>marker_state = Pending, marker_attempt = a\<rparr>"
  have ms: "markers_of obs = replicate (length obs) ?m"
    using assms(2) by (induction obs) (simp_all add: markers_of_def List.map_filter_simps pending_for_def)
  have "first_with st (replicate n ?m) = None" if "Pending \<notin> set st" for st n
    using that by (simp add: find_none_iff)
  moreover have "marker_attempt ` set (replicate (length obs) ?m) = {a}"
    using assms(1) by (simp add: set_replicate_conv_if)
  moreover have "hd (replicate (length obs) ?m) = ?m" "replicate (length obs) ?m \<noteq> []"
    using assms(1) by (simp_all add: hd_replicate)
  moreover have "first_mismatch lib current (space_id lib current) obs = None"
    using assms(2) by (simp add: first_mismatch_None pending_for_def)
  ultimately show ?thesis using assms(1) by (simp add: decide_def Let_def ms)
qed

lemma fold_pin_table:
  assumes "agrees lib obs ts" "c \<noteq> []" "distinct (map obs_table obs)"
    and "\<forall>ob \<in> set obs. pending_for a cid ob
           \<and> (tr_rebuild_chunking (obs_record ob) = Some c \<or> obs_table ob \<in> set ls)"
  shows "\<exists>obs'. agrees lib obs' (fold (pin_table c) ls ts) \<and> length obs' = length obs
    \<and> (\<forall>ob \<in> set obs'. pending_for a cid ob \<and> tr_rebuild_chunking (obs_record ob) = Some c)"
  using assms(1,3,4)
proof (induction ls arbitrary: obs ts)
  case Nil
  then show ?case by auto
next
  case (Cons l ls)
  let ?obs = "map (\<lambda>ob. if obs_table ob = l then observed_pin c ob else ob) obs"
  have "agrees lib ?obs (pin_table c l ts)"
    using pin_table_agrees [OF Cons.prems(1) assms(2), of l] Cons.prems(2) by (simp add: modify_first_map)
  moreover have "map obs_table ?obs = map obs_table obs" by (simp add: observed_pin_def)
  then have "distinct (map obs_table ?obs)" using Cons.prems(2) by (simp only:)
  moreover have "\<forall>ob \<in> set ?obs. pending_for a cid ob
           \<and> (tr_rebuild_chunking (obs_record ob) = Some c \<or> obs_table ob \<in> set ls)"
    using Cons.prems(3) by (auto simp: observed_pin_def pending_for_def recorded_id_def)
  ultimately show ?case using Cons.IH [of ?obs "pin_table c l ts"] by simp
qed

lemma observe_labels: "observe lib ts = Inr obs \<Longrightarrow> map obs_table obs = map vt_label ts"
  by (induction ts arbitrary: obs) (auto simp: observe_table_def Let_def split: sum.splits)

lemma space_id_nonempty: "library_ok lib \<Longrightarrow> space_id lib current \<noteq> []"
  using length_to_hex [of "lib_sha256 lib x" for x]
  by (metis library_ok_def space_id_def length_0_conv mult_is_0 zero_neq_numeral length_to_hex)

text \<open>Starting again after a start that serves the tables.\<close>

lemma restart_after_start:
  assumes obs: "observe lib tables = Inr obs" "distinct (map obs_table obs)"
    and lib: "library_ok lib" "chunking \<noteq> []"
    and d: "decide lib obs current rdb2 = Some (Start ws)"
    and t: "(tables', st) = fold (apply_write lib) ws
      (tables, \<lparr>st_current = current, st_rebuilding = None, st_tables = records obs\<rparr>)"
  shows "run_startup lib tables' current chunking rdb' = Inr (tables', st)"
proof -
  let ?cid = "space_id lib current"
  note cid = space_id_nonempty [OF lib(1), of current]
  let ?ts = "(tables, \<lparr>st_current = current, st_rebuilding = None, st_tables = records obs\<rparr>)"
  have "agrees lib obs ?ts" using obs(1) by (simp add: agrees_def)
  moreover have "\<forall>w \<in> set ws. rec_space_id (write_space w) = ?cid"
    using decide_Start [OF d] by (auto simp: new_space_record_def write_for_def)
  moreover have "\<forall>ob \<in> set obs. tr_marker (obs_record ob) = None
         \<and> (recorded_id ob = Some ?cid \<or> obs_table ob \<in> write_table ` set ws)"
    using decide_Start_covers [OF d] by force
  ultimately obtain obs' where obs': "agrees lib obs' (tables', st)" "\<forall>ob \<in> set obs'. settled ?cid ob"
    using fold_apply_write [OF _ lib(1) obs(2) _ cid] t by metis
  have "st_current st = current \<and> st_rebuilding st = None"
    using fold_state_fields(1) [of lib ws ?ts] t [symmetric] by simp
  with obs' decide_settled [OF obs'(2)] show ?thesis
    by (simp add: run_startup_def agrees_def space_state.equality)
qed

text \<open>Starting again during a rebuild.\<close>

lemma restart_after_rebuilding:
  assumes obs: "observe lib tables = Inr obs" "distinct (map obs_table obs)"
    and lib: "library_ok lib" "chunking \<noteq> []"
    and d: "decide lib obs current rdb2 = Some (StartRebuilding a)"
    and pin: "pin_rebuild_chunking obs a chunking = Inr ls"
    and t: "(tables', st) = fold (pin_table chunking) ls
      (tables, \<lparr>st_current = current, st_rebuilding = Some a, st_tables = records obs\<rparr>)"
  shows "run_startup lib tables' current chunking rdb' = Inr (tables', st)"
proof -
  let ?cid = "space_id lib current"
  let ?ts = "(tables, \<lparr>st_current = current, st_rebuilding = Some a, st_tables = records obs\<rparr>)"
  have "obs \<noteq> []" using d by (auto simp: decide_def)
  have "agrees lib obs ?ts" using obs(1) by (simp add: agrees_def)
  moreover have "\<forall>ob \<in> set obs. pending_for a ?cid ob
         \<and> (tr_rebuild_chunking (obs_record ob) = Some chunking \<or> obs_table ob \<in> set ls)"
  proof
    fix ob assume ob: "ob \<in> set obs"
    then have "tr_rebuild_chunking (obs_record ob) = Some chunking \<or> obs_table ob \<in> set ls"
      using pin by (cases "tr_rebuild_chunking (obs_record ob)")
        (auto simp: pin_rebuild_chunking_def list_ex_iff set_map_filter_iff split: if_splits)
    with decide_Rebuilding [OF d] ob show "pending_for a ?cid ob
         \<and> (tr_rebuild_chunking (obs_record ob) = Some chunking \<or> obs_table ob \<in> set ls)"
      by (simp add: pending_for_def)
  qed
  ultimately obtain obs' where obs': "agrees lib obs' (tables', st)" "length obs' = length obs"
    "\<forall>ob \<in> set obs'. pending_for a ?cid ob \<and> tr_rebuild_chunking (obs_record ob) = Some chunking"
    using fold_pin_table [OF _ lib(2) obs(2)] t by metis
  have "obs' \<noteq> []" using obs'(2) \<open>obs \<noteq> []\<close> by auto
  then have "decide lib obs' current rdb3 = Some (StartRebuilding a)" for rdb3
    using decide_pending obs'(3) by blast
  moreover have "pin_rebuild_chunking obs' a chunking = Inr []"
    using obs'(3) by (auto simp: pin_rebuild_chunking_def list_ex_iff set_map_filter_iff filter_empty_conv)
  moreover have "st_current st = current \<and> st_rebuilding st = Some a"
    using fold_state_fields(2) [of chunking ls ?ts] t [symmetric] by simp
  ultimately show ?thesis using obs'(1)
    by (simp add: run_startup_def agrees_def space_state.equality)
qed

text \<open>
  A successful startup is stable: starting again on what it wrote, with the same
  configuration and whatever the RDB holds by then, succeeds with the same state and writes
  nothing more, both for a normal start and for a pending rebuild.
\<close>

theorem restart_is_stable:
  assumes run: "run_startup lib tables current chunking rdb = Inr (tables', st)"
    and lib: "library_ok lib" "chunking \<noteq> []" "distinct (map vt_label tables)"
  shows "run_startup lib tables' current chunking rdb' = Inr (tables', st)"
proof -
  from run obtain obs where obs: "observe lib tables = Inr obs"
    by (auto simp: run_startup_def split: sum.splits)
  define rdb2 where "rdb2 = (if needs_rdb_target_check obs then rdb else False)"
  have dec: "(\<exists>ws. decide lib obs current rdb2 = Some (Start ws)
        \<and> (tables', st) = fold (apply_write lib) ws
             (tables, \<lparr>st_current = current, st_rebuilding = None, st_tables = records obs\<rparr>))
      \<or> (\<exists>a ls. decide lib obs current rdb2 = Some (StartRebuilding a)
        \<and> pin_rebuild_chunking obs a chunking = Inr ls
        \<and> (tables', st) = fold (pin_table chunking) ls
             (tables, \<lparr>st_current = current, st_rebuilding = Some a, st_tables = records obs\<rparr>))"
    using run unfolding run_startup_def obs sum.case Let_def rdb2_def [symmetric]
    by (auto split: option.splits startup_decision.splits sum.splits)
  have dist: "distinct (map obs_table obs)" using lib(3) observe_labels [OF obs] by simp
  from dec show ?thesis
    using restart_after_start [OF obs dist lib(1,2)] restart_after_rebuilding [OF obs dist lib(1,2)] by metis
qed

subsection \<open>Dispatch tokens\<close>

record dispatch_token =
  tk_space_id :: string
  tk_attempt_id :: string
  tk_source_version :: string
  tk_generation_id :: string

datatype rejection = RejectSpace | RejectAttempt | RejectSourceVersion | RejectDimension | RejectMissingToken

record write_context =
  wc_space :: string
  wc_dimension :: nat
  wc_rebuilding :: "string option"
  wc_legacy_accept :: bool

datatype accepted = Indexed dispatch_token | Legacy

text \<open>
  \<open>DispatchToken::issue\<close> in a process that serves a space; the generation id is a fresh
  identifier.
\<close>

definition issue_token :: "write_context \<Rightarrow> string \<Rightarrow> string \<Rightarrow> dispatch_token" where
  "issue_token ctx version generation =
     \<lparr>tk_space_id = wc_space ctx, tk_attempt_id = text_of (wc_rebuilding ctx),
      tk_source_version = version, tk_generation_id = generation\<rparr>"

definition check_write ::
  "write_context \<Rightarrow> dispatch_token option \<Rightarrow> string option \<Rightarrow> nat list \<Rightarrow> rejection + accepted" where
  "check_write ctx token current_version dims =
     (let dims_ok = list_all (\<lambda>d. d = wc_dimension ctx) dims
      in case token of
           None \<Rightarrow>
             if wc_legacy_accept ctx \<and> wc_rebuilding ctx = None \<and> dims_ok then Inr Legacy
             else if \<not> dims_ok \<and> wc_legacy_accept ctx \<and> wc_rebuilding ctx = None then Inl RejectDimension
             else Inl RejectMissingToken
         | Some t \<Rightarrow>
             if tk_space_id t \<noteq> wc_space ctx then Inl RejectSpace
             else if tk_attempt_id t \<noteq> text_of (wc_rebuilding ctx) then Inl RejectAttempt
             else if current_version \<noteq> Some (tk_source_version t) then Inl RejectSourceVersion
             else if \<not> dims_ok then Inl RejectDimension
             else Inr (Indexed t))"

text \<open>
  A result is written for its token exactly when nothing it was generated for has changed
  since the token was issued: the same space, the same rebuild attempt (or none), the same
  source version, and vectors of the configured dimension; without a token only a store that
  accepts legacy writes and is not rebuilding takes it.
\<close>

theorem check_write_exact:
  "(check_write ctx' (Some (issue_token ctx version g)) current dims = Inr (Indexed (issue_token ctx version g)))
     = (wc_space ctx' = wc_space ctx \<and> text_of (wc_rebuilding ctx') = text_of (wc_rebuilding ctx)
        \<and> current = Some version \<and> set dims \<subseteq> {wc_dimension ctx'})
   \<and> (\<exists>a. check_write ctx' (Some (issue_token ctx version g)) current dims \<in> {Inl a, Inr (Indexed (issue_token ctx version g))})
   \<and> (check_write ctx' None current dims = Inr Legacy)
     = (wc_legacy_accept ctx' \<and> wc_rebuilding ctx' = None \<and> set dims \<subseteq> {wc_dimension ctx'})"
  by (auto simp: check_write_def issue_token_def Let_def list_all_iff)

subsection \<open>Concrete starts\<close>

text \<open>
  A library for the witnesses: the component JSON writes each field with every character
  quoted and a terminator, and reads it back.
\<close>

definition quoted_field :: "string \<Rightarrow> string" where
  "quoted_field s = concat (map (\<lambda>c. [CHR ''q'', c]) s) @ [CHR '';'']"

fun quoted_fields :: "string \<Rightarrow> string \<Rightarrow> string list" where
  "quoted_fields acc [] = []"
| "quoted_fields acc (x # r) =
     (if x = CHR '';'' then acc # quoted_fields [] r
      else case r of [] \<Rightarrow> [] | y # r' \<Rightarrow> quoted_fields (acc @ [y]) r')"

definition quoting_library :: space_library where
  "quoting_library = \<lparr>lib_json_strings = concat, lib_sha256 = (\<lambda>s. CHR ''x'' # s),
     lib_components_json = (\<lambda>c. concat (map quoted_field
       [model_id c, tokenizer_model_id c, model_revision c, show_nat (space_dimension c), space_distance c])),
     lib_parse_components = (\<lambda>s. case quoted_fields [] s of
         [m, t, r, d, x] \<Rightarrow> map_option (\<lambda>n. \<lparr>model_id = m, tokenizer_model_id = t, model_revision = r,
           space_dimension = n, space_distance = x\<rparr>) (parse_unsigned d)
       | _ \<Rightarrow> None),
     lib_markers_json = (\<lambda>_. [])\<rparr>"

lemma quoted_fields_field [simp]:
  "quoted_fields acc (quoted_field s @ r) = (acc @ s) # quoted_fields [] r"
  by (induction s arbitrary: acc) (simp_all add: quoted_field_def)

lemma quoted_fields_last [simp]: "quoted_fields acc (quoted_field s) = [acc @ s]"
  using quoted_fields_field [of acc s "[]"] by simp

lemma quoting_library_ok: "library_ok quoting_library"
  by (simp add: library_ok_def quoting_library_def)

definition small_components :: space_components where
  "small_components = \<lparr>model_id = ''m'', tokenizer_model_id = [], model_revision = [],
     space_dimension = 3, space_distance = []\<rparr>"

definition fresh_table :: vector_table where
  "fresh_table = \<lparr>vt_label = ''memories'', vt_config = Map.empty, vt_row_models = []\<rparr>"

text \<open>Witness: a record over a config that holds a stale marker.\<close>

theorem table_record_round_trip_witness:
  "table_record_from_config quoting_library
     (write_rebuild_chunking (Some ''c'') (write_marker None
       (write_space_record quoting_library (new_space_record quoting_library small_components True)
         [key_marker \<mapsto> ''pending''])))
   = Inr \<lparr>tr_space = Some (new_space_record quoting_library small_components True),
       tr_marker = None, tr_rebuild_chunking = Some ''c''\<rparr>"
proof (rule table_record_round_trip [OF quoting_library_ok])
  have "length (space_id quoting_library small_components) \<noteq> 0"
    by (simp add: space_id_def quoting_library_def)
  then show "rec_space_id (new_space_record quoting_library small_components True) \<noteq> []"
    by (simp add: new_space_record_def)
qed simp

definition small_observation :: "string \<Rightarrow> space_record option \<Rightarrow> bool \<Rightarrow> table_observation" where
  "small_observation l r e = \<lparr>obs_table = l,
     obs_record = \<lparr>tr_space = r, tr_marker = None, tr_rebuild_chunking = None\<rparr>, obs_empty = e,
     obs_models = None\<rparr>"

text \<open>Witness: an empty table without a record beside a recorded table with rows.\<close>

theorem decide_never_mixes_spaces_witness:
  "let new = new_space_record quoting_library small_components False;
       a = small_observation ''a'' None True; b = small_observation ''b'' (Some new) False
   in decide quoting_library [a, b] small_components True = Some (Start [\<lparr>write_table = ''a'', write_space = new\<rparr>])
     \<and> tr_marker (obs_record a) = None
     \<and> (\<exists>w. w = \<lparr>write_table = ''a'', write_space = new\<rparr> \<and> write_table w = ''a''
          \<and> rec_space_id (write_space w) = space_id quoting_library small_components)"
proof -
  define new where "new = new_space_record quoting_library small_components False"
  define a where "a = small_observation ''a'' None True"
  define b where "b = small_observation ''b'' (Some new) False"
  have id: "rec_space_id new = space_id quoting_library small_components"
    by (simp add: new_def new_space_record_def)
  have d: "decide quoting_library [a, b] small_components True
      = Some (Start [\<lparr>write_table = ''a'', write_space = new\<rparr>])"
    by (simp add: decide_def Let_def markers_of_def first_with_def recorded_id_def mismatch_def
        a_def b_def small_observation_def List.map_filter_simps id)
      (simp add: new_def)
  from decide_never_mixes_spaces [where lib = quoting_library and tables = "[a, b]"
      and current = small_components and rdb = True]
  have "tr_marker (obs_record a) = None
     \<and> (recorded_id a = Some (space_id quoting_library small_components)
        \<or> rec_space_id new = space_id quoting_library small_components)"
    by (auto simp: d)
  then show ?thesis
    unfolding Let_def new_def [symmetric] a_def [symmetric] b_def [symmetric]
    by (simp add: d id)
qed

text \<open>Witness: the first start records the space; the second start changes nothing.\<close>

theorem restart_is_stable_witness:
  "\<exists>tables' st. run_startup quoting_library [fresh_table] small_components ''c'' False = Inr (tables', st)
     \<and> vt_config (hd tables') key_space_id = Some (space_id quoting_library small_components)
     \<and> run_startup quoting_library tables' small_components ''c'' True = Inr (tables', st)"
proof -
  obtain tables' st where run: "run_startup quoting_library [fresh_table] small_components ''c'' False
      = Inr (tables', st)"
    and conf: "vt_config (hd tables') key_space_id = Some (space_id quoting_library small_components)"
    by (simp add: run_startup_def fresh_table_def observe_table_def table_record_from_config_def
        non_empty_def Let_def needs_rdb_target_check_def decide_def markers_of_def first_with_def
        List.map_filter_simps recorded_id_def apply_write_def write_space_record_def
        space_entries_def new_space_record_def key_defs)
  have "run_startup quoting_library tables' small_components ''c'' True = Inr (tables', st)"
    by (rule restart_is_stable [OF run quoting_library_ok]) simp_all
  with run conf show ?thesis by blast
qed

end
