(* ===== verification/Group_Store.thy ===== *)
theory Group_Store
  imports Group_Domain
begin

text \<open>
  The tables \<open>thread_group\<close>, \<open>thread_group_member\<close> and \<open>thread_relation\<close>
  (\<open>infra/src/infra/thread_group/rows.rs\<close>) and the statements of their repositories
  (\<open>group.rs\<close>, \<open>member.rs\<close>, \<open>relation.rs\<close>), with the CHECK constraints and unique indexes of
  \<open>infra/sql/sqlite/005_thread_group_schema.sql\<close>. A table is the list of its rows; a column
  that a CHECK restricts to a few tokens is a datatype. A statement that violates a
  constraint is an error, after which the transaction is rolled back: the state of a failed
  operation is discarded. Faults of the database are not modelled. A transaction reads the
  server clock once.
\<close>

subsection \<open>Rows\<close>

record group_row =
  g_id :: int
  g_user :: int
  g_key :: string
  g_title :: "string option"
  g_status :: group_status
  g_authority :: membership_provenance
  g_redirect :: "int option"
  g_created :: int
  g_updated :: int

record member_row =
  mb_group :: int
  mb_thread :: "int option"
  mb_key :: string
  mb_user :: int
  mb_source :: "string option"
  mb_scope :: "string option"
  mb_native :: "string option"
  mb_role :: membership_role
  mb_state :: membership_state
  mb_provenance :: membership_provenance
  mb_deleted_at :: "int option"
  mb_created :: int
  mb_updated :: int

datatype relation_state = RelationActive | RelationRetracted | RelationSuperseded

datatype selection_basis = SourceExact | SourceStrong | BasisOperator

record relation_row =
  rl_id :: int
  rl_parent_thread :: "int option"
  rl_child_thread :: "int option"
  rl_parent_key :: string
  rl_child_key :: string
  rl_parent_user :: int
  rl_parent_source :: "string option"
  rl_parent_scope :: "string option"
  rl_parent_native :: "string option"
  rl_child_user :: int
  rl_child_source :: "string option"
  rl_child_scope :: "string option"
  rl_child_native :: "string option"
  rl_type :: relation_type
  rl_state :: relation_state
  rl_basis :: selection_basis
  rl_confidence :: "source_confidence option"
  rl_observation :: "int option"
  rl_decision :: "int option"
  rl_created :: int
  rl_updated :: int

text \<open>The tables, and how many ids have been drawn from the generator.\<close>

record group_db =
  db_drawn :: nat
  db_groups :: "group_row list"
  db_members :: "member_row list"
  db_relations :: "relation_row list"

text \<open>
  What the operations take from outside: the id generator, the server clock, and the
  normalization and digest of the canonical keys.
\<close>

record group_env =
  env_id :: "nat \<Rightarrow> int"
  env_clock :: int
  env_nfc :: "string \<Rightarrow> string"
  env_sha :: "string \<Rightarrow> string"

datatype store_error = Violates string | Bail string

definition fill_updated_at :: "group_env \<Rightarrow> int \<Rightarrow> int" where
  "fill_updated_at env t = (if t = 0 then env_clock env else t)"

text \<open>A source identity in a row is complete or absent.\<close>

definition triple_ok :: "'a option \<Rightarrow> 'b option \<Rightarrow> 'c option \<Rightarrow> bool" where
  "triple_ok a b c \<longleftrightarrow> a = None \<and> b = None \<and> c = None \<or> a \<noteq> None \<and> b \<noteq> None \<and> c \<noteq> None"

subsection \<open>Groups\<close>

definition group_check :: "group_row \<Rightarrow> bool" where
  "group_check g \<longleftrightarrow> (g_status g = GroupRedirected) = (g_redirect g \<noteq> None) \<and> g_redirect g \<noteq> Some (g_id g)"

text \<open>\<open>create_tx\<close>: the argument's id is ignored.\<close>

definition create_group ::
  "group_env \<Rightarrow> group_row \<Rightarrow> 'a group_db_scheme \<Rightarrow> store_error + int \<times> 'a group_db_scheme" where
  "create_group env new db =
     (let i = env_id env (db_drawn db);
          row = new\<lparr>g_id := i, g_created := fill_updated_at env (g_created new),
                   g_updated := fill_updated_at env (g_updated new)\<rparr>
      in if \<not> group_check row then Inl (Violates ''thread_group'')
         else if list_ex (\<lambda>g. g_id g = i) (db_groups db) then Inl (Violates ''thread_group.id'')
         else if g_status row = GroupActive
                 \<and> list_ex (\<lambda>g. g_key g = g_key row \<and> g_status g = GroupActive) (db_groups db)
         then Inl (Violates ''thread_group_active_canonical_key'')
         else Inr (i, db\<lparr>db_drawn := db_drawn db + 1, db_groups := db_groups db @ [row]\<rparr>))"

definition find_group :: "int \<Rightarrow> 'a group_db_scheme \<Rightarrow> group_row option" where
  "find_group i db = find (\<lambda>g. g_id g = i) (db_groups db)"

definition find_active_group :: "string \<Rightarrow> 'a group_db_scheme \<Rightarrow> group_row option" where
  "find_active_group key db = find (\<lambda>g. g_key g = key \<and> g_status g = GroupActive) (db_groups db)"

definition list_redirecting_to :: "int \<Rightarrow> 'a group_db_scheme \<Rightarrow> group_row list" where
  "list_redirecting_to target db =
     sort_key g_id (filter (\<lambda>g. g_status g = GroupRedirected \<and> g_redirect g = Some target) (db_groups db))"

text \<open>An UPDATE of the group rows that satisfy a condition: whether there was one.\<close>

definition update_groups ::
  "(group_row \<Rightarrow> bool) \<Rightarrow> (group_row \<Rightarrow> group_row) \<Rightarrow> 'a group_db_scheme
    \<Rightarrow> store_error + bool \<times> 'a group_db_scheme" where
  "update_groups p f db =
     (let rows = map (\<lambda>g. if p g then f g else g) (db_groups db)
      in if list_ex (\<lambda>g. p g \<and> \<not> group_check (f g)) (db_groups db) then Inl (Violates ''thread_group'')
         else Inr (list_ex p (db_groups db), db\<lparr>db_groups := rows\<rparr>))"

definition redirect_group ::
  "group_env \<Rightarrow> int \<Rightarrow> int \<Rightarrow> int \<Rightarrow> 'a group_db_scheme \<Rightarrow> store_error + bool \<times> 'a group_db_scheme" where
  "redirect_group env i target now = update_groups (\<lambda>g. g_id g = i \<and> g_status g = GroupActive)
     (\<lambda>g. g\<lparr>g_status := GroupRedirected, g_redirect := Some target, g_updated := fill_updated_at env now\<rparr>)"

definition repoint_redirect ::
  "group_env \<Rightarrow> int \<Rightarrow> int \<Rightarrow> int \<Rightarrow> 'a group_db_scheme \<Rightarrow> store_error + bool \<times> 'a group_db_scheme" where
  "repoint_redirect env i target now = update_groups (\<lambda>g. g_id g = i \<and> g_status g = GroupRedirected)
     (\<lambda>g. g\<lparr>g_redirect := Some target, g_updated := fill_updated_at env now\<rparr>)"

definition repoint_redirect_from ::
  "group_env \<Rightarrow> int \<Rightarrow> int \<Rightarrow> int \<Rightarrow> int \<Rightarrow> 'a group_db_scheme \<Rightarrow> store_error + bool \<times> 'a group_db_scheme" where
  "repoint_redirect_from env i expected target now =
     update_groups (\<lambda>g. g_id g = i \<and> g_status g = GroupRedirected \<and> g_redirect g = Some expected)
       (\<lambda>g. g\<lparr>g_redirect := Some target, g_updated := fill_updated_at env now\<rparr>)"

definition set_grouping_authority ::
  "group_env \<Rightarrow> int \<Rightarrow> membership_provenance \<Rightarrow> int \<Rightarrow> 'a group_db_scheme
    \<Rightarrow> store_error + bool \<times> 'a group_db_scheme" where
  "set_grouping_authority env i authority now = update_groups (\<lambda>g. g_id g = i)
     (\<lambda>g. g\<lparr>g_authority := authority, g_updated := fill_updated_at env now\<rparr>)"

definition mark_split ::
  "group_env \<Rightarrow> int \<Rightarrow> int \<Rightarrow> 'a group_db_scheme \<Rightarrow> store_error + bool \<times> 'a group_db_scheme" where
  "mark_split env i now = update_groups (\<lambda>g. g_id g = i \<and> g_status g = GroupActive)
     (\<lambda>g. g\<lparr>g_status := GroupSplit, g_updated := fill_updated_at env now\<rparr>)"

definition delete_group :: "int \<Rightarrow> 'a group_db_scheme \<Rightarrow> bool \<times> 'a group_db_scheme" where
  "delete_group i db = (list_ex (\<lambda>g. g_id g = i) (db_groups db),
     db\<lparr>db_groups := filter (\<lambda>g. g_id g \<noteq> i) (db_groups db)\<rparr>)"

subsection \<open>Members\<close>

definition is_current :: "member_row \<Rightarrow> bool" where
  "is_current m \<longleftrightarrow> mb_state m = MemberActive \<or> mb_state m = MemberDeleted"

definition member_check :: "member_row \<Rightarrow> bool" where
  "member_check m \<longleftrightarrow>
     (case mb_state m of
        MemberDeleted \<Rightarrow> mb_thread m = None \<and> mb_deleted_at m \<noteq> None
      | MemberActive \<Rightarrow> mb_thread m \<noteq> None
      | MemberRedirected \<Rightarrow> True)
     \<and> triple_ok (mb_source m) (mb_scope m) (mb_native m)"

definition insert_member ::
  "group_env \<Rightarrow> member_row \<Rightarrow> 'a group_db_scheme \<Rightarrow> store_error + 'a group_db_scheme" where
  "insert_member env new db =
     (let row = new\<lparr>mb_created := fill_updated_at env (mb_created new),
                   mb_updated := fill_updated_at env (mb_updated new)\<rparr>
      in if \<not> member_check row then Inl (Violates ''thread_group_member'')
         else if is_current row \<and> list_ex (\<lambda>m. mb_key m = mb_key row \<and> is_current m) (db_members db)
         then Inl (Violates ''thread_group_member_current_canonical_key'')
         else Inr (db\<lparr>db_members := db_members db @ [row]\<rparr>))"

definition find_current :: "string \<Rightarrow> 'a group_db_scheme \<Rightarrow> member_row option" where
  "find_current key db = find (\<lambda>m. mb_key m = key \<and> is_current m) (db_members db)"

definition list_current :: "int \<Rightarrow> 'a group_db_scheme \<Rightarrow> member_row list" where
  "list_current i db = sort_key mb_key (filter (\<lambda>m. mb_group m = i \<and> is_current m) (db_members db))"

definition count_current :: "int \<Rightarrow> 'a group_db_scheme \<Rightarrow> nat" where
  "count_current i db = length (filter (\<lambda>m. mb_group m = i \<and> is_current m) (db_members db))"

definition redirect_current ::
  "group_env \<Rightarrow> string \<Rightarrow> int \<Rightarrow> int \<Rightarrow> 'a group_db_scheme \<Rightarrow> bool \<times> 'a group_db_scheme" where
  "redirect_current env key i now db =
     (let hit = (\<lambda>m. mb_key m = key \<and> mb_group m = i \<and> is_current m)
      in (list_ex hit (db_members db),
          db\<lparr>db_members := map (\<lambda>m. if hit m
               then m\<lparr>mb_state := MemberRedirected, mb_updated := fill_updated_at env now\<rparr> else m)
             (db_members db)\<rparr>))"

definition set_role_provenance ::
  "group_env \<Rightarrow> string \<Rightarrow> membership_role \<Rightarrow> membership_provenance \<Rightarrow> int \<Rightarrow> 'a group_db_scheme
    \<Rightarrow> bool \<times> 'a group_db_scheme" where
  "set_role_provenance env key r p now db =
     (let hit = (\<lambda>m. mb_key m = key \<and> is_current m)
      in (list_ex hit (db_members db),
          db\<lparr>db_members := map (\<lambda>m. if hit m
               then m\<lparr>mb_role := r, mb_provenance := p, mb_updated := fill_updated_at env now\<rparr> else m)
             (db_members db)\<rparr>))"

subsection \<open>Relations\<close>

definition relation_check :: "relation_row \<Rightarrow> bool" where
  "relation_check r \<longleftrightarrow>
     rl_parent_key r \<noteq> rl_child_key r
     \<and> rl_confidence r \<in> {None, Some Exact, Some Strong}
     \<and> (rl_basis r = BasisOperator) = (rl_confidence r = None)
     \<and> (if rl_basis r = BasisOperator then rl_decision r \<noteq> None \<and> rl_observation r = None
        else rl_observation r \<noteq> None \<and> rl_decision r = None)
     \<and> triple_ok (rl_parent_source r) (rl_parent_scope r) (rl_parent_native r)
     \<and> triple_ok (rl_child_source r) (rl_child_scope r) (rl_child_native r)"

definition insert_relation ::
  "group_env \<Rightarrow> relation_row \<Rightarrow> 'a group_db_scheme \<Rightarrow> store_error + int \<times> 'a group_db_scheme" where
  "insert_relation env new db =
     (let i = env_id env (db_drawn db);
          row = new\<lparr>rl_id := i, rl_created := fill_updated_at env (rl_created new),
                   rl_updated := fill_updated_at env (rl_updated new)\<rparr>
      in if \<not> relation_check row then Inl (Violates ''thread_relation'')
         else if list_ex (\<lambda>r. rl_id r = i) (db_relations db) then Inl (Violates ''thread_relation.id'')
         else if rl_state row = RelationActive
                 \<and> list_ex (\<lambda>r. rl_child_key r = rl_child_key row \<and> rl_state r = RelationActive) (db_relations db)
         then Inl (Violates ''thread_relation_active_child_canonical_key'')
         else Inr (i, db\<lparr>db_drawn := db_drawn db + 1, db_relations := db_relations db @ [row]\<rparr>))"

definition find_active_parent :: "string \<Rightarrow> 'a group_db_scheme \<Rightarrow> relation_row option" where
  "find_active_parent key db =
     find (\<lambda>r. rl_child_key r = key \<and> rl_state r = RelationActive) (db_relations db)"

definition list_active_children :: "string \<Rightarrow> 'a group_db_scheme \<Rightarrow> relation_row list" where
  "list_active_children key db =
     sort_key rl_id (filter (\<lambda>r. rl_parent_key r = key \<and> rl_state r = RelationActive) (db_relations db))"

text \<open>\<open>set_state_tx\<close>; no caller sets the state to active.\<close>

definition set_relation_state ::
  "group_env \<Rightarrow> int \<Rightarrow> relation_state \<Rightarrow> relation_state \<Rightarrow> int \<Rightarrow> 'a group_db_scheme
    \<Rightarrow> bool \<times> 'a group_db_scheme" where
  "set_relation_state env i expected new now db =
     (let hit = (\<lambda>r. rl_id r = i \<and> rl_state r = expected)
      in (list_ex hit (db_relations db),
          db\<lparr>db_relations := map (\<lambda>r. if hit r
               then r\<lparr>rl_state := new, rl_updated := fill_updated_at env now\<rparr> else r)
             (db_relations db)\<rparr>))"

subsection \<open>What the constraints guarantee\<close>

definition tables_ok :: "'a group_db_scheme \<Rightarrow> bool" where
  "tables_ok db \<longleftrightarrow>
     distinct (map g_id (db_groups db))
     \<and> distinct (map g_key (filter (\<lambda>g. g_status g = GroupActive) (db_groups db)))
     \<and> list_all group_check (db_groups db)
     \<and> distinct (map mb_key (filter is_current (db_members db)))
     \<and> list_all member_check (db_members db)
     \<and> distinct (map rl_id (db_relations db))
     \<and> distinct (map rl_child_key (filter (\<lambda>r. rl_state r = RelationActive) (db_relations db)))
     \<and> list_all relation_check (db_relations db)"

lemma find_unique:
  "distinct (map f (filter P xs)) \<Longrightarrow>
   find (\<lambda>x. f x = k \<and> P x) xs = Some x \<longleftrightarrow> x \<in> set xs \<and> f x = k \<and> P x"
proof (induction xs)
  case (Cons a xs)
  show ?case
  proof (cases "f a = k \<and> P a")
    case True
    then have "f y \<noteq> k" if "y \<in> set xs" "P y" for y
      using Cons.prems that by (auto simp: image_iff)
    with True show ?thesis by auto
  next
    case False
    with Cons show ?thesis by (auto split: if_splits)
  qed
qed simp

lemma find_map_keep:
  "(\<And>x. x \<in> set xs \<Longrightarrow> p (f x) \<longleftrightarrow> p x) \<Longrightarrow> find p (map f xs) = map_option f (find p xs)"
  by (induction xs) auto

lemma find_current_Some:
  "tables_ok db \<Longrightarrow>
   find_current key db = Some m \<longleftrightarrow> m \<in> set (db_members db) \<and> mb_key m = key \<and> is_current m"
  unfolding find_current_def tables_ok_def by (intro find_unique) simp

lemma find_active_parent_Some:
  "tables_ok db \<Longrightarrow> find_active_parent key db = Some r \<longleftrightarrow>
     r \<in> set (db_relations db) \<and> rl_child_key r = key \<and> rl_state r = RelationActive"
  unfolding find_active_parent_def tables_ok_def by (intro find_unique) simp

lemma find_active_group_Some:
  "tables_ok db \<Longrightarrow> find_active_group key db = Some g \<longleftrightarrow>
     g \<in> set (db_groups db) \<and> g_key g = key \<and> g_status g = GroupActive"
  unfolding find_active_group_def tables_ok_def by (intro find_unique) simp

lemma find_group_Some:
  "tables_ok db \<Longrightarrow> find_group i db = Some g \<longleftrightarrow> g \<in> set (db_groups db) \<and> g_id g = i"
  using find_unique [of g_id "\<lambda>_. True" "db_groups db" i g]
  by (simp add: find_group_def tables_ok_def)

lemma find_current_None:
  "find_current key db = None \<longleftrightarrow> (\<forall>m \<in> set (db_members db). is_current m \<longrightarrow> mb_key m \<noteq> key)"
  by (auto simp: find_current_def find_None_iff)

subsection \<open>The member table as a store of current memberships\<close>

text \<open>
  A table that holds at most one current row per key: what a lookup returns after a row was
  added and after the current row of a key was demoted.
\<close>

locale current_table =
  fixes ok :: "'t \<Rightarrow> bool"
    and look :: "'k \<Rightarrow> 't \<Rightarrow> 'r option"
    and add :: "'r \<Rightarrow> 't \<Rightarrow> 'e + 't"
    and demote :: "'k \<Rightarrow> 'g \<Rightarrow> 't \<Rightarrow> bool \<times> 't"
    and key_of :: "'r \<Rightarrow> 'k"
    and place_of :: "'r \<Rightarrow> 'g"
    and current :: "'r \<Rightarrow> bool"
    and stored :: "'r \<Rightarrow> 'r"
  assumes add_ok: "ok t \<Longrightarrow> add r t = Inr t' \<Longrightarrow> ok t'"
    and look_add: "add r t = Inr t' \<Longrightarrow>
      look k t' = (if current r \<and> k = key_of r then Some (stored r) else look k t)"
    and demote_ok: "ok t \<Longrightarrow> ok (snd (demote k g t))"
    and look_demote: "ok t \<Longrightarrow>
      look k' (snd (demote k g t)) =
        (if k' = k \<and> map_option place_of (look k t) = Some g then None else look k' t)"
    and demote_hit: "ok t \<Longrightarrow> fst (demote k g t) \<longleftrightarrow> map_option place_of (look k t) = Some g"
begin

text \<open>Moving a row: the key's current row is the new one, all other keys are untouched.\<close>

lemma move:
  assumes "ok t" "demote (key_of r) g t = (hit, t1)" "add r t1 = Inr t2" "current r"
  shows "ok t2 \<and> look (key_of r) t2 = Some (stored r)
    \<and> (\<forall>k. k \<noteq> key_of r \<longrightarrow> look k t2 = look k t)"
  using demote_ok [OF assms(1), of "key_of r" g] look_demote [OF assms(1), of _ "key_of r" g]
    add_ok [of t1 r t2] look_add [OF assms(3)] assms(2-4)
  by auto

end

lemma tables_ok_members:
  assumes "tables_ok db" "distinct (map mb_key (filter is_current ms))" "list_all member_check ms"
  shows "tables_ok (db\<lparr>db_members := ms\<rparr>)"
  using assms by (simp add: tables_ok_def)

text \<open>The row as \<open>insert_member\<close> stores it.\<close>

definition member_stored :: "group_env \<Rightarrow> member_row \<Rightarrow> member_row" where
  "member_stored env new = new\<lparr>mb_created := fill_updated_at env (mb_created new),
     mb_updated := fill_updated_at env (mb_updated new)\<rparr>"

lemma member_stored_simps [simp]:
  "mb_key (member_stored env new) = mb_key new" "mb_group (member_stored env new) = mb_group new"
  "mb_state (member_stored env new) = mb_state new" "mb_provenance (member_stored env new) = mb_provenance new"
  "mb_thread (member_stored env new) = mb_thread new" "mb_role (member_stored env new) = mb_role new"
  "is_current (member_stored env new) = is_current new" "member_check (member_stored env new) = member_check new"
  by (simp_all add: member_stored_def is_current_def member_check_def split: membership_state.split)

lemma find_append_if:
  "find p (xs @ ys) = (if list_ex p xs then find p xs else find p ys)"
  by (induction xs) auto

lemma insert_member_Inr:
  "insert_member env new db = Inr db' \<longleftrightarrow>
     member_check new \<and> (is_current new \<longrightarrow> find_current (mb_key new) db = None)
     \<and> db' = db\<lparr>db_members := db_members db @ [member_stored env new]\<rparr>"
proof -
  have "insert_member env new db =
    (if \<not> member_check (member_stored env new) then Inl (Violates ''thread_group_member'')
     else if is_current (member_stored env new)
       \<and> list_ex (\<lambda>m. mb_key m = mb_key (member_stored env new) \<and> is_current m) (db_members db)
     then Inl (Violates ''thread_group_member_current_canonical_key'')
     else Inr (db\<lparr>db_members := db_members db @ [member_stored env new]\<rparr>))"
    by (simp only: insert_member_def Let_def member_stored_def)
  also have "list_ex (\<lambda>m. mb_key m = mb_key (member_stored env new) \<and> is_current m) (db_members db)
      \<longleftrightarrow> find_current (mb_key new) db \<noteq> None"
    by (auto simp: list_ex_iff find_current_None)
  finally show ?thesis by auto
qed

lemma insert_member_ok:
  assumes "tables_ok db" "insert_member env new db = Inr db'"
  shows "tables_ok db'"
proof -
  from assms(2) have new: "member_check new" "is_current new \<longrightarrow> find_current (mb_key new) db = None"
    "db' = db\<lparr>db_members := db_members db @ [member_stored env new]\<rparr>"
    by (auto simp: insert_member_Inr)
  then have "distinct (map mb_key (filter is_current (db_members db @ [member_stored env new])))"
    using assms(1) by (auto simp: tables_ok_def find_current_None)
  moreover have "list_all member_check (db_members db @ [member_stored env new])"
    using assms(1) new(1) by (simp add: tables_ok_def)
  ultimately show ?thesis using assms(1) new(3) tables_ok_members by blast
qed

lemma find_current_insert:
  assumes "insert_member env new db = Inr db'"
  shows "find_current k db' =
    (if is_current new \<and> k = mb_key new then Some (member_stored env new) else find_current k db)"
proof -
  from assms have new: "is_current new \<longrightarrow> find_current (mb_key new) db = None"
    "db_members db' = db_members db @ [member_stored env new]"
    by (auto simp: insert_member_Inr)
  have "find_current k db = None" if "\<not> list_ex (\<lambda>m. mb_key m = k \<and> is_current m) (db_members db)"
    using that by (auto simp: find_current_None list_ex_iff)
  moreover have "k \<noteq> mb_key new \<or> \<not> is_current new"
    if "list_ex (\<lambda>m. mb_key m = k \<and> is_current m) (db_members db)"
    using that new(1) by (auto simp: find_current_None list_ex_iff)
  ultimately show ?thesis
    by (auto simp: find_current_def new(2) find_append_if)
qed

definition demoted :: "group_env \<Rightarrow> int \<Rightarrow> member_row \<Rightarrow> member_row" where
  "demoted env now m = m\<lparr>mb_state := MemberRedirected, mb_updated := fill_updated_at env now\<rparr>"

lemma demoted_simps [simp]:
  "mb_key (demoted env now m) = mb_key m" "mb_group (demoted env now m) = mb_group m"
  "\<not> is_current (demoted env now m)" "member_check m \<Longrightarrow> member_check (demoted env now m)"
  by (simp_all add: demoted_def is_current_def member_check_def)

lemma redirect_current_eq:
  "redirect_current env key i now db =
    (list_ex (\<lambda>m. mb_key m = key \<and> mb_group m = i \<and> is_current m) (db_members db),
     db\<lparr>db_members := map (\<lambda>m. if mb_key m = key \<and> mb_group m = i \<and> is_current m
        then demoted env now m else m) (db_members db)\<rparr>)"
  by (simp only: redirect_current_def demoted_def Let_def)

lemma redirect_current_ok:
  assumes "tables_ok db" shows "tables_ok (snd (redirect_current env key i now db))"
proof -
  let ?f = "\<lambda>m. if mb_key m = key \<and> mb_group m = i \<and> is_current m then demoted env now m else m"
  have "distinct (map mb_key (filter is_current (map ?f ms)))"
    if "distinct (map mb_key (filter is_current ms))" for ms
    using that by (induction ms) (auto simp: image_iff)
  moreover have "list_all member_check (map ?f (db_members db))"
    using assms by (auto simp: tables_ok_def list_all_iff)
  ultimately show ?thesis
    using assms by (simp add: redirect_current_eq tables_ok_def)
qed

lemma redirect_current_hit:
  assumes "tables_ok db"
  shows "fst (redirect_current env key i now db) \<longleftrightarrow> map_option mb_group (find_current key db) = Some i"
  using find_current_Some [OF assms, of key] by (auto simp: redirect_current_eq list_ex_iff)

lemma find_current_redirect:
  assumes "tables_ok db"
  shows "find_current k (snd (redirect_current env key i now db)) =
    (if k = key \<and> map_option mb_group (find_current key db) = Some i then None else find_current k db)"
proof -
  let ?db = "snd (redirect_current env key i now db)"
  let ?rhs = "if k = key \<and> map_option mb_group (find_current key db) = Some i then None else find_current k db"
  have "find_current k ?db = Some m \<longleftrightarrow> ?rhs = Some m" for m
  proof -
    have "find_current k ?db = Some m \<longleftrightarrow> m \<in> set (db_members ?db) \<and> mb_key m = k \<and> is_current m"
      by (rule find_current_Some [OF redirect_current_ok [OF assms]])
    also have "\<dots> \<longleftrightarrow> find_current k db = Some m \<and> \<not> (k = key \<and> mb_group m = i)"
      by (auto simp: find_current_Some [OF assms] redirect_current_eq image_iff)
    also have "\<dots> \<longleftrightarrow> ?rhs = Some m" by auto
    finally show ?thesis .
  qed
  then show ?thesis by (metis option.exhaust)
qed

interpretation member_table: current_table tables_ok find_current "insert_member env"
  "\<lambda>key i. redirect_current env key i now" mb_key mb_group is_current "member_stored env"
  by unfold_locales
    (simp_all add: insert_member_ok find_current_insert redirect_current_ok redirect_current_hit
      find_current_redirect)

lemma redirect_current_frame [simp]:
  "db_groups (snd (redirect_current env key i now db)) = db_groups db"
  "db_relations (snd (redirect_current env key i now db)) = db_relations db"
  by (simp_all add: redirect_current_eq)

lemma insert_member_frame:
  "insert_member env new db = Inr db' \<Longrightarrow> db_groups db' = db_groups db \<and> db_relations db' = db_relations db"
  by (auto simp: insert_member_Inr)

subsection \<open>Updates of the group table\<close>

lemma update_groups_Inr:
  "update_groups p f db = Inr (b, db') \<longleftrightarrow>
     (\<forall>g \<in> set (db_groups db). p g \<longrightarrow> group_check (f g)) \<and> b = list_ex p (db_groups db)
     \<and> db' = db\<lparr>db_groups := map (\<lambda>g. if p g then f g else g) (db_groups db)\<rparr>"
  by (auto simp: update_groups_def list_ex_iff)

text \<open>A change of a row that keeps its id and key and does not make the group active.\<close>

definition keeps_identity :: "(group_row \<Rightarrow> group_row) \<Rightarrow> bool" where
  "keeps_identity f \<longleftrightarrow> (\<forall>g. g_id (f g) = g_id g \<and> g_key (f g) = g_key g
     \<and> (g_status (f g) = GroupActive \<longrightarrow> g_status g = GroupActive))"

lemma keeps_identityD [simp]: "keeps_identity f \<Longrightarrow> g_id (f g) = g_id g"
  by (simp add: keeps_identity_def)

lemma map_groups_ok:
  assumes "tables_ok db" "keeps_identity f" "\<And>g. g \<in> set (db_groups db) \<Longrightarrow> group_check (f g)"
  shows "tables_ok (db\<lparr>db_groups := map f (db_groups db)\<rparr>)"
proof -
  have "distinct (map g_key (filter (\<lambda>g. g_status g = GroupActive) (map f gs)))"
    if "distinct (map g_key (filter (\<lambda>g. g_status g = GroupActive) gs))" for gs
    using that
  proof (induction gs)
    case (Cons a gs)
    have f: "g_key (f g) = g_key g" "g_status (f g) = GroupActive \<Longrightarrow> g_status g = GroupActive" for g
      using assms(2) by (simp_all add: keeps_identity_def)
    have "g_key x \<noteq> g_key a" if "g_status a = GroupActive" "x \<in> set gs" "g_status x = GroupActive" for x
      using Cons.prems that by (auto simp: image_iff)
    then have "g_key (f a) \<notin> g_key ` set (filter (\<lambda>g. g_status g = GroupActive) (map f gs))"
      if "g_status (f a) = GroupActive"
      using that by (force simp: f dest!: f(2))
    with Cons show ?case by (cases "g_status a = GroupActive") (auto dest: f(2))
  qed simp
  moreover have "map g_id (map f (db_groups db)) = map g_id (db_groups db)"
    using assms(2) by (simp add: keeps_identity_def)
  ultimately show ?thesis
    using assms by (simp add: tables_ok_def list_all_iff del: map_map)
qed

lemma find_group_map:
  "keeps_identity f \<Longrightarrow>
   find_group i (db\<lparr>db_groups := map f (db_groups db)\<rparr>) = map_option f (find_group i db)"
  by (simp add: find_group_def find_map_keep)

lemma update_groups_ok:
  assumes "tables_ok db" "update_groups p f db = Inr (b, db')"
    "keeps_identity (\<lambda>g. if p g then f g else g)"
  shows "tables_ok db'"
proof -
  have "group_check (if p g then f g else g)" if "g \<in> set (db_groups db)" for g
    using that assms(1,2) by (simp add: update_groups_Inr tables_ok_def list_all_iff)
  from map_groups_ok [OF assms(1,3) this] assms(2) show ?thesis
    by (simp add: update_groups_Inr)
qed

lemma find_group_update:
  assumes "update_groups p f db = Inr (b, db')" "keeps_identity (\<lambda>g. if p g then f g else g)"
  shows "find_group i db' = map_option (\<lambda>g. if p g then f g else g) (find_group i db)"
  using find_group_map [OF assms(2), of i db] assms(1) by (simp add: update_groups_Inr)

lemma find_in_groups: "find_group i db = Some g \<Longrightarrow> g \<in> set (db_groups db) \<and> g_id g = i"
  by (auto simp: find_group_def find_Some_iff)

lemma group_check_found:
  "tables_ok db \<Longrightarrow> find_group i db = Some g \<Longrightarrow> group_check g"
  by (auto simp: tables_ok_def list_all_iff dest: find_in_groups)

lemma find_group_members [simp]: "find_group i (db\<lparr>db_members := ms\<rparr>) = find_group i db"
  by (simp add: find_group_def)

lemma find_current_groups [simp]: "find_current k (db\<lparr>db_groups := gs\<rparr>) = find_current k db"
  by (simp add: find_current_def)

lemma count_current_groups [simp]: "count_current i (db\<lparr>db_groups := gs\<rparr>) = count_current i db"
  by (simp add: count_current_def)

lemma find_group_redirect_current [simp]:
  "find_group i (snd (redirect_current env key j now db)) = find_group i db"
  by (simp add: find_group_def)

lemma find_group_insert_member:
  "insert_member env new db = Inr db' \<Longrightarrow> find_group i db' = find_group i db"
  by (simp add: find_group_def insert_member_frame)

subsection \<open>A new group\<close>

definition group_created :: "group_env \<Rightarrow> nat \<Rightarrow> group_row \<Rightarrow> group_row" where
  "group_created env n new = new\<lparr>g_id := env_id env n, g_created := fill_updated_at env (g_created new),
     g_updated := fill_updated_at env (g_updated new)\<rparr>"

lemma group_created_simps [simp]:
  "g_id (group_created env n new) = env_id env n" "g_user (group_created env n new) = g_user new"
  "g_key (group_created env n new) = g_key new" "g_title (group_created env n new) = g_title new"
  "g_status (group_created env n new) = g_status new"
  "g_authority (group_created env n new) = g_authority new"
  "g_redirect (group_created env n new) = g_redirect new"
  by (simp_all add: group_created_def)

lemma create_group_Inr:
  "create_group env new db = Inr (i, db') \<longleftrightarrow>
     group_check (group_created env (db_drawn db) new) \<and> i = env_id env (db_drawn db)
     \<and> (\<forall>g \<in> set (db_groups db). g_id g \<noteq> i)
     \<and> (g_status new = GroupActive \<longrightarrow> find_active_group (g_key new) db = None)
     \<and> db' = db\<lparr>db_drawn := db_drawn db + 1,
          db_groups := db_groups db @ [group_created env (db_drawn db) new]\<rparr>"
proof -
  have "create_group env new db =
    (if \<not> group_check (group_created env (db_drawn db) new) then Inl (Violates ''thread_group'')
     else if list_ex (\<lambda>g. g_id g = env_id env (db_drawn db)) (db_groups db)
     then Inl (Violates ''thread_group.id'')
     else if g_status new = GroupActive
       \<and> list_ex (\<lambda>g. g_key g = g_key new \<and> g_status g = GroupActive) (db_groups db)
     then Inl (Violates ''thread_group_active_canonical_key'')
     else Inr (env_id env (db_drawn db), db\<lparr>db_drawn := db_drawn db + 1,
       db_groups := db_groups db @ [group_created env (db_drawn db) new]\<rparr>))"
    by (simp add: create_group_def Let_def group_created_def)
  then show ?thesis
    by (auto simp: list_ex_iff find_active_group_def find_None_iff)
qed

lemma create_group_ok:
  assumes "tables_ok db" "create_group env new db = Inr (i, db')"
  shows "tables_ok db'"
proof -
  from assms(2) have new: "group_check (group_created env (db_drawn db) new)"
    "env_id env (db_drawn db) \<notin> g_id ` set (db_groups db)"
    "g_status new = GroupActive \<longrightarrow> find_active_group (g_key new) db = None"
    "db' = db\<lparr>db_drawn := db_drawn db + 1,
          db_groups := db_groups db @ [group_created env (db_drawn db) new]\<rparr>"
    by (auto simp: create_group_Inr)
  then show ?thesis using assms(1)
    by (auto simp: tables_ok_def find_active_group_def find_None_iff image_iff)
qed

lemma find_group_create:
  assumes "create_group env new db = Inr (i, db')"
  shows "find_group j db' = (if j = i then Some (group_created env (db_drawn db) new) else find_group j db)"
proof -
  from assms have "\<forall>g \<in> set (db_groups db). g_id g \<noteq> i" "i = env_id env (db_drawn db)"
    "db_groups db' = db_groups db @ [group_created env (db_drawn db) new]"
    by (auto simp: create_group_Inr)
  moreover from this(1) have "find (\<lambda>g. g_id g = i) (db_groups db) = None"
    by (simp add: find_None_iff)
  moreover have "find (\<lambda>g. g_id g = j) (db_groups db) = None"
    if "\<not> list_ex (\<lambda>g. g_id g = j) (db_groups db)"
    using that by (simp add: find_None_iff list_ex_iff)
  ultimately show ?thesis by (auto simp: find_group_def find_append_if list_ex_iff)
qed

lemma create_group_frame:
  "create_group env new db = Inr (i, db') \<Longrightarrow>
   db_members db' = db_members db \<and> db_relations db' = db_relations db"
  by (auto simp: create_group_Inr)

end
