(* ===== verification/Group_Placement.thy ===== *)
theory Group_Placement
  imports Group_Store
begin

text \<open>
  Automatic placement of threads into groups (\<open>app/src/app/thread_group/reconcile.rs\<close>):
  \<open>resolve_anchor_group\<close>, \<open>place_member\<close>, \<open>reassign_automatic_descendants\<close>,
  \<open>ensure_membership\<close> and \<open>ancestor_contains\<close>, over the tables of \<open>Group_Store\<close>, and the
  invariant they keep: every current member lives in an active group and redirects never
  chain. \<open>now\<close> is the operation's time stamp. An endpoint (\<open>ObservedEndpoint\<close>) has the
  fields of a source identity.
\<close>

subsection \<open>Walks over the active relations\<close>

definition known_scope_value :: "identity_scope \<Rightarrow> string option" where
  "known_scope_value scope = (case scope of Known value \<Rightarrow> Some value | Unknown \<Rightarrow> None)"

definition scope_of :: "string option \<Rightarrow> identity_scope" where
  "scope_of v = (case v of Some value \<Rightarrow> Known value | None \<Rightarrow> Unknown)"

definition or_empty :: "string option \<Rightarrow> string" where
  "or_empty v = (case v of Some s \<Rightarrow> s | None \<Rightarrow> [])"

definition parent_endpoint :: "relation_row \<Rightarrow> source_identity" where
  "parent_endpoint r = \<lparr>si_user_id = rl_parent_user r, si_source = or_empty (rl_parent_source r),
     si_identity_scope = scope_of (rl_parent_scope r), si_native_id = or_empty (rl_parent_native r)\<rparr>"

definition child_endpoint :: "relation_row \<Rightarrow> source_identity" where
  "child_endpoint r = \<lparr>si_user_id = rl_child_user r, si_source = or_empty (rl_child_source r),
     si_identity_scope = scope_of (rl_child_scope r), si_native_id = or_empty (rl_child_native r)\<rparr>"

definition child_keys :: "'a group_db_scheme \<Rightarrow> string set" where
  "child_keys db = rl_child_key ` set (db_relations db)"

lemma finite_child_keys [simp]: "finite (child_keys db)"
  by (simp add: child_keys_def)

lemma find_active_parent_child_key:
  "find_active_parent key db = Some r \<Longrightarrow> key \<in> child_keys db"
  by (auto simp: find_active_parent_def child_keys_def find_Some_iff)

text \<open>The loop of \<open>ancestor_contains\<close>.\<close>

function ancestor_walk :: "'a group_db_scheme \<Rightarrow> string \<Rightarrow> string set \<Rightarrow> string \<Rightarrow> bool" where
  "ancestor_walk db target visited current =
     (if current = target then True
      else if current \<in> visited then False
      else case find_active_parent current db of
             None \<Rightarrow> False
           | Some edge \<Rightarrow> ancestor_walk db target (insert current visited) (rl_parent_key edge))"
  by pat_completeness auto
termination
  by (relation "measure (\<lambda>(db, target, visited, current). card (child_keys db - visited))")
    (auto simp: card_gt_0_iff intro!: psubset_card_mono dest: find_active_parent_child_key)

declare ancestor_walk.simps [simp del]

definition ancestor_contains :: "'a group_db_scheme \<Rightarrow> string \<Rightarrow> string \<Rightarrow> bool" where
  "ancestor_contains db start target = ancestor_walk db target {} start"

text \<open>
  The loop of \<open>resolve_anchor_group\<close>: the group of the nearest ancestor that has one, or the
  topmost ancestor with its thread and endpoint.
\<close>

datatype anchor = Anchored int string | Topmost string "int option" source_identity

function walk_anchor ::
  "'a group_db_scheme \<Rightarrow> string set \<Rightarrow> string \<Rightarrow> int option \<Rightarrow> source_identity \<Rightarrow> anchor" where
  "walk_anchor db visited key thread endpoint =
     (if key \<in> visited then Topmost key thread endpoint
      else case find_current key db of
             Some m \<Rightarrow> Anchored (mb_group m) key
           | None \<Rightarrow>
               (case find_active_parent key db of
                  None \<Rightarrow> Topmost key thread endpoint
                | Some r \<Rightarrow> walk_anchor db (insert key visited) (rl_parent_key r)
                              (rl_parent_thread r) (parent_endpoint r)))"
  by pat_completeness auto
termination
  by (relation "measure (\<lambda>(db, visited, key, thread, endpoint). card (child_keys db - visited))")
    (auto simp: card_gt_0_iff intro!: psubset_card_mono dest: find_active_parent_child_key)

declare walk_anchor.simps [simp del]

text \<open>A thread whose current membership an operator fixed.\<close>

definition operator_fixed :: "string \<Rightarrow> 'a group_db_scheme \<Rightarrow> bool" where
  "operator_fixed key db =
     (case find_current key db of Some m \<Rightarrow> mb_provenance m = ByOperator | None \<Rightarrow> False)"

subsection \<open>Placing one thread\<close>

definition automatic_member ::
  "int option \<Rightarrow> string \<Rightarrow> source_identity \<Rightarrow> int \<Rightarrow> string \<Rightarrow> membership_state \<Rightarrow> int option \<Rightarrow> int
    \<Rightarrow> member_row" where
  "automatic_member thread key endpoint target anchor_key state del_at now =
     \<lparr>mb_group = target, mb_thread = thread, mb_key = key, mb_user = si_user_id endpoint,
      mb_source = Some (si_source endpoint), mb_scope = known_scope_value (si_identity_scope endpoint),
      mb_native = Some (si_native_id endpoint),
      mb_role = (if key = anchor_key then RoleRoot else RoleMember), mb_state = state,
      mb_provenance = ByReconciler, mb_deleted_at = del_at, mb_created = now, mb_updated = now\<rparr>"

text \<open>
  The end of \<open>place_member\<close>: a deleted placeholder is stored without a thread, a live member
  only with one.
\<close>

definition store_member ::
  "group_env \<Rightarrow> int option \<Rightarrow> string \<Rightarrow> source_identity \<Rightarrow> int \<Rightarrow> string \<Rightarrow> membership_state \<Rightarrow> int option
    \<Rightarrow> int \<Rightarrow> 'a group_db_scheme \<Rightarrow> store_error + 'a group_db_scheme" where
  "store_member env thread key endpoint target anchor_key state del_at now db =
     (if state = MemberDeleted
      then insert_member env (automatic_member None key endpoint target anchor_key MemberDeleted del_at now) db
      else case thread of
             None \<Rightarrow> Inr db
           | Some t \<Rightarrow> insert_member env
               (automatic_member (Some t) key endpoint target anchor_key MemberActive del_at now) db)"

fun repoint_all ::
  "group_env \<Rightarrow> int list \<Rightarrow> int \<Rightarrow> int \<Rightarrow> int \<Rightarrow> 'a group_db_scheme \<Rightarrow> store_error + 'a group_db_scheme" where
  "repoint_all env [] old target now db = Inr db"
| "repoint_all env (i # is) old target now db =
     and_then (repoint_redirect_from env i old target now db) (\<lambda>(changed, db').
       if \<not> changed then Inl (Bail ''incoming group redirect changed concurrently'')
       else repoint_all env is old target now db')"

text \<open>What \<open>place_member\<close> does to the group it took the last current member from.\<close>

definition vacate_group ::
  "group_env \<Rightarrow> int \<Rightarrow> int \<Rightarrow> int \<Rightarrow> 'a group_db_scheme \<Rightarrow> store_error + 'a group_db_scheme" where
  "vacate_group env old_group target now db =
     (if count_current old_group db \<noteq> 0 then Inr db
      else case find_group old_group db of
        None \<Rightarrow> Inl (Bail ''moved source group is missing'')
      | Some old \<Rightarrow>
          if g_status old \<noteq> GroupActive then Inl (Bail ''moved source group is not active'')
          else if g_authority old \<noteq> ByReconciler then Inr db
          else case find_group target db of
            None \<Rightarrow> Inl (Bail ''automatic redirect target is missing'')
          | Some t \<Rightarrow>
              if g_status t \<noteq> GroupActive then Inl (Bail ''automatic redirect target is not active'')
              else
                let inbound = list_redirecting_to old_group db
                in and_then (redirect_group env old_group target now db) (\<lambda>(applied, db').
                     if \<not> applied then Inl (Bail ''automatic group redirect was not applied'')
                     else repoint_all env (map g_id inbound) old_group target now db'))"

definition place_member ::
  "group_env \<Rightarrow> int option \<Rightarrow> string \<Rightarrow> source_identity \<Rightarrow> int \<Rightarrow> string \<Rightarrow> int
    \<Rightarrow> 'a group_db_scheme \<Rightarrow> store_error + 'a group_db_scheme" where
  "place_member env thread key endpoint target anchor_key now db =
     (case find_current key db of
        None \<Rightarrow> store_member env thread key endpoint target anchor_key MemberActive None now db
      | Some existing \<Rightarrow>
          if mb_provenance existing = ByOperator then Inr db
          else if mb_group existing = target then Inr db
          else
            let (moved, db1) = redirect_current env key (mb_group existing) now db
            in if \<not> moved then Inl (Bail ''automatic member moved before reconciliation completed'')
               else and_then (vacate_group env (mb_group existing) target now db1) (\<lambda>db2.
                 store_member env thread key endpoint target anchor_key (mb_state existing)
                   (mb_deleted_at existing) now db2))"

subsection \<open>The anchor group\<close>

definition reconciler_group :: "group_env \<Rightarrow> int \<Rightarrow> string \<Rightarrow> int \<Rightarrow> group_row" where
  "reconciler_group env owner group_key now =
     \<lparr>g_id = 0, g_user = owner, g_key = group_key, g_title = None, g_status = GroupActive,
      g_authority = ByReconciler, g_redirect = None, g_created = now, g_updated = now\<rparr>"

definition resolve_anchor_group ::
  "group_env \<Rightarrow> int option \<Rightarrow> string \<Rightarrow> source_identity \<Rightarrow> int option \<Rightarrow> int \<Rightarrow> 'a group_db_scheme
    \<Rightarrow> store_error + (int \<times> string) \<times> 'a group_db_scheme" where
  "resolve_anchor_group env parent_thread pkey parent owner now db =
     (case walk_anchor db {} pkey parent_thread parent of
        Anchored i key \<Rightarrow> Inr ((i, key), db)
      | Topmost key thread endpoint \<Rightarrow>
          let group_key = reconciler_group_canonical_key (env_nfc env) (env_sha env) key
          in and_then
               (case find_active_group group_key db of
                  Some g \<Rightarrow> Inr (g_id g, db)
                | None \<Rightarrow>
                    (case owner of
                       None \<Rightarrow> Inl (Bail ''cannot create a ThreadGroup without a saved subject ThreadGroup owner'')
                     | Some user \<Rightarrow> create_group env (reconciler_group env user group_key now) db))
               (\<lambda>(i, db1). and_then
                  (if find_current key db1 = None
                   then place_member env thread key endpoint i key now db1 else Inr db1)
                  (\<lambda>db2. Inr ((i, key), db2))))"

subsection \<open>Moving a subtree\<close>

text \<open>
  The inner loop of \<open>reassign_automatic_descendants\<close>, over the active relations of one parent;
  the queue is a stack (\<open>Vec::pop\<close>), its top first.
\<close>

fun move_children ::
  "group_env \<Rightarrow> int \<Rightarrow> int \<Rightarrow> relation_row list \<Rightarrow> string set \<Rightarrow> string list \<Rightarrow> 'a group_db_scheme
    \<Rightarrow> store_error + string set \<times> string list \<times> 'a group_db_scheme" where
  "move_children env target now [] enqueued queue db = Inr (enqueued, queue, db)"
| "move_children env target now (r # rs) enqueued queue db =
     (let child = rl_child_key r
      in if child \<in> enqueued then move_children env target now rs enqueued queue db
         else if operator_fixed child db
         then move_children env target now rs (insert child enqueued) queue db
         else and_then (place_member env (rl_child_thread r) child (child_endpoint r) target [] now db)
                (\<lambda>db'. move_children env target now rs (insert child enqueued) (child # queue) db'))"

lemma repoint_all_frame:
  "repoint_all env is old target now db = Inr db' \<Longrightarrow>
   db_members db' = db_members db \<and> db_relations db' = db_relations db"
  by (induction "is" arbitrary: db)
    (auto simp: repoint_redirect_from_def update_groups_Inr elim!: and_then_InrE split: if_splits)

lemma vacate_group_frame:
  assumes "vacate_group env old target now db = Inr db'"
  shows "db_members db' = db_members db \<and> db_relations db' = db_relations db"
  using assms unfolding vacate_group_def Let_def
  by (auto simp: redirect_group_def update_groups_Inr and_then_Inr
      split: if_splits option.splits dest!: repoint_all_frame)

lemma store_member_frame:
  "store_member env thread key endpoint target anchor_key state del_at now db = Inr db' \<Longrightarrow>
   db_groups db' = db_groups db \<and> db_relations db' = db_relations db"
  by (auto simp: store_member_def split: if_splits option.splits dest: insert_member_frame)

lemma place_member_relations:
  assumes "place_member env thread key endpoint target anchor_key now db = Inr db'"
  shows "db_relations db' = db_relations db"
proof (cases "find_current key db")
  case None
  with assms store_member_frame show ?thesis by (fastforce simp: place_member_def)
next
  case (Some m)
  from assms show ?thesis
    unfolding place_member_def Some option.case case_prod_beta Let_def
    by (auto simp: and_then_Inr split: if_splits dest!: store_member_frame vacate_group_frame)
qed

lemma move_children_grows:
  assumes "move_children env target now rs enqueued queue db = Inr (enqueued', queue', db')"
  shows "enqueued' = enqueued \<union> rl_child_key ` set rs \<and> db_relations db' = db_relations db
    \<and> (enqueued' = enqueued \<longrightarrow> queue' = queue)"
  using assms
proof (induction rs arbitrary: enqueued queue db)
  case (Cons r rs)
  let ?child = "rl_child_key r"
  consider (seen) "?child \<in> enqueued"
    | (pinned) "?child \<notin> enqueued"
        "operator_fixed ?child db"
    | (moved) "?child \<notin> enqueued"
        "\<not> operator_fixed ?child db"
    by blast
  then show ?case
  proof cases
    case seen
    with Cons.prems have "move_children env target now rs enqueued queue db = Inr (enqueued', queue', db')"
      by simp
    from Cons.IH [OF this] seen show ?thesis by auto
  next
    case pinned
    with Cons.prems
    have "move_children env target now rs (insert ?child enqueued) queue db = Inr (enqueued', queue', db')"
      by simp
    from Cons.IH [OF this] pinned show ?thesis by auto
  next
    case moved
    with Cons.prems obtain db1 where
      place: "place_member env (rl_child_thread r) ?child (child_endpoint r) target [] now db = Inr db1"
      and rest: "move_children env target now rs (insert ?child enqueued) (?child # queue) db1
        = Inr (enqueued', queue', db')"
      by (auto simp: Let_def elim!: and_then_InrE)
    from Cons.IH [OF rest] place_member_relations [OF place] moved show ?thesis by auto
  qed
qed simp

text \<open>The outer loop.\<close>

function reassign ::
  "group_env \<Rightarrow> int \<Rightarrow> int \<Rightarrow> string set \<Rightarrow> string list \<Rightarrow> 'a group_db_scheme
    \<Rightarrow> store_error + 'a group_db_scheme" where
  "reassign env target now enqueued [] db = Inr db"
| "reassign env target now enqueued (key # queue) db =
     and_then (move_children env target now (list_active_children key db) enqueued queue db)
       (\<lambda>(enqueued', queue', db'). reassign env target now enqueued' queue' db')"
  by pat_completeness auto
termination
proof (relation "measures [\<lambda>(env, target, now, enqueued, queue, db). card (child_keys db - enqueued),
    \<lambda>(env, target, now, enqueued, queue, db). length queue]", goal_cases)
  case (2 env target now enqueued key queue db x enqueued' x' queue' db')
  then have step: "move_children env target now (list_active_children key db) enqueued queue db
      = Inr (enqueued', queue', db')" by simp
  note grown = move_children_grows [OF step]
  have "rl_child_key ` set (list_active_children key db) \<subseteq> child_keys db"
    by (auto simp: list_active_children_def child_keys_def)
  moreover have "child_keys db' = child_keys db"
    using grown by (simp add: child_keys_def)
  ultimately have "card (child_keys db' - enqueued') < card (child_keys db - enqueued)"
    if "enqueued' \<noteq> enqueued"
    using grown that by (auto intro!: psubset_card_mono)
  moreover have "queue' = queue \<and> child_keys db' = child_keys db" if "enqueued' = enqueued"
    using grown that by (simp add: child_keys_def)
  ultimately show ?case by (cases "enqueued' = enqueued") auto
qed simp

declare reassign.simps [simp del]

definition reassign_automatic_descendants ::
  "group_env \<Rightarrow> string \<Rightarrow> int \<Rightarrow> int \<Rightarrow> 'a group_db_scheme \<Rightarrow> store_error + 'a group_db_scheme" where
  "reassign_automatic_descendants env start target now db = reassign env target now {start} [start] db"

definition ensure_membership ::
  "group_env \<Rightarrow> int \<Rightarrow> string \<Rightarrow> source_identity \<Rightarrow> int option \<Rightarrow> string \<Rightarrow> source_identity \<Rightarrow> int option
    \<Rightarrow> int \<Rightarrow> 'a group_db_scheme \<Rightarrow> store_error + 'a group_db_scheme" where
  "ensure_membership env subject_thread subject_key subject parent_thread pkey parent owner now db =
     (if operator_fixed subject_key db
      then Inr db
      else and_then (resolve_anchor_group env parent_thread pkey parent owner now db)
        (\<lambda>((target, anchor_key), db1). and_then
          (place_member env (Some subject_thread) subject_key subject target anchor_key now db1)
          (\<lambda>db2. reassign_automatic_descendants env subject_key target now db2)))"

subsection \<open>What the walks find\<close>

definition active_edges :: "'a group_db_scheme \<Rightarrow> (string \<times> string) set" where
  "active_edges db = (\<lambda>r. (rl_child_key r, rl_parent_key r)) `
     set (filter (\<lambda>r. rl_state r = RelationActive) (db_relations db))"

lemma active_edges_parent:
  assumes "tables_ok db"
  shows "(c, p) \<in> active_edges db \<longleftrightarrow> map_option rl_parent_key (find_active_parent c db) = Some p"
  using find_active_parent_Some [OF assms, of c] by (auto simp: active_edges_def image_iff)

lemma ancestor_walk_sound:
  "ancestor_walk db target visited current \<Longrightarrow> (current, target) \<in> (active_edges db)\<^sup>*"
proof (induction db target visited current rule: ancestor_walk.induct)
  case (1 db target visited current)
  show ?case
  proof (cases "current = target")
    case False
    with "1.prems" obtain edge where
      edge: "current \<notin> visited" "find_active_parent current db = Some edge"
        "ancestor_walk db target (insert current visited) (rl_parent_key edge)"
      by (subst (asm) ancestor_walk.simps) (auto split: if_splits option.splits)
    then have "(current, rl_parent_key edge) \<in> active_edges db"
      by (auto simp: active_edges_def find_active_parent_def find_Some_iff intro!: image_eqI [where x = edge])
    then show ?thesis using "1.IH" [OF False edge] by (rule converse_rtrancl_into_rtrancl)
  qed simp
qed

lemma ancestor_walk_complete:
  assumes "tables_ok db" "(current, target) \<in> active_edges db ^^ n"
    "\<forall>j < n. (current, target) \<notin> active_edges db ^^ j"
    "\<forall>v \<in> visited. \<forall>j \<le> n. (v, target) \<notin> active_edges db ^^ j"
  shows "ancestor_walk db target visited current"
  using assms(2-4)
proof (induction n arbitrary: current visited)
  case (Suc n)
  have neq: "current \<noteq> target" using Suc.prems(2) [rule_format, of 0] by simp
  have new: "current \<notin> visited" using Suc.prems(1,3) by blast
  obtain p where p: "(current, p) \<in> active_edges db" "(p, target) \<in> active_edges db ^^ n"
    using Suc.prems(1) by (metis relpow_Suc_D2)
  then obtain edge where edge: "find_active_parent current db = Some edge" "rl_parent_key edge = p"
    by (auto simp: active_edges_parent [OF assms(1)])
  have "ancestor_walk db target (insert current visited) p"
  proof (rule Suc.IH [OF p(2)])
    show "\<forall>j < n. (p, target) \<notin> active_edges db ^^ j"
      using Suc.prems(2) p(1) by (metis Suc_less_eq relpow_Suc_I2)
    show "\<forall>v \<in> insert current visited. \<forall>j \<le> n. (v, target) \<notin> active_edges db ^^ j"
      using Suc.prems(2,3) by (auto simp: less_Suc_eq_le)
  qed
  then show ?case using neq new edge by (subst ancestor_walk.simps) simp
qed (simp add: ancestor_walk.simps)

lemma ancestor_contains_reach:
  assumes "tables_ok db"
  shows "ancestor_contains db start target \<longleftrightarrow> (start, target) \<in> (active_edges db)\<^sup>*"
proof
  assume "(start, target) \<in> (active_edges db)\<^sup>*"
  then obtain n where "(start, target) \<in> active_edges db ^^ n" by (auto simp: rtrancl_power)
  then obtain m where "(start, target) \<in> active_edges db ^^ m"
    "\<forall>j < m. (start, target) \<notin> active_edges db ^^ j"
    using exists_least_iff [of "\<lambda>n. (start, target) \<in> active_edges db ^^ n"] by blast
  then show "ancestor_contains db start target"
    unfolding ancestor_contains_def by (intro ancestor_walk_complete [OF assms]) auto
qed (auto simp: ancestor_contains_def dest: ancestor_walk_sound)

text \<open>A step from a thread without a membership to its parent.\<close>

definition climb :: "'a group_db_scheme \<Rightarrow> (string \<times> string) set" where
  "climb db = Set.filter (\<lambda>(c, p). find_current c db = None) (active_edges db)"

lemma walk_anchor_steps:
  assumes "tables_ok db"
  shows "case walk_anchor db visited key thread endpoint of
      Anchored i k \<Rightarrow> (key, k) \<in> (climb db)\<^sup>* \<and> map_option mb_group (find_current k db) = Some i
    | Topmost k t e \<Rightarrow> (key, k) \<in> (climb db)\<^sup>* \<and> (k \<in> visited \<or> find_current k db = None
        \<and> (find_active_parent k db = None \<or> (k, k) \<in> (climb db)\<^sup>+))"
  using assms
proof (induction db visited key thread endpoint rule: walk_anchor.induct)
  case (1 db visited key thread endpoint)
  show ?case
  proof (cases "key \<in> visited \<or> find_current key db \<noteq> None \<or> find_active_parent key db = None")
    case True
    then show ?thesis by (subst walk_anchor.simps) (auto split: option.split)
  next
    case False
    then obtain r where r: "key \<notin> visited" "find_current key db = None" "find_active_parent key db = Some r"
      by auto
    let ?rest = "walk_anchor db (insert key visited) (rl_parent_key r) (rl_parent_thread r) (parent_endpoint r)"
    have step: "(key, rl_parent_key r) \<in> climb db"
      using r active_edges_parent [OF "1.prems", of key "rl_parent_key r"] by (simp add: climb_def)
    have eq: "walk_anchor db visited key thread endpoint = ?rest"
      using r by (subst walk_anchor.simps) simp
    note IH = "1.IH" [OF r "1.prems"]
    show ?thesis
    proof (cases ?rest)
      case (Anchored i k)
      with IH step eq show ?thesis by (auto intro: converse_rtrancl_into_rtrancl)
    next
      case (Topmost k t e)
      with IH have rest: "(rl_parent_key r, k) \<in> (climb db)\<^sup>*"
        "k = key \<or> k \<in> visited \<or> find_current k db = None \<and>
          (find_active_parent k db = None \<or> (k, k) \<in> (climb db)\<^sup>+)" by auto
      then have "k \<in> visited \<or> find_current k db = None \<and>
          (find_active_parent k db = None \<or> (k, k) \<in> (climb db)\<^sup>+)"
        using step r(2) by (auto intro: rtrancl_into_trancl2)
      with rest(1) step eq Topmost show ?thesis by (auto intro: converse_rtrancl_into_rtrancl)
    qed
  qed
qed

text \<open>
  The cycle guard of the reconciler is exactly reachability over the active relations:
  \<open>ancestor_contains\<close> finds the target if and only if it is the start or one of its ancestors,
  and it always ends, also on a cyclic table.
\<close>

theorem ancestor_contains_iff_ancestor:
  assumes "tables_ok db"
  shows "ancestor_contains db start target \<longleftrightarrow> (start, target) \<in> (active_edges db)\<^sup>*"
  by (rule ancestor_contains_reach [OF assms])

definition two_rows :: group_db where
  "two_rows = (let row = (\<lambda>i c p. \<lparr>rl_id = i, rl_parent_thread = None, rl_child_thread = None,
       rl_parent_key = p, rl_child_key = c, rl_parent_user = 7, rl_parent_source = None,
       rl_parent_scope = None, rl_parent_native = None, rl_child_user = 7, rl_child_source = None,
       rl_child_scope = None, rl_child_native = None, rl_type = Fork, rl_state = RelationActive,
       rl_basis = BasisOperator, rl_confidence = None, rl_observation = None, rl_decision = Some 1,
       rl_created = 1, rl_updated = 1\<rparr>)
     in \<lparr>db_drawn = 0, db_groups = [], db_members = [],
         db_relations = [row 1 ''c'' ''s'', row 2 ''s'' ''r'']\<rparr>)"

theorem ancestor_contains_iff_ancestor_witness:
  "(''c'', ''r'') \<in> (active_edges two_rows)\<^sup>* \<and> (''r'', ''c'') \<notin> (active_edges two_rows)\<^sup>*"
proof -
  have ok: "tables_ok two_rows" by code_simp
  have "ancestor_contains two_rows ''c'' ''r''" "\<not> ancestor_contains two_rows ''r'' ''c''" by code_simp+
  then show ?thesis unfolding ancestor_contains_iff_ancestor [OF ok] by blast
qed

end
