(* ===== verification/Group_Invariant.thy ===== *)
theory Group_Invariant
  imports Group_Placement
begin

text \<open>
  What placing a thread does to the tables: the invariant \<open>placed_ok\<close> (every current member
  lives in an active group, every redirect ends at a group that is not redirected itself), the
  retirement of an emptied group as a map over the group rows, and the effect of
  \<open>place_member\<close> on the current membership of every thread.
\<close>

subsection \<open>The invariant\<close>

definition group_active :: "int \<Rightarrow> 'a group_db_scheme \<Rightarrow> bool" where
  "group_active i db = (case find_group i db of Some g \<Rightarrow> g_status g = GroupActive | None \<Rightarrow> False)"

text \<open>Every redirect ends at a group that exists and is not redirected itself.\<close>

definition redirects_flat :: "'a group_db_scheme \<Rightarrow> bool" where
  "redirects_flat db \<longleftrightarrow> list_all (\<lambda>g. case g_redirect g of
       None \<Rightarrow> True
     | Some t \<Rightarrow> (case find_group t db of Some g' \<Rightarrow> g_redirect g' = None | None \<Rightarrow> False)) (db_groups db)"

definition placed_ok :: "'a group_db_scheme \<Rightarrow> bool" where
  "placed_ok db \<longleftrightarrow> tables_ok db \<and> redirects_flat db
     \<and> list_all (\<lambda>m. is_current m \<longrightarrow> group_active (mb_group m) db) (db_members db)"

lemma group_active_iff: "group_active i db \<longleftrightarrow> (\<exists>g. find_group i db = Some g \<and> g_status g = GroupActive)"
  by (auto simp: group_active_def split: option.splits)

lemma found_all:
  "tables_ok db \<Longrightarrow> (\<forall>i g. find_group i db = Some g \<longrightarrow> P g) \<longleftrightarrow> (\<forall>g \<in> set (db_groups db). P g)"
  by (auto simp: find_group_Some)

lemma group_same:
  assumes "tables_ok db" "find_group i db = Some g" "h \<in> set (db_groups db)"
  shows "g_id h = i \<longleftrightarrow> h = g"
  using assms find_group_Some [OF assms(1), of i h] find_group_Some [OF assms(1), of i g] by auto

lemma redirects_flat_iff:
  assumes "tables_ok db"
  shows "redirects_flat db \<longleftrightarrow> (\<forall>i g t. find_group i db = Some g \<longrightarrow> g_redirect g = Some t \<longrightarrow>
      (\<exists>g'. find_group t db = Some g' \<and> g_redirect g' = None))"
proof -
  have "(case r of None \<Rightarrow> True
         | Some t \<Rightarrow> (case find_group t db of Some g' \<Rightarrow> g_redirect g' = None | None \<Rightarrow> False))
      \<longleftrightarrow> (\<forall>t. r = Some t \<longrightarrow> (\<exists>g'. find_group t db = Some g' \<and> g_redirect g' = None))" for r
    by (simp split: option.split)
  then show ?thesis
    using found_all [OF assms, of "\<lambda>g. \<forall>t. g_redirect g = Some t \<longrightarrow>
      (\<exists>g'. find_group t db = Some g' \<and> g_redirect g' = None)"]
    by (simp only: redirects_flat_def list_all_iff) blast
qed

lemma placed_okI:
  assumes "tables_ok db" "redirects_flat db"
    "\<And>k m. find_current k db = Some m \<Longrightarrow> group_active (mb_group m) db"
  shows "placed_ok db"
  using assms by (auto simp: placed_ok_def list_all_iff find_current_Some)

lemma placed_okD:
  assumes "placed_ok db"
  shows "tables_ok db" "redirects_flat db"
    "find_current k db = Some m \<Longrightarrow> group_active (mb_group m) db"
  using assms by (auto simp: placed_ok_def list_all_iff find_current_Some)

lemma active_no_redirect:
  "tables_ok db \<Longrightarrow> find_group i db = Some g \<Longrightarrow> g_status g = GroupActive \<Longrightarrow> g_redirect g = None"
  by (auto dest!: group_check_found simp: group_check_def)

lemma redirect_status:
  "tables_ok db \<Longrightarrow> find_group i db = Some g \<Longrightarrow> g_status g = GroupRedirected \<longleftrightarrow> g_redirect g \<noteq> None"
  by (auto dest!: group_check_found simp: group_check_def)

subsection \<open>Retiring a group\<close>

text \<open>What becomes of a row when the group \<open>old\<close> is redirected to \<open>target\<close>.\<close>

definition retarget :: "group_env \<Rightarrow> int \<Rightarrow> int \<Rightarrow> int \<Rightarrow> group_row \<Rightarrow> group_row" where
  "retarget env old target now g =
     (if g_id g = old then g\<lparr>g_status := GroupRedirected, g_redirect := Some target,
                             g_updated := fill_updated_at env now\<rparr>
      else if g_redirect g = Some old then g\<lparr>g_redirect := Some target, g_updated := fill_updated_at env now\<rparr>
      else g)"

lemma keeps_identity_retarget [simp]: "keeps_identity (retarget env old target now)"
  by (simp add: keeps_identity_def retarget_def)

text \<open>The rows \<open>repoint_all\<close> changes.\<close>

definition repointed :: "group_env \<Rightarrow> int set \<Rightarrow> int \<Rightarrow> int \<Rightarrow> group_row \<Rightarrow> group_row" where
  "repointed env is target now g = (if g_id g \<in> is
     then g\<lparr>g_redirect := Some target, g_updated := fill_updated_at env now\<rparr> else g)"

lemma repoint_redirect_from_hit:
  assumes "tables_ok db" "find_group i db = Some g" "g_redirect g = Some old" "i \<noteq> target"
  shows "repoint_redirect_from env i old target now db =
    Inr (True, db\<lparr>db_groups := map (repointed env {i} target now) (db_groups db)\<rparr>)"
proof -
  have hit: "g_id h = i \<and> g_status h = GroupRedirected \<and> g_redirect h = Some old \<longleftrightarrow> h = g"
    if "h \<in> set (db_groups db)" for h
    using group_same [OF assms(1,2) that] redirect_status [OF assms(1,2)] assms(3) by auto
  have g: "g \<in> set (db_groups db)" "g_id g = i" using find_in_groups [OF assms(2)] by auto
  note id = group_same [OF assms(1,2)]
  have status: "g_status g = GroupRedirected" using redirect_status [OF assms(1,2)] assms(3) by simp
  have "group_check (g\<lparr>g_redirect := Some target, g_updated := fill_updated_at env now\<rparr>)"
    using status assms(4) g(2) by (simp add: group_check_def)
  moreover have "map (\<lambda>h. if g_id h = i \<and> g_status h = GroupRedirected \<and> g_redirect h = Some old
        then h\<lparr>g_redirect := Some target, g_updated := fill_updated_at env now\<rparr> else h) (db_groups db)
      = map (repointed env {i} target now) (db_groups db)"
    by (rule map_cong [OF refl]) (use hit id in \<open>auto simp: repointed_def\<close>)
  ultimately show ?thesis
    using hit g(1) by (auto simp: repoint_redirect_from_def update_groups_Inr list_ex_iff)
qed

text \<open>Repointing one redirected group.\<close>

lemma repointed_ok:
  assumes "tables_ok db" "find_group i db = Some g" "g_redirect g = Some old" "i \<noteq> target"
  shows "tables_ok (db\<lparr>db_groups := map (repointed env {i} target now) (db_groups db)\<rparr>)"
    "j \<noteq> i \<Longrightarrow> find_group j (db\<lparr>db_groups := map (repointed env {i} target now) (db_groups db)\<rparr>) = find_group j db"
proof -
  let ?f = "repointed env {i} target now"
  have keeps: "keeps_identity ?f" by (simp add: keeps_identity_def repointed_def)
  have "group_check (?f h)" if "h \<in> set (db_groups db)" for h
  proof (cases "g_id h = i")
    case True
    then have "h = g" using group_same [OF assms(1,2) that] by simp
    then show ?thesis using True assms(2-4) redirect_status [OF assms(1,2)]
      by (auto simp: repointed_def group_check_def)
  next
    case False
    then show ?thesis using that assms(1) by (simp add: repointed_def tables_ok_def list_all_iff)
  qed
  then show "tables_ok (db\<lparr>db_groups := map ?f (db_groups db)\<rparr>)" by (rule map_groups_ok [OF assms(1) keeps])
  show "j \<noteq> i \<Longrightarrow> find_group j (db\<lparr>db_groups := map ?f (db_groups db)\<rparr>) = find_group j db"
    using find_in_groups [of j db] by (auto simp: find_group_map [OF keeps] repointed_def intro: option.map_ident_strong)
qed

lemma repointed_Cons:
  assumes "i \<notin> set js"
  shows "map (repointed env (set js) target now) (map (repointed env {i} target now) gs)
    = map (repointed env (set (i # js)) target now) gs"
  using assms by (auto simp: repointed_def)

lemma repointed_Nil [simp]: "map (repointed env {} target now) gs = gs"
  by (simp add: repointed_def map_idI)

lemma repoint_all_eq:
  assumes "tables_ok db" "distinct is" "target \<notin> set is" "old \<noteq> target"
    "\<And>i. i \<in> set is \<Longrightarrow> \<exists>g. find_group i db = Some g \<and> g_redirect g = Some old"
  shows "repoint_all env is old target now db =
    Inr (db\<lparr>db_groups := map (repointed env (set is) target now) (db_groups db)\<rparr>)"
  using assms
proof (induction "is" arbitrary: db)
  case (Cons i js)
  let ?db = "db\<lparr>db_groups := map (repointed env {i} target now) (db_groups db)\<rparr>"
  obtain g where g: "find_group i db = Some g" "g_redirect g = Some old" using Cons.prems(5) [of i] by auto
  have "i \<noteq> target" using Cons.prems(3) by auto
  note ok = repointed_ok [OF Cons.prems(1) g this, where env = env and now = now]
  have "\<exists>g. find_group j ?db = Some g \<and> g_redirect g = Some old" if "j \<in> set js" for j
  proof -
    have "j \<noteq> i" using that Cons.prems(2) by auto
    with ok(2) [OF this] Cons.prems(5) [of j] that show ?thesis by simp
  qed
  then have rest: "repoint_all env js old target now ?db =
      Inr (?db\<lparr>db_groups := map (repointed env (set js) target now) (db_groups ?db)\<rparr>)"
    using Cons.prems(2-4) by (intro Cons.IH [OF ok(1)]) auto
  show ?case
    using repoint_redirect_from_hit [OF Cons.prems(1) g \<open>i \<noteq> target\<close>] rest repointed_Cons [of i js] Cons.prems(2)
    by simp
qed simp

definition retired :: "group_env \<Rightarrow> int \<Rightarrow> int \<Rightarrow> int \<Rightarrow> group_row \<Rightarrow> group_row" where
  "retired env old target now g = (if g_id g = old then g\<lparr>g_status := GroupRedirected,
     g_redirect := Some target, g_updated := fill_updated_at env now\<rparr> else g)"

lemma keeps_identity_retired: "keeps_identity (retired env old target now)"
  by (simp add: keeps_identity_def retired_def)

lemma redirect_group_hit:
  assumes "tables_ok db" "find_group old db = Some g" "g_status g = GroupActive" "old \<noteq> target"
  shows "redirect_group env old target now db =
    Inr (True, db\<lparr>db_groups := map (retired env old target now) (db_groups db)\<rparr>)"
proof -
  note same = group_same [OF assms(1,2)]
  have g: "g \<in> set (db_groups db)" "g_id g = old" using find_in_groups [OF assms(2)] by auto
  have "group_check (g\<lparr>g_status := GroupRedirected, g_redirect := Some target,
      g_updated := fill_updated_at env now\<rparr>)"
    using assms(4) g(2) by (simp add: group_check_def)
  moreover have "map (\<lambda>h. if g_id h = old \<and> g_status h = GroupActive
        then h\<lparr>g_status := GroupRedirected, g_redirect := Some target, g_updated := fill_updated_at env now\<rparr>
        else h) (db_groups db) = map (retired env old target now) (db_groups db)"
    by (rule map_cong [OF refl]) (use same assms(3) in \<open>auto simp: retired_def\<close>)
  moreover have "g_id h = old \<and> g_status h = GroupActive \<longleftrightarrow> h = g" if "h \<in> set (db_groups db)" for h
    using same [OF that] assms(3) by auto
  ultimately show ?thesis
    using g(1) by (auto simp: redirect_group_def update_groups_Inr list_ex_iff)
qed

lemma retired_ok:
  assumes "tables_ok db" "old \<noteq> target"
  shows "tables_ok (db\<lparr>db_groups := map (retired env old target now) (db_groups db)\<rparr>)"
proof (rule map_groups_ok [OF assms(1) keeps_identity_retired])
  fix g assume "g \<in> set (db_groups db)"
  then have "group_check g" using assms(1) by (simp add: tables_ok_def list_all_iff)
  then show "group_check (retired env old target now g)"
    using assms(2) by (simp add: retired_def group_check_def)
qed

lemma inbound_rows:
  "set (list_redirecting_to old db) =
   set (filter (\<lambda>g. g_status g = GroupRedirected \<and> g_redirect g = Some old) (db_groups db))"
  by (simp add: list_redirecting_to_def)

lemma inbound_distinct:
  assumes "tables_ok db" shows "distinct (map g_id (list_redirecting_to old db))"
proof -
  have "distinct (map g_id (filter P (db_groups db)))" for P
    using assms by (auto simp: tables_ok_def intro: distinct_map_filter)
  then have "mset (map g_id (list_redirecting_to old db)) =
      mset (map g_id (filter (\<lambda>g. g_status g = GroupRedirected \<and> g_redirect g = Some old) (db_groups db)))"
    by (simp add: list_redirecting_to_def)
  then show ?thesis
    using \<open>\<And>P. distinct (map g_id (filter P (db_groups db)))\<close> mset_eq_imp_distinct_iff by blast
qed

lemma repoint_inbound:
  assumes "tables_ok db" "find_group old db = Some g" "g_status g = GroupActive"
    "group_active target db" "old \<noteq> target"
  shows "repoint_all env (map g_id (list_redirecting_to old db)) old target now
      (db\<lparr>db_groups := map (retired env old target now) (db_groups db)\<rparr>)
    = Inr (db\<lparr>db_groups := map (retarget env old target now) (db_groups db)\<rparr>)"
proof -
  let ?db = "db\<lparr>db_groups := map (retired env old target now) (db_groups db)\<rparr>"
  let ?is = "map g_id (list_redirecting_to old db)"
  note same = group_same [OF assms(1,2)]
  have row: "h \<in> set (db_groups db) \<and> g_redirect h = Some old" if "h \<in> set (list_redirecting_to old db)" for h
    using that by (simp add: inbound_rows)
  have found: "find_group (g_id h) db = Some h" if "h \<in> set (db_groups db)" for h
    using that assms(1) by (simp add: find_group_Some)
  have no_redirect: "g_redirect g = None" using active_no_redirect [OF assms(1-3)] .
  have "target \<notin> set ?is"
  proof
    assume "target \<in> set ?is"
    then obtain h where "h \<in> set (list_redirecting_to old db)" "g_id h = target" by auto
    with found row have "find_group target db = Some h" "g_redirect h = Some old" by auto
    with assms(1,4) show False by (auto simp: group_active_iff dest: active_no_redirect)
  qed
  moreover have "\<exists>h. find_group i ?db = Some h \<and> g_redirect h = Some old" if "i \<in> set ?is" for i
  proof -
    obtain h where h: "h \<in> set (list_redirecting_to old db)" "g_id h = i" using \<open>i \<in> set ?is\<close> by auto
    with found row have "find_group i db = Some h" "g_redirect h = Some old" by auto
    moreover have "g_id h \<noteq> old" using same row [OF h(1)] no_redirect by auto
    ultimately show ?thesis
      by (simp add: find_group_map [OF keeps_identity_retired] retired_def)
  qed
  ultimately have "repoint_all env ?is old target now ?db =
      Inr (?db\<lparr>db_groups := map (repointed env (set ?is) target now) (db_groups ?db)\<rparr>)"
    using assms(1,5) by (intro repoint_all_eq retired_ok inbound_distinct) auto
  moreover have "repointed env (set ?is) target now (retired env old target now h) = retarget env old target now h"
    if "h \<in> set (db_groups db)" for h
  proof -
    have "g_id h \<in> set ?is \<longleftrightarrow> g_redirect h = Some old"
    proof
      assume "g_id h \<in> set ?is"
      then obtain h' where "h' \<in> set (list_redirecting_to old db)" "g_id h' = g_id h" by auto
      with row found that show "g_redirect h = Some old" by (metis option.inject)
    next
      assume "g_redirect h = Some old"
      with redirect_status [OF assms(1) found [OF that]] that show "g_id h \<in> set ?is"
        by (auto simp: inbound_rows)
    qed
    then show ?thesis using same [OF that] no_redirect
      by (auto simp: repointed_def retired_def retarget_def)
  qed
  ultimately show ?thesis by simp
qed

lemma vacate_group_eq:
  assumes "tables_ok db" "group_active target db" "old \<noteq> target"
  shows "vacate_group env old target now db =
    (if count_current old db \<noteq> 0 then Inr db
     else case find_group old db of
       None \<Rightarrow> Inl (Bail ''moved source group is missing'')
     | Some g \<Rightarrow>
         if g_status g \<noteq> GroupActive then Inl (Bail ''moved source group is not active'')
         else if g_authority g \<noteq> ByReconciler then Inr db
         else Inr (db\<lparr>db_groups := map (retarget env old target now) (db_groups db)\<rparr>))"
proof (cases "find_group old db")
  case None
  then show ?thesis by (simp add: vacate_group_def)
next
  case (Some g)
  from assms(2) obtain t where t: "find_group target db = Some t" "g_status t = GroupActive"
    by (auto simp: group_active_iff)
  show ?thesis
  proof (cases "g_status g = GroupActive")
    case True
    show ?thesis
      using redirect_group_hit [OF assms(1) Some True assms(3)]
        repoint_inbound [OF assms(1) Some True assms(2,3)] Some True t
      by (simp add: vacate_group_def Let_def)
  qed (simp add: vacate_group_def Some)
qed

lemma target_not_redirected:
  assumes "tables_ok db" "group_active target db" "g \<in> set (db_groups db)" "g_redirect g \<noteq> None"
  shows "g_id g \<noteq> target"
proof
  assume "g_id g = target"
  with assms(1,3) have "find_group target db = Some g" by (simp add: find_group_Some)
  with assms(1,2,4) show False by (auto simp: group_active_iff dest: active_no_redirect)
qed

lemma retarget_tables_ok:
  assumes "tables_ok db" "group_active target db" "old \<noteq> target"
  shows "tables_ok (db\<lparr>db_groups := map (retarget env old target now) (db_groups db)\<rparr>)"
proof (rule map_groups_ok [OF assms(1) keeps_identity_retarget])
  fix g assume g: "g \<in> set (db_groups db)"
  then have "group_check g" using assms(1) by (simp add: tables_ok_def list_all_iff)
  then show "group_check (retarget env old target now g)"
    using assms(3) target_not_redirected [OF assms(1,2) g] by (auto simp: retarget_def group_check_def)
qed

lemma retarget_active:
  assumes "group_active i db" "i \<noteq> old"
  shows "group_active i (db\<lparr>db_groups := map (retarget env old target now) (db_groups db)\<rparr>)"
proof -
  from assms(1) obtain g where "find_group i db = Some g" "g_status g = GroupActive"
    by (auto simp: group_active_iff)
  then show ?thesis using assms(2) find_in_groups [of i db g]
    by (simp add: group_active_iff find_group_map retarget_def)
qed

lemma retarget_flat:
  assumes "tables_ok db" "redirects_flat db" "group_active target db" "old \<noteq> target"
  shows "redirects_flat (db\<lparr>db_groups := map (retarget env old target now) (db_groups db)\<rparr>)"
proof -
  let ?f = "retarget env old target now"
  let ?db = "db\<lparr>db_groups := map ?f (db_groups db)\<rparr>"
  have ends: "\<exists>g'. find_group t ?db = Some g' \<and> g_redirect g' = None"
    if "find_group t db = Some g" "g_redirect g = None" "t \<noteq> old" for t g
    using that find_in_groups [OF that(1)] by (simp add: find_group_map retarget_def)
  have "\<exists>g'. find_group t ?db = Some g' \<and> g_redirect g' = None"
    if g: "find_group i db = Some g" "g_redirect (?f g) = Some t" for i g t
  proof (cases "t = target")
    case True
    from assms(1,3) obtain h where "find_group target db = Some h" "g_redirect h = None"
      by (auto simp: group_active_iff dest: active_no_redirect)
    with True assms(4) show ?thesis by (auto intro: ends)
  next
    case False
    with g(2) have "g_redirect g = Some t" "t \<noteq> old" by (auto simp: retarget_def split: if_splits)
    moreover from this(1) g(1) assms(2) obtain h where "find_group t db = Some h" "g_redirect h = None"
      unfolding redirects_flat_iff [OF assms(1)] by blast
    ultimately show ?thesis by (auto intro: ends)
  qed
  note ends = this
  show ?thesis
    unfolding redirects_flat_iff [OF retarget_tables_ok [OF assms(1,3,4)]]
  proof (intro allI impI)
    fix i g t assume "find_group i ?db = Some g" "g_redirect g = Some t"
    then obtain h where "find_group i db = Some h" "g_redirect (?f h) = Some t"
      by (auto simp: find_group_map)
    then show "\<exists>g'. find_group t ?db = Some g' \<and> g_redirect g' = None" by (rule ends)
  qed
qed

lemma vacate_group_keeps:
  assumes "tables_ok db" "redirects_flat db" "group_active target db" "old \<noteq> target"
    "vacate_group env old target now db = Inr db'"
  shows "tables_ok db'" "redirects_flat db'" "find_current k db' = find_current k db"
    "group_active i db \<Longrightarrow> i \<noteq> old \<Longrightarrow> group_active i db'"
    "count_current old db \<noteq> 0 \<Longrightarrow> db' = db"
proof -
  let ?db = "db\<lparr>db_groups := map (retarget env old target now) (db_groups db)\<rparr>"
  have "db' = db \<or> count_current old db = 0 \<and> db' = ?db"
    using assms(5) by (simp add: vacate_group_eq [OF assms(1,3,4)] split: if_splits option.splits)
  then show "tables_ok db'" "redirects_flat db'" "find_current k db' = find_current k db"
    "group_active i db \<Longrightarrow> i \<noteq> old \<Longrightarrow> group_active i db'"
    "count_current old db \<noteq> 0 \<Longrightarrow> db' = db"
    using assms(1,2) retarget_tables_ok [OF assms(1,3,4), of env now]
      retarget_flat [OF assms(1-4), of env now] retarget_active [of i db old env target now]
    by auto
qed

lemma count_current_0:
  "tables_ok db \<Longrightarrow> count_current i db = 0 \<longleftrightarrow>
   (\<forall>k m. find_current k db = Some m \<longrightarrow> mb_group m \<noteq> i)"
  by (auto simp: count_current_def filter_empty_conv find_current_Some)

subsection \<open>What \<open>place_member\<close> does\<close>

text \<open>A thread that \<open>place_member\<close> leaves where it is.\<close>

definition stays :: "string \<Rightarrow> int \<Rightarrow> 'a group_db_scheme \<Rightarrow> bool" where
  "stays key target db = (case find_current key db of
     None \<Rightarrow> False | Some m \<Rightarrow> mb_provenance m = ByOperator \<or> mb_group m = target)"

text \<open>The row \<open>store_member\<close> adds, and the membership a thread that does not stay gets.\<close>

definition row_to_store ::
  "int option \<Rightarrow> string \<Rightarrow> source_identity \<Rightarrow> int \<Rightarrow> string \<Rightarrow> membership_state \<Rightarrow> int option \<Rightarrow> int
    \<Rightarrow> member_row option" where
  "row_to_store thread key endpoint target anchor_key state d now =
     (if state = MemberDeleted
      then Some (automatic_member None key endpoint target anchor_key MemberDeleted d now)
      else map_option (\<lambda>t. automatic_member (Some t) key endpoint target anchor_key MemberActive d now) thread)"

lemma store_member_eq:
  "store_member env thread key endpoint target anchor_key state d now db =
   (case row_to_store thread key endpoint target anchor_key state d now of
      None \<Rightarrow> Inr db | Some r \<Rightarrow> insert_member env r db)"
  by (simp add: store_member_def row_to_store_def split: option.split)

definition new_membership ::
  "group_env \<Rightarrow> int option \<Rightarrow> string \<Rightarrow> source_identity \<Rightarrow> int \<Rightarrow> string \<Rightarrow> int \<Rightarrow> 'a group_db_scheme
    \<Rightarrow> member_row option" where
  "new_membership env thread key endpoint target anchor_key now db =
     map_option (member_stored env)
       (case find_current key db of
          None \<Rightarrow> row_to_store thread key endpoint target anchor_key MemberActive None now
        | Some m \<Rightarrow> row_to_store thread key endpoint target anchor_key (mb_state m) (mb_deleted_at m) now)"

lemma automatic_member_simps [simp]:
  "mb_key (automatic_member thread key endpoint target anchor_key state d now) = key"
  "mb_group (automatic_member thread key endpoint target anchor_key state d now) = target"
  "mb_state (automatic_member thread key endpoint target anchor_key state d now) = state"
  "mb_provenance (automatic_member thread key endpoint target anchor_key state d now) = ByReconciler"
  "mb_thread (automatic_member thread key endpoint target anchor_key state d now) = thread"
  "mb_role (automatic_member thread key endpoint target anchor_key state d now) =
     (if key = anchor_key then RoleRoot else RoleMember)"
  by (simp_all add: automatic_member_def)

lemma automatic_member_current [simp]:
  "is_current (automatic_member thread key endpoint target anchor_key state d now) \<longleftrightarrow>
   state = MemberActive \<or> state = MemberDeleted"
  by (simp add: is_current_def)

lemma row_to_store_simps:
  assumes "row_to_store thread key endpoint target anchor_key state d now = Some r"
  shows "mb_key r = key" "mb_group r = target" "mb_provenance r = ByReconciler" "is_current r"
  using assms by (auto simp: row_to_store_def split: if_splits)

lemma store_member_keeps:
  assumes "tables_ok db" "find_current key db = None"
    "store_member env thread key endpoint target anchor_key state d now db = Inr db'"
  shows "tables_ok db'" "db_groups db' = db_groups db"
    "find_current k db' = (if k = key
       then map_option (member_stored env) (row_to_store thread key endpoint target anchor_key state d now)
       else find_current k db)"
proof (atomize (full), cases "row_to_store thread key endpoint target anchor_key state d now")
  case None
  with assms show "tables_ok db' \<and> db_groups db' = db_groups db \<and> find_current k db' = (if k = key
       then map_option (member_stored env) (row_to_store thread key endpoint target anchor_key state d now)
       else find_current k db)"
    by (simp add: store_member_eq)
next
  case (Some r)
  with assms(3) have insert: "insert_member env r db = Inr db'" by (simp add: store_member_eq)
  show "tables_ok db' \<and> db_groups db' = db_groups db \<and> find_current k db' = (if k = key
       then map_option (member_stored env) (row_to_store thread key endpoint target anchor_key state d now)
       else find_current k db)"
    using insert_member_ok [OF assms(1) insert] insert_member_frame [OF insert]
      find_current_insert [OF insert] row_to_store_simps [OF Some] Some by auto
qed

lemma groups_only:
  assumes "db_groups db' = db_groups db"
  shows "find_group i db' = find_group i db" "group_active i db' = group_active i db"
    "redirects_flat db' = redirects_flat db"
proof -
  have found: "find_group i db' = find_group i db" for i using assms by (simp add: find_group_def)
  then show "find_group i db' = find_group i db" "group_active i db' = group_active i db"
    by (simp_all add: group_active_def)
  show "redirects_flat db' = redirects_flat db" unfolding redirects_flat_def found assms ..
qed

lemma place_member_moves:
  assumes "placed_ok db" "group_active target db" "\<not> stays key target db"
    "place_member env thread key endpoint target anchor_key now db = Inr db'"
  shows "tables_ok db' \<and> redirects_flat db' \<and> group_active target db'
    \<and> (\<forall>i. group_active i db \<longrightarrow> map_option mb_group (find_current key db) \<noteq> Some i \<longrightarrow> group_active i db')
    \<and> (\<forall>k m. k \<noteq> key \<longrightarrow> find_current k db = Some m \<longrightarrow> group_active (mb_group m) db')
    \<and> (\<forall>k. find_current k db' = (if k = key
         then new_membership env thread key endpoint target anchor_key now db else find_current k db))"
proof (cases "find_current key db")
  case None
  note ok = placed_okD [OF assms(1)]
  from None assms(4) have store:
    "store_member env thread key endpoint target anchor_key MemberActive None now db = Inr db'"
    by (simp add: place_member_def)
  note keeps = store_member_keeps [OF ok(1) None store]
  show ?thesis
    using None ok assms(2) keeps(1,3) by (simp add: new_membership_def groups_only [OF keeps(2)])
next
  case (Some m)
  let ?old = "mb_group m"
  let ?db1 = "snd (redirect_current env key ?old now db)"
  note ok = placed_okD [OF assms(1)]
  from Some assms(3) have m: "mb_provenance m \<noteq> ByOperator" "?old \<noteq> target" by (auto simp: stays_def)
  have hit: "fst (redirect_current env key ?old now db)"
    using redirect_current_hit [OF ok(1)] Some by simp
  have ok1: "tables_ok ?db1" by (rule redirect_current_ok [OF ok(1)])
  have same1: "db_groups ?db1 = db_groups db" by simp
  note active1 = groups_only(2) [OF same1]
  have flat1: "redirects_flat ?db1" using ok(2) groups_only(3) [OF same1] by simp
  have look1: "find_current k ?db1 = (if k = key then None else find_current k db)" for k
    using find_current_redirect [OF ok(1)] Some by simp
  from assms(4) Some m hit obtain db2 where
    vacate: "vacate_group env ?old target now ?db1 = Inr db2" and
    store: "store_member env thread key endpoint target anchor_key (mb_state m) (mb_deleted_at m) now db2 = Inr db'"
    by (auto simp: place_member_def case_prod_beta Let_def elim!: and_then_InrE)
  note keeps2 = vacate_group_keeps [OF ok1 flat1 _ m(2) vacate, unfolded active1, OF assms(2)]
  have "find_current key db2 = None" by (simp add: keeps2(3) look1)
  note keeps = store_member_keeps [OF keeps2(1) this store]
  note active = groups_only(2) [OF keeps(2)]
  have others: "group_active (mb_group m') db'" if "k \<noteq> key" "find_current k db = Some m'" for k m'
  proof (cases "mb_group m' = ?old")
    case True
    then have "count_current ?old ?db1 \<noteq> 0"
      using count_current_0 [OF ok1, of ?old] look1 [of k] that by auto
    then show ?thesis using keeps2(5) active active1 ok(3) [OF that(2)] by auto
  next
    case False
    with keeps2(4) active active1 ok(3) [OF that(2)] show ?thesis by auto
  qed
  have "find_current k db' = (if k = key
         then new_membership env thread key endpoint target anchor_key now db else find_current k db)" for k
    by (simp add: keeps(3) keeps2(3) look1 new_membership_def Some)
  moreover have "redirects_flat db'" using keeps2(2) groups_only(3) [OF keeps(2)] by simp
  moreover have "group_active i db'" if "group_active i db" "i \<noteq> ?old" for i
    using keeps2(4) active active1 that by auto
  ultimately show ?thesis using keeps(1) others assms(2) m(2) Some by auto
qed

lemma place_member_stays:
  "stays key target db \<Longrightarrow> place_member env thread key endpoint target anchor_key now db = Inr db"
  by (auto simp: stays_def place_member_def split: option.splits)

lemma operator_fixed_stays: "operator_fixed key db \<Longrightarrow> stays key target db"
  by (simp add: operator_fixed_def stays_def split: option.splits)

lemma new_membership_place:
  assumes "new_membership env thread key endpoint target anchor_key now db = Some m"
  shows "mb_key m = key" "mb_group m = target" "mb_provenance m = ByReconciler"
  using assms row_to_store_simps by (auto simp: new_membership_def split: option.splits)

text \<open>Everything the callers of \<open>place_member\<close> need, whether the thread moves or stays.\<close>

lemma place_member_keeps:
  assumes "placed_ok db" "group_active target db"
    "place_member env thread key endpoint target anchor_key now db = Inr db'"
  shows "placed_ok db'" "group_active target db'" "db_relations db' = db_relations db"
    "k \<noteq> key \<Longrightarrow> find_current k db' = find_current k db"
    "operator_fixed k db' = operator_fixed k db"
    "operator_fixed key db \<Longrightarrow> find_current key db' = find_current key db"
    "\<not> operator_fixed key db \<Longrightarrow> find_current key db' = Some m \<Longrightarrow> mb_group m = target"
    "group_active i db \<Longrightarrow> map_option mb_group (find_current key db) \<noteq> Some i \<Longrightarrow> group_active i db'"
proof -
  have "placed_ok db' \<and> group_active target db' \<and> db_relations db' = db_relations db
    \<and> (k \<noteq> key \<longrightarrow> find_current k db' = find_current k db)
    \<and> operator_fixed k db' = operator_fixed k db
    \<and> (operator_fixed key db \<longrightarrow> find_current key db' = find_current key db)
    \<and> (\<not> operator_fixed key db \<longrightarrow> find_current key db' = Some m \<longrightarrow> mb_group m = target)
    \<and> (group_active i db \<longrightarrow> map_option mb_group (find_current key db) \<noteq> Some i \<longrightarrow> group_active i db')" for k m i
  proof (cases "stays key target db")
  case True
  with assms(3) have same: "db' = db" by (simp add: place_member_stays)
  have "mb_group m = target" if "\<not> operator_fixed key db" "find_current key db = Some m"
    using True that by (simp add: stays_def operator_fixed_def)
  with same assms show ?thesis
    by simp
next
  case False
  let ?new = "new_membership env thread key endpoint target anchor_key now db"
  note moved = place_member_moves [OF assms(1,2) False assms(3)]
  have not_fixed: "\<not> operator_fixed key db" using False operator_fixed_stays by blast
  have look: "find_current k db' = (if k = key then ?new else find_current k db)" for k using moved by blast
  have "placed_ok db'"
  proof (rule placed_okI)
    show "tables_ok db'" "redirects_flat db'" using moved by auto
    fix k m assume "find_current k db' = Some m"
    then show "group_active (mb_group m) db'"
      using moved new_membership_place(2) [of env thread key endpoint target anchor_key now db m]
      by (cases "k = key") auto
  qed
  moreover have "operator_fixed k db' = operator_fixed k db"
    using not_fixed
    by (auto simp: operator_fixed_def look split: option.splits dest: new_membership_place(3))
  ultimately show ?thesis
    using moved not_fixed place_member_relations [OF assms(3)]
      new_membership_place(2) [of env thread key endpoint target anchor_key now db m]
    by (simp add: look)
qed
  then show "placed_ok db'" "group_active target db'" "db_relations db' = db_relations db"
    "k \<noteq> key \<Longrightarrow> find_current k db' = find_current k db"
    "operator_fixed k db' = operator_fixed k db"
    "operator_fixed key db \<Longrightarrow> find_current key db' = find_current key db"
    "\<not> operator_fixed key db \<Longrightarrow> find_current key db' = Some m \<Longrightarrow> mb_group m = target"
    "group_active i db \<Longrightarrow> map_option mb_group (find_current key db) \<noteq> Some i \<Longrightarrow> group_active i db'"
    by blast+
qed

text \<open>With a complete endpoint, \<open>place_member\<close> has no way to fail.\<close>

definition known_endpoint :: "source_identity \<Rightarrow> bool" where
  "known_endpoint endpoint \<longleftrightarrow> si_identity_scope endpoint \<noteq> Unknown"

lemma row_to_store_check:
  assumes "row_to_store thread key endpoint target anchor_key state d now = Some r"
    "known_endpoint endpoint" "state = MemberDeleted \<Longrightarrow> d \<noteq> None"
  shows "member_check r"
proof -
  from assms(2) obtain v where "si_identity_scope endpoint = Known v"
    by (cases "si_identity_scope endpoint") (auto simp: known_endpoint_def)
  then show ?thesis using assms(1,3)
    by (auto simp: row_to_store_def automatic_member_def member_check_def triple_ok_def
        known_scope_value_def split: if_splits)
qed

lemma store_member_total:
  assumes "find_current key db = None" "known_endpoint endpoint" "state = MemberDeleted \<Longrightarrow> d \<noteq> None"
  shows "\<exists>db'. store_member env thread key endpoint target anchor_key state d now db = Inr db'"
proof (cases "row_to_store thread key endpoint target anchor_key state d now")
  case (Some r)
  then have "member_check r" "mb_key r = key"
    using row_to_store_check [OF Some assms(2)] row_to_store_simps(1) [OF Some] assms(3) by auto
  then show ?thesis using assms(1) by (simp add: store_member_eq Some insert_member_Inr)
qed (simp add: store_member_eq)

lemma row_to_store_unchecked:
  assumes "row_to_store thread key endpoint target anchor_key state d now = Some r" "\<not> known_endpoint endpoint"
  shows "\<not> member_check r"
  using assms
  by (auto simp: row_to_store_def automatic_member_def member_check_def triple_ok_def known_endpoint_def
      known_scope_value_def split: if_splits)

lemma store_member_succeeds_iff:
  assumes "find_current key db = None" "state = MemberDeleted \<Longrightarrow> d \<noteq> None"
  shows "(\<exists>db'. store_member env thread key endpoint target anchor_key state d now db = Inr db') \<longleftrightarrow>
    known_endpoint endpoint \<or> row_to_store thread key endpoint target anchor_key state d now = None"
proof (cases "row_to_store thread key endpoint target anchor_key state d now")
  case (Some r)
  have "(\<exists>db'. store_member env thread key endpoint target anchor_key state d now db = Inr db') \<longleftrightarrow> member_check r"
    by (simp add: store_member_eq Some insert_member_Inr row_to_store_simps(1) [OF Some] assms(1))
  moreover have "member_check r \<longleftrightarrow> known_endpoint endpoint"
    using row_to_store_check [OF Some _ assms(2)] row_to_store_unchecked [OF Some] by blast
  ultimately show ?thesis by (simp add: Some)
qed (simp add: store_member_eq)

text \<open>For a thread that moves, everything before the final insertion succeeds.\<close>

lemma place_member_reduces:
  assumes "placed_ok db" "group_active target db" "\<not> stays key target db"
  obtains db2 state d where "find_current key db2 = None" "state = MemberDeleted \<Longrightarrow> d \<noteq> None"
    "place_member env thread key endpoint target anchor_key now db
     = store_member env thread key endpoint target anchor_key state d now db2"
    "new_membership env thread key endpoint target anchor_key now db
     = map_option (member_stored env) (row_to_store thread key endpoint target anchor_key state d now)"
proof (cases "find_current key db")
  case None
  show ?thesis
    by (rule that [of db MemberActive None]) (use None in \<open>simp_all add: place_member_def new_membership_def\<close>)
next
  case (Some m)
  note ok = placed_okD [OF assms(1)]
  let ?db1 = "snd (redirect_current env key (mb_group m) now db)"
  have m: "mb_provenance m \<noteq> ByOperator" "mb_group m \<noteq> target" using assms(3) Some by (auto simp: stays_def)
  have same1: "db_groups ?db1 = db_groups db" by simp
  note same = groups_only [OF same1]
  have ok1: "tables_ok ?db1" by (rule redirect_current_ok [OF ok(1)])
  have active1: "group_active target ?db1" using assms(2) by (simp only: same)
  from ok(3) [OF Some] obtain g where "find_group (mb_group m) ?db1 = Some g" "g_status g = GroupActive"
    by (auto simp: group_active_iff same)
  then obtain db2 where vacate: "vacate_group env (mb_group m) target now ?db1 = Inr db2"
    using vacate_group_eq [OF ok1 active1 m(2), of env now] by (auto split: if_splits)
  have "redirects_flat ?db1" using ok(2) by (simp only: same)
  then have free: "find_current key db2 = None"
    using vacate_group_keeps(3) [OF ok1 _ active1 m(2) vacate] find_current_redirect [OF ok(1)] Some by simp
  have stamped: "mb_deleted_at m \<noteq> None" if "mb_state m = MemberDeleted"
  proof -
    have "member_check m" using Some ok(1) by (auto simp: find_current_Some tables_ok_def list_all_iff)
    with that show ?thesis by (simp add: member_check_def)
  qed
  have "fst (redirect_current env key (mb_group m) now db)"
    using redirect_current_hit [OF ok(1)] Some by simp
  then show ?thesis
    using Some m vacate
    by (intro that [OF free stamped])
      (simp_all add: place_member_def case_prod_beta Let_def new_membership_def)
qed

lemma place_member_succeeds:
  assumes "placed_ok db" "group_active target db"
  shows "(\<exists>db'. place_member env thread key endpoint target anchor_key now db = Inr db') \<longleftrightarrow>
    stays key target db \<or> known_endpoint endpoint
    \<or> new_membership env thread key endpoint target anchor_key now db = None"
proof (cases "stays key target db")
  case False
  from place_member_reduces [OF assms False] obtain db2 state d where
    "find_current key db2 = None" "state = MemberDeleted \<Longrightarrow> d \<noteq> None"
    "place_member env thread key endpoint target anchor_key now db
     = store_member env thread key endpoint target anchor_key state d now db2"
    "new_membership env thread key endpoint target anchor_key now db
     = map_option (member_stored env) (row_to_store thread key endpoint target anchor_key state d now)"
    by metis
  then show ?thesis using store_member_succeeds_iff [of key db2 state d] False by simp
qed (simp add: place_member_stays)

lemma place_member_total:
  assumes "placed_ok db" "group_active target db" "known_endpoint endpoint"
  shows "\<exists>db'. place_member env thread key endpoint target anchor_key now db = Inr db'"
  using place_member_succeeds [OF assms(1,2)] assms(3) by blast

subsection \<open>A database for the witnesses\<close>

text \<open>
  Thread r is alone in group 1; thread s has just been linked under r and still leads group 2,
  with its child c; o is below c and an operator put it into group 3.
\<close>

definition sample_group :: "int \<Rightarrow> string \<Rightarrow> membership_provenance \<Rightarrow> group_row" where
  "sample_group i k authority = \<lparr>g_id = i, g_user = 7, g_key = k, g_title = None,
     g_status = GroupActive, g_authority = authority, g_redirect = None, g_created = 10, g_updated = 10\<rparr>"

definition sample_member :: "string \<Rightarrow> int \<Rightarrow> int \<Rightarrow> membership_provenance \<Rightarrow> member_row" where
  "sample_member key t i p = \<lparr>mb_group = i, mb_thread = Some t, mb_key = key, mb_user = 7,
     mb_source = None, mb_scope = None, mb_native = None, mb_role = RoleMember, mb_state = MemberActive,
     mb_provenance = p, mb_deleted_at = None, mb_created = 10, mb_updated = 10\<rparr>"

definition sample_relation :: "int \<Rightarrow> string \<Rightarrow> int \<Rightarrow> string \<Rightarrow> int \<Rightarrow> relation_row" where
  "sample_relation i child ct parent pt = \<lparr>rl_id = i, rl_parent_thread = Some pt, rl_child_thread = Some ct,
     rl_parent_key = parent, rl_child_key = child, rl_parent_user = 7, rl_parent_source = Some ''codex'',
     rl_parent_scope = Some '''', rl_parent_native = Some parent, rl_child_user = 7,
     rl_child_source = Some ''codex'', rl_child_scope = Some '''', rl_child_native = Some child,
     rl_type = Delegated, rl_state = RelationActive, rl_basis = SourceExact, rl_confidence = Some Exact,
     rl_observation = Some 1, rl_decision = None, rl_created = 10, rl_updated = 10\<rparr>"

definition sample_db :: group_db where
  "sample_db = \<lparr>db_drawn = 0,
     db_groups = [sample_group 1 ''k1'' ByReconciler, sample_group 2 ''k2'' ByReconciler,
       sample_group 3 ''k3'' ByOperator],
     db_members = [sample_member ''r'' 11 1 ByReconciler, sample_member ''s'' 12 2 ByReconciler,
       sample_member ''c'' 13 2 ByReconciler, sample_member ''o'' 14 3 ByOperator],
     db_relations = [sample_relation 21 ''s'' 12 ''r'' 11, sample_relation 22 ''c'' 13 ''s'' 12,
       sample_relation 23 ''o'' 14 ''c'' 13]\<rparr>"

definition sample_env :: group_env where
  "sample_env = \<lparr>env_id = (\<lambda>n. 100 + int n), env_clock = 50, env_nfc = (\<lambda>s. s), env_sha = (\<lambda>s. s)\<rparr>"

definition sample_endpoint :: "string \<Rightarrow> source_identity" where
  "sample_endpoint native = \<lparr>si_user_id = 7, si_source = ''codex'', si_identity_scope = Known '''',
     si_native_id = native\<rparr>"

lemma sample_db_ok: "placed_ok sample_db"
  by code_simp

subsection \<open>Placing a thread\<close>

text \<open>
  C27. Placing a thread in an active group keeps the invariant, changes the membership of no
  other thread, leaves a thread an operator fixed or that is already there alone, and gives any
  other thread a current membership in the target group: a deleted placeholder stays a deleted
  placeholder, a live thread gets a live row, and a live thread without a thread id none. Only
  the group the thread left can stop being active.
\<close>

theorem place_member_correct:
  assumes "placed_ok db" "group_active target db"
    "place_member env thread key endpoint target anchor_key now db = Inr db'"
  shows "placed_ok db'
    \<and> find_current k db' = (if k = key \<and> \<not> stays key target db
      then new_membership env thread key endpoint target anchor_key now db else find_current k db)
    \<and> (if group_active i db \<and> map_option mb_group (find_current key db) \<noteq> Some i
      then group_active i db' else True)"
proof -
  note keeps = place_member_keeps [OF assms]
  have "find_current k db' = (if k = key \<and> \<not> stays key target db
      then new_membership env thread key endpoint target anchor_key now db else find_current k db)"
    using assms(3) place_member_moves [OF assms(1,2) _ assms(3)]
    by (cases "stays key target db") (simp_all add: place_member_stays)
  then show ?thesis using keeps(1) keeps(8) [of i] by simp
qed

theorem place_member_correct_witness:
  "\<exists>db'. place_member sample_env (Some 12) ''s'' (sample_endpoint ''s'') 1 ''r'' 50 sample_db = Inr db'
    \<and> placed_ok db' \<and> find_current ''s'' db'
      = new_membership sample_env (Some 12) ''s'' (sample_endpoint ''s'') 1 ''r'' 50 sample_db"
proof -
  have active: "group_active 1 sample_db" and moves: "\<not> stays ''s'' 1 sample_db" by code_simp+
  have "known_endpoint (sample_endpoint ''s'')" by code_simp
  from place_member_total [OF sample_db_ok active this] obtain db' where
    "place_member sample_env (Some 12) ''s'' (sample_endpoint ''s'') 1 ''r'' 50 sample_db = Inr db'" by blast
  with place_member_correct [OF sample_db_ok active this, where k = "''s''"] moves show ?thesis by simp
qed

text \<open>
  When placing a thread can fail: none of the bail-outs of the code is reachable from a
  state with the invariant, and the insertion is refused exactly for a thread that would get a
  row while its endpoint has no known identity scope, because the row would then carry a source
  and a native id without a scope.
\<close>

theorem place_member_fails_iff:
  assumes "placed_ok db" "group_active target db"
  shows "isl (place_member env thread key endpoint target anchor_key now db) \<longleftrightarrow>
    \<not> stays key target db \<and> \<not> known_endpoint endpoint
    \<and> new_membership env thread key endpoint target anchor_key now db \<noteq> None"
  using place_member_succeeds [OF assms, of env thread key endpoint anchor_key now]
  by (cases "place_member env thread key endpoint target anchor_key now db") auto

theorem place_member_fails_iff_witness:
  "isl (place_member sample_env (Some 12) ''s'' ((sample_endpoint ''s'')\<lparr>si_identity_scope := Unknown\<rparr>)
     1 ''r'' 50 sample_db)"
proof -
  have "group_active 1 sample_db" by code_simp
  from place_member_fails_iff [OF sample_db_ok this] show ?thesis by (rule iffD2) code_simp
qed

end
