(* ===== verification/Group_Subtree.thy ===== *)
theory Group_Subtree
  imports Group_Invariant
begin

text \<open>
  What \<open>ensure_membership\<close> does to a whole subtree: the automatic descendants of the placed
  thread follow it into the group of its anchor, threads an operator fixed and everything
  behind them stay, and no other thread moves.
\<close>

subsection \<open>Automatic descendants\<close>

text \<open>Reached by active relations without passing a thread an operator fixed.\<close>

inductive auto_descendant :: "'a group_db_scheme \<Rightarrow> string \<Rightarrow> string \<Rightarrow> bool" for db start where
  child: "(k, start) \<in> active_edges db \<Longrightarrow> \<not> operator_fixed k db \<Longrightarrow> auto_descendant db start k"
| below: "auto_descendant db start p \<Longrightarrow> (k, p) \<in> active_edges db \<Longrightarrow> \<not> operator_fixed k db \<Longrightarrow>
    auto_descendant db start k"

lemma auto_descendant_not_fixed: "auto_descendant db start k \<Longrightarrow> \<not> operator_fixed k db"
  by (induction rule: auto_descendant.induct)

lemma auto_descendant_extend:
  "p = start \<or> auto_descendant db start p \<Longrightarrow> (k, p) \<in> active_edges db \<Longrightarrow> \<not> operator_fixed k db \<Longrightarrow>
   auto_descendant db start k"
  by (auto intro: auto_descendant.intros)

lemma auto_descendant_cong:
  assumes "db_relations db' = db_relations db" "\<And>k. operator_fixed k db' = operator_fixed k db"
  shows "auto_descendant db' start k = auto_descendant db start k"
proof -
  have edges: "active_edges db' = active_edges db" using assms(1) by (simp add: active_edges_def)
  have "auto_descendant db' start k" if "auto_descendant db start k" for k
    using that by (induction rule: auto_descendant.induct)
      (auto simp: edges assms(2) intro: auto_descendant.intros simp flip: edges)
  moreover have "auto_descendant db start k" if "auto_descendant db' start k" for k
    using that by (induction rule: auto_descendant.induct)
      (auto simp: edges assms(2) intro: auto_descendant.intros)
  ultimately show ?thesis by blast
qed

subsection \<open>The loop invariant\<close>

text \<open>
  The membership of a thread after it was placed in an active group: \<open>place_member\<close> leaves the
  threads that stay, and gives every other one the new row.
\<close>

definition placed_in ::
  "group_env \<Rightarrow> int option \<Rightarrow> string \<Rightarrow> source_identity \<Rightarrow> int \<Rightarrow> string \<Rightarrow> int \<Rightarrow> 'a group_db_scheme
    \<Rightarrow> member_row option" where
  "placed_in env thread k endpoint target anchor_key now db =
     (if stays k target db then find_current k db
      else new_membership env thread k endpoint target anchor_key now db)"

lemma place_member_current:
  assumes "placed_ok db" "group_active target db"
    "place_member env thread key endpoint target anchor_key now db = Inr db'"
  shows "find_current key db' = placed_in env thread key endpoint target anchor_key now db"
  using assms(3) place_member_moves [OF assms(1,2) _ assms(3)]
  by (cases "stays key target db") (simp_all add: placed_in_def place_member_stays)

lemma placed_in_cong:
  assumes "find_current k db = find_current k db0"
  shows "placed_in env thread k endpoint target anchor_key now db = placed_in env thread k endpoint target anchor_key now db0"
  by (simp add: placed_in_def stays_def new_membership_def assms)

lemma placed_in_target:
  assumes "placed_in env thread k endpoint target anchor_key now db = Some m" "\<not> operator_fixed k db"
  shows "mb_group m = target"
  using assms new_membership_place(2) by (fastforce simp: placed_in_def stays_def operator_fixed_def split: if_splits option.splits)

text \<open>A descendant that was placed, with the thread and endpoint of its active relation.\<close>

definition relocated ::
  "group_env \<Rightarrow> int \<Rightarrow> int \<Rightarrow> 'a group_db_scheme \<Rightarrow> string \<Rightarrow> 'a group_db_scheme \<Rightarrow> bool" where
  "relocated env target now db0 k db \<longleftrightarrow> (\<exists>r. find_active_parent k db0 = Some r
     \<and> find_current k db = placed_in env (rl_child_thread r) k (child_endpoint r) target [] now db0)"

lemma relocated_cong: "find_current k db = find_current k db' \<Longrightarrow> relocated env target now db0 k db = relocated env target now db0 k db'"
  by (simp add: relocated_def)

definition moving ::
  "group_env \<Rightarrow> int \<Rightarrow> 'a group_db_scheme \<Rightarrow> string \<Rightarrow> int \<Rightarrow> string set \<Rightarrow> string list \<Rightarrow> 'a group_db_scheme \<Rightarrow> bool" where
  "moving env now db0 start target enqueued queue db \<longleftrightarrow>
     placed_ok db \<and> group_active target db \<and> db_relations db = db_relations db0 \<and> tables_ok db0
     \<and> (\<forall>k. operator_fixed k db = operator_fixed k db0)
     \<and> (\<forall>k. k = start \<or> \<not> auto_descendant db0 start k \<or> k \<notin> enqueued \<longrightarrow> find_current k db = find_current k db0)
     \<and> (\<forall>k \<in> enqueued. k = start \<or> operator_fixed k db0
          \<or> auto_descendant db0 start k \<and> relocated env target now db0 k db)
     \<and> (\<forall>k \<in> set queue. k = start \<or> auto_descendant db0 start k) \<and> start \<in> enqueued"

lemma movingD:
  assumes "moving env now db0 start target enqueued queue db"
  shows "placed_ok db" "group_active target db" "db_relations db = db_relations db0"
    "operator_fixed k db = operator_fixed k db0" "start \<in> enqueued"
    "k = start \<or> \<not> auto_descendant db0 start k \<or> k \<notin> enqueued \<Longrightarrow> find_current k db = find_current k db0"
    "tables_ok db0"
  using assms by (auto simp: moving_def)

lemma moving_place:
  assumes "moving env now db0 start target enqueued queue db" "k \<notin> enqueued" "auto_descendant db0 start k"
    "find_active_parent k db0 = Some r"
    "place_member env (rl_child_thread r) k (child_endpoint r) target [] now db = Inr db'"
  shows "moving env now db0 start target (insert k enqueued) (k # queue) db'"
proof -
  note old = movingD [OF assms(1)]
  note keeps = place_member_keeps [OF old(1,2) assms(5)]
  have "k \<noteq> start" using old(5) assms(2) by auto
  have "find_current k db' = placed_in env (rl_child_thread r) k (child_endpoint r) target [] now db0"
    using place_member_current [OF old(1,2) assms(5)] placed_in_cong [OF old(6) [of k]] assms(2) by simp
  with assms(4) have here: "relocated env target now db0 k db'" by (auto simp: relocated_def)
  have others: "relocated env target now db0 k' db' = relocated env target now db0 k' db" if "k' \<noteq> k" for k'
    by (rule relocated_cong) (simp add: keeps(4) [OF that])
  have "find_current k' db' = find_current k' db0"
    if "k' = start \<or> \<not> auto_descendant db0 start k' \<or> k' \<notin> insert k enqueued" for k'
    proof -
    have "k' \<noteq> k" using that \<open>k \<noteq> start\<close> assms(3) by auto
    with that old(6) [of k'] keeps(4) [of k'] show ?thesis by auto
  qed
  moreover have "k' = start \<or> operator_fixed k' db0 \<or> auto_descendant db0 start k' \<and> relocated env target now db0 k' db'"
    if "k' \<in> insert k enqueued" for k'
    using that here others [of k'] assms(1-3) by (cases "k' = k") (auto simp: moving_def)
  ultimately show ?thesis
    using keeps(1-3,5) old(3-5,7) assms(1,3) by (auto simp: moving_def)
qed

lemma moving_skip:
  assumes "moving env now db0 start target enqueued queue db" "operator_fixed k db"
  shows "moving env now db0 start target (insert k enqueued) queue db"
  using assms movingD(4) [OF assms(1), of k] by (auto simp: moving_def)

lemma list_active_children_edges:
  "c \<in> rl_child_key ` set (list_active_children p db) \<longleftrightarrow> (c, p) \<in> active_edges db"
  by (auto simp: list_active_children_def active_edges_def image_iff)

lemma move_children_moving:
  assumes "moving env now db0 start target enqueued queue db"
    "\<forall>r \<in> set rs. r \<in> set (list_active_children p db0)"
    "p = start \<or> auto_descendant db0 start p"
    "move_children env target now rs enqueued queue db = Inr (enqueued', queue', db')"
  shows "moving env now db0 start target enqueued' queue' db' \<and> set queue \<subseteq> set queue'
    \<and> (\<forall>k \<in> enqueued'. k \<in> enqueued \<or> operator_fixed k db0 \<or> k \<in> set queue')"
  using assms(1,2,4)
proof (induction rs arbitrary: enqueued queue db)
  case (Cons r rs)
  let ?k = "rl_child_key r"
  have row: "r \<in> set (list_active_children p db0)" and rest: "\<forall>r \<in> set rs. r \<in> set (list_active_children p db0)"
    using Cons.prems(2) by auto
  have edge: "(?k, p) \<in> active_edges db0"
    using row list_active_children_edges [of ?k p db0] by auto
  consider (seen) "?k \<in> enqueued" | (fixed) "?k \<notin> enqueued" "operator_fixed ?k db"
    | (moved) "?k \<notin> enqueued" "\<not> operator_fixed ?k db" by blast
  then show ?case
  proof cases
    case seen
    with Cons.prems(3) have "move_children env target now rs enqueued queue db = Inr (enqueued', queue', db')"
      by simp
    from Cons.IH [OF Cons.prems(1) rest this] show ?thesis .
  next
    case fixed
    with Cons.prems(3)
    have "move_children env target now rs (insert ?k enqueued) queue db = Inr (enqueued', queue', db')"
      by simp
    from Cons.IH [OF moving_skip [OF Cons.prems(1) fixed(2)] rest this] show ?thesis
      using fixed(2) movingD(4) [OF Cons.prems(1), of ?k] by auto
  next
    case moved
    with Cons.prems(3) obtain db1 where
      place: "place_member env (rl_child_thread r) ?k (child_endpoint r) target [] now db = Inr db1"
      and next_step: "move_children env target now rs (insert ?k enqueued) (?k # queue) db1
        = Inr (enqueued', queue', db')"
      by (auto simp: Let_def elim!: and_then_InrE)
    have parent: "find_active_parent ?k db0 = Some r"
      using row movingD(7) [OF Cons.prems(1)] by (auto simp: find_active_parent_Some list_active_children_def)
    have "auto_descendant db0 start ?k"
      using auto_descendant_extend [OF assms(3) edge] moved(2) movingD(4) [OF Cons.prems(1), of ?k] by simp
    from Cons.IH [OF moving_place [OF Cons.prems(1) moved(1) this parent place] rest next_step]
    show ?thesis by auto
  qed
qed simp

definition closed :: "'a group_db_scheme \<Rightarrow> string \<Rightarrow> string set \<Rightarrow> string list \<Rightarrow> bool" where
  "closed db0 start enqueued queue \<longleftrightarrow>
     (\<forall>k \<in> enqueued. k \<in> set queue \<or> k \<noteq> start \<and> operator_fixed k db0
       \<or> (\<forall>c. (c, k) \<in> active_edges db0 \<longrightarrow> c \<in> enqueued))"

lemma closed_all:
  assumes "closed db0 start enqueued []" "start \<in> enqueued" "auto_descendant db0 start k"
  shows "k \<in> enqueued"
  using assms(3)
proof (induction rule: auto_descendant.induct)
  case (child k)
  with assms(1,2) show ?case by (auto simp: closed_def)
next
  case (below p k)
  with assms(1) auto_descendant_not_fixed [OF below.hyps(1)] show ?case by (auto simp: closed_def)
qed

lemma reassign_moving:
  assumes "moving env now db0 start target enqueued queue db" "closed db0 start enqueued queue"
    "reassign env target now enqueued queue db = Inr db'"
  shows "\<exists>enqueued'. moving env now db0 start target enqueued' [] db' \<and> closed db0 start enqueued' []"
  using assms
proof (induction env target now enqueued queue db rule: reassign.induct)
  case (2 env target now enqueued p queue db)
  from "2.prems"(3) obtain enqueued' queue' db1 where
    step: "move_children env target now (list_active_children p db) enqueued queue db
      = Inr (enqueued', queue', db1)"
    and rest: "reassign env target now enqueued' queue' db1 = Inr db'"
    by (subst (asm) reassign.simps) (auto elim!: and_then_InrE)
  have edges: "active_edges db = active_edges db0"
    using movingD(3) [OF "2.prems"(1)] by (simp add: active_edges_def)
  have popped: "moving env now db0 start target enqueued queue db"
    using "2.prems"(1) by (auto simp: moving_def)
  have p: "p = start \<or> auto_descendant db0 start p" using "2.prems"(1) by (simp add: moving_def)
  have children: "\<forall>r \<in> set (list_active_children p db). r \<in> set (list_active_children p db0)"
    using movingD(3) [OF "2.prems"(1)] by (simp add: list_active_children_def)
  note moved = move_children_moving [OF popped children p step]
  have grown: "enqueued' = enqueued \<union> rl_child_key ` set (list_active_children p db)"
    using move_children_grows [OF step] by blast
  have all_in: "c \<in> enqueued'" if "(c, p) \<in> active_edges db0" for c
    using that grown list_active_children_edges [of c p db] edges by auto
  have "closed db0 start enqueued' queue'"
    unfolding closed_def
  proof
    fix k assume k: "k \<in> enqueued'"
    have start: "start \<in> enqueued" using movingD(5) [OF popped] .
    consider "k \<in> set queue'" | "k = p" | "k \<in> enqueued" "k \<noteq> p" "k \<notin> set queue"
      | "k \<notin> enqueued" "operator_fixed k db0"
      using k moved by auto
    then show "k \<in> set queue' \<or> k \<noteq> start \<and> operator_fixed k db0
       \<or> (\<forall>c. (c, k) \<in> active_edges db0 \<longrightarrow> c \<in> enqueued')"
    proof cases
      case 2 with all_in show ?thesis by blast
    next
      case 3
      with "2.prems"(2) grown show ?thesis by (fastforce simp: closed_def)
    next
      case 4 with start show ?thesis by auto
    qed blast
  qed
  then show ?case using "2.IH" [OF step refl refl _ _ rest] moved by auto
qed (auto simp: reassign.simps)

text \<open>The whole subtree moves and nothing else does.\<close>

lemma reassign_result:
  assumes "placed_ok db" "group_active target db"
    "reassign_automatic_descendants env start target now db = Inr db'"
  shows "placed_ok db'" "group_active target db'" "db_relations db' = db_relations db"
    "operator_fixed k db' = operator_fixed k db"
    "auto_descendant db start k \<Longrightarrow> k \<noteq> start \<Longrightarrow> relocated env target now db k db'"
    "k = start \<or> \<not> auto_descendant db start k \<Longrightarrow> find_current k db' = find_current k db"
proof -
  have "moving env now db start target {start} [start] db"
    using assms(1,2) placed_okD(1) [OF assms(1)] by (simp add: moving_def)
  moreover have "closed db start {start} [start]" by (simp add: closed_def)
  ultimately obtain enqueued where m: "moving env now db start target enqueued [] db'" "closed db start enqueued []"
    using reassign_moving assms(3) unfolding reassign_automatic_descendants_def by blast
  show "placed_ok db'" "group_active target db'" "db_relations db' = db_relations db"
    "operator_fixed k db' = operator_fixed k db"
    "k = start \<or> \<not> auto_descendant db start k \<Longrightarrow> find_current k db' = find_current k db"
    using movingD [OF m(1)] by blast+
  show "relocated env target now db k db'" if "auto_descendant db start k" "k \<noteq> start"
    using closed_all [OF m(2) movingD(5) [OF m(1)] that(1)] auto_descendant_not_fixed [OF that(1)] that m(1)
    by (auto simp: moving_def)
qed

text \<open>It always succeeds on relations whose children are complete endpoints.\<close>

definition children_known :: "'a group_db_scheme \<Rightarrow> bool" where
  "children_known db \<longleftrightarrow> list_all (\<lambda>r. rl_child_scope r \<noteq> None) (db_relations db)"

lemma known_child_endpoint: "known_endpoint (child_endpoint r) \<longleftrightarrow> rl_child_scope r \<noteq> None"
  by (auto simp: known_endpoint_def child_endpoint_def scope_of_def split: option.splits)

lemma move_children_total:
  assumes "placed_ok db" "group_active target db" "list_all (\<lambda>r. rl_child_scope r \<noteq> None) rs"
  shows "\<exists>enqueued' queue' db'. placed_ok db' \<and> group_active target db' \<and>
    move_children env target now rs enqueued queue db = Inr (enqueued', queue', db')"
  using assms
proof (induction rs arbitrary: enqueued queue db)
  case (Cons r rs)
  have rest: "list_all (\<lambda>r. rl_child_scope r \<noteq> None) rs" using Cons.prems(3) by simp
  have "known_endpoint (child_endpoint r)" using Cons.prems(3) by (simp add: known_child_endpoint)
  then obtain db1 where place:
    "place_member env (rl_child_thread r) (rl_child_key r) (child_endpoint r) target [] now db = Inr db1"
    using place_member_total [OF Cons.prems(1,2)] by blast
  note keeps = place_member_keeps(1,2) [OF Cons.prems(1,2) place]
  show ?case
    using Cons.IH [OF Cons.prems(1,2) rest] Cons.IH [OF keeps rest] place
    by (simp add: Let_def)
qed simp

lemma reassign_total:
  assumes "placed_ok db" "group_active target db" "children_known db"
  shows "\<exists>db'. reassign env target now enqueued queue db = Inr db'"
  using assms
proof (induction env target now enqueued queue db rule: reassign.induct)
  case (2 env target now enqueued p queue db)
  have "list_all (\<lambda>r. rl_child_scope r \<noteq> None) (list_active_children p db)"
    using "2.prems"(3) by (auto simp: children_known_def list_active_children_def list_all_iff)
  then obtain enqueued' queue' db1 where
    step: "placed_ok db1" "group_active target db1"
      "move_children env target now (list_active_children p db) enqueued queue db = Inr (enqueued', queue', db1)"
    using move_children_total [OF "2.prems"(1,2)] by blast
  moreover have "children_known db1"
    using "2.prems"(3) move_children_grows [OF step(3)] by (simp add: children_known_def)
  ultimately show ?case using "2.IH" [OF step(3) refl refl] by (simp add: reassign.simps)
qed (simp add: reassign.simps)

subsection \<open>The anchor\<close>

lemma create_group_keeps:
  assumes "placed_ok db" "create_group env new db = Inr (i, db')" "g_status new = GroupActive"
  shows "placed_ok db'" "group_active i db'" "find_current k db' = find_current k db"
    "group_active j db \<Longrightarrow> group_active j db'"
proof -
  note ok = placed_okD [OF assms(1)]
  note look = find_group_create [OF assms(2)]
  have fresh: "find_group i db = None"
    using assms(2) by (auto simp: create_group_Inr find_group_def find_None_iff)
  have ok': "tables_ok db'" by (rule create_group_ok [OF ok(1) assms(2)])
  show here: "group_active i db'" by (simp add: group_active_def look assms(3))
  show kept: "group_active j db'" if "group_active j db" for j
    using that fresh by (auto simp: group_active_def look split: option.splits)
  show same: "find_current k db' = find_current k db" for k
    using create_group_frame [OF assms(2)] by (simp add: find_current_def)
  have "g_redirect (group_created env (db_drawn db) new) = None"
    using active_no_redirect [OF ok' look [of i, simplified]] assms(3) by simp
  then have "redirects_flat db'"
    using ok(2) fresh unfolding redirects_flat_iff [OF ok'] redirects_flat_iff [OF ok(1)]
    by (auto simp: look)
  then show "placed_ok db'" using ok' ok(3) same kept by (intro placed_okI) auto
qed

lemma place_member_hit:
  assumes "placed_ok db" "group_active target db" "\<not> operator_fixed key db" "thread \<noteq> None"
    "place_member env thread key endpoint target anchor_key now db = Inr db'"
  shows "map_option mb_group (find_current key db') = Some target"
proof (cases "stays key target db")
  case True
  with assms(3,5) show ?thesis
    by (auto simp: place_member_stays stays_def operator_fixed_def split: option.splits)
next
  case False
  have "find_current key db' = new_membership env thread key endpoint target anchor_key now db"
    using place_member_moves [OF assms(1,2) False assms(5)] by auto
  moreover have "new_membership env thread key endpoint target anchor_key now db \<noteq> None"
    using assms(4) by (auto simp: new_membership_def row_to_store_def split: option.split)
  ultimately show ?thesis using new_membership_place(2) by fastforce
qed

text \<open>The keys of the group rows survive placing threads.\<close>

definition group_keys :: "'a group_db_scheme \<Rightarrow> (int \<times> string) list" where
  "group_keys db = map (\<lambda>g. (g_id g, g_key g)) (db_groups db)"

lemma find_group_key:
  assumes "group_keys db' = group_keys db"
  shows "map_option g_key (find_group i db') = map_option g_key (find_group i db)"
proof -
  have "map_option g_key (find (\<lambda>g. g_id g = i) gs) = map_option snd (find (\<lambda>p. fst p = i) (map (\<lambda>g. (g_id g, g_key g)) gs))"
    for gs :: "group_row list" by (induction gs) auto
  then show ?thesis using assms by (simp only: find_group_def group_keys_def)
qed

lemma update_groups_keys:
  assumes "update_groups p f db = Inr (b, db')" "\<And>g. g_id (f g) = g_id g \<and> g_key (f g) = g_key g"
  shows "group_keys db' = group_keys db"
  using assms by (simp add: update_groups_Inr group_keys_def)

lemma repoint_all_keys: "repoint_all env is old target now db = Inr db' \<Longrightarrow> group_keys db' = group_keys db"
proof (induction "is" arbitrary: db)
  case (Cons i js)
  then obtain b db1 where "repoint_redirect_from env i old target now db = Inr (b, db1)"
    "repoint_all env js old target now db1 = Inr db'"
    by (auto elim!: and_then_InrE split: if_splits)
  with Cons.IH update_groups_keys show ?case by (fastforce simp: repoint_redirect_from_def)
qed simp

lemma vacate_group_keys:
  assumes "vacate_group env old target now db = Inr db'"
  shows "group_keys db' = group_keys db"
proof -
  have "group_keys db1 = group_keys db" if "redirect_group env old target now db = Inr (b, db1)" for b db1
    using that unfolding redirect_group_def by (rule update_groups_keys) simp
  with assms show ?thesis unfolding vacate_group_def Let_def
    by (auto elim!: and_then_InrE split: if_splits option.splits dest!: repoint_all_keys)
qed

lemma store_member_keys:
  "store_member env thread key endpoint target anchor_key state d now db = Inr db' \<Longrightarrow> group_keys db' = group_keys db"
  by (simp add: group_keys_def store_member_frame)

lemma place_member_keys:
  assumes "place_member env thread key endpoint target anchor_key now db = Inr db'"
  shows "group_keys db' = group_keys db"
proof (cases "find_current key db")
  case None
  with assms store_member_keys show ?thesis by (simp add: place_member_def)
next
  case (Some m)
  have "group_keys (snd (redirect_current env key (mb_group m) now db)) = group_keys db" by (simp add: group_keys_def)
  with assms Some show ?thesis
    by (auto simp: place_member_def case_prod_beta Let_def elim!: and_then_InrE split: if_splits
        dest!: store_member_keys vacate_group_keys)
qed

lemma move_children_keys:
  "move_children env target now rs enqueued queue db = Inr (enqueued', queue', db') \<Longrightarrow> group_keys db' = group_keys db"
proof (induction rs arbitrary: enqueued queue db)
  case (Cons r rs)
  then show ?case
    by (auto simp: Let_def elim!: and_then_InrE split: if_splits dest!: place_member_keys)
qed simp

lemma reassign_keys: "reassign env target now enqueued queue db = Inr db' \<Longrightarrow> group_keys db' = group_keys db"
proof (induction env target now enqueued queue db rule: reassign.induct)
  case (2 env target now enqueued key queue db)
  from "2.prems" obtain enqueued' queue' db1 where
    step: "move_children env target now (list_active_children key db) enqueued queue db
      = Inr (enqueued', queue', db1)"
    and rest: "reassign env target now enqueued' queue' db1 = Inr db'"
    by (subst (asm) reassign.simps) (auto elim!: and_then_InrE)
  show ?case using "2.IH" [OF step refl refl rest] move_children_keys [OF step] by simp
qed (simp add: reassign.simps)

text \<open>
  The thread and endpoint of a topmost ancestor: those of the parent the walk started from, or
  those the relation names by which the ancestor was reached.
\<close>

definition top_endpoint ::
  "'a group_db_scheme \<Rightarrow> string \<Rightarrow> int option \<Rightarrow> source_identity \<Rightarrow> string \<Rightarrow> int option \<Rightarrow> source_identity \<Rightarrow> bool" where
  "top_endpoint db pkey thread parent k tid endpoint \<longleftrightarrow>
     (if k = pkey then tid = thread \<and> endpoint = parent
      else \<exists>r. (pkey, rl_child_key r) \<in> (climb db)\<^sup>* \<and> find_active_parent (rl_child_key r) db = Some r
        \<and> rl_parent_key r = k \<and> tid = rl_parent_thread r \<and> endpoint = parent_endpoint r)"

lemma walk_anchor_top:
  assumes "tables_ok db" "acyclic (active_edges db)" "walk_anchor db visited key thread endpoint = Topmost k t e"
  shows "(key, k) \<in> (climb db)\<^sup>* \<and> top_endpoint db key thread endpoint k t e"
  using assms
proof (induction db visited key thread endpoint rule: walk_anchor.induct)
  case (1 db visited key thread endpoint)
  show ?case
  proof (cases "key \<in> visited \<or> find_current key db \<noteq> None \<or> find_active_parent key db = None")
    case True
    with "1.prems"(3) have "k = key \<and> t = thread \<and> e = endpoint"
      by (subst (asm) walk_anchor.simps) (auto split: option.splits if_splits)
    then show ?thesis by (simp add: top_endpoint_def)
  next
    case False
    then obtain r where r: "key \<notin> visited" "find_current key db = None" "find_active_parent key db = Some r"
      by auto
    have "walk_anchor db (insert key visited) (rl_parent_key r) (rl_parent_thread r) (parent_endpoint r) = Topmost k t e"
      using "1.prems"(3) r by (subst (asm) walk_anchor.simps) simp
    note IH = "1.IH" [OF r "1.prems"(1,2) this]
    have step: "(key, rl_parent_key r) \<in> climb db"
      using r active_edges_parent [OF "1.prems"(1), of key "rl_parent_key r"] by (simp add: climb_def)
    have child: "rl_child_key r = key" using r(3) by (auto simp: find_active_parent_def find_Some_iff)
    have sub: "climb db \<subseteq> active_edges db" by (auto simp: climb_def)
    have reach: "(key, k) \<in> (climb db)\<^sup>+" using step IH by (auto intro: rtrancl_into_trancl2)
    then have "k \<noteq> key" using "1.prems"(2) trancl_mono [OF _ sub] by (auto simp: acyclic_def)
    moreover have "\<exists>r. (key, rl_child_key r) \<in> (climb db)\<^sup>* \<and> find_active_parent (rl_child_key r) db = Some r
        \<and> rl_parent_key r = k \<and> t = rl_parent_thread r \<and> e = parent_endpoint r"
    proof (cases "k = rl_parent_key r")
      case True
      with IH r(3) child show ?thesis by (intro exI [of _ r]) (simp add: top_endpoint_def)
    next
      case False
      with IH step show ?thesis by (auto simp: top_endpoint_def intro: converse_rtrancl_into_rtrancl)
    qed
    ultimately show ?thesis using reach by (auto simp: top_endpoint_def)
  qed
qed

text \<open>
  What the group of the anchor is: the group of the nearest ancestor with a membership, which
  keeps it; or the group derived from the topmost ancestor, an existing active one or a new one,
  which that ancestor joins as its root.
\<close>

definition anchored_at ::
  "group_env \<Rightarrow> int option \<Rightarrow> string \<Rightarrow> source_identity \<Rightarrow> int \<Rightarrow> int \<Rightarrow> string
    \<Rightarrow> 'a group_db_scheme \<Rightarrow> 'a group_db_scheme \<Rightarrow> bool" where
  "anchored_at env thread pkey parent now target anchor_key db db' \<longleftrightarrow>
     (pkey, anchor_key) \<in> (climb db)\<^sup>*
     \<and> (case find_current anchor_key db of
          Some m \<Rightarrow> mb_group m = target \<and> find_current anchor_key db' = Some m
        | None \<Rightarrow> find_active_parent anchor_key db = None
            \<and> target = (case find_active_group
                  (reconciler_group_canonical_key (env_nfc env) (env_sha env) anchor_key) db of
                 Some g \<Rightarrow> g_id g | None \<Rightarrow> env_id env (db_drawn db))
            \<and> map_option g_key (find_group target db')
              = Some (reconciler_group_canonical_key (env_nfc env) (env_sha env) anchor_key)
            \<and> (\<exists>top endpoint. top_endpoint db pkey thread parent anchor_key top endpoint
                \<and> find_current anchor_key db' = new_membership env top anchor_key endpoint target anchor_key now db))"

lemma resolve_anchor_keeps:
  assumes "placed_ok db"
    "resolve_anchor_group env thread pkey parent owner now db = Inr ((target, anchor_key), db')"
  shows "placed_ok db' \<and> group_active target db' \<and> db_relations db' = db_relations db
    \<and> (\<forall>k. operator_fixed k db' = operator_fixed k db)
    \<and> (\<forall>k. k \<noteq> anchor_key \<longrightarrow> find_current k db' = find_current k db)
    \<and> (acyclic (active_edges db) \<longrightarrow> anchored_at env thread pkey parent now target anchor_key db db')"
proof -
  note ok = placed_okD [OF assms(1)]
  note steps = walk_anchor_steps [OF ok(1), where visited = "{}" and key = pkey and thread = thread and endpoint = parent]
  show ?thesis
  proof (cases "walk_anchor db {} pkey thread parent")
    case (Anchored i key)
    with assms(2) have same: "target = i" "anchor_key = key" "db' = db"
      by (simp_all add: resolve_anchor_group_def)
    from steps Anchored obtain m' where "find_current key db = Some m'" "mb_group m' = i" by auto
    with steps Anchored same ok(3) assms(1) show ?thesis by (auto simp: anchored_at_def)
  next
    case (Topmost key top endpoint)
    with steps have top: "(pkey, key) \<in> (climb db)\<^sup>*" "find_current key db = None"
      "find_active_parent key db = None \<or> (key, key) \<in> (climb db)\<^sup>+" by auto
    let ?gkey = "reconciler_group_canonical_key (env_nfc env) (env_sha env) key"
    from assms(2) Topmost obtain db1 where
      made: "find_active_group ?gkey db = Some g \<Longrightarrow> target = g_id g \<and> db1 = db"
        "find_active_group ?gkey db = None \<Longrightarrow>
          \<exists>u. create_group env (reconciler_group env u ?gkey now) db = Inr (target, db1)"
      and placed: "(if find_current key db1 = None
         then place_member env top key endpoint target key now db1 else Inr db1) = Inr db'"
      and same: "anchor_key = key" for g
      by (auto simp: resolve_anchor_group_def Let_def elim!: and_then_InrE split: option.splits)
    have all: "placed_ok db1 \<and> group_active target db1 \<and> db_relations db1 = db_relations db
        \<and> find_current k db1 = find_current k db \<and> map_option g_key (find_group target db1) = Some ?gkey
        \<and> target = (case find_active_group ?gkey db of Some g \<Rightarrow> g_id g | None \<Rightarrow> env_id env (db_drawn db))" for k
    proof (cases "find_active_group ?gkey db")
      case None
      then obtain u where create: "create_group env (reconciler_group env u ?gkey now) db = Inr (target, db1)"
        using made(2) by blast
      note keeps = create_group_keeps [OF assms(1) create]
      show ?thesis
        using keeps(1-3) create_group_frame [OF create] find_group_create [OF create, of target] create None
        by (simp add: reconciler_group_def create_group_Inr)
    next
      case (Some g)
      then have "find_group (g_id g) db = Some g" "g_status g = GroupActive" "g_key g = ?gkey"
        by (simp_all add: find_active_group_Some [OF ok(1)] find_group_Some [OF ok(1)])
      with Some made(1) assms(1) show ?thesis by (simp add: group_active_iff)
    qed
    then have db1: "placed_ok db1" "group_active target db1" "db_relations db1 = db_relations db"
      "find_current k db1 = find_current k db" "map_option g_key (find_group target db1) = Some ?gkey"
      "target = (case find_active_group ?gkey db of Some g \<Rightarrow> g_id g | None \<Rightarrow> env_id env (db_drawn db))"
      for k by blast+
    have place: "place_member env top key endpoint target key now db1 = Inr db'"
      using placed top(2) db1(4) by simp
    note keeps = place_member_keeps [OF db1(1,2) place]
    have fixed: "operator_fixed k db1 = operator_fixed k db" for k by (simp add: operator_fixed_def db1(4))
    have stored: "find_current key db' = new_membership env top key endpoint target key now db"
      using place_member_current [OF db1(1,2) place] placed_in_cong [OF db1(4) [of key]] top(2)
      by (simp add: placed_in_def stays_def)
    have named: "map_option g_key (find_group target db') = Some ?gkey"
      using find_group_key [OF place_member_keys [OF place]] db1(5) by simp
    have "anchored_at env thread pkey parent now target key db db'" if acyc: "acyclic (active_edges db)"
    proof -
      have sub: "climb db \<subseteq> active_edges db" by (auto simp: climb_def)
      have "find_active_parent key db = None"
        using top(3) acyc trancl_mono [OF _ sub] by (auto simp: acyclic_def)
      moreover have "top_endpoint db pkey thread parent key top endpoint"
        using walk_anchor_top [OF ok(1) acyc Topmost] by blast
      ultimately show ?thesis
        unfolding anchored_at_def using top(1,2) db1(6) named stored by (auto simp: top(2))
    qed
    then show ?thesis using keeps(1-5) db1(3,4) fixed same by simp
  qed
qed

subsection \<open>\<open>ensure_membership\<close>\<close>

lemma ensure_membership_steps:
  assumes "placed_ok db" "\<not> operator_fixed subject_key db"
    "ensure_membership env t subject_key subject thread pkey parent owner now db = Inr db'"
  obtains target anchor_key db1 db2 where
    "resolve_anchor_group env thread pkey parent owner now db = Inr ((target, anchor_key), db1)"
    "place_member env (Some t) subject_key subject target anchor_key now db1 = Inr db2"
    "reassign_automatic_descendants env subject_key target now db2 = Inr db'"
  using assms by (auto simp: ensure_membership_def elim!: and_then_InrE)

lemma ensure_membership_keeps:
  assumes "placed_ok db" "\<not> operator_fixed subject_key db"
    "ensure_membership env t subject_key subject thread pkey parent owner now db = Inr db'"
  shows "placed_ok db' \<and> db_relations db' = db_relations db"
proof -
  from ensure_membership_steps [OF assms] obtain target anchor_key db1 db2 where
    anchor: "resolve_anchor_group env thread pkey parent owner now db = Inr ((target, anchor_key), db1)"
    and place: "place_member env (Some t) subject_key subject target anchor_key now db1 = Inr db2"
    and move: "reassign_automatic_descendants env subject_key target now db2 = Inr db'" .
  from resolve_anchor_keeps [OF assms(1) anchor]
  have a: "placed_ok db1" "group_active target db1" "db_relations db1 = db_relations db" by blast+
  note p = place_member_keeps [OF a(1,2) place]
  from reassign_result [OF p(1,2) move] p(3) a(3) show ?thesis by simp
qed

lemma auto_descendant_below: "auto_descendant db start k \<Longrightarrow> (k, start) \<in> (active_edges db)\<^sup>+"
  by (induction rule: auto_descendant.induct) (auto intro: trancl_into_trancl2)

lemma anchor_apart:
  assumes "anchored_at env thread pkey parent now target anchor_key db db'" "acyclic (active_edges db)"
    "(pkey, k) \<notin> (active_edges db)\<^sup>*"
  shows "anchor_key \<noteq> k" "\<not> auto_descendant db k anchor_key" "\<not> auto_descendant db k k"
proof -
  have "climb db \<subseteq> active_edges db" by (auto simp: climb_def)
  with assms(1) have up: "(pkey, anchor_key) \<in> (active_edges db)\<^sup>*"
    unfolding anchored_at_def using rtrancl_mono by blast
  with assms(3) show "anchor_key \<noteq> k" by auto
  show "\<not> auto_descendant db k anchor_key"
    using up assms(3) auto_descendant_below by (metis rtrancl_trans trancl_into_rtrancl)
  show "\<not> auto_descendant db k k" using assms(2) auto_descendant_below by (auto simp: acyclic_def)
qed

text \<open>
  C24. Attaching a thread to its parent. The walk goes up from the parent through threads
  without a membership; it stops at the nearest ancestor that has one, whose group and membership
  stay, or at the topmost ancestor, which joins the group named after it, the active one or a
  new one. The thread itself and every automatic descendant get exactly the membership of a
  thread placed in that group: a row in it, unless they are there already (a deleted placeholder
  stays one, and only a live thread whose relation has lost its thread id is left without a row).
  No other thread changes, and the invariant holds again.
\<close>

theorem ensure_membership_correct:
  assumes "placed_ok db" "acyclic (active_edges db)" "(pkey, subject_key) \<notin> (active_edges db)\<^sup>*"
    "\<not> operator_fixed subject_key db"
    "ensure_membership env t subject_key subject thread pkey parent owner now db = Inr db'"
  shows "\<exists>target anchor_key. placed_ok db' \<and> group_active target db'
    \<and> anchored_at env thread pkey parent now target anchor_key db db'
    \<and> find_current subject_key db' = placed_in env (Some t) subject_key subject target anchor_key now db
    \<and> map_option mb_group (find_current subject_key db') = Some target
    \<and> Collect (auto_descendant db subject_key) \<subseteq> {k. relocated env target now db k db'}
    \<and> {k. find_current k db' \<noteq> find_current k db}
      \<subseteq> insert subject_key (insert anchor_key (Collect (auto_descendant db subject_key)))"
proof -
  from ensure_membership_steps [OF assms(1,4,5)] obtain target anchor_key db1 db2 where
    anchor: "resolve_anchor_group env thread pkey parent owner now db = Inr ((target, anchor_key), db1)"
    and place: "place_member env (Some t) subject_key subject target anchor_key now db1 = Inr db2"
    and move: "reassign_automatic_descendants env subject_key target now db2 = Inr db'" .
  have a: "placed_ok db1" "group_active target db1" "db_relations db1 = db_relations db"
    "operator_fixed k db1 = operator_fixed k db" "k \<noteq> anchor_key \<Longrightarrow> find_current k db1 = find_current k db"
    "anchored_at env thread pkey parent now target anchor_key db db1" for k
    using resolve_anchor_keeps [OF assms(1) anchor] assms(2) by blast+
  note p = place_member_keeps [OF a(1,2) place]
  note r = reassign_result [OF p(1,2) move]
  have desc: "auto_descendant db2 subject_key k = auto_descendant db subject_key k" for k
    by (rule auto_descendant_cong) (simp_all add: p(3,5) a(3,4))
  from anchor_apart [OF a(6) assms(2,3)] have "anchor_key \<noteq> subject_key"
    and no_desc: "\<not> auto_descendant db subject_key anchor_key"
    and not_self: "\<not> auto_descendant db subject_key subject_key" .
  have subject1: "find_current subject_key db1 = find_current subject_key db"
    using a(5) \<open>anchor_key \<noteq> subject_key\<close> by simp
  have "find_current subject_key db2 = placed_in env (Some t) subject_key subject target anchor_key now db"
    using place_member_current [OF a(1,2) place] placed_in_cong [OF subject1] by simp
  then have here: "find_current subject_key db' = placed_in env (Some t) subject_key subject target anchor_key now db"
    using r(6) [of subject_key] by simp
  have "\<not> operator_fixed subject_key db1" using assms(4) a(4) by simp
  from place_member_hit [OF a(1,2) this _ place]
  have hit: "map_option mb_group (find_current subject_key db') = Some target" using r(6) [of subject_key] by simp
  have same2: "find_current k db2 = find_current k db" if "auto_descendant db subject_key k" for k
  proof -
    have "k \<noteq> subject_key" "k \<noteq> anchor_key" using that not_self no_desc by auto
    then show ?thesis using p(4) [of k] a(5) [of k] by simp
  qed
  have "relocated env target now db k db'" if "auto_descendant db subject_key k" for k
  proof -
    have "relocated env target now db2 k db'" using r(5) that desc not_self by blast
    moreover have "find_active_parent k db2 = find_active_parent k db"
      by (simp add: find_active_parent_def p(3) a(3))
    ultimately show ?thesis by (simp add: relocated_def placed_in_cong [OF same2 [OF that]])
  qed
  moreover have "find_current k db' = find_current k db"
    if "k \<noteq> subject_key" "k \<noteq> anchor_key" "\<not> auto_descendant db subject_key k" for k
    using that r(6) [of k] p(4) [of k] a(5) [of k] desc [of k] by simp
  moreover have "anchored_at env thread pkey parent now target anchor_key db db'"
  proof -
    have "find_current anchor_key db' = find_current anchor_key db1"
      using r(6) [of anchor_key] p(4) [of anchor_key] no_desc desc \<open>anchor_key \<noteq> subject_key\<close> by simp
    moreover have "map_option g_key (find_group target db') = map_option g_key (find_group target db1)"
      using find_group_key [OF place_member_keys [OF place]]
        find_group_key [OF reassign_keys [OF move [unfolded reassign_automatic_descendants_def]]] by simp
    ultimately show ?thesis using a(6) unfolding anchored_at_def by (simp only:)
  qed
  ultimately show ?thesis using r(1,2) here hit
    by (intro exI [where x = target] exI [where x = anchor_key]) blast
qed

definition sample_result :: "store_error + group_db" where
  "sample_result = ensure_membership sample_env 12 ''s'' (sample_endpoint ''s'') (Some 11) ''r''
     (sample_endpoint ''r'') (Some 7) 50 sample_db"

lemma sample_edges: "active_edges sample_db = {(''s'', ''r''), (''c'', ''s''), (''o'', ''c'')}"
  by (auto simp: active_edges_def sample_db_def sample_relation_def)

lemma sample_acyclic: "acyclic (active_edges sample_db)"
  by (rule acyclicI_order [where f = "\<lambda>k. if k = ''r'' then 0 else if k = ''s'' then 1 else if k = ''c'' then 2 else (3 :: nat)"])
    (auto simp: sample_edges)

theorem ensure_membership_correct_witness:
  "\<exists>db'. sample_result = Inr db' \<and> placed_ok db' \<and> map_option mb_group (find_current ''s'' db') = Some 1
    \<and> map_option mb_group (find_current ''c'' db') = Some 1"
proof -
  have "\<not> isl sample_result" by code_simp
  then obtain db' where run: "sample_result = Inr db'" by (auto simp: not_isl)
  have free: "\<not> operator_fixed ''s'' sample_db" by code_simp
  have "(''c'', ''s'') \<in> active_edges sample_db" "\<not> operator_fixed ''c'' sample_db" by code_simp+
  then have c: "auto_descendant sample_db ''s'' ''c''" by (rule auto_descendant.child)
  have top: "(''r'', k) \<notin> active_edges sample_db" for k by (simp add: sample_edges)
  then have "(''r'', ''s'') \<notin> (active_edges sample_db)\<^sup>*" by (auto elim: converse_rtranclE)
  from ensure_membership_correct [OF sample_db_ok sample_acyclic this free run [unfolded sample_result_def]]
  obtain target anchor_key where result: "placed_ok db'"
    "anchored_at sample_env (Some 11) ''r'' (sample_endpoint ''r'') 50 target anchor_key sample_db db'"
    "map_option mb_group (find_current ''s'' db') = Some target" "relocated sample_env target 50 sample_db ''c'' db'"
    using c by blast
  have "climb sample_db \<subseteq> active_edges sample_db" by (auto simp: climb_def)
  with top have "(''r'', k) \<notin> climb sample_db" for k by blast
  with result(2) have "anchor_key = ''r''" by (auto simp: anchored_at_def elim: converse_rtranclE)
  moreover have "find_current ''r'' sample_db = Some (sample_member ''r'' 11 1 ByReconciler)"
    by (simp add: find_current_def sample_db_def sample_member_def is_current_def)
  ultimately have target: "target = 1" using result(2) by (simp add: anchored_at_def sample_member_def)
  have parent: "find_active_parent ''c'' sample_db = Some (sample_relation 22 ''c'' 13 ''s'' 12)"
    by (simp add: find_active_parent_def sample_db_def sample_relation_def)
  have "map_option mb_group (placed_in sample_env (rl_child_thread (sample_relation 22 ''c'' 13 ''s'' 12)) ''c''
      (child_endpoint (sample_relation 22 ''c'' 13 ''s'' 12)) 1 [] 50 sample_db) = Some 1" by code_simp
  with result(4) parent target have "map_option mb_group (find_current ''c'' db') = Some 1"
    by (simp add: relocated_def)
  with run result(1,3) target show ?thesis by blast
qed

text \<open>
  C31. Moving the automatic descendants of a thread ends, and it never fails when the children
  of all relations have a known identity: no bail-out and no constraint can stop it half way.
\<close>

theorem reassign_never_fails:
  assumes "placed_ok db" "group_active target db" "children_known db"
  shows "\<exists>db'. reassign_automatic_descendants env start target now db = Inr db'"
  using reassign_total [OF assms] by (simp add: reassign_automatic_descendants_def)

theorem reassign_never_fails_witness:
  "\<exists>db'. reassign_automatic_descendants sample_env ''s'' 1 50 sample_db = Inr db'"
proof -
  have "group_active 1 sample_db" "children_known sample_db" by code_simp+
  with reassign_never_fails [OF sample_db_ok] show ?thesis by blast
qed

end
