(* ===== verification/Group_Evidence.thy ===== *)
theory Group_Evidence
  imports Group_Subtree
begin

text \<open>
  The evidence behind the thread graph: observations, candidate associations, resolved source
  identities, canonical keys, deletion markers, operator decisions and the event outbox
  (\<open>infra/src/infra/thread_group\<close>), with the recording of observations
  (\<open>app/src/app/thread_group/observation.rs\<close>) and of candidates (\<open>reconcile.rs\<close>). The tables
  extend those of \<open>Group_Store\<close>, so every operation on groups applies to them unchanged. The
  column \<open>owner_scope\<close>, a function of the user id that no query reads, is left out. An event's
  payload is kept as the JSON object before it is rendered.
\<close>

subsection \<open>Rows\<close>

datatype association_state =
  StatePending | StateCandidate | StateAmbiguous | StateConflict | StateUnsupported | StateSuperseded

record observation_row =
  ob_id :: int
  ob_source :: string
  ob_known :: bool
  ob_scope :: string
  ob_user :: int
  ob_native :: string
  ob_parent_present :: bool
  ob_parent_source :: string
  ob_parent_known :: bool
  ob_parent_scope :: string
  ob_parent_user :: "int option"
  ob_parent_native :: string
  ob_relation_kind :: "string option"
  ob_origin :: string
  ob_evidence_kind :: string
  ob_polarity :: string
  ob_confidence :: "string option"
  ob_fingerprint :: string
  ob_record_ref :: "string option"
  ob_state :: string
  ob_import_run :: "string option"
  ob_observed_at :: int
  ob_created :: int
  ob_updated :: int

record association_row =
  as_id :: int
  as_thread :: "int option"
  as_source :: string
  as_known :: bool
  as_scope :: string
  as_user :: int
  as_native :: string
  as_group :: "int option"
  as_parent_thread :: "int option"
  as_state :: association_state
  as_observation :: "int option"
  as_created :: int
  as_updated :: int

text \<open>\<open>SourceIdentityKey\<close>.\<close>

record identity_key =
  ik_user :: int
  ik_source :: string
  ik_scope :: string
  ik_native :: string

record identity_row =
  id_key :: identity_key
  id_thread :: int
  id_resolution :: string
  id_first_seen :: int
  id_last_seen :: int

record key_row =
  ky_thread :: int
  ky_user :: int
  ky_key :: string
  ky_origin :: string
  ky_assigned :: int

record marker_row =
  mk_identity :: identity_key
  mk_forbid :: bool
  mk_recursive :: bool
  mk_actor :: string
  mk_reason :: "string option"
  mk_deleted_at :: int
  mk_thread_key :: "string option"

record decision_row =
  dc_id :: int
  dc_user :: int
  dc_association :: int
  dc_actor :: string
  dc_decision :: string
  dc_reason :: string
  dc_fingerprint :: string
  dc_policy :: string
  dc_created :: int

datatype json_value = JString string | JInt int

record event_row =
  en_id :: string
  en_type :: string
  en_operation :: string
  en_policy :: string
  en_source :: "string option"
  en_scope :: "string option"
  en_user :: "int option"
  en_native :: "string option"
  en_group :: "int option"
  en_thread :: "int option"
  en_confidence :: "string option"
  en_basis :: "string option"
  en_decision :: "int option"
  en_polarity :: "string option"
  en_payload :: "(string \<times> json_value) list"
  en_created :: int

record evidence_db = group_db +
  db_observations :: "observation_row list"
  db_associations :: "association_row list"
  db_identities :: "identity_row list"
  db_keys :: "key_row list"
  db_markers :: "marker_row list"
  db_decisions :: "decision_row list"
  db_outbox :: "event_row list"

subsection \<open>Observations\<close>

text \<open>The unique key; a missing parent has no user id, and SQL holds two missing ids for different.\<close>

definition observation_identity ::
  "observation_row \<Rightarrow> (string \<times> bool \<times> string \<times> int \<times> string)
    \<times> (bool \<times> string \<times> bool \<times> string \<times> int option \<times> string) \<times> string \<times> string" where
  "observation_identity o1 =
     ((ob_source o1, ob_known o1, ob_scope o1, ob_user o1, ob_native o1),
      (ob_parent_present o1, ob_parent_source o1, ob_parent_known o1, ob_parent_scope o1,
       ob_parent_user o1, ob_parent_native o1),
      ob_evidence_kind o1, ob_fingerprint o1)"

text \<open>
  The CHECK constraints of the table. SQL accepts a CHECK that is neither true nor false, so
  evidence of an adapter passes without a confidence: \<open>NULL IN (...)\<close> is unknown.
\<close>

definition observation_check :: "observation_row \<Rightarrow> bool" where
  "observation_check r \<longleftrightarrow>
     ob_polarity r \<in> {''supports'', ''negates'', ''conflicts''}
     \<and> ob_state r \<in> {''pending'', ''candidate'', ''selected'', ''conflict'', ''superseded'', ''unsupported''}
     \<and> (ob_origin r = ''adapter'' \<and> ob_evidence_kind r \<in> {''source_event'', ''source_field'', ''negative_or_conflict''}
          \<and> ob_confidence r \<in> {None, Some ''exact'', Some ''strong'', Some ''heuristic'', Some ''unsupported''}
        \<or> ob_origin r = ''reconciler'' \<and> ob_evidence_kind r \<in> {''derived_rejection'', ''derived_conflict''}
          \<and> ob_confidence r = None)
     \<and> ob_relation_kind r \<in> {None, Some ''delegated'', Some ''fork'', Some ''continuation''}"

definition find_observation ::
  "observation_row \<Rightarrow> 'a evidence_db_scheme \<Rightarrow> observation_row option" where
  "find_observation r db = find (\<lambda>x. observation_identity x = observation_identity r) (db_observations db)"

definition find_observation_by_id :: "int \<Rightarrow> 'a evidence_db_scheme \<Rightarrow> observation_row option" where
  "find_observation_by_id i db = find (\<lambda>x. ob_id x = i) (db_observations db)"

definition insert_observation ::
  "group_env \<Rightarrow> observation_row \<Rightarrow> 'a evidence_db_scheme \<Rightarrow> store_error + int \<times> 'a evidence_db_scheme" where
  "insert_observation env new db =
     (let i = env_id env (db_drawn db);
          row = new\<lparr>ob_id := i, ob_created := fill_updated_at env (ob_created new),
                   ob_updated := fill_updated_at env (ob_updated new)\<rparr>
      in if \<not> observation_check row then Inl (Violates ''thread_observation'')
         else if list_ex (\<lambda>x. ob_id x = i) (db_observations db) then Inl (Violates ''thread_observation.id'')
         else if list_ex (\<lambda>x. observation_identity x = observation_identity row \<and> ob_parent_user x \<noteq> None)
                (db_observations db)
         then Inl (Violates ''thread_observation_identity_evidence_key'')
         else Inr (i, db\<lparr>db_drawn := db_drawn db + 1, db_observations := db_observations db @ [row]\<rparr>))"

definition observed_for :: "identity_key \<Rightarrow> bool \<Rightarrow> observation_row \<Rightarrow> bool" where
  "observed_for k known r \<longleftrightarrow> ob_user r = ik_user k \<and> ob_source r = ik_source k \<and> ob_known r = known
     \<and> ob_scope r = ik_scope k \<and> ob_native r = ik_native k"

definition list_observations ::
  "identity_key \<Rightarrow> bool \<Rightarrow> 'a evidence_db_scheme \<Rightarrow> observation_row list" where
  "list_observations k known db =
     sort_key (\<lambda>r. (ob_observed_at r, ob_id r)) (filter (observed_for k known) (db_observations db))"

definition list_pending_by_parent :: "identity_key \<Rightarrow> 'a evidence_db_scheme \<Rightarrow> observation_row list" where
  "list_pending_by_parent k db =
     sort_key (\<lambda>r. (ob_observed_at r, ob_id r))
       (filter (\<lambda>r. ob_parent_present r \<and> ob_parent_known r \<and> ob_parent_user r = Some (ik_user k)
          \<and> ob_parent_source r = ik_source k \<and> ob_parent_scope r = ik_scope k \<and> ob_parent_native r = ik_native k
          \<and> list_ex (\<lambda>a. as_observation a = Some (ob_id r) \<and> as_state a = StatePending) (db_associations db))
        (db_observations db))"

subsection \<open>Candidate associations\<close>

definition insert_association ::
  "group_env \<Rightarrow> association_row \<Rightarrow> 'a evidence_db_scheme \<Rightarrow> store_error + int \<times> 'a evidence_db_scheme" where
  "insert_association env new db =
     (let i = env_id env (db_drawn db);
          row = new\<lparr>as_id := i, as_created := fill_updated_at env (as_created new),
                   as_updated := fill_updated_at env (as_updated new)\<rparr>
      in if list_ex (\<lambda>x. as_id x = i) (db_associations db)
         then Inl (Violates ''thread_group_candidate_association.id'')
         else Inr (i, db\<lparr>db_drawn := db_drawn db + 1, db_associations := db_associations db @ [row]\<rparr>))"

definition find_association :: "int \<Rightarrow> 'a evidence_db_scheme \<Rightarrow> association_row option" where
  "find_association i db = find (\<lambda>a. as_id a = i) (db_associations db)"

definition list_associations ::
  "identity_key \<Rightarrow> bool \<Rightarrow> 'a evidence_db_scheme \<Rightarrow> association_row list" where
  "list_associations k known db =
     sort_key (\<lambda>a. (as_updated a, as_id a))
       (filter (\<lambda>a. as_user a = ik_user k \<and> as_source a = ik_source k \<and> as_known a = known
          \<and> as_scope a = ik_scope k \<and> as_native a = ik_native k) (db_associations db))"

definition update_associations ::
  "int \<Rightarrow> association_state \<Rightarrow> (association_row \<Rightarrow> association_row) \<Rightarrow> 'a evidence_db_scheme
    \<Rightarrow> bool \<times> 'a evidence_db_scheme" where
  "update_associations i expected f db =
     (let hit = (\<lambda>a. as_id a = i \<and> as_state a = expected)
      in (list_ex hit (db_associations db),
          db\<lparr>db_associations := map (\<lambda>a. if hit a then f a else a) (db_associations db)\<rparr>))"

definition update_selection ::
  "group_env \<Rightarrow> int \<Rightarrow> association_state \<Rightarrow> association_state \<Rightarrow> int option \<Rightarrow> int
    \<Rightarrow> 'a evidence_db_scheme \<Rightarrow> bool \<times> 'a evidence_db_scheme" where
  "update_selection env i expected new observation now = update_associations i expected
     (\<lambda>a. a\<lparr>as_state := new, as_observation := observation, as_updated := fill_updated_at env now\<rparr>)"

definition update_candidate_state ::
  "group_env \<Rightarrow> int \<Rightarrow> association_state \<Rightarrow> association_state \<Rightarrow> int option \<Rightarrow> int
    \<Rightarrow> 'a evidence_db_scheme \<Rightarrow> bool \<times> 'a evidence_db_scheme" where
  "update_candidate_state env i expected new parent now = update_associations i expected
     (\<lambda>a. a\<lparr>as_state := new, as_parent_thread := parent, as_updated := fill_updated_at env now\<rparr>)"

subsection \<open>Identities, keys, markers, decisions and events\<close>

definition find_resolved :: "identity_key \<Rightarrow> 'a evidence_db_scheme \<Rightarrow> identity_row option" where
  "find_resolved k db = find (\<lambda>r. id_key r = k) (db_identities db)"

definition upsert_resolved ::
  "identity_key \<Rightarrow> int \<Rightarrow> int \<Rightarrow> 'a evidence_db_scheme \<Rightarrow> 'a evidence_db_scheme" where
  "upsert_resolved k thread seen_at db =
     (if find_resolved k db = None
      then db\<lparr>db_identities := db_identities db @
        [\<lparr>id_key = k, id_thread = thread, id_resolution = ''resolved'', id_first_seen = seen_at,
          id_last_seen = seen_at\<rparr>]\<rparr>
      else db\<lparr>db_identities := map (\<lambda>r. if id_key r = k
        then r\<lparr>id_thread := thread, id_last_seen := seen_at\<rparr> else r) (db_identities db)\<rparr>)"

definition list_identities :: "int \<Rightarrow> 'a evidence_db_scheme \<Rightarrow> identity_row list" where
  "list_identities thread db =
     sort_key (\<lambda>r. (ik_user (id_key r), ik_source (id_key r), ik_scope (id_key r), ik_native (id_key r)))
       (filter (\<lambda>r. id_thread r = thread) (db_identities db))"

definition find_key_of_thread :: "int \<Rightarrow> 'a evidence_db_scheme \<Rightarrow> key_row option" where
  "find_key_of_thread thread db = find (\<lambda>r. ky_thread r = thread) (db_keys db)"

definition assign_key ::
  "group_env \<Rightarrow> int \<Rightarrow> int \<Rightarrow> string \<Rightarrow> string \<Rightarrow> int \<Rightarrow> 'a evidence_db_scheme
    \<Rightarrow> store_error + 'a evidence_db_scheme" where
  "assign_key env thread user key origin assigned_at db =
     (if list_ex (\<lambda>r. ky_thread r = thread) (db_keys db) then Inl (Violates ''thread_canonical_key.thread_id'')
      else if list_ex (\<lambda>r. ky_key r = key) (db_keys db) then Inl (Violates ''thread_canonical_key_key'')
      else Inr (db\<lparr>db_keys := db_keys db @
        [\<lparr>ky_thread = thread, ky_user = user, ky_key = key, ky_origin = origin,
          ky_assigned = fill_updated_at env assigned_at\<rparr>]\<rparr>))"

definition find_marker :: "identity_key \<Rightarrow> 'a evidence_db_scheme \<Rightarrow> marker_row option" where
  "find_marker k db = find (\<lambda>r. mk_identity r = k) (db_markers db)"

definition insert_decision ::
  "group_env \<Rightarrow> decision_row \<Rightarrow> 'a evidence_db_scheme \<Rightarrow> store_error + int \<times> 'a evidence_db_scheme" where
  "insert_decision env new db =
     (let i = env_id env (db_drawn db);
          row = new\<lparr>dc_id := i, dc_created := fill_updated_at env (dc_created new)\<rparr>
      in if dc_decision row \<notin> {''confirm'', ''reject'', ''retract''} then Inl (Violates ''operator_decision'')
         else if list_ex (\<lambda>x. dc_id x = i) (db_decisions db) then Inl (Violates ''operator_decision.id'')
         else Inr (i, db\<lparr>db_drawn := db_drawn db + 1, db_decisions := db_decisions db @ [row]\<rparr>))"

definition find_latest_decision :: "int \<Rightarrow> 'a evidence_db_scheme \<Rightarrow> decision_row option" where
  "find_latest_decision association db =
     (case rev (sort_key (\<lambda>d. (dc_created d, dc_id d))
             (filter (\<lambda>d. dc_association d = association) (db_decisions db))) of
        [] \<Rightarrow> None | d # _ \<Rightarrow> Some d)"

text \<open>\<open>append_idempotent_tx\<close>: the first event with an id wins.\<close>

definition event_check :: "event_row \<Rightarrow> bool" where
  "event_check e \<longleftrightarrow>
     en_type e \<in> {''thread_group_observation_recorded'', ''thread_group_relation_selected'',
       ''thread_group_reconciliation_completed'', ''thread_group_conflict_detected'', ''thread_group_redirected''}
     \<and> en_confidence e \<in> {None, Some ''exact'', Some ''strong'', Some ''heuristic'', Some ''unsupported''}
     \<and> en_polarity e \<in> {None, Some ''supports'', Some ''negates'', Some ''conflicts''}"

definition append_event ::
  "group_env \<Rightarrow> event_row \<Rightarrow> 'a evidence_db_scheme \<Rightarrow> store_error + bool \<times> 'a evidence_db_scheme" where
  "append_event env event db =
     (if \<not> event_check event then Inl (Violates ''thread_group_event_outbox'')
      else if list_ex (\<lambda>e. en_id e = en_id event) (db_outbox db) then Inr (False, db)
      else Inr (True, db\<lparr>db_outbox := db_outbox db @ [event\<lparr>en_created := fill_updated_at env (en_created event)\<rparr>]\<rparr>))"

subsection \<open>Recording observations\<close>

text \<open>\<open>ObservationInput\<close>.\<close>

record observation_input =
  oi_subject :: source_identity
  oi_parent :: "source_identity option"
  oi_relation_kind :: "string option"
  oi_evidence_kind :: string
  oi_polarity :: string
  oi_confidence :: "string option"
  oi_adapter :: string
  oi_record_ref :: string
  oi_import_run :: "string option"
  oi_observed_at :: int

definition observation_fingerprint :: "group_env \<Rightarrow> observation_input \<Rightarrow> string \<Rightarrow> string" where
  "observation_fingerprint env input origin = evidence_fingerprint (env_nfc env) (env_sha env)
     \<lparr>ev_fingerprint_version = ''thread-group-evidence-v1'', ev_origin = origin,
      ev_adapter_version = oi_adapter input, ev_subject = oi_subject input,
      ev_candidate_parent = oi_parent input, ev_relation_kind = or_empty (oi_relation_kind input),
      ev_evidence_kind = oi_evidence_kind input, ev_polarity = oi_polarity input,
      ev_source_confidence = or_empty (oi_confidence input),
      ev_source_record_locator = oi_record_ref input\<rparr>"

definition split_scope :: "identity_scope \<Rightarrow> bool \<times> string" where
  "split_scope scope = (case scope of Known value \<Rightarrow> (True, value) | Unknown \<Rightarrow> (False, []))"

definition new_observation ::
  "group_env \<Rightarrow> observation_input \<Rightarrow> string \<Rightarrow> string \<Rightarrow> int \<Rightarrow> observation_row" where
  "new_observation env input origin state now =
     (let subject = oi_subject input;
          (known, scope) = split_scope (si_identity_scope subject);
          ((p_known, p_scope), p_source, p_user, p_native) =
            (case oi_parent input of
               Some p \<Rightarrow> (split_scope (si_identity_scope p), si_source p, Some (si_user_id p), si_native_id p)
             | None \<Rightarrow> ((False, []), [], None, []))
      in \<lparr>ob_id = 0, ob_source = si_source subject, ob_known = known, ob_scope = scope,
          ob_user = si_user_id subject, ob_native = si_native_id subject,
          ob_parent_present = (oi_parent input \<noteq> None), ob_parent_source = p_source,
          ob_parent_known = p_known, ob_parent_scope = p_scope, ob_parent_user = p_user,
          ob_parent_native = p_native, ob_relation_kind = oi_relation_kind input, ob_origin = origin,
          ob_evidence_kind = oi_evidence_kind input, ob_polarity = oi_polarity input,
          ob_confidence = oi_confidence input, ob_fingerprint = observation_fingerprint env input origin,
          ob_record_ref = Some (oi_record_ref input), ob_state = state,
          ob_import_run = oi_import_run input, ob_observed_at = oi_observed_at input,
          ob_created = now, ob_updated = now\<rparr>)"

definition policy_version :: string where
  "policy_version = ''thread-group-policy-v1''"

text \<open>The id of an event depends on its type and a key only.\<close>

definition event_id_for :: "group_env \<Rightarrow> string \<Rightarrow> string \<Rightarrow> string" where
  "event_id_for env event_type dedup_key = sha256_hex (env_sha env)
     (canonical_serialize_v2 (env_nfc env) [Some event_type, Some dedup_key])"

record recorded =
  rc_observation :: int
  rc_inserted :: bool
  rc_event_written :: bool

definition observation_event ::
  "group_env \<Rightarrow> observation_input \<Rightarrow> string \<Rightarrow> string \<Rightarrow> int option \<Rightarrow> string \<Rightarrow> int \<Rightarrow> event_row" where
  "observation_event env input fingerprint event_state thread operation_id now =
     (let subject = oi_subject input
      in \<lparr>en_id = event_id_for env ''thread_group_observation_recorded'' fingerprint,
          en_type = ''thread_group_observation_recorded'', en_operation = operation_id,
          en_policy = policy_version, en_source = Some (si_source subject),
          en_scope = known_scope_value (si_identity_scope subject), en_user = Some (si_user_id subject),
          en_native = Some (si_native_id subject), en_group = None, en_thread = thread,
          en_confidence = oi_confidence input, en_basis = None, en_decision = None,
          en_polarity = Some (oi_polarity input),
          en_payload = [(''state'', JString event_state), (''adapter_version'', JString (oi_adapter input)),
            (''evidence_kind'', JString (oi_evidence_kind input))],
          en_created = now\<rparr>)"

definition record_observation_and_event ::
  "group_env \<Rightarrow> observation_input \<Rightarrow> string \<Rightarrow> string \<Rightarrow> int option \<Rightarrow> string \<Rightarrow> int
    \<Rightarrow> 'a evidence_db_scheme \<Rightarrow> store_error + recorded \<times> 'a evidence_db_scheme" where
  "record_observation_and_event env input state event_state thread operation_id now db =
     (let row = new_observation env input ''adapter'' state now
      in and_then
           (case find_observation row db of
              Some existing \<Rightarrow> Inr ((ob_id existing, False), db)
            | None \<Rightarrow> and_then (insert_observation env row db) (\<lambda>(i, db'). Inr ((i, True), db')))
           (\<lambda>((i, inserted), db1). and_then
              (append_event env (observation_event env input (ob_fingerprint row) event_state thread
                 operation_id now) db1)
              (\<lambda>(written, db2). Inr (\<lparr>rc_observation = i, rc_inserted = inserted,
                 rc_event_written = written\<rparr>, db2))))"

datatype suppression_decision = Allow | Suppress | Override

fun decide_suppression :: "bool option \<Rightarrow> bool \<Rightarrow> suppression_decision" where
  "decide_suppression None explicit_override = Allow"
| "decide_suppression (Some False) explicit_override = Allow"
| "decide_suppression (Some True) True = Override"
| "decide_suppression (Some True) False = Suppress"

subsection \<open>Recording candidates\<close>

definition identity_key_of :: "source_identity \<Rightarrow> identity_key" where
  "identity_key_of e = \<lparr>ik_user = si_user_id e, ik_source = si_source e,
     ik_scope = or_empty (known_scope_value (si_identity_scope e)), ik_native = si_native_id e\<rparr>"

definition scope_known :: "source_identity \<Rightarrow> bool" where
  "scope_known e = (si_identity_scope e \<noteq> Unknown)"

text \<open>The loop over the associations of the observation.\<close>

fun refresh_candidates ::
  "group_env \<Rightarrow> association_row list \<Rightarrow> association_state \<Rightarrow> int option \<Rightarrow> int \<Rightarrow> 'a evidence_db_scheme
    \<Rightarrow> 'a evidence_db_scheme" where
  "refresh_candidates env [] state parent_thread now db = db"
| "refresh_candidates env (a # rest) state parent_thread now db =
     (if as_state a = state \<and> as_parent_thread a = parent_thread
      then refresh_candidates env rest state parent_thread now db
      else if as_state a = StatePending \<or> state = StateConflict \<and> as_state a = StateCandidate
      then refresh_candidates env rest state parent_thread now
             (snd (update_candidate_state env (as_id a) (as_state a) state parent_thread now db))
      else refresh_candidates env rest state parent_thread now db)"

definition record_candidate ::
  "group_env \<Rightarrow> int \<Rightarrow> source_identity \<Rightarrow> int option \<Rightarrow> association_state \<Rightarrow> int \<Rightarrow> int
    \<Rightarrow> 'a evidence_db_scheme \<Rightarrow> store_error + 'a evidence_db_scheme" where
  "record_candidate env subject_thread subject parent_thread state observation now db =
     (let k = identity_key_of subject;
          existing = filter (\<lambda>a. as_observation a = Some observation)
            (list_associations k (scope_known subject) db)
      in if existing \<noteq> [] then Inr (refresh_candidates env existing state parent_thread now db)
         else and_then (insert_association env
                \<lparr>as_id = 0, as_thread = Some subject_thread, as_source = si_source subject,
                 as_known = scope_known subject, as_scope = ik_scope k, as_user = si_user_id subject,
                 as_native = si_native_id subject, as_group = None, as_parent_thread = parent_thread,
                 as_state = state, as_observation = Some observation, as_created = now, as_updated = now\<rparr> db)
                (\<lambda>(_, db'). Inr db'))"

subsection \<open>Replaying an observation\<close>

lemma observation_identity_new:
  "observation_identity (new_observation env input origin state now) =
   observation_identity (new_observation env input origin state' now')"
  by (simp add: observation_identity_def new_observation_def Let_def case_prod_beta)

lemma new_observation_fingerprint [simp]:
  "ob_fingerprint (new_observation env input origin state now) = observation_fingerprint env input origin"
  by (simp add: new_observation_def Let_def case_prod_beta)

lemma find_append: "find p xs = None \<Longrightarrow> p y \<Longrightarrow> find p (xs @ [y]) = Some y"
  by (induction xs) (auto split: if_splits)

lemma insert_observation_found:
  assumes "insert_observation env row db = Inr (i, db')" "find_observation row db = None"
    "observation_identity row' = observation_identity row"
  shows "map_option ob_id (find_observation row' db') = Some i \<and> db_outbox db' = db_outbox db"
proof -
  define stored where "stored = row\<lparr>ob_id := env_id env (db_drawn db),
    ob_created := fill_updated_at env (ob_created row), ob_updated := fill_updated_at env (ob_updated row)\<rparr>"
  have "db' = db\<lparr>db_drawn := db_drawn db + 1, db_observations := db_observations db @ [stored]\<rparr>"
    and i: "i = env_id env (db_drawn db)"
    using assms(1) by (auto simp: insert_observation_def Let_def stored_def split: if_splits)
  moreover have "observation_identity stored = observation_identity row" "ob_id stored = i"
    by (simp_all add: stored_def observation_identity_def i)
  ultimately show ?thesis
    using assms(2,3) find_append [of _ "db_observations db" stored]
    by (simp add: find_observation_def)
qed

lemma append_event_recorded:
  assumes "append_event env event db = Inr (b, db')" "en_id e = en_id event" "event_check e"
  shows "append_event env e db' = Inr (False, db') \<and> db_observations db' = db_observations db"
  using assms by (auto simp: append_event_def split: if_splits)

lemma observation_event_check:
  "event_check (observation_event env input f s t op now) = event_check (observation_event env input f s' t' op' now')"
  by (simp add: observation_event_def event_check_def Let_def)

lemma observation_event_id [simp]:
  "en_id (observation_event env input f s t op now) =
   event_id_for env ''thread_group_observation_recorded'' f"
  by (simp add: observation_event_def Let_def)

text \<open>
  Recording an observation is idempotent: replaying it, with whatever state, thread,
  operation id and time, returns the id of the first row, writes neither a second row nor a
  second event, and leaves the tables as they are.
\<close>

theorem record_observation_replay:
  assumes "record_observation_and_event env input state event_state thread operation_id now db = Inr (out, db')"
  shows "record_observation_and_event env input state' event_state' thread' operation_id' now' db' =
    Inr (\<lparr>rc_observation = rc_observation out, rc_inserted = False, rc_event_written = False\<rparr>, db')"
proof -
  let ?row = "new_observation env input ''adapter'' state now"
  let ?row' = "new_observation env input ''adapter'' state' now'"
  let ?f = "observation_fingerprint env input ''adapter''"
  let ?event = "observation_event env input ?f event_state thread operation_id now"
  let ?event' = "observation_event env input ?f event_state' thread' operation_id' now'"
  note same = observation_identity_new [of env input "''adapter''" state' now' state now]
  from assms obtain i inserted db1 b where
    row: "(case find_observation ?row db of Some existing \<Rightarrow> Inr ((ob_id existing, False), db)
       | None \<Rightarrow> and_then (insert_observation env ?row db) (\<lambda>(i, db'). Inr ((i, True), db')))
       = Inr ((i, inserted), db1)"
    and event: "append_event env ?event db1 = Inr (b, db')" and out: "rc_observation out = i"
    by (auto simp: record_observation_and_event_def Let_def elim!: and_then_InrE)
  have "map_option ob_id (find_observation ?row' db1) = Some i"
  proof (cases "find_observation ?row db")
    case None
    with row obtain inserted where "insert_observation env ?row db = Inr (i, db1)"
      by (auto elim!: and_then_InrE)
    from insert_observation_found [OF this None same] show ?thesis by simp
  next
    case (Some existing)
    with row same show ?thesis by (simp add: find_observation_def)
  qed
  moreover have "event_check ?event" using event by (simp add: append_event_def split: if_splits)
  then have "event_check ?event'" by (simp only: observation_event_check [of env input ?f event_state' thread'
      operation_id' now' event_state thread operation_id now])
  with append_event_recorded [OF event, of ?event']
  have replay: "append_event env ?event' db' = Inr (False, db')" "db_observations db' = db_observations db1"
    by simp_all
  ultimately obtain r where "find_observation ?row' db' = Some r" "ob_id r = i"
    by (auto simp: find_observation_def)
  with replay(1) show ?thesis by (simp add: record_observation_and_event_def out)
qed

definition empty_db :: evidence_db where
  "empty_db = \<lparr>db_drawn = 0, db_groups = [], db_members = [], db_relations = [], db_observations = [],
     db_associations = [], db_identities = [], db_keys = [], db_markers = [], db_decisions = [], db_outbox = []\<rparr>"

definition plain_env :: group_env where
  "plain_env = sample_env\<lparr>env_nfc := (\<lambda>_. []), env_sha := (\<lambda>_. [])\<rparr>"

definition sample_input :: "string \<Rightarrow> string option \<Rightarrow> string \<Rightarrow> observation_input" where
  "sample_input child parent confidence = \<lparr>oi_subject = sample_endpoint child,
     oi_parent = map_option sample_endpoint parent, oi_relation_kind = Some ''fork'',
     oi_evidence_kind = ''source_event'', oi_polarity = ''supports'', oi_confidence = Some confidence,
     oi_adapter = ''test@1'', oi_record_ref = ''line 3'', oi_import_run = None, oi_observed_at = 40\<rparr>"

definition sample_recorded :: "store_error + recorded \<times> evidence_db" where
  "sample_recorded = record_observation_and_event plain_env (sample_input ''c'' (Some ''p'') ''exact'')
     ''candidate'' ''candidate'' (Some 13) ''run 1'' 50 empty_db"

theorem record_observation_replay_witness:
  "\<exists>out db'. sample_recorded = Inr (out, db') \<and>
     record_observation_and_event plain_env (sample_input ''c'' (Some ''p'') ''exact'')
       ''unsupported'' ''candidate'' None ''run 2'' 60 db' =
     Inr (\<lparr>rc_observation = rc_observation out, rc_inserted = False, rc_event_written = False\<rparr>, db')"
proof -
  have "\<not> isl sample_recorded" by code_simp
  then obtain out db' where run: "sample_recorded = Inr (out, db')" by (auto simp: not_isl)
  from record_observation_replay [OF this [unfolded sample_recorded_def]] run show ?thesis by blast
qed

end
