(* ===== verification/Group_Reconcile.thy ===== *)
theory Group_Reconcile
  imports Group_Evidence
begin

text \<open>
  The reconciler (\<open>app/src/app/thread_group/reconcile.rs\<close>): the transaction behind
  \<open>reconcile_subject\<close> and \<open>reconcile_imported_subject\<close>, the later look at pending
  observations, and operator decisions. A transaction is a function on the tables; its error
  discards what it did. The locks serialize the transactions and are not modelled. The threads
  table is read only: \<open>owner_of\<close> is the user id of a thread row.
\<close>

subsection \<open>Reading evidence\<close>

definition supported_confidence :: "string option \<Rightarrow> source_confidence option" where
  "supported_confidence confidence =
     (if confidence = Some ''exact'' then Some Exact
      else if confidence = Some ''strong'' then Some Strong else None)"

definition relation_type_of :: "string option \<Rightarrow> relation_type option" where
  "relation_type_of kind =
     (if kind = Some ''delegated'' then Some Delegated
      else if kind = Some ''fork'' then Some Fork
      else if kind = Some ''continuation'' then Some Continuation else None)"

fun relation_type_str :: "relation_type \<Rightarrow> string" where
  "relation_type_str Delegated = ''delegated''"
| "relation_type_str Fork = ''fork''"
| "relation_type_str Continuation = ''continuation''"

definition promotable_source_candidate ::
  "string option \<Rightarrow> string option \<Rightarrow> string \<Rightarrow> (source_confidence \<times> relation_type) option" where
  "promotable_source_candidate confidence relation_kind polarity =
     (case supported_confidence confidence of
        None \<Rightarrow> None
      | Some c \<Rightarrow> (case relation_type_of relation_kind of
          None \<Rightarrow> None
        | Some t \<Rightarrow> if polarity = ''supports'' then Some (c, t) else None))"

definition candidate_endpoint :: "string \<Rightarrow> bool \<Rightarrow> string \<Rightarrow> int \<Rightarrow> string \<Rightarrow> source_identity" where
  "candidate_endpoint source known scope user native =
     \<lparr>si_user_id = user, si_source = source,
      si_identity_scope = (if known then Known scope else Unknown), si_native_id = native\<rparr>"

definition candidate_endpoint_if_present ::
  "bool \<Rightarrow> string \<Rightarrow> bool \<Rightarrow> string \<Rightarrow> int option \<Rightarrow> string \<Rightarrow> store_error + source_identity option" where
  "candidate_endpoint_if_present present source known scope user native =
     (if \<not> present
      then (if user \<noteq> None then Inl (Bail ''absent candidate parent has a user id'') else Inr None)
      else case user of
             None \<Rightarrow> Inl (Bail ''candidate parent user id missing'')
           | Some u \<Rightarrow> Inr (Some (candidate_endpoint source known scope u native)))"

definition observation_parent_endpoint :: "observation_row \<Rightarrow> store_error + source_identity option" where
  "observation_parent_endpoint row = candidate_endpoint_if_present (ob_parent_present row)
     (ob_parent_source row) (ob_parent_known row) (ob_parent_scope row) (ob_parent_user row)
     (ob_parent_native row)"

text \<open>A candidate with the endpoint of its parent and the observation it comes from.\<close>

type_synonym thread_candidate = "candidate \<times> source_identity \<times> int"

definition candidate_of :: "candidate \<Rightarrow> thread_candidate list \<Rightarrow> thread_candidate option" where
  "candidate_of c cands = find (\<lambda>x. fst x = c) cands"

definition winner_observation_id :: "thread_candidate list \<Rightarrow> candidate \<Rightarrow> int" where
  "winner_observation_id cands winner =
     (case candidate_of winner cands of Some (_, _, i) \<Rightarrow> i | None \<Rightarrow> 0)"

definition resolved_thread :: "source_identity \<Rightarrow> 'a evidence_db_scheme \<Rightarrow> int option" where
  "resolved_thread e db = map_option id_thread (find_resolved (identity_key_of e) db)"

subsection \<open>Events and derived conflicts\<close>

definition append_relation_event ::
  "group_env \<Rightarrow> bool \<Rightarrow> string \<Rightarrow> string \<Rightarrow> int \<Rightarrow> (string \<times> json_value) list
    \<Rightarrow> 'a evidence_db_scheme \<Rightarrow> store_error + 'a evidence_db_scheme" where
  "append_relation_event env conflict subject_key operation_id now payload db =
     (let event_type = (if conflict then ''thread_group_conflict_detected'' else ''thread_group_relation_selected'')
      in and_then (append_event env
           \<lparr>en_id = event_id_for env event_type subject_key, en_type = event_type,
            en_operation = operation_id, en_policy = policy_version, en_source = None, en_scope = None,
            en_user = None, en_native = None, en_group = None, en_thread = None, en_confidence = None,
            en_basis = None, en_decision = None, en_polarity = None, en_payload = payload,
            en_created = now\<rparr> db) (\<lambda>(_, db'). Inr db'))"

definition record_derived_conflict ::
  "group_env \<Rightarrow> source_identity \<Rightarrow> string \<Rightarrow> int \<Rightarrow> 'a evidence_db_scheme
    \<Rightarrow> store_error + 'a evidence_db_scheme" where
  "record_derived_conflict env subject reason now db =
     (let input = \<lparr>oi_subject = subject, oi_parent = None, oi_relation_kind = None,
            oi_evidence_kind = ''derived_conflict'', oi_polarity = ''conflicts'', oi_confidence = None,
            oi_adapter = ''reconciler@1'', oi_record_ref = ''reconciler:conflict:'' @ reason,
            oi_import_run = None, oi_observed_at = now\<rparr>;
          row = new_observation env input ''reconciler'' ''conflict'' now
      in if find_observation row db = None
         then and_then (insert_observation env row db) (\<lambda>(_, db'). Inr db')
         else Inr db)"

definition retract_active_relation ::
  "group_env \<Rightarrow> string \<Rightarrow> int \<Rightarrow> 'a group_db_scheme \<Rightarrow> 'a group_db_scheme" where
  "retract_active_relation env subject_key now db =
     (case find_active_parent subject_key db of
        None \<Rightarrow> db
      | Some r \<Rightarrow> snd (set_relation_state env (rl_id r) RelationActive RelationRetracted now db))"

subsection \<open>Adopting a parent\<close>

definition source_basis :: "candidate_evidence \<Rightarrow> selection_basis" where
  "source_basis e = (case e of SourceEvidence Exact \<Rightarrow> SourceExact | _ \<Rightarrow> SourceStrong)"

fun basis_str :: "selection_basis \<Rightarrow> string" where
  "basis_str SourceExact = ''source_exact''"
| "basis_str SourceStrong = ''source_strong''"
| "basis_str BasisOperator = ''operator_confirmation''"

definition source_relation ::
  "int option \<Rightarrow> int \<Rightarrow> string \<Rightarrow> source_identity \<Rightarrow> source_identity \<Rightarrow> candidate \<Rightarrow> int \<Rightarrow> int \<Rightarrow> relation_row" where
  "source_relation parent_thread subject_thread subject_key subject parent winner observation now =
     \<lparr>rl_id = 0, rl_parent_thread = parent_thread, rl_child_thread = Some subject_thread,
      rl_parent_key = parent_key winner, rl_child_key = subject_key,
      rl_parent_user = si_user_id parent, rl_parent_source = Some (si_source parent),
      rl_parent_scope = known_scope_value (si_identity_scope parent),
      rl_parent_native = Some (si_native_id parent),
      rl_child_user = si_user_id subject, rl_child_source = Some (si_source subject),
      rl_child_scope = known_scope_value (si_identity_scope subject),
      rl_child_native = Some (si_native_id subject), rl_type = relation_type winner,
      rl_state = RelationActive, rl_basis = source_basis (cand_evidence winner),
      rl_confidence = (case cand_evidence winner of SourceEvidence c \<Rightarrow> Some c | OperatorConfirmation \<Rightarrow> None),
      rl_observation = Some observation, rl_decision = None, rl_created = now, rl_updated = now\<rparr>"

definition apply_selected_relation ::
  "group_env \<Rightarrow> int \<Rightarrow> string \<Rightarrow> source_identity \<Rightarrow> source_identity \<Rightarrow> candidate \<Rightarrow> int \<Rightarrow> string \<Rightarrow> int \<Rightarrow> int
    \<Rightarrow> 'a evidence_db_scheme \<Rightarrow> store_error + int option \<times> 'a evidence_db_scheme" where
  "apply_selected_relation env subject_thread subject_key subject parent winner observation operation_id now owner db =
     (let parent_thread = resolved_thread parent db
      in case find_active_parent subject_key db of
           Some existing \<Rightarrow>
             if rl_parent_key existing = parent_key winner \<and> rl_type existing = relation_type winner
             then and_then (ensure_membership env subject_thread subject_key subject parent_thread
                    (parent_key winner) parent (Some owner) now db)
                  (\<lambda>db'. Inr (Some (rl_id existing), db'))
             else
               let db1 = snd (set_relation_state env (rl_id existing) RelationActive RelationRetracted now db)
               in and_then (record_derived_conflict env subject ''conflicting_parent'' now db1) (\<lambda>db2.
                  and_then (record_candidate env subject_thread subject parent_thread StateConflict observation now db2) (\<lambda>db3.
                  and_then (append_relation_event env True subject_key operation_id now
                    [(''reason'', JString ''conflicting_parent''), (''retracted_relation_id'', JInt (rl_id existing))] db3) (\<lambda>db4.
                  Inr (None, db4))))
         | None \<Rightarrow>
             and_then (insert_relation env (source_relation parent_thread subject_thread subject_key subject
                 parent winner observation now) db) (\<lambda>(i, db1).
             and_then (ensure_membership env subject_thread subject_key subject parent_thread
                 (parent_key winner) parent (Some owner) now db1) (\<lambda>db2.
             and_then (append_relation_event env False subject_key operation_id now
                 [(''parent_thread_canonical_key'', JString (parent_key winner)),
                  (''relation_type'', JString (relation_type_str (relation_type winner))),
                  (''selection_basis'', JString (basis_str (source_basis (cand_evidence winner))))] db2) (\<lambda>db3.
             Inr (Some i, db3)))))"

fun promote_pending ::
  "group_env \<Rightarrow> association_row list \<Rightarrow> int \<Rightarrow> int \<Rightarrow> int \<Rightarrow> 'a evidence_db_scheme
    \<Rightarrow> store_error + 'a evidence_db_scheme" where
  "promote_pending env [] observation parent_thread now db = Inr db"
| "promote_pending env (a # rest) observation parent_thread now db =
     (if as_state a = StatePending \<and> as_observation a = Some observation
      then (let (changed, db') = update_candidate_state env (as_id a) StatePending StateCandidate
                  (Some parent_thread) now db
            in if \<not> changed then Inl (Bail ''selected observation candidate changed concurrently'')
               else promote_pending env rest observation parent_thread now db')
      else promote_pending env rest observation parent_thread now db)"

definition resolve_pending_for_selected_observation ::
  "group_env \<Rightarrow> source_identity \<Rightarrow> string \<Rightarrow> int \<Rightarrow> int \<Rightarrow> 'a evidence_db_scheme
    \<Rightarrow> store_error + 'a evidence_db_scheme" where
  "resolve_pending_for_selected_observation env subject subject_key observation now db =
     (case find_active_parent subject_key db of
        None \<Rightarrow> Inr db
      | Some r \<Rightarrow>
          if rl_observation r \<noteq> Some observation \<or> rl_decision r \<noteq> None then Inr db
          else case rl_parent_thread r of
            None \<Rightarrow> Inr db
          | Some parent_thread \<Rightarrow>
              if \<not> scope_known subject then Inr db
              else promote_pending env (list_associations (identity_key_of subject) True db)
                     observation parent_thread now db)"

subsection \<open>Candidates of a subject\<close>

text \<open>
  The canonical key of a parent that may be adopted, or \<open>Inl\<close> of the thread, if any, under
  which the candidate stays pending.
\<close>

definition adoptable_parent :: "source_identity \<Rightarrow> 'a evidence_db_scheme \<Rightarrow> int option + string" where
  "adoptable_parent parent db =
     (if \<not> scope_known parent then Inl None
      else case find_resolved (identity_key_of parent) db of
        None \<Rightarrow> Inl None
      | Some resolved \<Rightarrow>
          if find_marker (identity_key_of parent) db \<noteq> None then Inl (Some (id_thread resolved))
          else case find_key_of_thread (id_thread resolved) db of
            None \<Rightarrow> Inl (Some (id_thread resolved))
          | Some row \<Rightarrow>
              if (case find_current (ky_key row) db of Some m \<Rightarrow> mb_state m = MemberDeleted | None \<Rightarrow> False)
              then Inl (Some (id_thread resolved))
              else Inr (ky_key row))"

fun gather_candidates ::
  "group_env \<Rightarrow> int \<Rightarrow> source_identity \<Rightarrow> int \<Rightarrow> (observation_input \<times> int) list \<Rightarrow> 'a evidence_db_scheme
    \<Rightarrow> store_error + (thread_candidate list \<times> nat) \<times> 'a evidence_db_scheme" where
  "gather_candidates env t subject now [] db = Inr (([], 0), db)"
| "gather_candidates env t subject now ((input, i) # rest) db =
     (case oi_parent input of
        None \<Rightarrow> gather_candidates env t subject now rest db
      | Some parent \<Rightarrow>
          (case promotable_source_candidate (oi_confidence input) (oi_relation_kind input) (oi_polarity input) of
             None \<Rightarrow> gather_candidates env t subject now rest db
           | Some (confidence, kind) \<Rightarrow>
               (case adoptable_parent parent db of
                  Inl parent_thread \<Rightarrow>
                    and_then (record_candidate env t subject parent_thread StatePending i now db) (\<lambda>db1.
                    and_then (gather_candidates env t subject now rest db1) (\<lambda>((cands, pending), db2).
                    Inr ((cands, pending + 1), db2)))
                | Inr key \<Rightarrow>
                    and_then (gather_candidates env t subject now rest db) (\<lambda>((cands, pending), db1).
                    Inr (((\<lparr>parent_key = key, relation_type = kind, cand_evidence = SourceEvidence confidence\<rparr>,
                      parent, i) # cands, pending), db1)))))"

definition observation_state_of :: "string option \<Rightarrow> string" where
  "observation_state_of confidence =
     (if confidence = Some ''unsupported'' \<or> confidence = Some ''heuristic'' then ''unsupported'' else ''candidate'')"

fun record_observations ::
  "group_env \<Rightarrow> int \<Rightarrow> string \<Rightarrow> int \<Rightarrow> observation_input list \<Rightarrow> 'a evidence_db_scheme
    \<Rightarrow> store_error + int list \<times> 'a evidence_db_scheme" where
  "record_observations env t operation_id now [] db = Inr ([], db)"
| "record_observations env t operation_id now (input # rest) db =
     and_then (record_observation_and_event env input (observation_state_of (oi_confidence input)) ''candidate''
         (Some t) operation_id now db) (\<lambda>(r, db1).
     and_then (record_observations env t operation_id now rest db1) (\<lambda>(ids, db2).
     Inr (rc_observation r # ids, db2)))"

text \<open>The loops that record the winners of a conflict.\<close>

fun record_conflicts ::
  "group_env \<Rightarrow> int \<Rightarrow> source_identity \<Rightarrow> int \<Rightarrow> thread_candidate list \<Rightarrow> candidate list
    \<Rightarrow> 'a evidence_db_scheme \<Rightarrow> store_error + 'a evidence_db_scheme" where
  "record_conflicts env t subject now cands [] db = Inr db"
| "record_conflicts env t subject now cands (winner # rest) db =
     (case candidate_of winner cands of
        None \<Rightarrow> record_conflicts env t subject now cands rest db
      | Some (_, parent, i) \<Rightarrow>
          and_then (record_candidate env t subject (resolved_thread parent db) StateConflict i now db)
            (record_conflicts env t subject now cands rest))"

subsection \<open>Reconciling a subject\<close>

record outcome =
  ro_observations :: "int list"
  ro_selected :: "int option"
  ro_group :: "int option"
  ro_conflict :: bool
  ro_pending :: nat

text \<open>The import guard: the reasons to refuse a subject.\<close>

definition import_refusal ::
  "group_env \<Rightarrow> (int \<Rightarrow> int option) \<Rightarrow> int \<Rightarrow> source_identity \<Rightarrow> observation_input list
    \<Rightarrow> 'a evidence_db_scheme \<Rightarrow> string option" where
  "import_refusal env owner_of t subject inputs db =
     (let k = identity_key_of subject
      in case owner_of t of
           None \<Rightarrow> Some ''imported subject thread not found''
         | Some user \<Rightarrow>
             if si_user_id subject \<noteq> user then Some ''imported subject owner does not match thread owner''
             else if \<not> scope_known subject
             then (if inputs = [] then Some ''unknown imported subject requires observation evidence'' else None)
             else if find_marker k db \<noteq> None then Some ''imported subject has a deletion marker''
             else case find_resolved k db of
               None \<Rightarrow> None
             | Some r \<Rightarrow> if id_thread r \<noteq> t then Some ''imported subject identity belongs to another thread'' else None)"

text \<open>The canonical key of the subject: the one assigned first stays.\<close>

definition subject_canonical_key ::
  "group_env \<Rightarrow> int \<Rightarrow> source_identity \<Rightarrow> int \<Rightarrow> 'a evidence_db_scheme
    \<Rightarrow> store_error + string option \<times> 'a evidence_db_scheme" where
  "subject_canonical_key env t subject now db =
     (case source_thread_canonical_key (env_nfc env) (env_sha env) subject of
        None \<Rightarrow> Inr (None, db)
      | Some key \<Rightarrow>
          and_then (case find_key_of_thread t db of
              Some row \<Rightarrow> Inr (ky_key row, db)
            | None \<Rightarrow> and_then (assign_key env t (si_user_id subject) key ''source_identity'' now db)
                (\<lambda>db'. Inr (key, db')))
            (\<lambda>(assigned, db1). Inr (Some assigned, upsert_resolved (identity_key_of subject) t now db1)))"

definition current_group :: "string \<Rightarrow> 'a group_db_scheme \<Rightarrow> int option" where
  "current_group key db = map_option mb_group (find_current key db)"

text \<open>The \<open>match\<close> on the selection: the selected relation, the group, whether it is a conflict.\<close>

definition settle_selection ::
  "group_env \<Rightarrow> int \<Rightarrow> string \<Rightarrow> source_identity \<Rightarrow> thread_candidate list \<Rightarrow> string \<Rightarrow> int \<Rightarrow> int
    \<Rightarrow> 'a evidence_db_scheme \<Rightarrow> store_error + (int option \<times> int option \<times> bool) \<times> 'a evidence_db_scheme" where
  "settle_selection env t subject_key subject cands operation_id now owner db =
     (case select_parent_candidate (map fst cands) of
        NoSelection \<Rightarrow> Inr ((None, None, False), db)
      | Conflict winners \<Rightarrow>
          and_then (record_conflicts env t subject now cands winners (retract_active_relation env subject_key now db)) (\<lambda>db1.
          and_then (append_relation_event env True subject_key operation_id now
              [(''reason'', JString ''equal_ranked_parents'')] db1) (\<lambda>db2.
          Inr ((None, None, True), db2)))
      | Selected winner \<Rightarrow>
          if parent_key winner = subject_key \<or> ancestor_contains db (parent_key winner) subject_key
          then and_then (record_candidate env t subject None StateConflict (winner_observation_id cands winner) now db)
                 (\<lambda>db1. Inr ((None, None, False), db1))
          else case candidate_of winner cands of
            None \<Rightarrow> Inl (Bail ''winner is from candidates'')
          | Some (_, parent, i) \<Rightarrow>
              and_then (apply_selected_relation env t subject_key subject parent winner i operation_id now owner db) (\<lambda>(r, db1).
              and_then (if r = None then Inr db1
                        else resolve_pending_for_selected_observation env subject subject_key i now db1) (\<lambda>db2.
              Inr ((r, current_group subject_key db2, r = None), db2))))"

text \<open>A subject without a membership becomes the root of its own group.\<close>

definition ensure_singleton ::
  "group_env \<Rightarrow> int \<Rightarrow> string \<Rightarrow> source_identity \<Rightarrow> int \<Rightarrow> int \<Rightarrow> 'a group_db_scheme
    \<Rightarrow> store_error + int \<times> 'a group_db_scheme" where
  "ensure_singleton env t subject_key subject owner now db =
     (let group_key = reconciler_group_canonical_key (env_nfc env) (env_sha env) subject_key
      in and_then (case find_active_group group_key db of
             Some g \<Rightarrow> Inr (g_id g, db)
           | None \<Rightarrow> create_group env (reconciler_group env owner group_key now) db)
           (\<lambda>(i, db1). and_then
              (insert_member env (automatic_member (Some t) subject_key subject i subject_key MemberActive None now) db1)
              (\<lambda>db2. Inr (i, db2))))"

definition late_pending :: "string \<Rightarrow> source_identity \<Rightarrow> 'a evidence_db_scheme \<Rightarrow> int list" where
  "late_pending subject_key subject db =
     (if scope_known subject \<and> find_marker (identity_key_of subject) db = None
        \<and> (case find_current subject_key db of Some m \<Rightarrow> mb_state m = MemberActive | None \<Rightarrow> False)
      then map ob_id (list_pending_by_parent (identity_key_of subject) db) else [])"

text \<open>The transaction of \<open>reconcile_subject_inner\<close>, with the observations to look at afterwards.\<close>

definition reconcile_tx ::
  "group_env \<Rightarrow> (int \<Rightarrow> int option) \<Rightarrow> int \<Rightarrow> source_identity \<Rightarrow> observation_input list \<Rightarrow> string \<Rightarrow> int \<Rightarrow> int \<Rightarrow> bool
    \<Rightarrow> 'a evidence_db_scheme \<Rightarrow> store_error + (outcome \<times> int list) \<times> 'a evidence_db_scheme" where
  "reconcile_tx env owner_of t subject inputs operation_id now owner import_guard db =
     (case (if import_guard then import_refusal env owner_of t subject inputs db else None) of
        Some reason \<Rightarrow> Inl (Bail reason)
      | None \<Rightarrow>
          and_then (subject_canonical_key env t subject now db) (\<lambda>(subject_key, db1).
          and_then (record_observations env t operation_id now inputs db1) (\<lambda>(ids, db2).
          case subject_key of
            None \<Rightarrow> Inr ((\<lparr>ro_observations = ids, ro_selected = None, ro_group = None, ro_conflict = False,
              ro_pending = 0\<rparr>, []), db2)
          | Some key \<Rightarrow>
              and_then (gather_candidates env t subject now (zip inputs ids) db2) (\<lambda>((cands, pending), db3).
              and_then (settle_selection env t key subject cands operation_id now owner db3)
                (\<lambda>((selected, grp, conflict), db4).
              and_then (if grp = None \<and> find_current key db4 = None
                        then and_then (ensure_singleton env t key subject owner now db4) (\<lambda>(i, db5). Inr (Some i, db5))
                        else Inr (grp, db4)) (\<lambda>(grp', db5).
              Inr ((\<lparr>ro_observations = ids, ro_selected = selected, ro_group = grp', ro_conflict = conflict,
                ro_pending = pending\<rparr>, late_pending key subject db5), db5)))))))"

subsection \<open>Looking at a pending observation again\<close>

text \<open>\<open>association_by_observation\<close>: collecting into a map keeps the last entry of a key.\<close>

definition association_for :: "association_row list \<Rightarrow> int \<Rightarrow> association_row option" where
  "association_for associations i = find (\<lambda>a. as_observation a = Some i) (rev associations)"

definition association_in ::
  "association_row list \<Rightarrow> int \<Rightarrow> association_state list \<Rightarrow> bool" where
  "association_in associations i states =
     (case association_for associations i of None \<Rightarrow> False | Some a \<Rightarrow> as_state a \<in> set states)"

text \<open>The canonical key of a parent whose membership is active.\<close>

definition active_parent_key :: "source_identity \<Rightarrow> 'a evidence_db_scheme \<Rightarrow> string option" where
  "active_parent_key parent db =
     (case find_resolved (identity_key_of parent) db of
        None \<Rightarrow> None
      | Some resolved \<Rightarrow>
          (case find_key_of_thread (id_thread resolved) db of
             None \<Rightarrow> None
           | Some row \<Rightarrow>
               (case find_current (ky_key row) db of
                  None \<Rightarrow> None
                | Some m \<Rightarrow> if mb_state m = MemberActive then Some (ky_key row) else None)))"

fun stored_candidates ::
  "association_row list \<Rightarrow> observation_row list \<Rightarrow> 'a evidence_db_scheme
    \<Rightarrow> store_error + thread_candidate list" where
  "stored_candidates associations [] db = Inr []"
| "stored_candidates associations (row # rest) db =
     (if association_in associations (ob_id row)
           [StateSuperseded, StateConflict, StateAmbiguous, StateUnsupported]
      then stored_candidates associations rest db
      else and_then (observation_parent_endpoint row) (\<lambda>parent.
        case parent of
          None \<Rightarrow> stored_candidates associations rest db
        | Some p \<Rightarrow>
            (case promotable_source_candidate (ob_confidence row) (ob_relation_kind row) (ob_polarity row) of
               None \<Rightarrow> stored_candidates associations rest db
             | Some (confidence, kind) \<Rightarrow>
                 if \<not> scope_known p \<or> find_marker (identity_key_of p) db \<noteq> None
                 then stored_candidates associations rest db
                 else (case active_parent_key p db of
                    None \<Rightarrow> stored_candidates associations rest db
                  | Some key \<Rightarrow> and_then (stored_candidates associations rest db) (\<lambda>cands.
                      Inr ((\<lparr>parent_key = key, relation_type = kind, cand_evidence = SourceEvidence confidence\<rparr>,
                        p, ob_id row) # cands))))))"

text \<open>The loops that record a state for some of the candidates.\<close>

fun record_each ::
  "group_env \<Rightarrow> int \<Rightarrow> source_identity \<Rightarrow> association_state \<Rightarrow> int \<Rightarrow> thread_candidate list
    \<Rightarrow> 'a evidence_db_scheme \<Rightarrow> store_error + 'a evidence_db_scheme" where
  "record_each env t subject state now [] db = Inr db"
| "record_each env t subject state now ((c, parent, i) # rest) db =
     and_then (record_candidate env t subject (resolved_thread parent db) state i now db)
       (record_each env t subject state now rest)"

definition losers :: "candidate list \<Rightarrow> association_row list \<Rightarrow> thread_candidate list \<Rightarrow> thread_candidate list" where
  "losers winners associations cands = filter (\<lambda>(c, p, i).
     \<not> list_ex (\<lambda>w. list_ex (\<lambda>(c', p', i'). c' = w \<and> i' = i) cands) winners
     \<and> association_in associations i [StatePending]) cands"

definition settle_pending ::
  "group_env \<Rightarrow> int \<Rightarrow> string \<Rightarrow> source_identity \<Rightarrow> association_row list \<Rightarrow> thread_candidate list
    \<Rightarrow> string \<Rightarrow> int \<Rightarrow> 'a evidence_db_scheme \<Rightarrow> store_error + 'a evidence_db_scheme" where
  "settle_pending env t subject_key subject associations cands operation_id now db =
     (case select_parent_candidate (map fst cands) of
        NoSelection \<Rightarrow> Inr db
      | Conflict winners \<Rightarrow>
          and_then (record_conflicts env t subject now cands winners (retract_active_relation env subject_key now db)) (\<lambda>db1.
          and_then (record_each env t subject StateCandidate now (losers winners associations cands) db1) (\<lambda>db2.
          append_relation_event env True subject_key operation_id now
            [(''reason'', JString ''equal_ranked_parents'')] db2))
      | Selected winner \<Rightarrow>
          (case candidate_of winner cands of
             None \<Rightarrow> Inr db
           | Some (_, parent, i) \<Rightarrow>
               let parent_thread = resolved_thread parent db
               in if parent_key winner = subject_key \<or> ancestor_contains db (parent_key winner) subject_key
                  then and_then (record_candidate env t subject parent_thread StateConflict i now db)
                    (record_each env t subject StateCandidate now
                      (filter (\<lambda>(c, p, j). association_in associations j [StatePending]) cands))
                  else and_then (apply_selected_relation env t subject_key subject parent winner i
                         operation_id now (si_user_id subject) db) (\<lambda>(r, db1).
                    if r = None then record_each env t subject StateConflict now cands db1
                    else and_then (record_each env t subject StateCandidate now
                           (filter (\<lambda>(c, p, j). j \<noteq> i \<and> association_in associations j [StatePending]) cands) db1)
                         (record_candidate env t subject parent_thread StateCandidate i now))))"

text \<open>The checks before the candidates are collected: the thread and key of the subject.\<close>

definition pending_subject ::
  "int \<Rightarrow> source_identity \<Rightarrow> source_identity \<Rightarrow> 'a evidence_db_scheme \<Rightarrow> (int \<times> string) option" where
  "pending_subject observation subject parent db =
     (let associations = list_associations (identity_key_of subject) True db
      in if \<not> list_ex (\<lambda>a. as_observation a = Some observation \<and> as_state a = StatePending) associations
         then None
         else if list_ex (\<lambda>a. as_state a \<in> {StateConflict, StateAmbiguous}) associations then None
         else if find_marker (identity_key_of subject) db \<noteq> None \<or> find_marker (identity_key_of parent) db \<noteq> None
         then None
         else case find_resolved (identity_key_of subject) db of
           None \<Rightarrow> None
         | Some identity \<Rightarrow>
             (case find_key_of_thread (id_thread identity) db of
                None \<Rightarrow> None
              | Some row \<Rightarrow>
                  (case find_current (ky_key row) db of
                     None \<Rightarrow> None
                   | Some m \<Rightarrow>
                       if mb_state m \<noteq> MemberActive then None
                       else if (case find_active_parent (ky_key row) db of
                              None \<Rightarrow> False | Some r \<Rightarrow> rl_decision r \<noteq> None) then None
                       else if active_parent_key parent db = None then None
                       else Some (id_thread identity, ky_key row))))"

definition reconcile_pending_observation ::
  "group_env \<Rightarrow> int \<Rightarrow> string \<Rightarrow> int \<Rightarrow> 'a evidence_db_scheme \<Rightarrow> store_error + 'a evidence_db_scheme" where
  "reconcile_pending_observation env observation operation_id now db =
     (case find_observation_by_id observation db of
        None \<Rightarrow> Inr db
      | Some trigger \<Rightarrow>
          and_then (observation_parent_endpoint trigger) (\<lambda>p.
          case p of
            None \<Rightarrow> Inr db
          | Some parent \<Rightarrow>
              if \<not> ob_known trigger \<or> \<not> ob_parent_known trigger then Inr db
              else
                let subject = candidate_endpoint (ob_source trigger) True (ob_scope trigger)
                      (ob_user trigger) (ob_native trigger)
                in case pending_subject observation subject parent db of
                     None \<Rightarrow> Inr db
                   | Some (t, subject_key) \<Rightarrow>
                       let associations = list_associations (identity_key_of subject) True db
                       in and_then (stored_candidates associations
                              (list_observations (identity_key_of subject) True db) db) (\<lambda>cands.
                            if \<not> list_ex (\<lambda>(c, p, i). i = observation) cands then Inr db
                            else settle_pending env t subject_key subject associations cands operation_id now db)))"

text \<open>
  The whole operation: the transaction, then one transaction per late observation. An error
  stops the loop but does not undo what was committed before.
\<close>

fun reconcile_late ::
  "group_env \<Rightarrow> int list \<Rightarrow> string \<Rightarrow> int \<Rightarrow> 'a evidence_db_scheme \<Rightarrow> store_error option \<times> 'a evidence_db_scheme" where
  "reconcile_late env [] operation_id now db = (None, db)"
| "reconcile_late env (i # rest) operation_id now db =
     (case reconcile_pending_observation env i operation_id now db of
        Inl e \<Rightarrow> (Some e, db)
      | Inr db' \<Rightarrow> reconcile_late env rest operation_id now db')"

definition reconcile_subject_inner ::
  "group_env \<Rightarrow> bool \<Rightarrow> (int \<Rightarrow> int option) \<Rightarrow> int \<Rightarrow> source_identity \<Rightarrow> observation_input list \<Rightarrow> string \<Rightarrow> int \<Rightarrow> int
    \<Rightarrow> bool \<Rightarrow> 'a evidence_db_scheme \<Rightarrow> (store_error + outcome) \<times> 'a evidence_db_scheme" where
  "reconcile_subject_inner env writes_enabled owner_of t subject inputs operation_id now owner import_guard db =
     (if \<not> writes_enabled then (Inl (Bail ''ThreadGroup writes are disabled''), db)
      else case reconcile_tx env owner_of t subject inputs operation_id now owner import_guard db of
        Inl e \<Rightarrow> (Inl e, db)
      | Inr ((result, late), db1) \<Rightarrow>
          (case reconcile_late env late operation_id now db1 of
             (Some e, db2) \<Rightarrow> (Inl e, db2)
           | (None, db2) \<Rightarrow> (Inr result, db2)))"

definition reconcile_subject ::
  "group_env \<Rightarrow> bool \<Rightarrow> int \<Rightarrow> source_identity \<Rightarrow> observation_input list \<Rightarrow> string \<Rightarrow> int
    \<Rightarrow> 'a evidence_db_scheme \<Rightarrow> (store_error + outcome) \<times> 'a evidence_db_scheme" where
  "reconcile_subject env writes_enabled t subject inputs operation_id now =
     reconcile_subject_inner env writes_enabled (\<lambda>_. None) t subject inputs operation_id now
       (si_user_id subject) False"

definition reconcile_imported_subject ::
  "group_env \<Rightarrow> bool \<Rightarrow> (int \<Rightarrow> int option) \<Rightarrow> int \<Rightarrow> source_identity \<Rightarrow> observation_input list \<Rightarrow> int \<Rightarrow> string \<Rightarrow> int
    \<Rightarrow> 'a evidence_db_scheme \<Rightarrow> (store_error + outcome) \<times> 'a evidence_db_scheme" where
  "reconcile_imported_subject env writes_enabled owner_of t subject inputs owner operation_id now =
     reconcile_subject_inner env writes_enabled owner_of t subject inputs operation_id now owner True"

end
