(* ===== verification/Group_Graph.thy ===== *)
theory Group_Graph
  imports Group_Reconcile
begin

text \<open>
  The invariant of the thread graph under the reconciler: the placement invariant and the
  absence of cycles among the active relations. Recording evidence touches neither groups,
  members nor relations; adopting a parent happens only behind the cycle guard.
\<close>

subsection \<open>The invariant\<close>

definition graph_ok :: "'a group_db_scheme \<Rightarrow> bool" where
  "graph_ok db \<longleftrightarrow> placed_ok db \<and> acyclic (active_edges db)"

definition same_graph :: "'a group_db_scheme \<Rightarrow> 'a group_db_scheme \<Rightarrow> bool" where
  "same_graph db db' \<longleftrightarrow> db_groups db' = db_groups db \<and> db_members db' = db_members db
     \<and> db_relations db' = db_relations db"

named_theorems evidence_only \<open>operations that leave groups, members and relations alone\<close>

lemma same_graph_refl [simp]: "same_graph db db"
  by (simp add: same_graph_def)

lemma same_graph_trans [trans]: "same_graph a b \<Longrightarrow> same_graph b c \<Longrightarrow> same_graph a c"
  by (simp add: same_graph_def)

lemma placed_ok_same:
  assumes "same_graph db db'" shows "placed_ok db' = placed_ok db"
proof -
  have same: "db_groups db' = db_groups db" "db_members db' = db_members db" "db_relations db' = db_relations db"
    using assms by (simp_all add: same_graph_def)
  have active: "group_active i db' = group_active i db" for i by (rule groups_only [OF same(1)])
  have flat: "redirects_flat db' = redirects_flat db" by (rule groups_only [OF same(1)])
  show ?thesis unfolding placed_ok_def tables_ok_def active flat same ..
qed

lemma graph_ok_same: "same_graph db db' \<Longrightarrow> graph_ok db \<Longrightarrow> graph_ok db'"
  by (simp add: graph_ok_def placed_ok_same) (simp add: same_graph_def active_edges_def)

lemma find_active_parent_same: "same_graph db db' \<Longrightarrow> find_active_parent k db' = find_active_parent k db"
  by (simp add: same_graph_def find_active_parent_def)

lemma find_current_same: "same_graph db db' \<Longrightarrow> find_current k db' = find_current k db"
  by (simp add: same_graph_def find_current_def)

lemma ancestor_contains_same:
  assumes "graph_ok db" "same_graph db db'"
  shows "ancestor_contains db' s t = ancestor_contains db s t"
proof -
  have "tables_ok db" "tables_ok db'"
    using assms graph_ok_same [OF assms(2,1)] by (auto simp: graph_ok_def placed_ok_def)
  then show ?thesis using assms(2)
    by (simp add: ancestor_contains_reach same_graph_def active_edges_def)
qed

subsection \<open>Recording evidence\<close>

lemma insert_observation_same [evidence_only]:
  "insert_observation env new db = Inr (i, db') \<Longrightarrow> same_graph db db'"
  by (auto simp: insert_observation_def Let_def same_graph_def split: if_splits)

lemma append_event_same [evidence_only]: "append_event env event db = Inr (b, db') \<Longrightarrow> same_graph db db'"
  by (auto simp: append_event_def same_graph_def split: if_splits)

lemma insert_association_same [evidence_only]:
  "insert_association env new db = Inr (i, db') \<Longrightarrow> same_graph db db'"
  by (auto simp: insert_association_def Let_def same_graph_def split: if_splits)

lemma update_candidate_state_same [simp]:
  "same_graph db (snd (update_candidate_state env i e n p now db))"
  by (simp add: update_candidate_state_def update_associations_def Let_def same_graph_def)

lemma upsert_resolved_same [simp]: "same_graph db (upsert_resolved k t now db)"
  by (simp add: upsert_resolved_def same_graph_def)

lemma assign_key_same [evidence_only]: "assign_key env t u k origin now db = Inr db' \<Longrightarrow> same_graph db db'"
  by (auto simp: assign_key_def same_graph_def split: if_splits)

lemma record_observation_same [evidence_only]:
  assumes "record_observation_and_event env input state event_state t op now db = Inr (r, db')"
  shows "same_graph db db'"
proof -
  from assms obtain i b db1 e where
    "(case find_observation (new_observation env input ''adapter'' state now) db of
        Some existing \<Rightarrow> Inr ((ob_id existing, False), db)
      | None \<Rightarrow> and_then (insert_observation env (new_observation env input ''adapter'' state now) db)
          (\<lambda>(i, db'). Inr ((i, True), db'))) = Inr ((i, b), db1)"
    "append_event env (observation_event env input
       (ob_fingerprint (new_observation env input ''adapter'' state now)) event_state t op now) db1 = Inr (e, db')"
    by (auto simp: record_observation_and_event_def Let_def elim!: and_then_InrE)
  then show ?thesis
    by (auto intro: same_graph_trans dest: evidence_only elim!: and_then_InrE split: option.splits)
qed

lemma refresh_candidates_same [simp]: "same_graph db (refresh_candidates env as state p now db)"
proof (induction "as" arbitrary: db)
  case (Cons a rest)
  then show ?case by (auto intro: same_graph_trans [OF update_candidate_state_same])
qed simp

lemma record_candidate_same [evidence_only]:
  "record_candidate env t s p state i now db = Inr db' \<Longrightarrow> same_graph db db'"
  by (auto simp: record_candidate_def Let_def elim!: and_then_InrE dest: evidence_only split: if_splits)

lemma record_observations_same [evidence_only]:
  "record_observations env t op now inputs db = Inr (ids, db') \<Longrightarrow> same_graph db db'"
proof (induction inputs arbitrary: ids db)
  case (Cons input rest)
  from Cons.prems obtain r db1 ids1 where
    "record_observation_and_event env input (observation_state_of (oi_confidence input)) ''candidate''
       (Some t) op now db = Inr (r, db1)" "record_observations env t op now rest db1 = Inr (ids1, db')"
    by (auto elim!: and_then_InrE)
  then show ?case using Cons.IH record_observation_same same_graph_trans by blast
qed simp

lemma gather_candidates_same [evidence_only]:
  "gather_candidates env t s now rows db = Inr (r, db') \<Longrightarrow> same_graph db db'"
proof (induction env t s now rows db arbitrary: r rule: gather_candidates.induct)
  case (2 env t s now input i rest db)
  show ?case
  proof (cases "oi_parent input")
    case None
    with 2 show ?thesis by simp
  next
    case (Some parent)
    note parent = Some
    show ?thesis
    proof (cases "promotable_source_candidate (oi_confidence input) (oi_relation_kind input) (oi_polarity input)")
      case None
      with 2 parent show ?thesis by simp
    next
      case (Some ck)
      obtain c k where ck: "ck = (c, k)" by (cases ck)
      show ?thesis
      proof (cases "adoptable_parent parent db")
        case (Inl pt)
        from "2.prems" obtain db1 r1 where "record_candidate env t s pt StatePending i now db = Inr db1"
          "gather_candidates env t s now rest db1 = Inr (r1, db')"
          by (auto simp: parent Some ck Inl elim!: and_then_InrE)
        then show ?thesis
          using "2.IH"(3) [OF parent Some [unfolded ck] refl Inl] record_candidate_same same_graph_trans by blast
      next
        case (Inr key)
        from "2.prems" obtain r1 where "gather_candidates env t s now rest db = Inr (r1, db')"
          by (auto simp: parent Some ck Inr elim!: and_then_InrE)
        then show ?thesis using "2.IH"(4) [OF parent Some [unfolded ck] refl Inr] by blast
      qed
    qed
  qed
qed simp

lemma record_conflicts_same [evidence_only]:
  "record_conflicts env t s now cands winners db = Inr db' \<Longrightarrow> same_graph db db'"
proof (induction winners arbitrary: db)
  case (Cons w rest)
  then show ?case
    by (auto elim!: and_then_InrE dest!: record_candidate_same intro: same_graph_trans split: option.splits)
qed simp

lemma record_each_same [evidence_only]:
  "record_each env t s state now cands db = Inr db' \<Longrightarrow> same_graph db db'"
proof (induction cands arbitrary: db)
  case (Cons c rest)
  obtain x p i where "c = (x, p, i)" by (cases c)
  with Cons show ?case
    by (auto elim!: and_then_InrE dest!: record_candidate_same intro: same_graph_trans)
qed simp

lemma append_relation_event_same [evidence_only]:
  "append_relation_event env conflict k op now payload db = Inr db' \<Longrightarrow> same_graph db db'"
  by (auto simp: append_relation_event_def Let_def elim!: and_then_InrE dest: append_event_same)

lemma record_derived_conflict_same [evidence_only]:
  "record_derived_conflict env s reason now db = Inr db' \<Longrightarrow> same_graph db db'"
  by (auto simp: record_derived_conflict_def Let_def elim!: and_then_InrE dest: insert_observation_same
      split: if_splits)

lemma promote_pending_same [evidence_only]:
  "promote_pending env as i p now db = Inr db' \<Longrightarrow> same_graph db db'"
proof (induction "as" arbitrary: db)
  case (Cons a rest)
  show ?case
  proof (cases "as_state a = StatePending \<and> as_observation a = Some i")
    case True
    let ?db1 = "snd (update_candidate_state env (as_id a) StatePending StateCandidate (Some p) now db)"
    from True Cons.prems have "promote_pending env rest i p now ?db1 = Inr db'"
      by (simp add: case_prod_beta Let_def split: if_splits)
    from same_graph_trans [OF update_candidate_state_same Cons.IH [OF this]] show ?thesis .
  next
    case False
    with Cons show ?thesis by auto
  qed
qed simp

lemma resolve_pending_same [evidence_only]:
  "resolve_pending_for_selected_observation env s k i now db = Inr db' \<Longrightarrow> same_graph db db'"
  by (auto simp: resolve_pending_for_selected_observation_def dest: promote_pending_same
      split: option.splits if_splits)

lemma subject_canonical_key_same [evidence_only]:
  assumes "subject_canonical_key env t s now db = Inr (k, db')" shows "same_graph db db'"
proof (cases "source_thread_canonical_key (env_nfc env) (env_sha env) s")
  case None
  with assms show ?thesis by (simp add: subject_canonical_key_def)
next
  case (Some key)
  with assms obtain assigned db1 where
    "(case find_key_of_thread t db of Some row \<Rightarrow> Inr (ky_key row, db)
      | None \<Rightarrow> and_then (assign_key env t (si_user_id s) key ''source_identity'' now db) (\<lambda>db'. Inr (key, db')))
      = Inr (assigned, db1)" "db' = upsert_resolved (identity_key_of s) t now db1"
    by (auto simp: subject_canonical_key_def elim!: and_then_InrE)
  then show ?thesis
    by (auto split: option.splits elim!: and_then_InrE
        intro: same_graph_trans [OF assign_key_same upsert_resolved_same])
qed

subsection \<open>Changing relations\<close>

text \<open>Only the relations changed, and no more of them are active.\<close>

lemma placed_ok_relations:
  assumes "placed_ok db" "distinct (map rl_id rs)"
    "distinct (map rl_child_key (filter (\<lambda>r. rl_state r = RelationActive) rs))" "list_all relation_check rs"
  shows "placed_ok (db\<lparr>db_relations := rs\<rparr>)"
proof -
  let ?db = "db\<lparr>db_relations := rs\<rparr>"
  have same: "db_groups ?db = db_groups db" by simp
  have active: "group_active i ?db = group_active i db" for i by (rule groups_only [OF same])
  have flat: "redirects_flat ?db = redirects_flat db" by (rule groups_only [OF same])
  show ?thesis using assms unfolding placed_ok_def active flat by (simp add: tables_ok_def)
qed

lemma find_current_relations [simp]: "find_current k (db\<lparr>db_relations := rs\<rparr>) = find_current k db"
  by (simp add: find_current_def)

lemma operator_fixed_relations [simp]: "operator_fixed k (db\<lparr>db_relations := rs\<rparr>) = operator_fixed k db"
  by (simp add: operator_fixed_def)

lemma set_relation_state_relations:
  "snd (set_relation_state env i expected new now db) = db\<lparr>db_relations := map (\<lambda>r.
     if rl_id r = i \<and> rl_state r = expected then r\<lparr>rl_state := new, rl_updated := fill_updated_at env now\<rparr> else r)
     (db_relations db)\<rparr>"
  by (simp add: set_relation_state_def Let_def)

lemma set_relation_state_frame [simp]:
  "db_groups (snd (set_relation_state env i e n now db)) = db_groups db"
  "db_members (snd (set_relation_state env i e n now db)) = db_members db"
  "find_current k (snd (set_relation_state env i e n now db)) = find_current k db"
  by (simp_all add: set_relation_state_relations)

lemma relation_check_state [simp]:
  "relation_check (r\<lparr>rl_state := st, rl_updated := u\<rparr>) = relation_check r"
  by (simp add: relation_check_def)

lemma active_after:
  assumes "new \<noteq> RelationActive"
  shows "filter (\<lambda>r. rl_state r = RelationActive) (db_relations (snd (set_relation_state env i RelationActive new now db)))
    = filter (\<lambda>r. rl_id r \<noteq> i) (filter (\<lambda>r. rl_state r = RelationActive) (db_relations db))"
proof -
  let ?f = "\<lambda>r. if rl_id r = i \<and> rl_state r = RelationActive
    then r\<lparr>rl_state := new, rl_updated := fill_updated_at env now\<rparr> else r"
  have "filter (\<lambda>r. rl_state r = RelationActive) (map ?f rs)
      = filter (\<lambda>r. rl_id r \<noteq> i) (filter (\<lambda>r. rl_state r = RelationActive) rs)" for rs
    by (induction rs) (simp_all add: assms)
  then show ?thesis by (simp add: set_relation_state_relations)
qed

lemma deactivate_ok:
  assumes "graph_ok db" "new \<noteq> RelationActive"
  shows "graph_ok (snd (set_relation_state env i RelationActive new now db))"
    "active_edges (snd (set_relation_state env i RelationActive new now db)) \<subseteq> active_edges db"
proof -
  let ?f = "\<lambda>r. if rl_id r = i \<and> rl_state r = RelationActive
    then r\<lparr>rl_state := new, rl_updated := fill_updated_at env now\<rparr> else r"
  have active: "filter (\<lambda>r. rl_state r = RelationActive) (map ?f (db_relations db))
      = filter (\<lambda>r. rl_id r \<noteq> i) (filter (\<lambda>r. rl_state r = RelationActive) (db_relations db))"
    using active_after [OF assms(2), of env i now db] by (simp only: set_relation_state_relations) simp
  have placed: "placed_ok db" and acyc: "acyclic (active_edges db)" using assms(1) by (auto simp: graph_ok_def)
  have checks: "\<forall>r \<in> set (db_relations db). relation_check r"
    using placed by (simp add: placed_ok_def tables_ok_def list_all_iff)
  have base: "distinct (map rl_child_key (filter (\<lambda>r. rl_state r = RelationActive) (db_relations db)))"
    using placed by (simp add: placed_ok_def tables_ok_def)
  have "distinct (map rl_child_key (filter (\<lambda>r. rl_state r = RelationActive) (map ?f (db_relations db))))"
    unfolding active by (rule distinct_map_filter [OF base])
  moreover have "list_all relation_check (map ?f (db_relations db))"
    using checks by (auto simp: list_all_iff)
  moreover have "map rl_id (map ?f (db_relations db)) = map rl_id (db_relations db)" by simp
  then have "distinct (map rl_id (map ?f (db_relations db)))"
    using placed by (simp only: placed_ok_def tables_ok_def)
  ultimately have placed': "placed_ok (snd (set_relation_state env i RelationActive new now db))"
    unfolding set_relation_state_relations by (intro placed_ok_relations [OF placed])
  show sub: "active_edges (snd (set_relation_state env i RelationActive new now db)) \<subseteq> active_edges db"
    by (auto simp: active_edges_def set_relation_state_relations active)
  show "graph_ok (snd (set_relation_state env i RelationActive new now db))"
    using placed' acyclic_subset [OF acyc sub] by (simp add: graph_ok_def)
qed

text \<open>Deactivating the active relation of a thread leaves it without a parent and every other thread with its own.\<close>

lemma deactivate_parent:
  assumes "graph_ok db" "find_active_parent k db = Some r" "new \<noteq> RelationActive"
  shows "find_active_parent j (snd (set_relation_state env (rl_id r) RelationActive new now db)) =
    (if j = k then None else find_active_parent j db)"
proof -
  let ?db = "snd (set_relation_state env (rl_id r) RelationActive new now db)"
  have ok: "tables_ok db" using assms(1) by (simp add: graph_ok_def placed_ok_def)
  have ok': "tables_ok ?db" using deactivate_ok(1) [OF assms(1,3)] by (simp add: graph_ok_def placed_ok_def)
  have r: "r \<in> set (db_relations db)" "rl_child_key r = k" "rl_state r = RelationActive"
    using assms(2) by (simp_all add: find_active_parent_Some [OF ok])
  have "distinct (map rl_id (db_relations db))" using ok by (simp add: tables_ok_def)
  then have unique: "rl_id x = rl_id r \<longleftrightarrow> x = r" if "x \<in> set (db_relations db)" for x
    using that r(1) by (auto simp: distinct_map dest: inj_onD)
  have rows: "x \<in> set (db_relations ?db) \<and> rl_state x = RelationActive
      \<longleftrightarrow> x \<in> set (db_relations db) \<and> rl_state x = RelationActive \<and> x \<noteq> r" for x
  proof -
    have "x \<in> set (filter (\<lambda>r. rl_state r = RelationActive) (db_relations ?db)) \<longleftrightarrow>
        x \<in> set (db_relations db) \<and> rl_state x = RelationActive \<and> rl_id x \<noteq> rl_id r"
      unfolding active_after [OF assms(3)] by auto
    then show ?thesis using unique by auto
  qed
  have "find_active_parent j ?db = Some x \<longleftrightarrow> (if j = k then None else find_active_parent j db) = Some x" for x
  proof -
    have "find_active_parent j ?db = Some x \<longleftrightarrow>
        x \<in> set (db_relations db) \<and> rl_child_key x = j \<and> rl_state x = RelationActive \<and> x \<noteq> r"
      using rows [of x] by (auto simp: find_active_parent_Some [OF ok'])
    also have "\<dots> \<longleftrightarrow> find_active_parent j db = Some x \<and> x \<noteq> r"
      by (auto simp: find_active_parent_Some [OF ok])
    also have "\<dots> \<longleftrightarrow> (if j = k then None else find_active_parent j db) = Some x"
      using assms(2) r(2) find_active_parent_Some [OF ok, of j r] by auto
    finally show ?thesis .
  qed
  then show ?thesis by (metis option.exhaust)
qed

lemma retract_ok: "graph_ok db \<Longrightarrow> graph_ok (retract_active_relation env k now db)"
  by (simp add: retract_active_relation_def deactivate_ok split: option.split)

lemma retract_frame [simp]: "find_current j (retract_active_relation env k now db) = find_current j db"
  by (simp add: retract_active_relation_def split: option.split)

text \<open>The row as \<open>insert_relation\<close> stores it.\<close>

definition relation_stored :: "group_env \<Rightarrow> nat \<Rightarrow> relation_row \<Rightarrow> relation_row" where
  "relation_stored env n new = new\<lparr>rl_id := env_id env n, rl_created := fill_updated_at env (rl_created new),
     rl_updated := fill_updated_at env (rl_updated new)\<rparr>"

lemma relation_stored_simps [simp]:
  "rl_id (relation_stored env n new) = env_id env n" "rl_state (relation_stored env n new) = rl_state new"
  "rl_child_key (relation_stored env n new) = rl_child_key new"
  "rl_parent_key (relation_stored env n new) = rl_parent_key new"
  "rl_type (relation_stored env n new) = rl_type new"
  "rl_observation (relation_stored env n new) = rl_observation new"
  "rl_decision (relation_stored env n new) = rl_decision new"
  "rl_basis (relation_stored env n new) = rl_basis new"
  "rl_child_scope (relation_stored env n new) = rl_child_scope new"
  by (simp_all add: relation_stored_def)

lemma insert_relation_Inr:
  assumes "insert_relation env new db = Inr (i, db')"
  shows "relation_check (relation_stored env (db_drawn db) new)" "i = env_id env (db_drawn db)"
    "rl_state new = RelationActive \<Longrightarrow> find_active_parent (rl_child_key new) db = None"
    "db' = db\<lparr>db_drawn := db_drawn db + 1,
       db_relations := db_relations db @ [relation_stored env (db_drawn db) new]\<rparr>"
    "\<forall>r \<in> set (db_relations db). rl_id r \<noteq> i"
  using assms
  by (auto simp: insert_relation_def Let_def relation_stored_def list_ex_iff find_active_parent_def
      find_None_iff split: if_splits)

lemma insert_relation_other:
  assumes "insert_relation env new db = Inr (i, db')" "j \<noteq> rl_child_key new"
  shows "find_active_parent j db' = find_active_parent j db"
proof -
  let ?p = "\<lambda>r. rl_child_key r = j \<and> rl_state r = RelationActive"
  have "find ?p (db_relations db) = None" if "\<not> list_ex ?p (db_relations db)"
    using that by (simp add: find_None_iff list_ex_iff)
  then show ?thesis
    using insert_relation_Inr(4) [OF assms(1)] assms(2) by (simp add: find_active_parent_def find_append_if)
qed

lemma insert_relation_ok:
  assumes "graph_ok db" "insert_relation env new db = Inr (i, db')" "rl_state new = RelationActive"
    "\<not> ancestor_contains db (rl_parent_key new) (rl_child_key new)"
  shows "graph_ok db'" "active_edges db' = insert (rl_child_key new, rl_parent_key new) (active_edges db)"
    "find_active_parent (rl_child_key new) db' = Some (relation_stored env (db_drawn db) new)"
    "db_groups db' = db_groups db" "db_members db' = db_members db"
proof -
  note row = insert_relation_Inr [OF assms(2)]
  let ?rs = "db_relations db @ [relation_stored env (db_drawn db) new]"
  have placed: "placed_ok db" and tables: "tables_ok db" and acyc: "acyclic (active_edges db)"
    using assms(1) by (auto simp: graph_ok_def placed_ok_def)
  have free: "find_active_parent (rl_child_key new) db = None" using row(3) assms(3) by simp
  have "\<forall>r \<in> set (db_relations db). rl_state r = RelationActive \<longrightarrow> rl_child_key r \<noteq> rl_child_key new"
    using free by (auto simp: find_active_parent_def find_None_iff)
  then have "distinct (map rl_child_key (filter (\<lambda>r. rl_state r = RelationActive) ?rs))"
    using tables by (auto simp: tables_ok_def)
  moreover have "list_all relation_check ?rs" using tables row(1) by (simp add: tables_ok_def)
  moreover have "distinct (map rl_id ?rs)" using tables row(2,5) by (auto simp: tables_ok_def)
  ultimately have "placed_ok (db\<lparr>db_relations := ?rs\<rparr>)" by (intro placed_ok_relations [OF placed])
  then have placed': "placed_ok db'"
    by (rule placed_ok_same [THEN iffD2, rotated]) (simp add: row(4) same_graph_def)
  show edges: "active_edges db' = insert (rl_child_key new, rl_parent_key new) (active_edges db)"
    by (auto simp: row(4) active_edges_def assms(3))
  have "(rl_parent_key new, rl_child_key new) \<notin> (active_edges db)\<^sup>*"
    using assms(4) by (simp add: ancestor_contains_reach [OF tables])
  then show "graph_ok db'" using placed' acyc by (simp add: graph_ok_def edges)
  show "find_active_parent (rl_child_key new) db' = Some (relation_stored env (db_drawn db) new)"
    using free find_append [of "\<lambda>r. rl_child_key r = rl_child_key new \<and> rl_state r = RelationActive"
        "db_relations db" "relation_stored env (db_drawn db) new"] assms(3)
    by (simp add: row(4) find_active_parent_def)
  show "db_groups db' = db_groups db" "db_members db' = db_members db" by (simp_all add: row(4))
qed

lemma ensure_membership_ok:
  assumes "graph_ok db" "ensure_membership env t k s thread pk p owner now db = Inr db'"
  shows "graph_ok db'" "db_relations db' = db_relations db"
proof -
  have placed: "placed_ok db" using assms(1) by (simp add: graph_ok_def)
  have "placed_ok db' \<and> db_relations db' = db_relations db"
  proof (cases "operator_fixed k db")
    case True
    with assms(2) placed show ?thesis by (simp add: ensure_membership_def)
  next
    case False
    from ensure_membership_keeps [OF placed this assms(2)] show ?thesis by blast
  qed
  with assms(1) show "graph_ok db'" "db_relations db' = db_relations db"
    by (simp_all add: graph_ok_def active_edges_def)
qed

lemma ensure_singleton_ok:
  assumes "graph_ok db" "ensure_singleton env t k s owner now db = Inr (i, db')"
  shows "graph_ok db'" "db_relations db' = db_relations db" "current_group k db' = Some i"
proof -
  let ?gkey = "reconciler_group_canonical_key (env_nfc env) (env_sha env) k"
  let ?row = "automatic_member (Some t) k s i k MemberActive None now"
  have placed: "placed_ok db" using assms(1) by (simp add: graph_ok_def)
  note ok = placed_okD [OF placed]
  from assms(2) obtain db1 where
    made: "(case find_active_group ?gkey db of Some g \<Rightarrow> Inr (g_id g, db)
      | None \<Rightarrow> create_group env (reconciler_group env owner ?gkey now) db) = Inr (i, db1)"
    and insert: "insert_member env ?row db1 = Inr db'"
    by (auto simp: ensure_singleton_def Let_def elim!: and_then_InrE)
  have db1: "placed_ok db1 \<and> group_active i db1 \<and> db_relations db1 = db_relations db"
  proof (cases "find_active_group ?gkey db")
    case None
    with made have create: "create_group env (reconciler_group env owner ?gkey now) db = Inr (i, db1)" by simp
    show ?thesis using create_group_keeps [OF placed create] create_group_frame [OF create]
      by (simp add: reconciler_group_def)
  next
    case (Some g)
    then have "find_group (g_id g) db = Some g" "g_status g = GroupActive"
      by (simp_all add: find_active_group_Some [OF ok(1)] find_group_Some [OF ok(1)])
    with Some made placed show ?thesis by (auto simp: group_active_iff)
  qed
  note frame = insert_member_frame [OF insert]
  have groups: "db_groups db' = db_groups db1" using frame by simp
  have look: "find_current j db' = (if j = k then Some (member_stored env ?row) else find_current j db1)" for j
    using find_current_insert [OF insert] by simp
  have "placed_ok db'"
  proof (rule placed_okI)
    show "tables_ok db'" using insert_member_ok [OF _ insert] db1 placed_okD(1) by blast
    show "redirects_flat db'" using db1 groups_only(3) [OF groups] placed_okD(2) by blast
    fix j m assume "find_current j db' = Some m"
    then show "group_active (mb_group m) db'"
      using db1 placed_okD(3) groups_only(2) [OF groups] look by (auto split: if_splits)
  qed
  then show "graph_ok db'" "db_relations db' = db_relations db" "current_group k db' = Some i"
    using assms(1) frame db1 look by (simp_all add: graph_ok_def active_edges_def current_group_def)
qed

subsection \<open>Adopting a parent\<close>

lemma apply_selected_relation_cases:
  assumes "graph_ok db" "\<not> ancestor_contains db (parent_key winner) k"
    "apply_selected_relation env t k s p winner i op now owner db = Inr (r, db')"
  shows "graph_ok db'"
    "find_active_parent k db = None \<Longrightarrow>
       \<exists>row. find_active_parent k db' = Some row \<and> r = Some (rl_id row) \<and> rl_parent_key row = parent_key winner
         \<and> rl_type row = relation_type winner \<and> rl_observation row = Some i \<and> rl_decision row = None"
    "find_active_parent k db = Some old \<Longrightarrow> rl_parent_key old = parent_key winner \<and> rl_type old = relation_type winner \<Longrightarrow>
       r = Some (rl_id old) \<and> db_relations db' = db_relations db"
    "find_active_parent k db = Some old \<Longrightarrow> \<not> (rl_parent_key old = parent_key winner \<and> rl_type old = relation_type winner) \<Longrightarrow>
       r = None \<and> find_active_parent k db' = None"
    "j \<noteq> k \<Longrightarrow> find_active_parent j db' = find_active_parent j db"
proof -
  have effect: "graph_ok db' \<and> (j \<noteq> k \<longrightarrow> find_active_parent j db' = find_active_parent j db) \<and>
     (case find_active_parent k db of
        None \<Rightarrow> \<exists>row. find_active_parent k db' = Some row \<and> r = Some (rl_id row) \<and> rl_parent_key row = parent_key winner
          \<and> rl_type row = relation_type winner \<and> rl_observation row = Some i \<and> rl_decision row = None
      | Some old \<Rightarrow>
          if rl_parent_key old = parent_key winner \<and> rl_type old = relation_type winner
          then r = Some (rl_id old) \<and> db_relations db' = db_relations db
          else r = None \<and> find_active_parent k db' = None)" for j
  proof (cases "find_active_parent k db")
    case None
    let ?new = "source_relation (resolved_thread p db) t k s p winner i now"
    from assms(3) None obtain n db1 db2 where
      insert: "insert_relation env ?new db = Inr (n, db1)"
      and ensure: "ensure_membership env t k s (resolved_thread p db) (parent_key winner) p (Some owner) now db1 = Inr db2"
      and event: "append_relation_event env False k op now
        [(''parent_thread_canonical_key'', JString (parent_key winner)),
         (''relation_type'', JString (relation_type_str (relation_type winner))),
         (''selection_basis'', JString (basis_str (source_basis (cand_evidence winner))))] db2 = Inr db'"
      and r: "r = Some n"
      by (auto simp: apply_selected_relation_def Let_def elim!: and_then_InrE)
    have new: "rl_state ?new = RelationActive" "rl_child_key ?new = k" "rl_parent_key ?new = parent_key winner"
      by (simp_all add: source_relation_def)
    note ins = insert_relation_ok [OF assms(1) insert new(1), unfolded new(2,3), OF assms(2)]
    note ens = ensure_membership_ok [OF ins(1) ensure]
    have last: "same_graph db2 db'" by (rule append_relation_event_same [OF event])
    have rels: "db_relations db' = db_relations db1" using last ens(2) by (simp add: same_graph_def)
    then have look: "find_active_parent j db' = find_active_parent j db1" for j by (simp add: find_active_parent_def)
    have other: "find_active_parent j db1 = find_active_parent j db" if "j \<noteq> k" for j
      using that insert_relation_other [OF insert] new(2) by simp
    show ?thesis
      using graph_ok_same [OF last ens(1)] None ins(3) other insert_relation_Inr(2) [OF insert] r
      by (auto simp: look) (simp_all add: source_relation_def)
  next
    case (Some old)
    show ?thesis
    proof (cases "rl_parent_key old = parent_key winner \<and> rl_type old = relation_type winner")
      case True
      with assms(3) Some have ensure: "ensure_membership env t k s (resolved_thread p db) (parent_key winner) p
          (Some owner) now db = Inr db'" and r: "r = Some (rl_id old)"
        by (auto simp: apply_selected_relation_def Let_def elim!: and_then_InrE)
      note ens = ensure_membership_ok [OF assms(1) ensure]
      show ?thesis using ens True Some r by (simp add: find_active_parent_def)
    next
      case False
      let ?db1 = "snd (set_relation_state env (rl_id old) RelationActive RelationRetracted now db)"
      from assms(3) Some False obtain db2 db3 where
        steps: "record_derived_conflict env s ''conflicting_parent'' now ?db1 = Inr db2"
          "record_candidate env t s (resolved_thread p db) StateConflict i now db2 = Inr db3"
          "append_relation_event env True k op now
            [(''reason'', JString ''conflicting_parent''), (''retracted_relation_id'', JInt (rl_id old))] db3 = Inr db'"
        and r: "r = None"
        by (auto simp: apply_selected_relation_def Let_def simp del: de_Morgan_conj elim!: and_then_InrE)
      have same: "same_graph ?db1 db'"
        by (rule same_graph_trans [OF record_derived_conflict_same [OF steps(1)] same_graph_trans
              [OF record_candidate_same [OF steps(2)] append_relation_event_same [OF steps(3)]]])
      have "graph_ok ?db1" by (rule deactivate_ok [OF assms(1)]) simp
      then show ?thesis
        using graph_ok_same [OF same] deactivate_parent [OF assms(1) Some, of RelationRetracted] False Some r
        by (simp add: find_active_parent_same [OF same])
    qed
  qed
  then show "graph_ok db'"
    "find_active_parent k db = None \<Longrightarrow>
       \<exists>row. find_active_parent k db' = Some row \<and> r = Some (rl_id row) \<and> rl_parent_key row = parent_key winner
         \<and> rl_type row = relation_type winner \<and> rl_observation row = Some i \<and> rl_decision row = None"
    "find_active_parent k db = Some old \<Longrightarrow> rl_parent_key old = parent_key winner \<and> rl_type old = relation_type winner \<Longrightarrow>
       r = Some (rl_id old) \<and> db_relations db' = db_relations db"
    "find_active_parent k db = Some old \<Longrightarrow> \<not> (rl_parent_key old = parent_key winner \<and> rl_type old = relation_type winner) \<Longrightarrow>
       r = None \<and> find_active_parent k db' = None"
    "j \<noteq> k \<Longrightarrow> find_active_parent j db' = find_active_parent j db"
    by simp_all
qed

subsection \<open>Every transaction of the reconciler\<close>

lemma settle_selection_ok:
  assumes "graph_ok db" "settle_selection env t k s cands op now owner db = Inr ((sel, grp, conflict), db')"
  shows "graph_ok db'"
proof (cases "select_parent_candidate (map fst cands)")
  case NoSelection
  with assms show ?thesis by (simp add: settle_selection_def)
next
  case (Conflict winners)
  with assms(2) obtain db1 where
    steps: "record_conflicts env t s now cands winners (retract_active_relation env k now db) = Inr db1"
      "append_relation_event env True k op now [(''reason'', JString ''equal_ranked_parents'')] db1 = Inr db'"
    by (auto simp: settle_selection_def elim!: and_then_InrE)
  from graph_ok_same [OF same_graph_trans [OF record_conflicts_same [OF steps(1)]
        append_relation_event_same [OF steps(2)]] retract_ok [OF assms(1)]]
  show ?thesis .
next
  case (Selected winner)
  note selected = Selected
  show ?thesis
  proof (cases "parent_key winner = k \<or> ancestor_contains db (parent_key winner) k")
    case True
    with assms(2) selected have
      "record_candidate env t s None StateConflict (winner_observation_id cands winner) now db = Inr db'"
      by (auto simp: settle_selection_def elim!: and_then_InrE)
    from graph_ok_same [OF record_candidate_same [OF this] assms(1)] show ?thesis .
  next
    case False
    with assms(2) selected obtain c p i r db1 where "candidate_of winner cands = Some (c, p, i)" and
      adopt: "apply_selected_relation env t k s p winner i op now owner db = Inr (r, db1)" and
      pending: "(if r = None then Inr db1 else resolve_pending_for_selected_observation env s k i now db1) = Inr db'"
      by (auto simp: settle_selection_def elim!: and_then_InrE split: option.splits)
    have "graph_ok db1" using apply_selected_relation_cases(1) [OF assms(1) _ adopt] False by blast
    moreover have "same_graph db1 db'" using pending by (auto dest: resolve_pending_same split: if_splits)
    ultimately show ?thesis using graph_ok_same by blast
  qed
qed

text \<open>The steps of a successful transaction.\<close>

lemma reconcile_tx_steps:
  assumes "reconcile_tx env owner_of t s inputs op now owner guard db = Inr ((out, late), db')"
  obtains (unidentified) db1 where "subject_canonical_key env t s now db = Inr (None, db1)"
      "record_observations env t op now inputs db1 = Inr (ro_observations out, db')"
      "ro_selected out = None" "ro_group out = None" "\<not> ro_conflict out" "ro_pending out = 0" "late = []"
    | (identified) key db1 db2 cands db3 grp db4 where
      "subject_canonical_key env t s now db = Inr (Some key, db1)"
      "record_observations env t op now inputs db1 = Inr (ro_observations out, db2)"
      "gather_candidates env t s now (zip inputs (ro_observations out)) db2 = Inr ((cands, ro_pending out), db3)"
      "settle_selection env t key s cands op now owner db3 = Inr ((ro_selected out, grp, ro_conflict out), db4)"
      "(if grp = None \<and> find_current key db4 = None
        then and_then (ensure_singleton env t key s owner now db4) (\<lambda>(i, db5). Inr (Some i, db5))
        else Inr (grp, db4)) = Inr (ro_group out, db')"
      "late = late_pending key s db'"
proof -
  from assms obtain key db1 ids db2 where
    start: "subject_canonical_key env t s now db = Inr (key, db1)"
      "record_observations env t op now inputs db1 = Inr (ids, db2)"
    and rest: "(case key of
        None \<Rightarrow> Inr ((\<lparr>ro_observations = ids, ro_selected = None, ro_group = None, ro_conflict = False,
          ro_pending = 0\<rparr>, []), db2)
      | Some key \<Rightarrow>
          and_then (gather_candidates env t s now (zip inputs ids) db2) (\<lambda>((cands, pending), db3).
          and_then (settle_selection env t key s cands op now owner db3) (\<lambda>((selected, grp, conflict), db4).
          and_then (if grp = None \<and> find_current key db4 = None
                    then and_then (ensure_singleton env t key s owner now db4) (\<lambda>(i, db5). Inr (Some i, db5))
                    else Inr (grp, db4)) (\<lambda>(grp', db5).
          Inr ((\<lparr>ro_observations = ids, ro_selected = selected, ro_group = grp', ro_conflict = conflict,
            ro_pending = pending\<rparr>, late_pending key s db5), db5))))) = Inr ((out, late), db')"
    unfolding reconcile_tx_def by (auto elim!: and_then_InrE split: option.splits if_splits)
  show ?thesis
  proof (cases key)
    case None
    with start rest show ?thesis by (intro unidentified) auto
  next
    case (Some k)
    with rest obtain cands pending db3 selected grp conflict db4 grp' where
      steps: "gather_candidates env t s now (zip inputs ids) db2 = Inr ((cands, pending), db3)"
        "settle_selection env t k s cands op now owner db3 = Inr ((selected, grp, conflict), db4)"
        "(if grp = None \<and> find_current k db4 = None
          then and_then (ensure_singleton env t k s owner now db4) (\<lambda>(i, db5). Inr (Some i, db5))
          else Inr (grp, db4)) = Inr (grp', db')"
      and out: "out = \<lparr>ro_observations = ids, ro_selected = selected, ro_group = grp', ro_conflict = conflict,
            ro_pending = pending\<rparr>" "late = late_pending k s db'"
      by (auto elim!: and_then_InrE)
    from start Some steps out show ?thesis by (intro identified) auto
  qed
qed

lemma reconcile_tx_ok:
  assumes "graph_ok db" "reconcile_tx env owner_of t s inputs op now owner guard db = Inr ((out, late), db')"
  shows "graph_ok db'"
  using assms(2)
proof (cases rule: reconcile_tx_steps)
  case (unidentified db1)
  show ?thesis using graph_ok_same [OF same_graph_trans [OF subject_canonical_key_same [OF unidentified(1)]
        record_observations_same [OF unidentified(2)]] assms(1)] .
next
  case (identified key db1 db2 cands db3 grp db4)
  have "graph_ok db2" using graph_ok_same [OF same_graph_trans [OF subject_canonical_key_same [OF identified(1)]
        record_observations_same [OF identified(2)]] assms(1)] .
  then have "graph_ok db4"
    using settle_selection_ok [OF graph_ok_same [OF gather_candidates_same [OF identified(3)]] identified(4)] by blast
  then show ?thesis using identified(5)
    by (auto elim!: and_then_InrE dest: ensure_singleton_ok(1) split: if_splits)
qed

lemma settle_pending_ok:
  assumes "graph_ok db" "settle_pending env t k s associations cands op now db = Inr db'"
  shows "graph_ok db'"
proof (cases "select_parent_candidate (map fst cands)")
  case NoSelection
  with assms show ?thesis by (simp add: settle_pending_def)
next
  case (Conflict winners)
  with assms(2) obtain db1 db2 where
    steps: "record_conflicts env t s now cands winners (retract_active_relation env k now db) = Inr db1"
      "record_each env t s StateCandidate now (losers winners associations cands) db1 = Inr db2"
      "append_relation_event env True k op now [(''reason'', JString ''equal_ranked_parents'')] db2 = Inr db'"
    by (auto simp: settle_pending_def elim!: and_then_InrE)
  from graph_ok_same [OF same_graph_trans [OF record_conflicts_same [OF steps(1)]
        same_graph_trans [OF record_each_same [OF steps(2)] append_relation_event_same [OF steps(3)]]]
      retract_ok [OF assms(1)]]
  show ?thesis .
next
  case (Selected winner)
  note selected = Selected
  show ?thesis
  proof (cases "candidate_of winner cands")
    case None
    with assms selected show ?thesis by (simp add: settle_pending_def)
  next
    case (Some x)
    obtain c p i where x: "x = (c, p, i)" by (cases x)
    show ?thesis
    proof (cases "parent_key winner = k \<or> ancestor_contains db (parent_key winner) k")
      case True
      with assms(2) selected Some x obtain db1 rows where
        steps: "record_candidate env t s (resolved_thread p db) StateConflict i now db = Inr db1"
          "record_each env t s StateCandidate now rows db1 = Inr db'"
        by (auto simp: settle_pending_def Let_def elim!: and_then_InrE)
      from graph_ok_same [OF same_graph_trans [OF record_candidate_same [OF steps(1)]
            record_each_same [OF steps(2)]] assms(1)] show ?thesis .
    next
      case False
      with assms(2) selected Some x obtain r db1 where
        adopt: "apply_selected_relation env t k s p winner i op now (si_user_id s) db = Inr (r, db1)" and
        rest: "(if r = None then record_each env t s StateConflict now cands db1
            else and_then (record_each env t s StateCandidate now
                   (filter (\<lambda>(c, p, j). j \<noteq> i \<and> association_in associations j [StatePending]) cands) db1)
                 (record_candidate env t s (resolved_thread p db) StateCandidate i now)) = Inr db'"
        by (auto simp: settle_pending_def Let_def elim!: and_then_InrE)
      have "graph_ok db1" using apply_selected_relation_cases(1) [OF assms(1) _ adopt] False by blast
      moreover have "same_graph db1 db'"
        using rest by (auto elim!: and_then_InrE dest!: record_each_same record_candidate_same
            intro: same_graph_trans split: if_splits)
      ultimately show ?thesis using graph_ok_same by blast
    qed
  qed
qed

lemma reconcile_pending_ok:
  assumes "graph_ok db" "reconcile_pending_observation env i op now db = Inr db'"
  shows "graph_ok db'"
proof -
  from assms(2) have "db' = db \<or> (\<exists>t k s as cands. settle_pending env t k s as cands op now db = Inr db')"
    unfolding reconcile_pending_observation_def
    by (auto simp: Let_def elim!: and_then_InrE split: option.splits if_splits)
  then show ?thesis using assms(1) settle_pending_ok by blast
qed

lemma reconcile_late_ok:
  "graph_ok db \<Longrightarrow> graph_ok (snd (reconcile_late env late op now db))"
proof (induction late arbitrary: db)
  case (Cons i rest)
  show ?case
  proof (cases "reconcile_pending_observation env i op now db")
    case (Inr db1)
    from reconcile_pending_ok [OF Cons.prems Inr] Cons.IH Inr show ?thesis by simp
  qed (simp add: Cons.prems)
qed simp

lemma reconcile_inner_ok:
  assumes "graph_ok db"
  shows "graph_ok (snd (reconcile_subject_inner env enabled owner_of t s inputs op now owner guard db))"
proof (cases "enabled \<and> \<not> isl (reconcile_tx env owner_of t s inputs op now owner guard db)")
  case True
  then obtain result late db1 where run: "reconcile_tx env owner_of t s inputs op now owner guard db = Inr ((result, late), db1)"
    by (auto simp: not_isl)
  have "graph_ok (snd (reconcile_late env late op now db1))"
    by (rule reconcile_late_ok [OF reconcile_tx_ok [OF assms run]])
  with True run show ?thesis
    by (simp add: reconcile_subject_inner_def case_prod_beta split: option.split)
next
  case False
  then show ?thesis using assms
    by (cases "reconcile_tx env owner_of t s inputs op now owner guard db") (auto simp: reconcile_subject_inner_def)
qed

end
