(* ===== verification/Group_Frame.thy ===== *)
theory Group_Frame
  imports Group_Reconcile
begin

text \<open>
  The operations on groups, members and relations leave the evidence tables alone: two states
  agree on them when their record extensions agree.
\<close>

definition same_evidence :: "'a evidence_db_scheme \<Rightarrow> 'a evidence_db_scheme \<Rightarrow> bool" where
  "same_evidence db db' \<longleftrightarrow> group_db.more db' = group_db.more db"

named_theorems placement_only \<open>operations that leave the evidence alone\<close>

lemma same_evidence_refl [simp]: "same_evidence db db"
  by (simp add: same_evidence_def)

lemma same_evidence_trans [trans]: "same_evidence a b \<Longrightarrow> same_evidence b c \<Longrightarrow> same_evidence a c"
  by (simp add: same_evidence_def)

lemma same_evidenceD:
  assumes "same_evidence db db'"
  shows "db_observations db' = db_observations db" "db_associations db' = db_associations db"
    "db_identities db' = db_identities db" "db_keys db' = db_keys db" "db_markers db' = db_markers db"
    "db_decisions db' = db_decisions db" "db_outbox db' = db_outbox db" "evidence_db.more db' = evidence_db.more db"
  using assms by (cases db; cases db'; simp add: same_evidence_def)+

subsection \<open>Statements\<close>

lemma groups_evidence [simp]: "same_evidence db (db\<lparr>db_groups := gs\<rparr>)"
  by (cases db) (simp add: same_evidence_def)

lemma members_evidence [simp]: "same_evidence db (db\<lparr>db_members := ms\<rparr>)"
  by (cases db) (simp add: same_evidence_def)

lemma relations_evidence [simp]: "same_evidence db (db\<lparr>db_relations := rs\<rparr>)"
  by (cases db) (simp add: same_evidence_def)

lemma drawn_groups_evidence [simp]: "same_evidence db (db\<lparr>db_drawn := n, db_groups := gs\<rparr>)"
  by (cases db) (simp add: same_evidence_def)

lemma drawn_relations_evidence [simp]: "same_evidence db (db\<lparr>db_drawn := n, db_relations := rs\<rparr>)"
  by (cases db) (simp add: same_evidence_def)

lemma update_groups_evidence [placement_only]: "update_groups p f db = Inr (b, db') \<Longrightarrow> same_evidence db db'"
  by (auto simp: update_groups_Inr)

lemma create_group_evidence [placement_only]: "create_group env new db = Inr (i, db') \<Longrightarrow> same_evidence db db'"
  by (auto simp: create_group_Inr)

lemma insert_member_evidence [placement_only]: "insert_member env new db = Inr db' \<Longrightarrow> same_evidence db db'"
  by (auto simp: insert_member_Inr)

lemma redirect_current_evidence [simp]: "same_evidence db (snd (redirect_current env key i now db))"
  by (simp add: redirect_current_def Let_def)

lemma set_role_provenance_evidence [simp]: "same_evidence db (snd (set_role_provenance env key r p now db))"
  by (simp add: set_role_provenance_def Let_def)

lemma set_relation_state_evidence [simp]: "same_evidence db (snd (set_relation_state env i e n now db))"
  by (simp add: set_relation_state_def Let_def)

lemma insert_relation_evidence [placement_only]: "insert_relation env new db = Inr (i, db') \<Longrightarrow> same_evidence db db'"
  by (auto simp: insert_relation_def Let_def split: if_splits)

subsection \<open>Placement\<close>

lemma store_member_evidence [placement_only]:
  "store_member env thread key endpoint target anchor_key state d now db = Inr db' \<Longrightarrow> same_evidence db db'"
  by (auto simp: store_member_def split: if_splits option.splits dest: placement_only)

lemma repoint_all_evidence [placement_only]:
  "repoint_all env is old target now db = Inr db' \<Longrightarrow> same_evidence db db'"
proof (induction "is" arbitrary: db)
  case (Cons i rest)
  from Cons.prems obtain db1 where "repoint_redirect_from env i old target now db = Inr (True, db1)"
    "repoint_all env rest old target now db1 = Inr db'"
    by (auto elim!: and_then_InrE split: if_splits)
  with Cons.IH show ?case
    unfolding repoint_redirect_from_def by (blast intro: same_evidence_trans dest: update_groups_evidence)
qed simp

lemma vacate_group_evidence [placement_only]:
  assumes "vacate_group env old target now db = Inr db'" shows "same_evidence db db'"
proof -
  from assms have "db' = db \<or> (\<exists>is db1. redirect_group env old target now db = Inr (True, db1)
      \<and> repoint_all env is old target now db1 = Inr db')"
    by (auto simp: vacate_group_def Let_def elim!: and_then_InrE split: if_splits option.splits)
  then show ?thesis
    unfolding redirect_group_def by (blast intro: same_evidence_trans same_evidence_refl dest: placement_only)
qed

lemma place_member_evidence [placement_only]:
  assumes "place_member env thread key endpoint target anchor_key now db = Inr db'"
  shows "same_evidence db db'"
proof (cases "find_current key db")
  case None
  with assms show ?thesis by (auto simp: place_member_def dest: placement_only)
next
  case (Some m)
  let ?db1 = "snd (redirect_current env key (mb_group m) now db)"
  from assms Some have "db' = db \<or> (\<exists>db2 s d. vacate_group env (mb_group m) target now ?db1 = Inr db2
      \<and> store_member env thread key endpoint target anchor_key s d now db2 = Inr db')"
    by (auto simp: place_member_def case_prod_beta Let_def elim!: and_then_InrE split: if_splits)
  moreover have "same_evidence db ?db1" by simp
  ultimately show ?thesis
    by (meson same_evidence_refl same_evidence_trans store_member_evidence vacate_group_evidence)
qed

lemma move_children_evidence [placement_only]:
  "move_children env target now rs enqueued queue db = Inr (enqueued', queue', db') \<Longrightarrow> same_evidence db db'"
proof (induction rs arbitrary: enqueued queue db)
  case (Cons r rs)
  then show ?case
    by (auto simp: Let_def elim!: and_then_InrE split: if_splits
        dest!: place_member_evidence intro: same_evidence_trans)
qed simp

lemma reassign_evidence [placement_only]:
  "reassign env target now enqueued queue db = Inr db' \<Longrightarrow> same_evidence db db'"
proof (induction env target now enqueued queue db rule: reassign.induct)
  case (2 env target now enqueued key queue db)
  from "2.prems" obtain enqueued1 queue1 db1 where
    step: "move_children env target now (list_active_children key db) enqueued queue db = Inr (enqueued1, queue1, db1)"
    and rest: "reassign env target now enqueued1 queue1 db1 = Inr db'"
    by (auto simp: reassign.simps elim!: and_then_InrE)
  from move_children_evidence [OF step] "2.IH" [of "(enqueued1, queue1, db1)", OF _ refl refl rest] step
  show ?case by (auto intro: same_evidence_trans)
qed (simp add: reassign.simps)

lemma resolve_anchor_evidence [placement_only]:
  assumes "resolve_anchor_group env thread pkey parent owner now db = Inr (x, db')" shows "same_evidence db db'"
proof (cases "walk_anchor db {} pkey thread parent")
  case (Anchored i key)
  with assms show ?thesis by (simp add: resolve_anchor_group_def)
next
  case (Topmost key t endpoint)
  let ?gkey = "reconciler_group_canonical_key (env_nfc env) (env_sha env) key"
  obtain i db1 where made: "same_evidence db db1" and
    placed: "(if find_current key db1 = None then place_member env t key endpoint i key now db1 else Inr db1) = Inr db'"
  proof (cases "find_active_group ?gkey db")
    case None
    with assms Topmost obtain new i db1 where "create_group env new db = Inr (i, db1)"
      "(if find_current key db1 = None then place_member env t key endpoint i key now db1 else Inr db1) = Inr db'"
      by (auto simp: resolve_anchor_group_def Let_def elim!: and_then_InrE split: option.splits)
    then show thesis using that create_group_evidence by blast
  next
    case (Some g)
    with assms Topmost have
      "(if find_current key db = None then place_member env t key endpoint (g_id g) key now db else Inr db) = Inr db'"
      by (auto simp: resolve_anchor_group_def Let_def elim!: and_then_InrE)
    then show thesis using that same_evidence_refl by blast
  qed
  from placed have "same_evidence db1 db'" by (auto dest: place_member_evidence split: if_splits)
  with made show ?thesis by (rule same_evidence_trans)
qed

lemma ensure_membership_evidence [placement_only]:
  assumes "ensure_membership env t k s thread pkey parent owner now db = Inr db'"
  shows "same_evidence db db'"
proof (cases "operator_fixed k db")
  case True
  with assms show ?thesis by (simp add: ensure_membership_def)
next
  case False
  with assms obtain target a db1 db2 where
    "resolve_anchor_group env thread pkey parent owner now db = Inr ((target, a), db1)"
    "place_member env (Some t) k s target a now db1 = Inr db2"
    "reassign env target now {k} [k] db2 = Inr db'"
    by (auto simp: ensure_membership_def reassign_automatic_descendants_def elim!: and_then_InrE)
  then show ?thesis by (meson resolve_anchor_evidence place_member_evidence reassign_evidence same_evidence_trans)
qed

lemma ensure_singleton_evidence [placement_only]:
  "ensure_singleton env t k s owner now db = Inr (i, db') \<Longrightarrow> same_evidence db db'"
  by (auto simp: ensure_singleton_def Let_def elim!: and_then_InrE split: option.splits
      dest!: placement_only intro: same_evidence_trans)

end
