(* ===== verification/Group_Adoption.thy ===== *)
theory Group_Adoption
  imports Group_Graph
begin

text \<open>
  What the reconciler does to the graph: every run keeps the invariant, only strong source
  evidence changes relations, and the exact effect of adopting a selected parent, with its
  consequences for replays and for operator decisions.
\<close>

subsection \<open>Every run keeps the graph invariant\<close>

text \<open>The parent \<open>p\<close> and the thread \<open>c\<close> have identities and keys; \<open>c\<close> has the parent \<open>q\<close>.\<close>

definition known_identity :: "string \<Rightarrow> int \<Rightarrow> identity_row" where
  "known_identity native t = \<lparr>id_key = identity_key_of (sample_endpoint native), id_thread = t,
     id_resolution = ''resolved'', id_first_seen = 10, id_last_seen = 10\<rparr>"

definition known_key :: "string \<Rightarrow> int \<Rightarrow> key_row" where
  "known_key key t = \<lparr>ky_thread = t, ky_user = 7, ky_key = key, ky_origin = ''source_identity'', ky_assigned = 10\<rparr>"

definition graph_db :: evidence_db where
  "graph_db = empty_db\<lparr>
     db_groups := [sample_group 1 ''gq'' ByReconciler, sample_group 2 ''gp'' ByReconciler],
     db_members := [sample_member ''q'' 12 1 ByReconciler, sample_member ''c'' 13 1 ByReconciler,
       sample_member ''p'' 11 2 ByReconciler],
     db_relations := [sample_relation 21 ''c'' 13 ''q'' 12],
     db_identities := [known_identity ''p'' 11, known_identity ''q'' 12, known_identity ''c'' 13],
     db_keys := [known_key ''p'' 11, known_key ''q'' 12, known_key ''c'' 13]\<rparr>"

lemma graph_db_edges: "active_edges graph_db = {(''c'', ''q'')}"
  by (auto simp: active_edges_def graph_db_def sample_relation_def empty_db_def)

lemma graph_db_ok: "graph_ok graph_db"
proof -
  have "placed_ok graph_db" by code_simp
  moreover have "acyclic (active_edges graph_db)"
    unfolding graph_db_edges by simp (simp add: acyclic_def)
  ultimately show ?thesis by (simp add: graph_ok_def)
qed

text \<open>
  Whatever evidence a subject brings, with whatever import guard, and whether the run
  succeeds, is refused or stops in the middle of its later transactions, the tables satisfy
  their constraints afterwards, current members are in active groups, redirects are flat and
  the active relations have no cycle.
\<close>

theorem reconcile_keeps_graph:
  assumes "graph_ok db"
  shows "graph_ok (snd (reconcile_subject_inner env enabled owner_of t subject inputs operation_id now owner guard db))"
  by (rule reconcile_inner_ok [OF assms])

definition graph_run :: "store_error + outcome \<times> evidence_db" where
  "graph_run = (case reconcile_subject plain_env True 13 (sample_endpoint ''c'')
       [sample_input ''c'' (Some ''p'') ''exact''] ''run 1'' 60 graph_db of
     (Inl e, _) \<Rightarrow> Inl e | (Inr out, db) \<Rightarrow> Inr (out, db))"

theorem reconcile_keeps_graph_witness:
  "graph_ok (snd (reconcile_subject_inner plain_env True (\<lambda>_. None) 13 (sample_endpoint ''c'')
     [sample_input ''c'' (Some ''p'') ''exact''] ''run 1'' 60 7 False graph_db))"
  by (rule reconcile_keeps_graph [OF graph_db_ok])

subsection \<open>Weak evidence\<close>

definition promotable :: "observation_input \<Rightarrow> bool" where
  "promotable input \<longleftrightarrow> oi_parent input \<noteq> None
     \<and> promotable_source_candidate (oi_confidence input) (oi_relation_kind input) (oi_polarity input) \<noteq> None"

lemma promotable_iff:
  "promotable input \<longleftrightarrow> oi_parent input \<noteq> None \<and> oi_confidence input \<in> {Some ''exact'', Some ''strong''}
     \<and> oi_relation_kind input \<in> {Some ''delegated'', Some ''fork'', Some ''continuation''}
     \<and> oi_polarity input = ''supports''"
  by (auto simp: promotable_def promotable_source_candidate_def supported_confidence_def relation_type_of_def)

lemma gather_nothing:
  "\<forall>x \<in> set rows. \<not> promotable (fst x) \<Longrightarrow> gather_candidates env t s now rows db = Inr (([], 0), db)"
  by (induction env t s now rows db rule: gather_candidates.induct)
    (auto simp: promotable_def split: option.splits)

lemma settle_nothing:
  "settle_selection env t k s [] op now owner db = Inr ((None, None, False), db)"
  by (simp add: settle_selection_def select_parent_candidate_def)

lemma record_observations_length:
  "record_observations env t op now inputs db = Inr (ids, db') \<Longrightarrow> length ids = length inputs"
  by (induction inputs arbitrary: ids db) (auto elim!: and_then_InrE)

text \<open>
  Evidence that is not exact or strong, supporting, of a known kind and about a parent
  changes no relation: it is recorded, and nothing is selected, contested or left pending.
\<close>

theorem weak_evidence_changes_no_relation:
  assumes "graph_ok db" "\<forall>input \<in> set inputs. \<not> promotable input"
    "reconcile_tx env owner_of t s inputs op now owner guard db = Inr ((out, late), db')"
  shows "db_relations db' = db_relations db \<and> ro_selected out = None \<and> \<not> ro_conflict out
    \<and> ro_pending out = 0 \<and> length (ro_observations out) = length inputs"
  using assms(3)
proof (cases rule: reconcile_tx_steps)
  case (unidentified db1)
  then show ?thesis using same_graph_trans [OF subject_canonical_key_same [OF unidentified(1)]
      record_observations_same [OF unidentified(2)]] record_observations_length [OF unidentified(2)]
    by (simp add: same_graph_def)
next
  case (identified key db1 db2 cands db3 grp db4)
  note same = same_graph_trans [OF subject_canonical_key_same [OF identified(1)]
      record_observations_same [OF identified(2)]]
  have "\<forall>x \<in> set (zip inputs (ro_observations out)). \<not> promotable (fst x)"
    using assms(2) by (auto dest: set_zip_leftD)
  from gather_nothing [OF this, of env t s now db2] identified(3)
  have none: "cands = []" "ro_pending out = 0" "db3 = db2" by auto
  with identified(4) have settled: "ro_selected out = None" "grp = None" "\<not> ro_conflict out" "db4 = db2"
    by (auto simp: settle_nothing)
  have "db_relations db' = db_relations db2"
    using identified(5) settled(4) ensure_singleton_ok(2) [OF graph_ok_same [OF same assms(1)]]
    by (auto elim!: and_then_InrE split: if_splits)
  then show ?thesis
    using same none settled record_observations_length [OF identified(2)] by (simp add: same_graph_def)
qed

definition no_parent_input :: observation_input where
  "no_parent_input = (sample_input ''c'' (Some ''p'') ''heuristic'')"

definition weak_run :: "store_error + (outcome \<times> int list) \<times> evidence_db" where
  "weak_run = reconcile_tx plain_env (\<lambda>_. None) 13 (sample_endpoint ''c'') [no_parent_input] ''run 1'' 60 7 False graph_db"

theorem weak_evidence_changes_no_relation_witness:
  "\<exists>out late db'. weak_run = Inr ((out, late), db') \<and> db_relations db' = db_relations graph_db"
proof -
  have "\<not> isl weak_run" by code_simp
  then obtain out late db' where run: "weak_run = Inr ((out, late), db')" by (auto simp: not_isl)
  have "\<forall>input \<in> set [no_parent_input]. \<not> promotable input"
    by (simp add: promotable_iff no_parent_input_def sample_input_def)
  from weak_evidence_changes_no_relation [OF graph_db_ok this run [unfolded weak_run_def]] run
  show ?thesis by blast
qed

subsection \<open>Adopting a selected parent\<close>

definition sample_winner :: candidate where
  "sample_winner = \<lparr>parent_key = ''p'', relation_type = Fork, cand_evidence = SourceEvidence Strong\<rparr>"

definition adopt :: "evidence_db \<Rightarrow> store_error + int option \<times> evidence_db" where
  "adopt = apply_selected_relation plain_env 13 ''c'' (sample_endpoint ''c'') (sample_endpoint ''p'')
     sample_winner 5 ''run 1'' 60 7"

lemma sample_no_cycle: "\<not> ancestor_contains graph_db (parent_key sample_winner) ''c''"
  by code_simp

text \<open>
  C18. Adopting a parent that closes no cycle: a thread without a parent gets the candidate,
  based on its observation; a thread whose active relation has the same parent and type keeps
  it, and no relation is written; a thread with another one loses it and has no parent
  afterwards. The parents of all other threads stay, and the graph invariant holds.
\<close>

theorem apply_selected_relation_exact:
  assumes "graph_ok db" "\<not> ancestor_contains db (parent_key winner) k"
    "apply_selected_relation env t k s p winner i op now owner db = Inr (r, db')"
  shows "graph_ok db' \<and> (case find_active_parent k db of
      None \<Rightarrow> \<exists>row. find_active_parent k db' = Some row \<and> r = Some (rl_id row) \<and> rl_parent_key row = parent_key winner
          \<and> rl_type row = relation_type winner \<and> rl_observation row = Some i \<and> rl_decision row = None
    | Some old \<Rightarrow>
        if rl_parent_key old = parent_key winner \<and> rl_type old = relation_type winner
        then r = Some (rl_id old) \<and> db_relations db' = db_relations db
        else r = None \<and> find_active_parent k db' = None)
    \<and> find_active_parent j db' = (if j = k then find_active_parent k db' else find_active_parent j db)"
  using apply_selected_relation_cases [OF assms] by (auto split: option.split)

theorem apply_selected_relation_exact_witness:
  "\<exists>db'. adopt graph_db = Inr (None, db') \<and> find_active_parent ''c'' db' = None"
proof -
  have "\<not> isl (adopt graph_db)" by code_simp
  then obtain r db' where run: "adopt graph_db = Inr (r, db')" by (auto simp: not_isl)
  have "find_active_parent ''c'' graph_db = Some (sample_relation 21 ''c'' 13 ''q'' 12)" by code_simp
  then have "r = None \<and> find_active_parent ''c'' db' = None"
    using apply_selected_relation_exact [OF graph_db_ok sample_no_cycle run [unfolded adopt_def], of "''c''"]
    by (simp add: sample_winner_def sample_relation_def)
  with run show ?thesis by blast
qed

lemma edges_iff_parent:
  "tables_ok db \<Longrightarrow> (c, q) \<in> active_edges db \<longleftrightarrow> (\<exists>r. find_active_parent c db = Some r \<and> rl_parent_key r = q)"
  by (auto simp: active_edges_def find_active_parent_Some)

lemma fewer_parents:
  assumes "graph_ok db" "graph_ok db'" "\<And>j. j \<noteq> k \<Longrightarrow> find_active_parent j db' = find_active_parent j db"
    "find_active_parent k db' = None"
  shows "active_edges db' \<subseteq> active_edges db"
proof -
  have tables: "tables_ok db" "tables_ok db'" using assms(1,2) by (simp_all add: graph_ok_def placed_ok_def)
  have "(c, q) \<in> active_edges db" if "(c, q) \<in> active_edges db'" for c q
    using that assms(3) [of c] assms(4) by (cases "c = k") (auto simp: edges_iff_parent tables)
  then show ?thesis by auto
qed

lemma contested_then_adopted:
  assumes "graph_ok db" "\<not> ancestor_contains db (parent_key winner) k" "find_active_parent k db = Some old"
    "\<not> (rl_parent_key old = parent_key winner \<and> rl_type old = relation_type winner)"
    "apply_selected_relation env t k s p winner i op now owner db = Inr (r, db1)"
    "apply_selected_relation env t k s p winner i op' now' owner db1 = Inr (r', db2)"
  shows "r = None \<and> find_active_parent k db1 = None \<and> (\<exists>row. find_active_parent k db2 = Some row
    \<and> r' = Some (rl_id row) \<and> rl_parent_key row = parent_key winner)"
proof -
  note first = apply_selected_relation_cases [OF assms(1,2,5)]
  note gone = first(4) [OF assms(3,4)]
  have sub: "active_edges db1 \<subseteq> active_edges db"
    by (rule fewer_parents [OF assms(1) first(1) first(5) gone [THEN conjunct2]])
  have tables: "tables_ok db" "tables_ok db1"
    using assms(1) first(1) by (simp_all add: graph_ok_def placed_ok_def)
  have "\<not> ancestor_contains db1 (parent_key winner) k"
    using assms(2) rtrancl_mono [OF sub] by (auto simp: ancestor_contains_reach tables)
  from apply_selected_relation_cases(2) [OF first(1) this assms(6) gone [THEN conjunct2]]
  obtain row where "find_active_parent k db2 = Some row" "r' = Some (rl_id row)" "rl_parent_key row = parent_key winner"
    by blast
  with gone show ?thesis by simp
qed

text \<open>
  C37. A conflict with the adopted parent does not survive a replay: the first run retracts
  the parent and leaves the thread without one, and the same evidence again adopts the parent
  that was just rejected.
\<close>

theorem replay_adopts_contested_parent:
  assumes "graph_ok db" "\<not> ancestor_contains db (parent_key winner) k" "find_active_parent k db = Some old"
    "\<not> (rl_parent_key old = parent_key winner \<and> rl_type old = relation_type winner)"
    "apply_selected_relation env t k s p winner i op now owner db = Inr (r, db1)"
    "apply_selected_relation env t k s p winner i op' now' owner db1 = Inr (r', db2)"
  shows "r = None \<and> find_active_parent k db1 = None \<and> (\<exists>row. find_active_parent k db2 = Some row
    \<and> r' = Some (rl_id row) \<and> rl_parent_key row = parent_key winner)"
  by (rule contested_then_adopted [OF assms])

text \<open>The same two runs through \<open>reconcile_subject\<close>, with one observation of a strong parent.\<close>

definition run_again :: "nat \<Rightarrow> evidence_db" where
  "run_again n = ((\<lambda>db. snd (reconcile_subject plain_env True 13 (sample_endpoint ''c'')
     [sample_input ''c'' (Some ''p'') ''strong''] ''run 1'' 60 db)) ^^ n) graph_db"

theorem replay_adopts_contested_parent_witness:
  "(\<exists>db1 row db2. adopt graph_db = Inr (None, db1) \<and> adopt db1 = Inr (Some (rl_id row), db2)
      \<and> find_active_parent ''c'' db2 = Some row \<and> rl_parent_key row = ''p'')
   \<and> map (\<lambda>n. map_option rl_parent_key (find_active_parent ''c'' (run_again n))) [0, 1, 2] =
       [Some ''q'', None, Some ''p'']"
proof
  let ?second = "case adopt graph_db of Inr (_, db) \<Rightarrow> adopt db | Inl e \<Rightarrow> Inl e"
  have "\<not> isl (adopt graph_db)" by code_simp
  then obtain r db1 where run1: "adopt graph_db = Inr (r, db1)" by (auto simp: not_isl)
  have "\<not> isl ?second" by code_simp
  then obtain r' db2 where run2: "adopt db1 = Inr (r', db2)" by (auto simp: not_isl run1)
  have old: "find_active_parent ''c'' graph_db = Some (sample_relation 21 ''c'' 13 ''q'' 12)" by code_simp
  have differs: "\<not> (rl_parent_key (sample_relation 21 ''c'' 13 ''q'' 12) = parent_key sample_winner
      \<and> rl_type (sample_relation 21 ''c'' 13 ''q'' 12) = relation_type sample_winner)"
    by (simp add: sample_relation_def sample_winner_def)
  from replay_adopts_contested_parent [OF graph_db_ok sample_no_cycle old differs
      run1 [unfolded adopt_def] run2 [unfolded adopt_def]] run1 run2
  show "\<exists>db1 row db2. adopt graph_db = Inr (None, db1) \<and> adopt db1 = Inr (Some (rl_id row), db2)
      \<and> find_active_parent ''c'' db2 = Some row \<and> rl_parent_key row = ''p''"
    by (auto simp: sample_winner_def)
  show "map (\<lambda>n. map_option rl_parent_key (find_active_parent ''c'' (run_again n))) [0, 1, 2] =
       [Some ''q'', None, Some ''p'']"
    by code_simp
qed

end
