(* ===== verification/Group_Decision.thy ===== *)
theory Group_Decision
  imports Group_Graph Group_Frame
begin

text \<open>
  Operator decisions on candidate associations, the canonical key of a thread without a source,
  and the preview of an import (\<open>app/src/app/thread_group/reconcile.rs\<close>). Reading the threads
  table is the argument \<open>owner_of\<close>; the random key of a new thread is an argument.
\<close>

subsection \<open>Guards\<close>

text \<open>
  \<open>reason.trim().is_empty()\<close> on UTF-8 bytes: every character is white space.
\<close>

definition wide_space :: "nat \<Rightarrow> nat \<Rightarrow> nat \<Rightarrow> bool" where
  "wide_space a b c \<longleftrightarrow>
     a = 225 \<and> b = 154 \<and> c = 128
     \<or> a = 226 \<and> b = 128 \<and> (128 \<le> c \<and> c \<le> 138 \<or> c \<in> {168, 169, 175})
     \<or> a = 226 \<and> b = 129 \<and> c = 159
     \<or> a = 227 \<and> b = 128 \<and> c = 128"

fun blank :: "nat list \<Rightarrow> bool" where
  "blank [] = True"
| "blank (a # rest) =
     (if a \<in> {9, 10, 11, 12, 13, 32} then blank rest
      else if a = 194 then (case rest of b # rest' \<Rightarrow> b \<in> {133, 160} \<and> blank rest' | [] \<Rightarrow> False)
      else (case rest of b # c # rest' \<Rightarrow> wide_space a b c \<and> blank rest' | _ \<Rightarrow> False))"

definition blank_reason :: "string \<Rightarrow> bool" where
  "blank_reason reason = blank (map of_char reason)"

definition candidate_subject_key :: "association_row \<Rightarrow> identity_key option" where
  "candidate_subject_key c = (if as_known c
     then Some \<lparr>ik_user = as_user c, ik_source = as_source c, ik_scope = as_scope c, ik_native = as_native c\<rparr>
     else None)"

text \<open>\<open>resolve_candidate_subject_tx\<close>: the thread and key of the subject.\<close>

definition candidate_subject :: "association_row \<Rightarrow> 'a evidence_db_scheme \<Rightarrow> (int \<times> string) option" where
  "candidate_subject c db =
     (case candidate_subject_key c of
        None \<Rightarrow> None
      | Some k \<Rightarrow>
          (case find_resolved k db of
             None \<Rightarrow> None
           | Some identity \<Rightarrow>
               map_option (\<lambda>row. (id_thread identity, ky_key row)) (find_key_of_thread (id_thread identity) db)))"

definition subject_refusal :: "string \<Rightarrow> association_row \<Rightarrow> (int \<times> string) option \<Rightarrow> string option" where
  "subject_refusal decision c subject =
     (if decision \<notin> {''confirm'', ''retract''} then None
      else if \<not> as_known c then Some ''candidate subject identity scope is unknown''
      else case subject of
        None \<Rightarrow> Some ''candidate subject identity is unresolved or has no canonical key''
      | Some (t, _) \<Rightarrow>
          if as_thread c \<noteq> Some t
          then Some ''candidate subject identity no longer resolves to its recorded subject Thread'' else None)"

subsection \<open>Confirming\<close>

text \<open>The endpoint of the parent: its first source identity, or its owner without a source.\<close>

definition decided_parent ::
  "(int \<Rightarrow> int option) \<Rightarrow> int \<Rightarrow> 'a evidence_db_scheme \<Rightarrow> store_error + source_identity" where
  "decided_parent owner_of parent_thread db =
     (case list_identities parent_thread db of
        row # _ \<Rightarrow> Inr (candidate_endpoint (ik_source (id_key row)) True (ik_scope (id_key row))
          (ik_user (id_key row)) (ik_native (id_key row)))
      | [] \<Rightarrow>
          (case owner_of parent_thread of
             None \<Rightarrow> Inl (Bail ''parent thread owner missing'')
           | Some user \<Rightarrow> Inr (candidate_endpoint [] False [] user [])))"

definition decided_relation ::
  "int \<Rightarrow> int \<Rightarrow> string \<Rightarrow> string \<Rightarrow> source_identity \<Rightarrow> source_identity \<Rightarrow> int \<Rightarrow> int \<Rightarrow> relation_row" where
  "decided_relation parent_thread subject_thread pkey subject_key parent subject decision now =
     (let parent_scope = known_scope_value (si_identity_scope parent);
          child_scope = known_scope_value (si_identity_scope subject)
      in \<lparr>rl_id = 0, rl_parent_thread = Some parent_thread, rl_child_thread = Some subject_thread,
          rl_parent_key = pkey, rl_child_key = subject_key, rl_parent_user = si_user_id parent,
          rl_parent_source = map_option (\<lambda>_. si_source parent) parent_scope, rl_parent_scope = parent_scope,
          rl_parent_native = map_option (\<lambda>_. si_native_id parent) parent_scope,
          rl_child_user = si_user_id subject,
          rl_child_source = map_option (\<lambda>_. si_source subject) child_scope, rl_child_scope = child_scope,
          rl_child_native = map_option (\<lambda>_. si_native_id subject) child_scope,
          rl_type = Delegated, rl_state = RelationActive, rl_basis = BasisOperator, rl_confidence = None,
          rl_observation = None, rl_decision = Some decision, rl_created = now, rl_updated = now\<rparr>)"

text \<open>Replacing the parent by \<open>pkey\<close>: the incumbent of another parent is superseded.\<close>

definition confirm_parent ::
  "group_env \<Rightarrow> int \<Rightarrow> string \<Rightarrow> source_identity \<Rightarrow> int \<Rightarrow> string \<Rightarrow> source_identity \<Rightarrow> int option \<Rightarrow> int \<Rightarrow> int
    \<Rightarrow> 'a group_db_scheme \<Rightarrow> store_error + int \<times> 'a group_db_scheme" where
  "confirm_parent env subject_thread subject_key subject parent_thread pkey parent owner decision now db =
     (let (kept, db1) =
        (case find_active_parent subject_key db of
           None \<Rightarrow> (None, db)
         | Some r \<Rightarrow>
             if rl_parent_key r = pkey then (Some (rl_id r), db)
             else (None, snd (set_relation_state env (rl_id r) RelationActive RelationSuperseded now db)))
      in case kept of
           Some i \<Rightarrow> Inr (i, db1)
         | None \<Rightarrow>
             and_then (insert_relation env (decided_relation parent_thread subject_thread pkey subject_key
                 parent subject decision now) db1) (\<lambda>(i, db2).
             and_then (ensure_membership env subject_thread subject_key subject (Some parent_thread) pkey
                 parent owner now db2) (\<lambda>db3. Inr (i, db3))))"

definition association_endpoint :: "association_row \<Rightarrow> source_identity" where
  "association_endpoint c = candidate_endpoint (as_source c) (as_known c) (as_scope c) (as_user c) (as_native c)"

definition confirm_candidate ::
  "group_env \<Rightarrow> (int \<Rightarrow> int option) \<Rightarrow> association_row \<Rightarrow> (int \<times> string) option \<Rightarrow> int option \<Rightarrow> int \<Rightarrow> int
    \<Rightarrow> 'a evidence_db_scheme \<Rightarrow> store_error + int \<times> 'a evidence_db_scheme" where
  "confirm_candidate env owner_of c subject owner decision now db =
     (case subject of
        None \<Rightarrow> Inl (Bail ''subject identity is unresolved'')
      | Some (subject_thread, subject_key) \<Rightarrow>
          (case as_parent_thread c of
             None \<Rightarrow> Inl (Bail ''candidate parent unresolved'')
           | Some parent_thread \<Rightarrow>
               (case find_key_of_thread parent_thread db of
                  None \<Rightarrow> Inl (Bail ''parent canonical key missing'')
                | Some row \<Rightarrow>
                    let pkey = ky_key row
                    in if pkey = subject_key \<or> ancestor_contains db pkey subject_key
                       then Inl (Bail ''operator confirmation would create a cycle'')
                       else and_then (decided_parent owner_of parent_thread db) (\<lambda>parent.
                         confirm_parent env subject_thread subject_key (association_endpoint c)
                           parent_thread pkey parent owner decision now db))))"

subsection \<open>Retracting\<close>

definition retract_decided :: "group_env \<Rightarrow> (int \<times> string) option \<Rightarrow> int \<Rightarrow> 'a group_db_scheme \<Rightarrow> 'a group_db_scheme" where
  "retract_decided env subject now db =
     (case subject of
        None \<Rightarrow> db
      | Some (_, subject_key) \<Rightarrow>
          (case find_active_parent subject_key db of
             None \<Rightarrow> db
           | Some r \<Rightarrow>
               if rl_decision r = None then db
               else snd (set_relation_state env (rl_id r) RelationActive RelationRetracted now db)))"

subsection \<open>The operation\<close>

record decision_outcome =
  do_decision :: int
  do_relation :: "int option"
  do_state :: association_state

definition input_fingerprint :: "association_row \<Rightarrow> 'a evidence_db_scheme \<Rightarrow> string" where
  "input_fingerprint c db =
     (case as_observation c of
        None \<Rightarrow> []
      | Some i \<Rightarrow> or_empty (map_option ob_fingerprint (find_observation_by_id i db)))"

definition decision_input ::
  "association_row \<Rightarrow> string \<Rightarrow> string \<Rightarrow> string \<Rightarrow> int \<Rightarrow> 'a evidence_db_scheme \<Rightarrow> decision_row" where
  "decision_input c decision actor reason now db =
     \<lparr>dc_id = 0, dc_user = as_user c, dc_association = as_id c, dc_actor = actor, dc_decision = decision,
      dc_reason = reason, dc_fingerprint = input_fingerprint c db, dc_policy = policy_version, dc_created = now\<rparr>"

text \<open>The owner of the group the subject is in, for a confirmation.\<close>

definition operator_group_owner :: "string \<Rightarrow> (int \<times> string) option \<Rightarrow> 'a group_db_scheme \<Rightarrow> int option" where
  "operator_group_owner decision subject db =
     (if decision \<noteq> ''confirm'' then None
      else case subject of
        None \<Rightarrow> None
      | Some (_, subject_key) \<Rightarrow>
          (case find_current subject_key db of
             None \<Rightarrow> None
           | Some m \<Rightarrow> map_option g_user (find_group (mb_group m) db)))"

text \<open>The effect of a recorded decision: the relation and the state of the association.\<close>

definition apply_decision ::
  "group_env \<Rightarrow> (int \<Rightarrow> int option) \<Rightarrow> association_row \<Rightarrow> (int \<times> string) option \<Rightarrow> int option \<Rightarrow> string \<Rightarrow> int \<Rightarrow> int
    \<Rightarrow> 'a evidence_db_scheme \<Rightarrow> store_error + (int option \<times> association_state) \<times> 'a evidence_db_scheme" where
  "apply_decision env owner_of c subject owner decision decision_id now db =
     (if decision = ''confirm''
      then and_then (confirm_candidate env owner_of c subject owner decision_id now db)
             (\<lambda>(i, db'). Inr ((Some i, StateCandidate), db'))
      else if decision = ''reject'' then Inr ((None, StateSuperseded), db)
      else Inr ((None, StatePending), retract_decided env subject now db))"

definition decide_new ::
  "group_env \<Rightarrow> (int \<Rightarrow> int option) \<Rightarrow> association_row \<Rightarrow> string \<Rightarrow> string \<Rightarrow> string \<Rightarrow> int
    \<Rightarrow> 'a evidence_db_scheme \<Rightarrow> store_error + decision_outcome \<times> 'a evidence_db_scheme" where
  "decide_new env owner_of c decision actor reason now db =
     (let subject = candidate_subject c db
      in and_then (insert_decision env (decision_input c decision actor reason now db) db) (\<lambda>(i, db1).
         and_then (apply_decision env owner_of c subject (operator_group_owner decision subject db)
             decision i now db1) (\<lambda>((relation, state), db2).
         Inr (\<lparr>do_decision = i, do_relation = relation, do_state = state\<rparr>,
           snd (update_selection env (as_id c) (as_state c) state (as_observation c) now db2)))))"

text \<open>
  \<open>record_operator_decision\<close>. The same decision with the same reason as the latest one returns
  it and rolls back.
\<close>

definition record_operator_decision ::
  "group_env \<Rightarrow> bool \<Rightarrow> (int \<Rightarrow> int option) \<Rightarrow> int \<Rightarrow> string \<Rightarrow> string \<Rightarrow> string \<Rightarrow> int
    \<Rightarrow> 'a evidence_db_scheme \<Rightarrow> store_error + decision_outcome \<times> 'a evidence_db_scheme" where
  "record_operator_decision env writes_enabled owner_of association decision actor reason now db =
     (if \<not> writes_enabled then Inl (Bail ''ThreadGroup writes are disabled'')
      else if decision \<notin> {''confirm'', ''reject'', ''retract''} then Inl (Bail ''unknown operator decision'')
      else if blank_reason reason then Inl (Bail ''operator decision requires a reason'')
      else case find_association association db of
        None \<Rightarrow> Inl (Bail ''candidate association not found'')
      | Some c \<Rightarrow>
          (case subject_refusal decision c (candidate_subject c db) of
             Some e \<Rightarrow> Inl (Bail e)
           | None \<Rightarrow>
               (case find_latest_decision association db of
                  Some latest \<Rightarrow>
                    if dc_decision latest = decision \<and> dc_reason latest = reason
                    then Inr (\<lparr>do_decision = dc_id latest, do_relation = None, do_state = as_state c\<rparr>, db)
                    else decide_new env owner_of c decision actor reason now db
                | None \<Rightarrow> decide_new env owner_of c decision actor reason now db)))"

subsection \<open>What a decision does\<close>

lemma decided_relation_simps [simp]:
  "rl_child_key (decided_relation pt st pkey sk parent subject d now) = sk"
  "rl_parent_key (decided_relation pt st pkey sk parent subject d now) = pkey"
  "rl_state (decided_relation pt st pkey sk parent subject d now) = RelationActive"
  "rl_decision (decided_relation pt st pkey sk parent subject d now) = Some d"
  by (simp_all add: decided_relation_def Let_def)

text \<open>Replacing the parent once the incumbent, if any, is gone.\<close>

lemma decided_insert:
  assumes "graph_ok db" "\<not> ancestor_contains db pkey sk" "find_active_parent sk db = None"
    "insert_relation env (decided_relation pt st pkey sk parent subject d now) db = Inr (i, db1)"
    "ensure_membership env st sk subject (Some pt) pkey parent owner now db1 = Inr db'"
  shows "graph_ok db' \<and> (\<exists>row. find_active_parent sk db' = Some row \<and> rl_id row = i \<and> rl_parent_key row = pkey
      \<and> rl_decision row = Some d)
    \<and> (j \<noteq> sk \<longrightarrow> find_active_parent j db' = find_active_parent j db)"
proof -
  note ins = insert_relation_ok [OF assms(1,4), simplified, OF assms(2)]
  note ens = ensure_membership_ok [OF ins(1) assms(5)]
  have look: "find_active_parent x db' = find_active_parent x db1" for x
    using ens(2) by (simp add: find_active_parent_def)
  show ?thesis
    using ens(1) ins(3) insert_relation_Inr(2) [OF assms(4)] insert_relation_other [OF assms(4)]
    by (simp add: look)
qed

lemma confirm_parent_effect:
  assumes "graph_ok db" "\<not> ancestor_contains db pkey sk"
    "confirm_parent env st sk subject pt pkey parent owner d now db = Inr (i, db')"
  shows "graph_ok db' \<and> (\<exists>row. find_active_parent sk db' = Some row \<and> rl_id row = i \<and> rl_parent_key row = pkey
      \<and> (if map_option rl_parent_key (find_active_parent sk db) = Some pkey
         then find_active_parent sk db = Some row else rl_decision row = Some d))
    \<and> (j \<noteq> sk \<longrightarrow> find_active_parent j db' = find_active_parent j db)"
proof (cases "find_active_parent sk db")
  case None
  with assms(3) obtain db1 where
    "insert_relation env (decided_relation pt st pkey sk parent subject d now) db = Inr (i, db1)"
    "ensure_membership env st sk subject (Some pt) pkey parent owner now db1 = Inr db'"
    by (auto simp: confirm_parent_def elim!: and_then_InrE)
  from decided_insert [OF assms(1,2) None this] None show ?thesis by auto
next
  case (Some old)
  show ?thesis
  proof (cases "rl_parent_key old = pkey")
    case True
    with assms Some show ?thesis by (auto simp: confirm_parent_def)
  next
    case False
    let ?db1 = "snd (set_relation_state env (rl_id old) RelationActive RelationSuperseded now db)"
    from assms(3) Some False obtain db2 where steps:
      "insert_relation env (decided_relation pt st pkey sk parent subject d now) ?db1 = Inr (i, db2)"
      "ensure_membership env st sk subject (Some pt) pkey parent owner now db2 = Inr db'"
      by (auto simp: confirm_parent_def elim!: and_then_InrE)
    have ok1: "graph_ok ?db1" and sub: "active_edges ?db1 \<subseteq> active_edges db"
      by (rule deactivate_ok [OF assms(1)], simp)+
    note parents = deactivate_parent [OF assms(1) Some, of RelationSuperseded]
    have "tables_ok db" "tables_ok ?db1" using assms(1) ok1 by (simp_all add: graph_ok_def placed_ok_def)
    then have "\<not> ancestor_contains ?db1 pkey sk"
      using assms(2) rtrancl_mono [OF sub] by (auto simp: ancestor_contains_reach)
    from decided_insert [OF ok1 this _ steps, of j] parents Some False show ?thesis by auto
  qed
qed

lemma insert_decision_same [evidence_only]:
  "insert_decision env new db = Inr (i, db') \<Longrightarrow> same_graph db db'"
  by (auto simp: insert_decision_def Let_def same_graph_def split: if_splits)

lemma update_selection_same [simp]: "same_graph db (snd (update_selection env i e n obs now db))"
  by (simp add: update_selection_def update_associations_def Let_def same_graph_def)

lemma confirm_candidate_effect:
  assumes "graph_ok db" "confirm_candidate env owner_of c (Some (st, sk)) owner d now db = Inr (i, db')"
  shows "\<exists>pt row r. as_parent_thread c = Some pt \<and> find_key_of_thread pt db = Some row \<and> graph_ok db'
    \<and> find_active_parent sk db' = Some r \<and> rl_id r = i \<and> rl_parent_key r = ky_key row
    \<and> (if map_option rl_parent_key (find_active_parent sk db) = Some (ky_key row)
        then find_active_parent sk db = Some r else rl_decision r = Some d)
    \<and> (j \<noteq> sk \<longrightarrow> find_active_parent j db' = find_active_parent j db)"
proof -
  from assms(2) obtain pt row parent where parts: "as_parent_thread c = Some pt"
    "find_key_of_thread pt db = Some row" and acyclic: "\<not> ancestor_contains db (ky_key row) sk"
    and run: "confirm_parent env st sk (association_endpoint c) pt (ky_key row) parent owner d now db = Inr (i, db')"
    by (auto simp: confirm_candidate_def Let_def elim!: and_then_InrE split: option.splits if_splits)
  from confirm_parent_effect [OF assms(1) acyclic run, of j] parts show ?thesis by blast
qed

lemma retract_decided_effect:
  assumes "graph_ok db"
  shows "graph_ok (retract_decided env (Some (st, sk)) now db)"
    "find_active_parent j (retract_decided env (Some (st, sk)) now db) =
      (case find_active_parent j db of
         None \<Rightarrow> None | Some r \<Rightarrow> if j = sk \<and> rl_decision r \<noteq> None then None else Some r)"
proof -
  have "graph_ok (retract_decided env (Some (st, sk)) now db) \<and>
    find_active_parent j (retract_decided env (Some (st, sk)) now db) =
      (case find_active_parent j db of
         None \<Rightarrow> None | Some r \<Rightarrow> if j = sk \<and> rl_decision r \<noteq> None then None else Some r)"
  proof (cases "find_active_parent sk db")
    case None
    then show ?thesis using assms by (auto simp: retract_decided_def split: option.split)
  next
    case (Some r)
    then show ?thesis
      using assms deactivate_ok(1) [OF assms, of RelationRetracted] deactivate_parent [OF assms Some, of RelationRetracted]
      by (auto simp: retract_decided_def split: option.split)
  qed
  then show "graph_ok (retract_decided env (Some (st, sk)) now db)"
    "find_active_parent j (retract_decided env (Some (st, sk)) now db) =
      (case find_active_parent j db of
         None \<Rightarrow> None | Some r \<Rightarrow> if j = sk \<and> rl_decision r \<noteq> None then None else Some r)"
    by blast+
qed

definition already_decided :: "int \<Rightarrow> string \<Rightarrow> string \<Rightarrow> 'a evidence_db_scheme \<Rightarrow> bool" where
  "already_decided a decision reason db =
     (case find_latest_decision a db of
        None \<Rightarrow> False | Some latest \<Rightarrow> dc_decision latest = decision \<and> dc_reason latest = reason)"

lemma record_operator_decision_Inr:
  assumes "record_operator_decision env enabled owner_of a decision actor reason now db = Inr (out, db')"
  obtains c where "find_association a db = Some c" "as_id c = a"
    "decision \<in> {''confirm'', ''reject'', ''retract''}" "\<not> blank_reason reason" "enabled"
    "subject_refusal decision c (candidate_subject c db) = None"
    "if already_decided a decision reason db
     then (\<exists>latest. find_latest_decision a db = Some latest
        \<and> out = \<lparr>do_decision = dc_id latest, do_relation = None, do_state = as_state c\<rparr>) \<and> db' = db
     else decide_new env owner_of c decision actor reason now db = Inr (out, db')"
proof -
  from assms obtain c where c: "find_association a db = Some c"
    and rest: "decision \<in> {''confirm'', ''reject'', ''retract''}" "\<not> blank_reason reason" "enabled"
    "subject_refusal decision c (candidate_subject c db) = None"
    and run: "(case find_latest_decision a db of
        Some latest \<Rightarrow>
          if dc_decision latest = decision \<and> dc_reason latest = reason
          then Inr (\<lparr>do_decision = dc_id latest, do_relation = None, do_state = as_state c\<rparr>, db)
          else decide_new env owner_of c decision actor reason now db
      | None \<Rightarrow> decide_new env owner_of c decision actor reason now db) = Inr (out, db')"
    by (auto simp: record_operator_decision_def split: if_splits option.splits)
  have "as_id c = a" using c by (auto simp: find_association_def find_Some_iff)
  moreover have "if already_decided a decision reason db
     then (\<exists>latest. find_latest_decision a db = Some latest
        \<and> out = \<lparr>do_decision = dc_id latest, do_relation = None, do_state = as_state c\<rparr>) \<and> db' = db
     else decide_new env owner_of c decision actor reason now db = Inr (out, db')"
    using run by (auto simp: already_decided_def split: option.splits if_splits)
  ultimately show thesis using that [OF c] rest by blast
qed

lemma insert_decision_Inr:
  assumes "insert_decision env new db = Inr (i, db')"
  shows "i = env_id env (db_drawn db)"
    "db' = db\<lparr>db_drawn := db_drawn db + 1, db_decisions := db_decisions db @
       [new\<lparr>dc_id := i, dc_created := fill_updated_at env (dc_created new)\<rparr>]\<rparr>"
  using assms by (auto simp: insert_decision_def Let_def split: if_splits)

lemma decide_new_steps:
  assumes "decide_new env owner_of c decision actor reason now db = Inr (out, db')"
  obtains db1 db2 where
    "insert_decision env (decision_input c decision actor reason now db) db = Inr (do_decision out, db1)"
    "apply_decision env owner_of c (candidate_subject c db)
       (operator_group_owner decision (candidate_subject c db) db) decision (do_decision out) now db1
     = Inr ((do_relation out, do_state out), db2)"
    "db' = snd (update_selection env (as_id c) (as_state c) (do_state out) (as_observation c) now db2)"
  using assms that by (auto simp: decide_new_def Let_def elim!: and_then_InrE)

text \<open>The graph after a new decision, for the subject and for every other thread.\<close>

definition decided_parent_of ::
  "string \<Rightarrow> association_row \<Rightarrow> decision_outcome \<Rightarrow> string \<Rightarrow> 'a evidence_db_scheme \<Rightarrow> 'a evidence_db_scheme \<Rightarrow> bool" where
  "decided_parent_of decision c out sk db db' =
     (if decision = ''confirm''
      then (\<exists>pt row r. as_parent_thread c = Some pt \<and> find_key_of_thread pt db = Some row
        \<and> find_active_parent sk db' = Some r \<and> do_relation out = Some (rl_id r) \<and> rl_parent_key r = ky_key row
        \<and> (if map_option rl_parent_key (find_active_parent sk db) = Some (ky_key row)
           then find_active_parent sk db = Some r else rl_decision r = Some (do_decision out)))
      else if decision = ''reject'' then find_active_parent sk db' = find_active_parent sk db
      else find_active_parent sk db' = (case find_active_parent sk db of
          None \<Rightarrow> None | Some r \<Rightarrow> if rl_decision r \<noteq> None then None else Some r))"

lemma decide_new_effect:
  assumes "graph_ok db" "candidate_subject c db = Some (st, sk)"
    "decide_new env owner_of c decision actor reason now db = Inr (out, db')"
  shows "graph_ok db' \<and> decided_parent_of decision c out sk db db'
    \<and> (j \<noteq> sk \<longrightarrow> find_active_parent j db' = find_active_parent j db)"
proof -
  from assms(3) obtain db1 db2 where
    insert: "insert_decision env (decision_input c decision actor reason now db) db = Inr (do_decision out, db1)"
    and applied: "apply_decision env owner_of c (Some (st, sk)) (operator_group_owner decision (Some (st, sk)) db)
       decision (do_decision out) now db1 = Inr ((do_relation out, do_state out), db2)"
    and db': "db' = snd (update_selection env (as_id c) (as_state c) (do_state out) (as_observation c) now db2)"
    by (rule decide_new_steps) (simp add: assms(2))
  have same1: "same_graph db db1" by (rule insert_decision_same [OF insert])
  have same2: "same_graph db2 db'" by (simp add: db')
  have keys: "find_key_of_thread t db1 = find_key_of_thread t db" for t
    using insert_decision_Inr(2) [OF insert] by (simp add: find_key_of_thread_def)
  note ok1 = graph_ok_same [OF same1 assms(1)]
  note look1 = find_active_parent_same [OF same1] and look2 = find_active_parent_same [OF same2]
  have "graph_ok db2 \<and> decided_parent_of decision c out sk db db2
      \<and> (j \<noteq> sk \<longrightarrow> find_active_parent j db2 = find_active_parent j db)"
  proof (cases "decision = ''confirm''")
    case True
    with applied obtain i where rel: "do_relation out = Some i" and
      run: "confirm_candidate env owner_of c (Some (st, sk)) (operator_group_owner decision (Some (st, sk)) db)
         (do_decision out) now db1 = Inr (i, db2)"
      by (fastforce simp: apply_decision_def elim!: and_then_InrE)
    show ?thesis
      using confirm_candidate_effect [OF ok1 run, of j, unfolded look1 keys] rel
      unfolding decided_parent_of_def if_P [OF True] by blast
  next
    case False
    show ?thesis
    proof (cases "decision = ''reject''")
      case True
      with applied have "db2 = db1" by (simp add: apply_decision_def)
      with True ok1 look1 show ?thesis by (simp add: decided_parent_of_def)
    next
      case no_reject: False
      with False applied have "db2 = retract_decided env (Some (st, sk)) now db1"
        by (auto simp: apply_decision_def)
      with False no_reject show ?thesis
        using retract_decided_effect [OF ok1, where env = env and st = st and sk = sk and now = now] look1
        by (auto simp: decided_parent_of_def split: option.split)
    qed
  qed
  moreover have "decided_parent_of decision c out sk db db' = decided_parent_of decision c out sk db db2"
    by (simp only: decided_parent_of_def look2)
  ultimately show ?thesis using graph_ok_same [OF same2] by (simp add: look2)
qed

text \<open>The thread \<open>c\<close> of \<open>graph_db\<close>, with a contested candidate for the parent \<open>p\<close>.\<close>

definition contested :: association_row where
  "contested = \<lparr>as_id = 31, as_thread = Some 13, as_source = ''codex'', as_known = True, as_scope = [],
     as_user = 7, as_native = ''c'', as_group = None, as_parent_thread = Some 11, as_state = StateConflict,
     as_observation = None, as_created = 10, as_updated = 10\<rparr>"

definition decision_db :: evidence_db where
  "decision_db = empty_db\<lparr>
     db_groups := [sample_group 1 ''gq'' ByReconciler, sample_group 2 ''gp'' ByReconciler],
     db_members := [sample_member ''q'' 12 1 ByReconciler, sample_member ''c'' 13 1 ByReconciler,
       sample_member ''p'' 11 2 ByReconciler],
     db_relations := [sample_relation 21 ''c'' 13 ''q'' 12], db_associations := [contested],
     db_identities := [\<lparr>id_key = \<lparr>ik_user = 7, ik_source = ''codex'', ik_scope = [], ik_native = ''p''\<rparr>,
         id_thread = 11, id_resolution = ''resolved'', id_first_seen = 10, id_last_seen = 10\<rparr>,
       \<lparr>id_key = \<lparr>ik_user = 7, ik_source = ''codex'', ik_scope = [], ik_native = ''c''\<rparr>,
         id_thread = 13, id_resolution = ''resolved'', id_first_seen = 10, id_last_seen = 10\<rparr>],
     db_keys := [\<lparr>ky_thread = 11, ky_user = 7, ky_key = ''p'', ky_origin = ''source_identity'', ky_assigned = 10\<rparr>,
       \<lparr>ky_thread = 13, ky_user = 7, ky_key = ''c'', ky_origin = ''source_identity'', ky_assigned = 10\<rparr>]\<rparr>"

lemma decision_db_ok: "graph_ok decision_db"
proof -
  have "placed_ok decision_db" by code_simp
  moreover have "active_edges decision_db = {(''c'', ''q'')}"
    by (auto simp: active_edges_def decision_db_def sample_relation_def empty_db_def)
  then have "acyclic (active_edges decision_db)" by simp (simp add: acyclic_def)
  ultimately show ?thesis by (simp add: graph_ok_def)
qed

definition confirm_run :: "int \<Rightarrow> evidence_db \<Rightarrow> store_error + decision_outcome \<times> evidence_db" where
  "confirm_run = record_operator_decision plain_env True (\<lambda>_. None) 31 ''confirm'' ''alice'' ''same task''"

lemma confirm_setup:
  "find_association 31 decision_db = Some contested" "candidate_subject contested decision_db = Some (13, ''c'')"
  "\<not> already_decided 31 ''confirm'' ''same task'' decision_db"
  by (code_simp, code_simp, code_simp)

subsection \<open>Replaying a decision\<close>

lemma insort_key_snoc: "f a \<le> f x \<Longrightarrow> insort_key f a (zs @ [x]) = insort_key f a zs @ [x]"
  by (induction zs) auto

lemma sort_key_snoc:
  fixes f :: "'a \<Rightarrow> 'b :: linorder"
  shows "\<forall>y \<in> set ys. f y \<le> f x \<Longrightarrow> sort_key f (ys @ [x]) = sort_key f ys @ [x]"
proof (induction ys)
  case (Cons y ys)
  then show ?case by (simp add: sort_key_def insort_key_snoc)
qed (simp add: sort_key_def)

lemma latest_decision_appended:
  assumes "\<forall>d \<in> set ds. dc_association d = a \<longrightarrow> (dc_created d, dc_id d) \<le> (dc_created new, dc_id new)"
    "dc_association new = a"
  shows "find_latest_decision a (db\<lparr>db_decisions := ds @ [new]\<rparr>) = Some new"
proof -
  have "sort_key (\<lambda>d. (dc_created d, dc_id d)) (filter (\<lambda>d. dc_association d = a) (ds @ [new]))
      = sort_key (\<lambda>d. (dc_created d, dc_id d)) (filter (\<lambda>d. dc_association d = a) ds) @ [new]"
    unfolding filter_append by (simp add: assms(2)) (rule sort_key_snoc, use assms(1) in auto)
  then show ?thesis by (simp add: find_latest_decision_def)
qed

lemma find_latest_cong: "db_decisions db' = db_decisions db \<Longrightarrow> find_latest_decision a db' = find_latest_decision a db"
  by (simp add: find_latest_decision_def)

lemma candidate_subject_cong:
  assumes "db_identities db' = db_identities db" "db_keys db' = db_keys db"
  shows "candidate_subject c db' = candidate_subject c db"
proof -
  have "find_resolved k db' = find_resolved k db" "find_key_of_thread t db' = find_key_of_thread t db" for k t
    using assms by (simp_all add: find_resolved_def find_key_of_thread_def)
  then show ?thesis by (simp only: candidate_subject_def)
qed

lemma confirm_parent_evidence:
  assumes "confirm_parent env st sk subject pt pkey parent owner d now db = Inr (i, db')"
  shows "same_evidence db db'"
proof -
  have inserted: "same_evidence db db'" if "same_evidence db db1"
    "and_then (insert_relation env (decided_relation pt st pkey sk parent subject d now) db1) (\<lambda>(i, db2).
       and_then (ensure_membership env st sk subject (Some pt) pkey parent owner now db2) (\<lambda>db3. Inr (i, db3)))
     = Inr (i, db')" for db1
    using that by (auto elim!: and_then_InrE dest!: placement_only intro: same_evidence_trans)
  show ?thesis
  proof (cases "find_active_parent sk db")
    case None
    with assms inserted [of db] show ?thesis by (simp add: confirm_parent_def)
  next
    case (Some r)
    let ?db1 = "snd (set_relation_state env (rl_id r) RelationActive RelationSuperseded now db)"
    from assms inserted [of ?db1] Some show ?thesis
      by (cases "rl_parent_key r = pkey") (simp_all add: confirm_parent_def)
  qed
qed

lemma apply_decision_evidence:
  assumes "apply_decision env owner_of c subject owner decision d now db = Inr (x, db')"
  shows "same_evidence db db'"
proof (cases "decision = ''confirm''")
  case True
  with assms show ?thesis
    by (auto simp: apply_decision_def confirm_candidate_def Let_def elim!: and_then_InrE
        split: option.splits if_splits dest: confirm_parent_evidence)
next
  case False
  with assms show ?thesis
    by (auto simp: apply_decision_def retract_decided_def split: option.splits if_splits)
qed

lemma decide_new_state:
  assumes "decide_new env owner_of c decision actor reason now db = Inr (out, db')"
    "decision \<in> {''confirm'', ''reject'', ''retract''}"
  shows "do_state out = (if decision = ''confirm'' then StateCandidate
        else if decision = ''reject'' then StateSuperseded else StatePending)"
  using assms(1) by (rule decide_new_steps) (auto simp: apply_decision_def elim!: and_then_InrE split: if_splits)

lemma decide_new_tables:
  assumes "decide_new env owner_of c decision actor reason now db = Inr (out, db')"
  shows "db_identities db' = db_identities db" "db_keys db' = db_keys db"
    "do_decision out = env_id env (db_drawn db)"
    "db_associations db' = map (\<lambda>x. if as_id x = as_id c \<and> as_state x = as_state c
       then x\<lparr>as_state := do_state out, as_observation := as_observation c,
         as_updated := fill_updated_at env now\<rparr> else x) (db_associations db)"
    "db_decisions db' = db_decisions db @
       [\<lparr>dc_id = do_decision out, dc_user = as_user c, dc_association = as_id c, dc_actor = actor,
         dc_decision = decision, dc_reason = reason, dc_fingerprint = input_fingerprint c db,
         dc_policy = policy_version, dc_created = fill_updated_at env now\<rparr>]"
proof -
  from assms obtain db1 db2 where
    insert: "insert_decision env (decision_input c decision actor reason now db) db = Inr (do_decision out, db1)"
    and applied: "apply_decision env owner_of c (candidate_subject c db)
       (operator_group_owner decision (candidate_subject c db) db) decision (do_decision out) now db1
       = Inr ((do_relation out, do_state out), db2)"
    and db': "db' = snd (update_selection env (as_id c) (as_state c) (do_state out) (as_observation c) now db2)"
    by (rule decide_new_steps)
  note db1 = insert_decision_Inr [OF insert]
  note same = same_evidenceD [OF apply_decision_evidence [OF applied]]
  show "db_identities db' = db_identities db" "db_keys db' = db_keys db"
    "db_associations db' = map (\<lambda>x. if as_id x = as_id c \<and> as_state x = as_state c
       then x\<lparr>as_state := do_state out, as_observation := as_observation c,
         as_updated := fill_updated_at env now\<rparr> else x) (db_associations db)"
    "db_decisions db' = db_decisions db @
       [\<lparr>dc_id = do_decision out, dc_user = as_user c, dc_association = as_id c, dc_actor = actor,
         dc_decision = decision, dc_reason = reason, dc_fingerprint = input_fingerprint c db,
         dc_policy = policy_version, dc_created = fill_updated_at env now\<rparr>]"
    by (simp_all add: db' update_selection_def update_associations_def Let_def same db1(2) decision_input_def)
  show "do_decision out = env_id env (db_drawn db)" by (rule db1(1))
qed

lemma decide_new_evidence:
  assumes "decide_new env owner_of c decision actor reason now db = Inr (out, db')"
    "\<forall>d \<in> set (db_decisions db). dc_association d = as_id c \<longrightarrow>
       (dc_created d, dc_id d) \<le> (fill_updated_at env now, env_id env (db_drawn db))"
    "find_association (as_id c) db = Some c"
  shows "db_identities db' = db_identities db" "db_keys db' = db_keys db"
    "\<exists>d. find_latest_decision (as_id c) db' = Some d \<and> dc_id d = do_decision out \<and> dc_decision d = decision
       \<and> dc_reason d = reason"
    "\<exists>u. find_association (as_id c) db' = Some (c\<lparr>as_state := do_state out, as_updated := u\<rparr>)"
proof -
  note tables = decide_new_tables [OF assms(1)]
  show "db_identities db' = db_identities db" "db_keys db' = db_keys db" by (fact tables(1,2))+
  let ?row = "\<lparr>dc_id = do_decision out, dc_user = as_user c, dc_association = as_id c, dc_actor = actor,
    dc_decision = decision, dc_reason = reason, dc_fingerprint = input_fingerprint c db,
    dc_policy = policy_version, dc_created = fill_updated_at env now\<rparr>"
  have "find_latest_decision (as_id c) db' = Some ?row"
    using latest_decision_appended [of "db_decisions db" "as_id c" ?row db] assms(2) tables(3)
    by (subst find_latest_cong [of _ "db\<lparr>db_decisions := db_decisions db @ [?row]\<rparr>"]) (simp_all add: tables(5))
  then show "\<exists>d. find_latest_decision (as_id c) db' = Some d \<and> dc_id d = do_decision out \<and> dc_decision d = decision
       \<and> dc_reason d = reason" by simp
  have "find_association (as_id c) db' = map_option (\<lambda>x. if as_id x = as_id c \<and> as_state x = as_state c
       then x\<lparr>as_state := do_state out, as_observation := as_observation c,
         as_updated := fill_updated_at env now\<rparr> else x) (find_association (as_id c) db)"
    unfolding find_association_def tables(4) by (rule find_map_keep) simp
  then show "\<exists>u. find_association (as_id c) db' = Some (c\<lparr>as_state := do_state out, as_updated := u\<rparr>)"
    using assms(3) by (intro exI [of _ "fill_updated_at env now"]) simp
qed

text \<open>
  C23. An operator decision that is not a replay, exactly. The graph invariant is kept and only
  the subject's active parent may differ: a confirmation makes the candidate's parent the parent
  of the subject (the adopted relation is the incumbent when that has the same parent, and
  carries the decision otherwise), a rejection leaves it, and a retraction removes it only if an
  operator had adopted it. The association alone moves to the state of the decision (candidate,
  superseded, pending), stamped with the time of the decision, and one decision row is appended,
  with the id returned, the actor, the reason and the fingerprint of the evidence decided on.
\<close>

theorem operator_decision_effect:
  assumes "graph_ok db" "find_association a db = Some c" "candidate_subject c db = Some (st, sk)"
    "\<not> already_decided a decision reason db"
    "record_operator_decision env enabled owner_of a decision actor reason now db = Inr (out, db')"
  shows "graph_ok db' \<and> decided_parent_of decision c out sk db db'
    \<and> find_active_parent j db' = (if j = sk then find_active_parent sk db' else find_active_parent j db)
    \<and> do_state out = (if decision = ''confirm'' then StateCandidate
        else if decision = ''reject'' then StateSuperseded else StatePending)
    \<and> db_associations db' = map (\<lambda>x. if as_id x = a \<and> as_state x = as_state c
        then x\<lparr>as_state := do_state out, as_observation := as_observation c,
          as_updated := fill_updated_at env now\<rparr> else x) (db_associations db)
    \<and> db_decisions db' = db_decisions db @
        [\<lparr>dc_id = do_decision out, dc_user = as_user c, dc_association = a, dc_actor = actor,
          dc_decision = decision, dc_reason = reason, dc_fingerprint = input_fingerprint c db,
          dc_policy = policy_version, dc_created = fill_updated_at env now\<rparr>]"
proof -
  have new: "decide_new env owner_of c decision actor reason now db = Inr (out, db')"
    using assms(2,4,5) by (auto elim: record_operator_decision_Inr)
  have known: "decision \<in> {''confirm'', ''reject'', ''retract''}"
    using assms(5) by (auto elim: record_operator_decision_Inr)
  have id: "as_id c = a" using assms(2) by (auto simp: find_association_def find_Some_iff)
  show ?thesis
    using decide_new_effect [OF assms(1,3) new, of j] decide_new_tables [OF new]
      decide_new_state [OF new known] by (simp add: id)
qed

theorem operator_decision_effect_witness:
  "\<exists>out db' r. confirm_run 60 decision_db = Inr (out, db') \<and> find_active_parent ''c'' db' = Some r
     \<and> rl_parent_key r = ''p'' \<and> rl_decision r = Some (do_decision out)"
proof -
  have "\<not> isl (confirm_run 60 decision_db)" by code_simp
  then obtain out db' where run: "confirm_run 60 decision_db = Inr (out, db')" by (auto simp: not_isl)
  note effect = operator_decision_effect [OF decision_db_ok confirm_setup run [unfolded confirm_run_def], of "''c''"]
  have old: "map_option rl_parent_key (find_active_parent ''c'' decision_db) = Some ''q''" by code_simp
  have "as_parent_thread contested = Some 11" "map_option ky_key (find_key_of_thread 11 decision_db) = Some ''p''"
    by (simp add: contested_def, code_simp)
  with effect old run show ?thesis by (auto simp: decided_parent_of_def)
qed

text \<open>
  Replaying an operator decision, by whichever actor and whenever, returns the decision
  recorded first and the state it left, and changes nothing; ids and times grow, so that the
  decision is the latest one of its association.
\<close>

theorem operator_decision_replay:
  assumes "\<forall>d \<in> set (db_decisions db). dc_association d = a \<longrightarrow>
       (dc_created d, dc_id d) \<le> (fill_updated_at env now, env_id env (db_drawn db))"
    "record_operator_decision env enabled owner_of a decision actor reason now db = Inr (out, db')"
  shows "record_operator_decision env enabled owner_of' a decision actor' reason now' db' =
    Inr (\<lparr>do_decision = do_decision out, do_relation = None, do_state = do_state out\<rparr>, db')"
  using assms(2)
proof (rule record_operator_decision_Inr)
  fix c
  assume c: "find_association a db = Some c" "as_id c = a"
    and guards: "decision \<in> {''confirm'', ''reject'', ''retract''}" "\<not> blank_reason reason" "enabled"
      "subject_refusal decision c (candidate_subject c db) = None"
    and run: "if already_decided a decision reason db
     then (\<exists>latest. find_latest_decision a db = Some latest
        \<and> out = \<lparr>do_decision = dc_id latest, do_relation = None, do_state = as_state c\<rparr>) \<and> db' = db
     else decide_new env owner_of c decision actor reason now db = Inr (out, db')"
  show ?thesis
  proof (cases "already_decided a decision reason db")
    case True
    with run c guards show ?thesis by (auto simp: record_operator_decision_def already_decided_def)
  next
    case False
    with run have new: "decide_new env owner_of c decision actor reason now db = Inr (out, db')" by simp
    note after = decide_new_evidence [OF new, unfolded c(2), OF assms(1) c(1)]
    obtain u where found: "find_association a db' = Some (c\<lparr>as_state := do_state out, as_updated := u\<rparr>)"
      using after(4) by blast
    let ?c = "c\<lparr>as_state := do_state out, as_updated := u\<rparr>"
    have "candidate_subject ?c db = candidate_subject c db"
      by (simp add: candidate_subject_def candidate_subject_key_def)
    then have "candidate_subject ?c db' = candidate_subject c db"
      by (simp only: candidate_subject_cong [OF after(1,2)])
    moreover have "subject_refusal decision ?c s = subject_refusal decision c s" for s
      by (simp add: subject_refusal_def split: option.split)
    ultimately show ?thesis using after(3) found guards by (auto simp: record_operator_decision_def)
  qed
qed

theorem operator_decision_replay_witness:
  "\<exists>out db'. confirm_run 60 decision_db = Inr (out, db') \<and>
     confirm_run 70 db' = Inr (\<lparr>do_decision = do_decision out, do_relation = None, do_state = do_state out\<rparr>, db')"
proof -
  have "\<not> isl (confirm_run 60 decision_db)" by code_simp
  then obtain out db' where run: "confirm_run 60 decision_db = Inr (out, db')" by (auto simp: not_isl)
  have "\<forall>d \<in> set (db_decisions decision_db). dc_association d = 31 \<longrightarrow>
      (dc_created d, dc_id d) \<le> (fill_updated_at plain_env 60, env_id plain_env (db_drawn decision_db))"
    by (simp add: decision_db_def empty_db_def)
  from operator_decision_replay [OF this run [unfolded confirm_run_def]] run
  show ?thesis unfolding confirm_run_def by blast
qed

end
