(* ===== verification/Group_Preview.thy ===== *)
theory Group_Preview
  imports Group_Adoption Group_Frame
begin

text \<open>
  The dry run of an import (\<open>preview_import\<close> in \<open>app/src/app/thread_group/reconcile.rs\<close>), against
  the candidates the import itself collects, and the canonical key of a thread without a source.
\<close>

record import_preview =
  pv_suppressed :: bool
  pv_would_revive :: bool
  pv_observations :: int
  pv_relations :: int
  pv_pending :: nat
  pv_conflict :: bool

text \<open>\<open>observed_endpoint_key\<close>.\<close>

definition observed_endpoint_key :: "source_identity \<Rightarrow> identity_key option" where
  "observed_endpoint_key e = (if scope_known e then Some (identity_key_of e) else None)"

definition preview_subject_key :: "group_env \<Rightarrow> source_identity \<Rightarrow> 'a evidence_db_scheme \<Rightarrow> string option" where
  "preview_subject_key env subject db =
     (case observed_endpoint_key subject of
        None \<Rightarrow> None
      | Some k \<Rightarrow>
          (case Option.bind (find_marker k db) mk_thread_key of
             Some key \<Rightarrow> Some key
           | None \<Rightarrow>
               (case find_resolved k db of
                  Some identity \<Rightarrow> map_option ky_key (find_key_of_thread (id_thread identity) db)
                | None \<Rightarrow> source_thread_canonical_key (env_nfc env) (env_sha env) subject)))"

text \<open>The loop over the observations: the candidates and how many stay pending.\<close>

fun preview_candidates :: "observation_input list \<Rightarrow> 'a evidence_db_scheme \<Rightarrow> candidate list \<times> nat" where
  "preview_candidates [] db = ([], 0)"
| "preview_candidates (input # rest) db =
     (let (cands, pending) = preview_candidates rest db
      in case oi_parent input of
           None \<Rightarrow> (cands, pending)
         | Some parent \<Rightarrow>
             (case promotable_source_candidate (oi_confidence input) (oi_relation_kind input) (oi_polarity input) of
                None \<Rightarrow> (cands, pending)
              | Some (confidence, kind) \<Rightarrow>
                  (case observed_endpoint_key parent of
                     None \<Rightarrow> (cands, pending + 1)
                   | Some k \<Rightarrow>
                       (case find_resolved k db of
                          None \<Rightarrow> (cands, pending + 1)
                        | Some resolved \<Rightarrow>
                            (case find_key_of_thread (id_thread resolved) db of
                               None \<Rightarrow> (cands, pending)
                             | Some row \<Rightarrow>
                                 (\<lparr>parent_key = ky_key row, relation_type = kind,
                                   cand_evidence = SourceEvidence confidence\<rparr> # cands, pending))))))"

definition preview_import ::
  "group_env \<Rightarrow> source_identity \<Rightarrow> observation_input list \<Rightarrow> bool \<Rightarrow> 'a evidence_db_scheme \<Rightarrow> import_preview" where
  "preview_import env subject inputs explicit_override db =
     (let marker = Option.bind (observed_endpoint_key subject) (\<lambda>k. find_marker k db);
          suppressed = (decide_suppression (map_option mk_forbid marker) explicit_override = Suppress);
          would_revive = (case Option.bind (preview_subject_key env subject db) (\<lambda>key. find_current key db) of
             None \<Rightarrow> False | Some m \<Rightarrow> mb_state m = MemberDeleted);
          (cands, pending) = (if suppressed then ([], 0) else preview_candidates inputs db);
          (relations, conflict) = (case select_parent_candidate cands of
             Selected _ \<Rightarrow> (1, False) | Conflict _ \<Rightarrow> (0, True) | NoSelection \<Rightarrow> (0, False))
      in \<lparr>pv_suppressed = suppressed, pv_would_revive = would_revive, pv_observations = int (length inputs),
          pv_relations = relations, pv_pending = pending, pv_conflict = conflict\<rparr>)"

text \<open>\<open>ensure_thread_canonical_key\<close>: the key assigned first is never replaced.\<close>

definition ensure_thread_canonical_key ::
  "group_env \<Rightarrow> bool \<Rightarrow> int \<Rightarrow> int \<Rightarrow> string \<Rightarrow> int \<Rightarrow> 'a evidence_db_scheme
    \<Rightarrow> store_error + string \<times> 'a evidence_db_scheme" where
  "ensure_thread_canonical_key env writes_enabled t user fresh now db =
     (if \<not> writes_enabled then Inl (Bail ''ThreadGroup writes are disabled'')
      else case find_key_of_thread t db of
        Some row \<Rightarrow> Inr (ky_key row, db)
      | None \<Rightarrow> and_then (assign_key env t user fresh ''creation_uuid'' now db) (\<lambda>db'. Inr (fresh, db')))"

subsection \<open>The preview against the import\<close>

text \<open>Collecting candidates writes associations only.\<close>

lemma record_candidate_reads:
  assumes "record_candidate env t s p state i now db = Inr db'"
  shows "db_identities db' = db_identities db" "db_keys db' = db_keys db" "db_markers db' = db_markers db"
    "db_members db' = db_members db"
proof -
  have refresh: "db_identities (refresh_candidates env rows state p now db) = db_identities db
      \<and> db_keys (refresh_candidates env rows state p now db) = db_keys db
      \<and> db_markers (refresh_candidates env rows state p now db) = db_markers db
      \<and> db_members (refresh_candidates env rows state p now db) = db_members db" for rows db
    by (induction rows arbitrary: db)
      (simp_all add: update_candidate_state_def update_associations_def Let_def)
  show "db_identities db' = db_identities db" "db_keys db' = db_keys db" "db_markers db' = db_markers db"
    "db_members db' = db_members db"
    using assms refresh
    by (auto simp: record_candidate_def Let_def insert_association_def elim!: and_then_InrE split: if_splits)
qed

lemma adoptable_parent_cong:
  assumes "db_identities db' = db_identities db" "db_keys db' = db_keys db" "db_markers db' = db_markers db"
    "db_members db' = db_members db"
  shows "adoptable_parent e db' = adoptable_parent e db" "preview_candidates inputs db' = preview_candidates inputs db"
proof -
  have reads: "find_resolved k db' = find_resolved k db" "find_key_of_thread t db' = find_key_of_thread t db"
    "find_marker k db' = find_marker k db" "find_current c db' = find_current c db" for k t c
    using assms by (simp_all add: find_resolved_def find_key_of_thread_def find_marker_def find_current_def)
  show "adoptable_parent e db' = adoptable_parent e db" by (simp only: adoptable_parent_def reads)
  show "preview_candidates inputs db' = preview_candidates inputs db"
  proof (induction inputs)
    case (Cons input rest)
    then show ?case by (simp only: preview_candidates.simps reads)
  qed simp
qed

text \<open>
  Nothing stands against a parent: it has no deletion marker, its thread has a canonical key,
  and it is not a deleted member.
\<close>

definition unhindered :: "source_identity \<Rightarrow> 'a evidence_db_scheme \<Rightarrow> bool" where
  "unhindered parent db \<longleftrightarrow> find_marker (identity_key_of parent) db = None
     \<and> (case find_resolved (identity_key_of parent) db of
          None \<Rightarrow> True
        | Some resolved \<Rightarrow>
            (case find_key_of_thread (id_thread resolved) db of
               None \<Rightarrow> False
             | Some row \<Rightarrow> (case find_current (ky_key row) db of
                   None \<Rightarrow> True | Some m \<Rightarrow> mb_state m \<noteq> MemberDeleted)))"

lemma unhindered_parent:
  assumes "unhindered parent db"
  shows "adoptable_parent parent db = (case observed_endpoint_key parent of
      None \<Rightarrow> Inl None
    | Some k \<Rightarrow> (case find_resolved k db of
         None \<Rightarrow> Inl None
       | Some resolved \<Rightarrow> (case find_key_of_thread (id_thread resolved) db of
            None \<Rightarrow> Inl (Some (id_thread resolved)) | Some row \<Rightarrow> Inr (ky_key row))))"
  using assms by (auto simp: unhindered_def adoptable_parent_def observed_endpoint_key_def split: option.splits)

lemma unhindered_cong:
  assumes "db_identities db' = db_identities db" "db_keys db' = db_keys db" "db_markers db' = db_markers db"
    "db_members db' = db_members db"
  shows "unhindered e db' = unhindered e db"
proof -
  have reads: "find_resolved k db' = find_resolved k db" "find_key_of_thread t db' = find_key_of_thread t db"
    "find_marker k db' = find_marker k db" "find_current c db' = find_current c db" for k t c
    using assms by (simp_all add: find_resolved_def find_key_of_thread_def find_marker_def find_current_def)
  show ?thesis by (simp only: unhindered_def reads)
qed

lemma preview_gather:
  assumes "\<forall>x \<in> set rows. \<forall>parent. oi_parent (fst x) = Some parent \<longrightarrow> unhindered parent db"
    "gather_candidates env t s now rows db = Inr ((cands, pending), db')"
  shows "preview_candidates (map fst rows) db = (map fst cands, pending)"
  using assms
proof (induction env t s now rows db arbitrary: cands pending rule: gather_candidates.induct)
  case (2 env t s now input i rest db)
  show ?case
  proof (cases "oi_parent input")
    case None
    with 2 show ?thesis by (auto simp: case_prod_beta)
  next
    case (Some parent)
    note parent = Some
    show ?thesis
    proof (cases "promotable_source_candidate (oi_confidence input) (oi_relation_kind input) (oi_polarity input)")
      case None
      with 2 parent show ?thesis by (auto simp: case_prod_beta)
    next
      case (Some ck)
      obtain c k where ck: "ck = (c, k)" by (cases ck)
      note promoted = Some [unfolded ck]
      have free: "unhindered parent db" using "2.prems"(1) parent by simp
      note adopt = unhindered_parent [OF free]
      show ?thesis
      proof (cases "adoptable_parent parent db")
        case (Inl pt)
        from "2.prems"(2) obtain db1 n where
          rec: "record_candidate env t s pt StatePending i now db = Inr db1"
          and rest: "gather_candidates env t s now rest db1 = Inr ((cands, n), db')" and n: "pending = n + 1"
          by (auto simp: parent promoted Inl elim!: and_then_InrE)
        note reads = record_candidate_reads [OF rec]
        have "\<forall>x \<in> set rest. \<forall>parent. oi_parent (fst x) = Some parent \<longrightarrow> unhindered parent db1"
          using "2.prems"(1) by (simp add: unhindered_cong [OF reads])
        from "2.IH"(3) [OF parent promoted refl Inl rec this rest]
        have "preview_candidates (map fst rest) db = (map fst cands, n)"
          by (simp add: adoptable_parent_cong(2) [OF reads])
        with parent promoted adopt Inl n free show ?thesis
          by (auto simp: unhindered_def observed_endpoint_key_def split: option.splits if_splits)
      next
        case (Inr key)
        from "2.prems"(2) obtain cs where
          rest: "gather_candidates env t s now rest db = Inr ((cs, pending), db')"
          and cands: "cands = (\<lparr>parent_key = key, relation_type = k, cand_evidence = SourceEvidence c\<rparr>, parent, i) # cs"
          by (auto simp: parent promoted Inr elim!: and_then_InrE)
        have "\<forall>x \<in> set rest. \<forall>parent. oi_parent (fst x) = Some parent \<longrightarrow> unhindered parent db"
          using "2.prems"(1) by simp
        from "2.IH"(4) [OF parent promoted refl Inr this rest]
        have "preview_candidates (map fst rest) db = (map fst cs, pending)" .
        with parent promoted adopt Inr cands show ?thesis
          by (auto split: option.splits)
      qed
    qed
  qed
qed simp

text \<open>
  The dry run against the collection of candidates on the same tables: when nothing stands
  against the parents and the import is not suppressed, it announces as many pending candidates
  as are recorded, and a relation or a conflict exactly when the selection has one parent or
  several. The import registers the subject before it collects, which the dry run does not do:
  evidence that names the subject as its own parent is where the two differ (below).
\<close>

theorem preview_matches_gather:
  assumes "\<forall>input \<in> set inputs. \<forall>parent. oi_parent input = Some parent \<longrightarrow> unhindered parent db"
    "length ids = length inputs" "\<not> pv_suppressed (preview_import env subject inputs override db)"
    "gather_candidates env t subject now (zip inputs ids) db = Inr ((cands, pending), db')"
  shows "pv_pending (preview_import env subject inputs override db) = pending
    \<and> (pv_conflict (preview_import env subject inputs override db) \<longleftrightarrow>
        (\<exists>winners. select_parent_candidate (map fst cands) = Conflict winners))
    \<and> pv_relations (preview_import env subject inputs override db) =
        (case select_parent_candidate (map fst cands) of Selected winner \<Rightarrow> 1 | _ \<Rightarrow> 0)"
proof -
  have "\<forall>x \<in> set (zip inputs ids). \<forall>parent. oi_parent (fst x) = Some parent \<longrightarrow> unhindered parent db"
    using assms(1) by (auto dest: set_zip_leftD)
  from preview_gather [OF this assms(4)] assms(2)
  have "preview_candidates inputs db = (map fst cands, pending)" by simp
  then show ?thesis
    using assms(3) by (auto simp: preview_import_def Let_def split: candidate_selection.splits)
qed

definition sample_gather :: "evidence_db \<Rightarrow> store_error + (thread_candidate list \<times> nat) \<times> evidence_db" where
  "sample_gather = gather_candidates plain_env 13 (sample_endpoint ''c'') 60
     (zip [sample_input ''c'' (Some ''p'') ''exact'', sample_input ''c'' (Some ''z'') ''strong''] [5, 6])"

definition sample_preview :: "evidence_db \<Rightarrow> import_preview" where
  "sample_preview = preview_import plain_env (sample_endpoint ''c'')
     [sample_input ''c'' (Some ''p'') ''exact'', sample_input ''c'' (Some ''z'') ''strong''] False"

theorem preview_matches_gather_witness:
  "\<exists>cands db'. sample_gather graph_db = Inr ((cands, 1), db') \<and> pv_pending (sample_preview graph_db) = 1
     \<and> pv_relations (sample_preview graph_db) = 1"
proof -
  have "\<not> isl (sample_gather graph_db)" by code_simp
  then obtain cands pending db' where run: "sample_gather graph_db = Inr ((cands, pending), db')"
    by (auto simp: not_isl)
  have "unhindered (sample_endpoint ''p'') graph_db" "unhindered (sample_endpoint ''z'') graph_db"
    by (code_simp, code_simp)
  then have free: "\<forall>input \<in> set [sample_input ''c'' (Some ''p'') ''exact'', sample_input ''c'' (Some ''z'') ''strong''].
      \<forall>parent. oi_parent input = Some parent \<longrightarrow> unhindered parent graph_db"
    by (simp add: sample_input_def)
  have open_preview: "\<not> pv_suppressed (sample_preview graph_db)" by code_simp
  have "pv_pending (sample_preview graph_db) = pending"
    using preview_matches_gather [OF free _ open_preview [unfolded sample_preview_def] run [unfolded sample_gather_def]]
    by (simp add: sample_preview_def)
  moreover have "pv_pending (sample_preview graph_db) = 1" "pv_relations (sample_preview graph_db) = 1"
    by (code_simp, code_simp)
  ultimately show ?thesis using run by auto
qed

text \<open>
  Evidence that names a new subject as its own parent: the dry run announces a pending
  candidate, while the import, which has just registered the subject, records a conflict and
  leaves nothing pending.
\<close>

lemma preview_counts_own_parent:
  "pv_pending (preview_import plain_env (sample_endpoint ''c'') [sample_input ''c'' (Some ''c'') ''exact''] False empty_db) = 1
   \<and> (case reconcile_tx plain_env (\<lambda>_. None) 13 (sample_endpoint ''c'') [sample_input ''c'' (Some ''c'') ''exact'']
         ''run 1'' 60 7 False empty_db of
        Inr ((out, late), db) \<Rightarrow> ro_pending out = 0 \<and> map as_state (db_associations db) = [StateConflict]
      | Inl _ \<Rightarrow> False)"
  by code_simp

text \<open>
  A deletion marker on the parent is seen by the import, which leaves the candidate pending,
  and not by the dry run, which announces a relation.
\<close>

lemma preview_ignores_parent_marker:
  "let db = graph_db\<lparr>db_markers := [\<lparr>mk_identity = identity_key_of (sample_endpoint ''p''), mk_forbid = True,
         mk_recursive = False, mk_actor = ''alice'', mk_reason = None, mk_deleted_at = 20,
         mk_thread_key = Some ''p''\<rparr>]\<rparr>
   in pv_relations (sample_preview db) = 1 \<and> pv_pending (sample_preview db) = 1
     \<and> (case sample_gather db of Inr ((cands, pending), _) \<Rightarrow> cands = [] \<and> pending = 2 | Inl _ \<Rightarrow> False)"
  by code_simp

end
