(* ===== verification/Group_Operator.thy ===== *)
theory Group_Operator
  imports Group_Graph Group_Frame
begin

text \<open>
  Explicit operator commands (\<open>app/src/app/thread_group/operator.rs\<close>): merging and splitting
  groups and attaching one thread, with the audit table (\<open>infra/src/infra/thread_group/audit.rs\<close>)
  that makes a retry idempotent. The partition of a split is a JSON column: SQLite returns the
  text that was written, PostgreSQL the text of its \<open>jsonb\<close> value, which puts a space after
  every comma.
\<close>

subsection \<open>The audit table\<close>

datatype audit_detail = AuditMerge int | AuditSplit "string list list" "int list"

record audit_row =
  au_id :: int
  au_source :: int
  au_actor :: string
  au_reason :: string
  au_detail :: audit_detail
  au_created :: int

fun is_merge :: "audit_detail \<Rightarrow> bool" where
  "is_merge (AuditMerge _) = True"
| "is_merge (AuditSplit _ _) = False"

record operator_db = evidence_db +
  db_audits :: "audit_row list"

definition find_merge :: "int \<Rightarrow> 'a operator_db_scheme \<Rightarrow> audit_row option" where
  "find_merge i db = find (\<lambda>a. au_source a = i \<and> is_merge (au_detail a)) (db_audits db)"

definition find_split :: "int \<Rightarrow> 'a operator_db_scheme \<Rightarrow> audit_row option" where
  "find_split i db = find (\<lambda>a. au_source a = i \<and> \<not> is_merge (au_detail a)) (db_audits db)"

text \<open>\<open>append_merge_tx\<close> and \<open>append_split_tx\<close>: one row of each kind per source group.\<close>

definition append_audit ::
  "group_env \<Rightarrow> int \<Rightarrow> string \<Rightarrow> string \<Rightarrow> audit_detail \<Rightarrow> int \<Rightarrow> 'a operator_db_scheme
    \<Rightarrow> store_error + int \<times> 'a operator_db_scheme" where
  "append_audit env source actor reason detail now db =
     (let i = env_id env (db_drawn db)
      in if list_ex (\<lambda>a. au_id a = i) (db_audits db) then Inl (Violates ''thread_group_audit.id'')
         else if list_ex (\<lambda>a. au_source a = source \<and> is_merge (au_detail a) = is_merge detail) (db_audits db)
         then Inl (Violates ''thread_group_audit_source_group'')
         else Inr (i, db\<lparr>db_drawn := db_drawn db + 1, db_audits := db_audits db @
           [\<lparr>au_id = i, au_source = source, au_actor = actor, au_reason = reason, au_detail = detail,
             au_created = fill_updated_at env now\<rparr>]\<rparr>))"

subsection \<open>The partition column\<close>

text \<open>A byte of a JSON string.\<close>

definition json_char :: "char \<Rightarrow> string" where
  "json_char c =
     (let n = of_char c :: nat
      in if n = 34 then [CHR 0x5C, CHR 0x22]
         else if n = 92 then [CHR 0x5C, CHR 0x5C]
         else if n = 8 then [CHR 0x5C, CHR ''b'']
         else if n = 9 then [CHR 0x5C, CHR ''t'']
         else if n = 10 then [CHR 0x5C, CHR ''n'']
         else if n = 12 then [CHR 0x5C, CHR ''f'']
         else if n = 13 then [CHR 0x5C, CHR ''r'']
         else if n < 32 then [CHR 0x5C, CHR ''u'', CHR ''0'', CHR ''0'', hex_digit (n div 16), hex_digit (n mod 16)]
         else [c])"

definition json_string :: "string \<Rightarrow> string" where
  "json_string s = CHR 0x22 # concat (map json_char s) @ [CHR 0x22]"

fun json_items :: "string \<Rightarrow> string list \<Rightarrow> string" where
  "json_items sep [] = ''''"
| "json_items sep [x] = x"
| "json_items sep (x # y # rest) = x @ sep @ json_items sep (y # rest)"

definition json_list :: "string \<Rightarrow> string list \<Rightarrow> string" where
  "json_list sep xs = ''['' @ json_items sep xs @ '']''"

definition partition_text :: "string \<Rightarrow> string list list \<Rightarrow> string" where
  "partition_text sep parts = json_list sep (map (\<lambda>keys. json_list sep (map json_string keys)) parts)"

datatype backend = Sqlite | Postgres

text \<open>The text of a stored partition, as the query returns it.\<close>

definition stored_text :: "backend \<Rightarrow> string list list \<Rightarrow> string" where
  "stored_text backend parts = (case backend of
     Sqlite \<Rightarrow> partition_text '','' parts | Postgres \<Rightarrow> partition_text '', '' parts)"

definition normalize_split_partitions :: "string list list \<Rightarrow> string list list" where
  "normalize_split_partitions partitions = sort (map sort partitions)"

subsection \<open>Statements over lists\<close>

text \<open>The loop that redirects the current rows of a group.\<close>

fun redirect_all :: "group_env \<Rightarrow> string list \<Rightarrow> int \<Rightarrow> int \<Rightarrow> 'a group_db_scheme \<Rightarrow> 'a group_db_scheme" where
  "redirect_all env [] i now db = db"
| "redirect_all env (key # rest) i now db = redirect_all env rest i now (snd (redirect_current env key i now db))"

fun insert_members ::
  "group_env \<Rightarrow> member_row list \<Rightarrow> 'a group_db_scheme \<Rightarrow> store_error + 'a group_db_scheme" where
  "insert_members env [] db = Inr db"
| "insert_members env (r # rest) db = and_then (insert_member env r db) (insert_members env rest)"

fun repoint_each ::
  "group_env \<Rightarrow> int list \<Rightarrow> int \<Rightarrow> int \<Rightarrow> 'a group_db_scheme \<Rightarrow> store_error + 'a group_db_scheme" where
  "repoint_each env [] target now db = Inr db"
| "repoint_each env (i # rest) target now db =
     and_then (repoint_redirect env i target now db) (\<lambda>(_, db'). repoint_each env rest target now db')"

fun set_provenance_all ::
  "group_env \<Rightarrow> member_row list \<Rightarrow> int \<Rightarrow> 'a group_db_scheme \<Rightarrow> 'a group_db_scheme" where
  "set_provenance_all env [] now db = db"
| "set_provenance_all env (m # rest) now db = set_provenance_all env rest now
     (snd (set_role_provenance env (mb_key m) (mb_role m) ByOperator now db))"

definition list_redirected :: "'a group_db_scheme \<Rightarrow> group_row list" where
  "list_redirected db = sort_key g_id (filter (\<lambda>g. g_status g = GroupRedirected) (db_groups db))"

subsection \<open>Merging two groups\<close>

record merge_outcome =
  mo_target :: int
  mo_moved :: nat
  mo_already :: bool

definition merged_row :: "int \<Rightarrow> int \<Rightarrow> member_row \<Rightarrow> member_row" where
  "merged_row target now m = m\<lparr>mb_group := target, mb_provenance := ByOperator, mb_created := now, mb_updated := now\<rparr>"

text \<open>
  The transaction. The redirected groups are read outside of it, so before its changes.
\<close>

definition merge_tx ::
  "group_env \<Rightarrow> int \<Rightarrow> int \<Rightarrow> string \<Rightarrow> string \<Rightarrow> int \<Rightarrow> 'a operator_db_scheme
    \<Rightarrow> store_error + nat \<times> 'a operator_db_scheme" where
  "merge_tx env source target actor reason now db =
     (let source_members = list_current source db;
          target_keys = map mb_key (list_current target db);
          moved = filter (\<lambda>m. mb_key m \<notin> set target_keys) source_members;
          inbound = filter (\<lambda>g. g_redirect g = Some source) (list_redirected db)
      in and_then (insert_members env (map (merged_row target now) moved)
             (redirect_all env (map mb_key source_members) source now db)) (\<lambda>db1.
         and_then (redirect_group env source target now db1) (\<lambda>(_, db2).
         and_then (repoint_each env (map g_id inbound) target now db2) (\<lambda>db3.
         and_then (set_grouping_authority env target ByOperator now db3) (\<lambda>(_, db4).
         and_then (append_audit env source actor reason (AuditMerge target) now
             (set_provenance_all env (list_current target db4) now db4)) (\<lambda>(_, db5).
         Inr (length moved, db5)))))))"

definition merge_groups ::
  "group_env \<Rightarrow> bool \<Rightarrow> int \<Rightarrow> int \<Rightarrow> string \<Rightarrow> string \<Rightarrow> int \<Rightarrow> 'a operator_db_scheme
    \<Rightarrow> store_error + merge_outcome \<times> 'a operator_db_scheme" where
  "merge_groups env writes_enabled source target actor reason now db =
     (if \<not> writes_enabled then Inl (Bail ''ThreadGroup writes are disabled'')
      else if source = target then Inl (Bail ''cannot merge a group into itself'')
      else case find_merge source db of
        Some existing \<Rightarrow> Inr (\<lparr>mo_target = (case au_detail existing of AuditMerge t \<Rightarrow> t | _ \<Rightarrow> target),
          mo_moved = 0, mo_already = True\<rparr>, db)
      | None \<Rightarrow>
          (case find_group source db of
             None \<Rightarrow> Inl (Bail ''source group not found'')
           | Some s \<Rightarrow>
               (case find_group target db of
                  None \<Rightarrow> Inl (Bail ''target group not found'')
                | Some t \<Rightarrow>
                    if g_status s \<noteq> GroupActive \<or> g_status t \<noteq> GroupActive
                    then Inl (Bail ''merge requires two active groups'')
                    else and_then (merge_tx env source target actor reason now db) (\<lambda>(n, db').
                      Inr (\<lparr>mo_target = target, mo_moved = n, mo_already = False\<rparr>, db')))))"

subsection \<open>Splitting a group\<close>

definition as_membership :: "member_row \<Rightarrow> membership" where
  "as_membership m = \<lparr>thread_canonical_key = mb_key m, role = mb_role m, member_state = mb_state m,
     provenance = ByReconciler, deleted_at = mb_deleted_at m\<rparr>"

definition split_row :: "int \<Rightarrow> int \<Rightarrow> member_row \<Rightarrow> membership \<Rightarrow> member_row" where
  "split_row group_id now row m = \<lparr>mb_group = group_id, mb_thread = mb_thread row,
     mb_key = thread_canonical_key m, mb_user = mb_user row, mb_source = mb_source row,
     mb_scope = mb_scope row, mb_native = mb_native row, mb_role = role m, mb_state = member_state m,
     mb_provenance = ByOperator, mb_deleted_at = deleted_at m, mb_created = now, mb_updated = now\<rparr>"

fun insert_successor_members ::
  "group_env \<Rightarrow> member_row list \<Rightarrow> int \<Rightarrow> int \<Rightarrow> membership list \<Rightarrow> 'a group_db_scheme
    \<Rightarrow> store_error + 'a group_db_scheme" where
  "insert_successor_members env rows group_id now [] db = Inr db"
| "insert_successor_members env rows group_id now (m # rest) db =
     (case find (\<lambda>r. mb_key r = thread_canonical_key m) rows of
        None \<Rightarrow> Inl (Bail ''partition member lost its source row'')
      | Some row \<Rightarrow> and_then (insert_member env (split_row group_id now row m) db)
          (insert_successor_members env rows group_id now rest))"

definition successor_row :: "group_row \<Rightarrow> thread_group \<Rightarrow> int \<Rightarrow> group_row" where
  "successor_row source successor now = \<lparr>g_id = 0, g_user = g_user source,
     g_key = group_canonical_key successor, g_title = g_title source, g_status = GroupActive,
     g_authority = ByOperator, g_redirect = None, g_created = now, g_updated = now\<rparr>"

fun create_successors ::
  "group_env \<Rightarrow> member_row list \<Rightarrow> group_row \<Rightarrow> int \<Rightarrow> thread_group list \<Rightarrow> 'a group_db_scheme
    \<Rightarrow> store_error + int list \<times> 'a group_db_scheme" where
  "create_successors env rows source now [] db = Inr ([], db)"
| "create_successors env rows source now (s # rest) db =
     and_then (create_group env (successor_row source s now) db) (\<lambda>(i, db1).
     and_then (insert_successor_members env rows i now (memberships s) db1) (\<lambda>db2.
     and_then (create_successors env rows source now rest db2) (\<lambda>(is, db3).
     Inr (i # is, db3))))"

definition split_tx ::
  "group_env \<Rightarrow> group_row \<Rightarrow> string list list \<Rightarrow> string \<Rightarrow> string \<Rightarrow> int \<Rightarrow> 'a operator_db_scheme
    \<Rightarrow> store_error + int list \<times> 'a operator_db_scheme" where
  "split_tx env source partitions actor reason now db =
     (let rows = list_current (g_id source) db;
          grp = \<lparr>group_canonical_key = g_key source, status = GroupActive, memberships = map as_membership rows\<rparr>
      in case split_group (env_nfc env) (env_sha env) grp partitions of
           Inl e \<Rightarrow> Inl (Bail ''invalid split partition'')
         | Inr split \<Rightarrow>
             and_then (create_successors env rows source now (successors split)
                 (redirect_all env (map mb_key rows) (g_id source) now db)) (\<lambda>(is, db1).
             and_then (mark_split env (g_id source) now db1) (\<lambda>(_, db2).
             and_then (append_audit env (g_id source) actor reason
                 (AuditSplit (normalize_split_partitions partitions) is) now db2) (\<lambda>(_, db3).
             Inr (is, db3)))))"

text \<open>
  A split that was recorded before is recognized by the text of its partition.
\<close>

definition split_group_command ::
  "group_env \<Rightarrow> backend \<Rightarrow> bool \<Rightarrow> int \<Rightarrow> string list list \<Rightarrow> string \<Rightarrow> string \<Rightarrow> int
    \<Rightarrow> 'a operator_db_scheme \<Rightarrow> store_error + int list \<times> 'a operator_db_scheme" where
  "split_group_command env backend writes_enabled source partitions actor reason now db =
     (if \<not> writes_enabled then Inl (Bail ''ThreadGroup writes are disabled'')
      else case find_group source db of
        None \<Rightarrow> Inl (Bail ''source group not found'')
      | Some g \<Rightarrow>
          (case map_option au_detail (find_split source db) of
             Some (AuditSplit recorded successor_ids) \<Rightarrow>
               if stored_text backend recorded = partition_text '','' (normalize_split_partitions partitions)
               then Inr (successor_ids, db)
               else Inl (Bail ''source group was already split with a different partition'')
           | _ \<Rightarrow>
               if g_status g \<noteq> GroupActive then Inl (Bail ''split requires an active source group'')
               else split_tx env g partitions actor reason now db))"

subsection \<open>Attaching one thread\<close>

definition attached_row :: "int \<Rightarrow> int \<Rightarrow> string \<Rightarrow> source_identity option \<Rightarrow> int \<Rightarrow> member_row" where
  "attached_row group_id t key endpoint now =
     \<lparr>mb_group = group_id, mb_thread = Some t, mb_key = key,
      mb_user = (case endpoint of Some e \<Rightarrow> si_user_id e | None \<Rightarrow> 0),
      mb_source = map_option si_source endpoint,
      mb_scope = Option.bind endpoint (\<lambda>e. known_scope_value (si_identity_scope e)),
      mb_native = map_option si_native_id endpoint, mb_role = RoleMember, mb_state = MemberActive,
      mb_provenance = ByOperator, mb_deleted_at = None, mb_created = now, mb_updated = now\<rparr>"

definition attach_member ::
  "group_env \<Rightarrow> bool \<Rightarrow> int \<Rightarrow> int \<Rightarrow> string \<Rightarrow> source_identity option \<Rightarrow> int
    \<Rightarrow> 'a group_db_scheme \<Rightarrow> store_error + 'a group_db_scheme" where
  "attach_member env writes_enabled group_id t key endpoint now db =
     (if \<not> writes_enabled then Inl (Bail ''ThreadGroup writes are disabled'')
      else case find_group group_id db of
        None \<Rightarrow> Inl (Bail ''group not found'')
      | Some g \<Rightarrow>
          if g_status g \<noteq> GroupActive then Inl (Bail ''attach requires an active group'')
          else if find_current key db \<noteq> None then Inr db
          else and_then (insert_member env (attached_row group_id t key endpoint now) db) (\<lambda>db1.
               and_then (set_grouping_authority env group_id ByOperator now db1) (\<lambda>(_, db2). Inr db2)))"

end
