(* ===== verification/Group_Merge.thy ===== *)
theory Group_Merge
  imports Group_Operator
begin

text \<open>
  What merging groups and attaching a thread do: the exact effect on groups and members, when
  they succeed, and the graph invariant. The first part, about whole groups of rows, also
  serves the split.
\<close>

subsection \<open>Emptying a group\<close>

definition emptied :: "group_env \<Rightarrow> int \<Rightarrow> int \<Rightarrow> 'a group_db_scheme \<Rightarrow> 'a group_db_scheme" where
  "emptied env i now db = db\<lparr>db_members :=
     map (\<lambda>m. if mb_group m = i \<and> is_current m then demoted env now m else m) (db_members db)\<rparr>"

lemma redirect_all_members:
  "redirect_all env keys i now db = db\<lparr>db_members := map (\<lambda>m.
     if mb_key m \<in> set keys \<and> mb_group m = i \<and> is_current m then demoted env now m else m) (db_members db)\<rparr>"
proof (induction keys arbitrary: db)
  case (Cons key rest)
  have "map (\<lambda>m. if mb_key m \<in> set rest \<and> mb_group m = i \<and> is_current m then demoted env now m else m)
      (map (\<lambda>m. if mb_key m = key \<and> mb_group m = i \<and> is_current m then demoted env now m else m) ms)
    = map (\<lambda>m. if mb_key m \<in> set (key # rest) \<and> mb_group m = i \<and> is_current m then demoted env now m else m) ms" for ms
    by auto
  moreover have "snd (redirect_current env key i now db) = db\<lparr>db_members := map (\<lambda>m.
      if mb_key m = key \<and> mb_group m = i \<and> is_current m then demoted env now m else m) (db_members db)\<rparr>"
    by (simp add: redirect_current_eq)
  ultimately show ?case by (simp only: redirect_all.simps Cons.IH) simp
qed simp

lemma list_current_set: "set (list_current i db) = {m \<in> set (db_members db). mb_group m = i \<and> is_current m}"
  by (simp add: list_current_def)

lemma redirect_all_current:
  "redirect_all env (map mb_key (list_current i db)) i now db = emptied env i now db"
proof -
  have "mb_key m \<in> set (map mb_key (list_current i db)) \<and> mb_group m = i \<and> is_current m
      \<longleftrightarrow> mb_group m = i \<and> is_current m" if "m \<in> set (db_members db)" for m
    using that by (auto simp: list_current_set)
  then show ?thesis
    unfolding redirect_all_members emptied_def by (intro arg_cong [where f = "\<lambda>ms. db\<lparr>db_members := ms\<rparr>"] map_cong) auto
qed

lemma emptied_frame [simp]:
  "db_groups (emptied env i now db) = db_groups db" "db_relations (emptied env i now db) = db_relations db"
  "find_group j (emptied env i now db) = find_group j db"
  "group_active j (emptied env i now db) = group_active j db"
  by (simp_all add: emptied_def find_group_def group_active_def)

lemma emptied_tables:
  assumes "tables_ok db" shows "tables_ok (emptied env i now db)"
proof -
  let ?ms = "map (\<lambda>m. if mb_group m = i \<and> is_current m then demoted env now m else m) (db_members db)"
  have "filter is_current (map (\<lambda>m. if mb_group m = i \<and> is_current m then demoted env now m else m) ms)
      = filter (\<lambda>m. mb_group m \<noteq> i) (filter is_current ms)" for ms
    by (induction ms) auto
  note active = this [of "db_members db"]
  have "distinct (map mb_key (filter is_current ?ms))"
    unfolding active by (rule distinct_map_filter) (use assms in \<open>simp add: tables_ok_def\<close>)
  moreover have "list_all member_check ?ms"
    using assms by (auto simp: tables_ok_def list_all_iff intro: demoted_simps)
  ultimately show ?thesis unfolding emptied_def by (rule tables_ok_members [OF assms])
qed

lemma find_current_emptied:
  assumes "tables_ok db"
  shows "find_current k (emptied env i now db) =
    (case find_current k db of None \<Rightarrow> None | Some m \<Rightarrow> if mb_group m = i then None else Some m)"
proof -
  have rows: "x \<in> set (db_members (emptied env i now db)) \<and> is_current x
      \<longleftrightarrow> x \<in> set (db_members db) \<and> is_current x \<and> mb_group x \<noteq> i" for x
    by (auto simp: emptied_def)
  show ?thesis
  proof (cases "find_current k db")
    case None
    then have "find_current k (emptied env i now db) = None" using rows by (auto simp: find_current_None)
    with None show ?thesis by simp
  next
    case (Some m)
    then have m: "m \<in> set (db_members db)" "mb_key m = k" "is_current m"
      by (simp_all add: find_current_Some [OF assms])
    show ?thesis
    proof (cases "mb_group m = i")
      case True
      have "x = m" if "x \<in> set (db_members db)" "is_current x" "mb_key x = k" for x
        using that Some find_current_Some [OF assms, of k x] by simp
      with True rows have "find_current k (emptied env i now db) = None" by (auto simp: find_current_None)
      with Some True show ?thesis by simp
    next
      case False
      with m rows [of m] have "m \<in> set (db_members (emptied env i now db))" by blast
      then have "find_current k (emptied env i now db) = Some m"
        using m by (simp add: find_current_Some [OF emptied_tables [OF assms]])
      with Some False show ?thesis by simp
    qed
  qed
qed

subsection \<open>Inserting rows\<close>

lemma insert_members_Inr:
  "insert_members env rs db = Inr db' \<longleftrightarrow>
     list_all member_check rs \<and> distinct (map mb_key (filter is_current rs))
     \<and> (\<forall>r \<in> set rs. is_current r \<longrightarrow> find_current (mb_key r) db = None)
     \<and> db' = db\<lparr>db_members := db_members db @ map (member_stored env) rs\<rparr>"
proof (induction rs arbitrary: db)
  case (Cons r rest)
  show ?case
  proof (cases "member_check r \<and> (is_current r \<longrightarrow> find_current (mb_key r) db = None)")
    case True
    let ?db1 = "db\<lparr>db_members := db_members db @ [member_stored env r]\<rparr>"
    have step: "insert_member env r db = Inr ?db1" using True by (simp add: insert_member_Inr)
    have look: "find_current k ?db1 = (if is_current r \<and> k = mb_key r then Some (member_stored env r) else find_current k db)" for k
      by (rule find_current_insert [OF step])
    have "insert_members env (r # rest) db = insert_members env rest ?db1" using step by simp
    then show ?thesis using True by (auto simp: Cons.IH look image_iff split: if_splits)
  next
    case False
    then have "insert_member env r db \<noteq> Inr x" for x by (auto simp: insert_member_Inr)
    then have "insert_members env (r # rest) db \<noteq> Inr db'" by (auto elim!: and_then_InrE)
    with False show ?thesis by auto
  qed
qed auto

lemma insert_members_look:
  assumes "insert_members env rs db = Inr db'"
  shows "find_current k db' = (case find (\<lambda>r. mb_key r = k \<and> is_current r) rs of
      Some r \<Rightarrow> Some (member_stored env r) | None \<Rightarrow> find_current k db)"
  using assms
proof (induction rs arbitrary: db)
  case (Cons r rest)
  then obtain db1 where step: "insert_member env r db = Inr db1" and rest: "insert_members env rest db1 = Inr db'"
    by (auto elim!: and_then_InrE)
  have "find (\<lambda>x. mb_key x = mb_key r \<and> is_current x) rest = None" if "is_current r"
  proof -
    have "mb_key r \<notin> mb_key ` set (filter is_current rest)"
      using insert_members_Inr [THEN iffD1, OF Cons.prems] that by simp
    then show ?thesis by (metis (mono_tags, lifting) find_None_iff image_eqI mem_Collect_eq set_filter)
  qed
  then show ?case
    using Cons.IH [OF rest] find_current_insert [OF step] by (auto split: option.splits)
qed simp

lemma insert_members_frame:
  "insert_members env rs db = Inr db' \<Longrightarrow> db_groups db' = db_groups db \<and> db_relations db' = db_relations db"
  by (auto simp: insert_members_Inr)

lemma insert_members_tables:
  "tables_ok db \<Longrightarrow> insert_members env rs db = Inr db' \<Longrightarrow> tables_ok db'"
proof (induction rs arbitrary: db)
  case (Cons r rest)
  then show ?case by (auto elim!: and_then_InrE intro: insert_member_ok)
qed simp

lemma insert_members_placed:
  assumes "placed_ok db" "insert_members env rs db = Inr db'" "\<forall>r \<in> set rs. group_active (mb_group r) db"
  shows "placed_ok db'"
proof (rule placed_okI)
  note groups = insert_members_frame [OF assms(2), THEN conjunct1]
  show "tables_ok db'" by (rule insert_members_tables [OF placed_okD(1) [OF assms(1)] assms(2)])
  show "redirects_flat db'" using placed_okD(2) [OF assms(1)] groups_only(3) [OF groups] by simp
  fix k m assume "find_current k db' = Some m"
  then show "group_active (mb_group m) db'"
    using placed_okD(3) [OF assms(1)] assms(3) groups_only(2) [OF groups] insert_members_look [OF assms(2), of k]
    by (auto simp: find_Some_iff split: option.splits dest: nth_mem)
qed

subsection \<open>Retiring the source\<close>

lemma repoint_redirect_of_from:
  assumes "tables_ok db" "repoint_redirect_from env i old target now db = Inr (True, db')"
  shows "repoint_redirect env i target now db = Inr (True, db') \<and> tables_ok db'"
proof -
  let ?f = "\<lambda>g. g\<lparr>g_redirect := Some target, g_updated := fill_updated_at env now\<rparr>"
  let ?p = "\<lambda>g. g_id g = i \<and> g_status g = GroupRedirected \<and> g_redirect g = Some old"
  let ?q = "\<lambda>g. g_id g = i \<and> g_status g = GroupRedirected"
  note upd = assms(2) [unfolded repoint_redirect_from_def]
  have "list_ex ?p (db_groups db)" using upd by (auto simp: update_groups_Inr)
  then obtain g where g: "g \<in> set (db_groups db)" "?p g" by (auto simp: list_ex_iff)
  then have "find_group i db = Some g" by (simp add: find_group_Some [OF assms(1)])
  note same = group_same [OF assms(1) this]
  have agree: "?q h \<longleftrightarrow> ?p h" if "h \<in> set (db_groups db)" for h using same [OF that] g(2) by auto
  have "map (\<lambda>h. if ?q h then ?f h else h) (db_groups db) = map (\<lambda>h. if ?p h then ?f h else h) (db_groups db)"
    by (rule map_cong [OF refl]) (simp add: agree)
  moreover have "list_ex (\<lambda>h. ?q h \<and> \<not> group_check (?f h)) (db_groups db)
      = list_ex (\<lambda>h. ?p h \<and> \<not> group_check (?f h)) (db_groups db)"
    "list_ex ?q (db_groups db) = list_ex ?p (db_groups db)"
    by (rule list_ex_cong [OF refl], simp add: agree)+
  ultimately have "update_groups ?q ?f db = update_groups ?p ?f db" by (simp only: update_groups_def Let_def)
  moreover have "tables_ok db'"
    by (rule update_groups_ok [OF assms(1) upd]) (simp add: keeps_identity_def)
  ultimately show ?thesis using upd by (simp add: repoint_redirect_def)
qed

lemma repoint_each_of_all:
  "tables_ok db \<Longrightarrow> repoint_all env is old target now db = Inr db' \<Longrightarrow> repoint_each env is target now db = Inr db'"
proof (induction "is" arbitrary: db)
  case (Cons i rest)
  from Cons.prems(2) obtain db1 where "repoint_redirect_from env i old target now db = Inr (True, db1)"
    and rest: "repoint_all env rest old target now db1 = Inr db'"
    by (auto elim!: and_then_InrE split: if_splits)
  from repoint_redirect_of_from [OF Cons.prems(1) this(1)] Cons.IH [OF _ rest] show ?case by simp
qed simp

lemma list_redirected_inbound:
  assumes "tables_ok db"
  shows "filter (\<lambda>g. g_redirect g = Some i) (list_redirected db) = list_redirecting_to i db"
  by (simp add: list_redirected_def list_redirecting_to_def filter_sort conj_commute)

text \<open>Redirecting a group and its inbound redirects, as the merge does it.\<close>

lemma retire_source:
  assumes "placed_ok db" "group_active source db" "group_active target db" "source \<noteq> target"
    "db_groups db0 = db_groups db"
  shows "\<exists>db1. redirect_group env source target now db = Inr (True, db1)
    \<and> repoint_each env (map g_id (filter (\<lambda>g. g_redirect g = Some source) (list_redirected db0))) target now db1
      = Inr (db\<lparr>db_groups := map (retarget env source target now) (db_groups db)\<rparr>)"
proof -
  note ok = placed_okD(1) [OF assms(1)]
  obtain g where g: "find_group source db = Some g" "g_status g = GroupActive"
    using assms(2) by (auto simp: group_active_iff)
  let ?db1 = "db\<lparr>db_groups := map (retired env source target now) (db_groups db)\<rparr>"
  have "tables_ok ?db1" by (rule retired_ok [OF ok assms(4)])
  moreover have "list_redirecting_to source db = filter (\<lambda>g. g_redirect g = Some source) (list_redirected db0)"
    using list_redirected_inbound [OF ok, of source] assms(5) by (simp add: list_redirected_def)
  ultimately show ?thesis
    using redirect_group_hit [OF ok g assms(4)] repoint_each_of_all [OF _ repoint_inbound [OF ok g assms(3,4)]]
    by auto
qed

lemma retarget_placed:
  assumes "placed_ok db" "group_active target db" "source \<noteq> target"
    "\<And>k m. find_current k db = Some m \<Longrightarrow> mb_group m \<noteq> source"
  shows "placed_ok (db\<lparr>db_groups := map (retarget env source target now) (db_groups db)\<rparr>)"
proof (rule placed_okI)
  note ok = placed_okD [OF assms(1)]
  show "tables_ok (db\<lparr>db_groups := map (retarget env source target now) (db_groups db)\<rparr>)"
    by (rule retarget_tables_ok [OF ok(1) assms(2,3)])
  show "redirects_flat (db\<lparr>db_groups := map (retarget env source target now) (db_groups db)\<rparr>)"
    by (rule retarget_flat [OF ok(1,2) assms(2,3)])
  fix k m assume "find_current k (db\<lparr>db_groups := map (retarget env source target now) (db_groups db)\<rparr>) = Some m"
  then have m: "find_current k db = Some m" by simp
  show "group_active (mb_group m) (db\<lparr>db_groups := map (retarget env source target now) (db_groups db)\<rparr>)"
    by (rule retarget_active [OF ok(3) [OF m] assms(4) [OF m]])
qed

lemma db_groups_updated: "db_groups (db\<lparr>db_groups := gs\<rparr>) = gs"
  by simp

lemma redirects_flat_map:
  assumes "keeps_identity f" "\<And>g. g_redirect (f g) = g_redirect g"
  shows "redirects_flat (db\<lparr>db_groups := map f (db_groups db)\<rparr>) = redirects_flat db"
  unfolding redirects_flat_def find_group_map [OF assms(1)] case_map_option comp_def
  by (simp only: list.pred_map comp_def assms(2) db_groups_updated)

text \<open>An update that keeps identities, status and redirects.\<close>

lemma map_groups_placed:
  assumes "placed_ok db" "keeps_identity f" "\<And>g. g_status (f g) = g_status g \<and> g_redirect (f g) = g_redirect g"
  shows "placed_ok (db\<lparr>db_groups := map f (db_groups db)\<rparr>)"
    "group_active i (db\<lparr>db_groups := map f (db_groups db)\<rparr>) = group_active i db"
proof -
  note ok = placed_okD [OF assms(1)]
  show active: "group_active i (db\<lparr>db_groups := map f (db_groups db)\<rparr>) = group_active i db" for i
    unfolding group_active_def find_group_map [OF assms(2)] case_map_option comp_def by (simp only: assms(3))
  show "placed_ok (db\<lparr>db_groups := map f (db_groups db)\<rparr>)"
  proof (rule placed_okI)
    have "group_check (f g)" if "g \<in> set (db_groups db)" for g
      using that ok(1) assms(2,3) by (simp add: tables_ok_def list_all_iff group_check_def)
    then show "tables_ok (db\<lparr>db_groups := map f (db_groups db)\<rparr>)" by (rule map_groups_ok [OF ok(1) assms(2)])
    have "redirects_flat (db\<lparr>db_groups := map f (db_groups db)\<rparr>) = redirects_flat db"
      by (rule redirects_flat_map [OF assms(2)]) (simp add: assms(3))
    with ok(2) show "redirects_flat (db\<lparr>db_groups := map f (db_groups db)\<rparr>)" by simp
    fix k m assume "find_current k (db\<lparr>db_groups := map f (db_groups db)\<rparr>) = Some m"
    then have "find_current k db = Some m" by simp
    from ok(3) [OF this] show "group_active (mb_group m) (db\<lparr>db_groups := map f (db_groups db)\<rparr>)" by (simp only: active)
  qed
qed

subsection \<open>Fixing the members of the target\<close>

definition fixed_member :: "group_env \<Rightarrow> int \<Rightarrow> member_row \<Rightarrow> member_row" where
  "fixed_member env now m = m\<lparr>mb_provenance := ByOperator, mb_updated := fill_updated_at env now\<rparr>"

lemma fixed_member_simps [simp]:
  "mb_key (fixed_member env now m) = mb_key m" "mb_group (fixed_member env now m) = mb_group m"
  "mb_role (fixed_member env now m) = mb_role m" "mb_state (fixed_member env now m) = mb_state m"
  "mb_provenance (fixed_member env now m) = ByOperator" "is_current (fixed_member env now m) = is_current m"
  "member_check (fixed_member env now m) = member_check m" "mb_thread (fixed_member env now m) = mb_thread m"
  "mb_deleted_at (fixed_member env now m) = mb_deleted_at m"
  by (simp_all add: fixed_member_def is_current_def member_check_def split: membership_state.split)

lemma fixed_member_twice [simp]: "fixed_member env now (fixed_member env now m) = fixed_member env now m"
  by (simp add: fixed_member_def)

lemma set_role_provenance_own:
  assumes "tables_ok db" "find_current k db = Some m" "mb_role m = r"
  shows "snd (set_role_provenance env k r ByOperator now db) = db\<lparr>db_members :=
    map (\<lambda>x. if mb_key x = k \<and> is_current x then fixed_member env now x else x) (db_members db)\<rparr>"
proof -
  have "x = m" if "x \<in> set (db_members db)" "mb_key x = k" "is_current x" for x
    using that assms(2) find_current_Some [OF assms(1), of k x] by simp
  then have "map (\<lambda>x. if mb_key x = k \<and> is_current x
        then x\<lparr>mb_role := r, mb_provenance := ByOperator, mb_updated := fill_updated_at env now\<rparr> else x) (db_members db)
      = map (\<lambda>x. if mb_key x = k \<and> is_current x then fixed_member env now x else x) (db_members db)"
    using assms(3) by (intro map_cong) (auto simp: fixed_member_def)
  then show ?thesis by (simp add: set_role_provenance_def Let_def)
qed

lemma map_members_ok:
  assumes "tables_ok db" "\<And>x. mb_key (f x) = mb_key x" "\<And>x. is_current (f x) = is_current x"
    "\<And>x. member_check (f x) = member_check x"
  shows "tables_ok (db\<lparr>db_members := map f (db_members db)\<rparr>)"
    "find_current k (db\<lparr>db_members := map f (db_members db)\<rparr>) = map_option f (find_current k db)"
proof -
  have "map mb_key (filter is_current (map f ms)) = map mb_key (filter is_current ms)" for ms
    by (induction ms) (simp_all add: assms)
  then have "distinct (map mb_key (filter is_current (map f (db_members db))))"
    using assms(1) by (simp only: tables_ok_def)
  moreover have "list_all member_check (map f (db_members db))"
    using assms(1,4) by (simp add: tables_ok_def list_all_iff)
  ultimately show "tables_ok (db\<lparr>db_members := map f (db_members db)\<rparr>)" by (rule tables_ok_members [OF assms(1)])
  show "find_current k (db\<lparr>db_members := map f (db_members db)\<rparr>) = map_option f (find_current k db)"
    by (simp add: find_current_def) (rule find_map_keep, simp add: assms)
qed

lemma set_provenance_all_eq:
  assumes "tables_ok db" "\<forall>r \<in> set rs. \<exists>m. find_current (mb_key r) db = Some m \<and> mb_role m = mb_role r"
  shows "set_provenance_all env rs now db = db\<lparr>db_members :=
    map (\<lambda>x. if mb_key x \<in> mb_key ` set rs \<and> is_current x then fixed_member env now x else x) (db_members db)\<rparr>"
  using assms
proof (induction rs arbitrary: db)
  case (Cons r rest)
  let ?f = "\<lambda>x. if mb_key x = mb_key r \<and> is_current x then fixed_member env now x else x"
  let ?db1 = "db\<lparr>db_members := map ?f (db_members db)\<rparr>"
  have step: "snd (set_role_provenance env (mb_key r) (mb_role r) ByOperator now db) = ?db1"
    using Cons.prems set_role_provenance_own by auto
  have ok: "tables_ok ?db1" by (rule map_members_ok [OF Cons.prems(1)]) simp_all
  have look: "find_current k ?db1 = map_option ?f (find_current k db)" for k
    by (rule map_members_ok(2) [OF Cons.prems(1)]) simp_all
  have "\<exists>m. find_current (mb_key x) ?db1 = Some m \<and> mb_role m = mb_role x" if x: "x \<in> set rest" for x
  proof -
    obtain m where "find_current (mb_key x) db = Some m" "mb_role m = mb_role x" using Cons.prems(2) x by auto
    then show ?thesis by (simp add: look)
  qed
  then have "\<forall>r \<in> set rest. \<exists>m. find_current (mb_key r) ?db1 = Some m \<and> mb_role m = mb_role r" by blast
  from Cons.IH [OF ok this] step
  have "set_provenance_all env (r # rest) now db = ?db1\<lparr>db_members :=
      map (\<lambda>x. if mb_key x \<in> mb_key ` set rest \<and> is_current x then fixed_member env now x else x) (db_members ?db1)\<rparr>"
    by simp
  moreover have "map (\<lambda>x. if mb_key x \<in> mb_key ` set rest \<and> is_current x then fixed_member env now x else x) (map ?f ms)
      = map (\<lambda>x. if mb_key x \<in> mb_key ` set (r # rest) \<and> is_current x then fixed_member env now x else x) ms" for ms
    by auto
  note this [of "db_members db"]
  ultimately show ?case by (simp del: map_map)
qed simp

lemma fix_group_members:
  assumes "tables_ok db"
  shows "set_provenance_all env (list_current i db) now db = db\<lparr>db_members :=
    map (\<lambda>x. if mb_group x = i \<and> is_current x then fixed_member env now x else x) (db_members db)\<rparr>"
proof -
  have current: "find_current (mb_key r) db = Some r" if "r \<in> set (list_current i db)" for r
    using that by (simp add: list_current_set find_current_Some [OF assms])
  have "mb_key x \<in> mb_key ` set (list_current i db) \<and> is_current x \<longleftrightarrow> mb_group x = i \<and> is_current x"
    if "x \<in> set (db_members db)" for x
  proof
    assume x: "mb_key x \<in> mb_key ` set (list_current i db) \<and> is_current x"
    then obtain r where "r \<in> set (list_current i db)" "mb_key r = mb_key x" by auto
    with x that current [of r] find_current_Some [OF assms, of "mb_key x" x] have "x = r" by simp
    with \<open>r \<in> set (list_current i db)\<close> x show "mb_group x = i \<and> is_current x" by (simp add: list_current_set)
  qed (use that in \<open>auto simp: list_current_set\<close>)
  then show ?thesis
    using current by (subst set_provenance_all_eq [OF assms]) (auto intro!: arg_cong [where f = "\<lambda>ms. db\<lparr>db_members := ms\<rparr>"])
qed

subsection \<open>The members of a merge\<close>

lemma list_current_distinct:
  assumes "tables_ok db" shows "distinct (map mb_key (list_current i db))"
proof -
  have base: "distinct (map mb_key (filter is_current (db_members db)))" using assms by (simp add: tables_ok_def)
  have "filter (\<lambda>m. mb_group m = i \<and> is_current m) ms = filter (\<lambda>m. mb_group m = i) (filter is_current ms)" for ms
    by (simp add: conj_commute)
  then have "distinct (map mb_key (filter (\<lambda>m. mb_group m = i \<and> is_current m) (db_members db)))"
    by (simp only:) (rule distinct_map_filter [OF base])
  then show ?thesis by (simp add: list_current_def distinct_map)
qed

lemma find_list_current:
  assumes "tables_ok db"
  shows "find (\<lambda>r. mb_key r = k \<and> is_current r) (list_current i db) =
    (case find_current k db of None \<Rightarrow> None | Some m \<Rightarrow> if mb_group m = i then Some m else None)"
proof (cases "find (\<lambda>r. mb_key r = k \<and> is_current r) (list_current i db)")
  case None
  have "mb_group m \<noteq> i" if "find_current k db = Some m" for m
  proof
    assume "mb_group m = i"
    with that have "m \<in> set (list_current i db)" "mb_key m = k" "is_current m"
      by (simp_all add: list_current_set find_current_Some [OF assms])
    with None show False by (metis (mono_tags, lifting) find_None_iff)
  qed
  with None show ?thesis by (simp split: option.split)
next
  case (Some r)
  then have "r \<in> set (list_current i db)" "mb_key r = k"
    by (metis (mono_tags, lifting) find_Some_iff nth_mem)+
  then have "find_current k db = Some r" "mb_group r = i"
    by (simp_all add: list_current_set find_current_Some [OF assms])
  with Some show ?thesis by simp
qed

lemma merged_row_simps [simp]:
  "mb_key (merged_row target now m) = mb_key m" "mb_group (merged_row target now m) = target"
  "mb_state (merged_row target now m) = mb_state m" "mb_role (merged_row target now m) = mb_role m"
  "mb_thread (merged_row target now m) = mb_thread m" "mb_provenance (merged_row target now m) = ByOperator"
  "is_current (merged_row target now m) = is_current m"
  "member_check (merged_row target now m) = member_check m"
  by (simp_all add: merged_row_def is_current_def member_check_def split: membership_state.split)

lemma list_current_check: "tables_ok db \<Longrightarrow> m \<in> set (list_current i db) \<Longrightarrow> member_check m"
  by (simp add: list_current_set tables_ok_def list_all_iff)

lemma insert_emptied:
  assumes "tables_ok db"
    "\<And>m. m \<in> set (list_current i db) \<Longrightarrow> mb_key (f m) = mb_key m \<and> is_current (f m) = is_current m \<and> member_check (f m)"
  shows "\<exists>db1. insert_members env (map f (list_current i db)) (emptied env i now db) = Inr db1"
proof -
  have "map mb_key (filter is_current (map f rs)) = map mb_key (filter is_current rs)"
    if "\<forall>m \<in> set rs. mb_key (f m) = mb_key m \<and> is_current (f m) = is_current m" for rs
    using that by (induction rs) auto
  from this [of "list_current i db"]
  have "map mb_key (filter is_current (map f (list_current i db))) = map mb_key (filter is_current (list_current i db))"
    using assms(2) by blast
  then have "distinct (map mb_key (filter is_current (map f (list_current i db))))"
    by (simp only:) (rule distinct_map_filter [OF list_current_distinct [OF assms(1)]])
  moreover have "find_current (mb_key m) (emptied env i now db) = None" if "m \<in> set (list_current i db)" for m
  proof -
    have "find_current (mb_key m) db = Some m" "mb_group m = i"
      using that by (simp_all add: list_current_set find_current_Some [OF assms(1)])
    then show ?thesis by (simp add: find_current_emptied [OF assms(1)])
  qed
  then have "\<forall>r \<in> set (map f (list_current i db)). is_current r \<longrightarrow>
      find_current (mb_key r) (emptied env i now db) = None" using assms(2) by auto
  moreover have "list_all member_check (map f (list_current i db))" using assms(2) by (auto simp: list_all_iff)
  ultimately show ?thesis unfolding insert_members_Inr by blast
qed

lemma look_inserted:
  assumes "tables_ok db" "insert_members env (map f (list_current i db)) (emptied env i now db) = Inr db1"
    "\<And>m. m \<in> set (list_current i db) \<Longrightarrow> mb_key (f m) = mb_key m \<and> is_current (f m) = is_current m"
  shows "find_current k db1 = map_option (\<lambda>m. if mb_group m = i then member_stored env (f m) else m) (find_current k db)"
proof -
  have "find (\<lambda>r. mb_key r = k \<and> is_current r) (map f (list_current i db))
      = map_option f (find (\<lambda>r. mb_key r = k \<and> is_current r) (list_current i db))"
    by (rule find_map_keep) (simp add: assms(3))
  then show ?thesis
    using insert_members_look [OF assms(2), of k]
    by (simp add: find_list_current [OF assms(1)] find_current_emptied [OF assms(1)] split: option.split)
qed

subsection \<open>Merging\<close>

definition merged_member :: "group_env \<Rightarrow> int \<Rightarrow> int \<Rightarrow> int \<Rightarrow> member_row \<Rightarrow> member_row" where
  "merged_member env source target now m =
     (if mb_group m = source then fixed_member env now (member_stored env (merged_row target now m))
      else if mb_group m = target then fixed_member env now m else m)"

lemma nobody_in_both:
  assumes "tables_ok db" "source \<noteq> target"
  shows "filter (\<lambda>m. mb_key m \<notin> set (map mb_key (list_current target db))) (list_current source db) = list_current source db"
proof -
  have "mb_key m \<notin> mb_key ` set (list_current target db)" if m: "m \<in> set (list_current source db)" for m
  proof
    assume "mb_key m \<in> mb_key ` set (list_current target db)"
    then obtain x where "x \<in> set (list_current target db)" "mb_key x = mb_key m" by auto
    with m have "find_current (mb_key m) db = Some m" "find_current (mb_key m) db = Some x" "mb_group m = source"
      "mb_group x = target"
      by (simp_all add: list_current_set find_current_Some [OF assms(1)])
    with assms(2) show False by simp
  qed
  then show ?thesis by (simp add: filter_id_conv)
qed

lemma append_audit_Inr:
  "append_audit env source actor reason detail now db = Inr (i, db') \<longleftrightarrow>
     i = env_id env (db_drawn db) \<and> list_all (\<lambda>a. au_id a \<noteq> i) (db_audits db)
     \<and> list_all (\<lambda>a. au_source a = source \<longrightarrow> is_merge (au_detail a) \<noteq> is_merge detail) (db_audits db)
     \<and> db' = db\<lparr>db_drawn := db_drawn db + 1, db_audits := db_audits db @
         [\<lparr>au_id = i, au_source = source, au_actor = actor, au_reason = reason, au_detail = detail,
           au_created = fill_updated_at env now\<rparr>]\<rparr>"
  by (auto simp: append_audit_def Let_def list_ex_iff list_all_iff)

lemma append_audit_same [evidence_only]:
  "append_audit env source actor reason detail now db = Inr (i, db') \<Longrightarrow> same_graph db db'"
  by (auto simp: append_audit_Inr same_graph_def)

text \<open>What a merge makes of a group row.\<close>

definition merged_group :: "group_env \<Rightarrow> int \<Rightarrow> int \<Rightarrow> int \<Rightarrow> group_row \<Rightarrow> group_row" where
  "merged_group env source target now g =
     (if g_id g = source then g\<lparr>g_status := GroupRedirected, g_redirect := Some target, g_updated := fill_updated_at env now\<rparr>
      else if g_redirect g = Some source then g\<lparr>g_redirect := Some target, g_updated := fill_updated_at env now\<rparr>
      else if g_id g = target then g\<lparr>g_authority := ByOperator, g_updated := fill_updated_at env now\<rparr>
      else g)"

text \<open>The tables right before the audit row is written.\<close>

lemma merge_moves:
  assumes "placed_ok db" "group_active source db" "group_active target db" "source \<noteq> target"
  shows "\<exists>db1 db2 db3 db4.
    insert_members env (map (merged_row target now) (list_current source db))
      (redirect_all env (map mb_key (list_current source db)) source now db) = Inr db1
    \<and> redirect_group env source target now db1 = Inr (True, db2)
    \<and> repoint_each env (map g_id (filter (\<lambda>g. g_redirect g = Some source) (list_redirected db))) target now db2 = Inr db3
    \<and> set_grouping_authority env target ByOperator now db3 = Inr (True, db4)
    \<and> placed_ok (set_provenance_all env (list_current target db4) now db4)
    \<and> (\<forall>k. find_current k (set_provenance_all env (list_current target db4) now db4) =
        map_option (merged_member env source target now) (find_current k db))
    \<and> db_relations db4 = db_relations db
    \<and> db_groups db4 = map (merged_group env source target now) (db_groups db)
    \<and> group_db.more (set_provenance_all env (list_current target db4) now db4) = group_db.more db
    \<and> db_drawn (set_provenance_all env (list_current target db4) now db4) = db_drawn db"
proof -
  note ok = placed_okD(1) [OF assms(1)]
  obtain db1 where db1: "insert_members env (map (merged_row target now) (list_current source db))
      (emptied env source now db) = Inr db1"
    using insert_emptied [OF ok, where f = "merged_row target now" and i = source and env = env and now = now]
      list_current_check [OF ok] by (metis merged_row_simps(1,7,8))
  have look1: "find_current k db1 =
      map_option (\<lambda>m. if mb_group m = source then member_stored env (merged_row target now m) else m) (find_current k db)" for k
    by (rule look_inserted [OF ok db1]) simp
  have groups1: "db_groups db1 = db_groups db" "db_relations db1 = db_relations db"
    using insert_members_frame [OF db1] by simp_all
  note active1 = groups_only(2) [OF groups1(1)]
  have placed1: "placed_ok db1"
  proof (rule placed_okI)
    show "tables_ok db1" by (rule insert_members_tables [OF emptied_tables [OF ok] db1])
    show "redirects_flat db1" using placed_okD(2) [OF assms(1)] groups_only(3) [OF groups1(1)] by simp
    fix k m assume "find_current k db1 = Some m"
    then show "group_active (mb_group m) db1"
      using placed_okD(3) [OF assms(1), of k] assms(3) by (auto simp: look1 active1 split: if_splits)
  qed
  have free: "mb_group m \<noteq> source" if found: "find_current k db1 = Some m" for k m
  proof -
    obtain x where "(if mb_group x = source then member_stored env (merged_row target now x) else x) = m"
      using found unfolding look1 map_option_eq_Some by metis
    from this [symmetric] show ?thesis using assms(4) by simp
  qed
  let ?db3 = "db1\<lparr>db_groups := map (retarget env source target now) (db_groups db1)\<rparr>"
  have here: "group_active source db1" "group_active target db1" by (simp_all only: active1 assms(2,3))
  obtain db2 where db2: "redirect_group env source target now db1 = Inr (True, db2)"
    "repoint_each env (map g_id (filter (\<lambda>g. g_redirect g = Some source) (list_redirected db))) target now db2 = Inr ?db3"
    using retire_source [OF placed1 here assms(4) groups1(1) [symmetric], where env = env and now = now] by blast
  have placed3: "placed_ok ?db3" by (rule retarget_placed [OF placed1 _ assms(4) free]) (simp_all add: active1 assms(3))
  have target3: "group_active target ?db3"
    using retarget_active [of target db1 source env target now] assms(3,4) active1 by simp
  let ?auth = "\<lambda>g. if g_id g = target then g\<lparr>g_authority := ByOperator, g_updated := fill_updated_at env now\<rparr> else g"
  let ?db4 = "?db3\<lparr>db_groups := map ?auth (db_groups ?db3)\<rparr>"
  have keeps: "keeps_identity ?auth" by (simp add: keeps_identity_def)
  have check: "group_check (?auth g)" if "g \<in> set (db_groups ?db3)" for g
    using that placed_okD(1) [OF placed3] by (auto simp: tables_ok_def list_all_iff group_check_def)
  obtain t where t: "find_group target ?db3 = Some t" "g_status t = GroupActive"
    using target3 by (auto simp: group_active_iff)
  have hit: "list_ex (\<lambda>g. g_id g = target) (db_groups ?db3)"
    unfolding list_ex_iff using find_in_groups [OF t(1)] by blast
  have db4: "set_grouping_authority env target ByOperator now ?db3 = Inr (True, ?db4)"
    unfolding set_grouping_authority_def update_groups_Inr
  proof (intro conjI ballI impI refl)
    fix g
    assume "g \<in> set (db_groups ?db3)" "g_id g = target"
    with check [OF this(1)] show "group_check (g\<lparr>g_authority := ByOperator, g_updated := fill_updated_at env now\<rparr>)"
      by simp
  qed (simp only: hit)
  have same4: "g_status (?auth g) = g_status g \<and> g_redirect (?auth g) = g_redirect g" for g by simp
  have placed4: "placed_ok ?db4" by (rule map_groups_placed [OF placed3 keeps same4])
  let ?fix = "\<lambda>x. if mb_group x = target \<and> is_current x then fixed_member env now x else x"
  have final: "set_provenance_all env (list_current target ?db4) now ?db4 = ?db4\<lparr>db_members := map ?fix (db_members ?db4)\<rparr>"
    by (rule fix_group_members [OF placed_okD(1) [OF placed4]])
  have look: "find_current k (?db4\<lparr>db_members := map ?fix (db_members ?db4)\<rparr>) = map_option ?fix (find_current k ?db4)" for k
    by (rule map_members_ok(2) [OF placed_okD(1) [OF placed4]]) simp_all
  have placed5: "placed_ok (?db4\<lparr>db_members := map ?fix (db_members ?db4)\<rparr>)"
  proof (rule placed_okI)
    show "tables_ok (?db4\<lparr>db_members := map ?fix (db_members ?db4)\<rparr>)"
      by (rule map_members_ok(1) [OF placed_okD(1) [OF placed4]]) simp_all
    have same: "db_groups (?db4\<lparr>db_members := map ?fix (db_members ?db4)\<rparr>) = db_groups ?db4" by simp
    show "redirects_flat (?db4\<lparr>db_members := map ?fix (db_members ?db4)\<rparr>)"
      using placed_okD(2) [OF placed4] groups_only(3) [OF same] by simp
    fix k m assume "find_current k (?db4\<lparr>db_members := map ?fix (db_members ?db4)\<rparr>) = Some m"
    then obtain x where "find_current k ?db4 = Some x" "mb_group m = mb_group x" unfolding look by (auto split: if_splits)
    with placed_okD(3) [OF placed4] show "group_active (mb_group m) (?db4\<lparr>db_members := map ?fix (db_members ?db4)\<rparr>)"
      using groups_only(2) [OF same] by simp
  qed
  have members: "find_current k (?db4\<lparr>db_members := map ?fix (db_members ?db4)\<rparr>)
      = map_option (merged_member env source target now) (find_current k db)" for k
  proof (cases "find_current k db")
    case (Some m)
    then have "is_current m" by (simp add: find_current_Some [OF ok])
    with Some show ?thesis unfolding look by (simp add: look1 merged_member_def)
  qed (simp only: look, simp add: look1)
  have relations: "db_relations ?db4 = db_relations db" by (simp add: groups1(2))
  have "?auth (retarget env source target now g) = merged_group env source target now g" if "g \<in> set (db_groups db)" for g
  proof -
    have "g_redirect g = None" if "g_id g = target"
      using assms(3) group_same [OF ok _ \<open>g \<in> set (db_groups db)\<close>, of target] active_no_redirect [OF ok] that
      by (auto simp: group_active_iff)
    then show ?thesis using assms(4) by (auto simp: merged_group_def retarget_def)
  qed
  then have redirected: "db_groups ?db4 = map (merged_group env source target now) (db_groups db)" by (simp add: groups1(1))
  have more1: "group_db.more db1 = group_db.more db" "db_drawn db1 = db_drawn db"
    using insert_members_Inr [THEN iffD1, OF db1] by (auto simp: emptied_def)
  have rest: "group_db.more (?db4\<lparr>db_members := map ?fix (db_members ?db4)\<rparr>) = group_db.more db"
    "db_drawn (?db4\<lparr>db_members := map ?fix (db_members ?db4)\<rparr>) = db_drawn db"
    by (simp_all add: more1)
  show ?thesis
    unfolding redirect_all_current
    by (rule exI [of _ db1], rule exI [of _ db2], rule exI [of _ ?db3], rule exI [of _ ?db4], unfold final,
        intro conjI allI db1 db2 db4 placed5 members relations redirected rest)
qed

lemma group_more_audits:
  assumes "group_db.more db' = group_db.more db"
  shows "db_audits (db' :: 'a operator_db_scheme) = db_audits db" "find_merge i db' = find_merge i db"
proof -
  show "db_audits db' = db_audits db" using assms by (cases db; cases db'; simp)
  then show "find_merge i db' = find_merge i db" by (simp add: find_merge_def)
qed

lemma find_merge_None:
  "find_merge i db = None \<longleftrightarrow> list_all (\<lambda>a. au_source a = i \<longrightarrow> \<not> is_merge (au_detail a)) (db_audits db)"
  by (auto simp: find_merge_def find_None_iff list_all_iff)

lemma set_provenance_frame [simp]:
  "db_groups (set_provenance_all env rs now db) = db_groups db"
  "db_relations (set_provenance_all env rs now db) = db_relations db"
  by (induction rs arbitrary: db) (simp_all add: set_role_provenance_def Let_def)

lemma merge_tx_result:
  assumes "placed_ok db" "group_active source db" "group_active target db" "source \<noteq> target"
  obtains db5 where "merge_tx env source target actor reason now db =
      and_then (append_audit env source actor reason (AuditMerge target) now db5)
        (\<lambda>(_, db6). Inr (count_current source db, db6))"
    "placed_ok db5" "\<And>k. find_current k db5 = map_option (merged_member env source target now) (find_current k db)"
    "db_relations db5 = db_relations db" "db_groups db5 = map (merged_group env source target now) (db_groups db)"
    "db_audits db5 = db_audits db" "db_drawn db5 = db_drawn db"
proof -
  obtain db1 db2 db3 db4 where steps:
    "insert_members env (map (merged_row target now) (list_current source db))
      (redirect_all env (map mb_key (list_current source db)) source now db) = Inr db1"
    "redirect_group env source target now db1 = Inr (True, db2)"
    "repoint_each env (map g_id (filter (\<lambda>g. g_redirect g = Some source) (list_redirected db))) target now db2 = Inr db3"
    "set_grouping_authority env target ByOperator now db3 = Inr (True, db4)"
    and result: "placed_ok (set_provenance_all env (list_current target db4) now db4)"
      "\<forall>k. find_current k (set_provenance_all env (list_current target db4) now db4) =
        map_option (merged_member env source target now) (find_current k db)"
      "db_relations db4 = db_relations db" "db_groups db4 = map (merged_group env source target now) (db_groups db)"
      "group_db.more (set_provenance_all env (list_current target db4) now db4) = group_db.more db"
      "db_drawn (set_provenance_all env (list_current target db4) now db4) = db_drawn db"
    using merge_moves [OF assms, of env now] by blast
  let ?db5 = "set_provenance_all env (list_current target db4) now db4"
  have count: "length (list_current source db) = count_current source db"
    by (simp add: list_current_def count_current_def)
  have "merge_tx env source target actor reason now db =
      and_then (append_audit env source actor reason (AuditMerge target) now ?db5)
        (\<lambda>(_, db6). Inr (count_current source db, db6))"
    unfolding merge_tx_def Let_def nobody_in_both [OF placed_okD(1) [OF assms(1)] assms(4)]
    by (simp add: steps count)
  moreover have "db_groups ?db5 = map (merged_group env source target now) (db_groups db)" using result(4) by simp
  ultimately show thesis
    using that [of ?db5] result group_more_audits(1) [OF result(5)] by simp
qed

lemma merge_groups_new:
  assumes "merge_groups env enabled source target actor reason now db = Inr (out, db')" "\<not> mo_already out"
  shows "group_active source db" "group_active target db" "source \<noteq> target" "enabled" "find_merge source db = None"
    "\<exists>n. merge_tx env source target actor reason now db = Inr (n, db') \<and> mo_moved out = n" "mo_target out = target"
  using assms
  by (auto simp: merge_groups_def group_active_iff elim!: and_then_InrE split: option.splits if_splits)

text \<open>
  C20. Merging a group into another moves every member of the source, active or deleted, to the
  target with its role and state, and makes all members of the target operator-fixed. Of the
  groups, the source and everything that was redirected to it redirect to the target, the
  target becomes authoritative by an operator, and every other row is as before; no relation
  changes, one audit row is added, and the graph invariant holds again.
\<close>

theorem merge_groups_correct:
  assumes "graph_ok db" "merge_groups env enabled source target actor reason now db = Inr (out, db')"
    "\<not> mo_already out"
  shows "graph_ok db' \<and> mo_moved out = count_current source db
    \<and> find_current k db' = map_option (merged_member env source target now) (find_current k db)
    \<and> db_groups db' = map (merged_group env source target now) (db_groups db)
    \<and> db_relations db' = db_relations db
    \<and> db_audits db' = db_audits db @ [\<lparr>au_id = env_id env (db_drawn db), au_source = source, au_actor = actor,
        au_reason = reason, au_detail = AuditMerge target, au_created = fill_updated_at env now\<rparr>]"
proof -
  note new = merge_groups_new [OF assms(2,3)]
  have placed: "placed_ok db" using assms(1) by (simp add: graph_ok_def)
  from new(6) obtain n where run: "merge_tx env source target actor reason now db = Inr (n, db')" "mo_moved out = n"
    by blast
  show ?thesis
  proof (rule merge_tx_result [OF placed new(1-3), of env actor reason now])
    fix db5
    assume tx: "merge_tx env source target actor reason now db =
      and_then (append_audit env source actor reason (AuditMerge target) now db5)
        (\<lambda>(_, db6). Inr (count_current source db, db6))"
      and db5: "placed_ok db5" "\<And>k. find_current k db5 = map_option (merged_member env source target now) (find_current k db)"
        "db_relations db5 = db_relations db" "db_groups db5 = map (merged_group env source target now) (db_groups db)"
        "db_audits db5 = db_audits db" "db_drawn db5 = db_drawn db"
    from run(1) [unfolded tx] obtain i where audit: "append_audit env source actor reason (AuditMerge target) now db5 = Inr (i, db')"
      and n: "n = count_current source db" by (auto elim!: and_then_InrE)
    have same: "same_graph db5 db'" by (rule append_audit_same [OF audit])
    have "graph_ok db5" using assms(1) db5(1,3) by (simp add: graph_ok_def active_edges_def)
    then have "graph_ok db'" by (rule graph_ok_same [OF same])
    moreover have "db_groups db' = db_groups db5" "db_relations db' = db_relations db5" using same by (simp_all add: same_graph_def)
    moreover have "db_audits db' = db_audits db5 @ [\<lparr>au_id = env_id env (db_drawn db5), au_source = source, au_actor = actor,
        au_reason = reason, au_detail = AuditMerge target, au_created = fill_updated_at env now\<rparr>]"
      using audit by (simp add: append_audit_Inr)
    ultimately show ?thesis using db5 run(2) n by (simp add: find_current_same [OF same])
  qed
qed

text \<open>
  When a merge succeeds: writes are enabled, the groups differ, and either the source was
  merged before, which is reported again without any change, or both groups are active. No
  other check of the transaction can fail, as long as the drawn audit id is new.
\<close>

theorem merge_groups_succeeds_iff:
  assumes "placed_ok db" "list_all (\<lambda>a. au_id a \<noteq> env_id env (db_drawn db)) (db_audits db)"
  shows "\<not> isl (merge_groups env enabled source target actor reason now db) \<longleftrightarrow>
    enabled \<and> source \<noteq> target
    \<and> (find_merge source db \<noteq> None \<or> group_active source db \<and> group_active target db)"
proof (cases "enabled \<and> source \<noteq> target \<and> find_merge source db = None \<and> group_active source db \<and> group_active target db")
  case True
  then obtain s t where rows: "find_group source db = Some s" "g_status s = GroupActive"
    "find_group target db = Some t" "g_status t = GroupActive" by (auto simp: group_active_iff)
  have "\<not> isl (merge_tx env source target actor reason now db)"
  proof (rule merge_tx_result [OF assms(1), of source target env actor reason now])
    show "group_active source db" "group_active target db" "source \<noteq> target" using True by simp_all
    fix db5
    assume tx: "merge_tx env source target actor reason now db =
      and_then (append_audit env source actor reason (AuditMerge target) now db5)
        (\<lambda>(_, db6). Inr (count_current source db, db6))"
      and same: "db_audits db5 = db_audits db" "db_drawn db5 = db_drawn db"
    have "\<exists>x. append_audit env source actor reason (AuditMerge target) now db5 = Inr x"
      using assms(2) True find_merge_None [of source db] same by (simp add: append_audit_Inr)
    then show "\<not> isl (merge_tx env source target actor reason now db)" by (auto simp: tx)
  qed
  then obtain n db' where "merge_tx env source target actor reason now db = Inr (n, db')" by (auto simp: not_isl)
  with True rows show ?thesis by (simp add: merge_groups_def)
next
  case False
  then show ?thesis
    by (auto simp: merge_groups_def group_active_iff split: option.splits)
qed

definition merge_db :: operator_db where
  "merge_db = \<lparr>db_drawn = 0,
     db_groups = [sample_group 1 ''k1'' ByReconciler, sample_group 2 ''k2'' ByReconciler,
       (sample_group 3 ''k3'' ByReconciler)\<lparr>g_status := GroupRedirected, g_redirect := Some 2\<rparr>],
     db_members = [sample_member ''r'' 11 1 ByReconciler, sample_member ''s'' 12 2 ByReconciler,
       sample_member ''c'' 13 2 ByReconciler],
     db_relations = [sample_relation 22 ''c'' 13 ''s'' 12],
     db_observations = [], db_associations = [], db_identities = [], db_keys = [], db_markers = [],
     db_decisions = [], db_outbox = [], db_audits = []\<rparr>"

lemma merge_db_ok: "graph_ok merge_db"
proof -
  have "placed_ok merge_db" by code_simp
  moreover have "active_edges merge_db = {(''c'', ''s'')}"
    by (auto simp: active_edges_def merge_db_def sample_relation_def)
  then have "acyclic (active_edges merge_db)" by simp (simp add: acyclic_def)
  ultimately show ?thesis by (simp add: graph_ok_def)
qed

definition merge_run :: "store_error + merge_outcome \<times> operator_db" where
  "merge_run = merge_groups plain_env True 2 1 ''alice'' ''same task'' 60 merge_db"

theorem merge_groups_succeeds_iff_witness: "\<not> isl merge_run"
proof -
  have "placed_ok merge_db" using merge_db_ok by (simp add: graph_ok_def)
  moreover have "list_all (\<lambda>a. au_id a \<noteq> env_id plain_env (db_drawn merge_db)) (db_audits merge_db)" by code_simp
  moreover have "group_active 2 merge_db" "group_active 1 merge_db" by (code_simp, code_simp)
  ultimately show ?thesis unfolding merge_run_def by (simp add: merge_groups_succeeds_iff)
qed

theorem merge_groups_correct_witness:
  "\<exists>out db'. merge_run = Inr (out, db') \<and> mo_moved out = 2 \<and> graph_ok db'
     \<and> map_option mb_group (find_current ''c'' db') = Some 1"
proof -
  have "\<not> isl merge_run" by code_simp
  then obtain out db' where run: "merge_run = Inr (out, db')" by (auto simp: not_isl)
  have "find_merge 2 merge_db = None" by code_simp
  with run have new: "\<not> mo_already out"
    by (auto simp: merge_run_def merge_groups_def elim!: and_then_InrE split: option.splits if_splits)
  note correct = merge_groups_correct [OF merge_db_ok run [unfolded merge_run_def] new, of "''c''"]
  have "find_current ''c'' merge_db = Some (sample_member ''c'' 13 2 ByReconciler)" "count_current 2 merge_db = 2"
    by (code_simp, code_simp)
  with correct have "mo_moved out = 2" "graph_ok db'" "map_option mb_group (find_current ''c'' db') = Some 1"
    by (simp_all add: merged_member_def sample_member_def)
  with run show ?thesis by blast
qed

subsection \<open>Attaching a thread\<close>

lemma attach_member_effect:
  assumes "graph_ok db" "attach_member env enabled i t key endpoint now db = Inr db'"
  shows "graph_ok db' \<and> find_current k db' = (if k = key \<and> find_current key db = None
      then Some (member_stored env (attached_row i t key endpoint now)) else find_current k db)
    \<and> db_relations db' = db_relations db
    \<and> db_groups db' = (if find_current key db = None
      then map (\<lambda>g. if g_id g = i then g\<lparr>g_authority := ByOperator, g_updated := fill_updated_at env now\<rparr> else g)
        (db_groups db)
      else db_groups db)"
proof (cases "find_current key db")
  case (Some m)
  with assms show ?thesis by (auto simp: attach_member_def split: option.splits if_splits)
next
  case None
  have placed: "placed_ok db" using assms(1) by (simp add: graph_ok_def)
  from assms(2) None obtain g db1 b where g: "find_group i db = Some g" "g_status g = GroupActive"
    and insert: "insert_member env (attached_row i t key endpoint now) db = Inr db1"
    and auth: "set_grouping_authority env i ByOperator now db1 = Inr (b, db')"
    by (auto simp: attach_member_def elim!: and_then_InrE split: option.splits if_splits)
  have row: "mb_group (attached_row i t key endpoint now) = i" "mb_key (attached_row i t key endpoint now) = key"
    "is_current (attached_row i t key endpoint now)" by (simp_all add: attached_row_def is_current_def)
  have "insert_members env [attached_row i t key endpoint now] db = Inr db1" using insert by simp
  then have placed1: "placed_ok db1"
    by (rule insert_members_placed [OF placed]) (simp add: row g group_active_iff)
  let ?f = "\<lambda>x. if g_id x = i then x\<lparr>g_authority := ByOperator, g_updated := fill_updated_at env now\<rparr> else x"
  have db': "db' = db1\<lparr>db_groups := map ?f (db_groups db1)\<rparr>"
    using auth by (simp add: set_grouping_authority_def update_groups_Inr)
  have "placed_ok db'" unfolding db' by (rule map_groups_placed [OF placed1]) (simp_all add: keeps_identity_def)
  moreover have "db_relations db' = db_relations db" "db_groups db' = map ?f (db_groups db)"
    using insert_member_frame [OF insert] by (simp_all add: db')
  ultimately show ?thesis
    using assms(1) find_current_insert [OF insert] row None by (simp add: graph_ok_def active_edges_def) (simp add: db')
qed

text \<open>
  Attaching a thread leaves a current membership and the groups alone; otherwise the thread
  becomes an active, operator-fixed member of the group and the operator its authority. Every
  other thread keeps its membership, every other group its row, and the graph invariant holds.
\<close>

theorem attach_member_correct:
  assumes "graph_ok db" "attach_member env enabled i t key endpoint now db = Inr db'"
  shows "graph_ok db' \<and> find_current k db' = (if k = key \<and> find_current key db = None
      then Some (member_stored env (attached_row i t key endpoint now)) else find_current k db)
    \<and> db_relations db' = db_relations db
    \<and> db_groups db' = (if find_current key db = None
      then map (\<lambda>g. if g_id g = i then g\<lparr>g_authority := ByOperator, g_updated := fill_updated_at env now\<rparr> else g)
        (db_groups db)
      else db_groups db)"
  by (rule attach_member_effect [OF assms])

definition attach_run :: "store_error + operator_db" where
  "attach_run = attach_member plain_env True 1 14 ''n'' None 60 merge_db"

theorem attach_member_correct_witness:
  "\<exists>db'. attach_run = Inr db' \<and> graph_ok db' \<and> map_option mb_group (find_current ''n'' db') = Some 1"
proof -
  have "\<not> isl attach_run" by code_simp
  then obtain db' where run: "attach_run = Inr db'" by (auto simp: not_isl)
  have "find_current ''n'' merge_db = None" by code_simp
  with attach_member_correct [OF merge_db_ok run [unfolded attach_run_def], of "''n''"]
  have "graph_ok db'" "map_option mb_group (find_current ''n'' db') = Some 1"
    by (simp_all add: attached_row_def)
  with run show ?thesis by blast
qed

end
