(* ===== verification/Partition_Text.thy ===== *)
theory Partition_Text
  imports Group_Operator
begin

text \<open>
  The text of a partition in the audit table. Rendering is injective, so equal texts mean equal
  partitions; with the separator of the other database the texts never agree.
\<close>

lemma hex_pair_inject:
  assumes "a < 256" "b < 256" "hex_digit (a div 16) = hex_digit (b div 16)" "hex_digit (a mod 16) = hex_digit (b mod 16)"
  shows "a = (b :: nat)"
proof -
  have "a div 16 = b div 16" by (rule hex_digit_inject [OF _ _ assms(3)]) (use assms(1,2) in simp_all)
  moreover have "a mod 16 = b mod 16" by (rule hex_digit_inject [OF _ _ assms(4)]) simp_all
  ultimately show ?thesis by (metis div_mult_mod_eq)
qed

text \<open>The second byte of an escape tells which one it is.\<close>

definition escape_of :: "nat \<Rightarrow> string" where
  "escape_of n =
     (if n = 34 then [CHR 0x22] else if n = 92 then [CHR 0x5C] else if n = 8 then [CHR ''b'']
      else if n = 9 then [CHR ''t''] else if n = 10 then [CHR ''n''] else if n = 12 then [CHR ''f'']
      else if n = 13 then [CHR ''r'']
      else [CHR ''u'', CHR ''0'', CHR ''0'', hex_digit (n div 16), hex_digit (n mod 16)])"

definition escaped :: "nat \<Rightarrow> bool" where
  "escaped n \<longleftrightarrow> n = 34 \<or> n = 92 \<or> n < 32"

lemma json_char_cases:
  "json_char c = (if escaped (of_char c) then CHR 0x5C # escape_of (of_char c) else [c])"
  by (simp add: json_char_def escape_of_def escaped_def Let_def)

lemma escape_unframe:
  assumes "a < 256" "b < 256" "escape_of a @ s = escape_of b @ t"
  shows "a = b \<and> s = t"
proof -
  have "a = b" if "hex_digit (a div 16) = hex_digit (b div 16)" "hex_digit (a mod 16) = hex_digit (b mod 16)"
    by (rule hex_pair_inject [OF assms(1,2) that])
  with assms(3) show ?thesis by (auto simp: escape_of_def split: if_splits)
qed

interpretation json_code: prefix_code json_char
proof
  fix c d s t
  assume eq: "json_char c @ s = json_char d @ t"
  have slash: "escaped (of_char c)" if "c = CHR 0x5C" for c by (simp add: that escaped_def)
  have small: "of_char c < (256 :: nat)" for c :: char by (metis nat_of_char_less_256)
  show "c = d \<and> s = t"
  proof (cases "escaped (of_char c) \<and> escaped (of_char d)")
    case True
    with eq have "escape_of (of_char c) @ s = escape_of (of_char d) @ t" by (simp add: json_char_cases)
    from escape_unframe [OF small small this] show ?thesis by simp
  next
    case False
    with eq slash show ?thesis by (auto simp: json_char_cases split: if_splits)
  qed
qed (simp add: json_char_cases)

lemma json_char_head: "\<exists>x r. json_char c = x # r \<and> x \<noteq> CHR 0x22"
  by (auto simp: json_char_cases escaped_def)

lemma json_string_unframe: "json_string x @ s = json_string y @ t \<Longrightarrow> x = y \<and> s = t"
proof -
  have "concat (map json_char x) @ CHR 0x22 # s = concat (map json_char y) @ CHR 0x22 # t \<Longrightarrow> x = y \<and> s = t"
  proof (induction x arbitrary: y)
    case Nil
    then show ?case using json_char_head [of "hd y"] by (cases y) auto
  next
    case (Cons c x)
    show ?case
    proof (cases y)
      case Nil
      with Cons.prems show ?thesis using json_char_head [of c] by auto
    next
      case (Cons d y')
      with Cons.prems have "json_char c @ (concat (map json_char x) @ CHR 0x22 # s)
          = json_char d @ (concat (map json_char y') @ CHR 0x22 # t)" by simp
      from json_code.unframe [OF this] Cons.IH [of y'] Cons show ?thesis by simp
    qed
  qed
  then show "json_string x @ s = json_string y @ t \<Longrightarrow> x = y \<and> s = t" by (simp add: json_string_def)
qed

text \<open>Lists of items that do not start like a separator or an end.\<close>

definition starts_item :: "string \<Rightarrow> bool" where
  "starts_item x \<longleftrightarrow> (case x of [] \<Rightarrow> False | c # _ \<Rightarrow> c \<notin> {CHR '','', CHR '']'', CHR '' ''})"

lemma starts_itemE:
  assumes "starts_item x" obtains c r where "x = c # r" "c \<notin> {CHR '','', CHR '']'', CHR '' ''}"
  using assms by (auto simp: starts_item_def split: list.splits)

lemma json_items_Cons: "json_items sep (x # xs) = x @ (if xs = [] then [] else sep @ json_items sep xs)"
  by (cases xs) simp_all

lemma json_items_cross:
  assumes cross: "\<And>x y s t. f x @ s = g y @ t \<Longrightarrow> x = y \<and> s = t"
    and heads: "\<And>x. starts_item (f x)" "\<And>x. starts_item (g x)"
    and blanks: "p \<in> {[], '' ''}" "q \<in> {[], '' ''}"
    and eq: "json_items (CHR '','' # p) (map f xs) @ CHR '']'' # s = json_items (CHR '','' # q) (map g ys) @ CHR '']'' # t"
  shows "xs = ys \<and> s = t \<and> (p = q \<or> length xs < 2)"
  using eq
proof (induction xs arbitrary: ys)
  case Nil
  show ?case
  proof (cases ys)
    case (Cons y ys')
    obtain c r where "g y = c # r" "c \<noteq> CHR '']''" using heads(2) [of y] by (rule starts_itemE) auto
    with Nil Cons show ?thesis by (simp add: json_items_Cons)
  qed (use Nil in simp)
next
  case (Cons x xs)
  show ?case
  proof (cases ys)
    case Nil
    obtain c r where "f x = c # r" "c \<noteq> CHR '']''" using heads(1) [of x] by (rule starts_itemE) auto
    with Cons.prems Nil show ?thesis by (simp add: json_items_Cons)
  next
    case ys: (Cons y ys')
    let ?more = "\<lambda>p fs. if fs = [] then [] else (CHR '','' # p) @ json_items (CHR '','' # p) fs"
    have "f x @ ?more p (map f xs) @ CHR '']'' # s = g y @ ?more q (map g ys') @ CHR '']'' # t"
      using Cons.prems ys by (simp add: json_items_Cons)
    from cross [OF this] have same: "x = y"
      and rest: "?more p (map f xs) @ CHR '']'' # s = ?more q (map g ys') @ CHR '']'' # t" by auto
    show ?thesis
    proof (cases "xs = [] \<or> ys' = []")
      case True
      with rest same ys show ?thesis by (auto split: if_splits)
    next
      case False
      then obtain x2 xs2 y2 ys2 where more: "xs = x2 # xs2" "ys' = y2 # ys2" by (cases xs; cases ys') auto
      have tail: "p @ json_items (CHR '','' # p) (map f xs) @ CHR '']'' # s
          = q @ json_items (CHR '','' # q) (map g ys') @ CHR '']'' # t" using rest False by simp
      obtain c r where c: "f x2 = c # r" "c \<noteq> CHR '' ''" using heads(1) [of x2] by (rule starts_itemE) auto
      obtain d r' where d: "g y2 = d # r'" "d \<noteq> CHR '' ''" using heads(2) [of y2] by (rule starts_itemE) auto
      have "p = q" using tail blanks c d more by (auto simp: json_items_Cons)
      with tail Cons.IH [of ys'] same ys show ?thesis by simp
    qed
  qed
qed

lemma json_keys_cross:
  assumes "p \<in> {[], '' ''}" "q \<in> {[], '' ''}"
    "json_list (CHR '','' # p) (map json_string xs) @ s = json_list (CHR '','' # q) (map json_string ys) @ t"
  shows "xs = ys \<and> s = t"
proof -
  have "starts_item (json_string x)" for x by (simp add: starts_item_def json_string_def)
  from json_items_cross [where f = json_string and g = json_string, OF json_string_unframe this this assms(1,2)] assms(3)
  show ?thesis by (simp add: json_list_def)
qed

lemma partition_text_cross:
  assumes "p \<in> {[], '' ''}" "q \<in> {[], '' ''}"
    "partition_text (CHR '','' # p) xs = partition_text (CHR '','' # q) ys"
  shows "xs = ys \<and> (p = q \<or> length xs < 2)"
proof -
  let ?f = "\<lambda>p ks. json_list (CHR '','' # p) (map json_string ks)"
  have "starts_item (?f p ks)" for p ks by (simp add: starts_item_def json_list_def)
  from json_items_cross [where f = "?f p" and g = "?f q" and s = "[]" and t = "[]", OF json_keys_cross [OF assms(1,2)] this this assms(1,2)]
    assms(3)
  show ?thesis by (simp add: partition_text_def json_list_def)
qed

text \<open>SQLite recognizes the recorded partition; PostgreSQL recognizes none of a split.\<close>

lemma stored_text_Sqlite: "stored_text Sqlite xs = partition_text '','' ys \<longleftrightarrow> xs = ys"
  using partition_text_cross [of "[]" "[]" xs ys] by (auto simp: stored_text_def)

lemma stored_text_Postgres: "2 \<le> length xs \<Longrightarrow> stored_text Postgres xs \<noteq> partition_text '','' ys"
  using partition_text_cross [of "'' ''" "[]" xs ys] by (auto simp: stored_text_def)

end
