(* ===== verification/Group_Split.thy ===== *)
theory Group_Split
  imports Group_Merge Partition_Text
begin

text \<open>
  What splitting a group does, and when a retry of a split is recognized. The partition of a
  split is compared as JSON text with the text the database returns.
\<close>

subsection \<open>The successors of a split\<close>

text \<open>The successor that a key goes to.\<close>

definition successor_of :: "string list list \<Rightarrow> int list \<Rightarrow> string \<Rightarrow> int" where
  "successor_of parts ids k = (case find (\<lambda>(ks, i). k \<in> set ks) (zip parts ids) of Some (_, i) \<Rightarrow> i | None \<Rightarrow> 0)"

lemma successor_of_Cons [simp]:
  "successor_of (ks # parts) (i # ids) k = (if k \<in> set ks then i else successor_of parts ids k)"
  by (simp add: successor_of_def)

lemma split_row_merged:
  "split_row i now r (successor_membership (as_membership r)) = merged_row i now r"
  by (simp add: split_row_def successor_membership_def as_membership_def merged_row_def)

lemma as_membership_simps [simp]:
  "thread_canonical_key (as_membership r) = mb_key r" "member_state (as_membership r) = mb_state r"
  by (simp_all add: as_membership_def)

definition rows_hold :: "member_row list \<Rightarrow> (string \<Rightarrow> member_row) \<Rightarrow> string set \<Rightarrow> bool" where
  "rows_hold rows row ks \<longleftrightarrow> (\<forall>k \<in> ks. find (\<lambda>r. mb_key r = k) rows = Some (row k) \<and> mb_key (row k) = k
     \<and> is_current (row k))"

lemma insert_successor_rows:
  fixes db :: "'a group_db_scheme"
  shows "rows_hold rows row (set ks) \<Longrightarrow>
   insert_successor_members env rows i now (map (\<lambda>k. successor_membership (as_membership (row k))) ks) db =
   insert_members env (map (\<lambda>k. merged_row i now (row k)) ks) db"
proof (induction ks arbitrary: db)
  case (Cons k ks)
  have held: "rows_hold rows row (set ks)" using Cons.prems by (simp add: rows_hold_def)
  have "insert_successor_members env rows i now (map (\<lambda>k. successor_membership (as_membership (row k))) ks)
      = (insert_members env (map (\<lambda>k. merged_row i now (row k)) ks) :: 'a group_db_scheme \<Rightarrow> _)"
    by (intro ext) (rule Cons.IH [OF held])
  with Cons.prems show ?case by (simp add: rows_hold_def split_row_merged)
qed simp

lemma look_successor_rows:
  assumes "rows_hold rows row (set ks)" "insert_members env (map (\<lambda>k. merged_row i now (row k)) ks) db = Inr db'"
  shows "find_current k db' = (if k \<in> set ks then Some (member_stored env (merged_row i now (row k))) else find_current k db)"
proof -
  have "find (\<lambda>r. mb_key r = k \<and> is_current r) (map (\<lambda>k. merged_row i now (row k)) ks)
      = (if k \<in> set ks then Some (merged_row i now (row k)) else None)"
    using assms(1) by (induction ks) (auto simp: rows_hold_def)
  with insert_members_look [OF assms(2), of k] show ?thesis by simp
qed

definition successor_with :: "(string \<Rightarrow> string) \<Rightarrow> (string \<Rightarrow> string) \<Rightarrow> string \<Rightarrow> (string \<Rightarrow> member_row) \<Rightarrow> string list \<Rightarrow> thread_group" where
  "successor_with nfc sha key row ks = \<lparr>group_canonical_key = split_group_canonical_key nfc sha key ks,
     status = GroupActive, memberships = map (\<lambda>k. successor_membership (as_membership (row k))) ks\<rparr>"

lemma create_successors_effect:
  assumes "placed_ok db" "rows_hold rows row (set (concat parts))" "distinct (concat parts)"
    "create_successors env rows g now (map (successor_with nfc sha key row) parts) db = Inr (ids, db')"
  shows "placed_ok db' \<and> db_relations db' = db_relations db \<and> length ids = length parts
    \<and> (\<forall>i. group_active i db \<longrightarrow> group_active i db' \<and> i \<notin> set ids) \<and> distinct ids
    \<and> (\<forall>i \<in> set ids. group_active i db')
    \<and> (\<forall>k. find_current k db' = (if k \<in> set (concat parts)
         then Some (member_stored env (merged_row (successor_of parts ids k) now (row k))) else find_current k db))"
  using assms
proof (induction parts arbitrary: db ids)
  case (Cons ks parts)
  let ?s = "successor_with nfc sha key row ks"
  from Cons.prems(4) obtain i db1 db2 ids2 where
    create: "create_group env (successor_row g ?s now) db = Inr (i, db1)"
    and insert: "insert_successor_members env rows i now (memberships ?s) db1 = Inr db2"
    and rest: "create_successors env rows g now (map (successor_with nfc sha key row) parts) db2 = Inr (ids2, db')"
    and ids: "ids = i # ids2"
    by (auto elim!: and_then_InrE)
  have here: "rows_hold rows row (set ks)" "rows_hold rows row (set (concat parts))"
    using Cons.prems(2) by (auto simp: rows_hold_def)
  have active: "g_status (successor_row g ?s now) = GroupActive" by (simp add: successor_row_def)
  note made = create_group_keeps [OF Cons.prems(1) create active]
  have rows: "insert_members env (map (\<lambda>k. merged_row i now (row k)) ks) db1 = Inr db2"
    using insert unfolding successor_with_def thread_group.select_convs
    by (simp only: insert_successor_rows [OF here(1)])
  have placed2: "placed_ok db2"
    by (rule insert_members_placed [OF made(1) rows]) (use made(2) in auto)
  note frame = insert_members_frame [OF rows]
  have active2: "group_active j db2 = group_active j db1" for j using groups_only(2) [of db2 db1] frame by simp
  have fresh: "\<not> group_active i db"
    using create by (auto simp: create_group_Inr group_active_iff dest: find_in_groups)
  have parts: "distinct (concat parts)" "set ks \<inter> set (concat parts) = {}" using Cons.prems(3) by auto
  note IH = Cons.IH [OF placed2 here(2) parts(1) rest]
  have i2: "group_active i db2" using made(2) active2 by simp
  have keep: "group_active j db \<Longrightarrow> group_active j db2" for j using made(4) active2 by simp
  have look: "find_current k db2 = (if k \<in> set ks then Some (member_stored env (merged_row i now (row k))) else find_current k db)" for k
    using look_successor_rows [OF here(1) rows, of k] made(3) by simp
  have "db_relations db' = db_relations db"
    using IH frame create_group_frame [OF create] by simp
  moreover have "find_current k db' = (if k \<in> set (concat (ks # parts))
         then Some (member_stored env (merged_row (successor_of (ks # parts) ids k) now (row k))) else find_current k db)" for k
    using IH look [of k] parts(2) by (auto simp: ids)
  ultimately show ?case using IH i2 keep fresh by (auto simp: ids)
qed (simp add: successor_of_def)

lemma mark_split_effect:
  assumes "placed_ok db" "mark_split env i now db = Inr (b, db')"
    "\<And>k m. find_current k db = Some m \<Longrightarrow> mb_group m \<noteq> i"
  shows "placed_ok db'" "db_members db' = db_members db" "db_relations db' = db_relations db"
    "group_active j db' \<longleftrightarrow> group_active j db \<and> j \<noteq> i"
proof -
  note ok = placed_okD [OF assms(1)]
  let ?f = "\<lambda>g. if g_id g = i \<and> g_status g = GroupActive
    then g\<lparr>g_status := GroupSplit, g_updated := fill_updated_at env now\<rparr> else g"
  have db': "db' = db\<lparr>db_groups := map ?f (db_groups db)\<rparr>"
    using assms(2) by (simp add: mark_split_def update_groups_Inr)
  have keeps: "keeps_identity ?f" by (simp add: keeps_identity_def)
  show active: "group_active j db' \<longleftrightarrow> group_active j db \<and> j \<noteq> i" for j
    unfolding db' group_active_def find_group_map [OF keeps]
    by (cases "find_group j db") (auto dest: find_in_groups)
  show same: "db_members db' = db_members db" "db_relations db' = db_relations db" by (simp_all add: db')
  show "placed_ok db'"
  proof (rule placed_okI)
    show "tables_ok db'"
      by (rule update_groups_ok [OF ok(1) assms(2) [unfolded mark_split_def] keeps])
    have "redirects_flat (db\<lparr>db_groups := map ?f (db_groups db)\<rparr>) = redirects_flat db"
      by (rule redirects_flat_map [OF keeps]) simp
    with ok(2) show "redirects_flat db'" by (simp only: db')
    fix k m assume "find_current k db' = Some m"
    then have m: "find_current k db = Some m" by (simp add: find_current_def same)
    from ok(3) [OF m] assms(3) [OF m] show "group_active (mb_group m) db'" by (simp add: active)
  qed
qed

subsection \<open>Splitting\<close>

definition source_row :: "int \<Rightarrow> 'a group_db_scheme \<Rightarrow> string \<Rightarrow> member_row" where
  "source_row i db k = (case find (\<lambda>r. mb_key r = k) (list_current i db) of Some r \<Rightarrow> r | None \<Rightarrow> undefined)"

lemma source_row_hold:
  assumes "tables_ok db" "ks \<subseteq> mb_key ` set (list_current i db)"
  shows "rows_hold (list_current i db) (source_row i db) ks"
    "k \<in> ks \<Longrightarrow> find_current k db = Some (source_row i db k)"
    "k \<in> ks \<Longrightarrow> source_row i db k \<in> set (list_current i db)"
proof -
  have row: "find (\<lambda>r. mb_key r = k) (list_current i db) = Some (source_row i db k)
      \<and> source_row i db k \<in> set (list_current i db) \<and> mb_key (source_row i db k) = k" if "k \<in> ks" for k
  proof -
    have "find (\<lambda>r. mb_key r = k) (list_current i db) \<noteq> None"
      using assms(2) that by (auto simp: find_None_iff)
    then obtain r where r: "find (\<lambda>r. mb_key r = k) (list_current i db) = Some r" by blast
    then have "r \<in> set (list_current i db) \<and> mb_key r = k"
      by (metis (mono_tags, lifting) find_Some_iff nth_mem)
    with r show ?thesis by (simp add: source_row_def)
  qed
  have "is_current (source_row i db k)" if "k \<in> ks" for k
    using row [OF that] by (simp add: list_current_set)
  with row show "rows_hold (list_current i db) (source_row i db) ks" by (simp add: rows_hold_def)
  show "k \<in> ks \<Longrightarrow> find_current k db = Some (source_row i db k)"
    using row [of k] by (simp add: list_current_set find_current_Some [OF assms(1)])
  show "k \<in> ks \<Longrightarrow> source_row i db k \<in> set (list_current i db)" using row by blast
qed

definition group_of_rows :: "group_row \<Rightarrow> member_row list \<Rightarrow> thread_group" where
  "group_of_rows g rows = \<lparr>group_canonical_key = g_key g, status = GroupActive, memberships = map as_membership rows\<rparr>"

lemma successor_group_rows:
  assumes "tables_ok db" "set ks \<subseteq> mb_key ` set (list_current i db)"
  shows "successor_group nfc sha (group_of_rows g (list_current i db)) ks
    = successor_with nfc sha (g_key g) (source_row i db) ks"
proof -
  let ?grp = "group_of_rows g (list_current i db)"
  have distinct: "distinct (map thread_canonical_key (memberships ?grp))"
    using list_current_distinct [OF assms(1)] by (simp add: group_of_rows_def comp_def)
  have "map_of (members_by_key ?grp) k = Some (as_membership (source_row i db k))" if "k \<in> set ks" for k
  proof -
    have "source_row i db k \<in> set (list_current i db)" "mb_key (source_row i db k) = k"
      using source_row_hold(3) [OF assms that] source_row_hold(1) [OF assms] that by (simp_all add: rows_hold_def)
    then show ?thesis
      using members_by_key_distinct [OF distinct, of "as_membership (source_row i db k)"]
      by (simp add: group_of_rows_def)
  qed
  then show ?thesis by (simp add: successor_group_def successor_with_def group_of_rows_def)
qed

lemma split_tx_steps:
  assumes "placed_ok db" "split_tx env g parts actor reason now db = Inr (ids, db')"
  obtains db1 db2 b i where
    "set (concat parts) = mb_key ` set (list_current (g_id g) db)" "distinct (concat parts)" "2 \<le> length parts"
    "create_successors env (list_current (g_id g) db) g now
       (map (successor_with (env_nfc env) (env_sha env) (g_key g) (source_row (g_id g) db)) parts)
       (emptied env (g_id g) now db) = Inr (ids, db1)"
    "mark_split env (g_id g) now db1 = Inr (b, db2)"
    "append_audit env (g_id g) actor reason (AuditSplit (normalize_split_partitions parts) ids) now db2 = Inr (i, db')"
proof -
  note ok = placed_okD(1) [OF assms(1)]
  let ?rows = "list_current (g_id g) db"
  from assms(2) obtain out db1 b db2 i where
    split: "split_group (env_nfc env) (env_sha env) (group_of_rows g ?rows) parts = Inr out"
    and steps: "create_successors env ?rows g now (successors out) (redirect_all env (map mb_key ?rows) (g_id g) now db) = Inr (ids, db1)"
      "mark_split env (g_id g) now db1 = Inr (b, db2)"
      "append_audit env (g_id g) actor reason (AuditSplit (normalize_split_partitions parts) ids) now db2 = Inr (i, db')"
    by (auto simp: split_tx_def Let_def group_of_rows_def elim!: and_then_InrE split: sum.splits)
  from split have parts: "set (concat parts) = mb_key ` set ?rows" "distinct (concat parts)" "2 \<le> length parts"
    and succ: "successors out = map (successor_group (env_nfc env) (env_sha env) (group_of_rows g ?rows)) parts"
    by (auto simp: split_group_success member_keys_def group_of_rows_def split_result_def image_image)
  have "successors out = map (successor_with (env_nfc env) (env_sha env) (g_key g) (source_row (g_id g) db)) parts"
    unfolding succ using parts(1) by (intro map_cong [OF refl] successor_group_rows [OF ok]) auto
  with steps parts that show thesis by (simp add: redirect_all_current)
qed

text \<open>The membership of a thread after the split.\<close>

definition split_member :: "group_env \<Rightarrow> int \<Rightarrow> string list list \<Rightarrow> int list \<Rightarrow> int \<Rightarrow> member_row \<Rightarrow> member_row" where
  "split_member env source parts ids now m =
     (if mb_group m = source then member_stored env (merged_row (successor_of parts ids (mb_key m)) now m) else m)"

lemma split_tx_effect:
  assumes "graph_ok db" "group_active (g_id g) db" "split_tx env g parts actor reason now db = Inr (ids, db')"
  shows "graph_ok db' \<and> length ids = length parts \<and> distinct ids
    \<and> (\<forall>i \<in> set ids. group_active i db' \<and> \<not> group_active i db) \<and> \<not> group_active (g_id g) db'
    \<and> (\<forall>k. find_current k db' = map_option (split_member env (g_id g) parts ids now) (find_current k db))"
proof -
  have placed: "placed_ok db" using assms(1) by (simp add: graph_ok_def)
  note ok = placed_okD [OF placed]
  obtain db1 db2 b i where
    parts: "set (concat parts) = mb_key ` set (list_current (g_id g) db)" "distinct (concat parts)"
    and create: "create_successors env (list_current (g_id g) db) g now
       (map (successor_with (env_nfc env) (env_sha env) (g_key g) (source_row (g_id g) db)) parts)
       (emptied env (g_id g) now db) = Inr (ids, db1)"
    and mark: "mark_split env (g_id g) now db1 = Inr (b, db2)"
    and audit: "append_audit env (g_id g) actor reason (AuditSplit (normalize_split_partitions parts) ids) now db2 = Inr (i, db')"
    by (rule split_tx_steps [OF placed assms(3)]) (rule that)
  have emptied_placed: "placed_ok (emptied env (g_id g) now db)"
  proof (rule placed_okI)
    show "tables_ok (emptied env (g_id g) now db)" by (rule emptied_tables [OF ok(1)])
    show "redirects_flat (emptied env (g_id g) now db)"
      by (subst groups_only(3) [OF emptied_frame(1)]) (rule ok(2))
    fix k m assume "find_current k (emptied env (g_id g) now db) = Some m"
    then show "group_active (mb_group m) (emptied env (g_id g) now db)"
      using ok(3) by (auto simp: find_current_emptied [OF ok(1)] split: option.splits if_splits)
  qed
  note rows = source_row_hold [OF ok(1) parts(1) [THEN equalityD1]]
  note made = create_successors_effect [OF emptied_placed rows(1) parts(2) create]
  have in_source: "k \<in> set (concat parts) \<longleftrightarrow> map_option mb_group (find_current k db) = Some (g_id g)" for k
  proof -
    have "k \<in> mb_key ` set (list_current (g_id g) db) \<longleftrightarrow> map_option mb_group (find_current k db) = Some (g_id g)"
    proof
      assume "k \<in> mb_key ` set (list_current (g_id g) db)"
      then have k: "k \<in> set (concat parts)" by (simp only: parts(1))
      from rows(2) [OF k] rows(3) [OF k] show "map_option mb_group (find_current k db) = Some (g_id g)"
        by (simp add: list_current_set)
    next
      assume "map_option mb_group (find_current k db) = Some (g_id g)"
      then obtain m where "find_current k db = Some m" "mb_group m = g_id g" by auto
      then have "m \<in> set (list_current (g_id g) db)" "mb_key m = k"
        by (simp_all add: list_current_set find_current_Some [OF ok(1)])
      then show "k \<in> mb_key ` set (list_current (g_id g) db)" by blast
    qed
    with parts(1) show ?thesis by simp
  qed
  have look: "find_current k db1 = map_option (split_member env (g_id g) parts ids now) (find_current k db)" for k
  proof (cases "k \<in> set (concat parts)")
    case True
    then have "find_current k db = Some (source_row (g_id g) db k)" by (rule rows(2))
    moreover have "mb_group (source_row (g_id g) db k) = g_id g" "mb_key (source_row (g_id g) db k) = k"
      using rows(1,3) True by (auto simp: list_current_set rows_hold_def)
    ultimately show ?thesis using made True by (simp add: split_member_def)
  next
    case False
    then have "find_current k db1 = find_current k (emptied env (g_id g) now db)" using made by simp
    then show ?thesis using False in_source [of k]
      by (auto simp: find_current_emptied [OF ok(1)] split_member_def split: option.splits)
  qed
  have "g_id g \<notin> set ids" using made assms(2) by simp
  have free: "mb_group m \<noteq> g_id g" if found: "find_current k db1 = Some m" for k m
  proof (cases "k \<in> set (concat parts)")
    case True
    have "successor_of parts ids k \<in> set ids"
    proof -
      have "length ids = length parts" using made by blast
      then show ?thesis using True by (induction parts ids rule: list_induct2') auto
    qed
    with made True found \<open>g_id g \<notin> set ids\<close> show ?thesis by auto
  next
    case False
    with made found have "find_current k (emptied env (g_id g) now db) = Some m" by simp
    then show ?thesis by (auto simp: find_current_emptied [OF ok(1)] split: option.splits if_splits)
  qed
  note marked = mark_split_effect [OF made [THEN conjunct1] mark free]
  have same: "same_graph db2 db'" by (rule append_audit_same [OF audit])
  have "db_relations db2 = db_relations db" using marked(3) made by simp
  then have "graph_ok db2" using assms(1) marked(1) by (simp add: graph_ok_def active_edges_def)
  then have "graph_ok db'" by (rule graph_ok_same [OF same])
  moreover have "group_active j db' = group_active j db2" for j
    by (rule groups_only(2)) (use same in \<open>simp add: same_graph_def\<close>)
  moreover have "find_current k db' = find_current k db1" for k
    using find_current_same [OF same] marked(2) by (simp add: find_current_def)
  ultimately show ?thesis
    using made marked(4) look \<open>g_id g \<notin> set ids\<close> by auto
qed

lemma split_first_run:
  assumes "find_split source db = None"
    "split_group_command env backend enabled source parts actor reason now db = Inr (ids, db')"
  obtains g where "find_group source db = Some g" "g_id g = source" "g_status g = GroupActive" "enabled"
    "split_tx env g parts actor reason now db = Inr (ids, db')"
  using assms
  by (auto simp: split_group_command_def dest: find_in_groups split: option.splits if_splits)

text \<open>
  C21. Splitting a group: every partition gets an active group of its own that did not exist
  before, every member goes to the successor of its partition with its role, state, thread and
  deletion time, fixed by the operator, no other thread moves, the source is no longer active,
  and the graph invariant holds.
\<close>

theorem split_group_command_correct:
  assumes "graph_ok db" "find_split source db = None"
    "split_group_command env backend enabled source parts actor reason now db = Inr (ids, db')"
  shows "graph_ok db' \<and> length ids = length parts \<and> distinct ids
    \<and> set ids \<subseteq> {i. group_active i db' \<and> \<not> group_active i db} \<and> \<not> group_active source db'
    \<and> find_current k db' = map_option (split_member env source parts ids now) (find_current k db)"
proof (rule split_first_run [OF assms(2,3)])
  fix g
  assume g: "find_group source db = Some g" "g_id g = source" "g_status g = GroupActive"
    and run: "split_tx env g parts actor reason now db = Inr (ids, db')"
  have "group_active (g_id g) db" using g by (simp add: group_active_iff)
  from split_tx_effect [OF assms(1) this run] show ?thesis unfolding g(2) by auto
qed

lemma insert_successor_groups:
  "insert_successor_members env rows i now ms db = Inr db' \<Longrightarrow> db_groups db' = db_groups db"
  by (induction ms arbitrary: db) (auto elim!: and_then_InrE dest!: insert_member_frame split: option.splits)

lemma create_successors_groups:
  assumes "create_successors env rows g now ss db = Inr (ids, db')" "find_group j db \<noteq> None"
  shows "find_group j db' \<noteq> None"
  using assms
proof (induction ss arbitrary: db ids)
  case (Cons s ss)
  from Cons.prems(1) obtain i db1 db2 ids2 where
    create: "create_group env (successor_row g s now) db = Inr (i, db1)"
    and insert: "insert_successor_members env rows i now (memberships s) db1 = Inr db2"
    and rest: "create_successors env rows g now ss db2 = Inr (ids2, db')"
    by (auto elim!: and_then_InrE)
  have "db_groups db2 = db_groups db1" by (rule insert_successor_groups [OF insert])
  then have "find_group j db2 = find_group j db1" by (rule groups_only(1))
  also have "find_group j db1 \<noteq> None" using find_group_create [OF create] Cons.prems(2) by simp
  finally show ?case using Cons.IH [OF rest] by simp
qed simp

lemma split_tx_recorded:
  assumes "placed_ok db" "find_group (g_id g) db \<noteq> None" "split_tx env g parts actor reason now db = Inr (ids, db')"
  shows "map_option au_detail (find_split (g_id g) db') = Some (AuditSplit (normalize_split_partitions parts) ids)"
    "find_group (g_id g) db' \<noteq> None" "2 \<le> length parts"
proof -
  obtain db1 db2 b i where
    size: "2 \<le> length parts"
    and create: "create_successors env (list_current (g_id g) db) g now
       (map (successor_with (env_nfc env) (env_sha env) (g_key g) (source_row (g_id g) db)) parts)
       (emptied env (g_id g) now db) = Inr (ids, db1)"
    and mark: "mark_split env (g_id g) now db1 = Inr (b, db2)"
    and audit: "append_audit env (g_id g) actor reason (AuditSplit (normalize_split_partitions parts) ids) now db2 = Inr (i, db')"
    by (rule split_tx_steps [OF assms(1,3)]) (rule that)
  show "2 \<le> length parts" by (rule size)
  note row = append_audit_Inr [THEN iffD1, OF audit]
  have none: "find (\<lambda>a. au_source a = g_id g \<and> \<not> is_merge (au_detail a)) (db_audits db2) = None"
    using row by (auto simp: find_None_iff list_all_iff)
  show "map_option au_detail (find_split (g_id g) db') = Some (AuditSplit (normalize_split_partitions parts) ids)"
    using row find_append [OF none] by (simp add: find_split_def)
  have "find_group (g_id g) db1 \<noteq> None" by (rule create_successors_groups [OF create]) (simp add: assms(2))
  moreover have keeps: "keeps_identity (\<lambda>h. if g_id h = g_id g \<and> g_status h = GroupActive
      then h\<lparr>g_status := GroupSplit, g_updated := fill_updated_at env now\<rparr> else h)"
    by (simp add: keeps_identity_def)
  ultimately have "find_group (g_id g) db2 \<noteq> None"
    using find_group_update [OF mark [unfolded mark_split_def] keeps] by simp
  then show "find_group (g_id g) db' \<noteq> None"
    using append_audit_same [OF audit] by (simp add: same_graph_def find_group_def)
qed

text \<open>
  C35. Retrying a split. On SQLite the same partition, whatever the order of its parts and of
  their keys, returns the recorded successors and changes nothing, and a different one is
  refused. On PostgreSQL every retry is refused: the recorded text comes back with spaces and
  equals no text the command compares it with.
\<close>

theorem split_retry:
  assumes "graph_ok db" "find_split source db = None"
    "split_group_command env backend enabled source parts actor reason now db = Inr (ids, db')"
  shows "split_group_command env backend enabled source parts' actor' reason' now' db' =
    (if backend = Sqlite \<and> normalize_split_partitions parts' = normalize_split_partitions parts
     then Inr (ids, db') else Inl (Bail ''source group was already split with a different partition''))"
proof (rule split_first_run [OF assms(2,3)])
  fix g
  assume g: "find_group source db = Some g" "g_id g = source" and enabled
    and run: "split_tx env g parts actor reason now db = Inr (ids, db')"
  have placed: "placed_ok db" using assms(1) by (simp add: graph_ok_def)
  have "find_group (g_id g) db \<noteq> None" using g by simp
  note recorded = split_tx_recorded [OF placed this run, unfolded g(2)]
  obtain g' row where g': "find_group source db' = Some g'" and row: "find_split source db' = Some row"
    "au_detail row = AuditSplit (normalize_split_partitions parts) ids" using recorded(1,2) by auto
  have size: "2 \<le> length (normalize_split_partitions parts)"
    using recorded(3) by (simp add: normalize_split_partitions_def)
  show ?thesis
  proof (cases backend)
    case Sqlite
    then show ?thesis using g' row \<open>enabled\<close>
      by (auto simp: split_group_command_def stored_text_Sqlite)
  next
    case Postgres
    then show ?thesis using g' row \<open>enabled\<close> stored_text_Postgres [OF size]
      by (simp add: split_group_command_def)
  qed
qed

lemma normalize_permuted:
  "mset (map mset parts) = mset (map mset parts') \<Longrightarrow> normalize_split_partitions parts = normalize_split_partitions parts'"
proof -
  assume "mset (map mset parts) = mset (map mset parts')"
  then have "image_mset sorted_list_of_multiset (mset (map mset parts))
      = image_mset sorted_list_of_multiset (mset (map mset parts'))" by simp
  then have "mset (map sort parts) = mset (map sort parts')"
    by (simp add: image_mset.compositionality comp_def)
  then show ?thesis by (simp add: normalize_split_partitions_def properties_for_sort)
qed

definition split_db :: operator_db where
  "split_db = merge_db\<lparr>db_groups := [sample_group 1 ''k1'' ByReconciler, sample_group 2 ''k2'' ByReconciler]\<rparr>"

definition split_run :: "backend \<Rightarrow> operator_db \<Rightarrow> store_error + int list \<times> operator_db" where
  "split_run backend = split_group_command sample_env backend True 2 [[''s''], [''c'']] ''alice'' ''two tasks'' 60"

lemma split_db_ok: "graph_ok split_db"
proof -
  have "placed_ok split_db" by code_simp
  moreover have "active_edges split_db = {(''c'', ''s'')}"
    by (auto simp: active_edges_def split_db_def merge_db_def sample_relation_def)
  then have "acyclic (active_edges split_db)" by simp (simp add: acyclic_def)
  ultimately show ?thesis by (simp add: graph_ok_def)
qed

lemma split_run_succeeds: "find_split 2 split_db = None" "\<not> isl (split_run Postgres split_db)"
  by (code_simp, code_simp)

theorem split_group_command_correct_witness:
  "\<exists>ids db'. split_run Postgres split_db = Inr (ids, db') \<and> graph_ok db' \<and> length ids = 2
     \<and> map_option mb_group (find_current ''c'' db') = Some (ids ! 1)"
proof -
  obtain ids db' where run: "split_run Postgres split_db = Inr (ids, db')"
    using split_run_succeeds(2) by (auto simp: not_isl)
  note correct = split_group_command_correct [OF split_db_ok split_run_succeeds(1) run [unfolded split_run_def], of "''c''"]
  have size: "length ids = 2" using correct by simp
  then obtain i j where ids: "ids = [i, j]" by (auto simp: numeral_2_eq_2 length_Suc_conv)
  have "find_current ''c'' split_db = Some (sample_member ''c'' 13 2 ByReconciler)" by code_simp
  with correct have "map_option mb_group (find_current ''c'' db') = Some (ids ! 1)"
    by (simp add: split_member_def sample_member_def ids)
  with run correct size show ?thesis by blast
qed

theorem split_retry_witness:
  "\<exists>ids db'. split_run Postgres split_db = Inr (ids, db') \<and> isl (split_run Postgres db')"
proof -
  obtain ids db' where run: "split_run Postgres split_db = Inr (ids, db')"
    using split_run_succeeds(2) by (auto simp: not_isl)
  from split_retry [OF split_db_ok split_run_succeeds(1) run [unfolded split_run_def],
      of "[[''s''], [''c'']]" "''alice''" "''two tasks''" 60] run
  show ?thesis by (simp add: split_run_def)
qed

end
