(* ===== verification/Group_System.thy ===== *)
theory Group_System
  imports Group_Adoption Group_Decision Group_Preview Group_Split
begin

text \<open>
  All operations on the thread graph as one step relation: whatever sequence of observations,
  reconciliations, operator decisions, merges, splits and attachments ran, with whatever
  clocks and arguments, and whether they succeeded or stopped in the middle, the graph invariant
  holds. A step is one committed transaction: the main transaction of a reconciliation and each of
  its later looks at a pending observation are steps of their own, and other operations may come
  between them.
\<close>

lemma decide_new_ok:
  assumes "graph_ok db" "decide_new env owner_of c decision actor reason now db = Inr (out, db')"
  shows "graph_ok db'"
proof (cases "candidate_subject c db")
  case (Some x)
  obtain st sk where "x = (st, sk)" by (cases x)
  with decide_new_effect [OF assms(1) _ assms(2)] Some show ?thesis by simp
next
  case None
  show ?thesis
  proof (rule decide_new_steps [OF assms(2)])
    fix db1 db2
    assume insert: "insert_decision env (decision_input c decision actor reason now db) db = Inr (do_decision out, db1)"
      and applied: "apply_decision env owner_of c (candidate_subject c db)
       (operator_group_owner decision (candidate_subject c db) db) decision (do_decision out) now db1
       = Inr ((do_relation out, do_state out), db2)"
      and db': "db' = snd (update_selection env (as_id c) (as_state c) (do_state out) (as_observation c) now db2)"
    from applied have "db2 = db1"
      by (auto simp: None apply_decision_def confirm_candidate_def retract_decided_def elim!: and_then_InrE
          split: if_splits)
    then have "same_graph db db'"
      using same_graph_trans [OF insert_decision_same [OF insert] update_selection_same] db' by simp
    then show ?thesis by (rule graph_ok_same [OF _ assms(1)])
  qed
qed

lemma record_operator_decision_ok:
  assumes "graph_ok db" "record_operator_decision env enabled owner_of a decision actor reason now db = Inr (out, db')"
  shows "graph_ok db'"
  by (rule record_operator_decision_Inr [OF assms(2)]) (use assms(1) decide_new_ok in \<open>auto split: if_splits\<close>)

lemma merge_groups_ok:
  assumes "graph_ok db" "merge_groups env enabled source target actor reason now db = Inr (out, db')"
  shows "graph_ok db'"
proof (cases "mo_already out")
  case True
  with assms show ?thesis
    by (auto simp: merge_groups_def elim!: and_then_InrE split: option.splits if_splits)
next
  case False
  note new = merge_groups_new [OF assms(2) False]
  have placed: "placed_ok db" using assms(1) by (simp add: graph_ok_def)
  from new(6) obtain n where run: "merge_tx env source target actor reason now db = Inr (n, db')" by blast
  show ?thesis
  proof (rule merge_tx_result [OF placed new(1-3), of env actor reason now])
    fix db5
    assume tx: "merge_tx env source target actor reason now db =
      and_then (append_audit env source actor reason (AuditMerge target) now db5)
        (\<lambda>(_, db6). Inr (count_current source db, db6))"
      and db5: "placed_ok db5" "db_relations db5 = db_relations db"
    from run [unfolded tx] obtain i where "append_audit env source actor reason (AuditMerge target) now db5 = Inr (i, db')"
      by (auto elim!: and_then_InrE)
    from append_audit_same [OF this] show ?thesis
      by (rule graph_ok_same) (use assms(1) db5 in \<open>simp add: graph_ok_def active_edges_def\<close>)
  qed
qed

lemma split_group_ok:
  assumes "graph_ok db" "split_group_command env backend enabled source parts actor reason now db = Inr (ids, db')"
  shows "graph_ok db'"
proof -
  from assms(2) have "db' = db \<or> (\<exists>g. g_id g = source \<and> find_group source db = Some g \<and> g_status g = GroupActive
      \<and> split_tx env g parts actor reason now db = Inr (ids, db'))"
    by (auto simp: split_group_command_def dest: find_in_groups split: option.splits if_splits audit_detail.splits)
  then show ?thesis
  proof
    assume "\<exists>g. g_id g = source \<and> find_group source db = Some g \<and> g_status g = GroupActive
      \<and> split_tx env g parts actor reason now db = Inr (ids, db')"
    then obtain g where g: "g_id g = source" "find_group source db = Some g" "g_status g = GroupActive"
      and run: "split_tx env g parts actor reason now db = Inr (ids, db')" by metis
    then have "group_active (g_id g) db" by (simp add: group_active_iff)
    from split_tx_effect [OF assms(1) this run] show ?thesis by blast
  qed (use assms(1) in simp)
qed

lemma attach_member_ok:
  assumes "graph_ok db" "attach_member env enabled i t key endpoint now db = Inr db'"
  shows "graph_ok db'"
  using attach_member_effect [OF assms] by blast

lemma ensure_key_same:
  "ensure_thread_canonical_key env enabled t user fresh now db = Inr (k, db') \<Longrightarrow> same_graph db db'"
  by (auto simp: ensure_thread_canonical_key_def elim!: and_then_InrE dest: assign_key_same split: option.splits if_splits)

subsection \<open>The step relation\<close>

inductive group_step :: "operator_db \<Rightarrow> operator_db \<Rightarrow> bool" where
  observed: "record_observation_and_event env input state event thread operation_id now db = Inr (out, db') \<Longrightarrow>
    group_step db db'"
| reconciled: "reconcile_tx env owner_of t subject inputs operation_id now owner guard db = Inr (result, db') \<Longrightarrow>
    group_step db db'"
| late_reconciled: "reconcile_pending_observation env i operation_id now db = Inr db' \<Longrightarrow> group_step db db'"
| decided: "record_operator_decision env enabled owner_of a decision actor reason now db = Inr (out, db') \<Longrightarrow>
    group_step db db'"
| keyed: "ensure_thread_canonical_key env enabled t user fresh now db = Inr (key, db') \<Longrightarrow> group_step db db'"
| merged: "merge_groups env enabled source target actor reason now db = Inr (merge_out, db') \<Longrightarrow> group_step db db'"
| split_up: "split_group_command env backend enabled source parts actor reason now db = Inr (ids, db') \<Longrightarrow>
    group_step db db'"
| attached: "attach_member env enabled i t key endpoint now db = Inr db' \<Longrightarrow> group_step db db'"

definition fresh_tables :: "operator_db \<Rightarrow> bool" where
  "fresh_tables db \<longleftrightarrow> db_groups db = [] \<and> db_members db = [] \<and> db_relations db = []"

lemma fresh_graph_ok: "fresh_tables db \<Longrightarrow> graph_ok db"
  by (simp add: fresh_tables_def graph_ok_def placed_ok_def tables_ok_def redirects_flat_def active_edges_def acyclic_def)

lemma group_step_ok: "group_step db db' \<Longrightarrow> graph_ok db \<Longrightarrow> graph_ok db'"
proof (induction rule: group_step.induct)
  case (reconciled env owner_of t subject inputs operation_id now owner guard db result db')
  then show ?case by (cases result) (auto intro: reconcile_tx_ok)
qed (blast intro: graph_ok_same record_observation_same reconcile_pending_ok record_operator_decision_ok ensure_key_same
      merge_groups_ok split_group_ok attach_member_ok)+

text \<open>A whole reconciliation, its late transactions included, is a sequence of such steps.\<close>

lemma reconcile_late_steps:
  "reachable P group_step db \<Longrightarrow> reachable P group_step (snd (reconcile_late env late operation_id now db))"
proof (induction late arbitrary: db)
  case (Cons i late)
  show ?case
  proof (cases "reconcile_pending_observation env i operation_id now db")
    case (Inr db')
    have "reachable P group_step db'" by (rule reachable.reach_step [OF Cons.prems group_step.late_reconciled [OF Inr]])
    from Cons.IH [OF this] Inr show ?thesis by simp
  qed (simp add: Cons.prems)
qed simp

lemma reconcile_inner_steps:
  assumes "reachable P group_step db"
  shows "reachable P group_step
    (snd (reconcile_subject_inner env enabled owner_of t subject inputs operation_id now owner guard db))"
proof (cases "reconcile_tx env owner_of t subject inputs operation_id now owner guard db")
  case (Inr x)
  obtain result late db1 where x: "x = ((result, late), db1)" by (metis surj_pair)
  have "reachable P group_step db1" by (rule reachable.reach_step [OF assms group_step.reconciled [OF Inr [unfolded x]]])
  from reconcile_late_steps [OF this, of env late operation_id now] assms Inr x show ?thesis
    by (auto simp: reconcile_subject_inner_def split: prod.split option.split)
qed (use assms in \<open>simp add: reconcile_subject_inner_def\<close>)

interpretation graph: invariant_system fresh_tables group_step graph_ok
  by unfold_locales (auto intro: fresh_graph_ok group_step_ok)

text \<open>
  In every state the operations can reach from empty tables, a thread has at most one
  current membership, in an active group; a redirected group points at one that is not
  redirected; and no thread is its own ancestor.
\<close>

theorem reachable_graph_sound:
  assumes "reachable fresh_tables group_step db"
  shows "distinct (map mb_key (filter is_current (db_members db)))
    \<and> (case find_current k db of None \<Rightarrow> True | Some m \<Rightarrow> group_active (mb_group m) db)
    \<and> (case Option.bind (Option.bind (find_group i db) g_redirect) (\<lambda>t. find_group t db) of
        None \<Rightarrow> True | Some g \<Rightarrow> g_redirect g = None)
    \<and> (k, k) \<notin> (active_edges db)\<^sup>+"
proof -
  have ok: "graph_ok db" by (rule graph.reachable_inv [OF assms])
  then have placed: "placed_ok db" and acyc: "acyclic (active_edges db)" by (simp_all add: graph_ok_def)
  note place = placed_okD [OF placed]
  have "case find_current k db of None \<Rightarrow> True | Some m \<Rightarrow> group_active (mb_group m) db"
    using place(3) by (auto split: option.split)
  moreover have "case Option.bind (Option.bind (find_group i db) g_redirect) (\<lambda>t. find_group t db) of
        None \<Rightarrow> True | Some g \<Rightarrow> g_redirect g = None"
    using place(2) redirects_flat_iff [OF place(1)]
    by (auto simp: bind_eq_Some_conv bind_eq_None_conv split: option.split) (metis option.inject)
  ultimately show ?thesis using place(1) acyc by (simp add: tables_ok_def acyclic_def)
qed

definition start_tables :: operator_db where
  "start_tables = \<lparr>db_drawn = 0, db_groups = [], db_members = [], db_relations = [],
     db_observations = [], db_associations = [], db_identities = [], db_keys = [], db_markers = [],
     db_decisions = [], db_outbox = [], db_audits = []\<rparr>"

definition first_run :: operator_db where
  "first_run = snd (reconcile_subject_inner plain_env True (\<lambda>_. None) 13 (sample_endpoint ''c'')
     [sample_input ''c'' (Some ''p'') ''exact''] ''run 1'' 60 7 False start_tables)"

theorem reachable_graph_sound_witness:
  "reachable fresh_tables group_step first_run \<and> length (db_members first_run) = 1
     \<and> (''c'', ''c'') \<notin> (active_edges first_run)\<^sup>+"
proof -
  have "fresh_tables start_tables" by (simp add: fresh_tables_def start_tables_def)
  then have "reachable fresh_tables group_step start_tables" by (rule reachable.reach_init)
  then have reach: "reachable fresh_tables group_step first_run"
    unfolding first_run_def by (rule reconcile_inner_steps)
  moreover have "length (db_members first_run) = 1" by code_simp
  ultimately show ?thesis using reachable_graph_sound [OF reach] by blast
qed

end
