(* ===== verification/Media_Objects.thy ===== *)
theory Media_Objects
  imports Store_Prelude "HOL-Library.Word"
begin

text \<open>
  The table \<open>media_object\<close> (\<open>infra/src/infra/media_object/rdb.rs\<close>), one definition per SQL
  statement, the object keys and the storage contract (\<open>infra/src/infra/media_storage.rs\<close> and the
  inline backend), and the pure helpers of \<open>app/src/app/media.rs\<close>.

  A table is a list of rows. A conditional \<open>UPDATE\<close> is a map over it together with whether a
  row was affected. The column \<open>gc_state\<close> stays an integer, as in the code.
\<close>

subsection \<open>Rows\<close>

definition gc_active :: int where [simp]: "gc_active = 0"
definition gc_orphan :: int where [simp]: "gc_orphan = 1"
definition gc_deleted_failed :: int where [simp]: "gc_deleted_failed = 2"
definition gc_unresolvable :: int where [simp]: "gc_unresolvable = 3"
definition gc_promoting :: int where [simp]: "gc_promoting = 4"
definition gc_deleting :: int where [simp]: "gc_deleting = 5"

record media_row =
  mo_id :: int
  mo_kind :: int
  mo_media_type :: string
  mo_byte_size :: "int option"
  mo_sha256 :: "string option"
  mo_width :: "int option"
  mo_height :: "int option"
  mo_duration_ms :: "int option"
  mo_storage_backend :: string
  mo_storage_uri :: "string option"
  mo_alt :: "string option"
  mo_ref_count :: int
  mo_gc_state :: int
  mo_metadata :: "string option"
  mo_created_at :: int
  mo_updated_at :: int

record media_reservation =
  rs_id :: int
  rs_kind :: int
  rs_media_type :: string
  rs_byte_size :: "int option"
  rs_sha256 :: string
  rs_width :: "int option"
  rs_height :: "int option"
  rs_duration_ms :: "int option"
  rs_alt :: "string option"
  rs_created_at :: int
  rs_updated_at :: int

type_synonym media_table = "media_row list"

text \<open>The errors of the application layer that this code raises.\<close>

datatype media_error =
    Media_Missing int
  | Aborted string
  | Failed_Precondition int
  | Invalid_Media string
  | Media_Runtime string
  | Resource_Exhausted int
  | Object_Missing string
  | Media_Db_Error

subsection \<open>Statements\<close>

text \<open>The effect of \<open>UPDATE media_object SET ... WHERE id = i AND guard\<close>: the table after it and
  whether \<open>rows_affected\<close> is one.\<close>

definition update_media ::
  "(media_row \<Rightarrow> bool) \<Rightarrow> (media_row \<Rightarrow> media_row) \<Rightarrow> int \<Rightarrow> media_table \<Rightarrow> media_table \<times> bool" where
  "update_media guard f i rows =
     (map (\<lambda>r. if mo_id r = i \<and> guard r then f r else r) rows,
      list_ex (\<lambda>r. mo_id r = i \<and> guard r) rows)"

definition find_media :: "int \<Rightarrow> media_table \<Rightarrow> media_row option" where
  "find_media i rows = List.find (\<lambda>r. mo_id r = i) rows"

definition find_by_sha256 :: "string \<Rightarrow> media_table \<Rightarrow> media_row option" where
  "find_by_sha256 sha rows = List.find (\<lambda>r. mo_sha256 r = Some sha) rows"

text \<open>An insert whose id exists violates the primary key. \<open>ON CONFLICT (sha256) DO NOTHING\<close>
  turns a second row with the same hash into \<open>False\<close>; \<open>NULL\<close> hashes never conflict.\<close>

definition insert_media :: "media_row \<Rightarrow> media_table \<Rightarrow> media_error + media_table \<times> bool" where
  "insert_media row rows =
     (if mo_sha256 row \<noteq> None \<and> list_ex (\<lambda>r. mo_sha256 r = mo_sha256 row) rows then Inr (rows, False)
      else if find_media (mo_id row) rows \<noteq> None then Inl Media_Db_Error
      else Inr (rows @ [row], True))"

definition reservation_row :: "media_reservation \<Rightarrow> media_row" where
  "reservation_row v =
     \<lparr>mo_id = rs_id v, mo_kind = rs_kind v, mo_media_type = rs_media_type v,
      mo_byte_size = rs_byte_size v, mo_sha256 = Some (rs_sha256 v), mo_width = rs_width v,
      mo_height = rs_height v, mo_duration_ms = rs_duration_ms v,
      mo_storage_backend = ''pending'', mo_storage_uri = None, mo_alt = rs_alt v,
      mo_ref_count = 0, mo_gc_state = 1, mo_metadata = None,
      mo_created_at = rs_created_at v, mo_updated_at = rs_updated_at v\<rparr>"

definition insert_reservation_tx ::
  "media_reservation \<Rightarrow> media_table \<Rightarrow> media_error + media_table \<times> bool" where
  "insert_reservation_tx v = insert_media (reservation_row v)"

definition url_row ::
  "int \<Rightarrow> int \<Rightarrow> int \<Rightarrow> string \<Rightarrow> int option \<Rightarrow> int option \<Rightarrow> int option \<Rightarrow> string \<Rightarrow> string option
   \<Rightarrow> media_row" where
  "url_row now i kind mt nbytes w h uri alt =
     \<lparr>mo_id = i, mo_kind = kind, mo_media_type = mt, mo_byte_size = nbytes, mo_sha256 = None,
      mo_width = w, mo_height = h, mo_duration_ms = None, mo_storage_backend = ''url'',
      mo_storage_uri = Some uri, mo_alt = alt, mo_ref_count = 0, mo_gc_state = 1,
      mo_metadata = None, mo_created_at = now, mo_updated_at = now\<rparr>"

definition insert_url_tx ::
  "int \<Rightarrow> int \<Rightarrow> int \<Rightarrow> string \<Rightarrow> int option \<Rightarrow> int option \<Rightarrow> int option \<Rightarrow> string \<Rightarrow> string option
   \<Rightarrow> media_table \<Rightarrow> media_error + media_table" where
  "insert_url_tx now i kind mt nbytes w h uri alt rows =
     (if find_media i rows \<noteq> None then Inl Media_Db_Error
      else Inr (rows @ [url_row now i kind mt nbytes w h uri alt]))"

definition unresolvable_row ::
  "int \<Rightarrow> int \<Rightarrow> int \<Rightarrow> string \<Rightarrow> int option \<Rightarrow> string \<Rightarrow> int option \<Rightarrow> int option \<Rightarrow> string option
   \<Rightarrow> media_row" where
  "unresolvable_row now i kind mt nbytes sha w h alt =
     \<lparr>mo_id = i, mo_kind = kind, mo_media_type = mt, mo_byte_size = nbytes, mo_sha256 = Some sha,
      mo_width = w, mo_height = h, mo_duration_ms = None, mo_storage_backend = ''unresolvable'',
      mo_storage_uri = None, mo_alt = alt, mo_ref_count = 0, mo_gc_state = 3,
      mo_metadata = None, mo_created_at = now, mo_updated_at = now\<rparr>"

definition insert_unresolvable_tx ::
  "int \<Rightarrow> int \<Rightarrow> int \<Rightarrow> string \<Rightarrow> int option \<Rightarrow> string \<Rightarrow> int option \<Rightarrow> int option \<Rightarrow> string option
   \<Rightarrow> media_table \<Rightarrow> media_error + media_table \<times> bool" where
  "insert_unresolvable_tx now i kind mt nbytes sha w h alt =
     insert_media (unresolvable_row now i kind mt nbytes sha w h alt)"

definition claim_promote_tx :: "int \<Rightarrow> int \<Rightarrow> media_table \<Rightarrow> media_table \<times> bool" where
  "claim_promote_tx now =
     update_media (\<lambda>r. mo_gc_state r \<in> {2, 3}) (\<lambda>r. r\<lparr>mo_gc_state := 4, mo_updated_at := now\<rparr>)"

text \<open>\<open>COALESCE(new, old)\<close>.\<close>

definition coalesce :: "'a option \<Rightarrow> 'a option \<Rightarrow> 'a option" where
  "coalesce a b = (if a = None then b else a)"

definition confirm_promote_tx ::
  "int \<Rightarrow> string \<Rightarrow> string \<Rightarrow> int option \<Rightarrow> int \<Rightarrow> string option \<Rightarrow> int \<Rightarrow> media_table
   \<Rightarrow> media_table \<times> bool" where
  "confirm_promote_tx now uri backend nbytes gc metadata =
     update_media (\<lambda>r. mo_gc_state r = 4)
       (\<lambda>r. r\<lparr>mo_storage_uri := Some uri, mo_storage_backend := backend, mo_byte_size := nbytes,
              mo_gc_state := gc, mo_metadata := coalesce metadata (mo_metadata r),
              mo_updated_at := now\<rparr>)"

definition confirm_reservation_tx ::
  "int \<Rightarrow> string \<Rightarrow> string \<Rightarrow> int option \<Rightarrow> string option \<Rightarrow> int \<Rightarrow> media_table
   \<Rightarrow> media_table \<times> bool" where
  "confirm_reservation_tx now uri backend nbytes metadata =
     update_media (\<lambda>r. mo_gc_state r = 1 \<and> mo_storage_uri r = None)
       (\<lambda>r. r\<lparr>mo_storage_uri := Some uri, mo_storage_backend := backend, mo_byte_size := nbytes,
              mo_metadata := coalesce metadata (mo_metadata r), mo_updated_at := now\<rparr>)"

definition register_promote_tx ::
  "int \<Rightarrow> string \<Rightarrow> string \<Rightarrow> int option \<Rightarrow> int \<Rightarrow> int \<Rightarrow> media_table \<Rightarrow> media_table \<times> bool" where
  "register_promote_tx now uri backend nbytes gc =
     update_media (\<lambda>r. mo_gc_state r \<in> {2, 3})
       (\<lambda>r. r\<lparr>mo_storage_uri := Some uri, mo_storage_backend := backend, mo_byte_size := nbytes,
              mo_gc_state := gc, mo_updated_at := now\<rparr>)"

definition revert_promoting_tx :: "int \<Rightarrow> int \<Rightarrow> media_table \<Rightarrow> media_table \<times> bool" where
  "revert_promoting_tx now =
     update_media (\<lambda>r. mo_gc_state r = 4) (\<lambda>r. r\<lparr>mo_gc_state := 3, mo_updated_at := now\<rparr>)"

definition claim_deleting_tx :: "int \<Rightarrow> int \<Rightarrow> media_table \<Rightarrow> media_table \<times> bool" where
  "claim_deleting_tx now =
     update_media (\<lambda>r. mo_ref_count r = 0 \<and> mo_gc_state r \<in> {0, 1})
       (\<lambda>r. r\<lparr>mo_gc_state := 5, mo_updated_at := now\<rparr>)"

definition mark_delete_failed_tx :: "int \<Rightarrow> int \<Rightarrow> media_table \<Rightarrow> media_table \<times> bool" where
  "mark_delete_failed_tx now =
     update_media (\<lambda>r. mo_gc_state r = 5) (\<lambda>r. r\<lparr>mo_gc_state := 2, mo_updated_at := now\<rparr>)"

definition revert_deleting_tx :: "int \<Rightarrow> int \<Rightarrow> media_table \<Rightarrow> media_table \<times> bool" where
  "revert_deleting_tx now =
     update_media (\<lambda>r. mo_gc_state r = 5) (\<lambda>r. r\<lparr>mo_gc_state := 1, mo_updated_at := now\<rparr>)"

definition delete_if_unreferenced_tx :: "int \<Rightarrow> media_table \<Rightarrow> media_table \<times> bool" where
  "delete_if_unreferenced_tx i rows =
     (let hit = (\<lambda>r. mo_id r = i \<and> mo_ref_count r = 0 \<and> mo_gc_state r \<in> {0, 1, 5})
      in (filter (\<lambda>r. \<not> hit r) rows, list_ex hit rows))"

definition incr_ref_tx :: "int \<Rightarrow> int \<Rightarrow> media_table \<Rightarrow> media_table \<times> bool" where
  "incr_ref_tx now =
     update_media (\<lambda>r. mo_gc_state r \<notin> {2, 5})
       (\<lambda>r. r\<lparr>mo_ref_count := mo_ref_count r + 1,
              mo_gc_state := (if mo_gc_state r = 1 \<and> mo_storage_uri r \<noteq> None then 0
                              else mo_gc_state r),
              mo_updated_at := now\<rparr>)"

definition lock_and_incr_ref_tx :: "int \<Rightarrow> int \<Rightarrow> media_table \<Rightarrow> media_error + media_table" where
  "lock_and_incr_ref_tx now i rows =
     (case find_media i rows of
        None \<Rightarrow> Inl (Invalid_Media ''media_object not found'')
      | Some _ \<Rightarrow>
          (case incr_ref_tx now i rows of
             (rows', ok) \<Rightarrow>
               if ok then Inr rows'
               else Inl (Invalid_Media ''media_object pending GC recovery or being deleted'')))"

text \<open>\<open>decr_ref_tx\<close>: the decremented row of \<open>RETURNING\<close>, if one was affected.\<close>

definition decr_ref_tx :: "int \<Rightarrow> int \<Rightarrow> media_table \<Rightarrow> media_table \<times> media_row option" where
  "decr_ref_tx now i rows =
     (let rows' = fst (update_media (\<lambda>r. mo_ref_count r > 0)
                    (\<lambda>r. r\<lparr>mo_ref_count := mo_ref_count r - 1, mo_updated_at := now\<rparr>) i rows)
      in (rows', if list_ex (\<lambda>r. mo_id r = i \<and> mo_ref_count r > 0) rows then find_media i rows'
                 else None))"

definition reconcile_ref_count_tx :: "int \<Rightarrow> int \<Rightarrow> int \<Rightarrow> int \<Rightarrow> media_table \<Rightarrow> media_table \<times> bool" where
  "reconcile_ref_count_tx now i expected actual =
     update_media (\<lambda>r. mo_ref_count r = expected \<and> mo_gc_state r \<in> {0, 1})
       (\<lambda>r. r\<lparr>mo_ref_count := actual, mo_updated_at := now\<rparr>) i"

definition reclaim_deleted_failed_tx :: "int \<Rightarrow> int \<Rightarrow> media_table \<Rightarrow> media_table \<times> bool" where
  "reclaim_deleted_failed_tx now =
     update_media (\<lambda>r. mo_ref_count r = 0 \<and> mo_gc_state r = 2)
       (\<lambda>r. r\<lparr>mo_gc_state := 5, mo_updated_at := now\<rparr>)"
subsection \<open>Scans\<close>

definition list_orphan_reservations :: "int \<Rightarrow> media_table \<Rightarrow> media_table" where
  "list_orphan_reservations before =
     filter (\<lambda>r. mo_gc_state r = 1 \<and> mo_storage_uri r = None \<and> mo_ref_count r = 0
                 \<and> mo_created_at r < before)"

definition list_promoting_stale :: "int \<Rightarrow> media_table \<Rightarrow> media_table" where
  "list_promoting_stale before =
     filter (\<lambda>r. mo_gc_state r = 4 \<and> mo_storage_uri r = None \<and> mo_updated_at r < before)"

definition list_deleting_stale :: "int \<Rightarrow> media_table \<Rightarrow> media_table" where
  "list_deleting_stale before =
     filter (\<lambda>r. mo_gc_state r = 5 \<and> mo_storage_uri r \<noteq> None \<and> mo_updated_at r < before)"

definition list_confirmed_orphans :: "int \<Rightarrow> media_table \<Rightarrow> media_table" where
  "list_confirmed_orphans before =
     filter (\<lambda>r. mo_gc_state r = 1 \<and> mo_storage_uri r \<noteq> None \<and> mo_created_at r < before)"

definition list_deleted_failed_confirmed :: "media_table \<Rightarrow> media_table" where
  "list_deleted_failed_confirmed =
     filter (\<lambda>r. mo_gc_state r = 2 \<and> mo_storage_uri r \<noteq> None)"

record ref_count_desync =
  ds_id :: int
  ds_db_ref_count :: int
  ds_actual_ref_count :: int
  ds_gc_state :: int
  ds_storage_backend :: string

text \<open>The column \<open>memory.media_object_id\<close> by memory id.\<close>

type_synonym memory_links = "(int \<times> int option) list"

definition actual_refs :: "int \<Rightarrow> memory_links \<Rightarrow> int" where
  "actual_refs i mems = int (length (filter (\<lambda>(_, link). link = Some i) mems))"

definition list_ref_count_desync :: "memory_links \<Rightarrow> media_table \<Rightarrow> ref_count_desync list" where
  "list_ref_count_desync mems rows =
     map (\<lambda>r. \<lparr>ds_id = mo_id r, ds_db_ref_count = mo_ref_count r,
                ds_actual_ref_count = actual_refs (mo_id r) mems,
                ds_gc_state = mo_gc_state r, ds_storage_backend = mo_storage_backend r\<rparr>)
       (filter (\<lambda>r. mo_storage_uri r \<noteq> None \<and> mo_ref_count r \<noteq> actual_refs (mo_id r) mems) rows)"

subsection \<open>Storage\<close>

datatype storage_error =
    Too_Large int
  | Storage_Not_Found string
  | Storage_Backend_Error
  | Storage_Io

type_synonym object_store = "string \<rightharpoonup> string"

definition u64_max :: int where "u64_max = 18446744073709551615"

text \<open>\<open>put_streaming\<close>: reads the chunk stream to its end, stopping at a failed chunk or as soon as
  the sum, which saturates, exceeds the limit.\<close>

fun put_chunks ::
  "int \<Rightarrow> int \<Rightarrow> string \<Rightarrow> (storage_error + string) list \<Rightarrow> storage_error + string \<times> int" where
  "put_chunks limit sofar buf [] = Inr (buf, sofar)"
| "put_chunks limit sofar buf (Inl e # cs) = Inl e"
| "put_chunks limit sofar buf (Inr c # cs) =
     (let sofar' = min (sofar + int (length c)) u64_max
      in if sofar' > limit then Inl (Too_Large sofar')
         else put_chunks limit sofar' (buf @ c) cs)"

definition put_streaming ::
  "string \<Rightarrow> (storage_error + string) list \<Rightarrow> int \<Rightarrow> object_store \<Rightarrow> storage_error + object_store \<times> int" where
  "put_streaming key chunks limit store =
     (case put_chunks limit 0 [] chunks of
        Inl e \<Rightarrow> Inl e
      | Inr (buf, sofar) \<Rightarrow> Inr (store(key \<mapsto> buf), sofar))"

definition storage_copy :: "string \<Rightarrow> string \<Rightarrow> object_store \<Rightarrow> storage_error + object_store" where
  "storage_copy src dst store =
     (case store src of None \<Rightarrow> Inl (Storage_Not_Found src) | Some b \<Rightarrow> Inr (store(dst \<mapsto> b)))"

definition storage_delete :: "string \<Rightarrow> object_store \<Rightarrow> object_store" where
  "storage_delete key store = store(key := None)"

definition storage_head :: "string \<Rightarrow> object_store \<Rightarrow> int option" where
  "storage_head key store = map_option (\<lambda>b. int (length b)) (store key)"

definition take_bytes :: "string \<Rightarrow> object_store \<Rightarrow> object_store \<times> string option" where
  "take_bytes key store = (store(key := None), store key)"

definition final_key :: "string \<Rightarrow> string \<Rightarrow> string" where
  "final_key pre sha =
     (if length sha < 4 then pre @ sha
      else pre @ take 2 sha @ ''/'' @ take 2 (drop 2 sha) @ ''/'' @ sha)"

definition temp_key :: "string \<Rightarrow> int \<Rightarrow> string" where
  "temp_key pre upload = pre @ ''_tmp/'' @ show_int upload"

fun path_components :: "string \<Rightarrow> string list" where
  "path_components [] = [[]]"
| "path_components (c # cs) =
     (if c = CHR ''/'' then [] # path_components cs
      else (c # hd (path_components cs)) # tl (path_components cs))"

text \<open>\<open>validate_storage_key\<close> on Unix paths: the only root is a leading slash, and there are no
  prefixes.\<close>

definition validate_storage_key :: "string \<Rightarrow> bool" where
  "validate_storage_key key \<longleftrightarrow>
     key \<noteq> [] \<and> hd key \<noteq> CHR ''/'' \<and> ''..'' \<notin> set (path_components key)"

subsection \<open>Helpers of the application\<close>

record upload_header =
  uh_kind :: int
  uh_media_type :: string
  uh_alt :: "string option"
  uh_width :: "32 word option"
  uh_height :: "32 word option"

record media_env =
  me_id :: "nat \<Rightarrow> int"
  me_sha :: "string \<Rightarrow> string"
  me_b64 :: "string \<Rightarrow> string"
  me_prefix :: string
  me_backend :: string
  me_max_bytes :: int

definition map_storage_err :: "storage_error \<Rightarrow> media_error" where
  "map_storage_err e =
     (case e of Too_Large n \<Rightarrow> Resource_Exhausted n | Storage_Not_Found k \<Rightarrow> Object_Missing k
      | _ \<Rightarrow> Media_Runtime ''storage'')"

definition inline_metadata_json :: "media_env \<Rightarrow> string \<Rightarrow> string" where
  "inline_metadata_json e bytes =
     [CHR ''{'', CHR 0x22] @ ''inline_b64'' @ [CHR 0x22, CHR '':'', CHR 0x22] @ me_b64 e bytes
       @ [CHR 0x22, CHR ''}'']"

definition confirm_args ::
  "media_env \<Rightarrow> string \<Rightarrow> string \<Rightarrow> object_store \<Rightarrow> media_error + object_store \<times> string \<times> string option" where
  "confirm_args e sha fkey store =
     (if me_backend e = ''inline'' then
        (case take_bytes fkey store of
           (store', None) \<Rightarrow> Inl (Media_Runtime ''inline buffer missing on confirm'')
         | (store', Some b) \<Rightarrow> Inr (store', ''inline:'' @ sha, Some (inline_metadata_json e b)))
      else Inr (store, fkey, None))"

definition hex_digits :: string where "hex_digits = ''0123456789abcdefABCDEF''"

definition validate_sha256_hex :: "string \<Rightarrow> bool" where
  "validate_sha256_hex sha \<longleftrightarrow> length sha = 64 \<and> set sha \<subseteq> set hex_digits"

definition dimension_column :: "32 word option \<Rightarrow> int option" where
  "dimension_column = map_option sint"

record media_metadata =
  mm_id :: int
  mm_kind :: int
  mm_media_type :: string
  mm_byte_size :: "int option"
  mm_width :: "32 word option"
  mm_height :: "32 word option"
  mm_duration_ms :: "int option"
  mm_alt :: "string option"
  mm_sha256 :: "string option"

definition row_to_metadata :: "media_row \<Rightarrow> media_metadata" where
  "row_to_metadata r =
     \<lparr>mm_id = mo_id r, mm_kind = mo_kind r, mm_media_type = mo_media_type r,
      mm_byte_size = mo_byte_size r, mm_width = map_option word_of_int (mo_width r),
      mm_height = map_option word_of_int (mo_height r), mm_duration_ms = mo_duration_ms r,
      mm_alt = mo_alt r, mm_sha256 = mo_sha256 r\<rparr>"

text \<open>\<open>media_payload_metadata\<close> and \<open>resolve\<close>: a row whose body is absent is unresolved.\<close>

definition unresolved :: "media_row \<Rightarrow> bool" where
  "unresolved r \<longleftrightarrow>
     mo_storage_backend r = ''unresolvable'' \<or> mo_storage_uri r = None \<or> mo_gc_state r \<in> {3, 4}"

record resolve_outcome =
  ro_url :: "string option"
  ro_expires_at :: "int option"
  ro_unresolved :: bool

text \<open>\<open>resolve\<close>. Reading the base64 text of the metadata column (\<open>inline_text\<close>) and presigning
  (\<open>presign\<close>, which fails with a storage error) are arguments.\<close>

definition resolve_media ::
  "int \<Rightarrow> int \<Rightarrow> (string \<Rightarrow> string option) \<Rightarrow> (string \<Rightarrow> int \<Rightarrow> storage_error + string \<times> int) \<Rightarrow> int option
   \<Rightarrow> int \<Rightarrow> media_table \<Rightarrow> media_error + resolve_outcome" where
  "resolve_media now default_ttl inline_text presign ttl_sec i rows =
     (case find_media i rows of
        None \<Rightarrow> Inl (Media_Missing i)
      | Some r \<Rightarrow>
          (let ttl = (case ttl_sec of Some t \<Rightarrow> t | None \<Rightarrow> default_ttl) in
           if unresolved r then Inr \<lparr>ro_url = None, ro_expires_at = None, ro_unresolved = True\<rparr>
           else if mo_storage_backend r = ''url'' then
             Inr \<lparr>ro_url = mo_storage_uri r, ro_expires_at = None, ro_unresolved = False\<rparr>
           else if mo_storage_backend r = ''inline'' then
             (case Option.bind (mo_metadata r) inline_text of
                None \<Rightarrow> Inl (Media_Runtime ''inline media missing inline_b64 metadata'')
              | Some b64 \<Rightarrow>
                  Inr \<lparr>ro_url = Some (''data:'' @ mo_media_type r @ '';base64,'' @ b64),
                       ro_expires_at = Some (now + ttl * 1000), ro_unresolved = False\<rparr>)
           else
             (case mo_storage_uri r of
                None \<Rightarrow> Inl (Media_Runtime ''confirmed media has NULL storage_uri'')
              | Some key \<Rightarrow>
                  (case presign key ttl of
                     Inl err \<Rightarrow> Inl (map_storage_err err)
                   | Inr (url, expires) \<Rightarrow>
                       Inr \<lparr>ro_url = Some url, ro_expires_at = Some expires, ro_unresolved = False\<rparr>))))"

end
