(* ===== verification/Media_System.thy ===== *)
theory Media_System
  imports Media_Objects
begin

text \<open>
  The requests on media objects (\<open>app/src/app/media.rs\<close>), the reference counting of memory writes
  (\<open>app/src/app/memory.rs\<close>) and the deferred sweep
  (\<open>grpc-admin/src/bin/cleanup_orphan_media.rs\<close>) as jobs that run one transaction or one storage
  call at a time. A state is the table, the object store, the media links of the memories and
  the number of ids drawn; a system is a state with the jobs in flight. \<open>advance\<close> runs the next
  transaction or storage call of a job; \<open>media_step\<close> interleaves jobs, memory writes, sweeps and
  crashes in any order. \<open>me_id e n\<close> is the \<open>n\<close>-th id of the generator, \<open>now\<close> the clock at the step,
  and \<open>io\<close> whether the storage call of the step succeeds.
\<close>

subsection \<open>State and jobs\<close>

record media_core =
  mc_rows :: media_table
  mc_store :: object_store
  mc_links :: memory_links
  mc_drawn :: nat

record upload_ctx =
  uc_header :: upload_header
  uc_temp :: string
  uc_sha :: string
  uc_count :: int

record register_params =
  rp_kind :: int
  rp_media_type :: string
  rp_storage_uri :: string
  rp_sha256 :: "string option"
  rp_byte_size :: "int option"
  rp_width :: "32 word option"
  rp_height :: "32 word option"
  rp_alt :: "string option"
  rp_storage_backend :: string

datatype media_result =
    Uploaded int bool
  | Registered media_metadata
  | Handled

datatype media_job =
    Upload_Temp upload_ctx
  | Upload_Reserved upload_ctx int
  | Upload_Rollback upload_ctx int media_error
  | Upload_Copied upload_ctx int
  | Upload_Conflict upload_ctx media_row
  | Promote_Lost upload_ctx int
  | Promote_Claimed upload_ctx int
  | Promote_Copied upload_ctx int
  | Promote_Confirm upload_ctx int int
  | Register_Checked register_params string int
  | Delete_Read int media_row
  | Delete_Claimed int media_row
  | Delete_Row int
  | Delete_Failed int
  | Gc_Confirmed media_row
  | Gc_Reservation media_row
  | Gc_Reservation_Row media_row
  | Gc_Promoting media_row
  | Gc_Promoting_Row media_row
  | Gc_Deleting media_row
  | Gc_Failed media_row
  | Gc_Desync ref_count_desync
  | Gc_Desync_Read int
  | Crashed
  | Finished "media_error + media_result"

abbreviation drop_temp :: "upload_ctx \<Rightarrow> media_core \<Rightarrow> media_core" where
  "drop_temp c st \<equiv> st\<lparr>mc_store := storage_delete (uc_temp c) (mc_store st)\<rparr>"

subsection \<open>Upload\<close>

definition ok_chunk :: "storage_error + string \<Rightarrow> string" where
  "ok_chunk c = (case c of Inl _ \<Rightarrow> [] | Inr b \<Rightarrow> b)"

text \<open>Stages 1 and 2: the temporary object is written while the hash is computed.\<close>

definition upload_put ::
  "media_env \<Rightarrow> upload_header \<Rightarrow> (storage_error + string) list \<Rightarrow> media_core \<Rightarrow> media_core \<times> media_job" where
  "upload_put e header chunks st =
     (let tkey = temp_key (me_prefix e) (me_id e (mc_drawn st));
          st1 = st\<lparr>mc_drawn := mc_drawn st + 1\<rparr>
      in case put_streaming tkey chunks (me_max_bytes e) (mc_store st) of
           Inl err \<Rightarrow> (st1, Finished (Inl (map_storage_err err)))
         | Inr (store', n) \<Rightarrow>
             (st1\<lparr>mc_store := store'\<rparr>,
              Upload_Temp \<lparr>uc_header = header, uc_temp = tkey,
                           uc_sha = me_sha e (concat (map ok_chunk chunks)), uc_count = n\<rparr>))"

definition upload_reservation :: "int \<Rightarrow> int \<Rightarrow> upload_ctx \<Rightarrow> media_reservation" where
  "upload_reservation now i c =
     \<lparr>rs_id = i, rs_kind = uh_kind (uc_header c), rs_media_type = uh_media_type (uc_header c),
      rs_byte_size = Some (wrap_i64 (uc_count c)), rs_sha256 = uc_sha c,
      rs_width = dimension_column (uh_width (uc_header c)),
      rs_height = dimension_column (uh_height (uc_header c)), rs_duration_ms = None,
      rs_alt = uh_alt (uc_header c), rs_created_at = now, rs_updated_at = now\<rparr>"

text \<open>Stage 3: the reservation, committed at once; on a conflict the row that holds the hash.\<close>

definition upload_reserve :: "media_env \<Rightarrow> int \<Rightarrow> upload_ctx \<Rightarrow> media_core \<Rightarrow> media_core \<times> media_job" where
  "upload_reserve e now c st =
     (let i = me_id e (mc_drawn st); st1 = st\<lparr>mc_drawn := mc_drawn st + 1\<rparr>
      in case insert_reservation_tx (upload_reservation now i c) (mc_rows st) of
           Inl err \<Rightarrow> (st1, Finished (Inl err))
         | Inr (rows', True) \<Rightarrow> (st1\<lparr>mc_rows := rows'\<rparr>, Upload_Reserved c i)
         | Inr (rows', False) \<Rightarrow>
             (case find_by_sha256 (uc_sha c) (mc_rows st) of
                None \<Rightarrow> (st1, Finished (Inl (Media_Runtime ''reservation conflict but row not found'')))
              | Some row \<Rightarrow> (st1, Upload_Conflict c row)))"

text \<open>A storage call that fails returns an I/O error and has no effect.\<close>

definition copy_call :: "bool \<Rightarrow> string \<Rightarrow> string \<Rightarrow> object_store \<Rightarrow> storage_error + object_store" where
  "copy_call io src dst store = (if io then storage_copy src dst store else Inl Storage_Io)"

definition fresh_copy :: "media_env \<Rightarrow> bool \<Rightarrow> upload_ctx \<Rightarrow> int \<Rightarrow> media_core \<Rightarrow> media_core \<times> media_job" where
  "fresh_copy e io c i st =
     (case copy_call io (uc_temp c) (final_key (me_prefix e) (uc_sha c)) (mc_store st) of
        Inl err \<Rightarrow> (st, Upload_Rollback c i (map_storage_err err))
      | Inr store' \<Rightarrow> (st\<lparr>mc_store := store'\<rparr>, Upload_Copied c i))"

definition fresh_rollback :: "upload_ctx \<Rightarrow> int \<Rightarrow> media_error \<Rightarrow> media_core \<Rightarrow> media_core \<times> media_job" where
  "fresh_rollback c i err st =
     (drop_temp c (st\<lparr>mc_rows := fst (delete_if_unreferenced_tx i (mc_rows st))\<rparr>),
      Finished (Inl err))"

definition fresh_confirm :: "media_env \<Rightarrow> int \<Rightarrow> upload_ctx \<Rightarrow> int \<Rightarrow> media_core \<Rightarrow> media_core \<times> media_job" where
  "fresh_confirm e now c i st =
     (case confirm_args e (uc_sha c) (final_key (me_prefix e) (uc_sha c)) (mc_store st) of
        Inl err \<Rightarrow> (st, Finished (Inl err))
      | Inr (store', uri, metadata) \<Rightarrow>
          (case confirm_reservation_tx now uri (me_backend e) (Some (wrap_i64 (uc_count c)))
                  metadata i (mc_rows st) of
             (rows', True) \<Rightarrow>
               (drop_temp c (st\<lparr>mc_rows := rows', mc_store := store'\<rparr>),
                Finished (Inr (Uploaded i False)))
           | (rows', False) \<Rightarrow>
               (st\<lparr>mc_rows := rows', mc_store := store'\<rparr>,
                Finished (Inl (Aborted ''reservation no longer confirmable'')))))"

text \<open>\<open>handle_upload_conflict\<close> up to the claim of \<open>promote_recover\<close>.\<close>

definition promote_claim :: "int \<Rightarrow> upload_ctx \<Rightarrow> int \<Rightarrow> media_core \<Rightarrow> media_core \<times> media_job" where
  "promote_claim now c i st =
     (case claim_promote_tx now i (mc_rows st) of
        (rows', True) \<Rightarrow> (st\<lparr>mc_rows := rows'\<rparr>, Promote_Claimed c i)
      | (rows', False) \<Rightarrow> (st\<lparr>mc_rows := rows'\<rparr>, Promote_Lost c i))"

definition handle_upload_conflict ::
  "int \<Rightarrow> upload_ctx \<Rightarrow> media_row \<Rightarrow> media_core \<Rightarrow> media_core \<times> media_job" where
  "handle_upload_conflict now c row st =
     (let gc = mo_gc_state row in
      if gc = gc_deleted_failed \<or> gc = gc_unresolvable then promote_claim now c (mo_id row) st
      else if (gc = 0 \<or> gc = gc_orphan) \<and> mo_storage_uri row \<noteq> None then
        (drop_temp c st, Finished (Inr (Uploaded (mo_id row) True)))
      else
        (drop_temp c st,
         Finished (Inl
           (if gc = gc_orphan then Aborted ''concurrent reservation in progress''
            else if gc = gc_promoting then Aborted ''concurrent promotion in progress''
            else if gc = gc_deleting then Aborted ''media is being deleted''
            else Media_Runtime ''unexpected gc_state on upload conflict''))))"

definition promote_lost :: "upload_ctx \<Rightarrow> int \<Rightarrow> media_core \<Rightarrow> media_core \<times> media_job" where
  "promote_lost c i st =
     (case find_media i (mc_rows st) of
        None \<Rightarrow> (st, Finished (Inl (Media_Runtime ''media row vanished during promote'')))
      | Some row \<Rightarrow> (st, Upload_Conflict c row))"

definition promote_copy :: "media_env \<Rightarrow> bool \<Rightarrow> upload_ctx \<Rightarrow> int \<Rightarrow> media_core \<Rightarrow> media_core \<times> media_job" where
  "promote_copy e io c i st =
     (case copy_call io (uc_temp c) (final_key (me_prefix e) (uc_sha c)) (mc_store st) of
        Inl err \<Rightarrow> (st, Finished (Inl (map_storage_err err)))
      | Inr store' \<Rightarrow> (st\<lparr>mc_store := store'\<rparr>, Promote_Copied c i))"

definition promote_read :: "upload_ctx \<Rightarrow> int \<Rightarrow> media_core \<Rightarrow> media_core \<times> media_job" where
  "promote_read c i st =
     (case find_media i (mc_rows st) of
        None \<Rightarrow> (st, Finished (Inl (Media_Runtime ''media row vanished post-claim'')))
      | Some row \<Rightarrow> (st, Promote_Confirm c i (if mo_ref_count row > 0 then 0 else gc_orphan)))"

definition promote_confirm ::
  "media_env \<Rightarrow> int \<Rightarrow> upload_ctx \<Rightarrow> int \<Rightarrow> int \<Rightarrow> media_core \<Rightarrow> media_core \<times> media_job" where
  "promote_confirm e now c i gc st =
     (case confirm_args e (uc_sha c) (final_key (me_prefix e) (uc_sha c)) (mc_store st) of
        Inl err \<Rightarrow> (st, Finished (Inl err))
      | Inr (store', uri, metadata) \<Rightarrow>
          (case confirm_promote_tx now uri (me_backend e) (Some (wrap_i64 (uc_count c))) gc
                  metadata i (mc_rows st) of
             (rows', True) \<Rightarrow>
               (drop_temp c (st\<lparr>mc_rows := rows', mc_store := store'\<rparr>),
                Finished (Inr (Uploaded i True)))
           | (rows', False) \<Rightarrow>
               (st\<lparr>mc_rows := rows', mc_store := store'\<rparr>,
                Finished (Inl (Aborted ''promotion confirm lost'')))))"
subsection \<open>Register\<close>

text \<open>The checks of \<open>register\<close> for a managed backend, the \<open>HEAD\<close> of the object included.\<close>

definition register_check ::
  "media_env \<Rightarrow> bool \<Rightarrow> register_params \<Rightarrow> object_store \<Rightarrow> media_error + string \<times> int" where
  "register_check e io p store =
     (if rp_storage_backend p \<noteq> me_backend e then Inl (Invalid_Media ''storage_backend mismatch'')
      else case rp_sha256 p of
        None \<Rightarrow> Inl (Invalid_Media ''sha256 is required for s3/file Register'')
      | Some sha \<Rightarrow>
          if \<not> validate_sha256_hex sha then Inl (Invalid_Media ''sha256 must be exactly 64 hex characters'')
          else (case rp_byte_size p of
            None \<Rightarrow> Inl (Invalid_Media ''byte_size is required for s3/file Register'')
          | Some declared \<Rightarrow>
              if \<not> validate_storage_key (rp_storage_uri p) then Inl (Invalid_Media ''invalid storage_uri'')
              else if \<not> io then Inl (map_storage_err Storage_Io)
              else (case storage_head (rp_storage_uri p) store of
                None \<Rightarrow> Inl (Invalid_Media ''object not found at storage_uri'')
              | Some n \<Rightarrow>
                  if wrap_i64 n \<noteq> declared then Inl (Invalid_Media ''byte_size mismatch'')
                  else Inr (sha, declared))))"

definition metadata_of :: "int \<Rightarrow> media_table \<Rightarrow> media_error + media_result" where
  "metadata_of i rows =
     (case find_media i rows of None \<Rightarrow> Inl (Media_Missing i) | Some r \<Rightarrow> Inr (Registered (row_to_metadata r)))"

definition register_conflict_terminal :: "media_row \<Rightarrow> media_table \<Rightarrow> media_error + media_result" where
  "register_conflict_terminal row rows =
     (if (mo_gc_state row = 0 \<or> mo_gc_state row = gc_orphan) \<and> mo_storage_uri row \<noteq> None
      then metadata_of (mo_id row) rows
      else Inl (Aborted ''media is in a transient state''))"

definition register_reservation :: "int \<Rightarrow> int \<Rightarrow> register_params \<Rightarrow> string \<Rightarrow> int \<Rightarrow> media_reservation" where
  "register_reservation now i p sha nbytes =
     \<lparr>rs_id = i, rs_kind = rp_kind p, rs_media_type = rp_media_type p, rs_byte_size = Some nbytes,
      rs_sha256 = sha, rs_width = dimension_column (rp_width p),
      rs_height = dimension_column (rp_height p), rs_duration_ms = None, rs_alt = rp_alt p,
      rs_created_at = now, rs_updated_at = now\<rparr>"

text \<open>\<open>register_managed\<close>: one transaction, then the metadata of the row.\<close>

definition register_managed ::
  "media_env \<Rightarrow> int \<Rightarrow> register_params \<Rightarrow> string \<Rightarrow> int \<Rightarrow> media_core \<Rightarrow> media_core \<times> media_job" where
  "register_managed e now p sha nbytes st =
     (let i = me_id e (mc_drawn st); st1 = st\<lparr>mc_drawn := mc_drawn st + 1\<rparr>
      in case insert_reservation_tx (register_reservation now i p sha nbytes) (mc_rows st) of
           Inl err \<Rightarrow> (st1, Finished (Inl err))
         | Inr (rows', True) \<Rightarrow>
             (case confirm_reservation_tx now (rp_storage_uri p) (me_backend e) (Some nbytes) None i rows' of
                (rows'', True) \<Rightarrow> (st1\<lparr>mc_rows := rows''\<rparr>, Finished (metadata_of i rows''))
              | (rows'', False) \<Rightarrow>
                  (st1\<lparr>mc_rows := rows''\<rparr>, Finished (Inl (Aborted ''register confirm lost''))))
         | Inr (rows', False) \<Rightarrow>
             (case find_by_sha256 sha (mc_rows st) of
                None \<Rightarrow> (st1, Finished (Inl (Media_Runtime ''register conflict but row not found'')))
              | Some row \<Rightarrow>
                  if mo_gc_state row = gc_deleted_failed \<or> mo_gc_state row = gc_unresolvable then
                    (case register_promote_tx now (rp_storage_uri p) (me_backend e) (Some nbytes)
                            (if mo_ref_count row > 0 then 0 else gc_orphan) (mo_id row) (mc_rows st) of
                       (rows'', True) \<Rightarrow>
                         (st1\<lparr>mc_rows := rows''\<rparr>, Finished (metadata_of (mo_id row) rows''))
                     | (rows'', False) \<Rightarrow>
                         (st1\<lparr>mc_rows := rows''\<rparr>,
                          Finished (case find_media (mo_id row) rows'' of
                              None \<Rightarrow> Inl (Media_Runtime ''register row vanished'')
                            | Some row2 \<Rightarrow> register_conflict_terminal row2 rows'')))
                  else (st1, Finished (register_conflict_terminal row (mc_rows st)))))"

definition register_url ::
  "media_env \<Rightarrow> int \<Rightarrow> register_params \<Rightarrow> media_core \<Rightarrow> media_core \<times> media_job" where
  "register_url e now p st =
     (let i = me_id e (mc_drawn st); st1 = st\<lparr>mc_drawn := mc_drawn st + 1\<rparr>
      in case insert_url_tx now i (rp_kind p) (rp_media_type p) (rp_byte_size p)
                (dimension_column (rp_width p)) (dimension_column (rp_height p))
                (rp_storage_uri p) (rp_alt p) (mc_rows st) of
           Inl err \<Rightarrow> (st1, Finished (Inl err))
         | Inr rows' \<Rightarrow> (st1\<lparr>mc_rows := rows'\<rparr>, Finished (metadata_of i rows')))"

definition register_start ::
  "media_env \<Rightarrow> int \<Rightarrow> bool \<Rightarrow> register_params \<Rightarrow> media_core \<Rightarrow> media_core \<times> media_job" where
  "register_start e now io p st =
     (if rp_storage_backend p = ''s3'' \<or> rp_storage_backend p = ''file'' then
        (case register_check e io p (mc_store st) of
           Inl err \<Rightarrow> (st, Finished (Inl err))
         | Inr (sha, nbytes) \<Rightarrow> (st, Register_Checked p sha nbytes))
      else if rp_storage_backend p = ''url'' then register_url e now p st
      else (st, Finished (Inl (Invalid_Media ''unsupported storage_backend for Register''))))"

subsection \<open>Deletion\<close>

definition delete_start :: "int \<Rightarrow> media_core \<Rightarrow> media_core \<times> media_job" where
  "delete_start i st =
     (case find_media i (mc_rows st) of
        None \<Rightarrow> (st, Finished (Inl (Media_Missing i)))
      | Some row \<Rightarrow>
          if mo_ref_count row \<noteq> 0 then (st, Finished (Inl (Failed_Precondition i)))
          else if mo_gc_state row = gc_unresolvable \<or> mo_gc_state row = gc_promoting
          then (st, Finished (Inr Handled))
          else (st, Delete_Read i row))"

text \<open>The claim of \<open>MediaApp::delete\<close>, which is also the one of \<open>claim_then_finish\<close>.\<close>

definition delete_claim :: "int \<Rightarrow> int \<Rightarrow> media_row \<Rightarrow> media_core \<Rightarrow> media_core \<times> media_job" where
  "delete_claim now i row st =
     (case claim_deleting_tx now i (mc_rows st) of
        (rows', True) \<Rightarrow> (st\<lparr>mc_rows := rows'\<rparr>, Delete_Claimed i row)
      | (rows', False) \<Rightarrow> (st\<lparr>mc_rows := rows'\<rparr>, Finished (Inr Handled)))"

text \<open>\<open>finish_delete\<close>: the storage call, then the conditional delete of the row or the mark.\<close>

definition finish_delete_storage :: "bool \<Rightarrow> int \<Rightarrow> media_row \<Rightarrow> media_core \<Rightarrow> media_core \<times> media_job" where
  "finish_delete_storage io i row st =
     (if mo_storage_backend row = ''s3'' \<or> mo_storage_backend row = ''file'' then
        (case mo_storage_uri row of
           None \<Rightarrow> (st, Delete_Row i)
         | Some key \<Rightarrow>
             if io then (st\<lparr>mc_store := storage_delete key (mc_store st)\<rparr>, Delete_Row i)
             else (st, Delete_Failed i))
      else (st, Delete_Row i))"

definition finish_delete_failed :: "int \<Rightarrow> int \<Rightarrow> media_core \<Rightarrow> media_core \<times> media_job" where
  "finish_delete_failed now i st =
     (st\<lparr>mc_rows := fst (mark_delete_failed_tx now i (mc_rows st))\<rparr>, Finished (Inr Handled))"

definition finish_delete_row :: "int \<Rightarrow> int \<Rightarrow> media_core \<Rightarrow> media_core \<times> media_job" where
  "finish_delete_row now i st =
     (case delete_if_unreferenced_tx i (mc_rows st) of
        (rows', True) \<Rightarrow> (st\<lparr>mc_rows := rows'\<rparr>, Finished (Inr Handled))
      | (rows', False) \<Rightarrow>
          (st\<lparr>mc_rows := fst (mark_delete_failed_tx now i rows')\<rparr>, Finished (Inr Handled)))"

subsection \<open>Memory writes\<close>

definition decr_and_maybe_claim ::
  "int \<Rightarrow> int \<Rightarrow> media_table \<Rightarrow> media_error + media_table \<times> (int \<times> media_row) option" where
  "decr_and_maybe_claim now i rows =
     (case decr_ref_tx now i rows of
        (rows1, None) \<Rightarrow>
          (if find_media i rows1 = None then Inr (rows1, None)
           else Inl (Media_Runtime ''media_object ref_count underflow''))
      | (rows1, Some r) \<Rightarrow>
          (if mo_ref_count r = 0 \<and> (mo_gc_state r = gc_active \<or> mo_gc_state r = gc_orphan) then
             (case claim_deleting_tx now i rows1 of
                (rows2, True) \<Rightarrow>
                  (case find_media i rows2 of
                     None \<Rightarrow> Inl (Media_Runtime ''media_object vanished after claim_deleting'')
                   | Some row \<Rightarrow> Inr (rows2, Some (i, row)))
              | (rows2, False) \<Rightarrow> Inr (rows2, None))
           else Inr (rows1, None)))"

definition delete_jobs :: "(int \<times> media_row) option \<Rightarrow> media_job list" where
  "delete_jobs j = (case j of None \<Rightarrow> [] | Some (i, row) \<Rightarrow> [Delete_Claimed i row])"

definition link_media ::
  "int \<Rightarrow> int option \<Rightarrow> media_table \<Rightarrow> media_error + media_table" where
  "link_media now link rows =
     (case link of None \<Rightarrow> Inr rows | Some i \<Rightarrow> lock_and_incr_ref_tx now i rows)"

text \<open>The media part of the transactions of \<open>create_memory\<close>, \<open>delete_memory\<close> and
  \<open>update_memory\<close>. An error rolls the transaction back.\<close>

definition memory_create ::
  "int \<Rightarrow> int \<Rightarrow> int option \<Rightarrow> media_core \<Rightarrow> media_error + media_core" where
  "memory_create now mem link st =
     (if map_of (mc_links st) mem \<noteq> None then Inl Media_Db_Error
      else case link_media now link (mc_rows st) of
        Inl err \<Rightarrow> Inl err
      | Inr rows' \<Rightarrow> Inr (st\<lparr>mc_rows := rows', mc_links := mc_links st @ [(mem, link)]\<rparr>))"

definition unlink_media ::
  "int \<Rightarrow> int option \<Rightarrow> media_table \<Rightarrow> media_error + media_table \<times> (int \<times> media_row) option" where
  "unlink_media now link rows =
     (case link of None \<Rightarrow> Inr (rows, None) | Some i \<Rightarrow> decr_and_maybe_claim now i rows)"

definition memory_delete ::
  "int \<Rightarrow> int \<Rightarrow> media_core \<Rightarrow> media_error + media_core \<times> media_job list" where
  "memory_delete now mem st =
     (case map_of (mc_links st) mem of
        None \<Rightarrow> Inr (st, [])
      | Some link \<Rightarrow>
          (case unlink_media now link (mc_rows st) of
             Inl err \<Rightarrow> Inl err
           | Inr (rows', j) \<Rightarrow>
               Inr (st\<lparr>mc_rows := rows', mc_links := filter (\<lambda>(m, _). m \<noteq> mem) (mc_links st)\<rparr>,
                    delete_jobs j)))"

text \<open>The five transitions of \<open>update_memory\<close>.\<close>

definition swap_media ::
  "int \<Rightarrow> int option \<Rightarrow> int option \<Rightarrow> media_table
   \<Rightarrow> media_error + media_table \<times> (int \<times> media_row) option" where
  "swap_media now old new rows =
     (case (old, new) of
        (None, None) \<Rightarrow> Inr (rows, None)
      | (None, Some b) \<Rightarrow>
          (if find_media b rows = None then Inl (Invalid_Media ''media_object not found'')
           else case incr_ref_tx now b rows of
             (rows', ok) \<Rightarrow>
               if ok then Inr (rows', None)
               else Inl (Invalid_Media ''media_object not found or being deleted''))
      | (Some a, None) \<Rightarrow> decr_and_maybe_claim now a rows
      | (Some a, Some b) \<Rightarrow>
          (if a = b then Inr (rows, None)
           else case decr_and_maybe_claim now a rows of
             Inl err \<Rightarrow> Inl err
           | Inr (rows1, j) \<Rightarrow>
               (case incr_ref_tx now b rows1 of
                  (rows2, ok) \<Rightarrow>
                    if ok then Inr (rows2, j)
                    else Inl (Invalid_Media ''media_object not found or being deleted''))))"

definition memory_update ::
  "int \<Rightarrow> int \<Rightarrow> int option \<Rightarrow> media_core \<Rightarrow> media_error + media_core \<times> media_job list" where
  "memory_update now mem new st =
     (case map_of (mc_links st) mem of
        None \<Rightarrow> Inr (st, [])
      | Some old \<Rightarrow>
          (case swap_media now old new (mc_rows st) of
             Inl err \<Rightarrow> Inl err
           | Inr (rows', j) \<Rightarrow>
               Inr (st\<lparr>mc_rows := rows',
                       mc_links := map (\<lambda>(m, l). (m, if m = mem then new else l)) (mc_links st)\<rparr>,
                    delete_jobs j)))"

subsection \<open>The deferred sweep\<close>

definition default_grace_sec :: int where "default_grace_sec = 3600"

text \<open>\<open>str::trim\<close> on ASCII text and \<open>u64::from_str\<close>, which accepts a leading plus sign.\<close>

definition is_blank :: "char \<Rightarrow> bool" where
  "is_blank c \<longleftrightarrow> c = CHR '' '' \<or> c = CHR 0x09 \<or> c = CHR 0x0A \<or> c = CHR 0x0B \<or> c = CHR 0x0C \<or> c = CHR 0x0D"

definition trim_ascii :: "string \<Rightarrow> string" where
  "trim_ascii s = rev (dropWhile is_blank (rev (dropWhile is_blank s)))"

definition parse_u64 :: "string \<Rightarrow> int option" where
  "parse_u64 s =
     (let digits = (case s of c # cs \<Rightarrow> if c = CHR ''+'' then cs else s | [] \<Rightarrow> s) in
      case parse_unsigned digits of
        None \<Rightarrow> None
      | Some n \<Rightarrow> if int n \<le> u64_max then Some (int n) else None)"

definition resolve_grace_sec :: "int option \<Rightarrow> string option \<Rightarrow> int" where
  "resolve_grace_sec cli env_value =
     (case cli of
        Some v \<Rightarrow> v
      | None \<Rightarrow>
          (case env_value of
             Some s \<Rightarrow> (case parse_u64 (trim_ascii s) of Some n \<Rightarrow> n | None \<Rightarrow> default_grace_sec)
           | None \<Rightarrow> default_grace_sec))"

definition compute_before :: "int \<Rightarrow> int \<Rightarrow> int" where
  "compute_before now grace_sec =
     max i64_min (now - min (min (grace_sec * 1000) u64_max) i64_max)"

text \<open>The age test of \<open>list_temp_older_than\<close>: the cast to \<open>i64\<close> and the product wrap, the
  difference of the two clock readings is in range.\<close>

definition temp_is_stale :: "int \<Rightarrow> int \<Rightarrow> int \<Rightarrow> bool" where
  "temp_is_stale now age_sec modified \<longleftrightarrow>
     wrap_i64 (wrap_i64 age_sec * 1000) \<le> now - modified"

definition usable_sha :: "media_row \<Rightarrow> string option" where
  "usable_sha row =
     (case mo_sha256 row of Some s \<Rightarrow> (if s \<noteq> [] then Some s else None) | None \<Rightarrow> None)"

text \<open>Both plans: the final key to delete, if the row has a usable hash.\<close>

definition reservation_recovery_plan :: "media_row \<Rightarrow> string \<Rightarrow> string option" where
  "reservation_recovery_plan row pre = map_option (final_key pre) (usable_sha row)"

definition promoting_recovery_plan :: "media_row \<Rightarrow> string \<Rightarrow> string option" where
  "promoting_recovery_plan row pre = map_option (final_key pre) (usable_sha row)"

datatype desync_plan =
    Reconcile int
  | Reconcile_Then_Delete
  | Log_Only bool

definition desync_action :: "ref_count_desync \<Rightarrow> desync_plan" where
  "desync_action d =
     (if \<not> (ds_gc_state d = gc_active \<or> ds_gc_state d = gc_orphan) then Log_Only False
      else if ds_actual_ref_count d < 0 then Log_Only True
      else if ds_actual_ref_count d = 0 then Reconcile_Then_Delete
      else Reconcile (ds_actual_ref_count d))"

text \<open>The storage call of a plan: a failure is logged and the sweep goes on.\<close>

definition delete_leaked :: "bool \<Rightarrow> string option \<Rightarrow> media_core \<Rightarrow> media_core" where
  "delete_leaked io key st =
     (case key of
        Some k \<Rightarrow> (if io then st\<lparr>mc_store := storage_delete k (mc_store st)\<rparr> else st)
      | None \<Rightarrow> st)"

definition gc_reservation :: "media_env \<Rightarrow> bool \<Rightarrow> media_row \<Rightarrow> media_core \<Rightarrow> media_core \<times> media_job" where
  "gc_reservation e io row st =
     (delete_leaked io (reservation_recovery_plan row (me_prefix e)) st, Gc_Reservation_Row row)"

definition gc_reservation_row :: "media_row \<Rightarrow> media_core \<Rightarrow> media_core \<times> media_job" where
  "gc_reservation_row row st =
     (st\<lparr>mc_rows := fst (delete_if_unreferenced_tx (mo_id row) (mc_rows st))\<rparr>, Finished (Inr Handled))"

definition gc_promoting_storage :: "media_env \<Rightarrow> bool \<Rightarrow> media_row \<Rightarrow> media_core \<Rightarrow> media_core \<times> media_job" where
  "gc_promoting_storage e io row st =
     (delete_leaked io (promoting_recovery_plan row (me_prefix e)) st, Gc_Promoting_Row row)"

definition gc_promoting_row :: "int \<Rightarrow> media_row \<Rightarrow> media_core \<Rightarrow> media_core \<times> media_job" where
  "gc_promoting_row now row st =
     (st\<lparr>mc_rows := fst (revert_promoting_tx now (mo_id row) (mc_rows st))\<rparr>, Finished (Inr Handled))"

definition gc_deleting_row :: "int \<Rightarrow> media_row \<Rightarrow> media_core \<Rightarrow> media_core \<times> media_job" where
  "gc_deleting_row now row st =
     (st\<lparr>mc_rows := fst (revert_deleting_tx now (mo_id row) (mc_rows st))\<rparr>, Finished (Inr Handled))"

definition gc_deleted_failed_row :: "int \<Rightarrow> media_row \<Rightarrow> media_core \<Rightarrow> media_core \<times> media_job" where
  "gc_deleted_failed_row now row st =
     (case reclaim_deleted_failed_tx now (mo_id row) (mc_rows st) of
        (rows', True) \<Rightarrow> (st\<lparr>mc_rows := rows'\<rparr>, Delete_Claimed (mo_id row) row)
      | (rows', False) \<Rightarrow> (st\<lparr>mc_rows := rows'\<rparr>, Finished (Inr Handled)))"

definition gc_desync :: "int \<Rightarrow> ref_count_desync \<Rightarrow> media_core \<Rightarrow> media_core \<times> media_job" where
  "gc_desync now d st =
     (case desync_action d of
        Log_Only _ \<Rightarrow> (st, Finished (Inr Handled))
      | Reconcile n \<Rightarrow>
          (st\<lparr>mc_rows := fst (reconcile_ref_count_tx now (ds_id d) (ds_db_ref_count d) n (mc_rows st))\<rparr>,
           Finished (Inr Handled))
      | Reconcile_Then_Delete \<Rightarrow>
          (case reconcile_ref_count_tx now (ds_id d) (ds_db_ref_count d) 0 (mc_rows st) of
             (rows', True) \<Rightarrow> (st\<lparr>mc_rows := rows'\<rparr>, Gc_Desync_Read (ds_id d))
           | (rows', False) \<Rightarrow> (st\<lparr>mc_rows := rows'\<rparr>, Finished (Inr Handled))))"

definition gc_desync_read :: "int \<Rightarrow> media_core \<Rightarrow> media_core \<times> media_job" where
  "gc_desync_read i st =
     (case find_media i (mc_rows st) of
        None \<Rightarrow> (st, Finished (Inr Handled))
      | Some row \<Rightarrow> (st, Gc_Confirmed row))"

datatype gc_class = Confirmed_Orphans | Reservations | Promotings | Deletings | Deleted_Faileds | Desyncs

text \<open>The rows a sweep lists, each as a job of its own: the sweep handles them one after the
  other, here they may run in any order.\<close>

definition gc_scan :: "gc_class \<Rightarrow> int \<Rightarrow> media_core \<Rightarrow> media_job list" where
  "gc_scan c before st =
     (case c of
        Confirmed_Orphans \<Rightarrow> map Gc_Confirmed (list_confirmed_orphans before (mc_rows st))
      | Reservations \<Rightarrow> map Gc_Reservation (list_orphan_reservations before (mc_rows st))
      | Promotings \<Rightarrow> map Gc_Promoting (list_promoting_stale before (mc_rows st))
      | Deletings \<Rightarrow> map Gc_Deleting (list_deleting_stale before (mc_rows st))
      | Deleted_Faileds \<Rightarrow> map Gc_Failed (list_deleted_failed_confirmed (mc_rows st))
      | Desyncs \<Rightarrow> map Gc_Desync (list_ref_count_desync (mc_links st) (mc_rows st)))"

definition gc_temp :: "media_env \<Rightarrow> string \<Rightarrow> media_core \<Rightarrow> media_core" where
  "gc_temp e key st =
     (if starts_with key (me_prefix e @ ''_tmp/'')
      then st\<lparr>mc_store := storage_delete key (mc_store st)\<rparr> else st)"

subsection \<open>Interleaving\<close>

fun advance :: "media_env \<Rightarrow> int \<Rightarrow> bool \<Rightarrow> media_job \<Rightarrow> media_core \<Rightarrow> media_core \<times> media_job" where
  "advance e now io (Upload_Temp c) st = upload_reserve e now c st"
| "advance e now io (Upload_Reserved c i) st = fresh_copy e io c i st"
| "advance e now io (Upload_Rollback c i err) st = fresh_rollback c i err st"
| "advance e now io (Upload_Copied c i) st = fresh_confirm e now c i st"
| "advance e now io (Upload_Conflict c row) st = handle_upload_conflict now c row st"
| "advance e now io (Promote_Lost c i) st = promote_lost c i st"
| "advance e now io (Promote_Claimed c i) st = promote_copy e io c i st"
| "advance e now io (Promote_Copied c i) st = promote_read c i st"
| "advance e now io (Promote_Confirm c i gc) st = promote_confirm e now c i gc st"
| "advance e now io (Register_Checked p sha n) st = register_managed e now p sha n st"
| "advance e now io (Delete_Read i row) st = delete_claim now i row st"
| "advance e now io (Delete_Claimed i row) st = finish_delete_storage io i row st"
| "advance e now io (Delete_Row i) st = finish_delete_row now i st"
| "advance e now io (Delete_Failed i) st = finish_delete_failed now i st"
| "advance e now io (Gc_Confirmed row) st = delete_claim now (mo_id row) row st"
| "advance e now io (Gc_Reservation row) st = gc_reservation e io row st"
| "advance e now io (Gc_Reservation_Row row) st = gc_reservation_row row st"
| "advance e now io (Gc_Promoting row) st = gc_promoting_storage e io row st"
| "advance e now io (Gc_Promoting_Row row) st = gc_promoting_row now row st"
| "advance e now io (Gc_Deleting row) st = gc_deleting_row now row st"
| "advance e now io (Gc_Failed row) st = gc_deleted_failed_row now row st"
| "advance e now io (Gc_Desync d) st = gc_desync now d st"
| "advance e now io (Gc_Desync_Read i) st = gc_desync_read i st"
| "advance e now io Crashed st = (st, Crashed)"
| "advance e now io (Finished r) st = (st, Finished r)"

type_synonym media_sys = "media_core \<times> media_job list"

datatype media_event =
    Start_Upload upload_header "(storage_error + string) list"
  | Start_Register int bool register_params
  | Start_Delete int
  | Record_Unresolvable int int string "int option" string "int option" "int option" "string option"
  | Advance nat int bool
  | Crash nat
  | Create_Memory int int "int option"
  | Delete_Memory int int
  | Update_Memory int int "int option"
  | Put_Object string string
  | Gc_Scan gc_class int
  | Gc_Temp string

definition record_unresolvable ::
  "media_env \<Rightarrow> int \<Rightarrow> int \<Rightarrow> string \<Rightarrow> int option \<Rightarrow> string \<Rightarrow> int option \<Rightarrow> int option \<Rightarrow> string option
   \<Rightarrow> media_core \<Rightarrow> media_core" where
  "record_unresolvable e now kind mt nbytes sha w h alt st =
     (let st1 = st\<lparr>mc_drawn := mc_drawn st + 1\<rparr>
      in case insert_unresolvable_tx now (me_id e (mc_drawn st)) kind mt nbytes sha w h alt (mc_rows st) of
           Inl _ \<Rightarrow> st1
         | Inr (rows', _) \<Rightarrow> st1\<lparr>mc_rows := rows'\<rparr>)"

definition spawn :: "media_core \<times> media_job \<Rightarrow> media_job list \<Rightarrow> media_sys" where
  "spawn r jobs = (fst r, jobs @ [snd r])"

text \<open>One event of the running system. A crash stops one job where it is; memory writes that
  fail leave everything as it was.\<close>

fun media_step :: "media_env \<Rightarrow> media_event \<Rightarrow> media_sys \<Rightarrow> media_sys" where
  "media_step e (Start_Upload h chunks) (st, jobs) = spawn (upload_put e h chunks st) jobs"
| "media_step e (Start_Register now io p) (st, jobs) = spawn (register_start e now io p st) jobs"
| "media_step e (Start_Delete i) (st, jobs) = spawn (delete_start i st) jobs"
| "media_step e (Record_Unresolvable now kind mt nbytes sha w h alt) (st, jobs) =
     (record_unresolvable e now kind mt nbytes sha w h alt st, jobs)"
| "media_step e (Advance n now io) (st, jobs) =
     (if n < length jobs
      then (case advance e now io (jobs ! n) st of (st', j) \<Rightarrow> (st', jobs[n := j]))
      else (st, jobs))"
| "media_step e (Crash n) (st, jobs) = (st, jobs[n := Crashed])"
| "media_step e (Create_Memory now mem link) (st, jobs) =
     (case memory_create now mem link st of Inl _ \<Rightarrow> (st, jobs) | Inr st' \<Rightarrow> (st', jobs))"
| "media_step e (Delete_Memory now mem) (st, jobs) =
     (case memory_delete now mem st of Inl _ \<Rightarrow> (st, jobs) | Inr (st', js) \<Rightarrow> (st', jobs @ js))"
| "media_step e (Update_Memory now mem link) (st, jobs) =
     (case memory_update now mem link st of Inl _ \<Rightarrow> (st, jobs) | Inr (st', js) \<Rightarrow> (st', jobs @ js))"
| "media_step e (Put_Object key bytes) (st, jobs) =
     (st\<lparr>mc_store := (mc_store st)(key \<mapsto> bytes)\<rparr>, jobs)"
| "media_step e (Gc_Scan c before) (st, jobs) = (st, jobs @ gc_scan c before st)"
| "media_step e (Gc_Temp key) (st, jobs) = (gc_temp e key st, jobs)"

definition media_run :: "media_env \<Rightarrow> media_event list \<Rightarrow> media_sys \<Rightarrow> media_sys" where
  "media_run e evs s = fold (media_step e) evs s"

definition media_init :: media_sys where
  "media_init = (\<lparr>mc_rows = [], mc_store = Map.empty, mc_links = [], mc_drawn = 0\<rparr>, [])"

end
