(* ===== verification/Media_Counts.thy ===== *)
theory Media_Counts
  imports Media_System
begin

text \<open>
  Reference counts: in every interleaving of uploads, registrations, memory writes, deletions,
  sweeps and crashes, the count of a row is the number of memories that link it, every linked
  row exists, and no linked row is claimed for deletion or marked as failed.
\<close>

subsection \<open>Tables\<close>

lemma set_update_media:
  "set (fst (update_media g f i rows)) = (\<lambda>r. if mo_id r = i \<and> g r then f r else r) ` set rows"
  by (simp add: update_media_def)

lemma snd_update_media: "snd (update_media g f i rows) \<longleftrightarrow> (\<exists>r \<in> set rows. mo_id r = i \<and> g r)"
  by (simp add: update_media_def list_ex_iff)

lemma ids_update_media:
  assumes "\<And>r. mo_id (f r) = mo_id r"
  shows "map mo_id (fst (update_media g f i rows)) = map mo_id rows"
  using assms by (simp add: update_media_def comp_def if_distrib cong: if_cong)

lemma find_media_Some:
  "find_media i rows = Some r \<Longrightarrow> r \<in> set rows \<and> mo_id r = i"
  by (auto simp: find_media_def find_Some_iff in_set_conv_nth)

lemma find_media_None: "find_media i rows = None \<longleftrightarrow> i \<notin> mo_id ` set rows"
  by (auto simp: find_media_def find_None_iff)

lemma find_media_distinct:
  assumes "distinct (map mo_id rows)" "r \<in> set rows"
  shows "find_media (mo_id r) rows = Some r"
proof (cases "find_media (mo_id r) rows")
  case None
  then show ?thesis using assms(2) by (auto simp: find_media_None)
next
  case (Some r')
  with find_media_Some[OF Some] assms show ?thesis by (metis distinct_map inj_onD)
qed

definition media_ids :: "media_table \<Rightarrow> int set" where "media_ids rows = mo_id ` set rows"

text \<open>\<open>n i\<close> is the number of links to row \<open>i\<close>.\<close>

definition row_counted :: "(int \<Rightarrow> int) \<Rightarrow> media_row \<Rightarrow> bool" where
  "row_counted n r \<longleftrightarrow> mo_ref_count r = n (mo_id r) \<and> (mo_gc_state r \<in> {2, 5} \<longrightarrow> mo_ref_count r = 0)"

definition counted :: "media_table \<Rightarrow> (int \<Rightarrow> int) \<Rightarrow> bool" where
  "counted rows n \<longleftrightarrow>
     distinct (map mo_id rows) \<and> (\<forall>r \<in> set rows. row_counted n r) \<and>
     (\<forall>i. n i \<noteq> 0 \<longrightarrow> i \<in> media_ids rows)"

lemma counted_rowD:
  assumes "counted rows n" "r \<in> set rows"
  shows "mo_ref_count r = n (mo_id r)" "mo_gc_state r \<in> {2, 5} \<Longrightarrow> mo_ref_count r = 0"
  using assms unfolding counted_def row_counted_def by blast+

lemma update_media_cases:
  assumes "q \<in> set (fst (update_media g f i rows))"
  obtains (kept) "q \<in> set rows" "\<not> (mo_id q = i \<and> g q)"
    | (hit) r where "r \<in> set rows" "mo_id r = i" "g r" "q = f r"
  using assms unfolding set_update_media by (auto split: if_splits)

text \<open>One update of a counted table: the ids stay, each row is kept or updated.\<close>

lemma counted_updateI:
  assumes c: "counted rows n" and idf: "\<And>r. mo_id (f r) = mo_id r"
    and kept: "\<And>r. r \<in> set rows \<Longrightarrow> \<not> (mo_id r = i \<and> g r) \<Longrightarrow> row_counted n' r"
    and hit: "\<And>r. r \<in> set rows \<Longrightarrow> mo_id r = i \<Longrightarrow> g r \<Longrightarrow> row_counted n' (f r)"
    and dom: "\<And>j. n' j \<noteq> 0 \<Longrightarrow> j \<in> media_ids rows"
  shows "counted (fst (update_media g f i rows)) n'"
proof -
  let ?rows = "fst (update_media g f i rows)"
  have ids: "map mo_id ?rows = map mo_id rows" by (rule ids_update_media) (rule idf)
  then have mids: "media_ids ?rows = media_ids rows" unfolding media_ids_def by (metis list.set_map)
  have "row_counted n' q" if q: "q \<in> set ?rows" for q
    using q by (cases rule: update_media_cases) (simp_all add: kept hit)
  with c ids mids dom show ?thesis unfolding counted_def by metis
qed

lemma counted_update:
  assumes c: "counted rows n" and idf: "\<And>r. mo_id (f r) = mo_id r"
    and ref: "\<And>r. r \<in> set rows \<Longrightarrow> g r \<Longrightarrow> mo_ref_count (f r) = mo_ref_count r"
    and gc: "\<And>r. r \<in> set rows \<Longrightarrow> g r \<Longrightarrow> mo_gc_state (f r) \<in> {2, 5} \<Longrightarrow> mo_ref_count r = 0"
  shows "counted (fst (update_media g f i rows)) n"
proof (rule counted_updateI[OF c idf])
  fix r assume r: "r \<in> set rows"
  from c r show "row_counted n r" unfolding counted_def by blast
  assume "g r"
  with counted_rowD(1)[OF c r] ref[OF r] gc[OF r] show "row_counted n (f r)"
    unfolding row_counted_def idf by simp
qed (use c in \<open>auto simp: counted_def\<close>)

lemma counted_delete:
  assumes "counted rows n"
  shows "counted (fst (delete_if_unreferenced_tx i rows)) n"
proof -
  let ?keep = "\<lambda>r. \<not> (mo_id r = i \<and> mo_ref_count r = 0 \<and> mo_gc_state r \<in> {0, 1, 5})"
  have eq: "fst (delete_if_unreferenced_tx i rows) = filter ?keep rows"
    by (simp add: delete_if_unreferenced_tx_def Let_def)
  have "j \<in> media_ids (filter ?keep rows)" if nz: "n j \<noteq> 0" for j
  proof -
    have "j \<in> media_ids rows" using assms nz by (simp add: counted_def)
    then obtain r where r: "r \<in> set rows" "mo_id r = j" by (auto simp: media_ids_def)
    with counted_rowD(1)[OF assms r(1)] nz have "mo_ref_count r \<noteq> 0" by simp
    with r show ?thesis by (auto simp: media_ids_def)
  qed
  then show ?thesis
    using assms unfolding counted_def eq by (auto simp: distinct_map_filter)
qed

lemma counted_append:
  assumes "counted rows n" "find_media (mo_id r) rows = None" "mo_ref_count r = 0"
  shows "counted (rows @ [r]) n"
proof -
  have new: "mo_id r \<notin> media_ids rows" using assms(2) by (simp add: find_media_None media_ids_def)
  have n0: "n (mo_id r) = 0"
    using assms(1) new unfolding counted_def by blast
  have "distinct (map mo_id (rows @ [r]))"
    using assms(1) new by (simp add: counted_def media_ids_def)
  moreover have "row_counted n q" if "q \<in> set (rows @ [r])" for q
  proof (cases "q = r")
    case True
    with n0 assms(3) show ?thesis by (simp add: row_counted_def)
  next
    case False
    with that assms(1) show ?thesis unfolding counted_def by simp
  qed
  moreover have "j \<in> media_ids (rows @ [r])" if "n j \<noteq> 0" for j
    using that assms(1) by (simp add: counted_def media_ids_def)
  ultimately show ?thesis by (simp only: counted_def) blast
qed

lemma counted_insert:
  assumes "counted rows n" "insert_media r rows = Inr (rows', ok)" "mo_ref_count r = 0"
  shows "counted rows' n"
  using assms counted_append[OF assms(1) _ assms(3)]
  by (auto simp: insert_media_def split: if_splits)

text \<open>With unique ids a guard that holds for some row of an id holds for the row of that id.\<close>

lemma counted_unique:
  "counted rows n \<Longrightarrow> r \<in> set rows \<Longrightarrow> q \<in> set rows \<Longrightarrow> mo_id r = mo_id q \<Longrightarrow> r = q"
  by (metis counted_def distinct_map inj_onD)

lemma counted_incr:
  assumes c: "counted rows n" and hit: "incr_ref_tx now i rows = (rows', True)"
  shows "counted rows' (n(i := n i + 1))"
proof -
  from hit have "snd (incr_ref_tx now i rows)" by simp
  then obtain r0 where r0: "r0 \<in> set rows" "mo_id r0 = i" "mo_gc_state r0 \<notin> {2, 5}"
    by (auto simp: incr_ref_tx_def snd_update_media)
  have "counted (fst (incr_ref_tx now i rows)) (n(i := n i + 1))"
    unfolding incr_ref_tx_def
  proof (rule counted_updateI[OF c])
    fix r assume r: "r \<in> set rows"
    note fact = counted_rowD[OF c r] counted_unique[OF c r r0(1)]
    show "\<not> (mo_id r = i \<and> mo_gc_state r \<notin> {2, 5}) \<Longrightarrow> row_counted (n(i := n i + 1)) r"
      using fact r0 unfolding row_counted_def by auto
    show "mo_id r = i \<Longrightarrow> mo_gc_state r \<notin> {2, 5} \<Longrightarrow> row_counted (n(i := n i + 1))
        (r\<lparr>mo_ref_count := mo_ref_count r + 1,
           mo_gc_state := (if mo_gc_state r = 1 \<and> mo_storage_uri r \<noteq> None then 0 else mo_gc_state r),
           mo_updated_at := now\<rparr>)"
      using fact unfolding row_counted_def by simp
  next
    fix j assume "(n(i := n i + 1)) j \<noteq> 0"
    with c r0 show "j \<in> media_ids rows" by (cases "j = i") (auto simp: counted_def media_ids_def)
  qed simp
  with hit show ?thesis by simp
qed

lemma incr_ref_refused:
  assumes "incr_ref_tx now i rows = (rows', False)"
  shows "rows' = rows"
proof -
  have "\<not> snd (incr_ref_tx now i rows)" using assms by simp
  then have no: "\<not> (mo_id r = i \<and> mo_gc_state r \<notin> {2, 5})" if "r \<in> set rows" for r
    using that unfolding incr_ref_tx_def snd_update_media by blast
  have "rows' = fst (incr_ref_tx now i rows)" using assms by simp
  also have "\<dots> = rows" unfolding incr_ref_tx_def update_media_def fst_conv
    by (rule map_idI) (metis no)
  finally show ?thesis .
qed

lemma decr_ref_linked:
  assumes c: "counted rows n" and pos: "n i > 0"
  obtains rows' r where "decr_ref_tx now i rows = (rows', Some r)" "counted rows' (n(i := n i - 1))"
    "r \<in> set rows'" "mo_id r = i" "mo_gc_state r \<notin> {2, 5}"
proof -
  let ?g = "\<lambda>r. mo_ref_count r > 0"
  let ?f = "\<lambda>r. r\<lparr>mo_ref_count := mo_ref_count r - 1, mo_updated_at := now\<rparr>"
  let ?rows = "fst (update_media ?g ?f i rows)"
  have "i \<in> media_ids rows" using c pos unfolding counted_def by simp
  then obtain r0 where r0: "r0 \<in> set rows" "mo_id r0 = i" by (auto simp: media_ids_def)
  have g0: "?g r0" using counted_rowD(1)[OF c r0(1)] r0(2) pos by simp
  have c': "counted ?rows (n(i := n i - 1))"
  proof (rule counted_updateI[OF c])
    fix r assume r: "r \<in> set rows"
    note fact = counted_rowD[OF c r] counted_unique[OF c r r0(1)]
    show "\<not> (mo_id r = i \<and> ?g r) \<Longrightarrow> row_counted (n(i := n i - 1)) r"
      using fact r0 g0 unfolding row_counted_def by auto
    show "mo_id r = i \<Longrightarrow> ?g r \<Longrightarrow> row_counted (n(i := n i - 1)) (?f r)"
      using fact unfolding row_counted_def by auto
  next
    fix j assume "(n(i := n i - 1)) j \<noteq> 0"
    with c r0 show "j \<in> media_ids rows" by (cases "j = i") (auto simp: counted_def media_ids_def)
  qed simp
  have mem: "?f r0 \<in> set ?rows" using r0 g0 unfolding set_update_media by force
  have "find_media (mo_id (?f r0)) ?rows = Some (?f r0)"
    by (rule find_media_distinct[OF _ mem]) (use c' in \<open>simp add: counted_def\<close>)
  then have "decr_ref_tx now i rows = (?rows, Some (?f r0))"
    using r0 g0 by (auto simp: decr_ref_tx_def list_ex_iff Let_def)
  moreover have "mo_gc_state (?f r0) \<notin> {2, 5}"
    using counted_rowD[OF c r0(1)] g0 by auto
  ultimately show thesis using that[OF _ c' mem] r0(2) by simp
qed
subsection \<open>Links\<close>

lemma actual_refs_simps [simp]:
  "actual_refs i [] = 0"
  "actual_refs i ((m, l) # ls) = (if l = Some i then 1 else 0) + actual_refs i ls"
  by (simp_all add: actual_refs_def)

lemma actual_refs_append [simp]: "actual_refs i (xs @ ys) = actual_refs i xs + actual_refs i ys"
  by (simp add: actual_refs_def)

lemma actual_refs_nonneg: "0 \<le> actual_refs i ls"
  by (simp add: actual_refs_def)

definition one_if :: "int option \<Rightarrow> int \<Rightarrow> int" where "one_if l i = (if l = Some i then 1 else 0)"

lemma filter_other_mem: "m \<notin> fst ` set ls \<Longrightarrow> filter (\<lambda>(k, _). k \<noteq> m) ls = ls"
  by (induction ls) auto

lemma map_other_mem: "m \<notin> fst ` set ls \<Longrightarrow> map (\<lambda>(k, l). (k, if k = m then new else l)) ls = ls"
  by (induction ls) auto

lemma actual_refs_remove:
  assumes "distinct (map fst ls)" "map_of ls m = Some l"
  shows "actual_refs i (filter (\<lambda>(k, _). k \<noteq> m) ls) = actual_refs i ls - one_if l i"
  using assms
proof (induction ls)
  case (Cons x ls)
  then show ?case
    by (cases x) (auto simp: one_if_def filter_other_mem split: if_splits)
qed simp

lemma actual_refs_change:
  assumes "distinct (map fst ls)" "map_of ls m = Some l"
  shows "actual_refs i (map (\<lambda>(k, l). (k, if k = m then new else l)) ls)
         = actual_refs i ls - one_if l i + one_if new i"
  using assms
proof (induction ls)
  case (Cons x ls)
  then show ?case
    by (cases x) (auto simp: one_if_def map_other_mem split: if_splits)
qed simp

lemma actual_refs_pos: "map_of ls m = Some (Some i) \<Longrightarrow> actual_refs i ls > 0"
proof (induction ls)
  case (Cons x ls)
  then show ?case
    using actual_refs_nonneg[of i ls] by (cases x) (auto split: if_splits)
qed simp

lemma actual_refs_member: "(m, Some i) \<in> set ls \<Longrightarrow> actual_refs i ls > 0"
proof (induction ls)
  case (Cons x ls)
  then show ?case
    using actual_refs_nonneg[of i ls] by (cases x) auto
qed simp

subsection \<open>Transactions\<close>

lemma counted_claim: "counted rows n \<Longrightarrow> counted (fst (claim_deleting_tx now i rows)) n"
  unfolding claim_deleting_tx_def by (rule counted_update) auto

lemma ids_claim_deleting: "map mo_id (fst (claim_deleting_tx now i rows)) = map mo_id rows"
  unfolding claim_deleting_tx_def by (rule ids_update_media) simp

lemma counted_link:
  assumes "counted rows n" "link_media now link rows = Inr rows'"
  shows "counted rows' (\<lambda>i. n i + one_if link i)"
proof (cases link)
  case None
  with assms show ?thesis by (simp add: link_media_def one_if_def)
next
  case (Some i)
  with assms(2) have "incr_ref_tx now i rows = (rows', True)"
    by (auto simp: link_media_def lock_and_incr_ref_tx_def split: option.splits prod.splits if_splits)
  moreover have "n(i := n i + 1) = (\<lambda>j. n j + one_if link j)"
    by (auto simp: Some one_if_def)
  ultimately show ?thesis using counted_incr[OF assms(1)] by metis
qed

text \<open>Dropping one link of a counted row cannot fail; the row found for the post-commit delete is
  the claimed row.\<close>

lemma decr_and_maybe_claim_linked:
  assumes c: "counted rows n" and pos: "n i > 0"
  obtains rows' j where "decr_and_maybe_claim now i rows = Inr (rows', j)" "counted rows' (n(i := n i - 1))"
proof -
  obtain rows1 r where d: "decr_ref_tx now i rows = (rows1, Some r)"
    and c1: "counted rows1 (n(i := n i - 1))" and r: "r \<in> set rows1" "mo_id r = i"
    using decr_ref_linked[OF c pos] by metis
  show thesis
  proof (cases "mo_ref_count r = 0 \<and> (mo_gc_state r = gc_active \<or> mo_gc_state r = gc_orphan)")
    case False
    with d have "decr_and_maybe_claim now i rows = Inr (rows1, None)"
      by (auto simp: decr_and_maybe_claim_def)
    with c1 show thesis using that by blast
  next
    case True
    obtain rows2 ok where cl: "claim_deleting_tx now i rows1 = (rows2, ok)" by fastforce
    have c2: "counted rows2 (n(i := n i - 1))" using counted_claim[OF c1, of now i] cl by simp
    have "map mo_id rows2 = map mo_id rows1" using ids_claim_deleting[of now i rows1] cl by simp
    then have "i \<in> mo_id ` set rows2" using r by (metis image_eqI list.set_map)
    then obtain row where "find_media i rows2 = Some row"
      using find_media_None by (metis not_None_eq)
    with d cl True have "\<exists>j. decr_and_maybe_claim now i rows = Inr (rows2, j)"
      by (cases ok) (auto simp: decr_and_maybe_claim_def)
    with c2 show thesis using that by blast
  qed
qed

subsection \<open>Jobs\<close>

text \<open>In a counted system no sweep finds a desync, and a promotion confirms to 0 or 1.\<close>

definition job_counts :: "media_job \<Rightarrow> bool" where
  "job_counts j = (case j of Gc_Desync _ \<Rightarrow> False | Promote_Confirm _ _ gc \<Rightarrow> gc = 0 \<or> gc = 1 | _ \<Rightarrow> True)"

text \<open>A transition that touches no link keeps every table counted.\<close>

definition keeps_count :: "media_core \<Rightarrow> media_core \<times> media_job \<Rightarrow> bool" where
  "keeps_count st r \<longleftrightarrow>
     mc_links (fst r) = mc_links st \<and> job_counts (snd r) \<and>
     (\<forall>n. counted (mc_rows st) n \<longrightarrow> counted (mc_rows (fst r)) n)"

lemma keeps_countI:
  assumes "mc_links st' = mc_links st" "job_counts j"
    and "\<And>n. counted (mc_rows st) n \<Longrightarrow> counted (mc_rows st') n"
  shows "keeps_count st (st', j)"
  using assms by (simp add: keeps_count_def)

lemma counted_reservation:
  "insert_reservation_tx v rows = Inr (rows', ok) \<Longrightarrow> counted rows n \<Longrightarrow> counted rows' n"
  unfolding insert_reservation_tx_def
  by (erule counted_insert[rotated]) (simp_all add: reservation_row_def)

lemma counted_confirm_reservation:
  "counted rows n \<Longrightarrow> counted (fst (confirm_reservation_tx now uri b sz md i rows)) n"
  unfolding confirm_reservation_tx_def by (rule counted_update) auto

lemma counted_claim_promote: "counted rows n \<Longrightarrow> counted (fst (claim_promote_tx now i rows)) n"
  unfolding claim_promote_tx_def by (rule counted_update) auto

lemma counted_confirm_promote:
  "counted rows n \<Longrightarrow> gc \<in> {0, 1} \<Longrightarrow> counted (fst (confirm_promote_tx now uri b sz gc md i rows)) n"
  unfolding confirm_promote_tx_def by (rule counted_update) auto

lemma counted_register_promote:
  "counted rows n \<Longrightarrow> gc \<in> {0, 1} \<Longrightarrow> counted (fst (register_promote_tx now uri b sz gc i rows)) n"
  unfolding register_promote_tx_def by (rule counted_update) auto

lemma counted_revert_promoting: "counted rows n \<Longrightarrow> counted (fst (revert_promoting_tx now i rows)) n"
  unfolding revert_promoting_tx_def by (rule counted_update) auto

lemma counted_revert_deleting: "counted rows n \<Longrightarrow> counted (fst (revert_deleting_tx now i rows)) n"
  unfolding revert_deleting_tx_def by (rule counted_update) auto

lemma counted_mark_failed: "counted rows n \<Longrightarrow> counted (fst (mark_delete_failed_tx now i rows)) n"
  unfolding mark_delete_failed_tx_def by (rule counted_update) (auto dest: counted_rowD(2))

lemma counted_reclaim: "counted rows n \<Longrightarrow> counted (fst (reclaim_deleted_failed_tx now i rows)) n"
  unfolding reclaim_deleted_failed_tx_def by (rule counted_update) auto

lemmas counted_statements =
  counted_confirm_reservation counted_claim_promote counted_confirm_promote counted_register_promote
  counted_revert_promoting counted_revert_deleting counted_mark_failed counted_reclaim
  counted_claim counted_delete

lemma counted_url: "insert_url_tx now i k mt sz w h uri alt rows = Inr rows' \<Longrightarrow> counted rows n \<Longrightarrow> counted rows' n"
  using counted_append[of rows n "url_row now i k mt sz w h uri alt"]
  by (auto simp: insert_url_tx_def url_row_def split: if_splits)

lemma upload_reserve_keeps: "keeps_count st (upload_reserve e now c st)"
  by (auto simp: upload_reserve_def keeps_count_def job_counts_def Let_def
      split: sum.split prod.split bool.split option.split dest: counted_reservation)

lemma fresh_copy_keeps: "keeps_count st (fresh_copy e io c i st)"
  by (auto simp: fresh_copy_def keeps_count_def job_counts_def split: sum.split)

lemma fresh_rollback_keeps: "keeps_count st (fresh_rollback c i err st)"
  by (auto simp: fresh_rollback_def keeps_count_def job_counts_def intro: counted_delete)

lemma counted_pairs:
  "confirm_reservation_tx now uri b sz md i rows = (rows', ok) \<Longrightarrow> counted rows n \<Longrightarrow> counted rows' n"
  "claim_promote_tx now i rows = (rows', ok) \<Longrightarrow> counted rows n \<Longrightarrow> counted rows' n"
  "claim_deleting_tx now i rows = (rows', ok) \<Longrightarrow> counted rows n \<Longrightarrow> counted rows' n"
  "delete_if_unreferenced_tx i rows = (rows', ok) \<Longrightarrow> counted rows n \<Longrightarrow> counted rows' n"
  "reclaim_deleted_failed_tx now i rows = (rows', ok) \<Longrightarrow> counted rows n \<Longrightarrow> counted rows' n"
  by (metis counted_statements fst_conv)+

lemma counted_pairs_gc:
  "confirm_promote_tx now uri b sz gc md i rows = (rows', ok) \<Longrightarrow> gc = 0 \<or> gc = 1 \<Longrightarrow> counted rows n \<Longrightarrow> counted rows' n"
  "register_promote_tx now uri b sz gc i rows = (rows', ok) \<Longrightarrow> gc = 0 \<or> gc = 1 \<Longrightarrow> counted rows n \<Longrightarrow> counted rows' n"
  using counted_confirm_promote[of rows n gc now uri b sz md i] counted_register_promote[of rows n gc now uri b sz i]
  by auto

lemma fresh_confirm_keeps: "keeps_count st (fresh_confirm e now c i st)"
  by (auto simp: fresh_confirm_def keeps_count_def job_counts_def
      split: sum.split prod.split bool.split dest: counted_pairs)

lemma promote_claim_keeps: "keeps_count st (promote_claim now c i st)"
  by (auto simp: promote_claim_def keeps_count_def job_counts_def
      split: prod.split bool.split dest: counted_pairs)

lemma conflict_keeps: "keeps_count st (handle_upload_conflict now c row st)"
  using promote_claim_keeps
  by (auto simp: handle_upload_conflict_def Let_def keeps_count_def job_counts_def)

lemma promote_lost_keeps: "keeps_count st (promote_lost c i st)"
  by (auto simp: promote_lost_def keeps_count_def job_counts_def split: option.split)

lemma promote_copy_keeps: "keeps_count st (promote_copy e io c i st)"
  by (auto simp: promote_copy_def keeps_count_def job_counts_def split: sum.split)

lemma promote_read_keeps: "keeps_count st (promote_read c i st)"
  by (auto simp: promote_read_def keeps_count_def job_counts_def split: option.split)

lemma promote_confirm_keeps:
  "gc = 0 \<or> gc = 1 \<Longrightarrow> keeps_count st (promote_confirm e now c i gc st)"
  by (auto simp: promote_confirm_def keeps_count_def job_counts_def
      split: sum.split prod.split bool.split dest: counted_pairs_gc)

lemma register_managed_keeps: "keeps_count st (register_managed e now p sha nbytes st)"
  by (auto simp: register_managed_def keeps_count_def job_counts_def Let_def
      split: sum.split prod.split bool.split option.split
      dest: counted_reservation counted_pairs counted_pairs_gc(2))

lemma register_url_keeps: "keeps_count st (register_url e now p st)"
  by (auto simp: register_url_def keeps_count_def job_counts_def Let_def split: sum.split dest: counted_url)

lemma register_start_keeps: "keeps_count st (register_start e now io p st)"
  using register_url_keeps
  by (auto simp: register_start_def keeps_count_def job_counts_def split: sum.split)

lemma delete_start_keeps: "keeps_count st (delete_start i st)"
  by (auto simp: delete_start_def keeps_count_def job_counts_def split: option.split)

lemma delete_claim_keeps: "keeps_count st (delete_claim now i row st)"
  by (auto simp: delete_claim_def keeps_count_def job_counts_def
      split: prod.split bool.split dest: counted_pairs)

lemma finish_delete_keeps:
  "keeps_count st (finish_delete_storage io i row st)"
  "keeps_count st (finish_delete_failed now i st)"
  by (auto simp: finish_delete_storage_def finish_delete_failed_def keeps_count_def job_counts_def
      split: option.split intro: counted_mark_failed)

lemma finish_delete_row_keeps: "keeps_count st (finish_delete_row now i st)"
  by (auto simp: finish_delete_row_def keeps_count_def job_counts_def
      split: prod.split bool.split dest: counted_pairs intro!: counted_mark_failed)

lemma gc_rows_keep:
  "keeps_count st (gc_reservation_row row st)"
  "keeps_count st (gc_promoting_row now row st)"
  "keeps_count st (gc_deleting_row now row st)"
  by (auto simp: gc_reservation_row_def gc_promoting_row_def gc_deleting_row_def keeps_count_def
      job_counts_def intro: counted_statements)

lemma gc_storage_keeps:
  "keeps_count st (gc_reservation e io row st)"
  "keeps_count st (gc_promoting_storage e io row st)"
  by (auto simp: gc_reservation_def gc_promoting_storage_def delete_leaked_def keeps_count_def
      job_counts_def split: option.split)

lemma gc_failed_keeps: "keeps_count st (gc_deleted_failed_row now row st)"
  by (auto simp: gc_deleted_failed_row_def keeps_count_def job_counts_def
      split: prod.split bool.split dest: counted_pairs)

lemma gc_desync_read_keeps: "keeps_count st (gc_desync_read i st)"
  by (auto simp: gc_desync_read_def keeps_count_def job_counts_def split: option.split)

lemmas job_keeps =
  upload_reserve_keeps fresh_copy_keeps fresh_rollback_keeps fresh_confirm_keeps conflict_keeps
  promote_lost_keeps promote_copy_keeps promote_read_keeps register_managed_keeps
  delete_claim_keeps finish_delete_keeps finish_delete_row_keeps gc_rows_keep gc_storage_keeps
  gc_failed_keeps gc_desync_read_keeps

lemma advance_keeps: "job_counts j \<Longrightarrow> keeps_count st (advance e now io j st)"
  by (cases j) (simp_all add: job_keeps promote_confirm_keeps job_counts_def keeps_count_def[of _ "(_, Crashed)"]
      keeps_count_def[of _ "(_, Finished _)"])

subsection \<open>Events\<close>

definition counted_sys :: "media_sys \<Rightarrow> bool" where
  "counted_sys s \<longleftrightarrow>
     distinct (map fst (mc_links (fst s))) \<and>
     counted (mc_rows (fst s)) (\<lambda>i. actual_refs i (mc_links (fst s))) \<and>
     (\<forall>j \<in> set (snd s). job_counts j)"

lemma counted_sys_keeps:
  assumes "counted_sys (st, jobs)" "keeps_count st r"
    and "\<forall>j \<in> set jobs'. j \<in> set jobs \<or> j = snd r"
  shows "counted_sys (fst r, jobs')"
  using assms by (auto simp: counted_sys_def keeps_count_def)

lemma no_desync_listed:
  assumes "counted rows (\<lambda>i. actual_refs i links)"
  shows "list_ref_count_desync links rows = []"
  using counted_rowD(1)[OF assms] by (simp add: list_ref_count_desync_def filter_empty_conv)

lemma counted_memory_create:
  assumes c: "counted_sys (st, jobs)" and ok: "memory_create now m link st = Inr st'"
  shows "counted_sys (st', jobs)"
proof -
  from ok obtain rows' where new: "map_of (mc_links st) m = None"
    and l: "link_media now link (mc_rows st) = Inr rows'"
    and st': "st' = st\<lparr>mc_rows := rows', mc_links := mc_links st @ [(m, link)]\<rparr>"
    by (auto simp: memory_create_def split: if_splits sum.splits)
  have "counted rows' (\<lambda>i. actual_refs i (mc_links st) + one_if link i)"
    using counted_link[OF _ l] c by (simp add: counted_sys_def)
  then show ?thesis
    using c new by (simp add: counted_sys_def st' one_if_def map_of_eq_None_iff)
qed

lemma delete_jobs_count: "x \<in> set (delete_jobs j) \<Longrightarrow> job_counts x"
  by (auto simp: delete_jobs_def job_counts_def split: option.splits)

lemma counted_unlink:
  assumes c: "counted rows (\<lambda>i. actual_refs i links)" and m: "map_of links m = Some link"
  obtains rows' j where "unlink_media now link rows = Inr (rows', j)"
    "counted rows' (\<lambda>i. actual_refs i links - one_if link i)"
proof (cases link)
  case None
  with c that show thesis by (simp add: unlink_media_def one_if_def)
next
  case (Some i)
  have pos: "actual_refs i links > 0" using m Some by (simp add: actual_refs_pos)
  have "(\<lambda>i. actual_refs i links)(i := actual_refs i links - 1) = (\<lambda>j. actual_refs j links - one_if link j)"
    by (auto simp: Some one_if_def)
  with decr_and_maybe_claim_linked[OF c pos, of now] that show thesis
    by (metis (no_types, lifting) Some option.simps(5) unlink_media_def)
qed

lemma counted_memory_delete:
  assumes c: "counted_sys (st, jobs)"
  obtains st' js where "memory_delete now m st = Inr (st', js)" "counted_sys (st', jobs @ js)"
proof (cases "map_of (mc_links st) m")
  case None
  with c that show thesis by (simp add: memory_delete_def)
next
  case (Some link)
  from c have d: "distinct (map fst (mc_links st))"
    and cn: "counted (mc_rows st) (\<lambda>i. actual_refs i (mc_links st))"
    by (simp_all add: counted_sys_def)
  obtain rows' j where u: "unlink_media now link (mc_rows st) = Inr (rows', j)"
    and c': "counted rows' (\<lambda>i. actual_refs i (mc_links st) - one_if link i)"
    using counted_unlink[OF cn Some] by metis
  let ?links = "filter (\<lambda>(k, _). k \<noteq> m) (mc_links st)"
  have "distinct (map fst ?links)" using d by (simp add: distinct_map_filter)
  with c c' u have "counted_sys (st\<lparr>mc_rows := rows', mc_links := ?links\<rparr>, jobs @ delete_jobs j)"
    by (auto simp: counted_sys_def actual_refs_remove[OF d Some] dest: delete_jobs_count)
  with u Some that show thesis by (simp add: memory_delete_def)
qed

lemma swap_media_InrE:
  assumes "swap_media now old new rows = Inr (rows', j)"
  obtains (same) "old = new" "rows' = rows" "j = None"
    | (add) b where "old = None" "new = Some b" "incr_ref_tx now b rows = (rows', True)" "j = None"
    | (del) a where "old = Some a" "new = None" "decr_and_maybe_claim now a rows = Inr (rows', j)"
    | (swap) a b rows1 where "old = Some a" "new = Some b" "decr_and_maybe_claim now a rows = Inr (rows1, j)"
        "incr_ref_tx now b rows1 = (rows', True)"
  using assms by (auto simp: swap_media_def split: option.splits if_splits sum.splits prod.splits)

lemma counted_swap:
  assumes c: "counted rows (\<lambda>i. actual_refs i links)" and m: "map_of links m = Some old"
    and ok: "swap_media now old new rows = Inr (rows', j)"
  shows "counted rows' (\<lambda>i. actual_refs i links - one_if old i + one_if new i)"
proof -
  let ?n = "\<lambda>i. actual_refs i links"
  from ok show ?thesis
  proof (cases rule: swap_media_InrE)
    case same
    with c show ?thesis by simp
  next
    case (add b)
    have "?n(b := ?n b + 1) = (\<lambda>i. ?n i - one_if old i + one_if new i)"
      using add by (auto simp: one_if_def)
    with counted_incr[OF c add(3)] show ?thesis by simp
  next
    case (del a)
    have "?n(a := ?n a - 1) = (\<lambda>i. ?n i - one_if old i + one_if new i)"
      using del by (auto simp: one_if_def)
    moreover have "?n a > 0" using m del by (simp add: actual_refs_pos)
    ultimately show ?thesis using decr_and_maybe_claim_linked[OF c, of a now] del
      by (metis Inr_inject prod.inject)
  next
    case (swap a b rows1)
    have pos: "?n a > 0" using m swap by (simp add: actual_refs_pos)
    have c1: "counted rows1 (?n(a := ?n a - 1))"
      using decr_and_maybe_claim_linked[OF c pos, of now] swap(3) by (metis Inr_inject prod.inject)
    let ?n1 = "?n(a := ?n a - 1)"
    have "?n1(b := ?n1 b + 1) = (\<lambda>i. ?n i - one_if old i + one_if new i)"
      using swap by (auto simp: one_if_def)
    with counted_incr[OF c1 swap(4)] show ?thesis by simp
  qed
qed

lemma counted_memory_update:
  assumes c: "counted_sys (st, jobs)" and ok: "memory_update now m new st = Inr (st', js)"
  shows "counted_sys (st', jobs @ js)"
proof (cases "map_of (mc_links st) m")
  case None
  with ok c show ?thesis by (auto simp: memory_update_def)
next
  case (Some old)
  with ok obtain rows' j where sw: "swap_media now old new (mc_rows st) = Inr (rows', j)"
    and js: "js = delete_jobs j"
    and st': "st' = st\<lparr>mc_rows := rows', mc_links := map (\<lambda>(k, l). (k, if k = m then new else l)) (mc_links st)\<rparr>"
    by (auto simp: memory_update_def split: sum.splits)
  from c have d: "distinct (map fst (mc_links st))"
    and cn: "counted (mc_rows st) (\<lambda>i. actual_refs i (mc_links st))"
    by (simp_all add: counted_sys_def)
  have "map fst (map (\<lambda>(k, l). (k, if k = m then new else l)) (mc_links st)) = map fst (mc_links st)"
    by (simp add: comp_def case_prod_beta)
  with d counted_swap[OF cn Some sw] c show ?thesis
    by (auto simp: counted_sys_def st' js actual_refs_change[OF d Some] dest: delete_jobs_count
        simp del: map_map)
qed

lemma record_unresolvable_counted:
  assumes "counted_sys (st, jobs)"
  shows "counted_sys (record_unresolvable e now k mt nb sha w h alt st, jobs)"
proof -
  have "counted rows' n"
    if "insert_unresolvable_tx now i k mt nb sha w h alt rows = Inr (rows', ok)" "counted rows n" for i rows rows' ok n
    using counted_insert[OF that(2) that(1)[unfolded insert_unresolvable_tx_def]]
    by (simp add: unresolvable_row_def)
  with assms show ?thesis
    by (auto simp: record_unresolvable_def counted_sys_def Let_def split: sum.split prod.split)
qed

lemma gc_scan_counts:
  assumes "counted_sys (st, jobs)"
  shows "counted_sys (st, jobs @ gc_scan c before st)"
proof -
  have "list_ref_count_desync (mc_links st) (mc_rows st) = []"
    using assms no_desync_listed by (simp add: counted_sys_def)
  then have "job_counts j" if "j \<in> set (gc_scan c before st)" for j
    using that by (cases c) (auto simp: gc_scan_def job_counts_def)
  with assms show ?thesis by (auto simp: counted_sys_def)
qed

lemma advance_counts:
  assumes c: "counted_sys (st, jobs)" and n: "n < length jobs"
    and r: "advance e now io (jobs ! n) st = (st', j)"
  shows "counted_sys (st', jobs[n := j])"
proof -
  have "keeps_count st (advance e now io (jobs ! n) st)"
    using c n by (intro advance_keeps) (auto simp: counted_sys_def)
  from counted_sys_keeps[OF c this, of "jobs[n := j]"] r show ?thesis
    by (auto dest: subsetD[OF set_update_subset_insert])
qed

lemma spawn_counts:
  assumes "counted_sys (st, jobs)" "keeps_count st r"
  shows "counted_sys (spawn r jobs)"
  using counted_sys_keeps[OF assms, of "jobs @ [snd r]"] by (simp add: spawn_def)

lemma upload_put_keeps: "keeps_count st (upload_put e h cs st)"
  by (auto simp: upload_put_def keeps_count_def job_counts_def Let_def split: sum.split)

lemma media_step_counts:
  assumes c: "counted_sys (st, jobs)"
  shows "counted_sys (media_step e ev (st, jobs))"
proof (cases ev)
  case (Advance n now io)
  with advance_counts[OF c] c show ?thesis by (simp split: prod.split)
next
  case (Crash n)
  have "job_counts j" if "j \<in> set (jobs[n := Crashed])" for j
    using c subsetD[OF set_update_subset_insert that]
    by (auto simp: counted_sys_def job_counts_def)
  with c Crash show ?thesis by (simp add: counted_sys_def)
next
  case (Delete_Memory now mem)
  obtain st' js where "memory_delete now mem st = Inr (st', js)" "counted_sys (st', jobs @ js)"
    using counted_memory_delete[OF c] by metis
  with Delete_Memory show ?thesis by simp
next
  case (Update_Memory now mem link)
  show ?thesis
  proof (cases "memory_update now mem link st")
    case (Inr r)
    with counted_memory_update[OF c, of now mem link] Update_Memory show ?thesis by (cases r) simp
  qed (use c Update_Memory in simp)
next
  case (Create_Memory now mem link)
  with counted_memory_create[OF c, of now mem link] c show ?thesis by (simp split: sum.split)
next
  case (Put_Object key bytes)
  with c show ?thesis by (simp add: counted_sys_def)
next
  case (Gc_Temp key)
  with c show ?thesis by (simp add: gc_temp_def counted_sys_def)
qed (use c in \<open>simp_all add: spawn_counts upload_put_keeps register_start_keeps delete_start_keeps
      record_unresolvable_counted gc_scan_counts\<close>)

lemma media_run_simps [simp]:
  "media_run e [] s = s"
  "media_run e (ev # evs) s = media_run e evs (media_step e ev s)"
  by (simp_all add: media_run_def)

lemma media_run_append [simp]: "media_run e (xs @ ys) s = media_run e ys (media_run e xs s)"
  by (simp add: media_run_def)

lemma media_run_counts: "counted_sys s \<Longrightarrow> counted_sys (media_run e evs s)"
proof (induction evs arbitrary: s)
  case (Cons ev evs)
  then show ?case by (cases s) (simp add: media_step_counts)
qed simp

lemma counted_init: "counted_sys media_init"
  by (simp add: counted_sys_def media_init_def counted_def)

lemma counted_links:
  assumes c: "counted_sys s" and l: "(m, Some i) \<in> set (mc_links (fst s))"
  obtains r where "r \<in> set (mc_rows (fst s))" "mo_id r = i" "mo_gc_state r \<notin> {2, 5}" "mo_ref_count r > 0"
proof -
  let ?n = "\<lambda>i. actual_refs i (mc_links (fst s))"
  from c have cn: "counted (mc_rows (fst s)) ?n" by (simp add: counted_sys_def)
  have pos: "?n i > 0" using l by (rule actual_refs_member)
  with cn have "i \<in> media_ids (mc_rows (fst s))" unfolding counted_def by (metis less_irrefl)
  then obtain r where r: "r \<in> set (mc_rows (fst s))" "mo_id r = i" by (auto simp: media_ids_def)
  with counted_rowD[OF cn r(1)] pos that show thesis by (metis less_irrefl)
qed

text \<open>
  C3. In every run from empty tables, whatever the interleaving of requests, sweeps and crashes:
  ids are unique, the count of every row is exactly the number of memories that link it, and
  every media link of a memory points at an existing row that is neither claimed for deletion
  nor marked as failed.
\<close>

theorem references_counted:
  "case media_run e evs media_init of (st, jobs) \<Rightarrow>
     distinct (map mo_id (mc_rows st)) \<and>
     list_all (\<lambda>r. mo_ref_count r = actual_refs (mo_id r) (mc_links st)) (mc_rows st) \<and>
     list_all (\<lambda>(m, link). case link of
         None \<Rightarrow> True
       | Some i \<Rightarrow> list_ex (\<lambda>r. mo_id r = i \<and> mo_gc_state r \<notin> {2, 5}) (mc_rows st)) (mc_links st)"
proof (cases "media_run e evs media_init")
  case (Pair st jobs)
  have c: "counted_sys (st, jobs)" using media_run_counts[OF counted_init, of e evs] Pair by simp
  then have cn: "counted (mc_rows st) (\<lambda>i. actual_refs i (mc_links st))" by (simp add: counted_sys_def)
  have "list_ex (\<lambda>r. mo_id r = i \<and> mo_gc_state r \<notin> {2, 5}) (mc_rows st)"
    if "(m, Some i) \<in> set (mc_links st)" for m i
    using counted_links[OF c, of m i] that unfolding list_ex_iff by (metis fst_conv)
  with cn counted_rowD(1)[OF cn] show ?thesis
    by (auto simp: Pair counted_def list_all_iff split: option.split)
qed

text \<open>
  Deleting a memory never fails for its media: in every reachable state the transaction
  succeeds, and it removes exactly that memory's link.
\<close>

theorem memory_delete_succeeds:
  "case media_run e evs media_init of (st, jobs) \<Rightarrow>
     (case memory_delete now m st of
        Inl err \<Rightarrow> False
      | Inr (st', js) \<Rightarrow>
          mc_links st' = filter (\<lambda>(k, _). k \<noteq> m) (mc_links st) \<and> mc_store st' = mc_store st)"
proof (cases "media_run e evs media_init")
  case (Pair st jobs)
  have c: "counted_sys (st, jobs)" using media_run_counts[OF counted_init, of e evs] Pair by simp
  obtain st' js where d: "memory_delete now m st = Inr (st', js)"
    using counted_memory_delete[OF c] by metis
  have "filter (\<lambda>(k, _). k \<noteq> m) (mc_links st) = mc_links st" if "map_of (mc_links st) m = None"
    using that by (intro filter_other_mem) (simp add: map_of_eq_None_iff)
  with d show ?thesis
    by (auto simp: Pair memory_delete_def split: option.splits sum.splits)
qed

end
