(* ===== verification/Media_Bytes.thy ===== *)
theory Media_Bytes
  imports Media_Counts "HOL-Library.Multiset"
begin

text \<open>
  Bytes behind confirmed rows. Every key has an owner: a hash for the keys the server derives
  from it, none for temporary keys, and for keys outside the server's prefix whatever the
  clients that register objects agree on. In a run without risky steps every confirmed row has
  its object in storage. A step is risky when the sweep acts on a row that changed since the
  scan or that a request is working on, when it revives a row whose object is gone, or when a
  registration finishes for an object that is gone or belongs to another hash.
\<close>

subsection \<open>Owners of keys\<close>

definition key_owner :: "string \<Rightarrow> (string \<Rightarrow> string option) \<Rightarrow> string \<Rightarrow> string option" where
  "key_owner pre reg key =
     (case strip_prefix pre key of
        None \<Rightarrow> reg key
      | Some rest \<Rightarrow>
          if starts_with rest ''_tmp/'' then None
          else if length rest < 4 then Some rest else Some (drop 6 rest))"

lemma owner_of_final_key: "key_owner pre reg (final_key pre sha) = Some sha"
proof (cases "length sha < 4")
  case True
  then have "\<not> starts_with sha ''_tmp/''"
    by (auto simp: starts_with_iff)
  with True show ?thesis by (simp add: key_owner_def final_key_def)
next
  case False
  then obtain a b c d t where sha: "sha = a # b # c # d # t"
    by (cases sha rule: list.exhaust; (cases "tl sha" rule: list.exhaust)?;
        (cases "tl (tl sha)" rule: list.exhaust)?; (cases "tl (tl (tl sha))" rule: list.exhaust)?) auto
  show ?thesis by (simp add: key_owner_def final_key_def sha starts_with_def)
qed

lemma owner_of_temp: "starts_with key (pre @ ''_tmp/'') \<Longrightarrow> key_owner pre reg key = None"
  by (auto simp: key_owner_def starts_with_iff)

lemma owner_of_temp_key: "key_owner pre reg (temp_key pre n) = None"
  by (simp add: key_owner_def temp_key_def starts_with_def)
subsection \<open>The invariant\<close>

definition managed :: "string \<Rightarrow> bool" where
  "managed backend \<longleftrightarrow> backend = ''s3'' \<or> backend = ''file''"

text \<open>A key of a managed row belongs to the hash of the row; a confirmed one holds an object.\<close>

definition row_safe :: "media_env \<Rightarrow> (string \<Rightarrow> string option) \<Rightarrow> object_store \<Rightarrow> media_row \<Rightarrow> bool" where
  "row_safe e reg store r \<longleftrightarrow>
     (case mo_storage_uri r of
        None \<Rightarrow> True
      | Some k \<Rightarrow> managed (mo_storage_backend r) \<longrightarrow>
          mo_sha256 r \<noteq> None \<and> key_owner (me_prefix e) reg k = mo_sha256 r \<and>
          (mo_gc_state r = 0 \<or> mo_gc_state r = 1 \<longrightarrow> store k \<noteq> None))"

text \<open>The row a job works on, what it promises about that row while it is there, what holds of
  the job itself, and the duty it holds alone.\<close>

fun job_id :: "media_job \<Rightarrow> int option" where
  "job_id (Upload_Reserved c i) = Some i"
| "job_id (Upload_Rollback c i err) = Some i"
| "job_id (Upload_Copied c i) = Some i"
| "job_id (Upload_Conflict c row) = Some (mo_id row)"
| "job_id (Promote_Lost c i) = Some i"
| "job_id (Promote_Claimed c i) = Some i"
| "job_id (Promote_Copied c i) = Some i"
| "job_id (Promote_Confirm c i gc) = Some i"
| "job_id (Delete_Read i row) = Some i"
| "job_id (Delete_Claimed i row) = Some i"
| "job_id (Delete_Row i) = Some i"
| "job_id (Delete_Failed i) = Some i"
| "job_id (Gc_Confirmed row) = Some (mo_id row)"
| "job_id (Gc_Failed row) = Some (mo_id row)"
| "job_id _ = None"

definition stored :: "media_env \<Rightarrow> object_store \<Rightarrow> upload_ctx \<Rightarrow> bool" where
  "stored e store c \<longleftrightarrow> store (final_key (me_prefix e) (uc_sha c)) \<noteq> None"

definition reserved_row :: "upload_ctx \<Rightarrow> media_row \<Rightarrow> bool" where
  "reserved_row c r \<longleftrightarrow>
     mo_storage_uri r = None \<and> mo_sha256 r = Some (uc_sha c) \<and> (mo_gc_state r = 1 \<or> mo_gc_state r = 5)"

definition promoted_row :: "upload_ctx \<Rightarrow> media_row \<Rightarrow> bool" where
  "promoted_row c r \<longleftrightarrow> mo_gc_state r = 4 \<and> mo_sha256 r = Some (uc_sha c)"

definition snapshot_of :: "media_row \<Rightarrow> media_row \<Rightarrow> bool" where
  "snapshot_of row r \<longleftrightarrow>
     mo_sha256 r = mo_sha256 row \<and> (mo_storage_uri row \<noteq> None \<longrightarrow> mo_storage_uri r \<noteq> None)"

fun job_row :: "media_env \<Rightarrow> object_store \<Rightarrow> media_job \<Rightarrow> media_row \<Rightarrow> bool" where
  "job_row e store (Upload_Reserved c i) r = reserved_row c r"
| "job_row e store (Upload_Rollback c i err) r = reserved_row c r"
| "job_row e store (Upload_Copied c i) r = (reserved_row c r \<and> stored e store c)"
| "job_row e store (Upload_Conflict c row) r = (mo_sha256 r = Some (uc_sha c))"
| "job_row e store (Promote_Lost c i) r = (mo_sha256 r = Some (uc_sha c))"
| "job_row e store (Promote_Claimed c i) r = promoted_row c r"
| "job_row e store (Promote_Copied c i) r = (promoted_row c r \<and> stored e store c)"
| "job_row e store (Promote_Confirm c i gc) r = (promoted_row c r \<and> stored e store c)"
| "job_row e store (Delete_Read i row) r = snapshot_of row r"
| "job_row e store (Delete_Claimed i row) r = (snapshot_of row r \<and> mo_gc_state r = 5)"
| "job_row e store (Delete_Row i) r = (mo_gc_state r = 5)"
| "job_row e store (Delete_Failed i) r = (mo_gc_state r = 5 \<and> mo_storage_uri r \<noteq> None)"
| "job_row e store (Gc_Confirmed row) r = snapshot_of row r"
| "job_row e store (Gc_Failed row) r = snapshot_of row r"
| "job_row e store _ r = True"

definition key_safe :: "media_env \<Rightarrow> (string \<Rightarrow> string option) \<Rightarrow> media_row \<Rightarrow> bool" where
  "key_safe e reg row \<longleftrightarrow>
     (case mo_storage_uri row of
        None \<Rightarrow> True
      | Some k \<Rightarrow> managed (mo_storage_backend row) \<longrightarrow>
          mo_sha256 row \<noteq> None \<and> key_owner (me_prefix e) reg k = mo_sha256 row)"

definition temp_free :: "media_env \<Rightarrow> (string \<Rightarrow> string option) \<Rightarrow> upload_ctx \<Rightarrow> bool" where
  "temp_free e reg c \<longleftrightarrow> key_owner (me_prefix e) reg (uc_temp c) = None"

fun job_static :: "media_env \<Rightarrow> (string \<Rightarrow> string option) \<Rightarrow> media_job \<Rightarrow> bool" where
  "job_static e reg (Upload_Temp c) = temp_free e reg c"
| "job_static e reg (Upload_Reserved c i) = temp_free e reg c"
| "job_static e reg (Upload_Rollback c i err) = temp_free e reg c"
| "job_static e reg (Upload_Copied c i) = temp_free e reg c"
| "job_static e reg (Upload_Conflict c row) = temp_free e reg c"
| "job_static e reg (Promote_Lost c i) = temp_free e reg c"
| "job_static e reg (Promote_Claimed c i) = temp_free e reg c"
| "job_static e reg (Promote_Copied c i) = temp_free e reg c"
| "job_static e reg (Promote_Confirm c i gc) = temp_free e reg c"
| "job_static e reg (Delete_Read i row) = key_safe e reg row"
| "job_static e reg (Delete_Claimed i row) = key_safe e reg row"
| "job_static e reg (Gc_Confirmed row) = key_safe e reg row"
| "job_static e reg (Gc_Failed row) = key_safe e reg row"
| "job_static e reg (Gc_Reservation row) = (mo_gc_state row = 1 \<and> mo_storage_uri row = None)"
| "job_static e reg (Gc_Reservation_Row row) = (mo_gc_state row = 1 \<and> mo_storage_uri row = None)"
| "job_static e reg (Gc_Promoting row) = (mo_gc_state row = 4 \<and> mo_storage_uri row = None)"
| "job_static e reg (Gc_Promoting_Row row) = (mo_gc_state row = 4 \<and> mo_storage_uri row = None)"
| "job_static e reg _ = True"

text \<open>The first component tells the reservations from the promotions and deletions.\<close>

fun job_duty :: "media_job \<Rightarrow> (bool \<times> int) option" where
  "job_duty (Upload_Reserved c i) = Some (True, i)"
| "job_duty (Upload_Rollback c i err) = Some (True, i)"
| "job_duty (Upload_Copied c i) = Some (True, i)"
| "job_duty (Promote_Claimed c i) = Some (False, i)"
| "job_duty (Promote_Copied c i) = Some (False, i)"
| "job_duty (Promote_Confirm c i gc) = Some (False, i)"
| "job_duty (Delete_Claimed i row) = Some (False, i)"
| "job_duty (Delete_Row i) = Some (False, i)"
| "job_duty (Delete_Failed i) = Some (False, i)"
| "job_duty _ = None"

definition job_present :: "media_table \<Rightarrow> media_job \<Rightarrow> bool" where
  "job_present rows j =
     (case j of Delete_Claimed i row \<Rightarrow> mo_storage_uri row \<noteq> None \<longrightarrow> i \<in> media_ids rows | _ \<Rightarrow> True)"

definition job_safe ::
  "media_env \<Rightarrow> (string \<Rightarrow> string option) \<Rightarrow> media_table \<Rightarrow> object_store \<Rightarrow> media_job \<Rightarrow> bool" where
  "job_safe e reg rows store j \<longleftrightarrow>
     job_static e reg j \<and> job_present rows j \<and>
     (\<forall>r \<in> set rows. job_id j = Some (mo_id r) \<longrightarrow> job_row e store j r)"

definition drawn_id :: "media_env \<Rightarrow> nat \<Rightarrow> int \<Rightarrow> bool" where
  "drawn_id e n i \<longleftrightarrow> (\<exists>k < n. i = me_id e k)"

definition ids_drawn :: "media_env \<Rightarrow> nat \<Rightarrow> media_table \<Rightarrow> media_job list \<Rightarrow> bool" where
  "ids_drawn e n rows jobs \<longleftrightarrow>
     (\<forall>i \<in> media_ids rows. drawn_id e n i) \<and> (\<forall>j \<in> set jobs. \<forall>i. job_id j = Some i \<longrightarrow> drawn_id e n i)"

definition shas_unique :: "media_table \<Rightarrow> bool" where
  "shas_unique rows \<longleftrightarrow>
     (\<forall>r \<in> set rows. \<forall>q \<in> set rows. mo_sha256 r \<noteq> None \<and> mo_sha256 r = mo_sha256 q \<longrightarrow> r = q)"

definition table_safe :: "media_env \<Rightarrow> (string \<Rightarrow> string option) \<Rightarrow> media_table \<Rightarrow> object_store \<Rightarrow> bool" where
  "table_safe e reg rows store \<longleftrightarrow>
     distinct (map mo_id rows) \<and> shas_unique rows \<and> (\<forall>r \<in> set rows. row_safe e reg store r)"

text \<open>Jobs as a list up to order.\<close>

definition bytes_safe :: "media_env \<Rightarrow> (string \<Rightarrow> string option) \<Rightarrow> media_core \<Rightarrow> media_job list \<Rightarrow> bool" where
  "bytes_safe e reg st jobs \<longleftrightarrow>
     table_safe e reg (mc_rows st) (mc_store st) \<and>
     ids_drawn e (mc_drawn st) (mc_rows st) jobs \<and>
     (\<forall>j \<in> set jobs. job_safe e reg (mc_rows st) (mc_store st) j) \<and>
     distinct (List.map_filter job_duty jobs)"

subsection \<open>Preservation, statement by statement\<close>

lemma map_filter_Cons: "List.map_filter f (x # xs) = (case f x of None \<Rightarrow> [] | Some y \<Rightarrow> [y]) @ List.map_filter f xs"
  by (simp add: List.map_filter_simps split: option.split)

definition duty_free :: "media_job \<Rightarrow> media_job list \<Rightarrow> bool" where
  "duty_free j jobs \<longleftrightarrow> job_duty j = None \<or> (\<forall>k \<in> set jobs. job_duty k \<noteq> job_duty j)"

lemma bytes_safe_Cons:
  "bytes_safe e reg st (j # jobs) \<longleftrightarrow>
     bytes_safe e reg st jobs \<and> job_safe e reg (mc_rows st) (mc_store st) j \<and>
     (\<forall>i. job_id j = Some i \<longrightarrow> drawn_id e (mc_drawn st) i) \<and> duty_free j jobs"
proof -
  have "y \<in> set (List.map_filter job_duty jobs) \<longleftrightarrow> (\<exists>k \<in> set jobs. job_duty k = Some y)" for y
    by (simp add: set_map_filter_iff)
  then show ?thesis
    by (auto simp: bytes_safe_def ids_drawn_def duty_free_def map_filter_Cons split: option.split)
qed

lemma bytes_safe_perm:
  assumes m: "mset jobs = mset jobs'"
  shows "bytes_safe e reg st jobs = bytes_safe e reg st jobs'"
proof -
  have "mset (List.map_filter job_duty jobs) = mset (List.map_filter job_duty jobs')"
    by (simp add: List.map_filter_def m)
  then have "distinct (List.map_filter job_duty jobs) = distinct (List.map_filter job_duty jobs')"
    by (rule mset_eq_imp_distinct_iff)
  moreover have "set jobs = set jobs'" using m by (rule mset_eq_setD)
  ultimately show ?thesis by (simp add: bytes_safe_def ids_drawn_def)
qed

lemma bytes_safe_nth:
  assumes "n < length jobs"
  defines "rest \<equiv> take n jobs @ drop (Suc n) jobs"
  shows "bytes_safe e reg st jobs \<longleftrightarrow> bytes_safe e reg st (jobs ! n # rest)"
    and "bytes_safe e reg st (jobs[n := j]) \<longleftrightarrow> bytes_safe e reg st (j # rest)"
proof -
  have "mset jobs = mset (jobs ! n # rest)"
    using id_take_nth_drop[OF assms(1)] unfolding rest_def
    by (metis add_mset_add_single mset.simps(2) mset_append union_mset_add_mset_right)
  then show "bytes_safe e reg st jobs \<longleftrightarrow> bytes_safe e reg st (jobs ! n # rest)" by (rule bytes_safe_perm)
  have "mset (jobs[n := j]) = mset (j # rest)"
    unfolding rest_def upd_conv_take_nth_drop[OF assms(1)] by simp
  then show "bytes_safe e reg st (jobs[n := j]) \<longleftrightarrow> bytes_safe e reg st (j # rest)" by (rule bytes_safe_perm)
qed

lemma bytes_safeD:
  assumes "bytes_safe e reg st jobs"
  shows "table_safe e reg (mc_rows st) (mc_store st)" "distinct (map mo_id (mc_rows st))"
    "r \<in> set (mc_rows st) \<Longrightarrow> row_safe e reg (mc_store st) r"
    "r \<in> set (mc_rows st) \<Longrightarrow> drawn_id e (mc_drawn st) (mo_id r)"
    "r \<in> set (mc_rows st) \<Longrightarrow> q \<in> set (mc_rows st) \<Longrightarrow> mo_sha256 r = Some s \<Longrightarrow> mo_sha256 q = Some s \<Longrightarrow> r = q"
    "r \<in> set (mc_rows st) \<Longrightarrow> q \<in> set (mc_rows st) \<Longrightarrow> mo_id r = mo_id q \<Longrightarrow> r = q"
    "j \<in> set jobs \<Longrightarrow> job_safe e reg (mc_rows st) (mc_store st) j"
    "j \<in> set jobs \<Longrightarrow> r \<in> set (mc_rows st) \<Longrightarrow> job_id j = Some (mo_id r) \<Longrightarrow> job_row e (mc_store st) j r"
    "j \<in> set jobs \<Longrightarrow> job_id j = Some i \<Longrightarrow> drawn_id e (mc_drawn st) i"
  using assms unfolding bytes_safe_def table_safe_def shas_unique_def ids_drawn_def job_safe_def media_ids_def
  by (blast | (metis option.distinct(1)) | (metis distinct_map inj_onD))+

lemma job_duty_id: "job_duty j = Some (b, i) \<Longrightarrow> job_id j = Some i"
  by (cases j) auto

text \<open>An update of one row by one job. Its new job, the row and what the other jobs promise about
  the row are what remains to check.\<close>

lemma bytes_safe_update:
  assumes s: "bytes_safe e reg st (j # jobs)"
    and idf: "\<And>r. mo_id (f r) = mo_id r" and sha: "\<And>r. mo_sha256 (f r) = mo_sha256 r"
    and row: "\<And>r. r \<in> set (mc_rows st) \<Longrightarrow> mo_id r = i \<Longrightarrow> g r \<Longrightarrow> row_safe e reg (mc_store st) (f r)"
    and others: "\<And>k r. k \<in> set jobs \<Longrightarrow> job_duty k = None \<or> job_duty k \<noteq> job_duty j \<Longrightarrow> job_id k = Some i \<Longrightarrow>
        r \<in> set (mc_rows st) \<Longrightarrow> mo_id r = i \<Longrightarrow> g r \<Longrightarrow> job_row e (mc_store st) k r \<Longrightarrow>
        job_row e (mc_store st) k (f r)"
    and new: "job_safe e reg (fst (update_media g f i (mc_rows st))) (mc_store st) j'"
      "\<And>x. job_id j' = Some x \<Longrightarrow> drawn_id e (mc_drawn st) x"
      "job_duty j' = job_duty j \<or> duty_free j' jobs"
  shows "bytes_safe e reg (st\<lparr>mc_rows := fst (update_media g f i (mc_rows st))\<rparr>) (j' # jobs)"
proof -
  let ?rows = "fst (update_media g f i (mc_rows st))"
  from s have s': "bytes_safe e reg st jobs" and free: "duty_free j jobs"
    by (simp_all add: bytes_safe_Cons)
  have ids: "map mo_id ?rows = map mo_id (mc_rows st)" by (rule ids_update_media) (rule idf)
  then have mids: "media_ids ?rows = media_ids (mc_rows st)" unfolding media_ids_def by (metis list.set_map)
  have upd: "\<exists>r \<in> set (mc_rows st). q = (if mo_id r = i \<and> g r then f r else r)" if "q \<in> set ?rows" for q
    using that unfolding set_update_media by blast
  have shas: "shas_unique ?rows"
    unfolding shas_unique_def
  proof (intro ballI impI; elim conjE)
    fix q q' assume q: "q \<in> set ?rows" "q' \<in> set ?rows" and eq: "mo_sha256 q \<noteq> None" "mo_sha256 q = mo_sha256 q'"
    from upd[OF q(1)] upd[OF q(2)] obtain r r' where
      r: "r \<in> set (mc_rows st)" "q = (if mo_id r = i \<and> g r then f r else r)" and
      r': "r' \<in> set (mc_rows st)" "q' = (if mo_id r' = i \<and> g r' then f r' else r')" by blast
    have "mo_sha256 r = mo_sha256 q" "mo_sha256 r' = mo_sha256 q'" unfolding r(2) r'(2) by (simp_all add: sha)
    with eq bytes_safeD(5)[OF s' r(1) r'(1)] have "r = r'" by (metis not_None_eq)
    with r r' show "q = q'" by simp
  qed
  have "row_safe e reg (mc_store st) q" if "q \<in> set ?rows" for q
    using that row bytes_safeD(3)[OF s'] by (cases rule: update_media_cases) auto
  with ids s' shas have tab: "table_safe e reg ?rows (mc_store st)"
    unfolding table_safe_def bytes_safe_def by metis
  have jobs: "job_safe e reg ?rows (mc_store st) k" if k: "k \<in> set jobs" for k
  proof -
    have duty: "job_duty k = None \<or> job_duty k \<noteq> job_duty j"
      using free k by (auto simp: duty_free_def)
    have "job_row e (mc_store st) k q" if q: "q \<in> set ?rows" and id: "job_id k = Some (mo_id q)" for q
      using q
    proof (cases rule: update_media_cases)
      case kept
      then show ?thesis using bytes_safeD(8)[OF s' k _ id] by blast
    next
      case (hit r)
      with id have "job_id k = Some (mo_id r)" by (simp add: idf)
      from others[OF k duty _ hit(1-3) bytes_safeD(8)[OF s' k hit(1) this]] this hit show ?thesis by simp
    qed
    with bytes_safeD(7)[OF s' k] show ?thesis
      by (auto simp: job_safe_def job_present_def mids split: media_job.split)
  qed
  have "duty_free j' jobs" using new(3) free by (auto simp: duty_free_def)
  with tab jobs s' new(1,2) show ?thesis
    by (simp add: bytes_safe_def[of e reg "st\<lparr>mc_rows := ?rows\<rparr>" jobs] bytes_safe_Cons ids_drawn_def mids)
      (simp add: bytes_safe_def ids_drawn_def)
qed
lemma idle_job: "bytes_safe e reg st (Crashed # jobs) \<longleftrightarrow> bytes_safe e reg st jobs"
  "bytes_safe e reg st (Finished x # jobs) \<longleftrightarrow> bytes_safe e reg st jobs"
  by (auto simp: bytes_safe_Cons job_safe_def job_present_def duty_free_def)

text \<open>Objects: new ones, dropping a key without owner, and dropping a key of one hash.\<close>

definition keeps_owned :: "media_env \<Rightarrow> (string \<Rightarrow> string option) \<Rightarrow> object_store \<Rightarrow> object_store \<Rightarrow> bool" where
  "keeps_owned e reg store store' \<longleftrightarrow>
     (\<forall>k. key_owner (me_prefix e) reg k \<noteq> None \<and> store k \<noteq> None \<longrightarrow> store' k \<noteq> None)"

lemma keeps_owned_add: "keeps_owned e reg store (store(k \<mapsto> b))"
  and keeps_owned_temp: "key_owner (me_prefix e) reg k = None \<Longrightarrow> keeps_owned e reg store (storage_delete k store)"
  and keeps_owned_refl: "keeps_owned e reg store store"
  and keeps_owned_trans: "keeps_owned e reg s1 s2 \<Longrightarrow> keeps_owned e reg s2 s3 \<Longrightarrow> keeps_owned e reg s1 s3"
  by (auto simp: keeps_owned_def storage_delete_def)

lemma row_safe_keeps: "keeps_owned e reg s s' \<Longrightarrow> row_safe e reg s r \<Longrightarrow> row_safe e reg s' r"
  by (auto simp: row_safe_def keeps_owned_def split: option.splits)

lemma stored_keeps: "keeps_owned e reg s s' \<Longrightarrow> stored e s c \<Longrightarrow> stored e s' c"
  unfolding stored_def keeps_owned_def using owner_of_final_key by (metis option.distinct(1))

lemma job_row_keeps: "keeps_owned e reg s s' \<Longrightarrow> job_row e s j r \<Longrightarrow> job_row e s' j r"
  by (cases j) (auto intro: stored_keeps)

lemma bytes_safe_store:
  assumes "bytes_safe e reg st jobs" "keeps_owned e reg (mc_store st) store'"
  shows "bytes_safe e reg (st\<lparr>mc_store := store'\<rparr>) jobs"
  using assms row_safe_keeps[OF assms(2)] job_row_keeps[OF assms(2)]
  by (auto simp: bytes_safe_def table_safe_def ids_drawn_def job_safe_def)

lemma bytes_safe_remove:
  assumes s: "bytes_safe e reg st jobs" and own: "key_owner (me_prefix e) reg key = Some sha"
    and rows: "\<And>r. r \<in> set (mc_rows st) \<Longrightarrow> mo_sha256 r = Some sha \<Longrightarrow>
        mo_storage_uri r = None \<or> mo_gc_state r \<noteq> 0 \<and> mo_gc_state r \<noteq> 1"
    and jobs: "\<And>j r. j \<in> set jobs \<Longrightarrow> r \<in> set (mc_rows st) \<Longrightarrow> mo_sha256 r = Some sha \<Longrightarrow>
        job_id j = Some (mo_id r) \<Longrightarrow> job_row e (mc_store st) j r \<Longrightarrow>
        job_row e (storage_delete key (mc_store st)) j r"
  shows "bytes_safe e reg (st\<lparr>mc_store := storage_delete key (mc_store st)\<rparr>) jobs"
proof -
  let ?store = "storage_delete key (mc_store st)"
  have other: "?store k = mc_store st k" if "key_owner (me_prefix e) reg k \<noteq> Some sha" for k
    using that own by (auto simp: storage_delete_def)
  have "row_safe e reg ?store r" if r: "r \<in> set (mc_rows st)" for r
  proof (cases "mo_sha256 r = Some sha")
    case True
    with rows[OF r] bytes_safeD(3)[OF s r] show ?thesis by (auto simp: row_safe_def split: option.splits)
  next
    case False
    with other bytes_safeD(3)[OF s r] show ?thesis by (auto simp: row_safe_def split: option.splits)
  qed
  moreover have "job_row e ?store j r"
    if j: "j \<in> set jobs" and r: "r \<in> set (mc_rows st)" and id: "job_id j = Some (mo_id r)" for j r
  proof (cases "mo_sha256 r = Some sha")
    case True
    then show ?thesis using jobs[OF j r _ id] bytes_safeD(8)[OF s j r id] by blast
  next
    case False
    have st_eq: "stored e ?store c = stored e (mc_store st) c" if "mo_sha256 r = Some (uc_sha c)" for c
      using False that owner_of_final_key[of "me_prefix e" reg "uc_sha c"]
      by (simp add: stored_def other)
    show ?thesis using bytes_safeD(8)[OF s j r id]
      by (cases j) (auto simp: st_eq reserved_row_def promoted_row_def)
  qed
  ultimately show ?thesis
    using s by (auto simp: bytes_safe_def table_safe_def ids_drawn_def job_safe_def)
qed

text \<open>Deleting a row that no pending storage delete relies on.\<close>

lemma bytes_safe_delete:
  assumes s: "bytes_safe e reg st jobs"
    and claims: "\<And>r row. r \<in> set (mc_rows st) \<Longrightarrow> mo_id r = i \<Longrightarrow> mo_storage_uri row \<noteq> None \<Longrightarrow>
        Delete_Claimed i row \<in> set jobs \<Longrightarrow> False"
  shows "bytes_safe e reg (st\<lparr>mc_rows := fst (delete_if_unreferenced_tx i (mc_rows st))\<rparr>) jobs"
proof -
  let ?keep = "\<lambda>r. \<not> (mo_id r = i \<and> mo_ref_count r = 0 \<and> mo_gc_state r \<in> {0, 1, 5})"
  have eq: "fst (delete_if_unreferenced_tx i (mc_rows st)) = filter ?keep (mc_rows st)"
    by (simp add: delete_if_unreferenced_tx_def Let_def)
  have sub: "set (filter ?keep (mc_rows st)) \<subseteq> set (mc_rows st)" by auto
  have "job_present (filter ?keep (mc_rows st)) j" if j: "j \<in> set jobs" for j
  proof -
    have "a \<in> media_ids (filter ?keep (mc_rows st))"
      if jj: "j = Delete_Claimed a row" and uri: "mo_storage_uri row \<noteq> None" for a row
    proof -
      have "a \<in> media_ids (mc_rows st)"
        using bytes_safeD(7)[OF s j] jj uri by (auto simp: job_safe_def job_present_def)
      then obtain r where r: "r \<in> set (mc_rows st)" "mo_id r = a" by (auto simp: media_ids_def)
      with claims[OF r(1) _ uri] jj j have "a \<noteq> i" by blast
      with r show ?thesis by (auto simp: media_ids_def)
    qed
    then show ?thesis by (auto simp: job_present_def split: media_job.split)
  qed
  with s sub show ?thesis
    unfolding eq bytes_safe_def table_safe_def shas_unique_def ids_drawn_def job_safe_def media_ids_def
    by (auto simp: distinct_map_filter)
qed

text \<open>A new row has an id that no job and no row knows.\<close>

lemma fresh_id:
  assumes "inj (me_id e)" "drawn_id e n i"
  shows "i \<noteq> me_id e n"
  using assms by (auto simp: drawn_id_def inj_def)

lemma drawn_id_Suc: "drawn_id e n i \<Longrightarrow> drawn_id e (n + 1) i" "drawn_id e (n + 1) (me_id e n)"
  by (auto simp: drawn_id_def intro: less_SucI)

lemma bytes_safe_draw: "bytes_safe e reg st jobs \<Longrightarrow> bytes_safe e reg (st\<lparr>mc_drawn := mc_drawn st + 1\<rparr>) jobs"
  by (auto simp: bytes_safe_def ids_drawn_def drawn_id_Suc simp del: One_nat_def)

lemma bytes_safe_insert:
  assumes inj: "inj (me_id e)" and s: "bytes_safe e reg st jobs"
    and id: "mo_id r = me_id e (mc_drawn st)" and safe: "row_safe e reg (mc_store st) r"
    and sha: "mo_sha256 r = None \<or> (\<forall>q \<in> set (mc_rows st). mo_sha256 q \<noteq> mo_sha256 r)"
  shows "bytes_safe e reg (st\<lparr>mc_drawn := mc_drawn st + 1, mc_rows := mc_rows st @ [r]\<rparr>) jobs"
proof -
  have new: "mo_id q \<noteq> mo_id r" if "q \<in> set (mc_rows st)" for q
    using fresh_id[OF inj bytes_safeD(4)[OF s that]] id by simp
  have "job_id j \<noteq> Some (mo_id r)" if "j \<in> set jobs" for j
    using fresh_id[OF inj bytes_safeD(9)[OF s that]] id by auto
  moreover have "distinct (map mo_id (mc_rows st @ [r]))"
    using bytes_safeD(2)[OF s] new by force
  moreover have "shas_unique (mc_rows st @ [r])"
    using s sha unfolding bytes_safe_def table_safe_def shas_unique_def by (metis UnE empty_iff empty_set list.set(2) set_append set_ConsD)
  moreover have "job_present (mc_rows st @ [r]) j" if "j \<in> set jobs" for j
    using bytes_safeD(7)[OF s that]
    by (auto simp: job_safe_def job_present_def media_ids_def split: media_job.splits)
  ultimately show ?thesis
    using s safe drawn_id_Suc(1)[of e "mc_drawn st"] drawn_id_Suc(2)[of e "mc_drawn st"] id
    by (auto simp: bytes_safe_def table_safe_def ids_drawn_def job_safe_def media_ids_def)
qed

subsection \<open>Preservation, step by step\<close>

lemmas row_views = reserved_row_def promoted_row_def snapshot_of_def

text \<open>One step of a job: the state and the job after it.\<close>

definition step_safe ::
  "media_env \<Rightarrow> (string \<Rightarrow> string option) \<Rightarrow> media_job list \<Rightarrow> media_core \<times> media_job \<Rightarrow> bool" where
  "step_safe e reg jobs r \<longleftrightarrow> bytes_safe e reg (fst r) (snd r # jobs)"

lemma step_safe_finished: "step_safe e reg jobs (st, Finished x) \<longleftrightarrow> bytes_safe e reg st jobs"
  by (simp add: step_safe_def idle_job)

lemma bytes_safe_tail: "bytes_safe e reg st (j # jobs) \<Longrightarrow> bytes_safe e reg st jobs"
  by (simp add: bytes_safe_Cons)

text \<open>A job without duty whose promises hold may join.\<close>

lemma bytes_safe_join:
  assumes "bytes_safe e reg st jobs" "job_static e reg j" "job_duty j = None"
    and "\<And>i. job_id j = Some i \<Longrightarrow> drawn_id e (mc_drawn st) i"
    and "\<And>r. r \<in> set (mc_rows st) \<Longrightarrow> job_id j = Some (mo_id r) \<Longrightarrow> job_row e (mc_store st) j r"
  shows "bytes_safe e reg st (j # jobs)"
proof -
  have "job_present (mc_rows st) j" using assms(3) by (cases j) (simp_all add: job_present_def)
  with assms show ?thesis by (simp add: bytes_safe_Cons job_safe_def duty_free_def)
qed

text \<open>The same job in a later stage: it keeps its row and its duty.\<close>

lemma bytes_safe_turn:
  assumes s: "bytes_safe e reg st (j # jobs)" and "job_static e reg j'" "job_present (mc_rows st) j'"
    and "job_id j' = job_id j" "job_duty j' = job_duty j \<or> job_duty j' = None"
    and "\<And>r. r \<in> set (mc_rows st) \<Longrightarrow> job_row e (mc_store st) j r \<Longrightarrow> job_row e (mc_store st) j' r"
  shows "bytes_safe e reg st (j' # jobs)"
  using assms by (auto simp: bytes_safe_Cons job_safe_def duty_free_def)

lemma bytes_safe_head:
  assumes "bytes_safe e reg st (j # jobs)"
  shows "job_static e reg j"
    "r \<in> set (mc_rows st) \<Longrightarrow> job_id j = Some (mo_id r) \<Longrightarrow> job_row e (mc_store st) j r"
    "job_id j = Some i \<Longrightarrow> drawn_id e (mc_drawn st) i"
    "job_present (mc_rows st) j"
    "k \<in> set jobs \<Longrightarrow> job_duty j = Some d \<Longrightarrow> job_duty k \<noteq> Some d"
  using assms by (auto simp: bytes_safe_Cons job_safe_def duty_free_def)

lemma find_by_sha256_Some: "find_by_sha256 sha rows = Some r \<Longrightarrow> r \<in> set rows \<and> mo_sha256 r = Some sha"
  by (auto simp: find_by_sha256_def find_Some_iff in_set_conv_nth)

lemma insert_reservation_new:
  assumes "insert_reservation_tx v rows = Inr (rows', True)"
  shows "rows' = rows @ [reservation_row v]" "\<And>q. q \<in> set rows \<Longrightarrow> mo_sha256 q \<noteq> Some (rs_sha256 v)"
  using assms
  by (auto simp: insert_reservation_tx_def insert_media_def reservation_row_def list_ex_iff split: if_splits)

lemma conflict_join:
  assumes s: "bytes_safe e reg st jobs" and t: "temp_free e reg c"
    and row: "row \<in> set (mc_rows st)" "mo_sha256 row = Some (uc_sha c)"
  shows "bytes_safe e reg st (Upload_Conflict c row # jobs)"
proof (rule bytes_safe_join[OF s])
  fix r assume r: "r \<in> set (mc_rows st)" "job_id (Upload_Conflict c row) = Some (mo_id r)"
  with bytes_safeD(6)[OF s row(1) r(1)] row(2)
  show "job_row e (mc_store st) (Upload_Conflict c row) r" by simp
qed (use t bytes_safeD(4)[OF s row(1)] in simp_all)

lemma upload_reserve_safe:
  assumes inj: "inj (me_id e)" and s: "bytes_safe e reg st (Upload_Temp c # jobs)"
  shows "step_safe e reg jobs (upload_reserve e now c st)"
proof -
  let ?i = "me_id e (mc_drawn st)"
  let ?v = "upload_reservation now ?i c"
  from s have s': "bytes_safe e reg st jobs" by (rule bytes_safe_tail)
  note draw = bytes_safe_draw[OF s']
  have t: "temp_free e reg c" using bytes_safe_head(1)[OF s] by simp
  show ?thesis
  proof (cases "insert_reservation_tx ?v (mc_rows st)")
    case (Inl err)
    with draw show ?thesis by (simp add: upload_reserve_def step_safe_finished)
  next
    case (Inr x)
    then obtain rows' ok where ins: "insert_reservation_tx ?v (mc_rows st) = Inr (rows', ok)" by (cases x) auto
    show ?thesis
    proof (cases ok)
      case False
      show ?thesis
      proof (cases "find_by_sha256 (uc_sha c) (mc_rows st)")
        case None
        with draw ins False show ?thesis by (simp add: upload_reserve_def step_safe_finished)
      next
        case (Some row)
        with find_by_sha256_Some[OF Some] conflict_join[OF draw t, of row] ins False
        show ?thesis by (simp add: upload_reserve_def step_safe_def)
      qed
    next
      case True
      from ins True have "insert_reservation_tx ?v (mc_rows st) = Inr (rows', True)" by simp
      note new = insert_reservation_new[OF this]
      let ?r = "reservation_row ?v" and ?st = "st\<lparr>mc_drawn := mc_drawn st + 1, mc_rows := mc_rows st @ [reservation_row ?v]\<rparr>"
      have r: "mo_id ?r = ?i" "mo_storage_uri ?r = None" "mo_sha256 ?r = Some (uc_sha c)" "mo_gc_state ?r = 1"
        by (simp_all add: reservation_row_def upload_reservation_def)
      have "bytes_safe e reg ?st jobs"
        by (rule bytes_safe_insert[OF inj s']) (use r new(2) in \<open>auto simp: row_safe_def upload_reservation_def\<close>)
      moreover have "mo_id q \<noteq> ?i" if "q \<in> set (mc_rows st)" for q
        using fresh_id[OF inj bytes_safeD(4)[OF s' that]] by simp
      moreover have "job_id k \<noteq> Some ?i" if "k \<in> set jobs" for k
        using fresh_id[OF inj bytes_safeD(9)[OF s' that]] by auto
      ultimately have "bytes_safe e reg ?st (Upload_Reserved c ?i # jobs)"
        using t r drawn_id_Suc(2)[of e "mc_drawn st"] job_duty_id
        by (fastforce simp: bytes_safe_Cons job_safe_def job_present_def duty_free_def reserved_row_def)
      with ins True new(1) show ?thesis by (simp add: upload_reserve_def step_safe_def Let_def)
    qed
  qed
qed

lemma copy_call_keeps:
  assumes "copy_call io src dst store = Inr store'"
  shows "keeps_owned e reg store store'" "store' dst \<noteq> None"
  using assms by (auto simp: copy_call_def storage_copy_def keeps_owned_def split: if_splits option.splits)

lemma fresh_copy_safe:
  assumes s: "bytes_safe e reg st (Upload_Reserved c i # jobs)"
  shows "step_safe e reg jobs (fresh_copy e io c i st)"
proof (cases "copy_call io (uc_temp c) (final_key (me_prefix e) (uc_sha c)) (mc_store st)")
  case (Inl err)
  have "bytes_safe e reg st (Upload_Rollback c i (map_storage_err err) # jobs)"
    by (rule bytes_safe_turn[OF s]) (use bytes_safe_head(1)[OF s] in \<open>simp_all add: job_present_def\<close>)
  with Inl show ?thesis by (simp add: fresh_copy_def step_safe_def)
next
  case (Inr store')
  note k = copy_call_keeps[OF Inr]
  have "bytes_safe e reg (st\<lparr>mc_store := store'\<rparr>) (Upload_Copied c i # jobs)"
    by (rule bytes_safe_turn[OF bytes_safe_store[OF s k(1)]])
      (use bytes_safe_head(1)[OF s] k(2) in \<open>simp_all add: job_present_def stored_def\<close>)
  with Inr show ?thesis by (simp add: fresh_copy_def step_safe_def)
qed

lemma drop_temp_safe:
  "bytes_safe e reg st jobs \<Longrightarrow> temp_free e reg c \<Longrightarrow> bytes_safe e reg (drop_temp c st) jobs"
  by (rule bytes_safe_store) (simp_all add: keeps_owned_temp temp_free_def)

text \<open>A claimed delete with a key and a reservation never concern the same row.\<close>

lemma fresh_rollback_safe:
  assumes s: "bytes_safe e reg st (Upload_Rollback c i err # jobs)"
  shows "step_safe e reg jobs (fresh_rollback c i err st)"
proof -
  have "bytes_safe e reg (st\<lparr>mc_rows := fst (delete_if_unreferenced_tx i (mc_rows st))\<rparr>) jobs"
  proof (rule bytes_safe_delete[OF bytes_safe_tail[OF s]])
    fix r row assume r: "r \<in> set (mc_rows st)" "mo_id r = i" and uri: "mo_storage_uri row \<noteq> None"
      and j: "Delete_Claimed i row \<in> set jobs"
    have "snapshot_of row r" using bytes_safeD(8)[OF bytes_safe_tail[OF s] j r(1)] r(2) by simp
    moreover have "reserved_row c r" using bytes_safe_head(2)[OF s r(1)] r(2) by simp
    ultimately show False using uri by (simp add: row_views)
  qed
  with drop_temp_safe[OF this, of c] bytes_safe_head(1)[OF s]
  show ?thesis by (simp add: fresh_rollback_def step_safe_finished)
qed

lemma confirm_args_managed:
  "managed (me_backend e) \<Longrightarrow> confirm_args e sha key store = Inr (store, key, None)"
  by (auto simp: confirm_args_def managed_def)

lemma finish_update:
  assumes s: "bytes_safe e reg st (j # jobs)"
    and idf: "\<And>r. mo_id (f r) = mo_id r" and sha: "\<And>r. mo_sha256 (f r) = mo_sha256 r"
    and row: "\<And>r. r \<in> set (mc_rows st) \<Longrightarrow> mo_id r = i \<Longrightarrow> g r \<Longrightarrow> row_safe e reg (mc_store st) r \<Longrightarrow>
        row_safe e reg (mc_store st) (f r)"
    and others: "\<And>k r. k \<in> set jobs \<Longrightarrow> job_duty k = None \<or> job_duty k \<noteq> job_duty j \<Longrightarrow> job_id k = Some i \<Longrightarrow>
        r \<in> set (mc_rows st) \<Longrightarrow> mo_id r = i \<Longrightarrow> g r \<Longrightarrow> job_row e (mc_store st) k r \<Longrightarrow>
        job_row e (mc_store st) k (f r)"
  shows "bytes_safe e reg (st\<lparr>mc_rows := fst (update_media g f i (mc_rows st))\<rparr>) jobs"
proof -
  have "bytes_safe e reg (st\<lparr>mc_rows := fst (update_media g f i (mc_rows st))\<rparr>) (Crashed # jobs)"
    by (rule bytes_safe_update[OF s idf sha])
      (use row others bytes_safeD(3)[OF bytes_safe_tail[OF s]] in
        \<open>auto simp: job_safe_def job_present_def duty_free_def\<close>)
  then show ?thesis by (simp add: idle_job)
qed

lemma fresh_confirm_safe:
  assumes s: "bytes_safe e reg st (Upload_Copied c i # jobs)" and m: "managed (me_backend e)"
  shows "step_safe e reg jobs (fresh_confirm e now c i st)"
proof -
  let ?F = "final_key (me_prefix e) (uc_sha c)" and ?n = "Some (wrap_i64 (uc_count c))"
  let ?st = "st\<lparr>mc_rows := fst (confirm_reservation_tx now ?F (me_backend e) ?n None i (mc_rows st))\<rparr>"
  have "bytes_safe e reg ?st jobs"
    unfolding confirm_reservation_tx_def
  proof (rule finish_update[OF s])
    fix r assume r: "r \<in> set (mc_rows st)" "mo_id r = i"
    then have "reserved_row c r \<and> stored e (mc_store st) c" using bytes_safe_head(2)[OF s r(1)] by simp
    then show "row_safe e reg (mc_store st) (r\<lparr>mo_storage_uri := Some ?F, mo_storage_backend := me_backend e,
        mo_byte_size := ?n, mo_metadata := coalesce None (mo_metadata r), mo_updated_at := now\<rparr>)"
      by (simp add: row_safe_def reserved_row_def stored_def owner_of_final_key)
  next
    fix k r assume k: "k \<in> set jobs" "job_duty k = None \<or> job_duty k \<noteq> job_duty (Upload_Copied c i)" "job_id k = Some i"
      and g: "mo_gc_state r = 1 \<and> mo_storage_uri r = None" and row: "job_row e (mc_store st) k r"
    then show "job_row e (mc_store st) k (r\<lparr>mo_storage_uri := Some ?F, mo_storage_backend := me_backend e,
        mo_byte_size := ?n, mo_metadata := coalesce None (mo_metadata r), mo_updated_at := now\<rparr>)"
      by (cases k rule: media_job.exhaust) (auto simp: row_views)
  qed simp_all
  moreover have "temp_free e reg c" using bytes_safe_head(1)[OF s] by simp
  ultimately show ?thesis
    using drop_temp_safe[of e reg ?st jobs c]
    by (auto simp: fresh_confirm_def confirm_args_managed[OF m] step_safe_finished split: prod.split bool.split)
qed

text \<open>A claim of a row that carries no duty takes it; no other job owns it yet.\<close>

lemma claim_free:
  assumes s: "bytes_safe e reg st jobs" and r: "r \<in> set (mc_rows st)" "mo_id r = i"
    and gc: "mo_gc_state r \<noteq> 4" "mo_gc_state r \<noteq> 5" and k: "k \<in> set jobs"
  shows "job_duty k \<noteq> Some (False, i)"
proof
  assume d: "job_duty k = Some (False, i)"
  from job_duty_id[OF d] bytes_safeD(8)[OF s k r(1)] r(2) have "job_row e (mc_store st) k r" by simp
  with d gc show False by (cases k rule: media_job.exhaust) (auto simp: row_views)
qed

lemma promote_claim_safe:
  assumes s: "bytes_safe e reg st (j # jobs)" and d: "job_duty j = None" and t: "temp_free e reg c"
    and old: "drawn_id e (mc_drawn st) i"
    and sha: "\<And>r. r \<in> set (mc_rows st) \<Longrightarrow> mo_id r = i \<Longrightarrow> mo_sha256 r = Some (uc_sha c)"
  shows "step_safe e reg jobs (promote_claim now c i st)"
proof -
  let ?g = "\<lambda>r. mo_gc_state r \<in> {2, 3}" and ?f = "\<lambda>r. r\<lparr>mo_gc_state := 4, mo_updated_at := now\<rparr>"
  let ?rows = "fst (update_media ?g ?f i (mc_rows st))" and ?ok = "snd (update_media ?g ?f i (mc_rows st))"
  note s' = bytes_safe_tail[OF s]
  have row: "row_safe e reg (mc_store st) (?f r)" if "r \<in> set (mc_rows st)" "?g r" for r
    using bytes_safeD(3)[OF s' that(1)] that(2) by (auto simp: row_safe_def split: option.splits)
  have others: "job_row e (mc_store st) k (?f r)"
    if "?g r" "job_row e (mc_store st) k r" for k r
    using that by (cases k rule: media_job.exhaust) (auto simp: row_views)
  show ?thesis
  proof (cases ?ok)
    case True
    then obtain r0 where r0: "r0 \<in> set (mc_rows st)" "mo_id r0 = i" "?g r0" by (auto simp: snd_update_media)
    have "bytes_safe e reg (st\<lparr>mc_rows := ?rows\<rparr>) (Promote_Claimed c i # jobs)"
    proof (rule bytes_safe_update[OF s])
      have "promoted_row c q" if "q \<in> set ?rows" "mo_id q = i" for q
        using that(1)
      proof (cases rule: update_media_cases)
        case kept
        with bytes_safeD(6)[OF s' r0(1), of q] r0 that(2) show ?thesis by auto
      next
        case (hit r)
        with sha[OF hit(1,2)] show ?thesis by (simp add: promoted_row_def)
      qed
      then show "job_safe e reg ?rows (mc_store st) (Promote_Claimed c i)"
        using t by (auto simp: job_safe_def job_present_def)
      have "job_duty k \<noteq> Some (False, i)" if "k \<in> set jobs" for k
        using claim_free[OF s' r0(1,2) _ _ that] r0(3) by auto
      then show "job_duty (Promote_Claimed c i) = job_duty j \<or> duty_free (Promote_Claimed c i) jobs"
        by (auto simp: duty_free_def)
    qed (use row others old in auto)
    with True show ?thesis
      by (auto simp: promote_claim_def claim_promote_tx_def step_safe_def split: prod.split bool.split)
  next
    case False
    have "bytes_safe e reg (st\<lparr>mc_rows := ?rows\<rparr>) (Promote_Lost c i # jobs)"
    proof (rule bytes_safe_update[OF s])
      have "mo_sha256 q = Some (uc_sha c)" if "q \<in> set ?rows" "mo_id q = i" for q
        using that(1) that(2) sha by (cases rule: update_media_cases) auto
      then show "job_safe e reg ?rows (mc_store st) (Promote_Lost c i)"
        using t by (auto simp: job_safe_def job_present_def)
    qed (use row others old in \<open>auto simp: duty_free_def\<close>)
    with False show ?thesis
      by (auto simp: promote_claim_def claim_promote_tx_def step_safe_def split: prod.split bool.split)
  qed
qed

lemma conflict_safe:
  assumes s: "bytes_safe e reg st (Upload_Conflict c row # jobs)"
  shows "step_safe e reg jobs (handle_upload_conflict now c row st)"
proof -
  note h = bytes_safe_head[OF s]
  have t: "temp_free e reg c" using h(1) by simp
  have "step_safe e reg jobs (promote_claim now c (mo_id row) st)"
    by (rule promote_claim_safe[OF s _ t]) (use h(2,3) in simp_all)
  with drop_temp_safe[OF bytes_safe_tail[OF s] t] show ?thesis
    by (simp add: handle_upload_conflict_def Let_def step_safe_finished)
qed

lemma promote_lost_safe:
  assumes s: "bytes_safe e reg st (Promote_Lost c i # jobs)"
  shows "step_safe e reg jobs (promote_lost c i st)"
proof (cases "find_media i (mc_rows st)")
  case None
  with bytes_safe_tail[OF s] show ?thesis by (simp add: promote_lost_def step_safe_finished)
next
  case (Some row)
  note row = find_media_Some[OF Some]
  have "bytes_safe e reg st (Upload_Conflict c row # jobs)"
    by (rule conflict_join[OF bytes_safe_tail[OF s]])
      (use row bytes_safe_head(1)[OF s] bytes_safe_head(2)[OF s, of row] in auto)
  with Some show ?thesis by (simp add: promote_lost_def step_safe_def)
qed

lemma promote_copy_safe:
  assumes s: "bytes_safe e reg st (Promote_Claimed c i # jobs)"
  shows "step_safe e reg jobs (promote_copy e io c i st)"
proof (cases "copy_call io (uc_temp c) (final_key (me_prefix e) (uc_sha c)) (mc_store st)")
  case (Inl err)
  with bytes_safe_tail[OF s] show ?thesis by (simp add: promote_copy_def step_safe_finished)
next
  case (Inr store')
  note k = copy_call_keeps[OF Inr]
  have "bytes_safe e reg (st\<lparr>mc_store := store'\<rparr>) (Promote_Copied c i # jobs)"
    by (rule bytes_safe_turn[OF bytes_safe_store[OF s k(1)]])
      (use bytes_safe_head(1)[OF s] k(2) in \<open>simp_all add: job_present_def stored_def\<close>)
  with Inr show ?thesis by (simp add: promote_copy_def step_safe_def)
qed

lemma promote_read_safe:
  assumes s: "bytes_safe e reg st (Promote_Copied c i # jobs)"
  shows "step_safe e reg jobs (promote_read c i st)"
proof -
  have "bytes_safe e reg st (Promote_Confirm c i gc # jobs)" for gc
    by (rule bytes_safe_turn[OF s]) (use bytes_safe_head(1)[OF s] in \<open>simp_all add: job_present_def\<close>)
  with bytes_safe_tail[OF s] show ?thesis
    by (auto simp: promote_read_def step_safe_def idle_job split: option.split)
qed

lemma promote_confirm_safe:
  assumes s: "bytes_safe e reg st (Promote_Confirm c i gc # jobs)" and m: "managed (me_backend e)"
  shows "step_safe e reg jobs (promote_confirm e now c i gc st)"
proof -
  let ?F = "final_key (me_prefix e) (uc_sha c)" and ?n = "Some (wrap_i64 (uc_count c))"
  let ?f = "\<lambda>r. r\<lparr>mo_storage_uri := Some ?F, mo_storage_backend := me_backend e, mo_byte_size := ?n,
      mo_gc_state := gc, mo_metadata := coalesce None (mo_metadata r), mo_updated_at := now\<rparr>"
  let ?st = "st\<lparr>mc_rows := fst (confirm_promote_tx now ?F (me_backend e) ?n gc None i (mc_rows st))\<rparr>"
  have "bytes_safe e reg ?st jobs"
    unfolding confirm_promote_tx_def
  proof (rule finish_update[OF s])
    fix r assume r: "r \<in> set (mc_rows st)" "mo_id r = i"
    then have "promoted_row c r \<and> stored e (mc_store st) c" using bytes_safe_head(2)[OF s r(1)] by simp
    then show "row_safe e reg (mc_store st) (?f r)"
      by (simp add: row_safe_def promoted_row_def stored_def owner_of_final_key)
  next
    fix k r assume k: "job_duty k = None \<or> job_duty k \<noteq> job_duty (Promote_Confirm c i gc)" "job_id k = Some i"
      and g: "mo_gc_state r = 4" and row: "job_row e (mc_store st) k r"
    then show "job_row e (mc_store st) k (?f r)"
      by (cases k rule: media_job.exhaust) (auto simp: row_views)
  qed simp_all
  moreover have "temp_free e reg c" using bytes_safe_head(1)[OF s] by simp
  ultimately show ?thesis
    using drop_temp_safe[of e reg ?st jobs c]
    by (auto simp: promote_confirm_def confirm_args_managed[OF m] step_safe_finished split: prod.split bool.split)
qed

lemma snd_update_unique:
  assumes "distinct (map mo_id (mc_rows st))" "r \<in> set (mc_rows st)" "g r"
  shows "snd (update_media g f (mo_id r) (mc_rows st))"
  using assms by (auto simp: snd_update_media)

lemma register_new_safe:
  assumes inj: "inj (me_id e)" and s: "bytes_safe e reg st jobs" and m: "managed (me_backend e)"
    and ok: "insert_reservation_tx (register_reservation now i p sha n) (mc_rows st) = Inr (rows', True)"
    and i: "i = me_id e (mc_drawn st)"
    and own: "key_owner (me_prefix e) reg (rp_storage_uri p) = Some sha" "mc_store st (rp_storage_uri p) \<noteq> None"
  shows "bytes_safe e reg
    (st\<lparr>mc_drawn := mc_drawn st + 1,
        mc_rows := fst (confirm_reservation_tx now (rp_storage_uri p) (me_backend e) (Some n) None i rows')\<rparr>) jobs"
proof -
  let ?r = "reservation_row (register_reservation now i p sha n)"
  let ?f = "\<lambda>r. r\<lparr>mo_storage_uri := Some (rp_storage_uri p), mo_storage_backend := me_backend e,
      mo_byte_size := Some n, mo_metadata := coalesce None (mo_metadata r), mo_updated_at := now\<rparr>"
  note new = insert_reservation_new[OF ok]
  have r: "mo_id ?r = i" "mo_gc_state ?r = 1" "mo_storage_uri ?r = None" "mo_sha256 ?r = Some sha"
    by (simp_all add: reservation_row_def register_reservation_def)
  have other: "mo_id q \<noteq> i" if "q \<in> set (mc_rows st)" for q
    using fresh_id[OF inj bytes_safeD(4)[OF s that]] i by simp
  have "map (\<lambda>q. if mo_id q = i \<and> mo_gc_state q = 1 \<and> mo_storage_uri q = None then ?f q else q) (mc_rows st)
        = mc_rows st"
    by (rule map_idI) (use other in auto)
  then have rows: "fst (confirm_reservation_tx now (rp_storage_uri p) (me_backend e) (Some n) None i rows')
      = mc_rows st @ [?f ?r]"
    by (simp add: confirm_reservation_tx_def update_media_def new(1) r)
  have "bytes_safe e reg (st\<lparr>mc_drawn := mc_drawn st + 1, mc_rows := mc_rows st @ [?f ?r]\<rparr>) jobs"
    by (rule bytes_safe_insert[OF inj s])
      (use r i own new(2) in \<open>auto simp: row_safe_def register_reservation_def\<close>)
  then show ?thesis by (simp add: rows)
qed

lemma register_promote_safe:
  assumes s: "bytes_safe e reg st jobs" and m: "managed (me_backend e)"
    and row: "row \<in> set (mc_rows st)" "mo_sha256 row = Some sha"
    and own: "key_owner (me_prefix e) reg (rp_storage_uri p) = Some sha" "mc_store st (rp_storage_uri p) \<noteq> None"
  shows "bytes_safe e reg
    (st\<lparr>mc_rows := fst (register_promote_tx now (rp_storage_uri p) (me_backend e) (Some n) gc (mo_id row) (mc_rows st))\<rparr>) jobs"
  unfolding register_promote_tx_def
proof (rule finish_update[of e reg st Crashed])
  show "bytes_safe e reg st (Crashed # jobs)" using s by (simp add: idle_job)
  fix r assume r: "r \<in> set (mc_rows st)" "mo_id r = mo_id row"
  with bytes_safeD(6)[OF s r(1) row(1)] row own
  show "row_safe e reg (mc_store st) (r\<lparr>mo_storage_uri := Some (rp_storage_uri p), mo_storage_backend := me_backend e,
      mo_byte_size := Some n, mo_gc_state := gc, mo_updated_at := now\<rparr>)"
    by (simp add: row_safe_def)
next
  fix k r assume "mo_gc_state r \<in> {2, 3}" "job_row e (mc_store st) k r"
  then show "job_row e (mc_store st) k (r\<lparr>mo_storage_uri := Some (rp_storage_uri p), mo_storage_backend := me_backend e,
      mo_byte_size := Some n, mo_gc_state := gc, mo_updated_at := now\<rparr>)"
    by (cases k rule: media_job.exhaust) (auto simp: row_views)
qed simp_all

lemma register_managed_safe:
  assumes inj: "inj (me_id e)" and s: "bytes_safe e reg st (Register_Checked p sha n # jobs)"
    and m: "managed (me_backend e)"
    and own: "key_owner (me_prefix e) reg (rp_storage_uri p) = Some sha" "mc_store st (rp_storage_uri p) \<noteq> None"
  shows "step_safe e reg jobs (register_managed e now p sha n st)"
proof -
  let ?i = "me_id e (mc_drawn st)"
  let ?st1 = "st\<lparr>mc_drawn := mc_drawn st + 1\<rparr>"
  from s have s': "bytes_safe e reg st jobs" by (rule bytes_safe_tail)
  note draw = bytes_safe_draw[OF s']
  show ?thesis
  proof (cases "insert_reservation_tx (register_reservation now ?i p sha n) (mc_rows st)")
    case (Inl err)
    with draw show ?thesis by (simp add: register_managed_def step_safe_finished)
  next
    case (Inr x)
    then obtain rows' ok where ins: "insert_reservation_tx (register_reservation now ?i p sha n) (mc_rows st) = Inr (rows', ok)"
      by (cases x) auto
    show ?thesis
    proof (cases ok)
      case True
      from ins True have ins': "insert_reservation_tx (register_reservation now ?i p sha n) (mc_rows st) = Inr (rows', True)"
        by simp
      from register_new_safe[OF inj s' m ins' refl own] ins' show ?thesis
        by (auto simp: register_managed_def step_safe_def Let_def idle_job split: prod.split bool.split)
    next
      case False
      show ?thesis
      proof (cases "find_by_sha256 sha (mc_rows st)")
        case None
        with draw ins False show ?thesis by (simp add: register_managed_def step_safe_finished)
      next
        case (Some row)
        from register_promote_safe[OF draw m, of row sha p now n "if mo_ref_count row > 0 then 0 else gc_orphan"]
          find_by_sha256_Some[OF Some] own draw ins False Some show ?thesis
          by (auto simp: register_managed_def step_safe_def Let_def idle_job split: prod.split bool.split)
      qed
    qed
  qed
qed

lemma register_url_safe:
  assumes inj: "inj (me_id e)" and s: "bytes_safe e reg st jobs"
  shows "step_safe e reg jobs (register_url e now p st)"
proof -
  let ?i = "me_id e (mc_drawn st)"
  let ?r = "url_row now ?i (rp_kind p) (rp_media_type p) (rp_byte_size p) (dimension_column (rp_width p))
      (dimension_column (rp_height p)) (rp_storage_uri p) (rp_alt p)"
  have "bytes_safe e reg (st\<lparr>mc_drawn := mc_drawn st + 1, mc_rows := mc_rows st @ [?r]\<rparr>) jobs"
    by (rule bytes_safe_insert[OF inj s]) (simp_all add: url_row_def row_safe_def managed_def)
  with bytes_safe_draw[OF s] show ?thesis
    by (simp add: register_url_def insert_url_tx_def Let_def step_safe_finished)
qed

lemma register_start_safe:
  assumes "inj (me_id e)" "bytes_safe e reg st jobs"
  shows "step_safe e reg jobs (register_start e now io p st)"
proof -
  have "bytes_safe e reg st (Register_Checked p sha n # jobs)" for sha n
    using assms(2) by (rule bytes_safe_join) simp_all
  with register_url_safe[OF assms] assms(2) show ?thesis
    by (auto simp: register_start_def step_safe_def idle_job split: sum.split)
qed

lemma record_unresolvable_safe:
  assumes inj: "inj (me_id e)" and s: "bytes_safe e reg st jobs"
  shows "bytes_safe e reg (record_unresolvable e now kind mt nb sha w h alt st) jobs"
proof -
  let ?r = "unresolvable_row now (me_id e (mc_drawn st)) kind mt nb sha w h alt"
  have "bytes_safe e reg (st\<lparr>mc_drawn := mc_drawn st + 1, mc_rows := mc_rows st @ [?r]\<rparr>) jobs"
    if "\<forall>q \<in> set (mc_rows st). mo_sha256 q \<noteq> mo_sha256 ?r"
    by (rule bytes_safe_insert[OF inj s]) (use that in \<open>simp_all add: unresolvable_row_def row_safe_def\<close>)
  moreover have "mo_sha256 ?r = Some sha" by (simp add: unresolvable_row_def)
  ultimately show ?thesis
    using bytes_safe_draw[OF s]
    by (auto simp: record_unresolvable_def insert_unresolvable_tx_def insert_media_def Let_def list_ex_iff)
qed

text \<open>Deletion: the snapshot of a row names a key of its hash, and the row keeps having one.\<close>

lemma row_safe_key: "row_safe e reg store r \<Longrightarrow> key_safe e reg r"
  by (auto simp: row_safe_def key_safe_def split: option.splits)

lemma snapshot_refl: "snapshot_of r r"
  by (simp add: snapshot_of_def)

lemma read_join:
  assumes s: "bytes_safe e reg st jobs" and row: "row \<in> set (mc_rows st)"
  shows "bytes_safe e reg st (Delete_Read (mo_id row) row # jobs)"
    "bytes_safe e reg st (Gc_Confirmed row # jobs)" "bytes_safe e reg st (Gc_Failed row # jobs)"
proof -
  have "snapshot_of row r" if "r \<in> set (mc_rows st)" "mo_id row = mo_id r" for r
    using bytes_safeD(6)[OF s row that] by (simp add: snapshot_refl)
  then show "bytes_safe e reg st (Delete_Read (mo_id row) row # jobs)"
    "bytes_safe e reg st (Gc_Confirmed row # jobs)" "bytes_safe e reg st (Gc_Failed row # jobs)"
    using row_safe_key[OF bytes_safeD(3)[OF s row]] bytes_safeD(4)[OF s row]
    by - (rule bytes_safe_join[OF s]; simp)+
qed

lemma delete_start_safe:
  assumes "bytes_safe e reg st jobs"
  shows "step_safe e reg jobs (delete_start i st)"
proof (cases "find_media i (mc_rows st)")
  case (Some row)
  with find_media_Some[OF Some] read_join(1)[OF assms, of row] assms show ?thesis
    by (auto simp: delete_start_def step_safe_def idle_job)
qed (use assms in \<open>simp add: delete_start_def step_safe_finished\<close>)

text \<open>A claim for deletion: of an unreferenced row, or of a failed one.\<close>

lemma claim_safe:
  assumes s: "bytes_safe e reg st (j # jobs)" and d: "job_duty j = None"
    and key: "key_safe e reg row" and old: "drawn_id e (mc_drawn st) i"
    and snap: "\<And>r. r \<in> set (mc_rows st) \<Longrightarrow> mo_id r = i \<Longrightarrow> snapshot_of row r"
    and g: "\<And>r. g r \<Longrightarrow> mo_gc_state r = 0 \<or> mo_gc_state r = 1 \<or> mo_gc_state r = 2"
    and f: "f = (\<lambda>r. r\<lparr>mo_gc_state := 5, mo_updated_at := now\<rparr>)"
  shows "case update_media g f i (mc_rows st) of (rows', ok) \<Rightarrow>
    bytes_safe e reg (st\<lparr>mc_rows := rows'\<rparr>) ((if ok then Delete_Claimed i row else Crashed) # jobs)"
proof -
  let ?rows = "fst (update_media g f i (mc_rows st))" and ?ok = "snd (update_media g f i (mc_rows st))"
  note s' = bytes_safe_tail[OF s]
  have row: "row_safe e reg (mc_store st) (f r)" if "r \<in> set (mc_rows st)" "g r" for r
    using bytes_safeD(3)[OF s' that(1)] unfolding f by (auto simp: row_safe_def split: option.splits)
  have others: "job_row e (mc_store st) k (f r)" if "g r" "job_row e (mc_store st) k r" for k r
    using that g[OF that(1)] unfolding f by (cases k rule: media_job.exhaust) (auto simp: row_views)
  have "bytes_safe e reg (st\<lparr>mc_rows := ?rows\<rparr>) (Delete_Claimed i row # jobs)" if ok: ?ok
  proof (rule bytes_safe_update[OF s])
    from ok obtain r0 where r0: "r0 \<in> set (mc_rows st)" "mo_id r0 = i" "g r0" by (auto simp: snd_update_media)
    have "snapshot_of row q \<and> mo_gc_state q = 5" if q: "q \<in> set ?rows" "mo_id q = i" for q
      using q(1)
    proof (cases rule: update_media_cases)
      case kept
      with bytes_safeD(6)[OF s' r0(1), of q] r0 q(2) show ?thesis by auto
    next
      case (hit r)
      with snap[OF hit(1,2)] show ?thesis unfolding f by (simp add: snapshot_of_def)
    qed
    moreover have "map mo_id ?rows = map mo_id (mc_rows st)" by (rule ids_update_media) (simp add: f)
    then have "media_ids ?rows = media_ids (mc_rows st)" unfolding media_ids_def by (metis list.set_map)
    then have "i \<in> media_ids ?rows" using r0 by (auto simp: media_ids_def)
    ultimately show "job_safe e reg ?rows (mc_store st) (Delete_Claimed i row)"
      using key by (auto simp: job_safe_def job_present_def)
    from g[OF r0(3)] have "mo_gc_state r0 \<noteq> 4" "mo_gc_state r0 \<noteq> 5" by linarith+
    then have "job_duty k \<noteq> Some (False, i)" if "k \<in> set jobs" for k
      using claim_free[OF s' r0(1,2) _ _ that] by blast
    then have "duty_free (Delete_Claimed i row) jobs" by (simp add: duty_free_def)
    then show "job_duty (Delete_Claimed i row) = job_duty j \<or> duty_free (Delete_Claimed i row) jobs" ..
    show "mo_id (f r) = mo_id r" "mo_sha256 (f r) = mo_sha256 r" for r by (simp_all add: f)
    show "job_id (Delete_Claimed i row) = Some x \<Longrightarrow> drawn_id e (mc_drawn st) x" for x using old by simp
  qed (rule row, assumption+, rule others, assumption+)
  moreover have "bytes_safe e reg (st\<lparr>mc_rows := ?rows\<rparr>) jobs"
  proof (rule finish_update[OF s])
    show "mo_id (f r) = mo_id r" "mo_sha256 (f r) = mo_sha256 r" for r by (simp_all add: f)
  qed (rule row, assumption+, rule others, assumption+)
  then have "bytes_safe e reg (st\<lparr>mc_rows := ?rows\<rparr>) (Crashed # jobs)" by (simp add: idle_job)
  ultimately show ?thesis by (simp add: case_prod_beta)
qed

lemma delete_claim_safe:
  assumes s: "bytes_safe e reg st (j # jobs)" and j: "j = Delete_Read i row \<or> j = Gc_Confirmed row \<and> i = mo_id row"
  shows "step_safe e reg jobs (delete_claim now i row st)"
proof -
  note h = bytes_safe_head[OF s]
  have "case claim_deleting_tx now i (mc_rows st) of (rows', ok) \<Rightarrow>
    bytes_safe e reg (st\<lparr>mc_rows := rows'\<rparr>) ((if ok then Delete_Claimed i row else Crashed) # jobs)"
    unfolding claim_deleting_tx_def
    by (rule claim_safe[OF s]) (use j h(1,3) h(2) in auto)
  then show ?thesis
    by (auto simp: delete_claim_def step_safe_def idle_job split: prod.split bool.split)
qed

lemma gc_failed_safe:
  assumes s: "bytes_safe e reg st (Gc_Failed row # jobs)"
  shows "step_safe e reg jobs (gc_deleted_failed_row now row st)"
proof -
  note h = bytes_safe_head[OF s]
  have "case reclaim_deleted_failed_tx now (mo_id row) (mc_rows st) of (rows', ok) \<Rightarrow>
    bytes_safe e reg (st\<lparr>mc_rows := rows'\<rparr>) ((if ok then Delete_Claimed (mo_id row) row else Crashed) # jobs)"
    unfolding reclaim_deleted_failed_tx_def
    by (rule claim_safe[OF s]) (use h(1,3) h(2) in auto)
  then show ?thesis
    by (auto simp: gc_deleted_failed_row_def step_safe_def idle_job split: prod.split bool.split)
qed

text \<open>The storage call of a claimed delete removes the only object of its hash.\<close>

lemma finish_delete_storage_safe:
  assumes s: "bytes_safe e reg st (Delete_Claimed i row # jobs)"
  shows "step_safe e reg jobs (finish_delete_storage io i row st)"
proof -
  note h = bytes_safe_head[OF s]
  have next_row: "bytes_safe e reg st (Delete_Row i # jobs)"
    by (rule bytes_safe_turn[OF s]) (simp_all add: job_present_def)
  have failed: "bytes_safe e reg st (Delete_Failed i # jobs)" if "mo_storage_uri row \<noteq> None"
    by (rule bytes_safe_turn[OF s]) (use that in \<open>simp_all add: job_present_def snapshot_of_def\<close>)
  have removed: "bytes_safe e reg (st\<lparr>mc_store := storage_delete key (mc_store st)\<rparr>) (Delete_Row i # jobs)"
    if key: "mo_storage_uri row = Some key" and m: "managed (mo_storage_backend row)" for key
  proof -
    from h(1) key m obtain sha where sha: "mo_sha256 row = Some sha" "key_owner (me_prefix e) reg key = Some sha"
      by (auto simp: key_safe_def)
    from h(4) key obtain r0 where r0: "r0 \<in> set (mc_rows st)" "mo_id r0 = i"
      by (auto simp: job_present_def media_ids_def)
    with h(2)[OF r0(1)] key sha(1) have r0': "mo_gc_state r0 = 5" "mo_sha256 r0 = Some sha" "mo_storage_uri r0 \<noteq> None"
      by (auto simp: snapshot_of_def)
    have same: "r = r0" if "r \<in> set (mc_rows st)" "mo_sha256 r = Some sha" for r
      using bytes_safeD(5)[OF next_row that(1) r0(1) that(2) r0'(2)] .
    show ?thesis
    proof (rule bytes_safe_remove[OF next_row sha(2)])
      show "mo_storage_uri r = None \<or> mo_gc_state r \<noteq> 0 \<and> mo_gc_state r \<noteq> 1"
        if "r \<in> set (mc_rows st)" "mo_sha256 r = Some sha" for r
        using same[OF that] r0'(1) by simp
      show "job_row e (storage_delete key (mc_store st)) k r"
        if "r \<in> set (mc_rows st)" "mo_sha256 r = Some sha" "job_row e (mc_store st) k r" for k r
        using same[OF that(1,2)] r0' that(3) by (cases k rule: media_job.exhaust) (auto simp: row_views)
    qed
  qed
  show ?thesis
    using next_row failed removed
    by (auto simp: finish_delete_storage_def step_safe_def managed_def split: option.split)
qed

lemma mark_failed_safe:
  assumes s: "bytes_safe e reg st (Delete_Failed i # jobs)"
  shows "step_safe e reg jobs (finish_delete_failed now i st)"
proof -
  note h = bytes_safe_head[OF s]
  have "bytes_safe e reg (st\<lparr>mc_rows := fst (mark_delete_failed_tx now i (mc_rows st))\<rparr>) jobs"
    unfolding mark_delete_failed_tx_def
  proof (rule finish_update[OF s])
    fix r assume r: "r \<in> set (mc_rows st)" "mo_id r = i" and rs: "row_safe e reg (mc_store st) r"
    then show "row_safe e reg (mc_store st) (r\<lparr>mo_gc_state := 2, mo_updated_at := now\<rparr>)"
      by (auto simp: row_safe_def split: option.splits)
  next
    fix k r assume k: "job_duty k = None \<or> job_duty k \<noteq> job_duty (Delete_Failed i)" "job_id k = Some i"
      and r: "r \<in> set (mc_rows st)" "mo_id r = i" and g: "mo_gc_state r = 5" and row: "job_row e (mc_store st) k r"
    have "mo_storage_uri r \<noteq> None" using h(2)[OF r(1)] r(2) by simp
    with k g row show "job_row e (mc_store st) k (r\<lparr>mo_gc_state := 2, mo_updated_at := now\<rparr>)"
      by (cases k rule: media_job.exhaust) (auto simp: row_views)
  qed simp_all
  then show ?thesis by (simp add: finish_delete_failed_def step_safe_finished)
qed

text \<open>A claimed row is unreferenced, so the conditional delete of its row cannot miss.\<close>

lemma update_media_miss:
  "(\<And>r. r \<in> set rows \<Longrightarrow> mo_id r \<noteq> i) \<Longrightarrow> fst (update_media g f i rows) = rows"
  unfolding update_media_def fst_conv by (rule map_idI) simp

lemma finish_delete_row_safe:
  assumes s: "bytes_safe e reg st (Delete_Row i # jobs)" and c: "counted (mc_rows st) n"
  shows "step_safe e reg jobs (finish_delete_row now i st)"
proof -
  note h = bytes_safe_head[OF s]
  let ?del = "delete_if_unreferenced_tx i (mc_rows st)"
  have del: "bytes_safe e reg (st\<lparr>mc_rows := fst ?del\<rparr>) jobs"
  proof (rule bytes_safe_delete[OF bytes_safe_tail[OF s]])
    show "Delete_Claimed i row \<in> set jobs \<Longrightarrow> False" for row
      using h(5)[of "Delete_Claimed i row" "(False, i)"] by simp
  qed
  have miss: "fst (mark_delete_failed_tx now i (fst ?del)) = fst ?del" if no: "\<not> snd ?del"
  proof -
    have none: "mo_id r \<noteq> i" if r: "r \<in> set (mc_rows st)" for r
    proof
      assume id: "mo_id r = i"
      then have "mo_gc_state r = 5" using h(2)[OF r] by simp
      with counted_rowD(2)[OF c r] id r have "snd ?del"
        by (auto simp: delete_if_unreferenced_tx_def Let_def list_ex_iff)
      with no show False ..
    qed
    then show ?thesis
      unfolding mark_delete_failed_tx_def by (intro update_media_miss) (auto simp: delete_if_unreferenced_tx_def Let_def)
  qed
  show ?thesis
    using del miss
    by (cases ?del; cases "snd ?del") (auto simp: finish_delete_row_def step_safe_finished)
qed

subsection \<open>Risky steps\<close>

text \<open>The hash a job is uploading, once it owns a row.\<close>

fun job_upload :: "media_job \<Rightarrow> string option" where
  "job_upload (Upload_Reserved c i) = Some (uc_sha c)"
| "job_upload (Upload_Rollback c i err) = Some (uc_sha c)"
| "job_upload (Upload_Copied c i) = Some (uc_sha c)"
| "job_upload (Promote_Claimed c i) = Some (uc_sha c)"
| "job_upload (Promote_Copied c i) = Some (uc_sha c)"
| "job_upload (Promote_Confirm c i gc) = Some (uc_sha c)"
| "job_upload _ = None"

definition busy_with :: "media_row \<Rightarrow> media_job \<Rightarrow> bool" where
  "busy_with row j \<longleftrightarrow>
     (case job_duty j of None \<Rightarrow> False | Some (_, i) \<Rightarrow> i = mo_id row) \<or>
     (job_upload j \<noteq> None \<and> job_upload j = mo_sha256 row)"

text \<open>The scanned row is still as it was, holds its hash alone, and no request works on it.\<close>

definition quiet :: "media_row \<Rightarrow> media_core \<Rightarrow> media_job list \<Rightarrow> bool" where
  "quiet row st jobs \<longleftrightarrow>
     list_all (\<lambda>r. if mo_id r = mo_id row \<or> (mo_sha256 row \<noteq> None \<and> mo_sha256 r = mo_sha256 row)
                   then mo_id r = mo_id row \<and> mo_gc_state r = mo_gc_state row
                        \<and> mo_storage_uri r = mo_storage_uri row
                   else True) (mc_rows st) \<and>
     list_all (\<lambda>j. \<not> busy_with row j) jobs"

definition bytes_kept :: "media_row \<Rightarrow> media_core \<Rightarrow> bool" where
  "bytes_kept row st \<longleftrightarrow>
     list_all (\<lambda>r. if mo_id r = mo_id row \<and> managed (mo_storage_backend r)
                   then (case mo_storage_uri r of None \<Rightarrow> True | Some k \<Rightarrow> mc_store st k \<noteq> None)
                   else True) (mc_rows st)"

definition risky :: "media_env \<Rightarrow> (string \<Rightarrow> string option) \<Rightarrow> media_event \<Rightarrow> media_sys \<Rightarrow> bool" where
  "risky e reg ev s =
     (case (ev, s) of
        (Advance n now io, st, jobs) \<Rightarrow>
          (if n < length jobs then
             (case jobs ! n of
                Gc_Reservation row \<Rightarrow> \<not> quiet row st jobs
              | Gc_Reservation_Row row \<Rightarrow> \<not> quiet row st jobs
              | Gc_Promoting row \<Rightarrow> \<not> quiet row st jobs
              | Gc_Promoting_Row row \<Rightarrow> \<not> quiet row st jobs
              | Gc_Deleting row \<Rightarrow> \<not> (quiet row st jobs \<and> bytes_kept row st)
              | Register_Checked p sha k \<Rightarrow>
                  \<not> (key_owner (me_prefix e) reg (rp_storage_uri p) = Some sha
                     \<and> mc_store st (rp_storage_uri p) \<noteq> None)
              | _ \<Rightarrow> False)
           else False)
      | _ \<Rightarrow> False)"

fun safe_run :: "media_env \<Rightarrow> (string \<Rightarrow> string option) \<Rightarrow> media_event list \<Rightarrow> media_sys \<Rightarrow> bool" where
  "safe_run e reg [] s = True"
| "safe_run e reg (ev # evs) s = (\<not> risky e reg ev s \<and> safe_run e reg evs (media_step e ev s))"

lemma quietD:
  assumes "quiet row st (j # jobs)"
  shows "r \<in> set (mc_rows st) \<Longrightarrow> mo_id r = mo_id row \<Longrightarrow>
      mo_gc_state r = mo_gc_state row \<and> mo_storage_uri r = mo_storage_uri row"
    "r \<in> set (mc_rows st) \<Longrightarrow> mo_sha256 row = Some s \<Longrightarrow> mo_sha256 r = Some s \<Longrightarrow>
      mo_id r = mo_id row \<and> mo_gc_state r = mo_gc_state row \<and> mo_storage_uri r = mo_storage_uri row"
    "k \<in> set jobs \<Longrightarrow> job_duty k \<noteq> Some (b, mo_id row)"
    "k \<in> set jobs \<Longrightarrow> mo_sha256 row = Some s \<Longrightarrow> job_upload k \<noteq> Some s"
  using assms by (auto simp: quiet_def list_all_iff busy_with_def split: if_splits)

lemma quiet_set: "set jobs = set jobs' \<Longrightarrow> quiet row st jobs = quiet row st jobs'"
  by (simp add: quiet_def list_all_iff)

text \<open>The sweep of a pending row drops the leaked object of its hash.\<close>

lemma delete_leaked_safe:
  assumes s: "bytes_safe e reg st (j # jobs)" and q: "quiet row st (j # jobs)"
    and gc: "mo_storage_uri row = None"
  shows "bytes_safe e reg (delete_leaked io (map_option (final_key (me_prefix e)) (usable_sha row)) st) jobs"
proof (cases "usable_sha row")
  case (Some sha)
  then have sha: "mo_sha256 row = Some sha" by (auto simp: usable_sha_def split: option.splits if_splits)
  have "bytes_safe e reg (st\<lparr>mc_store := storage_delete (final_key (me_prefix e) sha) (mc_store st)\<rparr>) jobs"
  proof (rule bytes_safe_remove[OF bytes_safe_tail[OF s] owner_of_final_key])
    show "mo_storage_uri r = None \<or> mo_gc_state r \<noteq> 0 \<and> mo_gc_state r \<noteq> 1"
      if "r \<in> set (mc_rows st)" "mo_sha256 r = Some sha" for r
      using quietD(2)[OF q that(1) sha that(2)] gc by simp
    show "job_row e (storage_delete (final_key (me_prefix e) sha) (mc_store st)) k r"
      if "k \<in> set jobs" "mo_sha256 r = Some sha" "job_row e (mc_store st) k r" for k r
      using quietD(4)[OF q that(1) sha] that(2,3) by (cases k rule: media_job.exhaust) (auto simp: row_views)
  qed
  with Some bytes_safe_tail[OF s] show ?thesis by (simp add: delete_leaked_def)
qed (use bytes_safe_tail[OF s] in \<open>simp add: delete_leaked_def\<close>)

lemma gc_storage_safe:
  assumes s: "bytes_safe e reg st (j # jobs)" and q: "quiet row st (j # jobs)"
  shows "j = Gc_Reservation row \<Longrightarrow> step_safe e reg jobs (gc_reservation e io row st)"
    "j = Gc_Promoting row \<Longrightarrow> step_safe e reg jobs (gc_promoting_storage e io row st)"
proof -
  note h = bytes_safe_head(1)[OF s]
  assume j: "j = Gc_Reservation row"
  show "step_safe e reg jobs (gc_reservation e io row st)"
    unfolding gc_reservation_def step_safe_def reservation_recovery_plan_def fst_conv snd_conv
    by (rule bytes_safe_join[OF delete_leaked_safe[OF s q]]) (use h j in simp_all)
next
  note h = bytes_safe_head(1)[OF s]
  assume j: "j = Gc_Promoting row"
  show "step_safe e reg jobs (gc_promoting_storage e io row st)"
    unfolding gc_promoting_storage_def step_safe_def promoting_recovery_plan_def fst_conv snd_conv
    by (rule bytes_safe_join[OF delete_leaked_safe[OF s q]]) (use h j in simp_all)
qed

lemma gc_reservation_row_safe:
  assumes s: "bytes_safe e reg st (Gc_Reservation_Row row # jobs)"
    and q: "quiet row st (Gc_Reservation_Row row # jobs)"
  shows "step_safe e reg jobs (gc_reservation_row row st)"
proof -
  have "bytes_safe e reg (st\<lparr>mc_rows := fst (delete_if_unreferenced_tx (mo_id row) (mc_rows st))\<rparr>) jobs"
  proof (rule bytes_safe_delete[OF bytes_safe_tail[OF s]])
    show "Delete_Claimed (mo_id row) row' \<in> set jobs \<Longrightarrow> False" for row'
      using quietD(3)[OF q, of "Delete_Claimed (mo_id row) row'" False] by simp
  qed
  then show ?thesis by (simp add: gc_reservation_row_def step_safe_finished)
qed

text \<open>A revert of an idle row.\<close>

lemma revert_safe:
  assumes s: "bytes_safe e reg st (j # jobs)" and q: "quiet row st (j # jobs)"
    and f: "f = (\<lambda>r. r\<lparr>mo_gc_state := gc', mo_updated_at := now\<rparr>)"
    and gc: "(gc, gc') = (4, 3) \<or> (gc, gc') = (5, 1) \<and> bytes_kept row st"
  shows "bytes_safe e reg (st\<lparr>mc_rows := fst (update_media (\<lambda>r. mo_gc_state r = gc) f (mo_id row) (mc_rows st))\<rparr>) jobs"
proof (rule finish_update[OF s])
  show "mo_id (f r) = mo_id r" "mo_sha256 (f r) = mo_sha256 r" for r by (simp_all add: f)
  fix r assume r: "r \<in> set (mc_rows st)" "mo_id r = mo_id row" and rs: "row_safe e reg (mc_store st) r"
  show "row_safe e reg (mc_store st) (f r)"
    using rs gc r unfolding f
    by (auto simp: row_safe_def bytes_kept_def list_all_iff split: option.splits)
next
  fix k r assume k: "k \<in> set jobs" "job_id k = Some (mo_id row)"
    and g: "mo_gc_state r = gc" and row: "job_row e (mc_store st) k r"
  have "job_duty k \<noteq> Some (b, mo_id row)" for b using quietD(3)[OF q k(1)] .
  with k(2) g row gc show "job_row e (mc_store st) k (f r)"
    unfolding f by (cases k rule: media_job.exhaust) (auto simp: row_views)
qed

lemma gc_revert_safe:
  assumes s: "bytes_safe e reg st (j # jobs)" and q: "quiet row st (j # jobs)"
  shows "step_safe e reg jobs (gc_promoting_row now row st)"
    "bytes_kept row st \<Longrightarrow> step_safe e reg jobs (gc_deleting_row now row st)"
  using revert_safe[OF s q refl, of 4 3 now] revert_safe[OF s q refl, of 5 1 now]
  by (simp_all add: gc_promoting_row_def gc_deleting_row_def revert_promoting_tx_def
      revert_deleting_tx_def step_safe_finished)

subsection \<open>Memory writes\<close>

lemma bytes_safe_links: "bytes_safe e reg (st\<lparr>mc_links := ls\<rparr>) jobs \<longleftrightarrow> bytes_safe e reg st jobs"
  by (simp add: bytes_safe_def)

lemma incr_safe:
  assumes s: "bytes_safe e reg st jobs"
  shows "bytes_safe e reg (st\<lparr>mc_rows := fst (incr_ref_tx now i (mc_rows st))\<rparr>) jobs"
  unfolding incr_ref_tx_def
proof (rule finish_update[of e reg st Crashed])
  show "bytes_safe e reg st (Crashed # jobs)" using s by (simp add: idle_job)
  let ?f = "\<lambda>r. r\<lparr>mo_ref_count := mo_ref_count r + 1,
      mo_gc_state := (if mo_gc_state r = 1 \<and> mo_storage_uri r \<noteq> None then 0 else mo_gc_state r),
      mo_updated_at := now\<rparr>"
  show "row_safe e reg (mc_store st) (?f r)" if "row_safe e reg (mc_store st) r" for r
    using that by (auto simp: row_safe_def split: option.splits)
  show "job_row e (mc_store st) k (?f r)" if "job_row e (mc_store st) k r" for k r
    using that by (cases k rule: media_job.exhaust) (auto simp: row_views)
qed simp_all

lemma decr_ref_rows:
  "fst (decr_ref_tx now i rows) =
     fst (update_media (\<lambda>r. mo_ref_count r > 0) (\<lambda>r. r\<lparr>mo_ref_count := mo_ref_count r - 1, mo_updated_at := now\<rparr>) i rows)"
  by (simp add: decr_ref_tx_def Let_def)

lemma decr_safe:
  assumes s: "bytes_safe e reg st jobs"
  shows "bytes_safe e reg (st\<lparr>mc_rows := fst (decr_ref_tx now i (mc_rows st))\<rparr>) jobs"
  unfolding decr_ref_rows
proof (rule finish_update[of e reg st Crashed])
  show "bytes_safe e reg st (Crashed # jobs)" using s by (simp add: idle_job)
  let ?f = "\<lambda>r. r\<lparr>mo_ref_count := mo_ref_count r - 1, mo_updated_at := now\<rparr>"
  show "row_safe e reg (mc_store st) (?f r)" if "row_safe e reg (mc_store st) r" for r
    using that by (auto simp: row_safe_def split: option.splits)
  show "job_row e (mc_store st) k (?f r)" if "job_row e (mc_store st) k r" for k r
    using that by (cases k rule: media_job.exhaust) (auto simp: row_views)
qed simp_all

lemma claim_in_tx_safe:
  assumes s: "bytes_safe e reg st jobs" and cl: "claim_deleting_tx now i (mc_rows st) = (rows', True)"
    and row: "find_media i rows' = Some row"
  shows "bytes_safe e reg (st\<lparr>mc_rows := rows'\<rparr>) (Delete_Claimed i row # jobs)"
proof -
  let ?g = "\<lambda>r. mo_ref_count r = 0 \<and> mo_gc_state r \<in> {0, 1}"
  let ?f = "\<lambda>r. r\<lparr>mo_gc_state := 5, mo_updated_at := now\<rparr>"
  have rows': "rows' = fst (update_media ?g ?f i (mc_rows st))" using cl by (simp add: claim_deleting_tx_def)
  from find_media_Some[OF row] have mem: "row \<in> set rows'" "mo_id row = i" by simp_all
  then obtain r0 where r0: "r0 \<in> set (mc_rows st)" "mo_id r0 = i"
    and eq: "mo_sha256 row = mo_sha256 r0" "mo_storage_uri row = mo_storage_uri r0"
      "mo_storage_backend row = mo_storage_backend r0"
    unfolding rows' by (cases rule: update_media_cases[OF mem(1)[unfolded rows']]) auto
  have "case claim_deleting_tx now i (mc_rows st) of (rows', ok) \<Rightarrow>
    bytes_safe e reg (st\<lparr>mc_rows := rows'\<rparr>) ((if ok then Delete_Claimed i row else Crashed) # jobs)"
    unfolding claim_deleting_tx_def
  proof (rule claim_safe[of e reg st Crashed])
    show "bytes_safe e reg st (Crashed # jobs)" using s by (simp add: idle_job)
    show "key_safe e reg row"
      using row_safe_key[OF bytes_safeD(3)[OF s r0(1)]] unfolding key_safe_def eq .
    show "drawn_id e (mc_drawn st) i" using bytes_safeD(4)[OF s r0(1)] r0(2) by simp
    show "snapshot_of row r" if "r \<in> set (mc_rows st)" "mo_id r = i" for r
      using bytes_safeD(6)[OF s that(1) r0(1)] that(2) r0(2) eq by (simp add: snapshot_of_def)
  qed (auto)
  with cl show ?thesis by simp
qed

lemma decr_and_maybe_claim_safe:
  assumes s: "bytes_safe e reg st jobs" and ok: "decr_and_maybe_claim now i (mc_rows st) = Inr (rows', j)"
  shows "bytes_safe e reg (st\<lparr>mc_rows := rows'\<rparr>) (delete_jobs j @ jobs)"
proof -
  obtain rows1 d where d: "decr_ref_tx now i (mc_rows st) = (rows1, d)" by fastforce
  have s1: "bytes_safe e reg (st\<lparr>mc_rows := rows1\<rparr>) jobs" using decr_safe[OF s, of now i] d by simp
  obtain rows2 cl where cl: "claim_deleting_tx now i rows1 = (rows2, cl)" by fastforce
  have s2: "bytes_safe e reg (st\<lparr>mc_rows := rows2\<rparr>) jobs" if "\<not> cl"
  proof -
    have "rows2 = rows1"
      using cl that unfolding claim_deleting_tx_def update_media_def
      by (auto simp: list_ex_iff intro!: map_idI)
    with s1 show ?thesis by simp
  qed
  show ?thesis
    using ok d cl s1 s2 claim_in_tx_safe[OF s1, of now i rows2]
    by (auto simp: decr_and_maybe_claim_def delete_jobs_def split: option.splits if_splits bool.splits)
qed

lemma link_safe:
  assumes "bytes_safe e reg st jobs" "link_media now link (mc_rows st) = Inr rows'"
  shows "bytes_safe e reg (st\<lparr>mc_rows := rows'\<rparr>) jobs"
  using assms incr_safe[OF assms(1), of now]
  by (cases link) (auto simp: link_media_def lock_and_incr_ref_tx_def split: option.splits if_splits prod.splits,
      metis fst_conv)

lemma unlink_safe:
  assumes "bytes_safe e reg st jobs" "unlink_media now link (mc_rows st) = Inr (rows', j)"
  shows "bytes_safe e reg (st\<lparr>mc_rows := rows'\<rparr>) (delete_jobs j @ jobs)"
  using assms decr_and_maybe_claim_safe[OF assms(1)]
  by (cases link) (auto simp: unlink_media_def delete_jobs_def)

lemma swap_safe:
  assumes s: "bytes_safe e reg st jobs" and ok: "swap_media now old new (mc_rows st) = Inr (rows', j)"
  shows "bytes_safe e reg (st\<lparr>mc_rows := rows'\<rparr>) (delete_jobs j @ jobs)"
  using ok
proof (cases rule: swap_media_InrE)
  case same
  with s show ?thesis by (simp add: delete_jobs_def)
next
  case (add b)
  with incr_safe[OF s, of now b] show ?thesis by (simp add: delete_jobs_def)
next
  case del
  with decr_and_maybe_claim_safe[OF s] show ?thesis by blast
next
  case (swap a b rows1)
  from incr_safe[OF decr_and_maybe_claim_safe[OF s swap(3)], of now b] swap(4)
  show ?thesis by simp
qed

subsection \<open>Runs\<close>

lemma gc_scan_join:
  assumes s: "bytes_safe e reg st jobs"
    and js: "\<And>j. j \<in> set js \<Longrightarrow> (\<exists>r \<in> set (mc_rows st). j = Gc_Confirmed r \<or> j = Gc_Failed r)
        \<or> (job_id j = None \<and> job_duty j = None \<and> job_static e reg j)"
  shows "bytes_safe e reg st (js @ jobs)"
  using js
proof (induction js)
  case (Cons j js)
  then have IH: "bytes_safe e reg st (js @ jobs)" by simp
  from Cons.prems[of j] show ?case
  proof (simp, elim disjE bexE conjE)
    fix r assume "r \<in> set (mc_rows st)" "j = Gc_Confirmed r"
    with read_join(2)[OF IH] show "bytes_safe e reg st (j # js @ jobs)" by simp
  next
    fix r assume "r \<in> set (mc_rows st)" "j = Gc_Failed r"
    with read_join(3)[OF IH] show "bytes_safe e reg st (j # js @ jobs)" by simp
  next
    assume "job_id j = None" "job_duty j = None" "job_static e reg j"
    with bytes_safe_join[OF IH, of j] show "bytes_safe e reg st (j # js @ jobs)" by simp
  qed
qed (use s in simp)

lemma gc_scan_safe:
  assumes "bytes_safe e reg st jobs"
  shows "bytes_safe e reg st (gc_scan c before st @ jobs)"
  by (rule gc_scan_join[OF assms])
    (cases c; auto simp: gc_scan_def list_confirmed_orphans_def list_orphan_reservations_def
      list_promoting_stale_def list_deleting_stale_def list_deleted_failed_confirmed_def)

lemma upload_put_safe:
  assumes s: "bytes_safe e reg st jobs"
  shows "step_safe e reg jobs (upload_put e h cs st)"
proof (cases "put_streaming (temp_key (me_prefix e) (me_id e (mc_drawn st))) cs (me_max_bytes e) (mc_store st)")
  case (Inl err)
  with bytes_safe_draw[OF s] show ?thesis by (simp add: upload_put_def step_safe_finished)
next
  case (Inr x)
  obtain store' n where x: "x = (store', n)" by fastforce
  have "keeps_owned e reg (mc_store st) store'"
    using Inr x by (auto simp: put_streaming_def keeps_owned_def split: sum.splits)
  from bytes_safe_store[OF bytes_safe_draw[OF s], of store'] this
  have "bytes_safe e reg (st\<lparr>mc_drawn := mc_drawn st + 1, mc_store := store'\<rparr>) jobs" by simp
  from bytes_safe_join[OF this, of "Upload_Temp \<lparr>uc_header = h, uc_temp = temp_key (me_prefix e) (me_id e (mc_drawn st)),
      uc_sha = me_sha e (concat (map ok_chunk cs)), uc_count = n\<rparr>"] Inr x
  show ?thesis by (simp add: upload_put_def Let_def step_safe_def temp_free_def owner_of_temp_key)
qed

lemma gc_desync_safe:
  assumes s: "bytes_safe e reg st (Gc_Desync_Read i # jobs)"
  shows "step_safe e reg jobs (gc_desync_read i st)"
proof (cases "find_media i (mc_rows st)")
  case (Some row)
  with find_media_Some[OF Some] read_join(2)[OF bytes_safe_tail[OF s], of row] show ?thesis
    by (simp add: gc_desync_read_def step_safe_def)
qed (use bytes_safe_tail[OF s] in \<open>simp add: gc_desync_read_def step_safe_finished\<close>)

lemma advance_safe:
  assumes inj: "inj (me_id e)" and m: "managed (me_backend e)"
    and s: "bytes_safe e reg st (j # jobs)" and c: "counted (mc_rows st) n" "job_counts j"
    and risk: "case j of
        Gc_Reservation row \<Rightarrow> quiet row st (j # jobs)
      | Gc_Reservation_Row row \<Rightarrow> quiet row st (j # jobs)
      | Gc_Promoting row \<Rightarrow> quiet row st (j # jobs)
      | Gc_Promoting_Row row \<Rightarrow> quiet row st (j # jobs)
      | Gc_Deleting row \<Rightarrow> quiet row st (j # jobs) \<and> bytes_kept row st
      | Register_Checked p sha k \<Rightarrow>
          key_owner (me_prefix e) reg (rp_storage_uri p) = Some sha \<and> mc_store st (rp_storage_uri p) \<noteq> None
      | _ \<Rightarrow> True"
  shows "step_safe e reg jobs (advance e now io j st)"
proof (cases j)
  case (Delete_Row i)
  with finish_delete_row_safe[OF _ c(1)] s show ?thesis by simp
next
  case (Gc_Desync d)
  with c(2) show ?thesis by (simp add: job_counts_def)
next
  case (Gc_Deleting row)
  with gc_revert_safe(2)[OF s, of row now] risk show ?thesis by simp
next
  case (Gc_Promoting_Row row)
  with gc_revert_safe(1)[OF s, of row now] risk show ?thesis by simp
next
  case (Gc_Reservation row)
  with gc_storage_safe(1)[OF s _ Gc_Reservation] risk show ?thesis by simp
next
  case (Gc_Promoting row)
  with gc_storage_safe(2)[OF s _ Gc_Promoting] risk show ?thesis by simp
qed (use assms in \<open>simp_all add: upload_reserve_safe fresh_copy_safe fresh_rollback_safe fresh_confirm_safe
    conflict_safe promote_lost_safe promote_copy_safe promote_read_safe promote_confirm_safe register_managed_safe
    delete_claim_safe finish_delete_storage_safe mark_failed_safe gc_failed_safe
    gc_reservation_row_safe gc_desync_safe\<close>, simp_all add: step_safe_def idle_job)

definition media_safe :: "media_env \<Rightarrow> (string \<Rightarrow> string option) \<Rightarrow> media_sys \<Rightarrow> bool" where
  "media_safe e reg s \<longleftrightarrow> counted_sys s \<and> bytes_safe e reg (fst s) (snd s)"

lemma bytes_safe_appended: "bytes_safe e reg st (jobs @ js) \<longleftrightarrow> bytes_safe e reg st (js @ jobs)"
  by (rule bytes_safe_perm) simp

lemma spawn_safe: "step_safe e reg jobs r \<Longrightarrow> bytes_safe e reg (fst (spawn r jobs)) (snd (spawn r jobs))"
  using bytes_safe_appended[of e reg "fst r" jobs "[snd r]"] by (simp add: spawn_def step_safe_def)

lemma advance_event_safe:
  assumes inj: "inj (me_id e)" and m: "managed (me_backend e)"
    and s: "media_safe e reg (st, jobs)" and safe: "\<not> risky e reg (Advance n now io) (st, jobs)"
    and n: "n < length jobs"
  shows "case advance e now io (jobs ! n) st of (st', j) \<Rightarrow> bytes_safe e reg st' (jobs[n := j])"
proof -
  let ?j = "jobs ! n" and ?rest = "take n jobs @ drop (Suc n) jobs"
  from s have c: "counted (mc_rows st) (\<lambda>i. actual_refs i (mc_links st))" "job_counts ?j"
    and b: "bytes_safe e reg st (?j # ?rest)"
    using n bytes_safe_nth(1)[OF n, of e reg st] by (auto simp: media_safe_def counted_sys_def)
  have "set jobs = set (?j # ?rest)"
    using id_take_nth_drop[OF n] by (metis append_Cons Un_insert_right list.simps(15) set_append)
  then have q: "quiet row st (?j # ?rest) = quiet row st jobs" for row by (rule quiet_set[symmetric])
  have "step_safe e reg ?rest (advance e now io ?j st)"
  proof (rule advance_safe[OF inj m b c])
    show "case ?j of
        Gc_Reservation row \<Rightarrow> quiet row st (?j # ?rest)
      | Gc_Reservation_Row row \<Rightarrow> quiet row st (?j # ?rest)
      | Gc_Promoting row \<Rightarrow> quiet row st (?j # ?rest)
      | Gc_Promoting_Row row \<Rightarrow> quiet row st (?j # ?rest)
      | Gc_Deleting row \<Rightarrow> quiet row st (?j # ?rest) \<and> bytes_kept row st
      | Register_Checked p sha k \<Rightarrow>
          key_owner (me_prefix e) reg (rp_storage_uri p) = Some sha \<and> mc_store st (rp_storage_uri p) \<noteq> None
      | _ \<Rightarrow> True"
      using safe n unfolding q by (simp add: risky_def split: media_job.splits)
  qed
  then show ?thesis
    using bytes_safe_nth(2)[OF n] by (simp add: step_safe_def case_prod_beta)
qed

lemma bytes_safe_crash: "bytes_safe e reg st jobs \<Longrightarrow> bytes_safe e reg st (jobs[n := Crashed])"
proof (cases "n < length jobs")
  case True
  assume "bytes_safe e reg st jobs"
  with bytes_safe_nth(1)[OF True, of e reg st] have "bytes_safe e reg st (take n jobs @ drop (Suc n) jobs)"
    by (auto dest: bytes_safe_tail)
  with bytes_safe_nth(2)[OF True, of e reg st Crashed] show ?thesis by (simp add: idle_job)
qed (simp add: list_update_beyond)

lemma media_step_safe:
  assumes inj: "inj (me_id e)" and m: "managed (me_backend e)"
    and s: "media_safe e reg (st, jobs)" and safe: "\<not> risky e reg ev (st, jobs)"
  shows "media_safe e reg (media_step e ev (st, jobs))"
proof -
  from s have b: "bytes_safe e reg st jobs" and c: "counted_sys (st, jobs)" by (simp_all add: media_safe_def)
  have "bytes_safe e reg (fst (media_step e ev (st, jobs))) (snd (media_step e ev (st, jobs)))"
  proof (cases ev)
    case (Advance n now io)
    with advance_event_safe[OF inj m s, of n now io] safe b show ?thesis
      by (cases "n < length jobs") (simp_all add: case_prod_beta)
  next
    case (Crash n)
    with bytes_safe_crash[OF b] show ?thesis by simp
  next
    case (Create_Memory now mem link)
    have "bytes_safe e reg st' jobs" if "memory_create now mem link st = Inr st'" for st'
      using that link_safe[OF b, of now link] bytes_safe_links
      by (auto simp: memory_create_def split: if_splits sum.splits)
    with b Create_Memory show ?thesis by (simp split: sum.split)
  next
    case (Delete_Memory now mem)
    have "bytes_safe e reg st' (jobs @ js)" if "memory_delete now mem st = Inr (st', js)" for st' js
      using that unlink_safe[OF b, of now] bytes_safe_links bytes_safe_appended b
      by (auto simp: memory_delete_def split: option.splits sum.splits)
    with b Delete_Memory show ?thesis by (simp split: sum.split prod.split)
  next
    case (Update_Memory now mem link)
    have "bytes_safe e reg st' (jobs @ js)" if "memory_update now mem link st = Inr (st', js)" for st' js
      using that swap_safe[OF b, of now _ link] bytes_safe_links bytes_safe_appended b
      by (auto simp: memory_update_def split: option.splits sum.splits)
    with b Update_Memory show ?thesis by (simp split: sum.split prod.split)
  next
    case (Put_Object key bytes)
    with bytes_safe_store[OF b keeps_owned_add] show ?thesis by simp
  next
    case (Gc_Scan cl before)
    with gc_scan_safe[OF b] show ?thesis by (simp add: bytes_safe_appended)
  next
    case (Gc_Temp key)
    with bytes_safe_store[OF b keeps_owned_temp[OF owner_of_temp], of key] b show ?thesis
      by (simp add: gc_temp_def)
  qed (use b inj in \<open>simp_all add: spawn_safe upload_put_safe register_start_safe delete_start_safe
      record_unresolvable_safe\<close>)
  with media_step_counts[OF c] show ?thesis by (simp add: media_safe_def)
qed

lemma media_init_safe: "media_safe e reg media_init"
  using counted_init
  by (simp add: media_safe_def media_init_def bytes_safe_def table_safe_def shas_unique_def ids_drawn_def
      media_ids_def List.map_filter_def)

lemma media_run_safe:
  assumes "inj (me_id e)" "managed (me_backend e)"
  shows "media_safe e reg s \<Longrightarrow> safe_run e reg evs s \<Longrightarrow> media_safe e reg (media_run e evs s)"
proof (induction evs arbitrary: s)
  case (Cons ev evs)
  then show ?case using media_step_safe[OF assms] by (cases s) simp
qed simp

text \<open>
  C19. In a run without risky steps every row of an s3 or file backend in state active or orphan
  that has a storage key has its object in storage, and the key belongs to the hash of the row.
\<close>

theorem confirmed_rows_have_bytes:
  assumes "inj (me_id e)" "me_backend e = ''s3'' \<or> me_backend e = ''file''"
    and "safe_run e reg evs media_init"
  shows "case media_run e evs media_init of (st, jobs) \<Rightarrow>
    list_all (\<lambda>r. case mo_storage_uri r of
        None \<Rightarrow> True
      | Some k \<Rightarrow>
          (if managed (mo_storage_backend r) \<and> mo_gc_state r \<in> {0, 1}
           then mc_store st k \<noteq> None \<and> key_owner (me_prefix e) reg k = mo_sha256 r
           else True)) (mc_rows st)"
proof (cases "media_run e evs media_init")
  case (Pair st jobs)
  from media_run_safe[OF assms(1) _ media_init_safe assms(3)] assms(2) Pair
  have "bytes_safe e reg st jobs" by (simp add: media_safe_def managed_def)
  then have safe: "row_safe e reg (mc_store st) r" if "r \<in> set (mc_rows st)" for r
    using that by (rule bytes_safeD(3))
  have "case mo_storage_uri r of
        None \<Rightarrow> True
      | Some k \<Rightarrow>
          (if managed (mo_storage_backend r) \<and> mo_gc_state r \<in> {0, 1}
           then mc_store st k \<noteq> None \<and> key_owner (me_prefix e) reg k = mo_sha256 r
           else True)" if "r \<in> set (mc_rows st)" for r
    using safe[OF that] by (cases "mo_storage_uri r") (auto simp: row_safe_def)
  then show ?thesis by (simp add: Pair list_all_iff)
qed

end
