(* ===== verification/Media_Runs.thy ===== *)
theory Media_Runs
  imports Media_Bytes
begin

text \<open>
  What runs of the media requests do: an upload without interference, and the runs that break
  the promise of the module. A delete that crashes between its storage call and its row, followed
  by the sweep of stale deletes, revives a row without bytes; a recovery upload that fails after
  its claim blocks the hash for ever; a promotion that races a memory delete leaves an active row
  nothing links.
\<close>

subsection \<open>A concrete environment\<close>

definition demo_media :: media_env where
  "demo_media = \<lparr>me_id = int, me_sha = (\<lambda>b. b), me_b64 = (\<lambda>b. b), me_prefix = ''m/'',
     me_backend = ''s3'', me_max_bytes = 100\<rparr>"

definition demo_header :: upload_header where
  "demo_header = \<lparr>uh_kind = 2, uh_media_type = ''image/png'', uh_alt = None, uh_width = None, uh_height = None\<rparr>"

text \<open>Upload of the bytes \<open>abcd\<close> as job \<open>n\<close>: the temporary object, the reservation, the copy and
  the confirmation. The first upload draws the ids 0 and 1.\<close>

definition demo_upload :: "nat \<Rightarrow> media_event list" where
  "demo_upload n =
     [Start_Upload demo_header [Inr ''ab'', Inr ''cd''], Advance n 10 True, Advance n 10 True, Advance n 10 True]"

lemmas demo_defs = demo_media_def demo_header_def demo_upload_def

lemma confirmed_rows_have_bytes_witness:
  "case media_run demo_media (demo_upload 0 @ [Create_Memory 11 7 (Some 1), Gc_Scan Confirmed_Orphans 100]) media_init of
     (st, jobs) \<Rightarrow>
       list_all (\<lambda>r. case mo_storage_uri r of
        None \<Rightarrow> True
      | Some k \<Rightarrow>
          (if managed (mo_storage_backend r) \<and> mo_gc_state r \<in> {0, 1}
           then mc_store st k \<noteq> None \<and> key_owner (me_prefix demo_media) Map.empty k = mo_sha256 r
           else True)) (mc_rows st)"
proof (rule confirmed_rows_have_bytes)
  show "inj (me_id demo_media)" by (simp add: demo_media_def)
  show "me_backend demo_media = ''s3'' \<or> me_backend demo_media = ''file''" by (simp add: demo_media_def)
  show "safe_run demo_media Map.empty
      (demo_upload 0 @ [Create_Memory 11 7 (Some 1), Gc_Scan Confirmed_Orphans 100]) media_init"
    by code_simp
qed

subsection \<open>Bytes lost without any race\<close>

text \<open>The delete of the unreferenced media 1 stops after its storage call. The sweep puts the row
  back to orphan. The same bytes are uploaded again as job 3 and a memory links the result.\<close>

definition crashed_delete :: "media_event list" where
  "crashed_delete =
     demo_upload 0
     @ [Start_Delete 1, Advance 1 20 True, Advance 1 20 True, Crash 1,
        Gc_Scan Deletings 100, Advance 2 100 True,
        Start_Upload demo_header [Inr ''abcd''], Advance 3 110 True, Advance 3 110 True,
        Create_Memory 120 7 (Some 1)]"


text \<open>The only risky step of that run is the revert of the sweep.\<close>

lemma crashed_delete_risk:
  "safe_run demo_media Map.empty (take 9 crashed_delete) media_init"
  "risky demo_media Map.empty (crashed_delete ! 9) (media_run demo_media (take 9 crashed_delete) media_init)"
  by code_simp+

text \<open>The sweep of reservations while their upload is between its copy and its confirmation: the
  object goes, the confirmed and linked row stays.\<close>

definition slow_upload :: "media_event list" where
  "slow_upload =
     take 3 (demo_upload 0)
     @ [Gc_Scan Reservations 100, Advance 1 100 True, Advance 0 101 True,
        Create_Memory 102 7 (Some 1), Advance 1 103 True]"

lemma slow_upload_loses_bytes:
  "case media_run demo_media slow_upload media_init of (st, jobs) \<Rightarrow>
     jobs ! 0 = Finished (Inr (Uploaded 1 False)) \<and> mc_links st = [(7, Some 1)] \<and>
     (case find_media 1 (mc_rows st) of
        None \<Rightarrow> False
      | Some r \<Rightarrow> mo_gc_state r = gc_active \<and> mo_storage_uri r = Some ''m/ab/cd/abcd''
          \<and> mc_store st ''m/ab/cd/abcd'' = None)"
  by code_simp

subsection \<open>An active row nothing links\<close>

text \<open>An elided object of hash \<open>abcd\<close> linked by memory 7 is uploaded; the memory is deleted
  between the count read and the confirmation.\<close>

definition late_delete :: "media_event list" where
  "late_delete =
     [Record_Unresolvable 1 2 ''image/png'' None ''abcd'' None None None,
      Create_Memory 2 7 (Some 0),
      Start_Upload demo_header [Inr ''abcd''], Advance 0 10 True, Advance 0 10 True, Advance 0 10 True,
      Advance 0 10 True, Delete_Memory 11 7, Advance 0 12 True]"

definition concerns :: "int \<Rightarrow> media_job \<Rightarrow> bool" where
  "concerns i j =
     (case j of
        Gc_Confirmed r \<Rightarrow> mo_id r = i | Gc_Reservation r \<Rightarrow> mo_id r = i | Gc_Promoting r \<Rightarrow> mo_id r = i
      | Gc_Deleting r \<Rightarrow> mo_id r = i | Gc_Failed r \<Rightarrow> mo_id r = i | Gc_Desync d \<Rightarrow> ds_id d = i
      | _ \<Rightarrow> False)"

text \<open>
  A recovery upload reads the count before its confirmation. When the last memory is deleted in
  between, the row ends confirmed and active with no link, and no sweep of any class, at any
  time, ever lists it.
\<close>

theorem late_delete_leaks_row:
  "case media_run demo_media late_delete media_init of (st, jobs) \<Rightarrow>
     (case find_media 0 (mc_rows st) of
        None \<Rightarrow> False
      | Some r \<Rightarrow> mo_gc_state r = gc_active \<and> mo_ref_count r = 0 \<and> mo_storage_uri r \<noteq> None) \<and>
     mc_links st = [] \<and> \<not> list_ex (concerns 0) (gc_scan c before st)"
proof -
  have rows: "map (\<lambda>r. (mo_id r, mo_gc_state r, mo_ref_count r, mo_storage_uri r)) (mc_rows (fst (media_run demo_media late_delete media_init)))
      = [(0, 0, 0, Some ''m/ab/cd/abcd'')]"
    and links: "mc_links (fst (media_run demo_media late_delete media_init)) = []"
    by code_simp+
  obtain st jobs where run: "media_run demo_media late_delete media_init = (st, jobs)" by fastforce
  from rows run obtain r where r: "mc_rows st = [r]" "mo_id r = 0" "mo_gc_state r = 0" "mo_ref_count r = 0"
      "mo_storage_uri r \<noteq> None"
    by (auto simp: map_eq_Cons_conv)
  have "gc_scan c before st = []"
    using r links run
    by (cases c) (simp_all add: gc_scan_def list_confirmed_orphans_def list_orphan_reservations_def
        list_promoting_stale_def list_deleting_stale_def list_deleted_failed_confirmed_def
        list_ref_count_desync_def)
  with r links run show ?thesis by (simp add: find_media_def)
qed
subsection \<open>A hash blocked for ever\<close>

text \<open>A row that holds a hash, is being promoted and has a storage key, and no job is left that
  could finish or revert the promotion.\<close>

definition blocked_row :: "int \<Rightarrow> media_row \<Rightarrow> bool" where
  "blocked_row i r \<longleftrightarrow> mo_id r = i \<and> mo_gc_state r = 4 \<and> mo_storage_uri r \<noteq> None"

definition blocked_rows :: "int \<Rightarrow> string \<Rightarrow> media_table \<Rightarrow> bool" where
  "blocked_rows i sha rows = (case find_by_sha256 sha rows of None \<Rightarrow> False | Some r \<Rightarrow> blocked_row i r)"

definition may_release :: "int \<Rightarrow> media_job \<Rightarrow> bool" where
  "may_release i j =
     (case j of
        Promote_Claimed c k \<Rightarrow> k = i | Promote_Copied c k \<Rightarrow> k = i | Promote_Confirm c k gc \<Rightarrow> k = i
      | Gc_Promoting r \<Rightarrow> mo_id r = i | Gc_Promoting_Row r \<Rightarrow> mo_id r = i | _ \<Rightarrow> False)"

definition blocked :: "int \<Rightarrow> string \<Rightarrow> media_sys \<Rightarrow> bool" where
  "blocked i sha s \<longleftrightarrow> blocked_rows i sha (mc_rows (fst s)) \<and> list_all (\<lambda>j. \<not> may_release i j) (snd s)"

lemma find_map_inv: "(\<And>x. P (h x) = P x) \<Longrightarrow> List.find P (map h xs) = map_option h (List.find P xs)"
  by (induction xs) auto

lemma find_filter_kept:
  "List.find P xs = Some r \<Longrightarrow> keep r \<Longrightarrow> List.find P (filter keep xs) = Some r"
  by (induction xs) (auto split: if_splits)

lemma blocked_update:
  assumes b: "blocked_rows i sha rows" and "\<And>r. mo_sha256 (f r) = mo_sha256 r"
    and "\<And>r. blocked_row i r \<Longrightarrow> mo_id r = k \<Longrightarrow> g r \<Longrightarrow> blocked_row i (f r)"
  shows "blocked_rows i sha (fst (update_media g f k rows))"
proof -
  from b obtain r where r: "find_by_sha256 sha rows = Some r" "blocked_row i r"
    by (auto simp: blocked_rows_def split: option.splits)
  have "find_by_sha256 sha (fst (update_media g f k rows)) = Some (if mo_id r = k \<and> g r then f r else r)"
    using r(1) find_map_inv[of "\<lambda>r. mo_sha256 r = Some sha" "\<lambda>r. if mo_id r = k \<and> g r then f r else r" rows]
      assms(2) by (simp add: find_by_sha256_def update_media_def)
  with r(2) assms(3) show ?thesis by (simp add: blocked_rows_def)
qed

lemma blocked_delete:
  assumes "blocked_rows i sha rows"
  shows "blocked_rows i sha (fst (delete_if_unreferenced_tx k rows))"
proof -
  from assms obtain r where r: "find_by_sha256 sha rows = Some r" "blocked_row i r"
    by (auto simp: blocked_rows_def split: option.splits)
  let ?keep = "\<lambda>r. \<not> (mo_id r = k \<and> mo_ref_count r = 0 \<and> mo_gc_state r \<in> {0, 1, 5})"
  have keep: "?keep r" using r(2) by (simp add: blocked_row_def)
  have "find_by_sha256 sha (filter ?keep rows) = Some r"
    using find_filter_kept[of _ rows r ?keep] r(1) keep unfolding find_by_sha256_def by blast
  with r(2) show ?thesis by (simp add: blocked_rows_def delete_if_unreferenced_tx_def Let_def)
qed

lemma blocked_append: "blocked_rows i sha rows \<Longrightarrow> blocked_rows i sha (rows @ xs)"
proof -
  have "List.find P rows = Some r \<Longrightarrow> List.find P (rows @ xs) = Some r" for P r and rows :: media_table
    by (induction rows) (auto split: if_splits)
  then show "blocked_rows i sha rows \<Longrightarrow> blocked_rows i sha (rows @ xs)"
    by (auto simp: blocked_rows_def find_by_sha256_def split: option.splits)
qed

lemma blocked_insert: "insert_media r rows = Inr (rows', ok) \<Longrightarrow> blocked_rows i sha rows \<Longrightarrow> blocked_rows i sha rows'"
  by (auto simp: insert_media_def blocked_append split: if_splits)

lemma blocked_member:
  "blocked_rows i sha rows \<Longrightarrow> \<exists>r \<in> set rows. blocked_row i r \<and> mo_sha256 r = Some sha"
  using find_by_sha256_Some by (auto simp: blocked_rows_def split: option.splits)

text \<open>The statements that can change the row at all need a job that may release it.\<close>

lemma blocked_statements:
  assumes "blocked_rows i sha rows"
  shows "blocked_rows i sha (fst (confirm_reservation_tx now uri b sz md k rows))"
    "blocked_rows i sha (fst (claim_promote_tx now k rows))"
    "blocked_rows i sha (fst (claim_deleting_tx now k rows))"
    "blocked_rows i sha (fst (mark_delete_failed_tx now k rows))"
    "blocked_rows i sha (fst (revert_deleting_tx now k rows))"
    "blocked_rows i sha (fst (reclaim_deleted_failed_tx now k rows))"
    "blocked_rows i sha (fst (register_promote_tx now uri b sz gc k rows))"
    "blocked_rows i sha (fst (incr_ref_tx now k rows))"
    "blocked_rows i sha (fst (reconcile_ref_count_tx now k x y rows))"
    "k \<noteq> i \<Longrightarrow> blocked_rows i sha (fst (confirm_promote_tx now uri b sz gc md k rows))"
    "k \<noteq> i \<Longrightarrow> blocked_rows i sha (fst (revert_promoting_tx now k rows))"
  unfolding confirm_reservation_tx_def claim_promote_tx_def claim_deleting_tx_def mark_delete_failed_tx_def
    revert_deleting_tx_def reclaim_deleted_failed_tx_def register_promote_tx_def incr_ref_tx_def
    reconcile_ref_count_tx_def confirm_promote_tx_def revert_promoting_tx_def
  by (rule blocked_update[OF assms]; auto simp: blocked_row_def)+

lemma blocked_decr:
  assumes "blocked_rows i sha rows"
  shows "blocked_rows i sha (fst (decr_ref_tx now k rows))"
  unfolding decr_ref_rows by (rule blocked_update[OF assms]) (auto simp: blocked_row_def)

lemma blocked_pairs:
  assumes "blocked_rows i sha rows"
  shows "confirm_reservation_tx now uri b sz md k rows = (rows', ok) \<Longrightarrow> blocked_rows i sha rows'"
    "claim_promote_tx now k rows = (rows', ok) \<Longrightarrow> blocked_rows i sha rows'"
    "claim_deleting_tx now k rows = (rows', ok) \<Longrightarrow> blocked_rows i sha rows'"
    "reclaim_deleted_failed_tx now k rows = (rows', ok) \<Longrightarrow> blocked_rows i sha rows'"
    "register_promote_tx now uri b sz gc k rows = (rows', ok) \<Longrightarrow> blocked_rows i sha rows'"
    "reconcile_ref_count_tx now k x y rows = (rows', ok) \<Longrightarrow> blocked_rows i sha rows'"
    "incr_ref_tx now k rows = (rows', ok) \<Longrightarrow> blocked_rows i sha rows'"
    "delete_if_unreferenced_tx k rows = (rows', ok) \<Longrightarrow> blocked_rows i sha rows'"
    "decr_ref_tx now k rows = (rows', d) \<Longrightarrow> blocked_rows i sha rows'"
    "k \<noteq> i \<Longrightarrow> confirm_promote_tx now uri b sz gc md k rows = (rows', ok) \<Longrightarrow> blocked_rows i sha rows'"
  by (metis blocked_statements[OF assms] blocked_delete[OF assms] blocked_decr[OF assms] fst_conv)+

text \<open>A claim of a promotion never hits the blocked row, as ids are unique.\<close>

lemma claim_promote_blocked:
  assumes "counted rows n" "blocked_rows i sha rows" "claim_promote_tx now k rows = (rows', True)"
  shows "k \<noteq> i"
proof
  assume k: "k = i"
  from assms(3) have "snd (claim_promote_tx now k rows)" by simp
  then obtain r where r: "r \<in> set rows" "mo_id r = k" "mo_gc_state r \<in> {2, 3}"
    by (auto simp: claim_promote_tx_def snd_update_media)
  from blocked_member[OF assms(2)] obtain q where q: "q \<in> set rows" "blocked_row i q" by blast
  have "r = q" by (rule counted_unique[OF assms(1) r(1) q(1)]) (use r q k in \<open>simp add: blocked_row_def\<close>)
  with r q show False by (simp add: blocked_row_def)
qed

text \<open>One step of a job that may not release the row.\<close>

definition stays_blocked :: "int \<Rightarrow> string \<Rightarrow> media_core \<times> media_job \<Rightarrow> bool" where
  "stays_blocked i sha r \<longleftrightarrow> blocked_rows i sha (mc_rows (fst r)) \<and> \<not> may_release i (snd r)"

lemma stays_blocked_simp:
  "stays_blocked i sha (st, j) \<longleftrightarrow> blocked_rows i sha (mc_rows st) \<and> \<not> may_release i j"
  by (simp add: stays_blocked_def)

lemma blocked_upload_steps:
  assumes b: "blocked_rows i sha (mc_rows st)"
  shows "stays_blocked i sha (upload_put e h cs st)"
    "stays_blocked i sha (upload_reserve e now c st)"
    "stays_blocked i sha (fresh_copy e io c k st)"
    "stays_blocked i sha (fresh_rollback c k err st)"
    "stays_blocked i sha (fresh_confirm e now c k st)"
    "stays_blocked i sha (promote_lost c k st)"
  using b blocked_insert[OF _ b] blocked_pairs[OF b] blocked_delete[OF b]
  by (auto simp: upload_put_def upload_reserve_def insert_reservation_tx_def fresh_copy_def fresh_rollback_def
      fresh_confirm_def promote_lost_def stays_blocked_simp may_release_def Let_def
      split: sum.split prod.split bool.split option.split)

lemma blocked_promote_steps:
  assumes b: "blocked_rows i sha (mc_rows st)" and k: "k \<noteq> i"
  shows "stays_blocked i sha (promote_copy e io c k st)"
    "stays_blocked i sha (promote_read c k st)"
    "stays_blocked i sha (promote_confirm e now c k gc st)"
  using b k blocked_pairs(10)[OF b k]
  by (auto simp: promote_copy_def promote_read_def promote_confirm_def stays_blocked_simp may_release_def
      split: sum.split prod.split bool.split option.split)

lemma blocked_conflict:
  assumes b: "blocked_rows i sha (mc_rows st)" and c: "counted (mc_rows st) n"
  shows "stays_blocked i sha (handle_upload_conflict now ctx row st)"
proof -
  have "stays_blocked i sha (promote_claim now ctx k st)" for k
    using blocked_pairs(2)[OF b] claim_promote_blocked[OF c b, of now k]
    by (auto simp: promote_claim_def stays_blocked_simp may_release_def split: prod.split bool.split)
  with b show ?thesis
    by (auto simp: handle_upload_conflict_def Let_def stays_blocked_simp may_release_def)
qed

lemma blocked_register:
  assumes b: "blocked_rows i sha (mc_rows st)"
  shows "stays_blocked i sha (register_managed e now p s n st)"
    "stays_blocked i sha (register_start e now io p st)"
proof -
  have "blocked_rows i sha rows'" if "insert_media r (mc_rows st) = Inr (rows1, ok)"
    "confirm_reservation_tx now uri bk sz md k rows1 = (rows', ok')" for r rows1 ok now uri bk sz md k rows' ok'
    using blocked_pairs(1)[OF blocked_insert[OF that(1) b]] that(2) by blast
  with b blocked_pairs(5)[OF b] show "stays_blocked i sha (register_managed e now p s n st)"
    by (auto simp: register_managed_def insert_reservation_tx_def stays_blocked_simp may_release_def Let_def
        split: sum.split prod.split bool.split option.split)
  show "stays_blocked i sha (register_start e now io p st)"
    using b blocked_append[OF b]
    by (auto simp: register_start_def register_url_def insert_url_tx_def stays_blocked_simp may_release_def Let_def
        split: sum.split)
qed

lemma blocked_deletions:
  assumes b: "blocked_rows i sha (mc_rows st)"
  shows "stays_blocked i sha (delete_start k st)"
    "stays_blocked i sha (delete_claim now k row st)"
    "stays_blocked i sha (finish_delete_storage io k row st)"
    "stays_blocked i sha (finish_delete_failed now k st)"
    "stays_blocked i sha (finish_delete_row now k st)"
proof -
  have "blocked_rows i sha (fst (mark_delete_failed_tx now k rows'))"
    if "delete_if_unreferenced_tx k (mc_rows st) = (rows', ok)" for rows' ok
    by (rule blocked_statements(4)[OF blocked_pairs(8)[OF b that]])
  with b blocked_pairs(3,8)[OF b] blocked_statements(4)[OF b]
  show "stays_blocked i sha (delete_start k st)"
    "stays_blocked i sha (delete_claim now k row st)"
    "stays_blocked i sha (finish_delete_storage io k row st)"
    "stays_blocked i sha (finish_delete_failed now k st)"
    "stays_blocked i sha (finish_delete_row now k st)"
    by (auto simp: delete_start_def delete_claim_def finish_delete_storage_def finish_delete_failed_def
        finish_delete_row_def stays_blocked_simp may_release_def split: prod.split bool.split option.split)
qed

lemma blocked_sweeps:
  assumes b: "blocked_rows i sha (mc_rows st)"
  shows "stays_blocked i sha (gc_reservation e io row st)"
    "stays_blocked i sha (gc_reservation_row row st)"
    "mo_id row \<noteq> i \<Longrightarrow> stays_blocked i sha (gc_promoting_storage e io row st)"
    "mo_id row \<noteq> i \<Longrightarrow> stays_blocked i sha (gc_promoting_row now row st)"
    "stays_blocked i sha (gc_deleting_row now row st)"
    "stays_blocked i sha (gc_deleted_failed_row now row st)"
    "stays_blocked i sha (gc_desync now d st)"
    "stays_blocked i sha (gc_desync_read k st)"
  using b blocked_delete[OF b] blocked_pairs(4,6)[OF b] blocked_statements(5,9,11)[OF b]
  by (auto simp: gc_reservation_def gc_reservation_row_def gc_promoting_storage_def gc_promoting_row_def
      gc_deleting_row_def gc_deleted_failed_row_def gc_desync_def gc_desync_read_def delete_leaked_def
      stays_blocked_simp may_release_def split: prod.split bool.split option.split desync_plan.split)

lemma blocked_advance:
  assumes b: "blocked_rows i sha (mc_rows st)" and c: "counted (mc_rows st) n" and j: "\<not> may_release i j"
  shows "stays_blocked i sha (advance e now io j st)"
  using j
  by (cases j) (simp_all add: b blocked_upload_steps blocked_promote_steps blocked_conflict[OF b c] blocked_register
      blocked_deletions blocked_sweeps may_release_def stays_blocked_simp)

lemma blocked_memory:
  assumes b: "blocked_rows i sha rows"
  shows "link_media now link rows = Inr rows' \<Longrightarrow> blocked_rows i sha rows'"
    "decr_and_maybe_claim now k rows = Inr (rows', d) \<Longrightarrow> blocked_rows i sha rows'"
proof -
  show "link_media now link rows = Inr rows' \<Longrightarrow> blocked_rows i sha rows'"
    using b blocked_pairs(7)[OF b]
    by (cases link) (auto simp: link_media_def lock_and_incr_ref_tx_def split: option.splits if_splits prod.splits)
  assume ok: "decr_and_maybe_claim now k rows = Inr (rows', d)"
  obtain rows1 x where d1: "decr_ref_tx now k rows = (rows1, x)" by fastforce
  have b1: "blocked_rows i sha rows1" by (rule blocked_pairs(9)[OF b d1])
  with ok d1 blocked_pairs(3)[OF b1] show "blocked_rows i sha rows'"
    by (auto simp: decr_and_maybe_claim_def split: option.splits if_splits prod.splits bool.splits)
qed

lemma blocked_swap:
  assumes b: "blocked_rows i sha rows" and ok: "swap_media now old new rows = Inr (rows', j)"
  shows "blocked_rows i sha rows'"
  using ok
proof (cases rule: swap_media_InrE)
  case (swap a b' rows1)
  then show ?thesis using blocked_pairs(7)[OF blocked_memory(2)[OF b swap(3)]] by blast
qed (use b blocked_memory(2)[OF b] blocked_pairs(7)[OF b] in auto)

lemma delete_jobs_release: "list_all (\<lambda>j. \<not> may_release i j) (delete_jobs d)"
  by (simp add: delete_jobs_def may_release_def split: option.split)

lemma gc_scan_release:
  assumes "blocked_rows i sha (mc_rows st)" "counted (mc_rows st) n"
  shows "list_all (\<lambda>j. \<not> may_release i j) (gc_scan c before st)"
proof (cases c)
  case Promotings
  from blocked_member[OF assms(1)] obtain q where q: "q \<in> set (mc_rows st)" "blocked_row i q" by blast
  have "mo_id r \<noteq> i" if "r \<in> set (mc_rows st)" "mo_storage_uri r = None" for r
    using counted_unique[OF assms(2) that(1) q(1)] q(2) that(2) by (auto simp: blocked_row_def)
  then show ?thesis
    by (auto simp: Promotings gc_scan_def list_promoting_stale_def list_all_iff may_release_def)
qed (auto simp: gc_scan_def list_all_iff may_release_def)

lemma blocked_spawn:
  "stays_blocked i sha r \<Longrightarrow> list_all (\<lambda>j. \<not> may_release i j) jobs \<Longrightarrow> blocked i sha (spawn r jobs)"
  by (simp add: blocked_def spawn_def stays_blocked_def)

lemma blocked_step:
  assumes c: "counted_sys (st, jobs)" and b: "blocked i sha (st, jobs)"
  shows "blocked i sha (media_step e ev (st, jobs))"
proof -
  from b have r: "blocked_rows i sha (mc_rows st)" and j: "list_all (\<lambda>j. \<not> may_release i j) jobs"
    by (simp_all add: blocked_def)
  from c have cn: "counted (mc_rows st) (\<lambda>i. actual_refs i (mc_links st))" by (simp add: counted_sys_def)
  have upd: "list_all (\<lambda>j. \<not> may_release i j) (jobs[n := x])" if "\<not> may_release i x" for n x
    using j that subsetD[OF set_update_subset_insert[of jobs n x]] by (auto simp: list_all_iff)
  show ?thesis
  proof (cases ev)
    case (Advance n now io)
    show ?thesis
    proof (cases "n < length jobs")
      case True
      with j have "\<not> may_release i (jobs ! n)" by (simp add: list_all_length)
      from blocked_advance[OF r cn this, of e now io] upd True Advance show ?thesis
        by (cases "advance e now io (jobs ! n) st") (simp add: blocked_def stays_blocked_simp)
    qed (use b Advance in simp)
  next
    case (Crash n)
    with r upd[of Crashed] show ?thesis by (simp add: blocked_def may_release_def)
  next
    case (Record_Unresolvable now kind mt nbytes s w h alt)
    have "blocked_rows i sha (mc_rows (record_unresolvable e now kind mt nbytes s w h alt st))"
      using r blocked_insert[OF _ r]
      by (auto simp: record_unresolvable_def insert_unresolvable_tx_def Let_def split: sum.split prod.split)
    with j Record_Unresolvable show ?thesis by (simp add: blocked_def)
  next
    case (Create_Memory now mem link)
    with b r j blocked_memory(1)[OF r, of now link] show ?thesis
      by (auto simp: blocked_def memory_create_def split: sum.split if_splits)
  next
    case (Delete_Memory now mem)
    have "blocked i sha (st', jobs @ js)" if "memory_delete now mem st = Inr (st', js)" for st' js
      using that r j blocked_memory(2)[OF r, of now] delete_jobs_release
      by (auto simp: blocked_def memory_delete_def unlink_media_def delete_jobs_def[of None]
          split: option.splits sum.splits)
    with b Delete_Memory show ?thesis by (simp split: sum.split prod.split)
  next
    case (Update_Memory now mem link)
    have "blocked i sha (st', jobs @ js)" if "memory_update now mem link st = Inr (st', js)" for st' js
      using that r j blocked_swap[OF r, of now _ link] delete_jobs_release
      by (auto simp: blocked_def memory_update_def split: option.splits sum.splits)
    with b Update_Memory show ?thesis by (simp split: sum.split prod.split)
  next
    case (Gc_Scan cl before)
    with r j gc_scan_release[OF r cn] show ?thesis by (simp add: blocked_def)
  next
    case (Put_Object key bytes)
    with b show ?thesis by (simp add: blocked_def)
  next
    case (Gc_Temp key)
    with b show ?thesis by (simp add: blocked_def gc_temp_def)
  qed (use r j in \<open>simp_all add: blocked_spawn blocked_upload_steps blocked_register blocked_deletions\<close>)
qed

lemma blocked_run:
  assumes "counted_sys s" "blocked i sha s"
  shows "blocked i sha (media_run e evs s)"
  using assms
proof (induction evs arbitrary: s)
  case (Cons ev evs)
  then show ?case using blocked_step[of "fst s" "snd s"] media_step_counts[of "fst s" "snd s"] by simp
qed simp

text \<open>
  C28. When the job that promotes a row with a storage key is gone, the row stays in the state
  promoting for ever, whatever requests and sweeps follow, and every upload of its bytes is
  answered with \<open>Aborted\<close>.
\<close>

theorem blocked_promotion_is_final:
  assumes "counted_sys s" "blocked i sha s"
  shows "case media_run e evs s of (st, jobs) \<Rightarrow>
     list_ex (\<lambda>r. mo_id r = i \<and> mo_gc_state r = gc_promoting) (mc_rows st) \<and>
     (case upload_reserve e now \<lparr>uc_header = h, uc_temp = t, uc_sha = sha, uc_count = n\<rparr> st of
        (st1, Upload_Conflict c row) \<Rightarrow>
          snd (handle_upload_conflict now c row st1)
            = Finished (Inl (Aborted ''concurrent promotion in progress''))
      | _ \<Rightarrow> False)"
proof (cases "media_run e evs s")
  case (Pair st jobs)
  let ?c = "\<lparr>uc_header = h, uc_temp = t, uc_sha = sha, uc_count = n\<rparr>"
  from blocked_run[OF assms, of e evs] Pair have b: "blocked_rows i sha (mc_rows st)" by (simp add: blocked_def)
  then obtain r where r: "find_by_sha256 sha (mc_rows st) = Some r" "blocked_row i r"
    by (auto simp: blocked_rows_def split: option.splits)
  note mem = find_by_sha256_Some[OF r(1)]
  have "insert_reservation_tx (upload_reservation now k ?c) (mc_rows st) = Inr (mc_rows st, False)" for k
    using mem by (auto simp: insert_reservation_tx_def insert_media_def reservation_row_def
        upload_reservation_def list_ex_iff)
  with r mem show ?thesis
    by (auto simp: Pair upload_reserve_def Let_def handle_upload_conflict_def blocked_row_def list_ex_iff)
qed

text \<open>A delete whose storage call fails, then an upload of the same bytes whose copy fails.\<close>

definition failed_recovery :: "media_event list" where
  "failed_recovery =
     demo_upload 0
     @ [Start_Delete 1, Advance 1 20 True, Advance 1 20 False, Advance 1 20 True,
        Start_Upload demo_header [Inr ''abcd''], Advance 2 30 True, Advance 2 30 True, Advance 2 30 False]"

lemma blocked_promotion_is_final_witness:
  "case media_run demo_media [Gc_Scan Promotings 999, Gc_Scan Deleted_Faileds 999]
      (media_run demo_media failed_recovery media_init) of (st, jobs) \<Rightarrow>
     list_ex (\<lambda>r. mo_id r = 1 \<and> mo_gc_state r = gc_promoting) (mc_rows st) \<and>
     (case upload_reserve demo_media 40 \<lparr>uc_header = demo_header, uc_temp = ''t'', uc_sha = ''abcd'', uc_count = 4\<rparr> st of
        (st1, Upload_Conflict c row) \<Rightarrow>
          snd (handle_upload_conflict 40 c row st1)
            = Finished (Inl (Aborted ''concurrent promotion in progress''))
      | _ \<Rightarrow> False)"
proof (rule blocked_promotion_is_final)
  show "counted_sys (media_run demo_media failed_recovery media_init)"
    by (rule media_run_counts[OF counted_init])
  show "blocked 1 ''abcd'' (media_run demo_media failed_recovery media_init)" by code_simp
qed

subsection \<open>An upload without interference\<close>

lemma put_chunks_bytes: "put_chunks limit sofar buf cs = Inr (b, n) \<Longrightarrow> b = buf @ concat (map ok_chunk cs)"
proof (induction limit sofar buf cs rule: put_chunks.induct)
  case (3 limit sofar buf c cs)
  then show ?case by (auto simp: Let_def ok_chunk_def split: if_splits)
qed auto

lemma put_chunks_count:
  "put_chunks limit sofar buf cs = Inr (b, n) \<Longrightarrow> 0 \<le> sofar \<Longrightarrow> limit < u64_max \<Longrightarrow>
   n = sofar + int (length (concat (map ok_chunk cs))) \<and> (cs \<noteq> [] \<longrightarrow> n \<le> limit)"
proof (induction limit sofar buf cs rule: put_chunks.induct)
  case (3 limit sofar buf c cs)
  let ?s = "min (sofar + int (length c)) u64_max"
  from 3(2,4) have s: "?s = sofar + int (length c)" and le: "?s \<le> limit"
    by (auto simp: Let_def split: if_splits)
  with 3 show ?case by (cases cs) (auto simp: Let_def ok_chunk_def split: if_splits)
qed auto

lemma temp_not_final: "temp_key pre n \<noteq> final_key pre sha"
  using owner_of_temp_key[of pre Map.empty n] owner_of_final_key[of pre Map.empty sha] by fastforce

definition start_upload :: "nat \<Rightarrow> int \<Rightarrow> upload_header \<Rightarrow> (storage_error + string) list \<Rightarrow> media_event list" where
  "start_upload k now h cs = Start_Upload h cs # replicate 3 (Advance k now True)"

text \<open>The rows other than a new one are untouched by its confirmation.\<close>

lemma confirm_new_row:
  assumes "find_media i rows = None" "mo_id r = i" "mo_gc_state r = 1" "mo_storage_uri r = None"
  shows "confirm_reservation_tx now uri b sz md i (rows @ [r]) =
    (rows @ [r\<lparr>mo_storage_uri := Some uri, mo_storage_backend := b, mo_byte_size := sz,
        mo_metadata := coalesce md (mo_metadata r), mo_updated_at := now\<rparr>], True)"
proof -
  have "map (\<lambda>q. if mo_id q = i \<and> mo_gc_state q = 1 \<and> mo_storage_uri q = None
      then q\<lparr>mo_storage_uri := Some uri, mo_storage_backend := b, mo_byte_size := sz,
        mo_metadata := coalesce md (mo_metadata q), mo_updated_at := now\<rparr> else q) rows = rows"
    using assms(1) by (intro map_idI) (auto simp: find_media_None)
  with assms show ?thesis by (simp add: confirm_reservation_tx_def update_media_def)
qed

lemma upload_new_run:
  assumes m: "managed (me_backend e)"
    and ok: "put_chunks (me_max_bytes e) 0 [] cs = Inr (b, n)"
    and new: "\<And>r. r \<in> set (mc_rows st) \<Longrightarrow> mo_sha256 r \<noteq> Some (me_sha e b)"
    and i: "i = me_id e (mc_drawn st + 1)" "find_media i (mc_rows st) = None"
  shows "\<exists>r st'. media_run e (start_upload (length jobs) now h cs) (st, jobs)
        = (st', jobs @ [Finished (Inr (Uploaded i False))]) \<and>
      mc_rows st' = mc_rows st @ [r] \<and> mo_id r = i \<and> mo_sha256 r = Some (me_sha e b) \<and>
      mo_storage_uri r = Some (final_key (me_prefix e) (me_sha e b)) \<and>
      mo_storage_backend r = me_backend e \<and> mo_byte_size r = Some (wrap_i64 n) \<and>
      mo_gc_state r = gc_orphan \<and> mo_ref_count r = 0 \<and>
      mc_store st' = (mc_store st)(final_key (me_prefix e) (me_sha e b) \<mapsto> b,
                                   temp_key (me_prefix e) (me_id e (mc_drawn st)) := None) \<and>
      mc_links st' = mc_links st \<and> mc_drawn st' = mc_drawn st + 2"
proof -
  let ?t = "temp_key (me_prefix e) (me_id e (mc_drawn st))" and ?s = "me_sha e b"
  let ?F = "final_key (me_prefix e) ?s"
  let ?c = "\<lparr>uc_header = h, uc_temp = ?t, uc_sha = ?s, uc_count = n\<rparr>"
  let ?rv = "reservation_row (upload_reservation now i ?c)"
  let ?r = "?rv\<lparr>mo_storage_uri := Some ?F, mo_storage_backend := me_backend e,
      mo_byte_size := Some (wrap_i64 n), mo_metadata := None, mo_updated_at := now\<rparr>"
  have b: "concat (map ok_chunk cs) = b" using put_chunks_bytes[OF ok] by simp
  have r0: "mo_id ?rv = i" "mo_gc_state ?rv = 1" "mo_storage_uri ?rv = None" "mo_metadata ?rv = None"
    "mo_sha256 ?rv = Some ?s" "mo_ref_count ?rv = 0"
    by (simp_all add: reservation_row_def upload_reservation_def)
  have ins: "insert_reservation_tx (upload_reservation now i ?c) (mc_rows st) = Inr (mc_rows st @ [?rv], True)"
    using new i(2) r0 by (auto simp: insert_reservation_tx_def insert_media_def list_ex_iff)
  let ?sa = "st\<lparr>mc_drawn := mc_drawn st + 1, mc_store := (mc_store st)(?t \<mapsto> b)\<rparr>"
  let ?sb = "?sa\<lparr>mc_drawn := mc_drawn st + 2, mc_rows := mc_rows st @ [?rv]\<rparr>"
  let ?sc = "?sb\<lparr>mc_store := (mc_store st)(?t \<mapsto> b, ?F \<mapsto> b)\<rparr>"
  let ?sd = "?sc\<lparr>mc_rows := mc_rows st @ [?r], mc_store := ((mc_store st)(?t \<mapsto> b, ?F \<mapsto> b))(?t := None)\<rparr>"
  have s1: "upload_put e h cs st = (?sa, Upload_Temp ?c)"
    by (simp add: upload_put_def put_streaming_def ok b Let_def)
  have s2: "advance e now True (Upload_Temp ?c) ?sa = (?sb, Upload_Reserved ?c i)"
    using ins i(1) by (simp add: upload_reserve_def Let_def)
  have s3: "advance e now True (Upload_Reserved ?c i) ?sb = (?sc, Upload_Copied ?c i)"
    by (simp add: fresh_copy_def copy_call_def storage_copy_def)
  have conf: "confirm_reservation_tx now ?F (me_backend e) (Some (wrap_i64 n)) None i (mc_rows st @ [?rv])
      = (mc_rows st @ [?r], True)"
    using confirm_new_row[OF i(2) r0(1,2,3)] r0(4) by (simp add: coalesce_def)
  have s4: "advance e now True (Upload_Copied ?c i) ?sc = (?sd, Finished (Inr (Uploaded i False)))"
    using conf by (simp add: fresh_confirm_def confirm_args_managed[OF m] storage_delete_def)
  have "media_run e (start_upload (length jobs) now h cs) (st, jobs) = (?sd, jobs @ [Finished (Inr (Uploaded i False))])"
    using s1 s2 s3 s4 by (simp add: start_upload_def numeral_3_eq_3 spawn_def)
  moreover have "((mc_store st)(?t \<mapsto> b, ?F \<mapsto> b))(?t := None) = (mc_store st)(?F \<mapsto> b, ?t := None)"
    using temp_not_final[of "me_prefix e" "me_id e (mc_drawn st)" ?s] by (auto simp: fun_eq_iff)
  ultimately show ?thesis using r0 by (intro exI[of _ ?r] exI[of _ ?sd]) simp
qed

text \<open>An upload of bytes a confirmed row holds is answered with that row.\<close>

lemma upload_known_run:
  assumes ok: "put_chunks (me_max_bytes e) 0 [] cs = Inr (b, n)"
    and row: "find_by_sha256 (me_sha e b) (mc_rows st) = Some r" "mo_gc_state r = 0 \<or> mo_gc_state r = 1"
      "mo_storage_uri r \<noteq> None"
  shows "\<exists>st'. media_run e (start_upload (length jobs) now h cs) (st, jobs)
        = (st', jobs @ [Finished (Inr (Uploaded (mo_id r) True))]) \<and>
      mc_rows st' = mc_rows st \<and>
      mc_store st' = (mc_store st)(temp_key (me_prefix e) (me_id e (mc_drawn st)) := None)"
proof -
  let ?t = "temp_key (me_prefix e) (me_id e (mc_drawn st))" and ?s = "me_sha e b"
  let ?c = "\<lparr>uc_header = h, uc_temp = ?t, uc_sha = ?s, uc_count = n\<rparr>"
  have b: "concat (map ok_chunk cs) = b" using put_chunks_bytes[OF ok] by simp
  have "list_ex (\<lambda>q. mo_sha256 q = Some ?s) (mc_rows st)"
    using find_by_sha256_Some[OF row(1)] by (auto simp: list_ex_iff)
  then have ins: "insert_reservation_tx (upload_reservation now i ?c) (mc_rows st) = Inr (mc_rows st, False)" for i
    by (simp add: insert_reservation_tx_def insert_media_def reservation_row_def upload_reservation_def)
  let ?sa = "st\<lparr>mc_drawn := mc_drawn st + 1, mc_store := (mc_store st)(?t \<mapsto> b)\<rparr>"
  let ?sb = "?sa\<lparr>mc_drawn := mc_drawn st + 2\<rparr>"
  let ?sc = "?sb\<lparr>mc_store := (mc_store st)(?t := None)\<rparr>"
  have s1: "upload_put e h cs st = (?sa, Upload_Temp ?c)"
    by (simp add: upload_put_def put_streaming_def ok b Let_def)
  have s2: "advance e now True (Upload_Temp ?c) ?sa = (?sb, Upload_Conflict ?c r)"
    using ins row(1) by (simp add: upload_reserve_def Let_def)
  have s3: "advance e now True (Upload_Conflict ?c r) ?sb = (?sc, Finished (Inr (Uploaded (mo_id r) True)))"
    using row(2,3) by (auto simp: handle_upload_conflict_def Let_def storage_delete_def)
  have "media_run e (start_upload (length jobs) now h cs) (st, jobs)
      = (?sc, jobs @ [Finished (Inr (Uploaded (mo_id r) True))])"
    using s1 s2 s3 by (simp add: start_upload_def numeral_3_eq_3 spawn_def)
  then show ?thesis by (intro exI[of _ ?sc]) simp
qed

lemma find_by_sha256_last:
  "(\<And>q. q \<in> set rows \<Longrightarrow> mo_sha256 q \<noteq> Some s) \<Longrightarrow> mo_sha256 r = Some s \<Longrightarrow> find_by_sha256 s (rows @ [r]) = Some r"
  unfolding find_by_sha256_def by (induction rows) auto

text \<open>
  C30. Two uploads of the same bytes, each without interference: the first adds one unreferenced
  confirmed row and stores the bytes under the key of their hash, the second is answered with
  the same id and leaves the table and the object alone. The chunks of the two streams may differ.
\<close>

theorem upload_twice:
  assumes m: "me_backend e = ''s3'' \<or> me_backend e = ''file''"
    and ok: "put_chunks (me_max_bytes e) 0 [] cs = Inr (b, n)"
      "put_chunks (me_max_bytes e) 0 [] cs' = Inr (b, n')"
    and new: "\<And>r. r \<in> set (mc_rows st) \<Longrightarrow> mo_sha256 r \<noteq> Some (me_sha e b)"
    and i: "find_media (me_id e (mc_drawn st + 1)) (mc_rows st) = None"
  shows "case media_run e (start_upload (length jobs) now h cs) (st, jobs) of (st1, jobs1) \<Rightarrow>
    case media_run e (start_upload (length jobs1) now' h' cs') (st1, jobs1) of (st2, jobs2) \<Rightarrow>
      jobs2 = jobs @ [Finished (Inr (Uploaded (me_id e (mc_drawn st + 1)) False)),
                      Finished (Inr (Uploaded (me_id e (mc_drawn st + 1)) True))] \<and>
      mc_rows st2 = mc_rows st1 \<and>
      (\<exists>r. mc_rows st1 = mc_rows st @ [r] \<and> mo_sha256 r = Some (me_sha e b) \<and>
         mo_storage_uri r = Some (final_key (me_prefix e) (me_sha e b)) \<and>
         mo_gc_state r = gc_orphan \<and> mo_ref_count r = 0) \<and>
      mc_store st2 (final_key (me_prefix e) (me_sha e b)) = Some b"
proof -
  have m': "managed (me_backend e)" using m by (simp add: managed_def)
  from upload_new_run[OF m' ok(1) new refl i, of jobs now h] obtain r st1 where
    run1: "media_run e (start_upload (length jobs) now h cs) (st, jobs)
        = (st1, jobs @ [Finished (Inr (Uploaded (me_id e (mc_drawn st + 1)) False))])"
    and r: "mc_rows st1 = mc_rows st @ [r]" "mo_id r = me_id e (mc_drawn st + 1)" "mo_sha256 r = Some (me_sha e b)"
      "mo_storage_uri r = Some (final_key (me_prefix e) (me_sha e b))" "mo_gc_state r = gc_orphan" "mo_ref_count r = 0"
    and store: "mc_store st1 = (mc_store st)(final_key (me_prefix e) (me_sha e b) \<mapsto> b,
                                   temp_key (me_prefix e) (me_id e (mc_drawn st)) := None)"
    by blast
  have f: "find_by_sha256 (me_sha e b) (mc_rows st1) = Some r"
    unfolding r(1) by (rule find_by_sha256_last[OF new r(3)])
  from upload_known_run[OF ok(2) f, of "jobs @ [Finished (Inr (Uploaded (me_id e (mc_drawn st + 1)) False))]" now' h'] r
  obtain st2 where
    run2: "media_run e (start_upload (Suc (length jobs)) now' h' cs')
        (st1, jobs @ [Finished (Inr (Uploaded (me_id e (mc_drawn st + 1)) False))])
      = (st2, jobs @ [Finished (Inr (Uploaded (me_id e (mc_drawn st + 1)) False)),
                      Finished (Inr (Uploaded (me_id e (mc_drawn st + 1)) True))])"
    and rows2: "mc_rows st2 = mc_rows st1"
    and store2: "mc_store st2 = (mc_store st1)(temp_key (me_prefix e) (me_id e (mc_drawn st1)) := None)"
    by auto
  have "mc_store st2 (final_key (me_prefix e) (me_sha e b)) = Some b"
    using temp_not_final[of "me_prefix e" _ "me_sha e b"] by (simp add: store2 store) metis
  with run1 run2 rows2 r show ?thesis by simp
qed

lemma upload_twice_witness:
  "case media_run demo_media (start_upload 0 5 demo_header [Inr ''ab'', Inr ''cd'']) media_init of (st1, jobs1) \<Rightarrow>
    case media_run demo_media (start_upload (length jobs1) 6 demo_header [Inr ''abcd'']) (st1, jobs1) of (st2, jobs2) \<Rightarrow>
      jobs2 = [Finished (Inr (Uploaded 1 False)), Finished (Inr (Uploaded 1 True))] \<and>
      mc_store st2 (final_key (me_prefix demo_media) (me_sha demo_media ''abcd'')) = Some ''abcd''"
proof -
  have ok: "put_chunks (me_max_bytes demo_media) 0 [] [Inr ''ab'', Inr ''cd''] = Inr (''abcd'', 4)"
    "put_chunks (me_max_bytes demo_media) 0 [] [Inr ''abcd''] = Inr (''abcd'', 4)"
    by code_simp+
  have "me_backend demo_media = ''s3'' \<or> me_backend demo_media = ''file''" by (simp add: demo_media_def)
  from upload_twice[OF this ok, where st = "fst media_init" and jobs = "[]" and now = 5 and now' = 6
      and h = demo_header and h' = demo_header]
  show ?thesis by (auto simp: media_init_def find_media_def demo_media_def split: prod.splits)
qed

subsection \<open>Small helpers\<close>

lemma final_key_inj: "final_key pre a = final_key pre b \<longleftrightarrow> a = b"
  using owner_of_final_key[of pre Map.empty] by (metis option.inject)

text \<open>The dimensions of a header survive the signed column.\<close>

lemma metadata_keeps_dimensions:
  "mm_width (row_to_metadata (reservation_row (upload_reservation now i c))) = uh_width (uc_header c)"
  "mm_height (row_to_metadata (reservation_row (upload_reservation now i c))) = uh_height (uc_header c)"
  by (simp_all add: row_to_metadata_def reservation_row_def upload_reservation_def dimension_column_def
      option.map_comp comp_def option.map_ident)

lemma resolve_grace_cases:
  "resolve_grace_sec (Some v) env_value = v"
  "resolve_grace_sec None None = 3600"
  "parse_u64 (trim_ascii s) = None \<Longrightarrow> resolve_grace_sec None (Some s) = 3600"
  by (simp_all add: resolve_grace_sec_def default_grace_sec_def)

lemma compute_before_range:
  assumes "in_i64 now" "0 \<le> g"
  shows "in_i64 (compute_before now g)" "compute_before now g \<le> now"
    "g * 1000 \<le> i64_max \<Longrightarrow> i64_min \<le> now - g * 1000 \<Longrightarrow> compute_before now g = now - g * 1000"
  using assms by (auto simp: compute_before_def in_i64_def i64_max_def i64_min_def u64_max_def)

text \<open>
  The largest grace period clamps the cutoff of the row sweeps to the far past, but the scan of
  temporary objects casts the same value to a negative age: every object up to one second newer
  than the clock is stale and its upload loses it.
\<close>

theorem huge_grace_ages_all_temps:
  "compute_before now u64_max = max i64_min (now - i64_max) \<and>
   temp_is_stale now u64_max modified = (modified \<le> now + 1000)"
  by (auto simp: compute_before_def temp_is_stale_def u64_max_def i64_max_def i64_min_def wrap_i64_def)

end
