(* ===== verification/Result_Rules.thy ===== *)
theory Result_Rules
  imports Store_Prelude
begin

text \<open>
  Partial correctness of computations that may fail: \<open>yields r Q\<close> says that a result of \<open>r\<close>, if
  there is one, satisfies \<open>Q\<close>. The rules in \<open>yields\<close> follow the shape of a definition, so
  \<open>intro yields\<close> turns a goal about an operation into one goal for each path that returns.
\<close>

named_theorems yields \<open>rules for what an operation yields\<close>

definition yields :: "'e + 'a \<Rightarrow> ('a \<Rightarrow> bool) \<Rightarrow> bool" where
  "yields r Q \<longleftrightarrow> (case r of Inl _ \<Rightarrow> True | Inr a \<Rightarrow> Q a)"

lemma yieldsD: "yields r Q \<Longrightarrow> r = Inr a \<Longrightarrow> Q a"
  by (simp add: yields_def)

lemma yieldsI: "(\<And>a. r = Inr a \<Longrightarrow> Q a) \<Longrightarrow> yields r Q"
  by (cases r) (simp_all add: yields_def)

lemma yields_Inl [yields]: "yields (Inl e) Q"
  by (simp add: yields_def)

lemma yields_Inr [yields]: "Q a \<Longrightarrow> yields (Inr a) Q"
  by (simp add: yields_def)

lemma yields_and_then [yields]: "(\<And>a. r = Inr a \<Longrightarrow> yields (f a) Q) \<Longrightarrow> yields (and_then r f) Q"
  by (cases r) (simp_all add: yields_def and_then_def)

lemma yields_if [yields]:
  "(b \<Longrightarrow> yields r Q) \<Longrightarrow> (\<not> b \<Longrightarrow> yields s Q) \<Longrightarrow> yields (if b then r else s) Q"
  by simp

lemma yields_option [yields]:
  "(x = None \<Longrightarrow> yields r Q) \<Longrightarrow> (\<And>a. x = Some a \<Longrightarrow> yields (f a) Q)
    \<Longrightarrow> yields (case x of None \<Rightarrow> r | Some a \<Rightarrow> f a) Q"
  by (cases x) simp_all

lemma yields_list [yields]:
  "(x = [] \<Longrightarrow> yields r Q) \<Longrightarrow> (\<And>a as. x = a # as \<Longrightarrow> yields (f a as) Q)
    \<Longrightarrow> yields (case x of [] \<Rightarrow> r | a # as \<Rightarrow> f a as) Q"
  by (cases x) simp_all

lemma yields_prod [yields]:
  "(\<And>a b. x = (a, b) \<Longrightarrow> yields (f a b) Q) \<Longrightarrow> yields (case x of (a, b) \<Rightarrow> f a b) Q"
  by (cases x) simp_all

lemma yields_prod_nested [yields]:
  "(\<And>a b. x = (a, b) \<Longrightarrow> yields (f a b c) Q) \<Longrightarrow> yields ((case x of (a, b) \<Rightarrow> f a b) c) Q"
  by (cases x) simp_all

lemma yields_sum [yields]:
  "(\<And>e. x = Inl e \<Longrightarrow> yields (f e) Q) \<Longrightarrow> (\<And>a. x = Inr a \<Longrightarrow> yields (g a) Q)
    \<Longrightarrow> yields (case x of Inl e \<Rightarrow> f e | Inr a \<Rightarrow> g a) Q"
  by (cases x) simp_all

lemma yields_Let [yields]: "(\<And>a. a = x \<Longrightarrow> yields (f a) Q) \<Longrightarrow> yields (let a = x in f a) Q"
  by simp

lemma yields_mono: "yields r P \<Longrightarrow> (\<And>a. P a \<Longrightarrow> Q a) \<Longrightarrow> yields r Q"
  by (cases r) (simp_all add: yields_def)

lemma yields_pair: "(\<And>a b. r = Inr (a, b) \<Longrightarrow> Q (a, b)) \<Longrightarrow> yields r Q"
  by (rule yieldsI) auto

end
