(* ===== verification/Content_Store.thy ===== *)
theory Content_Store
  imports Group_Operator Media_System
begin

text \<open>
  The tables of threads, memories and their contents, and one definition per statement of
  \<open>infra/src/infra/thread/rdb.rs\<close>, \<open>memory/rdb.rs\<close>, \<open>thread_memory/rdb.rs\<close>, \<open>thread_label/rdb.rs\<close>,
  \<open>thread_group/memory_relation.rs\<close> and the member links of \<open>thread_group/collection.rs\<close>. The state
  extends the tables of the thread groups, because importing and deleting a thread writes both.
  Text is UTF-8 bytes, a JSON column its text, an \<open>INT\<close> column an \<open>int\<close>; a thread has fewer than
  \<open>2^31\<close> members, so a position fits its column.
\<close>

subsection \<open>Rows\<close>

record thread_row =
  th_id :: int
  th_default :: "int option"
  th_user :: int
  th_description :: "string option"
  th_channel :: "string option"
  th_embedding :: "string option"
  th_embedding_dim :: "int option"
  th_created :: int
  th_updated :: int
  th_first_message :: "int option"
  th_last_message :: "int option"
  th_metadata :: "string option"
  th_kind :: "int option"

record memory_row =
  mem_id :: int
  mem_parents :: "int list"
  mem_user :: int
  mem_content :: string
  mem_content_type :: int
  mem_params :: "string option"
  mem_metadata :: "string option"
  mem_created :: int
  mem_updated :: int
  mem_role :: int
  mem_external :: "string option"
  mem_media :: "int option"
  mem_kind :: "int option"

record link_row =
  ln_thread :: int
  ln_memory :: int
  ln_position :: int
  ln_created :: int

record label_row =
  lb_thread :: int
  lb_label :: string
  lb_created :: int

record rating_row =
  rt_id :: int
  rt_memory :: int
  rt_user :: int

record group_memory_row =
  gm_group :: int
  gm_memory :: int
  gm_purpose :: string
  gm_policy :: string
  gm_created :: int

record collection_row =
  cl_id :: int
  cl_user :: int
  cl_title :: string
  cl_created :: int
  cl_updated :: int

record collection_member_row =
  cm_collection :: int
  cm_thread :: int
  cm_user :: int

record content_db = operator_db +
  ct_threads :: "thread_row list"
  ct_memories :: "memory_row list"
  ct_links :: "link_row list"
  ct_labels :: "label_row list"
  ct_ratings :: "rating_row list"
  ct_group_memories :: "group_memory_row list"
  ct_collections :: "collection_row list"
  ct_collection_members :: "collection_member_row list"
  ct_media :: media_table

text \<open>The payloads of the requests (\<open>ThreadData\<close>, \<open>MemoryData\<close>) as far as the code reads them.\<close>

record thread_data =
  td_default :: "int option"
  td_user :: "int option"
  td_description :: "string option"
  td_channel :: "string option"
  td_embedding :: "string option"
  td_embedding_dim :: "int option"
  td_metadata :: "string option"
  td_kind :: int
  td_labels :: "string list"

record memory_data =
  md_parents :: "int list"
  md_user :: "int option"
  md_content :: string
  md_content_type :: int
  md_params :: "string option"
  md_metadata :: "string option"
  md_created :: int
  md_updated :: int
  md_role :: int
  md_external :: "string option"
  md_media :: "int option"
  md_kind :: int

text \<open>
  What the operations take from outside: the environment of the group tables, whether
  \<open>serde_json\<close> parses a text, the random keys of manual threads, whether the media subsystem is
  wired, and the two switches of the configuration.
\<close>

record content_env =
  ce_group :: group_env
  ce_json_ok :: "string \<Rightarrow> bool"
  ce_random_key :: "nat \<Rightarrow> string"
  ce_media_wired :: bool
  ce_kind_compat :: bool
  ce_group_writes :: bool

abbreviation ce_now :: "content_env \<Rightarrow> int" where
  "ce_now env \<equiv> env_clock (ce_group env)"

datatype content_error =
    Not_Found string
  | Invalid_Argument string
  | Runtime_Error string
  | Already_Exists string
  | Precondition_Failed string
  | Bailed string
  | Db_Violation string
  | Group_Failure store_error
  | Media_Failure media_error

definition of_group :: "store_error + 'a \<Rightarrow> content_error + 'a" where
  "of_group r = (case r of Inl e \<Rightarrow> Inl (Group_Failure e) | Inr a \<Rightarrow> Inr a)"

definition of_media :: "media_error + 'a \<Rightarrow> content_error + 'a" where
  "of_media r = (case r of Inl e \<Rightarrow> Inl (Media_Failure e) | Inr a \<Rightarrow> Inr a)"

lemma of_group_Inr [simp]: "of_group r = Inr a \<longleftrightarrow> r = Inr a"
  by (simp add: of_group_def split: sum.split)

lemma of_media_Inr [simp]: "of_media r = Inr a \<longleftrightarrow> r = Inr a"
  by (simp add: of_media_def split: sum.split)

text \<open>\<open>slice::chunks\<close> and the length of an \<open>IN\<close> list.\<close>

function chunks :: "nat \<Rightarrow> 'a list \<Rightarrow> 'a list list" where
  "chunks n xs = (if n = 0 \<or> xs = [] then [] else take n xs # chunks n (drop n xs))"
  by pat_completeness auto
termination by (relation "measure (\<lambda>(n, xs). length xs)") auto

declare chunks.simps [simp del]

lemma chunks_code: "chunks n xs = (if n = 0 \<or> xs = [] then [] else take n xs # chunks n (drop n xs))"
  by (rule chunks.simps)

lemma set_chunks: "0 < n \<Longrightarrow> (\<Union>c\<in>set (chunks n xs). set c) = set xs"
proof (induction n xs rule: chunks.induct)
  case (1 n xs)
  show ?case
  proof (cases "xs = []")
    case True
    then show ?thesis by (simp add: chunks_code [of n])
  next
    case False
    with 1 have "(\<Union>c\<in>set (chunks n (drop n xs)). set c) = set (drop n xs)" by auto
    with False 1 show ?thesis
      by (simp add: chunks_code [of n xs] flip: set_append)
  qed
qed

definition in_list_chunk_size :: nat where "in_list_chunk_size = 500"

subsection \<open>Threads\<close>

definition thread_kind_value :: "thread_row \<Rightarrow> int" where
  "thread_kind_value t = (case th_kind t of None \<Rightarrow> 0 | Some k \<Rightarrow> k)"

definition find_thread :: "int \<Rightarrow> 'a content_db_scheme \<Rightarrow> thread_row option" where
  "find_thread i db = find (\<lambda>t. th_id t = i) (ct_threads db)"

definition user_column :: "int option \<Rightarrow> int" where
  "user_column u = (case u of None \<Rightarrow> 0 | Some i \<Rightarrow> i)"

definition thread_of_data :: "int \<Rightarrow> int \<Rightarrow> thread_data \<Rightarrow> thread_row" where
  "thread_of_data i now d =
     \<lparr>th_id = i, th_default = td_default d, th_user = user_column (td_user d),
      th_description = td_description d, th_channel = td_channel d, th_embedding = td_embedding d,
      th_embedding_dim = td_embedding_dim d, th_created = now, th_updated = now,
      th_first_message = None, th_last_message = None, th_metadata = td_metadata d,
      th_kind = Some (td_kind d)\<rparr>"

definition insert_thread ::
  "content_env \<Rightarrow> thread_data \<Rightarrow> 'a content_db_scheme \<Rightarrow> content_error + int \<times> 'a content_db_scheme" where
  "insert_thread env d db =
     (let i = env_id (ce_group env) (db_drawn db)
      in if find_thread i db \<noteq> None then Inl (Db_Violation ''thread.id'')
         else Inr (i, db\<lparr>db_drawn := db_drawn db + 1,
                         ct_threads := ct_threads db @ [thread_of_data i (ce_now env) d]\<rparr>))"

text \<open>An UPDATE of the thread rows that satisfy a condition: whether there was one.\<close>

definition update_threads ::
  "(thread_row \<Rightarrow> bool) \<Rightarrow> (thread_row \<Rightarrow> thread_row) \<Rightarrow> 'a content_db_scheme \<Rightarrow> bool \<times> 'a content_db_scheme" where
  "update_threads p f db =
     (list_ex p (ct_threads db),
      db\<lparr>ct_threads := map (\<lambda>t. if p t then f t else t) (ct_threads db)\<rparr>)"

definition update_thread_row ::
  "int \<Rightarrow> int \<Rightarrow> thread_data \<Rightarrow> 'a content_db_scheme \<Rightarrow> bool \<times> 'a content_db_scheme" where
  "update_thread_row now i d =
     update_threads (\<lambda>t. th_id t = i)
       (\<lambda>t. t\<lparr>th_default := td_default d, th_user := user_column (td_user d),
              th_description := td_description d, th_channel := td_channel d,
              th_embedding := td_embedding d, th_embedding_dim := td_embedding_dim d,
              th_updated := now, th_metadata := td_metadata d, th_kind := Some (td_kind d)\<rparr>)"

definition delete_thread_row :: "int \<Rightarrow> 'a content_db_scheme \<Rightarrow> bool \<times> 'a content_db_scheme" where
  "delete_thread_row i db =
     (list_ex (\<lambda>t. th_id t = i) (ct_threads db),
      db\<lparr>ct_threads := filter (\<lambda>t. th_id t \<noteq> i) (ct_threads db)\<rparr>)"

definition find_by_channel_and_user :: "string \<Rightarrow> int \<Rightarrow> 'a content_db_scheme \<Rightarrow> thread_row list" where
  "find_by_channel_and_user channel user db =
     filter (\<lambda>t. th_channel t = Some channel \<and> th_user t = user) (ct_threads db)"

definition threads_with_default :: "int \<Rightarrow> 'a content_db_scheme \<Rightarrow> int list" where
  "threads_with_default m db = map th_id (filter (\<lambda>t. th_default t = Some m) (ct_threads db))"

definition clear_default :: "int \<Rightarrow> 'a content_db_scheme \<Rightarrow> 'a content_db_scheme" where
  "clear_default m db =
     snd (update_threads (\<lambda>t. th_default t = Some m) (\<lambda>t. t\<lparr>th_default := None\<rparr>) db)"

subsection \<open>Memories\<close>

definition memory_kind_value :: "memory_row \<Rightarrow> int" where
  "memory_kind_value m = (case mem_kind m of None \<Rightarrow> 0 | Some k \<Rightarrow> k)"

definition find_memory :: "int \<Rightarrow> 'a content_db_scheme \<Rightarrow> memory_row option" where
  "find_memory i db = find (\<lambda>m. mem_id m = i) (ct_memories db)"

definition find_memories :: "int list \<Rightarrow> 'a content_db_scheme \<Rightarrow> memory_row list" where
  "find_memories ids db =
     concat (map (\<lambda>c. rev (sort_key mem_id (filter (\<lambda>m. mem_id m \<in> set c) (ct_memories db))))
       (chunks in_list_chunk_size ids))"

definition memory_of_data :: "int \<Rightarrow> int \<Rightarrow> memory_data \<Rightarrow> memory_row" where
  "memory_of_data i now d =
     \<lparr>mem_id = i, mem_parents = md_parents d, mem_user = user_column (md_user d),
      mem_content = md_content d, mem_content_type = md_content_type d, mem_params = md_params d,
      mem_metadata = md_metadata d,
      mem_created = (if md_created d = 0 then now else md_created d),
      mem_updated = (if md_updated d = 0 then now else md_updated d),
      mem_role = md_role d, mem_external = md_external d, mem_media = md_media d,
      mem_kind = Some (md_kind d)\<rparr>"

definition insert_memory ::
  "content_env \<Rightarrow> memory_data \<Rightarrow> 'a content_db_scheme \<Rightarrow> content_error + int \<times> 'a content_db_scheme" where
  "insert_memory env d db =
     (let i = env_id (ce_group env) (db_drawn db)
      in if find_memory i db \<noteq> None then Inl (Db_Violation ''memory.id'')
         else if md_external d \<noteq> None \<and> list_ex (\<lambda>m. mem_external m = md_external d) (ct_memories db)
         then Inl (Already_Exists ''memory.external_id already exists'')
         else Inr (i, db\<lparr>db_drawn := db_drawn db + 1,
                         ct_memories := ct_memories db @ [memory_of_data i (ce_now env) d]\<rparr>))"

definition update_memories ::
  "int \<Rightarrow> (memory_row \<Rightarrow> memory_row) \<Rightarrow> 'a content_db_scheme \<Rightarrow> bool \<times> 'a content_db_scheme" where
  "update_memories i f db =
     (list_ex (\<lambda>m. mem_id m = i) (ct_memories db),
      db\<lparr>ct_memories := map (\<lambda>m. if mem_id m = i then f m else m) (ct_memories db)\<rparr>)"

definition update_memory_row ::
  "int \<Rightarrow> int \<Rightarrow> memory_data \<Rightarrow> 'a content_db_scheme \<Rightarrow> bool \<times> 'a content_db_scheme" where
  "update_memory_row now i d =
     update_memories i
       (\<lambda>m. m\<lparr>mem_parents := md_parents d, mem_user := user_column (md_user d),
              mem_content := md_content d, mem_content_type := md_content_type d,
              mem_params := md_params d, mem_metadata := md_metadata d,
              mem_updated := (if md_updated d = 0 then now else md_updated d),
              mem_role := md_role d, mem_media := md_media d, mem_kind := Some (md_kind d)\<rparr>)"

definition update_content_only ::
  "int \<Rightarrow> int \<Rightarrow> string \<Rightarrow> 'a content_db_scheme \<Rightarrow> bool \<times> 'a content_db_scheme" where
  "update_content_only now i content =
     update_memories i (\<lambda>m. m\<lparr>mem_content := content, mem_updated := now\<rparr>)"

definition update_parent_ids ::
  "int \<Rightarrow> int list \<Rightarrow> 'a content_db_scheme \<Rightarrow> bool \<times> 'a content_db_scheme" where
  "update_parent_ids i parents = update_memories i (\<lambda>m. m\<lparr>mem_parents := parents\<rparr>)"

definition delete_memory_row :: "int \<Rightarrow> 'a content_db_scheme \<Rightarrow> bool \<times> 'a content_db_scheme" where
  "delete_memory_row i db =
     (list_ex (\<lambda>m. mem_id m = i) (ct_memories db),
      db\<lparr>ct_memories := filter (\<lambda>m. mem_id m \<noteq> i) (ct_memories db)\<rparr>)"

text \<open>\<open>find_referring_memory_ids_tx\<close>: the other memories that name the target as a parent.\<close>

definition find_referring :: "int \<Rightarrow> 'a content_db_scheme \<Rightarrow> int list" where
  "find_referring target db =
     map mem_id (filter (\<lambda>m. mem_id m \<noteq> target \<and> target \<in> set (mem_parents m))
       (sort_key mem_id (ct_memories db)))"

subsection \<open>Members of threads\<close>

definition linked :: "int \<Rightarrow> int \<Rightarrow> 'a content_db_scheme \<Rightarrow> bool" where
  "linked t m db \<longleftrightarrow> list_ex (\<lambda>l. ln_thread l = t \<and> ln_memory l = m) (ct_links db)"

definition thread_links :: "int \<Rightarrow> 'a content_db_scheme \<Rightarrow> link_row list" where
  "thread_links t db = filter (\<lambda>l. ln_thread l = t) (ct_links db)"

definition next_position :: "int \<Rightarrow> 'a content_db_scheme \<Rightarrow> int" where
  "next_position t db = fold max (map ln_position (thread_links t db)) (- 1) + 1"

definition put_link :: "int \<Rightarrow> int \<Rightarrow> int \<Rightarrow> 'a content_db_scheme \<Rightarrow> 'a content_db_scheme" where
  "put_link t m now db =
     db\<lparr>ct_links := ct_links db @
          [\<lparr>ln_thread = t, ln_memory = m, ln_position = next_position t db, ln_created = now\<rparr>]\<rparr>"

text \<open>The computed position is free, so only the primary key can be violated.\<close>

definition insert_link ::
  "int \<Rightarrow> int \<Rightarrow> int \<Rightarrow> 'a content_db_scheme \<Rightarrow> content_error + 'a content_db_scheme" where
  "insert_link t m now db =
     (if linked t m db then Inl (Db_Violation ''thread_memory'') else Inr (put_link t m now db))"

definition insert_or_ignore_link :: "int \<Rightarrow> int \<Rightarrow> int \<Rightarrow> 'a content_db_scheme \<Rightarrow> 'a content_db_scheme" where
  "insert_or_ignore_link t m now db = (if linked t m db then db else put_link t m now db)"

definition memory_ids_of_thread :: "int \<Rightarrow> 'a content_db_scheme \<Rightarrow> int list" where
  "memory_ids_of_thread t db = map ln_memory (sort_key ln_position (thread_links t db))"

definition threads_of_memory :: "int \<Rightarrow> 'a content_db_scheme \<Rightarrow> int list" where
  "threads_of_memory m db = map ln_thread (filter (\<lambda>l. ln_memory l = m) (ct_links db))"

definition count_refs :: "int \<Rightarrow> 'a content_db_scheme \<Rightarrow> nat" where
  "count_refs m db = length (filter (\<lambda>l. ln_memory l = m) (ct_links db))"

definition find_position :: "int \<Rightarrow> int \<Rightarrow> 'a content_db_scheme \<Rightarrow> int option" where
  "find_position t m db =
     map_option ln_position (find (\<lambda>l. ln_thread l = t \<and> ln_memory l = m) (ct_links db))"

definition delete_links_of_thread :: "int \<Rightarrow> 'a content_db_scheme \<Rightarrow> 'a content_db_scheme" where
  "delete_links_of_thread t db = db\<lparr>ct_links := filter (\<lambda>l. ln_thread l \<noteq> t) (ct_links db)\<rparr>"

definition delete_links_of_memory :: "int \<Rightarrow> 'a content_db_scheme \<Rightarrow> 'a content_db_scheme" where
  "delete_links_of_memory m db = db\<lparr>ct_links := filter (\<lambda>l. ln_memory l \<noteq> m) (ct_links db)\<rparr>"

text \<open>\<open>delete_orphaned_by_ids_tx\<close>: the condition is evaluated inside the statement; the returned
  ids are those of the deleted rows, in the order of the table for each chunk.\<close>

definition orphaned_in :: "int list \<Rightarrow> 'a content_db_scheme \<Rightarrow> memory_row \<Rightarrow> bool" where
  "orphaned_in ids db m \<longleftrightarrow> mem_id m \<in> set ids \<and> \<not> list_ex (\<lambda>l. ln_memory l = mem_id m) (ct_links db)"

fun delete_orphaned_chunks ::
  "int list list \<Rightarrow> 'a content_db_scheme \<Rightarrow> int list \<times> 'a content_db_scheme" where
  "delete_orphaned_chunks [] db = ([], db)"
| "delete_orphaned_chunks (c # cs) db =
     (let gone = map mem_id (filter (orphaned_in c db) (ct_memories db));
          (rest, db') = delete_orphaned_chunks cs
             (db\<lparr>ct_memories := filter (\<lambda>m. \<not> orphaned_in c db m) (ct_memories db)\<rparr>)
      in (gone @ rest, db'))"

definition delete_orphaned_by_ids :: "int list \<Rightarrow> 'a content_db_scheme \<Rightarrow> int list \<times> 'a content_db_scheme" where
  "delete_orphaned_by_ids ids = delete_orphaned_chunks (chunks in_list_chunk_size ids)"

text \<open>\<open>find_by_external_ids_with_position_tx\<close>: the LEFT JOIN yields each memory once, because the
  pair of thread and memory is a key of the junction.\<close>

definition find_by_external_ids ::
  "int \<Rightarrow> string list \<Rightarrow> 'a content_db_scheme \<Rightarrow> (memory_row \<times> int option) list" where
  "find_by_external_ids t eids db =
     concat (map (\<lambda>c. map (\<lambda>m. (m, find_position t (mem_id m) db))
         (filter (\<lambda>m. case mem_external m of None \<Rightarrow> False | Some e \<Rightarrow> e \<in> set c) (ct_memories db)))
       (chunks in_list_chunk_size eids))"

subsection \<open>Message bounds\<close>

definition linked_times :: "int \<Rightarrow> 'a content_db_scheme \<Rightarrow> int list" where
  "linked_times t db =
     concat (map (\<lambda>l. map mem_created (filter (\<lambda>m. mem_id m = ln_memory l) (ct_memories db)))
       (thread_links t db))"

text \<open>\<open>MIN\<close> and \<open>MAX\<close> over no rows are NULL.\<close>

definition message_bounds :: "int \<Rightarrow> 'a content_db_scheme \<Rightarrow> int option \<times> int option" where
  "message_bounds t db =
     (case linked_times t db of
        [] \<Rightarrow> (None, None)
      | c # cs \<Rightarrow> (Some (fold min cs c), Some (fold max cs c)))"

definition bounds_differ :: "int option \<times> int option \<Rightarrow> thread_row \<Rightarrow> bool" where
  "bounds_differ b t \<longleftrightarrow> (th_first_message t, th_last_message t) \<noteq> b"

definition refresh_message_bounds ::
  "int \<Rightarrow> int \<Rightarrow> 'a content_db_scheme \<Rightarrow> bool \<times> 'a content_db_scheme" where
  "refresh_message_bounds t now db =
     (let b = message_bounds t db in
      update_threads (\<lambda>r. th_id r = t \<and> bounds_differ b r)
        (\<lambda>r. r\<lparr>th_first_message := fst b, th_last_message := snd b, th_updated := now\<rparr>) db)"

definition backfill_message_bounds :: "int \<Rightarrow> 'a content_db_scheme \<Rightarrow> bool \<times> 'a content_db_scheme" where
  "backfill_message_bounds t db =
     (let b = message_bounds t db in
      update_threads (\<lambda>r. th_id r = t \<and> bounds_differ b r)
        (\<lambda>r. r\<lparr>th_first_message := fst b, th_last_message := snd b\<rparr>) db)"

fun refresh_each :: "int list \<Rightarrow> int \<Rightarrow> 'a content_db_scheme \<Rightarrow> int list \<times> 'a content_db_scheme" where
  "refresh_each [] now db = ([], db)"
| "refresh_each (t # ts) now db =
     (let (changed, db1) = refresh_message_bounds t now db;
          (rest, db2) = refresh_each ts now db1
      in ((if changed then t # rest else rest), db2))"

definition refresh_message_bounds_all ::
  "int list \<Rightarrow> int \<Rightarrow> 'a content_db_scheme \<Rightarrow> int list \<times> 'a content_db_scheme" where
  "refresh_message_bounds_all ts = refresh_each (remdups_adj (sort ts))"

subsection \<open>Labels, ratings, group memories, collections\<close>

definition has_label :: "int \<Rightarrow> string \<Rightarrow> 'a content_db_scheme \<Rightarrow> bool" where
  "has_label t label db \<longleftrightarrow> list_ex (\<lambda>r. lb_thread r = t \<and> lb_label r = label) (ct_labels db)"

definition add_label :: "int \<Rightarrow> int \<Rightarrow> string \<Rightarrow> 'a content_db_scheme \<Rightarrow> 'a content_db_scheme" where
  "add_label t now label db =
     (if has_label t label db then db
      else db\<lparr>ct_labels := ct_labels db @ [\<lparr>lb_thread = t, lb_label = label, lb_created = now\<rparr>]\<rparr>)"

fun add_each_label :: "int \<Rightarrow> int \<Rightarrow> string list \<Rightarrow> 'a content_db_scheme \<Rightarrow> 'a content_db_scheme" where
  "add_each_label t now [] db = db"
| "add_each_label t now (l # ls) db = add_each_label t now ls (add_label t now l db)"

definition remove_label_rows :: "int \<Rightarrow> string list \<Rightarrow> 'a content_db_scheme \<Rightarrow> 'a content_db_scheme" where
  "remove_label_rows t labels db =
     (if labels = [] then db
      else db\<lparr>ct_labels := filter (\<lambda>r. \<not> (lb_thread r = t \<and> lb_label r \<in> set labels)) (ct_labels db)\<rparr>)"

definition labels_of_thread :: "int \<Rightarrow> 'a content_db_scheme \<Rightarrow> string list" where
  "labels_of_thread t db = sort (map lb_label (filter (\<lambda>r. lb_thread r = t) (ct_labels db)))"

definition delete_labels_of_thread :: "int \<Rightarrow> 'a content_db_scheme \<Rightarrow> 'a content_db_scheme" where
  "delete_labels_of_thread t db = db\<lparr>ct_labels := filter (\<lambda>r. lb_thread r \<noteq> t) (ct_labels db)\<rparr>"

definition delete_ratings_of_memory :: "int \<Rightarrow> 'a content_db_scheme \<Rightarrow> 'a content_db_scheme" where
  "delete_ratings_of_memory m db = db\<lparr>ct_ratings := filter (\<lambda>r. rt_memory r \<noteq> m) (ct_ratings db)\<rparr>"

definition insert_group_memory ::
  "int \<Rightarrow> int \<Rightarrow> string \<Rightarrow> string \<Rightarrow> int \<Rightarrow> 'a content_db_scheme \<Rightarrow> content_error + 'a content_db_scheme" where
  "insert_group_memory g m purpose policy now db =
     (if list_ex (\<lambda>r. gm_group r = g \<and> gm_memory r = m) (ct_group_memories db)
      then Inl (Db_Violation ''thread_group_memory_relation'')
      else Inr (db\<lparr>ct_group_memories := ct_group_memories db @
             [\<lparr>gm_group = g, gm_memory = m, gm_purpose = purpose, gm_policy = policy,
               gm_created = now\<rparr>]\<rparr>))"

definition delete_group_memories_of_memory :: "int \<Rightarrow> 'a content_db_scheme \<Rightarrow> 'a content_db_scheme" where
  "delete_group_memories_of_memory m db =
     db\<lparr>ct_group_memories := filter (\<lambda>r. gm_memory r \<noteq> m) (ct_group_memories db)\<rparr>"

definition detach_all_collections :: "int \<Rightarrow> 'a content_db_scheme \<Rightarrow> 'a content_db_scheme" where
  "detach_all_collections t db =
     db\<lparr>ct_collection_members := filter (\<lambda>r. cm_thread r \<noteq> t) (ct_collection_members db)\<rparr>"

subsection \<open>The group tables of a deletion and a revival\<close>

definition mark_current_deleted ::
  "group_env \<Rightarrow> string \<Rightarrow> int \<Rightarrow> int \<Rightarrow> 'a group_db_scheme \<Rightarrow> bool \<times> 'a group_db_scheme" where
  "mark_current_deleted env key gone_at now db =
     (let hit = (\<lambda>m. mb_key m = key \<and> mb_state m = MemberActive)
      in (list_ex hit (db_members db),
          db\<lparr>db_members := map (\<lambda>m. if hit m
               then m\<lparr>mb_state := MemberDeleted, mb_thread := None, mb_deleted_at := Some gone_at,
                      mb_updated := fill_updated_at env now\<rparr> else m) (db_members db)\<rparr>))"

definition revive_current ::
  "group_env \<Rightarrow> string \<Rightarrow> int \<Rightarrow> int \<Rightarrow> 'a group_db_scheme \<Rightarrow> bool \<times> 'a group_db_scheme" where
  "revive_current env key thread now db =
     (let hit = (\<lambda>m. mb_key m = key \<and> mb_state m = MemberDeleted)
      in (list_ex hit (db_members db),
          db\<lparr>db_members := map (\<lambda>m. if hit m
               then m\<lparr>mb_state := MemberActive, mb_thread := Some thread, mb_deleted_at := None,
                      mb_updated := fill_updated_at env now\<rparr> else m) (db_members db)\<rparr>))"

definition detach_thread_relations :: "int \<Rightarrow> int \<Rightarrow> 'a group_db_scheme \<Rightarrow> 'a group_db_scheme" where
  "detach_thread_relations thread now db =
     db\<lparr>db_relations :=
       map (\<lambda>r. if rl_child_thread r = Some thread then r\<lparr>rl_child_thread := None, rl_updated := now\<rparr> else r)
         (map (\<lambda>r. if rl_parent_thread r = Some thread then r\<lparr>rl_parent_thread := None, rl_updated := now\<rparr> else r)
           (db_relations db))\<rparr>"

definition reconnect_thread_relations :: "string \<Rightarrow> int \<Rightarrow> int \<Rightarrow> 'a group_db_scheme \<Rightarrow> 'a group_db_scheme" where
  "reconnect_thread_relations key thread now db =
     db\<lparr>db_relations :=
       map (\<lambda>r. if rl_child_key r = key \<and> rl_child_thread r = None
                 then r\<lparr>rl_child_thread := Some thread, rl_updated := now\<rparr> else r)
         (map (\<lambda>r. if rl_parent_key r = key \<and> rl_parent_thread r = None
                   then r\<lparr>rl_parent_thread := Some thread, rl_updated := now\<rparr> else r)
           (db_relations db))\<rparr>"

text \<open>\<open>put_tx\<close>: a second marker of the identity replaces the first, but keeps its key if it has
  none of its own.\<close>

definition put_marker :: "marker_row \<Rightarrow> 'a evidence_db_scheme \<Rightarrow> 'a evidence_db_scheme" where
  "put_marker new db =
     (if find_marker (mk_identity new) db = None then db\<lparr>db_markers := db_markers db @ [new]\<rparr>
      else db\<lparr>db_markers := map (\<lambda>r. if mk_identity r = mk_identity new
        then new\<lparr>mk_thread_key := (if mk_thread_key new = None then mk_thread_key r else mk_thread_key new)\<rparr> else r) (db_markers db)\<rparr>)"

definition consume_marker :: "identity_key \<Rightarrow> 'a evidence_db_scheme \<Rightarrow> 'a evidence_db_scheme" where
  "consume_marker k db = db\<lparr>db_markers := filter (\<lambda>r. mk_identity r \<noteq> k) (db_markers db)\<rparr>"

definition delete_identity :: "identity_key \<Rightarrow> 'a evidence_db_scheme \<Rightarrow> 'a evidence_db_scheme" where
  "delete_identity k db = db\<lparr>db_identities := filter (\<lambda>r. id_key r \<noteq> k) (db_identities db)\<rparr>"

definition delete_key :: "int \<Rightarrow> 'a evidence_db_scheme \<Rightarrow> 'a evidence_db_scheme" where
  "delete_key thread db = db\<lparr>db_keys := filter (\<lambda>r. ky_thread r \<noteq> thread) (db_keys db)\<rparr>"

definition find_key :: "string \<Rightarrow> 'a evidence_db_scheme \<Rightarrow> key_row option" where
  "find_key key db = find (\<lambda>r. ky_key r = key) (db_keys db)"

end
