(* ===== verification/Content_Invariant.thy ===== *)
theory Content_Invariant
  imports Content_Store Group_Graph Result_Rules
begin

text \<open>
  The invariant of the content tables: keys are unique, the rows of the junction and of the
  labels point at rows, positions of a thread are distinct, the stored message bounds of every
  thread are those of its members, and its default system memory is a member. \<open>store_ok F\<close>
  exempts the threads in \<open>F\<close> from the last two, for the states inside a transaction. One lemma
  per statement.
\<close>

definition thread_ids :: "'a content_db_scheme \<Rightarrow> int set" where
  "thread_ids db = th_id ` set (ct_threads db)"

definition memory_ids :: "'a content_db_scheme \<Rightarrow> int set" where
  "memory_ids db = mem_id ` set (ct_memories db)"

definition external_ids :: "'a content_db_scheme \<Rightarrow> string list" where
  "external_ids db = concat (map (\<lambda>m. case mem_external m of None \<Rightarrow> [] | Some e \<Rightarrow> [e]) (ct_memories db))"

definition keys_ok :: "'a content_db_scheme \<Rightarrow> bool" where
  "keys_ok db \<longleftrightarrow>
     distinct (map th_id (ct_threads db)) \<and> distinct (map mem_id (ct_memories db))
     \<and> distinct (external_ids db)
     \<and> distinct (map (\<lambda>l. (ln_thread l, ln_memory l)) (ct_links db))
     \<and> distinct (map (\<lambda>l. (ln_thread l, ln_position l)) (ct_links db))
     \<and> distinct (map (\<lambda>r. (lb_thread r, lb_label r)) (ct_labels db))"

definition references_ok :: "'a content_db_scheme \<Rightarrow> bool" where
  "references_ok db \<longleftrightarrow>
     (\<forall>l \<in> set (ct_links db). ln_thread l \<in> thread_ids db \<and> ln_memory l \<in> memory_ids db)
     \<and> (\<forall>r \<in> set (ct_labels db). lb_thread r \<in> thread_ids db)"

definition bounds_ok :: "thread_row \<Rightarrow> 'a content_db_scheme \<Rightarrow> bool" where
  "bounds_ok t db \<longleftrightarrow> (th_first_message t, th_last_message t) = message_bounds (th_id t) db"

definition anchored :: "thread_row \<Rightarrow> 'a content_db_scheme \<Rightarrow> bool" where
  "anchored t db \<longleftrightarrow> (case th_default t of None \<Rightarrow> True | Some m \<Rightarrow> linked (th_id t) m db)"

definition store_ok :: "int set \<Rightarrow> 'a content_db_scheme \<Rightarrow> bool" where
  "store_ok F db \<longleftrightarrow> keys_ok db \<and> references_ok db
     \<and> (\<forall>t \<in> set (ct_threads db). th_id t \<notin> F \<longrightarrow> bounds_ok t db \<and> anchored t db)"

abbreviation content_ok :: "'a content_db_scheme \<Rightarrow> bool" where
  "content_ok db \<equiv> store_ok {} db"

lemma store_okD:
  assumes "store_ok F db"
  shows "keys_ok db" "references_ok db"
    and "t \<in> set (ct_threads db) \<Longrightarrow> th_id t \<notin> F \<Longrightarrow> bounds_ok t db"
    and "t \<in> set (ct_threads db) \<Longrightarrow> th_id t \<notin> F \<Longrightarrow> anchored t db"
  using assms by (auto simp: store_ok_def)

lemma store_ok_mono: "store_ok F db \<Longrightarrow> F \<subseteq> G \<Longrightarrow> store_ok G db"
  unfolding store_ok_def by blast

text \<open>The parts that other statements leave alone.\<close>

definition same_content :: "'a content_db_scheme \<Rightarrow> 'b content_db_scheme \<Rightarrow> bool" where
  "same_content db db' \<longleftrightarrow> ct_threads db' = ct_threads db \<and> ct_memories db' = ct_memories db
     \<and> ct_links db' = ct_links db \<and> ct_labels db' = ct_labels db"

named_theorems content_only \<open>statements that leave threads, memories, junction and labels alone\<close>

lemma same_content_refl [simp]: "same_content db db"
  by (simp add: same_content_def)

lemma same_content_trans [trans]: "same_content a b \<Longrightarrow> same_content b c \<Longrightarrow> same_content a c"
  by (simp add: same_content_def)

lemma linked_same: "same_content db db' \<Longrightarrow> linked t m db' = linked t m db"
  by (simp add: same_content_def linked_def)

lemma message_bounds_same: "same_content db db' \<Longrightarrow> message_bounds t db' = message_bounds t db"
  by (simp add: same_content_def message_bounds_def linked_times_def thread_links_def)

lemma store_ok_same:
  assumes "same_content db db'" "store_ok F db"
  shows "store_ok F db'"
proof -
  have "keys_ok db' = keys_ok db" "references_ok db' = references_ok db"
    using assms(1) by (simp_all add: same_content_def keys_ok_def references_ok_def external_ids_def
        thread_ids_def memory_ids_def)
  moreover have "bounds_ok t db' = bounds_ok t db" "anchored t db' = anchored t db" for t
    using assms(1) by (simp_all add: bounds_ok_def anchored_def message_bounds_same linked_same
        split: option.splits)
  ultimately show ?thesis using assms by (simp add: store_ok_def same_content_def)
qed

lemma linked_iff: "linked t m db \<longleftrightarrow> (\<exists>l \<in> set (ct_links db). ln_thread l = t \<and> ln_memory l = m)"
  by (simp add: linked_def list_ex_iff)

lemma find_thread_Some:
  "keys_ok db \<Longrightarrow> find_thread i db = Some t \<longleftrightarrow> t \<in> set (ct_threads db) \<and> th_id t = i"
  using find_unique [of th_id "\<lambda>_. True" "ct_threads db" i t]
  by (simp add: find_thread_def keys_ok_def)

lemma find_memory_Some:
  "keys_ok db \<Longrightarrow> find_memory i db = Some m \<longleftrightarrow> m \<in> set (ct_memories db) \<and> mem_id m = i"
  using find_unique [of mem_id "\<lambda>_. True" "ct_memories db" i m]
  by (simp add: find_memory_def keys_ok_def)

lemma find_thread_None: "find_thread i db = None \<longleftrightarrow> i \<notin> thread_ids db"
  by (auto simp: find_thread_def thread_ids_def find_None_iff)

lemma find_memory_None: "find_memory i db = None \<longleftrightarrow> i \<notin> memory_ids db"
  by (auto simp: find_memory_def memory_ids_def find_None_iff)

lemma set_find_memories: "set (find_memories ids db) = {m \<in> set (ct_memories db). mem_id m \<in> set ids}"
proof -
  have "set (find_memories ids db)
      = {m \<in> set (ct_memories db). mem_id m \<in> (\<Union>c\<in>set (chunks in_list_chunk_size ids). set c)}"
    by (auto simp: find_memories_def)
  then show ?thesis by (simp add: set_chunks in_list_chunk_size_def)
qed

subsection \<open>Message bounds of changed tables\<close>

lemma fold_min_Min: "fold min xs (x::int) = Min (set (x # xs))"
  by (simp only: Min.set_eq_fold)

lemma fold_max_Max: "fold max xs (x::int) = Max (set (x # xs))"
  by (simp only: Max.set_eq_fold)

text \<open>The bounds depend only on the set of the times.\<close>

lemma message_bounds_set:
  "message_bounds t db =
     (if set (linked_times t db) = {} then (None, None)
      else (Some (Min (set (linked_times t db))), Some (Max (set (linked_times t db)))))"
  by (cases "linked_times t db") (simp_all add: message_bounds_def fold_min_Min fold_max_Max)

lemma set_linked_times:
  "set (linked_times t db) =
     {mem_created m |m. m \<in> set (ct_memories db) \<and> linked t (mem_id m) db}"
  unfolding linked_times_def thread_links_def linked_iff by (auto 4 3 intro: sym)

lemma message_bounds_cong:
  "{mem_created m |m. m \<in> set (ct_memories db') \<and> linked t (mem_id m) db'}
     = {mem_created m |m. m \<in> set (ct_memories db) \<and> linked t (mem_id m) db}
   \<Longrightarrow> message_bounds t db' = message_bounds t db"
  by (simp add: message_bounds_set set_linked_times)

subsection \<open>Statements on threads\<close>

lemma insert_thread_ok:
  assumes ok: "store_ok F db" and ins: "insert_thread env d db = Inr (i, db')"
    and none: "td_default d = None \<or> i \<in> F"
  shows "store_ok F db'" and "i \<in> thread_ids db'" and "i \<notin> thread_ids db"
proof -
  define row where "row = thread_of_data i (ce_now env) d"
  have i: "i = env_id (ce_group env) (db_drawn db)" and fresh: "i \<notin> thread_ids db"
    and db': "ct_threads db' = ct_threads db @ [row]"
      "ct_memories db' = ct_memories db" "ct_links db' = ct_links db" "ct_labels db' = ct_labels db"
    using ins by (auto simp: insert_thread_def Let_def row_def find_thread_None split: if_splits)
  have ids: "thread_ids db' = insert i (thread_ids db)"
    by (simp add: thread_ids_def db' row_def thread_of_data_def)
  show "i \<notin> thread_ids db" by (rule fresh)
  show "i \<in> thread_ids db'" by (simp add: ids)
  have lk: "linked t m db' = linked t m db" for t m by (simp add: linked_def db')
  have bd: "message_bounds t db' = message_bounds t db" for t
    by (rule message_bounds_cong) (simp add: lk db')
  have nolinks: "\<not> linked i m db" for m
    using ok fresh by (auto simp: linked_iff store_ok_def references_ok_def)
  have "keys_ok db'" using store_okD(1)[OF ok] fresh
    by (auto simp: keys_ok_def db' external_ids_def row_def thread_of_data_def thread_ids_def)
  moreover have "references_ok db'" using store_okD(2)[OF ok]
    by (auto simp: references_ok_def db' ids memory_ids_def)
  moreover have "bounds_ok row db'"
    using nolinks by (simp add: bounds_ok_def row_def thread_of_data_def message_bounds_set
        set_linked_times lk)
  moreover have "anchored row db'" if "i \<notin> F"
    using none that by (auto simp: anchored_def row_def thread_of_data_def)
  moreover have "bounds_ok t db' \<longleftrightarrow> bounds_ok t db" "anchored t db' \<longleftrightarrow> anchored t db" for t
    by (simp_all add: bounds_ok_def bd anchored_def lk split: option.split)
  moreover have "th_id row = i" by (simp add: row_def thread_of_data_def)
  ultimately show "store_ok F db'" using ok by (auto simp: store_ok_def db')
qed

text \<open>An update that keeps the ids and, outside \<open>F\<close>, bounds and anchors.\<close>

lemma update_threads_ok:
  assumes ok: "store_ok F db"
    and keep: "\<And>t. t \<in> set (ct_threads db) \<Longrightarrow> p t \<Longrightarrow> th_id (f t) = th_id t"
    and good: "\<And>t. t \<in> set (ct_threads db) \<Longrightarrow> p t \<Longrightarrow> th_id t \<notin> G \<Longrightarrow> bounds_ok (f t) db \<and> anchored (f t) db"
    and rest: "\<And>t. t \<in> set (ct_threads db) \<Longrightarrow> \<not> p t \<Longrightarrow> th_id t \<notin> G \<Longrightarrow> th_id t \<in> F \<Longrightarrow> bounds_ok t db \<and> anchored t db"
  shows "store_ok G (snd (update_threads p f db))"
proof -
  let ?db = "snd (update_threads p f db)"
  have th: "ct_threads ?db = map (\<lambda>t. if p t then f t else t) (ct_threads db)"
    and [simp]: "ct_memories ?db = ct_memories db" "ct_links ?db = ct_links db" "ct_labels ?db = ct_labels db"
    by (simp_all add: update_threads_def)
  have ids: "map th_id (ct_threads ?db) = map th_id (ct_threads db)"
    using keep by (auto simp: th)
  then have idset: "thread_ids ?db = thread_ids db"
    by (metis thread_ids_def set_map)
  have lk: "linked t m ?db = linked t m db" for t m by (simp add: linked_def)
  have bd: "message_bounds t ?db = message_bounds t db" for t
    by (rule message_bounds_cong) (simp add: lk)
  have eqs: "bounds_ok t ?db \<longleftrightarrow> bounds_ok t db" "anchored t ?db \<longleftrightarrow> anchored t db" for t
    by (simp_all add: bounds_ok_def bd anchored_def lk split: option.split)
  have "keys_ok ?db" using store_okD(1)[OF ok] by (simp add: keys_ok_def ids external_ids_def)
  moreover have "references_ok ?db" using store_okD(2)[OF ok]
    by (simp add: references_ok_def idset memory_ids_def)
  moreover have "bounds_ok t ?db \<and> anchored t ?db" if "t \<in> set (ct_threads ?db)" "th_id t \<notin> G" for t
  proof -
    from that(1) obtain u where u: "u \<in> set (ct_threads db)" "t = (if p u then f u else u)"
      by (auto simp: th)
    show ?thesis
    proof (cases "p u")
      case True
      with u that(2) keep good show ?thesis by (auto simp: eqs)
    next
      case False
      with u that(2) rest ok show ?thesis by (auto simp: eqs store_ok_def)
    qed
  qed
  ultimately show ?thesis by (simp add: store_ok_def)
qed

lemma refresh_message_bounds_ok:
  assumes ok: "store_ok F db" and anchor: "\<And>r. r \<in> set (ct_threads db) \<Longrightarrow> th_id r = t \<Longrightarrow> anchored r db"
  shows "store_ok (F - {t}) (snd (refresh_message_bounds t now db))"
  unfolding refresh_message_bounds_def Let_def
proof (rule update_threads_ok [OF ok])
  fix r assume r: "r \<in> set (ct_threads db)" "th_id r = t \<and> bounds_differ (message_bounds t db) r"
  show "th_id (r\<lparr>th_first_message := fst (message_bounds t db), th_last_message := snd (message_bounds t db),
      th_updated := now\<rparr>) = th_id r" by simp
  show "bounds_ok (r\<lparr>th_first_message := fst (message_bounds t db),
      th_last_message := snd (message_bounds t db), th_updated := now\<rparr>) db \<and>
    anchored (r\<lparr>th_first_message := fst (message_bounds t db),
      th_last_message := snd (message_bounds t db), th_updated := now\<rparr>) db"
    using r anchor [of r] by (simp add: bounds_ok_def anchored_def split: option.splits)
next
  fix r assume "r \<in> set (ct_threads db)" "\<not> (th_id r = t \<and> bounds_differ (message_bounds t db) r)"
    "th_id r \<notin> F - {t}" "th_id r \<in> F"
  then show "bounds_ok r db \<and> anchored r db"
    using anchor [of r] by (auto simp: bounds_ok_def bounds_differ_def)
qed

lemma refresh_same_links [simp]:
  "ct_links (snd (refresh_message_bounds t now db)) = ct_links db"
  "ct_memories (snd (refresh_message_bounds t now db)) = ct_memories db"
  "ct_labels (snd (refresh_message_bounds t now db)) = ct_labels db"
  by (simp_all add: refresh_message_bounds_def Let_def update_threads_def)

lemma map_ids_update_threads:
  "(\<And>t. th_id (f t) = th_id t) \<Longrightarrow> map th_id (ct_threads (snd (update_threads p f db))) = map th_id (ct_threads db)"
  by (simp add: update_threads_def)

lemma thread_ids_update_threads:
  assumes "\<And>t. th_id (f t) = th_id t"
  shows "thread_ids (snd (update_threads p f db)) = thread_ids db"
  using map_ids_update_threads [OF assms, of p db] by (metis thread_ids_def set_map)

lemma thread_ids_refresh [simp]: "thread_ids (snd (refresh_message_bounds t now db)) = thread_ids db"
  by (simp add: refresh_message_bounds_def Let_def thread_ids_update_threads)

subsection \<open>Statements on memories\<close>

lemma insert_memory_ok:
  assumes ok: "store_ok F db" and ins: "insert_memory env d db = Inr (i, db')"
  shows "store_ok F db'" and "memory_ids db' = insert i (memory_ids db)" and "i \<notin> memory_ids db"
    and "ct_threads db' = ct_threads db" and "ct_links db' = ct_links db"
proof -
  define row where "row = memory_of_data i (ce_now env) d"
  have fresh: "i \<notin> memory_ids db"
    and new: "mem_external row = None \<or> mem_external row \<notin> mem_external ` set (ct_memories db)"
    and db': "ct_memories db' = ct_memories db @ [row]"
      "ct_threads db' = ct_threads db" "ct_links db' = ct_links db" "ct_labels db' = ct_labels db"
    using ins by (auto simp: insert_memory_def Let_def row_def find_memory_None memory_of_data_def
        list_ex_iff image_iff split: if_splits)
  show "i \<notin> memory_ids db" "ct_threads db' = ct_threads db" "ct_links db' = ct_links db"
    by (rule fresh db')+
  show ids: "memory_ids db' = insert i (memory_ids db)"
    by (simp add: memory_ids_def db' row_def memory_of_data_def)
  have idset: "thread_ids db' = thread_ids db" by (simp add: thread_ids_def db')
  have lk: "linked t m db' = linked t m db" for t m by (simp add: linked_def db')
  have nolinks: "\<not> linked t i db" for t
    using ok fresh by (auto simp: linked_iff store_ok_def references_ok_def)
  have ri: "mem_id row = i" by (simp add: row_def memory_of_data_def)
  have bd: "message_bounds t db' = message_bounds t db" for t
    by (rule message_bounds_cong) (auto simp: lk db' ri nolinks)
  have ext: "e \<in> set (external_ids db) \<longleftrightarrow> Some e \<in> mem_external ` set (ct_memories db)" for e
    by (auto simp: external_ids_def split: option.splits)
  have "keys_ok db'" using store_okD(1)[OF ok] fresh new
    by (auto simp: keys_ok_def db' external_ids_def [of db'] ri memory_ids_def
        external_ids_def [of db, symmetric] ext split: option.splits)
  moreover have "references_ok db'" using store_okD(2)[OF ok]
    by (auto simp: references_ok_def db' ids idset)
  moreover have "bounds_ok t db' \<longleftrightarrow> bounds_ok t db" "anchored t db' \<longleftrightarrow> anchored t db" for t
    by (simp_all add: bounds_ok_def bd anchored_def lk split: option.split)
  ultimately show "store_ok F db'" using ok by (simp add: store_ok_def db')
qed

text \<open>An update that keeps ids, external ids and creation times keeps the invariant.\<close>

lemma update_memories_ok:
  assumes ok: "store_ok F db"
    and keep: "\<And>m. mem_id (f m) = mem_id m \<and> mem_external (f m) = mem_external m \<and> mem_created (f m) = mem_created m"
  shows "store_ok F (snd (update_memories i f db))"
proof -
  let ?db = "snd (update_memories i f db)"
  have mem: "ct_memories ?db = map (\<lambda>m. if mem_id m = i then f m else m) (ct_memories db)"
    and [simp]: "ct_threads ?db = ct_threads db" "ct_links ?db = ct_links db" "ct_labels ?db = ct_labels db"
    by (simp_all add: update_memories_def)
  have maps: "map mem_id (ct_memories ?db) = map mem_id (ct_memories db)"
    "map mem_external (ct_memories ?db) = map mem_external (ct_memories db)"
    using keep by (auto simp: mem)
  have ids: "memory_ids ?db = memory_ids db"
    using maps(1) by (metis memory_ids_def set_map)
  have ext: "external_ids ?db = external_ids db"
    using keep by (simp add: external_ids_def mem comp_def if_distrib cong: if_cong option.case_cong)
  have lk: "linked t m ?db = linked t m db" for t m by (simp add: linked_def)
  have "map mem_created (filter (\<lambda>m. mem_id m = k) (map (\<lambda>m. if mem_id m = i then f m else m) ms))
    = map mem_created (filter (\<lambda>m. mem_id m = k) ms)" for k ms
    by (induction ms) (auto simp: keep)
  then have "linked_times t ?db = linked_times t db" for t
    by (simp add: linked_times_def thread_links_def mem)
  then have bd: "message_bounds t ?db = message_bounds t db" for t
    by (simp add: message_bounds_def)
  have "keys_ok ?db" using store_okD(1)[OF ok] by (simp add: keys_ok_def maps ext)
  moreover have "references_ok ?db" using store_okD(2)[OF ok]
    by (simp add: references_ok_def ids thread_ids_def)
  moreover have "bounds_ok t ?db \<longleftrightarrow> bounds_ok t db" "anchored t ?db \<longleftrightarrow> anchored t db" for t
    by (simp_all add: bounds_ok_def bd anchored_def lk split: option.split)
  ultimately show ?thesis using ok by (simp add: store_ok_def)
qed

lemma memory_ids_update_memories:
  assumes "\<And>m. mem_id (f m) = mem_id m"
  shows "memory_ids (snd (update_memories i f db)) = memory_ids db"
proof -
  have "map mem_id (ct_memories (snd (update_memories i f db))) = map mem_id (ct_memories db)"
    by (simp add: update_memories_def assms)
  then show ?thesis by (metis memory_ids_def set_map)
qed

text \<open>Memories without links can go.\<close>

lemma drop_memories_ok:
  assumes ok: "store_ok F db"
    and free: "\<And>m. m \<in> set (ct_memories db) \<Longrightarrow> \<not> p m \<Longrightarrow> \<not> list_ex (\<lambda>l. ln_memory l = mem_id m) (ct_links db)"
  shows "store_ok F (db\<lparr>ct_memories := filter p (ct_memories db)\<rparr>)"
proof -
  let ?db = "db\<lparr>ct_memories := filter p (ct_memories db)\<rparr>"
  have lk: "linked t m ?db = linked t m db" for t m by (simp add: linked_def)
  have stay: "p m" if "m \<in> set (ct_memories db)" "linked t (mem_id m) db" for m t
    using that free [of m] by (auto simp: linked_def list_ex_iff)
  have bd: "message_bounds t ?db = message_bounds t db" for t
    by (rule message_bounds_cong) (use stay in \<open>auto simp: lk\<close>)
  have sub: "ln_memory l \<in> memory_ids ?db" if "l \<in> set (ct_links db)" for l
  proof -
    from ok that obtain m where m: "m \<in> set (ct_memories db)" "mem_id m = ln_memory l"
      by (auto simp: store_ok_def references_ok_def memory_ids_def)
    with that have "linked (ln_thread l) (mem_id m) db" by (auto simp: linked_iff)
    with m stay show ?thesis by (force simp: memory_ids_def)
  qed
  have ext: "external_ids ?db = concat (map (\<lambda>m. case mem_external m of None \<Rightarrow> [] | Some e \<Rightarrow> [e]) (filter p (ct_memories db)))"
    by (simp add: external_ids_def)
  have "distinct (concat (map (\<lambda>m. case mem_external m of None \<Rightarrow> [] | Some e \<Rightarrow> [e]) ms))
    \<Longrightarrow> distinct (concat (map (\<lambda>m. case mem_external m of None \<Rightarrow> [] | Some e \<Rightarrow> [e]) (filter p ms)))" for ms
    by (induction ms) (auto split: option.splits)
  then have "keys_ok ?db" using store_okD(1)[OF ok] unfolding keys_ok_def ext
    by (simp add: external_ids_def distinct_map_filter)
  moreover have "references_ok ?db" using store_okD(2)[OF ok] sub
    by (auto simp: references_ok_def thread_ids_def)
  moreover have "bounds_ok t ?db \<longleftrightarrow> bounds_ok t db" "anchored t ?db \<longleftrightarrow> anchored t db" for t
    by (simp_all add: bounds_ok_def bd anchored_def lk split: option.split)
  ultimately show ?thesis using ok by (simp add: store_ok_def)
qed

subsection \<open>Statements on the junction\<close>

lemma next_position_above:
  "l \<in> set (ct_links db) \<Longrightarrow> ln_thread l = t \<Longrightarrow> ln_position l < next_position t db"
proof -
  assume l: "l \<in> set (ct_links db)" "ln_thread l = t"
  then have "ln_position l \<in> set (- 1 # map ln_position (thread_links t db))"
    by (simp add: thread_links_def)
  then have "ln_position l \<le> fold max (map ln_position (thread_links t db)) (- 1)"
    unfolding fold_max_Max by (intro Max_ge) auto
  then show ?thesis by (simp add: next_position_def)
qed

lemma put_link_tables [simp]:
  "ct_threads (put_link t m now db) = ct_threads db" "ct_memories (put_link t m now db) = ct_memories db"
  "ct_labels (put_link t m now db) = ct_labels db"
  "thread_ids (put_link t m now db) = thread_ids db" "memory_ids (put_link t m now db) = memory_ids db"
  by (simp_all add: put_link_def thread_ids_def memory_ids_def)

lemma linked_put_link [simp]:
  "linked a b (put_link t m now db) \<longleftrightarrow> linked a b db \<or> a = t \<and> b = m"
  by (auto simp: linked_def put_link_def)

text \<open>A change of the links of one thread.\<close>

lemma links_changed_ok:
  assumes ok: "store_ok F db"
    and tables: "ct_threads db' = ct_threads db" "ct_memories db' = ct_memories db" "ct_labels db' = ct_labels db"
    and uniq: "distinct (map (\<lambda>l. (ln_thread l, ln_memory l)) (ct_links db'))"
      "distinct (map (\<lambda>l. (ln_thread l, ln_position l)) (ct_links db'))"
    and points: "\<And>l. l \<in> set (ct_links db') \<Longrightarrow> ln_thread l \<in> thread_ids db \<and> ln_memory l \<in> memory_ids db"
    and others: "\<And>t m. t \<notin> G \<Longrightarrow> linked t m db' = linked t m db"
    and "F \<subseteq> G"
  shows "store_ok G db'"
proof -
  have ids: "thread_ids db' = thread_ids db" "memory_ids db' = memory_ids db"
    by (simp_all add: thread_ids_def memory_ids_def tables)
  have "keys_ok db'" using store_okD(1)[OF ok] uniq
    by (simp add: keys_ok_def external_ids_def tables)
  moreover have "references_ok db'" using store_okD(2)[OF ok] points
    by (simp add: references_ok_def tables ids)
  moreover have "bounds_ok t db' \<and> anchored t db'" if "t \<in> set (ct_threads db)" "th_id t \<notin> G" for t
  proof -
    have "message_bounds (th_id t) db' = message_bounds (th_id t) db"
      by (rule message_bounds_cong) (simp add: others that(2) tables)
    with that ok \<open>F \<subseteq> G\<close> show ?thesis
      by (auto simp: bounds_ok_def anchored_def others store_ok_def split: option.splits)
  qed
  ultimately show ?thesis by (simp add: store_ok_def tables)
qed

lemma put_link_ok:
  assumes ok: "store_ok F db" and "t \<in> thread_ids db" "m \<in> memory_ids db" "\<not> linked t m db"
  shows "store_ok (insert t F) (put_link t m now db)"
proof (rule links_changed_ok [OF ok])
  have keys: "keys_ok db" by (rule store_okD [OF ok])
  show "distinct (map (\<lambda>l. (ln_thread l, ln_memory l)) (ct_links (put_link t m now db)))"
    using keys assms(4) by (auto simp: put_link_def keys_ok_def linked_iff)
  show "distinct (map (\<lambda>l. (ln_thread l, ln_position l)) (ct_links (put_link t m now db)))"
    using keys next_position_above [of _ db t] by (force simp: put_link_def keys_ok_def)
  show "ln_thread l \<in> thread_ids db \<and> ln_memory l \<in> memory_ids db"
    if "l \<in> set (ct_links (put_link t m now db))" for l
    using that assms(2,3) store_okD(2)[OF ok] by (auto simp: put_link_def references_ok_def)
qed auto

lemma insert_or_ignore_link_ok:
  assumes "store_ok F db" "t \<in> thread_ids db" "m \<in> memory_ids db"
  shows "store_ok (insert t F) (insert_or_ignore_link t m now db)"
  using assms put_link_ok [OF assms] store_ok_mono [of F db "insert t F"]
  by (auto simp: insert_or_ignore_link_def)

lemma insert_or_ignore_link_tables [simp]:
  "ct_threads (insert_or_ignore_link t m now db) = ct_threads db"
  "ct_memories (insert_or_ignore_link t m now db) = ct_memories db"
  "ct_labels (insert_or_ignore_link t m now db) = ct_labels db"
  "thread_ids (insert_or_ignore_link t m now db) = thread_ids db"
  "memory_ids (insert_or_ignore_link t m now db) = memory_ids db"
  by (simp_all add: insert_or_ignore_link_def)

lemma linked_insert_or_ignore_link [simp]:
  "linked a b (insert_or_ignore_link t m now db) \<longleftrightarrow> linked a b db \<or> a = t \<and> b = m"
  by (auto simp: insert_or_ignore_link_def)

lemma insert_link_ok:
  assumes "store_ok F db" "insert_link t m now db = Inr db'" "t \<in> thread_ids db" "m \<in> memory_ids db"
  shows "store_ok (insert t F) db'" and "db' = put_link t m now db" and "\<not> linked t m db"
  using assms put_link_ok [of F db t m now] by (auto simp: insert_link_def split: if_splits)

lemma delete_links_tables [simp]:
  "ct_threads (delete_links_of_memory m db) = ct_threads db"
  "ct_memories (delete_links_of_memory m db) = ct_memories db"
  "ct_labels (delete_links_of_memory m db) = ct_labels db"
  "ct_threads (delete_links_of_thread t db) = ct_threads db"
  "ct_memories (delete_links_of_thread t db) = ct_memories db"
  "ct_labels (delete_links_of_thread t db) = ct_labels db"
  by (simp_all add: delete_links_of_memory_def delete_links_of_thread_def)

lemma linked_delete_links [simp]:
  "linked a b (delete_links_of_memory m db) \<longleftrightarrow> linked a b db \<and> b \<noteq> m"
  "linked a b (delete_links_of_thread t db) \<longleftrightarrow> linked a b db \<and> a \<noteq> t"
  by (auto simp: linked_iff delete_links_of_memory_def delete_links_of_thread_def)

lemma set_threads_of_memory: "t \<in> set (threads_of_memory m db) \<longleftrightarrow> linked t m db"
  by (auto simp: threads_of_memory_def linked_iff)

lemma delete_links_of_memory_ok:
  assumes ok: "store_ok F db"
  shows "store_ok (set (threads_of_memory m db) \<union> F) (delete_links_of_memory m db)"
proof (rule links_changed_ok [OF ok])
  show "ln_thread l \<in> thread_ids db \<and> ln_memory l \<in> memory_ids db"
    if "l \<in> set (ct_links (delete_links_of_memory m db))" for l
    using that store_okD(2)[OF ok] by (auto simp: delete_links_of_memory_def references_ok_def)
qed (use store_okD(1)[OF ok] in \<open>auto simp: delete_links_of_memory_def keys_ok_def distinct_map_filter
    set_threads_of_memory linked_iff\<close>)

lemma delete_links_of_thread_ok:
  assumes ok: "store_ok F db"
  shows "store_ok (insert t F) (delete_links_of_thread t db)"
proof (rule links_changed_ok [OF ok])
  show "ln_thread l \<in> thread_ids db \<and> ln_memory l \<in> memory_ids db"
    if "l \<in> set (ct_links (delete_links_of_thread t db))" for l
    using that store_okD(2)[OF ok] by (auto simp: delete_links_of_thread_def references_ok_def)
qed (use store_okD(1)[OF ok] in \<open>auto simp: delete_links_of_thread_def keys_ok_def distinct_map_filter
    linked_iff\<close>)

subsection \<open>Statements on labels\<close>

lemma labels_changed_ok:
  assumes ok: "store_ok F db"
    and uniq: "distinct (map (\<lambda>r. (lb_thread r, lb_label r)) ls)"
    and points: "\<And>r. r \<in> set ls \<Longrightarrow> lb_thread r \<in> thread_ids db"
  shows "store_ok F (db\<lparr>ct_labels := ls\<rparr>)"
proof -
  have "message_bounds t (db\<lparr>ct_labels := ls\<rparr>) = message_bounds t db"
    "linked t m (db\<lparr>ct_labels := ls\<rparr>) = linked t m db" for t m
    by (simp_all add: message_bounds_def linked_times_def thread_links_def linked_def)
  then have "bounds_ok t (db\<lparr>ct_labels := ls\<rparr>) = bounds_ok t db"
    "anchored t (db\<lparr>ct_labels := ls\<rparr>) = anchored t db" for t
    by (simp_all add: bounds_ok_def anchored_def split: option.split)
  then show ?thesis using assms
    by (simp add: store_ok_def keys_ok_def external_ids_def references_ok_def thread_ids_def memory_ids_def)
qed

lemma labels_ok:
  assumes "store_ok F db"
  shows "distinct (map (\<lambda>r. (lb_thread r, lb_label r)) (ct_labels db))"
    and "r \<in> set (ct_labels db) \<Longrightarrow> lb_thread r \<in> thread_ids db"
  using assms by (auto simp: store_ok_def keys_ok_def references_ok_def)

lemma filter_labels_ok: "store_ok F db \<Longrightarrow> store_ok F (db\<lparr>ct_labels := filter p (ct_labels db)\<rparr>)"
  by (rule labels_changed_ok) (auto simp: distinct_map_filter labels_ok)

lemma add_label_ok: "store_ok F db \<Longrightarrow> t \<in> thread_ids db \<Longrightarrow> store_ok F (add_label t now label db)"
  unfolding add_label_def
  by (simp, intro impI, rule labels_changed_ok) (auto simp: has_label_def list_ex_iff labels_ok)

lemma add_label_tables [simp]:
  "ct_threads (add_label t now label db) = ct_threads db" "ct_memories (add_label t now label db) = ct_memories db"
  "ct_links (add_label t now label db) = ct_links db" "thread_ids (add_label t now label db) = thread_ids db"
  by (simp_all add: add_label_def thread_ids_def)

lemma add_each_label_ok:
  "store_ok F db \<Longrightarrow> t \<in> thread_ids db \<Longrightarrow> store_ok F (add_each_label t now ls db)"
  by (induction ls arbitrary: db) (simp_all add: add_label_ok)

lemma add_each_label_tables [simp]:
  "ct_threads (add_each_label t now ls db) = ct_threads db" "ct_memories (add_each_label t now ls db) = ct_memories db"
  "ct_links (add_each_label t now ls db) = ct_links db"
  by (induction ls arbitrary: db) simp_all

lemma remove_label_rows_ok: "store_ok F db \<Longrightarrow> store_ok F (remove_label_rows t ls db)"
  by (simp add: remove_label_rows_def filter_labels_ok)

lemma delete_labels_of_thread_ok: "store_ok F db \<Longrightarrow> store_ok F (delete_labels_of_thread t db)"
  by (simp add: delete_labels_of_thread_def filter_labels_ok)

end
