(* ===== verification/Thread_Content.thy ===== *)
theory Thread_Content
  imports Content_Invariant
begin

text \<open>
  The operations on threads and memories of \<open>app/src/app/thread.rs\<close> and \<open>app/src/app/memory.rs\<close>
  with the rules of \<open>app/src/app/memory_kind.rs\<close> and the group-summary guards of
  \<open>app/src/app/thread_group/memory_relation.rs\<close>. One definition per transaction: its result and
  the tables after the commit, or the error, on which the transaction is rolled back. Caches, the
  embedding dispatch and the synchronization of the vector index run after the commit and are
  not part of the state. A transaction reads the clock once.
\<close>

subsection \<open>Text\<close>

text \<open>\<open>str::trim\<close>: the UTF-8 encodings of the characters with the property White\_Space.\<close>

definition blank_codes :: "string list" where
  "blank_codes =
     map (\<lambda>n. [char_of n]) [9, 10, 11, 12, 13, 32 :: nat]
     @ map (map char_of) ([[194, 133], [194, 160], [225, 154, 128]]
         @ map (\<lambda>n. [226, 128, n]) [128, 129, 130, 131, 132, 133, 134, 135, 136, 137, 138, 168, 169, 175]
         @ [[226, 129, 159], [227, 128, 128 :: nat]])"

definition strip_blank :: "string list \<Rightarrow> string \<Rightarrow> string option" where
  "strip_blank codes s =
     (case filter (\<lambda>c. take (length c) s = c) codes of [] \<Rightarrow> None | c # _ \<Rightarrow> Some (drop (length c) s))"

text \<open>Every code is nonempty, so the text gets shorter.\<close>

function trim_with :: "string list \<Rightarrow> string \<Rightarrow> string" where
  "trim_with codes s =
     (case strip_blank codes s of
        None \<Rightarrow> s
      | Some rest \<Rightarrow> if length rest < length s then trim_with codes rest else s)"
  by pat_completeness auto
termination by (relation "measure (\<lambda>(_, s). length s)") auto

declare trim_with.simps [simp del]

definition trim :: "string \<Rightarrow> string" where
  "trim s = rev (trim_with (map rev blank_codes) (rev (trim_with blank_codes s)))"

fun validate_labels_from :: "string list \<Rightarrow> string list \<Rightarrow> content_error + string list" where
  "validate_labels_from seen [] = Inr []"
| "validate_labels_from seen (label # labels) =
     (let trimmed = trim label in
      if trimmed = [] then Inl (Bailed ''Label must not be empty'')
      else if 512 < length trimmed then Inl (Bailed ''Label must not exceed 512 characters'')
      else if trimmed \<in> set seen then validate_labels_from seen labels
      else and_then (validate_labels_from (trimmed # seen) labels) (\<lambda>rest. Inr (trimmed # rest)))"

definition validate_labels :: "string list \<Rightarrow> content_error + string list" where
  "validate_labels = validate_labels_from []"

definition validate_metadata :: "content_env \<Rightarrow> string option \<Rightarrow> content_error + unit" where
  "validate_metadata env metadata =
     (case metadata of
        None \<Rightarrow> Inr ()
      | Some raw \<Rightarrow>
          if raw = [] then Inl (Invalid_Argument ''thread.metadata must be a JSON document'')
          else if \<not> ce_json_ok env raw then Inl (Invalid_Argument ''thread.metadata is not valid JSON'')
          else Inr ())"

subsection \<open>Kinds\<close>

definition kind_unspecified :: int where "kind_unspecified = 0"
definition kind_raw :: int where "kind_raw = 1"
definition kind_derived_summary :: int where "kind_derived_summary = 8"
definition role_system :: int where "role_system = 3"

lemmas kind_values = kind_unspecified_def kind_raw_def kind_derived_summary_def role_system_def

definition validate_explicit_kind :: "int \<Rightarrow> content_error + unit" where
  "validate_explicit_kind kind =
     (if kind_raw \<le> kind \<and> kind \<le> kind_derived_summary then Inr ()
      else Inl (Invalid_Argument ''memory_kind must be one of 1..=8''))"

definition resolve_created_kind :: "content_env \<Rightarrow> int \<Rightarrow> content_error + int" where
  "resolve_created_kind env kind =
     (if kind \<noteq> kind_unspecified then and_then (validate_explicit_kind kind) (\<lambda>_. Inr kind)
      else if \<not> ce_kind_compat env then Inl (Invalid_Argument ''memory_kind is required'')
      else Inr kind_raw)"

definition normalize_memory_for_create :: "content_env \<Rightarrow> memory_data \<Rightarrow> content_error + memory_data" where
  "normalize_memory_for_create env d =
     and_then (resolve_created_kind env (md_kind d)) (\<lambda>k. Inr (d\<lparr>md_kind := k\<rparr>))"

definition normalize_thread_for_create :: "content_env \<Rightarrow> thread_data \<Rightarrow> content_error + thread_data" where
  "normalize_thread_for_create env d =
     and_then (resolve_created_kind env (td_kind d)) (\<lambda>k. Inr (d\<lparr>td_kind := k\<rparr>))"

definition effective_kind :: "int \<Rightarrow> int" where
  "effective_kind kind = (if kind = kind_unspecified then kind_raw else kind)"

definition resolve_preserved_kind :: "int \<Rightarrow> int \<Rightarrow> content_error + int" where
  "resolve_preserved_kind requested stored =
     (if requested \<noteq> kind_unspecified then
        and_then (validate_explicit_kind requested) (\<lambda>_.
          if requested \<noteq> effective_kind stored then Inl (Invalid_Argument ''memory_kind is immutable'')
          else Inr (effective_kind stored))
      else Inr (effective_kind stored))"

definition preserve_memory_kind :: "memory_data \<Rightarrow> int \<Rightarrow> content_error + memory_data" where
  "preserve_memory_kind d stored = and_then (resolve_preserved_kind (md_kind d) stored) (\<lambda>k. Inr (d\<lparr>md_kind := k\<rparr>))"

definition preserve_thread_kind :: "thread_data \<Rightarrow> int \<Rightarrow> content_error + thread_data" where
  "preserve_thread_kind d stored = and_then (resolve_preserved_kind (td_kind d) stored) (\<lambda>k. Inr (d\<lparr>td_kind := k\<rparr>))"

definition validate_kind_matches :: "int \<Rightarrow> int \<Rightarrow> content_error + unit" where
  "validate_kind_matches thread_kind memory_kind =
     (if effective_kind memory_kind \<noteq> effective_kind thread_kind
      then Inl (Invalid_Argument ''memory_kind does not match thread memory_kind'') else Inr ())"

definition validate_default_system_memory ::
  "int option \<Rightarrow> int \<Rightarrow> 'a content_db_scheme \<Rightarrow> content_error + int option" where
  "validate_default_system_memory default_id thread_kind db =
     (case default_id of
        None \<Rightarrow> Inr None
      | Some i \<Rightarrow>
          if i = 0 then Inr None
          else (case find_memories [i] db of
              [] \<Rightarrow> Inl (Not_Found ''default_system_memory_id refers to a memory that does not exist'')
            | m # _ \<Rightarrow>
                if mem_role m \<noteq> role_system
                then Inl (Invalid_Argument ''default_system_memory_id: target memory must be ROLE_SYSTEM'')
                else and_then (validate_kind_matches thread_kind (memory_kind_value m)) (\<lambda>_. Inr (Some i))))"

subsection \<open>Group summaries\<close>

definition summary_prefix :: string where "summary_prefix = ''thread-group-summary:''"

definition thread_group_summary_external_id :: "int \<Rightarrow> string" where
  "thread_group_summary_external_id group_id = summary_prefix @ show_int group_id"

definition ensure_thread_group_writes :: "content_env \<Rightarrow> content_error + unit" where
  "ensure_thread_group_writes env =
     (if ce_group_writes env then Inr () else Inl (Bailed ''ThreadGroup writes are disabled''))"

definition validate_legacy_summary_kind :: "string option \<Rightarrow> int \<Rightarrow> content_error + unit" where
  "validate_legacy_summary_kind external_id kind =
     (if (case external_id of None \<Rightarrow> False | Some e \<Rightarrow> starts_with e summary_prefix)
         \<and> kind \<noteq> kind_derived_summary
      then Inl (Bailed ''thread group summary external ID requires derived summary memory kind'') else Inr ())"

definition validate_legacy_summary_target ::
  "content_env \<Rightarrow> string option \<Rightarrow> int \<Rightarrow> 'a content_db_scheme \<Rightarrow> content_error + unit" where
  "validate_legacy_summary_target env external_id kind db =
     (case (case external_id of None \<Rightarrow> None | Some e \<Rightarrow> strip_prefix summary_prefix e) of
        None \<Rightarrow> Inr ()
      | Some raw \<Rightarrow>
          (case parse_i64 raw of
             None \<Rightarrow> Inl (Bailed ''invalid legacy thread group summary external ID'')
           | Some group_id \<Rightarrow>
               if \<not> (0 < group_id \<and> show_int group_id = raw)
               then Inl (Bailed ''invalid legacy thread group summary external ID'')
               else and_then (validate_legacy_summary_kind external_id kind) (\<lambda>_.
                 and_then (ensure_thread_group_writes env) (\<lambda>_.
                   if find_group group_id db = None then Inl (Bailed ''thread group not found'')
                   else Inr ()))))"

datatype delete_policy = Retain | Delete_With_Group

definition policy_text :: "delete_policy \<Rightarrow> string" where
  "policy_text p = (case p of Retain \<Rightarrow> ''retain'' | Delete_With_Group \<Rightarrow> ''delete'')"

definition validate_delete_target ::
  "int \<Rightarrow> int \<Rightarrow> string \<Rightarrow> 'a content_db_scheme \<Rightarrow> content_error + unit" where
  "validate_delete_target group_id memory_id purpose db =
     (if purpose \<noteq> ''summary'' then Inl (Bailed ''unsupported delete relationship purpose'')
      else case find_memories [memory_id] db of
        [] \<Rightarrow> Inl (Bailed ''memory not found'')
      | m # _ \<Rightarrow>
          if mem_external m \<noteq> Some (thread_group_summary_external_id group_id)
             \<or> memory_kind_value m \<noteq> kind_derived_summary
          then Inl (Bailed ''memory has no verified group summary identity'')
          else (case threads_of_memory memory_id db of
              [thread_id] \<Rightarrow>
                if threads_with_default memory_id db \<noteq> [] then Inl (Bailed ''memory is referenced as a Thread default'')
                else if find_referring memory_id db \<noteq> [] then Inl (Bailed ''memory is referenced as a parent'')
                else (case find_thread thread_id db of
                    None \<Rightarrow> Inl (Bailed ''storage Thread not found'')
                  | Some t \<Rightarrow>
                      if mem_user m = 0 \<or> mem_user m \<noteq> th_user t then Inl (Bailed ''memory is owned by another user'')
                      else if ''thread_group_summary'' \<in> set (labels_of_thread thread_id db)
                              \<and> (''group_'' @ show_int group_id) \<in> set (labels_of_thread thread_id db)
                      then Inr () else Inl (Bailed ''memory has no dedicated group storage Thread''))
            | _ \<Rightarrow> Inl (Bailed ''memory does not have a dedicated storage Thread'')))"

subsection \<open>Threads\<close>

text \<open>A default system memory becomes a member of the thread, and its bounds are recomputed.\<close>

definition anchor_default ::
  "content_env \<Rightarrow> int \<Rightarrow> int option \<Rightarrow> 'a content_db_scheme \<Rightarrow> bool \<times> 'a content_db_scheme" where
  "anchor_default env t default_id db =
     (case default_id of
        None \<Rightarrow> (False, db)
      | Some m \<Rightarrow> refresh_message_bounds t (ce_now env) (insert_or_ignore_link t m (ce_now env) db))"

definition create_thread ::
  "content_env \<Rightarrow> thread_data \<Rightarrow> 'a content_db_scheme \<Rightarrow> content_error + int \<times> 'a content_db_scheme" where
  "create_thread env requested db =
     and_then (normalize_thread_for_create env requested) (\<lambda>d.
     and_then (validate_metadata env (td_metadata d)) (\<lambda>_.
     and_then (validate_default_system_memory (td_default d) (td_kind d) db) (\<lambda>default_id.
     and_then (insert_thread env (d\<lparr>td_default := default_id\<rparr>) db) (\<lambda>(i, db1).
     and_then (of_group (assign_key (ce_group env) i (user_column (td_user d))
                 (ce_random_key env (db_drawn db1)) ''creation_uuid'' (ce_now env) db1)) (\<lambda>db2.
       let db3 = snd (anchor_default env i default_id db2)
       in if td_labels d = [] then Inr (i, db3)
          else and_then (validate_labels (td_labels d)) (\<lambda>ls.
            Inr (i, add_each_label i (ce_now env) ls db3)))))))"

definition thread_changed :: "thread_row \<Rightarrow> thread_data \<Rightarrow> bool" where
  "thread_changed t d \<longleftrightarrow>
     th_default t \<noteq> td_default d \<or> th_description t \<noteq> td_description d \<or> th_channel t \<noteq> td_channel d
     \<or> th_embedding t \<noteq> td_embedding d \<or> th_embedding_dim t \<noteq> td_embedding_dim d
     \<or> th_metadata t \<noteq> td_metadata d \<or> thread_kind_value t \<noteq> td_kind d"

text \<open>The labels of the request replace those of the thread; a label in both keeps its row.\<close>

definition replace_labels ::
  "int \<Rightarrow> int \<Rightarrow> string list \<Rightarrow> string list \<Rightarrow> 'a content_db_scheme \<Rightarrow> 'a content_db_scheme" where
  "replace_labels t now current desired db =
     (if set current = set desired then db
      else add_each_label t now (filter (\<lambda>l. l \<notin> set current) desired)
             (remove_label_rows t (filter (\<lambda>l. l \<notin> set desired) current) db))"

definition update_thread ::
  "content_env \<Rightarrow> int \<Rightarrow> thread_data option \<Rightarrow> 'a content_db_scheme \<Rightarrow> content_error + bool \<times> 'a content_db_scheme" where
  "update_thread env i request db =
     (case request of
        None \<Rightarrow> Inr (False, db)
      | Some w \<Rightarrow>
          and_then (validate_metadata env (td_metadata w)) (\<lambda>_.
          case find_thread i db of
            None \<Rightarrow> Inl (Not_Found ''thread not found'')
          | Some existing \<Rightarrow>
              and_then (preserve_thread_kind w (thread_kind_value existing)) (\<lambda>d.
              if user_column (td_user w) \<noteq> th_user existing
              then Inl (Invalid_Argument ''thread user_id is immutable once created'')
              else
              and_then (validate_default_system_memory (td_default w) (td_kind d) db) (\<lambda>default_id.
                let d = d\<lparr>td_default := default_id\<rparr>;
                    db1 = (if thread_changed existing d then snd (update_thread_row (ce_now env) i d db) else db)
                in and_then (validate_labels (td_labels w)) (\<lambda>desired.
                     Inr (True, replace_labels i (ce_now env) (labels_of_thread i db1) desired
                       (snd (anchor_default env i default_id db1))))))))"

definition add_labels_core ::
  "int \<Rightarrow> string list \<Rightarrow> int \<Rightarrow> 'a content_db_scheme \<Rightarrow> content_error + 'a content_db_scheme" where
  "add_labels_core t labels now db =
     (case find_thread t db of
        None \<Rightarrow> Inl (Not_Found ''thread not found'')
      | Some _ \<Rightarrow> Inr (add_each_label t now labels db))"

text \<open>\<open>add_labels\<close> and \<open>add_labels_only\<close> run the same transaction.\<close>

definition add_labels ::
  "content_env \<Rightarrow> int \<Rightarrow> string list \<Rightarrow> 'a content_db_scheme \<Rightarrow> content_error + 'a content_db_scheme" where
  "add_labels env t labels db =
     (if labels = [] then Inr db
      else and_then (validate_labels labels) (\<lambda>ls. add_labels_core t ls (ce_now env) db))"

definition remove_labels :: "int \<Rightarrow> string list \<Rightarrow> 'a content_db_scheme \<Rightarrow> content_error + 'a content_db_scheme" where
  "remove_labels t labels db =
     (if labels = [] then Inr db
      else case find_thread t db of
        None \<Rightarrow> Inl (Not_Found ''thread not found'')
      | Some _ \<Rightarrow> Inr (remove_label_rows t (map trim labels) db))"

subsection \<open>Adding memories\<close>

definition link_media_of ::
  "content_env \<Rightarrow> int option \<Rightarrow> 'a content_db_scheme \<Rightarrow> content_error + 'a content_db_scheme" where
  "link_media_of env media db =
     (if ce_media_wired env
      then and_then (of_media (link_media (ce_now env) media (ct_media db))) (\<lambda>rows. Inr (db\<lparr>ct_media := rows\<rparr>))
      else Inr db)"

text \<open>Parents that exist become members of the thread, in their order.\<close>

fun attach_parents ::
  "int \<Rightarrow> int \<Rightarrow> (int \<Rightarrow> bool) \<Rightarrow> int list \<Rightarrow> 'a content_db_scheme \<Rightarrow> 'a content_db_scheme" where
  "attach_parents t now present [] db = db"
| "attach_parents t now present (p # ps) db =
     attach_parents t now present ps (if present p then insert_or_ignore_link t p now db else db)"

fun validate_parent_kinds :: "int \<Rightarrow> memory_row list \<Rightarrow> content_error + unit" where
  "validate_parent_kinds kind [] = Inr ()"
| "validate_parent_kinds kind (m # ms) =
     and_then (validate_kind_matches kind (memory_kind_value m)) (\<lambda>_. validate_parent_kinds kind ms)"

definition system_parents :: "memory_row list \<Rightarrow> nat" where
  "system_parents ms = length (filter (\<lambda>m. mem_role m = role_system) ms)"

definition inject_default ::
  "bool \<Rightarrow> thread_row \<Rightarrow> memory_row list \<Rightarrow> 'a content_db_scheme \<Rightarrow> content_error + int option" where
  "inject_default skip t parents db =
     (if \<not> skip \<and> system_parents parents = 0
      then validate_default_system_memory (th_default t) (thread_kind_value t) db else Inr None)"

definition add_memory_core ::
  "content_env \<Rightarrow> int \<Rightarrow> memory_data \<Rightarrow> bool \<Rightarrow> 'a content_db_scheme
    \<Rightarrow> content_error + (int \<times> memory_data) \<times> 'a content_db_scheme" where
  "add_memory_core env t requested skip db =
     (case find_thread t db of
        None \<Rightarrow> Inl (Not_Found ''thread not found'')
      | Some thread \<Rightarrow>
          and_then (normalize_memory_for_create env requested) (\<lambda>d.
          and_then (validate_kind_matches (thread_kind_value thread) (md_kind d)) (\<lambda>_.
          let parents = find_memories (md_parents d) db in
          and_then (validate_parent_kinds (thread_kind_value thread) parents) (\<lambda>_.
          if 1 < system_parents parents
          then Inl (Runtime_Error ''parent_ids contains several ROLE_SYSTEM memories; at most 1 is allowed'')
          else
          and_then (inject_default skip thread parents db) (\<lambda>default_id.
          let d = (case default_id of None \<Rightarrow> d | Some i \<Rightarrow> d\<lparr>md_parents := i # md_parents d\<rparr>);
              present = (\<lambda>p. p \<in> set (map mem_id parents) \<or> default_id = Some p);
              db1 = attach_parents t (ce_now env) present (md_parents d) db
          in and_then (link_media_of env (md_media d) db1) (\<lambda>db2.
             and_then (insert_memory env d db2) (\<lambda>(i, db3).
             and_then (insert_link t i (ce_now env) db3) (\<lambda>db4. Inr ((i, d), db4)))))))))"

definition check_group_relation ::
  "content_env \<Rightarrow> memory_data \<Rightarrow> (int \<times> string \<times> delete_policy) option \<Rightarrow> 'a content_db_scheme \<Rightarrow> content_error + unit" where
  "check_group_relation env d relation db =
     (case relation of
        None \<Rightarrow> Inr ()
      | Some (group_id, purpose, _) \<Rightarrow>
          and_then (ensure_thread_group_writes env) (\<lambda>_.
          if purpose = [] then Inl (Bailed ''group memory relationship purpose must not be empty'')
          else if (case md_external d of None \<Rightarrow> False
                    | Some e \<Rightarrow> starts_with e summary_prefix \<and> e \<noteq> thread_group_summary_external_id group_id)
          then Inl (Bailed ''group memory relationship does not match legacy external ID'')
          else if find_group group_id db = None then Inl (Bailed ''thread group not found'')
          else Inr ()))"

definition store_group_relation ::
  "content_env \<Rightarrow> int \<Rightarrow> (int \<times> string \<times> delete_policy) option \<Rightarrow> 'a content_db_scheme
    \<Rightarrow> content_error + 'a content_db_scheme" where
  "store_group_relation env memory_id relation db =
     (case relation of
        None \<Rightarrow> Inr db
      | Some (group_id, purpose, policy) \<Rightarrow>
          and_then (if policy = Delete_With_Group then validate_delete_target group_id memory_id purpose db else Inr ()) (\<lambda>_.
            insert_group_memory group_id memory_id purpose (policy_text policy) (ce_now env) db))"

text \<open>\<open>add_memory\<close>, \<open>add_memory_only\<close> and \<open>add_memory_with_group_relation\<close>.\<close>

definition add_memory ::
  "content_env \<Rightarrow> int \<Rightarrow> memory_data \<Rightarrow> (int \<times> string \<times> delete_policy) option \<Rightarrow> 'a content_db_scheme
    \<Rightarrow> content_error + int \<times> 'a content_db_scheme" where
  "add_memory env t d relation db =
     and_then (check_group_relation env d relation db) (\<lambda>_.
     and_then (validate_legacy_summary_target env (md_external d) (md_kind d) db) (\<lambda>_.
     and_then (add_memory_core env t d False db) (\<lambda>((i, _), db1).
     and_then (store_group_relation env i relation db1) (\<lambda>db2.
       Inr (i, snd (refresh_message_bounds t (ce_now env) db2))))))"

datatype parents_outcome = Rewired | Skipped_Shared | Skipped_Has_Parents

definition update_memory_parents ::
  "content_env \<Rightarrow> int \<Rightarrow> int \<Rightarrow> int list \<Rightarrow> bool \<Rightarrow> bool \<Rightarrow> 'a content_db_scheme
    \<Rightarrow> content_error + parents_outcome \<times> 'a content_db_scheme" where
  "update_memory_parents env t m parents force_shared force_non_empty db =
     (if find_thread t db = None then Inl (Not_Found ''thread not found'')
      else if \<not> linked t m db then Inl (Not_Found ''memory is not attached to thread'')
      else case find_memories [m] db of
        [] \<Rightarrow> Inl (Not_Found ''memory not found'')
      | row # _ \<Rightarrow>
          if \<not> force_shared \<and> count_refs m db \<noteq> 1 then Inr (Skipped_Shared, db)
          else if \<not> force_non_empty \<and> mem_parents row \<noteq> [] then Inr (Skipped_Has_Parents, db)
          else
            let present = set (map mem_id (find_memories parents db));
                validated = filter (\<lambda>p. p \<in> present) parents;
                db1 = snd (update_parent_ids m validated db);
                db2 = attach_parents t (ce_now env) (\<lambda>_. True) validated db1
            in Inr (Rewired, snd (refresh_message_bounds t (ce_now env) db2)))"

subsection \<open>Memories\<close>

definition create_memory ::
  "content_env \<Rightarrow> memory_data \<Rightarrow> 'a content_db_scheme \<Rightarrow> content_error + int \<times> 'a content_db_scheme" where
  "create_memory env requested db =
     and_then (normalize_memory_for_create env requested) (\<lambda>d.
     and_then (validate_legacy_summary_target env (md_external d) (md_kind d) db) (\<lambda>_.
     and_then (link_media_of env (md_media d) db) (\<lambda>db1. insert_memory env d db1)))"

text \<open>The storage deletions that follow the commit are returned.\<close>

definition update_memory ::
  "content_env \<Rightarrow> int \<Rightarrow> memory_data option \<Rightarrow> 'a content_db_scheme
    \<Rightarrow> content_error + (bool \<times> media_job list) \<times> 'a content_db_scheme" where
  "update_memory env i request db =
     (case request of
        None \<Rightarrow> Inr ((False, []), db)
      | Some requested \<Rightarrow>
          (case find_memories [i] db of
             [] \<Rightarrow> Inr ((False, []), db)
           | stored # _ \<Rightarrow>
               if user_column (md_user requested) \<noteq> mem_user stored
               then Inl (Invalid_Argument ''memory user_id is immutable once created'')
               else
               and_then (preserve_memory_kind requested (memory_kind_value stored)) (\<lambda>d.
               and_then (validate_legacy_summary_target env (md_external d) (md_kind d) db) (\<lambda>_.
               and_then (if ce_media_wired env
                         then of_media (swap_media (ce_now env) (mem_media stored) (md_media d) (ct_media db))
                         else Inr (ct_media db, None)) (\<lambda>(rows, job).
                 Inr ((True, delete_jobs job),
                      snd (update_memory_row (ce_now env) i d (db\<lparr>ct_media := rows\<rparr>))))))))"

definition unlink_media_of ::
  "content_env \<Rightarrow> int option \<Rightarrow> 'a content_db_scheme \<Rightarrow> content_error + media_job list \<times> 'a content_db_scheme" where
  "unlink_media_of env media db =
     (if ce_media_wired env
      then and_then (of_media (unlink_media (ce_now env) media (ct_media db)))
             (\<lambda>(rows, job). Inr (delete_jobs job, db\<lparr>ct_media := rows\<rparr>))
      else Inr ([], db))"

definition delete_memory ::
  "content_env \<Rightarrow> int \<Rightarrow> 'a content_db_scheme \<Rightarrow> content_error + (bool \<times> media_job list) \<times> 'a content_db_scheme" where
  "delete_memory env i db =
     (let affected = remdups_adj (sort (threads_with_default i db @ threads_of_memory i db)) in
      case find_memories [i] db of
        [] \<Rightarrow> Inr ((False, []), delete_group_memories_of_memory i db)
      | row # _ \<Rightarrow>
          let db1 = delete_links_of_memory i (delete_ratings_of_memory i (clear_default i db));
              db2 = snd (refresh_message_bounds_all affected (ce_now env) db1)
          in and_then (unlink_media_of env (mem_media row) db2) (\<lambda>(jobs, db3).
               case delete_memory_row i (delete_group_memories_of_memory i db3) of
                 (deleted, db4) \<Rightarrow> Inr ((deleted, jobs), db4)))"

datatype caption_outcome = Empty_Caption | Memory_Not_Found | Media_Changed | Body_Present | Caption_Applied

definition caption_outcome_of :: "int \<Rightarrow> memory_row list \<Rightarrow> caption_outcome" where
  "caption_outcome_of media locked =
     (case locked of
        [] \<Rightarrow> Memory_Not_Found
      | m # _ \<Rightarrow> if mem_media m \<noteq> Some media then Media_Changed
                 else if trim (mem_content m) \<noteq> [] then Body_Present else Caption_Applied)"

definition write_back_caption ::
  "content_env \<Rightarrow> int \<Rightarrow> int \<Rightarrow> string \<Rightarrow> 'a content_db_scheme \<Rightarrow> caption_outcome \<times> 'a content_db_scheme" where
  "write_back_caption env i media caption db =
     (if trim caption = [] then (Empty_Caption, db)
      else let outcome = caption_outcome_of media (find_memories [i] db)
           in (outcome, if outcome = Caption_Applied then snd (update_content_only (ce_now env) i caption db) else db))"

text \<open>The deletion of a thread inside a transaction of the caller.\<close>

record delete_outcome =
  do_deleted :: bool
  do_exclusive :: "int list"
  do_all_memories :: "int list"
  do_post_delete :: "media_job list"

fun drop_memory_traces :: "int list \<Rightarrow> 'a content_db_scheme \<Rightarrow> 'a content_db_scheme" where
  "drop_memory_traces [] db = db"
| "drop_memory_traces (m # ms) db =
     drop_memory_traces ms (delete_ratings_of_memory m (delete_group_memories_of_memory m db))"

text \<open>\<open>media\<close> maps the locked memories to their media objects.\<close>

fun unlink_each ::
  "content_env \<Rightarrow> (int \<Rightarrow> int option) \<Rightarrow> int list \<Rightarrow> 'a content_db_scheme
    \<Rightarrow> content_error + media_job list \<times> 'a content_db_scheme" where
  "unlink_each env media [] db = Inr ([], db)"
| "unlink_each env media (m # ms) db =
     and_then (unlink_media_of env (media m) db) (\<lambda>(jobs, db1).
     and_then (unlink_each env media ms db1) (\<lambda>(rest, db2). Inr (jobs @ rest, db2)))"

definition media_of_memories :: "memory_row list \<Rightarrow> int \<Rightarrow> int option" where
  "media_of_memories ms i = (case find (\<lambda>m. mem_id m = i) ms of None \<Rightarrow> None | Some m \<Rightarrow> mem_media m)"

definition delete_thread_in_tx ::
  "content_env \<Rightarrow> int \<Rightarrow> 'a content_db_scheme \<Rightarrow> content_error + delete_outcome \<times> 'a content_db_scheme" where
  "delete_thread_in_tx env t db =
     (let candidates = memory_ids_of_thread t db;
          media = media_of_memories (find_memories candidates db);
          (exclusive, db1) = delete_orphaned_by_ids candidates (delete_links_of_thread t db);
          db2 = drop_memory_traces exclusive db1
      in and_then (unlink_each env media exclusive db2) (\<lambda>(jobs, db3).
           case delete_thread_row t (delete_labels_of_thread t db3) of
             (deleted, db4) \<Rightarrow>
               Inr (\<lparr>do_deleted = deleted, do_exclusive = exclusive, do_all_memories = candidates,
                     do_post_delete = jobs\<rparr>,
                    detach_thread_relations t (ce_now env) db4)))"

definition delete_thread ::
  "content_env \<Rightarrow> int \<Rightarrow> 'a content_db_scheme \<Rightarrow> content_error + delete_outcome \<times> 'a content_db_scheme" where
  "delete_thread env t db = delete_thread_in_tx env t db"

subsection \<open>Each step keeps the invariant\<close>

lemma anchor_default_ok:
  assumes ok: "store_ok F db" and t: "t \<in> thread_ids db"
    and def: "\<And>r. r \<in> set (ct_threads db) \<Longrightarrow> th_id r = t \<Longrightarrow> th_default r = d"
    and m: "\<And>m. d = Some m \<Longrightarrow> m \<in> memory_ids db" and F: "F \<subseteq> (if d = None then {} else {t})"
  shows "content_ok (snd (anchor_default env t d db))"
proof (cases d)
  case None
  with ok F show ?thesis by (simp add: anchor_default_def)
next
  case (Some k)
  let ?db = "insert_or_ignore_link t k (ce_now env) db"
  have "store_ok (insert t F) ?db" by (rule insert_or_ignore_link_ok [OF ok t m [OF Some]])
  then have "store_ok (insert t F - {t}) (snd (refresh_message_bounds t (ce_now env) ?db))"
    by (rule refresh_message_bounds_ok) (use def Some in \<open>auto simp: anchored_def\<close>)
  moreover have "insert t F - {t} = {}" using F Some by auto
  ultimately show ?thesis by (simp add: anchor_default_def Some)
qed

lemma anchor_default_tables [simp]:
  "thread_ids (snd (anchor_default env t d db)) = thread_ids db"
  "ct_labels (snd (anchor_default env t d db)) = ct_labels db"
  by (simp_all add: anchor_default_def split: option.split)

lemma validate_default_present:
  "validate_default_system_memory d k db = Inr (Some m) \<Longrightarrow> m \<in> memory_ids db"
proof -
  assume "validate_default_system_memory d k db = Inr (Some m)"
  then obtain row rest where "find_memories [m] db = row # rest"
    by (auto simp: validate_default_system_memory_def split: option.splits if_splits list.splits
        elim!: and_then_InrE)
  then have "row \<in> set (find_memories [m] db)" by simp
  then show ?thesis by (auto simp: set_find_memories memory_ids_def)
qed

lemma same_content_assign_key: "assign_key e t u k og n db = Inr db' \<Longrightarrow> same_content db db'"
  by (auto simp: assign_key_def same_content_def split: if_splits)

lemma thread_of_data_simps [simp]:
  "th_id (thread_of_data i now d) = i" "th_default (thread_of_data i now d) = td_default d"
  by (simp_all add: thread_of_data_def)

lemma update_thread_row_default:
  assumes "r \<in> set (ct_threads (snd (update_thread_row now i d db)))" "th_id r = i"
  shows "th_default r = td_default d"
proof -
  define f where "f = (\<lambda>t. t\<lparr>th_default := td_default d, th_user := user_column (td_user d),
      th_description := td_description d, th_channel := td_channel d, th_embedding := td_embedding d,
      th_embedding_dim := td_embedding_dim d, th_updated := now, th_metadata := td_metadata d,
      th_kind := Some (td_kind d)\<rparr> :: thread_row)"
  have "set (ct_threads (snd (update_thread_row now i d db)))
      = (\<lambda>t. if th_id t = i then f t else t) ` set (ct_threads db)"
    by (simp add: update_thread_row_def update_threads_def f_def)
  with assms(1) obtain t where "r = (if th_id t = i then f t else t)" by blast
  with assms(2) show ?thesis by (simp add: f_def split: if_splits)
qed

lemma create_thread_rows_ok:
  assumes ok: "content_ok db"
    and def: "validate_default_system_memory (td_default d) (td_kind d) db = Inr default_id"
    and ins: "insert_thread env (d\<lparr>td_default := default_id\<rparr>) db = Inr (i, db1)"
    and key: "assign_key e i u k og n db1 = Inr db2"
  shows "content_ok (snd (anchor_default env i default_id db2))"
    and "i \<in> thread_ids (snd (anchor_default env i default_id db2))"
proof -
  let ?F = "if default_id = None then {} else {i}"
  have ok1: "store_ok ?F db1" and here: "i \<in> thread_ids db1"
    and fresh: "i \<notin> thread_ids db"
    using insert_thread_ok [OF store_ok_mono [OF ok] ins, of ?F] by auto
  have same: "same_content db1 db2" by (rule same_content_assign_key [OF key])
  have ok2: "store_ok ?F db2" by (rule store_ok_same [OF same ok1])
  have t2: "ct_threads db2 = ct_threads db @ [thread_of_data i (ce_now env) (d\<lparr>td_default := default_id\<rparr>)]"
    and m2: "memory_ids db2 = memory_ids db"
    using ins same by (auto simp: insert_thread_def Let_def same_content_def memory_ids_def split: if_splits)
  have "thread_ids db2 = thread_ids db1" using same by (simp add: thread_ids_def same_content_def)
  then show i: "i \<in> thread_ids (snd (anchor_default env i default_id db2))"
    using here by simp
  show "content_ok (snd (anchor_default env i default_id db2))"
  proof (rule anchor_default_ok [OF ok2])
    show "i \<in> thread_ids db2" using i by simp
    show "th_default r = default_id" if "r \<in> set (ct_threads db2)" "th_id r = i" for r
    proof -
      from that fresh have "r = thread_of_data i (ce_now env) (d\<lparr>td_default := default_id\<rparr>)"
        by (auto simp: t2 thread_ids_def)
      then show ?thesis by simp
    qed
    show "m \<in> memory_ids db2" if "default_id = Some m" for m
      using validate_default_present def that m2 by fastforce
  qed auto
qed

theorem create_thread_ok:
  "content_ok db \<Longrightarrow> yields (create_thread env requested db) (\<lambda>(i, db'). content_ok db')"
  unfolding create_thread_def Let_def
  by (intro yields) (auto intro: add_each_label_ok create_thread_rows_ok)

lemma update_thread_row_ok:
  assumes ok: "content_ok db" and F: "td_default d \<noteq> None \<Longrightarrow> i \<in> F"
  shows "store_ok F (snd (update_thread_row now i d db))"
  unfolding update_thread_row_def
proof (rule update_threads_ok [OF ok])
  fix t assume t: "t \<in> set (ct_threads db)" "th_id t = i" "th_id t \<notin> F"
  with F have "td_default d = None" by blast
  with t ok show "bounds_ok (t\<lparr>th_default := td_default d, th_user := user_column (td_user d),
      th_description := td_description d, th_channel := td_channel d, th_embedding := td_embedding d,
      th_embedding_dim := td_embedding_dim d, th_updated := now, th_metadata := td_metadata d,
      th_kind := Some (td_kind d)\<rparr>) db \<and>
    anchored (t\<lparr>th_default := td_default d, th_user := user_column (td_user d),
      th_description := td_description d, th_channel := td_channel d, th_embedding := td_embedding d,
      th_embedding_dim := td_embedding_dim d, th_updated := now, th_metadata := td_metadata d,
      th_kind := Some (td_kind d)\<rparr>) db"
    by (auto simp: store_ok_def bounds_ok_def anchored_def)
qed auto

lemma replace_labels_ok:
  "store_ok F db \<Longrightarrow> t \<in> thread_ids db \<Longrightarrow> store_ok F (replace_labels t now cur des db)"
  by (auto simp: replace_labels_def remove_label_rows_def thread_ids_def
      intro!: add_each_label_ok filter_labels_ok)

lemma update_thread_rows_ok:
  assumes ok: "content_ok db" and ex: "find_thread i db = Some existing"
    and def: "validate_default_system_memory w k db = Inr (td_default d)"
    and db1: "db1 = (if thread_changed existing d then snd (update_thread_row (ce_now env) i d db) else db)"
  shows "content_ok (snd (anchor_default env i (td_default d) db1))"
    and "i \<in> thread_ids (snd (anchor_default env i (td_default d) db1))"
proof -
  let ?F = "if td_default d = None then {} else {i}"
  have i: "i \<in> thread_ids db" using ex find_thread_None [of i db] by simp
  have "thread_ids db1 = thread_ids db"
    by (simp add: db1 update_thread_row_def thread_ids_update_threads)
  moreover have "ct_memories db1 = ct_memories db"
    by (simp add: db1 update_thread_row_def update_threads_def)
  ultimately have ids: "thread_ids db1 = thread_ids db" "memory_ids db1 = memory_ids db"
    by (simp_all add: memory_ids_def)
  have ok1: "store_ok ?F db1"
    using update_thread_row_ok [OF ok, of d i ?F] store_ok_mono [OF ok] by (simp add: db1)
  show "i \<in> thread_ids (snd (anchor_default env i (td_default d) db1))" using i ids by simp
  show "content_ok (snd (anchor_default env i (td_default d) db1))"
  proof (rule anchor_default_ok [OF ok1])
    show "i \<in> thread_ids db1" using i ids by simp
    show "m \<in> memory_ids db1" if "td_default d = Some m" for m
      using validate_default_present def that ids by fastforce
    show "th_default r = td_default d" if r: "r \<in> set (ct_threads db1)" "th_id r = i" for r
    proof (cases "thread_changed existing d")
      case True
      with r show ?thesis by (simp add: db1 update_thread_row_default)
    next
      case False
      with r have "r = existing"
        using ex find_thread_Some [OF store_okD(1)[OF ok], of i r] by (simp add: db1)
      with False show ?thesis by (simp add: thread_changed_def)
    qed
  qed auto
qed

theorem update_thread_ok:
  assumes ok: "content_ok db"
  shows "yields (update_thread env i request db) (\<lambda>(b, db'). content_ok db')"
  unfolding update_thread_def
proof (intro yields)
  fix w existing d default_id d' db1 desired
  assume ex: "find_thread i db = Some existing"
    and def: "validate_default_system_memory (td_default w) (td_kind d) db = Inr default_id"
    and d': "d' = d\<lparr>td_default := default_id\<rparr>"
    and db1: "db1 = (if thread_changed existing d' then snd (update_thread_row (ce_now env) i d' db) else db)"
  have d: "default_id = td_default d'" by (simp add: d')
  show "case (True, replace_labels i (ce_now env) (labels_of_thread i db1) desired
      (snd (anchor_default env i default_id db1))) of (b, db') \<Rightarrow> content_ok db'"
    using update_thread_rows_ok [OF ok ex def [unfolded d] db1] by (simp add: d replace_labels_ok)
qed (simp add: ok)

lemma find_thread_in: "find_thread i db = Some t \<Longrightarrow> i \<in> thread_ids db"
  using find_thread_None [of i db] by simp

theorem add_labels_ok: "content_ok db \<Longrightarrow> yields (add_labels env t ls db) content_ok"
  unfolding add_labels_def add_labels_core_def
  by (intro yields) (auto intro: add_each_label_ok find_thread_in)

theorem remove_labels_ok: "content_ok db \<Longrightarrow> yields (remove_labels t ls db) content_ok"
  unfolding remove_labels_def by (intro yields) (auto intro: remove_label_rows_ok)

lemma attach_parents_tables [simp]:
  "ct_threads (attach_parents t now present ps db) = ct_threads db"
  "ct_memories (attach_parents t now present ps db) = ct_memories db"
  "ct_labels (attach_parents t now present ps db) = ct_labels db"
  by (induction ps arbitrary: db) simp_all

lemma linked_attach_parents:
  "linked a b (attach_parents t now present ps db) \<longleftrightarrow> linked a b db \<or> a = t \<and> b \<in> set ps \<and> present b"
  by (induction ps arbitrary: db) auto

lemma attach_parents_ok:
  assumes "store_ok F db" "t \<in> thread_ids db" "t \<in> F" "\<And>p. p \<in> set ps \<Longrightarrow> present p \<Longrightarrow> p \<in> memory_ids db"
  shows "store_ok F (attach_parents t now present ps db)"
  using assms
proof (induction ps arbitrary: db)
  case (Cons p ps)
  show ?case
  proof (cases "present p")
    case True
    with Cons.prems have "store_ok (insert t F) (insert_or_ignore_link t p now db)"
      by (intro insert_or_ignore_link_ok) auto
    then have "store_ok F (insert_or_ignore_link t p now db)"
      using Cons.prems(3) by (simp add: insert_absorb)
    with True Cons show ?thesis by simp
  next
    case False
    with Cons show ?thesis by simp
  qed
qed simp

lemma same_content_link_media: "yields (link_media_of env m db) (same_content db)"
  unfolding link_media_of_def by (intro yields) (auto simp: same_content_def)

lemma same_content_ids: "same_content db db' \<Longrightarrow> thread_ids db' = thread_ids db \<and> memory_ids db' = memory_ids db"
  by (simp add: same_content_def thread_ids_def memory_ids_def)

text \<open>What \<open>add_memory_core\<close> leaves: the thread with its bounds still to be refreshed.\<close>

lemma add_memory_core_ok:
  assumes ok: "store_ok F db" and F: "t \<in> F"
  shows "yields (add_memory_core env t d skip db)
    (\<lambda>(_, db'). store_ok F db' \<and> ct_threads db' = ct_threads db
        \<and> (\<forall>a b. linked a b db \<longrightarrow> linked a b db'))"
  unfolding add_memory_core_def
proof (intro yields, goal_cases)
  case (1 thread d1 _ parents _ default_id d2 present db1 db2 x i db3 db4)
  have t: "t \<in> thread_ids db" using 1(1) find_thread_None [of t db] by simp
  have present: "p \<in> memory_ids db" if "present p" for p
  proof -
    have "p \<in> set (map mem_id parents) \<or> default_id = Some p" using that 1 by simp
    moreover have "p \<in> memory_ids db" if "default_id = Some p"
      using 1(7) that validate_default_present [of "th_default thread" _ db p]
      by (auto simp: inject_default_def split: if_splits)
    ultimately show ?thesis
      using 1(4) by (auto simp: set_find_memories memory_ids_def)
  qed
  have db1: "db1 = attach_parents t (ce_now env) present (md_parents d2) db" by (fact 1)
  have ok1: "store_ok F db1"
    unfolding db1 by (rule attach_parents_ok [OF ok t F]) (rule present)
  have same: "same_content db1 db2" using yieldsD [OF same_content_link_media] 1 by blast
  have ok2: "store_ok F db2" by (rule store_ok_same [OF same ok1])
  have ins: "insert_memory env d2 db2 = Inr (i, db3)" using 1 by blast
  note m = insert_memory_ok [OF ok2 ins]
  have lk: "insert_link t i (ce_now env) db3 = Inr db4" using 1 by blast
  have t3: "ct_threads db3 = ct_threads db" using m(4) same by (simp add: same_content_def db1)
  have "store_ok (insert t F) db4"
    using insert_link_ok(1) [OF m(1) lk] t t3 m(2) by (simp add: thread_ids_def)
  moreover have db4: "db4 = put_link t i (ce_now env) db3"
    using insert_link_ok(2) [OF m(1) lk] t t3 m(2) by (simp add: thread_ids_def)
  moreover have "linked a b db3 = linked a b db1" for a b
    using m(5) same by (simp add: linked_def same_content_def)
  ultimately show ?case using F t3 by (auto simp: insert_absorb db1 linked_attach_parents)
qed

lemma same_content_store_group_relation: "yields (store_group_relation env i rel db) (same_content db)"
  unfolding store_group_relation_def insert_group_memory_def
  by (intro yields) (auto simp: same_content_def)

text \<open>A refresh after members were added to one thread.\<close>

lemma refresh_after_links:
  assumes ok: "content_ok db" and flux: "store_ok {t} db'" and same: "ct_threads db' = ct_threads db"
    and mono: "\<And>a b. linked a b db \<Longrightarrow> linked a b db'"
  shows "content_ok (snd (refresh_message_bounds t now db'))"
proof -
  have "store_ok ({t} - {t}) (snd (refresh_message_bounds t now db'))"
  proof (rule refresh_message_bounds_ok [OF flux])
    fix r assume "r \<in> set (ct_threads db')"
    with same ok have "anchored r db" by (simp add: store_ok_def)
    then show "anchored r db'" using mono by (auto simp: anchored_def split: option.splits)
  qed
  then show ?thesis by simp
qed

theorem add_memory_ok:
  assumes ok: "content_ok db"
  shows "yields (add_memory env t d rel db) (\<lambda>(_, db'). content_ok db')"
  unfolding add_memory_def
proof (intro yields, goal_cases)
  case (1 _ _ x ab db1 i y db2)
  have flux: "store_ok {t} db1" and same: "ct_threads db1 = ct_threads db"
    and mono: "\<And>a b. linked a b db \<Longrightarrow> linked a b db1"
    using yieldsD [OF add_memory_core_ok [OF store_ok_mono [OF ok, of "{t}"]], of t env d False] 1 by auto
  have s2: "same_content db1 db2"
    using yieldsD [OF same_content_store_group_relation] 1 by blast
  show ?case
    by (simp, rule refresh_after_links [OF ok store_ok_same [OF s2 flux]])
      (use s2 same mono in \<open>auto simp: same_content_def linked_def\<close>)
qed

lemma update_memories_links [simp]:
  "ct_links (snd (update_memories i f db)) = ct_links db" "ct_threads (snd (update_memories i f db)) = ct_threads db"
  by (simp_all add: update_memories_def)

theorem update_memory_parents_ok:
  assumes ok: "content_ok db"
  shows "yields (update_memory_parents env t m ps fs fn db) (\<lambda>(_, db'). content_ok db')"
  unfolding update_memory_parents_def
proof (intro yields, goal_cases)
  case (3 row rest present validated db1 db2)
  have t: "t \<in> thread_ids db" using 3(1) find_thread_None [of t db] by simp
  have ok1: "store_ok {t} db1"
    unfolding 3 update_parent_ids_def
    by (rule store_ok_mono [OF update_memories_ok [OF ok]]) auto
  have ids: "memory_ids db1 = memory_ids db"
    by (simp add: 3 update_parent_ids_def memory_ids_update_memories)
  have th: "ct_threads db1 = ct_threads db" and ln: "ct_links db1 = ct_links db"
    by (simp_all add: 3 update_parent_ids_def)
  have lk: "linked a b db1 = linked a b db" for a b by (simp add: linked_def ln)
  have "store_ok {t} db2"
    unfolding 3(9)
  proof (rule attach_parents_ok [OF ok1])
    show "t \<in> thread_ids db1" using t th by (simp add: thread_ids_def)
    show "p \<in> memory_ids db1" if "p \<in> set validated" for p
    proof -
      from that have "p \<in> memory_ids db" by (auto simp: 3 set_find_memories memory_ids_def)
      then show ?thesis by (simp only: ids)
    qed
  qed simp
  then have "content_ok (snd (refresh_message_bounds t (ce_now env) db2))"
    by (rule refresh_after_links [OF ok])
      (auto simp: 3(9) th lk linked_attach_parents)
  then show ?case by simp
qed (use ok in auto)

subsection \<open>The operations on memories keep the invariant\<close>

theorem create_memory_ok:
  assumes ok: "content_ok db"
  shows "yields (create_memory env d db) (\<lambda>(_, db'). content_ok db')"
  unfolding create_memory_def
proof (intro yields, goal_cases)
  case (1 d' _ db1)
  have "content_ok db1"
    using yieldsD [OF same_content_link_media] 1 ok store_ok_same by blast
  then show ?case by (auto intro!: yieldsI dest: insert_memory_ok(1))
qed

lemma media_only [simp]: "store_ok F (db\<lparr>ct_media := rows\<rparr>) = store_ok F db"
proof
  show "store_ok F (db\<lparr>ct_media := rows\<rparr>) \<Longrightarrow> store_ok F db"
    by (rule store_ok_same [rotated], assumption) (simp add: same_content_def)
  show "store_ok F db \<Longrightarrow> store_ok F (db\<lparr>ct_media := rows\<rparr>)"
    by (rule store_ok_same [rotated], assumption) (simp add: same_content_def)
qed

theorem update_memory_ok:
  assumes ok: "content_ok db"
  shows "yields (update_memory env i request db) (\<lambda>(_, db'). content_ok db')"
  unfolding update_memory_def
  by (intro yields) (auto simp: ok update_memory_row_def intro!: update_memories_ok)

theorem write_back_caption_ok:
  "content_ok db \<Longrightarrow> content_ok (snd (write_back_caption env i media caption db))"
  by (auto simp: write_back_caption_def Let_def update_content_only_def intro!: update_memories_ok)

text \<open>Deleting a memory clears it as a default first, so no thread loses its anchor.\<close>

lemma clear_default_ok: "store_ok F db \<Longrightarrow> store_ok F (clear_default m db)"
  unfolding clear_default_def
  by (rule update_threads_ok) (auto simp: store_ok_def bounds_ok_def anchored_def)

lemma clear_default_tables [simp]:
  "ct_links (clear_default m db) = ct_links db" "ct_memories (clear_default m db) = ct_memories db"
  "thread_ids (clear_default m db) = thread_ids db"
  by (simp_all add: clear_default_def thread_ids_update_threads) (simp_all add: update_threads_def)

lemma clear_default_cleared: "r \<in> set (ct_threads (clear_default m db)) \<Longrightarrow> th_default r \<noteq> Some m"
  by (auto simp: clear_default_def update_threads_def split: if_splits)

definition all_anchored :: "'a content_db_scheme \<Rightarrow> bool" where
  "all_anchored db \<longleftrightarrow> (\<forall>r \<in> set (ct_threads db). anchored r db)"

lemma all_anchored_refresh:
  assumes "all_anchored db"
  shows "all_anchored (snd (refresh_message_bounds t now db))"
  unfolding all_anchored_def
proof
  define f where "f = (\<lambda>r. r\<lparr>th_first_message := fst (message_bounds t db),
    th_last_message := snd (message_bounds t db), th_updated := now\<rparr> :: thread_row)"
  fix r assume "r \<in> set (ct_threads (snd (refresh_message_bounds t now db)))"
  then have "r \<in> (\<lambda>r. if th_id r = t \<and> bounds_differ (message_bounds t db) r then f r else r) ` set (ct_threads db)"
    by (simp add: refresh_message_bounds_def Let_def update_threads_def f_def)
  then obtain q where q: "q \<in> set (ct_threads db)" "r = f q \<or> r = q" by (auto split: if_splits)
  have "th_id r = th_id q" "th_default r = th_default q" using q(2) by (auto simp: f_def)
  moreover have "linked a b (snd (refresh_message_bounds t now db)) = linked a b db" for a b
    by (simp add: linked_def)
  moreover have "anchored q db" using assms q(1) by (simp add: all_anchored_def)
  ultimately show "anchored r (snd (refresh_message_bounds t now db))"
    by (simp add: anchored_def split: option.splits)
qed

lemma refresh_each_ok:
  "store_ok F db \<Longrightarrow> all_anchored db \<Longrightarrow> store_ok (F - set ts) (snd (refresh_each ts now db))"
proof (induction ts arbitrary: F db)
  case (Cons t ts)
  have "store_ok (F - {t}) (snd (refresh_message_bounds t now db))"
    by (rule refresh_message_bounds_ok [OF Cons.prems(1)]) (use Cons.prems(2) in \<open>simp add: all_anchored_def\<close>)
  note Cons.IH [OF this all_anchored_refresh [OF Cons.prems(2)]]
    moreover have "F - set (t # ts) = F - {t} - set ts" by auto
  ultimately show ?case by (simp add: case_prod_beta Let_def)
qed simp

lemma refresh_each_tables [simp]:
  "ct_links (snd (refresh_each ts now db)) = ct_links db" "ct_memories (snd (refresh_each ts now db)) = ct_memories db"
  by (induction ts arbitrary: db) (simp_all add: case_prod_beta Let_def)

lemma same_content_unlink: "yields (unlink_media_of env m db) (\<lambda>(_, db'). same_content db db')"
  unfolding unlink_media_of_def by (intro yields) (auto simp: same_content_def)

theorem delete_memory_ok:
  assumes ok: "content_ok db"
  shows "yields (delete_memory env i db) (\<lambda>(_, db'). content_ok db')"
  unfolding delete_memory_def
proof (intro yields, goal_cases)
  case (1 affected)
  have "same_content db (delete_group_memories_of_memory i db)"
    by (simp add: same_content_def delete_group_memories_of_memory_def)
  with ok show ?case by (simp add: store_ok_same)
next
  case (2 affected row rest db1 db2 x jobs db3 deleted db4)
  let ?c = "clear_default i db" let ?r = "delete_ratings_of_memory i ?c"
  have "same_content ?c ?r" by (simp add: same_content_def delete_ratings_of_memory_def)
  then have okr: "content_ok ?r" by (rule store_ok_same) (rule clear_default_ok [OF ok])
  have ln: "ct_links ?r = ct_links db" by (simp add: delete_ratings_of_memory_def)
  have thr: "ct_threads ?r = ct_threads ?c" by (simp add: delete_ratings_of_memory_def)
  have db1: "db1 = delete_links_of_memory i ?r" by (fact 2)
  have "store_ok (set (threads_of_memory i ?r) \<union> {}) db1"
    unfolding db1 by (rule delete_links_of_memory_ok [OF okr])
  then have flux: "store_ok (set affected) db1"
    by (rule store_ok_mono) (auto simp: 2(1) threads_of_memory_def ln)
  have anch: "all_anchored db1"
    unfolding all_anchored_def db1
  proof
    fix r assume "r \<in> set (ct_threads (delete_links_of_memory i ?r))"
    then have r: "r \<in> set (ct_threads ?c)" using thr by simp
    then have "th_default r \<noteq> Some i" by (rule clear_default_cleared)
    moreover have "anchored r ?r" using okr r thr by (simp add: store_ok_def)
    ultimately show "anchored r (delete_links_of_memory i ?r)" by (auto simp: anchored_def split: option.splits)
  qed
  have "store_ok (set affected - set affected) db2"
    using refresh_each_ok [OF flux anch, of "remdups_adj (sort affected)" "ce_now env"]
    by (simp add: 2(4) refresh_message_bounds_all_def)
  then have ok2: "content_ok db2" by simp
  have s3: "same_content db2 db3" using yieldsD [OF same_content_unlink] 2 by blast
  let ?g = "delete_group_memories_of_memory i db3"
  have "same_content db3 ?g" by (simp add: same_content_def delete_group_memories_of_memory_def)
  then have okg: "content_ok ?g" by (rule store_ok_same) (rule store_ok_same [OF s3 ok2])
  have lg: "ct_links ?g = filter (\<lambda>l. ln_memory l \<noteq> i) (ct_links db)"
    using s3 by (simp add: same_content_def delete_group_memories_of_memory_def 2(4) db1
        refresh_message_bounds_all_def delete_links_of_memory_def ln)
  have "content_ok (?g\<lparr>ct_memories := filter (\<lambda>m. mem_id m \<noteq> i) (ct_memories ?g)\<rparr>)"
    by (rule drop_memories_ok [OF okg]) (auto simp: lg list_ex_iff)
  then show ?case using 2 by (auto simp: delete_memory_row_def)
qed

subsection \<open>Deleting a thread\<close>

text \<open>The memories that only the given ids keep alive.\<close>

lemma delete_orphaned_chunks_effect:
  "delete_orphaned_chunks cs db = (gone, db') \<Longrightarrow>
     ct_memories db' = filter (\<lambda>m. \<not> orphaned_in (concat cs) db m) (ct_memories db)
     \<and> set gone = mem_id ` {m \<in> set (ct_memories db). orphaned_in (concat cs) db m}
     \<and> db' = db\<lparr>ct_memories := ct_memories db'\<rparr>"
proof (induction cs arbitrary: db gone db')
  case Nil
  then show ?case by (simp add: orphaned_in_def)
next
  case (Cons c cs)
  let ?db = "db\<lparr>ct_memories := filter (\<lambda>m. \<not> orphaned_in c db m) (ct_memories db)\<rparr>"
  obtain rest where r: "delete_orphaned_chunks cs ?db = (rest, db')"
    and gone: "gone = map mem_id (filter (orphaned_in c db) (ct_memories db)) @ rest"
    using Cons.prems by (auto simp: Let_def split: prod.splits)
  have same: "orphaned_in ids ?db m = orphaned_in ids db m" for ids m by (simp add: orphaned_in_def)
  have or: "orphaned_in (concat (c # cs)) db m \<longleftrightarrow> orphaned_in c db m \<or> orphaned_in (concat cs) db m" for m
    by (auto simp: orphaned_in_def)
  have "ct_memories db' = filter (\<lambda>m. \<not> orphaned_in (concat cs) db m)
      (filter (\<lambda>m. \<not> orphaned_in c db m) (ct_memories db))"
    using Cons.IH [OF r] by (simp add: same)
  then have one: "ct_memories db' = filter (\<lambda>m. \<not> orphaned_in (concat (c # cs)) db m) (ct_memories db)"
    unfolding filter_filter or by (simp only: de_Morgan_disj)
  moreover have "set gone = mem_id ` {m \<in> set (ct_memories db). orphaned_in (concat (c # cs)) db m}"
    unfolding or using Cons.IH [OF r] by (auto simp: gone same)
  moreover have "db' = db\<lparr>ct_memories := ct_memories db'\<rparr>"
    using Cons.IH [OF r] by (cases db') auto
  ultimately show ?case by blast
qed

lemma concat_chunks: "0 < n \<Longrightarrow> concat (chunks n xs) = xs"
proof (induction n xs rule: chunks.induct)
  case (1 n xs)
  then show ?case by (cases "xs = []") (simp_all add: chunks_code [of n])
qed

lemma delete_orphaned_effect:
  assumes "delete_orphaned_by_ids ids db = (gone, db')"
  shows "ct_memories db' = filter (\<lambda>m. \<not> orphaned_in ids db m) (ct_memories db)"
    and "set gone = mem_id ` {m \<in> set (ct_memories db). orphaned_in ids db m}"
    and "db' = db\<lparr>ct_memories := ct_memories db'\<rparr>"
proof -
  have run: "delete_orphaned_chunks (chunks in_list_chunk_size ids) db = (gone, db')"
    using assms by (simp add: delete_orphaned_by_ids_def)
  have "concat (chunks in_list_chunk_size ids) = ids"
    by (rule concat_chunks) (simp add: in_list_chunk_size_def)
  note e = delete_orphaned_chunks_effect [OF run, unfolded this]
  show "ct_memories db' = filter (\<lambda>m. \<not> orphaned_in ids db m) (ct_memories db)"
    and "set gone = mem_id ` {m \<in> set (ct_memories db). orphaned_in ids db m}"
    using e by blast+
  show "db' = db\<lparr>ct_memories := ct_memories db'\<rparr>" using e by blast
qed

lemma delete_orphaned_ok:
  assumes "store_ok F db" "delete_orphaned_by_ids ids db = (gone, db')"
  shows "store_ok F db'"
proof -
  have "store_ok F (db\<lparr>ct_memories := filter (\<lambda>m. \<not> orphaned_in ids db m) (ct_memories db)\<rparr>)"
    by (rule drop_memories_ok [OF assms(1)]) (auto simp: orphaned_in_def)
  then show ?thesis using delete_orphaned_effect [OF assms(2)] by metis
qed

lemma delete_thread_row_ok:
  assumes ok: "store_ok (insert t F) db" and "\<And>m. \<not> linked t m db" "\<And>l. \<not> has_label t l db"
  shows "store_ok F (snd (delete_thread_row t db))"
proof -
  let ?db = "snd (delete_thread_row t db)"
  have [simp]: "ct_threads ?db = filter (\<lambda>r. th_id r \<noteq> t) (ct_threads db)" "ct_memories ?db = ct_memories db"
    "ct_links ?db = ct_links db" "ct_labels ?db = ct_labels db"
    by (simp_all add: delete_thread_row_def)
  have lk: "linked a b ?db = linked a b db" for a b by (simp add: linked_def)
  have bd: "message_bounds a ?db = message_bounds a db" for a
    by (rule message_bounds_cong) (simp add: lk)
  have "keys_ok ?db" using store_okD(1)[OF ok] by (simp add: keys_ok_def external_ids_def distinct_map_filter)
  moreover have "references_ok ?db"
    using store_okD(2)[OF ok] assms(2,3)
    by (fastforce simp: references_ok_def thread_ids_def memory_ids_def linked_iff has_label_def list_ex_iff)
  moreover have "bounds_ok r ?db \<longleftrightarrow> bounds_ok r db" "anchored r ?db \<longleftrightarrow> anchored r db" for r
    by (simp_all add: bounds_ok_def bd anchored_def lk split: option.split)
  ultimately show ?thesis using ok by (simp add: store_ok_def)
qed

lemma drop_memory_traces_same: "same_content db (drop_memory_traces ms db)"
proof (induction ms arbitrary: db)
  case (Cons m ms)
  have "same_content db (delete_ratings_of_memory m (delete_group_memories_of_memory m db))"
    by (simp add: same_content_def delete_ratings_of_memory_def delete_group_memories_of_memory_def)
  also note Cons.IH
  finally show ?case by simp
qed simp

lemma unlink_each_same: "yields (unlink_each env media ms db) (\<lambda>(_, db'). same_content db db')"
proof (induction ms arbitrary: db)
  case (Cons m ms)
  show ?case unfolding unlink_each.simps
  proof (intro yields, goal_cases)
    case (1 x jobs db1 y rest db2)
    have "same_content db db1" using yieldsD [OF same_content_unlink] 1 by blast
    also have "same_content db1 db2" using yieldsD [OF Cons.IH] 1 by blast
    finally show ?case by simp
  qed
qed (simp add: yields_Inr)

text \<open>What the transaction does to the content tables.\<close>

definition only_in :: "int \<Rightarrow> 'a content_db_scheme \<Rightarrow> memory_row \<Rightarrow> bool" where
  "only_in t db m \<longleftrightarrow> linked t (mem_id m) db \<and> (\<forall>u. linked u (mem_id m) db \<longrightarrow> u = t)"

lemma orphaned_after:
  "orphaned_in (memory_ids_of_thread t db) (delete_links_of_thread t db) m \<longleftrightarrow> only_in t db m"
  unfolding orphaned_in_def memory_ids_of_thread_def thread_links_def delete_links_of_thread_def
    only_in_def linked_iff list_ex_iff
  by (auto simp: image_iff)

lemma delete_thread_in_tx_content:
  "yields (delete_thread_in_tx env t db) (\<lambda>(out, db').
     ct_threads db' = filter (\<lambda>r. th_id r \<noteq> t) (ct_threads db)
     \<and> ct_links db' = filter (\<lambda>l. ln_thread l \<noteq> t) (ct_links db)
     \<and> ct_labels db' = filter (\<lambda>r. lb_thread r \<noteq> t) (ct_labels db)
     \<and> ct_memories db' = filter (\<lambda>m. \<not> only_in t db m) (ct_memories db)
     \<and> set (do_exclusive out) = mem_id ` {m \<in> set (ct_memories db). only_in t db m}
     \<and> (do_deleted out \<longleftrightarrow> t \<in> thread_ids db))"
  unfolding delete_thread_in_tx_def
proof (intro yields, goal_cases)
  case (1 candidates media p gone db1 db2 x jobs db3 deleted db4)
  have orp: "delete_orphaned_by_ids candidates (delete_links_of_thread t db) = (gone, db1)" using 1 by simp
  note d = delete_orphaned_effect [OF orp]
  have m1: "ct_memories db1 = filter (\<lambda>m. \<not> only_in t db m) (ct_memories db)"
    using d(1) 1(1) by (simp add: orphaned_after)
  have r1: "ct_threads db1 = ct_threads db" "ct_labels db1 = ct_labels db"
    "ct_links db1 = filter (\<lambda>l. ln_thread l \<noteq> t) (ct_links db)"
    by (subst d(3), simp add: delete_links_of_thread_def)+
  have g: "set gone = mem_id ` {m \<in> set (ct_memories db). only_in t db m}"
    using d(2) 1(1) by (simp add: orphaned_after)
  have "same_content db1 db2" using drop_memory_traces_same 1 by simp
  also have "same_content db2 db3" using yieldsD [OF unlink_each_same] 1 by blast
  finally have s: "same_content db1 db3" .
  show ?case using 1 s m1 r1 g
    by (auto simp: same_content_def delete_thread_row_def delete_labels_of_thread_def
        detach_thread_relations_def list_ex_iff thread_ids_def)
qed

theorem delete_thread_in_tx_ok:
  assumes ok: "content_ok db"
  shows "yields (delete_thread_in_tx env t db) (\<lambda>(_, db'). content_ok db')"
  unfolding delete_thread_in_tx_def
proof (intro yields, goal_cases)
  case (1 candidates media p gone db1 db2 x jobs db3 deleted db4)
  have orp: "delete_orphaned_by_ids candidates (delete_links_of_thread t db) = (gone, db1)" using 1 by simp
  have ok1: "store_ok {t} db1"
    by (rule delete_orphaned_ok [OF delete_links_of_thread_ok [OF ok] orp])
  have l1: "ct_links db1 = filter (\<lambda>l. ln_thread l \<noteq> t) (ct_links db)"
    by (subst delete_orphaned_effect(3) [OF orp]) (simp add: delete_links_of_thread_def)
  have "same_content db1 db2" using drop_memory_traces_same 1 by simp
  also have "same_content db2 db3" using yieldsD [OF unlink_each_same] 1 by blast
  finally have s: "same_content db1 db3" .
  have "store_ok {t} (delete_labels_of_thread t db3)"
    by (rule delete_labels_of_thread_ok [OF store_ok_same [OF s ok1]])
  then have "content_ok (snd (delete_thread_row t (delete_labels_of_thread t db3)))"
    by (rule delete_thread_row_ok)
      (use s l1 in \<open>auto simp: same_content_def linked_iff has_label_def list_ex_iff delete_labels_of_thread_def\<close>)
  then have "content_ok db4" using 1 by simp
  moreover have "same_content db4 (detach_thread_relations t (ce_now env) db4)"
    by (simp add: same_content_def detach_thread_relations_def)
  ultimately show ?case by (simp add: store_ok_same)
qed

end
