(* ===== verification/Content_Groups.thy ===== *)
theory Content_Groups
  imports Thread_Content Group_System
begin

text \<open>
  The two halves of the state. The statements on threads and memories leave the group tables and
  the evidence alone (\<open>group_side\<close>); the statements that deleting and importing a thread add on
  the group side leave the content alone and keep the graph invariant.
\<close>

subsection \<open>What the content statements leave alone\<close>

definition group_side where
  "group_side (db :: 'a content_db_scheme) =
     (db_groups db, db_members db, db_relations db, db_observations db, db_associations db,
      db_identities db, db_keys db, db_markers db, db_decisions db, db_outbox db, db_audits db)"

lemma group_side_fields:
  assumes "group_side db' = group_side db"
  shows "db_groups db' = db_groups db" "db_members db' = db_members db" "db_relations db' = db_relations db"
    "db_observations db' = db_observations db" "db_associations db' = db_associations db"
    "db_identities db' = db_identities db" "db_keys db' = db_keys db" "db_markers db' = db_markers db"
    "db_decisions db' = db_decisions db" "db_outbox db' = db_outbox db" "db_audits db' = db_audits db"
  using assms by (simp_all add: group_side_def)

lemma group_side_graph:
  fixes db db' :: "'a content_db_scheme"
  shows "group_side db' = group_side db \<Longrightarrow> graph_ok db \<Longrightarrow> graph_ok db'"
  by (rule graph_ok_same [of db db']) (simp_all add: same_graph_def group_side_def)

lemma group_side_statements [simp]:
  "group_side (db\<lparr>db_drawn := n\<rparr>) = group_side db"
  "group_side (db\<lparr>ct_threads := ts\<rparr>) = group_side db"
  "group_side (db\<lparr>ct_memories := ms\<rparr>) = group_side db"
  "group_side (db\<lparr>ct_links := ls\<rparr>) = group_side db"
  "group_side (db\<lparr>ct_labels := lbs\<rparr>) = group_side db"
  "group_side (db\<lparr>ct_ratings := rs\<rparr>) = group_side db"
  "group_side (db\<lparr>ct_group_memories := gs\<rparr>) = group_side db"
  "group_side (db\<lparr>ct_collections := cs\<rparr>) = group_side db"
  "group_side (db\<lparr>ct_collection_members := cms\<rparr>) = group_side db"
  "group_side (db\<lparr>ct_media := m\<rparr>) = group_side db"
  by (simp_all add: group_side_def)

lemma group_side_update_threads [simp]: "group_side (snd (update_threads p f db)) = group_side db"
  by (simp add: update_threads_def)

lemma group_side_update_memories [simp]: "group_side (snd (update_memories i f db)) = group_side db"
  by (simp add: update_memories_def)

lemma group_side_rows [simp]:
  "group_side (snd (update_thread_row now i d db)) = group_side db"
  "group_side (snd (update_memory_row now i md db)) = group_side db"
  "group_side (snd (update_content_only now i c db)) = group_side db"
  "group_side (snd (update_parent_ids i ps db)) = group_side db"
  "group_side (snd (refresh_message_bounds t now db)) = group_side db"
  "group_side (clear_default m db) = group_side db"
  "group_side (snd (delete_thread_row i db)) = group_side db"
  "group_side (snd (delete_memory_row i db)) = group_side db"
  by (simp_all add: update_thread_row_def update_memory_row_def update_content_only_def update_parent_ids_def
      refresh_message_bounds_def Let_def clear_default_def delete_thread_row_def delete_memory_row_def)

lemma group_side_links [simp]:
  "group_side (put_link t m now db) = group_side db"
  "group_side (insert_or_ignore_link t m now db) = group_side db"
  "group_side (delete_links_of_thread t db) = group_side db"
  "group_side (delete_links_of_memory m db) = group_side db"
  by (simp_all add: put_link_def insert_or_ignore_link_def delete_links_of_thread_def delete_links_of_memory_def)

lemma group_side_labels [simp]:
  "group_side (add_label t now l db) = group_side db"
  "group_side (remove_label_rows t ls db) = group_side db"
  "group_side (delete_labels_of_thread t db) = group_side db"
  "group_side (delete_ratings_of_memory m db) = group_side db"
  "group_side (delete_group_memories_of_memory m db) = group_side db"
  "group_side (detach_all_collections t db) = group_side db"
  by (simp_all add: add_label_def remove_label_rows_def delete_labels_of_thread_def delete_ratings_of_memory_def
      delete_group_memories_of_memory_def detach_all_collections_def)

lemma group_side_add_each_label [simp]: "group_side (add_each_label t now ls db) = group_side db"
  by (induction ls arbitrary: db) simp_all

lemma group_side_attach_parents [simp]: "group_side (attach_parents t now present ps db) = group_side db"
  by (induction ps arbitrary: db) simp_all

lemma group_side_refresh_each [simp]: "group_side (snd (refresh_each ts now db)) = group_side db"
  by (induction ts arbitrary: db) (simp_all add: case_prod_beta Let_def)

lemma group_side_anchor_default [simp]: "group_side (snd (anchor_default env t d db)) = group_side db"
  by (simp add: anchor_default_def split: option.split)

lemma group_side_replace_labels [simp]: "group_side (replace_labels t now cur des db) = group_side db"
  by (simp add: replace_labels_def)

lemma group_side_insert_thread: "insert_thread env d db = Inr (i, db') \<Longrightarrow> group_side db' = group_side db"
  by (auto simp: insert_thread_def Let_def group_side_def split: if_splits)

lemma group_side_insert_memory: "insert_memory env d db = Inr (i, db') \<Longrightarrow> group_side db' = group_side db"
  by (auto simp: insert_memory_def Let_def group_side_def split: if_splits)

lemma group_side_insert_link: "insert_link t m now db = Inr db' \<Longrightarrow> group_side db' = group_side db"
  by (auto simp: insert_link_def split: if_splits)

lemma group_side_link_media: "link_media_of env m db = Inr db' \<Longrightarrow> group_side db' = group_side db"
  by (auto simp: link_media_of_def elim!: and_then_InrE split: if_splits)

lemma group_side_unlink_media: "unlink_media_of env m db = Inr (jobs, db') \<Longrightarrow> group_side db' = group_side db"
  by (auto simp: unlink_media_of_def elim!: and_then_InrE split: if_splits)

lemma group_side_orphaned: "delete_orphaned_by_ids ids db = (gone, db') \<Longrightarrow> group_side db' = group_side db"
  by (subst delete_orphaned_effect(3)) simp_all

lemma group_side_traces [simp]: "group_side (drop_memory_traces ms db) = group_side db"
  by (induction ms arbitrary: db) simp_all

lemma group_side_unlink_each: "unlink_each env media ms db = Inr (jobs, db') \<Longrightarrow> group_side db' = group_side db"
  by (induction ms arbitrary: db jobs) (force elim!: and_then_InrE dest: group_side_unlink_media)+

lemmas group_side_partial = group_side_insert_thread group_side_insert_memory group_side_insert_link
  group_side_link_media group_side_unlink_media

subsection \<open>Operations that touch the content only\<close>

lemma group_side_add_memory_core:
  "yields (add_memory_core env t d skip db) (\<lambda>(_, db'). group_side db' = group_side db)"
  unfolding add_memory_core_def
  by (intro yields) (auto dest!: group_side_partial)

lemma group_side_store_relation:
  "store_group_relation env i rel db = Inr db' \<Longrightarrow> group_side db' = group_side db"
  by (auto simp: store_group_relation_def insert_group_memory_def elim!: and_then_InrE split: option.splits if_splits)

lemma group_side_add_memory: "yields (add_memory env t d rel db) (\<lambda>(_, db'). group_side db' = group_side db)"
  unfolding add_memory_def
proof (intro yields, goal_cases)
  case (1 a b x ab db1 i y db2)
  have "group_side db1 = group_side db" using yieldsD [OF group_side_add_memory_core] 1 by blast
  moreover have "group_side db2 = group_side db1" using group_side_store_relation 1 by blast
  ultimately show ?case by simp
qed

lemma group_side_update_thread:
  "yields (update_thread env i w db) (\<lambda>(_, db'). group_side db' = group_side db)"
  unfolding update_thread_def by (intro yields) auto

lemma group_side_add_labels: "yields (add_labels env t ls db) (\<lambda>db'. group_side db' = group_side db)"
  unfolding add_labels_def add_labels_core_def by (intro yields) auto

lemma group_side_remove_labels: "yields (remove_labels t ls db) (\<lambda>db'. group_side db' = group_side db)"
  unfolding remove_labels_def by (intro yields) auto

lemma group_side_update_parents:
  "yields (update_memory_parents env t m ps fs fn db) (\<lambda>(_, db'). group_side db' = group_side db)"
  unfolding update_memory_parents_def by (intro yields) auto

lemma group_side_create_memory:
  "yields (create_memory env d db) (\<lambda>(_, db'). group_side db' = group_side db)"
  unfolding create_memory_def
proof (intro yields, goal_cases)
  case (1 d' u db1)
  then have "group_side db1 = group_side db" by (blast dest: group_side_partial)
  then show ?case by (auto intro!: yieldsI dest: group_side_insert_memory)
qed

lemma group_side_update_memory:
  "yields (update_memory env i w db) (\<lambda>(_, db'). group_side db' = group_side db)"
  unfolding update_memory_def by (intro yields) auto

lemma group_side_delete_memory:
  "yields (delete_memory env i db) (\<lambda>(_, db'). group_side db' = group_side db)"
  unfolding delete_memory_def
  by (intro yields) (auto simp: delete_memory_row_def refresh_message_bounds_all_def dest!: group_side_partial)

lemma group_side_caption [simp]: "group_side (snd (write_back_caption env i media c db)) = group_side db"
  by (simp add: write_back_caption_def Let_def)

subsection \<open>Members that a deletion marks and a revival restores\<close>

lemma mapped_members_ok:
  assumes ok: "placed_ok db"
    and f: "\<And>m. mb_key (f m) = mb_key m \<and> mb_group (f m) = mb_group m \<and> is_current (f m) = is_current m"
    and chk: "\<And>m. m \<in> set (db_members db) \<Longrightarrow> member_check m \<Longrightarrow> member_check (f m)"
  shows "placed_ok (db\<lparr>db_members := map f (db_members db)\<rparr>)"
proof -
  let ?db = "db\<lparr>db_members := map f (db_members db)\<rparr>"
  have "map mb_key (filter is_current (map f (db_members db))) = map mb_key (filter is_current (db_members db))"
    by (simp add: filter_map o_def f)
  then have "tables_ok ?db" using ok chk by (auto simp: placed_ok_def tables_ok_def list_all_iff)
  moreover have ga: "group_active i ?db = group_active i db" and fg: "find_group i ?db = find_group i db" for i
    by (simp_all add: group_active_def find_group_def)
  ultimately show ?thesis using ok f unfolding placed_ok_def redirects_flat_def fg ga by (simp add: list.pred_map o_def)
qed

lemma mapped_members_graph:
  assumes "graph_ok db" "\<And>m. mb_key (f m) = mb_key m \<and> mb_group (f m) = mb_group m \<and> is_current (f m) = is_current m"
    and "\<And>m. m \<in> set (db_members db) \<Longrightarrow> member_check m \<Longrightarrow> member_check (f m)"
  shows "graph_ok (db\<lparr>db_members := map f (db_members db)\<rparr>)"
  using mapped_members_ok [of db f] assms by (simp add: graph_ok_def active_edges_def)

lemma mark_current_deleted_graph:
  assumes "graph_ok db" shows "graph_ok (snd (mark_current_deleted env key gone now db))"
proof -
  have "graph_ok (db\<lparr>db_members := map (\<lambda>m. if mb_key m = key \<and> mb_state m = MemberActive
      then m\<lparr>mb_state := MemberDeleted, mb_thread := None, mb_deleted_at := Some gone,
        mb_updated := fill_updated_at env now\<rparr> else m) (db_members db)\<rparr>)"
    by (rule mapped_members_graph [OF assms]) (auto simp: is_current_def member_check_def)
  then show ?thesis by (simp add: mark_current_deleted_def Let_def)
qed

lemma revive_current_graph:
  assumes "graph_ok db" shows "graph_ok (snd (revive_current env key t now db))"
proof -
  have "graph_ok (db\<lparr>db_members := map (\<lambda>m. if mb_key m = key \<and> mb_state m = MemberDeleted
      then m\<lparr>mb_state := MemberActive, mb_thread := Some t, mb_deleted_at := None,
        mb_updated := fill_updated_at env now\<rparr> else m) (db_members db)\<rparr>)"
    by (rule mapped_members_graph [OF assms]) (auto simp: is_current_def member_check_def)
  then show ?thesis by (simp add: revive_current_def Let_def)
qed

subsection \<open>Relations whose live ends change\<close>

lemma mapped_relations_graph:
  assumes ok: "graph_ok db"
    and f: "\<And>r. rl_id (f r) = rl_id r \<and> rl_child_key (f r) = rl_child_key r
      \<and> rl_parent_key (f r) = rl_parent_key r \<and> rl_state (f r) = rl_state r \<and> relation_check (f r) = relation_check r"
  shows "graph_ok (db\<lparr>db_relations := map f (db_relations db)\<rparr>)"
proof -
  let ?db = "db\<lparr>db_relations := map f (db_relations db)\<rparr>"
  have keys: "map rl_child_key (filter (\<lambda>r. rl_state r = RelationActive) (map f (db_relations db)))
      = map rl_child_key (filter (\<lambda>r. rl_state r = RelationActive) (db_relations db))"
    and ids: "map rl_id (map f (db_relations db)) = map rl_id (db_relations db)"
    by (simp_all add: filter_map o_def f)
  have "list_all relation_check (map f (db_relations db)) = list_all relation_check (db_relations db)"
    by (simp add: list.pred_map o_def f)
  with ok have "tables_ok ?db" by (auto simp: graph_ok_def placed_ok_def tables_ok_def keys ids simp del: map_map)
  moreover have ga: "group_active i ?db = group_active i db" and fg: "find_group i ?db = find_group i db" for i
    by (simp_all add: group_active_def find_group_def)
  moreover have "active_edges ?db = active_edges db"
    unfolding active_edges_def by (simp add: filter_map o_def f image_image)
  ultimately show ?thesis
    using ok unfolding graph_ok_def placed_ok_def redirects_flat_def fg ga by simp
qed

lemma detach_relations_graph: "graph_ok db \<Longrightarrow> graph_ok (detach_thread_relations t now db)"
  unfolding detach_thread_relations_def map_map
  by (rule mapped_relations_graph) (auto simp: relation_check_def)

lemma reconnect_relations_graph: "graph_ok db \<Longrightarrow> graph_ok (reconnect_thread_relations k t now db)"
  unfolding reconnect_thread_relations_def map_map
  by (rule mapped_relations_graph) (auto simp: relation_check_def)

text \<open>Markers, identities and keys are not part of the graph.\<close>

lemma same_graph_markers [simp]:
  "same_graph db (put_marker m db)" "same_graph db (consume_marker k db)"
  "same_graph db (delete_identity k db)" "same_graph db (delete_key t db)"
  "same_graph db (upsert_resolved k t now db)"
  by (simp_all add: same_graph_def put_marker_def consume_marker_def delete_identity_def delete_key_def
      upsert_resolved_def)

lemma same_content_group_statements [simp]:
  "same_content db (put_marker m db)" "same_content db (consume_marker k db)"
  "same_content db (delete_identity k db)" "same_content db (delete_key t db)"
  "same_content db (upsert_resolved k t now db)"
  "same_content db (snd (mark_current_deleted e key gone now db))"
  "same_content db (snd (revive_current e key t now db))"
  "same_content db (detach_thread_relations t now db)"
  "same_content db (reconnect_thread_relations key t now db)"
  "same_content db (detach_all_collections t db)"
  by (simp_all add: same_content_def put_marker_def consume_marker_def delete_identity_def delete_key_def
      upsert_resolved_def mark_current_deleted_def revive_current_def Let_def detach_thread_relations_def
      reconnect_thread_relations_def detach_all_collections_def)

lemma create_thread_graph:
  assumes "graph_ok db" shows "yields (create_thread env d db) (\<lambda>(_, db'). graph_ok db')"
  unfolding create_thread_def
proof (intro yields, goal_cases)
  case (1 d' u def x i db1 db2 db3)
  have "graph_ok db1" using group_side_graph [OF group_side_insert_thread assms] 1 by blast
  then have "graph_ok db2" using 1 by (auto dest: assign_key_same graph_ok_same)
  then show ?case using group_side_graph 1 by (metis group_side_anchor_default case_prod_conv)
next
  case (2 d' u def x i db1 db2 db3 ls)
  have "graph_ok db1" using group_side_graph [OF group_side_insert_thread assms] 2 by blast
  then have "graph_ok db2" using 2 by (auto dest: assign_key_same graph_ok_same)
  then have "graph_ok db3" using group_side_graph 2 by (metis group_side_anchor_default)
  then show ?case using group_side_graph by (metis group_side_add_each_label case_prod_conv)
qed

lemma delete_thread_in_tx_graph:
  assumes "graph_ok db" shows "yields (delete_thread_in_tx env t db) (\<lambda>(_, db'). graph_ok db')"
  unfolding delete_thread_in_tx_def
proof (intro yields, goal_cases)
  case (1 candidates media p gone db1 db2 x jobs db3 deleted db4)
  have "group_side db1 = group_side db" using group_side_orphaned 1 by (metis group_side_links(3))
  moreover have "group_side db3 = group_side db2" using group_side_unlink_each 1 by blast
  moreover have "db4 = snd (delete_thread_row t (delete_labels_of_thread t db3))" using 1 by simp
  moreover have "db2 = drop_memory_traces gone db1" by (fact 1)
  ultimately have "group_side db4 = group_side db" by simp
  then have "graph_ok db4" using assms group_side_graph by blast
  then show ?case by (simp add: detach_relations_graph)
qed

end
