(* ===== verification/Thread_Import.thy ===== *)
theory Thread_Import
  imports Content_Groups
begin

text \<open>
  \<open>add_memories_batch\<close> of \<open>app/src/app/thread.rs\<close>: one imported session, or one chunk of it, in one
  transaction. The gate of the deletion markers comes before any write; then the target thread is
  resolved or created, the identity of the session is mapped to it and a deleted placeholder
  revived, and the memories are created or, by external id, overwritten. References to parents
  that come later in the batch are patched at the end. The \<open>HashMap\<close>s of external ids are maps; the
  second half of their values, which the code never reads, is left out. The dispatch list carries
  no hint on media.
\<close>

subsection \<open>Requests and results\<close>

record batch_item =
  bi_memory :: memory_data
  bi_parents :: "string list"

datatype batch_target = Existing_Thread int | Upsert_By_Channel thread_data

record batch_input =
  bt_target :: batch_target
  bt_items :: "batch_item list"
  bt_upsert :: bool
  bt_labels :: "string list"
  bt_identity :: "source_identity option"
  bt_override :: bool

record memory_outcome =
  ao_id :: int
  ao_created :: bool
  ao_position :: int
  ao_parents_empty :: bool
  ao_parents :: "int list"

record batch_output =
  bo_thread :: int
  bo_thread_created :: bool
  bo_outcomes :: "memory_outcome list"
  bo_dispatch :: "(int \<times> memory_data) list"
  bo_suppressed :: bool

definition suppressed_output :: batch_output where
  "suppressed_output = \<lparr>bo_thread = 0, bo_thread_created = False, bo_outcomes = [], bo_dispatch = [],
     bo_suppressed = True\<rparr>"

definition item_eid :: "batch_item \<Rightarrow> string option" where
  "item_eid item = (case md_external (bi_memory item) of None \<Rightarrow> None | Some e \<Rightarrow> if e = [] then None else Some e)"

subsection \<open>Checks before the transaction\<close>

fun scan_batch :: "string list \<Rightarrow> batch_item list \<Rightarrow> content_error + string list" where
  "scan_batch seen [] = Inr seen"
| "scan_batch seen (item # items) =
     (if md_parents (bi_memory item) \<noteq> []
      then Inl (Invalid_Argument ''memory.parent_ids must be empty; express parent references via parent_external_ids'')
      else case item_eid item of
        None \<Rightarrow> scan_batch seen items
      | Some e \<Rightarrow> if e \<in> set seen then Inl (Invalid_Argument ''duplicate external_id within batch'')
                  else scan_batch (e # seen) items)"

definition check_batch :: "batch_item list \<Rightarrow> content_error + string list" where
  "check_batch items =
     (if items = [] then Inl (Invalid_Argument ''memories must not be empty'')
      else and_then (scan_batch [] items) (\<lambda>eids.
        if list_ex (\<lambda>item. user_column (md_user (bi_memory item)) = 0) items
        then Inl (Invalid_Argument ''memory.user_id is required (must be non-zero)'') else Inr eids))"

subsection \<open>The gate\<close>

definition input_key :: "source_identity option \<Rightarrow> identity_key option" where
  "input_key e = (case e of None \<Rightarrow> None
     | Some s \<Rightarrow> (case si_identity_scope s of Unknown \<Rightarrow> None | Known _ \<Rightarrow> Some (identity_key_of s)))"

definition marker_of :: "identity_key option \<Rightarrow> 'a evidence_db_scheme \<Rightarrow> marker_row option" where
  "marker_of key db = (case key of None \<Rightarrow> None | Some k \<Rightarrow> find_marker k db)"

text \<open>Whether the import is suppressed.\<close>

definition suppression_gate ::
  "content_env \<Rightarrow> marker_row option \<Rightarrow> bool \<Rightarrow> content_error + bool" where
  "suppression_gate env marker explicit_override =
     (if marker \<noteq> None \<and> \<not> ce_group_writes env
      then Inl (Precondition_Failed ''ThreadGroup writes are disabled; cannot process a deletion marker'')
      else Inr (decide_suppression (map_option mk_forbid marker) explicit_override = Suppress))"

fun validate_batch_summaries ::
  "content_env \<Rightarrow> batch_item list \<Rightarrow> 'a content_db_scheme \<Rightarrow> content_error + unit" where
  "validate_batch_summaries env [] db = Inr ()"
| "validate_batch_summaries env (item # items) db =
     and_then (validate_legacy_summary_target env (md_external (bi_memory item)) (md_kind (bi_memory item)) db) (\<lambda>_.
       validate_batch_summaries env items db)"

definition mapped_thread :: "content_env \<Rightarrow> identity_key option \<Rightarrow> 'a content_db_scheme \<Rightarrow> int option" where
  "mapped_thread env key db =
     (if ce_group_writes env
      then Option.bind key (\<lambda>k. map_option id_thread (find_resolved k db)) else None)"

subsection \<open>The target thread\<close>

record target_thread =
  tt_id :: int
  tt_created :: bool
  tt_user :: int
  tt_kind :: int

definition conflicting :: "int option \<Rightarrow> int \<Rightarrow> bool" where
  "conflicting mapped t \<longleftrightarrow> (case mapped of None \<Rightarrow> False | Some u \<Rightarrow> u \<noteq> t)"

definition resolve_existing ::
  "int option \<Rightarrow> int \<Rightarrow> 'a content_db_scheme \<Rightarrow> content_error + target_thread \<times> 'a content_db_scheme" where
  "resolve_existing mapped t db =
     (case find_thread t db of
        None \<Rightarrow> Inl (Not_Found ''thread not found'')
      | Some row \<Rightarrow>
          if conflicting mapped t then Inl (Bailed ''source identity already maps to another Thread; refusing target Thread'')
          else Inr (\<lparr>tt_id = t, tt_created = False, tt_user = th_user row, tt_kind = thread_kind_value row\<rparr>, db))"

definition check_channel_data :: "content_env \<Rightarrow> thread_data \<Rightarrow> content_error + int \<times> string" where
  "check_channel_data env d =
     (case td_user d of
        None \<Rightarrow> Inl (Invalid_Argument ''thread_data.user_id is required'')
      | Some user \<Rightarrow>
          if user = 0 then Inl (Invalid_Argument ''thread_data.user_id must be non-zero'')
          else
            let channel = (case td_channel d of None \<Rightarrow> [] | Some c \<Rightarrow> c)
            in if channel = [] then Inl (Invalid_Argument ''thread_data.channel is required for upsert'')
               else and_then (validate_metadata env (td_metadata d)) (\<lambda>_.
                 if (case td_default d of None \<Rightarrow> False | Some i \<Rightarrow> i \<noteq> 0)
                 then Inl (Invalid_Argument ''thread_data.default_system_memory_id is not supported for AddMemoriesBatch'')
                 else Inr (user, channel)))"

definition resolve_channel ::
  "content_env \<Rightarrow> int option \<Rightarrow> thread_data \<Rightarrow> 'a content_db_scheme
    \<Rightarrow> content_error + target_thread \<times> 'a content_db_scheme" where
  "resolve_channel env mapped requested db =
     and_then (normalize_thread_for_create env requested) (\<lambda>d.
     and_then (check_channel_data env d) (\<lambda>(user, channel).
     case find_by_channel_and_user channel user db of
       [] \<Rightarrow>
         if mapped \<noteq> None
         then Inl (Bailed ''source identity already maps to a Thread; refusing to create a new channel target Thread'')
         else and_then (insert_thread env (d\<lparr>td_default := None\<rparr>) db) (\<lambda>(i, db1).
           Inr (\<lparr>tt_id = i, tt_created = True, tt_user = user, tt_kind = td_kind d\<rparr>, db1))
     | [existing] \<Rightarrow>
         if conflicting mapped (th_id existing)
         then Inl (Bailed ''source identity already maps to another Thread; refusing channel target Thread'')
         else (case find_thread (th_id existing) db of
             None \<Rightarrow> Inl (Not_Found ''thread not found'')
           | Some locked \<Rightarrow>
               and_then (resolve_preserved_kind (td_kind d) (thread_kind_value locked)) (\<lambda>kind.
                 Inr (\<lparr>tt_id = th_id existing, tt_created = False, tt_user = th_user locked, tt_kind = kind\<rparr>, db)))
     | _ \<Rightarrow> Inl (Precondition_Failed ''multiple threads for channel'')))"

definition resolve_target ::
  "content_env \<Rightarrow> int option \<Rightarrow> batch_target \<Rightarrow> 'a content_db_scheme
    \<Rightarrow> content_error + target_thread \<times> 'a content_db_scheme" where
  "resolve_target env mapped target db =
     (case target of
        Existing_Thread t \<Rightarrow> resolve_existing mapped t db
      | Upsert_By_Channel d \<Rightarrow> resolve_channel env mapped d db)"

subsection \<open>Identity and revival\<close>

definition check_owner :: "source_identity option \<Rightarrow> target_thread \<Rightarrow> content_error + unit" where
  "check_owner e t =
     (if (case e of None \<Rightarrow> False | Some s \<Rightarrow> si_user_id s \<noteq> tt_user t)
      then Inl (Invalid_Argument ''source identity owner does not match target thread owner'') else Inr ())"

definition check_marker_key ::
  "content_env \<Rightarrow> string option \<Rightarrow> target_thread \<Rightarrow> 'a evidence_db_scheme \<Rightarrow> content_error + unit" where
  "check_marker_key env marker_key t db =
     (if ce_group_writes env
         \<and> (case marker_key of None \<Rightarrow> False
              | Some k \<Rightarrow> (case find_key_of_thread (tt_id t) db of None \<Rightarrow> False | Some row \<Rightarrow> ky_key row \<noteq> k))
      then Inl (Bailed ''deletion marker canonical key does not match the selected target Thread canonical key'')
      else Inr ())"

definition revival_key ::
  "content_env \<Rightarrow> int \<Rightarrow> string option \<Rightarrow> source_identity \<Rightarrow> 'a evidence_db_scheme \<Rightarrow> string option" where
  "revival_key env t marker_key s db =
     (case find_key_of_thread t db of
        Some row \<Rightarrow> Some (ky_key row)
      | None \<Rightarrow>
          (case marker_key of
             Some k \<Rightarrow> Some k
           | None \<Rightarrow> source_thread_canonical_key (env_nfc (ce_group env)) (env_sha (ce_group env)) s))"

definition revive_key ::
  "content_env \<Rightarrow> int \<Rightarrow> int \<Rightarrow> string \<Rightarrow> 'a content_db_scheme \<Rightarrow> content_error + 'a content_db_scheme" where
  "revive_key env t user key db =
     and_then (if find_key_of_thread t db = None
               then of_group (assign_key (ce_group env) t user key ''source_identity'' (ce_now env) db)
               else Inr db) (\<lambda>db1.
       Inr (reconnect_thread_relations key t (ce_now env)
              (snd (revive_current (ce_group env) key t (ce_now env) db1))))"

definition map_identity ::
  "content_env \<Rightarrow> target_thread \<Rightarrow> string option \<Rightarrow> source_identity option \<Rightarrow> 'a content_db_scheme
    \<Rightarrow> content_error + 'a content_db_scheme" where
  "map_identity env t marker_key e db =
     (case e of
        None \<Rightarrow> Inr db
      | Some s \<Rightarrow>
          (case input_key e of
             None \<Rightarrow> Inr db
           | Some k \<Rightarrow>
               if \<not> ce_group_writes env then Inr db
               else and_then (case revival_key env (tt_id t) marker_key s db of
                        None \<Rightarrow> Inr db
                      | Some key \<Rightarrow> revive_key env (tt_id t) (si_user_id s) key db) (\<lambda>db1.
                 Inr (upsert_resolved k (tt_id t) (ce_now env) db1))))"

subsection \<open>The memories\<close>

fun normalize_items :: "content_env \<Rightarrow> int \<Rightarrow> batch_item list \<Rightarrow> content_error + batch_item list" where
  "normalize_items env kind [] = Inr []"
| "normalize_items env kind (item # items) =
     and_then (normalize_memory_for_create env (bi_memory item)) (\<lambda>d.
     and_then (validate_kind_matches kind (md_kind d)) (\<lambda>_.
     and_then (normalize_items env kind items) (\<lambda>rest. Inr (item\<lparr>bi_memory := d\<rparr> # rest))))"

definition wanted_eids :: "batch_item list \<Rightarrow> string list" where
  "wanted_eids items =
     remdups (concat (map (\<lambda>item. filter (\<lambda>e. e \<noteq> []) (bi_parents item)
       @ (case item_eid item of None \<Rightarrow> [] | Some e \<Rightarrow> [e])) items))"

definition existing_by_eid :: "(memory_row \<times> int option) list \<Rightarrow> string \<Rightarrow> (memory_row \<times> int option) option" where
  "existing_by_eid rows =
     foldl (\<lambda>found row. case mem_external (fst row) of None \<Rightarrow> found | Some e \<Rightarrow> found(e \<mapsto> row)) (\<lambda>_. None) rows"

definition attached_ids :: "(string \<Rightarrow> (memory_row \<times> int option) option) \<Rightarrow> string \<Rightarrow> int option" where
  "attached_ids existing e =
     (case existing e of Some (m, Some _) \<Rightarrow> Some (mem_id m) | _ \<Rightarrow> None)"

text \<open>References in their order, each parent once: the known ids and those that come later.\<close>

fun resolve_refs ::
  "(string \<Rightarrow> int option) \<Rightarrow> string list \<Rightarrow> int list \<Rightarrow> string list \<Rightarrow> int list \<times> string list" where
  "resolve_refs ids batch seen [] = ([], [])"
| "resolve_refs ids batch seen (e # es) =
     (case ids e of
        Some i \<Rightarrow>
          if i \<in> set seen then resolve_refs ids batch seen es
          else let (resolved, pending) = resolve_refs ids batch (i # seen) es in (i # resolved, pending)
      | None \<Rightarrow>
          let (resolved, pending) = resolve_refs ids batch seen es
          in (resolved, if e \<in> set batch then e # pending else pending))"

record batch_state =
  bs_ids :: "string \<Rightarrow> int option"
  bs_outcomes :: "memory_outcome list"
  bs_dispatch :: "(int \<times> memory_data) list"
  bs_forward :: "(nat \<times> string list) list"

definition note_outcome ::
  "string option \<Rightarrow> memory_outcome \<Rightarrow> int \<times> memory_data \<Rightarrow> string list \<Rightarrow> batch_state \<Rightarrow> batch_state" where
  "note_outcome e out dispatch pending st =
     \<lparr>bs_ids = (case e of None \<Rightarrow> bs_ids st | Some e \<Rightarrow> (bs_ids st)(e \<mapsto> ao_id out)),
      bs_outcomes = bs_outcomes st @ [out], bs_dispatch = bs_dispatch st @ [dispatch],
      bs_forward = (if pending = [] then bs_forward st
                    else bs_forward st @ [(length (bs_outcomes st), pending)])\<rparr>"

definition overwrite_memory ::
  "content_env \<Rightarrow> batch_item \<Rightarrow> memory_row \<Rightarrow> int option \<Rightarrow> int list \<Rightarrow> string list \<Rightarrow> batch_state
    \<Rightarrow> 'a content_db_scheme \<Rightarrow> content_error + batch_state \<times> 'a content_db_scheme" where
  "overwrite_memory env item m attached resolved pending st db =
     (let d = bi_memory item in
      if mem_user m \<noteq> user_column (md_user d)
      then Inl (Precondition_Failed ''external_id memory has another author'')
      else case attached of
        None \<Rightarrow> Inl (Precondition_Failed ''external_id memory exists in a different thread'')
      | Some pos \<Rightarrow>
          Inr (note_outcome (item_eid item)
                 \<lparr>ao_id = mem_id m, ao_created = False, ao_position = pos,
                  ao_parents_empty = (mem_parents m = []), ao_parents = resolved\<rparr>
                 (mem_id m, d\<lparr>md_role := mem_role m, md_content_type := mem_content_type m,
                              md_media := mem_media m\<rparr>) pending st,
               snd (update_content_only (ce_now env) (mem_id m) (md_content d) db)))"

definition create_batch_memory ::
  "content_env \<Rightarrow> int \<Rightarrow> batch_item \<Rightarrow> int list \<Rightarrow> string list \<Rightarrow> batch_state
    \<Rightarrow> 'a content_db_scheme \<Rightarrow> content_error + batch_state \<times> 'a content_db_scheme" where
  "create_batch_memory env t item resolved pending st db =
     and_then (add_memory_core env t ((bi_memory item)\<lparr>md_parents := resolved\<rparr>) True db) (\<lambda>((i, d), db1).
       Inr (note_outcome (item_eid item)
              \<lparr>ao_id = i, ao_created = True,
               ao_position = (case find_position t i db1 of None \<Rightarrow> 0 | Some p \<Rightarrow> p),
               ao_parents_empty = False, ao_parents = resolved\<rparr> (i, d) pending st, db1))"

definition batch_step ::
  "content_env \<Rightarrow> int \<Rightarrow> bool \<Rightarrow> (string \<Rightarrow> (memory_row \<times> int option) option) \<Rightarrow> string list \<Rightarrow> batch_item
    \<Rightarrow> batch_state \<Rightarrow> 'a content_db_scheme \<Rightarrow> content_error + batch_state \<times> 'a content_db_scheme" where
  "batch_step env t upsert existing batch item st db =
     (case resolve_refs (bs_ids st) batch [] (bi_parents item) of
        (resolved, pending) \<Rightarrow>
          (case Option.bind (item_eid item) existing of
             Some (m, attached) \<Rightarrow>
               if \<not> upsert
               then Inl (Already_Exists ''memory.external_id collision; set upsert_by_external_id to reuse'')
               else overwrite_memory env item m attached resolved pending st db
           | None \<Rightarrow> create_batch_memory env t item resolved pending st db))"

fun batch_loop ::
  "content_env \<Rightarrow> int \<Rightarrow> bool \<Rightarrow> (string \<Rightarrow> (memory_row \<times> int option) option) \<Rightarrow> string list \<Rightarrow> batch_item list
    \<Rightarrow> batch_state \<Rightarrow> 'a content_db_scheme \<Rightarrow> content_error + batch_state \<times> 'a content_db_scheme" where
  "batch_loop env t upsert existing batch [] st db = Inr (st, db)"
| "batch_loop env t upsert existing batch (item # items) st db =
     and_then (batch_step env t upsert existing batch item st db) (\<lambda>(st1, db1).
       batch_loop env t upsert existing batch items st1 db1)"

subsection \<open>Forward references\<close>

fun forward_additions :: "(string \<Rightarrow> int option) \<Rightarrow> int list \<Rightarrow> string list \<Rightarrow> int list" where
  "forward_additions ids seen [] = []"
| "forward_additions ids seen (e # es) =
     (case ids e of
        None \<Rightarrow> forward_additions ids seen es
      | Some i \<Rightarrow> if i \<in> set seen then forward_additions ids seen es
                  else i # forward_additions ids (i # seen) es)"

definition patch_forward ::
  "content_env \<Rightarrow> int \<Rightarrow> (string \<Rightarrow> int option) \<Rightarrow> nat \<times> string list \<Rightarrow> memory_outcome list \<Rightarrow> 'a content_db_scheme
    \<Rightarrow> memory_outcome list \<times> 'a content_db_scheme" where
  "patch_forward env t ids fr outs db =
     (case fr of (idx, eids) \<Rightarrow>
        let out = outs ! idx;
            additions = forward_additions ids (ao_parents out) eids;
            parents = ao_parents out @ additions
        in if \<not> ao_created out \<or> additions = [] then (outs, db)
           else (outs[idx := out\<lparr>ao_parents := parents\<rparr>],
                 attach_parents t (ce_now env) (\<lambda>_. True) additions
                   (snd (update_parent_ids (ao_id out) parents db))))"

fun patch_all ::
  "content_env \<Rightarrow> int \<Rightarrow> (string \<Rightarrow> int option) \<Rightarrow> (nat \<times> string list) list \<Rightarrow> memory_outcome list \<Rightarrow> 'a content_db_scheme
    \<Rightarrow> memory_outcome list \<times> 'a content_db_scheme" where
  "patch_all env t ids [] outs db = (outs, db)"
| "patch_all env t ids (fr # frs) outs db =
     (let (outs1, db1) = patch_forward env t ids fr outs db in patch_all env t ids frs outs1 db1)"

subsection \<open>The transaction\<close>

definition label_batch ::
  "content_env \<Rightarrow> int \<Rightarrow> string list \<Rightarrow> 'a content_db_scheme \<Rightarrow> content_error + 'a content_db_scheme" where
  "label_batch env t labels db =
     (if labels = [] then Inr db
      else and_then (validate_labels labels) (\<lambda>ls. add_labels_core t ls (ce_now env) db))"

definition finish_batch ::
  "content_env \<Rightarrow> target_thread \<Rightarrow> string list \<Rightarrow> batch_state \<Rightarrow> 'a content_db_scheme
    \<Rightarrow> content_error + batch_output \<times> 'a content_db_scheme" where
  "finish_batch env t labels st db =
     (case patch_all env (tt_id t) (bs_ids st) (bs_forward st) (bs_outcomes st) db of
        (outs, db1) \<Rightarrow>
          and_then (label_batch env (tt_id t) labels db1) (\<lambda>db2.
          Inr (\<lparr>bo_thread = tt_id t, bo_thread_created = tt_created t, bo_outcomes = outs,
                bo_dispatch = bs_dispatch st, bo_suppressed = False\<rparr>,
               snd (refresh_message_bounds (tt_id t) (ce_now env) db2))))"

definition start_batch :: "(string \<Rightarrow> (memory_row \<times> int option) option) \<Rightarrow> batch_state" where
  "start_batch existing = \<lparr>bs_ids = attached_ids existing, bs_outcomes = [], bs_dispatch = [], bs_forward = []\<rparr>"

definition seed_existing ::
  "int \<Rightarrow> batch_item list \<Rightarrow> 'a content_db_scheme \<Rightarrow> string \<Rightarrow> (memory_row \<times> int option) option" where
  "seed_existing t items db = existing_by_eid (find_by_external_ids t (wanted_eids items) db)"

definition import_memories ::
  "content_env \<Rightarrow> target_thread \<Rightarrow> batch_input \<Rightarrow> string list \<Rightarrow> 'a content_db_scheme
    \<Rightarrow> content_error + batch_output \<times> 'a content_db_scheme" where
  "import_memories env t input batch db =
     and_then (normalize_items env (tt_kind t) (bt_items input)) (\<lambda>items.
     let existing = seed_existing (tt_id t) items db
     in and_then (batch_loop env (tt_id t) (bt_upsert input) existing batch items (start_batch existing) db)
        (\<lambda>(st, db1). finish_batch env t (bt_labels input) st db1))"

definition import_batch ::
  "content_env \<Rightarrow> batch_input \<Rightarrow> string list \<Rightarrow> marker_row option \<Rightarrow> 'a content_db_scheme
    \<Rightarrow> content_error + batch_output \<times> 'a content_db_scheme" where
  "import_batch env input batch marker db =
     and_then (validate_batch_summaries env (bt_items input) db) (\<lambda>_.
     and_then (resolve_target env (mapped_thread env (input_key (bt_identity input)) db) (bt_target input) db)
       (\<lambda>(t, db1).
     let marker_key = Option.bind marker mk_thread_key
     in and_then (check_owner (bt_identity input) t) (\<lambda>_.
        and_then (check_marker_key env marker_key t db1) (\<lambda>_.
        let db2 = (case marker of None \<Rightarrow> db1 | Some row \<Rightarrow> consume_marker (mk_identity row) db1)
        in and_then (map_identity env t marker_key (bt_identity input) db2) (\<lambda>db3.
           import_memories env t input batch db3)))))"

definition add_memories_batch ::
  "content_env \<Rightarrow> batch_input \<Rightarrow> 'a content_db_scheme \<Rightarrow> content_error + batch_output \<times> 'a content_db_scheme" where
  "add_memories_batch env input db =
     and_then (check_batch (bt_items input)) (\<lambda>batch.
     let marker = marker_of (input_key (bt_identity input)) db
     in and_then (suppression_gate env marker (bt_override input)) (\<lambda>suppressed.
        if suppressed then Inr (suppressed_output, db)
        else import_batch env input batch marker db))"

subsection \<open>Members are only ever appended\<close>

definition grows :: "'a content_db_scheme \<Rightarrow> 'a content_db_scheme \<Rightarrow> bool" where
  "grows db db' \<longleftrightarrow> (\<exists>ls. ct_links db' = ct_links db @ ls)"

lemma grows_same: "ct_links db' = ct_links db \<Longrightarrow> grows db db'"
  by (simp add: grows_def)

lemma grows_trans [trans]: "grows a b \<Longrightarrow> grows b c \<Longrightarrow> grows a c"
  by (auto simp: grows_def)

lemma grows_linked: "grows db db' \<Longrightarrow> linked t m db \<Longrightarrow> linked t m db'"
  by (auto simp: grows_def linked_def)

lemma find_append_Some: "find p xs = Some x \<Longrightarrow> find p (xs @ ys) = Some x"
  by (induction xs) auto

lemma grows_position: "grows db db' \<Longrightarrow> find_position t m db = Some p \<Longrightarrow> find_position t m db' = Some p"
  by (auto simp: grows_def find_position_def find_append_Some)

lemma linked_position: "linked t m db \<longleftrightarrow> find_position t m db \<noteq> None"
  by (auto simp: linked_def find_position_def find_None_iff list_ex_iff)

lemma grows_put_link [simp]: "grows db (put_link t m now db)"
  by (simp add: grows_def put_link_def)

lemma grows_attach: "grows db (attach_parents t now present ps db)"
proof (induction ps arbitrary: db)
  case (Cons p ps)
  have "grows db (if present p then insert_or_ignore_link t p now db else db)"
    by (simp add: insert_or_ignore_link_def grows_same)
  then show ?case using Cons.IH grows_trans by fastforce
qed (simp add: grows_same)

text \<open>What \<open>add_memory_core\<close> adds.\<close>

lemma add_memory_core_adds:
  "yields (add_memory_core env t d skip db) (\<lambda>((i, d'), db'). grows db db' \<and> linked t i db'
     \<and> i \<notin> memory_ids db
     \<and> (\<forall>e. md_external d = Some e \<longrightarrow> Some e \<notin> mem_external ` set (ct_memories db))
     \<and> ct_memories db' = ct_memories db @ [memory_of_data i (ce_now env) d']
     \<and> md_external d' = md_external d \<and> (skip \<longrightarrow> md_parents d' = md_parents d)
     \<and> (\<forall>a b. linked a b db' \<longrightarrow> linked a b db \<or> a = t \<and> (b = i \<or> b \<in> set (md_parents d'))))"
  unfolding add_memory_core_def
proof (intro yields, goal_cases)
  case (1 thread d1 u parents v default_id d2 present db1 db2 x i db3 db4)
  have ext: "md_external d2 = md_external d"
    using 1(2,8) by (auto simp: normalize_memory_for_create_def elim!: and_then_InrE split: option.splits)
  have par: "skip \<longrightarrow> md_parents d2 = md_parents d"
    using 1(2,7,8) by (auto simp: normalize_memory_for_create_def inject_default_def elim!: and_then_InrE
        split: option.splits)
  have db1: "db1 = attach_parents t (ce_now env) present (md_parents d2) db" by (fact 1)
  have s: "same_content db1 db2" using yieldsD [OF same_content_link_media] 1 by blast
  have ins: "insert_memory env d2 db2 = Inr (i, db3)" and lk: "insert_link t i (ce_now env) db3 = Inr db4"
    using 1 by auto
  from ins have m3: "ct_memories db3 = ct_memories db2 @ [memory_of_data i (ce_now env) d2]"
    and l3: "ct_links db3 = ct_links db2" and new: "find_memory i db2 = None"
    and fresh: "\<not> (md_external d2 \<noteq> None \<and> list_ex (\<lambda>m. mem_external m = md_external d2) (ct_memories db2))"
    by (auto simp: insert_memory_def Let_def split: if_splits)
  from lk have db4: "db4 = put_link t i (ce_now env) db3" by (simp add: insert_link_def split: if_splits)
  have mem: "ct_memories db2 = ct_memories db" using s by (simp add: same_content_def db1)
  have "grows db db1" unfolding db1 by (rule grows_attach)
  also have "grows db1 db3" using s l3 by (simp add: same_content_def grows_same)
  also have "grows db3 db4" by (simp add: db4)
  finally have g: "grows db db4" .
  have lks: "linked a b db4 \<longleftrightarrow> linked a b db1 \<or> a = t \<and> b = i" for a b
    using s l3 by (simp add: db4) (auto simp: linked_def same_content_def)
  have "i \<notin> memory_ids db" using new mem by (simp add: find_memory_None memory_ids_def)
  moreover have "Some e \<notin> mem_external ` set (ct_memories db)" if "md_external d = Some e" for e
    using fresh that mem ext by (force simp: list_ex_iff)
  ultimately show ?case
    using g lks m3 mem ext par by (auto simp: db4 db1 linked_attach_parents)
qed

lemma update_content_tables [simp]:
  "ct_links (snd (update_content_only now i c db)) = ct_links db"
  "ct_threads (snd (update_content_only now i c db)) = ct_threads db"
  "ct_links (snd (update_parent_ids i ps db)) = ct_links db"
  "ct_threads (snd (update_parent_ids i ps db)) = ct_threads db"
  by (simp_all add: update_content_only_def update_parent_ids_def)

lemma update_content_ok: "store_ok F db \<Longrightarrow> store_ok F (snd (update_content_only now i c db))"
  unfolding update_content_only_def by (rule update_memories_ok) auto

lemma update_parents_ok: "store_ok F db \<Longrightarrow> store_ok F (snd (update_parent_ids i ps db))"
  unfolding update_parent_ids_def by (rule update_memories_ok) auto

lemma memory_ids_row_updates [simp]:
  "memory_ids (snd (update_content_only now i c db)) = memory_ids db"
  "memory_ids (snd (update_parent_ids i ps db)) = memory_ids db"
  by (simp_all add: update_content_only_def update_parent_ids_def memory_ids_update_memories)

subsection \<open>The loop over the memories\<close>

text \<open>An invariant indexed by the items that were processed.\<close>

lemma batch_loop_inv:
  assumes "\<And>xs item st db st' db'. item \<in> set items \<Longrightarrow> I xs st db
      \<Longrightarrow> batch_step env t upsert existing batch item st db = Inr (st', db') \<Longrightarrow> I (xs @ [item]) st' db'"
    and "I xs st db" "batch_loop env t upsert existing batch items st db = Inr (st', db')"
  shows "I (xs @ items) st' db'"
  using assms
proof (induction items arbitrary: xs st db)
  case (Cons item items)
  from Cons.prems(3) obtain st1 db1 where
    s: "batch_step env t upsert existing batch item st db = Inr (st1, db1)"
    and r: "batch_loop env t upsert existing batch items st1 db1 = Inr (st', db')"
    by (auto elim!: and_then_InrE)
  have "I ((xs @ [item]) @ items) st' db'"
    by (rule Cons.IH [OF Cons.prems(1) Cons.prems(1) [OF _ Cons.prems(2) s] r]) auto
  then show ?case by simp
qed simp

text \<open>A step either overwrites a member of the thread or adds one.\<close>

lemma batch_step_cases:
  assumes "batch_step env t upsert existing batch item st db = Inr (st', db')"
    and refs: "resolve_refs (bs_ids st) batch [] (bi_parents item) = (resolved, pending)"
  obtains (overwritten) e m p where "item_eid item = Some e" "existing e = Some (m, Some p)" "upsert"
      "mem_user m = user_column (md_user (bi_memory item))"
      "st' = note_outcome (Some e) \<lparr>ao_id = mem_id m, ao_created = False, ao_position = p,
         ao_parents_empty = (mem_parents m = []), ao_parents = resolved\<rparr>
         (mem_id m, (bi_memory item)\<lparr>md_role := mem_role m, md_content_type := mem_content_type m,
            md_media := mem_media m\<rparr>) pending st"
      "db' = snd (update_content_only (ce_now env) (mem_id m) (md_content (bi_memory item)) db)"
    | (created) i d p where "Option.bind (item_eid item) existing = None"
      "add_memory_core env t ((bi_memory item)\<lparr>md_parents := resolved\<rparr>) True db = Inr ((i, d), db')"
      "find_position t i db' = Some p"
      "st' = note_outcome (item_eid item) \<lparr>ao_id = i, ao_created = True, ao_position = p,
         ao_parents_empty = False, ao_parents = resolved\<rparr> (i, d) pending st"
proof (cases "Option.bind (item_eid item) existing")
  case None
  with assms obtain i d where core: "add_memory_core env t ((bi_memory item)\<lparr>md_parents := resolved\<rparr>) True db = Inr ((i, d), db')"
    and st': "st' = note_outcome (item_eid item) \<lparr>ao_id = i, ao_created = True,
         ao_position = (case find_position t i db' of None \<Rightarrow> 0 | Some p \<Rightarrow> p),
         ao_parents_empty = False, ao_parents = resolved\<rparr> (i, d) pending st"
    by (auto simp: batch_step_def create_batch_memory_def elim!: and_then_InrE)
  have "linked t i db'" using yieldsD [OF add_memory_core_adds core] by simp
  then obtain p where "find_position t i db' = Some p" by (auto simp: linked_position)
  with created None core st' show thesis by simp
next
  case (Some x)
  obtain m a where x: "x = (m, a)" by (cases x)
  from Some obtain e where e: "item_eid item = Some e" "existing e = Some (m, a)"
    by (cases "item_eid item") (auto simp: x)
  from assms Some e have up: upsert and ow: "overwrite_memory env item m a resolved pending st db = Inr (st', db')"
    by (auto simp: batch_step_def x split: if_splits)
  from ow obtain p where "a = Some p" by (cases a) (auto simp: overwrite_memory_def Let_def split: if_splits)
  with overwritten e up ow show thesis by (auto simp: overwrite_memory_def Let_def split: if_splits)
qed

text \<open>The state of the loop: the tables, the known ids and the outcomes.\<close>

definition batch_inv ::
  "int \<Rightarrow> 'a content_db_scheme \<Rightarrow> (string \<Rightarrow> (memory_row \<times> int option) option) \<Rightarrow> batch_item list
    \<Rightarrow> batch_state \<Rightarrow> 'a content_db_scheme \<Rightarrow> bool" where
  "batch_inv t db0 existing xs st db \<longleftrightarrow> store_ok {t} db \<and> ct_threads db = ct_threads db0
     \<and> group_side db = group_side db0 \<and> grows db0 db \<and> memory_ids db0 \<subseteq> memory_ids db
     \<and> (\<forall>e i. bs_ids st e = Some i \<longrightarrow> linked t i db)
     \<and> (\<forall>e m p. existing e = Some (m, Some p) \<longrightarrow>
          bs_ids st e = Some (mem_id m) \<and> find_position t (mem_id m) db = Some p)
     \<and> length (bs_outcomes st) = length xs
     \<and> (\<forall>out \<in> set (bs_outcomes st). find_position t (ao_id out) db = Some (ao_position out))
     \<and> (\<forall>fr \<in> set (bs_forward st). fst fr < length xs)"

lemma batch_invD:
  assumes "batch_inv t db0 existing xs st db"
  shows "store_ok {t} db" "ct_threads db = ct_threads db0" "group_side db = group_side db0" "grows db0 db"
    and "memory_ids db0 \<subseteq> memory_ids db"
    and "bs_ids st e = Some i \<Longrightarrow> linked t i db"
    and "existing e = Some (m, Some p) \<Longrightarrow> bs_ids st e = Some (mem_id m) \<and> find_position t (mem_id m) db = Some p"
    and "length (bs_outcomes st) = length xs"
    and "out \<in> set (bs_outcomes st) \<Longrightarrow> find_position t (ao_id out) db = Some (ao_position out)"
    and "fr \<in> set (bs_forward st) \<Longrightarrow> fst fr < length xs"
  using assms unfolding batch_inv_def by blast+

lemma note_outcome_simps [simp]:
  "bs_outcomes (note_outcome e out disp pending st) = bs_outcomes st @ [out]"
  "bs_ids (note_outcome None out disp pending st) = bs_ids st"
  "bs_ids (note_outcome (Some k) out disp pending st) = (bs_ids st)(k \<mapsto> ao_id out)"
  "bs_dispatch (note_outcome e out disp pending st) = bs_dispatch st @ [disp]"
  "bs_forward (note_outcome e out disp pending st) =
     (if pending = [] then bs_forward st else bs_forward st @ [(length (bs_outcomes st), pending)])"
  by (simp_all add: note_outcome_def)

lemma note_outcome_ids:
  "bs_ids (note_outcome e out disp pending st) k = (if e = Some k then Some (ao_id out) else bs_ids st k)"
  by (cases e) simp_all

lemma batch_inv_overwritten:
  assumes inv: "batch_inv t db0 existing xs st db" and ex: "existing e = Some (m, Some p)"
    and out: "ao_id out = mem_id m" "ao_position out = p"
  shows "batch_inv t db0 existing (xs @ [item]) (note_outcome (Some e) out disp pending st)
    (snd (update_content_only now (mem_id m) c db))"
proof -
  note i = batch_invD [OF inv]
  have pos: "find_position a b (snd (update_content_only now (mem_id m) c db)) = find_position a b db" for a b
    by (simp add: find_position_def)
  have ids: "(bs_ids st)(e \<mapsto> mem_id m) = bs_ids st" using i(7) [OF ex] by auto
  have lk: "linked a b (snd (update_content_only now (mem_id m) c db)) = linked a b db" for a b
    by (simp add: linked_def)
  have "grows db0 (snd (update_content_only now (mem_id m) c db))" using i(4) by (simp add: grows_def)
  then show ?thesis
    using i(7) [OF ex] inv unfolding batch_inv_def
    by (auto simp: pos lk out ids update_content_ok less_Suc_eq)
qed

lemma batch_inv_created:
  assumes inv: "batch_inv t db0 existing xs st db" and new: "Option.bind e existing = None"
    and core: "add_memory_core env t d True db = Inr ((i, d'), db')"
    and out: "ao_id out = i" "find_position t i db' = Some (ao_position out)"
  shows "batch_inv t db0 existing (xs @ [item]) (note_outcome e out disp pending st) db'"
proof -
  note i = batch_invD [OF inv]
  from yieldsD [OF add_memory_core_ok [OF i(1), of t] core]
  have ok: "store_ok {t} db'" and th: "ct_threads db' = ct_threads db" by auto
  from yieldsD [OF add_memory_core_adds core]
  have g: "grows db db'" and l: "linked t i db'" and m: "ct_memories db' = ct_memories db @ [memory_of_data i (ce_now env) d']"
    by auto
  have gs: "group_side db' = group_side db" using yieldsD [OF group_side_add_memory_core core] by simp
  have other: "existing k = None" if "e = Some k" for k using new that by simp
  show ?thesis
    unfolding batch_inv_def
  proof (intro conjI allI impI ballI, goal_cases)
    case (6 k j)
    then show ?case using i(6) [of k j] grows_linked [OF g] l out(1)
      by (auto simp: note_outcome_ids split: if_splits)
  next
    case (7 k r p)
    with i(7) [of k r p] other [of k] show ?case by (auto simp: note_outcome_ids)
  next
    case (8 k r p)
    with i(7) [of k r p] grows_position [OF g] show ?case by blast
  next
    case (10 o')
    with i(9) [of o'] out grows_position [OF g] show ?case by auto
  next
    case (11 fr)
    with i(8) i(10) [of fr] show ?case by (auto simp: less_Suc_eq split: if_splits)
  next
    case 5
    show ?case using i(5) m by (auto simp: memory_ids_def)
  qed (use ok th gs i grows_trans [OF i(4) g] in simp_all)
qed

lemma batch_inv_step:
  assumes "batch_inv t db0 existing xs st db"
    and "batch_step env t upsert existing batch item st db = Inr (st', db')"
  shows "batch_inv t db0 existing (xs @ [item]) st' db'"
proof -
  obtain resolved pending where refs: "resolve_refs (bs_ids st) batch [] (bi_parents item) = (resolved, pending)"
    by (cases "resolve_refs (bs_ids st) batch [] (bi_parents item)")
  show ?thesis
  proof (rule batch_step_cases [OF assms(2) refs], goal_cases)
    case (1 e m p)
    then show ?case by (simp, intro batch_inv_overwritten [OF assms(1)]) auto
  next
    case (2 i d p)
    then show ?case by (simp, intro batch_inv_created [OF assms(1)]) auto
  qed
qed

text \<open>The map of the existing rows.\<close>

lemma existing_by_eid_Some:
  "existing_by_eid rows e = Some row \<Longrightarrow> row \<in> set rows \<and> mem_external (fst row) = Some e"
proof (induction rows rule: rev_induct)
  case (snoc x xs)
  then show ?case
    by (auto simp: existing_by_eid_def split: option.splits if_splits)
qed (simp add: existing_by_eid_def)

lemma external_case: "(case x of None \<Rightarrow> False | Some e \<Rightarrow> e \<in> S) \<longleftrightarrow> (\<exists>e \<in> S. x = Some e)"
  by (cases x) auto

lemma find_by_external_member:
  "(m, p) \<in> set (find_by_external_ids t es db) \<longleftrightarrow>
     m \<in> set (ct_memories db) \<and> p = find_position t (mem_id m) db
     \<and> (\<exists>e \<in> set es. mem_external m = Some e)"
proof -
  have "(m, p) \<in> set (find_by_external_ids t es db) \<longleftrightarrow>
     m \<in> set (ct_memories db) \<and> p = find_position t (mem_id m) db
     \<and> (\<exists>e \<in> (\<Union>c\<in>set (chunks in_list_chunk_size es). set c). mem_external m = Some e)"
    unfolding find_by_external_ids_def external_case by (auto simp: image_iff)
  then show ?thesis by (simp add: set_chunks in_list_chunk_size_def)
qed

lemma batch_inv_start:
  assumes ok: "store_ok {t} db"
  shows "batch_inv t db (seed_existing t items db) [] (start_batch (seed_existing t items db)) db"
proof -
  let ?ex = "seed_existing t items db"
  have pos: "find_position t (mem_id m) db = Some p" if "?ex e = Some (m, Some p)" for e m p
    using that existing_by_eid_Some [of _ e "(m, Some p)"] find_by_external_member [of m "Some p" t "wanted_eids items" db]
    by (auto simp: seed_existing_def)
  then have "linked t i db" if "attached_ids ?ex e = Some i" for e i
    using that by (auto simp: attached_ids_def linked_position split: option.splits prod.splits)
  with ok pos show ?thesis by (auto simp: batch_inv_def grows_same attached_ids_def start_batch_def)
qed

subsection \<open>Forward references point at members\<close>

lemma forward_additions_iff:
  "i \<in> set (forward_additions ids seen es) \<longleftrightarrow> i \<notin> set seen \<and> (\<exists>e \<in> set es. ids e = Some i)"
  by (induction ids seen es rule: forward_additions.induct) (auto split: option.splits if_splits)

lemma attach_linked: "(\<And>p. p \<in> set ps \<Longrightarrow> linked t p db) \<Longrightarrow> attach_parents t now present ps db = db"
  by (induction ps arbitrary: db) (auto simp: insert_or_ignore_link_def)

definition patch_inv ::
  "int \<Rightarrow> 'a content_db_scheme \<Rightarrow> (string \<Rightarrow> int option) \<Rightarrow> 'a content_db_scheme \<Rightarrow> bool" where
  "patch_inv t db0 ids db \<longleftrightarrow> store_ok {t} db \<and> ct_threads db = ct_threads db0
     \<and> group_side db = group_side db0 \<and> ct_links db = ct_links db0 \<and> memory_ids db = memory_ids db0
     \<and> (\<forall>e i. ids e = Some i \<longrightarrow> linked t i db)"

text \<open>Every parent found is a member already, so a patch changes the row of one memory only.\<close>

lemma patch_forward_eq:
  assumes "patch_inv t db0 ids db"
  shows "patch_forward env t ids fr outs db =
    (let out = outs ! fst fr;
         additions = forward_additions ids (ao_parents out) (snd fr);
         parents = ao_parents out @ additions
     in if \<not> ao_created out \<or> additions = [] then (outs, db)
        else (outs[fst fr := out\<lparr>ao_parents := parents\<rparr>], snd (update_parent_ids (ao_id out) parents db)))"
proof -
  have "linked t i (snd (update_parent_ids k ps db))" if "i \<in> set (forward_additions ids seen es)" for i k ps seen es
    using that assms by (auto simp: forward_additions_iff patch_inv_def linked_def)
  then have "attach_parents t now pr (forward_additions ids seen es) (snd (update_parent_ids k ps db))
      = snd (update_parent_ids k ps db)" for now pr seen es k ps
    by (rule attach_linked)
  then show ?thesis by (simp add: patch_forward_def Let_def split: prod.split)
qed

lemma patch_forward_inv:
  assumes "patch_inv t db0 ids db"
  shows "patch_inv t db0 ids (snd (patch_forward env t ids fr outs db))"
  using assms unfolding patch_forward_eq [OF assms]
  by (auto simp: Let_def patch_inv_def update_parents_ok linked_def)

lemma patch_all_inv:
  "patch_inv t db0 ids db \<Longrightarrow> patch_inv t db0 ids (snd (patch_all env t ids frs outs db))"
proof (induction frs arbitrary: outs db)
  case (Cons fr frs)
  obtain outs1 db1 where p: "patch_forward env t ids fr outs db = (outs1, db1)"
    by (cases "patch_forward env t ids fr outs db")
  have "patch_inv t db0 ids db1" using patch_forward_inv [OF Cons.prems, of env fr outs] p by simp
  from Cons.IH [OF this, of outs1] show ?case by (simp add: p)
qed simp

text \<open>What the patches keep of the outcomes.\<close>

definition outcome_key :: "memory_outcome \<Rightarrow> int \<times> bool \<times> int \<times> bool" where
  "outcome_key x = (ao_id x, ao_created x, ao_position x, ao_parents_empty x)"

definition same_outcomes :: "memory_outcome list \<Rightarrow> memory_outcome list \<Rightarrow> bool" where
  "same_outcomes xs ys \<longleftrightarrow> map outcome_key xs = map outcome_key ys"

lemma patch_forward_outcomes: "same_outcomes outs (fst (patch_forward env t ids fr outs db))"
proof -
  have "outcome_key (x\<lparr>ao_parents := ps\<rparr>) = outcome_key x" for x ps by (simp add: outcome_key_def)
  then have "map outcome_key (outs[i := (outs ! i)\<lparr>ao_parents := ps\<rparr>]) = map outcome_key outs" for i ps
    by (cases "i < length outs") (simp_all add: map_update list_update_same_conv list_update_beyond)
  then show ?thesis
    by (auto simp: patch_forward_def same_outcomes_def Let_def split: prod.split)
qed

lemma patch_all_outcomes: "same_outcomes outs (fst (patch_all env t ids frs outs db))"
proof (induction frs arbitrary: outs db)
  case (Cons fr frs)
  obtain outs1 db1 where p: "patch_forward env t ids fr outs db = (outs1, db1)"
    by (cases "patch_forward env t ids fr outs db")
  have "same_outcomes outs outs1" using patch_forward_outcomes [of outs env t ids fr db] p by simp
  moreover have "same_outcomes outs1 (fst (patch_all env t ids frs outs1 db1))" by (rule Cons.IH)
  ultimately show ?case by (simp add: p same_outcomes_def)
qed (simp add: same_outcomes_def)

subsection \<open>The state after the memories\<close>

text \<open>The end of the batch.\<close>

lemma label_batch_tables:
  "label_batch env t ls db = Inr db' \<Longrightarrow> ct_links db' = ct_links db \<and> ct_memories db' = ct_memories db
     \<and> ct_threads db' = ct_threads db \<and> group_side db' = group_side db"
  by (auto simp: label_batch_def add_labels_core_def elim!: and_then_InrE split: if_splits option.splits)

lemma label_batch_ok: "label_batch env t ls db = Inr db' \<Longrightarrow> store_ok F db \<Longrightarrow> store_ok F db'"
  by (auto simp: label_batch_def add_labels_core_def intro!: add_each_label_ok dest: find_thread_in
      elim!: and_then_InrE split: if_splits option.splits)

lemma finish_batch_steps:
  assumes "finish_batch env t ls st db = Inr (out, db')"
  obtains db1 db2 where
    "patch_all env (tt_id t) (bs_ids st) (bs_forward st) (bs_outcomes st) db = (bo_outcomes out, db1)"
    "label_batch env (tt_id t) ls db1 = Inr db2"
    "db' = snd (refresh_message_bounds (tt_id t) (ce_now env) db2)"
    "bo_thread out = tt_id t" "bo_thread_created out = tt_created t" "\<not> bo_suppressed out"
    "bo_dispatch out = bs_dispatch st"
  using assms by (auto simp: finish_batch_def and_then_Inr split: prod.splits)

lemma import_memories_steps:
  assumes "import_memories env t input batch db = Inr (out, db')"
  obtains items st db1 where
    "normalize_items env (tt_kind t) (bt_items input) = Inr items"
    "batch_loop env (tt_id t) (bt_upsert input) (seed_existing (tt_id t) items db) batch items
       (start_batch (seed_existing (tt_id t) items db)) db = Inr (st, db1)"
    "finish_batch env t (bt_labels input) st db1 = Inr (out, db')"
  using assms by (auto simp: import_memories_def Let_def and_then_Inr)

lemma normalize_items_length: "normalize_items env k items = Inr items' \<Longrightarrow> length items' = length items"
  by (induction items arbitrary: items') (auto simp: and_then_Inr)

lemma refresh_links [simp]:
  "find_position t m (snd (refresh_message_bounds u now db)) = find_position t m db"
  by (simp add: find_position_def)

text \<open>What an import of memories leaves behind.\<close>

lemma import_memories_result:
  assumes ok: "content_ok db" and run: "import_memories env t input batch db = Inr (out, db')"
  shows "content_ok db'" "group_side db' = group_side db" "grows db db'"
    and "\<And>x. x \<in> set (bo_outcomes out) \<Longrightarrow> find_position (tt_id t) (ao_id x) db' = Some (ao_position x)"
    and "length (bo_outcomes out) = length (bt_items input)"
    and "bo_thread out = tt_id t" "bo_thread_created out = tt_created t" "\<not> bo_suppressed out"
proof -
  obtain items st db1 where items: "normalize_items env (tt_kind t) (bt_items input) = Inr items"
    and loop: "batch_loop env (tt_id t) (bt_upsert input) (seed_existing (tt_id t) items db) batch items
       (start_batch (seed_existing (tt_id t) items db)) db = Inr (st, db1)"
    and fin: "finish_batch env t (bt_labels input) st db1 = Inr (out, db')"
    by (rule import_memories_steps [OF run])
  obtain db2 db3 where
    patch: "patch_all env (tt_id t) (bs_ids st) (bs_forward st) (bs_outcomes st) db1 = (bo_outcomes out, db2)"
    and lab: "label_batch env (tt_id t) (bt_labels input) db2 = Inr db3"
    and db': "db' = snd (refresh_message_bounds (tt_id t) (ce_now env) db3)"
    and out: "bo_thread out = tt_id t" "bo_thread_created out = tt_created t" "\<not> bo_suppressed out"
    by (rule finish_batch_steps [OF fin])
  have start: "batch_inv (tt_id t) db (seed_existing (tt_id t) items db) [] (start_batch (seed_existing (tt_id t) items db)) db"
    by (rule batch_inv_start) (rule store_ok_mono [OF ok], simp)
  have inv: "batch_inv (tt_id t) db (seed_existing (tt_id t) items db) ([] @ items) st db1"
    by (rule batch_loop_inv [where I = "batch_inv (tt_id t) db (seed_existing (tt_id t) items db)",
          OF batch_inv_step start loop])
  note i = batch_invD [OF inv]
  have "patch_inv (tt_id t) db1 (bs_ids st) db1" using i by (auto simp: patch_inv_def)
  from patch_all_inv [OF this, of env "bs_forward st" "bs_outcomes st"] patch
  have p: "patch_inv (tt_id t) db1 (bs_ids st) db2" by simp
  from label_batch_tables [OF lab] p have links: "ct_links db3 = ct_links db1" and th: "ct_threads db3 = ct_threads db"
    and gs: "group_side db3 = group_side db" using i by (simp_all add: patch_inv_def)
  have ok3: "store_ok {tt_id t} db3" using label_batch_ok [OF lab] p by (simp add: patch_inv_def)
  have mono: "linked a b db3" if "linked a b db" for a b
    using grows_linked [OF i(4) that] by (simp add: linked_def links)
  show "content_ok db'" unfolding db' by (rule refresh_after_links [OF ok ok3 th mono])
  show "group_side db' = group_side db" by (simp add: db' gs)
  show "grows db db'" using i(4) by (simp add: db' grows_def links)
  have same: "same_outcomes (bs_outcomes st) (bo_outcomes out)"
    using patch_all_outcomes [of "bs_outcomes st" env "tt_id t" "bs_ids st" "bs_forward st" db1] patch by simp
  then have "length (bs_outcomes st) = length (bo_outcomes out)"
    unfolding same_outcomes_def by (rule map_eq_imp_length_eq)
  then show "length (bo_outcomes out) = length (bt_items input)"
    using i(8) normalize_items_length [OF items] by simp
  show "find_position (tt_id t) (ao_id x) db' = Some (ao_position x)" if x: "x \<in> set (bo_outcomes out)" for x
  proof -
    from x have "outcome_key x \<in> set (map outcome_key (bs_outcomes st))"
      using same by (simp add: same_outcomes_def)
    then obtain y where "y \<in> set (bs_outcomes st)" "outcome_key y = outcome_key x" by auto
    then have "find_position (tt_id t) (ao_id x) db1 = Some (ao_position x)"
      using i(9) [of y] by (simp add: outcome_key_def)
    then show ?thesis by (simp add: db') (simp add: find_position_def links)
  qed
  show "bo_thread out = tt_id t" "bo_thread_created out = tt_created t" "\<not> bo_suppressed out" by (fact out)+
qed

subsection \<open>The steps of an import\<close>

lemma resolve_target_ok:
  assumes ok: "content_ok db"
  shows "yields (resolve_target env mapped target db) (\<lambda>(t, db'). content_ok db'
     \<and> group_side db' = group_side db \<and> grows db db' \<and> ct_memories db' = ct_memories db
     \<and> tt_id t \<in> thread_ids db' \<and> (tt_created t \<or> db' = db))"
proof (cases target)
  case (Existing_Thread i)
  show ?thesis
    unfolding Existing_Thread resolve_target_def batch_target.case resolve_existing_def
    by (intro yields) (auto simp: ok grows_same dest: find_thread_in)
next
  case (Upsert_By_Channel d)
  have ins: "content_ok db1 \<and> i \<in> thread_ids db1 \<and> group_side db1 = group_side db \<and> grows db db1
      \<and> ct_memories db1 = ct_memories db"
    if "insert_thread env (d\<lparr>td_default := None\<rparr>) db = Inr (i, db1)" for d i db1
    using insert_thread_ok [OF ok that] group_side_insert_thread [OF that] that
    by (auto simp: insert_thread_def Let_def grows_def split: if_splits)
  show ?thesis
    unfolding Upsert_By_Channel resolve_target_def batch_target.case resolve_channel_def
    by (intro yields) (auto simp: ok grows_same dest: find_thread_in ins)
qed

text \<open>Mapping the identity keeps the graph, the content and the markers.\<close>

lemma find_hit: "find P xs = Some x \<Longrightarrow> x \<in> set xs \<and> P x"
  by (induction xs) (auto split: if_splits)

lemma find_identity_upsert:
  assumes "find_resolved k (upsert_resolved k t now db) = Some row"
  shows "id_thread row = t"
proof -
  from assms have row: "row \<in> set (db_identities (upsert_resolved k t now db))" "id_key row = k"
    unfolding find_resolved_def by (auto dest: find_hit)
  show ?thesis
  proof (cases "find_resolved k db")
    case None
    then have "\<forall>r \<in> set (db_identities db). id_key r \<noteq> k" by (auto simp: find_resolved_def find_None_iff)
    with row None show ?thesis
      by (auto simp: upsert_resolved_def) (metis identity_row.select_convs(2))
  next
    case (Some old)
    with row(1) have "row \<in> (\<lambda>r. if id_key r = k then r\<lparr>id_thread := t, id_last_seen := now\<rparr> else r)
        ` set (db_identities db)"
      by (simp add: upsert_resolved_def)
    then obtain r where "row = (if id_key r = k then r\<lparr>id_thread := t, id_last_seen := now\<rparr> else r)"
      by (rule imageE)
    with row(2) show ?thesis by (cases "id_key r = k") simp_all
  qed
qed

lemma find_identity_upsert_some: "find_resolved k (upsert_resolved k t now db) \<noteq> None"
  by (auto simp: upsert_resolved_def find_resolved_def find_None_iff)

lemma revive_key_ok:
  assumes "graph_ok db" "revive_key env t user key db = Inr db'"
  shows "graph_ok db'" "same_content db db'" "db_markers db' = db_markers db" "db_identities db' = db_identities db"
proof -
  obtain db1 where key: "(if find_key_of_thread t db = None
        then of_group (assign_key (ce_group env) t user key ''source_identity'' (ce_now env) db) else Inr db) = Inr db1"
    and db': "db' = reconnect_thread_relations key t (ce_now env)
              (snd (revive_current (ce_group env) key t (ce_now env) db1))"
    using assms(2) by (auto simp: revive_key_def and_then_Inr)
  have one: "graph_ok db1 \<and> same_content db db1 \<and> db_markers db1 = db_markers db \<and> db_identities db1 = db_identities db"
  proof (cases "find_key_of_thread t db")
    case None
    with key have "assign_key (ce_group env) t user key ''source_identity'' (ce_now env) db = Inr db1" by simp
    from this graph_ok_same [OF assign_key_same [OF this] assms(1)] same_content_assign_key [OF this]
    show ?thesis by (auto simp: assign_key_def split: if_splits)
  qed (use key assms(1) in simp)
  then show "graph_ok db'" unfolding db' by (intro reconnect_relations_graph revive_current_graph) simp
  have "same_content db1 (snd (revive_current (ce_group env) key t (ce_now env) db1))" by simp
  also have "same_content \<dots> db'" unfolding db' by simp
  finally show "same_content db db'" using one same_content_trans by blast
  show "db_markers db' = db_markers db" "db_identities db' = db_identities db"
    using one by (simp_all add: db' reconnect_thread_relations_def revive_current_def Let_def)
qed

lemma map_identity_ok:
  assumes ok: "graph_ok db" and run: "map_identity env t mk e db = Inr db'"
  shows "graph_ok db'" "same_content db db'" "db_markers db' = db_markers db"
    and "input_key e = Some k \<Longrightarrow> ce_group_writes env \<Longrightarrow>
      \<exists>row. find_resolved k db' = Some row \<and> id_thread row = tt_id t"
proof -
  have "graph_ok db' \<and> same_content db db' \<and> db_markers db' = db_markers db
    \<and> (\<forall>k. input_key e = Some k \<longrightarrow> ce_group_writes env \<longrightarrow>
      (\<exists>row. find_resolved k db' = Some row \<and> id_thread row = tt_id t))"
  proof (cases "e = None \<or> input_key e = None \<or> \<not> ce_group_writes env")
    case True
    with ok run show ?thesis by (auto simp: map_identity_def input_key_def split: option.splits if_splits)
  next
    case False
    then obtain s k where s: "e = Some s" "input_key e = Some k" "ce_group_writes env" by auto
    with run obtain db1 where
      step: "(case revival_key env (tt_id t) mk s db of None \<Rightarrow> Inr db
         | Some key \<Rightarrow> revive_key env (tt_id t) (si_user_id s) key db) = Inr db1"
      and db': "db' = upsert_resolved k (tt_id t) (ce_now env) db1"
      by (auto simp: map_identity_def and_then_Inr)
    have one: "graph_ok db1 \<and> same_content db db1 \<and> db_markers db1 = db_markers db"
      using step revive_key_ok [OF ok] ok by (auto split: option.splits)
    have "same_graph db1 db'" "same_content db1 db'" by (simp_all add: db')
    then have "graph_ok db'" "same_content db db'" using one graph_ok_same same_content_trans by blast+
    moreover have "db_markers db' = db_markers db" using one by (simp add: db' upsert_resolved_def)
    moreover obtain row where "find_resolved k db' = Some row"
      using find_identity_upsert_some [of k "tt_id t" "ce_now env" db1] by (auto simp: db')
    ultimately show ?thesis using s(2) find_identity_upsert by (fastforce simp: db')
  qed
  then show "graph_ok db'" "same_content db db'" "db_markers db' = db_markers db"
    "input_key e = Some k \<Longrightarrow> ce_group_writes env \<Longrightarrow>
      \<exists>row. find_resolved k db' = Some row \<and> id_thread row = tt_id t" by blast+
qed

text \<open>The steps of an import that is not suppressed.\<close>

definition consume_for :: "marker_row option \<Rightarrow> 'a evidence_db_scheme \<Rightarrow> 'a evidence_db_scheme" where
  "consume_for marker db = (case marker of None \<Rightarrow> db | Some row \<Rightarrow> consume_marker (mk_identity row) db)"

lemma consume_for_same [simp]: "same_graph db (consume_for marker db)" "same_content db (consume_for marker db)"
  by (simp_all add: consume_for_def split: option.split)

lemma import_batch_steps:
  assumes "import_batch env input batch marker db = Inr (out, db')"
  obtains t db1 db2 where
    "resolve_target env (mapped_thread env (input_key (bt_identity input)) db) (bt_target input) db = Inr (t, db1)"
    "check_owner (bt_identity input) t = Inr ()"
    "check_marker_key env (Option.bind marker mk_thread_key) t db1 = Inr ()"
    "map_identity env t (Option.bind marker mk_thread_key) (bt_identity input) (consume_for marker db1) = Inr db2"
    "import_memories env t input batch db2 = Inr (out, db')"
  using assms by (auto simp: import_batch_def Let_def and_then_Inr consume_for_def)

lemma import_batch_result:
  assumes ok: "content_ok db" "graph_ok db" and run: "import_batch env input batch marker db = Inr (out, db')"
  shows "content_ok db'" "graph_ok db'" "grows db db'" "\<not> bo_suppressed out"
    and "length (bo_outcomes out) = length (bt_items input)"
    and "\<And>x. x \<in> set (bo_outcomes out) \<Longrightarrow> find_position (bo_thread out) (ao_id x) db' = Some (ao_position x)"
    and "db_markers db' = db_markers (consume_for marker db)"
    and "input_key (bt_identity input) = Some k \<Longrightarrow> ce_group_writes env
      \<Longrightarrow> \<exists>row. find_resolved k db' = Some row \<and> id_thread row = bo_thread out"
proof -
  obtain t db1 db2 where
    target: "resolve_target env (mapped_thread env (input_key (bt_identity input)) db) (bt_target input) db = Inr (t, db1)"
    and mapped: "map_identity env t (Option.bind marker mk_thread_key) (bt_identity input) (consume_for marker db1) = Inr db2"
    and mems: "import_memories env t input batch db2 = Inr (out, db')"
    by (rule import_batch_steps [OF run])
  from yieldsD [OF resolve_target_ok [OF ok(1)] target]
  have one: "content_ok db1" "group_side db1 = group_side db" "grows db db1" by auto
  have "graph_ok db1" by (rule group_side_graph [OF one(2) ok(2)])
  then have g2: "graph_ok (consume_for marker db1)" by (rule graph_ok_same [OF consume_for_same(1)])
  note two = map_identity_ok [OF g2 mapped]
  have s2: "same_content db1 db2" using two(2) consume_for_same(2) same_content_trans by blast
  have ok2: "content_ok db2" by (rule store_ok_same [OF s2 one(1)])
  note three = import_memories_result [OF ok2 mems]
  show "content_ok db'" by (rule three)
  show "graph_ok db'" by (rule group_side_graph [OF three(2) two(1)])
  have "grows db1 db2" using s2 by (simp add: same_content_def grows_same)
  then show "grows db db'" using one(3) three(3) grows_trans by blast
  show "\<not> bo_suppressed out" "length (bo_outcomes out) = length (bt_items input)"
    "\<And>x. x \<in> set (bo_outcomes out) \<Longrightarrow> find_position (bo_thread out) (ao_id x) db' = Some (ao_position x)"
    using three by simp_all
  have "db_markers (consume_for marker db1) = db_markers (consume_for marker db)"
    using group_side_fields(8) [OF one(2)] by (auto simp: consume_for_def consume_marker_def split: option.split)
  then show "db_markers db' = db_markers (consume_for marker db)"
    using group_side_fields(8) [OF three(2)] two(3) by simp
  have "db_identities db' = db_identities db2" using group_side_fields(6) [OF three(2)] .
  then have "find_resolved k db' = find_resolved k db2" by (simp add: find_resolved_def)
  then show "input_key (bt_identity input) = Some k \<Longrightarrow> ce_group_writes env
      \<Longrightarrow> \<exists>row. find_resolved k db' = Some row \<and> id_thread row = bo_thread out"
    using two(4) three(6) by simp
qed

lemma add_memories_batch_cases:
  assumes "add_memories_batch env input db = Inr (out, db')"
  obtains (suppressed) "out = suppressed_output" "db' = db"
      "suppression_gate env (marker_of (input_key (bt_identity input)) db) (bt_override input) = Inr True"
    | (imported) batch where "check_batch (bt_items input) = Inr batch"
      "suppression_gate env (marker_of (input_key (bt_identity input)) db) (bt_override input) = Inr False"
      "import_batch env input batch (marker_of (input_key (bt_identity input)) db) db = Inr (out, db')"
  using assms by (auto simp: add_memories_batch_def Let_def and_then_Inr split: if_splits)

theorem add_memories_batch_ok:
  assumes "content_ok db" "graph_ok db"
  shows "yields (add_memories_batch env input db) (\<lambda>(_, db'). content_ok db' \<and> graph_ok db')"
proof (rule yields_pair)
  fix out db' assume "add_memories_batch env input db = Inr (out, db')"
  then show "case (out, db') of (_, db') \<Rightarrow> content_ok db' \<and> graph_ok db'"
    by (cases rule: add_memories_batch_cases) (use assms import_batch_result(1,2) in auto)
qed

lemma import_consumes_marker:
  assumes ok: "content_ok db" "graph_ok db"
    and imp: "import_batch env input batch (marker_of (input_key (bt_identity input)) db) db = Inr (out, db')"
    and key: "input_key (bt_identity input) = Some k"
  shows "find_marker k db' = None"
proof -
  have "find_marker k (consume_for (find_marker k db) db) = None"
    by (auto simp: consume_for_def consume_marker_def find_marker_def find_None_iff
        split: option.split dest: find_hit)
  then show ?thesis using import_batch_result(7) [OF ok imp] key by (simp add: find_marker_def marker_of_def)
qed

subsection \<open>What an import guarantees\<close>


text \<open>
  C6. An import that is not suppressed leaves no deletion marker of its session, maps the
  session to the thread it wrote, reports one outcome per memory, and every outcome names a
  member of that thread at the position the outcome reports; members that were there before
  keep their positions.
\<close>

theorem import_effect:
  assumes ok: "content_ok db" "graph_ok db"
    and run: "add_memories_batch env input db = Inr (out, db')" and went: "\<not> bo_suppressed out"
    and key: "input_key (bt_identity input) = Some k" "ce_group_writes env"
  shows "find_marker k db' = None \<and> map_option id_thread (find_resolved k db') = Some (bo_thread out)
    \<and> length (bo_outcomes out) = length (bt_items input)
    \<and> list_all (\<lambda>x. find_position (bo_thread out) (ao_id x) db' = Some (ao_position x)) (bo_outcomes out)
    \<and> take (length (ct_links db)) (ct_links db') = ct_links db"
proof (rule add_memories_batch_cases [OF run])
  assume "out = suppressed_output"
  with went show ?thesis by (simp add: suppressed_output_def)
next
  fix batch assume imp: "import_batch env input batch (marker_of (input_key (bt_identity input)) db) db = Inr (out, db')"
  note r = import_batch_result [OF ok imp]
  have "find_marker k db' = None" by (rule import_consumes_marker [OF ok imp key(1)])
  moreover have "take (length (ct_links db)) (ct_links db') = ct_links db"
    using r(3) by (auto simp: grows_def)
  ultimately show ?thesis using r(5,6) r(8) [OF key] by (auto simp: list_all_iff)
qed

end
