(* ===== verification/Thread_Deletion.thy ===== *)
theory Thread_Deletion
  imports Thread_Import
begin

text \<open>
  \<open>delete_thread_with_policy\<close> of \<open>app/src/app/thread.rs\<close>: a thread, or it and all its active
  descendants, deleted in one transaction that leaves placeholders and deletion markers. The
  targets are read before the transaction, from tables that other requests may change until it
  starts, so the transaction takes them as an argument. The advisory locks are not modelled.
\<close>

subsection \<open>The targets\<close>

fun new_children :: "string list \<Rightarrow> relation_row list \<Rightarrow> string list" where
  "new_children seen [] = []"
| "new_children seen (r # rs) =
     (if rl_child_key r \<in> set seen then new_children seen rs
      else rl_child_key r # new_children (rl_child_key r # seen) rs)"

lemma set_new_children: "set (new_children seen rs) = rl_child_key ` set rs - set seen"
  by (induction seen rs rule: new_children.induct) auto

lemma distinct_new_children: "distinct (new_children seen rs) \<and> set (new_children seen rs) \<inter> set seen = {}"
  by (induction seen rs rule: new_children.induct) auto

definition unseen_children :: "string list \<Rightarrow> 'a group_db_scheme \<Rightarrow> string set" where
  "unseen_children keys db = rl_child_key ` set (db_relations db) - set keys"

lemma new_children_seen:
  assumes "new_children keys (list_active_children k db) \<noteq> []"
  shows "card (unseen_children (keys @ new_children keys (list_active_children k db)) db)
    < card (unseen_children keys db)"
proof (rule psubset_card_mono)
  show "finite (unseen_children keys db)" by (simp add: unseen_children_def)
  from assms obtain c where "c \<in> set (new_children keys (list_active_children k db))" by (metis list.set_intros(1) neq_Nil_conv)
  then show "unseen_children (keys @ new_children keys (list_active_children k db)) db \<subset> unseen_children keys db"
    by (auto simp: unseen_children_def set_new_children list_active_children_def)
qed

text \<open>The queue is a stack, its top first; the keys found so far are also the keys seen.\<close>

function descend :: "'a group_db_scheme \<Rightarrow> string list \<Rightarrow> string list \<Rightarrow> string list" where
  "descend db keys queue =
     (case queue of
        [] \<Rightarrow> keys
      | k # rest \<Rightarrow>
          let found = new_children keys (list_active_children k db)
          in descend db (keys @ found) (rev found @ rest))"
  by pat_completeness auto
termination
proof (relation "measures [\<lambda>(db, keys, queue). card (unseen_children keys db), \<lambda>(db, keys, queue). length queue]", goal_cases)
  case (2 db keys queue k rest found)
  show ?case
  proof (cases "found = []")
    case True
    with 2 show ?thesis by simp
  next
    case False
    with 2 show ?thesis using new_children_seen [of keys k db] by auto
  qed
qed simp

declare descend.simps [simp del]

lemma descend_code:
  "descend db keys [] = keys"
  "descend db keys (k # rest) =
     descend db (keys @ new_children keys (list_active_children k db))
       (rev (new_children keys (list_active_children k db)) @ rest)"
  by (subst descend.simps, simp add: Let_def)+

definition target_keys :: "string \<Rightarrow> bool \<Rightarrow> 'a group_db_scheme \<Rightarrow> string list" where
  "target_keys root recursive db = (if recursive then descend db [root] [root] else [root])"

fun live_threads :: "string list \<Rightarrow> int list \<Rightarrow> 'a evidence_db_scheme \<Rightarrow> int list" where
  "live_threads [] found db = found"
| "live_threads (k # ks) found db =
     live_threads ks
       (case find_key k db of
          None \<Rightarrow> found
        | Some row \<Rightarrow> if ky_thread row \<in> set found then found else found @ [ky_thread row]) db"

definition deletion_targets :: "int \<Rightarrow> bool \<Rightarrow> 'a evidence_db_scheme \<Rightarrow> int list" where
  "deletion_targets root recursive db =
     (case find_key_of_thread root db of
        None \<Rightarrow> [root]
      | Some row \<Rightarrow>
          let found = live_threads (target_keys (ky_key row) recursive db) [] db
          in if root \<in> set found then found else found @ [root])"

subsection \<open>The transaction\<close>

record deletion_policy =
  dp_recursive :: bool
  dp_forbid :: bool
  dp_actor :: string
  dp_reason :: string

record policy_outcome =
  po_threads :: "int list"
  po_exclusive :: "int list"
  po_root_deleted :: bool

fun mark_identities ::
  "content_env \<Rightarrow> deletion_policy \<Rightarrow> string option \<Rightarrow> identity_row list \<Rightarrow> 'a content_db_scheme \<Rightarrow> 'a content_db_scheme" where
  "mark_identities env p key [] db = db"
| "mark_identities env p key (r # rs) db =
     mark_identities env p key rs
       (delete_identity (id_key r)
         (put_marker \<lparr>mk_identity = id_key r, mk_forbid = dp_forbid p, mk_recursive = dp_recursive p,
            mk_actor = dp_actor p, mk_reason = Some (dp_reason p), mk_deleted_at = ce_now env,
            mk_thread_key = key\<rparr> db))"

definition delete_target ::
  "content_env \<Rightarrow> deletion_policy \<Rightarrow> int \<Rightarrow> string option \<Rightarrow> identity_row list \<Rightarrow> 'a content_db_scheme
    \<Rightarrow> content_error + delete_outcome \<times> 'a content_db_scheme" where
  "delete_target env p t key ids db =
     and_then (delete_thread_in_tx env t db) (\<lambda>(out, db1).
     let db2 = (case key of
            None \<Rightarrow> db1
          | Some k \<Rightarrow> snd (mark_current_deleted (ce_group env) k (ce_now env) (ce_now env) (detach_all_collections t db1)));
         db3 = mark_identities env p key ids db2
     in Inr (out, delete_key t db3))"

text \<open>Keys and identities of all targets are read before the first is deleted.\<close>

fun delete_targets ::
  "content_env \<Rightarrow> deletion_policy \<Rightarrow> (int \<times> string option \<times> identity_row list) list \<Rightarrow> 'a content_db_scheme
    \<Rightarrow> content_error + (int \<times> delete_outcome) list \<times> 'a content_db_scheme" where
  "delete_targets env p [] db = Inr ([], db)"
| "delete_targets env p ((t, key, ids) # rest) db =
     and_then (delete_target env p t key ids db) (\<lambda>(out, db1).
     and_then (delete_targets env p rest db1) (\<lambda>(outs, db2). Inr ((t, out) # outs, db2)))"

definition read_targets :: "int list \<Rightarrow> 'a evidence_db_scheme \<Rightarrow> (int \<times> string option \<times> identity_row list) list" where
  "read_targets ts db = map (\<lambda>t. (t, map_option ky_key (find_key_of_thread t db), list_identities t db)) ts"

definition delete_thread_with_policy ::
  "content_env \<Rightarrow> deletion_policy \<Rightarrow> int \<Rightarrow> int list \<Rightarrow> 'a content_db_scheme
    \<Rightarrow> content_error + policy_outcome \<times> 'a content_db_scheme" where
  "delete_thread_with_policy env p root targets db =
     and_then (delete_targets env p (read_targets targets db) db) (\<lambda>(outs, db1).
       Inr (\<lparr>po_threads = targets, po_exclusive = concat (map (\<lambda>(_, out). do_exclusive out) outs),
             po_root_deleted = fold (\<lambda>(t, out) hit. if t = root then do_deleted out else hit) outs False\<rparr>, db1))"

subsection \<open>The targets are the descendants\<close>

lemma list_active_children_edge:
  "c \<in> rl_child_key ` set (list_active_children k db) \<longleftrightarrow> (c, k) \<in> active_edges db"
  by (auto simp: list_active_children_def active_edges_def image_iff)

lemma descend_sound:
  assumes "set keys \<subseteq> {c. (c, root) \<in> (active_edges db)\<^sup>*}" "set queue \<subseteq> set keys"
  shows "set (descend db keys queue) \<subseteq> {c. (c, root) \<in> (active_edges db)\<^sup>*}"
  using assms
proof (induction db keys queue rule: descend.induct)
  case (1 db keys queue)
  show ?case
  proof (cases queue)
    case Nil
    with 1 show ?thesis by (simp add: descend_code)
  next
    case (Cons k rest)
    let ?new = "new_children keys (list_active_children k db)"
    have k: "(k, root) \<in> (active_edges db)\<^sup>*" using 1 Cons by auto
    have "(c, root) \<in> (active_edges db)\<^sup>*" if "c \<in> set ?new" for c
    proof -
      have "(c, k) \<in> active_edges db" using that by (simp add: set_new_children flip: list_active_children_edge)
      then show ?thesis using k by (rule converse_rtrancl_into_rtrancl)
    qed
    then have "set (keys @ ?new) \<subseteq> {c. (c, root) \<in> (active_edges db)\<^sup>*}" using "1.prems" by auto
    moreover have "set (rev ?new @ rest) \<subseteq> set (keys @ ?new)" using "1.prems" Cons by auto
    ultimately show ?thesis
      using "1.IH" [OF Cons refl] by (simp add: Cons descend_code)
  qed
qed

text \<open>Every key that is found but no longer queued has all its children among the keys.\<close>

lemma descend_closed:
  assumes "set queue \<subseteq> set keys"
    and "\<And>c k. (c, k) \<in> active_edges db \<Longrightarrow> k \<in> set keys \<Longrightarrow> k \<in> set queue \<or> c \<in> set keys"
  shows "set keys \<subseteq> set (descend db keys queue)
    \<and> (\<forall>c k. (c, k) \<in> active_edges db \<longrightarrow> k \<in> set (descend db keys queue) \<longrightarrow> c \<in> set (descend db keys queue))"
  using assms
proof (induction db keys queue rule: descend.induct)
  case (1 db keys queue)
  show ?case
  proof (cases queue)
    case Nil
    with 1 show ?thesis by (auto simp: descend_code)
  next
    case (Cons k rest)
    let ?new = "new_children keys (list_active_children k db)"
    have new: "c \<in> set ?new \<longleftrightarrow> (c, k) \<in> active_edges db \<and> c \<notin> set keys" for c
      by (simp add: set_new_children flip: list_active_children_edge)
    have "set (rev ?new @ rest) \<subseteq> set (keys @ ?new)" using "1.prems" Cons by auto
    moreover have "j \<in> set (rev ?new @ rest) \<or> c \<in> set (keys @ ?new)"
      if "(c, j) \<in> active_edges db" "j \<in> set (keys @ ?new)" for c j
      using that "1.prems"(2) [of c j] Cons new by auto
    ultimately show ?thesis
      using "1.IH" [OF Cons refl] by (simp add: Cons descend_code)
  qed
qed

lemma distinct_descend:
  "distinct keys \<Longrightarrow> distinct (descend db keys queue)"
proof (induction db keys queue rule: descend.induct)
  case (1 db keys queue)
  show ?case
  proof (cases queue)
    case (Cons k rest)
    then show ?thesis
      using "1.IH" [OF Cons refl] "1.prems" distinct_new_children [of keys "list_active_children k db"]
      by (auto simp: descend_code)
  qed (use 1 in \<open>simp add: descend_code\<close>)
qed

text \<open>
  C17. A recursive deletion visits the root and exactly its descendants over active relations,
  each once, whatever the relations are.
\<close>

theorem target_keys_are_descendants:
  "distinct (target_keys root recursive db)
   \<and> set (target_keys root recursive db) = {c. (c, root) \<in> (if recursive then (active_edges db)\<^sup>* else Id)}"
proof (cases recursive)
  case True
  have "c \<in> set (descend db [root] [root])" if "(c, root) \<in> (active_edges db)\<^sup>*" for c
    using that
  proof (induction rule: converse_rtrancl_induct)
    case base
    show ?case using descend_closed [of "[root]" "[root]" db] by auto
  next
    case (step c k)
    then show ?case using descend_closed [of "[root]" "[root]" db] by auto
  qed
  then have "set (descend db [root] [root]) = {c. (c, root) \<in> (active_edges db)\<^sup>*}"
    using descend_sound [of "[root]" root db "[root]"] by auto
  with True show ?thesis by (simp add: target_keys_def distinct_descend)
qed (auto simp: target_keys_def)

subsection \<open>The invariants\<close>

lemma mark_identities_same:
  "same_graph db (mark_identities env p key rs db) \<and> same_content db (mark_identities env p key rs db)"
proof (induction rs arbitrary: db)
  case (Cons r rs)
  let ?mk = "\<lparr>mk_identity = id_key r, mk_forbid = dp_forbid p, mk_recursive = dp_recursive p,
    mk_actor = dp_actor p, mk_reason = Some (dp_reason p), mk_deleted_at = ce_now env, mk_thread_key = key\<rparr>"
  have "same_graph db (delete_identity (id_key r) (put_marker ?mk db))"
    "same_content db (delete_identity (id_key r) (put_marker ?mk db))"
    using same_graph_trans [OF same_graph_markers(1,3)] same_content_trans [OF same_content_group_statements(1,3)]
    by blast+
  with Cons.IH show ?case by (simp, blast intro: same_graph_trans same_content_trans)
qed simp

lemma delete_target_ok:
  assumes "content_ok db" "graph_ok db" "delete_target env p t key ids db = Inr (out, db')"
  shows "content_ok db'" "graph_ok db'"
proof -
  obtain db1 where tx: "delete_thread_in_tx env t db = Inr (out, db1)"
    and db': "db' = delete_key t (mark_identities env p key ids (case key of None \<Rightarrow> db1
        | Some k \<Rightarrow> snd (mark_current_deleted (ce_group env) k (ce_now env) (ce_now env) (detach_all_collections t db1))))"
    using assms(3) by (auto simp: delete_target_def Let_def and_then_Inr)
  let ?db2 = "case key of None \<Rightarrow> db1
        | Some k \<Rightarrow> snd (mark_current_deleted (ce_group env) k (ce_now env) (ce_now env) (detach_all_collections t db1))"
  have one: "content_ok db1" "graph_ok db1"
    using yieldsD [OF delete_thread_in_tx_ok [OF assms(1)] tx] yieldsD [OF delete_thread_in_tx_graph [OF assms(2)] tx]
    by simp_all
  have "graph_ok (detach_all_collections t db1)" by (rule group_side_graph [OF _ one(2)]) simp
  then have g2: "graph_ok ?db2" using one(2) by (simp add: mark_current_deleted_graph split: option.split)
  have s2: "same_content db1 ?db2"
    by (cases key) (simp_all add: same_content_trans [OF same_content_group_statements(10) same_content_group_statements(6)])
  note three = mark_identities_same [of ?db2 env p key ids]
  have "same_content db1 db'"
    unfolding db' using s2 three same_content_group_statements(4) same_content_trans by blast
  then show "content_ok db'" using one(1) store_ok_same by blast
  show "graph_ok db'"
    unfolding db' using g2 three same_graph_markers(4) graph_ok_same same_graph_trans by blast
qed

lemma delete_targets_ok:
  "content_ok db \<Longrightarrow> graph_ok db \<Longrightarrow> delete_targets env p plan db = Inr (outs, db') \<Longrightarrow> content_ok db' \<and> graph_ok db'"
proof (induction plan arbitrary: db outs)
  case (Cons x plan)
  obtain t key ids where x: "x = (t, key, ids)" by (cases x)
  from Cons.prems(3) obtain out db1 outs1 where one: "delete_target env p t key ids db = Inr (out, db1)"
    and rest: "delete_targets env p plan db1 = Inr (outs1, db')"
    by (auto simp: x and_then_Inr)
  from delete_target_ok [OF Cons.prems(1,2) one] show ?case by (rule Cons.IH) (rule rest)
qed simp

theorem delete_thread_with_policy_ok:
  assumes "content_ok db" "graph_ok db"
  shows "yields (delete_thread_with_policy env p root targets db) (\<lambda>(_, db'). content_ok db' \<and> graph_ok db')"
  unfolding delete_thread_with_policy_def
  by (intro yields) (use assms in \<open>auto dest: delete_targets_ok\<close>)

subsection \<open>The exact effect\<close>

definition placeholder :: "content_env \<Rightarrow> member_row \<Rightarrow> member_row" where
  "placeholder env m = m\<lparr>mb_state := MemberDeleted, mb_thread := None, mb_deleted_at := Some (ce_now env),
     mb_updated := fill_updated_at (ce_group env) (ce_now env)\<rparr>"

text \<open>A memory goes when it was a member of some thread, and only of deleted ones.\<close>

definition gone_with :: "int set \<Rightarrow> 'a content_db_scheme \<Rightarrow> memory_row \<Rightarrow> bool" where
  "gone_with T db m \<longleftrightarrow> (\<exists>u. linked u (mem_id m) db) \<and> (\<forall>u. linked u (mem_id m) db \<longrightarrow> u \<in> T)"

definition rows_deleted :: "int set \<Rightarrow> 'a content_db_scheme \<Rightarrow> 'a content_db_scheme \<Rightarrow> bool" where
  "rows_deleted T db db' \<longleftrightarrow>
     ct_threads db' = filter (\<lambda>r. th_id r \<notin> T) (ct_threads db)
     \<and> ct_links db' = filter (\<lambda>l. ln_thread l \<notin> T) (ct_links db)
     \<and> ct_labels db' = filter (\<lambda>r. lb_thread r \<notin> T) (ct_labels db)
     \<and> ct_memories db' = filter (\<lambda>m. \<not> gone_with T db m) (ct_memories db)
     \<and> db_keys db' = filter (\<lambda>r. ky_thread r \<notin> T) (db_keys db)"

definition planned_keys :: "(int \<times> string option \<times> identity_row list) list \<Rightarrow> string set" where
  "planned_keys plan = {k. \<exists>t key ids. (t, key, ids) \<in> set plan \<and> key = Some k}"

definition planned_ids :: "(int \<times> string option \<times> identity_row list) list \<Rightarrow> identity_key set" where
  "planned_ids plan = (\<Union>(t, key, ids) \<in> set plan. id_key ` set ids)"

definition members_marked :: "content_env \<Rightarrow> string set \<Rightarrow> 'a group_db_scheme \<Rightarrow> 'a group_db_scheme \<Rightarrow> bool" where
  "members_marked env K db db' \<longleftrightarrow> db_groups db' = db_groups db
     \<and> db_members db' = map (\<lambda>m. if mb_state m = MemberActive \<and> mb_key m \<in> K then placeholder env m else m) (db_members db)"

text \<open>Every identity of a target is replaced by a marker.\<close>

definition identities_marked ::
  "deletion_policy \<Rightarrow> identity_key set \<Rightarrow> 'a evidence_db_scheme \<Rightarrow> 'a evidence_db_scheme \<Rightarrow> bool" where
  "identities_marked p I db db' \<longleftrightarrow>
     db_identities db' = filter (\<lambda>r. id_key r \<notin> I) (db_identities db)
     \<and> (\<forall>k. k \<notin> I \<longrightarrow> find_marker k db' = find_marker k db)
     \<and> (\<forall>k \<in> I. \<exists>row. find_marker k db' = Some row \<and> mk_forbid row = dp_forbid p \<and> mk_recursive row = dp_recursive p
          \<and> mk_actor row = dp_actor p \<and> mk_reason row = Some (dp_reason p))"

lemma find_map_id: "(\<And>x. P (f x) = P x) \<Longrightarrow> find P (map f xs) = map_option f (find P xs)"
  by (induction xs) auto

lemma find_append_miss: "\<not> P y \<Longrightarrow> find P (xs @ [y]) = find P xs"
  by (induction xs) auto

lemma find_marker_put:
  "find_marker k (put_marker new db) =
     (if mk_identity new = k
      then Some (new\<lparr>mk_thread_key := (case mk_thread_key new of Some x \<Rightarrow> Some x
             | None \<Rightarrow> Option.bind (find_marker k db) mk_thread_key)\<rparr>)
      else find_marker k db)"
proof (cases "find_marker (mk_identity new) db")
  case None
  then have put: "put_marker new db = db\<lparr>db_markers := db_markers db @ [new]\<rparr>" by (simp add: put_marker_def)
  show ?thesis
  proof (cases "mk_identity new = k")
    case True
    with None have none: "find (\<lambda>r. mk_identity r = k) (db_markers db) = None" by (simp add: find_marker_def)
    have "find_marker k (put_marker new db) = Some new"
      by (simp add: put find_marker_def find_append [OF none True])
    then show ?thesis using True none by (cases "mk_thread_key new") (simp_all add: find_marker_def)
  next
    case False
    then show ?thesis by (simp add: put find_marker_def find_append_miss)
  qed
next
  case (Some old)
  define f where "f = (\<lambda>r. if mk_identity r = mk_identity new
    then new\<lparr>mk_thread_key := (if mk_thread_key new = None then mk_thread_key r else mk_thread_key new)\<rparr> else r)"
  have put: "put_marker new db = db\<lparr>db_markers := map f (db_markers db)\<rparr>" using Some by (simp add: put_marker_def f_def)
  have "find (\<lambda>r. mk_identity r = k) (map f (db_markers db)) = map_option f (find (\<lambda>r. mk_identity r = k) (db_markers db))"
    by (rule find_map_id) (simp add: f_def)
  then have eq: "find_marker k (put_marker new db) = map_option f (find_marker k db)" by (simp add: find_marker_def put)
  show ?thesis
  proof (cases "mk_identity new = k")
    case True
    with Some have "find_marker k db = Some old" "mk_identity old = k"
      by (auto simp: find_marker_def dest: find_hit)
    with True show ?thesis by (simp add: eq f_def split: option.split)
  next
    case False
    then have "f r = r" if "find_marker k db = Some r" for r
      using find_hit [OF that [unfolded find_marker_def]] by (simp add: f_def)
    then show ?thesis using False by (cases "find_marker k db") (simp_all add: eq)
  qed
qed

lemma delete_thread_in_tx_side:
  "yields (delete_thread_in_tx env t db) (\<lambda>(_, db'). db_members db' = db_members db \<and> db_groups db' = db_groups db
     \<and> db_identities db' = db_identities db \<and> db_keys db' = db_keys db \<and> db_markers db' = db_markers db)"
  unfolding delete_thread_in_tx_def
proof (intro yields, goal_cases)
  case (1 candidates media p gone db1 db2 x jobs db3 deleted db4)
  have "group_side db1 = group_side db" using group_side_orphaned 1 by (metis group_side_links(3))
  moreover have "group_side db3 = group_side db2" using group_side_unlink_each 1 by blast
  moreover have "db4 = snd (delete_thread_row t (delete_labels_of_thread t db3))" using 1 by simp
  moreover have "db2 = drop_memory_traces gone db1" by (fact 1)
  ultimately have "group_side db4 = group_side db" by simp
  from group_side_fields [OF this] show ?case by (simp add: detach_thread_relations_def)
qed

lemma mark_identities_tables:
  "db_keys (mark_identities env p key rs db) = db_keys db
   \<and> db_members (mark_identities env p key rs db) = db_members db
   \<and> db_groups (mark_identities env p key rs db) = db_groups db"
  by (induction rs arbitrary: db) (simp_all add: put_marker_def delete_identity_def)

lemma mark_identities_identities:
  "db_identities (mark_identities env p key rs db) = filter (\<lambda>r. id_key r \<notin> id_key ` set rs) (db_identities db)"
  by (induction rs arbitrary: db) (auto simp: put_marker_def delete_identity_def intro: filter_cong)

lemma find_marker_delete_identity: "find_marker k (delete_identity j db) = find_marker k db"
  by (simp add: find_marker_def delete_identity_def)

definition marked_by :: "deletion_policy \<Rightarrow> string option \<Rightarrow> marker_row \<Rightarrow> bool" where
  "marked_by p key row \<longleftrightarrow> mk_forbid row = dp_forbid p \<and> mk_recursive row = dp_recursive p
     \<and> mk_actor row = dp_actor p \<and> mk_reason row = Some (dp_reason p) \<and> (key \<noteq> None \<longrightarrow> mk_thread_key row = key)"

lemma mark_identities_markers:
  "(k \<notin> id_key ` set rs \<longrightarrow> find_marker k (mark_identities env p key rs db) = find_marker k db)
   \<and> ((k \<in> id_key ` set rs \<or> (\<exists>row. find_marker k db = Some row \<and> marked_by p key row))
      \<longrightarrow> (\<exists>row. find_marker k (mark_identities env p key rs db) = Some row \<and> marked_by p key row))"
proof (induction rs arbitrary: db)
  case (Cons r rs)
  let ?new = "\<lparr>mk_identity = id_key r, mk_forbid = dp_forbid p, mk_recursive = dp_recursive p,
    mk_actor = dp_actor p, mk_reason = Some (dp_reason p), mk_deleted_at = ce_now env, mk_thread_key = key\<rparr>"
  let ?db = "delete_identity (id_key r) (put_marker ?new db)"
  have look: "find_marker k ?db = (if id_key r = k
      then Some (?new\<lparr>mk_thread_key := (case key of Some x \<Rightarrow> Some x | None \<Rightarrow> Option.bind (find_marker k db) mk_thread_key)\<rparr>)
      else find_marker k db)"
    by (simp add: find_marker_delete_identity find_marker_put)
  have "\<exists>row. find_marker k ?db = Some row \<and> marked_by p key row" if "id_key r = k"
    unfolding look using that by (simp add: marked_by_def split: option.split)
  moreover have "find_marker k ?db = find_marker k db" if "id_key r \<noteq> k" unfolding look using that by simp
  ultimately show ?case using Cons.IH [of ?db] by (cases "id_key r = k") simp_all
qed simp

lemma delete_target_effect:
  assumes "delete_target env p t key ids db = Inr (out, db')"
  shows "rows_deleted {t} db db'" "members_marked env (set_option key) db db'"
    "identities_marked p (id_key ` set ids) db db'"
    "k \<in> id_key ` set ids \<Longrightarrow> \<exists>row. find_marker k db' = Some row \<and> marked_by p key row"
proof -
  obtain db1 where tx: "delete_thread_in_tx env t db = Inr (out, db1)"
    and db': "db' = delete_key t (mark_identities env p key ids (case key of None \<Rightarrow> db1
        | Some k \<Rightarrow> snd (mark_current_deleted (ce_group env) k (ce_now env) (ce_now env) (detach_all_collections t db1))))"
    using assms by (auto simp: delete_target_def Let_def and_then_Inr)
  define db2 where "db2 = (case key of None \<Rightarrow> db1
        | Some k \<Rightarrow> snd (mark_current_deleted (ce_group env) k (ce_now env) (ce_now env) (detach_all_collections t db1)))"
  define db3 where "db3 = mark_identities env p key ids db2"
  have db': "db' = delete_key t db3" by (simp add: db' db2_def db3_def)
  note content = yieldsD [OF delete_thread_in_tx_content tx, unfolded prod.case]
  note side = yieldsD [OF delete_thread_in_tx_side tx, unfolded prod.case]
  have "same_content db1 db2"
    unfolding db2_def by (cases key) (simp_all add: same_content_trans [OF same_content_group_statements(10) same_content_group_statements(6)])
  moreover have "same_content db2 db3" using mark_identities_same [of db2 env p key ids] by (simp add: db3_def)
  moreover have "same_content db3 db'" by (simp add: db')
  ultimately have sc: "same_content db1 db'" by (blast intro: same_content_trans)
  have two: "db_keys db2 = db_keys db" "db_groups db2 = db_groups db" "db_identities db2 = db_identities db"
    "db_markers db2 = db_markers db"
    using side by (auto simp: db2_def mark_current_deleted_def detach_all_collections_def Let_def split: option.split)
  have "db_members db2 = map (\<lambda>m. if mb_state m = MemberActive \<and> mb_key m \<in> set_option key then placeholder env m else m) (db_members db)"
    using side by (auto simp: db2_def mark_current_deleted_def detach_all_collections_def Let_def placeholder_def
        split: option.split)
  with two mark_identities_tables [of env p key ids db2] show "members_marked env (set_option key) db db'"
    by (simp add: members_marked_def db' delete_key_def db3_def)
  have "db_keys db' = filter (\<lambda>r. ky_thread r \<notin> {t}) (db_keys db)"
    using two mark_identities_tables [of env p key ids db2] by (simp add: db' delete_key_def db3_def)
  moreover have "only_in t db m = gone_with {t} db m" for m by (auto simp: only_in_def gone_with_def)
  ultimately show "rows_deleted {t} db db'"
    using content sc by (simp add: rows_deleted_def same_content_def)
  have fm: "find_marker k db' = find_marker k db3" for k by (simp add: db' find_marker_def delete_key_def)
  have f2: "find_marker k db2 = find_marker k db" for k using two by (simp add: find_marker_def)
  note mk = mark_identities_markers [of _ ids env p key db2]
  show mark: "\<exists>row. find_marker k db' = Some row \<and> marked_by p key row" if "k \<in> id_key ` set ids" for k
    using mk that by (simp add: fm db3_def)
  show "identities_marked p (id_key ` set ids) db db'"
    unfolding identities_marked_def
  proof (intro conjI allI impI ballI)
    show "db_identities db' = filter (\<lambda>r. id_key r \<notin> id_key ` set ids) (db_identities db)"
      using two by (simp add: db' delete_key_def db3_def mark_identities_identities)
    show "find_marker k db' = find_marker k db" if "k \<notin> id_key ` set ids" for k
      using mk that by (simp add: fm db3_def f2)
    show "\<exists>row. find_marker k db' = Some row \<and> mk_forbid row = dp_forbid p \<and> mk_recursive row = dp_recursive p
          \<and> mk_actor row = dp_actor p \<and> mk_reason row = Some (dp_reason p)" if "k \<in> id_key ` set ids" for k
      using mark [OF that] unfolding marked_by_def by blast
  qed
qed

text \<open>The effects of the targets add up.\<close>

lemma filter_links: "linked u m db' \<longleftrightarrow> linked u m db \<and> u \<notin> T" if "ct_links db' = filter (\<lambda>l. ln_thread l \<notin> T) (ct_links db)"
  using that by (auto simp: linked_iff)

lemma rows_deleted_trans:
  assumes "rows_deleted S db db1" "rows_deleted T db1 db2"
  shows "rows_deleted (S \<union> T) db db2"
proof -
  have lk: "linked u m db1 \<longleftrightarrow> linked u m db \<and> u \<notin> S" for u m
    by (rule filter_links) (use assms(1) in \<open>simp add: rows_deleted_def\<close>)
  have "gone_with S db m \<or> gone_with T db1 m \<longleftrightarrow> gone_with (S \<union> T) db m" for m
    by (auto simp: gone_with_def lk)
  then have "filter (\<lambda>m. \<not> gone_with T db1 m) (filter (\<lambda>m. \<not> gone_with S db m) (ct_memories db))
      = filter (\<lambda>m. \<not> gone_with (S \<union> T) db m) (ct_memories db)"
    by (simp, metis)
  with assms show ?thesis by (simp add: rows_deleted_def conj_commute)
qed

lemma members_marked_trans:
  assumes "members_marked env K db db1" "members_marked env L db1 db2"
  shows "members_marked env (K \<union> L) db db2"
proof -
  have "mb_state (placeholder env m) = MemberDeleted" for m by (simp add: placeholder_def)
  then show ?thesis using assms by (auto simp: members_marked_def)
qed

lemma identities_marked_trans:
  assumes "identities_marked p I db db1" "identities_marked p J db1 db2"
  shows "identities_marked p (I \<union> J) db db2"
  using assms unfolding identities_marked_def by (auto simp: conj_commute)

lemma empty_effects: "rows_deleted {} db db" "members_marked env {} db db" "identities_marked p {} db db"
proof -
  have "\<not> gone_with {} db m" for m by (auto simp: gone_with_def)
  then show "rows_deleted {} db db" by (simp add: rows_deleted_def)
qed (simp_all add: members_marked_def identities_marked_def)

lemma delete_targets_effect:
  "delete_targets env p plan db = Inr (outs, db') \<Longrightarrow>
    rows_deleted (fst ` set plan) db db' \<and> members_marked env (planned_keys plan) db db'
    \<and> identities_marked p (planned_ids plan) db db'"
proof (induction plan arbitrary: db outs)
  case Nil
  then show ?case by (simp add: planned_keys_def planned_ids_def empty_effects)
next
  case (Cons x plan)
  obtain t key ids where x: "x = (t, key, ids)" by (cases x)
  from Cons.prems obtain out db1 outs1 where one: "delete_target env p t key ids db = Inr (out, db1)"
    and rest: "delete_targets env p plan db1 = Inr (outs1, db')"
    by (auto simp: x and_then_Inr)
  have sets: "fst ` set (x # plan) = {t} \<union> fst ` set plan" "planned_keys (x # plan) = set_option key \<union> planned_keys plan"
    "planned_ids (x # plan) = id_key ` set ids \<union> planned_ids plan"
    by (auto simp: x planned_keys_def planned_ids_def)
  show ?case
    unfolding sets using delete_target_effect [OF one] Cons.IH [OF rest]
    by (blast intro: rows_deleted_trans members_marked_trans identities_marked_trans)
qed

lemma planned_read:
  "fst ` set (read_targets ts db) = set ts"
  "planned_keys (read_targets ts db) = {ky_key row |t row. t \<in> set ts \<and> find_key_of_thread t db = Some row}"
  "planned_ids (read_targets ts db) = {k. \<exists>row \<in> set (db_identities db). id_key row = k \<and> id_thread row \<in> set ts}"
  by (auto simp: read_targets_def planned_keys_def planned_ids_def list_identities_def image_iff)

text \<open>
  C5. A deletion removes exactly the target threads with their members, labels and keys; of the
  memories exactly those that were members of targets only; every active membership under a
  key of a target becomes a placeholder in its group; and every source identity of a target is
  replaced by a marker with the flags of the request. Nothing else of these tables changes.
\<close>

theorem deletion_effect:
  assumes "delete_thread_with_policy env p root targets db = Inr (out, db')"
  shows "rows_deleted (set targets) db db'
    \<and> members_marked env {ky_key row |t row. t \<in> set targets \<and> find_key_of_thread t db = Some row} db db'
    \<and> identities_marked p {k. \<exists>row \<in> set (db_identities db). id_key row = k \<and> id_thread row \<in> set targets} db db'
    \<and> po_threads out = targets"
proof -
  from assms obtain outs where run: "delete_targets env p (read_targets targets db) db = Inr (outs, db')"
    and "po_threads out = targets"
    by (auto simp: delete_thread_with_policy_def and_then_Inr)
  with delete_targets_effect [OF run] show ?thesis by (simp only: planned_read)
qed

end
