(* ===== verification/Content_System.thy ===== *)
theory Content_System
  imports Thread_Deletion
begin

text \<open>
  The operations on threads and memories together: what a deletion and a later import of the same
  session do to its place in the thread graph, and the invariant of all states that any sequence
  of operations reaches.
\<close>

subsection \<open>Revival\<close>

lemma find_current_map:
  assumes "\<And>m. mb_key (f m) = mb_key m \<and> is_current (f m) = is_current m" "db_members db' = map f (db_members db)"
  shows "find_current K db' = map_option f (find_current K db)"
  using assms by (simp add: find_current_def find_map_id)

definition revived :: "content_env \<Rightarrow> string \<Rightarrow> int \<Rightarrow> member_row \<Rightarrow> member_row" where
  "revived env key t m = (if mb_key m = key \<and> mb_state m = MemberDeleted
     then m\<lparr>mb_state := MemberActive, mb_thread := Some t, mb_deleted_at := None,
        mb_updated := fill_updated_at (ce_group env) (ce_now env)\<rparr> else m)"

lemma revived_keeps: "mb_key (revived env key t m) = mb_key m \<and> is_current (revived env key t m) = is_current m"
  by (simp add: revived_def is_current_def)

lemma revive_key_effect:
  assumes "revive_key env t user key db = Inr db'"
  shows "db_members db' = map (revived env key t) (db_members db)"
    and "find_key_of_thread t db' \<noteq> None"
    and "find_key_of_thread t db' = Some row \<Longrightarrow> find_key_of_thread t db = None \<Longrightarrow> ky_key row = key"
    and "find_key_of_thread t db = Some row \<Longrightarrow> find_key_of_thread t db' = Some row"
proof -
  obtain db1 where key: "(if find_key_of_thread t db = None
        then of_group (assign_key (ce_group env) t user key ''source_identity'' (ce_now env) db) else Inr db) = Inr db1"
    and db': "db' = reconnect_thread_relations key t (ce_now env)
              (snd (revive_current (ce_group env) key t (ce_now env) db1))"
    using assms by (auto simp: revive_key_def and_then_Inr)
  have m1: "db_members db1 = db_members db"
    using key by (auto simp: assign_key_def split: if_splits)
  show "db_members db' = map (revived env key t) (db_members db)"
    by (simp add: db' reconnect_thread_relations_def revive_current_def Let_def m1 revived_def [abs_def])
  have k': "find_key_of_thread t db' = find_key_of_thread t db1"
    by (simp add: db' reconnect_thread_relations_def revive_current_def Let_def find_key_of_thread_def)
  have new: "\<exists>row. find_key_of_thread t db1 = Some row \<and> ky_key row = key" if "find_key_of_thread t db = None"
    using key that by (auto simp: assign_key_def find_key_of_thread_def find_append split: if_splits)
  have old: "find_key_of_thread t db1 = Some row" if "find_key_of_thread t db = Some row" for row
    using key that by simp
  show "find_key_of_thread t db' \<noteq> None" using new old k' by (cases "find_key_of_thread t db") auto
  show "find_key_of_thread t db' = Some row \<Longrightarrow> find_key_of_thread t db = None \<Longrightarrow> ky_key row = key"
    using new k' by auto
  show "find_key_of_thread t db = Some row \<Longrightarrow> find_key_of_thread t db' = Some row"
    using old k' by simp
qed

text \<open>An import under a marker that kept the key of the deleted thread.\<close>

lemma import_revives:
  assumes ok: "content_ok db" "graph_ok db"
    and run: "add_memories_batch env input db = Inr (out, db')" and went: "\<not> bo_suppressed out"
    and key: "input_key (bt_identity input) = Some k" "ce_group_writes env"
    and marker: "find_marker k db = Some row" "mk_thread_key row = Some K"
  shows "map_option ky_key (find_key_of_thread (bo_thread out) db') = Some K"
    and "find_current K db' = map_option (revived env K (bo_thread out)) (find_current K db)"
proof -
  from run went obtain batch where
    imp: "import_batch env input batch (marker_of (input_key (bt_identity input)) db) db = Inr (out, db')"
    by (cases rule: add_memories_batch_cases) (auto simp: suppressed_output_def)
  have mk: "marker_of (input_key (bt_identity input)) db = Some row" using key marker by (simp add: marker_of_def)
  obtain t db1 db2 where
    target: "resolve_target env (mapped_thread env (input_key (bt_identity input)) db) (bt_target input) db = Inr (t, db1)"
    and chk: "check_marker_key env (Some K) t db1 = Inr ()"
    and mapped: "map_identity env t (Some K) (bt_identity input) (consume_for (Some row) db1) = Inr db2"
    and mems: "import_memories env t input batch db2 = Inr (out, db')"
    by (rule import_batch_steps [OF imp]) (simp add: mk marker(2))
  let ?c = "consume_for (Some row) db1"
  from yieldsD [OF resolve_target_ok [OF ok(1)] target]
  have one: "content_ok db1" "group_side db1 = group_side db" by auto
  have mem1: "db_members ?c = db_members db" and keys1: "find_key_of_thread u ?c = find_key_of_thread u db1" for u
    using group_side_fields [OF one(2)] by (simp_all add: consume_for_def consume_marker_def find_key_of_thread_def)
  obtain s where s: "bt_identity input = Some s" using key by (auto simp: input_key_def split: option.splits)
  have rk: "revival_key env (tt_id t) (Some K) s ?c = Some K"
    using chk key(2) by (auto simp: revival_key_def keys1 check_marker_key_def split: option.splits if_splits)
  from mapped obtain db3 where rev: "revive_key env (tt_id t) (si_user_id s) K ?c = Inr db3"
    and db2: "db2 = upsert_resolved k (tt_id t) (ce_now env) db3"
    using key by (auto simp: map_identity_def s rk and_then_Inr)
  note e = revive_key_effect [OF rev]
  have fk: "map_option ky_key (find_key_of_thread (tt_id t) db3) = Some K"
  proof (cases "find_key_of_thread (tt_id t) ?c")
    case None
    with e(2,3) show ?thesis by auto
  next
    case (Some r)
    with rk have "ky_key r = K" by (simp add: revival_key_def)
    with e(4) [OF Some] show ?thesis by simp
  qed
  have "content_ok db2"
  proof (rule store_ok_same [OF _ one(1)])
    have "graph_ok ?c" using group_side_graph [OF one(2) ok(2)] graph_ok_same consume_for_same(1) by blast
    from revive_key_ok(2) [OF this rev] show "same_content db1 db2"
      unfolding db2 using same_content_trans consume_for_same(2) same_content_group_statements(5) by blast
  qed
  note r = import_memories_result [OF this mems]
  note side = group_side_fields [OF r(2)]
  show "map_option ky_key (find_key_of_thread (bo_thread out) db') = Some K"
    using fk side(7) r(6) by (simp add: find_key_of_thread_def db2 upsert_resolved_def)
  show "find_current K db' = map_option (revived env K (bo_thread out)) (find_current K db)"
  proof (rule find_current_map)
    show "db_members db' = map (revived env K (bo_thread out)) (db_members db)"
      using side(2) e(1) mem1 r(6) by (simp add: db2 upsert_resolved_def)
  qed (rule revived_keeps)
qed

text \<open>
  C4. A thread that is deleted without \<open>forbid_reimport\<close> and whose session is imported again gets
  its canonical key back, and its membership is active again in the same group, for the new thread.
\<close>

theorem deleted_thread_comes_back:
  assumes ok: "content_ok db" "graph_ok db"
    and del: "delete_thread_with_policy env p t [t] db = Inr (gone, db1)" "\<not> dp_forbid p"
    and had: "find_key_of_thread t db = Some kr" "find_current (ky_key kr) db = Some m" "mb_state m = MemberActive"
    and ident: "\<exists>row \<in> set (db_identities db). id_key row = k \<and> id_thread row = t"
    and imp: "add_memories_batch env' input db1 = Inr (out, db2)"
    and key: "input_key (bt_identity input) = Some k" "ce_group_writes env'"
  shows "map_option ky_key (find_key_of_thread (bo_thread out) db2) = Some (ky_key kr)
    \<and> map_option (\<lambda>m'. (mb_group m', mb_state m', mb_thread m')) (find_current (ky_key kr) db2)
      = Some (mb_group m, MemberActive, Some (bo_thread out))"
proof -
  let ?ids = "list_identities t db"
  from del(1) obtain o1 where one: "delete_target env p t (Some (ky_key kr)) ?ids db = Inr (o1, db1)"
    by (auto simp: delete_thread_with_policy_def read_targets_def and_then_Inr had(1))
  have "k \<in> id_key ` set ?ids" using ident by (auto simp: list_identities_def)
  then obtain row where row: "find_marker k db1 = Some row" "marked_by p (Some (ky_key kr)) row"
    using delete_target_effect(4) [OF one] by blast
  from delete_target_effect(2) [OF one]
  have mem: "db_members db1 = map (\<lambda>m. if mb_state m = MemberActive \<and> mb_key m \<in> {ky_key kr} then placeholder env m else m) (db_members db)"
    by (simp add: members_marked_def)
  have "find_current (ky_key kr) db1 = map_option (\<lambda>m. if mb_state m = MemberActive \<and> mb_key m \<in> {ky_key kr} then placeholder env m else m)
      (find_current (ky_key kr) db)"
    by (rule find_current_map [OF _ mem]) (auto simp: placeholder_def is_current_def)
  moreover have "mb_key m = ky_key kr" using had(2) unfolding find_current_def by (auto dest: find_hit)
  ultimately have cur: "find_current (ky_key kr) db1 = Some (placeholder env m)" using had(2,3) by simp
  have ok1: "content_ok db1" "graph_ok db1" using delete_target_ok [OF ok one] by auto
  have went: "\<not> bo_suppressed out"
    using imp
  proof (cases rule: add_memories_batch_cases)
    case suppressed
    then show ?thesis using row del(2) key by (simp add: marker_of_def suppression_gate_def marked_by_def split: if_splits)
  qed (use import_batch_result(4) [OF ok1] in blast)
  note rev = import_revives [OF ok1 imp went key row(1)]
  from row(2) have "mk_thread_key row = Some (ky_key kr)" by (simp add: marked_by_def)
  from rev [OF this] cur show ?thesis
    using \<open>mb_key m = ky_key kr\<close> by (simp add: revived_def placeholder_def)
qed

subsection \<open>The step relation\<close>

inductive content_step :: "content_db \<Rightarrow> content_db \<Rightarrow> bool" where
  created: "create_thread env d db = Inr (i, db') \<Longrightarrow> content_step db db'"
| updated: "update_thread env i w db = Inr (b, db') \<Longrightarrow> content_step db db'"
| labelled: "add_labels env i ls db = Inr db' \<Longrightarrow> content_step db db'"
| unlabelled: "remove_labels i ls db = Inr db' \<Longrightarrow> content_step db db'"
| added: "add_memory env i m rel db = Inr (j, db') \<Longrightarrow> content_step db db'"
| rewired: "update_memory_parents env i j ps shared nonempty db = Inr (po, db') \<Longrightarrow> content_step db db'"
| memory_created: "create_memory env m db = Inr (j, db') \<Longrightarrow> content_step db db'"
| memory_updated: "update_memory env j mw db = Inr (uo, db') \<Longrightarrow> content_step db db'"
| memory_deleted: "delete_memory env j db = Inr (uo, db') \<Longrightarrow> content_step db db'"
| captioned: "content_step db (snd (write_back_caption env j media c db))"
| imported: "add_memories_batch env input db = Inr (out, db') \<Longrightarrow> content_step db db'"
| deleted: "delete_thread_with_policy env p i targets db = Inr (gone, db') \<Longrightarrow> content_step db db'"
| dropped: "delete_thread env i db = Inr (one, db') \<Longrightarrow> content_step db db'"

definition fresh_content :: "content_db \<Rightarrow> bool" where
  "fresh_content db \<longleftrightarrow> db_groups db = [] \<and> db_members db = [] \<and> db_relations db = [] \<and> ct_threads db = []
     \<and> ct_memories db = [] \<and> ct_links db = [] \<and> ct_labels db = []"

definition sound :: "'a content_db_scheme \<Rightarrow> bool" where
  "sound db \<longleftrightarrow> content_ok db \<and> graph_ok db"

lemma fresh_sound: "fresh_content db \<Longrightarrow> sound db"
  by (simp add: fresh_content_def sound_def store_ok_def keys_ok_def external_ids_def references_ok_def
      graph_ok_def placed_ok_def tables_ok_def redirects_flat_def active_edges_def acyclic_def)

lemma content_only_sound:
  fixes db db' :: content_db
  assumes "sound db" "yields r (\<lambda>(_, db'). content_ok db')" "yields r (\<lambda>(_, db'). group_side db' = group_side db)"
    "r = Inr (x, db')"
  shows "sound db'"
  using yieldsD [OF assms(2,4)] yieldsD [OF assms(3,4)] assms(1) group_side_graph [of db' db] by (simp add: sound_def)

lemma content_step_sound: "content_step db db' \<Longrightarrow> sound db \<Longrightarrow> sound db'"
proof (induction rule: content_step.induct)
  case (created env d db i db')
  then show ?case using yieldsD [OF create_thread_ok created(1)] yieldsD [OF create_thread_graph created(1)]
    by (auto simp: sound_def)
next
  case (updated env i w db b db')
  then show ?case using content_only_sound [OF _ update_thread_ok group_side_update_thread updated(1)] by (simp add: sound_def)
next
  case (labelled env i ls db db')
  then show ?case using yieldsD [OF add_labels_ok labelled(1)] yieldsD [OF group_side_add_labels labelled(1)] group_side_graph
    by (auto simp: sound_def)
next
  case (unlabelled i ls db db')
  then show ?case using yieldsD [OF remove_labels_ok unlabelled(1)] yieldsD [OF group_side_remove_labels unlabelled(1)] group_side_graph
    by (auto simp: sound_def)
next
  case (added env i m rel db j db')
  then show ?case using content_only_sound [OF _ add_memory_ok group_side_add_memory added(1)] by (simp add: sound_def)
next
  case (rewired env i j ps shared nonempty db po db')
  then show ?case using content_only_sound [OF _ update_memory_parents_ok group_side_update_parents rewired(1)] by (simp add: sound_def)
next
  case (memory_created env m db j db')
  then show ?case using content_only_sound [OF _ create_memory_ok group_side_create_memory memory_created(1)] by (simp add: sound_def)
next
  case (memory_updated env j mw db uo db')
  then show ?case using content_only_sound [OF _ update_memory_ok group_side_update_memory memory_updated(1)] by (simp add: sound_def)
next
  case (memory_deleted env j db uo db')
  then show ?case using content_only_sound [OF _ delete_memory_ok group_side_delete_memory memory_deleted(1)] by (simp add: sound_def)
next
  case (captioned db env j media c)
  then show ?case using write_back_caption_ok group_side_graph [OF group_side_caption] by (auto simp: sound_def)
next
  case (imported env input db out db')
  then show ?case using yieldsD [OF add_memories_batch_ok imported(1)] by (auto simp: sound_def)
next
  case (deleted env p i targets db gone db')
  then show ?case using yieldsD [OF delete_thread_with_policy_ok deleted(1)] by (auto simp: sound_def)
next
  case (dropped env i db one db')
  then have run: "delete_thread_in_tx env i db = Inr (one, db')" by (simp add: delete_thread_def)
  with dropped(2) show ?case
    using yieldsD [OF delete_thread_in_tx_ok run] yieldsD [OF delete_thread_in_tx_graph run] by (auto simp: sound_def)
qed

interpretation content: invariant_system fresh_content content_step sound
  by unfold_locales (auto intro: fresh_sound content_step_sound)

text \<open>
  In every state that the operations on threads and memories can reach from empty tables:
  positions within a thread are unique, members, labels and default system memories refer to rows
  that exist, a thread's default system memory is one of its members, the stored first and last
  message times of a thread are the least and greatest creation times of its members, and no
  external id occurs twice.
\<close>

theorem reachable_content_sound:
  assumes "reachable fresh_content content_step db"
  shows "distinct (map (\<lambda>l. (ln_thread l, ln_position l)) (ct_links db))
    \<and> distinct (concat (map (\<lambda>m. case mem_external m of None \<Rightarrow> [] | Some e \<Rightarrow> [e]) (ct_memories db)))
    \<and> list_all (\<lambda>l. find_thread (ln_thread l) db \<noteq> None \<and> find_memory (ln_memory l) db \<noteq> None) (ct_links db)
    \<and> list_all (\<lambda>r. find_thread (lb_thread r) db \<noteq> None) (ct_labels db)
    \<and> list_all (\<lambda>t. (case th_default t of None \<Rightarrow> True | Some m \<Rightarrow> linked (th_id t) m db)
        \<and> (th_first_message t, th_last_message t) = message_bounds (th_id t) db) (ct_threads db)"
proof -
  have "sound db" by (rule content.reachable_inv [OF assms])
  then have "content_ok db" by (simp add: sound_def)
  note ok = store_okD [OF this]
  show ?thesis
    using ok(1,2) ok(3) ok(4)
    by (auto simp: keys_ok_def external_ids_def references_ok_def list_all_iff find_thread_None find_memory_None
        bounds_ok_def anchored_def)
qed

subsection \<open>A run: import, delete, import again\<close>

definition run_env :: content_env where
  "run_env = \<lparr>ce_group = plain_env, ce_json_ok = (\<lambda>_. True), ce_random_key = (\<lambda>_. ''m''),
     ce_media_wired = False, ce_kind_compat = True, ce_group_writes = True\<rparr>"

definition no_content :: content_db where
  "no_content = \<lparr>db_drawn = 0, db_groups = [], db_members = [], db_relations = [],
     db_observations = [], db_associations = [], db_identities = [], db_keys = [], db_markers = [],
     db_decisions = [], db_outbox = [], db_audits = [], ct_threads = [], ct_memories = [], ct_links = [],
     ct_labels = [], ct_ratings = [], ct_group_memories = [], ct_collections = [], ct_collection_members = [],
     ct_media = []\<rparr>"

definition run_item :: "string \<Rightarrow> string list \<Rightarrow> int \<Rightarrow> batch_item" where
  "run_item eid parents time = \<lparr>bi_memory = \<lparr>md_parents = [], md_user = Some 7, md_content = eid, md_content_type = 1,
     md_params = None, md_metadata = None, md_created = time, md_updated = 0, md_role = 1, md_external = Some eid,
     md_media = None, md_kind = 1\<rparr>, bi_parents = parents\<rparr>"

definition run_thread :: thread_data where
  "run_thread = \<lparr>td_default = None, td_user = Some 7, td_description = None, td_channel = Some ''c'', td_embedding = None,
     td_embedding_dim = None, td_metadata = None, td_kind = 1, td_labels = []\<rparr>"

definition run_batch :: batch_input where
  "run_batch = \<lparr>bt_target = Upsert_By_Channel run_thread, bt_items = [run_item ''a'' [''b''] 5, run_item ''b'' [] 3],
     bt_upsert = True, bt_labels = [], bt_identity = Some (sample_endpoint ''s''), bt_override = False\<rparr>"

definition run_result :: "content_error + 'a \<times> content_db \<Rightarrow> content_db \<Rightarrow> content_db" where
  "run_result r db = (case r of Inl _ \<Rightarrow> db | Inr (_, db') \<Rightarrow> db')"

definition imported_once :: content_db where
  "imported_once = run_result (add_memories_batch run_env run_batch no_content) no_content"

lemma import_runs:
  "case add_memories_batch run_env run_batch no_content of Inl _ \<Rightarrow> False | Inr (out, _) \<Rightarrow> \<not> bo_suppressed out"
  by code_simp

definition run_policy :: "bool \<Rightarrow> deletion_policy" where
  "run_policy forbid = \<lparr>dp_recursive = False, dp_forbid = forbid, dp_actor = ''alice'', dp_reason = ''test''\<rparr>"

definition deleted_once :: "bool \<Rightarrow> content_db" where
  "deleted_once forbid =
     run_result (delete_thread_with_policy run_env (run_policy forbid) 100 [100] imported_once) imported_once"

definition imported_twice :: content_db where
  "imported_twice = run_result (add_memories_batch run_env run_batch (deleted_once False)) (deleted_once False)"

lemma run_result_Inr: "r = Inr (out, db') \<Longrightarrow> run_result r db = db'"
  by (simp add: run_result_def)

lemma no_content_sound: "content_ok no_content" "graph_ok no_content"
  using fresh_sound [of no_content] by (simp_all add: sound_def fresh_content_def no_content_def)

lemma imported_once_run:
  obtains out where "add_memories_batch run_env run_batch no_content = Inr (out, imported_once)" "\<not> bo_suppressed out"
  using import_runs by (auto simp: imported_once_def run_result_def split: sum.splits)

lemma imported_once_sound: "content_ok imported_once" "graph_ok imported_once"
proof -
  obtain out where "add_memories_batch run_env run_batch no_content = Inr (out, imported_once)"
    using imported_once_run .
  from yieldsD [OF add_memories_batch_ok [OF no_content_sound] this]
  show "content_ok imported_once" "graph_ok imported_once" by simp_all
qed

theorem import_effect_witness:
  "find_position 100 102 imported_once = Some 1 \<and> find_marker (identity_key_of (sample_endpoint ''s'')) imported_once = None
    \<and> map_option id_thread (find_resolved (identity_key_of (sample_endpoint ''s'')) imported_once) = Some 100"
proof -
  obtain out where run: "add_memories_batch run_env run_batch no_content = Inr (out, imported_once)" "\<not> bo_suppressed out"
    using imported_once_run .
  have "input_key (bt_identity run_batch) = Some (identity_key_of (sample_endpoint ''s''))" "ce_group_writes run_env"
    by (simp_all add: run_batch_def input_key_def sample_endpoint_def run_env_def)
  from import_effect [OF no_content_sound run this]
  have "find_marker (identity_key_of (sample_endpoint ''s'')) imported_once = None" by simp
  moreover have "find_position 100 102 imported_once = Some 1"
    "map_option id_thread (find_resolved (identity_key_of (sample_endpoint ''s'')) imported_once) = Some 100"
    by code_simp+
  ultimately show ?thesis by simp
qed


lemma deleted_once_run:
  obtains gone where "delete_thread_with_policy run_env (run_policy forbid) 100 [100] imported_once = Inr (gone, deleted_once forbid)"
proof -
  have "case delete_thread_with_policy run_env (run_policy True) 100 [100] imported_once of Inl _ \<Rightarrow> False | Inr _ \<Rightarrow> True"
    "case delete_thread_with_policy run_env (run_policy False) 100 [100] imported_once of Inl _ \<Rightarrow> False | Inr _ \<Rightarrow> True"
    by code_simp+
  then have "case delete_thread_with_policy run_env (run_policy forbid) 100 [100] imported_once of Inl _ \<Rightarrow> False | Inr _ \<Rightarrow> True"
    by (cases forbid) simp_all
  then show thesis using that by (auto simp: deleted_once_def run_result_def split: sum.splits)
qed

theorem deletion_effect_witness:
  "rows_deleted {100} imported_once (deleted_once True) \<and> length (ct_memories imported_once) = 2
    \<and> ct_memories (deleted_once True) = []"
proof -
  obtain gone where "delete_thread_with_policy run_env (run_policy True) 100 [100] imported_once = Inr (gone, deleted_once True)"
    using deleted_once_run .
  from deletion_effect [OF this] have "rows_deleted {100} imported_once (deleted_once True)" by simp
  moreover have "length (ct_memories imported_once) = 2" "ct_memories (deleted_once True) = []" by code_simp+
  ultimately show ?thesis by simp
qed

theorem reachable_content_sound_witness:
  "reachable fresh_content content_step imported_once
    \<and> distinct (map (\<lambda>l. (ln_thread l, ln_position l)) (ct_links imported_once))
    \<and> map (\<lambda>t. (th_first_message t, th_last_message t)) (ct_threads imported_once) = [(Some 3, Some 5)]"
proof -
  obtain out where run: "add_memories_batch run_env run_batch no_content = Inr (out, imported_once)" using imported_once_run .
  have "reachable fresh_content content_step no_content"
    by (rule reachable.reach_init) (simp add: fresh_content_def no_content_def)
  then have reach: "reachable fresh_content content_step imported_once"
    by (rule reachable.reach_step) (rule content_step.imported [OF run])
  have "map (\<lambda>t. (th_first_message t, th_last_message t)) (ct_threads imported_once) = [(Some 3, Some 5)]" by code_simp
  with reach reachable_content_sound [OF reach] show ?thesis by blast
qed

text \<open>The imported thread with a place in a group, as a reconciliation leaves it.\<close>

definition placed_once :: content_db where
  "placed_once = imported_once\<lparr>db_groups := db_groups sample_db, db_members := [sample_member '''' 100 1 ByReconciler]\<rparr>"

definition lost_place :: content_db where
  "lost_place = run_result (delete_thread_with_policy run_env (run_policy False) 100 [100] placed_once) placed_once"

definition back_again :: content_db where
  "back_again = run_result (add_memories_batch run_env run_batch lost_place) lost_place"

lemma placed_once_sound: "content_ok placed_once" "graph_ok placed_once"
proof -
  have "same_content imported_once placed_once" by (simp add: same_content_def placed_once_def)
  then show "content_ok placed_once" using imported_once_sound(1) by (rule store_ok_same)
  have "placed_ok placed_once" by code_simp
  moreover have "db_relations placed_once = []" by code_simp
  ultimately show "graph_ok placed_once" by (simp add: graph_ok_def active_edges_def acyclic_def)
qed

theorem deleted_thread_comes_back_witness:
  "map_option (\<lambda>m. (mb_group m, mb_state m, mb_thread m)) (find_current '''' lost_place) = Some (1, MemberDeleted, None)
    \<and> map_option (\<lambda>m. (mb_group m, mb_state m, mb_thread m)) (find_current '''' back_again) = Some (1, MemberActive, Some 103)"
proof -
  let ?k = "identity_key_of (sample_endpoint ''s'')"
  have "case delete_thread_with_policy run_env (run_policy False) 100 [100] placed_once of Inl _ \<Rightarrow> False | Inr _ \<Rightarrow> True"
    by code_simp
  then obtain gone where del: "delete_thread_with_policy run_env (run_policy False) 100 [100] placed_once = Inr (gone, lost_place)"
    by (auto simp: lost_place_def run_result_def split: sum.splits)
  have "case add_memories_batch run_env run_batch lost_place of Inl _ \<Rightarrow> False | Inr (out, _) \<Rightarrow> bo_thread out = 103"
    by code_simp
  then obtain out where imp: "add_memories_batch run_env run_batch lost_place = Inr (out, back_again)" "bo_thread out = 103"
    by (auto simp: back_again_def run_result_def split: sum.splits)
  have "map_option ky_key (find_key_of_thread 100 placed_once) = Some ''''"
    "map_option (\<lambda>m. (mb_group m, mb_state m)) (find_current '''' placed_once) = Some (1, MemberActive)" by code_simp+
  then obtain kr m where had: "find_key_of_thread 100 placed_once = Some kr" "ky_key kr = ''''"
    "find_current '''' placed_once = Some m" "mb_state m = MemberActive" "mb_group m = 1"
    by auto
  have "list_ex (\<lambda>row. id_key row = ?k \<and> id_thread row = 100) (db_identities placed_once)" by code_simp
  then have ident: "\<exists>row \<in> set (db_identities placed_once). id_key row = ?k \<and> id_thread row = 100"
    by (simp add: list_ex_iff)
  have key: "input_key (bt_identity run_batch) = Some ?k" "ce_group_writes run_env" "\<not> dp_forbid (run_policy False)"
    by (simp_all add: run_batch_def input_key_def sample_endpoint_def run_env_def run_policy_def)
  from deleted_thread_comes_back [OF placed_once_sound del key(3) had(1) had(3) [folded had(2)] had(4) ident imp(1) key(1,2)]
  have "map_option (\<lambda>m. (mb_group m, mb_state m, mb_thread m)) (find_current '''' back_again) = Some (1, MemberActive, Some 103)"
    by (simp add: had(2,5) imp(2))
  moreover have "map_option (\<lambda>m. (mb_group m, mb_state m, mb_thread m)) (find_current '''' lost_place) = Some (1, MemberDeleted, None)"
    by code_simp
  ultimately show ?thesis by simp
qed

end
