(* ===== verification/Import_References.thy ===== *)
theory Import_References
  imports Content_System
begin

text \<open>
  The parents of imported memories. A batch names the parents of its memories by external id,
  earlier and later ones of the batch and older members of the thread; this theory shows that
  exactly the members with these external ids end up as parents, and what a second import of the
  same batch does.
\<close>

subsection \<open>Rows and their parents\<close>

definition has_parents :: "'a content_db_scheme \<Rightarrow> int \<Rightarrow> int list \<Rightarrow> bool" where
  "has_parents db x ps \<longleftrightarrow> (\<exists>row \<in> set (ct_memories db). mem_id row = x \<and> mem_parents row = ps)"

lemma has_parents_list: "has_parents db x ps \<longleftrightarrow> (x, ps) \<in> set (map (\<lambda>m. (mem_id m, mem_parents m)) (ct_memories db))"
  by (auto simp: has_parents_def image_iff)

lemma has_parents_content [simp]:
  "has_parents (snd (update_content_only now i c db)) x ps = has_parents db x ps"
proof -
  have "map (\<lambda>m. (mem_id m, mem_parents m)) (ct_memories (snd (update_content_only now i c db)))
      = map (\<lambda>m. (mem_id m, mem_parents m)) (ct_memories db)"
    by (simp add: update_content_only_def update_memories_def)
  then show ?thesis unfolding has_parents_list by (rule arg_cong)
qed

lemma has_parents_update:
  "has_parents (snd (update_parent_ids i qs db)) x ps \<longleftrightarrow>
     (if x = i then x \<in> memory_ids db \<and> ps = qs else has_parents db x ps)"
proof -
  have "map (\<lambda>m. (mem_id m, mem_parents m)) (ct_memories (snd (update_parent_ids i qs db)))
      = map (\<lambda>m. (mem_id m, if mem_id m = i then qs else mem_parents m)) (ct_memories db)"
    by (simp add: update_parent_ids_def update_memories_def)
  then have "has_parents (snd (update_parent_ids i qs db)) x ps \<longleftrightarrow>
      (\<exists>m \<in> set (ct_memories db). x = mem_id m \<and> ps = (if mem_id m = i then qs else mem_parents m))"
    by (simp only: has_parents_list set_map image_iff prod.inject)
  then show ?thesis by (cases "x = i") (auto simp: has_parents_def memory_ids_def)
qed

text \<open>The members of a thread with one of the given external ids.\<close>

definition names :: "int \<Rightarrow> 'a content_db_scheme \<Rightarrow> string \<Rightarrow> int \<Rightarrow> bool" where
  "names t db e i \<longleftrightarrow> (\<exists>m \<in> set (ct_memories db). mem_external m = Some e \<and> mem_id m = i \<and> linked t i db)"

definition named :: "int \<Rightarrow> 'a content_db_scheme \<Rightarrow> string list \<Rightarrow> int set" where
  "named t db es = {i. \<exists>e \<in> set es. e \<noteq> [] \<and> names t db e i}"

lemma names_cong:
  fixes db db' :: "'a content_db_scheme"
  assumes "map (\<lambda>m. (mem_id m, mem_external m)) (ct_memories db') = map (\<lambda>m. (mem_id m, mem_external m)) (ct_memories db)"
    and "ct_links db' = ct_links db"
  shows "names t db' e i = names t db e i"
proof -
  have "names t db e i \<longleftrightarrow> (i, Some e) \<in> set (map (\<lambda>m. (mem_id m, mem_external m)) (ct_memories db)) \<and> linked t i db"
    for db :: "'a content_db_scheme" by (auto simp: names_def image_iff)
  from this [of db] this [of db'] assms show ?thesis by (simp add: linked_def)
qed

lemma row_updates_keep:
  "map (\<lambda>m. (mem_id m, mem_external m)) (ct_memories (snd (update_content_only now i c db)))
     = map (\<lambda>m. (mem_id m, mem_external m)) (ct_memories db)"
  "map (\<lambda>m. (mem_id m, mem_external m)) (ct_memories (snd (update_parent_ids i ps db)))
     = map (\<lambda>m. (mem_id m, mem_external m)) (ct_memories db)"
  by (auto simp: update_content_only_def update_parent_ids_def update_memories_def)

lemma names_row_updates [simp]:
  "names t (snd (update_content_only now i c db)) e j = names t db e j"
  "names t (snd (update_parent_ids i ps db)) e j = names t db e j"
  by (rule names_cong; simp add: row_updates_keep)+

subsection \<open>References of one item\<close>

lemma resolve_refs_spec:
  "resolve_refs ids batch seen es = (r, p) \<Longrightarrow> distinct r \<and> set r \<inter> set seen = {}
     \<and> set r = {i. \<exists>e \<in> set es. ids e = Some i} - set seen
     \<and> set p = {e \<in> set es. ids e = None \<and> e \<in> set batch}"
proof (induction ids batch seen es arbitrary: r p rule: resolve_refs.induct)
  case (2 ids batch seen e es)
  show ?case
  proof (cases "ids e")
    case None
    obtain r' p' where rec: "resolve_refs ids batch seen es = (r', p')" by (cases "resolve_refs ids batch seen es")
    from "2.IH"(1) [OF None rec] "2.prems" None rec show ?thesis by (auto split: if_splits)
  next
    case (Some i)
    show ?thesis
    proof (cases "i \<in> set seen")
      case True
      with "2.IH"(2) [OF Some True] "2.prems" Some show ?thesis by auto
    next
      case False
      obtain r' p' where rec: "resolve_refs ids batch (i # seen) es = (r', p')"
        by (cases "resolve_refs ids batch (i # seen) es")
      from "2.IH"(3) [OF Some False rec] "2.prems" Some False rec show ?thesis by auto
    qed
  qed
qed simp

lemma distinct_forward: "distinct (forward_additions ids seen es)"
  by (induction ids seen es rule: forward_additions.induct) (auto split: option.splits simp: forward_additions_iff)

subsection \<open>The loop\<close>

text \<open>
  The references of an outcome while later items are still to come: every parent has been named,
  and every name is resolved, pending, or of nothing the batch or the thread will ever have.
\<close>

definition refs_ok ::
  "(string \<Rightarrow> int option) \<Rightarrow> string set \<Rightarrow> (string \<Rightarrow> bool) \<Rightarrow> string list \<Rightarrow> int list \<Rightarrow> bool" where
  "refs_ok ids batch pend es ps \<longleftrightarrow> distinct ps
     \<and> (\<forall>i \<in> set ps. \<exists>e \<in> set es. ids e = Some i)
     \<and> (\<forall>e \<in> set es. (\<exists>i \<in> set ps. ids e = Some i) \<or> pend e \<or> (ids e = None \<and> e \<notin> batch))"

definition pending_in :: "(nat \<times> string list) list \<Rightarrow> nat \<Rightarrow> string \<Rightarrow> bool" where
  "pending_in frs k e \<longleftrightarrow> (\<exists>ps. (k, ps) \<in> set frs \<and> e \<in> set ps)"

definition outcomes_ok ::
  "(string \<Rightarrow> int option) \<Rightarrow> string set \<Rightarrow> (nat \<times> string list) list \<Rightarrow> batch_item list \<Rightarrow> memory_outcome list
    \<Rightarrow> 'a content_db_scheme \<Rightarrow> bool" where
  "outcomes_ok ids batch frs xs outs db \<longleftrightarrow> length outs = length xs
     \<and> (\<forall>fr \<in> set frs. fst fr < length xs \<and> set (snd fr) \<subseteq> set (bi_parents (xs ! fst fr)))
     \<and> (\<forall>k < length xs. ao_created (outs ! k) \<longrightarrow>
          has_parents db (ao_id (outs ! k)) (ao_parents (outs ! k))
          \<and> refs_ok ids batch (pending_in frs k) (bi_parents (xs ! k)) (ao_parents (outs ! k)))
     \<and> distinct (map ao_id (filter ao_created outs))"

definition ids_ok :: "int \<Rightarrow> string list \<Rightarrow> (string \<Rightarrow> int option) \<Rightarrow> 'a content_db_scheme \<Rightarrow> bool" where
  "ids_ok t wanted ids db \<longleftrightarrow> (\<forall>e i. ids e = Some i \<longleftrightarrow> e \<in> set wanted \<and> e \<noteq> [] \<and> names t db e i)"

definition refs_inv ::
  "int \<Rightarrow> string list \<Rightarrow> string list \<Rightarrow> batch_item list \<Rightarrow> batch_state \<Rightarrow> 'a content_db_scheme \<Rightarrow> bool" where
  "refs_inv t wanted batch xs st db \<longleftrightarrow> ids_ok t wanted (bs_ids st) db
     \<and> outcomes_ok (bs_ids st) (set batch) (bs_forward st) xs (bs_outcomes st) db"

lemma refs_ok_mono:
  assumes "refs_ok ids batch pend es ps" "ids \<subseteq>\<^sub>m ids'" "\<And>e. pend e \<Longrightarrow> pend' e"
    "\<And>e. ids' e \<noteq> None \<Longrightarrow> ids e \<noteq> None \<or> e \<in> batch"
  shows "refs_ok ids' batch pend' es ps"
proof -
  have up: "ids e = Some i \<Longrightarrow> ids' e = Some i" for e i using assms(2) by (auto simp: map_le_def dom_def)
  have "(\<exists>i \<in> set ps. ids' e = Some i) \<or> pend' e \<or> (ids' e = None \<and> e \<notin> batch)" if e: "e \<in> set es" for e
  proof -
    from assms(1) e have "(\<exists>i \<in> set ps. ids e = Some i) \<or> pend e \<or> (ids e = None \<and> e \<notin> batch)"
      unfolding refs_ok_def by simp
    then consider i where "i \<in> set ps" "ids e = Some i" | "pend e" | "ids e = None" "e \<notin> batch"
      by (elim disjE bexE conjE)
    then show ?thesis
    proof cases
      case 1
      with up [OF 1(2)] show ?thesis by blast
    next
      case 2
      with assms(3) show ?thesis by blast
    next
      case 3
      with assms(4) [of e] show ?thesis by blast
    qed
  qed
  moreover have "\<exists>e \<in> set es. ids' e = Some i" if "i \<in> set ps" for i
  proof -
    from assms(1) that obtain e where "e \<in> set es" "ids e = Some i" unfolding refs_ok_def by blast
    then show ?thesis using up by blast
  qed
  ultimately show ?thesis using assms(1) by (simp add: refs_ok_def)
qed

text \<open>Adding an outcome.\<close>

lemma outcomes_ok_add:
  assumes ok: "outcomes_ok ids batch frs xs outs db" and ids: "ids \<subseteq>\<^sub>m ids'"
    and dom: "\<And>e. ids' e \<noteq> None \<Longrightarrow> ids e \<noteq> None \<or> e \<in> batch"
    and rows: "\<And>x ps. has_parents db x ps \<Longrightarrow> has_parents db' x ps"
    and out: "ao_created out \<Longrightarrow> has_parents db' (ao_id out) (ao_parents out)
      \<and> refs_ok ids' batch (\<lambda>e. e \<in> set pending) (bi_parents item) (ao_parents out)
      \<and> ao_id out \<notin> memory_ids db"
    and pend: "set pending \<subseteq> set (bi_parents item)"
    and frs: "frs' = (if pending = [] then frs else frs @ [(length outs, pending)])"
  shows "outcomes_ok ids' batch frs' (xs @ [item]) (outs @ [out]) db'"
proof -
  note o = ok [unfolded outcomes_ok_def]
  have len: "length outs = length xs" using o by blast
  have old_frs: "fst fr < length xs \<and> set (snd fr) \<subseteq> set (bi_parents (xs ! fst fr))" if "fr \<in> set frs" for fr
    using o that by blast
  have one: "fst fr < length (xs @ [item]) \<and> set (snd fr) \<subseteq> set (bi_parents ((xs @ [item]) ! fst fr))"
    if "fr \<in> set frs'" for fr
  proof -
    from that consider "fr \<in> set frs" | "fr = (length outs, pending)" by (auto simp: frs split: if_splits)
    then show ?thesis
    proof cases
      case 1
      from old_frs [OF this] show ?thesis by (auto simp: nth_append)
    qed (use pend len in simp)
  qed
  have pm: "pending_in frs k e \<Longrightarrow> pending_in frs' k e" for k e by (auto simp: frs pending_in_def)
  have two: "has_parents db' (ao_id ((outs @ [out]) ! k)) (ao_parents ((outs @ [out]) ! k))
      \<and> refs_ok ids' batch (pending_in frs' k) (bi_parents ((xs @ [item]) ! k)) (ao_parents ((outs @ [out]) ! k))"
    if k: "k < length (xs @ [item])" "ao_created ((outs @ [out]) ! k)" for k
  proof (cases "k < length xs")
    case True
    with k o len have old: "has_parents db (ao_id (outs ! k)) (ao_parents (outs ! k))"
      "refs_ok ids batch (pending_in frs k) (bi_parents (xs ! k)) (ao_parents (outs ! k))"
      by (auto simp: nth_append)
    have "refs_ok ids' batch (pending_in frs' k) (bi_parents (xs ! k)) (ao_parents (outs ! k))"
      by (rule refs_ok_mono [OF old(2) ids pm dom])
    with old(1) rows True len show ?thesis by (simp add: nth_append)
  next
    case False
    with k len have k': "k = length outs" by simp
    with k have c: "ao_created out" by simp
    have "refs_ok ids' batch (pending_in frs' k) (bi_parents item) (ao_parents out)"
      by (rule refs_ok_mono [of ids' batch "\<lambda>e. e \<in> set pending"])
        (use out [OF c] in \<open>auto simp: pending_in_def frs k'\<close>)
    with out [OF c] k' len show ?thesis by (simp add: nth_append)
  qed
  have "ao_id x \<in> memory_ids db" if "x \<in> set outs" "ao_created x" for x
  proof -
    from that obtain k where "k < length xs" "x = outs ! k" using len by (auto simp: in_set_conv_nth)
    with o that have "has_parents db (ao_id x) (ao_parents x)" by blast
    then show ?thesis by (force simp: has_parents_def memory_ids_def)
  qed
  then have three: "distinct (map ao_id (filter ao_created (outs @ [out])))"
    using o out by (auto simp: image_iff)
  show ?thesis unfolding outcomes_ok_def using one two three len by simp
qed

text \<open>
  A step of the loop. The ids that are known are exactly the external ids the batch asks for that
  members of the thread have.
\<close>

lemma names_append:
  "names t (db\<lparr>ct_memories := ct_memories db @ [row]\<rparr>) e i \<longleftrightarrow>
     names t db e i \<or> mem_external row = Some e \<and> mem_id row = i \<and> linked t i db"
  by (auto simp: names_def linked_def)

lemma has_parents_append:
  "ct_memories db' = ct_memories db @ [row] \<Longrightarrow>
     has_parents db' x ps \<longleftrightarrow> has_parents db x ps \<or> x = mem_id row \<and> ps = mem_parents row"
  by (auto simp: has_parents_def)

lemma item_eid_external: "item_eid item = Some e \<Longrightarrow> md_external (bi_memory item) = Some e \<and> e \<noteq> []"
  by (auto simp: item_eid_def split: option.splits if_splits)

lemma item_eid_None: "item_eid item = None \<Longrightarrow> md_external (bi_memory item) = Some e \<Longrightarrow> e = []"
  by (auto simp: item_eid_def split: option.splits if_splits)

lemma names_created:
  assumes core: "add_memory_core env t d True db = Inr ((i, d'), db')"
    and parents: "\<And>p. p \<in> set (md_parents d) \<Longrightarrow> linked t p db"
  shows "names t db' e j \<longleftrightarrow> names t db e j \<or> md_external d = Some e \<and> j = i"
proof -
  note a = yieldsD [OF add_memory_core_adds core, simplified]
  have m: "ct_memories db' = ct_memories db @ [memory_of_data i (ce_now env) d']"
    and new: "i \<notin> memory_ids db" and l: "linked t i db'" and d': "md_external d' = md_external d" "md_parents d' = md_parents d"
    using a by auto
  have keep: "linked t b db' \<longleftrightarrow> linked t b db" if "b \<noteq> i" for b
  proof
    assume "linked t b db'"
    then have "linked t b db \<or> t = t \<and> (b = i \<or> b \<in> set (md_parents d'))" using a by blast
    then show "linked t b db" using that parents d' by auto
  next
    assume "linked t b db"
    then show "linked t b db'" using a grows_linked by blast
  qed
  have other: "mem_id m \<noteq> i" if "m \<in> set (ct_memories db)" for m
    using new that by (auto simp: memory_ids_def)
  show ?thesis
  proof
    assume "names t db' e j"
    then show "names t db e j \<or> md_external d = Some e \<and> j = i"
      unfolding names_def m using other keep d' by (fastforce simp: memory_of_data_def)
  next
    assume "names t db e j \<or> md_external d = Some e \<and> j = i"
    then show "names t db' e j"
      unfolding names_def m using other keep d' l by (fastforce simp: memory_of_data_def)
  qed
qed

lemma ids_ok_created:
  assumes ids: "ids_ok t wanted ids db" and e: "set_option (item_eid item) \<subseteq> set wanted"
    and core: "add_memory_core env t ((bi_memory item)\<lparr>md_parents := ps\<rparr>) True db = Inr ((i, d'), db')"
    and parents: "\<And>p. p \<in> set ps \<Longrightarrow> linked t p db"
  shows "ids_ok t wanted (case item_eid item of None \<Rightarrow> ids | Some k \<Rightarrow> ids(k \<mapsto> i)) db'"
    and "item_eid item = Some k \<Longrightarrow> ids k = None"
proof -
  have fresh: "names t db k j \<Longrightarrow> md_external (bi_memory item) \<noteq> Some k" for k j
    using yieldsD [OF add_memory_core_adds core] by (force simp: names_def)
  have nm: "names t db' k j \<longleftrightarrow> names t db k j \<or> md_external (bi_memory item) = Some k \<and> j = i" for k j
    using names_created [OF core, of k j] parents by simp
  show none: "ids k = None" if "item_eid item = Some k" for k
    using item_eid_external [OF that] fresh ids unfolding ids_ok_def by (metis option.exhaust)
  show "ids_ok t wanted (case item_eid item of None \<Rightarrow> ids | Some k \<Rightarrow> ids(k \<mapsto> i)) db'"
  proof (cases "item_eid item")
    case None
    then show ?thesis using ids item_eid_None [OF None] unfolding ids_ok_def nm by auto
  next
    case (Some k)
    have "names t db k j = False" for j using fresh item_eid_external [OF Some] by blast
    then show ?thesis using ids item_eid_external [OF Some] e Some unfolding ids_ok_def nm by auto
  qed
qed

lemma refs_ok_resolved:
  assumes "resolve_refs ids batch [] es = (r, p)"
  shows "refs_ok ids (set batch) (\<lambda>e. e \<in> set p) es r" "set p \<subseteq> set es"
proof -
  note r = resolve_refs_spec [OF assms]
  have "(\<exists>i \<in> set r. ids e = Some i) \<or> e \<in> set p \<or> (ids e = None \<and> e \<notin> set batch)" if "e \<in> set es" for e
    using r that by (cases "ids e") auto
  with r show "refs_ok ids (set batch) (\<lambda>e. e \<in> set p) es r" by (simp add: refs_ok_def)
  show "set p \<subseteq> set es" using r by blast
qed

lemma refs_inv_step:
  assumes inv: "batch_inv t db0 existing xs st db" and refs: "refs_inv t wanted batch xs st db"
    and eid: "set_option (item_eid item) \<subseteq> set wanted \<inter> set batch"
    and step: "batch_step env t upsert existing batch item st db = Inr (st', db')"
  shows "refs_inv t wanted batch (xs @ [item]) st' db'"
proof -
  note i = batch_invD [OF inv]
  obtain resolved pending where rr: "resolve_refs (bs_ids st) batch [] (bi_parents item) = (resolved, pending)"
    by (cases "resolve_refs (bs_ids st) batch [] (bi_parents item)")
  note ok = refs_ok_resolved [OF rr]
  have ids: "ids_ok t wanted (bs_ids st) db"
    and outs: "outcomes_ok (bs_ids st) (set batch) (bs_forward st) xs (bs_outcomes st) db"
    using refs by (simp_all add: refs_inv_def)
  show ?thesis
  proof (cases rule: batch_step_cases [OF step rr])
    case (1 e m p)
    have same: "(bs_ids st)(e \<mapsto> mem_id m) = bs_ids st" using i(7) [OF 1(2)] by auto
    have "ids_ok t wanted (bs_ids st) db'" using ids by (simp add: ids_ok_def 1(6))
    moreover have "outcomes_ok (bs_ids st) (set batch) (bs_forward st') (xs @ [item]) (bs_outcomes st') db'"
      unfolding 1(5) note_outcome_simps
      by (rule outcomes_ok_add [OF outs _ _ _ _ ok(2) refl]) (auto simp: 1(6))
    ultimately show ?thesis by (simp add: refs_inv_def 1(5) same)
  next
    case (2 k d p)
    let ?out = "\<lparr>ao_id = k, ao_created = True, ao_position = p, ao_parents_empty = False, ao_parents = resolved\<rparr>"
    have known: "linked t q db" if q: "q \<in> set resolved" for q
    proof -
      have "\<exists>e. bs_ids st e = Some q" using ok(1) q by (auto simp: refs_ok_def)
      then show ?thesis using i(6) by blast
    qed
    note a = yieldsD [OF add_memory_core_adds 2(2), simplified]
    have row: "has_parents db' x ps \<longleftrightarrow> has_parents db x ps \<or> x = k \<and> ps = resolved" for x ps
      using a has_parents_append [of db' db "memory_of_data k (ce_now env) d"] by (simp add: memory_of_data_def)
    have ids': "bs_ids st' = (case item_eid item of None \<Rightarrow> bs_ids st | Some e \<Rightarrow> (bs_ids st)(e \<mapsto> k))"
      unfolding 2(4) by (simp split: option.split)
    note new = ids_ok_created [OF ids _ 2(2) known]
    have "ids_ok t wanted (bs_ids st') db'" unfolding ids' by (rule new(1)) (use eid in auto)
    moreover have le: "bs_ids st \<subseteq>\<^sub>m bs_ids st'" unfolding ids' map_le_def dom_def
      using new(2) eid by (auto split: option.split)
    moreover have dom: "bs_ids st e = None \<Longrightarrow> bs_ids st' e \<noteq> None \<Longrightarrow> e \<in> set batch" for e
      using eid by (auto simp: ids' split: option.splits if_splits)
    moreover have "refs_ok (bs_ids st') (set batch) (\<lambda>e. e \<in> set pending) (bi_parents item) resolved"
      by (rule refs_ok_mono [OF ok(1) le]) (use dom in auto)
    moreover have "k \<notin> memory_ids db" using a by blast
    ultimately have "outcomes_ok (bs_ids st') (set batch)
        (if pending = [] then bs_forward st else bs_forward st @ [(length (bs_outcomes st), pending)])
        (xs @ [item]) (bs_outcomes st @ [?out]) db'"
      by (intro outcomes_ok_add [OF outs le _ _ _ ok(2) refl]) (auto simp: row)
    with \<open>ids_ok t wanted (bs_ids st') db'\<close> show ?thesis by (simp add: refs_inv_def 2(4))
  qed
qed

lemma refs_loop:
  assumes inv: "batch_inv t db0 existing xs st db" and refs: "refs_inv t wanted batch xs st db"
    and eids: "\<And>item. item \<in> set items \<Longrightarrow> set_option (item_eid item) \<subseteq> set wanted \<inter> set batch"
    and loop: "batch_loop env t upsert existing batch items st db = Inr (st', db')"
  shows "refs_inv t wanted batch (xs @ items) st' db'"
proof -
  have "batch_inv t db0 existing (xs @ items) st' db' \<and> refs_inv t wanted batch (xs @ items) st' db'"
  proof (rule batch_loop_inv [where I = "\<lambda>xs st db. batch_inv t db0 existing xs st db \<and> refs_inv t wanted batch xs st db",
        OF _ _ loop], goal_cases)
    case (1 xs item st db st' db')
    then show ?case
      using batch_inv_step [OF _ 1(3)] refs_inv_step [OF _ _ eids [OF 1(1)] 1(3)] by blast
  qed (use inv refs in simp)
  then show ?thesis by blast
qed

subsection \<open>Start and end of the loop\<close>

lemma external_unique:
  assumes "distinct (concat (map (\<lambda>m. case mem_external m of None \<Rightarrow> [] | Some e \<Rightarrow> [e]) ms))"
    and "m \<in> set ms" "m' \<in> set ms" "mem_external m = Some e" "mem_external m' = Some e"
  shows "m = m'"
  using assms by (induction ms) force+

lemma existing_by_eid_complete:
  "row \<in> set rows \<Longrightarrow> mem_external (fst row) = Some e \<Longrightarrow> existing_by_eid rows e \<noteq> None"
  by (induction rows rule: rev_induct) (auto simp: existing_by_eid_def split: option.splits)

lemma ids_ok_start:
  assumes "keys_ok db"
  shows "ids_ok t (wanted_eids items) (attached_ids (seed_existing t items db)) db"
proof -
  let ?ex = "seed_existing t items db"
  have uniq: "distinct (concat (map (\<lambda>m. case mem_external m of None \<Rightarrow> [] | Some e \<Rightarrow> [e]) (ct_memories db)))"
    using assms by (simp add: keys_ok_def external_ids_def)
  have nonempty: "e \<in> set (wanted_eids items) \<Longrightarrow> e \<noteq> []" for e
    by (auto simp: wanted_eids_def item_eid_def split: option.splits if_splits)
  have sound: "m \<in> set (ct_memories db) \<and> p = find_position t (mem_id m) db \<and> mem_external m = Some e
      \<and> e \<in> set (wanted_eids items)" if "?ex e = Some (m, p)" for e m p
    using existing_by_eid_Some [OF that [unfolded seed_existing_def]] find_by_external_member [of m p t "wanted_eids items" db]
    by auto
  have complete: "?ex e = Some (m, find_position t (mem_id m) db)"
    if m: "m \<in> set (ct_memories db)" "mem_external m = Some e" "e \<in> set (wanted_eids items)" for e m
  proof -
    have "(m, find_position t (mem_id m) db) \<in> set (find_by_external_ids t (wanted_eids items) db)"
      unfolding find_by_external_member using m by auto
    from existing_by_eid_complete [OF this, of e] m(2) have "?ex e \<noteq> None" by (simp add: seed_existing_def)
    then obtain m' p where ex: "?ex e = Some (m', p)" by auto
    from sound [OF ex] external_unique [OF uniq m(1) _ m(2), of m'] show ?thesis using ex by simp
  qed
  have "attached_ids ?ex e = Some i \<longleftrightarrow> e \<in> set (wanted_eids items) \<and> e \<noteq> [] \<and> names t db e i" for e i
  proof
    assume "attached_ids ?ex e = Some i"
    then obtain m p where "?ex e = Some (m, Some p)" "i = mem_id m"
      by (auto simp: attached_ids_def split: option.splits prod.splits)
    with sound [OF this(1)] nonempty [of e] show "e \<in> set (wanted_eids items) \<and> e \<noteq> [] \<and> names t db e i"
      by (metis names_def linked_position option.distinct(1))
  next
    assume "e \<in> set (wanted_eids items) \<and> e \<noteq> [] \<and> names t db e i"
    then obtain m where "m \<in> set (ct_memories db)" "mem_external m = Some e" "e \<in> set (wanted_eids items)"
      "mem_id m = i" "linked t i db" by (auto simp: names_def)
    with complete [OF this(1-3)] show "attached_ids ?ex e = Some i"
      by (auto simp: attached_ids_def linked_position split: option.splits)
  qed
  then show ?thesis by (simp add: ids_ok_def)
qed

lemma refs_inv_start:
  "keys_ok db \<Longrightarrow> refs_inv t (wanted_eids items) batch [] (start_batch (seed_existing t items db)) db"
  by (simp add: refs_inv_def start_batch_def ids_ok_start outcomes_ok_def)

subsection \<open>The patches\<close>

lemma distinct_filter_nth:
  "distinct (map f (filter P xs)) \<Longrightarrow> i < length xs \<Longrightarrow> j < length xs \<Longrightarrow> P (xs ! i) \<Longrightarrow> P (xs ! j)
     \<Longrightarrow> f (xs ! i) = f (xs ! j) \<Longrightarrow> i = j"
proof (induction xs arbitrary: i j)
  case (Cons x xs)
  have tail: "distinct (map f (filter P xs))" using Cons.prems(1) by (cases "P x") simp_all
  have head: "f y \<noteq> f x" if "P x" "y \<in> set xs" "P y" for y
    using Cons.prems(1) that by (auto simp: image_iff)
  show ?case
  proof (cases i; cases j)
    fix a b assume "i = Suc a" "j = Suc b"
    with Cons.IH [OF tail, of a b] Cons.prems show ?thesis by simp
  qed (use Cons.prems head in \<open>auto dest: nth_mem\<close>)
qed simp

lemma created_ids: "map ao_id (filter ao_created outs) = map fst (filter (\<lambda>k. fst (snd k)) (map outcome_key outs))"
  by (induction outs) (simp_all add: outcome_key_def)

lemma outcomes_ok_known:
  assumes "outcomes_ok ids batch frs xs outs db"
  shows "outcomes_ok ids {} frs xs outs db"
proof -
  have "refs_ok ids batch pend es ps \<Longrightarrow> refs_ok ids {} pend es ps" for pend es ps
    unfolding refs_ok_def by blast
  with assms show ?thesis unfolding outcomes_ok_def by blast
qed

lemma refs_ok_patched:
  assumes "refs_ok ids {} pend es ps" "\<And>e. pend e \<Longrightarrow> e \<in> set fes \<or> pend' e" "set fes \<subseteq> set es"
  shows "refs_ok ids {} pend' es (ps @ forward_additions ids ps fes)"
proof -
  have "(\<exists>i \<in> set (ps @ forward_additions ids ps fes). ids e = Some i) \<or> pend' e \<or> ids e = None" if e: "e \<in> set es" for e
  proof (cases "ids e")
    case (Some i)
    with assms(1) e have "i \<in> set ps \<or> pend e" by (auto simp: refs_ok_def)
    then show ?thesis using Some assms(2) [of e] by (auto simp: forward_additions_iff)
  qed simp
  moreover have "\<exists>e \<in> set es. ids e = Some i" if "i \<in> set (ps @ forward_additions ids ps fes)" for i
    using that assms(1) subsetD [OF assms(3)] by (auto simp: refs_ok_def forward_additions_iff)
  moreover have "distinct (ps @ forward_additions ids ps fes)"
    using assms(1) by (auto simp: refs_ok_def distinct_forward forward_additions_iff)
  ultimately show ?thesis unfolding refs_ok_def by blast
qed

lemma outcomes_ok_patch:
  assumes ok: "outcomes_ok ids {} (fr # frs) xs outs db" and inv: "patch_inv t db0 ids db"
    and run: "patch_forward env t ids fr outs db = (outs', db')"
  shows "outcomes_ok ids {} frs xs outs' db'"
proof -
  obtain k es where fr: "fr = (k, es)" by (cases fr)
  let ?out = "outs ! k"
  let ?add = "forward_additions ids (ao_parents ?out) es"
  note o = ok [unfolded outcomes_ok_def]
  have len: "length outs = length xs" and k: "k < length xs" "set es \<subseteq> set (bi_parents (xs ! k))"
    and uniq: "distinct (map ao_id (filter ao_created outs))"
    and frs: "\<And>fr. fr \<in> set frs \<Longrightarrow> fst fr < length xs \<and> set (snd fr) \<subseteq> set (bi_parents (xs ! fst fr))"
    using o by (simp_all add: fr)
  have old: "has_parents db (ao_id (outs ! j)) (ao_parents (outs ! j))"
      "refs_ok ids {} (pending_in (fr # frs) j) (bi_parents (xs ! j)) (ao_parents (outs ! j))"
    if "j < length xs" "ao_created (outs ! j)" for j using o that by blast+
  have pend: "pending_in (fr # frs) j e \<Longrightarrow> (j = k \<and> e \<in> set es) \<or> pending_in frs j e" for j e
    by (auto simp: pending_in_def fr)
  have run': "(if \<not> ao_created ?out \<or> ?add = [] then (outs, db)
      else (outs[k := ?out\<lparr>ao_parents := ao_parents ?out @ ?add\<rparr>],
            snd (update_parent_ids (ao_id ?out) (ao_parents ?out @ ?add) db))) = (outs', db')"
    using run unfolding patch_forward_eq [OF inv] Let_def fr fst_conv snd_conv .
  have same: "map ao_id (filter ao_created outs') = map ao_id (filter ao_created outs)"
    using patch_forward_outcomes [of outs env t ids fr db] run unfolding created_ids same_outcomes_def by simp
  have patched: "refs_ok ids {} (pending_in frs k) (bi_parents (xs ! k)) (ao_parents ?out @ ?add)" if "ao_created ?out"
    by (rule refs_ok_patched [OF old(2) [OF k(1) that]]) (use pend k in auto)
  have other: "refs_ok ids {} (pending_in frs j) (bi_parents (xs ! j)) (ao_parents (outs ! j))"
    if "j < length xs" "ao_created (outs ! j)" "j \<noteq> k" for j
    by (rule refs_ok_mono [OF old(2) [OF that(1,2)]]) (use pend that(3) in auto)
  show ?thesis
  proof (cases "\<not> ao_created ?out \<or> ?add = []")
    case True
    with run' have eq: "outs' = outs" "db' = db" by simp_all
    have "refs_ok ids {} (pending_in frs j) (bi_parents (xs ! j)) (ao_parents (outs ! j))"
      if "j < length xs" "ao_created (outs ! j)" for j
      using that True patched other by (cases "j = k") auto
    then show ?thesis unfolding outcomes_ok_def eq using old(1) frs len uniq by blast
  next
    case False
    with run' have eq: "outs' = outs[k := ?out\<lparr>ao_parents := ao_parents ?out @ ?add\<rparr>]"
      "db' = snd (update_parent_ids (ao_id ?out) (ao_parents ?out @ ?add) db)" by auto
    have rows: "has_parents db' (ao_id (outs' ! j)) (ao_parents (outs' ! j))
        \<and> refs_ok ids {} (pending_in frs j) (bi_parents (xs ! j)) (ao_parents (outs' ! j))"
      if j: "j < length xs" "ao_created (outs' ! j)" for j
    proof (cases "j = k")
      case True
      have "ao_id ?out \<in> memory_ids db"
        using old(1) [OF k(1)] False by (force simp: has_parents_def memory_ids_def)
      with True patched False k(1) len show ?thesis by (simp add: eq has_parents_update)
    next
      case neq: False
      then have "outs' ! j = outs ! j" by (simp add: eq)
      moreover have "ao_id (outs ! j) \<noteq> ao_id ?out"
        using distinct_filter_nth [OF uniq, of j k] j k(1) len False neq calculation by auto
      ultimately show ?thesis using old(1) other j neq by (simp add: eq(2) has_parents_update)
    qed
    have "length outs' = length xs" by (simp add: eq len)
    then show ?thesis unfolding outcomes_ok_def using rows frs same uniq by simp
  qed
qed

lemma outcomes_ok_patch_all:
  "outcomes_ok ids {} frs xs outs db \<Longrightarrow> patch_inv t db0 ids db
     \<Longrightarrow> patch_all env t ids frs outs db = (outs', db') \<Longrightarrow> outcomes_ok ids {} [] xs outs' db'"
proof (induction frs arbitrary: outs db)
  case (Cons fr frs)
  obtain outs1 db1 where p: "patch_forward env t ids fr outs db = (outs1, db1)"
    by (cases "patch_forward env t ids fr outs db")
  have "patch_inv t db0 ids db1" using patch_forward_inv [OF Cons.prems(2), of env fr outs] p by simp
  with Cons.IH [OF outcomes_ok_patch [OF Cons.prems(1,2) p]] Cons.prems(3) p show ?case by simp
qed simp

subsection \<open>The parents of an import\<close>

lemma normalize_items_keep:
  "normalize_items env kind items = Inr items' \<Longrightarrow>
     map bi_parents items' = map bi_parents items \<and> map item_eid items' = map item_eid items"
proof (induction items arbitrary: items')
  case (Cons item items)
  from Cons.prems obtain d rest where d: "normalize_memory_for_create env (bi_memory item) = Inr d"
    and rest: "normalize_items env kind items = Inr rest" and eq: "items' = item\<lparr>bi_memory := d\<rparr> # rest"
    by (auto elim!: and_then_InrE)
  have "md_external d = md_external (bi_memory item)"
    using d by (auto simp: normalize_memory_for_create_def elim!: and_then_InrE split: option.splits)
  with Cons.IH [OF rest] show ?case by (simp add: eq item_eid_def)
qed simp

lemma scan_batch_eids:
  "scan_batch seen items = Inr eids \<Longrightarrow> set seen \<subseteq> set eids \<and> (\<forall>item \<in> set items. set_option (item_eid item) \<subseteq> set eids)"
  by (induction seen items rule: scan_batch.induct) (auto split: if_splits option.splits)

lemma check_batch_eids:
  "check_batch items = Inr eids \<Longrightarrow> item \<in> set items \<Longrightarrow> set_option (item_eid item) \<subseteq> set eids"
proof -
  assume "check_batch items = Inr eids" and item: "item \<in> set items"
  then have "scan_batch [] items = Inr eids" by (auto simp: check_batch_def elim!: and_then_InrE split: if_splits)
  from scan_batch_eids [OF this] item show "set_option (item_eid item) \<subseteq> set eids" by blast
qed

lemma wanted_eids_item:
  "item \<in> set items \<Longrightarrow> set_option (item_eid item) \<subseteq> set (wanted_eids items)
     \<and> {e \<in> set (bi_parents item). e \<noteq> []} \<subseteq> set (wanted_eids items)"
  by (force simp: wanted_eids_def)

text \<open>The outcomes of an import against the rows of its memories.\<close>

definition parents_resolved :: "int \<Rightarrow> 'a content_db_scheme \<Rightarrow> batch_item \<Rightarrow> memory_outcome \<Rightarrow> bool" where
  "parents_resolved t db item out \<longleftrightarrow> \<not> ao_created out
     \<or> has_parents db (ao_id out) (ao_parents out) \<and> distinct (ao_parents out)
       \<and> set (ao_parents out) = named t db (bi_parents item)"

lemma refs_ok_named:
  assumes "ids_ok t wanted ids db" "refs_ok ids {} (\<lambda>_. False) es ps" "{e \<in> set es. e \<noteq> []} \<subseteq> set wanted"
  shows "distinct ps \<and> set ps = named t db es"
proof -
  have ids: "ids e = Some i \<longleftrightarrow> e \<in> set wanted \<and> e \<noteq> [] \<and> names t db e i" for e i
    using assms(1) by (simp add: ids_ok_def)
  have "i \<in> named t db es" if "i \<in> set ps" for i
  proof -
    from assms(2) that obtain e where "e \<in> set es" "ids e = Some i" by (auto simp: refs_ok_def)
    then show ?thesis unfolding ids named_def by blast
  qed
  moreover have "i \<in> set ps" if "i \<in> named t db es" for i
  proof -
    from that obtain e where e: "e \<in> set es" "e \<noteq> []" "names t db e i" by (auto simp: named_def)
    then have "e \<in> set wanted" using assms(3) by auto
    then have "ids e = Some i" using e ids by blast
    then show ?thesis using assms(2) e(1) by (auto simp: refs_ok_def)
  qed
  ultimately show ?thesis using assms(2) by (auto simp: refs_ok_def)
qed

lemma names_patch_all:
  "patch_inv t db0 ids db \<Longrightarrow> patch_all env t ids frs outs db = (outs', db')
     \<Longrightarrow> names u db' e i = names u db e i"
proof (induction frs arbitrary: outs db)
  case (Cons fr frs)
  obtain outs1 db1 where p: "patch_forward env t ids fr outs db = (outs1, db1)"
    by (cases "patch_forward env t ids fr outs db")
  have "patch_inv t db0 ids db1" using patch_forward_inv [OF Cons.prems(1), of env fr outs] p by simp
  moreover have "names u db1 e i = names u db e i"
    using p unfolding patch_forward_eq [OF Cons.prems(1)] by (auto simp: Let_def split: if_splits)
  ultimately show ?case using Cons.IH Cons.prems(2) p by simp
qed simp

text \<open>Every item with an external id leaves it known, under the id of its outcome.\<close>

definition eids_noted :: "batch_item list \<Rightarrow> batch_state \<Rightarrow> bool" where
  "eids_noted xs st \<longleftrightarrow> length (bs_outcomes st) = length xs
     \<and> (\<forall>k < length xs. \<forall>e. item_eid (xs ! k) = Some e \<longrightarrow> bs_ids st e = Some (ao_id (bs_outcomes st ! k)))"

lemma step_ids:
  assumes inv: "batch_inv t db0 existing xs st db" and refs: "refs_inv t wanted batch xs st db"
    and eid: "set_option (item_eid item) \<subseteq> set wanted"
    and step: "batch_step env t upsert existing batch item st db = Inr (st', db')"
  shows "\<exists>out. bs_outcomes st' = bs_outcomes st @ [out] \<and> bs_ids st \<subseteq>\<^sub>m bs_ids st'
    \<and> (\<forall>e. item_eid item = Some e \<longrightarrow> bs_ids st' e = Some (ao_id out))"
proof -
  note i = batch_invD [OF inv]
  obtain resolved pending where rr: "resolve_refs (bs_ids st) batch [] (bi_parents item) = (resolved, pending)"
    by (cases "resolve_refs (bs_ids st) batch [] (bi_parents item)")
  have ids: "ids_ok t wanted (bs_ids st) db" using refs by (simp add: refs_inv_def)
  show ?thesis
  proof (cases rule: batch_step_cases [OF step rr])
    case (1 e m p)
    have "(bs_ids st)(e \<mapsto> mem_id m) = bs_ids st" using i(7) [OF 1(2)] by auto
    then show ?thesis by (auto simp: 1 i(7) [OF 1(2)])
  next
    case (2 k d p)
    have known: "linked t q db" if q: "q \<in> set resolved" for q
      using refs_ok_resolved(1) [OF rr] q i(6) by (auto simp: refs_ok_def)
    have "bs_ids st e = None" if "item_eid item = Some e" for e
      by (rule ids_ok_created(2) [OF ids _ 2(2) known that]) (use eid in auto)
    then show ?thesis by (auto simp: 2(4) map_le_def note_outcome_ids dom_def)
  qed
qed

lemma eids_noted_add:
  assumes "eids_noted xs st" "bs_outcomes st' = bs_outcomes st @ [out]" "bs_ids st \<subseteq>\<^sub>m bs_ids st'"
    "\<And>e. item_eid item = Some e \<Longrightarrow> bs_ids st' e = Some (ao_id out)"
  shows "eids_noted (xs @ [item]) st'"
proof -
  have up: "bs_ids st e = Some i \<Longrightarrow> bs_ids st' e = Some i" for e i using assms(3) by (auto simp: map_le_def dom_def)
  have "bs_ids st' e = Some (ao_id (bs_outcomes st' ! k))"
    if "k < length (xs @ [item])" "item_eid ((xs @ [item]) ! k) = Some e" for k e
    using that assms up by (cases "k < length xs") (auto simp: eids_noted_def nth_append not_less_less_Suc_eq)
  with assms(1,2) show ?thesis by (simp add: eids_noted_def)
qed

lemma eids_loop:
  assumes inv: "batch_inv t db0 existing xs st db" and refs: "refs_inv t wanted batch xs st db"
    and noted: "eids_noted xs st"
    and eids: "\<And>item. item \<in> set items \<Longrightarrow> set_option (item_eid item) \<subseteq> set wanted \<inter> set batch"
    and loop: "batch_loop env t upsert existing batch items st db = Inr (st', db')"
  shows "eids_noted (xs @ items) st'"
proof -
  have "batch_inv t db0 existing (xs @ items) st' db' \<and> refs_inv t wanted batch (xs @ items) st' db' \<and> eids_noted (xs @ items) st'"
  proof (rule batch_loop_inv [where I = "\<lambda>xs st db. batch_inv t db0 existing xs st db \<and> refs_inv t wanted batch xs st db
        \<and> eids_noted xs st", OF _ _ loop], goal_cases)
    case (1 xs item st db st' db')
    then have i: "batch_inv t db0 existing xs st db" "refs_inv t wanted batch xs st db" "eids_noted xs st" by blast+
    have e: "set_option (item_eid item) \<subseteq> set wanted" using eids [OF 1(1)] by blast
    obtain out where o: "bs_outcomes st' = bs_outcomes st @ [out]" "bs_ids st \<subseteq>\<^sub>m bs_ids st'"
      "\<And>e. item_eid item = Some e \<Longrightarrow> bs_ids st' e = Some (ao_id out)"
      using step_ids [OF i(1,2) e 1(3)] by blast
    show ?case
      using batch_inv_step [OF i(1) 1(3)] refs_inv_step [OF i(1,2) eids [OF 1(1)] 1(3)]
        eids_noted_add [OF i(3) o] by blast
  qed (use inv refs noted in simp)
  then show ?thesis by blast
qed

text \<open>The state at the end of an import of memories.\<close>

lemma import_memories_state:
  assumes ok: "content_ok db" and run: "import_memories env t input batch db = Inr (out, db')"
    and checked: "check_batch (bt_items input) = Inr batch"
  obtains items st db1 db2 where
    "normalize_items env (tt_kind t) (bt_items input) = Inr items" "length items = length (bt_items input)"
    "batch_loop env (tt_id t) (bt_upsert input) (seed_existing (tt_id t) items db) batch items
       (start_batch (seed_existing (tt_id t) items db)) db = Inr (st, db1)"
    "batch_inv (tt_id t) db (seed_existing (tt_id t) items db) items st db1"
    "eids_noted items st" "ids_ok (tt_id t) (wanted_eids items) (bs_ids st) db'"
    "patch_all env (tt_id t) (bs_ids st) (bs_forward st) (bs_outcomes st) db1 = (bo_outcomes out, db2)"
    "outcomes_ok (bs_ids st) {} [] items (bo_outcomes out) db2"
    "ct_memories db' = ct_memories db2" "ct_links db' = ct_links db1"
proof -
  obtain items st db1 where items: "normalize_items env (tt_kind t) (bt_items input) = Inr items"
    and loop: "batch_loop env (tt_id t) (bt_upsert input) (seed_existing (tt_id t) items db) batch items
       (start_batch (seed_existing (tt_id t) items db)) db = Inr (st, db1)"
    and fin: "finish_batch env t (bt_labels input) st db1 = Inr (out, db')"
    by (rule import_memories_steps [OF run])
  obtain db2 db3 where
    patch: "patch_all env (tt_id t) (bs_ids st) (bs_forward st) (bs_outcomes st) db1 = (bo_outcomes out, db2)"
    and lab: "label_batch env (tt_id t) (bt_labels input) db2 = Inr db3"
    and db': "db' = snd (refresh_message_bounds (tt_id t) (ce_now env) db3)"
    by (rule finish_batch_steps [OF fin])
  note keep = normalize_items_keep [OF items]
  have eids: "set_option (item_eid item) \<subseteq> set (wanted_eids items) \<inter> set batch" if "item \<in> set items" for item
  proof -
    have "item_eid item \<in> item_eid ` set (bt_items input)"
      using that keep by (metis imageI list.set_map)
    then obtain item' where "item' \<in> set (bt_items input)" "item_eid item' = item_eid item" by auto
    with check_batch_eids [OF checked, of item'] wanted_eids_item [OF that] show ?thesis by auto
  qed
  let ?ex = "seed_existing (tt_id t) items db"
  have start: "batch_inv (tt_id t) db ?ex [] (start_batch ?ex) db"
    by (rule batch_inv_start) (rule store_ok_mono [OF ok], simp)
  have rstart: "refs_inv (tt_id t) (wanted_eids items) batch [] (start_batch ?ex) db"
    by (rule refs_inv_start) (rule store_okD(1) [OF ok])
  have inv: "batch_inv (tt_id t) db ?ex ([] @ items) st db1"
    by (rule batch_loop_inv [where I = "batch_inv (tt_id t) db ?ex", OF batch_inv_step start loop])
  have refs: "refs_inv (tt_id t) (wanted_eids items) batch ([] @ items) st db1"
    by (rule refs_loop [OF start rstart eids loop])
  have "eids_noted [] (start_batch ?ex)" by (simp add: eids_noted_def start_batch_def)
  from eids_loop [OF start rstart this eids loop] have noted: "eids_noted items st" by simp
  have p1: "patch_inv (tt_id t) db1 (bs_ids st) db1" using batch_invD [OF inv] by (auto simp: patch_inv_def)
  have "outcomes_ok (bs_ids st) (set batch) (bs_forward st) items (bs_outcomes st) db1"
    using refs by (simp add: refs_inv_def)
  from outcomes_ok_patch_all [OF outcomes_ok_known [OF this] p1 patch]
  have out: "outcomes_ok (bs_ids st) {} [] items (bo_outcomes out) db2" .
  have tables: "ct_memories db' = ct_memories db2" "ct_links db' = ct_links db2"
    using label_batch_tables [OF lab] by (simp_all add: db')
  have "patch_inv (tt_id t) db1 (bs_ids st) db2"
    using patch_all_inv [OF p1, of env "bs_forward st" "bs_outcomes st"] patch by simp
  then have links: "ct_links db' = ct_links db1" by (simp add: tables patch_inv_def)
  have "names (tt_id t) db' e i = names (tt_id t) db1 e i" for e i
    using names_cong [of db' db2] tables names_patch_all [OF p1 patch] by simp
  then have ids: "ids_ok (tt_id t) (wanted_eids items) (bs_ids st) db'" using refs by (simp add: refs_inv_def ids_ok_def)
  show thesis
    using that [OF items normalize_items_length [OF items] loop _ noted ids patch out tables(1) links] inv by simp
qed

lemma import_memories_parents:
  fixes db db' :: "'a content_db_scheme"
  assumes ok: "content_ok db" and run: "import_memories env t input batch db = Inr (out, db')"
    and checked: "check_batch (bt_items input) = Inr batch" and k: "k < length (bt_items input)"
  shows "parents_resolved (tt_id t) db' (bt_items input ! k) (bo_outcomes out ! k)"
proof -
  obtain items and st :: batch_state and db1 db2 :: "'a content_db_scheme" where items: "normalize_items env (tt_kind t) (bt_items input) = Inr items"
    and len: "length items = length (bt_items input)"
    and ids: "ids_ok (tt_id t) (wanted_eids items) (bs_ids st) db'"
    and out: "outcomes_ok (bs_ids st) {} [] items (bo_outcomes out) db2" and rows: "ct_memories db' = ct_memories db2"
    by (rule import_memories_state [OF ok run checked], rule that, assumption+)
  have "bi_parents (items ! k) = bi_parents (bt_items input ! k)"
    using normalize_items_keep [OF items] k len by (metis nth_map)
  moreover have "items ! k \<in> set items" using k len by simp
  moreover have "pending_in [] k = (\<lambda>_. False)" by (auto simp: pending_in_def)
  moreover have "has_parents db' x ps = has_parents db2 x ps" for x ps by (simp add: has_parents_def rows)
  ultimately show ?thesis
    using out k len refs_ok_named [OF ids, of "bi_parents (items ! k)" "ao_parents (bo_outcomes out ! k)"]
      wanted_eids_item [of "items ! k" items]
    unfolding outcomes_ok_def parents_resolved_def by auto
qed

subsection \<open>Importing again\<close>

text \<open>Every outcome of an item with an external id is the member with this id.\<close>

lemma same_outcomes_nth:
  assumes "same_outcomes xs ys" "k < length xs"
  shows "ao_id (ys ! k) = ao_id (xs ! k)" "ao_created (ys ! k) = ao_created (xs ! k)"
proof -
  have "length xs = length ys" using assms(1) unfolding same_outcomes_def by (rule map_eq_imp_length_eq)
  moreover have "map outcome_key xs ! k = map outcome_key ys ! k" using assms(1) by (simp add: same_outcomes_def)
  ultimately have "outcome_key (xs ! k) = outcome_key (ys ! k)" using assms(2) by simp
  then show "ao_id (ys ! k) = ao_id (xs ! k)" "ao_created (ys ! k) = ao_created (xs ! k)"
    by (simp_all add: outcome_key_def)
qed

lemma names_unique:
  assumes "keys_ok db" "names t db e i" "names t db e j"
  shows "i = j"
proof -
  have uniq: "distinct (concat (map (\<lambda>m. case mem_external m of None \<Rightarrow> [] | Some e \<Rightarrow> [e]) (ct_memories db)))"
    using assms(1) by (simp add: keys_ok_def external_ids_def)
  from assms(2,3) show ?thesis by (auto simp: names_def dest: external_unique [OF uniq])
qed

lemma import_memories_names:
  fixes db db' :: "'a content_db_scheme"
  assumes ok: "content_ok db" and run: "import_memories env t input batch db = Inr (out, db')"
    and checked: "check_batch (bt_items input) = Inr batch"
    and k: "k < length (bt_items input)" "item_eid (bt_items input ! k) = Some e"
  shows "names (tt_id t) db' e (ao_id (bo_outcomes out ! k))"
proof -
  obtain items and st :: batch_state and db1 db2 :: "'a content_db_scheme" where items: "normalize_items env (tt_kind t) (bt_items input) = Inr items"
    and len: "length items = length (bt_items input)" and noted: "eids_noted items st"
    and ids: "ids_ok (tt_id t) (wanted_eids items) (bs_ids st) db'"
    and patch: "patch_all env (tt_id t) (bs_ids st) (bs_forward st) (bs_outcomes st) db1 = (bo_outcomes out, db2)"
    by (rule import_memories_state [OF ok run checked], rule that, assumption+)
  have "item_eid (items ! k) = Some e"
    using normalize_items_keep [OF items] k len by (metis nth_map)
  then have "bs_ids st e = Some (ao_id (bs_outcomes st ! k))" "k < length (bs_outcomes st)"
    using noted k len by (auto simp: eids_noted_def)
  moreover have "same_outcomes (bs_outcomes st) (bo_outcomes out)"
    using patch_all_outcomes [of "bs_outcomes st" env "tt_id t" "bs_ids st" "bs_forward st" db1] patch by simp
  ultimately show ?thesis using ids same_outcomes_nth(1) by (auto simp: ids_ok_def)
qed

text \<open>A batch of known external ids only overwrites.\<close>

definition only_overwritten :: "'a content_db_scheme \<Rightarrow> batch_state \<Rightarrow> 'a content_db_scheme \<Rightarrow> bool" where
  "only_overwritten db0 st db \<longleftrightarrow> (\<forall>out \<in> set (bs_outcomes st). \<not> ao_created out)
     \<and> ct_links db = ct_links db0
     \<and> map (\<lambda>m. (mem_id m, mem_external m)) (ct_memories db) = map (\<lambda>m. (mem_id m, mem_external m)) (ct_memories db0)"

lemma patch_all_overwritten:
  "\<forall>out \<in> set outs. \<not> ao_created out \<Longrightarrow> \<forall>fr \<in> set frs. fst fr < length outs
     \<Longrightarrow> patch_all env t ids frs outs db = (outs, db)"
proof (induction frs)
  case (Cons fr frs)
  then have "\<not> ao_created (outs ! fst fr)" by simp
  then have "patch_forward env t ids fr outs db = (outs, db)" by (cases fr) (simp add: patch_forward_def)
  with Cons show ?case by simp
qed simp

lemma import_memories_again:
  fixes db db' :: "'a content_db_scheme"
  assumes ok: "content_ok db" and run: "import_memories env t input batch db = Inr (out, db')"
    and checked: "check_batch (bt_items input) = Inr batch"
    and known: "\<And>item. item \<in> set (bt_items input) \<Longrightarrow> \<exists>e i. item_eid item = Some e \<and> names (tt_id t) db e i"
  shows "\<forall>x \<in> set (bo_outcomes out). \<not> ao_created x" "ct_links db' = ct_links db"
    and "map (\<lambda>m. (mem_id m, mem_external m)) (ct_memories db') = map (\<lambda>m. (mem_id m, mem_external m)) (ct_memories db)"
proof -
  obtain items and st :: batch_state and db1 db2 :: "'a content_db_scheme" where items: "normalize_items env (tt_kind t) (bt_items input) = Inr items"
    and loop: "batch_loop env (tt_id t) (bt_upsert input) (seed_existing (tt_id t) items db) batch items
       (start_batch (seed_existing (tt_id t) items db)) db = Inr (st, db1)"
    and inv: "batch_inv (tt_id t) db (seed_existing (tt_id t) items db) items st db1"
    and patch: "patch_all env (tt_id t) (bs_ids st) (bs_forward st) (bs_outcomes st) db1 = (bo_outcomes out, db2)"
    and rows: "ct_memories db' = ct_memories db2" and links: "ct_links db' = ct_links db1"
    by (rule import_memories_state [OF ok run checked], rule that, assumption+)
  let ?ex = "seed_existing (tt_id t) items db"
  have found: "Option.bind (item_eid item) ?ex \<noteq> None" if item: "item \<in> set items" for item
  proof -
    have "item_eid item \<in> item_eid ` set (bt_items input)"
      using item normalize_items_keep [OF items] by (metis imageI list.set_map)
    with known obtain e i where e: "item_eid item = Some e" "names (tt_id t) db e i" by force
    have "attached_ids ?ex e = Some i"
      using ids_ok_start [OF store_okD(1) [OF ok], of "tt_id t" items] wanted_eids_item [OF item] e item_eid_external [OF e(1)]
      by (auto simp: ids_ok_def)
    with e(1) show ?thesis by (auto simp: attached_ids_def split: option.splits)
  qed
  have "only_overwritten db st db1"
  proof (rule batch_loop_inv [where I = "\<lambda>_ st db1. only_overwritten db st db1", OF _ _ loop], goal_cases)
    case (1 xs item st db1 st' db1')
    obtain resolved pending where rr: "resolve_refs (bs_ids st) batch [] (bi_parents item) = (resolved, pending)"
      by (cases "resolve_refs (bs_ids st) batch [] (bi_parents item)")
    show ?case
      by (cases rule: batch_step_cases [OF 1(3) rr])
        (use 1(2) found [OF 1(1)] in \<open>auto simp: only_overwritten_def row_updates_keep\<close>)
  qed (simp add: only_overwritten_def start_batch_def)
  then have o: "\<forall>x \<in> set (bs_outcomes st). \<not> ao_created x" "ct_links db1 = ct_links db"
    "map (\<lambda>m. (mem_id m, mem_external m)) (ct_memories db1) = map (\<lambda>m. (mem_id m, mem_external m)) (ct_memories db)"
    by (simp_all add: only_overwritten_def)
  have "patch_all env (tt_id t) (bs_ids st) (bs_forward st) (bs_outcomes st) db1 = (bs_outcomes st, db1)"
    by (rule patch_all_overwritten [OF o(1)]) (use batch_invD(8,10) [OF inv] in auto)
  with patch have "bo_outcomes out = bs_outcomes st" "db2 = db1" by auto
  then show "\<forall>x \<in> set (bo_outcomes out). \<not> ao_created x" "ct_links db' = ct_links db"
    "map (\<lambda>m. (mem_id m, mem_external m)) (ct_memories db') = map (\<lambda>m. (mem_id m, mem_external m)) (ct_memories db)"
    using o links rows by simp_all
qed

subsection \<open>The guarantees\<close>

lemma import_batch_memories:
  assumes ok: "content_ok db" "graph_ok db" and run: "import_batch env input batch marker db = Inr (out, db')"
  obtains t db1 db2 where
    "resolve_target env (mapped_thread env (input_key (bt_identity input)) db) (bt_target input) db = Inr (t, db1)"
    "same_content db1 db2" "content_ok db2" "import_memories env t input batch db2 = Inr (out, db')" "bo_thread out = tt_id t"
proof -
  obtain t db1 db2 where
    target: "resolve_target env (mapped_thread env (input_key (bt_identity input)) db) (bt_target input) db = Inr (t, db1)"
    and mapped: "map_identity env t (Option.bind marker mk_thread_key) (bt_identity input) (consume_for marker db1) = Inr db2"
    and mems: "import_memories env t input batch db2 = Inr (out, db')"
    by (rule import_batch_steps [OF run])
  from yieldsD [OF resolve_target_ok [OF ok(1)] target]
  have one: "content_ok db1" "group_side db1 = group_side db" by auto
  have "graph_ok (consume_for marker db1)"
    by (rule graph_ok_same [OF consume_for_same(1)]) (rule group_side_graph [OF one(2) ok(2)])
  from map_identity_ok(2) [OF this mapped] have same: "same_content db1 db2"
    using consume_for_same(2) same_content_trans by blast
  have ok2: "content_ok db2" by (rule store_ok_same [OF same one(1)])
  show thesis by (rule that [OF target same ok2 mems import_memories_result(6) [OF ok2 mems]])
qed

text \<open>
  C7. Every memory an import created has as its parents, without duplicates, exactly the members
  of the thread whose external ids its item names: earlier and later ones of the same batch and
  older ones; the row holds the parents the outcome reports.
\<close>

theorem import_references:
  assumes ok: "content_ok db" "graph_ok db"
    and run: "add_memories_batch env input db = Inr (out, db')" and went: "\<not> bo_suppressed out"
  shows "list_all2 (parents_resolved (bo_thread out) db') (bt_items input) (bo_outcomes out)"
proof (rule add_memories_batch_cases [OF run])
  assume "out = suppressed_output"
  with went show ?thesis by (simp add: suppressed_output_def)
next
  fix batch assume checked: "check_batch (bt_items input) = Inr batch"
    and imp: "import_batch env input batch (marker_of (input_key (bt_identity input)) db) db = Inr (out, db')"
  obtain t db2 where "content_ok db2" "import_memories env t input batch db2 = Inr (out, db')" "bo_thread out = tt_id t"
    by (rule import_batch_memories [OF ok imp])
  from import_memories_parents [OF this(1,2) checked] this(3) import_batch_result(5) [OF ok imp]
  show ?thesis by (simp add: list_all2_conv_all_nth)
qed

text \<open>The second import of a session meets the thread of the first.\<close>

lemma resolve_target_mapped:
  "yields (resolve_target env (Some u) target db) (\<lambda>(t, db'). tt_id t = u \<and> db' = db)"
proof (cases target)
  case (Existing_Thread i)
  show ?thesis
    unfolding Existing_Thread resolve_target_def batch_target.case resolve_existing_def
    by (intro yields) (auto simp: conflicting_def)
next
  case (Upsert_By_Channel d)
  show ?thesis
    unfolding Upsert_By_Channel resolve_target_def batch_target.case resolve_channel_def
    by (intro yields) (auto simp: conflicting_def)
qed

lemma mapped_thread_found:
  "find_resolved k db = Some row \<Longrightarrow> ce_group_writes env \<Longrightarrow> mapped_thread env (Some k) db = Some (id_thread row)"
  by (simp add: mapped_thread_def)


subsection \<open>A sample run\<close>

theorem import_references_witness:
  "map (\<lambda>m. (mem_id m, mem_parents m)) (ct_memories imported_once) = [(101, [102]), (102, [])]
    \<and> named 100 imported_once [''b''] = {102}"
proof -
  obtain out where run: "add_memories_batch run_env run_batch no_content = Inr (out, imported_once)" "\<not> bo_suppressed out"
    using imported_once_run .
  have "case add_memories_batch run_env run_batch no_content of Inl _ \<Rightarrow> False
    | Inr (out, _) \<Rightarrow> bo_thread out = 100 \<and> map ao_created (bo_outcomes out) = [True, True]
        \<and> map ao_parents (bo_outcomes out) = [[102], []]" by code_simp
  with run(1) have out: "bo_thread out = 100" "map ao_created (bo_outcomes out) = [True, True]"
    "map ao_parents (bo_outcomes out) = [[102], []]" by auto
  from import_references [OF no_content_sound run]
  have "parents_resolved 100 imported_once (run_item ''a'' [''b''] 5) (bo_outcomes out ! 0)"
    by (auto simp: run_batch_def list_all2_Cons1 out)
  moreover have "ao_created (bo_outcomes out ! 0)" "ao_parents (bo_outcomes out ! 0) = [102]" using out(2,3) by auto
  ultimately have "named 100 imported_once [''b''] = {102}" by (auto simp: parents_resolved_def run_item_def)
  moreover have "map (\<lambda>m. (mem_id m, mem_parents m)) (ct_memories imported_once) = [(101, [102]), (102, [])]" by code_simp
  ultimately show ?thesis by blast
qed


end
