(* ===== verification/Import_Chunks.thy ===== *)
theory Import_Chunks
  imports Thread_Import External_Ids
begin

text \<open>
  The entries the importer reads from chat histories and how it packs them into batches
  (\<open>agent-chat-import/src/common/importer.rs\<close>, \<open>common/canonical.rs\<close>, \<open>source.rs\<close>). JSON values are
  those of \<open>serde_json\<close>, whose objects are ordered maps; their rendering, the length of an encoded
  protobuf message, SHA-256, base64 and URL parsing come from libraries and are fields of the
  environment.
\<close>

subsection \<open>JSON values\<close>

datatype json =
    Json_Null
  | Json_Bool bool
  | Json_Int int
  | Json_Float string
  | Json_Str string
  | Json_Arr "json list"
  | Json_Obj "(string \<times> json) list"

text \<open>An object is sorted by its keys; an insertion replaces the value of a key.\<close>

fun json_insert :: "string \<Rightarrow> 'v \<Rightarrow> (string \<times> 'v) list \<Rightarrow> (string \<times> 'v) list" where
  "json_insert k v [] = [(k, v)]"
| "json_insert k v ((k', v') # m) =
     (if k = k' then (k, v) # m else if k < k' then (k, v) # (k', v') # m else (k', v') # json_insert k v m)"

definition json_get :: "string \<Rightarrow> json \<Rightarrow> json option" where
  "json_get key v = (case v of Json_Obj m \<Rightarrow> map_of m key | _ \<Rightarrow> None)"

definition nul_byte :: char where "nul_byte = CHR 0x00"

definition strip_nul_bytes :: "string \<Rightarrow> string" where
  "strip_nul_bytes s = filter (\<lambda>c. c \<noteq> nul_byte) s"

primrec strip_nul_bytes_in_value :: "json \<Rightarrow> json" where
  "strip_nul_bytes_in_value Json_Null = Json_Null"
| "strip_nul_bytes_in_value (Json_Bool b) = Json_Bool b"
| "strip_nul_bytes_in_value (Json_Int i) = Json_Int i"
| "strip_nul_bytes_in_value (Json_Float s) = Json_Float s"
| "strip_nul_bytes_in_value (Json_Str s) = Json_Str (strip_nul_bytes s)"
| "strip_nul_bytes_in_value (Json_Arr vs) = Json_Arr (map strip_nul_bytes_in_value vs)"
| "strip_nul_bytes_in_value (Json_Obj m) =
     (let m' = map (map_prod id strip_nul_bytes_in_value) m
      in Json_Obj (if list_ex (\<lambda>(k, _). nul_byte \<in> set k) m
                   then fold (\<lambda>(k, v). json_insert (strip_nul_bytes k) v) m' [] else m'))"

text \<open>No string and no key of the result holds a NUL.\<close>

primrec nul_free :: "json \<Rightarrow> bool" where
  "nul_free Json_Null = True"
| "nul_free (Json_Bool b) = True"
| "nul_free (Json_Int i) = True"
| "nul_free (Json_Float s) = True"
| "nul_free (Json_Str s) = (nul_byte \<notin> set s)"
| "nul_free (Json_Arr vs) = list_all (\<lambda>b. b) (map nul_free vs)"
| "nul_free (Json_Obj m) = list_all (\<lambda>(k, b). nul_byte \<notin> set k \<and> b) (map (map_prod id nul_free) m)"

lemma nul_free_obj: "nul_free (Json_Obj m) \<longleftrightarrow> (\<forall>k v. (k, v) \<in> set m \<longrightarrow> nul_byte \<notin> set k \<and> nul_free v)"
  by (auto simp: list_all_iff)

lemma strip_nul_bytes_free [simp]: "nul_byte \<notin> set (strip_nul_bytes s)"
  by (simp add: strip_nul_bytes_def)

lemma strip_nul_bytes_same: "nul_byte \<notin> set s \<Longrightarrow> strip_nul_bytes s = s"
  by (auto simp: strip_nul_bytes_def intro!: filter_True)

lemma set_json_insert: "set (json_insert k v m) \<subseteq> insert (k, v) (set m)"
  by (induction k v m rule: json_insert.induct) auto

lemma json_insert_all:
  "(\<And>k v. (k, v) \<in> set m \<Longrightarrow> P k v) \<Longrightarrow> P k v \<Longrightarrow> (k', v') \<in> set (json_insert k v m) \<Longrightarrow> P k' v'"
  using set_json_insert [of k v m] by blast

lemma fold_json_insert_all:
  "(\<And>k v. (k, v) \<in> set kvs \<Longrightarrow> P (f k) v) \<Longrightarrow> (\<And>k v. (k, v) \<in> set m \<Longrightarrow> P k v)
    \<Longrightarrow> (k', v') \<in> set (fold (\<lambda>(k, v). json_insert (f k) v) kvs m) \<Longrightarrow> P k' v'"
proof (induction kvs arbitrary: m)
  case (Cons kv kvs)
  obtain k v where kv: "kv = (k, v)" by (cases kv)
  have "P a b" if "(a, b) \<in> set (json_insert (f k) v m)" for a b
    using json_insert_all [where P = P, OF Cons.prems(2) _ that] Cons.prems(1) [of k v] kv by simp
  with Cons.IH [of "json_insert (f k) v m"] Cons.prems kv show ?case by simp
qed simp

lemma strip_nul_bytes_in_value_free: "nul_free (strip_nul_bytes_in_value v)"
proof (induction v)
  case (Json_Obj m)
  let ?m = "map (map_prod id strip_nul_bytes_in_value) m"
  have free: "nul_free v" if "(k, v) \<in> set ?m" for k v
    using that Json_Obj by (fastforce simp: snds.simps)
  show ?case
  proof (cases "list_ex (\<lambda>(k, _). nul_byte \<in> set k) m")
    case True
    have "nul_byte \<notin> set k' \<and> nul_free v'"
      if "(k', v') \<in> set (fold (\<lambda>(k, v). json_insert (strip_nul_bytes k) v) ?m [])" for k' v'
      by (rule fold_json_insert_all [where P = "\<lambda>k v. nul_byte \<notin> set k \<and> nul_free v", OF _ _ that])
        (use free in auto)
    with True show ?thesis unfolding strip_nul_bytes_in_value.simps Let_def nul_free_obj by simp
  next
    case False
    then have "nul_byte \<notin> set k" if "(k, v) \<in> set ?m" for k v using that by (auto simp: list_ex_iff)
    with False free show ?thesis unfolding strip_nul_bytes_in_value.simps Let_def nul_free_obj by simp
  qed
qed (auto simp: list_all_iff)

subsection \<open>Sessions and entries\<close>

record canonical_addons =
  ad_tool :: "json option"
  ad_attachment :: "json option"
  ad_raw :: "(string \<times> json) list option"

record canonical_entry =
  en_external :: string
  en_parents :: "string list"
  en_role :: int
  en_content_type :: int
  en_content :: string
  en_metadata :: "(string \<times> json) list"
  en_timestamp :: int
  en_order :: int
  en_kind_tag :: string
  en_canonical :: canonical_addons

datatype stream_item = Stream_Entry canonical_entry | Stream_Filtered | Stream_Warn string

definition is_entry_importable :: "int option \<Rightarrow> canonical_entry \<Rightarrow> bool" where
  "is_entry_importable since entry = (case since of Some s \<Rightarrow> s \<le> en_timestamp entry | None \<Rightarrow> True)"

definition external_id_max_bytes :: nat where "external_id_max_bytes = 512"

text \<open>
  The \<open>expect\<close> holds for every source name the command line admits: at most 32 bytes
  (\<open>namespace_external_id_total\<close> below).
\<close>

definition namespace_external_id :: "(string \<Rightarrow> string) \<Rightarrow> string \<Rightarrow> int \<Rightarrow> string \<Rightarrow> string" where
  "namespace_external_id sha source user e =
     (let namespace = (case namespace_for_external_id source e of Some n \<Rightarrow> n | None \<Rightarrow> source)
      in case owner_scoped sha namespace user e external_id_max_bytes of Inr s \<Rightarrow> s | Inl _ \<Rightarrow> [])"

definition namespace_entry_external_ids :: "(string \<Rightarrow> string) \<Rightarrow> string \<Rightarrow> int \<Rightarrow> canonical_entry \<Rightarrow> canonical_entry" where
  "namespace_entry_external_ids sha source user entry =
     entry\<lparr>en_external := namespace_external_id sha source user (en_external entry),
           en_parents := map (namespace_external_id sha source user) (en_parents entry)\<rparr>"

text \<open>\<open>sort_by_key((import_order, timestamp_ms))\<close>, a stable sort.\<close>

definition entry_order :: "canonical_entry \<Rightarrow> int \<times> int" where
  "entry_order e = (en_order e, en_timestamp e)"

definition sort_entries :: "canonical_entry list \<Rightarrow> canonical_entry list" where
  "sort_entries es = sort_key entry_order es"

subsection \<open>Chunks\<close>

record chunk_limits =
  max_entries :: nat
  max_chunk_bytes :: nat

definition default_limits :: chunk_limits where
  "default_limits = \<lparr>max_entries = 500, max_chunk_bytes = 12 * 1024 * 1024\<rparr>"

record chunk_builder =
  cb_entries :: "canonical_entry list"
  cb_inputs :: "batch_item list"
  cb_bytes :: nat
  cb_limits :: chunk_limits

definition new_builder :: "chunk_limits \<Rightarrow> chunk_builder" where
  "new_builder limits = \<lparr>cb_entries = [], cb_inputs = [], cb_bytes = 0, cb_limits = limits\<rparr>"

definition would_overflow :: "nat \<Rightarrow> chunk_builder \<Rightarrow> bool" where
  "would_overflow next_size b =
     (cb_inputs b \<noteq> []
      \<and> (length (cb_inputs b) + 1 > max_entries (cb_limits b) \<or> cb_bytes b + next_size > max_chunk_bytes (cb_limits b)))"

definition push_chunk :: "canonical_entry \<Rightarrow> batch_item \<Rightarrow> nat \<Rightarrow> chunk_builder \<Rightarrow> chunk_builder" where
  "push_chunk entry pb n b =
     b\<lparr>cb_entries := cb_entries b @ [entry], cb_inputs := cb_inputs b @ [pb], cb_bytes := cb_bytes b + n\<rparr>"

definition take_chunk :: "chunk_builder \<Rightarrow> (canonical_entry \<times> batch_item) list \<times> chunk_builder" where
  "take_chunk b = (zip (cb_entries b) (cb_inputs b), b\<lparr>cb_entries := [], cb_inputs := [], cb_bytes := 0\<rparr>)"

text \<open>The ranges of \<open>split_chunks\<close>: the loop over the sizes with its four variables.\<close>

fun split_loop :: "nat list \<Rightarrow> nat \<Rightarrow> nat \<Rightarrow> nat \<Rightarrow> nat \<Rightarrow> (nat \<times> nat) list \<Rightarrow> (nat \<times> nat) list \<times> nat" where
  "split_loop [] i start bytes cnt ranges = (ranges, start)"
| "split_loop (n # sizes) i start bytes cnt ranges =
     (if cnt + 1 > max_entries default_limits \<or> cnt > 0 \<and> bytes + n > max_chunk_bytes default_limits
      then split_loop sizes (i + 1) i n 1 (ranges @ [(start, i)])
      else split_loop sizes (i + 1) start (bytes + n) (cnt + 1) ranges)"

definition split_chunks :: "nat list \<Rightarrow> (nat \<times> nat) list" where
  "split_chunks sizes =
     (case split_loop sizes 0 0 0 0 [] of (ranges, start) \<Rightarrow>
        if start < length sizes then ranges @ [(start, length sizes)] else ranges)"

definition range_of :: "'a list \<Rightarrow> nat \<times> nat \<Rightarrow> 'a list" where
  "range_of xs r = take (snd r - fst r) (drop (fst r) xs)"

subsection \<open>Greedy packing\<close>

text \<open>
  The specification of both: a chunk takes the next element unless it is full, and is never
  empty.
\<close>

definition chunk_full :: "chunk_limits \<Rightarrow> ('a \<Rightarrow> nat) \<Rightarrow> 'a list \<Rightarrow> 'a \<Rightarrow> bool" where
  "chunk_full limits width cur x \<longleftrightarrow> cur \<noteq> []
     \<and> (length cur + 1 > max_entries limits \<or> sum_list (map width cur) + width x > max_chunk_bytes limits)"

fun greedy_chunks :: "chunk_limits \<Rightarrow> ('a \<Rightarrow> nat) \<Rightarrow> 'a list \<Rightarrow> 'a list \<Rightarrow> 'a list list" where
  "greedy_chunks limits width cur [] = (if cur = [] then [] else [cur])"
| "greedy_chunks limits width cur (x # xs) =
     (if chunk_full limits width cur x then cur # greedy_chunks limits width [x] xs
      else greedy_chunks limits width (cur @ [x]) xs)"

definition chunk_fits :: "chunk_limits \<Rightarrow> ('a \<Rightarrow> nat) \<Rightarrow> 'a list \<Rightarrow> bool" where
  "chunk_fits limits width c \<longleftrightarrow> c \<noteq> []
     \<and> (length c = 1 \<or> length c \<le> max_entries limits \<and> sum_list (map width c) \<le> max_chunk_bytes limits)"

lemma greedy_concat: "concat (greedy_chunks limits width cur xs) = cur @ xs"
  by (induction limits width cur xs rule: greedy_chunks.induct) auto

lemma greedy_fits:
  "cur = [] \<or> chunk_fits limits width cur \<Longrightarrow> c \<in> set (greedy_chunks limits width cur xs) \<Longrightarrow> chunk_fits limits width c"
proof (induction limits width cur xs rule: greedy_chunks.induct)
  case (2 limits width cur x xs)
  show ?case
  proof (cases "chunk_full limits width cur x")
    case True
    then have "cur \<noteq> []" by (simp add: chunk_full_def)
    with True 2 show ?thesis by (auto simp: chunk_fits_def)
  next
    case False
    then have "chunk_fits limits width (cur @ [x])" by (auto simp: chunk_fits_def chunk_full_def)
    with False 2 show ?thesis by auto
  qed
qed (auto split: if_splits)

lemma greedy_chunks_start: "cur \<noteq> [] \<Longrightarrow> greedy_chunks limits width cur xs \<noteq> []"
  by (induction limits width cur xs rule: greedy_chunks.induct) auto

text \<open>No chunk could have taken the element that follows it.\<close>

definition packed :: "chunk_limits \<Rightarrow> ('a \<Rightarrow> nat) \<Rightarrow> 'a list list \<Rightarrow> bool" where
  "packed limits width cs \<longleftrightarrow> (\<forall>i. Suc i < length cs \<longrightarrow> chunk_full limits width (cs ! i) (hd (cs ! Suc i)))"

lemma packed_Cons:
  "cs \<noteq> [] \<Longrightarrow> packed limits width (c # cs) \<longleftrightarrow> chunk_full limits width c (hd (hd cs)) \<and> packed limits width cs"
  unfolding packed_def by (cases cs) (auto simp: nth_Cons split: nat.splits)

lemma greedy_head: "cur \<noteq> [] \<Longrightarrow> hd (hd (greedy_chunks limits width cur xs)) = hd cur"
  by (induction limits width cur xs rule: greedy_chunks.induct) auto

lemma greedy_packed: "packed limits width (greedy_chunks limits width cur xs)"
proof (induction limits width cur xs rule: greedy_chunks.induct)
  case (2 limits width cur x xs)
  then show ?case by (auto simp: packed_Cons [OF greedy_chunks_start] greedy_head)
qed (simp add: packed_def)

subsection \<open>\<open>split_chunks\<close> packs greedily\<close>

lemma split_loop_greedy:
  assumes "xs = pre @ ys" "start \<le> length pre" "cnt = length (drop start pre)"
    and "bytes = sum_list (map width (drop start pre))"
    and "split_loop (map width ys) (length pre) start bytes cnt ranges = (ranges', start')"
  shows "map (range_of xs) ranges' @ (if start' < length xs then [drop start' xs] else [])
    = map (range_of xs) ranges @ greedy_chunks default_limits width (drop start pre) ys \<and> start' \<le> length xs"
  using assms
proof (induction ys arbitrary: pre start bytes cnt ranges)
  case (Cons y ys)
  let ?cur = "drop start pre"
  have xs: "xs = (pre @ [y]) @ ys" using Cons.prems(1) by simp
  have full: "(cnt + 1 > max_entries default_limits \<or> cnt > 0 \<and> bytes + width y > max_chunk_bytes default_limits)
      \<longleftrightarrow> chunk_full default_limits width ?cur y"
    using Cons.prems(3,4) by (auto simp: chunk_full_def default_limits_def)
  show ?case
  proof (cases "chunk_full default_limits width ?cur y")
    case True
    have step: "split_loop (map width ys) (length (pre @ [y])) (length pre) (width y) 1 (ranges @ [(start, length pre)])
        = (ranges', start')"
      using Cons.prems(5) True full by simp
    have cur: "range_of xs (start, length pre) = ?cur"
      using Cons.prems(1,2) by (simp add: range_of_def)
    from Cons.IH [OF xs _ _ _ step] show ?thesis using True cur by simp
  next
    case False
    have step: "split_loop (map width ys) (length (pre @ [y])) start (bytes + width y) (cnt + 1) ranges = (ranges', start')"
      using Cons.prems(5) False full by (auto split: if_splits)
    from Cons.IH [OF xs _ _ _ step] show ?thesis using False Cons.prems(2-4) by simp
  qed
qed (auto simp: range_of_def)

lemma split_chunks_greedy:
  "map (range_of xs) (split_chunks (map width xs)) = greedy_chunks default_limits width [] xs"
proof -
  obtain ranges start where l: "split_loop (map width xs) 0 0 0 0 [] = (ranges, start)"
    by (cases "split_loop (map width xs) 0 0 0 0 []")
  from split_loop_greedy [of xs "[]" xs 0 0 0 width "[]" ranges start] l
  show ?thesis by (auto simp: split_chunks_def range_of_def)
qed

text \<open>
  C16. The ranges of \<open>split_chunks\<close> cut the entries into consecutive chunks without losing or
  repeating one; every chunk holds at most 500 entries and 12 MiB, unless it is a single entry,
  and no chunk could have taken the entry that follows it.
\<close>

theorem split_chunks_correct:
  "concat (map (range_of xs) (split_chunks (map width xs))) = xs
    \<and> list_all (chunk_fits default_limits width) (map (range_of xs) (split_chunks (map width xs)))
    \<and> packed default_limits width (map (range_of xs) (split_chunks (map width xs)))"
  unfolding split_chunks_greedy list_all_iff using greedy_fits [of "[]"] by (auto simp: greedy_concat greedy_packed)

subsection \<open>The builder packs greedily\<close>

definition builder_ok :: "(batch_item \<Rightarrow> nat) \<Rightarrow> chunk_limits \<Rightarrow> chunk_builder \<Rightarrow> bool" where
  "builder_ok width limits b \<longleftrightarrow> cb_limits b = limits \<and> length (cb_entries b) = length (cb_inputs b)
     \<and> cb_bytes b = sum_list (map width (cb_inputs b))"

definition pair_width :: "(batch_item \<Rightarrow> nat) \<Rightarrow> canonical_entry \<times> batch_item \<Rightarrow> nat" where
  "pair_width width p = width (snd p)"

lemma builder_new: "builder_ok width limits (new_builder limits)"
  by (simp add: builder_ok_def new_builder_def)

lemma builder_push: "builder_ok width limits b \<Longrightarrow> builder_ok width limits (push_chunk entry pb (width pb) b)"
  by (simp add: builder_ok_def push_chunk_def)

lemma builder_take: "builder_ok width limits b \<Longrightarrow> builder_ok width limits (snd (take_chunk b))"
  by (simp add: builder_ok_def take_chunk_def)

lemma take_chunk_push:
  "builder_ok width limits b \<Longrightarrow> fst (take_chunk (push_chunk entry pb n b)) = fst (take_chunk b) @ [(entry, pb)]"
  by (simp add: take_chunk_def push_chunk_def builder_ok_def)

lemma take_chunk_empty [simp]: "fst (take_chunk (snd (take_chunk b))) = []" "fst (take_chunk (new_builder limits)) = []"
  by (simp_all add: take_chunk_def new_builder_def)

lemma take_chunk_inputs:
  "builder_ok width limits b \<Longrightarrow> map snd (fst (take_chunk b)) = cb_inputs b"
  by (simp add: take_chunk_def builder_ok_def)

lemma would_overflow_full:
  assumes "builder_ok width limits b"
  shows "would_overflow (width pb) b \<longleftrightarrow> chunk_full limits (pair_width width) (fst (take_chunk b)) (entry, pb)"
proof -
  have inputs: "cb_inputs b = map snd (fst (take_chunk b))" using take_chunk_inputs [OF assms] by simp
  have "map (pair_width width) (fst (take_chunk b)) = map width (cb_inputs b)"
    unfolding inputs by (simp add: pair_width_def)
  then have "sum_list (map (pair_width width) (fst (take_chunk b))) = cb_bytes b"
    using assms by (simp add: builder_ok_def)
  then show ?thesis using assms by (auto simp: would_overflow_def chunk_full_def builder_ok_def inputs pair_width_def)
qed

subsection \<open>Source names\<close>

definition source_name_char :: "char \<Rightarrow> bool" where
  "source_name_char c \<longleftrightarrow> CHR ''a'' \<le> c \<and> c \<le> CHR ''z'' \<or> CHR ''0'' \<le> c \<and> c \<le> CHR ''9'' \<or> c = CHR ''-'' \<or> c = CHR ''_''"

definition parse_source_name :: "string \<Rightarrow> string + string" where
  "parse_source_name raw =
     (if raw = [] then Inl ''--source-name must not be empty''
      else if length raw > 32 then Inl (''--source-name must be at most 32 bytes ('' @ show_nat (length raw) @ '' bytes given)'')
      else if \<not> list_all source_name_char raw then Inl (''--source-name '' @ CHR 0x27 # raw @ CHR 0x27 # '' must match ^[a-z0-9_-]{1,32}$'')
      else Inr raw)"

lemma length_show_nat: "0 < k \<Longrightarrow> n < 10 ^ k \<Longrightarrow> length (show_nat n) \<le> k"
proof (induction n arbitrary: k rule: show_nat_induct)
  case (large n)
  show ?case
  proof (cases "k = 1")
    case False
    then obtain k' where k': "k = Suc k'" "0 < k'" using large.prems(1) by (cases k) auto
    then have "n div 10 < 10 ^ k'" using large.prems(2) by auto
    from large.IH [OF k'(2) this] show ?thesis using large.hyps by (simp add: show_nat_ge_10 k')
  qed (use large in simp)
qed (simp add: show_nat_less_10)

lemma length_show_int: "in_i64 i \<Longrightarrow> length (show_int i) \<le> 20"
proof -
  assume i: "in_i64 i"
  then have "nat \<bar>i\<bar> < 10 ^ 19" by (auto simp: in_i64_def i64_min_def i64_max_def)
  from length_show_nat [OF _ this] have "length (show_nat (nat \<bar>i\<bar>)) \<le> 19" by simp
  then show ?thesis by (cases "i < 0") (auto simp: show_int_def)
qed

lemma length_replace_hyphens [simp]: "length (replace_hyphens s) = length s"
  by (simp add: replace_hyphens_def)

lemma namespace_external_id_total:
  assumes "parse_source_name raw = Inr source" "in_i64 user"
  shows "owner_scoped sha (case namespace_for_external_id source e of Some n \<Rightarrow> n | None \<Rightarrow> source) user e
     external_id_max_bytes = Inr (namespace_external_id sha source user e)"
proof -
  let ?n = "case namespace_for_external_id source e of Some n \<Rightarrow> n | None \<Rightarrow> source"
  have "length source \<le> 32" using assms(1) by (auto simp: parse_source_name_def split: if_splits)
  then have "length ?n \<le> 32"
    by (auto simp: namespace_for_external_id_def Let_def split: option.splits if_splits)
  then have "length (scoped_prefix ?n user @ ''~'') + 64 \<le> external_id_max_bytes"
    using length_show_int [OF assms(2)] unfolding scoped_prefix_def external_id_max_bytes_def by simp
  then have "is_ok (owner_scoped sha ?n user e external_id_max_bytes)"
    by (simp add: owner_scoped_def Let_def)
  then obtain s where "owner_scoped sha ?n user e external_id_max_bytes = Inr s" by (auto simp: is_ok_iff)
  then show ?thesis by (simp add: namespace_external_id_def Let_def)
qed

end
