(* ===== verification/Import_Client.thy ===== *)
theory Import_Client
  imports Import_Chunks
begin

text \<open>
  The shared importer (\<open>agent-chat-import/src/common/importer.rs\<close>): what it builds from a session
  and its entries, and the two loops that send them, the older one over a complete list
  (\<open>run_import\<close>) and the streaming one. The server is a record of calls that change a state of
  their own, the trait \<open>ImportClient\<close>; a failed call is its error text. Calls that run
  concurrently take effect in the order in which they finish, which the environment gives.
\<close>

subsection \<open>Calls\<close>

type_synonym ('w, 'a) call = "'w \<Rightarrow> (string + 'a) \<times> 'w"

record thread_identity =
  ti_source :: string
  ti_native_kind :: string
  ti_owner_scope :: "string option"
  ti_scope :: identity_scope
  ti_native :: string

datatype import_evidence = Import_Source_Event | Import_Source_Field | Import_Negative_Or_Conflict
datatype import_polarity = Import_Supports | Import_Negates | Import_Conflicts

record import_observation =
  io_subject :: thread_identity
  io_parent :: "thread_identity option"
  io_relation :: "string option"
  io_evidence :: import_evidence
  io_polarity :: import_polarity
  io_confidence :: source_confidence
  io_record_ref :: string
  io_adapter :: string

text \<open>The messages of the protocol.\<close>

record endpoint_message =
  pe_source :: string
  pe_scope_known :: bool
  pe_scope :: string
  pe_owner_scope :: string
  pe_native :: string
  pe_user :: "int option"

record observation_message =
  po_subject :: endpoint_message
  po_parent :: "endpoint_message option"
  po_relation :: "string option"
  po_evidence :: int
  po_polarity :: int
  po_confidence :: int
  po_adapter :: string
  po_record_ref :: string

record record_request =
  rr_thread :: int
  rr_subject :: endpoint_message
  rr_observations :: "observation_message list"
  rr_group_owner :: int

record batch_request =
  rq_target :: batch_target
  rq_memories :: "batch_item list"
  rq_upsert :: bool
  rq_labels :: "string list"
  rq_identity :: "endpoint_message option"
  rq_override :: bool

record outcome_message =
  om_id :: "int option"
  om_created :: bool
  om_position :: int
  om_parents_empty :: bool
  om_parents :: "int list"

record batch_response =
  rs_thread :: "int option"
  rs_created :: bool
  rs_outcomes :: "outcome_message list"
  rs_suppressed :: bool

record parents_request =
  pr_thread :: int
  pr_memory :: int
  pr_parents :: "int list"
  pr_force_shared :: bool
  pr_force_non_empty :: bool

record media_header =
  mh_kind :: int
  mh_media_type :: string
  mh_alt :: "string option"
  mh_width :: "int option"
  mh_height :: "int option"

record found_data =
  fd_external :: "string option"
  fd_user :: "int option"
  fd_threads :: "int list"
  fd_parents :: "int list"

record found_memory =
  fm_id :: "int option"
  fm_data :: "found_data option"

text \<open>A listed entry may lack its memory.\<close>

record 'w import_client =
  ic_group_owner :: "int \<Rightarrow> int"
  ic_add_batch :: "batch_request \<Rightarrow> ('w, batch_response) call"
  ic_add_labels :: "int \<Rightarrow> string list \<Rightarrow> ('w, unit) call"
  ic_upload :: "media_header \<Rightarrow> string \<Rightarrow> ('w, int) call"
  ic_register :: "media_header \<Rightarrow> string \<Rightarrow> ('w, int) call"
  ic_update_parents :: "parents_request \<Rightarrow> ('w, bool) call"
  ic_find_external :: "string \<Rightarrow> ('w, found_memory option option) call"
  ic_find_thread :: "string \<Rightarrow> int \<Rightarrow> ('w, int option) call"
  ic_record :: "record_request \<Rightarrow> ('w, unit) call"

text \<open>The part of the event sink the session import uses: \<open>thread_created\<close>.\<close>

type_synonym 'w event_sink = "string \<Rightarrow> int \<Rightarrow> ('w, unit) call"

datatype attachment_action =
    Upload_Attachment media_header string
  | Register_Attachment media_header string
  | Keep_As_Is

record import_env =
  im_json_text :: "json \<Rightarrow> string"
  im_encoded_len :: "batch_item \<Rightarrow> nat"
  im_sha :: "string \<Rightarrow> string"
  im_decode :: "string \<Rightarrow> string + string"
  im_http_url :: "string \<Rightarrow> bool"
  im_rewire_order :: "(string \<times> parents_request) list \<Rightarrow> (string \<times> parents_request) list"
  im_media_order :: "(string \<times> attachment_action) list \<Rightarrow> (string \<times> attachment_action) list"
  im_group_writes :: bool

record canonical_session =
  ss_source :: string
  ss_id :: string
  ss_channel :: string
  ss_description :: "string option"
  ss_labels :: "string list"
  ss_metadata :: json
  ss_thread_metadata :: "json option"
  ss_identity :: "thread_identity option"
  ss_observations :: "import_observation list"

record session_result =
  sr_id :: string
  sr_key :: "string option"
  sr_thread :: "int option"
  sr_created :: bool
  sr_imported :: nat
  sr_duplicate :: nat
  sr_filtered :: nat
  sr_deferred :: nat
  sr_ignored :: nat
  sr_warned :: nat
  sr_ignored_by :: "string \<rightharpoonup> nat"
  sr_warned_by :: "string \<rightharpoonup> nat"
  sr_warnings :: "string \<rightharpoonup> nat"
  sr_rewired :: nat
  sr_media_linked :: nat
  sr_media_failures :: nat
  sr_error :: "string option"
  sr_skip :: "string option"

definition start_result :: "canonical_session \<Rightarrow> nat \<Rightarrow> session_result" where
  "start_result session filtered =
     \<lparr>sr_id = ss_id session, sr_key = Some (ss_channel session), sr_thread = None, sr_created = False,
      sr_imported = 0, sr_duplicate = 0, sr_filtered = filtered, sr_deferred = 0, sr_ignored = 0,
      sr_warned = 0, sr_ignored_by = (\<lambda>_. None), sr_warned_by = (\<lambda>_. None), sr_warnings = (\<lambda>_. None),
      sr_rewired = 0, sr_media_linked = 0, sr_media_failures = 0, sr_error = None, sr_skip = None\<rparr>"

definition add_to_reason :: "string \<Rightarrow> nat \<Rightarrow> (string \<rightharpoonup> nat) \<Rightarrow> (string \<rightharpoonup> nat)" where
  "add_to_reason reason n m = m(reason \<mapsto> (case m reason of None \<Rightarrow> n | Some k \<Rightarrow> k + n))"

definition bump_reason :: "string \<Rightarrow> nat \<Rightarrow> session_result \<Rightarrow> session_result" where
  "bump_reason reason n r = r\<lparr>sr_warnings := add_to_reason reason n (sr_warnings r)\<rparr>"

definition cumulative_imported_count :: "session_result \<Rightarrow> nat" where
  "cumulative_imported_count r = sr_imported r + sr_duplicate r"

subsection \<open>Attachments\<close>

text \<open>\<open>str::trim\<close>: the UTF-8 forms of the characters of \<open>White_Space\<close>.\<close>

definition utf8_white_space :: "string list" where
  "utf8_white_space =
     [[CHR 0x09], [CHR 0x0A], [CHR 0x0B], [CHR 0x0C], [CHR 0x0D], [CHR 0x20], [CHR 0xC2, CHR 0x85],
      [CHR 0xC2, CHR 0xA0], [CHR 0xE1, CHR 0x9A, CHR 0x80], [CHR 0xE2, CHR 0x80, CHR 0xA8],
      [CHR 0xE2, CHR 0x80, CHR 0xA9], [CHR 0xE2, CHR 0x80, CHR 0xAF], [CHR 0xE2, CHR 0x81, CHR 0x9F],
      [CHR 0xE3, CHR 0x80, CHR 0x80]]
     @ map (\<lambda>c. [CHR 0xE2, CHR 0x80, c])
         [CHR 0x80, CHR 0x81, CHR 0x82, CHR 0x83, CHR 0x84, CHR 0x85, CHR 0x86, CHR 0x87, CHR 0x88, CHR 0x89, CHR 0x8A]"

definition drop_white :: "string list \<Rightarrow> string \<Rightarrow> string" where
  "drop_white white s =
     (case find (\<lambda>w. take (length w) s = w) white of None \<Rightarrow> s | Some w \<Rightarrow> drop (length w) s)"

definition trim_text :: "string \<Rightarrow> string" where
  "trim_text s =
     (let front = (drop_white utf8_white_space ^^ length s) s
      in rev ((drop_white (map rev utf8_white_space) ^^ length front) (rev front)))"

definition media_type_essence :: "string \<Rightarrow> string" where
  "media_type_essence s = to_ascii_lowercase (trim_text (takeWhile (\<lambda>c. c \<noteq> CHR '';'') s))"

definition attachment_str :: "string \<Rightarrow> json \<Rightarrow> string option" where
  "attachment_str key att = (case json_get key att of Some (Json_Str s) \<Rightarrow> Some s | _ \<Rightarrow> None)"

text \<open>\<open>as_u64\<close> and the truncating \<open>as u32\<close>.\<close>

definition attachment_u32 :: "string \<Rightarrow> json \<Rightarrow> int option" where
  "attachment_u32 key att =
     (case json_get key att of
        Some (Json_Int n) \<Rightarrow> if 0 \<le> n \<and> n < 2 ^ 64 then Some (n mod 2 ^ 32) else None
      | _ \<Rightarrow> None)"

text \<open>The values of \<open>ContentType\<close> for the kinds of a media object.\<close>

definition content_image :: int where "content_image = 2"
definition content_audio :: int where "content_audio = 3"
definition content_video :: int where "content_video = 4"

definition media_object_kind :: "string \<Rightarrow> int option" where
  "media_object_kind s =
     (if s = ''audio'' then Some content_audio
      else if s = ''video'' then Some content_video
      else if s = ''image'' \<or> s = ''url'' \<or> s = ''ref'' then Some content_image else None)"

definition classify_attachment_for_source :: "import_env \<Rightarrow> string \<Rightarrow> json \<Rightarrow> attachment_action" where
  "classify_attachment_for_source env source att =
     (let storage = (case attachment_str ''storage'' att of None \<Rightarrow> [] | Some s \<Rightarrow> s);
          media_type = (case attachment_str ''media_type'' att of None \<Rightarrow> ''application/octet-stream'' | Some s \<Rightarrow> s);
          essence = media_type_essence media_type;
          kind = (case Option.bind (attachment_str ''kind'' att) media_object_kind of None \<Rightarrow> content_image | Some k \<Rightarrow> k);
          header = \<lparr>mh_kind = kind, mh_media_type = media_type, mh_alt = attachment_str ''alt'' att,
                    mh_width = attachment_u32 ''width'' att, mh_height = attachment_u32 ''height'' att\<rparr>
      in if storage = ''inline_base64''
         then (case attachment_str ''data'' att of
                 Some d \<Rightarrow> if d = [] then Keep_As_Is else Upload_Attachment header d
               | None \<Rightarrow> Keep_As_Is)
         else if storage = ''ref'' \<and> source = ''opencode'' then Keep_As_Is
         else if storage = ''redacted_ref'' then Keep_As_Is
         else if storage = ''url'' \<or> storage = ''ref''
         then (case attachment_str ''url'' att of
                 Some url \<Rightarrow>
                   if url = [] then Keep_As_Is
                   else if source = ''opencode''
                     \<and> \<not> (im_http_url env url
                          \<and> (starts_with essence ''image/'' \<or> starts_with essence ''audio/'' \<or> starts_with essence ''video/''))
                   then Keep_As_Is
                   else Register_Attachment header url
               | None \<Rightarrow> Keep_As_Is)
         else Keep_As_Is)"

subsection \<open>What the importer builds\<close>

definition canonical_source_identity :: "canonical_session \<Rightarrow> thread_identity option" where
  "canonical_source_identity session =
     (case ss_identity session of
        Some i \<Rightarrow> Some i
      | None \<Rightarrow> (case ss_observations session of [] \<Rightarrow> None | ob # _ \<Rightarrow> Some (io_subject ob)))"

definition endpoint_to_proto :: "thread_identity \<Rightarrow> int \<Rightarrow> endpoint_message" where
  "endpoint_to_proto i user =
     \<lparr>pe_source = ti_source i, pe_scope_known = (case ti_scope i of Known _ \<Rightarrow> True | Unknown \<Rightarrow> False),
      pe_scope = (case ti_scope i of Known v \<Rightarrow> v | Unknown \<Rightarrow> []),
      pe_owner_scope = ''user:'' @ show_int user, pe_native = ti_native i, pe_user = Some user\<rparr>"

definition source_identity_to_proto :: "canonical_session \<Rightarrow> int \<Rightarrow> endpoint_message option" where
  "source_identity_to_proto session user = map_option (\<lambda>i. endpoint_to_proto i user) (canonical_source_identity session)"

definition evidence_kind_to_proto :: "import_evidence \<Rightarrow> int" where
  "evidence_kind_to_proto k =
     (case k of Import_Source_Event \<Rightarrow> 1 | Import_Source_Field \<Rightarrow> 2 | Import_Negative_Or_Conflict \<Rightarrow> 3)"

definition polarity_to_proto :: "import_polarity \<Rightarrow> int" where
  "polarity_to_proto p = (case p of Import_Supports \<Rightarrow> 1 | Import_Negates \<Rightarrow> 2 | Import_Conflicts \<Rightarrow> 3)"

definition confidence_to_proto :: "source_confidence \<Rightarrow> int" where
  "confidence_to_proto c = (case c of Exact \<Rightarrow> 1 | Strong \<Rightarrow> 2 | Heuristic \<Rightarrow> 3 | Unsupported \<Rightarrow> 4)"

definition observation_to_proto :: "int \<Rightarrow> import_observation \<Rightarrow> observation_message" where
  "observation_to_proto user ob =
     \<lparr>po_subject = endpoint_to_proto (io_subject ob) user,
      po_parent = map_option (\<lambda>p. endpoint_to_proto p user) (io_parent ob), po_relation = io_relation ob,
      po_evidence = evidence_kind_to_proto (io_evidence ob), po_polarity = polarity_to_proto (io_polarity ob),
      po_confidence = confidence_to_proto (io_confidence ob), po_adapter = io_adapter ob,
      po_record_ref = io_record_ref ob\<rparr>"

definition build_labels :: "canonical_session \<Rightarrow> string list \<Rightarrow> string list" where
  "build_labels session extra =
     filter (\<lambda>l. l \<noteq> [])
       (foldl (\<lambda>ls l. let l' = strip_nul_bytes l in if l' \<in> set ls then ls else ls @ [l'])
         (map strip_nul_bytes (ss_labels session)) extra)"

text \<open>The kind \<open>Raw\<close>.\<close>

definition raw_kind :: int where "raw_kind = 1"

definition build_thread_data :: "import_env \<Rightarrow> canonical_session \<Rightarrow> int \<Rightarrow> thread_data" where
  "build_thread_data env session user =
     \<lparr>td_default = None, td_user = Some user, td_description = map_option strip_nul_bytes (ss_description session),
      td_channel = Some (ss_channel session), td_embedding = None, td_embedding_dim = None,
      td_metadata = map_option (\<lambda>v. im_json_text env (strip_nul_bytes_in_value v)) (ss_thread_metadata session),
      td_kind = raw_kind, td_labels = []\<rparr>"

definition reserved_keys :: "string list" where
  "reserved_keys = [''source'', ''kind'', ''session'', ''tool'', ''attachment'', ''raw'']"

definition insert_if :: "string \<Rightarrow> json option \<Rightarrow> (string \<times> json) list \<Rightarrow> (string \<times> json) list" where
  "insert_if key v m = (case v of None \<Rightarrow> m | Some x \<Rightarrow> json_insert key x m)"

text \<open>The metadata of a memory: the entry's own keys, the canonical ones, and last the fixed ones.\<close>

definition entry_metadata :: "canonical_session \<Rightarrow> canonical_entry \<Rightarrow> int option \<Rightarrow> json" where
  "entry_metadata session entry media =
     (let own = filter (\<lambda>(k, _). strip_nul_bytes k \<notin> set reserved_keys) (en_metadata entry);
          ad = en_canonical entry;
          m1 = insert_if ''tool'' (ad_tool ad) own;
          m2 = (if media = None then insert_if ''attachment'' (ad_attachment ad) m1 else m1);
          m3 = insert_if ''raw'' (map_option Json_Obj (ad_raw ad)) m2
      in Json_Obj (json_insert ''session'' (ss_metadata session)
           (json_insert ''kind'' (Json_Str (en_kind_tag entry))
             (json_insert ''source'' (Json_Str (ss_source session)) m3))))"

definition build_memory_data ::
  "import_env \<Rightarrow> canonical_session \<Rightarrow> canonical_entry \<Rightarrow> int \<Rightarrow> (string \<rightharpoonup> int) \<Rightarrow> memory_data" where
  "build_memory_data env session entry user media_ids =
     (let media = media_ids (en_external entry)
      in \<lparr>md_parents = [], md_user = Some user, md_content = strip_nul_bytes (en_content entry),
          md_content_type = en_content_type entry, md_params = None,
          md_metadata = Some (im_json_text env (strip_nul_bytes_in_value (entry_metadata session entry media))),
          md_created = en_timestamp entry, md_updated = en_timestamp entry, md_role = en_role entry,
          md_external = Some (en_external entry), md_media = media, md_kind = raw_kind\<rparr>)"

definition batch_input_of ::
  "import_env \<Rightarrow> canonical_session \<Rightarrow> canonical_entry \<Rightarrow> int \<Rightarrow> (string \<rightharpoonup> int) \<Rightarrow> batch_item" where
  "batch_input_of env session entry user media_ids =
     \<lparr>bi_memory = build_memory_data env session entry user media_ids, bi_parents = en_parents entry\<rparr>"

subsection \<open>Duplicates get their parents\<close>

text \<open>The counts of an answer and the calls it asks for.\<close>

fun scan_outcomes ::
  "int \<Rightarrow> (canonical_entry \<times> outcome_message) list \<Rightarrow> session_result
    \<Rightarrow> (string \<times> parents_request) list \<times> session_result" where
  "scan_outcomes t [] r = ([], r)"
| "scan_outcomes t ((entry, out) # pairs) r =
     (if om_created out then scan_outcomes t pairs (r\<lparr>sr_imported := sr_imported r + 1\<rparr>)
      else
        let (jobs, r') = scan_outcomes t pairs (r\<lparr>sr_duplicate := sr_duplicate r + 1\<rparr>)
        in if \<not> om_parents_empty out \<or> om_parents out = [] then (jobs, r')
           else (case om_id out of
                   None \<Rightarrow> (jobs, r')
                 | Some m \<Rightarrow>
                     ((en_external entry,
                       \<lparr>pr_thread = t, pr_memory = m, pr_parents = om_parents out, pr_force_shared = False,
                        pr_force_non_empty = False\<rparr>) # jobs, r')))"

fun run_jobs ::
  "'w import_client \<Rightarrow> (string \<times> parents_request) list \<Rightarrow> 'w \<Rightarrow> (string \<times> (string + bool)) list \<times> 'w" where
  "run_jobs c [] w = ([], w)"
| "run_jobs c ((e, rq) # jobs) w =
     (let (x, w1) = ic_update_parents c rq w; (xs, w2) = run_jobs c jobs w1 in ((e, x) # xs, w2))"

fun count_rewired :: "(string \<times> (string + bool)) list \<Rightarrow> session_result \<Rightarrow> (string + unit) \<times> session_result" where
  "count_rewired [] r = (Inr (), r)"
| "count_rewired ((e, x) # xs) r =
     (case x of
        Inr rewired \<Rightarrow> count_rewired xs (if rewired then r\<lparr>sr_rewired := sr_rewired r + 1\<rparr> else r)
      | Inl err \<Rightarrow> (Inl (''UpdateMemoryParents for '' @ e @ '' failed: '' @ err), r))"

definition run_rewire_pass ::
  "import_env \<Rightarrow> 'w import_client \<Rightarrow> canonical_entry list \<Rightarrow> outcome_message list \<Rightarrow> int \<Rightarrow> session_result \<Rightarrow> 'w
    \<Rightarrow> ((string + unit) \<times> session_result) \<times> 'w" where
  "run_rewire_pass env c entries outs t r w =
     (let (jobs, r1) = scan_outcomes t (zip entries outs) r;
          (xs, w1) = run_jobs c (im_rewire_order env jobs) w
      in (count_rewired xs r1, w1))"

subsection \<open>Observations of the session\<close>

definition finalize_thread_group_observations ::
  "import_env \<Rightarrow> 'w import_client \<Rightarrow> canonical_session \<Rightarrow> int \<Rightarrow> session_result \<Rightarrow> 'w \<Rightarrow> session_result \<times> 'w" where
  "finalize_thread_group_observations env c session user r w =
     (case canonical_source_identity session of
        None \<Rightarrow> (r, w)
      | Some identity \<Rightarrow>
          if \<not> im_group_writes env \<or> sr_error r \<noteq> None \<or> sr_skip r \<noteq> None
             \<or> ss_observations session = [] \<and> ti_scope identity = Unknown then (r, w)
          else (case sr_thread r of
              None \<Rightarrow> (r, w)
            | Some t \<Rightarrow>
                (case ic_record c
                   \<lparr>rr_thread = t, rr_subject = endpoint_to_proto identity user,
                    rr_observations = map (observation_to_proto user) (ss_observations session),
                    rr_group_owner = ic_group_owner c user\<rparr> w of
                   (Inr _, w1) \<Rightarrow> (r, w1)
                 | (Inl e, w1) \<Rightarrow> (r\<lparr>sr_error := Some (''RecordThreadGroupObservations failed: '' @ e)\<rparr>, w1))))"

subsection \<open>Sending a chunk\<close>

text \<open>The thread the session goes to, once known, and its result.\<close>

record import_state =
  fs_thread :: "int option"
  fs_result :: session_result

definition batch_target_of :: "import_env \<Rightarrow> canonical_session \<Rightarrow> int \<Rightarrow> int option \<Rightarrow> batch_target" where
  "batch_target_of env session user thread =
     (case thread of Some t \<Rightarrow> Existing_Thread t | None \<Rightarrow> Upsert_By_Channel (build_thread_data env session user))"

text \<open>What both loops do with an answer: the thread, the event, the number of outcomes, the duplicates.\<close>

definition accept_response ::
  "import_env \<Rightarrow> 'w import_client \<Rightarrow> 'w event_sink option \<Rightarrow> canonical_session \<Rightarrow> canonical_entry list \<Rightarrow> string
    \<Rightarrow> batch_response \<Rightarrow> import_state \<Rightarrow> 'w \<Rightarrow> ((string + unit) \<times> import_state) \<times> 'w" where
  "accept_response env c sink session entries note resp st w =
     (if rs_suppressed resp
      then ((Inr (), st\<lparr>fs_result := (fs_result st)\<lparr>sr_skip := Some ''suppressed_by_deletion_marker''\<rparr>\<rparr>), w)
      else case rs_thread resp of
        None \<Rightarrow> ((Inl ''AddMemoriesBatch response missing thread_id'', st), w)
      | Some t \<Rightarrow>
          let r1 = (if fs_thread st = None
                    then (fs_result st)\<lparr>sr_thread := Some t, sr_created := rs_created resp\<rparr> else fs_result st);
              (told, w1) = (case sink of
                   Some tell \<Rightarrow> if fs_thread st = None \<and> rs_created resp then tell (ss_channel session) t w else (Inr (), w)
                 | None \<Rightarrow> (Inr (), w))
          in case told of
               Inl e \<Rightarrow> ((Inl e, st\<lparr>fs_result := r1\<rparr>), w1)
             | Inr _ \<Rightarrow>
                 if length (rs_outcomes resp) \<noteq> length entries
                 then ((Inl (''AddMemoriesBatch returned '' @ show_nat (length (rs_outcomes resp)) @ '' outcomes for ''
                         @ show_nat (length entries) @ '' inputs'' @ note), \<lparr>fs_thread = Some t, fs_result = r1\<rparr>), w1)
                 else (case run_rewire_pass env c entries (rs_outcomes resp) t r1 w1 of
                     ((x, r2), w2) \<Rightarrow> ((x, \<lparr>fs_thread = Some t, fs_result = r2\<rparr>), w2)))"

definition flush_chunk ::
  "import_env \<Rightarrow> 'w import_client \<Rightarrow> 'w event_sink option \<Rightarrow> canonical_session \<Rightarrow> int \<Rightarrow> string list \<Rightarrow> bool
    \<Rightarrow> (canonical_entry \<times> batch_item) list \<Rightarrow> import_state \<Rightarrow> 'w \<Rightarrow> ((string + unit) \<times> import_state) \<times> 'w" where
  "flush_chunk env c sink session user labels is_last chunk st w =
     (let chunk' = sort_key (\<lambda>(e, _). entry_order e) chunk;
          request = \<lparr>rq_target = batch_target_of env session user (fs_thread st), rq_memories = map snd chunk',
            rq_upsert = (ss_source session \<noteq> ''opencode''),
            rq_labels = (if is_last \<or> ss_source session = ''opencode'' \<and> fs_thread st = None then labels else []),
            rq_identity = source_identity_to_proto session user, rq_override = False\<rparr>
      in case ic_add_batch c request w of
           (Inl e, w1) \<Rightarrow> ((Inl (''AddMemoriesBatch failed: '' @ e), st), w1)
         | (Inr resp, w1) \<Rightarrow> accept_response env c sink session (map fst chunk') [] resp st w1)"

subsection \<open>Media of the entries\<close>

definition run_media :: "import_env \<Rightarrow> 'w import_client \<Rightarrow> attachment_action \<Rightarrow> ('w, int) call" where
  "run_media env c action w =
     (case action of
        Upload_Attachment h data \<Rightarrow>
          (case im_decode env data of
             Inl e \<Rightarrow> (Inl (''attachment base64 decode failed: '' @ e), w)
           | Inr bytes \<Rightarrow> ic_upload c h bytes w)
      | Register_Attachment h url \<Rightarrow> ic_register c h url w
      | Keep_As_Is \<Rightarrow> (Inl [], w))"

text \<open>\<open>fetch_existing_external_ids\<close>: the external ids found, or the first failure.\<close>

fun find_each :: "'w import_client \<Rightarrow> string list \<Rightarrow> 'w \<Rightarrow> (string + found_memory option option list) \<times> 'w" where
  "find_each c [] w = (Inr [], w)"
| "find_each c (e # es) w =
     (case ic_find_external c e w of
        (Inl err, w1) \<Rightarrow> (Inl err, w1)
      | (Inr x, w1) \<Rightarrow> (case find_each c es w1 of (Inl err, w2) \<Rightarrow> (Inl err, w2) | (Inr xs, w2) \<Rightarrow> (Inr (x # xs), w2)))"

definition found_external :: "found_memory option option \<Rightarrow> string option" where
  "found_external x = Option.bind (Option.bind (Option.bind x id) fm_data) fd_external"

definition fetch_existing_external_ids :: "'w import_client \<Rightarrow> string list \<Rightarrow> 'w \<Rightarrow> (string + string list) \<times> 'w" where
  "fetch_existing_external_ids c es w =
     (case find_each c (remdups es) w of
        (Inl err, w1) \<Rightarrow> (Inl err, w1)
      | (Inr xs, w1) \<Rightarrow> (Inr (List.map_filter found_external xs), w1))"

definition media_jobs ::
  "import_env \<Rightarrow> string \<Rightarrow> string list \<Rightarrow> canonical_entry list \<Rightarrow> (string \<times> attachment_action) list" where
  "media_jobs env source already entries =
     filter (\<lambda>(_, a). a \<noteq> Keep_As_Is)
       (List.map_filter (\<lambda>e. if en_external e \<in> set already then None
          else map_option (\<lambda>att. (en_external e, classify_attachment_for_source env source att)) (ad_attachment (en_canonical e)))
        entries)"

fun run_media_jobs ::
  "import_env \<Rightarrow> 'w import_client \<Rightarrow> (string \<times> attachment_action) list \<Rightarrow> 'w \<Rightarrow> (string \<times> (string + int)) list \<times> 'w" where
  "run_media_jobs env c [] w = ([], w)"
| "run_media_jobs env c ((e, a) # jobs) w =
     (let (x, w1) = run_media env c a w; (xs, w2) = run_media_jobs env c jobs w1 in ((e, x) # xs, w2))"

fun collect_media :: "(string \<times> (string + int)) list \<Rightarrow> (string \<rightharpoonup> int) \<Rightarrow> nat \<Rightarrow> nat \<Rightarrow> (string \<rightharpoonup> int) \<times> nat \<times> nat" where
  "collect_media [] m ok_count failed = (m, ok_count, failed)"
| "collect_media ((e, Inr i) # xs) m ok_count failed = collect_media xs (m(e \<mapsto> i)) (ok_count + 1) failed"
| "collect_media ((e, Inl _) # xs) m ok_count failed = collect_media xs m ok_count (failed + 1)"

definition resolve_media_objects ::
  "import_env \<Rightarrow> 'w import_client \<Rightarrow> canonical_entry list \<Rightarrow> string list \<Rightarrow> string \<Rightarrow> 'w
    \<Rightarrow> ((string \<rightharpoonup> int) \<times> nat \<times> nat) \<times> 'w" where
  "resolve_media_objects env c entries already source w =
     (case run_media_jobs env c (im_media_order env (media_jobs env source already entries)) w of
        (xs, w1) \<Rightarrow> (collect_media xs (\<lambda>_. None) 0 0, w1))"

subsection \<open>The loop over a complete list\<close>

fun send_chunks ::
  "import_env \<Rightarrow> 'w import_client \<Rightarrow> 'w event_sink option \<Rightarrow> canonical_session \<Rightarrow> int \<Rightarrow> string list \<Rightarrow> nat \<Rightarrow> nat
    \<Rightarrow> (canonical_entry \<times> batch_item) list list \<Rightarrow> import_state \<Rightarrow> 'w \<Rightarrow> (bool \<times> session_result) \<times> 'w" where
  "send_chunks env c sink session user labels chunk_count idx [] st w = ((True, fs_result st), w)"
| "send_chunks env c sink session user labels chunk_count idx (chunk # parts) st w =
     (let request = \<lparr>rq_target = batch_target_of env session user (fs_thread st), rq_memories = map snd chunk,
            rq_upsert = True, rq_labels = (if idx = chunk_count then labels else []),
            rq_identity = source_identity_to_proto session user, rq_override = False\<rparr>
      in case ic_add_batch c request w of
           (Inl e, w1) \<Rightarrow>
             ((False, (fs_result st)\<lparr>sr_error := Some (''AddMemoriesBatch (chunk '' @ show_nat idx @ ''/'' @ show_nat chunk_count
                @ '') failed: '' @ e)\<rparr>), w1)
         | (Inr resp, w1) \<Rightarrow>
             (case accept_response env c sink session (map fst chunk) ('' (chunk '' @ show_nat idx @ '')'') resp st w1 of
                ((Inl e, st1), w2) \<Rightarrow> ((False, (fs_result st1)\<lparr>sr_error := Some e\<rparr>), w2)
              | ((Inr _, st1), w2) \<Rightarrow>
                  if rs_suppressed resp then ((False, fs_result st1), w2)
                  else send_chunks env c sink session user labels chunk_count (idx + 1) parts st1 w2))"

definition has_attachment :: "canonical_entry \<Rightarrow> bool" where
  "has_attachment e \<longleftrightarrow> ad_attachment (en_canonical e) \<noteq> None"

definition run_import_with_event_sink ::
  "import_env \<Rightarrow> 'w import_client \<Rightarrow> 'w event_sink option \<Rightarrow> canonical_session \<Rightarrow> canonical_entry list \<Rightarrow> nat
    \<Rightarrow> int option \<Rightarrow> int \<Rightarrow> string list \<Rightarrow> 'w \<Rightarrow> session_result \<times> 'w" where
  "run_import_with_event_sink env c sink session entries filtered since user extra w =
     (let sorted = sort_entries entries;
          kept = filter (is_entry_importable since) sorted;
          r0 = start_result session (filtered + (length sorted - length kept))
      in if kept = [] then (r0, w)
         else
           let importable = map (namespace_entry_external_ids (im_sha env) (ss_source session) user) kept;
               labels = build_labels session extra;
               attached = filter has_attachment importable;
               (already, w1) = (if attached = [] then ([], w)
                 else (case fetch_existing_external_ids c (map en_external attached) w of
                     (Inl _, w1) \<Rightarrow> ([], w1) | (Inr ids, w1) \<Rightarrow> (ids, w1)));
               ((media_ids, ok_count, failed), w2) = resolve_media_objects env c importable already (ss_source session) w1;
               r1 = r0\<lparr>sr_media_linked := ok_count, sr_media_failures := failed\<rparr>;
               pairs = map (\<lambda>e. (e, batch_input_of env session e user media_ids)) importable;
               parts = map (range_of pairs) (split_chunks (map (\<lambda>p. im_encoded_len env (snd p)) pairs));
               ((finished, r2), w3) = send_chunks env c sink session user labels (length parts) 1 parts
                 \<lparr>fs_thread = None, fs_result = r1\<rparr> w2
           in if finished then finalize_thread_group_observations env c session user r2 w3 else (r2, w3))"

subsection \<open>The streaming loop\<close>

record attachment_context =
  ax_already :: "string list"
  ax_queried :: "string list"

definition is_already_imported ::
  "'w import_client \<Rightarrow> string \<Rightarrow> attachment_context \<Rightarrow> 'w \<Rightarrow> (bool \<times> attachment_context) \<times> 'w" where
  "is_already_imported c e ctx w =
     (let (ctx1, w1) = (if e \<in> set (ax_queried ctx) then (ctx, w)
            else let ctx' = ctx\<lparr>ax_queried := e # ax_queried ctx\<rparr>
                 in (case fetch_existing_external_ids c [e] w of
                       (Inr ids, w') \<Rightarrow> (ctx'\<lparr>ax_already := ids @ ax_already ctx'\<rparr>, w')
                     | (Inl _, w') \<Rightarrow> (ctx', w')))
      in ((e \<in> set (ax_already ctx1), ctx1), w1))"

definition resolve_one_media ::
  "import_env \<Rightarrow> 'w import_client \<Rightarrow> canonical_entry \<Rightarrow> string \<Rightarrow> 'w \<Rightarrow> (string + int) option \<times> 'w" where
  "resolve_one_media env c entry source w =
     (case ad_attachment (en_canonical entry) of
        None \<Rightarrow> (None, w)
      | Some att \<Rightarrow>
          (case classify_attachment_for_source env source att of
             Keep_As_Is \<Rightarrow> (None, w)
           | action \<Rightarrow> (case run_media env c action w of (x, w1) \<Rightarrow> (Some x, w1))))"

definition media_of_entry ::
  "import_env \<Rightarrow> 'w import_client \<Rightarrow> canonical_session \<Rightarrow> canonical_entry \<Rightarrow> attachment_context \<Rightarrow> session_result \<Rightarrow> 'w
    \<Rightarrow> (int option \<times> attachment_context \<times> session_result) \<times> 'w" where
  "media_of_entry env c session entry ctx r w =
     (if \<not> has_attachment entry then ((None, ctx, r), w)
      else
        let ((already, ctx1), w1) = (if ss_source session = ''opencode'' then ((False, ctx), w)
              else is_already_imported c (en_external entry) ctx w)
        in if already then ((None, ctx1, r), w1)
           else (case resolve_one_media env c entry (ss_source session) w1 of
               (None, w2) \<Rightarrow> ((None, ctx1, r), w2)
             | (Some (Inr i), w2) \<Rightarrow> ((Some i, ctx1, r\<lparr>sr_media_linked := sr_media_linked r + 1\<rparr>), w2)
             | (Some (Inl _), w2) \<Rightarrow>
                 let r1 = r\<lparr>sr_media_failures := sr_media_failures r + 1\<rparr>
                 in ((None, ctx1, if ss_source session = ''opencode'' then bump_reason ''media_registration_failed'' 1 r1 else r1), w2)))"

definition count_filtered :: "import_state \<Rightarrow> import_state" where
  "count_filtered st = st\<lparr>fs_result := (fs_result st)\<lparr>sr_filtered := sr_filtered (fs_result st) + 1\<rparr>\<rparr>"

fun stream_loop ::
  "import_env \<Rightarrow> 'w import_client \<Rightarrow> 'w event_sink option \<Rightarrow> canonical_session \<Rightarrow> int option \<Rightarrow> int \<Rightarrow> string list
    \<Rightarrow> stream_item list \<Rightarrow> attachment_context \<Rightarrow> chunk_builder \<Rightarrow> import_state \<Rightarrow> 'w
    \<Rightarrow> (session_result + chunk_builder \<times> import_state) \<times> 'w" where
  "stream_loop env c sink session since user labels [] ctx b st w = (Inr (b, st), w)"
| "stream_loop env c sink session since user labels (Stream_Filtered # items) ctx b st w =
     stream_loop env c sink session since user labels items ctx b (count_filtered st) w"
| "stream_loop env c sink session since user labels (Stream_Warn _ # items) ctx b st w =
     stream_loop env c sink session since user labels items ctx b (count_filtered st) w"
| "stream_loop env c sink session since user labels (Stream_Entry raw # items) ctx b st w =
     (let entry = (if ss_source session \<noteq> ''opencode''
            then namespace_entry_external_ids (im_sha env) (ss_source session) user raw else raw)
      in if \<not> is_entry_importable since entry
         then stream_loop env c sink session since user labels items ctx b (count_filtered st) w
         else
           let ((media, ctx1, r1), w1) = media_of_entry env c session entry ctx (fs_result st) w;
               st1 = st\<lparr>fs_result := r1\<rparr>;
               pb = batch_input_of env session entry user (case media of None \<Rightarrow> (\<lambda>_. None) | Some i \<Rightarrow> [en_external entry \<mapsto> i]);
               n = im_encoded_len env pb
           in if would_overflow n b
              then (case take_chunk b of (chunk, b1) \<Rightarrow>
                  (case flush_chunk env c sink session user labels False chunk st1 w1 of
                     ((Inl e, st2), w2) \<Rightarrow> (Inl ((fs_result st2)\<lparr>sr_error := Some e\<rparr>), w2)
                   | ((Inr _, st2), w2) \<Rightarrow>
                       if sr_skip (fs_result st2) \<noteq> None then (Inl (fs_result st2), w2)
                       else stream_loop env c sink session since user labels items ctx1 (push_chunk entry pb n b1) st2 w2))
              else stream_loop env c sink session since user labels items ctx1 (push_chunk entry pb n b) st1 w1)"

subsection \<open>OpenCode sessions\<close>

record existing_memory =
  xm_id :: int
  xm_parents_empty :: bool
  xm_threads :: "int list"

text \<open>The checks of a found memory, in their order.\<close>

definition check_found :: "int \<Rightarrow> int option \<Rightarrow> string \<Rightarrow> found_memory option \<Rightarrow> string + existing_memory" where
  "check_found user target e found =
     (case found of
        None \<Rightarrow> Inl ''exact lookup returned no memory''
      | Some m \<Rightarrow>
          (case fm_data m of
             None \<Rightarrow> Inl ''exact lookup returned no memory data''
           | Some d \<Rightarrow>
               if fd_external d \<noteq> Some e then Inl ''exact lookup returned a different external_id''
               else (case fd_user d of
                   None \<Rightarrow> Inl ''exact lookup returned no memory user_id''
                 | Some owner \<Rightarrow>
                     if owner \<noteq> user then Inl (''external_id collision belongs to user '' @ show_int owner)
                     else if fd_threads d = [] then Inl (''exact lookup returned no thread membership for '' @ e)
                     else (case target of
                         None \<Rightarrow> Inl (''external_id collision has no matching OpenCode thread: '' @ e)
                       | Some t \<Rightarrow>
                           if t \<notin> set (fd_threads d)
                           then Inl (''external_id collision belongs to a different thread: '' @ e)
                           else (case fm_id m of
                               None \<Rightarrow> Inl ''exact lookup returned no memory id''
                             | Some i \<Rightarrow> Inr \<lparr>xm_id = i, xm_parents_empty = (fd_parents d = []), xm_threads = fd_threads d\<rparr>)))))"

fun lookup_opencode_memories ::
  "'w import_client \<Rightarrow> int \<Rightarrow> int option \<Rightarrow> canonical_entry list \<Rightarrow> canonical_entry list \<Rightarrow> (string \<rightharpoonup> existing_memory) \<Rightarrow> 'w
    \<Rightarrow> (string + canonical_entry list \<times> (string \<rightharpoonup> existing_memory)) \<times> 'w" where
  "lookup_opencode_memories c user target [] new existing w = (Inr (new, existing), w)"
| "lookup_opencode_memories c user target (entry # entries) new existing w =
     (case ic_find_external c (en_external entry) w of
        (Inl e, w1) \<Rightarrow> (Inl e, w1)
      | (Inr None, w1) \<Rightarrow> lookup_opencode_memories c user target entries (new @ [entry]) existing w1
      | (Inr (Some found), w1) \<Rightarrow>
          (case check_found user target (en_external entry) found of
             Inl e \<Rightarrow> (Inl e, w1)
           | Inr x \<Rightarrow> lookup_opencode_memories c user target entries new (existing(en_external entry \<mapsto> x)) w1))"

record preflight =
  pf_entries :: "canonical_entry list"
  pf_duplicates :: "(canonical_entry \<times> existing_memory) list"
  pf_thread :: "int option"
  pf_count :: nat

definition stream_entries :: "stream_item list \<Rightarrow> canonical_entry list" where
  "stream_entries items = List.map_filter (\<lambda>i. case i of Stream_Entry e \<Rightarrow> Some e | _ \<Rightarrow> None) items"

definition preflight_opencode_duplicates ::
  "import_env \<Rightarrow> 'w import_client \<Rightarrow> canonical_session \<Rightarrow> stream_item list \<Rightarrow> int \<Rightarrow> (string \<rightharpoonup> int) \<Rightarrow> 'w
    \<Rightarrow> (string + preflight) \<times> 'w" where
  "preflight_opencode_duplicates env c session items user snapshot w =
     (let entries = map (namespace_entry_external_ids (im_sha env) (ss_source session) user) (stream_entries items);
          (target, w1) = (if entries = [] then (Inr None, w)
            else (case snapshot (ss_channel session) of
                Some t \<Rightarrow> (Inr (Some t), w)
              | None \<Rightarrow> (case ic_find_thread c (ss_channel session) user w of
                    (Inl e, w') \<Rightarrow> (Inl (''OpenCode target thread lookup failed: '' @ e), w')
                  | (Inr t, w') \<Rightarrow> (Inr t, w'))))
      in case target of
           Inl e \<Rightarrow> (Inl e, w1)
         | Inr t \<Rightarrow>
             (case lookup_opencode_memories c user t entries [] (\<lambda>_. None) w1 of
                (Inl e, w2) \<Rightarrow> (Inl (''OpenCode duplicate lookup failed: '' @ e), w2)
              | (Inr (new, existing), w2) \<Rightarrow>
                  (Inr \<lparr>pf_entries = new,
                        pf_duplicates = List.map_filter (\<lambda>e. map_option (\<lambda>x. (e, x)) (existing (en_external e))) entries,
                        pf_thread = t, pf_count = length entries - length new\<rparr>, w2)))"

definition apply_opencode_labels :: "'w import_client \<Rightarrow> int \<Rightarrow> string list \<Rightarrow> ('w, unit) call" where
  "apply_opencode_labels c t labels w =
     (if labels = [] then (Inr (), w)
      else (case ic_add_labels c t labels w of
          (Inl e, w1) \<Rightarrow> (Inl (''ThreadService.AddLabels failed: '' @ e), w1)
        | (Inr _, w1) \<Rightarrow> (Inr (), w1)))"

fun opencode_parents ::
  "'w import_client \<Rightarrow> int \<Rightarrow> int \<Rightarrow> int list \<Rightarrow> string list \<Rightarrow> 'w \<Rightarrow> (string + int list) \<times> 'w" where
  "opencode_parents c user t ids [] w = (Inr ids, w)"
| "opencode_parents c user t ids (e # es) w =
     (case ic_find_external c e w of
        (Inl err, w1) \<Rightarrow> (Inl (''OpenCode parent lookup failed: '' @ err), w1)
      | (Inr None, w1) \<Rightarrow> opencode_parents c user t ids es w1
      | (Inr (Some None), w1) \<Rightarrow> (Inl ''exact parent lookup returned no memory'', w1)
      | (Inr (Some (Some m)), w1) \<Rightarrow>
          (case fm_data m of
             None \<Rightarrow> (Inl ''exact parent lookup returned no memory data'', w1)
           | Some d \<Rightarrow>
               if fd_external d \<noteq> Some e
               then (Inl (''exact parent lookup returned a different external_id for '' @ e), w1)
               else if fd_user d \<noteq> Some user then (Inl (''OpenCode parent collision belongs to another user for '' @ e), w1)
               else if t \<notin> set (fd_threads d) then opencode_parents c user t ids es w1
               else (case fm_id m of
                   None \<Rightarrow> (Inl ''exact parent lookup returned no memory id'', w1)
                 | Some i \<Rightarrow> opencode_parents c user t (if i \<in> set ids then ids else ids @ [i]) es w1)))"

fun rewire_opencode_duplicates ::
  "'w import_client \<Rightarrow> int \<Rightarrow> int \<Rightarrow> (canonical_entry \<times> existing_memory) list \<Rightarrow> session_result \<Rightarrow> 'w
    \<Rightarrow> ((string + unit) \<times> session_result) \<times> 'w" where
  "rewire_opencode_duplicates c t user [] r w = ((Inr (), r), w)"
| "rewire_opencode_duplicates c t user ((entry, x) # dups) r w =
     (if \<not> xm_parents_empty x \<or> length (xm_threads x) \<noteq> 1 \<or> en_parents entry = []
      then rewire_opencode_duplicates c t user dups r w
      else (case opencode_parents c user t [] (en_parents entry) w of
          (Inl e, w1) \<Rightarrow> ((Inl e, r), w1)
        | (Inr parents, w1) \<Rightarrow>
            if parents = [] then rewire_opencode_duplicates c t user dups r w1
            else (case ic_update_parents c
                   \<lparr>pr_thread = t, pr_memory = xm_id x, pr_parents = parents, pr_force_shared = False,
                    pr_force_non_empty = False\<rparr> w1 of
                (Inl e, w2) \<Rightarrow>
                  ((Inl (''UpdateMemoryParents for OpenCode duplicate '' @ en_external entry @ '' failed: '' @ e), r), w2)
              | (Inr rewired, w2) \<Rightarrow>
                  rewire_opencode_duplicates c t user dups (if rewired then r\<lparr>sr_rewired := sr_rewired r + 1\<rparr> else r) w2)))"

definition with_error :: "((string + unit) \<times> session_result) \<times> 'w \<Rightarrow> session_result \<times> 'w" where
  "with_error x = (case x of ((Inl e, r), w) \<Rightarrow> (r\<lparr>sr_error := Some e\<rparr>, w) | ((Inr _, r), w) \<Rightarrow> (r, w))"

subsection \<open>The streaming import\<close>

definition finish_duplicates_only ::
  "import_env \<Rightarrow> 'w import_client \<Rightarrow> canonical_session \<Rightarrow> int \<Rightarrow> string list \<Rightarrow> (canonical_entry \<times> existing_memory) list
    \<Rightarrow> import_state \<Rightarrow> 'w \<Rightarrow> session_result \<times> 'w" where
  "finish_duplicates_only env c session user labels dups st w =
     (let r = fs_result st; replay = (ss_source session = ''opencode'' \<and> sr_duplicate r > 0)
      in if replay \<and> \<not> im_group_writes env
         then (r\<lparr>sr_error := Some ''ThreadGroup writes are disabled; duplicate-only import cannot check deletion markers''\<rparr>, w)
         else
           let (r1, w1) = finalize_thread_group_observations env c session user r w
           in if sr_error r1 \<noteq> None \<or> sr_skip r1 \<noteq> None then (r1, w1)
              else (case fs_thread st of
                  Some t \<Rightarrow>
                    if \<not> (ss_source session = ''opencode'' \<and> sr_duplicate r1 > 0) then (r1, w1)
                    else (case apply_opencode_labels c t labels w1 of
                        (Inl e, w2) \<Rightarrow> (r1\<lparr>sr_error := Some e\<rparr>, w2)
                      | (Inr _, w2) \<Rightarrow> with_error (rewire_opencode_duplicates c t user dups r1 w2))
                | None \<Rightarrow> (r1, w1)))"

definition finish_stream ::
  "import_env \<Rightarrow> 'w import_client \<Rightarrow> 'w event_sink option \<Rightarrow> canonical_session \<Rightarrow> int \<Rightarrow> string list
    \<Rightarrow> (canonical_entry \<times> existing_memory) list \<Rightarrow> chunk_builder \<Rightarrow> import_state \<Rightarrow> 'w \<Rightarrow> session_result \<times> 'w" where
  "finish_stream env c sink session user labels dups b st w =
     (if cb_inputs b = [] then finish_duplicates_only env c session user labels dups st w
      else case flush_chunk env c sink session user labels True (fst (take_chunk b)) st w of
        ((Inl e, st1), w1) \<Rightarrow> ((fs_result st1)\<lparr>sr_error := Some e\<rparr>, w1)
      | ((Inr _, st1), w1) \<Rightarrow>
          if sr_skip (fs_result st1) \<noteq> None then (fs_result st1, w1)
          else
            let (r2, w2) = finalize_thread_group_observations env c session user (fs_result st1) w1
            in if sr_error r2 \<noteq> None \<or> sr_skip r2 \<noteq> None then (r2, w2)
               else (case fs_thread st1 of
                   Some t \<Rightarrow> if ss_source session = ''opencode''
                     then with_error (rewire_opencode_duplicates c t user dups r2 w2) else (r2, w2)
                 | None \<Rightarrow> (r2, w2)))"

definition run_stream ::
  "import_env \<Rightarrow> 'w import_client \<Rightarrow> 'w event_sink option \<Rightarrow> canonical_session \<Rightarrow> stream_item list \<Rightarrow> int option \<Rightarrow> int
    \<Rightarrow> string list \<Rightarrow> chunk_limits \<Rightarrow> (canonical_entry \<times> existing_memory) list \<Rightarrow> import_state \<Rightarrow> 'w
    \<Rightarrow> session_result \<times> 'w" where
  "run_stream env c sink session items since user labels limits dups st w =
     (case stream_loop env c sink session since user labels items \<lparr>ax_already = [], ax_queried = []\<rparr>
             (new_builder limits) st w of
        (Inl r, w1) \<Rightarrow> (r, w1)
      | (Inr (b, st1), w1) \<Rightarrow> finish_stream env c sink session user labels dups b st1 w1)"

definition run_import_streaming_with_event_sink ::
  "import_env \<Rightarrow> 'w import_client \<Rightarrow> 'w event_sink option \<Rightarrow> canonical_session \<Rightarrow> stream_item list \<Rightarrow> nat \<Rightarrow> int option
    \<Rightarrow> int \<Rightarrow> string list \<Rightarrow> chunk_limits \<Rightarrow> (string \<rightharpoonup> int) \<Rightarrow> 'w \<Rightarrow> session_result \<times> 'w" where
  "run_import_streaming_with_event_sink env c sink session items filtered since user extra limits snapshot w =
     (let r = start_result session filtered; labels = build_labels session extra
      in if ss_source session \<noteq> ''opencode''
         then run_stream env c sink session items since user labels limits [] \<lparr>fs_thread = None, fs_result = r\<rparr> w
         else (case preflight_opencode_duplicates env c session items user snapshot w of
             (Inl e, w1) \<Rightarrow> (r\<lparr>sr_error := Some e\<rparr>, w1)
           | (Inr pf, w1) \<Rightarrow>
               run_stream env c sink session (map Stream_Entry (pf_entries pf)) since user labels limits (pf_duplicates pf)
                 \<lparr>fs_thread = pf_thread pf,
                  fs_result = r\<lparr>sr_duplicate := sr_duplicate r + pf_count pf, sr_thread := pf_thread pf, sr_created := False\<rparr>\<rparr> w1))"

definition run_import ::
  "import_env \<Rightarrow> 'w import_client \<Rightarrow> canonical_session \<Rightarrow> canonical_entry list \<Rightarrow> nat \<Rightarrow> int option \<Rightarrow> int
    \<Rightarrow> string list \<Rightarrow> 'w \<Rightarrow> session_result \<times> 'w" where
  "run_import env c session entries filtered since user extra w =
     (if ss_source session = ''opencode''
      then run_import_streaming_with_event_sink env c None session (map Stream_Entry entries) filtered since user extra
             default_limits (\<lambda>_. None) w
      else run_import_with_event_sink env c None session entries filtered since user extra w)"

definition dry_run_session_result :: "canonical_session \<Rightarrow> canonical_entry list \<Rightarrow> nat \<Rightarrow> int option \<Rightarrow> session_result" where
  "dry_run_session_result session entries filtered since =
     (let kept = length (filter (is_entry_importable since) entries)
      in (start_result session (filtered + (length entries - kept)))\<lparr>sr_key := None, sr_imported := kept\<rparr>)"

end
