(* ===== verification/Import_Runs.thy ===== *)
theory Import_Runs
  imports Import_Client
begin

text \<open>
  The runs of the importer: what the counters of a session add up to, and that the streaming loop
  and the loop over a complete list make the same calls.
\<close>

subsection \<open>Metadata of a memory\<close>

lemma map_of_json_insert [simp]: "map_of (json_insert k v m) = (map_of m)(k \<mapsto> v)"
  by (induction k v m rule: json_insert.induct) auto

lemma map_of_fold_json_insert:
  assumes "\<And>k v. (k, v) \<in> set kvs \<Longrightarrow> f k = key \<Longrightarrow> v = x"
    and "map_of m key = Some x \<or> (\<exists>(k, v) \<in> set kvs. f k = key)"
  shows "map_of (fold (\<lambda>(k, v). json_insert (f k) v) kvs m) key = Some x"
  using assms
proof (induction kvs arbitrary: m)
  case (Cons kv kvs)
  obtain k v where kv: "kv = (k, v)" by (cases kv)
  have "v = x" if "f k = key" using Cons.prems(1) [of k v] that kv by simp
  then have "map_of (json_insert (f k) v m) key = Some x \<or> (\<exists>(k, v) \<in> set kvs. f k = key)"
    using Cons.prems(2) kv by auto
  moreover have "v' = x" if "(k', v') \<in> set kvs" "f k' = key" for k' v'
    using Cons.prems(1) [of k' v'] that by simp
  ultimately have "map_of (fold (\<lambda>(k, v). json_insert (f k) v) kvs (json_insert (f k) v m)) key = Some x"
    by (rule Cons.IH [rotated])
  with kv show ?case by simp
qed simp

lemma strip_value_get:
  assumes "\<And>k v. (k, v) \<in> set m \<Longrightarrow> strip_nul_bytes k = key \<Longrightarrow> v = x" "map_of m key = Some x" "nul_byte \<notin> set key"
  shows "json_get key (strip_nul_bytes_in_value (Json_Obj m)) = Some (strip_nul_bytes_in_value x)"
proof (cases "list_ex (\<lambda>(k, _). nul_byte \<in> set k) m")
  case True
  have "map_of (fold (\<lambda>(k, v). json_insert (strip_nul_bytes k) v) (map (map_prod id strip_nul_bytes_in_value) m) []) key
      = Some (strip_nul_bytes_in_value x)"
  proof (rule map_of_fold_json_insert)
    fix k v assume "(k, v) \<in> set (map (map_prod id strip_nul_bytes_in_value) m)" "strip_nul_bytes k = key"
    with assms(1) show "v = strip_nul_bytes_in_value x" by auto
  next
    from assms(2,3) have "(key, x) \<in> set m" "strip_nul_bytes key = key" by (auto dest: map_of_SomeD strip_nul_bytes_same)
    then have "\<exists>(k, v) \<in> set (map (map_prod id strip_nul_bytes_in_value) m). strip_nul_bytes k = key" by force
    then show "map_of [] key = Some (strip_nul_bytes_in_value x)
        \<or> (\<exists>(k, v) \<in> set (map (map_prod id strip_nul_bytes_in_value) m). strip_nul_bytes k = key)" ..
  qed
  with True show ?thesis by (simp add: json_get_def)
next
  case False
  have "map_of (map (map_prod id strip_nul_bytes_in_value) m) key = map_option strip_nul_bytes_in_value (map_of m key)"
    by (induction m) auto
  with False assms(2) show ?thesis by (simp add: json_get_def)
qed

lemma entry_metadata_pairs:
  assumes "entry_metadata session entry media = Json_Obj m" "(k, v) \<in> set m"
  shows "(k, v) \<in> {(''session'', ss_metadata session), (''kind'', Json_Str (en_kind_tag entry)), (''source'', Json_Str (ss_source session))}
    \<or> k \<in> {''tool'', ''attachment'', ''raw''} \<or> strip_nul_bytes k \<notin> set reserved_keys"
proof -
  let ?own = "filter (\<lambda>(k, _). strip_nul_bytes k \<notin> set reserved_keys) (en_metadata entry)"
  define m1 where "m1 = insert_if ''tool'' (ad_tool (en_canonical entry)) ?own"
  define m2 where "m2 = (if media = None then insert_if ''attachment'' (ad_attachment (en_canonical entry)) m1 else m1)"
  define m3 where "m3 = insert_if ''raw'' (map_option Json_Obj (ad_raw (en_canonical entry))) m2"
  have inserted: "p \<in> set (json_insert k v m) \<Longrightarrow> p = (k, v) \<or> p \<in> set m" for p :: "string \<times> json" and k v m
    using set_json_insert [of k v m] by auto
  have inserted_if: "p \<in> set (insert_if k x m) \<Longrightarrow> fst p = k \<or> p \<in> set m" for p k x m
    using inserted by (fastforce simp: insert_if_def split: option.splits)
  have "m = json_insert ''session'' (ss_metadata session) (json_insert ''kind'' (Json_Str (en_kind_tag entry))
      (json_insert ''source'' (Json_Str (ss_source session)) m3))"
    using assms(1) unfolding entry_metadata_def Let_def m1_def m2_def m3_def by (simp only: json.inject)
  with assms(2) have "(k, v) \<in> {(''session'', ss_metadata session), (''kind'', Json_Str (en_kind_tag entry)),
      (''source'', Json_Str (ss_source session))} \<or> (k, v) \<in> set m3" by (blast dest: inserted)
  moreover have "k \<in> {''tool'', ''attachment'', ''raw''} \<or> (k, v) \<in> set ?own" if "(k, v) \<in> set m3"
    using that by (auto simp: m3_def m2_def m1_def dest!: inserted_if split: if_splits)
  ultimately show ?thesis by auto
qed

text \<open>
  C15. The metadata of an imported memory contains no NUL, neither in a string nor in a key, and its
  keys \<open>source\<close>, \<open>kind\<close> and \<open>session\<close> always are those of the importer, whatever keys the entry brings,
  also when they become one of these only once their NULs are removed.
\<close>

theorem memory_metadata_sound:
  "nul_free (strip_nul_bytes_in_value (entry_metadata session entry media))
    \<and> json_get ''source'' (strip_nul_bytes_in_value (entry_metadata session entry media)) = Some (Json_Str (strip_nul_bytes (ss_source session)))
    \<and> json_get ''kind'' (strip_nul_bytes_in_value (entry_metadata session entry media)) = Some (Json_Str (strip_nul_bytes (en_kind_tag entry)))
    \<and> json_get ''session'' (strip_nul_bytes_in_value (entry_metadata session entry media)) = Some (strip_nul_bytes_in_value (ss_metadata session))"
proof -
  obtain m where m: "entry_metadata session entry media = Json_Obj m" by (simp add: entry_metadata_def Let_def)
  have found: "map_of m ''source'' = Some (Json_Str (ss_source session))" "map_of m ''kind'' = Some (Json_Str (en_kind_tag entry))"
    "map_of m ''session'' = Some (ss_metadata session)"
    using m by (auto simp: entry_metadata_def Let_def)
  have plain: "strip_nul_bytes ''tool'' = ''tool''" "strip_nul_bytes ''attachment'' = ''attachment''" "strip_nul_bytes ''raw'' = ''raw''"
    "strip_nul_bytes ''source'' = ''source''" "strip_nul_bytes ''kind'' = ''kind''" "strip_nul_bytes ''session'' = ''session''"
    by (simp_all add: strip_nul_bytes_def nul_byte_def)
  have only: "v = x" if "(k, v) \<in> set m" "strip_nul_bytes k = key" "map_of m key = Some x" "key \<in> {''source'', ''kind'', ''session''}" for k v key x
    using entry_metadata_pairs [OF m that(1)] that(2-4) found plain by (auto simp: reserved_keys_def)
  have "json_get key (strip_nul_bytes_in_value (Json_Obj m)) = Some (strip_nul_bytes_in_value x)"
    if "map_of m key = Some x" "key \<in> {''source'', ''kind'', ''session''}" for key x
    by (rule strip_value_get) (use only that in \<open>auto simp: nul_byte_def\<close>)
  from this [OF found(1)] this [OF found(2)] this [OF found(3)] show ?thesis
    using strip_nul_bytes_in_value_free [of "Json_Obj m"] unfolding m by simp
qed

subsection \<open>Accounting\<close>

definition accounted :: "session_result \<Rightarrow> nat" where
  "accounted r = sr_imported r + sr_duplicate r + sr_filtered r"

definition faultless :: "session_result \<Rightarrow> bool" where
  "faultless r \<longleftrightarrow> sr_error r = None \<and> sr_skip r = None"

lemma accounted_updates [simp]:
  "accounted (r\<lparr>sr_rewired := n\<rparr>) = accounted r" "accounted (r\<lparr>sr_error := e\<rparr>) = accounted r"
  "accounted (r\<lparr>sr_skip := e\<rparr>) = accounted r" "accounted (r\<lparr>sr_thread := t\<rparr>) = accounted r" "accounted (r\<lparr>sr_created := b\<rparr>) = accounted r"
  "accounted (r\<lparr>sr_media_linked := n\<rparr>) = accounted r" "accounted (r\<lparr>sr_media_failures := n\<rparr>) = accounted r"
  "accounted (bump_reason s n r) = accounted r"
  "accounted (r\<lparr>sr_imported := Suc (sr_imported r)\<rparr>) = Suc (accounted r)"
  "accounted (r\<lparr>sr_duplicate := Suc (sr_duplicate r)\<rparr>) = Suc (accounted r)"
  "accounted (r\<lparr>sr_filtered := Suc (sr_filtered r)\<rparr>) = Suc (accounted r)"
  by (simp_all add: accounted_def bump_reason_def)

lemma faultless_updates [simp]:
  "faultless (r\<lparr>sr_rewired := n\<rparr>) = faultless r" "\<not> faultless (r\<lparr>sr_error := Some e\<rparr>)"
  "\<not> faultless (r\<lparr>sr_skip := Some e\<rparr>)" "faultless (r\<lparr>sr_thread := t\<rparr>) = faultless r" "faultless (r\<lparr>sr_created := b\<rparr>) = faultless r"
  "faultless (r\<lparr>sr_media_linked := n\<rparr>) = faultless r" "faultless (r\<lparr>sr_media_failures := n\<rparr>) = faultless r"
  "faultless (bump_reason s n r) = faultless r"
  "faultless (r\<lparr>sr_imported := n\<rparr>) = faultless r" "faultless (r\<lparr>sr_duplicate := n\<rparr>) = faultless r"
  "faultless (r\<lparr>sr_filtered := n\<rparr>) = faultless r"
  by (simp_all add: faultless_def bump_reason_def)

lemma scan_outcomes_counts:
  "scan_outcomes t pairs r = (jobs, r') \<Longrightarrow> accounted r' = accounted r + length pairs \<and> faultless r' = faultless r"
proof (induction t pairs r arbitrary: jobs r' rule: scan_outcomes.induct)
  case (2 t entry out pairs r)
  show ?case
  proof (cases "om_created out")
    case True
    with "2.prems" have "scan_outcomes t pairs (r\<lparr>sr_imported := sr_imported r + 1\<rparr>) = (jobs, r')" by simp
    from "2.IH"(1) [OF True this] show ?thesis by simp
  next
    case False
    obtain jobs1 r1 where s: "scan_outcomes t pairs (r\<lparr>sr_duplicate := sr_duplicate r + 1\<rparr>) = (jobs1, r1)"
      by (cases "scan_outcomes t pairs (r\<lparr>sr_duplicate := sr_duplicate r + 1\<rparr>)")
    from False s "2.prems" have "r' = r1" by (simp split: if_splits option.splits)
    with "2.IH"(2) [OF False s] show ?thesis by simp
  qed
qed simp

lemma count_rewired_counts:
  "count_rewired xs r = (x, r') \<Longrightarrow> accounted r' = accounted r \<and> faultless r' = faultless r"
proof (induction xs arbitrary: r)
  case (Cons y ys)
  obtain e z where y: "y = (e, z)" by (cases y)
  show ?case
  proof (cases z)
    case (Inr rewired)
    with Cons.prems y have "count_rewired ys (if rewired then r\<lparr>sr_rewired := sr_rewired r + 1\<rparr> else r) = (x, r')"
      by simp
    from Cons.IH [OF this] show ?thesis by simp
  qed (use Cons.prems y in simp)
qed simp

lemma run_rewire_pass_counts:
  "run_rewire_pass env c entries outs t r w = ((x, r'), w') \<Longrightarrow>
    accounted r' = accounted r + min (length entries) (length outs) \<and> faultless r' = faultless r"
  by (auto simp: run_rewire_pass_def split: prod.splits dest!: scan_outcomes_counts count_rewired_counts)

lemma finalize_counts:
  "finalize_thread_group_observations env c session user r w = (r', w') \<Longrightarrow> accounted r' = accounted r"
  by (auto simp: finalize_thread_group_observations_def split: option.splits if_splits sum.splits prod.splits)

lemma rewire_opencode_counts:
  "rewire_opencode_duplicates c t user dups r w = ((x, r'), w') \<Longrightarrow> accounted r' = accounted r"
  by (induction c t user dups r w rule: rewire_opencode_duplicates.induct)
    (auto split: if_splits prod.splits sum.splits)

lemma accept_response_counts:
  assumes "accept_response env c sink session entries note resp st w = ((Inr u, st'), w')" "faultless (fs_result st)"
  shows "(if rs_suppressed resp then \<not> faultless (fs_result st')
    else faultless (fs_result st') \<and> accounted (fs_result st') = accounted (fs_result st) + length entries)"
proof (cases "rs_suppressed resp")
  case True
  with assms show ?thesis by (auto simp: accept_response_def)
next
  case False
  define r1 where "r1 = (if fs_thread st = None
    then (fs_result st)\<lparr>sr_thread := rs_thread resp, sr_created := rs_created resp\<rparr> else fs_result st)"
  have r1: "faultless r1 = faultless (fs_result st)" "accounted r1 = accounted (fs_result st)"
    by (simp_all add: r1_def)
  from False assms(1) obtain t r2 w1 w2 where len: "length (rs_outcomes resp) = length entries"
    and pass: "run_rewire_pass env c entries (rs_outcomes resp) t r1 w1 = ((Inr u, r2), w2)" and st: "fs_result st' = r2"
    by (auto simp: accept_response_def Let_def r1_def split: if_splits option.splits prod.splits sum.splits)
  from run_rewire_pass_counts [OF pass] len st False assms(2) r1 show ?thesis by simp
qed

lemma accept_response_error:
  "accept_response env c sink session entries note resp st w = ((x, st'), w') \<Longrightarrow> faultless (fs_result st)
    \<Longrightarrow> \<not> rs_suppressed resp \<Longrightarrow> faultless (fs_result st')"
  by (auto simp: accept_response_def Let_def dest: run_rewire_pass_counts split: if_splits option.splits prod.splits sum.splits)

lemma flush_chunk_counts:
  assumes "flush_chunk env c sink session user labels is_last chunk st w = ((Inr u, st'), w')" "faultless (fs_result st)"
  shows "sr_skip (fs_result st') \<noteq> None \<or>
    faultless (fs_result st') \<and> accounted (fs_result st') = accounted (fs_result st) + length chunk"
proof -
  let ?entries = "map fst (sort_key (\<lambda>(e, _). entry_order e) chunk)"
  from assms(1) have "\<exists>resp w1. accept_response env c sink session ?entries [] resp st w1 = ((Inr u, st'), w')"
    by (auto simp: flush_chunk_def Let_def split: sum.splits prod.splits)
  then obtain resp w1 where "length ?entries = length chunk"
    "accept_response env c sink session ?entries [] resp st w1 = ((Inr u, st'), w')"
    by auto
  moreover from this(2) have "rs_suppressed resp \<Longrightarrow> sr_skip (fs_result st') \<noteq> None"
    by (auto simp: accept_response_def)
  ultimately show ?thesis using accept_response_counts [OF \<open>accept_response _ _ _ _ _ _ _ _ _ = _\<close> assms(2)]
    by (auto split: if_splits)
qed

lemma media_of_entry_counts:
  assumes "media_of_entry env c session entry ctx r w = ((media, ctx', r'), w')"
  shows "accounted r' = accounted r \<and> faultless r' = faultless r"
  using assms by (auto simp: media_of_entry_def Let_def split: if_splits prod.splits option.splits sum.splits)

definition builder_length :: "chunk_builder \<Rightarrow> nat" where
  "builder_length b = length (cb_inputs b)"

definition builder_paired :: "chunk_builder \<Rightarrow> bool" where
  "builder_paired b \<longleftrightarrow> length (cb_entries b) = length (cb_inputs b)"

lemma builder_pairing [simp]:
  "builder_paired b \<Longrightarrow> builder_paired (push_chunk entry pb n b)"
  "builder_paired (snd (take_chunk b))" "builder_paired (new_builder limits)"
  "builder_length (push_chunk entry pb n b) = Suc (builder_length b)"
  "builder_length (snd (take_chunk b)) = 0" "builder_length (new_builder limits) = 0"
  "builder_paired b \<Longrightarrow> length (fst (take_chunk b)) = builder_length b"
  by (simp_all add: builder_paired_def builder_length_def push_chunk_def take_chunk_def new_builder_def)

lemma stream_loop_counts:
  "stream_loop env c sink session since user labels items ctx b st w = (x, w') \<Longrightarrow> faultless (fs_result st)
    \<Longrightarrow> builder_paired b \<Longrightarrow>
    (case x of Inl r \<Rightarrow> \<not> faultless r
     | Inr (b', st') \<Rightarrow> faultless (fs_result st') \<and> builder_paired b' \<and>
         accounted (fs_result st') + builder_length b' = accounted (fs_result st) + builder_length b + length items)"
proof (induction items arbitrary: ctx b st w)
  case (Cons item items)
  have counted: "fs_result (count_filtered st) = (fs_result st)\<lparr>sr_filtered := Suc (sr_filtered (fs_result st))\<rparr>"
    by (simp add: count_filtered_def)
  have skip: ?case if "stream_loop env c sink session since user labels items ctx b (count_filtered st) w = (x, w')"
    using Cons.IH [OF that] Cons.prems(2,3) counted by (simp split: sum.splits prod.splits)
  show ?case
  proof (cases item)
    case (Stream_Entry raw)
    define entry where "entry = (if ss_source session \<noteq> ''opencode''
      then namespace_entry_external_ids (im_sha env) (ss_source session) user raw else raw)"
    show ?thesis
    proof (cases "is_entry_importable since entry")
      case False
      with Cons.prems(1) Stream_Entry skip show ?thesis by (simp add: entry_def)
    next
      case True
      obtain media ctx1 r1 w1 where m: "media_of_entry env c session entry ctx (fs_result st) w = ((media, ctx1, r1), w1)"
        by (metis prod.exhaust)
      note r1 = media_of_entry_counts [OF m]
      define st1 where "st1 = st\<lparr>fs_result := r1\<rparr>"
      define pb where "pb = batch_input_of env session entry user (case media of None \<Rightarrow> (\<lambda>_. None) | Some i \<Rightarrow> [en_external entry \<mapsto> i])"
      let ?n = "im_encoded_len env pb"
      have st1: "faultless (fs_result st1)" "accounted (fs_result st1) = accounted (fs_result st)"
        using r1 Cons.prems(2) by (simp_all add: st1_def)
      show ?thesis
      proof (cases "would_overflow ?n b")
        case False
        with Cons.prems(1) Stream_Entry True m have
          "stream_loop env c sink session since user labels items ctx1 (push_chunk entry pb ?n b) st1 w1 = (x, w')"
          by (simp add: entry_def [symmetric] pb_def [symmetric] st1_def [symmetric] Let_def)
        from Cons.IH [OF this st1(1)] st1(2) Cons.prems(3) show ?thesis by (simp split: sum.splits prod.splits)
      next
        case overflow: True
        obtain y st2 w2 where fl: "flush_chunk env c sink session user labels False (fst (take_chunk b)) st1 w1 = ((y, st2), w2)"
          by (metis prod.exhaust)
        have "stream_loop env c sink session since user labels (item # items) ctx b st w = (case y of Inl e \<Rightarrow> (Inl ((fs_result st2)\<lparr>sr_error := Some e\<rparr>), w2)
            | Inr _ \<Rightarrow> if sr_skip (fs_result st2) \<noteq> None then (Inl (fs_result st2), w2)
                else stream_loop env c sink session since user labels items ctx1
                  (push_chunk entry pb ?n (snd (take_chunk b))) st2 w2)"
          using True overflow fl unfolding Stream_Entry stream_loop.simps entry_def [symmetric] Let_def m prod.case
            st1_def [symmetric] pb_def [symmetric]
          by (cases "take_chunk b") (auto split: sum.split)
        with Cons.prems(1) have run: "(case y of Inl e \<Rightarrow> (Inl ((fs_result st2)\<lparr>sr_error := Some e\<rparr>), w2)
            | Inr _ \<Rightarrow> if sr_skip (fs_result st2) \<noteq> None then (Inl (fs_result st2), w2)
                else stream_loop env c sink session since user labels items ctx1
                  (push_chunk entry pb ?n (snd (take_chunk b))) st2 w2) = (x, w')"
          by simp
        show ?thesis
        proof (cases y)
          case (Inl e)
          with run show ?thesis by auto
        next
          case (Inr u)
          show ?thesis
          proof (cases "sr_skip (fs_result st2) = None")
            case False
            with run Inr show ?thesis by (auto simp: faultless_def)
          next
            case True
            with run Inr have loop: "stream_loop env c sink session since user labels items ctx1
              (push_chunk entry pb ?n (snd (take_chunk b))) st2 w2 = (x, w')" by simp
            have "faultless (fs_result st2) \<and> accounted (fs_result st2) = accounted (fs_result st1) + length (fst (take_chunk b))"
              using flush_chunk_counts [OF fl [unfolded Inr] st1(1)] True by simp
            with Cons.IH [OF loop] st1(2) Cons.prems(3) show ?thesis by (simp split: sum.splits prod.splits)
          qed
        qed
      qed
    qed
  qed (use Cons.prems(1) skip in simp_all)
qed auto

lemma finish_duplicates_counts:
  "finish_duplicates_only env c session user labels dups st w = (r, w') \<Longrightarrow> accounted r = accounted (fs_result st)"
  by (auto simp: finish_duplicates_only_def Let_def with_error_def dest!: finalize_counts rewire_opencode_counts
      split: if_splits prod.splits option.splits sum.splits)

lemma finish_stream_counts:
  assumes "finish_stream env c sink session user labels dups b st w = (r, w')" "faultless (fs_result st)" "builder_paired b"
    and "faultless r"
  shows "accounted r = accounted (fs_result st) + builder_length b"
proof (cases "cb_inputs b = []")
  case True
  with assms show ?thesis by (auto simp: finish_stream_def builder_length_def dest: finish_duplicates_counts)
next
  case False
  obtain y st1 w1 where fl: "flush_chunk env c sink session user labels True (fst (take_chunk b)) st w = ((y, st1), w1)"
    by (metis prod.exhaust)
  obtain r2 w2 where fin: "finalize_thread_group_observations env c session user (fs_result st1) w1 = (r2, w2)"
    by (metis prod.exhaust)
  from assms(1,4) False fl have y: "\<exists>u. y = Inr u" and skip: "sr_skip (fs_result st1) = None"
    by (auto simp: finish_stream_def faultless_def split: sum.splits if_splits)
  with fl obtain u where "flush_chunk env c sink session user labels True (fst (take_chunk b)) st w = ((Inr u, st1), w1)" by auto
  from flush_chunk_counts [OF this assms(2)] skip assms(3)
  have st1: "accounted (fs_result st1) = accounted (fs_result st) + builder_length b" by simp
  from assms(1) False fl y skip fin finalize_counts [OF fin] st1 show ?thesis
    by (auto simp: finish_stream_def with_error_def dest!: rewire_opencode_counts split: if_splits option.splits prod.splits sum.splits)
qed

lemma run_stream_counts:
  assumes "run_stream env c sink session items since user labels limits dups st w = (r, w')" "faultless (fs_result st)" "faultless r"
  shows "accounted r = accounted (fs_result st) + length items"
proof -
  obtain x w1 where loop: "stream_loop env c sink session since user labels items \<lparr>ax_already = [], ax_queried = []\<rparr>
      (new_builder limits) st w = (x, w1)" by (metis prod.exhaust)
  note counts = stream_loop_counts [OF loop assms(2) builder_pairing(3)]
  show ?thesis
  proof (cases x)
    case (Inl r')
    with assms(1,3) loop counts show ?thesis by (simp add: run_stream_def)
  next
    case (Inr y)
    obtain b st1 where y: "y = (b, st1)" by (cases y)
    with Inr counts have st1: "faultless (fs_result st1)" "builder_paired b"
      "accounted (fs_result st1) + builder_length b = accounted (fs_result st) + length items" by simp_all
    from assms(1) loop Inr y have "finish_stream env c sink session user labels dups b st1 w1 = (r, w')"
      by (simp add: run_stream_def)
    from finish_stream_counts [OF this st1(1,2) assms(3)] st1(3) show ?thesis by simp
  qed
qed

lemma start_result_counts [simp]:
  "faultless (start_result session filtered)" "accounted (start_result session filtered) = filtered"
  by (simp_all add: start_result_def faultless_def accounted_def)

lemma lookup_opencode_length:
  "lookup_opencode_memories c user target entries new existing w = (Inr (new', existing'), w')
    \<Longrightarrow> length new' \<le> length new + length entries"
proof (induction entries arbitrary: new existing w)
  case (Cons e es)
  then show ?case by (force split: prod.splits sum.splits option.splits)
qed simp

definition offered :: "canonical_session \<Rightarrow> stream_item list \<Rightarrow> nat" where
  "offered session items = (if ss_source session = ''opencode'' then length (stream_entries items) else length items)"

lemma stream_import_counts:
  assumes "run_import_streaming_with_event_sink env c sink session items filtered since user extra limits snapshot w = (r, w')"
    and r: "faultless r"
  shows "accounted r = filtered + offered session items"
proof -
  let ?r0 = "start_result session filtered"
  show "accounted r = filtered + offered session items"
  proof (cases "ss_source session = ''opencode''")
    case False
    with assms(1) have "run_stream env c sink session items since user (build_labels session extra) limits []
        \<lparr>fs_thread = None, fs_result = ?r0\<rparr> w = (r, w')"
      by (simp add: run_import_streaming_with_event_sink_def Let_def)
    from run_stream_counts [OF this _ r] False show ?thesis by (simp add: offered_def)
  next
    case True
    show ?thesis
    proof (cases "preflight_opencode_duplicates env c session items user snapshot w")
      case (Pair x w1)
      show ?thesis
      proof (cases x)
        case (Inl e)
        with assms(1) True Pair r show ?thesis by (auto simp: run_import_streaming_with_event_sink_def Let_def)
      next
        case (Inr pf)
        have pf: "pf_count pf + length (pf_entries pf) = length (stream_entries items)"
          using Pair Inr by (auto simp: preflight_opencode_duplicates_def Let_def dest!: lookup_opencode_length
              split: prod.splits sum.splits if_splits option.splits)
        let ?st = "\<lparr>fs_thread = pf_thread pf,
          fs_result = ?r0\<lparr>sr_duplicate := sr_duplicate ?r0 + pf_count pf, sr_thread := pf_thread pf, sr_created := False\<rparr>\<rparr>"
        from assms(1) True Pair Inr have "run_stream env c sink session (map Stream_Entry (pf_entries pf)) since user
            (build_labels session extra) limits (pf_duplicates pf) ?st w1 = (r, w')"
          by (simp add: run_import_streaming_with_event_sink_def Let_def)
        from run_stream_counts [OF this _ r] have "accounted r = accounted (fs_result ?st) + length (pf_entries pf)"
          by (simp add: faultless_def start_result_def)
        with True pf show ?thesis by (simp add: offered_def accounted_def start_result_def)
      qed
    qed
  qed
qed

text \<open>
  C14. A streaming import that ends without an error and without being skipped has counted every
  item of the stream exactly once, as imported, as a duplicate or as filtered, whatever the server
  answers; of an OpenCode session it has counted the entries and not the filtered items and warnings.
\<close>

theorem stream_import_accounts:
  assumes "run_import_streaming_with_event_sink env c sink session items filtered since user extra limits snapshot w = (r, w')"
    and "sr_error r = None" "sr_skip r = None"
  shows "sr_imported r + sr_duplicate r + sr_filtered r = filtered + offered session items"
  using stream_import_counts [OF assms(1)] assms(2,3) by (simp add: faultless_def accounted_def)

subsection \<open>The two loops make the same calls\<close>

text \<open>The number of filtered entries, which the loops count at different times, and the texts of errors.\<close>

definition erase :: "session_result \<Rightarrow> session_result" where
  "erase r = r\<lparr>sr_filtered := 0\<rparr>"

definition erase_state :: "import_state \<Rightarrow> import_state" where
  "erase_state st = st\<lparr>fs_result := erase (fs_result st)\<rparr>"

definition blur :: "session_result \<Rightarrow> session_result" where
  "blur r = r\<lparr>sr_error := map_option (\<lambda>_. []) (sr_error r)\<rparr>"

lemma erase_select [simp]:
  "sr_error (erase r) = sr_error r" "sr_skip (erase r) = sr_skip r" "sr_thread (erase r) = sr_thread r"
  "sr_imported (erase r) = sr_imported r" "sr_duplicate (erase r) = sr_duplicate r" "sr_rewired (erase r) = sr_rewired r"
  "fs_thread (erase_state st) = fs_thread st" "fs_result (erase_state st) = erase (fs_result st)"
  "erase (erase r) = erase r" "faultless (erase r) = faultless r"
  by (simp_all add: erase_def erase_state_def faultless_def)

lemma erase_update:
  "(erase r)\<lparr>sr_error := e\<rparr> = erase (r\<lparr>sr_error := e\<rparr>)" "(erase r)\<lparr>sr_skip := e\<rparr> = erase (r\<lparr>sr_skip := e\<rparr>)"
  "(erase r)\<lparr>sr_imported := n\<rparr> = erase (r\<lparr>sr_imported := n\<rparr>)" "(erase r)\<lparr>sr_duplicate := n\<rparr> = erase (r\<lparr>sr_duplicate := n\<rparr>)"
  "(erase r)\<lparr>sr_rewired := n\<rparr> = erase (r\<lparr>sr_rewired := n\<rparr>)"
  "(erase r)\<lparr>sr_thread := t, sr_created := b\<rparr> = erase (r\<lparr>sr_thread := t, sr_created := b\<rparr>)"
  "erase (r\<lparr>sr_filtered := n\<rparr>) = erase r"
  by (simp_all add: erase_def)

lemma erase_state_update:
  "(erase_state st)\<lparr>fs_result := erase r\<rparr> = erase_state (st\<lparr>fs_result := r\<rparr>)"
  "\<lparr>fs_thread = t, fs_result = erase r\<rparr> = erase_state \<lparr>fs_thread = t, fs_result = r\<rparr>"
  by (simp_all add: erase_state_def)

lemma scan_outcomes_erase:
  "scan_outcomes t pairs (erase r) = (case scan_outcomes t pairs r of (jobs, r') \<Rightarrow> (jobs, erase r'))"
  by (induction t pairs r rule: scan_outcomes.induct)
    (simp_all add: erase_update Let_def split: prod.splits option.splits)

lemma count_rewired_erase:
  "count_rewired xs (erase r) = (case count_rewired xs r of (x, r') \<Rightarrow> (x, erase r'))"
  by (induction xs arbitrary: r) (auto simp: erase_update split: sum.splits)

lemma run_rewire_pass_erase:
  "run_rewire_pass env c entries outs t (erase r) w =
    (case run_rewire_pass env c entries outs t r w of ((x, r'), w') \<Rightarrow> ((x, erase r'), w'))"
  by (simp add: run_rewire_pass_def scan_outcomes_erase count_rewired_erase split: prod.split)

lemma accept_response_erase:
  "accept_response env c sink session entries note resp (erase_state st) w =
    (case accept_response env c sink session entries note resp st w of ((x, st'), w') \<Rightarrow> ((x, erase_state st'), w'))"
  by (cases "fs_thread st"; cases "rs_thread resp"; cases sink; cases "rs_created resp")
    (simp_all add: accept_response_def Let_def run_rewire_pass_erase erase_update erase_state_update
      split: sum.split prod.split)

lemma flush_chunk_erase:
  "flush_chunk env c sink session user labels is_last chunk (erase_state st) w =
    (case flush_chunk env c sink session user labels is_last chunk st w of ((x, st'), w') \<Rightarrow> ((x, erase_state st'), w'))"
  by (simp add: flush_chunk_def Let_def accept_response_erase split: sum.split prod.split)

lemma finalize_erase:
  "finalize_thread_group_observations env c session user (erase r) w =
    (case finalize_thread_group_observations env c session user r w of (r', w') \<Rightarrow> (erase r', w'))"
  by (simp add: finalize_thread_group_observations_def erase_update split: option.split sum.split prod.split)

text \<open>Sending a list of chunks as the streaming loop does, and the list loop in the same form.\<close>

fun stream_send ::
  "import_env \<Rightarrow> 'w import_client \<Rightarrow> 'w event_sink option \<Rightarrow> canonical_session \<Rightarrow> int \<Rightarrow> string list
    \<Rightarrow> (canonical_entry \<times> batch_item) list list \<Rightarrow> import_state \<Rightarrow> 'w \<Rightarrow> (bool \<times> session_result) \<times> 'w" where
  "stream_send env c sink session user labels [] st w = ((True, fs_result st), w)"
| "stream_send env c sink session user labels (chunk # parts) st w =
     (case flush_chunk env c sink session user labels (parts = []) chunk st w of
        ((Inl e, st1), w1) \<Rightarrow> ((False, (fs_result st1)\<lparr>sr_error := Some e\<rparr>), w1)
      | ((Inr _, st1), w1) \<Rightarrow>
          if sr_skip (fs_result st1) \<noteq> None then ((False, fs_result st1), w1)
          else stream_send env c sink session user labels parts st1 w1)"

definition plain_pairs ::
  "import_env \<Rightarrow> canonical_session \<Rightarrow> int option \<Rightarrow> int \<Rightarrow> canonical_entry list \<Rightarrow> (canonical_entry \<times> batch_item) list" where
  "plain_pairs env session since user entries =
     map (\<lambda>e. (e, batch_input_of env session e user (\<lambda>_. None)))
       (map (namespace_entry_external_ids (im_sha env) (ss_source session) user) (filter (is_entry_importable since) entries))"

lemma plain_pairs_simps [simp]:
  "plain_pairs env session since user [] = []"
  "plain_pairs env session since user (e # es) =
    (let e' = namespace_entry_external_ids (im_sha env) (ss_source session) user e
     in if is_entry_importable since e then [(e', batch_input_of env session e' user (\<lambda>_. None))] else [])
    @ plain_pairs env session since user es"
  by (simp_all add: plain_pairs_def Let_def)

lemma namespaced [simp]:
  "is_entry_importable since (namespace_entry_external_ids sha source user e) = is_entry_importable since e"
  "has_attachment (namespace_entry_external_ids sha source user e) = has_attachment e"
  "entry_order (namespace_entry_external_ids sha source user e) = entry_order e"
  by (cases since; simp add: namespace_entry_external_ids_def is_entry_importable_def has_attachment_def entry_order_def)+

text \<open>What is left to do after the streaming loop: the last chunk.\<close>

definition send_rest ::
  "import_env \<Rightarrow> 'w import_client \<Rightarrow> 'w event_sink option \<Rightarrow> canonical_session \<Rightarrow> int \<Rightarrow> string list
    \<Rightarrow> (session_result + chunk_builder \<times> import_state) \<times> 'w \<Rightarrow> (bool \<times> session_result) \<times> 'w" where
  "send_rest env c sink session user labels x =
     (case x of
        (Inl r, w) \<Rightarrow> ((False, erase r), w)
      | (Inr (b, st), w) \<Rightarrow>
          stream_send env c sink session user labels (if fst (take_chunk b) = [] then [] else [fst (take_chunk b)]) (erase_state st) w)"

lemma send_rest_Inl: "send_rest env c sink session user labels (Inl r, w) = ((False, erase r), w)"
  by (simp add: send_rest_def)

lemma stream_loop_sends:
  assumes "ss_source session \<noteq> ''opencode''" "list_all (\<lambda>e. \<not> has_attachment e) entries"
    and "builder_ok (im_encoded_len env) limits b"
  shows "send_rest env c sink session user labels
      (stream_loop env c sink session since user labels (map Stream_Entry entries) ctx b st w)
    = stream_send env c sink session user labels
        (greedy_chunks limits (pair_width (im_encoded_len env)) (fst (take_chunk b)) (plain_pairs env session since user entries))
        (erase_state st) w"
  using assms(2,3)
proof (induction entries arbitrary: b st w)
  case (Cons raw entries)
  let ?width = "im_encoded_len env"
  define entry where "entry = namespace_entry_external_ids (im_sha env) (ss_source session) user raw"
  define pb where "pb = batch_input_of env session entry user (\<lambda>_. None)"
  have counted: "erase_state (count_filtered st) = erase_state st"
    by (simp add: count_filtered_def erase_state_def erase_def)
  show ?case
  proof (cases "is_entry_importable since raw")
    case False
    with Cons.IH [OF _ Cons.prems(2), of "count_filtered st" w] Cons.prems(1) assms(1) counted show ?thesis
      by simp
  next
    case True
    have media: "media_of_entry env c session entry ctx r w = ((None, ctx, r), w)" for r
      using Cons.prems(1) by (simp add: media_of_entry_def entry_def)
    have imp: "is_entry_importable since entry" using True by (simp add: entry_def)
    have pairs: "plain_pairs env session since user (raw # entries) = (entry, pb) # plain_pairs env session since user entries"
      using True by (simp add: entry_def pb_def Let_def)
    have ok: "builder_ok ?width limits (push_chunk entry pb (?width pb) b)"
      and ok': "builder_ok ?width limits (push_chunk entry pb (?width pb) (snd (take_chunk b)))"
      using Cons.prems(2) by (blast intro: builder_push builder_take)+
    show ?thesis
    proof (cases "would_overflow (?width pb) b")
      case False
      with Cons.prems(2) have "\<not> chunk_full limits (pair_width ?width) (fst (take_chunk b)) (entry, pb)"
        using would_overflow_full by blast
      then have greedy: "greedy_chunks limits (pair_width ?width) (fst (take_chunk b)) (plain_pairs env session since user (raw # entries))
          = greedy_chunks limits (pair_width ?width) (fst (take_chunk (push_chunk entry pb (?width pb) b)))
              (plain_pairs env session since user entries)"
        unfolding pairs using take_chunk_push [OF Cons.prems(2)] by simp
      have "stream_loop env c sink session since user labels (map Stream_Entry (raw # entries)) ctx b st w
          = stream_loop env c sink session since user labels (map Stream_Entry entries) ctx (push_chunk entry pb (?width pb) b) st w"
        using imp False assms(1) media by (simp add: entry_def [symmetric] pb_def [symmetric] Let_def)
      with Cons.IH [OF _ ok] Cons.prems(1) show ?thesis unfolding greedy by simp
    next
      case overflow: True
      then have "chunk_full limits (pair_width ?width) (fst (take_chunk b)) (entry, pb)"
        using would_overflow_full [OF Cons.prems(2)] by blast
      then have greedy: "greedy_chunks limits (pair_width ?width) (fst (take_chunk b)) (plain_pairs env session since user (raw # entries))
          = fst (take_chunk b) # greedy_chunks limits (pair_width ?width) (fst (take_chunk (push_chunk entry pb (?width pb) (snd (take_chunk b)))))
              (plain_pairs env session since user entries)"
        unfolding pairs using take_chunk_push [OF builder_take [OF Cons.prems(2)]] by simp
      have more: "greedy_chunks limits (pair_width ?width) (fst (take_chunk (push_chunk entry pb (?width pb) (snd (take_chunk b)))))
              (plain_pairs env session since user entries) \<noteq> []"
        by (rule greedy_chunks_start) (simp add: take_chunk_push [OF builder_take [OF Cons.prems(2)]])
      have step: "stream_loop env c sink session since user labels (map Stream_Entry (raw # entries)) ctx b st w
          = (case flush_chunk env c sink session user labels False (fst (take_chunk b)) st w of
               ((Inl e, st2), w2) \<Rightarrow> (Inl ((fs_result st2)\<lparr>sr_error := Some e\<rparr>), w2)
             | ((Inr _, st2), w2) \<Rightarrow> if sr_skip (fs_result st2) \<noteq> None then (Inl (fs_result st2), w2)
                 else stream_loop env c sink session since user labels (map Stream_Entry entries) ctx
                   (push_chunk entry pb (?width pb) (snd (take_chunk b))) st2 w2)"
        using imp overflow assms(1) media
        by (cases "take_chunk b") (auto simp: entry_def [symmetric] pb_def [symmetric] Let_def split: prod.split sum.split)
      show ?thesis unfolding greedy step using Cons.IH [OF _ ok'] Cons.prems(1) more
        by (auto simp: flush_chunk_erase send_rest_Inl erase_update split: prod.split sum.split)
    qed
  qed
qed (simp add: send_rest_def)

lemma accept_response_note:
  "accept_response env c sink session entries note resp st w =
    (case accept_response env c sink session entries note' resp st w of
       ((x, st'), w') \<Rightarrow> ((case accept_response env c sink session entries note resp st w of ((y, _), _) \<Rightarrow> y, st'), w'))"
  by (simp add: accept_response_def Let_def split: option.split sum.split prod.split)

lemma accept_response_note_ok:
  "is_ok (fst (fst (accept_response env c sink session entries note resp st w)))
    = is_ok (fst (fst (accept_response env c sink session entries note' resp st w)))"
  by (simp add: accept_response_def Let_def is_ok_def split: option.split sum.split prod.split)

definition blurred :: "(bool \<times> session_result) \<times> 'w \<Rightarrow> (bool \<times> session_result) \<times> 'w" where
  "blurred x = (case x of ((ok, r), w) \<Rightarrow> ((ok, blur r), w))"

lemma blur_error [simp]: "blur (r\<lparr>sr_error := Some e\<rparr>) = r\<lparr>sr_error := Some []\<rparr>"
  by (simp add: blur_def)

lemma sorted_pairs_same: "sorted (map (\<lambda>(e, _). entry_order e) chunk) \<Longrightarrow> sort_key (\<lambda>(e, _). entry_order e) chunk = chunk"
  by (rule sort_key_id_if_sorted)

lemma send_chunks_streams:
  assumes "ss_source session \<noteq> ''opencode''" "faultless (fs_result st)" "chunk_count + 1 = idx + length parts"
    and "list_all (\<lambda>chunk. sorted (map (\<lambda>(e, _). entry_order e) chunk)) parts"
  shows "blurred (send_chunks env c sink session user labels chunk_count idx parts st w)
    = blurred (stream_send env c sink session user labels parts st w)"
  using assms(2-4)
proof (induction parts arbitrary: idx st w)
  case (Cons chunk parts)
  have idx: "idx = chunk_count \<longleftrightarrow> parts = []" using Cons.prems(2) by auto
  have order: "sort_key (\<lambda>(e, _). entry_order e) chunk = chunk" using Cons.prems(3) by (simp add: sorted_pairs_same)
  let ?request = "\<lparr>rq_target = batch_target_of env session user (fs_thread st), rq_memories = map snd chunk, rq_upsert = True,
    rq_labels = (if parts = [] then labels else []), rq_identity = source_identity_to_proto session user, rq_override = False\<rparr>"
  let ?note = "'' (chunk '' @ show_nat idx @ '')''"
  have stream: "flush_chunk env c sink session user labels (parts = []) chunk st w =
      (case ic_add_batch c ?request w of (Inl e, w1) \<Rightarrow> ((Inl (''AddMemoriesBatch failed: '' @ e), st), w1)
       | (Inr resp, w1) \<Rightarrow> accept_response env c sink session (map fst chunk) [] resp st w1)"
    using assms(1) order by (simp add: flush_chunk_def Let_def)
  show ?case
  proof (cases "ic_add_batch c ?request w")
    case (Pair x w1)
    show ?thesis
    proof (cases x)
      case (Inl e)
      with Pair stream idx show ?thesis by (simp add: Let_def blurred_def)
    next
      case (Inr resp)
      obtain y st1 w2 where a: "accept_response env c sink session (map fst chunk) [] resp st w1 = ((y, st1), w2)"
        by (metis prod.exhaust)
      obtain z where b: "accept_response env c sink session (map fst chunk) ?note resp st w1 = ((z, st1), w2)"
        using accept_response_note [of env c sink session "map fst chunk" ?note resp st w1 "[]"] a
        by (cases "accept_response env c sink session (map fst chunk) ?note resp st w1") auto
      have ok: "is_ok z = is_ok y"
        using accept_response_note_ok [of env c sink session "map fst chunk" ?note resp st w1 "[]"] a b by simp
      show ?thesis
      proof (cases y)
        case (Inl e)
        with ok obtain e' where "z = Inl e'" by (cases z) (auto simp: is_ok_def)
        with Inl Pair Inr a b stream idx show ?thesis by (simp add: Let_def blurred_def)
      next
        case y: (Inr u)
        with ok have z: "z = Inr ()" by (cases z) (auto simp: is_ok_def)
        have skip: "rs_suppressed resp \<longleftrightarrow> sr_skip (fs_result st1) \<noteq> None"
        proof (cases "rs_suppressed resp")
          case True
          with a show ?thesis by (auto simp: accept_response_def)
        next
          case False
          with accept_response_error [OF a Cons.prems(1)] show ?thesis by (simp add: faultless_def)
        qed
        show ?thesis
        proof (cases "rs_suppressed resp")
          case True
          with skip y z Pair Inr a b stream idx show ?thesis by (simp add: Let_def blurred_def)
        next
          case False
          with accept_response_error [OF a Cons.prems(1)] have "faultless (fs_result st1)" by simp
          with Cons.IH [OF this, of "idx + 1" w2] False skip y z Pair Inr a b stream idx Cons.prems(2,3) show ?thesis
            by (simp add: Let_def)
        qed
      qed
    qed
  qed
qed simp

lemma stream_send_erase:
  "stream_send env c sink session user labels parts (erase_state st) w =
    (case stream_send env c sink session user labels parts st w of ((ok, r), w') \<Rightarrow> ((ok, erase r), w'))"
  by (induction parts arbitrary: st w)
    (auto simp: flush_chunk_erase erase_update split: prod.split sum.split)

lemma stream_send_counts:
  "stream_send env c sink session user labels parts st w = ((ok, r), w') \<Longrightarrow> faultless (fs_result st) \<Longrightarrow>
    (if ok then faultless r \<and> accounted r = accounted (fs_result st) + length (concat parts) else \<not> faultless r)"
proof (induction parts arbitrary: st w)
  case (Cons chunk parts)
  obtain y st1 w1 where fl: "flush_chunk env c sink session user labels (parts = []) chunk st w = ((y, st1), w1)"
    by (metis prod.exhaust)
  show ?case
  proof (cases y)
    case (Inl e)
    with Cons.prems fl show ?thesis by auto
  next
    case (Inr u)
    note st1 = flush_chunk_counts [OF fl [unfolded Inr] Cons.prems(2)]
    show ?thesis
    proof (cases "sr_skip (fs_result st1) = None")
      case True
      with Cons.prems(1) fl Inr have "stream_send env c sink session user labels parts st1 w1 = ((ok, r), w')" by simp
      from Cons.IH [OF this] st1 True show ?thesis by (auto simp: faultless_def)
    next
      case False
      with Cons.prems(1) fl Inr show ?thesis by (auto simp: faultless_def)
    qed
  qed
qed auto

lemma blur_faultless: "blur r = blur r' \<Longrightarrow> faultless r \<Longrightarrow> r' = r"
proof -
  assume eq: "blur r = blur r'" and f: "faultless r"
  then have "map_option (\<lambda>_. ''x'') (sr_error r') = None"
    unfolding blur_def faultless_def by (metis (no_types, lifting) option.map_disc_iff session_result.select_convs(17) session_result.surjective session_result.update_convs(17))
  then have "sr_error r' = None" by simp
  with eq f show ?thesis by (cases r; cases r') (simp add: blur_def faultless_def)
qed

lemma chunks_sorted:
  assumes "sorted (map f (concat parts))" "c \<in> set parts"
  shows "sorted (map f c)"
  using assms by (induction parts) (auto simp: sorted_append)

lemma plain_pairs_sorted:
  "sorted (map entry_order entries) \<Longrightarrow> sorted (map (\<lambda>(e, _). entry_order e) (plain_pairs env session since user entries))"
  by (simp add: plain_pairs_def comp_def sorted_filter)

lemma length_plain_pairs: "length (plain_pairs env session since user entries) = length (filter (is_entry_importable since) entries)"
  by (simp add: plain_pairs_def)

lemma erase_start [simp]: "erase (start_result session a) = erase (start_result session b)"
  by (simp add: erase_def start_result_def)

definition after_sending ::
  "import_env \<Rightarrow> 'w import_client \<Rightarrow> canonical_session \<Rightarrow> int \<Rightarrow> (bool \<times> session_result) \<times> 'w \<Rightarrow> session_result \<times> 'w" where
  "after_sending env c session user x =
     (case x of ((ok, r), w) \<Rightarrow> if ok then finalize_thread_group_observations env c session user r w else (r, w))"

text \<open>The streaming import as sending greedily packed chunks.\<close>

lemma run_stream_sends:
  assumes "ss_source session \<noteq> ''opencode''" "list_all (\<lambda>e. \<not> has_attachment e) entries" "faultless (fs_result st)"
    and "run_stream env c sink session (map Stream_Entry entries) since user labels limits [] st w = (r, w')"
  shows "(erase r, w') = after_sending env c session user (stream_send env c sink session user labels
      (greedy_chunks limits (pair_width (im_encoded_len env)) [] (plain_pairs env session since user entries)) (erase_state st) w)"
proof -
  let ?ctx = "\<lparr>ax_already = [], ax_queried = []\<rparr>"
  obtain x w1 where loop: "stream_loop env c sink session since user labels (map Stream_Entry entries) ?ctx
      (new_builder limits) st w = (x, w1)" by (metis prod.exhaust)
  have sends: "send_rest env c sink session user labels (x, w1) = stream_send env c sink session user labels
      (greedy_chunks limits (pair_width (im_encoded_len env)) [] (plain_pairs env session since user entries)) (erase_state st) w"
    using stream_loop_sends [OF assms(1,2) builder_new, of env c sink user labels since ?ctx limits st w] loop by simp
  note counts = stream_loop_counts [OF loop assms(3) builder_pairing(3)]
  show ?thesis
  proof (cases x)
    case (Inl r')
    with assms(4) loop show ?thesis unfolding sends [symmetric] by (simp add: run_stream_def send_rest_def after_sending_def)
  next
    case (Inr y)
    obtain b st1 where y: "y = (b, st1)" by (cases y)
    with Inr counts have paired: "builder_paired b" by simp
    then have empty: "cb_inputs b = [] \<longleftrightarrow> fst (take_chunk b) = []"
      by (cases "cb_inputs b"; cases "cb_entries b") (simp_all add: take_chunk_def builder_paired_def)
    from assms(4) loop Inr y have run: "finish_stream env c sink session user labels [] b st1 w1 = (r, w')"
      by (simp add: run_stream_def)
    show ?thesis
    proof (cases "cb_inputs b = []")
      case True
      have "finalize_thread_group_observations env c session user (fs_result st1) w1 = (r, w')"
        using run True assms(1) by (auto simp: finish_stream_def finish_duplicates_only_def Let_def split: prod.splits option.splits if_splits)
      with True empty Inr y show ?thesis unfolding sends [symmetric]
        by (simp add: send_rest_def after_sending_def finalize_erase)
    next
      case False
      obtain z st2 w2 where fl: "flush_chunk env c sink session user labels True (fst (take_chunk b)) st1 w1 = ((z, st2), w2)"
        by (metis prod.exhaust)
      show ?thesis
      proof (cases z)
        case (Inl e)
        with run False fl empty \<open>x = Inr y\<close> y show ?thesis unfolding sends [symmetric]
          by (simp add: finish_stream_def send_rest_def after_sending_def flush_chunk_erase erase_update)
      next
        case z: (Inr u)
        have "(if sr_skip (fs_result st2) \<noteq> None then (fs_result st2, w2)
            else finalize_thread_group_observations env c session user (fs_result st2) w2) = (r, w')"
          using run False fl z assms(1) by (auto simp: finish_stream_def Let_def split: prod.splits option.splits if_splits)
        with False fl z empty \<open>x = Inr y\<close> y show ?thesis unfolding sends [symmetric]
          by (auto simp: send_rest_def after_sending_def flush_chunk_erase finalize_erase split: if_splits)
      qed
    qed
  qed
qed

lemma run_list_sends:
  assumes "list_all (\<lambda>e. \<not> has_attachment e) entries" "sorted (map entry_order entries)" "im_media_order env [] = []"
    and parts: "parts = greedy_chunks default_limits (pair_width (im_encoded_len env)) [] (plain_pairs env session since user entries)"
  shows "run_import_with_event_sink env c sink session entries filtered since user extra w =
    after_sending env c session user (send_chunks env c sink session user (build_labels session extra) (length parts) 1 parts
      \<lparr>fs_thread = None, fs_result = start_result session (filtered + (length entries - length (filter (is_entry_importable since) entries)))\<rparr> w)"
proof -
  have order: "sort_entries entries = entries" using assms(2) by (simp add: sort_entries_def sort_key_id_if_sorted)
  let ?importable = "map (namespace_entry_external_ids (im_sha env) (ss_source session) user) (filter (is_entry_importable since) entries)"
  have plain: "filter has_attachment ?importable = []"
    using assms(1) by (auto simp: filter_empty_conv list_all_iff)
  then have "media_jobs env source [] ?importable = []" for source
    by (auto simp: media_jobs_def filter_empty_conv has_attachment_def List.map_filter_def)
  then have media: "resolve_media_objects env c ?importable [] source w = (((\<lambda>_. None), 0, 0), w)" for source
    by (simp add: resolve_media_objects_def assms(3))
  have start: "(start_result session n)\<lparr>sr_media_linked := 0, sr_media_failures := 0\<rparr> = start_result session n" for n
    by (simp add: start_result_def)
  have cut: "map (range_of pairs) (split_chunks (map (\<lambda>p. im_encoded_len env (snd p)) pairs))
      = greedy_chunks default_limits (pair_width (im_encoded_len env)) [] pairs" for pairs :: "(canonical_entry \<times> batch_item) list"
    using split_chunks_greedy [of pairs "pair_width (im_encoded_len env)"] by (simp add: pair_width_def [abs_def])
  show ?thesis
  proof (cases "filter (is_entry_importable since) entries = []")
    case True
    then have "parts = []" by (simp add: parts plain_pairs_def)
    with True order show ?thesis
      by (simp add: run_import_with_event_sink_def Let_def after_sending_def finalize_thread_group_observations_def
          start_result_def split: option.split)
  next
    case False
    have "run_import_with_event_sink env c sink session entries filtered since user extra w =
      (let ((finished, r2), w3) = send_chunks env c sink session user (build_labels session extra) (length parts) 1 parts
      \<lparr>fs_thread = None, fs_result = start_result session (filtered + (length entries - length (filter (is_entry_importable since) entries)))\<rparr> w
       in if finished then finalize_thread_group_observations env c session user r2 w3 else (r2, w3))"
      by (simp only: run_import_with_event_sink_def Let_def order plain media prod.case start cut parts plain_pairs_def False
          simp_thms if_True if_False)
    then show ?thesis by (simp add: after_sending_def Let_def split: prod.split)
  qed
qed

text \<open>
  C13. For a source other than OpenCode, a session without attachments whose entries are in order is
  imported by the streaming loop exactly as by the loop over the complete list: the same calls with
  the same arguments in the same order, so the same state of the server, and the same result, up to
  the text of an error and, when the import does not complete, the number of filtered entries.
\<close>

theorem stream_matches_list:
  assumes "ss_source session \<noteq> ''opencode''" "list_all (\<lambda>e. \<not> has_attachment e) entries"
    and "sorted (map entry_order entries)" "im_media_order env [] = []"
    and "run_import_streaming_with_event_sink env c sink session (map Stream_Entry entries) filtered since user extra
           default_limits snapshot w = (r, w1)"
    and "run_import_with_event_sink env c sink session entries filtered since user extra w = (r', w2)"
  shows "w1 = w2 \<and> blur (erase r) = blur (erase r') \<and> (sr_error r = None \<and> sr_skip r = None \<longrightarrow> r = r')"
proof -
  let ?labels = "build_labels session extra"
  let ?pairs = "plain_pairs env session since user entries"
  let ?parts = "greedy_chunks default_limits (pair_width (im_encoded_len env)) [] ?pairs"
  let ?kept = "filter (is_entry_importable since) entries"
  let ?start = "\<lambda>n. \<lparr>fs_thread = None, fs_result = start_result session n\<rparr>"
  let ?n = "filtered + (length entries - length ?kept)"
  have start: "erase_state (?start filtered) = erase_state (?start ?n)"
    by (simp add: erase_state_def)
  have concat: "concat ?parts = ?pairs" using greedy_concat [of default_limits _ "[]"] by simp
  have order: "list_all (\<lambda>chunk. sorted (map (\<lambda>(e, _). entry_order e) chunk)) ?parts"
    unfolding list_all_iff using chunks_sorted [of "\<lambda>(e, _). entry_order e" ?parts] plain_pairs_sorted [OF assms(3)] concat by simp
  obtain ok rs ws where send: "stream_send env c sink session user ?labels ?parts (?start ?n) w = ((ok, rs), ws)"
    by (metis prod.exhaust)
  obtain ok' rl wl where list: "send_chunks env c sink session user ?labels (length ?parts) 1 ?parts (?start ?n) w = ((ok', rl), wl)"
    by (metis prod.exhaust)
  have "blurred ((ok', rl), wl) = blurred ((ok, rs), ws)"
    using send_chunks_streams [OF assms(1) _ _ order, where st = "?start ?n" and idx = 1
      and chunk_count = "length ?parts" and env = env and c = c and sink = sink and user = user and labels = ?labels and w = w]
    unfolding send list by simp
  then have same: "ok' = ok" "wl = ws" "blur rl = blur rs" by (simp_all add: blurred_def)
  have counts: "if ok then faultless rs \<and> accounted rs = ?n + length ?pairs else \<not> faultless rs"
    using stream_send_counts [OF send] concat by simp
  have "run_stream env c sink session (map Stream_Entry entries) since user ?labels default_limits [] (?start filtered) w = (r, w1)"
    using assms(5) assms(1) by (simp add: run_import_streaming_with_event_sink_def Let_def)
  from run_stream_sends [OF assms(1,2) _ this] have stream: "(erase r, w1) = after_sending env c session user ((ok, erase rs), ws)"
    unfolding start stream_send_erase send by simp
  have total: "(r', w2) = after_sending env c session user ((ok, rl), ws)"
    using run_list_sends [OF assms(2-4) refl, of c sink session filtered since user extra w] assms(6) list same by simp
  show ?thesis
  proof (cases ok)
    case False
    with stream total have eq: "erase r = erase rs" "w1 = ws" "r' = rl" "w2 = ws" by (simp_all add: after_sending_def)
    have "blur (erase x) = erase (blur x)" for x by (simp add: blur_def erase_def)
    with eq(1) same(3) have "blur (erase r) = blur (erase rl)" by simp
    moreover from eq(1) have "faultless r = faultless rs" using erase_select(10) by metis
    ultimately show ?thesis using eq(2-4) False counts by (auto simp: faultless_def)
  next
    case True
    with counts have rs: "faultless rs" by simp
    with blur_faultless [OF same(3) [symmetric]] have "rl = rs" by simp
    with True total have fin: "finalize_thread_group_observations env c session user rs ws = (r', w2)"
      by (simp add: after_sending_def)
    with True stream have eq: "erase r = erase r'" "w1 = w2"
      by (simp_all add: after_sending_def finalize_erase)
    moreover have "r = r'" if "sr_error r = None \<and> sr_skip r = None"
    proof -
      have "accounted r' = filtered + length entries"
        using finalize_counts [OF fin] counts True length_filter_le [of "is_entry_importable since" entries]
        by (simp add: length_plain_pairs)
      moreover have "accounted r = filtered + length entries"
        using stream_import_counts [OF assms(5)] that assms(1) by (simp add: faultless_def offered_def)
      ultimately show ?thesis using eq(1) by (cases r; cases r') (simp add: erase_def accounted_def)
    qed
    ultimately show ?thesis by auto
  qed
qed

subsection \<open>A concrete run\<close>

text \<open>
  An instance of the parameters for the witnesses: a server that stores every memory and answers
  with consecutive ids, and an environment with trivial encodings.
\<close>

definition sample_env :: import_env where
  "sample_env = \<lparr>im_json_text = (\<lambda>_. ''{}''), im_encoded_len = (\<lambda>_. 3), im_sha = (\<lambda>s. s), im_decode = Inr,
     im_http_url = (\<lambda>_. True), im_rewire_order = rev, im_media_order = rev, im_group_writes = True\<rparr>"

definition sample_outcomes :: "int \<Rightarrow> batch_item list \<Rightarrow> outcome_message list" where
  "sample_outcomes next_id items =
     map (\<lambda>(i, _). \<lparr>om_id = Some i, om_created = True, om_position = i, om_parents_empty = True, om_parents = []\<rparr>)
       (zip (map (\<lambda>k. next_id + int k) [0..<length items]) items)"

definition sample_client :: "int import_client" where
  "sample_client = \<lparr>ic_group_owner = (\<lambda>u. u),
     ic_add_batch = (\<lambda>rq w. (Inr \<lparr>rs_thread = Some 7, rs_created = (w = 0), rs_outcomes = sample_outcomes w (rq_memories rq),
       rs_suppressed = False\<rparr>, w + int (length (rq_memories rq)))),
     ic_add_labels = (\<lambda>_ _ w. (Inr (), w)), ic_upload = (\<lambda>_ _ w. (Inr w, w + 1)), ic_register = (\<lambda>_ _ w. (Inr w, w + 1)),
     ic_update_parents = (\<lambda>_ w. (Inr False, w)), ic_find_external = (\<lambda>_ w. (Inr None, w)),
     ic_find_thread = (\<lambda>_ _ w. (Inr None, w)), ic_record = (\<lambda>_ w. (Inr (), w))\<rparr>"

definition sample_session :: canonical_session where
  "sample_session = \<lparr>ss_source = ''plain'', ss_id = ''s'', ss_channel = ''c'', ss_description = None, ss_labels = [''l''],
     ss_metadata = Json_Null, ss_thread_metadata = None, ss_identity = None, ss_observations = []\<rparr>"

definition sample_entry :: "string \<Rightarrow> int \<Rightarrow> canonical_entry" where
  "sample_entry e order = \<lparr>en_external = e, en_parents = [], en_role = 1, en_content_type = 1, en_content = e,
     en_metadata = [], en_timestamp = order, en_order = order, en_kind_tag = ''m'',
     en_canonical = \<lparr>ad_tool = None, ad_attachment = None, ad_raw = None\<rparr>\<rparr>"

definition sample_items :: "stream_item list" where
  "sample_items = [Stream_Entry (sample_entry ''a'' 1), Stream_Filtered, Stream_Entry (sample_entry ''b'' 2),
     Stream_Entry (sample_entry ''d'' 0), Stream_Warn ''w'', Stream_Entry (sample_entry ''f'' 3)]"

definition sample_run :: "session_result \<times> int" where
  "sample_run = run_import_streaming_with_event_sink sample_env sample_client None sample_session sample_items 4 (Some 1) 5 []
     \<lparr>max_entries = 2, max_chunk_bytes = 100\<rparr> (\<lambda>_. None) 0"

lemma sample_run_clean: "sr_error (fst sample_run) = None \<and> sr_skip (fst sample_run) = None \<and> sr_imported (fst sample_run) = 3"
  by code_simp

theorem stream_import_accounts_witness:
  "3 + sr_duplicate (fst sample_run) + sr_filtered (fst sample_run) = 4 + offered sample_session sample_items"
proof -
  have "run_import_streaming_with_event_sink sample_env sample_client None sample_session sample_items 4 (Some 1) 5 []
     \<lparr>max_entries = 2, max_chunk_bytes = 100\<rparr> (\<lambda>_. None) 0 = (fst sample_run, snd sample_run)"
    by (simp add: sample_run_def)
  from stream_import_accounts [OF this] sample_run_clean show ?thesis by simp
qed

definition sample_list :: "canonical_entry list" where
  "sample_list = [sample_entry ''d'' 0, sample_entry ''a'' 1, sample_entry ''b'' 2]"

definition sample_streamed :: "session_result \<times> int" where
  "sample_streamed = run_import_streaming_with_event_sink sample_env sample_client None sample_session (map Stream_Entry sample_list)
     0 (Some 1) 5 [] default_limits (\<lambda>_. None) 0"

definition sample_listed :: "session_result \<times> int" where
  "sample_listed = run_import_with_event_sink sample_env sample_client None sample_session sample_list 0 (Some 1) 5 [] 0"

theorem stream_matches_list_witness:
  "snd sample_streamed = snd sample_listed \<and> blur (erase (fst sample_streamed)) = blur (erase (fst sample_listed))"
proof -
  have "ss_source sample_session \<noteq> ''opencode''" "list_all (\<lambda>e. \<not> has_attachment e) sample_list"
    "sorted (map entry_order sample_list)" "im_media_order sample_env [] = []"
    by (simp_all add: sample_session_def sample_list_def sample_entry_def has_attachment_def entry_order_def sample_env_def)
  from stream_matches_list [OF this, where c = sample_client and sink = None and filtered = 0 and since = "Some 1" and user = 5
      and extra = "[]" and snapshot = "\<lambda>_. None" and w = 0]
  show ?thesis by (metis prod.collapse sample_streamed_def sample_listed_def)
qed

end
