(* ===== verification/Whole_System.thy ===== *)
theory Whole_System
  imports Group_System Content_System
begin

text \<open>
  The operations on groups, evidence and operator decisions leave the threads and the memories
  alone. With this the step relations of the group operations and of the content
  operations become one, over the tables of the whole store.
\<close>

subsection \<open>The frame\<close>

definition content_kept :: "'a operator_db_scheme \<Rightarrow> 'a operator_db_scheme \<Rightarrow> bool" where
  "content_kept db db' \<longleftrightarrow> operator_db.more db' = operator_db.more db"

named_theorems content_frame \<open>operations that leave the content alone\<close>

lemma content_kept_refl [simp]: "content_kept db db"
  by (simp add: content_kept_def)

lemma content_kept_trans [trans]: "content_kept a b \<Longrightarrow> content_kept b c \<Longrightarrow> content_kept a c"
  by (simp add: content_kept_def)

lemma same_evidence_kept [content_frame]: "same_evidence db db' \<Longrightarrow> content_kept db db'"
proof -
  assume e: "same_evidence db db'"
  have "evidence_db.more db' = evidence_db.more db" by (rule same_evidenceD [OF e])
  then have "operator_db.more db' = operator_db.more db" by (cases db; cases db') simp
  then show ?thesis by (simp add: content_kept_def)
qed

lemma content_kept_updates [simp]:
  "content_kept db (db\<lparr>db_drawn := n, db_observations := x1\<rparr>)"
  "content_kept db (db\<lparr>db_drawn := n, db_associations := x2\<rparr>)"
  "content_kept db (db\<lparr>db_associations := x2\<rparr>)"
  "content_kept db (db\<lparr>db_keys := x3\<rparr>)"
  "content_kept db (db\<lparr>db_identities := x7\<rparr>)"
  "content_kept db (db\<lparr>db_outbox := x4\<rparr>)"
  "content_kept db (db\<lparr>db_drawn := n, db_decisions := x5\<rparr>)"
  "content_kept db (db\<lparr>db_drawn := n, db_audits := x6\<rparr>)"
  "content_kept db (db\<lparr>db_audits := x6\<rparr>)"
  by (cases db; simp add: content_kept_def)+

subsection \<open>Evidence\<close>

lemma insert_observation_kept [content_frame]: "insert_observation env r db = Inr (i, db') \<Longrightarrow> content_kept db db'"
  by (auto simp: insert_observation_def Let_def split: if_splits)

lemma insert_association_kept [content_frame]: "insert_association env r db = Inr (i, db') \<Longrightarrow> content_kept db db'"
  by (auto simp: insert_association_def Let_def split: if_splits)

lemma update_associations_kept [simp]: "content_kept db (snd (update_associations i s f db))"
  by (simp add: update_associations_def Let_def)

lemma update_candidates_kept [simp]:
  "content_kept db (snd (update_selection env i s s' ob now db))"
  "content_kept db (snd (update_candidate_state env i s s' p now db))"
  by (simp_all add: update_selection_def update_candidate_state_def)

lemma append_event_kept [content_frame]: "append_event env ev db = Inr (b, db') \<Longrightarrow> content_kept db db'"
  by (auto simp: append_event_def split: if_splits)

lemma insert_decision_kept [content_frame]: "insert_decision env r db = Inr (i, db') \<Longrightarrow> content_kept db db'"
  by (auto simp: insert_decision_def Let_def split: if_splits)

lemma assign_key_kept [content_frame]: "assign_key env t u k origin now db = Inr db' \<Longrightarrow> content_kept db db'"
  by (auto simp: assign_key_def split: if_splits)

lemma record_observation_kept [content_frame]:
  "record_observation_and_event env input state ev t op now db = Inr (r, db') \<Longrightarrow> content_kept db db'"
  by (auto simp: record_observation_and_event_def Let_def elim!: and_then_InrE dest!: content_frame
      intro: content_kept_trans split: option.splits)

lemma refresh_candidates_kept [simp]: "content_kept db (refresh_candidates env rows state p now db)"
proof (induction rows arbitrary: db)
  case (Cons a rows)
  have "content_kept db (refresh_candidates env rows state p now (snd (update_candidate_state env i s s' p now db)))" for i s s'
    by (rule content_kept_trans [OF update_candidates_kept(2) Cons.IH])
  with Cons.IH show ?case by simp
qed simp

lemma record_candidate_kept [content_frame]:
  "record_candidate env t subject p state ob now db = Inr db' \<Longrightarrow> content_kept db db'"
  by (auto simp: record_candidate_def Let_def elim!: and_then_InrE dest!: content_frame split: if_splits)

lemma append_relation_event_kept [content_frame]:
  "append_relation_event env c k op now payload db = Inr db' \<Longrightarrow> content_kept db db'"
  by (auto simp: append_relation_event_def Let_def elim!: and_then_InrE dest!: content_frame)

lemma derived_conflict_kept [content_frame]:
  "record_derived_conflict env subject reason now db = Inr db' \<Longrightarrow> content_kept db db'"
  by (auto simp: record_derived_conflict_def Let_def elim!: and_then_InrE dest!: content_frame split: if_splits)

lemma set_relation_state_kept [simp]: "content_kept db (snd (set_relation_state env i e n now db))"
  by (rule same_evidence_kept) simp

lemma retract_kept [simp]: "content_kept db (retract_active_relation env k now db)"
  by (simp add: retract_active_relation_def split: option.split)

lemma apply_relation_kept [content_frame]:
  "apply_selected_relation env t k subject parent winner ob op now owner db = Inr (r, db') \<Longrightarrow> content_kept db db'"
proof -
  assume run: "apply_selected_relation env t k subject parent winner ob op now owner db = Inr (r, db')"
  show ?thesis
  proof (cases "find_active_parent k db")
    case None
    with run show ?thesis
      by (auto simp: apply_selected_relation_def Let_def elim!: and_then_InrE
          dest!: content_frame same_evidence_kept [OF insert_relation_evidence] same_evidence_kept [OF ensure_membership_evidence]
          intro: content_kept_trans)
  next
    case (Some existing)
    have "content_kept db db'" if "content_kept (snd (set_relation_state env (rl_id existing) RelationActive RelationRetracted now db)) db'"
      by (rule content_kept_trans [OF set_relation_state_kept that])
    with run Some show ?thesis
      by (auto simp: apply_selected_relation_def Let_def elim!: and_then_InrE
          dest!: content_frame same_evidence_kept [OF ensure_membership_evidence] intro: content_kept_trans split: if_splits)
  qed
qed

lemma promote_pending_kept [content_frame]:
  "promote_pending env as ob p now db = Inr db' \<Longrightarrow> content_kept db db'"
proof (induction as arbitrary: db)
  case (Cons a as)
  show ?case
  proof (cases "as_state a = StatePending \<and> as_observation a = Some ob")
    case True
    with Cons.prems have "promote_pending env as ob p now
        (snd (update_candidate_state env (as_id a) StatePending StateCandidate (Some p) now db)) = Inr db'"
      by (auto simp: case_prod_beta split: if_splits)
    from Cons.IH [OF this] show ?thesis by (rule content_kept_trans [OF update_candidates_kept(2)])
  qed (use Cons in auto)
qed simp

lemma resolve_pending_kept [content_frame]:
  "resolve_pending_for_selected_observation env subject k ob now db = Inr db' \<Longrightarrow> content_kept db db'"
  by (auto simp: resolve_pending_for_selected_observation_def dest!: content_frame split: option.splits if_splits)

lemma gather_candidates_kept [content_frame]:
  "gather_candidates env t subject now inputs db = Inr (r, db') \<Longrightarrow> content_kept db db'"
proof (induction env t subject now inputs db arbitrary: r db' rule: gather_candidates.induct)
  case (2 env t subject now input i rest db)
  show ?case
  proof (cases "oi_parent input")
    case None
    with 2 show ?thesis by simp
  next
    case (Some parent)
    show ?thesis
    proof (cases "promotable_source_candidate (oi_confidence input) (oi_relation_kind input) (oi_polarity input)")
      case None
      with 2 Some show ?thesis by simp
    next
      case (Some c)
      obtain conf kind where c: "c = (conf, kind)" by (cases c)
      note IH = "2.IH"(3,4) [OF \<open>oi_parent input = Some parent\<close> Some [unfolded c] refl]
      show ?thesis
      proof (cases "adoptable_parent parent db")
        case (Inl pt)
        with "2.prems" \<open>oi_parent input = Some parent\<close> Some c obtain db1 x db2 where
          "record_candidate env t subject pt StatePending i now db = Inr db1"
          "gather_candidates env t subject now rest db1 = Inr (x, db2)" "db' = db2"
          by (auto elim!: and_then_InrE)
        with IH(1) [OF Inl] show ?thesis by (cases x) (auto dest!: content_frame intro: content_kept_trans)
      next
        case (Inr key)
        with "2.prems" \<open>oi_parent input = Some parent\<close> Some c obtain x where
          "gather_candidates env t subject now rest db = Inr (x, db')"
          by (auto elim!: and_then_InrE)
        with IH(2) [OF Inr] show ?thesis by (cases x) blast
      qed
    qed
  qed
qed simp

lemma record_observations_kept [content_frame]:
  "record_observations env t op now inputs db = Inr (ids, db') \<Longrightarrow> content_kept db db'"
proof (induction inputs arbitrary: db ids)
  case (Cons input rest)
  then obtain r db1 ids' where "record_observation_and_event env input (observation_state_of (oi_confidence input)) ''candidate''
      (Some t) op now db = Inr (r, db1)" "record_observations env t op now rest db1 = Inr (ids', db')"
    by (auto elim!: and_then_InrE)
  with Cons.IH show ?case by (blast dest: record_observation_kept intro: content_kept_trans)
qed simp

lemma record_conflicts_kept [content_frame]:
  "record_conflicts env t subject now cands winners db = Inr db' \<Longrightarrow> content_kept db db'"
proof (induction winners arbitrary: db)
  case (Cons w ws)
  show ?case
  proof (cases "candidate_of w cands")
    case (Some x)
    obtain c p i where x: "x = (c, p, i)" by (cases x)
    from Cons.prems Some x obtain db1 where "record_candidate env t subject (resolved_thread p db) StateConflict i now db = Inr db1"
      "record_conflicts env t subject now cands ws db1 = Inr db'" by (auto elim!: and_then_InrE)
    with Cons.IH show ?thesis by (blast dest: record_candidate_kept intro: content_kept_trans)
  qed (use Cons in simp)
qed simp

lemma record_each_kept [content_frame]:
  "record_each env t subject state now cands db = Inr db' \<Longrightarrow> content_kept db db'"
proof (induction cands arbitrary: db)
  case (Cons x xs)
  obtain c p i where x: "x = (c, p, i)" by (cases x)
  from Cons.prems x obtain db1 where "record_candidate env t subject (resolved_thread p db) state i now db = Inr db1"
    "record_each env t subject state now xs db1 = Inr db'" by (auto elim!: and_then_InrE)
  with Cons.IH show ?case by (blast dest: record_candidate_kept intro: content_kept_trans)
qed simp

subsection \<open>Reconciliation\<close>

lemma ensure_singleton_kept: "ensure_singleton env t k subject owner now db = Inr (i, db') \<Longrightarrow> content_kept db db'"
  by (rule same_evidence_kept) (rule ensure_singleton_evidence)

lemma settle_selection_kept [content_frame]:
  assumes "settle_selection env t k subject cands op now owner db = Inr (r, db')"
  shows "content_kept db db'"
proof (cases "select_parent_candidate (map fst cands)")
  case NoSelection
  with assms show ?thesis by (simp add: settle_selection_def)
next
  case (Conflict winners)
  have "content_kept db db'" if "content_kept (retract_active_relation env k now db) db'"
    by (rule content_kept_trans [OF retract_kept that])
  with assms Conflict show ?thesis
    by (auto simp: settle_selection_def elim!: and_then_InrE dest!: content_frame intro: content_kept_trans)
next
  case (Selected w)
  with assms show ?thesis
    by (auto simp: settle_selection_def elim!: and_then_InrE dest!: content_frame intro: content_kept_trans
        split: if_splits option.splits)
qed

lemma settle_pending_kept [content_frame]:
  assumes "settle_pending env t k subject associations cands op now db = Inr db'"
  shows "content_kept db db'"
proof (cases "select_parent_candidate (map fst cands)")
  case NoSelection
  with assms show ?thesis by (simp add: settle_pending_def)
next
  case (Conflict winners)
  have "content_kept db db'" if "content_kept (retract_active_relation env k now db) db'"
    by (rule content_kept_trans [OF retract_kept that])
  with assms Conflict show ?thesis
    by (auto simp: settle_pending_def elim!: and_then_InrE dest!: content_frame intro: content_kept_trans)
next
  case (Selected w)
  with assms show ?thesis
    by (auto simp: settle_pending_def Let_def elim!: and_then_InrE dest!: content_frame intro: content_kept_trans
        split: if_splits option.splits) (blast intro: content_kept_trans)+
qed

lemma reconcile_pending_kept [content_frame]:
  "reconcile_pending_observation env i op now db = Inr db' \<Longrightarrow> content_kept db db'"
  by (auto simp: reconcile_pending_observation_def Let_def elim!: and_then_InrE dest!: content_frame
      split: option.splits if_splits)

lemma reconcile_late_kept: "content_kept db (snd (reconcile_late env late op now db))"
proof (induction late arbitrary: db)
  case (Cons i late)
  show ?case
  proof (cases "reconcile_pending_observation env i op now db")
    case (Inr db')
    with reconcile_pending_kept [OF Inr] Cons.IH [of db'] show ?thesis by (auto intro: content_kept_trans)
  qed simp
qed simp

lemma upsert_resolved_kept [simp]: "content_kept db (upsert_resolved k t now db)"
  by (simp add: upsert_resolved_def)

lemma subject_key_kept [content_frame]:
  "subject_canonical_key env t subject now db = Inr (k, db') \<Longrightarrow> content_kept db db'"
  by (auto simp: subject_canonical_key_def elim!: and_then_InrE dest!: content_frame intro: content_kept_trans [OF _ upsert_resolved_kept]
      split: option.splits)

lemma reconcile_tx_kept [content_frame]:
  "reconcile_tx env owner_of t subject inputs op now owner guard db = Inr (x, db') \<Longrightarrow> content_kept db db'"
  by (auto simp: reconcile_tx_def elim!: and_then_InrE dest!: content_frame ensure_singleton_kept intro: content_kept_trans
      split: option.splits if_splits) (blast intro: content_kept_trans)+

lemma reconcile_inner_kept:
  "content_kept db (snd (reconcile_subject_inner env enabled owner_of t subject inputs op now owner guard db))"
proof (cases "enabled \<and> \<not> isl (reconcile_tx env owner_of t subject inputs op now owner guard db)")
  case True
  then obtain result late db1 where run: "reconcile_tx env owner_of t subject inputs op now owner guard db = Inr ((result, late), db1)"
    by (cases "reconcile_tx env owner_of t subject inputs op now owner guard db") auto
  from reconcile_tx_kept [OF run] reconcile_late_kept [of db1 env late op now] have "content_kept db (snd (reconcile_late env late op now db1))"
    by (rule content_kept_trans)
  with True run show ?thesis by (auto simp: reconcile_subject_inner_def split: prod.split option.split)
next
  case False
  then show ?thesis
    by (cases "reconcile_tx env owner_of t subject inputs op now owner guard db") (auto simp: reconcile_subject_inner_def)
qed

subsection \<open>Decisions and operator commands\<close>

lemma decide_new_kept:
  assumes "decide_new env owner_of c decision actor reason now db = Inr (out, db')"
  shows "content_kept db db'"
proof (rule decide_new_steps [OF assms])
  fix db1 db2
  assume insert: "insert_decision env (decision_input c decision actor reason now db) db = Inr (do_decision out, db1)"
    and applied: "apply_decision env owner_of c (candidate_subject c db) (operator_group_owner decision (candidate_subject c db) db)
       decision (do_decision out) now db1 = Inr ((do_relation out, do_state out), db2)"
    and db': "db' = snd (update_selection env (as_id c) (as_state c) (do_state out) (as_observation c) now db2)"
  have "content_kept db db1" by (rule insert_decision_kept [OF insert])
  moreover have "content_kept db1 db2" by (rule same_evidence_kept [OF apply_decision_evidence [OF applied]])
  moreover have "content_kept db2 db'" unfolding db' by (rule update_candidates_kept(1))
  ultimately show ?thesis by (blast intro: content_kept_trans)
qed

lemma operator_decision_kept [content_frame]:
  assumes "record_operator_decision env enabled owner_of a decision actor reason now db = Inr (out, db')"
  shows "content_kept db db'"
  by (rule record_operator_decision_Inr [OF assms]) (use decide_new_kept in \<open>auto split: if_splits\<close>)

lemma ensure_key_kept [content_frame]:
  "ensure_thread_canonical_key env enabled t user fresh now db = Inr (k, db') \<Longrightarrow> content_kept db db'"
  by (auto simp: ensure_thread_canonical_key_def elim!: and_then_InrE dest: content_frame split: option.splits if_splits)

lemma update_groups_kept [content_frame]: "update_groups p f db = Inr (b, db') \<Longrightarrow> content_kept db db'"
  by (rule same_evidence_kept) (rule update_groups_evidence)

lemma insert_member_kept [content_frame]: "insert_member env r db = Inr db' \<Longrightarrow> content_kept db db'"
  by (rule same_evidence_kept) (rule insert_member_evidence)

lemma create_group_kept [content_frame]: "create_group env r db = Inr (i, db') \<Longrightarrow> content_kept db db'"
  by (rule same_evidence_kept) (rule create_group_evidence)

lemma group_commands_kept [content_frame]:
  "set_grouping_authority env i p now db = Inr (b, db') \<Longrightarrow> content_kept db db'"
  "mark_split env i now db = Inr (b, db') \<Longrightarrow> content_kept db db'"
  "redirect_group env i j now db = Inr (b, db') \<Longrightarrow> content_kept db db'"
  "repoint_redirect env i j now db = Inr (b, db') \<Longrightarrow> content_kept db db'"
  by (auto simp: set_grouping_authority_def mark_split_def redirect_group_def repoint_redirect_def dest: content_frame
      split: if_splits)

lemma append_audit_kept [content_frame]: "append_audit env i actor reason d now db = Inr (j, db') \<Longrightarrow> content_kept db db'"
  by (auto simp: append_audit_def Let_def split: if_splits)

lemma insert_members_kept [content_frame]: "insert_members env rs db = Inr db' \<Longrightarrow> content_kept db db'"
  by (induction rs arbitrary: db) (auto elim!: and_then_InrE dest!: content_frame intro: content_kept_trans)

lemma redirect_all_kept [simp]: "content_kept db (redirect_all env ks i now db)"
proof (induction ks arbitrary: db)
  case (Cons k ks)
  have "content_kept db (snd (redirect_current env k i now db))" by (rule same_evidence_kept) simp
  from content_kept_trans [OF this Cons.IH] show ?case by simp
qed simp

lemma set_provenance_all_kept [simp]: "content_kept db (set_provenance_all env ms now db)"
proof (induction ms arbitrary: db)
  case (Cons m ms)
  have "content_kept db (snd (set_role_provenance env (mb_key m) (mb_role m) ByOperator now db))"
    by (rule same_evidence_kept) simp
  from content_kept_trans [OF this Cons.IH] show ?case by simp
qed simp

lemma repoint_each_kept [content_frame]: "repoint_each env is t now db = Inr db' \<Longrightarrow> content_kept db db'"
  by (induction "is" arbitrary: db) (auto elim!: and_then_InrE dest!: content_frame intro: content_kept_trans)

lemma insert_successor_members_kept [content_frame]:
  "insert_successor_members env rows i now ms db = Inr db' \<Longrightarrow> content_kept db db'"
  by (induction ms arbitrary: db) (auto elim!: and_then_InrE dest!: content_frame intro: content_kept_trans split: option.splits)

lemma create_successors_kept [content_frame]:
  "create_successors env rows source now gs db = Inr (is, db') \<Longrightarrow> content_kept db db'"
proof (induction gs arbitrary: db "is")
  case (Cons g gs)
  then obtain i db1 db2 is' where "create_group env (successor_row source g now) db = Inr (i, db1)"
    "insert_successor_members env rows i now (memberships g) db1 = Inr db2"
    "create_successors env rows source now gs db2 = Inr (is', db')" by (auto elim!: and_then_InrE)
  with Cons.IH show ?case by (blast dest: create_group_kept insert_successor_members_kept intro: content_kept_trans)
qed simp

lemma merge_tx_kept [content_frame]: "merge_tx env source target actor reason now db = Inr (n, db') \<Longrightarrow> content_kept db db'"
  unfolding merge_tx_def Let_def
  by (auto elim!: and_then_InrE dest!: content_frame)
    (meson content_kept_trans redirect_all_kept set_provenance_all_kept)

lemma merge_groups_kept [content_frame]:
  "merge_groups env enabled source target actor reason now db = Inr (out, db') \<Longrightarrow> content_kept db db'"
  by (auto simp: merge_groups_def elim!: and_then_InrE dest: content_frame split: option.splits if_splits)

lemma split_tx_kept [content_frame]: "split_tx env g parts actor reason now db = Inr (is, db') \<Longrightarrow> content_kept db db'"
  unfolding split_tx_def Let_def
  by (auto elim!: and_then_InrE dest!: content_frame intro: content_kept_trans [OF redirect_all_kept] content_kept_trans
      split: sum.splits)

lemma split_group_kept [content_frame]:
  "split_group_command env backend enabled source parts actor reason now db = Inr (is, db') \<Longrightarrow> content_kept db db'"
  by (auto simp: split_group_command_def dest: content_frame split: option.splits if_splits audit_detail.splits)

lemma attach_member_kept [content_frame]: "attach_member env enabled i t key endpoint now db = Inr db' \<Longrightarrow> content_kept db db'"
  by (auto simp: attach_member_def elim!: and_then_InrE dest!: content_frame intro: content_kept_trans split: option.splits if_splits)


subsection \<open>All operations as one step relation\<close>

lemma content_kept_same:
  fixes db db' :: "'a content_db_scheme"
  shows "content_kept db db' \<Longrightarrow> same_content db db'"
  by (cases db; cases db') (simp add: content_kept_def same_content_def)

text \<open>
  The rules of \<open>group_step\<close> over the tables of the whole store, beside the steps of the
  content.
\<close>

inductive system_step :: "content_db \<Rightarrow> content_db \<Rightarrow> bool" where
  content_changed: "content_step db db' \<Longrightarrow> system_step db db'"
| was_observed: "record_observation_and_event env input state event thread operation_id now db = Inr (out, db') \<Longrightarrow>
    system_step db db'"
| was_reconciled: "reconcile_tx env owner_of t subject inputs operation_id now owner guard db = Inr (result, db') \<Longrightarrow>
    system_step db db'"
| was_reconciled_late: "reconcile_pending_observation env i operation_id now db = Inr db' \<Longrightarrow> system_step db db'"
| was_decided: "record_operator_decision env enabled owner_of a decision actor reason now db = Inr (out, db') \<Longrightarrow>
    system_step db db'"
| was_keyed: "ensure_thread_canonical_key env enabled t user fresh now db = Inr (key, db') \<Longrightarrow> system_step db db'"
| was_merged: "merge_groups env enabled source target actor reason now db = Inr (merge_out, db') \<Longrightarrow> system_step db db'"
| was_split: "split_group_command env backend enabled source parts actor reason now db = Inr (ids, db') \<Longrightarrow>
    system_step db db'"
| was_attached: "attach_member env enabled i t key endpoint now db = Inr db' \<Longrightarrow> system_step db db'"

lemma kept_sound: "content_kept db db' \<Longrightarrow> (graph_ok db \<Longrightarrow> graph_ok db') \<Longrightarrow> sound db \<Longrightarrow> sound db'"
  for db db' :: content_db
  using store_ok_same [OF content_kept_same] by (auto simp: sound_def)

lemma system_step_sound: "system_step db db' \<Longrightarrow> sound db \<Longrightarrow> sound db'"
proof (induction rule: system_step.induct)
  case (content_changed db db')
  then show ?case by (rule content_step_sound)
next
  case (was_observed env input state event thread operation_id now db out db')
  then show ?case by (blast intro: kept_sound graph_ok_same record_observation_same record_observation_kept)
next
  case (was_reconciled env owner_of t subject inputs operation_id now owner guard db result db')
  obtain out late where "result = (out, late)" by (cases result)
  with was_reconciled show ?case by (blast intro: kept_sound reconcile_tx_ok reconcile_tx_kept)
next
  case (was_reconciled_late env i operation_id now db db')
  then show ?case by (blast intro: kept_sound reconcile_pending_ok reconcile_pending_kept)
next
  case (was_decided env enabled owner_of a decision actor reason now db out db')
  then show ?case by (blast intro: kept_sound record_operator_decision_ok operator_decision_kept)
next
  case (was_keyed env enabled t user fresh now db key db')
  then show ?case by (blast intro: kept_sound graph_ok_same ensure_key_same ensure_key_kept)
next
  case (was_merged env enabled source target actor reason now db merge_out db')
  then show ?case by (blast intro: kept_sound merge_groups_ok merge_groups_kept)
next
  case (was_split env backend enabled source parts actor reason now db ids db')
  then show ?case by (blast intro: kept_sound split_group_ok split_group_kept)
next
  case (was_attached env enabled i t key endpoint now db db')
  then show ?case by (blast intro: kept_sound attach_member_ok attach_member_kept)
qed

lemma reconcile_late_system_steps:
  "reachable P system_step db \<Longrightarrow> reachable P system_step (snd (reconcile_late env late operation_id now db))"
proof (induction late arbitrary: db)
  case (Cons i late)
  show ?case
  proof (cases "reconcile_pending_observation env i operation_id now db")
    case (Inr db')
    have "reachable P system_step db'"
      by (rule reachable.reach_step [OF Cons.prems system_step.was_reconciled_late [OF Inr]])
    from Cons.IH [OF this] Inr show ?thesis by simp
  qed (simp add: Cons.prems)
qed simp

lemma reconcile_inner_system_steps:
  assumes "reachable P system_step db"
  shows "reachable P system_step
    (snd (reconcile_subject_inner env enabled owner_of t subject inputs operation_id now owner guard db))"
proof (cases "reconcile_tx env owner_of t subject inputs operation_id now owner guard db")
  case (Inr x)
  obtain result late db1 where x: "x = ((result, late), db1)" by (metis surj_pair)
  have "reachable P system_step db1"
    by (rule reachable.reach_step [OF assms system_step.was_reconciled [OF Inr [unfolded x]]])
  from reconcile_late_system_steps [OF this, of env late operation_id now] assms Inr x show ?thesis
    by (auto simp: reconcile_subject_inner_def split: prod.split option.split)
qed (use assms in \<open>simp add: reconcile_subject_inner_def\<close>)

interpretation whole: invariant_system fresh_content system_step sound
  by unfold_locales (auto intro: fresh_sound system_step_sound)


text \<open>The import of a session, then the reconciliation of its thread.\<close>

definition reconciled_once :: content_db where
  "reconciled_once = snd (reconcile_subject_inner plain_env True (\<lambda>_. None) 100 (sample_endpoint ''s'') [] ''run 1'' 60 7 False imported_once)"


end
