(* ===== verification/Group_Purge.thy ===== *)
theory Group_Purge
  imports Whole_System
begin

text \<open>
  Purging the history of a group (\<open>app/src/app/thread_group/lifecycle.rs\<close>) and linking memories to
  groups (\<open>app/src/app/thread_group/memory_relation.rs\<close>). \<open>purge_preview\<close> lists what a purge
  would remove and why it would be refused, with a digest of the list; \<open>purge_group\<close> takes the
  digest back and removes the rows in one transaction. The JSON texts under the digest are an
  argument, the digest is that of the canonical keys. Whether the memory subsystem is wired is an
  argument too.
\<close>

subsection \<open>Links between groups and memories\<close>

definition list_group_memories :: "int \<Rightarrow> 'a content_db_scheme \<Rightarrow> group_memory_row list" where
  "list_group_memories g db = sort_key gm_memory (filter (\<lambda>r. gm_group r = g) (ct_group_memories db))"

definition list_memory_groups :: "int \<Rightarrow> 'a content_db_scheme \<Rightarrow> group_memory_row list" where
  "list_memory_groups m db = sort_key gm_group (filter (\<lambda>r. gm_memory r = m) (ct_group_memories db))"

definition delete_group_memories_of_group :: "int \<Rightarrow> 'a content_db_scheme \<Rightarrow> 'a content_db_scheme" where
  "delete_group_memories_of_group g db =
     db\<lparr>ct_group_memories := filter (\<lambda>r. gm_group r \<noteq> g) (ct_group_memories db)\<rparr>"

definition find_by_external_id :: "string \<Rightarrow> 'a content_db_scheme \<Rightarrow> memory_row option" where
  "find_by_external_id e db = find (\<lambda>m. mem_external m = Some e) (ct_memories db)"

abbreviation deletes :: "group_memory_row \<Rightarrow> bool" where
  "deletes r \<equiv> gm_policy r = ''delete''"

definition link_existing ::
  "content_env \<Rightarrow> int \<Rightarrow> int \<Rightarrow> string \<Rightarrow> delete_policy \<Rightarrow> 'a content_db_scheme \<Rightarrow> content_error + 'a content_db_scheme" where
  "link_existing env g m purpose policy db =
     and_then (ensure_thread_group_writes env) (\<lambda>_.
     if purpose = [] then Inl (Bailed ''group memory relationship purpose must not be empty'')
     else if find_group g db = None then Inl (Bailed ''thread group not found'')
     else (case find_memories [m] db of
        [] \<Rightarrow> Inl (Bailed ''memory not found'')
      | row # _ \<Rightarrow>
          if (case mem_external row of None \<Rightarrow> False
               | Some e \<Rightarrow> starts_with e summary_prefix
                   \<and> (e \<noteq> thread_group_summary_external_id g \<or> memory_kind_value row \<noteq> kind_derived_summary))
          then Inl (Bailed ''legacy summary identity or kind does not match group'')
          else
            let existing = list_memory_groups m db
            in and_then (if policy = Delete_With_Group then validate_delete_target g m purpose db else Inr ()) (\<lambda>_.
               if list_ex (\<lambda>r. gm_group r = g) existing
               then if list_ex (\<lambda>r. gm_group r = g \<and> gm_purpose r = purpose \<and> gm_policy r = policy_text policy) existing
                    then Inr db else Inl (Bailed ''memory relationship already exists with a different policy'')
               else if list_ex deletes existing \<or> policy = Delete_With_Group \<and> existing \<noteq> []
               then Inl (Bailed ''memory is already related to another group'')
               else insert_group_memory g m purpose (policy_text policy) (ce_now env) db)))"

subsection \<open>Statements of the purge\<close>

definition state_rank :: "membership_state \<Rightarrow> nat" where
  "state_rank s = (case s of MemberActive \<Rightarrow> 0 | MemberDeleted \<Rightarrow> 1 | MemberRedirected \<Rightarrow> 2)"

definition list_all_members :: "int \<Rightarrow> 'a group_db_scheme \<Rightarrow> member_row list" where
  "list_all_members g db = sort_key mb_key (sort_key (\<lambda>m. state_rank (mb_state m))
     (filter (\<lambda>m. mb_group m = g) (db_members db)))"

definition delete_members_of_group :: "int \<Rightarrow> 'a group_db_scheme \<Rightarrow> nat \<times> 'a group_db_scheme" where
  "delete_members_of_group g db =
     (length (filter (\<lambda>m. mb_group m = g) (db_members db)),
      db\<lparr>db_members := filter (\<lambda>m. mb_group m \<noteq> g) (db_members db)\<rparr>)"

definition identity_outside_group :: "identity_key \<Rightarrow> int \<Rightarrow> 'a group_db_scheme \<Rightarrow> bool" where
  "identity_outside_group k g db = list_ex (\<lambda>m. mb_user m = ik_user k \<and> mb_source m = Some (ik_source k)
     \<and> mb_scope m = Some (ik_scope k) \<and> mb_native m = Some (ik_native k) \<and> mb_group m \<noteq> g) (db_members db)"

definition delete_relation :: "int \<Rightarrow> 'a group_db_scheme \<Rightarrow> bool \<times> 'a group_db_scheme" where
  "delete_relation i db = (list_ex (\<lambda>r. rl_id r = i) (db_relations db),
     db\<lparr>db_relations := filter (\<lambda>r. rl_id r \<noteq> i) (db_relations db)\<rparr>)"

definition list_audits :: "int \<Rightarrow> 'a operator_db_scheme \<Rightarrow> audit_row list" where
  "list_audits g db = sort_key au_created (sort_key au_id
     (filter (\<lambda>a. au_source a = g \<or> au_detail a = AuditMerge g) (db_audits db)))"

definition delete_audit :: "int \<Rightarrow> 'a operator_db_scheme \<Rightarrow> bool \<times> 'a operator_db_scheme" where
  "delete_audit i db = (list_ex (\<lambda>a. au_id a = i) (db_audits db),
     db\<lparr>db_audits := filter (\<lambda>a. au_id a \<noteq> i) (db_audits db)\<rparr>)"

text \<open>Relations with both ends among the members.\<close>

definition internal_relations :: "member_row list \<Rightarrow> 'a group_db_scheme \<Rightarrow> relation_row list" where
  "internal_relations members db =
     (let keys = set (map mb_key members)
      in filter (\<lambda>r. rl_parent_key r \<in> keys \<and> rl_child_key r \<in> keys) (db_relations db))"

text \<open>The identity under which a deleted member may have a marker.\<close>

definition member_identity :: "member_row \<Rightarrow> identity_key option" where
  "member_identity m =
     (if mb_state m \<noteq> MemberDeleted then None
      else case (mb_source m, mb_native m) of
        (Some s, Some n) \<Rightarrow> Some \<lparr>ik_user = mb_user m, ik_source = s,
            ik_scope = (case mb_scope m of None \<Rightarrow> [] | Some x \<Rightarrow> x), ik_native = n\<rparr>
      | _ \<Rightarrow> None)"

definition marked_identities :: "member_row list \<Rightarrow> 'a evidence_db_scheme \<Rightarrow> identity_key list" where
  "marked_identities members db = filter (\<lambda>k. find_marker k db \<noteq> None) (List.map_filter member_identity members)"

subsection \<open>The preview\<close>

text \<open>
  What the digest covers: the manifest. Numbers that are lengths of its lists are left out, and
  the counts of a preview are those of its manifest.
\<close>

record link_facts =
  lf_link :: group_memory_row
  lf_memory :: "memory_row option"
  lf_threads :: "int list"
  lf_storage :: "(int \<times> int option \<times> string list) list"
  lf_defaults :: "int list"
  lf_referring :: "int list"
  lf_sharing :: "(int \<times> string \<times> string \<times> int) list"

record purge_manifest =
  pm_group :: int
  pm_status :: group_status
  pm_redirect :: "int option"
  pm_members :: "string list"
  pm_relations :: "(int \<times> relation_state \<times> string \<times> string) list"
  pm_audits :: "int list"
  pm_inactive_members :: nat
  pm_active_members :: nat
  pm_inactive_relations :: nat
  pm_active_relations :: nat
  pm_purgeable :: "string list"
  pm_retained :: "string list"
  pm_inbound :: "int list"
  pm_summary :: "(memory_row \<times> int list) option"
  pm_links :: "link_facts list"

text \<open>The texts that \<open>serde_json\<close> writes for a member, an identity and the whole manifest.\<close>

record purge_json =
  pj_member :: "member_row \<Rightarrow> string"
  pj_identity :: "identity_key \<Rightarrow> string"
  pj_manifest :: "purge_manifest \<Rightarrow> string"

record purge_report =
  pp_manifest :: purge_manifest
  pp_delete_count :: nat
  pp_retain_count :: nat
  pp_blocked :: string
  pp_digest :: string

text \<open>A memory in the manifest has the digest of its content in place of the content.\<close>

definition hashed :: "content_env \<Rightarrow> memory_row \<Rightarrow> memory_row" where
  "hashed env m = m\<lparr>mem_content := env_sha (ce_group env) (mem_content m)\<rparr>"

definition link_facts_of :: "content_env \<Rightarrow> group_memory_row \<Rightarrow> 'a content_db_scheme \<Rightarrow> link_facts" where
  "link_facts_of env r db =
     (let threads = sort (threads_of_memory (gm_memory r) db)
      in \<lparr>lf_link = r, lf_memory = map_option (hashed env) (find_memory (gm_memory r) db), lf_threads = threads,
          lf_storage = map (\<lambda>t. (t, map_option th_user (find_thread t db), sort (labels_of_thread t db))) threads,
          lf_defaults = sort (threads_with_default (gm_memory r) db), lf_referring = find_referring (gm_memory r) db,
          lf_sharing = map (\<lambda>s. (gm_group s, gm_purpose s, gm_policy s, gm_created s)) (list_memory_groups (gm_memory r) db)\<rparr>)"

definition about_memory :: "int \<Rightarrow> string \<Rightarrow> string" where
  "about_memory m text = ''memory '' @ show_int m @ text"

text \<open>Why a memory that is to go with its group may not be deleted.\<close>

definition link_block :: "int \<Rightarrow> group_memory_row \<Rightarrow> 'a content_db_scheme \<Rightarrow> string option" where
  "link_block g r db =
     (let i = gm_memory r in
      if length (list_memory_groups i db) \<noteq> 1 then Some (about_memory i '' is shared across groups'')
      else if gm_purpose r \<noteq> ''summary'' then Some (about_memory i '' has an unsupported delete purpose'')
      else case find_memory i db of
        None \<Rightarrow> Some (about_memory i '' has no verified group summary identity'')
      | Some m \<Rightarrow>
          if mem_external m \<noteq> Some (thread_group_summary_external_id g)
          then Some (about_memory i '' has no verified group summary identity'')
          else if memory_kind_value m \<noteq> kind_derived_summary then Some (about_memory i '' has an invalid summary kind'')
          else (case threads_of_memory i db of
              [t] \<Rightarrow> (case find_thread t db of
                  None \<Rightarrow> Some (about_memory i '' is owned by another user'')
                | Some thread \<Rightarrow>
                    if mem_user m = 0 \<or> mem_user m \<noteq> th_user thread then Some (about_memory i '' is owned by another user'')
                    else if \<not> (''thread_group_summary'' \<in> set (labels_of_thread t db)
                            \<and> ''group_'' @ show_int g \<in> set (labels_of_thread t db))
                    then Some (about_memory i '' has no dedicated group storage Thread'')
                    else if threads_with_default i db \<noteq> [] then Some (about_memory i '' is referenced as a Thread default'')
                    else if find_referring i db \<noteq> []
                    then Some (about_memory i '' is referenced as a parent by another Memory'')
                    else None)
            | _ \<Rightarrow> Some (about_memory i '' does not have a dedicated storage Thread'')))"

fun first_block :: "int \<Rightarrow> group_memory_row list \<Rightarrow> 'a content_db_scheme \<Rightarrow> string option" where
  "first_block g [] db = None"
| "first_block g (r # rs) db = (case link_block g r db of Some text \<Rightarrow> Some text | None \<Rightarrow> first_block g rs db)"

definition unlinked_summary :: "memory_row option \<Rightarrow> group_memory_row list \<Rightarrow> bool" where
  "unlinked_summary summary links = (case summary of None \<Rightarrow> False
     | Some m \<Rightarrow> \<not> list_ex (\<lambda>r. gm_memory r = mem_id m \<and> deletes r) links)"

definition blocked_reason ::
  "bool \<Rightarrow> int \<Rightarrow> group_status \<Rightarrow> memory_row option \<Rightarrow> group_memory_row list \<Rightarrow> nat \<Rightarrow> nat \<Rightarrow> 'a content_db_scheme \<Rightarrow> string" where
  "blocked_reason wired g st summary links active inbound db =
     (case first_block g (filter deletes links) db of
        Some text \<Rightarrow> text
      | None \<Rightarrow>
          if unlinked_summary summary links then ''legacy summary has no explicit delete relationship''
          else if 0 < active then ''cannot purge a group with active members''
          else if st = GroupSplit \<and> 0 < inbound then ''cannot purge a split group with inbound redirects''
          else if \<not> wired \<and> list_ex deletes links then ''memory deletion subsystem is unavailable''
          else [])"

definition purge_preview ::
  "content_env \<Rightarrow> purge_json \<Rightarrow> bool \<Rightarrow> int \<Rightarrow> 'a content_db_scheme \<Rightarrow> content_error + purge_report option" where
  "purge_preview env js wired g db =
     (case find_group g db of
        None \<Rightarrow> Inr None
      | Some row \<Rightarrow>
          let members = list_all_members g db;
              active = length (filter (\<lambda>m. mb_state m = MemberActive) members);
              relations = internal_relations members db;
              marked = marked_identities members db;
              inbound = map g_id (filter (\<lambda>h. g_redirect h = Some g) (list_redirected db));
              links = list_group_memories g db;
              summary = find_by_external_id (thread_group_summary_external_id g) db
          in if (case summary of None \<Rightarrow> False | Some m \<Rightarrow> memory_kind_value m \<noteq> kind_derived_summary)
             then Inl (Bailed ''memory at the summary external id has a different kind'')
             else
               let manifest = \<lparr>pm_group = g, pm_status = g_status row, pm_redirect = g_redirect row,
                     pm_members = sort (map (pj_member js) members),
                     pm_relations = map (\<lambda>r. (rl_id r, rl_state r, rl_parent_key r, rl_child_key r)) (sort_key rl_id relations),
                     pm_audits = sort (map au_id (list_audits g db)),
                     pm_inactive_members = length (filter (\<lambda>m. mb_state m \<noteq> MemberActive) members),
                     pm_active_members = active,
                     pm_inactive_relations = length (filter (\<lambda>r. rl_state r \<noteq> RelationActive) relations),
                     pm_active_relations = length (filter (\<lambda>r. rl_state r = RelationActive) relations),
                     pm_purgeable = sort (map (pj_identity js) (filter (\<lambda>k. \<not> identity_outside_group k g db) marked)),
                     pm_retained = sort (map (pj_identity js) (filter (\<lambda>k. identity_outside_group k g db) marked)),
                     pm_inbound = sort inbound,
                     pm_summary = map_option (\<lambda>m. (hashed env m, sort (threads_of_memory (mem_id m) db))) summary,
                     pm_links = map (\<lambda>r. link_facts_of env r db) links\<rparr>
               in Inr (Some \<lparr>pp_manifest = manifest,
                     pp_delete_count = length (filter deletes links),
                     pp_retain_count = length (filter (\<lambda>r. gm_policy r = ''retain'') links),
                     pp_blocked = blocked_reason wired g (g_status row) summary links active (length inbound) db,
                     pp_digest = env_sha (ce_group env) (pj_manifest js manifest)\<rparr>))"

subsection \<open>The purge\<close>

fun delete_relations :: "int list \<Rightarrow> 'a group_db_scheme \<Rightarrow> nat \<times> 'a group_db_scheme" where
  "delete_relations [] db = (0, db)"
| "delete_relations (i # is) db =
     (let (hit, db1) = delete_relation i db; (n, db2) = delete_relations is db1
      in (if hit then n + 1 else n, db2))"

fun delete_audits :: "int list \<Rightarrow> 'a operator_db_scheme \<Rightarrow> nat \<times> 'a operator_db_scheme" where
  "delete_audits [] db = (0, db)"
| "delete_audits (i # is) db =
     (let (hit, db1) = delete_audit i db; (n, db2) = delete_audits is db1
      in (if hit then n + 1 else n, db2))"

text \<open>Markers of identities that no membership outside the group has.\<close>

fun purge_markers :: "int \<Rightarrow> member_row list \<Rightarrow> 'a evidence_db_scheme \<Rightarrow> nat \<times> 'a evidence_db_scheme" where
  "purge_markers g [] db = (0, db)"
| "purge_markers g (m # ms) db =
     (case member_identity m of
        None \<Rightarrow> purge_markers g ms db
      | Some k \<Rightarrow>
          if find_marker k db = None \<or> identity_outside_group k g db then purge_markers g ms db
          else let (n, db') = purge_markers g ms (consume_marker k db) in (n + 1, db'))"

fun delete_linked_memories ::
  "content_env \<Rightarrow> int \<Rightarrow> group_memory_row list \<Rightarrow> 'a content_db_scheme \<Rightarrow> content_error + media_job list \<times> 'a content_db_scheme" where
  "delete_linked_memories env g [] db = Inr ([], db)"
| "delete_linked_memories env g (r # rs) db =
     (if \<not> deletes r then delete_linked_memories env g rs db
      else
        let others = list_memory_groups (gm_memory r) db
        in if length others \<noteq> 1 \<or> gm_group (hd others) \<noteq> g
           then Inl (Bailed ''memory is shared across groups'')
           else
             and_then (validate_delete_target g (gm_memory r) (gm_purpose r) db) (\<lambda>_.
             and_then (delete_memory env (gm_memory r) db) (\<lambda>((deleted, jobs), db1).
             if \<not> deleted then Inl (Bailed ''memory disappeared during purge'')
             else and_then (delete_linked_memories env g rs db1) (\<lambda>(more, db2). Inr (jobs @ more, db2)))))"

record purge_outcome =
  po_memberships :: nat
  po_relations :: nat
  po_audits :: nat
  po_markers :: nat
  po_repointed :: nat
  po_memories :: "int list"

definition repoint_inbound_redirects ::
  "group_env \<Rightarrow> int \<Rightarrow> int option \<Rightarrow> 'a group_db_scheme \<Rightarrow> store_error + nat \<times> 'a group_db_scheme" where
  "repoint_inbound_redirects env g target db =
     (case target of
        None \<Rightarrow> Inr (0, db)
      | Some t \<Rightarrow>
          let inbound = map g_id (filter (\<lambda>h. g_redirect h = Some g) (list_redirected db))
          in and_then (repoint_each env inbound t (env_clock env) db) (\<lambda>db'. Inr (length inbound, db')))"

text \<open>The rows that the transaction removes once the purge is allowed.\<close>

definition purge_tx ::
  "content_env \<Rightarrow> int \<Rightarrow> group_row \<Rightarrow> 'a content_db_scheme \<Rightarrow> content_error + (purge_outcome \<times> media_job list) \<times> 'a content_db_scheme" where
  "purge_tx env g row db =
     (let members = list_all_members g db;
          links = list_group_memories g db;
          relations = map rl_id (filter (\<lambda>r. rl_state r \<noteq> RelationActive) (internal_relations members db));
          (nr, db1) = delete_relations relations db;
          (na, db2) = delete_audits (map au_id (list_audits g db)) db1;
          (nm, db3) = delete_members_of_group g db2;
          (nk, db4) = purge_markers g members db3
      in and_then (of_group (repoint_inbound_redirects (ce_group env) g (g_redirect row) db4)) (\<lambda>(np, db5).
         and_then (delete_linked_memories env g links db5) (\<lambda>(jobs, db6).
         let (gone, db7) = delete_group g (delete_group_memories_of_group g db6)
         in if gone then Inr ((\<lparr>po_memberships = nm, po_relations = nr, po_audits = na, po_markers = nk, po_repointed = np,
                    po_memories = map gm_memory (filter deletes links)\<rparr>, jobs), db7)
            else Inl (Bailed ''group disappeared during purge''))))"

definition purge_group ::
  "content_env \<Rightarrow> purge_json \<Rightarrow> bool \<Rightarrow> int \<Rightarrow> string \<Rightarrow> 'a content_db_scheme
    \<Rightarrow> content_error + (purge_outcome \<times> media_job list) \<times> 'a content_db_scheme" where
  "purge_group env js wired g expected db =
     and_then (ensure_thread_group_writes env) (\<lambda>_.
     and_then (purge_preview env js wired g db) (\<lambda>p.
       case p of
         None \<Rightarrow> Inl (Bailed ''thread group not found'')
       | Some preview \<Rightarrow>
           let links = list_group_memories g db;
               manifest = pp_manifest preview
           in if pp_digest preview \<noteq> expected then Inl (Bailed ''purge preview is stale; request a new preview'')
              else if unlinked_summary (find_by_external_id (thread_group_summary_external_id g) db) links
              then Inl (Bailed ''legacy summary has no explicit delete relationship'')
              else if list_ex deletes links \<and> \<not> wired then Inl (Bailed ''memory deletion subsystem is unavailable'')
              else if 0 < pm_active_members manifest then Inl (Bailed ''cannot purge a group with active members'')
              else if pm_status manifest = GroupSplit \<and> pm_inbound manifest \<noteq> []
              then Inl (Bailed ''cannot purge a split group that other groups redirect to'')
              else (case find_group g db of
                  None \<Rightarrow> Inl (Bailed ''thread group not found'')
                | Some row \<Rightarrow> purge_tx env g row db)))"

subsection \<open>What the statements leave\<close>

lemma delete_relations_state:
  "snd (delete_relations is db) = db\<lparr>db_relations := filter (\<lambda>r. rl_id r \<notin> set is) (db_relations db)\<rparr>"
  by (induction "is" arbitrary: db) (simp_all add: delete_relation_def case_prod_beta Let_def conj_commute)

lemma delete_audits_state:
  "snd (delete_audits is db) = db\<lparr>db_audits := filter (\<lambda>a. au_id a \<notin> set is) (db_audits db)\<rparr>"
  by (induction "is" arbitrary: db) (simp_all add: delete_audit_def case_prod_beta Let_def conj_commute)

lemma find_marker_None: "find_marker k db = None \<longleftrightarrow> (\<forall>r \<in> set (db_markers db). mk_identity r \<noteq> k)"
  by (auto simp: find_marker_def find_None_iff)

lemma identity_outside_markers [simp]: "identity_outside_group k g (db\<lparr>db_markers := ms\<rparr>) = identity_outside_group k g db"
  by (simp add: identity_outside_group_def)

definition identities_of :: "member_row list \<Rightarrow> identity_key set" where
  "identities_of ms = {k. \<exists>m \<in> set ms. member_identity m = Some k}"

lemma identities_of_simps [simp]:
  "identities_of [] = {}"
  "identities_of (m # ms) = (case member_identity m of None \<Rightarrow> {} | Some k \<Rightarrow> {k}) \<union> identities_of ms"
  by (auto simp: identities_of_def split: option.split)

lemma purge_markers_state:
  "snd (purge_markers g ms db) =
     db\<lparr>db_markers := filter (\<lambda>r. mk_identity r \<notin> identities_of ms \<or> identity_outside_group (mk_identity r) g db) (db_markers db)\<rparr>"
proof (induction g ms db rule: purge_markers.induct)
  case (2 g m ms db)
  show ?case
  proof (cases "member_identity m")
    case None
    with 2 show ?thesis by simp
  next
    case (Some k)
    note Has = this
    show ?thesis
    proof (cases "find_marker k db = None \<or> identity_outside_group k g db")
      case True
      with 2(2) [OF Some True] Some have "snd (purge_markers g (m # ms) db) =
          db\<lparr>db_markers := filter (\<lambda>r. mk_identity r \<notin> identities_of ms \<or> identity_outside_group (mk_identity r) g db) (db_markers db)\<rparr>"
        by simp
      also have "\<dots> = db\<lparr>db_markers := filter (\<lambda>r. mk_identity r \<notin> identities_of (m # ms)
          \<or> identity_outside_group (mk_identity r) g db) (db_markers db)\<rparr>"
        using True Some by (auto simp: find_marker_None intro!: arg_cong [where f = "\<lambda>x. db\<lparr>db_markers := x\<rparr>"] filter_cong)
      finally show ?thesis .
    next
      case False
      have "snd (purge_markers g (m # ms) db) = snd (purge_markers g ms (consume_marker k db))"
        using False Some by (auto simp: case_prod_beta Let_def)
      also have "\<dots> = db\<lparr>db_markers := filter (\<lambda>r. mk_identity r \<notin> identities_of ms \<or> identity_outside_group (mk_identity r) g db)
          (filter (\<lambda>r. mk_identity r \<noteq> k) (db_markers db))\<rparr>"
        using 2(3) [OF Some False] by (simp add: consume_marker_def del: filter_filter)
      also have "\<dots> = db\<lparr>db_markers := filter (\<lambda>r. mk_identity r \<notin> identities_of (m # ms)
          \<or> identity_outside_group (mk_identity r) g db) (db_markers db)\<rparr>"
        using False Some by (auto intro!: arg_cong [where f = "\<lambda>x. db\<lparr>db_markers := x\<rparr>"] filter_cong)
      finally show ?thesis .
    qed
  qed
qed simp

subsection \<open>The history of a group\<close>

text \<open>The state after the rows of the group's history are gone.\<close>

definition history_purged :: "int \<Rightarrow> 'a content_db_scheme \<Rightarrow> 'a content_db_scheme" where
  "history_purged g db =
     (let keys = mb_key ` {m \<in> set (db_members db). mb_group m = g};
          marked = identities_of (filter (\<lambda>m. mb_group m = g) (db_members db))
      in db\<lparr>db_members := filter (\<lambda>m. mb_group m \<noteq> g) (db_members db),
            db_relations := filter (\<lambda>r. \<not> (rl_state r \<noteq> RelationActive \<and> rl_parent_key r \<in> keys \<and> rl_child_key r \<in> keys)) (db_relations db),
            db_markers := filter (\<lambda>r. mk_identity r \<notin> marked \<or> identity_outside_group (mk_identity r) g db) (db_markers db),
            db_audits := filter (\<lambda>a. au_id a \<notin> au_id ` set (list_audits g db)) (db_audits db)\<rparr>)"

lemma history_purged_content [simp]:
  "ct_threads (history_purged g db) = ct_threads db" "ct_memories (history_purged g db) = ct_memories db"
  "ct_links (history_purged g db) = ct_links db" "ct_labels (history_purged g db) = ct_labels db"
  "ct_ratings (history_purged g db) = ct_ratings db" "ct_media (history_purged g db) = ct_media db"
  "ct_group_memories (history_purged g db) = ct_group_memories db" "db_groups (history_purged g db) = db_groups db"
  "db_identities (history_purged g db) = db_identities db" "db_keys (history_purged g db) = db_keys db"
  by (simp_all add: history_purged_def Let_def)

lemma set_list_all_members: "set (list_all_members g db) = {m \<in> set (db_members db). mb_group m = g}"
  by (auto simp: list_all_members_def)

lemma identities_of_members: "identities_of (list_all_members g db) = identities_of (filter (\<lambda>m. mb_group m = g) (db_members db))"
  by (simp add: identities_of_def set_list_all_members)

lemma id_of_filter:
  "distinct (map f xs) \<Longrightarrow> x \<in> set xs \<Longrightarrow> f x \<in> f ` set (filter P xs) \<longleftrightarrow> P x"
  by (auto simp: distinct_map inj_on_def)

lemma inbound_empty:
  assumes "tables_ok db" "redirects_flat db" "find_group g db = Some row" "g_redirect row = Some t"
  shows "filter (\<lambda>h. g_redirect h = Some g) (list_redirected db) = []"
proof -
  have "g_redirect h \<noteq> Some g" if "h \<in> set (db_groups db)" for h
  proof
    assume "g_redirect h = Some g"
    moreover have "find_group (g_id h) db = Some h" using find_group_Some [OF assms(1)] that by simp
    ultimately show False using assms(2-4) redirects_flat_iff [OF assms(1)] by fastforce
  qed
  then show ?thesis by (auto simp: list_redirected_def filter_empty_conv)
qed

lemma purge_tx_eq:
  assumes ok: "tables_ok db" "redirects_flat db" and row: "find_group g db = Some row"
  shows "\<exists>n. purge_tx env g row db =
    and_then (delete_linked_memories env g (list_group_memories g db) (history_purged g db)) (\<lambda>(jobs, db1).
      let (gone, db2) = delete_group g (delete_group_memories_of_group g db1)
      in if gone then Inr ((n\<lparr>po_memories := map gm_memory (filter deletes (list_group_memories g db))\<rparr>, jobs), db2)
         else Inl (Bailed ''group disappeared during purge''))"
proof -
  let ?ms = "list_all_members g db"
  let ?rels = "map rl_id (filter (\<lambda>r. rl_state r \<noteq> RelationActive) (internal_relations ?ms db))"
  let ?a = "delete_relations ?rels db"
  let ?b = "delete_audits (map au_id (list_audits g db)) (snd ?a)"
  let ?c = "delete_members_of_group g (snd ?b)"
  let ?d = "purge_markers g ?ms (snd ?c)"
  let ?keys = "mb_key ` {m \<in> set (db_members db). mb_group m = g}"
  have rels: "filter (\<lambda>r. rl_id r \<notin> set ?rels) (db_relations db) =
      filter (\<lambda>r. \<not> (rl_state r \<noteq> RelationActive \<and> rl_parent_key r \<in> ?keys \<and> rl_child_key r \<in> ?keys)) (db_relations db)"
  proof (rule filter_cong [OF refl])
    fix r assume r: "r \<in> set (db_relations db)"
    let ?P = "\<lambda>r. rl_state r \<noteq> RelationActive \<and> rl_parent_key r \<in> ?keys \<and> rl_child_key r \<in> ?keys"
    have "mb_key ` set ?ms = ?keys" by (simp add: set_list_all_members)
    then have "set ?rels = rl_id ` set (filter ?P (db_relations db))"
      by (auto simp: internal_relations_def Let_def)
    moreover have "distinct (map rl_id (db_relations db))" using ok(1) by (simp add: tables_ok_def)
    ultimately have "rl_id r \<in> set ?rels \<longleftrightarrow> ?P r" using id_of_filter [OF _ r, of rl_id ?P] by (simp only:)
    then show "rl_id r \<notin> set ?rels \<longleftrightarrow> \<not> ?P r" by (simp only:)
  qed
  note a = delete_relations_state [of ?rels db, unfolded rels]
  have b: "snd ?b = (snd ?a)\<lparr>db_audits := filter (\<lambda>x. au_id x \<notin> au_id ` set (list_audits g db)) (db_audits (snd ?a))\<rparr>"
    by (simp add: delete_audits_state)
  have members: "db_members (snd ?b) = db_members db" by (simp only: b) (simp add: a)
  have outside: "identity_outside_group k g (snd ?c) = identity_outside_group k g db" for k
    using members by (auto simp: delete_members_of_group_def identity_outside_group_def list_ex_iff)
  have state: "snd ?d = history_purged g db"
    unfolding purge_markers_state outside
    unfolding delete_members_of_group_def snd_conv b
    unfolding a
    by (simp add: identities_of_members history_purged_def Let_def)
  have same_groups: "db_groups (snd ?d) = db_groups db" by (simp add: state)
  have "list_redirected (snd ?d) = list_redirected db" by (simp add: list_redirected_def same_groups)
  then have repoint: "repoint_inbound_redirects (ce_group env) g (g_redirect row) (snd ?d) = Inr (0, snd ?d)"
    using inbound_empty [OF ok row] by (cases "g_redirect row") (simp_all add: repoint_inbound_redirects_def)
  show ?thesis
    by (rule exI [of _ "\<lparr>po_memberships = fst ?c, po_relations = fst ?a, po_audits = fst ?b, po_markers = fst ?d,
          po_repointed = 0, po_memories = []\<rparr>"])
      (simp add: purge_tx_def Let_def case_prod_beta repoint [unfolded state] state of_group_def
        cong: if_cong)
qed

lemma linked_memories_kept:
  "delete_linked_memories env g rs db = Inr (jobs, db') \<Longrightarrow>
     group_side db' = group_side db \<and> (content_ok db \<longrightarrow> content_ok db')"
proof (induction rs arbitrary: db jobs)
  case (Cons r rs)
  show ?case
  proof (cases "deletes r")
    case True
    with Cons.prems obtain deleted jobs1 jobs2 db1 where del: "delete_memory env (gm_memory r) db = Inr ((deleted, jobs1), db1)"
      and rest: "delete_linked_memories env g rs db1 = Inr (jobs2, db')"
      by (auto simp: Let_def elim!: and_then_InrE split: if_splits)
    from yieldsD [OF group_side_delete_memory del] yieldsD [OF delete_memory_ok del] Cons.IH [OF rest]
    show ?thesis by auto
  qed (use Cons in simp)
qed simp

lemma delete_group_state: "snd (delete_group g db) = db\<lparr>db_groups := filter (\<lambda>h. g_id h \<noteq> g) (db_groups db)\<rparr>"
  by (simp add: delete_group_def)

lemma purge_steps:
  assumes ok: "sound db" and run: "purge_group env js wired g digest db = Inr (out, db')"
  obtains row jobs db1 where "find_group g db = Some row"
    "delete_linked_memories env g (list_group_memories g db) (history_purged g db) = Inr (jobs, db1)"
    "db' = snd (delete_group g (delete_group_memories_of_group g db1))"
    "po_memories (fst out) = map gm_memory (filter deletes (list_group_memories g db))"
    "\<And>m. m \<in> set (db_members db) \<Longrightarrow> mb_group m = g \<Longrightarrow> mb_state m \<noteq> MemberActive"
    "g_status row = GroupSplit \<Longrightarrow> filter (\<lambda>h. g_redirect h = Some g) (list_redirected db) = []"
proof -
  from ok have t: "tables_ok db" "redirects_flat db" by (simp_all add: sound_def graph_ok_def placed_ok_def)
  from run obtain p where p: "purge_preview env js wired g db = Inr (Some p)"
    by (auto simp: purge_group_def elim!: and_then_InrE split: option.splits)
  then obtain row where row: "find_group g db = Some row"
    by (auto simp: purge_preview_def split: option.splits)
  from run p row have tx: "purge_tx env g row db = Inr (out, db')"
    and active: "pm_active_members (pp_manifest p) = 0"
    and split: "\<not> (pm_status (pp_manifest p) = GroupSplit \<and> pm_inbound (pp_manifest p) \<noteq> [])"
    by (auto simp: purge_group_def Let_def elim!: and_then_InrE split: if_splits)
  from p row have m: "pm_active_members (pp_manifest p) = length (filter (\<lambda>m. mb_state m = MemberActive) (list_all_members g db))"
    "pm_status (pp_manifest p) = g_status row"
    "pm_inbound (pp_manifest p) = sort (map g_id (filter (\<lambda>h. g_redirect h = Some g) (list_redirected db)))"
    by (auto simp: purge_preview_def Let_def split: if_splits)
  obtain n where "purge_tx env g row db =
    and_then (delete_linked_memories env g (list_group_memories g db) (history_purged g db)) (\<lambda>(jobs, db1).
      let (gone, db2) = delete_group g (delete_group_memories_of_group g db1)
      in if gone then Inr ((n\<lparr>po_memories := map gm_memory (filter deletes (list_group_memories g db))\<rparr>, jobs), db2)
         else Inl (Bailed ''group disappeared during purge''))"
    using purge_tx_eq [OF t row] by blast
  with tx obtain jobs db1 where "delete_linked_memories env g (list_group_memories g db) (history_purged g db) = Inr (jobs, db1)"
    "db' = snd (delete_group g (delete_group_memories_of_group g db1))"
    "po_memories (fst out) = map gm_memory (filter deletes (list_group_memories g db))"
    by (auto simp: case_prod_beta Let_def elim!: and_then_InrE split: if_splits)
  moreover have "mb_state x \<noteq> MemberActive" if "x \<in> set (db_members db)" "mb_group x = g" for x
    using active m(1) that set_list_all_members [of g db] by (auto simp: filter_empty_conv)
  moreover have "filter (\<lambda>h. g_redirect h = Some g) (list_redirected db) = []" if "g_status row = GroupSplit"
  proof -
    have "pm_inbound (pp_manifest p) = []" using split m(2) that by simp
    then have "set (pm_inbound (pp_manifest p)) = {}" by simp
    then show ?thesis using m(3) by (simp add: filter_empty_conv)
  qed
  ultimately show ?thesis using that [OF row] by blast
qed

subsection \<open>The invariant after a purge\<close>

lemma find_group_filter: "find_group i (db\<lparr>db_groups := filter (\<lambda>h. g_id h \<noteq> g) (db_groups db)\<rparr>) = (if i = g then None else find_group i db)"
proof -
  have "find (\<lambda>h. g_id h = i) (filter (\<lambda>h. g_id h \<noteq> g) gs) = (if i = g then None else find (\<lambda>h. g_id h = i) gs)" for gs
    by (induction gs) auto
  from this [of "db_groups db"] show ?thesis unfolding find_group_def by simp
qed

lemma inbound_listed: "set (list_redirecting_to g db) = set (filter (\<lambda>h. g_redirect h = Some g) (list_redirected db))"
  by (auto simp: list_redirecting_to_def list_redirected_def)

lemma distinct_map_two_filters:
  "distinct (map f (filter P xs)) \<Longrightarrow> distinct (map f (filter P (filter Q xs)))"
proof -
  assume "distinct (map f (filter P xs))"
  then have "distinct (map f (filter Q (filter P xs)))" by (rule distinct_map_filter)
  then show ?thesis by (simp add: conj_commute)
qed

text \<open>A group without live members goes, with its memberships and some inactive relations.\<close>

definition without_group :: "int \<Rightarrow> (relation_row \<Rightarrow> bool) \<Rightarrow> 'a group_db_scheme \<Rightarrow> 'b group_db_scheme \<Rightarrow> bool" where
  "without_group g Q db db' \<longleftrightarrow> db_groups db' = filter (\<lambda>h. g_id h \<noteq> g) (db_groups db)
     \<and> db_members db' = filter (\<lambda>m. mb_group m \<noteq> g) (db_members db)
     \<and> db_relations db' = filter Q (db_relations db) \<and> (\<forall>r. rl_state r = RelationActive \<longrightarrow> Q r)"

lemma without_groupD:
  assumes "without_group g Q db db'"
  shows "db_groups db' = filter (\<lambda>h. g_id h \<noteq> g) (db_groups db)" "db_members db' = filter (\<lambda>m. mb_group m \<noteq> g) (db_members db)"
    "db_relations db' = filter Q (db_relations db)" "rl_state r = RelationActive \<Longrightarrow> Q r"
  using assms by (auto simp: without_group_def)

lemma without_group_tables: "placed_ok db \<Longrightarrow> without_group g Q db db' \<Longrightarrow> tables_ok db'"
  unfolding placed_ok_def tables_ok_def without_group_def
  by (auto intro: distinct_map_filter distinct_map_two_filters simp del: filter_filter simp: list_all_iff)

lemma without_group_find: "without_group g Q db db' \<Longrightarrow> find_group i db' = (if i = g then None else find_group i db)"
  using find_group_filter [of i g db] by (simp add: find_group_def without_group_def)

lemma without_group_members:
  "placed_ok db \<Longrightarrow> without_group g Q db db' \<Longrightarrow>
   list_all (\<lambda>m. is_current m \<longrightarrow> group_active (mb_group m) db') (db_members db')"
  by (auto simp: placed_ok_def without_groupD(2) group_active_def without_group_find list_all_iff)

lemma without_group_edges:
  assumes "without_group g Q db db'" shows "active_edges db' = active_edges db"
proof -
  have "filter (\<lambda>r. rl_state r = RelationActive) (filter Q (db_relations db)) = filter (\<lambda>r. rl_state r = RelationActive) (db_relations db)"
    using without_groupD(4) [OF assms] by (auto intro: filter_cong)
  then show ?thesis by (simp add: active_edges_def without_groupD(3) [OF assms] del: filter_filter)
qed

lemma without_group_redirects:
  assumes placed: "placed_ok db" and wo: "without_group g Q db db'"
  shows "redirects_flat db' \<longleftrightarrow> list_redirecting_to g db = []"
proof -
  from placed have ok: "tables_ok db" "redirects_flat db" by (simp_all add: placed_ok_def)
  have inbound: "h \<in> set (list_redirecting_to g db) \<longleftrightarrow> h \<in> set (db_groups db) \<and> g_redirect h = Some g" for h
    using ok(1) by (auto simp: list_redirecting_to_def tables_ok_def list_all_iff group_check_def)
  have check: "g_redirect h \<noteq> Some (g_id h)" if "h \<in> set (db_groups db)" for h
    using ok(1) that by (simp add: tables_ok_def list_all_iff group_check_def)
  show ?thesis
  proof
    assume flat: "redirects_flat db'"
    have "h \<notin> set (list_redirecting_to g db)" for h
    proof
      assume "h \<in> set (list_redirecting_to g db)"
      then have h: "h \<in> set (db_groups db)" "g_redirect h = Some g" by (simp_all add: inbound)
      then have "find_group (g_id h) db' = Some h"
        using check [OF h(1)] find_group_Some [OF ok(1)] by (auto simp: without_group_find [OF wo])
      with flat h(2) have "find_group g db' \<noteq> None"
        using redirects_flat_iff [OF without_group_tables [OF placed wo]] by fastforce
      then show False by (simp add: without_group_find [OF wo])
    qed
    then show "list_redirecting_to g db = []" by (metis list.set_intros(1) neq_Nil_conv)
  next
    assume none: "list_redirecting_to g db = []"
    show "redirects_flat db'"
      unfolding redirects_flat_iff [OF without_group_tables [OF placed wo]]
    proof (intro allI impI)
      fix i h t
      assume h: "find_group i db' = Some h" "g_redirect h = Some t"
      then have found: "find_group i db = Some h" by (simp add: without_group_find [OF wo] split: if_splits)
      then have "t \<noteq> g" using none inbound [of h] h(2) find_group_Some [OF ok(1)] by auto
      with found h(2) show "\<exists>g'. find_group t db' = Some g' \<and> g_redirect g' = None"
        using ok(2) redirects_flat_iff [OF ok(1)] by (auto simp: without_group_find [OF wo])
    qed
  qed
qed

lemma purge_graph:
  assumes ok: "sound db" and run: "purge_group env js wired g digest db = Inr (out, db')"
  shows "sound db' \<longleftrightarrow> list_redirecting_to g db = []"
    and "list_redirecting_to g db = [] \<or> map_option g_status (find_group g db) = Some GroupActive"
proof -
  obtain row jobs db1 where row: "find_group g db = Some row"
    and del: "delete_linked_memories env g (list_group_memories g db) (history_purged g db) = Inr (jobs, db1)"
    and db': "db' = snd (delete_group g (delete_group_memories_of_group g db1))"
    and split: "g_status row = GroupSplit \<Longrightarrow> filter (\<lambda>h. g_redirect h = Some g) (list_redirected db) = []"
    using purge_steps [OF ok run] by blast
  from ok have placed: "placed_ok db" and acyc: "acyclic (active_edges db)" and content: "content_ok db"
    by (simp_all add: sound_def graph_ok_def)
  note t = placed [unfolded placed_ok_def, THEN conjunct1] placed [unfolded placed_ok_def, THEN conjunct2, THEN conjunct1]
  have "content_ok (history_purged g db)" by (rule store_ok_same [OF _ content]) (simp add: same_content_def)
  with linked_memories_kept [OF del] have side: "group_side db1 = group_side (history_purged g db)" and c1: "content_ok db1" by auto
  note f = group_side_fields [OF side]
  have c: "content_ok db'"
    by (rule store_ok_same [OF _ c1]) (simp add: same_content_def db' delete_group_state delete_group_memories_of_group_def)
  let ?keys = "mb_key ` {m \<in> set (db_members db). mb_group m = g}"
  let ?Q = "\<lambda>r. \<not> (rl_state r \<noteq> RelationActive \<and> rl_parent_key r \<in> ?keys \<and> rl_child_key r \<in> ?keys)"
  have gr: "db_groups db' = filter (\<lambda>h. g_id h \<noteq> g) (db_groups db)"
    and mb: "db_members db' = filter (\<lambda>m. mb_group m \<noteq> g) (db_members db)"
    and rl: "db_relations db' = filter ?Q (db_relations db)"
    using f(1-3) by (simp_all add: db' delete_group_state delete_group_memories_of_group_def history_purged_def Let_def)
  have w: "without_group g ?Q db db'" using gr mb rl by (simp add: without_group_def)
  note wo = without_group_tables [OF placed w] without_group_members [OF placed w] without_group_edges [OF w]
    without_group_redirects [OF placed w]
  show "sound db' \<longleftrightarrow> list_redirecting_to g db = []"
    using wo acyc c by (simp add: sound_def graph_ok_def placed_ok_def)
  show "list_redirecting_to g db = [] \<or> map_option g_status (find_group g db) = Some GroupActive"
  proof (cases "g_status row")
    case GroupSplit
    with split inbound_listed [of g db] show ?thesis by simp
  next
    case GroupRedirected
    then obtain t' where "g_redirect row = Some t'" using redirect_status [OF t(1) row] by auto
    with inbound_empty [OF t row] inbound_listed [of g db] show ?thesis by simp
  qed (simp add: row)
qed

subsection \<open>The rows that are gone\<close>

lemma refresh_each_both:
  "ct_group_memories (snd (refresh_each ts now db)) = ct_group_memories db
   \<and> map th_id (ct_threads (snd (refresh_each ts now db))) = map th_id (ct_threads db)"
proof (induction ts arbitrary: db)
  case (Cons t ts)
  have "ct_group_memories (snd (refresh_message_bounds t now db)) = ct_group_memories db"
    "map th_id (ct_threads (snd (refresh_message_bounds t now db))) = map th_id (ct_threads db)"
    by (simp_all add: refresh_message_bounds_def Let_def update_threads_def)
  then show ?case
    using Cons [of "snd (refresh_message_bounds t now db)"] by (simp add: case_prod_beta Let_def)
qed simp

lemmas refresh_each_others [simp] = refresh_each_both [THEN conjunct1] refresh_each_both [THEN conjunct2]

lemma unlink_media_only: "unlink_media_of env m db = Inr (jobs, db') \<Longrightarrow> \<exists>rows. db' = db\<lparr>ct_media := rows\<rparr>"
  by (auto simp: unlink_media_of_def elim!: and_then_InrE split: if_splits intro: exI [of _ "ct_media db"])

lemma delete_memory_effect:
  assumes "delete_memory env i db = Inr ((deleted, jobs), db')"
  shows "ct_memories db' = filter (\<lambda>m. mem_id m \<noteq> i) (ct_memories db)"
    and "ct_group_memories db' = filter (\<lambda>r. gm_memory r \<noteq> i) (ct_group_memories db)"
    and "map th_id (ct_threads db') = map th_id (ct_threads db)"
proof -
  have "ct_memories db' = filter (\<lambda>m. mem_id m \<noteq> i) (ct_memories db)
    \<and> ct_group_memories db' = filter (\<lambda>r. gm_memory r \<noteq> i) (ct_group_memories db)
    \<and> map th_id (ct_threads db') = map th_id (ct_threads db)"
  proof (cases "find_memories [i] db")
    case Nil
    then have "filter (\<lambda>m. mem_id m \<noteq> i) (ct_memories db) = ct_memories db"
      using set_find_memories [of "[i]" db] by (auto simp: filter_id_conv)
    with assms Nil show ?thesis by (auto simp: delete_memory_def delete_group_memories_of_memory_def)
  next
    case (Cons row rest)
    let ?ts = "remdups_adj (sort (remdups_adj (sort (threads_with_default i db @ threads_of_memory i db))))"
    let ?db1 = "delete_links_of_memory i (delete_ratings_of_memory i (clear_default i db))"
    let ?db2 = "snd (refresh_each ?ts (ce_now env) ?db1)"
    from assms Cons obtain rows where
      "db' = snd (delete_memory_row i (delete_group_memories_of_memory i (?db2\<lparr>ct_media := rows\<rparr>)))"
      by (auto simp: delete_memory_def Let_def case_prod_beta refresh_message_bounds_all_def elim!: and_then_InrE
          dest!: unlink_media_only)
    moreover have "ct_memories ?db1 = ct_memories db" "ct_group_memories ?db1 = ct_group_memories db"
      "map th_id (ct_threads ?db1) = map th_id (ct_threads db)"
      by (simp_all add: delete_links_of_memory_def delete_ratings_of_memory_def clear_default_def update_threads_def)
    ultimately show ?thesis
      by (simp add: delete_memory_row_def delete_group_memories_of_memory_def)
  qed
  then show "ct_memories db' = filter (\<lambda>m. mem_id m \<noteq> i) (ct_memories db)"
    "ct_group_memories db' = filter (\<lambda>r. gm_memory r \<noteq> i) (ct_group_memories db)"
    "map th_id (ct_threads db') = map th_id (ct_threads db)" by simp_all
qed

lemma set_list_memory_groups: "set (list_memory_groups m db) = {r \<in> set (ct_group_memories db). gm_memory r = m}"
  by (auto simp: list_memory_groups_def)

lemma linked_memories_effect:
  "delete_linked_memories env g rs db = Inr (jobs, db') \<Longrightarrow>
     ct_memories db' = filter (\<lambda>m. mem_id m \<notin> gm_memory ` set (filter deletes rs)) (ct_memories db)
     \<and> filter (\<lambda>r. gm_group r \<noteq> g) (ct_group_memories db') = filter (\<lambda>r. gm_group r \<noteq> g) (ct_group_memories db)
     \<and> map th_id (ct_threads db') = map th_id (ct_threads db)"
proof (induction rs arbitrary: db jobs)
  case (Cons r rs)
  show ?case
  proof (cases "deletes r")
    case True
    let ?i = "gm_memory r"
    from Cons.prems True obtain deleted jobs1 jobs2 db1 where
      alone: "length (list_memory_groups ?i db) = 1" "gm_group (hd (list_memory_groups ?i db)) = g"
      and del: "delete_memory env ?i db = Inr ((deleted, jobs1), db1)"
      and rest: "delete_linked_memories env g rs db1 = Inr (jobs2, db')"
      by (auto simp: Let_def elim!: and_then_InrE split: if_splits)
    note e = delete_memory_effect [OF del] and IH = Cons.IH [OF rest]
    from alone obtain x where "list_memory_groups ?i db = [x]" "gm_group x = g" by (auto simp: length_Suc_conv)
    then have "gm_group y = g" if "y \<in> set (ct_group_memories db)" "gm_memory y = ?i" for y
      using set_list_memory_groups [of ?i db] that by auto
    then have "filter (\<lambda>r. gm_group r \<noteq> g) (ct_group_memories db1) = filter (\<lambda>r. gm_group r \<noteq> g) (ct_group_memories db)"
      by (auto simp: e(2) intro!: filter_cong)
    moreover have "filter (\<lambda>m. mem_id m \<notin> gm_memory ` set (filter deletes rs)) (ct_memories db1)
        = filter (\<lambda>m. mem_id m \<notin> gm_memory ` set (filter deletes (r # rs))) (ct_memories db)"
      using True by (auto simp: e(1) intro!: filter_cong)
    ultimately show ?thesis using IH e(3) by simp
  qed (use Cons in simp)
qed simp


subsection \<open>When a purge goes through\<close>

lemma filter_unique: "distinct (map f xs) \<Longrightarrow> filter (\<lambda>x. f x = k) xs = (case find (\<lambda>x. f x = k) xs of None \<Rightarrow> [] | Some x \<Rightarrow> [x])"
  by (induction xs) (auto simp: filter_empty_conv find_None_iff image_iff dest!: find_hit split: option.splits)

lemma find_memories_one:
  assumes "keys_ok db"
  shows "find_memories [i] db = (case find_memory i db of None \<Rightarrow> [] | Some m \<Rightarrow> [m])"
proof -
  have "distinct (map mem_id (ct_memories db))" using assms by (simp add: keys_ok_def)
  note filter_unique [OF this, of i]
  moreover have "chunks in_list_chunk_size [i] = [[i]]" by (simp add: chunks_code in_list_chunk_size_def)
  ultimately show ?thesis by (simp add: find_memories_def find_memory_def split: option.split)
qed

lemma about_memory_not_Nil [simp]: "about_memory m text \<noteq> []"
  by (simp add: about_memory_def)

lemma link_block_None:
  assumes "keys_ok db"
  shows "link_block g r db = None \<longleftrightarrow>
    length (list_memory_groups (gm_memory r) db) = 1 \<and> validate_delete_target g (gm_memory r) (gm_purpose r) db = Inr ()"
proof (cases "find_memory (gm_memory r) db")
  case (Some m)
  show ?thesis
  proof (cases "threads_of_memory (gm_memory r) db")
    case (Cons t ts)
    note thread = this
    show ?thesis
    proof (cases ts)
      case Nil
      with Some thread show ?thesis
        by (cases "find_thread t db") (simp_all add: link_block_def validate_delete_target_def find_memories_one [OF assms] Let_def)
    qed (use Some thread in \<open>simp add: link_block_def validate_delete_target_def find_memories_one [OF assms] Let_def\<close>)
  qed (use Some in \<open>simp add: link_block_def validate_delete_target_def find_memories_one [OF assms] Let_def\<close>)
qed (simp add: link_block_def validate_delete_target_def find_memories_one [OF assms] Let_def)

lemma link_block_text: "link_block g r db = Some text \<Longrightarrow> text \<noteq> []"
  by (auto simp: link_block_def Let_def split: if_splits option.splits list.splits)

lemma first_block_text: "first_block g rs db = Some text \<Longrightarrow> text \<noteq> []"
  by (induction rs) (auto dest: link_block_text split: option.splits)

lemma first_block_None: "first_block g rs db = None \<longleftrightarrow> (\<forall>r \<in> set rs. link_block g r db = None)"
  by (induction rs) (auto split: option.splits)

lemma delete_linked_skip: "delete_linked_memories env g rs db = delete_linked_memories env g (filter deletes rs) db"
proof (induction rs arbitrary: db)
  case (Cons r rs)
  show ?case
  proof (cases "deletes r")
    case True
    show ?thesis by (simp add: True Let_def Cons.IH cong: if_cong)
  qed (simp add: Cons.IH)
qed simp

lemma summary_external_unique:
  assumes "keys_ok db" "m \<in> set (ct_memories db)" "m' \<in> set (ct_memories db)"
    and "mem_external m = Some e" "mem_external m' = Some e"
  shows "m' = m"
proof -
  have "distinct (concat (map (\<lambda>m. case mem_external m of None \<Rightarrow> [] | Some e \<Rightarrow> [e]) ms)) \<Longrightarrow>
    m \<in> set ms \<Longrightarrow> m' \<in> set ms \<Longrightarrow> m' = m" for ms
    using assms(4,5) by (induction ms) (force split: option.splits)+
  then show ?thesis using assms(1-3) by (auto simp: keys_ok_def external_ids_def)
qed

lemma validated_memory:
  assumes "keys_ok db" "validate_delete_target g i purpose db = Inr ()"
  obtains m where "find_memory i db = Some m" "mem_external m = Some (thread_group_summary_external_id g)"
  using assms unfolding validate_delete_target_def find_memories_one [OF assms(1)]
  by (auto split: option.splits if_splits)

text \<open>A group has at most one memory to delete: the external id of its summary is unique.\<close>

lemma second_deletion_fails:
  assumes ok: "content_ok db" and run: "delete_linked_memories env g (r # r' # rs) db = Inr x" and "deletes r" "deletes r'"
  shows False
proof -
  let ?e = "thread_group_summary_external_id g"
  from run assms(3,4) obtain deleted jobs db1 where
    v: "validate_delete_target g (gm_memory r) (gm_purpose r) db = Inr ()"
    and del: "delete_memory env (gm_memory r) db = Inr ((deleted, jobs), db1)"
    and v': "validate_delete_target g (gm_memory r') (gm_purpose r') db1 = Inr ()"
    by (auto simp: Let_def elim!: and_then_InrE split: if_splits)
  have keys: "keys_ok db" "keys_ok db1" using ok yieldsD [OF delete_memory_ok [OF ok] del] by (auto dest: store_okD)
  obtain m where m: "find_memory (gm_memory r) db = Some m" "mem_external m = Some ?e"
    using validated_memory [OF keys(1) v] .
  obtain m' where m': "find_memory (gm_memory r') db1 = Some m'" "mem_external m' = Some ?e"
    using validated_memory [OF keys(2) v'] .
  have "m' \<in> set (ct_memories db)" "mem_id m' \<noteq> gm_memory r"
    using m'(1) delete_memory_effect(1) [OF del] by (auto simp: find_memory_Some [OF keys(2)])
  moreover have "m \<in> set (ct_memories db)" "mem_id m = gm_memory r" using m(1) by (simp_all add: find_memory_Some [OF keys(1)])
  ultimately show False using summary_external_unique [OF keys(1) _ _ m(2) m'(2)] by auto
qed

lemma deletion_goes_through:
  assumes keys: "keys_ok db" and m: "find_memory i db = Some m" "mem_media m = None"
  obtains db' where "delete_memory env i db = Inr ((True, []), db')"
proof -
  let ?ts = "remdups_adj (sort (remdups_adj (sort (threads_with_default i db @ threads_of_memory i db))))"
  let ?db1 = "delete_links_of_memory i (delete_ratings_of_memory i (clear_default i db))"
  let ?db2 = "snd (refresh_each ?ts (ce_now env) ?db1)"
  have "unlink_media_of env None ?db2 = Inr ([], ?db2)"
    by (simp add: unlink_media_of_def unlink_media_def of_media_def delete_jobs_def)
  moreover have "list_ex (\<lambda>x. mem_id x = i) (ct_memories (delete_group_memories_of_memory i ?db2))"
    using m(1) by (auto simp: delete_group_memories_of_memory_def delete_links_of_memory_def delete_ratings_of_memory_def
        clear_default_def update_threads_def list_ex_iff find_memory_Some [OF keys])
  ultimately show ?thesis
    using that m by (simp add: delete_memory_def find_memories_one [OF keys] Let_def case_prod_beta
        refresh_message_bounds_all_def delete_memory_row_def)
qed

lemma history_purged_reads [simp]:
  "list_memory_groups i (history_purged g db) = list_memory_groups i db" "find_memory i (history_purged g db) = find_memory i db"
  "threads_of_memory i (history_purged g db) = threads_of_memory i db" "find_thread i (history_purged g db) = find_thread i db"
  "labels_of_thread i (history_purged g db) = labels_of_thread i db"
  "threads_with_default i (history_purged g db) = threads_with_default i db"
  "find_referring i (history_purged g db) = find_referring i db"
  by (simp_all add: list_memory_groups_def find_memory_def threads_of_memory_def find_thread_def
      labels_of_thread_def threads_with_default_def find_referring_def)

lemma link_block_history [simp]: "link_block g r (history_purged g' db) = link_block g r db"
  unfolding link_block_def history_purged_reads by (rule refl)

lemma first_block_history [simp]: "first_block g rs (history_purged g' db) = first_block g rs db"
  by (induction rs) (simp_all split: option.split)

lemma list_group_memories_history [simp]: "list_group_memories g (history_purged g' db) = list_group_memories g db"
  by (simp add: list_group_memories_def)

lemma set_list_group_memories: "set (list_group_memories g db) = {r \<in> set (ct_group_memories db). gm_group r = g}"
  by (auto simp: list_group_memories_def)

lemma links_of_one_memory:
  "length (filter (\<lambda>r. gm_memory r = i) (filter deletes (list_group_memories g db))) \<le> length (list_memory_groups i db)"
proof -
  have "length (filter (\<lambda>r. gm_memory r = i) (filter deletes (list_group_memories g db)))
      = length (filter (\<lambda>r. deletes r \<and> gm_group r = g) (filter (\<lambda>r. gm_memory r = i) (ct_group_memories db)))"
    by (simp add: list_group_memories_def filter_sort conj_ac)
  also have "\<dots> \<le> length (filter (\<lambda>r. gm_memory r = i) (ct_group_memories db))" by (rule length_filter_le)
  finally show ?thesis by (simp add: list_memory_groups_def)
qed

lemma one_deletion:
  assumes keys: "keys_ok db" and free: "first_block g (filter deletes (list_group_memories g db)) db = None"
    and ds: "filter deletes (list_group_memories g db) = r # rs"
  shows "rs = []" "list_memory_groups (gm_memory r) db = [r]" "gm_group r = g"
proof -
  let ?ds = "filter deletes (list_group_memories g db)"
  have valid: "length (list_memory_groups (gm_memory x) db) = 1 \<and> validate_delete_target g (gm_memory x) (gm_purpose x) db = Inr ()"
    if "x \<in> set ?ds" for x using free that link_block_None [OF keys] unfolding first_block_None by blast
  have r: "r \<in> set ?ds" by (simp only: ds list.set_intros)
  then have row: "r \<in> set (ct_group_memories db)" and "gm_group r = g" by (simp_all add: set_list_group_memories)
  then show "gm_group r = g" by simp
  obtain x where "list_memory_groups (gm_memory r) db = [x]" using valid [OF r] by (auto simp: length_Suc_conv)
  with row set_list_memory_groups [of "gm_memory r" db] show "list_memory_groups (gm_memory r) db = [r]" by auto
  obtain m where m: "find_memory (gm_memory r) db = Some m" "mem_external m = Some (thread_group_summary_external_id g)"
    using validated_memory [OF keys] valid [OF r] by blast
  have "gm_memory x = gm_memory r" if x: "x \<in> set ?ds" for x
  proof -
    obtain m' where "find_memory (gm_memory x) db = Some m'" "mem_external m' = Some (thread_group_summary_external_id g)"
      using validated_memory [OF keys] valid [OF x] by blast
    with m summary_external_unique [OF keys, of m m'] show ?thesis by (auto simp: find_memory_Some [OF keys])
  qed
  then have "filter (\<lambda>x. gm_memory x = gm_memory r) ?ds = ?ds" by (simp add: filter_id_conv del: filter_filter)
  with links_of_one_memory [of "gm_memory r" g db] valid [OF r] have "length ?ds \<le> 1" by simp
  then show "rs = []" by (simp add: ds)
qed

lemma deletions_go_through:
  assumes ok: "content_ok db"
    and plain: "\<And>m. m \<in> set (ct_memories db) \<Longrightarrow> mem_external m = Some (thread_group_summary_external_id g) \<Longrightarrow> mem_media m = None"
  shows "(\<exists>x. delete_linked_memories env g (list_group_memories g db) db = Inr x)
    \<longleftrightarrow> first_block g (filter deletes (list_group_memories g db)) db = None"
proof -
  let ?ds = "filter deletes (list_group_memories g db)"
  have keys: "keys_ok db" using ok by (rule store_okD)
  show ?thesis
    unfolding delete_linked_skip [of env g "list_group_memories g db"]
  proof (cases ?ds)
    case (Cons r rs)
    have "r \<in> set ?ds" by (simp only: Cons list.set_intros)
    then have d: "deletes r" by simp
    show "(\<exists>x. delete_linked_memories env g ?ds db = Inr x) \<longleftrightarrow> first_block g ?ds db = None"
    proof
      assume "\<exists>x. delete_linked_memories env g ?ds db = Inr x"
      then obtain x where x: "delete_linked_memories env g (r # rs) db = Inr x" unfolding Cons by blast
      have "rs = []"
      proof (cases rs)
        case (Cons r' rs')
        have "r' \<in> set ?ds" by (simp only: \<open>?ds = r # rs\<close> Cons list.set_intros)
        then have "deletes r'" by simp
        with second_deletion_fails [OF ok x [unfolded Cons] d] show ?thesis by simp
      qed simp
      from x d have "length (list_memory_groups (gm_memory r) db) = 1"
        "validate_delete_target g (gm_memory r) (gm_purpose r) db = Inr ()"
        by (auto simp: Let_def elim!: and_then_InrE split: if_splits)
      then have "link_block g r db = None" by (simp only: link_block_None [OF keys] simp_thms)
      with \<open>rs = []\<close> show "first_block g ?ds db = None" by (simp add: Cons)
    next
      assume free: "first_block g ?ds db = None"
      note one = one_deletion [OF keys free Cons]
      have v: "validate_delete_target g (gm_memory r) (gm_purpose r) db = Inr ()"
        using free link_block_None [OF keys, of g r] by (auto simp: Cons split: option.splits)
      obtain m where m: "find_memory (gm_memory r) db = Some m" "mem_external m = Some (thread_group_summary_external_id g)"
        using validated_memory [OF keys v] .
      then have "mem_media m = None" using plain by (simp add: find_memory_Some [OF keys])
      from deletion_goes_through [OF keys m(1) this] obtain db' where
        "delete_memory env (gm_memory r) db = Inr ((True, []), db')" .
      then show "\<exists>x. delete_linked_memories env g ?ds db = Inr x"
        using one v d by (simp add: Cons Let_def)
    qed
  qed simp
qed

lemma blocked_reason_free:
  "blocked_reason wired g st summary links active inbound db = [] \<longleftrightarrow>
    first_block g (filter deletes links) db = None \<and> \<not> unlinked_summary summary links \<and> active = 0
    \<and> \<not> (st = GroupSplit \<and> 0 < inbound) \<and> \<not> (\<not> wired \<and> list_ex deletes links)"
  by (auto simp: blocked_reason_def dest: first_block_text split: option.splits)

text \<open>
  C10. A purge goes through exactly when the digest is the one of the preview of the present state
  and this preview gave no reason against it (for a group whose summary has no image): the preview
  neither promises a purge that then fails nor withholds one that would be done, and a stale
  digest is always refused.
\<close>

theorem purge_preview_decides:
  assumes ok: "sound db" and on: "ce_group_writes env"
    and p: "purge_preview env js wired g db = Inr (Some p)"
    and plain: "list_all (\<lambda>m. mem_external m = Some (thread_group_summary_external_id g) \<longrightarrow> mem_media m = None) (ct_memories db)"
  shows "isl (purge_group env js wired g digest db) \<longleftrightarrow> digest \<noteq> pp_digest p \<or> pp_blocked p \<noteq> []"
proof -
  from ok have t: "tables_ok db" "redirects_flat db" and content: "content_ok db"
    by (simp_all add: sound_def graph_ok_def placed_ok_def)
  obtain row where row: "find_group g db = Some row" using p by (auto simp: purge_preview_def split: option.splits)
  let ?links = "list_group_memories g db" and ?summary = "find_by_external_id (thread_group_summary_external_id g) db"
  let ?inbound = "map g_id (filter (\<lambda>h. g_redirect h = Some g) (list_redirected db))"
  from p row have m: "pm_status (pp_manifest p) = g_status row" "pm_inbound (pp_manifest p) = sort ?inbound"
    "pp_blocked p = blocked_reason wired g (g_status row) ?summary ?links (pm_active_members (pp_manifest p)) (length ?inbound) db"
    by (auto simp: purge_preview_def Let_def split: if_splits)
  have inbound: "pm_inbound (pp_manifest p) \<noteq> [] \<longleftrightarrow> 0 < length ?inbound"
    unfolding m(2) by (metis length_greater_0_conv length_sort)
  have "content_ok (history_purged g db)" by (rule store_ok_same [OF _ content]) (simp add: same_content_def)
  from deletions_go_through [OF this, of g env] plain
  have loop: "(\<exists>x. delete_linked_memories env g ?links (history_purged g db) = Inr x)
      \<longleftrightarrow> first_block g (filter deletes ?links) db = None" by (auto simp: list_all_iff)
  obtain n where tx: "purge_tx env g row db =
    and_then (delete_linked_memories env g ?links (history_purged g db)) (\<lambda>(jobs, db1).
      let (gone, db2) = delete_group g (delete_group_memories_of_group g db1)
      in if gone then Inr ((n\<lparr>po_memories := map gm_memory (filter deletes ?links)\<rparr>, jobs), db2)
         else Inl (Bailed ''group disappeared during purge''))"
    using purge_tx_eq [OF t row] by blast
  have went: "\<not> isl (purge_tx env g row db) \<longleftrightarrow> first_block g (filter deletes ?links) db = None"
  proof (cases "delete_linked_memories env g ?links (history_purged g db)")
    case (Inl e)
    with loop tx show ?thesis by auto
  next
    case (Inr x)
    obtain jobs db1 where x: "x = (jobs, db1)" by (cases x)
    have "db_groups db1 = db_groups db"
      using linked_memories_kept [OF Inr [unfolded x]] group_side_fields(1) [of db1 "history_purged g db"] by simp
    then have "fst (delete_group g (delete_group_memories_of_group g db1))"
      using find_in_groups [OF row] by (auto simp: delete_group_def delete_group_memories_of_group_def list_ex_iff)
    with loop tx Inr x show ?thesis by (auto simp: case_prod_beta)
  qed
  show ?thesis
    using on p row went inbound m(1,3)
    by (auto simp: purge_group_def ensure_thread_group_writes_def Let_def blocked_reason_free)
qed

text \<open>
  C12. A purge keeps the invariant of the whole store exactly when no other group redirects to
  the purged one. Purges of redirected and of split groups always keep it; a group that still
  counts as active, but whose threads are all deleted, is removed even when merged groups
  redirect to it, and their redirects then point at nothing.
\<close>

theorem purge_keeps_invariant:
  assumes "sound db" "purge_group env js wired g digest db = Inr (out, db')"
  shows "(sound db' \<longleftrightarrow> list_redirecting_to g db = [])
    \<and> (list_redirecting_to g db = [] \<or> map_option g_status (find_group g db) = Some GroupActive)"
  by (intro conjI purge_graph [OF assms])

subsection \<open>The operations of the store with links and purges\<close>

lemma link_existing_sound:
  fixes db :: content_db
  assumes "link_existing env g m purpose policy db = Inr db'" "sound db"
  shows "sound db'"
proof -
  have "db' = db \<or> (\<exists>rs. db' = db\<lparr>ct_group_memories := rs\<rparr>)"
    using assms(1) by (auto simp: link_existing_def insert_group_memory_def Let_def elim!: and_then_InrE split: list.splits if_splits)
  moreover have "db = db\<lparr>ct_group_memories := ct_group_memories db\<rparr>" by simp
  ultimately obtain rs where db': "db' = db\<lparr>ct_group_memories := rs\<rparr>" by metis
  have "content_ok db'" by (rule store_ok_same [of db]) (use assms(2) in \<open>simp_all add: db' same_content_def sound_def\<close>)
  moreover have "graph_ok db'" by (rule group_side_graph [of _ db]) (use assms(2) in \<open>simp_all add: db' sound_def\<close>)
  ultimately show ?thesis by (simp add: sound_def)
qed

inductive store_step :: "content_db \<Rightarrow> content_db \<Rightarrow> bool" where
  operated: "system_step db db' \<Longrightarrow> store_step db db'"
| linked_to_group: "link_existing env g m purpose policy db = Inr db' \<Longrightarrow> store_step db db'"
| purged_group: "purge_group env js wired g digest db = Inr (out, db') \<Longrightarrow> list_redirecting_to g db = [] \<Longrightarrow>
    store_step db db'"

lemma store_step_sound: "store_step db db' \<Longrightarrow> sound db \<Longrightarrow> sound db'"
  by (induction rule: store_step.induct) (auto intro: system_step_sound link_existing_sound simp: purge_graph(1))

interpretation maintained: invariant_system fresh_content store_step sound
  by unfold_locales (auto intro: fresh_sound store_step_sound)

subsection \<open>A group that another was merged into\<close>

definition sample_group :: "int \<Rightarrow> group_status \<Rightarrow> int option \<Rightarrow> group_row" where
  "sample_group i st target = \<lparr>g_id = i, g_user = 7, g_key = ''g'', g_title = None, g_status = st, g_authority = ByReconciler,
     g_redirect = target, g_created = 1, g_updated = 1\<rparr>"

definition purge_sample :: "bool \<Rightarrow> content_db" where
  "purge_sample merged = no_content\<lparr>
     db_groups := sample_group 1 GroupActive None # (if merged then [sample_group 2 GroupRedirected (Some 1)] else []),
     db_members := [\<lparr>mb_group = 1, mb_thread = None, mb_key = ''k'', mb_user = 7, mb_source = Some ''codex'', mb_scope = Some [],
        mb_native = Some ''s'', mb_role = RoleRoot, mb_state = MemberDeleted, mb_provenance = ByReconciler,
        mb_deleted_at = Some 5, mb_created = 1, mb_updated = 5\<rparr>],
     db_markers := [\<lparr>mk_identity = \<lparr>ik_user = 7, ik_source = ''codex'', ik_scope = [], ik_native = ''s''\<rparr>, mk_forbid = False,
        mk_recursive = False, mk_actor = ''a'', mk_reason = None, mk_deleted_at = 5, mk_thread_key = Some ''k''\<rparr>],
     ct_threads := [\<lparr>th_id = 60, th_default = None, th_user = 7, th_description = None, th_channel = None, th_embedding = None,
        th_embedding_dim = None, th_created = 1, th_updated = 1, th_first_message = Some 3, th_last_message = Some 3,
        th_metadata = None, th_kind = Some 8\<rparr>],
     ct_memories := [\<lparr>mem_id = 50, mem_parents = [], mem_user = 7, mem_content = ''summary'', mem_content_type = 1,
        mem_params = None, mem_metadata = None, mem_created = 3, mem_updated = 3, mem_role = 2,
        mem_external = Some (thread_group_summary_external_id 1), mem_media = None, mem_kind = Some 8\<rparr>],
     ct_links := [\<lparr>ln_thread = 60, ln_memory = 50, ln_position = 0, ln_created = 3\<rparr>],
     ct_labels := [\<lparr>lb_thread = 60, lb_label = ''thread_group_summary'', lb_created = 1\<rparr>,
        \<lparr>lb_thread = 60, lb_label = ''group_1'', lb_created = 1\<rparr>],
     ct_group_memories := [\<lparr>gm_group = 1, gm_memory = 50, gm_purpose = ''summary'', gm_policy = ''delete'', gm_created = 3\<rparr>]\<rparr>"

definition purge_env :: content_env where
  "purge_env = run_env\<lparr>ce_group := plain_env\<lparr>env_sha := (\<lambda>x. x)\<rparr>\<rparr>"

definition sample_json :: purge_json where
  "sample_json = \<lparr>pj_member = mb_key, pj_identity = ik_native, pj_manifest = (\<lambda>m. concat (pm_members m))\<rparr>"

abbreviation purge_run :: "bool \<Rightarrow> string \<Rightarrow> content_error + (purge_outcome \<times> media_job list) \<times> content_db" where
  "purge_run merged digest \<equiv> purge_group purge_env sample_json True 1 digest (purge_sample merged)"

definition purged :: "bool \<Rightarrow> content_db" where
  "purged merged = run_result (purge_run merged ''k'') (purge_sample merged)"

lemma purge_sample_sound: "sound (purge_sample merged)"
proof -
  have "content_ok (purge_sample True) \<and> content_ok (purge_sample False)" by code_simp
  then have "content_ok (purge_sample merged)" by (cases merged) simp_all
  moreover have "placed_ok (purge_sample True) \<and> placed_ok (purge_sample False)" by code_simp
  then have "placed_ok (purge_sample merged)" by (cases merged) simp_all
  moreover have "active_edges (purge_sample merged) = {}" by (simp add: active_edges_def purge_sample_def no_content_def)
  ultimately show ?thesis by (simp add: sound_def graph_ok_def acyclic_def)
qed

lemma purge_sample_preview:
  obtains p where "purge_preview purge_env sample_json True 1 (purge_sample True) = Inr (Some p)"
    "pp_digest p = ''k''" "pp_blocked p = []"
proof -
  let ?r = "purge_preview purge_env sample_json True 1 (purge_sample True)"
  have "\<not> isl ?r" by code_simp
  moreover have "map_option pp_digest (projr ?r) = Some ''k''" by code_simp
  moreover have "map_option pp_blocked (projr ?r) = Some []" by code_simp
  ultimately show ?thesis using that by (cases ?r) auto
qed

lemma purge_sample_runs: "\<exists>out. purge_run merged ''k'' = Inr (out, purged merged)"
proof -
  have "\<not> isl (purge_run True ''k'') \<and> \<not> isl (purge_run False ''k'')" by code_simp
  then have "\<not> isl (purge_run merged ''k'')" by (cases merged) simp_all
  then show ?thesis by (auto simp: purged_def run_result_def split: sum.splits)
qed

theorem purge_preview_decides_witness:
  "isl (purge_run True ''stale'') \<and> \<not> isl (purge_run True ''k'')"
proof -
  obtain p where p: "purge_preview purge_env sample_json True 1 (purge_sample True) = Inr (Some p)"
    "pp_digest p = ''k''" "pp_blocked p = []" using purge_sample_preview .
  have on: "ce_group_writes purge_env" by (simp add: purge_env_def run_env_def)
  have plain: "list_all (\<lambda>m. mem_external m = Some (thread_group_summary_external_id 1) \<longrightarrow> mem_media m = None)
      (ct_memories (purge_sample True))" by (simp add: purge_sample_def)
  show ?thesis
    unfolding purge_preview_decides [OF purge_sample_sound on p(1) plain] by (simp add: p(2,3))
qed


theorem purge_keeps_invariant_witness: "\<not> sound (purged True) \<and> sound (purged False)"
proof -
  have "list_redirecting_to 1 (purge_sample True) \<noteq> [] \<and> list_redirecting_to 1 (purge_sample False) = []" by code_simp
  moreover obtain a b where "purge_run True ''k'' = Inr (a, purged True)"
    "purge_run False ''k'' = Inr (b, purged False)"
    using purge_sample_runs [of True] purge_sample_runs [of False] by blast
  ultimately show ?thesis using purge_keeps_invariant [OF purge_sample_sound] by blast
qed

end
