(* ===== verification/Spec2Isabelle.thy ===== *)
theory Spec2Isabelle
  imports Store_Prelude Thread_Keys Group_Domain External_Ids Migration_Task Index_Maintenance
    Maintenance_Safety Maintenance_Backoff Reconcile_Round Highlights Search_Filter Embedding_Space
    Group_Store Group_Placement Group_Invariant Group_Subtree Group_Evidence Group_Reconcile Group_Graph
    Group_Frame Group_Adoption Group_Decision Group_Preview Group_Operator Group_Merge Partition_Text
    Group_Split Group_System Media_Objects Media_System Media_Counts Media_Bytes Media_Runs
    Result_Rules Content_Store Content_Invariant Thread_Content Content_Groups Thread_Import Thread_Deletion
    Content_System Import_References Import_Chunks Import_Client Import_Runs Whole_System Group_Purge
begin

text \<open>
  A verification development for memory-store, a store of agent memories and conversation
  threads with a relational database, LanceDB vector and full-text indexes, a gRPC server, an
  administration server with a migration tool, and an importer of agent chat histories. Paths
  below are relative to the repository.

  Theories.

  \<open>Store_Prelude\<close>: results as sums, byte strings (one \<open>char\<close> per UTF-8 byte), the decimal
  conversions of the Rust standard library, \<open>i64\<close> with checked and wrapping addition, an
  ordered map with the laws of \<open>BTreeMap\<close>, and the interfaces \<open>ordered_map\<close>, \<open>prefix_code\<close>
  and \<open>invariant_system\<close>.

  \<open>Thread_Keys\<close>: \<open>common/src/thread_group_key.rs\<close>. The canonical serialization of field lists
  is a prefix code, so keys and fingerprints agree exactly when their fields do, for a
  collision-free digest. \<open>nfc\<close> (Unicode normalization) and \<open>sha\<close> (SHA-256) are arguments.

  \<open>Group_Domain\<close>: \<open>app/src/app/thread_group/domain.rs\<close>. Parent selection, cycle check and
  group split, each with its exact specification.

  \<open>Group_Store\<close>: the tables of groups, members and relations
  (\<open>infra/src/infra/thread_group\<close>) as lists of rows, one definition per SQL statement, with the
  CHECK constraints and unique indexes; a violated constraint is an error value.
  \<open>Group_Placement\<close>: \<open>place_member\<close>, \<open>resolve_anchor_group\<close>, \<open>ensure_membership\<close> and the
  walks of \<open>app/src/app/thread_group/reconcile.rs\<close>. \<open>Group_Invariant\<close>: the invariant of the
  tables and the exact effect of placing one thread. \<open>Group_Subtree\<close>: what happens to a whole
  subtree. A transaction is a function on the tables whose error discards the state.

  \<open>Group_Evidence\<close>: the tables of observations, candidate associations, source identities,
  canonical keys, deletion markers, operator decisions and outbox events, an extension of the
  tables before, and \<open>record_observation_and_event\<close> with its idempotence
  (\<open>app/src/app/thread_group/observation.rs\<close>). \<open>Group_Reconcile\<close>: the rest of \<open>reconcile.rs\<close>, the
  transaction behind \<open>reconcile_subject\<close> and \<open>reconcile_imported_subject\<close> and the later look at
  pending observations, one definition per step in the order of the code. \<open>Group_Graph\<close>: the
  invariant \<open>graph_ok\<close> (placement invariant and acyclic relations) and that every step keeps it;
  \<open>Group_Frame\<close>: which step writes which table; \<open>Group_Adoption\<close>: what evidence does to the
  parents of a thread. \<open>Group_Decision\<close>: \<open>record_operator_decision\<close>, what it does to the parents,
  the associations and the decisions. \<open>Group_Preview\<close>: \<open>preview_import\<close> against the candidates the
  import collects, where the two differ, and \<open>ensure_thread_canonical_key\<close>. A CHECK that compares a
  missing value is not violated, as in SQL: evidence without a confidence is stored.

  \<open>Group_Operator\<close>: merge, split and attach of \<open>app/src/app/thread_group/operator.rs\<close> with the
  audit table; \<open>Group_Merge\<close> and \<open>Group_Split\<close> their exact effects, the split as a refinement of
  the domain rule; \<open>Partition_Text\<close> that the JSON text of a partition determines it.
  \<open>Group_System\<close>: all operations as one step relation, and the invariant in every reachable
  state; a step is one committed transaction, so that a reconciliation is its main step and one
  for every pending observation it looks at afterwards, with other operations in between. The thread rows are read through \<open>owner_of\<close> (user id of a thread); the advisory locks
  serialize the transactions and are not modelled; \<open>env_id\<close> is the id generator.

  \<open>External_Ids\<close>: \<open>common/src/external_id.rs\<close> and the label, id and path helpers of
  \<open>agent-chat-import/src/common\<close>. Separation of owners, truncation at character boundaries.

  \<open>Migration_Task\<close>: \<open>grpc-admin/src/db_migrate/state.rs\<close>. The task table is a map from task
  identities to rows; each SQL statement is a function on it; the executors are a step
  relation. The locale \<open>fenced_store\<close> states what every fenced write promises.

  \<open>Index_Maintenance\<close>, \<open>Maintenance_Safety\<close>, \<open>Maintenance_Backoff\<close>, \<open>Reconcile_Round\<close>:
  \<open>infra/src/infra/search_index_maintenance.rs\<close>. The state behind the mutex with the permit of
  the semaphore, one definition per critical section, a step relation of all their
  interleavings with its invariant (which tasks and checks can overlap), retry decisions, and whole reconcile rounds in a world
  that runs other critical sections at each await. The executor is an argument; so are \<open>fl\<close>
  (rounding to \<open>f64\<close>) and \<open>pow_f64\<close> (\<open>powi\<close>, \<open>None\<close> when it is not finite).

  \<open>Highlights\<close>: \<open>infra/src/infra/memory_vector/highlight.rs\<close>. Texts are lists of Unicode
  scalar values with byte offsets computed; character classes, case mapping, the stemmer and
  Lindera are in the record \<open>text_library\<close>.

  \<open>Search_Filter\<close>: \<open>infra/src/infra/memory_vector/safe_filter.rs\<close>. The filter expressions
  with a row semantics, against what a request asks of the record itself (the thread filter and
  the external id prefix of a request are resolved by the callers); the rendering to SQL. What
  DataFusion makes of a column name that is not a constant is an argument.

  \<open>Embedding_Space\<close>: \<open>infra/src/infra/embedding_space.rs\<close> with \<open>record.rs\<close>, \<open>startup.rs\<close>,
  \<open>bootstrap.rs\<close> and \<open>token.rs\<close>. Records in the manifest config, the startup rules in their
  order, their application and restarts, the write check. JSON and SHA-256 are in the record
  \<open>space_library\<close>.

  \<open>Media_Objects\<close>, \<open>Media_System\<close>: media storage, \<open>infra/src/infra/media_object\<close>,
  \<open>infra/src/infra/media_storage\<close>, \<open>app/src/app/media_object.rs\<close> and \<open>media_gc.rs\<close>. The rows with
  one definition per SQL statement, the storage backend as a map of keys to bytes with what its
  operations promise, and every upload, registration, deletion, memory write and sweep as a
  job: a job holds what the code has read so far, \<open>advance\<close> runs it to its next transaction or
  storage call, and \<open>media_step\<close> interleaves the jobs of all servers with crashes.
  \<open>Media_Counts\<close>: reference counts equal links in every interleaving. \<open>Media_Bytes\<close>: confirmed
  rows have their bytes, as long as no risky step happens; \<open>Media_Runs\<close>: what the risky steps do
  (a crash inside a delete, an upload slower than the grace period), and exact small runs.

  \<open>Content_Store\<close>: the tables of threads, memories, their junction, labels, ratings and group
  memories (\<open>infra/src/infra/thread\<close>, \<open>memory\<close>, \<open>thread_memory\<close>, \<open>thread_label\<close>), an extension of
  the group tables. \<open>Content_Invariant\<close>: their invariant, statement by statement, with the rules
  of \<open>Result_Rules\<close> for what a fallible operation yields. \<open>Thread_Content\<close>: the transactions of
  \<open>app/src/app/thread.rs\<close> and \<open>memory.rs\<close>. \<open>Thread_Import\<close>: \<open>add_memories_batch\<close> with the deletion
  markers, the identity mapping, overwriting by external id and forward references.
  \<open>Thread_Deletion\<close>: \<open>delete_thread_with_policy\<close>. \<open>Content_Groups\<close>: which half of the state each of
  them writes. \<open>Content_System\<close>: all of them as one step relation, and the round trip of deletion
  and import. \<open>Whole_System\<close>: the operations on groups and evidence leave threads and memories alone,
  and all operations of both parts as one step relation with its invariant. \<open>Import_References\<close>: the
  parents of imported memories, and repeated imports.

  \<open>Group_Purge\<close>: \<open>app/src/app/thread_group/lifecycle.rs\<close>, the preview and the purge of a group's
  history, and \<open>link_existing\<close>, which relates a memory to a group. What a purge removes, that its
  preview decides whether it goes through, and the one case in which it breaks the invariant of the
  store. The texts under the digest of a preview are an argument.

  \<open>Import_Chunks\<close>, \<open>Import_Client\<close>, \<open>Import_Runs\<close>: the shared importer of
  \<open>agent-chat-import/src/common/importer.rs\<close>. The server is a record of calls on a state of its own, the
  trait \<open>ImportClient\<close>; a failed call is its error text, and the order in which concurrent calls take
  effect is a field of the environment, as are the JSON text, encoded lengths, SHA-256, base64 and URL
  parsing. \<open>Import_Chunks\<close>: entries and how they are packed into batches, by \<open>split_chunks\<close> and by
  \<open>ChunkBuilder\<close>, both greedy. \<open>Import_Client\<close>: the messages built from a session, attachments, both
  loops, the OpenCode preflight and rewiring. \<open>Import_Runs\<close>: the metadata of a memory, that every item
  is counted once, and that the streaming loop and the older loop make the same calls.

  Bounds. Machine integers are \<open>int\<close> or \<open>nat\<close> with the checked or wrapped operation written
  out where a value can leave its range. No definition uses fuel: every loop of the modelled
  code ends, by a measure where the recursion is not structural.

  Not modelled: the gRPC services and protocol buffers, SQL beyond the statements named
  above, the list queries of threads and memories, the global cleanup of orphans, searching
  and listing groups, LanceDB and its storage, jobworkerp dispatch, the importers' parsers and
  their loops over sessions, event logs and retries,
  the HTTP and S3 transport of media storage, reflections, the other steps of the migration tool, configuration from the
  environment.
\<close>

end
